(* ===== verification/Prelude.thy ===== *)
theory Prelude
  imports Main "HOL-Library.AList" "HOL-Library.Char_ord" "HOL-Library.List_Lexorder"
begin

text \<open>
  Shared vocabulary of the development: the lemma collections, the parts of Go's
  standard library the program's string handling uses (package \<open>strings\<close>,
  \<open>strconv\<close>), generic facts on association lists, and the transition-system
  interface that the stateful components interpret.

  A Go string is a sequence of bytes and so is an Isabelle \<^typ>\<open>string\<close>. The case
  mappings and the white-space test below are exact on ASCII bytes and leave bytes
  from 128 on as they are; every name, path, scope and platform string the program
  compares is restricted to ASCII by its own validation.
\<close>

named_theorems go_string "characterisations of Go's string functions"
named_theorems al_simps "association lists as maps"

section \<open>Go strings\<close>

text \<open>\<open>strings.HasPrefix\<close>, \<open>HasSuffix\<close>, \<open>TrimPrefix\<close>, \<open>Contains\<close> (of one byte), \<open>Cut\<close>,
  the split at the last occurrence, \<open>Split\<close> and \<open>Join\<close>.\<close>

definition has_prefix :: "string \<Rightarrow> string \<Rightarrow> bool" where
  "has_prefix s p = (take (length p) s = p)"

definition has_suffix :: "string \<Rightarrow> string \<Rightarrow> bool" where
  "has_suffix s p = has_prefix (rev s) (rev p)"

definition trim_prefix :: "string \<Rightarrow> string \<Rightarrow> string" where
  "trim_prefix s p = (if has_prefix s p then drop (length p) s else s)"

fun contains_str :: "string \<Rightarrow> string \<Rightarrow> bool" where
  "contains_str [] p = (p = [])"
| "contains_str (x # xs) p = (has_prefix (x # xs) p \<or> contains_str xs p)"

fun cut_at :: "char \<Rightarrow> string \<Rightarrow> string \<times> string \<times> bool" where
  "cut_at c [] = ([], [], False)"
| "cut_at c (x # xs) =
     (if x = c then ([], xs, True)
      else (case cut_at c xs of (b, a, ok) \<Rightarrow> if ok then (x # b, a, True) else (x # xs, [], False)))"

definition cut_last :: "char \<Rightarrow> string \<Rightarrow> string \<times> string \<times> bool" where
  "cut_last c s =
     (case cut_at c (rev s) of (b, a, ok) \<Rightarrow> if ok then (rev a, rev b, True) else (s, [], False))"

fun split_on :: "char \<Rightarrow> string \<Rightarrow> string list" where
  "split_on c [] = [[]]"
| "split_on c (x # xs) =
     (if x = c then [] # split_on c xs
      else (case split_on c xs of [] \<Rightarrow> [[x]] | s # ss \<Rightarrow> (x # s) # ss))"

fun join_with :: "string \<Rightarrow> string list \<Rightarrow> string" where
  "join_with sep [] = []"
| "join_with sep [s] = s"
| "join_with sep (s # t # ss) = s @ sep @ join_with sep (t # ss)"

text \<open>\<open>strings.ToLower\<close>, \<open>EqualFold\<close>, \<open>TrimLeft\<close>, \<open>Trim\<close> and \<open>TrimSpace\<close>.\<close>

definition is_digit :: "char \<Rightarrow> bool" where
  "is_digit c \<longleftrightarrow> 48 \<le> (of_char c :: nat) \<and> (of_char c :: nat) \<le> 57"

definition is_lower :: "char \<Rightarrow> bool" where
  "is_lower c \<longleftrightarrow> 97 \<le> (of_char c :: nat) \<and> (of_char c :: nat) \<le> 122"

definition is_upper :: "char \<Rightarrow> bool" where
  "is_upper c \<longleftrightarrow> 65 \<le> (of_char c :: nat) \<and> (of_char c :: nat) \<le> 90"

definition lower_char :: "char \<Rightarrow> char" where
  "lower_char c = (if is_upper c then char_of ((of_char c :: nat) + 32) else c)"

definition to_lower :: "string \<Rightarrow> string" where
  "to_lower s = map lower_char s"

definition equal_fold :: "string \<Rightarrow> string \<Rightarrow> bool" where
  "equal_fold s t \<longleftrightarrow> to_lower s = to_lower t"

definition trim_left :: "string \<Rightarrow> string \<Rightarrow> string" where
  "trim_left s cs = dropWhile (\<lambda>c. c \<in> set cs) s"

definition trim_chars :: "string \<Rightarrow> string \<Rightarrow> string" where
  "trim_chars s cs = rev (trim_left (rev (trim_left s cs)) cs)"

definition white_space :: string where
  "white_space = map char_of [9, 10, 11, 12, 13, 32 :: nat]"

definition trim_space :: "string \<Rightarrow> string" where
  "trim_space s = trim_chars s white_space"

text \<open>\<open>strconv.ParseInt(s, 10, 64)\<close> and \<open>strconv.FormatInt(n, 10)\<close>.\<close>

fun digits_val :: "int \<Rightarrow> string \<Rightarrow> int option" where
  "digits_val acc [] = Some acc"
| "digits_val acc (c # cs) =
     (if is_digit c then digits_val (10 * acc + int (of_char c - 48)) cs else None)"

definition parse_uint :: "string \<Rightarrow> int option" where
  "parse_uint s = (if s = [] then None else digits_val 0 s)"

definition parse_int64 :: "string \<Rightarrow> int option" where
  "parse_int64 s =
     (case s of [] \<Rightarrow> None
      | c # cs \<Rightarrow>
         (let neg = (c = CHR ''-''); body = (if neg \<or> c = CHR ''+'' then cs else s) in
          case parse_uint body of None \<Rightarrow> None
          | Some n \<Rightarrow>
              if neg then (if n \<le> 2 ^ 63 then Some (- n) else None)
              else (if n < 2 ^ 63 then Some n else None)))"

fun format_nat :: "nat \<Rightarrow> string" where
  "format_nat n =
     (if n < 10 then [char_of (48 + n)] else format_nat (n div 10) @ [char_of (48 + n mod 10)])"

declare format_nat.simps [simp del]

definition format_int :: "int \<Rightarrow> string" where
  "format_int i = (if i < 0 then CHR ''-'' # format_nat (nat (- i)) else format_nat (nat i))"

section \<open>Facts on strings\<close>

lemma has_prefix_iff [go_string]: "has_prefix s p \<longleftrightarrow> (\<exists>r. s = p @ r)"
  by (auto simp: has_prefix_def) (metis append_take_drop_id)

lemma has_prefix_append [simp]: "has_prefix (p @ r) p"
  by (simp add: has_prefix_def)

lemma has_prefix_same [simp]: "has_prefix s s"
  by (simp add: has_prefix_def)

lemma has_prefix_trans: "has_prefix s p \<Longrightarrow> has_prefix p q \<Longrightarrow> has_prefix s q"
  by (auto simp: has_prefix_iff)

lemma trim_prefix_append [simp]: "trim_prefix (p @ r) p = r"
  by (simp add: trim_prefix_def)

lemma trim_prefix_cases: "trim_prefix s p = s \<or> s = p @ trim_prefix s p"
  by (auto simp: trim_prefix_def has_prefix_iff)

lemma cut_at_append [simp]: "c \<notin> set b \<Longrightarrow> cut_at c (b @ c # a) = (b, a, True)"
  by (induction b) auto

lemma cut_at_none [simp]: "c \<notin> set s \<Longrightarrow> cut_at c s = (s, [], False)"
  by (induction s) auto

lemma cut_at_found [go_string]:
  "cut_at c s = (b, a, True) \<longleftrightarrow> s = b @ c # a \<and> c \<notin> set b"
proof (cases "c \<in> set s")
  case True
  then obtain u v where "s = u @ c # v" "c \<notin> set u" by (meson split_list_first)
  then show ?thesis by auto (metis cut_at_append fst_conv snd_conv)+
next
  case False
  then show ?thesis by auto
qed

lemma cut_at_missing [go_string]:
  "cut_at c s = (b, a, False) \<longleftrightarrow> c \<notin> set s \<and> b = s \<and> a = []"
proof (cases "c \<in> set s")
  case True
  then obtain u v where "s = u @ c # v" "c \<notin> set u" by (meson split_list_first)
  then show ?thesis by auto
next
  case False
  then show ?thesis by auto
qed

lemma cut_last_append [simp]: "c \<notin> set a \<Longrightarrow> cut_last c (b @ c # a) = (b, a, True)"
  by (simp add: cut_last_def)

lemma cut_last_none [simp]: "c \<notin> set s \<Longrightarrow> cut_last c s = (s, [], False)"
  by (simp add: cut_last_def)

lemma cut_last_found [go_string]:
  "cut_last c s = (b, a, True) \<longleftrightarrow> s = b @ c # a \<and> c \<notin> set a"
proof (cases "c \<in> set s")
  case True
  then obtain u v where "s = u @ c # v" "c \<notin> set v" by (meson split_list_last)
  then show ?thesis by auto (metis cut_last_append fst_conv snd_conv)+
next
  case False
  then show ?thesis by auto
qed

lemma split_on_nonempty [simp]: "split_on c s \<noteq> []"
  by (induction s) (auto split: list.splits)

lemma split_on_free: "c \<notin> set s \<Longrightarrow> split_on c s = [s]"
  by (induction s) auto

lemma split_on_append: "c \<notin> set b \<Longrightarrow> split_on c (b @ c # a) = b # split_on c a"
  by (induction b) auto

lemma split_on_parts: "p \<in> set (split_on c s) \<Longrightarrow> c \<notin> set p"
  by (induction s arbitrary: p) (auto split: list.splits if_splits)

lemma join_with_Cons: "ss \<noteq> [] \<Longrightarrow> join_with sep (s # ss) = s @ sep @ join_with sep ss"
  by (cases ss) auto

lemma join_split [simp]: "join_with [c] (split_on c s) = s"
proof (induction s)
  case Nil
  then show ?case by simp
next
  case (Cons x s)
  obtain p ps where s: "split_on c s = p # ps" by (meson split_on_nonempty list.exhaust)
  with Cons show ?case by (cases ps) (auto simp: join_with_Cons)
qed

lemma split_join:
  "ss \<noteq> [] \<Longrightarrow> \<forall>s \<in> set ss. c \<notin> set s \<Longrightarrow> split_on c (join_with [c] ss) = ss"
  by (induction ss rule: induct_list012) (auto simp: split_on_free split_on_append)

lemma lower_char_idem [simp]: "lower_char (lower_char c) = lower_char c"
  by (auto simp: lower_char_def is_upper_def)

lemma lower_char_id: "\<not> is_upper c \<Longrightarrow> lower_char c = c"
  by (simp add: lower_char_def)

lemma to_lower_idem [simp]: "to_lower (to_lower s) = to_lower s"
  by (simp add: to_lower_def)

lemma to_lower_append: "to_lower (s @ t) = to_lower s @ to_lower t"
  by (simp add: to_lower_def)

lemma equal_fold_refl [simp]: "equal_fold s s"
  by (simp add: equal_fold_def)

lemma equal_fold_sym: "equal_fold s t \<longleftrightarrow> equal_fold t s"
  by (auto simp: equal_fold_def)

lemma trim_left_head: "trim_left s cs = [] \<or> hd (trim_left s cs) \<notin> set cs"
  by (induction s) (auto simp: trim_left_def)

lemma trim_left_id: "s = [] \<or> hd s \<notin> set cs \<Longrightarrow> trim_left s cs = s"
  by (cases s) (auto simp: trim_left_def)

lemma trim_left_subset: "set (trim_left s cs) \<subseteq> set s"
  by (auto simp: trim_left_def dest: set_dropWhileD)

lemma trim_chars_Nil [simp]: "trim_chars [] cs = []"
  by (simp add: trim_chars_def trim_left_def)

lemma trim_chars_id:
  "s = [] \<or> (hd s \<notin> set cs \<and> last s \<notin> set cs) \<Longrightarrow> trim_chars s cs = s"
proof (cases "s = []")
  case True
  then show ?thesis by (simp add: trim_chars_def trim_left_def)
next
  case False
  moreover assume "s = [] \<or> (hd s \<notin> set cs \<and> last s \<notin> set cs)"
  ultimately have "trim_left s cs = s" "trim_left (rev s) cs = rev s"
    by (auto intro: trim_left_id simp: hd_rev)
  then show ?thesis by (simp add: trim_chars_def)
qed

lemma trim_chars_idem [simp]: "trim_chars (trim_chars s cs) cs = trim_chars s cs"
proof (cases "trim_chars s cs = []")
  case True
  then show ?thesis by (simp only: trim_chars_Nil)
next
  case False
  let ?l = "trim_left s cs" and ?t = "trim_chars s cs"
  have rev_t: "rev ?t = dropWhile (\<lambda>c. c \<in> set cs) (rev ?l)"
    by (simp add: trim_chars_def trim_left_def)
  have rt: "rev ?t = trim_left (rev ?l) cs" by (simp add: trim_chars_def)
  have "hd (rev ?t) \<notin> set cs"
    using False trim_left_head [of "rev ?l" cs] unfolding rt [symmetric] by simp
  with False have last_t: "last ?t \<notin> set cs" by (simp add: hd_rev)
  from rev_t obtain u where "rev ?l = u @ rev ?t"
    by (metis takeWhile_dropWhile_id)
  then have l: "?l = ?t @ rev u" by (metis rev_append rev_rev_ident)
  with False have "hd ?l = hd ?t" by simp
  moreover have "hd ?l \<notin> set cs" using trim_left_head [of s cs] l False by auto
  ultimately show ?thesis using last_t by (simp add: trim_chars_id)
qed

subsection \<open>Decimal numbers\<close>

lemma of_char_digit [simp]: "n < 10 \<Longrightarrow> (of_char (char_of (48 + n) :: char) :: nat) = 48 + n"
  by simp

lemma is_digit_char [simp]: "n < 10 \<Longrightarrow> is_digit (char_of (48 + n :: nat))"
  by (simp add: is_digit_def)

lemma digits_val_append:
  "digits_val acc (s @ t) = (case digits_val acc s of None \<Rightarrow> None | Some v \<Rightarrow> digits_val v t)"
  by (induction acc s rule: digits_val.induct) auto

lemma digits_val_format: "digits_val 0 (format_nat n) = Some (int n)"
proof (induction n rule: format_nat.induct)
  case (1 n)
  show ?case
  proof (cases "n < 10")
    case True
    then show ?thesis by (subst format_nat.simps) simp
  next
    case False
    have m: "n mod 10 < 10" by simp
    have "10 * (n div 10) + n mod 10 = n" by simp
    then have "10 * int (n div 10) + int (n mod 10) = int n" by linarith
    with False 1 m show ?thesis
      by (subst format_nat.simps) (simp add: digits_val_append del: of_char_of)
  qed
qed

lemma format_nat_nonempty [simp]: "format_nat n \<noteq> []"
  by (subst format_nat.simps) simp

lemma format_nat_digits: "c \<in> set (format_nat n) \<Longrightarrow> is_digit c"
proof (induction n rule: format_nat.induct)
  case (1 n)
  then show ?case
    by (cases "n < 10"; subst (asm) (2) format_nat.simps) (auto simp del: of_char_of)
qed

lemma parse_format_int:
  assumes "- (2 ^ 63) \<le> i" "i < 2 ^ 63"
  shows "parse_int64 (format_int i) = Some i"
proof -
  obtain d ds where d: "format_nat (nat i) = d # ds" by (meson format_nat_nonempty list.exhaust)
  then have "is_digit d" using format_nat_digits [of d "nat i"] by simp
  then have "d \<noteq> CHR ''-''" "d \<noteq> CHR ''+''" by (auto simp: is_digit_def)
  with d assms show ?thesis
    using digits_val_format [of "nat i"] digits_val_format [of "nat (- i)"]
    by (auto simp: parse_int64_def format_int_def parse_uint_def Let_def)
qed

lemma format_int_inj:
  "- (2 ^ 63) \<le> a \<Longrightarrow> a < 2 ^ 63 \<Longrightarrow> - (2 ^ 63) \<le> b \<Longrightarrow> b < 2 ^ 63 \<Longrightarrow> format_int a = format_int b \<Longrightarrow> a = b"
  by (metis option.inject parse_format_int)

section \<open>Association lists as maps\<close>

declare update_conv' [al_simps] delete_conv' [al_simps]

lemma al_keys_update [al_simps]: "fst ` set (AList.update k v al) = insert k (fst ` set al)"
  by (induction al) auto

lemma al_distinct_delete: "distinct (map fst al) \<Longrightarrow> distinct (map fst (AList.delete k al))"
  by (rule distinct_delete)

lemma al_lookup_mem: "distinct (map fst al) \<Longrightarrow> (k, v) \<in> set al \<longleftrightarrow> map_of al k = Some v"
  by simp

section \<open>Searching in separated lists\<close>

lemma contains_str_iff: "contains_str s p \<longleftrightarrow> (\<exists>a b. s = a @ p @ b)"
proof (induction s)
  case Nil
  then show ?case by auto
next
  case (Cons x xs)
  have "has_prefix (x # xs) p \<longleftrightarrow> (\<exists>b. x # xs = p @ b)" by (simp add: has_prefix_iff)
  moreover have "(\<exists>a b. x # xs = a @ p @ b) \<longleftrightarrow> (\<exists>b. x # xs = p @ b) \<or> (\<exists>a b. xs = a @ p @ b)"
    by (metis append_Cons append_Nil list.inject neq_Nil_conv)
  ultimately show ?case using Cons by simp
qed

lemma split_on_append_sep: "split_on c (a @ c # b) = split_on c a @ split_on c b"
  by (induction a) (auto split: list.split)

lemma join_framed: "ps \<noteq> [] \<Longrightarrow> c # join_with [c] ps @ [c] = concat (map (\<lambda>p. c # p) ps) @ [c]"
  by (induction ps rule: induct_list012) auto

lemma framed_search:
  assumes "n \<noteq> []" "c \<notin> set n"
  shows "contains_str (c # s @ [c]) (c # n @ [c]) \<longleftrightarrow> n \<in> set (split_on c s)"
proof
  assume "contains_str (c # s @ [c]) (c # n @ [c])"
  then obtain a b where "c # s @ [c] = a @ c # n @ c # b" by (auto simp: contains_str_iff)
  then have "split_on c ([] @ c # s @ [c]) = split_on c (a @ c # n @ c # b)" by simp
  then have "[] # split_on c s @ [[]] = split_on c a @ n # split_on c b"
    unfolding split_on_append_sep by (simp add: split_on_free [OF assms(2)])
  then have "n \<in> set ([] # split_on c s @ [[]])" by (metis in_set_conv_decomp)
  with assms(1) show "n \<in> set (split_on c s)" by simp
next
  assume "n \<in> set (split_on c s)"
  then obtain xs ys where parts: "split_on c s = xs @ n # ys" by (meson split_list)
  then have "c # s @ [c] = concat (map (\<lambda>p. c # p) xs) @ (c # n) @ concat (map (\<lambda>p. c # p) ys) @ [c]"
    using join_framed [of "split_on c s" c] join_split [of c s] by simp
  moreover obtain b where "concat (map (\<lambda>p. c # p) ys) @ [c] = c # b" by (cases ys) auto
  ultimately have "c # s @ [c] = concat (map (\<lambda>p. c # p) xs) @ (c # n @ [c]) @ b" by simp
  then show "contains_str (c # s @ [c]) (c # n @ [c])" unfolding contains_str_iff by blast
qed

section \<open>Transition systems\<close>

text \<open>
  The contract of a stateful component: a step function on its state and an invariant
  that every step keeps. What follows for whole runs is proved once here.
\<close>

locale guarded_system =
  fixes step :: "'s \<Rightarrow> 'e \<Rightarrow> 's"
    and inv :: "'s \<Rightarrow> bool"
    and ok :: "'e \<Rightarrow> bool"
  assumes guarded_inv: "ok e \<Longrightarrow> inv s \<Longrightarrow> inv (step s e)"
begin

lemma guarded_run: "\<forall>e \<in> set es. ok e \<Longrightarrow> inv s \<Longrightarrow> inv (foldl step s es)"
  by (induction es arbitrary: s) (auto intro: guarded_inv)

end

locale transition_system =
  fixes step :: "'s \<Rightarrow> 'e \<Rightarrow> 's"
    and inv :: "'s \<Rightarrow> bool"
  assumes step_inv: "inv s \<Longrightarrow> inv (step s e)"
begin

lemma run_inv: "inv s \<Longrightarrow> inv (foldl step s es)"
  by (induction es arbitrary: s) (auto intro: step_inv)

lemma run_prefix_inv: "inv s \<Longrightarrow> inv (foldl step s (take n es))"
  by (rule run_inv)

end

sublocale transition_system \<subseteq> guarded_system step inv "\<lambda>e. True"
  by unfold_locales (rule step_inv)

section \<open>Relations\<close>

text \<open>Edges from one node into nodes that do not lead back to it close no cycle.\<close>

lemma acyclic_fan:
  assumes "acyclic r" "\<forall>j \<in> J. (j, i) \<notin> r\<^sup>*"
  shows "acyclic (r \<union> {(i, j) | j. j \<in> J})"
proof -
  let ?s = "r \<union> {(i, j) | j. j \<in> J}"
  have stay: "(j, b) \<in> r\<^sup>*" if "(a, b) \<in> ?s\<^sup>*" "(j, a) \<in> r\<^sup>*" "j \<in> J" for a b j
    using that(1)
  proof (induction rule: rtrancl_induct)
    case base
    show ?case by (rule that(2))
  next
    case (step b c)
    then show ?case using assms(2) that(3) by (auto intro: rtrancl_into_rtrancl)
  qed
  have split: "(a, b) \<in> r\<^sup>+ \<or> (\<exists>j \<in> J. (a, i) \<in> ?s\<^sup>* \<and> (j, b) \<in> ?s\<^sup>*)" if "(a, b) \<in> ?s\<^sup>+" for a b
    using that
  proof (induction rule: trancl_induct)
    case (base b)
    then show ?case by auto
  next
    case (step b c)
    show ?case
    proof (cases "(b, c) \<in> r")
      case True
      with step.IH show ?thesis by (meson UnCI rtrancl_into_rtrancl trancl_into_trancl)
    next
      case False
      with step.hyps(2) have "b = i" "c \<in> J" by auto
      moreover from step.hyps(1) have "(a, b) \<in> ?s\<^sup>*" by (rule trancl_into_rtrancl)
      ultimately show ?thesis by auto
    qed
  qed
  have "(a, a) \<notin> ?s\<^sup>+" for a
  proof
    assume "(a, a) \<in> ?s\<^sup>+"
    from split [OF this] assms(1) obtain j where "j \<in> J" "(a, i) \<in> ?s\<^sup>*" "(j, a) \<in> ?s\<^sup>*" by (auto simp: acyclic_def)
    then have "(j, i) \<in> ?s\<^sup>*" by (meson rtrancl_trans)
    with stay [of j i j] \<open>j \<in> J\<close> assms(2) show False by auto
  qed
  then show ?thesis by (simp add: acyclic_def)
qed

end
