(* ===== verification/Db_Types.thy ===== *)
theory Db_Types
  imports Prelude
begin

text \<open>
  The data types of \<open>internal/db\<close>: the rows of the main tables (\<open>models.go\<close>), and the
  platform, kind, scope and token helpers of \<open>types.go\<close>. An \<open>OS\<close>, \<open>Arch\<close> or \<open>Kind\<close> is
  a string with named constants, as in the source; a Go function returning
  \<open>(value, ok)\<close> returns a pair, one returning \<open>(value, error)\<close> a sum with the error
  on the left. A time is an integer (nanoseconds since the epoch), a nullable column
  an option.
\<close>

type_synonym time = int
type_synonym OS = string
type_synonym Arch = string
type_synonym Kind = string
type_synonym Versioning = string

section \<open>Rows\<close>

record api_token =
  t_id :: int
  t_name :: string
  t_hash :: string
  t_prefix :: string
  t_project_id :: "int option"
  t_scopes :: string
  t_expires_at :: "time option"
  t_last_used_at :: "time option"
  t_created_at :: time

record artifact =
  a_id :: int
  a_release_id :: int
  a_os :: OS
  a_arch :: Arch
  a_kind :: Kind
  a_storage_key :: string
  a_size :: int
  a_sha256 :: string
  a_stripped_storage_key :: string
  a_stripped_size :: int
  a_stripped_sha256 :: string
  a_debug_storage_key :: string
  a_debug_size :: int
  a_filename :: string
  a_exe_format :: string
  a_created_at :: time

record release =
  r_id :: int
  r_project_id :: int
  r_version :: string
  r_version_num :: int
  r_git_branch :: string
  r_git_commit :: string
  r_notes :: string
  r_oci_user :: string
  r_published :: bool
  r_draft :: bool
  r_created_at :: time
  r_published_at :: "time option"

record project =
  p_id :: int
  p_name :: string
  p_description :: string
  p_homepage :: string
  p_license :: string
  p_is_private :: bool
  p_versioning :: Versioning
  p_github_repo :: string
  p_github_owner_id :: string
  p_github_repo_id :: string
  p_default_branch :: string
  p_create_service :: bool
  p_apt_depends :: string
  p_depends :: string
  p_created_at :: time
  p_updated_at :: time

record platform =
  plat_os :: OS
  plat_arch :: Arch

record platform_artifact =
  pa_artifact :: artifact
  pa_cache_suffix :: string

section \<open>Constants\<close>

definition VersioningAuto :: Versioning where "VersioningAuto = ''auto''"
definition VersioningSemver :: Versioning where "VersioningSemver = ''semver''"

definition OSLinux :: OS where "OSLinux = ''linux''"
definition OSDarwin :: OS where "OSDarwin = ''darwin''"
definition OSWindows :: OS where "OSWindows = ''windows''"
definition OSFreeBSD :: OS where "OSFreeBSD = ''freebsd''"
definition OSWasm :: OS where "OSWasm = ''wasm''"

definition ArchAMD64 :: Arch where "ArchAMD64 = ''amd64''"
definition ArchARM64 :: Arch where "ArchARM64 = ''arm64''"
definition Arch386 :: Arch where "Arch386 = ''386''"
definition ArchARM :: Arch where "ArchARM = ''arm''"
definition ArchJS :: Arch where "ArchJS = ''js''"
definition ArchWasip1 :: Arch where "ArchWasip1 = ''wasip1''"

definition KindBinary :: Kind where "KindBinary = ''binary''"
definition KindLibrary :: Kind where "KindLibrary = ''library''"
definition KindAssets :: Kind where "KindAssets = ''assets''"
definition KindArchive :: Kind where "KindArchive = ''archive''"
definition KindDocker :: Kind where "KindDocker = ''docker''"
definition KindNPMPackage :: Kind where "KindNPMPackage = ''npm-package''"

lemmas os_defs = OSLinux_def OSDarwin_def OSWindows_def OSFreeBSD_def OSWasm_def
lemmas arch_defs = ArchAMD64_def ArchARM64_def Arch386_def ArchARM_def ArchJS_def ArchWasip1_def
lemmas kind_defs = KindBinary_def KindLibrary_def KindAssets_def KindArchive_def KindDocker_def
  KindNPMPackage_def

section \<open>Platforms\<close>

definition ValidOS :: "string \<Rightarrow> bool" where
  "ValidOS s \<longleftrightarrow> s \<in> {OSLinux, OSDarwin, OSWindows, OSFreeBSD, OSWasm}"

definition ValidArch :: "string \<Rightarrow> bool" where
  "ValidArch s \<longleftrightarrow> s \<in> {ArchAMD64, ArchARM64, Arch386, ArchARM, ArchJS, ArchWasip1}"

definition ValidKind :: "string \<Rightarrow> bool" where
  "ValidKind s \<longleftrightarrow>
     s \<in> {KindBinary, KindLibrary, KindAssets, KindArchive, KindDocker, KindNPMPackage}"

definition ServedViaDockerOnly :: "Kind \<Rightarrow> bool" where
  "ServedViaDockerOnly k \<longleftrightarrow> k = KindDocker"

definition wasmFlavorArch :: "Arch \<Rightarrow> bool" where
  "wasmFlavorArch a \<longleftrightarrow> a = ArchJS \<or> a = ArchWasip1"

definition CompatiblePlatform :: "OS \<Rightarrow> Arch \<Rightarrow> bool" where
  "CompatiblePlatform os arch =
     (if os = OSWasm \<or> wasmFlavorArch arch then os = OSWasm \<and> wasmFlavorArch arch else True)"

definition NormalizeOS :: "string \<Rightarrow> OS \<times> bool" where
  "NormalizeOS s =
     (let n = to_lower (trim_space s) in
      if n \<in> {''linux''} then (OSLinux, True)
      else if n \<in> {''darwin'', ''macos'', ''mac'', ''osx'', ''os x'', ''apple-darwin''}
        then (OSDarwin, True)
      else if n \<in> {''windows'', ''win'', ''win32'', ''win64''} then (OSWindows, True)
      else if n \<in> {''freebsd''} then (OSFreeBSD, True)
      else if n \<in> {''wasm'', ''webassembly''} then (OSWasm, True)
      else ([], False))"

definition NormalizeArch :: "string \<Rightarrow> Arch \<times> bool" where
  "NormalizeArch s =
     (let n = to_lower (trim_space s) in
      if n \<in> {''amd64'', ''x64'', ''x86_64'', ''x86-64'', ''x8664''} then (ArchAMD64, True)
      else if n \<in> {''arm64'', ''aarch64'', ''armv8'', ''arm64e''} then (ArchARM64, True)
      else if n \<in> {''386'', ''x86'', ''i386'', ''i686''} then (Arch386, True)
      else if n \<in> {''arm'', ''armv7'', ''armv7l'', ''armv6'', ''armv6l'', ''armhf''}
        then (ArchARM, True)
      else if n \<in> {''js''} then (ArchJS, True)
      else if n \<in> {''wasip1''} then (ArchWasip1, True)
      else ([], False))"

definition NormalizeLegacyWasmPair :: "string \<Rightarrow> string \<Rightarrow> OS \<times> Arch \<times> bool" where
  "NormalizeLegacyWasmPair osName arch =
     (if to_lower (trim_space arch) \<noteq> ''wasm'' then ([], [], False)
      else if to_lower (trim_space osName) = ''js'' then (OSWasm, ArchJS, True)
      else if to_lower (trim_space osName) = ''wasip1'' then (OSWasm, ArchWasip1, True)
      else ([], [], False))"

definition platform_string :: "platform \<Rightarrow> string" where
  "platform_string p = plat_os p @ ''/'' @ plat_arch p"

datatype platform_error =
    WantOsArch string
  | InvalidOs string string
  | InvalidArch string string
  | IncompatiblePlatform string
  | EmptyPlatform string
  | DuplicatePlatform platform
  | NoPlatforms

definition ParsePlatform :: "string \<Rightarrow> platform_error + platform" where
  "ParsePlatform s =
     (case cut_at (CHR ''/'') (trim_space s) of (osPart, archPart, ok) \<Rightarrow>
      if \<not> ok then Inl (WantOsArch (trim_space s))
      else case NormalizeOS osPart of (osName, okos) \<Rightarrow>
        if \<not> okos then Inl (InvalidOs (trim_space osPart) (trim_space s))
        else case NormalizeArch archPart of (arch, okarch) \<Rightarrow>
          if \<not> okarch then Inl (InvalidArch (trim_space archPart) (trim_space s))
          else if \<not> CompatiblePlatform osName arch then Inl (IncompatiblePlatform (trim_space s))
          else Inr \<lparr>plat_os = osName, plat_arch = arch\<rparr>)"

text \<open>The loop of \<open>ParsePlatformList\<close>: \<open>out\<close> is both the accumulated list and, as a set,
  the set of platforms already seen.\<close>

fun parse_platforms :: "string \<Rightarrow> string list \<Rightarrow> platform list \<Rightarrow> platform_error + platform list" where
  "parse_platforms spec [] out = (if out = [] then Inl NoPlatforms else Inr out)"
| "parse_platforms spec (elem # elems) out =
     (if trim_space elem = [] then Inl (EmptyPlatform spec)
      else case ParsePlatform elem of
        Inl e \<Rightarrow> Inl e
      | Inr p \<Rightarrow>
          if p \<in> set out then Inl (DuplicatePlatform p)
          else parse_platforms spec elems (out @ [p]))"

definition ParsePlatformList :: "string \<Rightarrow> platform_error + platform list" where
  "ParsePlatformList spec = parse_platforms spec (split_on (CHR '','') spec) []"

definition FormatPlatforms :: "platform list \<Rightarrow> string" where
  "FormatPlatforms ps = join_with '', '' (map platform_string ps)"

definition newPlatformArtifact :: "artifact \<Rightarrow> platform \<Rightarrow> platform_artifact" where
  "newPlatformArtifact a p =
     (if a_os a \<noteq> plat_os p \<or> a_arch a \<noteq> plat_arch p
      then \<lparr>pa_artifact = a\<lparr>a_os := plat_os p, a_arch := plat_arch p\<rparr>,
            pa_cache_suffix = ''@'' @ platform_string p\<rparr>
      else \<lparr>pa_artifact = a, pa_cache_suffix = []\<rparr>)"

definition CacheFormat :: "platform_artifact \<Rightarrow> string \<Rightarrow> string" where
  "CacheFormat pa format = format @ pa_cache_suffix pa"

section \<open>Tokens, scopes and releases\<close>

fun split_scopes_loop :: "string \<Rightarrow> nat list \<Rightarrow> nat \<Rightarrow> string list \<Rightarrow> nat \<times> string list" where
  "split_scopes_loop s [] start out = (start, out)"
| "split_scopes_loop s (i # is) start out =
     (if s ! i = CHR '',''
      then split_scopes_loop s is (i + 1)
             (if i > start then out @ [take (i - start) (drop start s)] else out)
      else split_scopes_loop s is start out)"

definition splitScopes :: "string \<Rightarrow> string list" where
  "splitScopes s =
     (case split_scopes_loop s [0..<length s] 0 [] of (start, out) \<Rightarrow>
      if start < length s then out @ [drop start s] else out)"

definition HasScope :: "api_token \<Rightarrow> string \<Rightarrow> bool" where
  "HasScope t scope \<longleftrightarrow> list_ex (\<lambda>s. s = scope) (splitScopes (t_scopes t))"

definition IsExpired :: "time \<Rightarrow> api_token \<Rightarrow> bool" where
  "IsExpired now t = (case t_expires_at t of None \<Rightarrow> False | Some e \<Rightarrow> e < now)"

definition IsGlobal :: "api_token \<Rightarrow> bool" where
  "IsGlobal t \<longleftrightarrow> t_project_id t = None"

definition AuthorizedForProject :: "api_token \<Rightarrow> int \<Rightarrow> bool" where
  "AuthorizedForProject t projectID \<longleftrightarrow>
     t_project_id t = None \<or> t_project_id t = Some projectID"

definition IsPrerelease :: "release \<Rightarrow> bool" where
  "IsPrerelease r \<longleftrightarrow> contains_str (r_version r) ''-''"

definition ValidScopes :: "string list" where
  "ValidScopes = [''read'', ''write'', ''share'']"

section \<open>Platforms: canonical results and round trip\<close>

lemma NormalizeOS_valid: "NormalizeOS s = (os, True) \<Longrightarrow> ValidOS os"
  by (auto simp: NormalizeOS_def ValidOS_def Let_def split: if_splits)

lemma NormalizeArch_valid: "NormalizeArch s = (a, True) \<Longrightarrow> ValidArch a"
  by (auto simp: NormalizeArch_def ValidArch_def Let_def split: if_splits)

text \<open>A platform is canonical when every consumer of the pair can rely on it.\<close>

definition canonical_platform :: "platform \<Rightarrow> bool" where
  "canonical_platform p \<longleftrightarrow>
     ValidOS (plat_os p) \<and> ValidArch (plat_arch p) \<and> CompatiblePlatform (plat_os p) (plat_arch p)"

lemma ParsePlatform_canonical: "ParsePlatform s = Inr p \<Longrightarrow> canonical_platform p"
  by (auto simp: ParsePlatform_def canonical_platform_def
      split: prod.splits if_splits dest!: NormalizeOS_valid NormalizeArch_valid)

lemma trim_space_id:
  "s = [] \<or> (hd s \<notin> set white_space \<and> last s \<notin> set white_space) \<Longrightarrow> trim_space s = s"
  by (simp add: trim_space_def trim_chars_id)

text \<open>The facts the round trip needs of each constant, evaluated once.\<close>

definition clean_word :: "string \<Rightarrow> bool" where
  "clean_word w \<longleftrightarrow> w \<noteq> [] \<and> CHR ''/'' \<notin> set w \<and> CHR '','' \<notin> set w
     \<and> hd w \<notin> set white_space \<and> last w \<notin> set white_space"

lemma os_constants:
  "list_all (\<lambda>w. NormalizeOS w = (w, True) \<and> clean_word w)
     [OSLinux, OSDarwin, OSWindows, OSFreeBSD, OSWasm]"
  by code_simp

lemma arch_constants:
  "list_all (\<lambda>w. NormalizeArch w = (w, True) \<and> clean_word w)
     [ArchAMD64, ArchARM64, Arch386, ArchARM, ArchJS, ArchWasip1]"
  by code_simp

lemma os_word: "ValidOS w \<Longrightarrow> NormalizeOS w = (w, True) \<and> clean_word w"
  using os_constants by (auto simp: ValidOS_def)

lemma arch_word: "ValidArch w \<Longrightarrow> NormalizeArch w = (w, True) \<and> clean_word w"
  using arch_constants by (auto simp: ValidArch_def)

lemma canonical_platformD:
  assumes "canonical_platform p"
  shows "NormalizeOS (plat_os p) = (plat_os p, True)" "clean_word (plat_os p)"
    "NormalizeArch (plat_arch p) = (plat_arch p, True)" "clean_word (plat_arch p)"
    "CompatiblePlatform (plat_os p) (plat_arch p)"
  using assms os_word arch_word by (auto simp: canonical_platform_def)

lemma trim_platform_string:
  "canonical_platform p \<Longrightarrow> trim_space (platform_string p) = platform_string p"
  using canonical_platformD(2,4) [of p]
  by (auto simp: platform_string_def clean_word_def intro!: trim_space_id)

lemma ParsePlatform_string:
  assumes "canonical_platform p"
  shows "ParsePlatform (platform_string p) = Inr p"
proof -
  note facts = canonical_platformD [OF assms]
  have "cut_at (CHR ''/'') (platform_string p) = (plat_os p, plat_arch p, True)"
    using facts(2) by (simp add: platform_string_def clean_word_def)
  with facts show ?thesis
    by (simp add: ParsePlatform_def trim_platform_string [OF assms])
qed

lemma platform_string_word:
  "canonical_platform p \<Longrightarrow> platform_string p \<noteq> [] \<and> CHR '','' \<notin> set (platform_string p)"
  using canonical_platformD(2,4) [of p] by (auto simp: platform_string_def clean_word_def)

lemma parse_platforms_sound:
  "parse_platforms spec elems out = Inr ps \<Longrightarrow> distinct out \<Longrightarrow> list_all canonical_platform out
   \<Longrightarrow> ps \<noteq> [] \<and> distinct ps \<and> list_all canonical_platform ps"
  by (induction spec elems out rule: parse_platforms.induct)
    (auto split: if_splits sum.splits dest: ParsePlatform_canonical)

lemma parse_platforms_complete:
  assumes "\<forall>p \<in> set (out @ ps). canonical_platform p" "distinct (out @ ps)" "out @ ps \<noteq> []"
  shows "parse_platforms spec (map platform_string ps) out = Inr (out @ ps)"
  using assms
proof (induction ps arbitrary: out)
  case Nil
  then show ?case by simp
next
  case (Cons p ps)
  then have "canonical_platform p" by simp
  with Cons show ?case
    by (simp add: ParsePlatform_string trim_platform_string platform_string_word)
qed

text \<open>every platform list the program accepts is non-empty, free of duplicates and
  made of canonical, mutually compatible (os, arch) pairs, whatever aliases it was written
  with.\<close>

theorem ParsePlatformList_canonical:
  assumes "ParsePlatformList spec = Inr ps"
  shows "ps \<noteq> [] \<and> distinct ps \<and> (\<forall>p \<in> set ps. canonical_platform p)"
  using parse_platforms_sound [OF assms [unfolded ParsePlatformList_def]]
  by (simp add: list_all_iff)

theorem ParsePlatformList_canonical_witness:
  "ParsePlatformList ''macOS/arm64, linux/x86_64'' =
     Inr [\<lparr>plat_os = OSDarwin, plat_arch = ArchARM64\<rparr>, \<lparr>plat_os = OSLinux, plat_arch = ArchAMD64\<rparr>]
   \<and> distinct [\<lparr>plat_os = OSDarwin, plat_arch = ArchARM64\<rparr>,
               \<lparr>plat_os = OSLinux, plat_arch = ArchAMD64\<rparr>]"
proof -
  have "ParsePlatformList ''macOS/arm64, linux/x86_64'' =
     Inr [\<lparr>plat_os = OSDarwin, plat_arch = ArchARM64\<rparr>, \<lparr>plat_os = OSLinux, plat_arch = ArchAMD64\<rparr>]"
    by code_simp
  from this ParsePlatformList_canonical [OF this] show ?thesis by blast
qed

text \<open>printing a set of canonical platforms separated by commas and parsing the
  result returns the same list.\<close>

theorem ParsePlatformList_roundtrip:
  assumes "ps \<noteq> []" and "distinct ps" and "\<forall>p \<in> set ps. canonical_platform p"
  shows "ParsePlatformList (join_with '','' (map platform_string ps)) = Inr ps"
proof -
  have "split_on (CHR '','') (join_with '','' (map platform_string ps)) = map platform_string ps"
    using assms by (intro split_join) (auto dest: platform_string_word)
  then show ?thesis
    using assms parse_platforms_complete [of "[]" ps] by (simp add: ParsePlatformList_def)
qed

theorem ParsePlatformList_roundtrip_witness:
  "ParsePlatformList (join_with '','' (map platform_string
      [\<lparr>plat_os = OSWasm, plat_arch = ArchJS\<rparr>, \<lparr>plat_os = OSLinux, plat_arch = Arch386\<rparr>])) =
   Inr [\<lparr>plat_os = OSWasm, plat_arch = ArchJS\<rparr>, \<lparr>plat_os = OSLinux, plat_arch = Arch386\<rparr>]"
proof -
  let ?ps = "[\<lparr>plat_os = OSWasm, plat_arch = ArchJS\<rparr>, \<lparr>plat_os = OSLinux, plat_arch = Arch386\<rparr>]"
  have "distinct ?ps" by code_simp
  moreover have "\<forall>p \<in> set ?ps. canonical_platform p" by code_simp
  ultimately show ?thesis by (intro ParsePlatformList_roundtrip) simp
qed

section \<open>Scopes\<close>

lemma split_scopes_loop_spec:
  assumes "start \<le> k" "k \<le> length s" "CHR '','' \<notin> set (take (k - start) (drop start s))"
    "split_scopes_loop s [k..<length s] start out = (st, out')"
  shows "out' @ (if st < length s then [drop st s] else []) =
    out @ filter (\<lambda>w. w \<noteq> []) (split_on (CHR '','') (drop start s))"
  using assms
proof (induction "length s - k" arbitrary: k start out)
  case 0
  then have "drop start s = take (k - start) (drop start s)" by simp
  with 0 have "split_on (CHR '','') (drop start s) = [drop start s]"
    by (intro split_on_free) metis
  with 0 show ?case by auto
next
  case (Suc n)
  then have k: "k < length s" by simp
  let ?w = "take (k - start) (drop start s)"
  have upt: "[k..<length s] = k # [Suc k..<length s]" using k by (simp add: upt_conv_Cons)
  have dec: "drop start s = ?w @ s ! k # drop (Suc k) s"
    using Suc.prems(1) k
    by (metis Cons_nth_drop_Suc append_take_drop_id drop_drop le_add_diff_inverse2)
  show ?case
  proof (cases "s ! k = CHR '',''")
    case True
    have "out' @ (if st < length s then [drop st s] else []) =
      (if k > start then out @ [?w] else out) @
        filter (\<lambda>w. w \<noteq> []) (split_on (CHR '','') (drop (Suc k) s))"
      using Suc.prems(4) Suc.hyps(2) k True upt
      by (intro Suc.hyps(1) [of "Suc k" "Suc k"]) auto
    moreover have "split_on (CHR '','') (drop start s) = ?w # split_on (CHR '','') (drop (Suc k) s)"
      by (subst dec) (use True Suc.prems(3) in \<open>simp add: split_on_append\<close>)
    moreover have "?w = [] \<longleftrightarrow> \<not> k > start" using k Suc.prems(1) by auto
    ultimately show ?thesis by simp
  next
    case False
    have "take (Suc k - start) (drop start s) = ?w @ [s ! k]"
      using Suc.prems(1) k by (simp add: Suc_diff_le take_Suc_conv_app_nth)
    with False Suc.prems(3) have "CHR '','' \<notin> set (take (Suc k - start) (drop start s))" by auto
    with False Suc.prems Suc.hyps(2) k upt show ?thesis
      by (intro Suc.hyps(1) [of "Suc k" start]) auto
  qed
qed

lemma splitScopes_reference: "splitScopes s = filter (\<lambda>w. w \<noteq> []) (split_on (CHR '','') s)"
proof -
  obtain st out where eq: "split_scopes_loop s [0..<length s] 0 [] = (st, out)"
    by (cases "split_scopes_loop s [0..<length s] 0 []") auto
  with split_scopes_loop_spec [of 0 0 s "[]" st out] show ?thesis
    by (auto simp: splitScopes_def)
qed

text \<open>A token has a scope exactly when the scope is a non-empty element of its
  comma-separated scope string; the hand-written scanner agrees with splitting at every
  comma and dropping the empty parts.\<close>

theorem HasScope_iff:
  "HasScope t scope \<longleftrightarrow> scope \<noteq> [] \<and> scope \<in> set (split_on (CHR '','') (t_scopes t))"
  by (auto simp: HasScope_def splitScopes_reference list_ex_iff)

end
