(* ===== verification/Go_IO.thy ===== *)
theory Go_IO
  imports Prelude "HOL-Library.Word"
begin

text \<open>
  The input/output behaviour the handlers rely on: bytes, an \<open>io.Reader\<close> that delivers
  its data in arbitrary segments and ends with end-of-file or a failure, a file write
  that may run out of room, and the loop of \<open>io.Copy\<close> with its 32 KiB buffer. The
  reader chooses how many bytes one \<open>Read\<close> returns and whether the terminating error
  arrives with the last bytes or alone; both are allowed by the contract of \<open>io.Reader\<close>.
  The size-capped reader of \<open>internal/uploads/store.go\<close> wraps such a reader.
\<close>

type_synonym byte = "8 word"
type_synonym bytes = "byte list"

datatype io_err = IoEOF | IoFailed | IoTooLarge | IoNoSpace | IoClosed

record reader =
  rd_segs :: "bytes list"
  rd_end :: io_err
  rd_eager :: bool

record capped_reader =
  cp_reader :: reader
  cp_remaining :: int
  cp_exceeded :: bool

definition rd_read :: "nat \<Rightarrow> reader \<Rightarrow> bytes \<times> io_err option \<times> reader" where
  "rd_read n r =
     (case rd_segs r of
        [] \<Rightarrow> ([], Some (rd_end r), r)
      | s # ss \<Rightarrow>
          (let rest = (if n < length s then drop n s # ss else ss) in
           (take n s, if rd_eager r \<and> rest = [] then Some (rd_end r) else None,
            r\<lparr>rd_segs := rest\<rparr>)))"

definition rd_bytes :: "reader \<Rightarrow> bytes" where
  "rd_bytes r = concat (rd_segs r)"

text \<open>\<open>cappedReader.Read\<close>.\<close>

definition capped_read :: "nat \<Rightarrow> capped_reader \<Rightarrow> bytes \<times> io_err option \<times> capped_reader" where
  "capped_read n c =
     (if cp_remaining c < 0 then ([], Some IoTooLarge, c\<lparr>cp_exceeded := True\<rparr>)
      else
        (let n' = (if int n > cp_remaining c + 1 then nat (cp_remaining c + 1) else n) in
         case rd_read n' (cp_reader c) of (bs, err, r') \<Rightarrow>
           let rem' = cp_remaining c - int (length bs) in
           if rem' < 0
           then (bs, Some IoTooLarge, \<lparr>cp_reader = r', cp_remaining = rem', cp_exceeded = True\<rparr>)
           else (bs, err, \<lparr>cp_reader = r', cp_remaining = rem', cp_exceeded = cp_exceeded c\<rparr>)))"

text \<open>\<open>http.MaxBytesReader\<close>: a body over the limit ends in an error.\<close>

definition limit_body :: "int \<Rightarrow> reader \<Rightarrow> reader" where
  "limit_body limit r =
     (if int (length (rd_bytes r)) > limit
      then r\<lparr>rd_segs := [take (nat limit) (rd_bytes r)], rd_end := IoTooLarge\<rparr> else r)"

text \<open>Writing to a file on a volume with room for so many more bytes (\<open>None\<close>: enough).\<close>

definition file_write :: "nat option \<Rightarrow> bytes \<Rightarrow> bytes \<times> io_err option \<times> nat option" where
  "file_write room bs =
     (case room of
        None \<Rightarrow> (bs, None, None)
      | Some k \<Rightarrow> if length bs \<le> k then (bs, None, Some (k - length bs))
                  else (take k bs, Some IoNoSpace, Some 0))"

definition copy_buffer :: nat where
  "copy_buffer = 32 * 1024"

text \<open>\<open>io.Copy(file, capped)\<close>: the bytes written, the error (end-of-file is none) and the
  reader afterwards.\<close>

function copy_capped :: "nat option \<Rightarrow> capped_reader \<Rightarrow> bytes \<Rightarrow> bytes \<times> io_err option \<times> capped_reader" where
  "copy_capped room c acc =
     (case capped_read copy_buffer c of (bs, er, c') \<Rightarrow>
      (case (if bs = [] then ([], None, room) else file_write room bs) of (ws, ew, room') \<Rightarrow>
       (case ew of
          Some e \<Rightarrow> (acc @ ws, Some e, c')
        | None \<Rightarrow>
            (case er of
               Some e \<Rightarrow> (acc @ ws, if e = IoEOF then None else Some e, c')
             | None \<Rightarrow> copy_capped room' c' (acc @ ws)))))"
  by pat_completeness auto

definition rd_measure :: "reader \<Rightarrow> nat" where
  "rd_measure r = length (rd_segs r) + length (concat (rd_segs r))"

lemma rd_read_progress:
  "rd_read n r = (bs, None, r') \<Longrightarrow> 0 < n \<Longrightarrow> rd_measure r' < rd_measure r"
  by (auto simp: rd_read_def rd_measure_def Let_def split: list.splits if_splits)

lemma capped_read_progress:
  assumes "capped_read n c = (bs, None, c')" "0 < n"
  shows "rd_measure (cp_reader c') < rd_measure (cp_reader c)"
  using assms rd_read_progress
  by (fastforce simp: capped_read_def Let_def split: if_splits prod.splits)

termination copy_capped
  by (relation "measure (\<lambda>(room, c, acc). rd_measure (cp_reader c))")
    (auto simp: copy_buffer_def intro: capped_read_progress [OF sym])

declare copy_capped.simps [simp del]

section \<open>What reading and copying deliver\<close>

lemma rd_read_split:
  "rd_read n r = (bs, e, r') \<Longrightarrow>
     rd_bytes r = bs @ rd_bytes r' \<and> length bs \<le> n \<and> rd_end r' = rd_end r
     \<and> (e = None \<or> e = Some (rd_end r) \<and> rd_bytes r' = [])"
  by (auto simp: rd_read_def rd_bytes_def Let_def split: list.splits if_splits)

lemma capped_read_empty:
  "cp_remaining c < 0 \<Longrightarrow> capped_read n c = ([], Some IoTooLarge, c\<lparr>cp_exceeded := True\<rparr>)"
  by (simp add: capped_read_def)

lemma capped_read_fits:
  assumes "capped_read n c = (bs, er, c1)" "int (length bs) \<le> cp_remaining c"
  shows "cp_remaining c1 = cp_remaining c - int (length bs)" "cp_exceeded c1 = cp_exceeded c"
    "rd_bytes (cp_reader c) = bs @ rd_bytes (cp_reader c1)"
    "rd_end (cp_reader c1) = rd_end (cp_reader c)"
    "er = None \<or> er = Some (rd_end (cp_reader c)) \<and> rd_bytes (cp_reader c1) = []"
  using assms
  by (auto simp: capped_read_def Let_def split: if_splits prod.splits dest!: rd_read_split)

lemma capped_read_over:
  assumes "capped_read n c = (bs, er, c1)" "0 \<le> cp_remaining c" "cp_remaining c < int (length bs)"
  shows "er = Some IoTooLarge" "cp_exceeded c1" "length bs = nat (cp_remaining c + 1)"
    "bs = take (nat (cp_remaining c + 1)) (rd_bytes (cp_reader c))"
  using assms
  by (auto simp: capped_read_def Let_def split: if_splits prod.splits dest!: rd_read_split)

lemma copy_capped_step:
  assumes "capped_read copy_buffer c = (bs, er, c1)"
  shows "copy_capped None c acc =
     (case er of Some x \<Rightarrow> (acc @ bs, if x = IoEOF then None else Some x, c1)
      | None \<Rightarrow> copy_capped None c1 (acc @ bs))"
  by (subst copy_capped.simps) (cases "bs = []"; simp add: assms file_write_def split: option.split)

text \<open>
  The total effect of the copy, for a reader that has not exceeded its cap: with
  enough room the file receives the whole body when it fits the cap, and exactly one
  byte more than the cap otherwise.
\<close>

definition copy_result :: "capped_reader \<Rightarrow> bytes \<Rightarrow> bytes \<Rightarrow> io_err option \<Rightarrow> capped_reader \<Rightarrow> bool" where
  "copy_result c acc out e c' \<longleftrightarrow>
    (if int (length (rd_bytes (cp_reader c))) \<le> cp_remaining c
     then out = acc @ rd_bytes (cp_reader c) \<and> \<not> cp_exceeded c'
       \<and> e = (if rd_end (cp_reader c) = IoEOF then None else Some (rd_end (cp_reader c)))
     else out = acc @ take (nat (cp_remaining c + 1)) (rd_bytes (cp_reader c))
       \<and> cp_exceeded c' \<and> e = Some IoTooLarge)"

lemma copy_capped_total:
  assumes "\<not> cp_exceeded c" "copy_capped None c acc = (out, e, c')"
  shows "copy_result c acc out e c'"
  using assms
proof (induction "rd_measure (cp_reader c)" arbitrary: c acc rule: less_induct)
  case less
  let ?R = "cp_remaining c"
  obtain bs er c1 where rd: "capped_read copy_buffer c = (bs, er, c1)"
    by (cases "capped_read copy_buffer c") auto
  note step = copy_capped_step [OF rd, of acc]
  consider (neg) "?R < 0" | (over) "0 \<le> ?R" "?R < int (length bs)" | (fits) "int (length bs) \<le> ?R"
    by linarith
  then show ?case
  proof cases
    case neg
    with rd less.prems(2) step show ?thesis
      by (auto simp: capped_read_empty copy_result_def)
  next
    case over
    note facts = capped_read_over [OF rd over]
    from facts(3,4) have "?R < int (length (rd_bytes (cp_reader c)))"
      by (metis over(2) length_take min.strict_boundedE of_nat_less_iff order_less_le_trans linorder_not_le min.cobounded2 nat_less_le)
    with facts step less.prems(2) show ?thesis by (auto simp: copy_result_def)
  next
    case fits
    note facts = capped_read_fits [OF rd fits]
    have eq: "nat (?R + 1) - length bs = nat (?R - int (length bs) + 1)" by simp
    show ?thesis
    proof (cases er)
      case None
      with rd have "rd_measure (cp_reader c1) < rd_measure (cp_reader c)"
        by (simp add: capped_read_progress copy_buffer_def)
      with None step less.prems facts have "copy_result c1 (acc @ bs) out e c'"
        by (intro less.hyps) auto
      with facts fits show ?thesis by (auto simp: copy_result_def eq split: if_splits)
    next
      case (Some x)
      with facts step less.prems fits show ?thesis by (auto simp: copy_result_def)
    qed
  qed
qed

text \<open>Whatever the disk does, only bytes of the body are written, and never more than one
  past the cap; past the cap only if the reader says so.\<close>

lemma file_write_prefix:
  assumes "(if bs = [] then ([], None, room) else file_write room bs) = (ws, ew, room')"
  shows "\<exists>j \<le> length bs. ws = take j bs \<and> (ew = None \<longrightarrow> j = length bs)"
  using assms by (auto simp: file_write_def split: if_splits option.splits) (metis nle_le)

lemma copy_capped_bound:
  assumes "copy_capped room c acc = (out, e, c')"
  shows "\<exists>k. out = acc @ take k (rd_bytes (cp_reader c)) \<and> int k \<le> max 0 (cp_remaining c + 1)
     \<and> (cp_exceeded c' \<or> int k \<le> max 0 (cp_remaining c))"
  using assms
proof (induction "rd_measure (cp_reader c)" arbitrary: room c acc rule: less_induct)
  case less
  let ?R = "cp_remaining c"
  obtain bs er c1 where rd: "capped_read copy_buffer c = (bs, er, c1)"
    by (cases "capped_read copy_buffer c") auto
  obtain ws ew room' where wr: "(if bs = [] then ([], None, room) else file_write room bs) = (ws, ew, room')"
    by (cases "if bs = [] then ([], None, room) else file_write room bs") auto
  from file_write_prefix [OF wr] obtain j where j: "j \<le> length bs" "ws = take j bs"
    "ew = None \<longrightarrow> j = length bs" by blast
  note step = less.prems [unfolded copy_capped.simps [of room c acc] rd wr prod.case]
  consider (neg) "?R < 0" | (over) "0 \<le> ?R" "?R < int (length bs)" | (fits) "int (length bs) \<le> ?R"
    by linarith
  then show ?case
  proof cases
    case neg
    with rd j step show ?thesis
      by (intro exI [of _ 0]) (auto simp: capped_read_empty split: option.splits)
  next
    case over
    note facts = capped_read_over [OF rd over]
    from facts(3,4) j have "ws = take j (rd_bytes (cp_reader c))" by (metis min.absorb1 take_take)
    with over facts j step show ?thesis
      by (intro exI [of _ j]) (auto split: option.splits)
  next
    case fits
    note facts = capped_read_fits [OF rd fits]
    from j facts(3) have ws: "ws = take j (rd_bytes (cp_reader c))" by simp
    show ?thesis
    proof (cases "ew = None \<and> er = None")
      case True
      with rd have "rd_measure (cp_reader c1) < rd_measure (cp_reader c)"
        by (simp add: capped_read_progress copy_buffer_def)
      moreover from True step have "copy_capped room' c1 (acc @ ws) = (out, e, c')" by simp
      ultimately obtain k where "out = (acc @ ws) @ take k (rd_bytes (cp_reader c1))"
        "int k \<le> max 0 (cp_remaining c1 + 1)" "cp_exceeded c' \<or> int k \<le> max 0 (cp_remaining c1)"
        using less.hyps by blast
      with True j facts fits show ?thesis by (intro exI [of _ "length bs + k"]) auto
    next
      case False
      with ws j step fits show ?thesis by (intro exI [of _ j]) (auto split: option.splits)
    qed
  qed
qed

end
