(* ===== verification/Http.thy ===== *)
theory Http
  imports Db_Types Go_IO
begin

text \<open>
  Requests and responses as the handlers see them: the parts of \<open>net/http\<close> and
  \<open>net/url\<close> the modelled code reads. \<open>Query().Get\<close> and \<open>Header.Get\<close> return the first
  value or the empty string. The credential the authentication middleware stored in
  the request context is the field \<open>rq_token\<close>. A JSON response body is the list of its
  fields.
\<close>

record request =
  rq_method :: string
  rq_path :: string
  rq_query :: "(string \<times> string) list"
  rq_headers :: "(string \<times> string) list"
  rq_path_id :: string
  rq_token :: "api_token option"
  rq_content_length :: int
  rq_has_body :: bool
  rq_body :: reader

datatype jval = JStr string | JInt int | JTime time | JBool bool | JStrs "string list" | JObjs "(string \<times> jval) list list"

record response =
  rs_status :: int
  rs_body :: "(string \<times> jval) list"

definition query_get :: "request \<Rightarrow> string \<Rightarrow> string" where
  "query_get r k = (case map_of (rq_query r) k of None \<Rightarrow> [] | Some v \<Rightarrow> v)"

definition header_get :: "request \<Rightarrow> string \<Rightarrow> string" where
  "header_get r k = (case find (\<lambda>(h, v). equal_fold h k) (rq_headers r) of None \<Rightarrow> [] | Some (h, v) \<Rightarrow> v)"

definition json_error :: "int \<Rightarrow> string \<Rightarrow> response" where
  "json_error status msg = \<lparr>rs_status = status, rs_body = [(''error'', JStr msg)]\<rparr>"

end
