(* ===== verification/Uploads.thy ===== *)
theory Uploads
  imports Http
begin

text \<open>
  Chunked upload sessions: \<open>internal/uploads/store.go\<close> (the session store),
  \<open>handlers.go\<close> (the session API) and \<open>middleware.go\<close> (a finished session in place
  of a request body).

  The store's \<open>map[string]*Session\<close> is an association list from ids to addresses, and
  the sessions live in a heap that only grows, so a handler may keep a pointer to a
  session that another handler has removed meanwhile, as in the program. A session
  holds the bytes of its spool file (the inode, which survives an unlink while a read
  handle is open); the set \<open>us_files\<close> holds the names present in the spool directory.
  Each operation runs under the session's mutex, so an interleaving of handlers is an
  interleaving of these operations. What the operating system may decide (room on the
  disk, whether truncate, seek, open or the random source fail) is an argument.
\<close>

section \<open>Sessions and the store\<close>

record session =
  s_id :: string
  s_owner :: string
  s_path :: string
  s_created :: time
  s_data :: bytes
  s_open :: bool
  s_size :: int
  s_busy :: bool

record upload_store =
  us_dir :: string
  us_max :: int
  us_ttl :: int
  us_sessions :: "(string \<times> nat) list"
  us_heap :: "session list"
  us_files :: "string set"

datatype upload_error =
    ErrNotFound
  | ErrOffsetMismatch
  | ErrBusy
  | ErrTooLarge
  | ErrWriteChunk
  | ErrSpoolDir
  | ErrSessionId
  | ErrCreateSpool
  | ErrOpenSpool

record io_env =
  env_room :: "nat option"
  env_truncate_ok :: bool
  env_seek_ok :: bool

definition deref :: "upload_store \<Rightarrow> nat \<Rightarrow> session" where
  "deref st a = us_heap st ! a"

definition set_session :: "nat \<Rightarrow> session \<Rightarrow> upload_store \<Rightarrow> upload_store" where
  "set_session a s st = st\<lparr>us_heap := (us_heap st)[a := s]\<rparr>"

definition Expires :: "session \<Rightarrow> int \<Rightarrow> time" where
  "Expires s ttl = s_created s + ttl"

text \<open>\<open>NewStore\<close>: the listing of the spool directory (\<open>None\<close>: unreadable) with, for each
  entry, whether removing it succeeds.\<close>

definition NewStore :: "bool \<Rightarrow> (string \<times> bool) list option \<Rightarrow> string \<Rightarrow> int \<Rightarrow> int \<Rightarrow> upload_error + upload_store" where
  "NewStore mkdir_ok listing dir maxSize ttl =
     (if \<not> mkdir_ok then Inl ErrSpoolDir
      else Inr \<lparr>us_dir = dir, us_max = maxSize, us_ttl = ttl, us_sessions = [], us_heap = [],
        us_files = (case listing of None \<Rightarrow> {}
          | Some es \<Rightarrow> (\<lambda>e. dir @ ''/'' @ fst e) ` {e \<in> set es. \<not> snd e})\<rparr>)"

definition Remove :: "nat \<Rightarrow> upload_store \<Rightarrow> upload_store" where
  "Remove a st =
     (let s = deref st a;
          st1 = st\<lparr>us_sessions := AList.delete (s_id s) (us_sessions st)\<rparr>;
          st2 = set_session a (s\<lparr>s_open := False\<rparr>) st1
      in st2\<lparr>us_files := us_files st2 - {s_path s}\<rparr>)"

definition stale_sessions :: "time \<Rightarrow> upload_store \<Rightarrow> nat list" where
  "stale_sessions now st =
     [a. (i, a) \<leftarrow> us_sessions st,
         \<not> s_busy (deref st a) \<and> s_created (deref st a) < now - us_ttl st]"

definition SweepExpired :: "time \<Rightarrow> upload_store \<Rightarrow> upload_store" where
  "SweepExpired now st = foldl (\<lambda>st' a. Remove a st') st (stale_sessions now st)"

text \<open>\<open>Create\<close>: \<open>rnd\<close> is the id drawn from the random source (\<open>None\<close>: it failed), and
  \<open>open_ok\<close> whether the operating system lets the spool file be created.\<close>

definition Create :: "time \<Rightarrow> string option \<Rightarrow> bool \<Rightarrow> string \<Rightarrow> upload_store \<Rightarrow> upload_store \<times> (upload_error + nat)" where
  "Create now rnd open_ok owner st0 =
     (let st = SweepExpired now st0 in
      case rnd of
        None \<Rightarrow> (st, Inl ErrSessionId)
      | Some i \<Rightarrow>
          (let path = us_dir st @ ''/'' @ i @ ''.spool'' in
           if \<not> open_ok \<or> path \<in> us_files st then (st, Inl ErrCreateSpool)
           else
             (let a = length (us_heap st);
                  s = \<lparr>s_id = i, s_owner = owner, s_path = path, s_created = now, s_data = [],
                       s_open = True, s_size = 0, s_busy = False\<rparr>
              in (st\<lparr>us_heap := us_heap st @ [s], us_files := insert path (us_files st),
                     us_sessions := AList.update i a (us_sessions st)\<rparr>, Inr a))))"

definition Get :: "string \<Rightarrow> string \<Rightarrow> upload_store \<Rightarrow> upload_error + nat" where
  "Get i owner st =
     (case map_of (us_sessions st) i of
        None \<Rightarrow> Inl ErrNotFound
      | Some a \<Rightarrow> if s_owner (deref st a) \<noteq> owner then Inl ErrNotFound else Inr a)"

text \<open>\<open>Append\<close>: writing to a removed session (its handle is nil) fails without reading the
  body. An over-cap chunk is rolled back; when the rollback itself fails the session keeps
  the size it reached.\<close>

definition Append :: "io_env \<Rightarrow> nat \<Rightarrow> int \<Rightarrow> reader \<Rightarrow> upload_store \<Rightarrow> upload_store \<times> int \<times> upload_error option" where
  "Append env a offset body st =
     (let s = deref st a in
      if s_busy s then (st, s_size s, Some ErrBusy)
      else if offset \<noteq> s_size s then (st, s_size s, Some ErrOffsetMismatch)
      else if \<not> s_open s then (st, s_size s, Some ErrWriteChunk)
      else
        (case copy_capped (env_room env)
                \<lparr>cp_reader = body, cp_remaining = us_max st - s_size s, cp_exceeded = False\<rparr> [] of
           (written, err, capped) \<Rightarrow>
             let s1 = s\<lparr>s_data := s_data s @ written, s_size := s_size s + int (length written)\<rparr> in
             if cp_exceeded capped
             then
               (let s2 = (if env_truncate_ok env
                          then (let s' = s1\<lparr>s_data := take (nat offset) (s_data s1)\<rparr> in
                                if env_seek_ok env then s'\<lparr>s_size := offset\<rparr> else s')
                          else s1)
                in (set_session a s2 st, s_size s2, Some ErrTooLarge))
             else (set_session a s1 st, s_size s1, if err = None then None else Some ErrWriteChunk)))"

definition BeginFinalize :: "bool \<Rightarrow> nat \<Rightarrow> upload_store \<Rightarrow> upload_store \<times> (upload_error + bytes \<times> int)" where
  "BeginFinalize open_ok a st =
     (let s = deref st a in
      if s_busy s then (st, Inl ErrBusy)
      else if \<not> open_ok \<or> s_path s \<notin> us_files st then (st, Inl ErrOpenSpool)
      else (set_session a (s\<lparr>s_busy := True\<rparr>) st, Inr (s_data s, s_size s)))"

definition EndFinalize :: "nat \<Rightarrow> upload_store \<Rightarrow> upload_store" where
  "EndFinalize a st = set_session a ((deref st a)\<lparr>s_busy := False\<rparr>) st"

section \<open>The session API\<close>

text \<open>The wired store is \<open>None\<close> while the server has none.\<close>

definition ownerIdentity :: "api_token \<Rightarrow> string" where
  "ownerIdentity t = format_int (t_id t) @ '':'' @ t_name t"

definition requireOwner :: "request \<Rightarrow> response + string" where
  "requireOwner r =
     (case rq_token r of
        None \<Rightarrow> Inl (json_error 401 ''authentication required'')
      | Some t \<Rightarrow> if \<not> HasScope t ''write'' then Inl (json_error 401 ''authentication required'')
                  else Inr (ownerIdentity t))"

definition getSession :: "request \<Rightarrow> upload_store option \<Rightarrow> response + upload_store \<times> nat" where
  "getSession r active =
     (case requireOwner r of
        Inl resp \<Rightarrow> Inl resp
      | Inr owner \<Rightarrow>
          (case active of
             None \<Rightarrow> Inl (json_error 503 ''upload sessions unavailable'')
           | Some st \<Rightarrow>
               (case Get (rq_path_id r) owner st of
                  Inl _ \<Rightarrow> Inl (json_error 404 ''upload session not found'')
                | Inr a \<Rightarrow> Inr (st, a))))"

definition handleCreate :: "time \<Rightarrow> string option \<Rightarrow> bool \<Rightarrow> request \<Rightarrow> upload_store option \<Rightarrow> upload_store option \<times> response" where
  "handleCreate now rnd open_ok r active =
     (case requireOwner r of
        Inl resp \<Rightarrow> (active, resp)
      | Inr owner \<Rightarrow>
          (case active of
             None \<Rightarrow> (active, json_error 503 ''upload sessions unavailable'')
           | Some st \<Rightarrow>
               (case Create now rnd open_ok owner st of
                  (st', Inl _) \<Rightarrow> (Some st', json_error 500 ''failed to create upload session'')
                | (st', Inr a) \<Rightarrow>
                    (Some st', \<lparr>rs_status = 201,
                       rs_body = [(''id'', JStr (s_id (deref st' a))), (''size'', JInt 0),
                         (''expires_at'', JTime (Expires (deref st' a) (us_ttl st')))]\<rparr>))))"

definition handleStatus :: "request \<Rightarrow> upload_store option \<Rightarrow> upload_store option \<times> response" where
  "handleStatus r active =
     (case getSession r active of
        Inl resp \<Rightarrow> (active, resp)
      | Inr (st, a) \<Rightarrow>
          (active, \<lparr>rs_status = 200,
             rs_body = [(''id'', JStr (s_id (deref st a))), (''size'', JInt (s_size (deref st a)))]\<rparr>))"

definition upload_error_msg :: "upload_error \<Rightarrow> string" where
  "upload_error_msg e =
     (case e of ErrOffsetMismatch \<Rightarrow> ''offset mismatch'' | ErrBusy \<Rightarrow> ''upload session busy''
      | ErrTooLarge \<Rightarrow> ''upload exceeds maximum size'' | ErrNotFound \<Rightarrow> ''upload session not found''
      | _ \<Rightarrow> ''failed to store chunk'')"

definition append_response :: "upload_store \<Rightarrow> nat \<Rightarrow> int \<Rightarrow> upload_error option \<Rightarrow> response" where
  "append_response st a sz err =
     (case err of
        None \<Rightarrow> \<lparr>rs_status = 200, rs_body = [(''id'', JStr (s_id (deref st a))), (''size'', JInt sz)]\<rparr>
      | Some e \<Rightarrow>
          if e = ErrOffsetMismatch \<or> e = ErrBusy
          then \<lparr>rs_status = 409, rs_body = [(''error'', JStr (upload_error_msg e)), (''size'', JInt sz)]\<rparr>
          else if e = ErrTooLarge
          then \<lparr>rs_status = 413, rs_body = [(''error'', JStr (upload_error_msg e)), (''size'', JInt sz),
                  (''max_size'', JInt (us_max st))]\<rparr>
          else \<lparr>rs_status = 500, rs_body = [(''error'', JStr ''failed to store chunk''), (''size'', JInt sz)]\<rparr>)"

definition handleAppend :: "io_env \<Rightarrow> request \<Rightarrow> upload_store option \<Rightarrow> upload_store option \<times> response" where
  "handleAppend env r active =
     (case getSession r active of
        Inl resp \<Rightarrow> (active, resp)
      | Inr (st, a) \<Rightarrow>
          (let q = query_get r ''offset'';
               offsetStr = (if q = [] then header_get r ''Upload-Offset'' else q);
               bad = json_error 400 ''offset query parameter (or Upload-Offset header) required'' in
           case parse_int64 offsetStr of
             None \<Rightarrow> (active, bad)
           | Some offset \<Rightarrow>
               if offset < 0 then (active, bad)
               else (case Append env a offset (rq_body r) st of
                       (st', sz, err) \<Rightarrow> (Some st', append_response st' a sz err))))"

definition handleAbort :: "request \<Rightarrow> upload_store option \<Rightarrow> upload_store option \<times> response" where
  "handleAbort r active =
     (case getSession r active of
        Inl resp \<Rightarrow> (active, resp)
      | Inr (st, a) \<Rightarrow> (Some (Remove a st), \<lparr>rs_status = 204, rs_body = []\<rparr>))"

section \<open>A finished session as a request body\<close>

definition mutatingMethod :: "string \<Rightarrow> bool" where
  "mutatingMethod m \<longleftrightarrow> m = ''POST'' \<or> m = ''PUT'' \<or> m = ''PATCH''"

text \<open>\<open>io.ReadFull\<close> of one byte, as the number of bytes read.\<close>

fun probe_segs :: "bytes list \<Rightarrow> nat" where
  "probe_segs [] = 0"
| "probe_segs (s # ss) = (if s = [] then probe_segs ss else 1)"

definition bodyEmpty :: "request \<Rightarrow> bool" where
  "bodyEmpty r =
     (if rq_content_length r = 0 \<or> \<not> rq_has_body r then True
      else if rq_content_length r > 0 then False
      else probe_segs (rd_segs (rq_body r)) = 0)"

definition expectedSHA256 :: "request \<Rightarrow> string" where
  "expectedSHA256 r =
     (let v = query_get r ''upload_sha256'' in
      if v \<noteq> [] then v else header_get r ''X-Upload-SHA256'')"

datatype endpoint_result = Responded response | Panicked

text \<open>
  What the middleware decides before it runs the endpoint: pass the request through,
  answer it, or run the endpoint with the spool as its body. \<open>sha\<close> is the hash of the
  spool (\<open>None\<close>: reading it failed).
\<close>

datatype finalize_plan = PassThrough | Answer response | RunWith nat bytes int

definition finalize_begin :: "(bytes \<Rightarrow> string option) \<Rightarrow> bool \<Rightarrow> request \<Rightarrow> upload_store option \<Rightarrow> upload_store option \<times> finalize_plan" where
  "finalize_begin sha open_ok r active =
     (let i = query_get r ''upload_session'' in
      if i = [] \<or> \<not> mutatingMethod (rq_method r) \<or> has_prefix (rq_path r) ''/api/v1/uploads''
      then (active, PassThrough)
      else case requireOwner r of
        Inl resp \<Rightarrow> (active, Answer resp)
      | Inr owner \<Rightarrow>
          (case active of
             None \<Rightarrow> (active, Answer (json_error 503 ''upload sessions unavailable''))
           | Some st \<Rightarrow>
               (case Get i owner st of
                  Inl _ \<Rightarrow> (active, Answer (json_error 404 ''upload session not found''))
                | Inr a \<Rightarrow>
                    if \<not> bodyEmpty r
                    then (active, Answer (json_error 400
                           ''request body must be empty when finalizing an upload session''))
                    else case BeginFinalize open_ok a st of
                      (st1, Inl _) \<Rightarrow> (Some st1, Answer (json_error 409 ''upload session busy''))
                    | (st1, Inr (spool, sz)) \<Rightarrow>
                        let want = expectedSHA256 r in
                        if want = [] then (Some st1, RunWith a spool sz)
                        else case sha spool of
                          None \<Rightarrow> (Some (EndFinalize a st1), Answer (json_error 500 ''failed to hash upload''))
                        | Some got \<Rightarrow>
                            if \<not> equal_fold want got
                            then (Some (EndFinalize a st1),
                                  Answer (json_error 400 (''sha256 mismatch: upload is '' @ got)))
                            else (Some st1, RunWith a spool sz))))"

definition consumed :: "endpoint_result \<Rightarrow> bool" where
  "consumed res = (case res of Panicked \<Rightarrow> False | Responded resp \<Rightarrow> 200 \<le> rs_status resp \<and> rs_status resp < 300)"

definition finalize_end :: "nat \<Rightarrow> endpoint_result \<Rightarrow> upload_store \<Rightarrow> upload_store" where
  "finalize_end a res st = (if consumed res then Remove a st else EndFinalize a st)"

definition spool_reader :: "bytes \<Rightarrow> reader" where
  "spool_reader spool = \<lparr>rd_segs = [spool], rd_end = IoEOF, rd_eager = False\<rparr>"

text \<open>The whole middleware around an endpoint \<open>next\<close>, which sees the world \<open>w\<close>, the request
  body and its length. The endpoint's own response (or its panic) is what the client gets.\<close>

definition ResolveSessionBody ::
  "('w \<Rightarrow> reader \<Rightarrow> int \<Rightarrow> 'w \<times> endpoint_result) \<Rightarrow> (bytes \<Rightarrow> string option) \<Rightarrow> bool \<Rightarrow> request
   \<Rightarrow> upload_store option \<Rightarrow> 'w \<Rightarrow> upload_store option \<times> 'w \<times> endpoint_result" where
  "ResolveSessionBody next sha open_ok r active w =
     (case finalize_begin sha open_ok r active of
        (active1, PassThrough) \<Rightarrow>
          (case next w (rq_body r) (rq_content_length r) of (w', res) \<Rightarrow> (active1, w', res))
      | (active1, Answer resp) \<Rightarrow> (active1, w, Responded resp)
      | (active1, RunWith a spool sz) \<Rightarrow>
          (case next w (spool_reader spool) sz of
             (w', res) \<Rightarrow> (map_option (finalize_end a res) active1, w', res)))"

section \<open>The store invariant\<close>

text \<open>Every session's recorded size is the length of its spool and within the cap, and
  every id in the table names an open session whose spool file exists.\<close>

definition session_ok :: "upload_store \<Rightarrow> session \<Rightarrow> bool" where
  "session_ok st s \<longleftrightarrow> s_size s = int (length (s_data s)) \<and> s_size s \<le> us_max st
     \<and> s_path s = us_dir st @ ''/'' @ s_id s @ ''.spool''"

definition entry_ok :: "upload_store \<Rightarrow> string \<times> nat \<Rightarrow> bool" where
  "entry_ok st e \<longleftrightarrow> snd e < length (us_heap st) \<and> s_id (deref st (snd e)) = fst e
     \<and> s_open (deref st (snd e)) \<and> s_path (deref st (snd e)) \<in> us_files st"

definition upload_inv :: "upload_store \<Rightarrow> bool" where
  "upload_inv st \<longleftrightarrow> 0 \<le> us_max st \<and> distinct (map fst (us_sessions st))
     \<and> (\<forall>e \<in> set (us_sessions st). entry_ok st e) \<and> (\<forall>s \<in> set (us_heap st). session_ok st s)"

datatype upload_event =
    EvCreate time "string option" bool string
  | EvAppend "nat option" nat int reader
  | EvBegin bool nat
  | EvEnd nat endpoint_result
  | EvAbort nat
  | EvSweep time

text \<open>One operation on the store; pointers are addresses of sessions created earlier, and
  the rollback of an over-cap chunk succeeds.\<close>

fun upload_step :: "upload_store \<Rightarrow> upload_event \<Rightarrow> upload_store" where
  "upload_step st (EvCreate now rnd ok owner) = fst (Create now rnd ok owner st)"
| "upload_step st (EvAppend room a off body) =
     (if a < length (us_heap st)
      then fst (Append \<lparr>env_room = room, env_truncate_ok = True, env_seek_ok = True\<rparr> a off body st) else st)"
| "upload_step st (EvBegin ok a) = (if a < length (us_heap st) then fst (BeginFinalize ok a st) else st)"
| "upload_step st (EvEnd a res) = (if a < length (us_heap st) then finalize_end a res st else st)"
| "upload_step st (EvAbort a) = (if a < length (us_heap st) then Remove a st else st)"
| "upload_step st (EvSweep now) = SweepExpired now st"

lemma deref_set_session [simp]:
  "a < length (us_heap st) \<Longrightarrow> deref (set_session a s st) b = (if b = a then s else deref st b)"
  by (simp add: deref_def set_session_def)

lemma set_session_fields [simp]:
  "length (us_heap (set_session a s st)) = length (us_heap st)"
  "us_sessions (set_session a s st) = us_sessions st" "us_files (set_session a s st) = us_files st"
  "us_max (set_session a s st) = us_max st" "us_dir (set_session a s st) = us_dir st"
  "us_ttl (set_session a s st) = us_ttl st"
  by (simp_all add: set_session_def)

lemma Remove_fields [simp]:
  "length (us_heap (Remove a st)) = length (us_heap st)" "us_max (Remove a st) = us_max st"
  "us_dir (Remove a st) = us_dir st" "us_ttl (Remove a st) = us_ttl st"
  "us_sessions (Remove a st) = AList.delete (s_id (deref st a)) (us_sessions st)"
  by (simp_all add: Remove_def Let_def)

lemma session_ok_deref: "upload_inv st \<Longrightarrow> a < length (us_heap st) \<Longrightarrow> session_ok st (deref st a)"
  by (simp add: upload_inv_def deref_def)

lemma upload_inv_update:
  assumes "upload_inv st" "a < length (us_heap st)" "session_ok st s"
    "s_id s = s_id (deref st a)" "s_path s = s_path (deref st a)" "s_open s = s_open (deref st a)"
  shows "upload_inv (set_session a s st)"
  using assms
  by (auto simp: upload_inv_def entry_ok_def session_ok_def set_session_def deref_def nth_list_update
      dest!: set_update_subset_insert [THEN subsetD])

text \<open>An append that passes the three guards copies the body; its outcome is one of these
  two states.\<close>

definition grown :: "bytes \<Rightarrow> session \<Rightarrow> session" where
  "grown w s = s\<lparr>s_data := s_data s @ w, s_size := s_size s + int (length w)\<rparr>"

definition cap_for :: "upload_store \<Rightarrow> nat \<Rightarrow> reader \<Rightarrow> capped_reader" where
  "cap_for st a body =
     \<lparr>cp_reader = body, cp_remaining = us_max st - s_size (deref st a), cp_exceeded = False\<rparr>"

lemma Append_copied:
  assumes "\<not> s_busy (deref st a)" "s_open (deref st a)" "off = s_size (deref st a)"
    "s_size (deref st a) = int (length (s_data (deref st a)))"
    "copy_capped (env_room env) (cap_for st a body) [] = (w, e, c')"
    "env_truncate_ok env" "env_seek_ok env"
  shows "Append env a off body st =
    (if cp_exceeded c' then (set_session a (deref st a) st, s_size (deref st a), Some ErrTooLarge)
     else (set_session a (grown w (deref st a)) st, s_size (grown w (deref st a)),
           if e = None then None else Some ErrWriteChunk))"
proof -
  have "take (nat (s_size (deref st a))) (s_data (deref st a) @ w) = s_data (deref st a)"
    using assms(4) by simp
  then show ?thesis
    using assms(1,2,6,7)
    unfolding Append_def Let_def assms(3) assms(5) [unfolded cap_for_def]
    by (simp add: grown_def)
qed

lemma Append_refused:
  assumes "s_busy (deref st a) \<or> off \<noteq> s_size (deref st a) \<or> \<not> s_open (deref st a)"
  shows "fst (Append env a off body st) = st"
  using assms by (auto simp: Append_def Let_def)

lemma Append_inv:
  assumes "upload_inv st" "a < length (us_heap st)" "env_truncate_ok env" "env_seek_ok env"
  shows "upload_inv (fst (Append env a off body st))"
proof (cases "s_busy (deref st a) \<or> off \<noteq> s_size (deref st a) \<or> \<not> s_open (deref st a)")
  case True
  with assms(1) show ?thesis by (simp add: Append_refused)
next
  case False
  have ok: "session_ok st (deref st a)" by (rule session_ok_deref [OF assms(1,2)])
  obtain w e c' where cp: "copy_capped (env_room env) (cap_for st a body) [] = (w, e, c')"
    by (cases "copy_capped (env_room env) (cap_for st a body) []") auto
  from copy_capped_bound [OF cp] ok
  have "cp_exceeded c' \<or> int (length w) \<le> us_max st - s_size (deref st a)"
    by (auto simp: session_ok_def cap_for_def)
  with ok have "cp_exceeded c' \<or> session_ok st (grown w (deref st a))"
    by (auto simp: session_ok_def grown_def)
  moreover have "Append env a off body st =
      (if cp_exceeded c' then (set_session a (deref st a) st, s_size (deref st a), Some ErrTooLarge)
       else (set_session a (grown w (deref st a)) st, s_size (grown w (deref st a)),
             if e = None then None else Some ErrWriteChunk))"
    using False ok cp assms(3,4) by (intro Append_copied) (auto simp: session_ok_def)
  ultimately show ?thesis
    using ok by (auto simp: grown_def intro!: upload_inv_update [OF assms(1,2)])
qed

lemma delete_member [al_simps]: "e \<in> set (AList.delete k al) \<longleftrightarrow> e \<in> set al \<and> fst e \<noteq> k"
  by (induction al) auto

lemma Remove_inv:
  assumes "upload_inv st" "a < length (us_heap st)"
  shows "upload_inv (Remove a st)"
proof -
  let ?s = "deref st a"
  let ?st = "st\<lparr>us_heap := (us_heap st)[a := ?s\<lparr>s_open := False\<rparr>], us_files := us_files st - {s_path ?s},
      us_sessions := AList.delete (s_id ?s) (us_sessions st)\<rparr>"
  have eq: "Remove a st = ?st" by (simp add: Remove_def Let_def set_session_def)
  have ok: "\<And>b. b < length (us_heap st) \<Longrightarrow> session_ok st (us_heap st ! b)"
    using session_ok_deref [OF assms(1)] by (simp add: deref_def)
  have "entry_ok ?st e" if "e \<in> set (AList.delete (s_id ?s) (us_sessions st))" for e
    using that assms ok [of a] ok [of "snd e"]
    by (auto simp: al_simps upload_inv_def entry_ok_def deref_def session_ok_def nth_list_update)
  moreover have "\<forall>s \<in> set (us_heap ?st). session_ok ?st s"
    using assms ok [of a]
    by (auto simp: upload_inv_def session_ok_def deref_def dest!: set_update_subset_insert [THEN subsetD])
  ultimately show ?thesis
    using assms(1) unfolding eq by (auto simp: upload_inv_def distinct_delete)
qed

lemma SweepExpired_inv:
  assumes "upload_inv st"
  shows "upload_inv (SweepExpired now st)"
proof -
  have "upload_inv (foldl (\<lambda>st' a. Remove a st') st xs)
      \<and> length (us_heap (foldl (\<lambda>st' a. Remove a st') st xs)) = length (us_heap st)"
    if "\<forall>a \<in> set xs. a < length (us_heap st)" for xs
    using that assms by (induction xs arbitrary: st) (auto simp: Remove_inv)
  moreover have "\<forall>a \<in> set (stale_sessions now st). a < length (us_heap st)"
    using assms by (auto simp: stale_sessions_def upload_inv_def entry_ok_def split: if_splits)
  ultimately show ?thesis by (auto simp: SweepExpired_def)
qed

lemma Create_inv:
  assumes "upload_inv st"
  shows "upload_inv (fst (Create now rnd ok owner st))"
proof -
  let ?st = "SweepExpired now st"
  have inv: "upload_inv ?st" by (rule SweepExpired_inv [OF assms])
  have upd: "e \<in> set (AList.update i a al) \<Longrightarrow> e = (i, a) \<or> e \<in> set al" for e :: "string \<times> nat" and i a al
    by (induction al) (auto split: if_splits)
  show ?thesis
    using inv
    by (auto simp: Create_def Let_def upload_inv_def session_ok_def entry_ok_def deref_def
        nth_append distinct_update split: option.splits dest!: upd)
qed

lemma finalize_inv:
  assumes "upload_inv st" "a < length (us_heap st)"
  shows "upload_inv (fst (BeginFinalize ok a st))" "upload_inv (EndFinalize a st)"
    "upload_inv (finalize_end a res st)"
  using assms session_ok_deref [OF assms]
  by (auto simp: BeginFinalize_def EndFinalize_def finalize_end_def Let_def session_ok_def Remove_inv
      intro!: upload_inv_update)

interpretation uploads: transition_system upload_step upload_inv
proof unfold_locales
  fix st e
  assume "upload_inv st"
  then show "upload_inv (upload_step st e)"
    by (cases e) (auto simp: Create_inv Append_inv Remove_inv SweepExpired_inv finalize_inv)
qed

lemma foldl_Remove_fields [simp]:
  "us_max (foldl (\<lambda>st' a. Remove a st') st xs) = us_max st"
  "length (us_heap (foldl (\<lambda>st' a. Remove a st') st xs)) = length (us_heap st)"
  by (induction xs arbitrary: st) auto

lemma upload_step_max: "us_max (upload_step st e) = us_max st"
  by (cases e) (auto simp: Create_def Append_def BeginFinalize_def EndFinalize_def finalize_end_def
      SweepExpired_def Let_def split: option.splits prod.splits)

interpretation uploads_cap: transition_system upload_step "\<lambda>st. us_max st = m" for m
  by unfold_locales (simp add: upload_step_max)

lemma NewStore_inv: "NewStore ok listing dir maxSize ttl = Inr st \<Longrightarrow> 0 \<le> maxSize \<Longrightarrow> upload_inv st"
  by (auto simp: NewStore_def upload_inv_def split: if_splits)

text \<open>C3: from a new store, under every interleaving of session operations (any number of
  handlers holding pointers to sessions, also removed ones), a session the table names is
  the one with that id, its spool file exists and is open, and the committed size it
  reports is the length of the spool and within the configured maximum. Appends may fail at any
  point of their body; cutting the spool back to the committed size then succeeds.\<close>

theorem upload_sessions_consistent:
  assumes "NewStore ok listing dir maxSize ttl = Inr st0" and "0 \<le> maxSize"
    and "map_of (us_sessions (foldl upload_step st0 es)) i = Some a"
  shows "s_id (deref (foldl upload_step st0 es) a) = i
    \<and> s_size (deref (foldl upload_step st0 es) a) = int (length (s_data (deref (foldl upload_step st0 es) a)))
    \<and> s_size (deref (foldl upload_step st0 es) a) \<le> maxSize
    \<and> s_open (deref (foldl upload_step st0 es) a)
    \<and> s_path (deref (foldl upload_step st0 es) a) \<in> us_files (foldl upload_step st0 es)"
proof -
  let ?st = "foldl upload_step st0 es"
  have inv: "upload_inv ?st" by (rule uploads.run_inv [OF NewStore_inv [OF assms(1,2)]])
  have "us_max ?st = maxSize"
    using assms(1) by (intro uploads_cap.run_inv) (auto simp: NewStore_def split: if_splits)
  moreover have "entry_ok ?st (i, a)"
    using inv map_of_SomeD [OF assms(3)] by (auto simp: upload_inv_def)
  moreover from this have "session_ok ?st (deref ?st a)"
    by (intro session_ok_deref [OF inv]) (simp add: entry_ok_def)
  ultimately show ?thesis by (simp add: entry_ok_def session_ok_def)
qed

lemma set_session_deref [simp]: "set_session a (deref st a) st = st"
  by (simp add: set_session_def deref_def)

lemma Append_result:
  assumes "upload_inv st" and "a < length (us_heap st)"
    and "\<not> s_busy (deref st a)" and "s_open (deref st a)"
    and "env_room env = None" and "env_truncate_ok env" and "env_seek_ok env"
  shows "Append env a (s_size (deref st a)) body st =
    (if s_size (deref st a) + int (length (rd_bytes body)) \<le> us_max st
     then (set_session a (grown (rd_bytes body) (deref st a)) st,
           s_size (deref st a) + int (length (rd_bytes body)),
           if rd_end body = IoEOF then None else Some ErrWriteChunk)
     else (st, s_size (deref st a), Some ErrTooLarge))"
proof -
  obtain w e c' where cp: "copy_capped None (cap_for st a body) [] = (w, e, c')"
    by (cases "copy_capped None (cap_for st a body) []") auto
  then have "copy_result (cap_for st a body) [] w e c'"
    by (intro copy_capped_total) (simp_all add: cap_for_def)
  moreover have "s_size (deref st a) = int (length (s_data (deref st a)))"
    using session_ok_deref [OF assms(1,2)] by (simp add: session_ok_def)
  moreover note Append_copied [OF assms(3,4) refl this, of env body w e c']
  ultimately show ?thesis
    using assms(5-7) cp
    by (auto simp: copy_result_def cap_for_def grown_def split: if_splits)
qed

text \<open>what appending a chunk does on a disk that works, for every way the body may arrive:
  a chunk that fits is committed in full (also when the connection fails after it, which is
  reported), one that does not fit changes nothing and reports the size to resume from.\<close>

theorem Append_outcome:
  assumes "upload_inv st" and "a < length (us_heap st)"
    and "\<not> s_busy (deref st a)" and "s_open (deref st a)"
    and "env_room env = None" and "env_truncate_ok env" and "env_seek_ok env"
  shows "Append env a (s_size (deref st a)) body st =
    (if s_size (deref st a) + int (length (rd_bytes body)) \<le> us_max st
     then (set_session a (grown (rd_bytes body) (deref st a)) st,
           s_size (deref st a) + int (length (rd_bytes body)),
           if rd_end body = IoEOF then None else Some ErrWriteChunk)
     else (st, s_size (deref st a), Some ErrTooLarge))"
  using assms by (rule Append_result)

lemma deref_Remove:
  "x < length (us_heap st) \<Longrightarrow>
   deref (Remove x st) b = (if b = x then (deref st b)\<lparr>s_open := False\<rparr> else deref st b)"
  by (simp add: Remove_def Let_def deref_def set_session_def nth_list_update)

lemma us_files_Remove: "us_files (Remove x st) = us_files st - {s_path (deref st x)}"
  by (simp add: Remove_def Let_def)

lemma delete_filter: "AList.delete k al = filter (\<lambda>e. fst e \<noteq> k) al"
  by (induction al) auto

lemma foldl_Remove_deref:
  "\<forall>a \<in> set xs. a < length (us_heap st) \<Longrightarrow> deref (foldl (\<lambda>st' a. Remove a st') st xs) b =
      (if b \<in> set xs then (deref st b)\<lparr>s_open := False\<rparr> else deref st b)"
  by (induction xs arbitrary: st) (auto simp: deref_Remove)

lemma foldl_Remove_sessions:
  assumes "\<forall>a \<in> set xs. a < length (us_heap st)"
  shows "us_sessions (foldl (\<lambda>st' a. Remove a st') st xs) =
      filter (\<lambda>e. fst e \<notin> (\<lambda>a. s_id (deref st a)) ` set xs) (us_sessions st)"
  using assms
proof (induction xs arbitrary: st)
  case (Cons x xs)
  have "(\<lambda>a. s_id (deref (Remove x st) a)) ` set xs = (\<lambda>a. s_id (deref st a)) ` set xs"
    using Cons.prems by (intro image_cong) (auto simp: deref_Remove)
  with Cons show ?case by (auto simp: delete_filter conj_commute intro!: filter_cong)
qed simp

lemma foldl_Remove_files:
  assumes "\<forall>a \<in> set xs. a < length (us_heap st)"
  shows "us_files (foldl (\<lambda>st' a. Remove a st') st xs) =
      us_files st - (\<lambda>a. s_path (deref st a)) ` set xs"
  using assms
proof (induction xs arbitrary: st)
  case (Cons x xs)
  have "(\<lambda>a. s_path (deref (Remove x st) a)) ` set xs = (\<lambda>a. s_path (deref st a)) ` set xs"
    using Cons.prems by (intro image_cong) (auto simp: deref_Remove)
  with Cons show ?case by (auto simp: us_files_Remove)
qed simp

lemma stale_iff:
  "upload_inv st \<Longrightarrow> map_of (us_sessions st) i = Some a \<Longrightarrow>
   i \<in> (\<lambda>a. s_id (deref st a)) ` set (stale_sessions now st) \<longleftrightarrow>
     \<not> s_busy (deref st a) \<and> s_created (deref st a) < now - us_ttl st"
  by (auto simp: stale_sessions_def upload_inv_def entry_ok_def image_iff split: if_splits
      dest!: map_of_SomeD) (metis eq_key_imp_eq_value fst_conv snd_conv)+

lemma stale_valid: "upload_inv st \<Longrightarrow> \<forall>a \<in> set (stale_sessions now st). a < length (us_heap st)"
  by (auto simp: stale_sessions_def upload_inv_def entry_ok_def split: if_splits)

lemma map_of_filter_key:
  "map_of (filter (\<lambda>e. fst e \<notin> K) al) i = (if i \<in> K then None else map_of al i)"
  by (induction al) auto

text \<open>a sweep forgets exactly the sessions that are past their time to live and not
  being finalized; every other session stays in the table, unchanged and with its file.\<close>

theorem SweepExpired_exact:
  assumes "upload_inv st" and "map_of (us_sessions st) i = Some a"
  shows "if \<not> s_busy (deref st a) \<and> s_created (deref st a) < now - us_ttl st
    then map_of (us_sessions (SweepExpired now st)) i = None
       \<and> s_path (deref st a) \<notin> us_files (SweepExpired now st)
    else map_of (us_sessions (SweepExpired now st)) i = Some a
       \<and> deref (SweepExpired now st) a = deref st a
       \<and> s_path (deref st a) \<in> us_files (SweepExpired now st)"
proof -
  let ?xs = "stale_sessions now st" and ?stale = "\<not> s_busy (deref st a) \<and> s_created (deref st a) < now - us_ttl st"
  note valid = stale_valid [OF assms(1), of now]
  note effect = foldl_Remove_deref [OF valid] foldl_Remove_sessions [OF valid] foldl_Remove_files [OF valid]
  have ent: "(i, a) \<in> set (us_sessions st)" using assms(2) by (rule map_of_SomeD)
  then have a: "entry_ok st (i, a)" using assms(1) by (auto simp: upload_inv_def)
  have mem: "b \<in> set ?xs \<Longrightarrow> s_id (deref st b) = i \<Longrightarrow> b = a" for b
    using assms ent by (auto simp: stale_sessions_def upload_inv_def entry_ok_def split: if_splits)
      (metis eq_key_imp_eq_value fst_conv snd_conv)
  have path: "s_path (deref st b) = s_path (deref st a) \<Longrightarrow> s_id (deref st b) = i" if "b \<in> set ?xs" for b
    using session_ok_deref [OF assms(1), of a] session_ok_deref [OF assms(1), of b] valid that a
    by (auto simp: session_ok_def entry_ok_def)
  have ids: "i \<in> (\<lambda>a. s_id (deref st a)) ` set ?xs \<longleftrightarrow> a \<in> set ?xs"
    using mem a by (auto simp: entry_ok_def)
  have paths: "s_path (deref st a) \<in> (\<lambda>a. s_path (deref st a)) ` set ?xs \<longleftrightarrow> a \<in> set ?xs"
    using mem path by (auto simp: image_iff)
  have stale: "a \<in> set ?xs \<longleftrightarrow> ?stale"
    using stale_iff [OF assms, of now] ids by simp
  show ?thesis
  proof (cases "a \<in> set ?xs")
    case True
    then show ?thesis
      unfolding SweepExpired_def effect map_of_filter_key ids stale [symmetric]
      using paths by simp
  next
    case False
    then show ?thesis
      unfolding SweepExpired_def effect map_of_filter_key ids stale [symmetric]
      using paths a assms(2) by (simp add: entry_ok_def)
  qed
qed

section \<open>Ownership\<close>

text \<open>a session id that belongs to someone else is answered exactly as an id that does
  not exist, by every operation of the session API, and nothing changes.\<close>

theorem foreign_session_hidden:
  assumes "map_of (us_sessions st) (rq_path_id r) = Some a"
    and "rq_token r = Some t" and "HasScope t ''write''"
    and "s_owner (deref st a) \<noteq> ownerIdentity t"
  shows "handleStatus r (Some st) = (Some st, json_error 404 ''upload session not found'')
    \<and> handleAppend env r (Some st) = (Some st, json_error 404 ''upload session not found'')
    \<and> handleAbort r (Some st) = (Some st, json_error 404 ''upload session not found'')
    \<and> snd (handleStatus r (Some (st\<lparr>us_sessions := []\<rparr>))) = json_error 404 ''upload session not found''"
  using assms
  by (simp add: handleStatus_def handleAppend_def handleAbort_def getSession_def requireOwner_def Get_def)

section \<open>Finalizing\<close>

lemma Get_some:
  "Get i owner st = Inr a \<Longrightarrow> map_of (us_sessions st) i = Some a \<and> s_owner (deref st a) = owner"
  by (auto simp: Get_def split: option.splits if_splits)

lemma BeginFinalize_some:
  assumes "BeginFinalize ok a st = (st1, Inr (spool, sz))" "a < length (us_heap st)"
  shows "spool = s_data (deref st a)" "sz = s_size (deref st a)"
    "st1 = set_session a ((deref st a)\<lparr>s_busy := True\<rparr>) st" "EndFinalize a st1 = st"
    "\<not> s_busy (deref st a)"
proof -
  have eqs: "spool = s_data (deref st a)" "sz = s_size (deref st a)" "\<not> s_busy (deref st a)"
    "st1 = set_session a ((deref st a)\<lparr>s_busy := True\<rparr>) st"
    using assms(1) by (auto simp: BeginFinalize_def Let_def split: if_splits)
  have "(deref st a)\<lparr>s_busy := False\<rparr> = deref st a" using eqs(3) by simp
  then have "EndFinalize a st1 = st"
    using assms(2) eqs(4) by (simp add: EndFinalize_def set_session_def deref_def)
  with eqs show "spool = s_data (deref st a)" "sz = s_size (deref st a)"
    "st1 = set_session a ((deref st a)\<lparr>s_busy := True\<rparr>) st" "EndFinalize a st1 = st"
    "\<not> s_busy (deref st a)" by simp_all
qed

lemma BeginFinalize_none: "BeginFinalize ok a st = (st1, Inl e) \<Longrightarrow> st1 = st"
  by (auto simp: BeginFinalize_def Let_def split: if_splits)

lemma Get_valid: "upload_inv st \<Longrightarrow> Get i owner st = Inr a \<Longrightarrow> a < length (us_heap st)"
  by (auto simp: upload_inv_def entry_ok_def dest!: Get_some map_of_SomeD)

text \<open>Every answer the middleware gives by itself leaves the store as it was.\<close>

lemma finalize_begin_answer:
  assumes "upload_inv st" "finalize_begin sha ok r (Some st) = (active', Answer resp)"
  shows "active' = Some st"
  using assms
  by (auto simp: finalize_begin_def Let_def Get_valid BeginFinalize_some(4)
      split: if_splits sum.splits prod.splits option.splits dest!: BeginFinalize_none)

lemma finalize_begin_run:
  assumes "upload_inv st" "finalize_begin sha ok r (Some st) = (active', RunWith a spool sz)"
  shows "active' = Some (set_session a ((deref st a)\<lparr>s_busy := True\<rparr>) st)"
    "spool = s_data (deref st a)" "sz = s_size (deref st a)" "a < length (us_heap st)"
    "map_of (us_sessions st) (query_get r ''upload_session'') = Some a" "\<not> s_busy (deref st a)"
    "expectedSHA256 r = [] \<or> (\<exists>got. sha spool = Some got \<and> equal_fold (expectedSHA256 r) got)"
    "EndFinalize a (set_session a ((deref st a)\<lparr>s_busy := True\<rparr>) st) = st"
proof -
  from assms(2) obtain t st1 where t: "rq_token r = Some t"
    and g: "Get (query_get r ''upload_session'') (ownerIdentity t) st = Inr a"
    and b: "BeginFinalize ok a st = (st1, Inr (spool, sz))" "active' = Some st1"
    and h: "expectedSHA256 r = [] \<or> (\<exists>got. sha spool = Some got \<and> equal_fold (expectedSHA256 r) got)"
    by (auto simp: finalize_begin_def requireOwner_def Let_def split: if_splits sum.splits prod.splits option.splits)
  note a = Get_valid [OF assms(1) g]
  note bf = BeginFinalize_some [OF b(1) a]
  show "active' = Some (set_session a ((deref st a)\<lparr>s_busy := True\<rparr>) st)"
    "spool = s_data (deref st a)" "sz = s_size (deref st a)" "a < length (us_heap st)"
    "map_of (us_sessions st) (query_get r ''upload_session'') = Some a" "\<not> s_busy (deref st a)"
    "expectedSHA256 r = [] \<or> (\<exists>got. sha spool = Some got \<and> equal_fold (expectedSHA256 r) got)"
    "EndFinalize a (set_session a ((deref st a)\<lparr>s_busy := True\<rparr>) st) = st"
    using b(2) bf a h Get_some [OF g] by simp_all
qed

text \<open>finalizing runs the endpoint on exactly the bytes of the session, with their
  length, and only when the digest the client declared (if any) is the one of those bytes;
  a 2xx answer consumes the session and its file, any other answer or a panic leaves the
  store exactly as it was, so that the client can retry.\<close>

theorem finalize_runs_endpoint:
  assumes "upload_inv st"
    and "finalize_begin sha ok r (Some st) = (active', RunWith a spool sz)"
    and "next w (spool_reader (s_data (deref st a))) (int (length (s_data (deref st a)))) = (w', res)"
  shows "\<exists>st'. ResolveSessionBody next sha ok r (Some st) w = (Some st', w', res)
    \<and> (expectedSHA256 r = [] \<or>
        (\<exists>got. sha (s_data (deref st a)) = Some got \<and> equal_fold (expectedSHA256 r) got))
    \<and> (if consumed res
       then map_of (us_sessions st') (query_get r ''upload_session'') = None
          \<and> s_path (deref st a) \<notin> us_files st'
       else st' = st)"
proof -
  note run = finalize_begin_run [OF assms(1,2)]
  let ?busy = "set_session a ((deref st a)\<lparr>s_busy := True\<rparr>) st"
  have sz: "sz = int (length (s_data (deref st a)))"
    using run session_ok_deref [OF assms(1)] by (simp add: session_ok_def)
  have res: "ResolveSessionBody next sha ok r (Some st) w = (Some (finalize_end a res ?busy), w', res)"
    using assms(2,3) run(1,2) sz by (simp add: ResolveSessionBody_def)
  have "s_id (deref st a) = query_get r ''upload_session''"
    using assms(1) run(5) by (auto simp: upload_inv_def entry_ok_def dest!: map_of_SomeD)
  then show ?thesis
    using res run by (auto simp: finalize_end_def us_files_Remove delete_conv)
qed

text \<open>every request the middleware answers itself (not signed in, unknown or foreign
  session, a non-empty body, a busy session, a digest mismatch) never reaches the endpoint
  and leaves the store as it was.\<close>

theorem finalize_refusal_no_effect:
  assumes "upload_inv st" and "finalize_begin sha ok r (Some st) = (active', Answer resp)"
  shows "ResolveSessionBody next sha ok r (Some st) w = (Some st, w, Responded resp)"
  using assms(2) finalize_begin_answer [OF assms] by (simp add: ResolveSessionBody_def)

section \<open>A chunked upload from start to end\<close>

text \<open>A client that sends each chunk at the size the server reported.\<close>

fun append_all :: "io_env \<Rightarrow> nat \<Rightarrow> reader list \<Rightarrow> upload_store \<Rightarrow> upload_store \<times> upload_error option" where
  "append_all env a [] st = (st, None)"
| "append_all env a (b # bs) st =
     (case Append env a (s_size (deref st a)) b st of
        (st', sz, None) \<Rightarrow> append_all env a bs st'
      | (st', sz, Some e) \<Rightarrow> (st', Some e))"

lemma grown_fields [simp]:
  "s_busy (grown w s) = s_busy s" "s_open (grown w s) = s_open s" "s_path (grown w s) = s_path s"
  "s_data (grown w s) = s_data s @ w" "s_size (grown w s) = s_size s + int (length w)"
  "s_id (grown w s) = s_id s"
  by (simp_all add: grown_def)

lemma append_all_complete:
  assumes "upload_inv st" "a < length (us_heap st)" "\<not> s_busy (deref st a)" "s_open (deref st a)"
    "env_room env = None" "env_truncate_ok env" "env_seek_ok env"
    "\<forall>b \<in> set bs. rd_end b = IoEOF"
    "s_size (deref st a) + int (length (concat (map rd_bytes bs))) \<le> us_max st"
  shows "\<exists>st'. append_all env a bs st = (st', None) \<and> upload_inv st' \<and> a < length (us_heap st')
     \<and> s_data (deref st' a) = s_data (deref st a) @ concat (map rd_bytes bs)
     \<and> \<not> s_busy (deref st' a) \<and> us_files st' = us_files st
     \<and> s_path (deref st' a) = s_path (deref st a)"
  using assms
proof (induction bs arbitrary: st)
  case Nil
  then show ?case by simp
next
  case (Cons b bs)
  let ?st = "set_session a (grown (rd_bytes b) (deref st a)) st"
  have app: "Append env a (s_size (deref st a)) b st =
      (?st, s_size (deref st a) + int (length (rd_bytes b)), None)"
    using Cons.prems Append_result [of st a env b] by auto
  then have "upload_inv ?st"
    using Append_inv [OF Cons.prems(1,2,6,7), of "s_size (deref st a)" b] by simp
  then obtain st' where "append_all env a bs ?st = (st', None)" "upload_inv st'"
    "a < length (us_heap st')" "s_data (deref st' a) = s_data (deref ?st a) @ concat (map rd_bytes bs)"
    "\<not> s_busy (deref st' a)" "us_files st' = us_files ?st" "s_path (deref st' a) = s_path (deref ?st a)"
    using Cons.IH [of ?st] Cons.prems by auto
  with app Cons.prems(2) show ?case by auto
qed

text \<open>a body cut into any chunks, each arriving in any segments, and appended at the sizes
  the server reports is handed to the endpoint byte for byte, as long as the total is within
  the cap.\<close>

theorem chunked_upload_roundtrip:
  assumes "upload_inv st" and "a < length (us_heap st)" and "\<not> s_busy (deref st a)"
    and "s_open (deref st a)" and "s_data (deref st a) = []" and "s_path (deref st a) \<in> us_files st"
    and "env_room env = None" and "env_truncate_ok env" and "env_seek_ok env"
    and "\<forall>b \<in> set bs. rd_end b = IoEOF"
    and "int (length (concat (map rd_bytes bs))) \<le> us_max st"
  shows "\<exists>st' st''. append_all env a bs st = (st', None) \<and> BeginFinalize True a st' =
     (st'', Inr (concat (map rd_bytes bs), int (length (concat (map rd_bytes bs)))))"
proof -
  have "s_size (deref st a) = 0"
    using session_ok_deref [OF assms(1,2)] assms(5) by (simp add: session_ok_def)
  then obtain st' where st': "append_all env a bs st = (st', None)" "upload_inv st'"
    "a < length (us_heap st')" "s_data (deref st' a) = concat (map rd_bytes bs)"
    "\<not> s_busy (deref st' a)" "s_path (deref st' a) \<in> us_files st'"
    using append_all_complete [OF assms(1-4,7-10)] assms(5,6,11) by auto
  moreover have "s_size (deref st' a) = int (length (s_data (deref st' a)))"
    using session_ok_deref [OF st'(2,3)] by (simp add: session_ok_def)
  ultimately show ?thesis by (simp add: BeginFinalize_def)
qed

section \<open>Concrete instances\<close>

definition demo_session :: session where
  "demo_session = \<lparr>s_id = ''ab'', s_owner = ''7:ci'', s_path = ''/s/ab.spool'', s_created = 0,
     s_data = [1, 2, 3], s_open = True, s_size = 3, s_busy = False\<rparr>"

definition demo_store :: upload_store where
  "demo_store = \<lparr>us_dir = ''/s'', us_max = 10, us_ttl = 100, us_sessions = [(''ab'', 0)],
     us_heap = [demo_session], us_files = {''/s/ab.spool''}\<rparr>"

definition demo_token :: api_token where
  "demo_token = \<lparr>t_id = 7, t_name = ''ci'', t_hash = [], t_prefix = [], t_project_id = None,
     t_scopes = ''read,write'', t_expires_at = None, t_last_used_at = None, t_created_at = 0\<rparr>"

definition demo_body :: reader where
  "demo_body = \<lparr>rd_segs = [[4], [], [5, 6]], rd_end = IoEOF, rd_eager = True\<rparr>"

definition demo_request :: request where
  "demo_request = \<lparr>rq_method = ''PUT'', rq_path = ''/api/v1/projects/x'',
     rq_query = [(''upload_session'', ''ab''), (''upload_sha256'', ''FF'')], rq_headers = [],
     rq_path_id = ''ab'', rq_token = Some demo_token, rq_content_length = 0, rq_has_body = False,
     rq_body = \<lparr>rd_segs = [], rd_end = IoEOF, rd_eager = False\<rparr>\<rparr>"

abbreviation "good_env \<equiv> \<lparr>env_room = None, env_truncate_ok = True, env_seek_ok = True\<rparr>"

lemma demo_inv: "upload_inv demo_store"
  by (simp add: upload_inv_def demo_store_def demo_session_def entry_ok_def session_ok_def deref_def)

lemma demo_store_fields [simp]:
  "deref demo_store 0 = demo_session" "us_max demo_store = 10" "us_ttl demo_store = 100"
  "us_sessions demo_store = [(''ab'', 0)]" "length (us_heap demo_store) = 1"
  "us_files demo_store = {''/s/ab.spool''}" "us_dir demo_store = ''/s''"
  by (simp_all add: deref_def demo_store_def)

lemma demo_session_fields [simp]:
  "s_id demo_session = ''ab''" "s_owner demo_session = ''7:ci''" "s_path demo_session = ''/s/ab.spool''"
  "s_created demo_session = 0" "s_data demo_session = [1, 2, 3]" "s_open demo_session"
  "s_size demo_session = 3" "\<not> s_busy demo_session"
  by (simp_all add: demo_session_def)

lemma demo_body_fields [simp]: "rd_bytes demo_body = [4, 5, 6]" "rd_end demo_body = IoEOF"
  by (simp_all add: demo_body_def rd_bytes_def)

theorem upload_sessions_consistent_witness:
  "s_size (deref (foldl upload_step (projr (NewStore True None ''/s'' 5 100))
      [EvCreate 0 (Some ''ab'') True ''7:ci'', EvAppend None 0 0 demo_body, EvAppend None 0 3 demo_body]) 0) \<le> 5"
proof -
  let ?es = "[EvCreate 0 (Some ''ab'') True ''7:ci'', EvAppend None 0 0 demo_body, EvAppend None 0 3 demo_body]"
  have new: "NewStore True None ''/s'' 5 100 = Inr (projr (NewStore True None ''/s'' 5 100))"
    by (simp add: NewStore_def)
  have "map_of (us_sessions (foldl upload_step (projr (NewStore True None ''/s'' 5 100)) ?es)) ''ab'' = Some 0"
    by (simp add: NewStore_def Create_def SweepExpired_def stale_sessions_def Append_def deref_def
        set_session_def Let_def copy_capped.simps capped_read_def rd_read_def file_write_def
        copy_buffer_def demo_body_def)
  from upload_sessions_consistent [OF new _ this] show ?thesis by simp
qed

theorem Append_outcome_witness:
  "Append good_env 0 3 demo_body demo_store =
     (set_session 0 (grown [4, 5, 6] demo_session) demo_store, 6, None)"
  using Append_outcome [OF demo_inv, of 0 good_env demo_body] by simp

theorem SweepExpired_exact_witness:
  "map_of (us_sessions (SweepExpired 101 demo_store)) ''ab'' = None
   \<and> map_of (us_sessions (SweepExpired 100 demo_store)) ''ab'' = Some 0"
  using SweepExpired_exact [OF demo_inv, of "''ab''" 0 101] SweepExpired_exact [OF demo_inv, of "''ab''" 0 100]
  by simp

theorem foreign_session_hidden_witness:
  "handleAbort (demo_request\<lparr>rq_token := Some (demo_token\<lparr>t_name := ''other''\<rparr>)\<rparr>) (Some demo_store) =
     (Some demo_store, json_error 404 ''upload session not found'')"
proof -
  let ?t = "demo_token\<lparr>t_name := ''other''\<rparr>" and ?r = "demo_request\<lparr>rq_token := Some (demo_token\<lparr>t_name := ''other''\<rparr>)\<rparr>"
  have "map_of (us_sessions demo_store) (rq_path_id ?r) = Some 0" by (simp add: demo_request_def)
  moreover have "HasScope ?t ''write''" "s_owner demo_session \<noteq> ownerIdentity ?t" by code_simp+
  ultimately show ?thesis
    using foreign_session_hidden [of demo_store ?r 0 ?t] by simp
qed

theorem finalize_runs_endpoint_witness:
  "\<exists>st'. ResolveSessionBody (\<lambda>w b n. (w + n, Responded \<lparr>rs_status = 201, rs_body = []\<rparr>))
      (\<lambda>b. Some ''ff'') True demo_request (Some demo_store) (0 :: int)
     = (Some st', 3, Responded \<lparr>rs_status = 201, rs_body = []\<rparr>)
   \<and> map_of (us_sessions st') ''ab'' = None"
proof -
  have "finalize_begin (\<lambda>b. Some ''ff'') True demo_request (Some demo_store) =
      (Some (set_session 0 (demo_session\<lparr>s_busy := True\<rparr>) demo_store), RunWith 0 [1, 2, 3] 3)"
    by code_simp
  from finalize_runs_endpoint [OF demo_inv this, of "\<lambda>w b n. (w + n, Responded \<lparr>rs_status = 201, rs_body = []\<rparr>)" "0 :: int"]
  show ?thesis by (auto simp: consumed_def demo_request_def query_get_def)
qed

theorem finalize_refusal_no_effect_witness:
  "ResolveSessionBody (\<lambda>w b n. (Suc w, Panicked)) (\<lambda>b. Some ''00'') True demo_request (Some demo_store) 0 =
     (Some demo_store, 0, Responded (json_error 400 ''sha256 mismatch: upload is 00''))"
proof -
  have "snd (finalize_begin (\<lambda>b. Some ''00'') True demo_request (Some demo_store)) =
      Answer (json_error 400 ''sha256 mismatch: upload is 00'')"
    by code_simp
  then obtain x where "finalize_begin (\<lambda>b. Some ''00'') True demo_request (Some demo_store) =
      (x, Answer (json_error 400 ''sha256 mismatch: upload is 00''))"
    by (metis prod.collapse)
  from finalize_refusal_no_effect [OF demo_inv this] show ?thesis .
qed

theorem chunked_upload_roundtrip_witness:
  "\<exists>st' st''. append_all good_env 0 [demo_body, demo_body]
      (set_session 0 (demo_session\<lparr>s_data := [], s_size := 0\<rparr>) demo_store) = (st', None)
     \<and> BeginFinalize True 0 st' = (st'', Inr ([4, 5, 6, 4, 5, 6], 6))"
proof -
  let ?st = "set_session 0 (demo_session\<lparr>s_data := [], s_size := 0\<rparr>) demo_store"
  have len: "0 < length (us_heap demo_store)" by simp
  have inv: "upload_inv ?st"
    by (intro upload_inv_update [OF demo_inv len])
      (simp_all add: session_ok_def)
  show ?thesis
    using chunked_upload_roundtrip [OF inv, of 0 good_env "[demo_body, demo_body]"] len by simp
qed

end
