(* ===== verification/Database.thy ===== *)
theory Database
  imports Db_Types
begin

text \<open>
  The SQLite database as the queries see it: \<open>internal/db/models.go\<close> (rows), the schema
  (unique columns, foreign keys and their cascades) and the queries of \<open>*.sql.go\<close> that
  several components share. A table is the list of its rows in the order of insertion.
  Foreign keys are enforced, as
  \<open>open.go\<close> asks for: a statement that would leave a row without its parent fails and
  changes nothing. The database is modelled as working: what can fail is what the
  schema forbids, or a row that is not there.

  A statement takes the database and returns an error or the new database; a function
  that runs a transaction returns the old database when any of its statements fails.
\<close>

section \<open>Rows and tables\<close>

type_synonym Visibility = string

record artifact_platform =
  ap_artifact_id :: int
  ap_release_id :: int
  ap_kind :: Kind
  ap_os :: OS
  ap_arch :: Arch
  ap_ordinal :: int

record packaged_artifact =
  k_id :: int
  k_artifact_id :: int
  k_format :: string
  k_storage_key :: string
  k_size :: int
  k_sha256 :: string
  k_filename :: string
  k_metadata :: string
  k_created_at :: time

record site =
  site_id :: int
  site_project_id :: int
  site_branch :: string
  site_storage_key :: string
  site_size :: int
  site_sha256 :: string
  site_file_count :: int
  site_git_commit :: string
  site_is_public :: bool
  site_updated_at :: time
  site_created_at :: time

record oci_blob_link =
  ol_project_id :: int
  ol_storage_key :: string
  ol_media_type :: string
  ol_size :: int
  ol_is_manifest :: bool
  ol_created_at :: time

record oci_tag =
  ot_project_id :: int
  ot_tag :: string
  ot_manifest_digest :: string
  ot_release_id :: int

record oidc_policy =
  op_id :: int
  op_issuer :: string
  op_subject_pattern :: string
  op_audience :: string
  op_project_id :: "int option"
  op_scopes :: string
  op_created_at :: time

record project_alias =
  al_name :: string
  al_project_id :: int

record project_visibility =
  pv_project_id :: int
  pv_mode :: Visibility
  pv_auto_private :: bool

record visibility_folder =
  vf_prefix :: string
  vf_mode :: Visibility

record release_visibility =
  rv_release_id :: int
  rv_mode :: Visibility

record site_visibility =
  sv_project_id :: int
  sv_branch :: string
  sv_mode :: Visibility

record download_event =
  ev_artifact_id :: int
  ev_fmt :: string
  ev_client_ip :: string
  ev_user_agent :: string
  ev_principal :: string

record goproxy_module =
  gm_id :: int
  gm_module_path :: string
  gm_source :: string
  gm_last_error_kind :: string
  gm_last_error :: string
  gm_last_error_at :: "time option"
  gm_last_success_at :: "time option"
  gm_created_at :: time

record goproxy_version =
  gv_module_id :: int
  gv_version :: string
  gv_commit_sha :: string
  gv_committed_at :: "time option"
  gv_go_mod :: string
  gv_zip_storage_key :: string
  gv_zip_size :: int
  gv_fetched_at :: time

record mirror_blob =
  mb_upstream :: string
  mb_digest :: string
  mb_media_type :: string
  mb_storage_key :: string
  mb_size :: int
  mb_created_at :: time
  mb_used_at :: time
  mb_reads :: int

record mirror_tag =
  mt_upstream :: string
  mt_repository :: string
  mt_tag :: string
  mt_digest :: string
  mt_media_type :: string
  mt_checked_at :: time

record run_storage_run =
  rn_repo_id :: string
  rn_run_id :: string
  rn_repo_path :: string
  rn_created_at :: time
  rn_used_at :: time
  rn_checked_at :: "time option"
  rn_ended_at :: "time option"

record run_file =
  rf_repo_id :: string
  rf_run_id :: string
  rf_name :: string
  rf_storage_key :: string
  rf_size :: int
  rf_created_at :: time
  rf_reads :: int
  rf_read_at :: "time option"

record run_lock =
  lk_repo_id :: string
  lk_run_id :: string
  lk_run_attempt :: string
  lk_name :: string
  lk_value :: string
  lk_created_at :: time

record cache_entry =
  ce_repo_id :: string
  ce_ref :: string
  ce_key :: string
  ce_repo_path :: string
  ce_storage_key :: string
  ce_size :: int
  ce_created_at :: time
  ce_used_at :: time
  ce_reads :: int

record db =
  d_projects :: "project list"
  d_project_seq :: int
  d_aliases :: "project_alias list"
  d_releases :: "release list"
  d_release_seq :: int
  d_artifacts :: "artifact list"
  d_artifact_seq :: int
  d_platforms :: "artifact_platform list"
  d_packaged :: "packaged_artifact list"
  d_counts :: "(int \<times> int) list"
  d_events :: "download_event list"
  d_sites :: "site list"
  d_oci_links :: "oci_blob_link list"
  d_oci_tags :: "oci_tag list"
  d_tokens :: "api_token list"
  d_policies :: "oidc_policy list"
  d_goproxy_modules :: "goproxy_module list"
  d_goproxy_module_seq :: int
  d_goproxy_versions :: "goproxy_version list"
  d_runs :: "run_storage_run list"
  d_run_files :: "run_file list"
  d_run_locks :: "run_lock list"
  d_cache_entries :: "cache_entry list"
  d_mirror_blobs :: "mirror_blob list"
  d_mirror_tags :: "mirror_tag list"
  d_project_vis :: "project_visibility list"
  d_folders :: "visibility_folder list"
  d_release_vis :: "release_visibility list"
  d_site_vis :: "site_visibility list"
  d_retention :: "(int \<times> int) option"
  d_token_seq :: int
  d_policy_seq :: int

definition empty_db :: db where
  "empty_db = \<lparr>d_projects = [], d_project_seq = 0, d_aliases = [], d_releases = [], d_release_seq = 0,
     d_artifacts = [], d_artifact_seq = 0, d_platforms = [], d_packaged = [], d_counts = [],
     d_events = [], d_sites = [], d_oci_links = [], d_oci_tags = [], d_tokens = [],
     d_policies = [], d_goproxy_modules = [], d_goproxy_module_seq = 0, d_goproxy_versions = [],
     d_runs = [], d_run_files = [], d_run_locks = [], d_cache_entries = [],
     d_mirror_blobs = [], d_mirror_tags = [], d_project_vis = [], d_folders = [], d_release_vis = [],
     d_site_vis = [], d_retention = None, d_token_seq = 0, d_policy_seq = 0\<rparr>"

definition new_project :: "int \<Rightarrow> string \<Rightarrow> bool \<Rightarrow> project" where
  "new_project i name priv = \<lparr>p_id = i, p_name = name, p_description = [], p_homepage = [], p_license = [],
     p_is_private = priv, p_versioning = VersioningAuto, p_github_repo = [], p_github_owner_id = [],
     p_github_repo_id = [], p_default_branch = ''master'', p_create_service = False,
     p_apt_depends = [], p_depends = [], p_created_at = 0, p_updated_at = 0\<rparr>"

datatype db_error =
    ErrNotFound
  | ErrConflict string
  | UniqueViolation
  | ForeignKeyViolation
  | CheckViolation
  | Refused string

text \<open>Sequencing of fallible steps, and a transaction: all of its effect or none.\<close>

definition bind_res :: "'e + 'a \<Rightarrow> ('a \<Rightarrow> 'e + 'b) \<Rightarrow> 'e + 'b" where
  "bind_res r k = (case r of Inl e \<Rightarrow> Inl e | Inr x \<Rightarrow> k x)"

lemma bind_res_simps [simp]: "bind_res (Inl e) k = Inl e" "bind_res (Inr x) k = k x"
  by (simp_all add: bind_res_def)

lemma bind_res_Inr: "bind_res r k = Inr y \<longleftrightarrow> (\<exists>x. r = Inr x \<and> k x = Inr y)"
  by (cases r) auto

definition transaction :: "(db \<Rightarrow> db_error + db) \<Rightarrow> db \<Rightarrow> db \<times> db_error option" where
  "transaction body d = (case body d of Inl e \<Rightarrow> (d, Some e) | Inr d' \<Rightarrow> (d', None))"

text \<open>Functions that run several statements one after the other, each of them committed on its
  own: an error stops the function and keeps what was done before.\<close>

type_synonym 'a db_op = "db \<Rightarrow> db \<times> (db_error + 'a)"

definition bind_db :: "'a db_op \<Rightarrow> ('a \<Rightarrow> 'b db_op) \<Rightarrow> 'b db_op" where
  "bind_db m k d = (case m d of (d', Inl e) \<Rightarrow> (d', Inl e) | (d', Inr x) \<Rightarrow> k x d')"

definition ret_db :: "'a \<Rightarrow> 'a db_op" where
  "ret_db x d = (d, Inr x)"

definition exec :: "(db \<Rightarrow> db_error + db) \<Rightarrow> unit db_op" where
  "exec stmt d = (case stmt d of Inl e \<Rightarrow> (d, Inl e) | Inr d' \<Rightarrow> (d', Inr ()))"

lemma bind_db_simps [simp]:
  "m d = (d', Inl e) \<Longrightarrow> bind_db m k d = (d', Inl e)"
  "m d = (d', Inr x) \<Longrightarrow> bind_db m k d = k x d'"
  by (simp_all add: bind_db_def)

lemma bind_db_Inr:
  "bind_db m k d = (d2, Inr y) \<longleftrightarrow> (\<exists>d1 x. m d = (d1, Inr x) \<and> k x d1 = (d2, Inr y))"
  by (auto simp: bind_db_def split: prod.splits sum.splits)

section \<open>Queries on projects\<close>

definition find_first :: "('a \<Rightarrow> bool) \<Rightarrow> 'a list \<Rightarrow> 'a option" where
  "find_first P xs = List.find P xs"

definition InsertProject :: "time \<Rightarrow> project \<Rightarrow> db \<Rightarrow> db_error + db \<times> int" where
  "InsertProject now p d =
     (if list_ex (\<lambda>q. p_name q = p_name p) (d_projects d) then Inl UniqueViolation
      else
        (let i = d_project_seq d + 1;
             row = p\<lparr>p_id := i, p_default_branch := ''master'', p_create_service := False,
                     p_apt_depends := [], p_depends := [], p_created_at := now, p_updated_at := now\<rparr>
         in Inr (d\<lparr>d_projects := d_projects d @ [row], d_project_seq := i\<rparr>, i)))"

definition GetProjectByName :: "string \<Rightarrow> db \<Rightarrow> project option" where
  "GetProjectByName name d = find_first (\<lambda>p. p_name p = name) (d_projects d)"

definition project_by_id :: "int \<Rightarrow> db \<Rightarrow> project option" where
  "project_by_id i d = find_first (\<lambda>p. p_id p = i) (d_projects d)"

definition ListAllProjects :: "db \<Rightarrow> project list" where
  "ListAllProjects d = sort_key p_name (d_projects d)"

definition update_project :: "time \<Rightarrow> int \<Rightarrow> (project \<Rightarrow> project) \<Rightarrow> db \<Rightarrow> db" where
  "update_project now i f d =
     d\<lparr>d_projects := map (\<lambda>p. if p_id p = i then (f p)\<lparr>p_updated_at := now\<rparr> else p) (d_projects d)\<rparr>"

definition SetProjectVisibility :: "time \<Rightarrow> int \<Rightarrow> bool \<Rightarrow> db \<Rightarrow> db" where
  "SetProjectVisibility now i priv = update_project now i (\<lambda>p. p\<lparr>p_is_private := priv\<rparr>)"

definition SetProjectGitHubRepo :: "time \<Rightarrow> int \<Rightarrow> string \<Rightarrow> db \<Rightarrow> db" where
  "SetProjectGitHubRepo now i repo = update_project now i (\<lambda>p. p\<lparr>p_github_repo := repo\<rparr>)"

definition SetProjectGitHubIDs :: "time \<Rightarrow> int \<Rightarrow> string \<Rightarrow> string \<Rightarrow> db \<Rightarrow> db" where
  "SetProjectGitHubIDs now i owner repo =
     update_project now i (\<lambda>p. p\<lparr>p_github_owner_id := owner, p_github_repo_id := repo\<rparr>)"

definition SetProjectDefaultBranch :: "time \<Rightarrow> int \<Rightarrow> string \<Rightarrow> db \<Rightarrow> db" where
  "SetProjectDefaultBranch now i branch = update_project now i (\<lambda>p. p\<lparr>p_default_branch := branch\<rparr>)"

definition SetProjectCreateService :: "time \<Rightarrow> int \<Rightarrow> bool \<Rightarrow> db \<Rightarrow> db" where
  "SetProjectCreateService now i enabled = update_project now i (\<lambda>p. p\<lparr>p_create_service := enabled\<rparr>)"

definition SetProjectVersioning :: "time \<Rightarrow> int \<Rightarrow> Versioning \<Rightarrow> db \<Rightarrow> db" where
  "SetProjectVersioning now i v = update_project now i (\<lambda>p. p\<lparr>p_versioning := v\<rparr>)"

definition set_depends_row :: "time \<Rightarrow> int \<Rightarrow> string \<Rightarrow> db \<Rightarrow> db" where
  "set_depends_row now i deps = update_project now i (\<lambda>p. p\<lparr>p_depends := deps\<rparr>)"

text \<open>\<open>UPDATE projects SET name = ?\<close>: another row with that name makes it fail.\<close>

definition rename_row :: "time \<Rightarrow> string \<Rightarrow> int \<Rightarrow> db \<Rightarrow> db_error + db" where
  "rename_row now name i d =
     (if list_ex (\<lambda>p. p_id p = i) (d_projects d) \<and>
         list_ex (\<lambda>p. p_name p = name \<and> p_id p \<noteq> i) (d_projects d)
      then Inl UniqueViolation
      else Inr (update_project now i (\<lambda>p. p\<lparr>p_name := name\<rparr>) d))"

definition ListProjectsByGitHubRepoID :: "string \<Rightarrow> db \<Rightarrow> project list" where
  "ListProjectsByGitHubRepoID rid d =
     sort_key p_name (filter (\<lambda>p. p_github_repo_id p = rid \<and> p_github_repo_id p \<noteq> []) (d_projects d))"

section \<open>Queries on aliases\<close>

definition CountProjectAliasByName :: "string \<Rightarrow> db \<Rightarrow> nat" where
  "CountProjectAliasByName name d = length (filter (\<lambda>a. al_name a = name) (d_aliases d))"

text \<open>The join of \<open>project_aliases\<close> with \<open>projects\<close>.\<close>

definition GetProjectByAlias :: "string \<Rightarrow> db \<Rightarrow> project option" where
  "GetProjectByAlias name d =
     (case find_first (\<lambda>a. al_name a = name \<and> project_by_id (al_project_id a) d \<noteq> None) (d_aliases d) of
        None \<Rightarrow> None
      | Some a \<Rightarrow> project_by_id (al_project_id a) d)"

definition InsertProjectAlias :: "string \<Rightarrow> int \<Rightarrow> db \<Rightarrow> db_error + db" where
  "InsertProjectAlias name i d =
     (if list_ex (\<lambda>a. al_name a = name) (d_aliases d) then Inl UniqueViolation
      else if project_by_id i d = None then Inl ForeignKeyViolation
      else Inr (d\<lparr>d_aliases := d_aliases d @ [\<lparr>al_name = name, al_project_id = i\<rparr>]\<rparr>))"

definition DeleteProjectAlias :: "string \<Rightarrow> db \<Rightarrow> db" where
  "DeleteProjectAlias name d = d\<lparr>d_aliases := filter (\<lambda>a. al_name a \<noteq> name) (d_aliases d)\<rparr>"

definition ListProjectAliases :: "int \<Rightarrow> db \<Rightarrow> string list" where
  "ListProjectAliases i d = sort (map al_name (filter (\<lambda>a. al_project_id a = i) (d_aliases d)))"

section \<open>Facts about rows\<close>

lemma find_first_Some: "find_first P xs = Some x \<Longrightarrow> x \<in> set xs \<and> P x"
  by (auto simp: find_first_def find_Some_iff)

lemma find_first_None: "find_first P xs = None \<longleftrightarrow> (\<forall>x \<in> set xs. \<not> P x)"
  by (auto simp: find_first_def find_None_iff)

lemma find_first_unique:
  assumes "distinct (map f xs)" "x \<in> set xs"
  shows "find_first (\<lambda>y. f y = f x) xs = Some x"
proof (cases "find_first (\<lambda>y. f y = f x) xs")
  case None
  with assms(2) show ?thesis by (auto simp: find_first_None)
next
  case (Some y)
  then have "y \<in> set xs" "f y = f x" by (auto dest: find_first_Some)
  with assms Some show ?thesis by (metis eq_key_imp_eq_value distinct_map inj_onD)
qed

lemma find_first_append:
  "find_first P (xs @ ys) = (case find_first P xs of None \<Rightarrow> find_first P ys | Some x \<Rightarrow> Some x)"
  by (induction xs) (auto simp: find_first_def)

lemma find_first_single [simp]: "find_first P [x] = (if P x then Some x else None)"
  by (simp add: find_first_def)

lemma find_first_cong: "(\<And>x. x \<in> set xs \<Longrightarrow> P x = Q x) \<Longrightarrow> find_first P xs = find_first Q xs"
  by (induction xs) (auto simp: find_first_def)

lemma find_first_map: "find_first P (map f xs) = map_option f (find_first (\<lambda>x. P (f x)) xs)"
  by (induction xs) (auto simp: find_first_def)

lemma find_first_filter: "find_first P (filter Q xs) = find_first (\<lambda>x. P x \<and> Q x) xs"
  by (induction xs) (auto simp: find_first_def)

lemma project_by_id_Some: "project_by_id i d = Some p \<Longrightarrow> p \<in> set (d_projects d) \<and> p_id p = i"
  unfolding project_by_id_def by (drule find_first_Some) simp

lemma project_by_id_unique:
  "distinct (map p_id (d_projects d)) \<Longrightarrow> p \<in> set (d_projects d) \<Longrightarrow> project_by_id (p_id p) d = Some p"
  unfolding project_by_id_def by (rule find_first_unique)

lemma update_project_fields [simp]:
  "d_aliases (update_project now i f d) = d_aliases d"
  "d_project_vis (update_project now i f d) = d_project_vis d"
  "d_folders (update_project now i f d) = d_folders d"
  "d_project_seq (update_project now i f d) = d_project_seq d"
  "d_releases (update_project now i f d) = d_releases d"
  "d_site_vis (update_project now i f d) = d_site_vis d"
  "d_release_vis (update_project now i f d) = d_release_vis d"
  by (simp_all add: update_project_def)

lemma DeleteProjectAlias_fields [simp]:
  "d_projects (DeleteProjectAlias name d) = d_projects d"
  "d_aliases (DeleteProjectAlias name d) = filter (\<lambda>a. al_name a \<noteq> name) (d_aliases d)"
  by (simp_all add: DeleteProjectAlias_def)

lemma update_project_ids:
  "(\<And>p. p_id (f p) = p_id p) \<Longrightarrow>
   map p_id (d_projects (update_project now i f d)) = map p_id (d_projects d)"
  by (auto simp: update_project_def)

lemma project_by_id_update:
  assumes "\<And>p. p_id (f p) = p_id p"
  shows "project_by_id j (update_project now i f d) =
    (if j = i then map_option (\<lambda>p. (f p)\<lparr>p_updated_at := now\<rparr>) (project_by_id i d)
     else project_by_id j d)"
proof -
  have "project_by_id j (update_project now i f d) =
    map_option (\<lambda>p. if p_id p = i then (f p)\<lparr>p_updated_at := now\<rparr> else p) (project_by_id j d)"
    by (auto simp: project_by_id_def update_project_def find_first_map assms
        intro!: arg_cong [of _ _ "map_option _"] find_first_cong)
  also have "\<dots> = (if j = i then map_option (\<lambda>p. (f p)\<lparr>p_updated_at := now\<rparr>) (project_by_id i d)
     else project_by_id j d)"
    by (cases "project_by_id j d") (auto dest: project_by_id_Some)
  finally show ?thesis .
qed

end
