(* ===== verification/Visibility.thy ===== *)
theory Visibility
  imports Database
begin

text \<open>
  Who may see a project: \<open>internal/db/visibility.go\<close>. A project has its own mode, the mode of
  the longest folder rule that covers its name, and the state its source reports; the
  resolution of the three is written to \<open>projects.is_private\<close>, which is the value every
  read path checks. Releases and sites have override modes of their own.
\<close>

section \<open>Modes and resolution\<close>

definition VisibilityAuto :: Visibility where "VisibilityAuto = ''auto''"
definition VisibilityPublic :: Visibility where "VisibilityPublic = ''public''"
definition VisibilityPrivate :: Visibility where "VisibilityPrivate = ''private''"

definition ParseVisibility :: "string \<Rightarrow> db_error + Visibility" where
  "ParseVisibility s =
     (if s \<in> {VisibilityAuto, VisibilityPublic, VisibilityPrivate} then Inr s
      else Inl (Refused s))"

definition Apply :: "Visibility \<Rightarrow> bool \<Rightarrow> bool" where
  "Apply v inheritedPrivate =
     (if v = VisibilityPublic then False else if v = VisibilityPrivate then True else inheritedPrivate)"

definition FolderCovers :: "string \<Rightarrow> string \<Rightarrow> bool" where
  "FolderCovers prefix name \<longleftrightarrow> name = prefix \<or> has_prefix name (prefix @ ''/'')"

record visibility_info =
  vi_mode :: Visibility
  vi_auto_private :: bool
  vi_folder_prefix :: string
  vi_folder_mode :: Visibility
  vi_private :: bool

text \<open>The loop over the folder rules keeps the longest prefix seen so far and its mode.\<close>

fun pick_folder :: "string \<Rightarrow> visibility_folder list \<Rightarrow> string \<times> Visibility \<Rightarrow> string \<times> Visibility" where
  "pick_folder name [] best = best"
| "pick_folder name (f # fs) (prefix, mode) =
     (if FolderCovers (vf_prefix f) name \<and> length (vf_prefix f) > length prefix
      then pick_folder name fs (vf_prefix f, vf_mode f)
      else pick_folder name fs (prefix, mode))"

definition resolveProject :: "string \<Rightarrow> Visibility \<Rightarrow> bool \<Rightarrow> visibility_folder list \<Rightarrow> visibility_info" where
  "resolveProject name mode autoPrivate folders =
     (case pick_folder name folders ([], VisibilityAuto) of (prefix, fmode) \<Rightarrow>
      \<lparr>vi_mode = mode, vi_auto_private = autoPrivate, vi_folder_prefix = prefix,
       vi_folder_mode = fmode, vi_private = Apply mode (Apply fmode autoPrivate)\<rparr>)"

section \<open>Queries\<close>

definition ApplyProjectPrivate :: "time \<Rightarrow> bool \<Rightarrow> int \<Rightarrow> db \<Rightarrow> db" where
  "ApplyProjectPrivate now priv i d =
     d\<lparr>d_projects := map (\<lambda>p. if p_id p = i \<and> p_is_private p \<noteq> priv
                             then p\<lparr>p_is_private := priv, p_updated_at := now\<rparr> else p) (d_projects d)\<rparr>"

definition ListVisibilityFolders :: "db \<Rightarrow> visibility_folder list" where
  "ListVisibilityFolders d = sort_key vf_prefix (d_folders d)"

definition UpsertVisibilityFolder :: "string \<Rightarrow> Visibility \<Rightarrow> db \<Rightarrow> db_error + db" where
  "UpsertVisibilityFolder prefix mode d =
     (if mode \<notin> {VisibilityPublic, VisibilityPrivate} then Inl CheckViolation
      else if list_ex (\<lambda>f. vf_prefix f = prefix) (d_folders d)
      then Inr (d\<lparr>d_folders := map (\<lambda>f. if vf_prefix f = prefix then f\<lparr>vf_mode := mode\<rparr> else f) (d_folders d)\<rparr>)
      else Inr (d\<lparr>d_folders := d_folders d @ [\<lparr>vf_prefix = prefix, vf_mode = mode\<rparr>]\<rparr>))"

definition DeleteVisibilityFolder :: "string \<Rightarrow> db \<Rightarrow> db" where
  "DeleteVisibilityFolder prefix d = d\<lparr>d_folders := filter (\<lambda>f. vf_prefix f \<noteq> prefix) (d_folders d)\<rparr>"

definition GetProjectVisibilityRow :: "int \<Rightarrow> db \<Rightarrow> project_visibility option" where
  "GetProjectVisibilityRow i d = find_first (\<lambda>v. pv_project_id v = i) (d_project_vis d)"

definition UpsertProjectVisibilityRow :: "int \<Rightarrow> Visibility \<Rightarrow> bool \<Rightarrow> db \<Rightarrow> db_error + db" where
  "UpsertProjectVisibilityRow i mode autop d =
     (if mode \<notin> {VisibilityAuto, VisibilityPublic, VisibilityPrivate} then Inl CheckViolation
      else if list_ex (\<lambda>v. pv_project_id v = i) (d_project_vis d)
      then Inr (d\<lparr>d_project_vis := map (\<lambda>v. if pv_project_id v = i
                   then v\<lparr>pv_mode := mode, pv_auto_private := autop\<rparr> else v) (d_project_vis d)\<rparr>)
      else if project_by_id i d = None then Inl ForeignKeyViolation
      else Inr (d\<lparr>d_project_vis := d_project_vis d @
                   [\<lparr>pv_project_id = i, pv_mode = mode, pv_auto_private = autop\<rparr>]\<rparr>))"

section \<open>Operations\<close>

text \<open>\<open>projectVisibilityRow\<close>: the override row, made on first use.\<close>

definition projectVisibilityRow :: "project \<Rightarrow> project_visibility db_op" where
  "projectVisibilityRow p d =
     (case GetProjectVisibilityRow (p_id p) d of
        Some row \<Rightarrow> (d, Inr row)
      | None \<Rightarrow>
          let row = \<lparr>pv_project_id = p_id p, pv_mode = VisibilityAuto, pv_auto_private = p_is_private p\<rparr>
          in bind_db (exec (UpsertProjectVisibilityRow (p_id p) (pv_mode row) (pv_auto_private row)))
               (\<lambda>_. ret_db row) d)"

definition ProjectVisibility :: "project \<Rightarrow> visibility_info db_op" where
  "ProjectVisibility p =
     bind_db (projectVisibilityRow p)
       (\<lambda>row d. (d, Inr (resolveProject (p_name p) (pv_mode row) (pv_auto_private row) (ListVisibilityFolders d))))"

definition ListProjectVisibility :: "db \<Rightarrow> (int \<times> visibility_info) list" where
  "ListProjectVisibility d =
     map (\<lambda>p. let r = (case GetProjectVisibilityRow (p_id p) d of
                          Some row \<Rightarrow> row
                        | None \<Rightarrow> \<lparr>pv_project_id = 0, pv_mode = VisibilityAuto, pv_auto_private = p_is_private p\<rparr>)
              in (p_id p, resolveProject (p_name p) (pv_mode r) (pv_auto_private r) (ListVisibilityFolders d)))
       (ListAllProjects d)"

text \<open>\<open>applyProjectVisibility\<close> returns the project with the private state it now has.\<close>

definition applyProjectVisibility :: "time \<Rightarrow> project \<Rightarrow> project db_op" where
  "applyProjectVisibility now p =
     bind_db (ProjectVisibility p)
       (\<lambda>info d. (ApplyProjectPrivate now (vi_private info) (p_id p) d,
                  Inr (p\<lparr>p_is_private := vi_private info\<rparr>)))"

definition SyncAutoPrivate :: "time \<Rightarrow> project \<Rightarrow> bool \<Rightarrow> project db_op" where
  "SyncAutoPrivate now p autoPrivate =
     bind_db (projectVisibilityRow p)
       (\<lambda>row. if pv_auto_private row \<noteq> autoPrivate
              then bind_db (exec (UpsertProjectVisibilityRow (p_id p) (pv_mode row) autoPrivate))
                     (\<lambda>_. applyProjectVisibility now p)
              else applyProjectVisibility now p)"

definition SetProjectVisibilityMode :: "time \<Rightarrow> project \<Rightarrow> Visibility \<Rightarrow> project db_op" where
  "SetProjectVisibilityMode now p mode =
     bind_db (projectVisibilityRow p)
       (\<lambda>row. bind_db (exec (UpsertProjectVisibilityRow (p_id p) mode (pv_auto_private row)))
              (\<lambda>_. applyProjectVisibility now p))"

fun apply_covered :: "time \<Rightarrow> string \<Rightarrow> project list \<Rightarrow> unit db_op" where
  "apply_covered now prefix [] = ret_db ()"
| "apply_covered now prefix (p # ps) =
     (if \<not> FolderCovers prefix (p_name p) then apply_covered now prefix ps
      else bind_db (applyProjectVisibility now p) (\<lambda>_. apply_covered now prefix ps))"

definition SetVisibilityFolder :: "time \<Rightarrow> string \<Rightarrow> Visibility \<Rightarrow> unit db_op" where
  "SetVisibilityFolder now prefix mode d =
     (let prefix = trim_chars prefix ''/'' in
      if prefix = [] then (d, Inl (Refused ''folder prefix is empty''))
      else bind_db
             (if mode = VisibilityAuto then exec (\<lambda>d. Inr (DeleteVisibilityFolder prefix d))
              else exec (UpsertVisibilityFolder prefix mode))
             (\<lambda>_ d. apply_covered now prefix (ListAllProjects d) d) d)"

text \<open>Overrides of releases and sites.\<close>

definition ReleaseVisibility :: "int \<Rightarrow> db \<Rightarrow> Visibility" where
  "ReleaseVisibility rid d =
     (case find_first (\<lambda>v. rv_release_id v = rid) (d_release_vis d) of
        None \<Rightarrow> VisibilityAuto | Some v \<Rightarrow> rv_mode v)"

definition SetReleaseVisibility :: "int \<Rightarrow> Visibility \<Rightarrow> unit db_op" where
  "SetReleaseVisibility rid mode =
     exec (\<lambda>d. if mode = VisibilityAuto
        then Inr (d\<lparr>d_release_vis := filter (\<lambda>v. rv_release_id v \<noteq> rid) (d_release_vis d)\<rparr>)
        else if mode \<notin> {VisibilityPublic, VisibilityPrivate} then Inl CheckViolation
        else if list_ex (\<lambda>v. rv_release_id v = rid) (d_release_vis d)
        then Inr (d\<lparr>d_release_vis := map (\<lambda>v. if rv_release_id v = rid then v\<lparr>rv_mode := mode\<rparr> else v) (d_release_vis d)\<rparr>)
        else if \<not> list_ex (\<lambda>r. r_id r = rid) (d_releases d) then Inl ForeignKeyViolation
        else Inr (d\<lparr>d_release_vis := d_release_vis d @ [\<lparr>rv_release_id = rid, rv_mode = mode\<rparr>]\<rparr>))"

definition SiteVisibility :: "int \<Rightarrow> string \<Rightarrow> db \<Rightarrow> Visibility" where
  "SiteVisibility pid branch d =
     (case find_first (\<lambda>v. sv_project_id v = pid \<and> sv_branch v = branch) (d_site_vis d) of
        None \<Rightarrow> VisibilityAuto | Some v \<Rightarrow> sv_mode v)"

definition SetSiteVisibility :: "int \<Rightarrow> string \<Rightarrow> Visibility \<Rightarrow> unit db_op" where
  "SetSiteVisibility pid branch mode =
     exec (\<lambda>d. if mode = VisibilityAuto
        then Inr (d\<lparr>d_site_vis := filter (\<lambda>v. \<not> (sv_project_id v = pid \<and> sv_branch v = branch)) (d_site_vis d)\<rparr>)
        else if mode \<notin> {VisibilityPublic, VisibilityPrivate} then Inl CheckViolation
        else if list_ex (\<lambda>v. sv_project_id v = pid \<and> sv_branch v = branch) (d_site_vis d)
        then Inr (d\<lparr>d_site_vis := map (\<lambda>v. if sv_project_id v = pid \<and> sv_branch v = branch
                     then v\<lparr>sv_mode := mode\<rparr> else v) (d_site_vis d)\<rparr>)
        else if project_by_id pid d = None then Inl ForeignKeyViolation
        else Inr (d\<lparr>d_site_vis := d_site_vis d @
                     [\<lparr>sv_project_id = pid, sv_branch = branch, sv_mode = mode\<rparr>]\<rparr>))"

definition ReleaseVisibilities :: "int \<Rightarrow> db \<Rightarrow> (int \<times> Visibility) list" where
  "ReleaseVisibilities pid d =
     map (\<lambda>v. (rv_release_id v, rv_mode v))
       (filter (\<lambda>v. list_ex (\<lambda>r. r_id r = rv_release_id v \<and> r_project_id r = pid) (d_releases d))
          (d_release_vis d))"

definition SiteVisibilities :: "int \<Rightarrow> db \<Rightarrow> (string \<times> Visibility) list" where
  "SiteVisibilities pid d =
     map (\<lambda>v. (sv_branch v, sv_mode v)) (filter (\<lambda>v. sv_project_id v = pid) (d_site_vis d))"

section \<open>The folder rule that applies\<close>

lemma vis_modes_distinct [simp]:
  "VisibilityAuto \<noteq> VisibilityPublic" "VisibilityPublic \<noteq> VisibilityAuto"
  "VisibilityAuto \<noteq> VisibilityPrivate" "VisibilityPrivate \<noteq> VisibilityAuto"
  "VisibilityPublic \<noteq> VisibilityPrivate" "VisibilityPrivate \<noteq> VisibilityPublic"
  by code_simp+

lemma FolderCovers_prefix:
  "FolderCovers p name \<Longrightarrow> FolderCovers q name \<Longrightarrow> length p = length q \<Longrightarrow> p = q"
  by (auto simp: FolderCovers_def has_prefix_iff append_eq_append_conv2)

lemma pick_folder_only_covering:
  "pick_folder name fs b = pick_folder name (filter (\<lambda>f. FolderCovers (vf_prefix f) name) fs) b"
  by (induction name fs b rule: pick_folder.induct) auto

lemma pick_folder_result:
  assumes "pick_folder name fs (p, m) = (p', m')"
  shows "(p', m') = (p, m) \<or> (\<exists>f \<in> set fs. FolderCovers (vf_prefix f) name \<and> p' = vf_prefix f \<and> m' = vf_mode f)"
    "length p \<le> length p'"
    "\<forall>f \<in> set fs. FolderCovers (vf_prefix f) name \<longrightarrow> length (vf_prefix f) \<le> length p'"
proof -
  have "((p', m') = (p, m) \<or> (\<exists>f \<in> set fs. FolderCovers (vf_prefix f) name \<and> p' = vf_prefix f \<and> m' = vf_mode f))
    \<and> length p \<le> length p'
    \<and> (\<forall>f \<in> set fs. FolderCovers (vf_prefix f) name \<longrightarrow> length (vf_prefix f) \<le> length p')"
    using assms
  proof (induction fs arbitrary: p m)
    case Nil
    then show ?case by simp
  next
    case (Cons f fs)
    show ?case
    proof (cases "FolderCovers (vf_prefix f) name \<and> length (vf_prefix f) > length p")
      case True
      with Cons.prems have "pick_folder name fs (vf_prefix f, vf_mode f) = (p', m')" by simp
      from Cons.IH [OF this] True show ?thesis by auto
    next
      case False
      with Cons.prems have "pick_folder name fs (p, m) = (p', m')" by auto
      from Cons.IH [OF this] False show ?thesis by auto
    qed
  qed
  then show "(p', m') = (p, m) \<or> (\<exists>f \<in> set fs. FolderCovers (vf_prefix f) name \<and> p' = vf_prefix f \<and> m' = vf_mode f)"
    "length p \<le> length p'"
    "\<forall>f \<in> set fs. FolderCovers (vf_prefix f) name \<longrightarrow> length (vf_prefix f) \<le> length p'" by blast+
qed

definition folders_ok :: "visibility_folder list \<Rightarrow> bool" where
  "folders_ok fs \<longleftrightarrow> distinct (map vf_prefix fs) \<and> (\<forall>f \<in> set fs. vf_prefix f \<noteq> [])"

lemma pick_folder_longest:
  assumes "folders_ok fs" "f \<in> set fs" "FolderCovers (vf_prefix f) name"
    "\<forall>g \<in> set fs. FolderCovers (vf_prefix g) name \<longrightarrow> length (vf_prefix g) \<le> length (vf_prefix f)"
  shows "pick_folder name fs ([], VisibilityAuto) = (vf_prefix f, vf_mode f)"
proof -
  obtain p' m' where pick: "pick_folder name fs ([], VisibilityAuto) = (p', m')" by fastforce
  note res = pick_folder_result [OF pick]
  have "0 < length (vf_prefix f)" using assms(1,2) by (auto simp: folders_ok_def)
  with res(3) assms(2,3) have "p' \<noteq> []" by fastforce
  with res(1) obtain g where g: "g \<in> set fs" "FolderCovers (vf_prefix g) name" "p' = vf_prefix g" "m' = vf_mode g"
    by auto
  with assms(4) res(3) assms(2,3) have "length (vf_prefix g) = length (vf_prefix f)"
    by (simp add: le_antisym)
  then have "vf_prefix g = vf_prefix f" using FolderCovers_prefix g(2) assms(3) by blast
  with assms(1,2) g(1) have "g = f" by (auto simp: folders_ok_def distinct_map dest: inj_onD)
  with g pick show ?thesis by simp
qed

text \<open>the private state of a project follows from its own mode, then from the longest
  folder rule that covers its name, then from what the source reports; the result does not
  depend on the order in which the rules are listed.\<close>

theorem resolveProject_precedence:
  assumes "folders_ok folders"
  shows "vi_private (resolveProject name mode autoPrivate folders) \<longleftrightarrow>
    (if mode = VisibilityPublic then False
     else if mode = VisibilityPrivate then True
     else (\<exists>f \<in> set folders. FolderCovers (vf_prefix f) name
             \<and> (\<forall>g \<in> set folders. FolderCovers (vf_prefix g) name \<longrightarrow> length (vf_prefix g) \<le> length (vf_prefix f))
             \<and> Apply (vf_mode f) autoPrivate)
        \<or> ((\<forall>f \<in> set folders. \<not> FolderCovers (vf_prefix f) name) \<and> autoPrivate))"
proof -
  obtain p' m' where pick: "pick_folder name folders ([], VisibilityAuto) = (p', m')" by fastforce
  note res = pick_folder_result [OF pick]
  have goal: "vi_private (resolveProject name mode autoPrivate folders) = Apply mode (Apply m' autoPrivate)"
    by (simp add: resolveProject_def pick)
  show ?thesis
  proof (cases "\<exists>f \<in> set folders. FolderCovers (vf_prefix f) name")
    case False
    with res(1) have "Apply m' autoPrivate = autoPrivate"
      by (auto simp: Apply_def VisibilityAuto_def VisibilityPublic_def VisibilityPrivate_def)
    with False show ?thesis unfolding goal by (auto simp: Apply_def [of mode])
  next
    case True
    then have "p' \<noteq> []" using assms res(3) by (fastforce simp: folders_ok_def)
    with res(1) obtain f where f: "f \<in> set folders" "FolderCovers (vf_prefix f) name" "p' = vf_prefix f" "m' = vf_mode f"
      by blast
    let ?top = "\<lambda>f. \<forall>g \<in> set folders. FolderCovers (vf_prefix g) name \<longrightarrow> length (vf_prefix g) \<le> length (vf_prefix f)"
    have top: "?top f" using res(3) f(3) by simp
    have "vf_mode g = m'" if "g \<in> set folders" "FolderCovers (vf_prefix g) name" "?top g" for g
      using pick_folder_longest [OF assms that] pick by simp
    with f top have best: "(\<exists>g \<in> set folders. FolderCovers (vf_prefix g) name \<and> ?top g \<and> Apply (vf_mode g) autoPrivate)
      \<longleftrightarrow> Apply m' autoPrivate" by (metis (no_types, lifting))
    have "\<not> (\<forall>f \<in> set folders. \<not> FolderCovers (vf_prefix f) name)" using True by blast
    then show ?thesis unfolding goal Apply_def [of mode] best by argo
  qed
qed

section \<open>The stored state is the resolved state\<close>

definition idn :: "db \<Rightarrow> (int \<times> string) list" where
  "idn d = map (\<lambda>p. (p_id p, p_name p)) (d_projects d)"

definition current :: "project \<Rightarrow> db \<Rightarrow> bool" where
  "current p d \<longleftrightarrow> (p_id p, p_name p) \<in> set (idn d)"

definition resolved :: "db \<Rightarrow> string \<Rightarrow> project_visibility \<Rightarrow> bool" where
  "resolved d name v =
     vi_private (resolveProject name (pv_mode v) (pv_auto_private v) (ListVisibilityFolders d))"

definition vis_ok :: "db \<Rightarrow> project \<Rightarrow> bool" where
  "vis_ok d p \<longleftrightarrow> (\<forall>v. GetProjectVisibilityRow (p_id p) d = Some v \<longrightarrow> p_is_private p = resolved d (p_name p) v)"

definition valid_mode :: "Visibility \<Rightarrow> bool" where
  "valid_mode m \<longleftrightarrow> m \<in> {VisibilityAuto, VisibilityPublic, VisibilityPrivate}"

text \<open>The invariant, with exceptions: the projects whose id is in \<open>X\<close> may be out of date.\<close>

definition vis_inv_except :: "int set \<Rightarrow> db \<Rightarrow> bool" where
  "vis_inv_except X d \<longleftrightarrow> distinct (map p_id (d_projects d)) \<and>
     (\<forall>i v. GetProjectVisibilityRow i d = Some v \<longrightarrow> valid_mode (pv_mode v)) \<and>
     (\<forall>p \<in> set (d_projects d). p_id p \<notin> X \<longrightarrow> vis_ok d p)"

abbreviation vis_inv :: "db \<Rightarrow> bool" where
  "vis_inv \<equiv> vis_inv_except {}"

lemma current_exists: "current p d \<Longrightarrow> project_by_id (p_id p) d \<noteq> None"
  by (auto simp: current_def idn_def project_by_id_def find_first_None)

definition row_of :: "project \<Rightarrow> db \<Rightarrow> project_visibility" where
  "row_of p d = (case GetProjectVisibilityRow (p_id p) d of Some v \<Rightarrow> v
     | None \<Rightarrow> \<lparr>pv_project_id = p_id p, pv_mode = VisibilityAuto, pv_auto_private = p_is_private p\<rparr>)"

text \<open>Nothing but the visibility row of project \<open>i\<close> differs, and that row is \<open>v\<close>.\<close>

definition row_set :: "int \<Rightarrow> project_visibility \<Rightarrow> db \<Rightarrow> db \<Rightarrow> bool" where
  "row_set i v d d' \<longleftrightarrow> d_projects d' = d_projects d \<and> d_folders d' = d_folders d \<and>
     GetProjectVisibilityRow i d' = Some v \<and>
     (\<forall>j. j \<noteq> i \<longrightarrow> GetProjectVisibilityRow j d' = GetProjectVisibilityRow j d)"

lemma Upsert_row_set:
  assumes "valid_mode mode" "project_by_id i d \<noteq> None"
  shows "\<exists>d'. UpsertProjectVisibilityRow i mode a d = Inr d' \<and>
    row_set i \<lparr>pv_project_id = i, pv_mode = mode, pv_auto_private = a\<rparr> d d'"
proof (cases "list_ex (\<lambda>v. pv_project_id v = i) (d_project_vis d)")
  case True
  let ?upd = "\<lambda>v. if pv_project_id v = i then v\<lparr>pv_mode := mode, pv_auto_private := a\<rparr> else v"
  from True obtain v where v: "find_first (\<lambda>v. pv_project_id v = i) (d_project_vis d) = Some v"
    by (cases "find_first (\<lambda>v. pv_project_id v = i) (d_project_vis d)")
      (auto simp: find_first_None list_ex_iff)
  from find_first_Some [OF v] have "?upd v = \<lparr>pv_project_id = i, pv_mode = mode, pv_auto_private = a\<rparr>"
    by (auto intro: project_visibility.equality)
  moreover have look: "find_first (\<lambda>v. pv_project_id v = j) (map ?upd (d_project_vis d)) =
      map_option ?upd (find_first (\<lambda>v. pv_project_id v = j) (d_project_vis d))" for j
    unfolding find_first_map by (intro arg_cong [of _ _ "map_option _"] find_first_cong) simp
  moreover have "map_option ?upd (find_first (\<lambda>v. pv_project_id v = j) (d_project_vis d)) =
      find_first (\<lambda>v. pv_project_id v = j) (d_project_vis d)" if "j \<noteq> i" for j
    using that by (cases "find_first (\<lambda>v. pv_project_id v = j) (d_project_vis d)")
      (auto dest: find_first_Some)
  ultimately show ?thesis
    using True assms(1) v by (simp add: valid_mode_def UpsertProjectVisibilityRow_def row_set_def GetProjectVisibilityRow_def)
next
  case False
  then have "find_first (\<lambda>v. pv_project_id v = i) (d_project_vis d) = None"
    by (simp add: find_first_None list_ex_iff)
  with False assms show ?thesis
    by (auto simp: valid_mode_def UpsertProjectVisibilityRow_def row_set_def GetProjectVisibilityRow_def
        find_first_append split: option.splits)
qed

lemma projectVisibilityRow_spec:
  assumes "project_by_id (p_id p) d \<noteq> None"
  shows "\<exists>d'. projectVisibilityRow p d = (d', Inr (row_of p d)) \<and> row_set (p_id p) (row_of p d) d d'"
proof (cases "GetProjectVisibilityRow (p_id p) d")
  case None
  from Upsert_row_set [OF _ assms, of VisibilityAuto "p_is_private p"] obtain d' where
    "UpsertProjectVisibilityRow (p_id p) VisibilityAuto (p_is_private p) d = Inr d'"
    "row_set (p_id p) (row_of p d) d d'"
    using None by (auto simp: row_of_def valid_mode_def)
  with None show ?thesis
    by (simp add: projectVisibilityRow_def exec_def bind_db_def ret_db_def row_of_def)
next
  case (Some v)
  then show ?thesis by (simp add: projectVisibilityRow_def row_of_def row_set_def)
qed

lemma ApplyProjectPrivate_fields [simp]:
  "idn (ApplyProjectPrivate now a i d) = idn d"
  "d_folders (ApplyProjectPrivate now a i d) = d_folders d"
  "GetProjectVisibilityRow j (ApplyProjectPrivate now a i d) = GetProjectVisibilityRow j d"
  by (auto simp: ApplyProjectPrivate_def idn_def GetProjectVisibilityRow_def)

lemma ApplyProjectPrivate_rows:
  "q \<in> set (d_projects (ApplyProjectPrivate now a i d)) \<longleftrightarrow>
     (\<exists>p \<in> set (d_projects d). q = (if p_id p = i \<and> p_is_private p \<noteq> a
        then p\<lparr>p_is_private := a, p_updated_at := now\<rparr> else p))"
proof -
  have "d_projects (ApplyProjectPrivate now a i d) = map (\<lambda>p. if p_id p = i \<and> p_is_private p \<noteq> a
        then p\<lparr>p_is_private := a, p_updated_at := now\<rparr> else p) (d_projects d)"
    by (simp add: ApplyProjectPrivate_def)
  then show ?thesis by (simp only: set_map image_iff)
qed

lemma row_set_idn: "row_set i v d d' \<Longrightarrow> idn d' = idn d"
  by (simp add: row_set_def idn_def)

lemma resolved_folders: "d_folders d' = d_folders d \<Longrightarrow> resolved d' = resolved d"
  by (simp add: fun_eq_iff resolved_def ListVisibilityFolders_def)

lemma idn_ids: "map p_id (d_projects d) = map fst (idn d)"
  by (simp add: idn_def)

text \<open>Applying the resolution brings the project up to date and leaves the others alone.\<close>

lemma apply_spec:
  assumes "current p d" "vis_inv_except X d"
  shows "\<exists>d1 d'. row_set (p_id p) (row_of p d) d d1
    \<and> d' = ApplyProjectPrivate now (resolved d (p_name p) (row_of p d)) (p_id p) d1
    \<and> applyProjectVisibility now p d = (d', Inr (p\<lparr>p_is_private := resolved d (p_name p) (row_of p d)\<rparr>))
    \<and> idn d' = idn d \<and> d_folders d' = d_folders d \<and> vis_inv_except (X - {p_id p}) d'"
proof -
  let ?a = "resolved d (p_name p) (row_of p d)"
  obtain d1 where d1: "projectVisibilityRow p d = (d1, Inr (row_of p d))"
    "row_set (p_id p) (row_of p d) d d1"
    using projectVisibilityRow_spec [OF current_exists [OF assms(1)]] by blast
  let ?d' = "ApplyProjectPrivate now ?a (p_id p) d1"
  have folders: "d_folders d1 = d_folders d" using d1(2) by (simp add: row_set_def)
  have run: "applyProjectVisibility now p d = (?d', Inr (p\<lparr>p_is_private := ?a\<rparr>))"
    using folders by (simp add: applyProjectVisibility_def ProjectVisibility_def bind_db_def d1(1)
        resolved_def ListVisibilityFolders_def)
  have ids: "idn ?d' = idn d" using d1(2) by (simp add: row_set_idn)
  have res: "resolved ?d' = resolved d" by (rule resolved_folders) (simp add: folders)
  have "vis_ok ?d' q" if q: "q \<in> set (d_projects ?d')" "p_id q \<notin> X - {p_id p}" for q
  proof -
    from q(1) obtain q0 where q0: "q0 \<in> set (d_projects d1)"
      "q = (if p_id q0 = p_id p \<and> p_is_private q0 \<noteq> ?a
        then q0\<lparr>p_is_private := ?a, p_updated_at := now\<rparr> else q0)"
      unfolding ApplyProjectPrivate_rows by blast
    then have same: "p_id q = p_id q0" "p_name q = p_name q0" by (auto split: if_splits)
    show ?thesis
    proof (cases "p_id q0 = p_id p")
      case True
      moreover have "(p_id q0, p_name q0) \<in> set (idn d)"
        using q0(1) d1(2) by (auto simp: idn_def row_set_def)
      moreover have "distinct (map fst (idn d))"
        using assms(2) by (simp add: vis_inv_except_def idn_ids)
      ultimately have "p_name q0 = p_name p"
        using assms(1) by (auto simp: current_def dest: eq_key_imp_eq_value)
      with True q0(2) same d1(2) show ?thesis
        by (auto simp: vis_ok_def res row_set_def split: if_splits)
    next
      case False
      then have "vis_ok d q0"
        using assms(2) q0(1) q(2) same d1(2) by (auto simp: vis_inv_except_def row_set_def)
      with False q0(2) d1(2) show ?thesis by (auto simp: vis_ok_def res row_set_def)
    qed
  qed
  moreover have "valid_mode (pv_mode (row_of p d))"
    using assms(2) by (auto simp: vis_inv_except_def row_of_def valid_mode_def split: option.split)
  then have "valid_mode (pv_mode v)" if "GetProjectVisibilityRow i ?d' = Some v" for i v
    using that assms(2) d1(2) by (cases "i = p_id p") (auto simp: vis_inv_except_def row_set_def)
  ultimately have "vis_inv_except (X - {p_id p}) ?d'"
    using assms(2) ids by (auto simp: vis_inv_except_def idn_ids)
  with d1(2) run ids folders show ?thesis by auto
qed

lemma row_of_valid: "vis_inv_except X d \<Longrightarrow> valid_mode (pv_mode (row_of p d))"
  by (auto simp: vis_inv_except_def row_of_def valid_mode_def split: option.split)

lemma row_set_inv:
  assumes "row_set i v d d'" "vis_inv_except X d" "valid_mode (pv_mode v)"
  shows "vis_inv_except (insert i X) d'"
proof -
  have "resolved d' = resolved d" using assms(1) by (intro resolved_folders) (simp add: row_set_def)
  moreover have "valid_mode (pv_mode w)" if "GetProjectVisibilityRow j d' = Some w" for j w
    using that assms by (cases "j = i") (auto simp: vis_inv_except_def row_set_def)
  ultimately show ?thesis using assms(1,2) by (auto simp: vis_inv_except_def row_set_def vis_ok_def)
qed

lemma row_set_trans: "row_set i v d d1 \<Longrightarrow> row_set i w d1 d2 \<Longrightarrow> row_set i w d d2"
  by (simp add: row_set_def)

lemma row_set_current: "row_set i v d d' \<Longrightarrow> current p d' = current p d"
  by (simp add: current_def row_set_idn)

lemma row_set_row_of: "row_set (p_id p) v d d' \<Longrightarrow> row_of p d' = v"
  by (simp add: row_of_def row_set_def)

text \<open>Writing a row and resolving again, the common end of the two setters.\<close>

lemma write_and_apply:
  assumes "current p d" "vis_inv_except X d" "row_set (p_id p) v0 d d1" "valid_mode (pv_mode v0)"
    and "valid_mode mode"
  shows "\<exists>d'. bind_db (exec (UpsertProjectVisibilityRow (p_id p) mode a)) (\<lambda>_. applyProjectVisibility now p) d1
      = (d', Inr (p\<lparr>p_is_private := resolved d (p_name p) \<lparr>pv_project_id = p_id p, pv_mode = mode, pv_auto_private = a\<rparr>\<rparr>))
    \<and> idn d' = idn d \<and> d_folders d' = d_folders d \<and> vis_inv_except (X - {p_id p}) d'"
proof -
  let ?v = "\<lparr>pv_project_id = p_id p, pv_mode = mode, pv_auto_private = a\<rparr>"
  have cur: "current p d1" using assms(1,3) by (simp add: row_set_current)
  from Upsert_row_set [OF assms(5) current_exists [OF cur]] obtain d2 where
    d2: "UpsertProjectVisibilityRow (p_id p) mode a d1 = Inr d2" "row_set (p_id p) ?v d1 d2" by blast
  note set02 = row_set_trans [OF assms(3) d2(2)]
  have inv2: "vis_inv_except (insert (p_id p) X) d2"
    using row_set_inv [OF set02 assms(2)] assms(5) by simp
  have cur2: "current p d2" using assms(1) set02 by (simp add: row_set_current)
  have row: "row_of p d2 = ?v" by (rule row_set_row_of [OF set02])
  have res: "resolved d2 = resolved d" using set02 by (intro resolved_folders) (simp add: row_set_def)
  from apply_spec [OF cur2 inv2, of now] obtain d' where
    d': "applyProjectVisibility now p d2 = (d', Inr (p\<lparr>p_is_private := resolved d (p_name p) ?v\<rparr>))"
    "idn d' = idn d2" "d_folders d' = d_folders d2" "vis_inv_except (insert (p_id p) X - {p_id p}) d'"
    by (auto simp: row res)
  have "insert (p_id p) X - {p_id p} = X - {p_id p}" by blast
  with d' set02 show ?thesis by (simp add: exec_def bind_db_def d2(1) row_set_idn) (simp add: row_set_def)
qed

lemma SyncAutoPrivate_spec:
  assumes "current p d" "vis_inv_except X d"
  shows "\<exists>d'. SyncAutoPrivate now p a d
      = (d', Inr (p\<lparr>p_is_private := resolved d (p_name p) ((row_of p d)\<lparr>pv_auto_private := a\<rparr>)\<rparr>))
    \<and> idn d' = idn d \<and> d_folders d' = d_folders d \<and> vis_inv_except (X - {p_id p}) d'"
proof -
  obtain d1 where d1: "projectVisibilityRow p d = (d1, Inr (row_of p d))" "row_set (p_id p) (row_of p d) d d1"
    using projectVisibilityRow_spec [OF current_exists [OF assms(1)]] by blast
  have valid: "valid_mode (pv_mode (row_of p d))" by (rule row_of_valid [OF assms(2)])
  have res: "resolved d1 = resolved d" using d1(2) by (intro resolved_folders) (simp add: row_set_def)
  show ?thesis
  proof (cases "pv_auto_private (row_of p d) = a")
    case True
    from d1(2) assms(1) have cur: "current p d1" by (simp add: row_set_current)
    have inv: "vis_inv_except (insert (p_id p) X) d1" by (rule row_set_inv [OF d1(2) assms(2) valid])
    have same: "(row_of p d)\<lparr>pv_auto_private := a\<rparr> = row_of p d" using True by (auto intro: project_visibility.equality)
    have "insert (p_id p) X - {p_id p} = X - {p_id p}" by blast
    with apply_spec [OF cur inv, of now] True d1 show ?thesis
      by (auto simp: SyncAutoPrivate_def bind_db_def same res row_set_row_of [OF d1(2)] row_set_idn)
        (auto simp: row_set_def)
  next
    case False
    have "resolved d n ((row_of p d)\<lparr>pv_auto_private := a\<rparr>) =
      resolved d n \<lparr>pv_project_id = p_id p, pv_mode = pv_mode (row_of p d), pv_auto_private = a\<rparr>" for n
      by (simp add: resolved_def)
    with False write_and_apply [OF assms d1(2) valid valid, of a now] d1(1) show ?thesis
      by (simp add: SyncAutoPrivate_def bind_db_def)
  qed
qed

lemma SetProjectVisibilityMode_spec:
  assumes "current p d" "vis_inv_except X d" "valid_mode mode"
  shows "\<exists>d'. SetProjectVisibilityMode now p mode d
      = (d', Inr (p\<lparr>p_is_private := resolved d (p_name p) ((row_of p d)\<lparr>pv_mode := mode\<rparr>)\<rparr>))
    \<and> idn d' = idn d \<and> d_folders d' = d_folders d \<and> vis_inv_except (X - {p_id p}) d'"
proof -
  obtain d1 where d1: "projectVisibilityRow p d = (d1, Inr (row_of p d))" "row_set (p_id p) (row_of p d) d d1"
    using projectVisibilityRow_spec [OF current_exists [OF assms(1)]] by blast
  have "resolved d n ((row_of p d)\<lparr>pv_mode := mode\<rparr>) =
    resolved d n \<lparr>pv_project_id = p_id p, pv_mode = mode, pv_auto_private = pv_auto_private (row_of p d)\<rparr>" for n
    by (simp add: resolved_def)
  with write_and_apply [OF assms(1,2) d1(2) row_of_valid [OF assms(2)] assms(3)] d1(1) show ?thesis
    by (simp add: SetProjectVisibilityMode_def bind_db_def)
qed

section \<open>Folder rules\<close>

definition covered_ids :: "string \<Rightarrow> project list \<Rightarrow> int set" where
  "covered_ids prefix ps = p_id ` {p \<in> set ps. FolderCovers prefix (p_name p)}"

lemma apply_covered_spec:
  assumes "\<forall>p \<in> set ps. current p d" "vis_inv_except X d"
  shows "\<exists>d'. apply_covered now prefix ps d = (d', Inr ()) \<and> idn d' = idn d
    \<and> vis_inv_except (X - covered_ids prefix ps) d'"
  using assms
proof (induction ps arbitrary: d X)
  case Nil
  then show ?case by (simp add: ret_db_def covered_ids_def)
next
  case (Cons p ps)
  show ?case
  proof (cases "FolderCovers prefix (p_name p)")
    case False
    then have "covered_ids prefix (p # ps) = covered_ids prefix ps" by (auto simp: covered_ids_def)
    with False Cons show ?thesis by auto
  next
    case True
    then have cov: "X - covered_ids prefix (p # ps) = X - {p_id p} - covered_ids prefix ps"
      by (auto simp: covered_ids_def)
    from Cons.prems apply_spec [of p d X now] obtain d1 q where d1:
      "applyProjectVisibility now p d = (d1, Inr q)" "idn d1 = idn d" "vis_inv_except (X - {p_id p}) d1"
      by auto
    with Cons.prems have "\<forall>p \<in> set ps. current p d1" by (simp add: current_def)
    from Cons.IH [OF this d1(3)] d1 True show ?thesis by (auto simp: cov)
  qed
qed

lemma resolve_other_folders:
  assumes "filter (\<lambda>f. vf_prefix f \<noteq> prefix) (d_folders d') = filter (\<lambda>f. vf_prefix f \<noteq> prefix) (d_folders d)"
    and "\<not> FolderCovers prefix name"
  shows "resolved d' name v = resolved d name v"
proof -
  let ?cov = "\<lambda>f. FolderCovers (vf_prefix f) name"
  have cov: "filter ?cov fs = filter ?cov (filter (\<lambda>f. vf_prefix f \<noteq> prefix) fs)" for fs
    using assms(2) by (induction fs) auto
  have "filter ?cov (ListVisibilityFolders d') = filter ?cov (ListVisibilityFolders d)"
    using assms(1) unfolding ListVisibilityFolders_def filter_sort by (metis cov)
  then have "pick_folder name (ListVisibilityFolders d') b = pick_folder name (ListVisibilityFolders d) b" for b
    by (metis pick_folder_only_covering)
  then show ?thesis by (simp add: resolved_def resolveProject_def)
qed

text \<open>A change of the one rule \<open>prefix\<close> leaves only the projects it covers to be resolved again.\<close>

lemma folder_change_inv:
  assumes "filter (\<lambda>f. vf_prefix f \<noteq> prefix) (d_folders d') = filter (\<lambda>f. vf_prefix f \<noteq> prefix) (d_folders d)"
    and "d_projects d' = d_projects d" "d_project_vis d' = d_project_vis d" "vis_inv d"
  shows "vis_inv_except (covered_ids prefix (d_projects d')) d'"
proof -
  have "GetProjectVisibilityRow i d' = GetProjectVisibilityRow i d" for i
    using assms(3) by (simp add: GetProjectVisibilityRow_def)
  moreover have "resolved d' (p_name p) v = resolved d (p_name p) v"
    if "p \<in> set (d_projects d)" "p_id p \<notin> covered_ids prefix (d_projects d)" for p v
    using that by (intro resolve_other_folders [OF assms(1)]) (auto simp: covered_ids_def)
  ultimately show ?thesis using assms(2,4) by (auto simp: vis_inv_except_def vis_ok_def)
qed

lemma UpsertVisibilityFolder_ok:
  "mode \<in> {VisibilityPublic, VisibilityPrivate} \<Longrightarrow> \<exists>d'. UpsertVisibilityFolder prefix mode d = Inr d'"
  unfolding UpsertVisibilityFolder_def by (cases "list_ex (\<lambda>f. vf_prefix f = prefix) (d_folders d)") simp_all

lemma UpsertVisibilityFolder_others:
  "UpsertVisibilityFolder prefix mode d = Inr d' \<Longrightarrow>
   filter (\<lambda>f. vf_prefix f \<noteq> prefix) (d_folders d') = filter (\<lambda>f. vf_prefix f \<noteq> prefix) (d_folders d)
   \<and> d_projects d' = d_projects d \<and> d_project_vis d' = d_project_vis d"
proof -
  have "filter (\<lambda>f. vf_prefix f \<noteq> prefix) (map (\<lambda>f. if vf_prefix f = prefix then f\<lparr>vf_mode := mode\<rparr> else f) fs)
    = filter (\<lambda>f. vf_prefix f \<noteq> prefix) fs" for fs by (induction fs) auto
  then show "UpsertVisibilityFolder prefix mode d = Inr d' \<Longrightarrow> ?thesis"
    by (auto simp: UpsertVisibilityFolder_def split: if_splits)
qed

lemma reapply_folder:
  assumes "filter (\<lambda>f. vf_prefix f \<noteq> prefix) (d_folders d1) = filter (\<lambda>f. vf_prefix f \<noteq> prefix) (d_folders d)"
    and "d_projects d1 = d_projects d" "d_project_vis d1 = d_project_vis d" "vis_inv d"
  shows "\<exists>d'. apply_covered now prefix (ListAllProjects d1) d1 = (d', Inr ()) \<and> idn d' = idn d \<and> vis_inv d'"
proof -
  have cur: "\<forall>p \<in> set (ListAllProjects d1). current p d1"
    by (auto simp: ListAllProjects_def current_def idn_def)
  have "covered_ids prefix (ListAllProjects d1) = covered_ids prefix (d_projects d1)"
    by (simp add: covered_ids_def ListAllProjects_def)
  with apply_covered_spec [OF cur folder_change_inv [OF assms], of now prefix] assms(2)
  show ?thesis by (auto simp: idn_def)
qed

lemma SetVisibilityFolder_spec:
  assumes "vis_inv d" "valid_mode mode" "trim_chars prefix ''/'' \<noteq> []"
  shows "\<exists>d'. SetVisibilityFolder now prefix mode d = (d', Inr ()) \<and> idn d' = idn d \<and> vis_inv d'"
proof (cases "mode = VisibilityAuto")
  case True
  let ?d1 = "DeleteVisibilityFolder (trim_chars prefix ''/'') d"
  have "\<exists>d'. apply_covered now (trim_chars prefix ''/'') (ListAllProjects ?d1) ?d1 = (d', Inr ())
      \<and> idn d' = idn d \<and> vis_inv d'"
    by (rule reapply_folder) (auto simp: DeleteVisibilityFolder_def assms(1))
  with True assms(3) show ?thesis
    by (simp add: SetVisibilityFolder_def Let_def exec_def bind_db_def)
next
  case False
  with assms(2) have "mode \<in> {VisibilityPublic, VisibilityPrivate}" by (simp add: valid_mode_def)
  then obtain d1 where d1: "UpsertVisibilityFolder (trim_chars prefix ''/'') mode d = Inr d1"
    using UpsertVisibilityFolder_ok by blast
  from UpsertVisibilityFolder_others [OF d1] assms(1)
  have "\<exists>d'. apply_covered now (trim_chars prefix ''/'') (ListAllProjects d1) d1 = (d', Inr ())
      \<and> idn d' = idn d \<and> vis_inv d'"
    by (intro reapply_folder) auto
  with False assms(3) d1 show ?thesis
    by (simp add: SetVisibilityFolder_def Let_def exec_def bind_db_def)
qed

section \<open>The operations together\<close>

datatype vis_op =
    VisSync time string bool
  | VisMode time string Visibility
  | VisFolder time string Visibility

text \<open>The callers look the project up by its name and then act on it.\<close>

fun vis_step :: "db \<Rightarrow> vis_op \<Rightarrow> db" where
  "vis_step d (VisSync now name a) =
     (case GetProjectByName name d of None \<Rightarrow> d | Some p \<Rightarrow> fst (SyncAutoPrivate now p a d))"
| "vis_step d (VisMode now name mode) =
     (case GetProjectByName name d of None \<Rightarrow> d | Some p \<Rightarrow> fst (SetProjectVisibilityMode now p mode d))"
| "vis_step d (VisFolder now prefix mode) = fst (SetVisibilityFolder now prefix mode d)"

fun vis_op_ok :: "vis_op \<Rightarrow> bool" where
  "vis_op_ok (VisSync now name a) = True"
| "vis_op_ok (VisMode now name mode) = valid_mode mode"
| "vis_op_ok (VisFolder now prefix mode) = valid_mode mode"

lemma GetProjectByName_current: "GetProjectByName name d = Some p \<Longrightarrow> current p d"
  by (auto simp: GetProjectByName_def current_def idn_def dest!: find_first_Some)

interpretation visibility: guarded_system vis_step vis_inv vis_op_ok
proof unfold_locales
  fix e d
  assume ok: "vis_op_ok e" and inv: "vis_inv d"
  show "vis_inv (vis_step d e)"
  proof (cases e)
    case (VisSync now name a)
    with inv SyncAutoPrivate_spec [of _ d "{}" now a] show ?thesis
      by (fastforce split: option.split dest: GetProjectByName_current)
  next
    case (VisMode now name mode)
    with inv ok SetProjectVisibilityMode_spec [of _ d "{}" mode now] show ?thesis
      by (fastforce split: option.split dest: GetProjectByName_current)
  next
    case (VisFolder now prefix mode)
    show ?thesis
    proof (cases "trim_chars prefix ''/'' = []")
      case True
      with VisFolder inv show ?thesis by (simp add: SetVisibilityFolder_def)
    next
      case False
      with VisFolder inv ok SetVisibilityFolder_spec [of d mode prefix now] show ?thesis by fastforce
    qed
  qed
qed

text \<open>C8: whatever sequence of source reports, project modes and folder rules is applied, the
  private flag stored with a project, the one every read path checks, is the resolution of
  its mode, the folder rules and the last report.\<close>

theorem stored_visibility_resolved:
  assumes "vis_inv d0" and "\<forall>e \<in> set es. vis_op_ok e"
    and "p \<in> set (d_projects (foldl vis_step d0 es))"
    and "GetProjectVisibilityRow (p_id p) (foldl vis_step d0 es) = Some v"
  shows "p_is_private p =
    vi_private (resolveProject (p_name p) (pv_mode v) (pv_auto_private v)
      (ListVisibilityFolders (foldl vis_step d0 es)))"
proof -
  have "vis_inv (foldl vis_step d0 es)" by (rule visibility.guarded_run [OF assms(2,1)])
  with assms(3,4) show ?thesis by (simp add: vis_inv_except_def vis_ok_def resolved_def)
qed

text \<open>a report of the source never changes what an operator has overridden, and without
  an override it decides; the operation always succeeds for a project that exists.\<close>

theorem SyncAutoPrivate_outcome:
  assumes "vis_inv d" and "GetProjectByName name d = Some p"
  shows "\<exists>d' p'. SyncAutoPrivate now p a d = (d', Inr p') \<and> vis_inv d'
    \<and> p_is_private p' =
        (let mode = pv_mode (row_of p d);
             fmode = vi_folder_mode (resolveProject (p_name p) mode a (ListVisibilityFolders d)) in
         if mode = VisibilityPublic then False else if mode = VisibilityPrivate then True
         else if fmode = VisibilityPublic then False else if fmode = VisibilityPrivate then True
         else a)"
  using SyncAutoPrivate_spec [OF GetProjectByName_current [OF assms(2)] assms(1), of now a]
  by (fastforce simp: resolved_def resolveProject_def Apply_def Let_def split: prod.splits)

section \<open>Concrete instances\<close>

definition demo_folders :: "visibility_folder list" where
  "demo_folders = [\<lparr>vf_prefix = ''acme'', vf_mode = VisibilityPrivate\<rparr>,
     \<lparr>vf_prefix = ''acme/tools'', vf_mode = VisibilityPublic\<rparr>]"

theorem resolveProject_precedence_witness:
  "folders_ok demo_folders
   \<and> \<not> vi_private (resolveProject ''acme/tools/cli'' VisibilityAuto True demo_folders)
   \<and> (\<exists>f \<in> set demo_folders. FolderCovers (vf_prefix f) ''acme/web''
        \<and> (\<forall>g \<in> set demo_folders. FolderCovers (vf_prefix g) ''acme/web'' \<longrightarrow> length (vf_prefix g) \<le> length (vf_prefix f))
        \<and> Apply (vf_mode f) False)"
proof -
  have ok: "folders_ok demo_folders" by code_simp
  have "\<not> vi_private (resolveProject ''acme/tools/cli'' VisibilityAuto True demo_folders)" by code_simp
  moreover have "vi_private (resolveProject ''acme/web'' VisibilityAuto False demo_folders)" by code_simp
  moreover have "VisibilityAuto \<noteq> VisibilityPublic" "VisibilityAuto \<noteq> VisibilityPrivate" by code_simp+
  ultimately show ?thesis
    using ok resolveProject_precedence [OF ok, of "''acme/web''" VisibilityAuto False] by simp
qed

definition demo_vis_db :: db where
  "demo_vis_db = empty_db\<lparr>d_projects := [new_project 1 ''acme/web'' False],
     d_project_vis := [\<lparr>pv_project_id = 1, pv_mode = VisibilityAuto, pv_auto_private = False\<rparr>]\<rparr>"

lemma demo_vis_inv: "vis_inv demo_vis_db"
proof -
  have proj: "d_projects demo_vis_db = [new_project 1 ''acme/web'' False]"
    and vis: "d_project_vis demo_vis_db = [\<lparr>pv_project_id = 1, pv_mode = VisibilityAuto, pv_auto_private = False\<rparr>]"
    and fol: "d_folders demo_vis_db = []"
    by (simp_all add: demo_vis_db_def empty_db_def)
  show ?thesis
    unfolding vis_inv_except_def vis_ok_def proj GetProjectVisibilityRow_def vis
    by (simp add: valid_mode_def resolved_def ListVisibilityFolders_def fol new_project_def
        resolveProject_def Apply_def split: if_splits)
qed

theorem stored_visibility_resolved_witness:
  "map p_is_private (d_projects (foldl vis_step demo_vis_db
      [VisFolder 5 ''/acme/'' VisibilityPrivate, VisSync 6 ''acme/web'' False])) = [True]
   \<and> vi_private (resolveProject ''acme/web'' VisibilityAuto False
       (ListVisibilityFolders (foldl vis_step demo_vis_db
          [VisFolder 5 ''/acme/'' VisibilityPrivate, VisSync 6 ''acme/web'' False])))"
proof -
  let ?es = "[VisFolder 5 ''/acme/'' VisibilityPrivate, VisSync 6 ''acme/web'' False]"
  let ?d = "foldl vis_step demo_vis_db ?es"
  let ?p = "(new_project 1 ''acme/web'' True)\<lparr>p_updated_at := 5\<rparr>"
  have ok: "\<forall>e \<in> set ?es. vis_op_ok e" by code_simp
  have rows: "d_projects ?d = [?p]" by code_simp
  then have mem: "?p \<in> set (d_projects ?d)" by simp
  have "p_id ?p = 1" by (simp add: new_project_def)
  moreover have "GetProjectVisibilityRow 1 ?d =
    Some \<lparr>pv_project_id = 1, pv_mode = VisibilityAuto, pv_auto_private = False\<rparr>" by code_simp
  ultimately have "GetProjectVisibilityRow (p_id ?p) ?d =
    Some \<lparr>pv_project_id = 1, pv_mode = VisibilityAuto, pv_auto_private = False\<rparr>" by simp
  from stored_visibility_resolved [OF demo_vis_inv ok mem this] rows show ?thesis
    by (simp add: new_project_def)
qed

theorem SyncAutoPrivate_outcome_witness:
  "GetProjectByName ''acme/web'' demo_vis_db = Some (new_project 1 ''acme/web'' False)
   \<and> (\<exists>d' p'. SyncAutoPrivate 9 (new_project 1 ''acme/web'' False) True demo_vis_db = (d', Inr p')
        \<and> vis_inv d' \<and> p_is_private p')"
proof -
  have get: "GetProjectByName ''acme/web'' demo_vis_db = Some (new_project 1 ''acme/web'' False)"
    by code_simp
  have facts: "pv_mode (row_of (new_project 1 ''acme/web'' False) demo_vis_db) = VisibilityAuto"
    "vi_folder_mode (resolveProject (p_name (new_project 1 ''acme/web'' False)) VisibilityAuto True
       (ListVisibilityFolders demo_vis_db)) = VisibilityAuto"
    "VisibilityAuto \<noteq> VisibilityPublic" "VisibilityAuto \<noteq> VisibilityPrivate"
    by code_simp+
  from SyncAutoPrivate_outcome [OF demo_vis_inv get, of 9 True] get facts show ?thesis
    by (simp add: Let_def)
qed

end
