(* ===== verification/Projects.thy ===== *)
theory Projects
  imports Visibility
begin

text \<open>
  The project registry: \<open>internal/db/projects.go\<close> and \<open>internal/db/depends.go\<close>. A project
  is found by its name, or by a name it had before a rename (an alias). The dependency lists
  name projects and follow renames. The pattern of a Debian relation, a regular
  expression evaluated by the standard library, is the argument \<open>rel\<close> of
  \<open>ValidateAptDepends\<close>.
\<close>

section \<open>Dependency lists\<close>

definition MaxDepends :: nat where "MaxDepends = 32"

definition ParseDepends :: "string \<Rightarrow> string list" where
  "ParseDepends s = (if s = [] then [] else split_on (CHR '','') s)"

text \<open>\<open>slices.Compact\<close>: equal neighbours become one.\<close>

definition joinDepends :: "string list \<Rightarrow> string" where
  "joinDepends names = join_with '','' (remdups_adj (sort names))"

definition DependsOn :: "project \<Rightarrow> string list" where
  "DependsOn p = ParseDepends (p_depends p)"

definition SetProjectDepends :: "time \<Rightarrow> int \<Rightarrow> string list \<Rightarrow> unit db_op" where
  "SetProjectDepends now i names d =
     (if length names > MaxDepends then (d, Inl (Refused ''too many''))
      else if list_ex (\<lambda>n. n = [] \<or> contains_str n '','') names then (d, Inl (Refused ''not a project name''))
      else (set_depends_row now i (joinDepends names) d, Inr ()))"

text \<open>The query's \<open>instr\<close> on the value with a comma at both ends.\<close>

definition ListProjectsDependingOn :: "string \<Rightarrow> db \<Rightarrow> (int \<times> string) list" where
  "ListProjectsDependingOn name d =
     map (\<lambda>p. (p_id p, p_depends p))
       (sort_key p_id (filter (\<lambda>p. contains_str ('','' @ p_depends p @ '','') ('','' @ name @ '','')) (d_projects d)))"

definition rename_names :: "string \<Rightarrow> string \<Rightarrow> bool \<Rightarrow> string list \<Rightarrow> string list" where
  "rename_names oldName newName self names =
     concat (map (\<lambda>n. if n \<noteq> oldName then [n] else if \<not> self then [newName] else []) names)"

fun rename_rows :: "time \<Rightarrow> string \<Rightarrow> string \<Rightarrow> int \<Rightarrow> (int \<times> string) list \<Rightarrow> db \<Rightarrow> db" where
  "rename_rows now oldName newName newID [] d = d"
| "rename_rows now oldName newName newID ((i, deps) # rows) d =
     rename_rows now oldName newName newID rows
       (set_depends_row now i (joinDepends (rename_names oldName newName (i = newID) (ParseDepends deps))) d)"

definition renameDepends :: "time \<Rightarrow> string \<Rightarrow> string \<Rightarrow> int \<Rightarrow> db \<Rightarrow> db" where
  "renameDepends now oldName newName newID d =
     rename_rows now oldName newName newID (ListProjectsDependingOn oldName d) d"

section \<open>Debian relations\<close>

definition MaxAptDependsLen :: nat where "MaxAptDependsLen = 1024"

definition apt_relation_ok :: "(string \<Rightarrow> bool) \<Rightarrow> string \<Rightarrow> bool" where
  "apt_relation_ok rel alt \<longleftrightarrow> (let a = trim_chars alt [CHR '' '', CHR 0x09] in a \<noteq> [] \<and> rel a)"

definition ValidateAptDepends :: "(string \<Rightarrow> bool) \<Rightarrow> string \<Rightarrow> db_error + unit" where
  "ValidateAptDepends rel s =
     (if s = [] then Inr ()
      else if list_ex (\<lambda>c. c = CHR 0x0D \<or> c = CHR 0x0A) s then Inl (Refused ''one line'')
      else if length s > MaxAptDependsLen then Inl (Refused ''too long'')
      else if list_all (\<lambda>clause. list_all (apt_relation_ok rel) (split_on (CHR ''|'') clause))
                (split_on (CHR '','') s)
      then Inr () else Inl (Refused ''not a Debian relation''))"

definition SetProjectAptDepends :: "(string \<Rightarrow> bool) \<Rightarrow> time \<Rightarrow> int \<Rightarrow> string \<Rightarrow> unit db_op" where
  "SetProjectAptDepends rel now i depends d =
     (case ValidateAptDepends rel depends of
        Inl e \<Rightarrow> (d, Inl e)
      | Inr _ \<Rightarrow> (update_project now i (\<lambda>p. p\<lparr>p_apt_depends := depends\<rparr>) d, Inr ()))"

section \<open>Names\<close>

definition GetProject :: "string \<Rightarrow> db \<Rightarrow> db_error + project" where
  "GetProject name d = (case GetProjectByName name d of None \<Rightarrow> Inl ErrNotFound | Some p \<Rightarrow> Inr p)"

text \<open>\<open>ResolveProject\<close>: the project and whether the name was an alias.\<close>

definition ResolveProject :: "string \<Rightarrow> db \<Rightarrow> db_error + project \<times> bool" where
  "ResolveProject name d =
     (case GetProject name d of
        Inr p \<Rightarrow> Inr (p, False)
      | Inl _ \<Rightarrow>
          (case GetProjectByAlias name d of None \<Rightarrow> Inl ErrNotFound | Some p \<Rightarrow> Inr (p, True)))"

definition NameAvailable :: "string \<Rightarrow> db \<Rightarrow> bool" where
  "NameAvailable name d =
     (case GetProject name d of Inr _ \<Rightarrow> False | Inl _ \<Rightarrow> CountProjectAliasByName name d = 0)"

definition NameAvailableTo :: "string \<Rightarrow> int \<Rightarrow> db \<Rightarrow> bool" where
  "NameAvailableTo name i d =
     (case ResolveProject name d of Inl _ \<Rightarrow> True | Inr (p, aliased) \<Rightarrow> aliased \<and> p_id p = i)"

definition CreateProject :: "time \<Rightarrow> project \<Rightarrow> project db_op" where
  "CreateProject now p d =
     (case InsertProject now p d of
        Inl UniqueViolation \<Rightarrow> (d, Inl (ErrConflict (p_name p)))
      | Inl e \<Rightarrow> (d, Inl e)
      | Inr (d', i) \<Rightarrow>
          bind_db (exec (UpsertProjectVisibilityRow i VisibilityAuto (p_is_private p)))
            (\<lambda>_. applyProjectVisibility now (p\<lparr>p_id := i\<rparr>)) d')"

definition RenameProject :: "time \<Rightarrow> int \<Rightarrow> string \<Rightarrow> string \<Rightarrow> db \<Rightarrow> db \<times> db_error option" where
  "RenameProject now i oldName newName =
     transaction (\<lambda>d.
       bind_res (rename_row now newName i (DeleteProjectAlias newName d)) (\<lambda>d2.
       bind_res (InsertProjectAlias oldName i (DeleteProjectAlias oldName d2)) (\<lambda>d4.
       Inr (renameDepends now oldName newName i d4))))"

definition ProjectsForRepoID :: "string \<Rightarrow> db \<Rightarrow> project list" where
  "ProjectsForRepoID repoID d = (if repoID = [] then [] else ListProjectsByGitHubRepoID repoID d)"

definition ProjectAliases :: "int \<Rightarrow> db \<Rightarrow> string list" where
  "ProjectAliases i d = ListProjectAliases i d"

section \<open>Who owns a name\<close>

definition nm :: "db \<Rightarrow> (string \<times> int) list" where
  "nm d = map (\<lambda>p. (p_name p, p_id p)) (d_projects d)"

definition al :: "db \<Rightarrow> (string \<times> int) list" where
  "al d = map (\<lambda>a. (al_name a, al_project_id a)) (d_aliases d)"

definition owner_of :: "db \<Rightarrow> string \<Rightarrow> int option" where
  "owner_of d name = (case ResolveProject name d of Inl _ \<Rightarrow> None | Inr (p, _) \<Rightarrow> Some (p_id p))"

definition name_inv :: "db \<Rightarrow> bool" where
  "name_inv d \<longleftrightarrow> distinct (map p_id (d_projects d)) \<and> distinct (map fst (nm d)) \<and> distinct (map fst (al d))
     \<and> (\<forall>n \<in> fst ` set (al d). n \<notin> fst ` set (nm d)) \<and> snd ` set (al d) \<subseteq> snd ` set (nm d)"

lemma nm_ids: "map snd (nm d) = map p_id (d_projects d)"
  by (simp add: nm_def)

lemma table_images:
  "snd ` set (nm d) = p_id ` set (d_projects d)" "fst ` set (nm d) = p_name ` set (d_projects d)"
  "snd ` set (al d) = al_project_id ` set (d_aliases d)" "fst ` set (al d) = al_name ` set (d_aliases d)"
  by (simp_all add: nm_def al_def image_image)

lemma project_by_id_nm: "project_by_id i d \<noteq> None \<longleftrightarrow> i \<in> snd ` set (nm d)"
  by (auto simp: project_by_id_def find_first_None table_images)

lemma map_of_filter_fst: "map_of (filter (\<lambda>x. P (fst x)) xs) n = (if P n then map_of xs n else None)"
  by (induction xs) auto

lemma map_of_find_first:
  "map_of (map (\<lambda>x. (f x, g x)) xs) k = map_option g (find_first (\<lambda>x. f x = k) xs)"
  by (induction xs) (auto simp: find_first_def)

lemma GetProjectByName_nm: "map_option p_id (GetProjectByName name d) = map_of (nm d) name"
  by (simp add: GetProjectByName_def nm_def map_of_find_first)

lemma GetProjectByAlias_al:
  assumes "snd ` set (al d) \<subseteq> snd ` set (nm d)"
  shows "map_option p_id (GetProjectByAlias name d) = map_of (al d) name"
proof -
  have "project_by_id (al_project_id a) d \<noteq> None" if "a \<in> set (d_aliases d)" for a
    using assms that unfolding project_by_id_nm table_images by blast
  then have "find_first (\<lambda>a. al_name a = name \<and> project_by_id (al_project_id a) d \<noteq> None) (d_aliases d)
    = find_first (\<lambda>a. al_name a = name) (d_aliases d)"
    by (intro find_first_cong) blast
  then show ?thesis
    using \<open>\<And>a. a \<in> set (d_aliases d) \<Longrightarrow> project_by_id (al_project_id a) d \<noteq> None\<close>
    by (auto simp: GetProjectByAlias_def al_def map_of_find_first split: option.splits
        dest!: find_first_Some dest: project_by_id_Some)
qed

lemma owner_of_tables:
  assumes "name_inv d"
  shows "owner_of d name = (case map_of (nm d) name of Some i \<Rightarrow> Some i | None \<Rightarrow> map_of (al d) name)"
proof -
  have "snd ` set (al d) \<subseteq> snd ` set (nm d)" using assms by (simp add: name_inv_def)
  from GetProjectByName_nm [of name d] GetProjectByAlias_al [OF this, of name] show ?thesis
    by (auto simp: owner_of_def ResolveProject_def GetProject_def split: option.splits)
qed

lemma resolve_aliased:
  "ResolveProject name d = Inr (p, b) \<Longrightarrow> b \<longleftrightarrow> map_of (nm d) name = None"
  unfolding GetProjectByName_nm [symmetric]
  by (auto simp: ResolveProject_def GetProject_def split: option.splits)

lemma NameAvailableTo_tables:
  assumes "name_inv d"
  shows "NameAvailableTo name i d \<longleftrightarrow>
    map_of (nm d) name = None \<and> (map_of (al d) name = None \<or> map_of (al d) name = Some i)"
proof -
  have "NameAvailableTo name i d \<longleftrightarrow> owner_of d name = None \<or> owner_of d name = Some i \<and> map_of (nm d) name = None"
    using resolve_aliased [of name d]
    by (auto simp: NameAvailableTo_def owner_of_def split: sum.splits prod.splits)
  then show ?thesis by (auto simp: owner_of_tables [OF assms] split: option.splits)
qed

section \<open>Renaming\<close>

lemma update_project_nm:
  "(\<And>p. p_id (f p) = p_id p \<and> p_name (f p) = p_name p) \<Longrightarrow> nm (update_project now i f d) = nm d"
  "al (update_project now i f d) = al d"
  by (auto simp: nm_def al_def update_project_def)

lemma rename_rows_names:
  "nm (rename_rows now o' n' i rows d) = nm d" "al (rename_rows now o' n' i rows d) = al d"
  by (induction now o' n' i rows d rule: rename_rows.induct)
    (auto simp: set_depends_row_def update_project_nm)

lemma nm_rename:
  "nm (update_project now i (\<lambda>p. p\<lparr>p_name := new\<rparr>) d) =
     map (\<lambda>(n, j). if j = i then (new, j) else (n, j)) (nm d)"
  by (auto simp: nm_def update_project_def)

lemma map_of_rename:
  assumes "distinct (map snd xs)" "distinct (map fst xs)" "(old, i) \<in> set xs" "new \<notin> fst ` set xs"
  shows "map_of (map (\<lambda>(n, j). if j = i then (new, j) else (n, j)) xs) n =
    (if n = new then Some i else if n = old then None else map_of xs n)"
  using assms
proof (induction xs)
  case Nil
  then show ?case by simp
next
  case (Cons x xs)
  obtain m j where x: "x = (m, j)" by fastforce
  show ?case
  proof (cases "j = i")
    case True
    with Cons.prems(1,3) x have "m = old" "i \<notin> snd ` set xs" by (auto simp: image_iff)
    moreover have "map (\<lambda>(n, j). if j = i then (new, j) else (n, j)) xs = xs"
      using \<open>i \<notin> snd ` set xs\<close> by (intro map_idI) (auto simp: image_iff)
    moreover have "map_of xs old = None"
      using Cons.prems(2) x \<open>m = old\<close> by (auto simp: map_of_eq_None_iff)
    ultimately show ?thesis using True x by auto
  next
    case False
    with Cons x show ?thesis by force
  qed
qed

lemma distinct_rename:
  assumes "distinct (map snd xs)" "distinct (map fst xs)" "new \<notin> fst ` set xs"
  shows "distinct (map fst (map (\<lambda>(n, j). if j = i then (new, j) else (n, j)) xs))"
  using assms
proof (induction xs)
  case Nil
  then show ?case by simp
next
  case (Cons x xs)
  obtain m j where x: "x = (m, j)" by fastforce
  let ?ren = "\<lambda>(n, j). if j = i then (new, j) else (n, j)"
  have sub: "fst ` ?ren ` set xs \<subseteq> insert new (fst ` set xs)" by (auto split: if_splits)
  show ?case
  proof (cases "j = i")
    case True
    with Cons.prems(1) x have "map ?ren xs = xs" by (intro map_idI) (auto simp: image_iff)
    then have "map fst (map ?ren (x # xs)) = new # map fst xs" using True x by (simp del: map_map)
    moreover have "distinct (new # map fst xs)" using Cons.prems(2,3) x by simp
    ultimately show ?thesis by metis
  next
    case False
    with Cons.prems x have "m \<noteq> new" "m \<notin> fst ` set xs" by auto
    with sub have "m \<notin> fst ` ?ren ` set xs" by blast
    with False Cons x show ?thesis by (simp add: image_image)
  qed
qed

text \<open>The effect of a rename on the two tables of names.\<close>

definition renamed :: "int \<Rightarrow> string \<Rightarrow> string \<Rightarrow> db \<Rightarrow> db \<Rightarrow> bool" where
  "renamed i old new d d' \<longleftrightarrow>
     nm d' = map (\<lambda>(n, j). if j = i then (new, j) else (n, j)) (nm d) \<and>
     al d' = filter (\<lambda>x. fst x \<noteq> new \<and> fst x \<noteq> old) (al d) @ [(old, i)]"

lemma RenameProject_tables:
  assumes "project_by_id i d \<noteq> None" "new \<notin> fst ` set (nm d)"
  shows "\<exists>d'. RenameProject now i old new d = (d', None) \<and> renamed i old new d d'"
proof -
  let ?d1 = "DeleteProjectAlias new d"
  let ?d2 = "update_project now i (\<lambda>p. p\<lparr>p_name := new\<rparr>) ?d1"
  let ?d3 = "DeleteProjectAlias old ?d2"
  let ?d4 = "?d3\<lparr>d_aliases := d_aliases ?d3 @ [\<lparr>al_name = old, al_project_id = i\<rparr>]\<rparr>"
  let ?d5 = "renameDepends now old new i ?d4"
  have "\<not> list_ex (\<lambda>q. p_name q = new \<and> p_id q \<noteq> i) (d_projects d)"
    using assms(2) unfolding table_images by (auto simp: list_ex_iff)
  then have step2: "rename_row now new i ?d1 = Inr ?d2" by (simp add: rename_row_def)
  have "project_by_id i ?d3 = project_by_id i ?d2" by (simp add: project_by_id_def)
  also have "\<dots> \<noteq> None"
    using assms(1) by (subst project_by_id_update) (auto simp: project_by_id_def)
  finally have step4: "InsertProjectAlias old i ?d3 = Inr ?d4"
    by (auto simp: InsertProjectAlias_def list_ex_iff)
  have "nm ?d5 = nm ?d2" by (simp add: renameDepends_def rename_rows_names) (simp add: nm_def)
  moreover have "nm ?d1 = nm d" by (simp add: nm_def)
  moreover have "al ?d5 = filter (\<lambda>x. fst x \<noteq> new \<and> fst x \<noteq> old) (al d) @ [(old, i)]"
    by (simp add: renameDepends_def rename_rows_names) (simp add: al_def filter_map o_def)
  ultimately have "renamed i old new d ?d5" by (simp add: renamed_def nm_rename)
  then show ?thesis by (simp add: RenameProject_def transaction_def step2 step4)
qed

lemma renamed_nm:
  assumes "renamed i old new d d'" "name_inv d" "(old, i) \<in> set (nm d)" "new \<notin> fst ` set (nm d)"
  shows "map_of (nm d') n = (if n = new then Some i else if n = old then None else map_of (nm d) n)"
    "distinct (map fst (nm d'))" "map snd (nm d') = map snd (nm d)"
proof -
  have ids: "distinct (map snd (nm d))" and names: "distinct (map fst (nm d))"
    using assms(2) by (auto simp: name_inv_def nm_ids)
  note eq = assms(1) [unfolded renamed_def, THEN conjunct1]
  show "map_of (nm d') n = (if n = new then Some i else if n = old then None else map_of (nm d) n)"
    unfolding eq by (rule map_of_rename [OF ids names assms(3,4)])
  show "distinct (map fst (nm d'))"
    unfolding eq by (rule distinct_rename [OF ids names assms(4)])
  show "map snd (nm d') = map snd (nm d)" unfolding eq by auto
qed

lemma renamed_inv:
  assumes "renamed i old new d d'" "name_inv d" "(old, i) \<in> set (nm d)" "new \<notin> fst ` set (nm d)"
  shows "name_inv d'"
  unfolding name_inv_def
proof (intro conjI)
  note facts = renamed_nm [OF assms]
  note eq = assms(1) [unfolded renamed_def, THEN conjunct2]
  show "distinct (map p_id (d_projects d'))"
    using facts(3) assms(2) by (simp add: nm_ids name_inv_def)
  show "distinct (map fst (nm d'))" by (rule facts(2))
  show "distinct (map fst (al d'))"
    using assms(2) by (auto simp: eq name_inv_def distinct_map_filter)
  have fsts: "fst ` set (nm d') = insert new (fst ` set (nm d) - {old})"
    unfolding dom_map_of_conv_image_fst [symmetric] by (auto simp: dom_def facts(1) split: if_splits)
  have "new \<noteq> old" using assms(3,4) by force
  then show "\<forall>n \<in> fst ` set (al d'). n \<notin> fst ` set (nm d')"
    unfolding fsts eq using assms(2) by (auto simp: name_inv_def)
  have "snd ` set (nm d') = snd ` set (nm d)" using facts(3) by (metis list.set_map)
  moreover have "i \<in> snd ` set (nm d)" using assms(3) by force
  ultimately show "snd ` set (al d') \<subseteq> snd ` set (nm d')"
    unfolding eq using assms(2) by (auto simp: name_inv_def)
qed

lemma renamed_owner:
  assumes "renamed i old new d d'" "name_inv d" "(old, i) \<in> set (nm d)" "new \<notin> fst ` set (nm d)"
  shows "owner_of d' = (owner_of d)(new \<mapsto> i)"
proof
  fix n
  have ne: "new \<noteq> old" using assms(3,4) by force
  have "map_of (al d') n = (if n \<noteq> new \<and> n \<noteq> old then map_of (al d) n else if n = old then Some i else None)"
    unfolding assms(1) [unfolded renamed_def, THEN conjunct2] map_of_append
    using map_of_filter_fst [of "\<lambda>m. m \<noteq> new \<and> m \<noteq> old" "al d" n] ne by (auto simp: map_add_def split: option.split)
  moreover have "map_of (nm d) old = Some i" using assms(2,3) by (simp add: name_inv_def)
  ultimately show "owner_of d' n = ((owner_of d)(new \<mapsto> i)) n"
    unfolding owner_of_tables [OF renamed_inv [OF assms]] renamed_nm(1) [OF assms] using ne
    by (auto simp: owner_of_tables [OF assms(2)] split: option.split)
qed

text \<open>The preconditions of a rename, from what its callers check.\<close>

lemma rename_pre:
  assumes "name_inv d" "project_by_id i d = Some p" "NameAvailableTo new i d"
  shows "(p_name p, i) \<in> set (nm d)" "new \<notin> fst ` set (nm d)" "owner_of d new \<in> {None, Some i}"
proof -
  show "(p_name p, i) \<in> set (nm d)" using project_by_id_Some [OF assms(2)] by (auto simp: nm_def)
  show "new \<notin> fst ` set (nm d)" "owner_of d new \<in> {None, Some i}"
    using assms(3) unfolding NameAvailableTo_tables [OF assms(1)] owner_of_tables [OF assms(1)]
    by (auto simp: map_of_eq_None_iff [symmetric])
qed

lemma resolve_of_owner:
  "owner_of d n = Some i \<Longrightarrow> \<exists>p. ResolveProject n d = Inr (p, map_of (nm d) n = None) \<and> p_id p = i"
  using resolve_aliased [of n d] by (auto simp: owner_of_def split: sum.splits)

text \<open>a rename to a name that is free for the project succeeds. Afterwards the new name
  is the project's own, the old name still leads to it as an alias, and every other name
  leads where it led before.\<close>

theorem RenameProject_outcome:
  assumes "name_inv d" and "project_by_id i d = Some p" and "NameAvailableTo new i d"
  shows "\<exists>d'. RenameProject now i (p_name p) new d = (d', None) \<and> name_inv d'
    \<and> (\<exists>q. ResolveProject new d' = Inr (q, False) \<and> p_id q = i)
    \<and> (\<exists>q. ResolveProject (p_name p) d' = Inr (q, True) \<and> p_id q = i)
    \<and> (\<forall>n. n \<noteq> new \<longrightarrow> owner_of d' n = owner_of d n)"
proof -
  note pre = rename_pre [OF assms]
  from RenameProject_tables [of i d new now "p_name p"] assms(2) pre(2) obtain d' where
    d': "RenameProject now i (p_name p) new d = (d', None)" "renamed i (p_name p) new d d'" by auto
  note nm' = renamed_nm(1) [OF d'(2) assms(1) pre(1,2)]
  note own = renamed_owner [OF d'(2) assms(1) pre(1,2)]
  have ne: "p_name p \<noteq> new" using pre(1,2) by force
  have "map_of (nm d) (p_name p) = Some i" using assms(1) pre(1) by (simp add: name_inv_def)
  then have "owner_of d (p_name p) = Some i" by (simp add: owner_of_tables [OF assms(1)])
  with own ne have "owner_of d' (p_name p) = Some i" "owner_of d' new = Some i" by simp_all
  with resolve_of_owner [of d' "p_name p" i] resolve_of_owner [of d' new i] nm' ne
  have "\<exists>q. ResolveProject new d' = Inr (q, False) \<and> p_id q = i"
    "\<exists>q. ResolveProject (p_name p) d' = Inr (q, True) \<and> p_id q = i" by simp_all
  with d' own renamed_inv [OF d'(2) assms(1) pre(1,2)] show ?thesis by auto
qed

section \<open>A name stays with its project\<close>

text \<open>What a registry of names promises its clients: giving a project another name adds that name
  and changes no other, and only a free name or one of its own can be given.\<close>

locale name_registry =
  fixes reg_inv :: "'d \<Rightarrow> bool"
    and owner :: "'d \<Rightarrow> string \<Rightarrow> int option"
    and try_rename :: "'d \<Rightarrow> int \<times> string \<Rightarrow> 'd"
  assumes rename_inv: "reg_inv d \<Longrightarrow> reg_inv (try_rename d e)"
    and rename_owner: "reg_inv d \<Longrightarrow> owner (try_rename d (i, n)) = owner d
        \<or> owner (try_rename d (i, n)) = (owner d)(n \<mapsto> i) \<and> owner d n \<in> {None, Some i}"
begin

lemma renames_inv: "reg_inv d \<Longrightarrow> reg_inv (foldl try_rename d es)"
  by (induction es arbitrary: d) (auto intro: rename_inv)

lemma rename_keeps: "reg_inv d \<Longrightarrow> owner d n = Some i \<Longrightarrow> owner (try_rename d e) n = Some i"
  using rename_owner [of d "fst e" "snd e"] by (cases "n = snd e") auto

lemma renames_keep: "reg_inv d \<Longrightarrow> owner d n = Some i \<Longrightarrow> owner (foldl try_rename d es) n = Some i"
  by (induction es arbitrary: d) (auto intro: rename_inv rename_keeps)

end

text \<open>What the reconciler does with one project: rename it if the name is free for it.\<close>

definition try_rename_project :: "time \<Rightarrow> db \<Rightarrow> int \<times> string \<Rightarrow> db" where
  "try_rename_project now d e =
     (case e of (i, new) \<Rightarrow>
      case project_by_id i d of
        None \<Rightarrow> d
      | Some p \<Rightarrow> if NameAvailableTo new i d then fst (RenameProject now i (p_name p) new d) else d)"

lemma try_rename_cases:
  assumes "name_inv d"
  shows "try_rename_project now d (i, n) = d \<or>
    name_inv (try_rename_project now d (i, n)) \<and> owner_of (try_rename_project now d (i, n)) = (owner_of d)(n \<mapsto> i)
    \<and> owner_of d n \<in> {None, Some i}"
proof (cases "project_by_id i d")
  case None
  then show ?thesis by (simp add: try_rename_project_def)
next
  case (Some p)
  show ?thesis
  proof (cases "NameAvailableTo n i d")
    case True
    note pre = rename_pre [OF assms Some True]
    from RenameProject_tables [of i d n now "p_name p"] Some pre(2) obtain d' where
      d': "RenameProject now i (p_name p) n d = (d', None)" "renamed i (p_name p) n d d'" by auto
    with renamed_inv [OF d'(2) assms pre(1,2)] renamed_owner [OF d'(2) assms pre(1,2)] pre(3) Some True
    show ?thesis by (simp add: try_rename_project_def)
  qed (simp add: try_rename_project_def Some)
qed

interpretation registry: name_registry name_inv owner_of "try_rename_project now" for now
proof unfold_locales
  fix d e
  assume "name_inv d"
  with try_rename_cases [of d now "fst e" "snd e"] show "name_inv (try_rename_project now d e)" by auto
next
  fix d i n
  assume "name_inv d"
  with try_rename_cases [of d now i n]
  show "owner_of (try_rename_project now d (i, n)) = owner_of d
    \<or> owner_of (try_rename_project now d (i, n)) = (owner_of d)(n \<mapsto> i) \<and> owner_of d n \<in> {None, Some i}"
    by auto
qed

text \<open>C7: whatever renames are attempted, of any projects to any names, a name that leads to a
  project keeps leading to it: no rename takes over another project's name or a name it
  had before.\<close>

theorem names_never_lost:
  assumes "name_inv d" and "ResolveProject name d = Inr (p, b)"
  shows "\<exists>q c. ResolveProject name (foldl (try_rename_project now) d es) = Inr (q, c) \<and> p_id q = p_id p"
proof -
  from assms(2) have "owner_of d name = Some (p_id p)" by (simp add: owner_of_def)
  with assms(1) have "owner_of (foldl (try_rename_project now) d es) name = Some (p_id p)"
    by (rule registry.renames_keep)
  then show ?thesis using resolve_of_owner by blast
qed

section \<open>Creating projects\<close>

definition ids_ok :: "db \<Rightarrow> bool" where
  "ids_ok d \<longleftrightarrow> (\<forall>p \<in> set (d_projects d). p_id p \<le> d_project_seq d) \<and>
     (\<forall>v \<in> set (d_project_vis d). pv_project_id v \<le> d_project_seq d)"

lemma InsertProject_fresh:
  assumes "InsertProject now p d = Inr (d1, i)" "ids_ok d" "vis_inv d"
  shows "idn d1 = idn d @ [(i, p_name p)]" "current (p\<lparr>p_id := i\<rparr>) d1" "vis_inv_except {i} d1"
    "i = d_project_seq d + 1" "d_folders d1 = d_folders d"
proof -
  have eqs: "i = d_project_seq d + 1" "d_folders d1 = d_folders d" "d_project_vis d1 = d_project_vis d"
    "idn d1 = idn d @ [(i, p_name p)]"
    "\<exists>row. d_projects d1 = d_projects d @ [row] \<and> p_id row = i"
    using assms(1) by (auto simp: InsertProject_def Let_def idn_def split: if_splits)
  then show "idn d1 = idn d @ [(i, p_name p)]" "i = d_project_seq d + 1" "d_folders d1 = d_folders d"
    "current (p\<lparr>p_id := i\<rparr>) d1" by (auto simp: current_def)
  have "GetProjectVisibilityRow j d1 = GetProjectVisibilityRow j d" for j
    using eqs(3) by (simp add: GetProjectVisibilityRow_def)
  moreover have "resolved d1 = resolved d" by (rule resolved_folders [OF eqs(2)])
  moreover have "i \<notin> p_id ` set (d_projects d)"
    using assms(2) eqs(1) by (fastforce simp: ids_ok_def)
  ultimately show "vis_inv_except {i} d1"
    using assms(3) eqs(5) by (auto simp: vis_inv_except_def vis_ok_def)
qed

text \<open>Creating a project under a name no project has: it succeeds, whatever the aliases.\<close>

lemma CreateProject_new:
  assumes "ids_ok d" "vis_inv d" "GetProjectByName (p_name p) d = None"
  shows "\<exists>d' p'. CreateProject now p d = (d', Inr p') \<and> vis_inv d'
    \<and> idn d' = idn d @ [(d_project_seq d + 1, p_name p)]
    \<and> p_id p' = d_project_seq d + 1
    \<and> p_is_private p' = resolved d (p_name p) \<lparr>pv_project_id = d_project_seq d + 1,
         pv_mode = VisibilityAuto, pv_auto_private = p_is_private p\<rparr>"
proof -
  have "\<not> list_ex (\<lambda>q. p_name q = p_name p) (d_projects d)"
    using assms(3) by (simp add: GetProjectByName_def find_first_None list_ex_iff)
  then obtain d1 i where ins: "InsertProject now p d = Inr (d1, i)"
    by (simp add: InsertProject_def Let_def)
  note new = InsertProject_fresh [OF ins assms(1,2)]
  let ?p = "p\<lparr>p_id := i\<rparr>"
  let ?v = "\<lparr>pv_project_id = i, pv_mode = VisibilityAuto, pv_auto_private = p_is_private p\<rparr>"
  have "project_by_id i d1 \<noteq> None" using current_exists [OF new(2)] by simp
  from Upsert_row_set [OF _ this, of VisibilityAuto "p_is_private p"] obtain d2 where
    d2: "UpsertProjectVisibilityRow i VisibilityAuto (p_is_private p) d1 = Inr d2" "row_set i ?v d1 d2"
    by (auto simp: valid_mode_def)
  have "vis_inv_except {i} d2"
    using row_set_inv [OF d2(2) new(3)] by (simp add: valid_mode_def)
  moreover have "current ?p d2" using new(2) d2(2) by (simp add: row_set_current)
  moreover have "row_of ?p d2 = ?v" using d2(2) by (intro row_set_row_of) simp
  moreover have "resolved d2 = resolved d"
    using d2(2) new(5) by (intro resolved_folders) (simp add: row_set_def)
  ultimately obtain d' where d': "applyProjectVisibility now ?p d2 =
      (d', Inr (?p\<lparr>p_is_private := resolved d (p_name p) ?v\<rparr>))" "idn d' = idn d2" "vis_inv d'"
    using apply_spec [of ?p d2 "{i}" now] by auto
  with new d2 show ?thesis
    by (simp add: CreateProject_def ins exec_def bind_db_def row_set_idn)
qed

lemma idn_nm: "nm d = map (\<lambda>(i, n). (n, i)) (idn d)"
  by (simp add: nm_def idn_def)

text \<open>creating a project does not look at the aliases: a project created under the former
  name of another one takes that name over, although the name was not available.\<close>

theorem CreateProject_shadows_alias:
  assumes "ids_ok d" and "vis_inv d" and "GetProjectByName (p_name p) d = None"
    and "ResolveProject (p_name p) d = Inr (q, True)"
  shows "\<not> NameAvailable (p_name p) d \<and>
    (\<exists>d' p'. CreateProject now p d = (d', Inr p') \<and>
      (\<exists>r. ResolveProject (p_name p) d' = Inr (r, False) \<and> p_id r = p_id p' \<and> p_id r \<noteq> p_id q))"
proof -
  obtain d' p' where d': "CreateProject now p d = (d', Inr p')" "idn d' = idn d @ [(d_project_seq d + 1, p_name p)]"
    "p_id p' = d_project_seq d + 1"
    using CreateProject_new [OF assms(1-3), of now] by blast
  have "map_of (nm d) (p_name p) = None"
    using assms(3) GetProjectByName_nm [of "p_name p" d] by simp
  with d'(2) have "map_of (nm d') (p_name p) = Some (d_project_seq d + 1)"
    by (simp add: idn_nm map_add_def)
  then obtain r where r: "GetProjectByName (p_name p) d' = Some r" "p_id r = d_project_seq d + 1"
    using GetProjectByName_nm [of "p_name p" d'] by auto
  have former: "GetProjectByAlias (p_name p) d = Some q"
    using assms(3,4) by (simp add: ResolveProject_def GetProject_def split: option.splits)
  then have "\<exists>a \<in> set (d_aliases d). al_name a = p_name p"
    by (auto simp: GetProjectByAlias_def dest!: find_first_Some split: option.splits)
  then have "\<not> NameAvailable (p_name p) d"
    by (auto simp: NameAvailable_def GetProject_def assms(3) CountProjectAliasByName_def filter_empty_conv)
  moreover have "p_id q \<le> d_project_seq d"
    using former assms(1) project_by_id_Some
    by (fastforce simp: GetProjectByAlias_def ids_ok_def split: option.splits)
  ultimately show ?thesis
    using d' r by (auto simp: ResolveProject_def GetProject_def)
qed

section \<open>Dependencies follow a rename\<close>

definition good_name :: "string \<Rightarrow> bool" where
  "good_name n \<longleftrightarrow> n \<noteq> [] \<and> CHR '','' \<notin> set n"

definition depends_ok :: "project \<Rightarrow> bool" where
  "depends_ok p \<longleftrightarrow> (\<forall>n \<in> set (DependsOn p). good_name n)"

lemma Parse_joinDepends:
  assumes "\<forall>n \<in> set ns. good_name n"
  shows "set (ParseDepends (joinDepends ns)) = set ns"
proof (cases "ns = []")
  case True
  then show ?thesis by (simp add: joinDepends_def ParseDepends_def)
next
  case False
  let ?ms = "remdups_adj (sort ns)"
  have ms: "set ?ms = set ns" "?ms \<noteq> []"
    using False by (simp_all add: remdups_adj_set) (metis set_empty set_sort)
  with assms have "join_with '','' ?ms \<noteq> []"
    by (cases ?ms rule: remdups_adj.cases) (auto simp: good_name_def)
  moreover have "split_on (CHR '','') (join_with '','' ?ms) = ?ms"
    using ms assms by (intro split_join) (auto simp: good_name_def)
  ultimately show ?thesis using ms by (simp add: ParseDepends_def joinDepends_def)
qed

lemma depending_iff:
  assumes "good_name n"
  shows "contains_str ('','' @ deps @ '','') ('','' @ n @ '','') \<longleftrightarrow> n \<in> set (ParseDepends deps)"
  using framed_search [of n "CHR '',''" deps] assms by (auto simp: good_name_def ParseDepends_def)

lemma rename_names_set:
  "set (rename_names old new self ns) =
     (if self then set ns - {old} else (\<lambda>n. if n = old then new else n) ` set ns)"
  by (auto simp: rename_names_def split: if_splits)

definition deps_of :: "int \<Rightarrow> db \<Rightarrow> string option" where
  "deps_of j d = map_option p_depends (project_by_id j d)"

lemma rename_rows_deps:
  "distinct (map fst rows) \<Longrightarrow>
   deps_of j (rename_rows now old new i rows d) =
     (case map_of rows j of
        None \<Rightarrow> deps_of j d
      | Some deps \<Rightarrow> map_option (\<lambda>_. joinDepends (rename_names old new (j = i) (ParseDepends deps))) (deps_of j d))"
proof (induction rows arbitrary: d)
  case Nil
  then show ?case by simp
next
  case (Cons r rows)
  obtain k deps where r: "r = (k, deps)" by fastforce
  let ?s = "joinDepends (rename_names old new (k = i) (ParseDepends deps))"
  have one: "deps_of j (set_depends_row now k ?s d) = (if j = k then map_option (\<lambda>_. ?s) (deps_of j d) else deps_of j d)"
    by (simp add: deps_of_def set_depends_row_def project_by_id_update option.map_comp o_def)
  from Cons.prems r have "map_of rows k = None" by (simp add: map_of_eq_None_iff)
  with Cons r one show ?case by (auto split: option.split)
qed

lemma renameDepends_deps:
  assumes "distinct (map p_id (d_projects d))" "good_name old" "project_by_id j d = Some q" "depends_ok q"
    "good_name new"
  shows "\<exists>deps. deps_of j (renameDepends now old new i d) = Some deps \<and>
    set (ParseDepends deps) = (if j = i then set (DependsOn q) - {old}
       else (\<lambda>n. if n = old then new else n) ` set (DependsOn q))"
proof -
  let ?P = "\<lambda>p. contains_str ('','' @ p_depends p @ '','') ('','' @ old @ '','')"
  let ?rows = "ListProjectsDependingOn old d"
  have q: "q \<in> set (d_projects d)" "p_id q = j" using project_by_id_Some [OF assms(3)] by auto
  have fsts: "map fst ?rows = map p_id (sort_key p_id (filter ?P (d_projects d)))"
    by (simp add: ListProjectsDependingOn_def o_def)
  have "distinct (map p_id (filter ?P (d_projects d)))" using assms(1) by (rule distinct_map_filter)
  then have dist: "distinct (map fst ?rows)" unfolding fsts by (simp add: distinct_map)
  have here: "deps_of j d = Some (p_depends q)" by (simp add: deps_of_def assms(3))
  show ?thesis
  proof (cases "old \<in> set (DependsOn q)")
    case True
    then have "?P q" by (simp only: depending_iff [OF assms(2)] DependsOn_def)
    with q have "(j, p_depends q) \<in> set ?rows" by (auto simp: ListProjectsDependingOn_def)
    with dist have "map_of ?rows j = Some (p_depends q)" by simp
    moreover have "\<forall>n \<in> set (rename_names old new (j = i) (ParseDepends (p_depends q))). good_name n"
      using assms(4,5) unfolding rename_names_set by (auto simp: depends_ok_def DependsOn_def)
    ultimately show ?thesis
      using rename_rows_deps [OF dist, of j now old new i d] here
      by (simp add: renameDepends_def Parse_joinDepends rename_names_set DependsOn_def)
  next
    case False
    then have "\<not> ?P q" by (simp only: depending_iff [OF assms(2)] DependsOn_def not_False_eq_True)
    have "map_of ?rows j = None"
    proof (rule ccontr)
      assume "map_of ?rows j \<noteq> None"
      then obtain r where "r \<in> set (d_projects d)" "?P r" "p_id r = j"
        by (auto simp: ListProjectsDependingOn_def dest!: map_of_SomeD)
      with q assms(1) \<open>\<not> ?P q\<close> show False by (auto simp: distinct_map dest: inj_onD)
    qed
    moreover have "(\<lambda>n. if n = old then new else n) ` set (DependsOn q) = set (DependsOn q)"
      using False by (auto simp: image_iff)
    ultimately show ?thesis
      using rename_rows_deps [OF dist, of j now old new i d] here False
      by (auto simp: renameDepends_def DependsOn_def)
  qed
qed

lemma RenameProject_result:
  assumes "RenameProject now i old new d = (d', None)"
  obtains d4 where "d' = renameDepends now old new i d4"
    "d_projects d4 = d_projects (update_project now i (\<lambda>p. p\<lparr>p_name := new\<rparr>) d)"
proof -
  from assms obtain d2 d4 where
    "rename_row now new i (DeleteProjectAlias new d) = Inr d2"
    "InsertProjectAlias old i (DeleteProjectAlias old d2) = Inr d4" "d' = renameDepends now old new i d4"
    by (auto simp: RenameProject_def transaction_def bind_res_Inr split: sum.splits)
  then show ?thesis
    by (intro that) (auto simp: rename_row_def InsertProjectAlias_def update_project_def split: if_splits)
qed

text \<open>after a rename, the projects that depended on the old name depend on the new one in
  its place, the renamed project does not depend on itself, and no other dependency changes.\<close>

theorem rename_rewrites_depends:
  assumes "name_inv d" and "project_by_id i d = Some p" and "NameAvailableTo new i d"
    and "good_name (p_name p)" and "good_name new"
    and "project_by_id j d = Some q" and "depends_ok q"
  shows "\<exists>d' q'. RenameProject now i (p_name p) new d = (d', None) \<and> project_by_id j d' = Some q'
    \<and> set (DependsOn q') =
        (if j = i then set (DependsOn q) - {p_name p}
         else (\<lambda>n. if n = p_name p then new else n) ` set (DependsOn q))"
proof -
  note pre = rename_pre [OF assms(1-3)]
  from RenameProject_tables [of i d new now "p_name p"] assms(2) pre(2) obtain d' where
    d': "RenameProject now i (p_name p) new d = (d', None)" by auto
  from RenameProject_result [OF d'] obtain d4 where d4: "d' = renameDepends now (p_name p) new i d4"
    "d_projects d4 = d_projects (update_project now i (\<lambda>p. p\<lparr>p_name := new\<rparr>) d)" .
  have ids: "distinct (map p_id (d_projects d4))"
    using assms(1) unfolding d4(2) by (subst update_project_ids) (auto simp: name_inv_def)
  have "project_by_id j d4 = project_by_id j (update_project now i (\<lambda>p. p\<lparr>p_name := new\<rparr>) d)"
    by (simp add: project_by_id_def d4(2))
  then obtain q4 where q4: "project_by_id j d4 = Some q4" "p_depends q4 = p_depends q"
    using assms(6) by (subst (asm) project_by_id_update) (auto split: if_splits)
  then have "depends_ok q4" "DependsOn q4 = DependsOn q"
    using assms(7) by (auto simp: depends_ok_def DependsOn_def)
  with renameDepends_deps [OF ids assms(4) q4(1) _ assms(5), of now i] d4(1) d' show ?thesis
    by (auto simp: deps_of_def DependsOn_def)
qed

section \<open>Concrete instances\<close>

definition demo_names :: db where
  "demo_names = empty_db\<lparr>d_project_seq := 3,
     d_projects := [new_project 1 ''web'' False, (new_project 2 ''api'' False)\<lparr>p_depends := ''lib,web''\<rparr>],
     d_aliases := [\<lparr>al_name = ''site'', al_project_id = 1\<rparr>]\<rparr>"

lemma demo_names_ok: "name_inv demo_names" "vis_inv demo_names" "ids_ok demo_names"
proof -
  show "name_inv demo_names" by code_simp
  show "ids_ok demo_names" by code_simp
  have "GetProjectVisibilityRow i demo_names = None" for i
    by (simp add: GetProjectVisibilityRow_def demo_names_def empty_db_def find_first_def)
  moreover have "distinct (map p_id (d_projects demo_names))" by code_simp
  ultimately show "vis_inv demo_names" by (simp add: vis_inv_except_def vis_ok_def)
qed

theorem RenameProject_outcome_witness:
  "project_by_id 1 demo_names = Some (new_project 1 ''web'' False)
   \<and> NameAvailableTo ''shop'' 1 demo_names
   \<and> (\<exists>q. ResolveProject ''web'' (fst (RenameProject 7 1 ''web'' ''shop'' demo_names)) = Inr (q, True) \<and> p_id q = 1)"
proof -
  have facts: "project_by_id 1 demo_names = Some (new_project 1 ''web'' False)"
    "NameAvailableTo ''shop'' 1 demo_names" by code_simp+
  have "p_name (new_project 1 ''web'' False) = ''web''" by (simp add: new_project_def)
  with RenameProject_outcome [OF demo_names_ok(1) facts, of 7] facts show ?thesis by auto
qed

theorem names_never_lost_witness:
  "ResolveProject ''site'' demo_names = Inr (new_project 1 ''web'' False, True)
   \<and> (\<exists>q c. ResolveProject ''site'' (foldl (try_rename_project 7) demo_names
        [(1, ''shop''), (2, ''site''), (2, ''web'')]) = Inr (q, c) \<and> p_id q = 1)"
proof -
  have get: "ResolveProject ''site'' demo_names = Inr (new_project 1 ''web'' False, True)" by code_simp
  have "p_id (new_project 1 ''web'' False) = 1" by (simp add: new_project_def)
  with names_never_lost [OF demo_names_ok(1) get, of 7 "[(1, ''shop''), (2, ''site''), (2, ''web'')]"] get
  show ?thesis by simp
qed

theorem CreateProject_shadows_alias_witness:
  "ResolveProject ''site'' demo_names = Inr (new_project 1 ''web'' False, True)
   \<and> (\<exists>d' p'. CreateProject 7 (new_project 0 ''site'' False) demo_names = (d', Inr p')
        \<and> (\<exists>r. ResolveProject ''site'' d' = Inr (r, False) \<and> p_id r \<noteq> 1))"
proof -
  let ?n = "new_project 0 ''site'' False"
  have name: "p_name ?n = ''site''" "p_id (new_project 1 ''web'' False) = 1" by (simp_all add: new_project_def)
  have get: "ResolveProject (p_name ?n) demo_names = Inr (new_project 1 ''web'' False, True)"
    "GetProjectByName (p_name ?n) demo_names = None" by code_simp+
  from CreateProject_shadows_alias [OF demo_names_ok(3,2) get(2,1), of 7] get(1) name show ?thesis by auto
qed

theorem rename_rewrites_depends_witness:
  "\<exists>d' q'. RenameProject 7 1 ''web'' ''shop'' demo_names = (d', None) \<and> project_by_id 2 d' = Some q'
     \<and> set (DependsOn q') = {''lib'', ''shop''}"
proof -
  let ?q = "(new_project 2 ''api'' False)\<lparr>p_depends := ''lib,web''\<rparr>"
  have p: "project_by_id 1 demo_names = Some (new_project 1 ''web'' False)"
    and free: "NameAvailableTo ''shop'' 1 demo_names"
    and good: "good_name (p_name (new_project 1 ''web'' False))" "good_name ''shop''"
    and q: "project_by_id 2 demo_names = Some ?q" "depends_ok ?q" by code_simp+
  have deps: "DependsOn ?q = [''lib'', ''web'']" by code_simp
  have "p_name (new_project 1 ''web'' False) = ''web''" by (simp add: new_project_def)
  with rename_rewrites_depends [OF demo_names_ok(1) p free good q, of 7] show ?thesis
    by (simp add: deps insert_commute)
qed

section \<open>A rename and the folder rules\<close>

definition demo_folder_db :: db where
  "demo_folder_db = empty_db\<lparr>d_projects := [new_project 1 ''web'' False],
     d_project_vis := [\<lparr>pv_project_id = 1, pv_mode = VisibilityAuto, pv_auto_private = False\<rparr>],
     d_folders := [\<lparr>vf_prefix = ''acme'', vf_mode = VisibilityPrivate\<rparr>]\<rparr>"

text \<open>a rename does not resolve the visibility again: a project renamed into a folder with a
  private rule stays public, until something else resolves it.\<close>

theorem rename_keeps_stale_visibility:
  "NameAvailableTo ''acme/web'' 1 demo_folder_db
   \<and> map p_is_private (d_projects (fst (RenameProject 7 1 ''web'' ''acme/web'' demo_folder_db))) = [False]
   \<and> map (vi_private \<circ> snd) (ListProjectVisibility (fst (RenameProject 7 1 ''web'' ''acme/web'' demo_folder_db))) = [True]
   \<and> map (vi_private \<circ> snd) (ListProjectVisibility demo_folder_db) = [False]"
  by (intro conjI) code_simp+

end
