(* ===== verification/Releases.thy ===== *)
theory Releases
  imports Projects "HOL-Library.Signed_Division"
begin

text \<open>
  Releases: \<open>internal/db/releases.go\<close> with its queries, the version specifications of
  \<open>internal/version/resolve.go\<close>, and the version numbers of \<open>internal/api/releases.go\<close>. A
  version number is a signed 64-bit integer; arithmetic on it wraps, written out as
  \<open>wrap64\<close>. An \<open>ORDER BY version_num DESC\<close> is a stable sort.
\<close>

section \<open>Rows and queries\<close>

definition LatestBranch :: string where "LatestBranch = ''master''"

definition InsertRelease :: "time \<Rightarrow> release \<Rightarrow> db \<Rightarrow> db_error + db \<times> int" where
  "InsertRelease now r d =
     (if list_ex (\<lambda>q. r_project_id q = r_project_id r \<and> r_version q = r_version r) (d_releases d)
      then Inl UniqueViolation
      else if project_by_id (r_project_id r) d = None then Inl ForeignKeyViolation
      else
        (let i = d_release_seq d + 1;
             row = r\<lparr>r_id := i, r_published := False, r_created_at := now, r_published_at := None\<rparr>
         in Inr (d\<lparr>d_releases := d_releases d @ [row], d_release_seq := i\<rparr>, i)))"

text \<open>The family of a project: its name up to the first slash.\<close>

definition family_of :: "string \<Rightarrow> string" where
  "family_of name = (case cut_at (CHR ''/'') name of (root, _, found) \<Rightarrow> if found then root else name)"

definition same_line :: "project \<Rightarrow> project \<Rightarrow> bool" where
  "same_line self p \<longleftrightarrow> p_id p = p_id self \<or>
     (p_versioning self = VersioningAuto \<and> p_versioning p = VersioningAuto \<and>
      (p_name p = family_of (p_name self) \<or> has_prefix (p_name p) (family_of (p_name self) @ ''/'')))"

definition GetMaxVersionNum :: "int \<Rightarrow> db \<Rightarrow> int" where
  "GetMaxVersionNum pid d =
     (case project_by_id pid d of
        None \<Rightarrow> 0
      | Some self \<Rightarrow>
          let nums = map r_version_num (filter (\<lambda>r. case project_by_id (r_project_id r) d of
                        None \<Rightarrow> False | Some p \<Rightarrow> same_line self p) (d_releases d))
          in if nums = [] then 0 else Max (set nums))"

definition by_num_desc :: "release list \<Rightarrow> release list" where
  "by_num_desc rs = sort_key (\<lambda>r. - r_version_num r) rs"

definition first_row :: "'a list \<Rightarrow> 'a option" where
  "first_row xs = (case xs of [] \<Rightarrow> None | x # _ \<Rightarrow> Some x)"

definition GetReleaseByProjectAndVersion :: "int \<Rightarrow> string \<Rightarrow> db \<Rightarrow> release option" where
  "GetReleaseByProjectAndVersion pid v d =
     find_first (\<lambda>r. r_project_id r = pid \<and> r_version r = v) (d_releases d)"

definition ListPublishedReleasesOnDefaultBranch :: "int \<Rightarrow> db \<Rightarrow> release list" where
  "ListPublishedReleasesOnDefaultBranch pid d =
     by_num_desc (filter (\<lambda>r. r_project_id r = pid \<and> r_published r \<and>
       (case project_by_id pid d of None \<Rightarrow> False | Some p \<Rightarrow> r_git_branch r = p_default_branch p)) (d_releases d))"

definition GetLatestPublishedReleaseOnDefaultBranch :: "int \<Rightarrow> db \<Rightarrow> release option" where
  "GetLatestPublishedReleaseOnDefaultBranch pid d = first_row (ListPublishedReleasesOnDefaultBranch pid d)"

definition GetLatestPublishedReleaseByBranch :: "int \<Rightarrow> string \<Rightarrow> db \<Rightarrow> release option" where
  "GetLatestPublishedReleaseByBranch pid branch d =
     first_row (by_num_desc (filter (\<lambda>r. r_project_id r = pid \<and> r_git_branch r = branch \<and> r_published r) (d_releases d)))"

definition ListReleasesByProject :: "int \<Rightarrow> db \<Rightarrow> release list" where
  "ListReleasesByProject pid d = by_num_desc (filter (\<lambda>r. r_project_id r = pid) (d_releases d))"

definition PublishRelease :: "time \<Rightarrow> int \<Rightarrow> db \<Rightarrow> db" where
  "PublishRelease now rid d =
     d\<lparr>d_releases := map (\<lambda>r. if r_id r = rid
          then r\<lparr>r_published := True, r_draft := False, r_published_at := Some now\<rparr> else r) (d_releases d)\<rparr>"

section \<open>Operations\<close>

definition CreateRelease :: "time \<Rightarrow> release \<Rightarrow> release db_op" where
  "CreateRelease now r d =
     (case InsertRelease now r d of
        Inl UniqueViolation \<Rightarrow> (d, Inl (ErrConflict (r_version r)))
      | Inl e \<Rightarrow> (d, Inl e)
      | Inr (d', i) \<Rightarrow> (d', Inr (r\<lparr>r_id := i\<rparr>)))"

definition wrap64 :: "int \<Rightarrow> int" where
  "wrap64 x = (x + 2 ^ 63) mod 2 ^ 64 - 2 ^ 63"

definition NextVersionNum :: "int \<Rightarrow> db \<Rightarrow> int" where
  "NextVersionNum pid d =
     (let maxNum = GetMaxVersionNum pid d in if maxNum = 0 then 1 else wrap64 (maxNum + 1))"

definition GetRelease :: "int \<Rightarrow> string \<Rightarrow> db \<Rightarrow> db_error + release" where
  "GetRelease pid v d =
     (case GetReleaseByProjectAndVersion pid v d of None \<Rightarrow> Inl ErrNotFound | Some r \<Rightarrow> Inr r)"

definition GetLatestRelease :: "int \<Rightarrow> db \<Rightarrow> db_error + release" where
  "GetLatestRelease pid d =
     (case GetLatestPublishedReleaseOnDefaultBranch pid d of None \<Rightarrow> Inl ErrNotFound | Some r \<Rightarrow> Inr r)"

definition GetLatestReleaseByBranch :: "int \<Rightarrow> string \<Rightarrow> db \<Rightarrow> db_error + release" where
  "GetLatestReleaseByBranch pid branch d =
     (case GetLatestPublishedReleaseByBranch pid branch d of None \<Rightarrow> Inl ErrNotFound | Some r \<Rightarrow> Inr r)"

definition ListReleases :: "int \<Rightarrow> db \<Rightarrow> release list" where
  "ListReleases pid d = ListReleasesByProject pid d"

section \<open>Version specifications\<close>

datatype version_error = NoReleases | InvalidVersion string | VersionNotFound string

text \<open>\<open>version.Resolve\<close> over the releases, newest first.\<close>

definition first_with_prefix :: "string \<Rightarrow> release list \<Rightarrow> release option" where
  "first_with_prefix prefix rs =
     find_first (\<lambda>r. has_prefix (trim_prefix (r_version r) ''v'') prefix \<and> \<not> IsPrerelease r) rs"

definition Resolve :: "project \<Rightarrow> string \<Rightarrow> release list \<Rightarrow> version_error + release" where
  "Resolve project spec0 releases =
     (if releases = [] then Inl NoReleases
      else
        (let spec = trim_prefix spec0 ''v'' in
         if spec = ''latest'' \<or> spec = [] then Inr (hd releases)
         else if p_versioning project = VersioningAuto
         then (case parse_int64 spec of
                 None \<Rightarrow> Inl (InvalidVersion spec)
               | Some num \<Rightarrow>
                   (case find_first (\<lambda>r. r_version_num r = num) releases of
                      Some r \<Rightarrow> Inr r
                    | None \<Rightarrow> Inl (VersionNotFound (format_int num))))
         else (case find_first (\<lambda>r. trim_prefix (r_version r) ''v'' = spec) releases of
                 Some r \<Rightarrow> Inr r
               | None \<Rightarrow>
                   (let parts = split_on (CHR ''.'') spec;
                        hit = (if length parts = 1 then first_with_prefix (hd parts @ ''.'') releases
                               else if length parts = 2 then first_with_prefix (spec @ ''.'') releases
                               else None)
                    in case hit of Some r \<Rightarrow> Inr r | None \<Rightarrow> Inl (VersionNotFound spec)))))"

section \<open>Version numbers\<close>

text \<open>The value \<open>strconv.ParseInt\<close> returns beside its error: zero for a malformed number, the
  bound for one out of range.\<close>

definition int_syntax :: "string \<Rightarrow> bool" where
  "int_syntax s =
     (case s of [] \<Rightarrow> False
      | c # cs \<Rightarrow> (let body = (if c = CHR ''-'' \<or> c = CHR ''+'' then cs else s) in
                  body \<noteq> [] \<and> list_all is_digit body))"

definition parse_int64_value :: "string \<Rightarrow> int" where
  "parse_int64_value s =
     (case parse_int64 s of
        Some n \<Rightarrow> n
      | None \<Rightarrow> if \<not> int_syntax s then 0 else if hd s = CHR ''-'' then - (2 ^ 63) else 2 ^ 63 - 1)"

fun semver_loop :: "nat \<Rightarrow> string list \<Rightarrow> int \<Rightarrow> int" where
  "semver_loop i [] num = num"
| "semver_loop i (s # ss) num =
     (if i \<ge> 3 then num
      else
        (let n = parse_int64_value s; n = (if n < 0 then 0 else n) in
         semver_loop (i + 1) ss
           (if i = 0 then wrap64 (num + wrap64 (n * 1000000))
            else if i = 1 then wrap64 (num + wrap64 (n * 1000))
            else wrap64 (num + n))))"

definition semverToNum :: "string \<Rightarrow> int" where
  "semverToNum v =
     (case cut_at (CHR ''-'') v of (core, _, _) \<Rightarrow> semver_loop 0 (split_on (CHR ''.'') core) 0)"

definition numToSemver :: "int \<Rightarrow> string" where
  "numToSemver num =
     format_int (num sdiv 1000000) @ ''.'' @ format_int ((num sdiv 1000) smod 1000) @ ''.'' @
     format_int (num smod 1000)"

text \<open>The run-as user of a synthesized image.\<close>

definition validUserComponent :: "string \<Rightarrow> bool" where
  "validUserComponent s \<longleftrightarrow>
     (if s = [] \<or> length s > 32 then False
      else if list_all is_digit s then length s \<le> 10
      else list_all (\<lambda>c. is_lower c \<or> is_upper c \<or> c = CHR ''_'' \<or> is_digit c \<or> c = CHR ''-'') s
        \<and> \<not> (is_digit (hd s) \<or> hd s = CHR ''-''))"

definition validOCIUser :: "string \<Rightarrow> bool" where
  "validOCIUser s =
     (case cut_at (CHR '':'') s of (user, grp, hasGroup) \<Rightarrow>
      if \<not> validUserComponent user then False else \<not> hasGroup \<or> validUserComponent grp)"

section \<open>The latest release\<close>

lemma first_row_desc:
  assumes "first_row (by_num_desc rs) = Some r"
  shows "r \<in> set rs \<and> (\<forall>q \<in> set rs. r_version_num q \<le> r_version_num r)"
proof -
  let ?s = "sort_key (\<lambda>r. - r_version_num r) rs"
  from assms obtain ys where ys: "?s = r # ys" by (auto simp: first_row_def by_num_desc_def split: list.splits)
  have "sorted (map (\<lambda>r. - r_version_num r) ?s)" by simp
  with ys have "\<forall>q \<in> set ys. - r_version_num r \<le> - r_version_num q" by simp
  moreover have "set rs = insert r (set ys)" by (metis ys set_sort list.simps(15))
  ultimately show ?thesis by auto
qed

lemma first_row_None: "first_row (by_num_desc rs) = None \<longleftrightarrow> rs = []"
proof -
  have "by_num_desc rs = [] \<longleftrightarrow> rs = []" by (metis by_num_desc_def set_empty set_sort)
  then show ?thesis by (auto simp: first_row_def split: list.splits)
qed

definition on_default :: "int \<Rightarrow> db \<Rightarrow> release \<Rightarrow> bool" where
  "on_default pid d r \<longleftrightarrow> r \<in> set (d_releases d) \<and> r_project_id r = pid \<and> r_published r \<and>
     (\<exists>p. project_by_id pid d = Some p \<and> r_git_branch r = p_default_branch p)"

lemma on_default_filter:
  "set (filter (\<lambda>r. r_project_id r = pid \<and> r_published r \<and>
      (case project_by_id pid d of None \<Rightarrow> False | Some p \<Rightarrow> r_git_branch r = p_default_branch p)) (d_releases d))
   = {r. on_default pid d r}"
  by (auto simp: on_default_def split: option.splits)

text \<open>the apex "latest" is a published release on the project's default branch with the
  highest number of those, and it is missing only when there is none; a release on another
  branch, published or not, never changes it.\<close>

theorem GetLatestRelease_default_branch:
  "case GetLatestRelease pid d of
     Inl e \<Rightarrow> e = ErrNotFound \<and> (\<nexists>r. on_default pid d r)
   | Inr r \<Rightarrow> on_default pid d r \<and> (\<nexists>q. on_default pid d q \<and> r_version_num q > r_version_num r)"
proof (cases "GetLatestPublishedReleaseOnDefaultBranch pid d")
  case None
  then have "{r. on_default pid d r} = {}"
    unfolding GetLatestPublishedReleaseOnDefaultBranch_def ListPublishedReleasesOnDefaultBranch_def
      first_row_None on_default_filter [symmetric] by simp
  with None show ?thesis by (simp add: GetLatestRelease_def)
next
  case (Some r)
  from first_row_desc [OF this [unfolded GetLatestPublishedReleaseOnDefaultBranch_def
        ListPublishedReleasesOnDefaultBranch_def]] Some
  show ?thesis unfolding on_default_filter by (auto simp: GetLatestRelease_def not_less)
qed

section \<open>Numbers of the next release\<close>

definition in_line :: "int \<Rightarrow> db \<Rightarrow> release \<Rightarrow> bool" where
  "in_line pid d r \<longleftrightarrow> r \<in> set (d_releases d) \<and>
     (\<exists>self p. project_by_id pid d = Some self \<and> project_by_id (r_project_id r) d = Some p \<and> same_line self p)"

lemma GetMaxVersionNum_upper: "in_line pid d r \<Longrightarrow> r_version_num r \<le> GetMaxVersionNum pid d"
proof -
  assume "in_line pid d r"
  then obtain self p where r: "r \<in> set (d_releases d)" "project_by_id pid d = Some self"
    "project_by_id (r_project_id r) d = Some p" "same_line self p" by (auto simp: in_line_def)
  let ?line = "filter (\<lambda>r. case project_by_id (r_project_id r) d of
    None \<Rightarrow> False | Some p \<Rightarrow> same_line self p) (d_releases d)"
  have "r \<in> set ?line" using r by simp
  then have "r_version_num r \<in> set (map r_version_num ?line)" by (metis image_eqI list.set_map)
  moreover from this have "map r_version_num ?line \<noteq> []" by (metis empty_iff empty_set)
  ultimately have "map r_version_num ?line \<noteq> []" "r_version_num r \<le> Max (set (map r_version_num ?line))"
    by (blast, metis Max_ge finite_set)
  with r(2) show ?thesis by (simp only: GetMaxVersionNum_def Let_def option.case if_False)
qed

text \<open>the number the server picks is above every number of the project's line, that is of
  its own releases and, for auto-numbered projects, of those of its whole family.\<close>

theorem NextVersionNum_fresh:
  assumes "in_line pid d r" and "GetMaxVersionNum pid d < 2 ^ 63 - 1" and "- (2 ^ 63) \<le> GetMaxVersionNum pid d"
  shows "r_version_num r < NextVersionNum pid d"
proof -
  have "wrap64 (GetMaxVersionNum pid d + 1) = GetMaxVersionNum pid d + 1"
    using assms(2,3) by (simp add: wrap64_def)
  with GetMaxVersionNum_upper [OF assms(1)] show ?thesis by (auto simp: NextVersionNum_def Let_def)
qed

section \<open>Resolving a specification\<close>

text \<open>What a specification resolves to is one of the releases; a partial specification
  never yields a pre-release, and for a project with its own version strings an exact match
  wins over a prefix.\<close>

theorem Resolve_sound:
  assumes "Resolve project spec releases = Inr r"
  shows "r \<in> set releases \<and>
    (trim_prefix spec ''v'' \<notin> {''latest'', []} \<longrightarrow> p_versioning project \<noteq> VersioningAuto \<longrightarrow>
       (if \<exists>q \<in> set releases. trim_prefix (r_version q) ''v'' = trim_prefix spec ''v''
        then trim_prefix (r_version r) ''v'' = trim_prefix spec ''v''
        else \<not> IsPrerelease r \<and> has_prefix (trim_prefix (r_version r) ''v'') (trim_prefix spec ''v'' @ ''.'')))"
proof -
  have split1: "hd (split_on c s) = s" if "length (split_on c s) = 1" for c s
    using that join_split [of c s] by (cases "split_on c s") auto
  show ?thesis
    using assms
    by (auto simp: Resolve_def Let_def first_with_prefix_def find_first_None split1
        split: if_splits option.splits dest!: find_first_Some)
qed

section \<open>Version strings and numbers\<close>

lemma format_nonneg: "0 \<le> k \<Longrightarrow> format_int k = format_nat (nat k)"
  by (simp add: format_int_def)

lemma format_int_chars:
  assumes "0 \<le> k" "c \<in> set (format_int k)"
  shows "is_digit c" "c \<noteq> CHR ''-''" "c \<noteq> CHR ''.''"
  using assms format_nat_digits [of c "nat k"] by (auto simp: format_nonneg is_digit_def)

lemma parse_value_format: "0 \<le> k \<Longrightarrow> k < 2 ^ 63 \<Longrightarrow> parse_int64_value (format_int k) = k"
  by (simp add: parse_int64_value_def parse_format_int)

definition dotted :: "int \<Rightarrow> int \<Rightarrow> int \<Rightarrow> string" where
  "dotted a b c = format_int a @ ''.'' @ format_int b @ ''.'' @ format_int c"

lemma split_dotted:
  assumes "0 \<le> a" "0 \<le> b" "0 \<le> c"
  shows "split_on (CHR ''.'') (dotted a b c) = [format_int a, format_int b, format_int c]"
    "CHR ''-'' \<notin> set (dotted a b c)"
proof -
  have free: "CHR ''.'' \<notin> set (format_int k)" "CHR ''-'' \<notin> set (format_int k)" if "0 \<le> k" for k
    using format_int_chars [OF that] by blast+
  show "split_on (CHR ''.'') (dotted a b c) = [format_int a, format_int b, format_int c]"
    using assms free by (simp add: dotted_def split_on_append split_on_free)
  show "CHR ''-'' \<notin> set (dotted a b c)" using assms free by (auto simp: dotted_def)
qed

lemma wrap64_id: "- (2 ^ 63) \<le> x \<Longrightarrow> x < 2 ^ 63 \<Longrightarrow> wrap64 x = x"
  by (simp add: wrap64_def)

lemma semverToNum_dotted:
  assumes "0 \<le> a" "0 \<le> b" "0 \<le> c" "a * 1000000 + b * 1000 + c < 2 ^ 63"
  shows "semverToNum (dotted a b c) = a * 1000000 + b * 1000 + c"
proof -
  have small: "a < 2 ^ 63" "b < 2 ^ 63" "c < 2 ^ 63" using assms by linarith+
  have wraps: "wrap64 (a * 1000000) = a * 1000000" "wrap64 (b * 1000) = b * 1000"
    "wrap64 (a * 1000000 + b * 1000) = a * 1000000 + b * 1000"
    "wrap64 (a * 1000000 + b * 1000 + c) = a * 1000000 + b * 1000 + c"
    using assms by (auto intro!: wrap64_id)
  have "cut_at (CHR ''-'') (dotted a b c) = (dotted a b c, [], False)"
    using split_dotted(2) [OF assms(1-3)] by (rule cut_at_none)
  with assms small wraps show ?thesis
    by (simp add: semverToNum_def split_dotted(1) parse_value_format Let_def)
qed

lemma sdiv_nonneg: "0 \<le> x \<Longrightarrow> 0 < k \<Longrightarrow> x sdiv k = x div k" "0 \<le> x \<Longrightarrow> 0 < k \<Longrightarrow> x smod k = x mod k"
  for x k :: int
  by (cases "x = 0"; simp add: signed_divide_int_def signed_modulo_int_def)+

lemma numToSemver_dotted:
  "0 \<le> n \<Longrightarrow> numToSemver n = dotted (n div 1000000) (n div 1000 mod 1000) (n mod 1000)"
  by (simp add: numToSemver_def dotted_def sdiv_nonneg pos_imp_zdiv_nonneg_iff)

lemma thousands:
  fixes n a b c :: int
  shows "n div 1000000 * 1000000 + n div 1000 mod 1000 * 1000 + n mod 1000 = n"
    and "0 \<le> b \<Longrightarrow> b < 1000 \<Longrightarrow> 0 \<le> c \<Longrightarrow> c < 1000 \<Longrightarrow> (a * 1000000 + b * 1000 + c) div 1000000 = a"
    and "0 \<le> b \<Longrightarrow> b < 1000 \<Longrightarrow> 0 \<le> c \<Longrightarrow> c < 1000 \<Longrightarrow> (a * 1000000 + b * 1000 + c) div 1000 mod 1000 = b"
    and "0 \<le> c \<Longrightarrow> c < 1000 \<Longrightarrow> (a * 1000000 + b * 1000 + c) mod 1000 = c"
proof -
  have two: "x div 1000000 = x div 1000 div 1000" for x :: int
    using zdiv_zmult2_eq [of 1000 x 1000] by simp
  have "n div 1000 div 1000 * 1000 + n div 1000 mod 1000 = n div 1000" "n div 1000 * 1000 + n mod 1000 = n"
    by (rule div_mult_mod_eq)+
  then show "n div 1000000 * 1000000 + n div 1000 mod 1000 * 1000 + n mod 1000 = n" unfolding two by linarith
  have eq: "a * 1000000 + b * 1000 + c = c + (a * 1000 + b) * 1000" by simp
  have one: "(a * 1000000 + b * 1000 + c) div 1000 = b + a * 1000" if "0 \<le> c" "c < 1000"
    unfolding eq using that by (subst div_mult_self1) (simp_all add: div_pos_pos_trivial)
  show "(a * 1000000 + b * 1000 + c) mod 1000 = c" if "0 \<le> c" "c < 1000"
    unfolding eq using that by (subst mod_mult_self1) (simp add: mod_pos_pos_trivial)
  show "(a * 1000000 + b * 1000 + c) div 1000 mod 1000 = b" if "0 \<le> b" "b < 1000" "0 \<le> c" "c < 1000"
    using that by (simp add: one mod_pos_pos_trivial)
  show "(a * 1000000 + b * 1000 + c) div 1000000 = a" if "0 \<le> b" "b < 1000" "0 \<le> c" "c < 1000"
    unfolding two using that by (simp add: one div_pos_pos_trivial)
qed

text \<open>The version string made from a number stands for that number again, and a string of
  three components below 1000 (the first below the overflow) stands for a number that
  prints as the same string; between such strings the numbers are ordered as the versions.\<close>

theorem semver_numbers:
  assumes "0 \<le> n" "n < 2 ^ 63" and "0 \<le> a" "a < 9223372036854" and "0 \<le> b" "b < 1000" and "0 \<le> c" "c < 1000"
  shows "semverToNum (numToSemver n) = n \<and> numToSemver (semverToNum (dotted a b c)) = dotted a b c
    \<and> (\<forall>a' b' c'. 0 \<le> a' \<and> a' < 9223372036854 \<and> 0 \<le> b' \<and> b' < 1000 \<and> 0 \<le> c' \<and> c' < 1000 \<longrightarrow>
         (semverToNum (dotted a b c) < semverToNum (dotted a' b' c') \<longleftrightarrow>
            a < a' \<or> a = a' \<and> (b < b' \<or> b = b' \<and> c < c')))"
proof (intro conjI allI impI)
  show "semverToNum (numToSemver n) = n"
    using assms(1,2) by (simp add: numToSemver_dotted semverToNum_dotted thousands pos_imp_zdiv_nonneg_iff)
  have num: "semverToNum (dotted x y z) = x * 1000000 + y * 1000 + z"
    if "0 \<le> x \<and> x < 9223372036854 \<and> 0 \<le> y \<and> y < 1000 \<and> 0 \<le> z \<and> z < 1000" for x y z
    using that by (intro semverToNum_dotted) auto
  from assms show "numToSemver (semverToNum (dotted a b c)) = dotted a b c"
    by (simp add: num numToSemver_dotted thousands)
  fix a' b' c' :: int
  assume "0 \<le> a' \<and> a' < 9223372036854 \<and> 0 \<le> b' \<and> b' < 1000 \<and> 0 \<le> c' \<and> c' < 1000"
  with assms show "semverToNum (dotted a b c) < semverToNum (dotted a' b' c') \<longleftrightarrow>
            a < a' \<or> a = a' \<and> (b < b' \<or> b = b' \<and> c < c')"
    by (simp add: num) linarith
qed

text \<open>Without the bound on the components the numbers collide: a patch of 1000 counts as
  the next minor version, a pre-release as its release, and a large major version wraps to a
  negative number.\<close>

theorem semver_collisions:
  "semverToNum ''1.2.1000'' = semverToNum ''1.3.0'' \<and> numToSemver (semverToNum ''1.2.1000'') = ''1.3.0''
   \<and> semverToNum ''1.2.0-rc1'' = semverToNum ''1.2.0''
   \<and> semverToNum ''9300000000000.0.0'' < semverToNum ''1.0.0''"
  by (intro conjI) code_simp+

section \<open>Concrete instances\<close>

theorem semver_numbers_witness:
  "semverToNum (numToSemver 2003004) = 2003004
   \<and> semverToNum (dotted 1 9 9) < semverToNum (dotted 1 10 0)"
  using semver_numbers [of 2003004 1 9 9] by simp

definition demo_release :: "int \<Rightarrow> string \<Rightarrow> int \<Rightarrow> string \<Rightarrow> bool \<Rightarrow> release" where
  "demo_release i v num branch pub = \<lparr>r_id = i, r_project_id = 1, r_version = v, r_version_num = num,
     r_git_branch = branch, r_git_commit = [], r_notes = [], r_oci_user = [], r_published = pub,
     r_draft = False, r_created_at = 0, r_published_at = None\<rparr>"

definition demo_rel_db :: db where
  "demo_rel_db = empty_db\<lparr>d_projects := [new_project 1 ''web'' False],
     d_releases := [demo_release 1 ''41'' 41 ''master'' True, demo_release 2 ''42'' 42 ''dev'' True]\<rparr>"

theorem NextVersionNum_fresh_witness:
  "NextVersionNum 1 demo_rel_db = 43
   \<and> r_version_num (demo_release 2 ''42'' 42 ''dev'' True) < NextVersionNum 1 demo_rel_db"
proof -
  let ?r = "demo_release 2 ''42'' 42 ''dev'' True"
  have "project_by_id 1 demo_rel_db = Some (new_project 1 ''web'' False)"
    "r_project_id ?r = 1" "?r \<in> set (d_releases demo_rel_db)" by code_simp+
  moreover have "same_line (new_project 1 ''web'' False) (new_project 1 ''web'' False)" by code_simp
  ultimately have line: "in_line 1 demo_rel_db ?r" unfolding in_line_def by auto
  have m: "GetMaxVersionNum 1 demo_rel_db = 42" by code_simp
  have "NextVersionNum 1 demo_rel_db = 43" by code_simp
  with NextVersionNum_fresh [OF line] m show ?thesis by simp
qed

theorem Resolve_sound_witness:
  "Resolve ((new_project 1 ''web'' False)\<lparr>p_versioning := VersioningSemver\<rparr>) ''v1''
     [demo_release 3 ''1.3.0-rc1'' 1003000 ''master'' True, demo_release 2 ''1.2.0'' 1002000 ''master'' True]
     = Inr (demo_release 2 ''1.2.0'' 1002000 ''master'' True)
   \<and> \<not> IsPrerelease (demo_release 2 ''1.2.0'' 1002000 ''master'' True)"
proof -
  let ?p = "(new_project 1 ''web'' False)\<lparr>p_versioning := VersioningSemver\<rparr>"
  let ?rs = "[demo_release 3 ''1.3.0-rc1'' 1003000 ''master'' True, demo_release 2 ''1.2.0'' 1002000 ''master'' True]"
  have res: "Resolve ?p ''v1'' ?rs = Inr (demo_release 2 ''1.2.0'' 1002000 ''master'' True)" by code_simp
  moreover have "trim_prefix ''v1'' ''v'' \<notin> {''latest'', []}" "p_versioning ?p \<noteq> VersioningAuto"
    "\<not> (\<exists>q \<in> set ?rs. trim_prefix (r_version q) ''v'' = trim_prefix ''v1'' ''v'')" by code_simp+
  ultimately show ?thesis using Resolve_sound [OF res] by meson
qed

end
