(* ===== verification/Evict.thy ===== *)
theory Evict
  imports Releases
begin

text \<open>
  Forgetting releases: \<open>internal/db/retention.go\<close> and the queries of
  \<open>internal/db/retention.sql.go\<close> it runs. Releases are deleted with their child rows in a
  transaction per batch; a blob is freed when no row of any table refers to its key
  afterwards. The foreign keys of the schema are enforced: a row cannot be deleted while
  another one refers to it.
\<close>

section \<open>Queries\<close>

definition SecondNs :: int where "SecondNs = 1000000000"

text \<open>\<open>sqliteDatetime\<close>: the text format of the database has whole seconds, and text in this
  format compares as the times do.\<close>

definition sqliteDatetime :: "time \<Rightarrow> time" where
  "sqliteDatetime t = t div SecondNs * SecondNs"

definition IsBlobReferenced :: "string \<Rightarrow> db \<Rightarrow> bool" where
  "IsBlobReferenced key d \<longleftrightarrow>
     list_ex (\<lambda>a. a_storage_key a = key \<or> a_stripped_storage_key a = key \<or> a_debug_storage_key a = key) (d_artifacts d)
   \<or> list_ex (\<lambda>k. k_storage_key k = key) (d_packaged d)
   \<or> list_ex (\<lambda>s. site_storage_key s = key) (d_sites d)
   \<or> list_ex (\<lambda>l. ol_storage_key l = key) (d_oci_links d)
   \<or> list_ex (\<lambda>v. gv_zip_storage_key v = key) (d_goproxy_versions d) \<or> list_ex (\<lambda>f. rf_storage_key f = key) (d_run_files d)
   \<or> list_ex (\<lambda>e. ce_storage_key e = key) (d_cache_entries d) \<or> list_ex (\<lambda>b. mb_storage_key b = key) (d_mirror_blobs d)"

definition release_artifacts :: "int \<Rightarrow> db \<Rightarrow> artifact list" where
  "release_artifacts rid d = filter (\<lambda>a. a_release_id a = rid) (d_artifacts d)"

definition artifact_of_release :: "int \<Rightarrow> db \<Rightarrow> int \<Rightarrow> bool" where
  "artifact_of_release rid d aid \<longleftrightarrow> list_ex (\<lambda>a. a_id a = aid) (release_artifacts rid d)"

definition ListReleaseBlobKeys :: "int \<Rightarrow> db \<Rightarrow> (string \<times> int) list" where
  "ListReleaseBlobKeys rid d =
     remdups (filter (\<lambda>(k, _). k \<noteq> [])
       (map (\<lambda>a. (a_storage_key a, a_size a)) (release_artifacts rid d) @
        map (\<lambda>a. (a_stripped_storage_key a, a_stripped_size a)) (release_artifacts rid d) @
        map (\<lambda>a. (a_debug_storage_key a, a_debug_size a)) (release_artifacts rid d) @
        map (\<lambda>k. (k_storage_key k, k_size k)) (filter (\<lambda>k. artifact_of_release rid d (k_artifact_id k)) (d_packaged d))))"

definition DeleteReleasePackagedArtifacts :: "int \<Rightarrow> db \<Rightarrow> db" where
  "DeleteReleasePackagedArtifacts rid d =
     d\<lparr>d_packaged := filter (\<lambda>k. \<not> artifact_of_release rid d (k_artifact_id k)) (d_packaged d)\<rparr>"

definition DeleteReleaseDownloadCounts :: "int \<Rightarrow> db \<Rightarrow> db" where
  "DeleteReleaseDownloadCounts rid d =
     d\<lparr>d_counts := filter (\<lambda>(aid, _). \<not> artifact_of_release rid d aid) (d_counts d)\<rparr>"

definition DeleteReleaseOCITags :: "int \<Rightarrow> db \<Rightarrow> db" where
  "DeleteReleaseOCITags rid d = d\<lparr>d_oci_tags := filter (\<lambda>t. ot_release_id t \<noteq> rid) (d_oci_tags d)\<rparr>"

definition DeleteReleaseArtifactPlatforms :: "int \<Rightarrow> db \<Rightarrow> db" where
  "DeleteReleaseArtifactPlatforms rid d =
     d\<lparr>d_platforms := filter (\<lambda>p. ap_release_id p \<noteq> rid) (d_platforms d)\<rparr>"

text \<open>Deleting artifacts fails while a packaged artifact, a platform row, a download count or a
  download event refers to one of them.\<close>

definition DeleteReleaseArtifacts :: "int \<Rightarrow> db \<Rightarrow> db_error + db" where
  "DeleteReleaseArtifacts rid d =
     (if list_ex (\<lambda>k. artifact_of_release rid d (k_artifact_id k)) (d_packaged d)
       \<or> list_ex (\<lambda>p. artifact_of_release rid d (ap_artifact_id p)) (d_platforms d)
       \<or> list_ex (\<lambda>(aid, _). artifact_of_release rid d aid) (d_counts d)
       \<or> list_ex (\<lambda>e. artifact_of_release rid d (ev_artifact_id e)) (d_events d)
      then Inl ForeignKeyViolation
      else Inr (d\<lparr>d_artifacts := filter (\<lambda>a. a_release_id a \<noteq> rid) (d_artifacts d)\<rparr>))"

text \<open>The row of a release goes with its visibility override (a cascade).\<close>

definition DeleteReleaseRow :: "int \<Rightarrow> db \<Rightarrow> db_error + db" where
  "DeleteReleaseRow rid d =
     (if list_ex (\<lambda>r. r_id r = rid) (d_releases d) \<and>
         (list_ex (\<lambda>a. a_release_id a = rid) (d_artifacts d)
          \<or> list_ex (\<lambda>p. ap_release_id p = rid) (d_platforms d)
          \<or> list_ex (\<lambda>t. ot_release_id t = rid) (d_oci_tags d))
      then Inl ForeignKeyViolation
      else Inr (d\<lparr>d_releases := filter (\<lambda>r. r_id r \<noteq> rid) (d_releases d),
                 d_release_vis := (if list_ex (\<lambda>r. r_id r = rid) (d_releases d)
                    then filter (\<lambda>v. rv_release_id v \<noteq> rid) (d_release_vis d) else d_release_vis d)\<rparr>))"

text \<open>The releases of a branch published after \<open>r\<close>.\<close>

definition newer_published :: "release \<Rightarrow> db \<Rightarrow> nat" where
  "newer_published r d = length (filter (\<lambda>q. r_project_id q = r_project_id r \<and> r_git_branch q = r_git_branch r
     \<and> r_published q \<and> r_version_num q > r_version_num r) (d_releases d))"

definition evictable :: "int \<Rightarrow> time \<Rightarrow> db \<Rightarrow> release \<Rightarrow> bool" where
  "evictable keepN cutoff d r \<longleftrightarrow>
     project_by_id (r_project_id r) d \<noteq> None \<and> r_published r \<and> r_created_at r < cutoff
   \<and> \<not> list_ex (\<lambda>t. ot_release_id t = r_id r) (d_oci_tags d)
   \<and> \<not> list_ex (\<lambda>a. a_release_id a = r_id r \<and> a_kind a = KindDocker) (d_artifacts d)
   \<and> int (newer_published r d) \<ge> max keepN 1"

definition ListEvictableReleases :: "int \<Rightarrow> time \<Rightarrow> db \<Rightarrow> release list" where
  "ListEvictableReleases keepN recencyCutoff d =
     sort_key r_project_id (sort_key r_git_branch (by_num_desc
       (filter (evictable keepN (sqliteDatetime recencyCutoff) d) (d_releases d))))"

definition ListAbandonedReleases :: "time \<Rightarrow> db \<Rightarrow> release list" where
  "ListAbandonedReleases cutoff d =
     filter (\<lambda>r. project_by_id (r_project_id r) d \<noteq> None \<and> \<not> r_published r \<and> \<not> r_draft r
       \<and> r_created_at r < sqliteDatetime cutoff) (d_releases d)"

text \<open>Releases with their project's name, repository and default branch.\<close>

definition ListNonDefaultBranchReleases :: "time \<Rightarrow> db \<Rightarrow> (project \<times> release) list" where
  "ListNonDefaultBranchReleases cutoff d =
     sort_key (\<lambda>(p, r). p_name p) (sort_key (\<lambda>(p, r). r_git_branch r) (sort_key (\<lambda>(p, r). - r_version_num r)
       (concat (map (\<lambda>r. case project_by_id (r_project_id r) d of
            None \<Rightarrow> []
          | Some p \<Rightarrow> if r_git_branch r \<noteq> [] \<and> r_git_branch r \<noteq> p_default_branch p \<and> p_github_repo p \<noteq> []
                         \<and> r_created_at r < sqliteDatetime cutoff then [(p, r)] else []) (d_releases d)))))"

section \<open>Eviction\<close>

definition GetRetentionSettings :: "db \<Rightarrow> int \<times> int" where
  "GetRetentionSettings d = (case d_retention d of None \<Rightarrow> (10, 24) | Some s \<Rightarrow> s)"

definition SeedRetentionSettings :: "int \<Rightarrow> int \<Rightarrow> db \<Rightarrow> db" where
  "SeedRetentionSettings keepN hours d =
     (case d_retention d of None \<Rightarrow> d\<lparr>d_retention := Some (keepN, hours)\<rparr> | Some _ \<Rightarrow> d)"

definition UpdateRetentionSettings :: "int \<Rightarrow> int \<Rightarrow> db \<Rightarrow> db" where
  "UpdateRetentionSettings keepN hours d = d\<lparr>d_retention := Some (keepN, hours)\<rparr>"

definition deleteReleaseRows :: "int \<Rightarrow> db \<Rightarrow> db_error + db" where
  "deleteReleaseRows rid d =
     (let d1 = DeleteReleasePackagedArtifacts rid d;
          d2 = DeleteReleaseDownloadCounts rid d1;
          d3 = DeleteReleaseOCITags rid d2;
          d4 = DeleteReleaseArtifactPlatforms rid d3
      in bind_res (DeleteReleaseArtifacts rid d4) (DeleteReleaseRow rid))"

text \<open>The candidates: each key with the greatest size recorded for it. A row whose size is not
  above the one recorded so far, zero for an absent key, changes nothing.\<close>

definition note_candidate :: "(string \<times> int) list \<Rightarrow> string \<times> int \<Rightarrow> (string \<times> int) list" where
  "note_candidate cand row =
     (case row of (k, sz) \<Rightarrow>
      if k = [] then cand
      else if sz > (case map_of cand k of None \<Rightarrow> 0 | Some s \<Rightarrow> s) then AList.update k sz cand
      else cand)"

fun evict_loop :: "int list \<Rightarrow> (string \<times> int) list \<Rightarrow> db \<Rightarrow> db_error + (string \<times> int) list \<times> db" where
  "evict_loop [] cand d = Inr (cand, d)"
| "evict_loop (rid # rids) cand d =
     bind_res (deleteReleaseRows rid d)
       (\<lambda>d'. evict_loop rids (foldl note_candidate cand (ListReleaseBlobKeys rid d)) d')"

definition freed_of :: "(string \<times> int) list \<Rightarrow> db \<Rightarrow> (string \<times> int) list" where
  "freed_of cand d = sort_key fst (filter (\<lambda>(k, _). \<not> IsBlobReferenced k d) cand)"

definition evictBatch :: "int list \<Rightarrow> bool \<Rightarrow> db \<Rightarrow> db \<times> (db_error + (string \<times> int) list \<times> (string \<times> int) list)" where
  "evictBatch rids commit d =
     (case evict_loop rids [] d of
        Inl e \<Rightarrow> (d, Inl e)
      | Inr (cand, d') \<Rightarrow> (if commit then d' else d, Inr (freed_of cand d', cand)))"

definition evictBatchSize :: nat where "evictBatchSize = 25"

text \<open>The loop over the batches: the blobs freed so far, the keys seen, and the error that
  stopped it.\<close>

function evict_batches :: "int list \<Rightarrow> (string \<times> int) list \<Rightarrow> string list \<Rightarrow> db
    \<Rightarrow> db \<times> (string \<times> int) list \<times> string list \<times> db_error option" where
  "evict_batches rids freed seen d =
     (if rids = [] then (d, freed, seen, None)
      else case evictBatch (take evictBatchSize rids) True d of
        (d', Inl e) \<Rightarrow> (d', freed, seen, Some e)
      | (d', Inr (part, cand)) \<Rightarrow>
          evict_batches (drop evictBatchSize rids) (freed @ part) (remdups (seen @ map fst cand)) d')"
  by pat_completeness auto

termination evict_batches
  by (relation "measure (\<lambda>(rids, freed, seen, d). length rids)") (auto simp: evictBatchSize_def)

declare evict_batches.simps [simp del]

definition EvictReleases :: "int list \<Rightarrow> bool \<Rightarrow> db \<Rightarrow> db \<times> (string \<times> int) list \<times> nat \<times> db_error option" where
  "EvictReleases rids commit d =
     (if rids = [] then (d, [], 0, None)
      else if \<not> commit then
        (case evictBatch rids False d of
           (d', Inl e) \<Rightarrow> (d', [], 0, Some e)
         | (d', Inr (freed, cand)) \<Rightarrow> (d', freed, length cand, None))
      else
        (case evict_batches rids [] [] d of
           (d', freed, seen, None) \<Rightarrow> (d', sort_key fst freed, length seen, None)
         | (d', freed, seen, Some e) \<Rightarrow> (d', freed, length seen, Some e)))"

section \<open>What deleting a release does\<close>

lemma artifact_of_release_frame [simp]:
  "artifact_of_release rid (d\<lparr>d_packaged := x\<rparr>) = artifact_of_release rid d"
  "artifact_of_release rid (d\<lparr>d_counts := c\<rparr>) = artifact_of_release rid d"
  "artifact_of_release rid (d\<lparr>d_oci_tags := t\<rparr>) = artifact_of_release rid d"
  "artifact_of_release rid (d\<lparr>d_platforms := y\<rparr>) = artifact_of_release rid d"
  by (simp_all add: fun_eq_iff artifact_of_release_def release_artifacts_def)

definition forget :: "int \<Rightarrow> db \<Rightarrow> db" where
  "forget rid d = d\<lparr>
     d_packaged := filter (\<lambda>k. \<not> artifact_of_release rid d (k_artifact_id k)) (d_packaged d),
     d_counts := filter (\<lambda>(aid, _). \<not> artifact_of_release rid d aid) (d_counts d),
     d_oci_tags := filter (\<lambda>t. ot_release_id t \<noteq> rid) (d_oci_tags d),
     d_platforms := filter (\<lambda>p. ap_release_id p \<noteq> rid) (d_platforms d),
     d_artifacts := filter (\<lambda>a. a_release_id a \<noteq> rid) (d_artifacts d),
     d_releases := filter (\<lambda>r. r_id r \<noteq> rid) (d_releases d),
     d_release_vis := (if list_ex (\<lambda>r. r_id r = rid) (d_releases d)
       then filter (\<lambda>v. rv_release_id v \<noteq> rid) (d_release_vis d) else d_release_vis d)\<rparr>"

lemma DeleteReleaseArtifacts_ok:
  "DeleteReleaseArtifacts rid d = Inr d' \<Longrightarrow> d' = d\<lparr>d_artifacts := filter (\<lambda>a. a_release_id a \<noteq> rid) (d_artifacts d)\<rparr>"
  unfolding DeleteReleaseArtifacts_def by (metis Inl_Inr_False sum.inject(2))

lemma DeleteReleaseRow_ok:
  "DeleteReleaseRow rid d = Inr d' \<Longrightarrow> d' = d\<lparr>d_releases := filter (\<lambda>r. r_id r \<noteq> rid) (d_releases d),
     d_release_vis := (if list_ex (\<lambda>r. r_id r = rid) (d_releases d)
        then filter (\<lambda>v. rv_release_id v \<noteq> rid) (d_release_vis d) else d_release_vis d)\<rparr>"
  unfolding DeleteReleaseRow_def by (metis Inl_Inr_False sum.inject(2))

lemma deleteReleaseRows_ok:
  assumes "deleteReleaseRows rid d = Inr d'"
  shows "d' = forget rid d"
proof -
  from assms obtain d5 where
    "DeleteReleaseArtifacts rid (DeleteReleaseArtifactPlatforms rid (DeleteReleaseOCITags rid
       (DeleteReleaseDownloadCounts rid (DeleteReleasePackagedArtifacts rid d)))) = Inr d5"
    "DeleteReleaseRow rid d5 = Inr d'"
    by (auto simp: deleteReleaseRows_def Let_def bind_res_Inr)
  note eqs = DeleteReleaseArtifacts_ok [OF this(1)] DeleteReleaseRow_ok [OF this(2)]
  show ?thesis
    unfolding eqs DeleteReleaseArtifactPlatforms_def DeleteReleaseOCITags_def
      DeleteReleaseDownloadCounts_def DeleteReleasePackagedArtifacts_def forget_def
    by simp
qed

definition listed :: "int \<Rightarrow> db \<Rightarrow> string set" where
  "listed rid d = fst ` set (ListReleaseBlobKeys rid d)"

lemma listed_iff:
  "k \<in> listed rid d \<longleftrightarrow> k \<noteq> [] \<and>
     ((\<exists>a \<in> set (d_artifacts d). a_release_id a = rid \<and>
         (a_storage_key a = k \<or> a_stripped_storage_key a = k \<or> a_debug_storage_key a = k))
      \<or> (\<exists>x \<in> set (d_packaged d). artifact_of_release rid d (k_artifact_id x) \<and> k_storage_key x = k))"
proof -
  have eq: "fst ` {x \<in> S. case x of (k, _) \<Rightarrow> k \<noteq> []} = {k \<in> fst ` S. k \<noteq> []}" for S :: "(string \<times> int) set"
    by force
  show ?thesis
    by (auto simp: listed_def ListReleaseBlobKeys_def release_artifacts_def eq image_Un image_image)
qed

lemma forget_unreferences:
  "IsBlobReferenced k d \<Longrightarrow> \<not> IsBlobReferenced k (forget rid d) \<Longrightarrow> k \<noteq> [] \<Longrightarrow> k \<in> listed rid d"
  by (auto simp: IsBlobReferenced_def forget_def listed_iff list_ex_iff)

lemma listed_referenced: "k \<in> listed rid d \<Longrightarrow> IsBlobReferenced k d"
  by (auto simp: IsBlobReferenced_def listed_iff list_ex_iff)

lemma forget_referenced: "IsBlobReferenced k (forget rid d) \<Longrightarrow> IsBlobReferenced k d"
  by (auto simp: IsBlobReferenced_def forget_def list_ex_iff)

section \<open>Recorded sizes\<close>

definition blob_rows :: "db \<Rightarrow> (string \<times> int) list" where
  "blob_rows d = concat (map (\<lambda>a. [(a_storage_key a, a_size a), (a_stripped_storage_key a, a_stripped_size a),
       (a_debug_storage_key a, a_debug_size a)]) (d_artifacts d))
     @ map (\<lambda>k. (k_storage_key k, k_size k)) (d_packaged d)"

text \<open>The rows that name a blob agree on its size, and no stored blob is empty.\<close>

definition sizes_ok :: "(string \<Rightarrow> int) \<Rightarrow> db \<Rightarrow> bool" where
  "sizes_ok f d \<longleftrightarrow> (\<forall>(k, sz) \<in> set (blob_rows d). k \<noteq> [] \<longrightarrow> sz = f k \<and> 0 < f k)"

lemma sizes_ok_forget: "sizes_ok f d \<Longrightarrow> sizes_ok f (forget rid d)"
  by (auto simp: sizes_ok_def blob_rows_def forget_def)

lemma ListReleaseBlobKeys_rows:
  "sizes_ok f d \<Longrightarrow> \<forall>(k, sz) \<in> set (ListReleaseBlobKeys rid d). k \<noteq> [] \<and> sz = f k \<and> 0 < f k"
  by (fastforce simp: sizes_ok_def blob_rows_def ListReleaseBlobKeys_def release_artifacts_def)

definition cand_ok :: "(string \<Rightarrow> int) \<Rightarrow> (string \<times> int) list \<Rightarrow> bool" where
  "cand_ok f cand \<longleftrightarrow> distinct (map fst cand) \<and> (\<forall>(k, sz) \<in> set cand. sz = f k)"

lemma cand_ok_map: "cand_ok f cand \<Longrightarrow> cand = map (\<lambda>k. (k, f k)) (map fst cand)"
  by (induction cand) (auto simp: cand_ok_def)

lemma cand_ok_lookup: "cand_ok f cand \<Longrightarrow> map_of cand k = (if k \<in> fst ` set cand then Some (f k) else None)"
  by (auto simp: cand_ok_def map_of_eq_None_iff)

lemma note_candidate_spec:
  assumes "cand_ok f cand" "k \<noteq> []" "0 < f k"
  shows "cand_ok f (note_candidate cand (k, f k))"
    "fst ` set (note_candidate cand (k, f k)) = insert k (fst ` set cand)"
proof -
  have upd: "set (AList.update k (f k) cand) \<subseteq> insert (k, f k) (set cand)" by (induction cand) auto
  show "cand_ok f (note_candidate cand (k, f k))"
    using assms upd by (auto simp: note_candidate_def cand_ok_def distinct_update split: option.split)
  show "fst ` set (note_candidate cand (k, f k)) = insert k (fst ` set cand)"
    using assms by (auto simp: note_candidate_def cand_ok_lookup al_simps)
qed

lemma note_candidates_spec:
  assumes "cand_ok f cand" "\<forall>(k, sz) \<in> set rows. k \<noteq> [] \<and> sz = f k \<and> 0 < f k"
  shows "cand_ok f (foldl note_candidate cand rows) \<and>
    fst ` set (foldl note_candidate cand rows) = fst ` set cand \<union> fst ` set rows"
  using assms
proof (induction rows arbitrary: cand)
  case Nil
  then show ?case by simp
next
  case (Cons r rows)
  obtain k sz where r: "r = (k, sz)" by fastforce
  with Cons.prems have "k \<noteq> []" "sz = f k" "0 < f k" by auto
  with note_candidate_spec [OF Cons.prems(1), of k] Cons r show ?case by auto
qed

section \<open>Batches\<close>

lemma evict_loop_append:
  "evict_loop (xs @ ys) cand d = bind_res (evict_loop xs cand d) (\<lambda>(c, d'). evict_loop ys c d')"
  by (induction xs cand d rule: evict_loop.induct)
    (auto simp: bind_res_def split: sum.split)

lemma evict_loop_referenced:
  "evict_loop rids cand d = Inr (cand', d') \<Longrightarrow> IsBlobReferenced k d' \<Longrightarrow> IsBlobReferenced k d"
  by (induction rids cand d rule: evict_loop.induct)
    (auto simp: bind_res_Inr dest: deleteReleaseRows_ok forget_referenced)

lemma evict_loop_sizes: "evict_loop rids cand d = Inr (cand', d') \<Longrightarrow> sizes_ok f d \<Longrightarrow> sizes_ok f d'"
  by (induction rids cand d rule: evict_loop.induct)
    (auto simp: bind_res_Inr dest!: deleteReleaseRows_ok intro: sizes_ok_forget)

lemma evict_loop_cand:
  assumes "evict_loop rids cand d = Inr (cand', d')" "cand_ok f cand" "sizes_ok f d"
  shows "cand_ok f cand' \<and> fst ` set cand \<subseteq> fst ` set cand'
    \<and> (\<forall>k \<in> fst ` set cand' - fst ` set cand. k \<noteq> [] \<and> IsBlobReferenced k d)
    \<and> (\<forall>k. k \<noteq> [] \<longrightarrow> IsBlobReferenced k d \<longrightarrow> \<not> IsBlobReferenced k d' \<longrightarrow> k \<in> fst ` set cand')"
  using assms
proof (induction rids arbitrary: cand d)
  case Nil
  then show ?case by simp
next
  case (Cons rid rids)
  let ?c = "foldl note_candidate cand (ListReleaseBlobKeys rid d)"
  from Cons.prems(1) obtain d1 where d1: "deleteReleaseRows rid d = Inr d1" "evict_loop rids ?c d1 = Inr (cand', d')"
    by (auto simp: bind_res_Inr)
  have fd: "d1 = forget rid d" by (rule deleteReleaseRows_ok [OF d1(1)])
  have c: "cand_ok f ?c" "fst ` set ?c = fst ` set cand \<union> listed rid d"
    using note_candidates_spec [OF Cons.prems(2) ListReleaseBlobKeys_rows [OF Cons.prems(3)]]
    by (auto simp: listed_def)
  have "sizes_ok f d1" unfolding fd by (rule sizes_ok_forget [OF Cons.prems(3)])
  note IH = Cons.IH [OF d1(2) c(1) this]
  show ?case
  proof (intro conjI ballI allI impI)
    show "cand_ok f cand'" "fst ` set cand \<subseteq> fst ` set cand'" using IH c(2) by auto
  next
    fix k assume k: "k \<in> fst ` set cand' - fst ` set cand"
    have "k \<noteq> [] \<and> IsBlobReferenced k d"
    proof (cases "k \<in> fst ` set ?c")
      case True
      with k c(2) have "k \<in> listed rid d" by blast
      then show ?thesis using listed_referenced listed_iff by blast
    next
      case False
      with k IH have "k \<noteq> [] \<and> IsBlobReferenced k d1" by blast
      then show ?thesis using fd forget_referenced by blast
    qed
    then show "k \<noteq> []" "IsBlobReferenced k d" by blast+
  next
    fix k assume k: "k \<noteq> []" "IsBlobReferenced k d" "\<not> IsBlobReferenced k d'"
    show "k \<in> fst ` set cand'"
    proof (cases "IsBlobReferenced k d1")
      case True
      with IH k show ?thesis by blast
    next
      case False
      with k fd forget_unreferences have "k \<in> listed rid d" by blast
      then have "k \<in> fst ` set ?c" by (simp only: c(2) Un_iff simp_thms)
      then show ?thesis using IH [THEN conjunct2, THEN conjunct1] by (rule rev_subsetD)
    qed
  qed
qed

text \<open>One batch frees exactly the keys it made unreferenced.\<close>

definition became_free :: "db \<Rightarrow> db \<Rightarrow> string set" where
  "became_free d d' = {k. k \<noteq> [] \<and> IsBlobReferenced k d \<and> \<not> IsBlobReferenced k d'}"

lemma batch_freed:
  assumes "evict_loop rids [] d = Inr (cand, d')" "sizes_ok f d"
  shows "cand_ok f (freed_of cand d') \<and> fst ` set (freed_of cand d') = became_free d d'"
proof -
  have ok: "cand_ok f []" by (simp add: cand_ok_def)
  note facts = evict_loop_cand [OF assms(1) ok assms(2)]
  have set: "set (freed_of cand d') = {x \<in> set cand. \<not> IsBlobReferenced (fst x) d'}"
    by (auto simp: freed_of_def)
  have "distinct (map fst (filter (\<lambda>(k, _). \<not> IsBlobReferenced k d') cand))"
    using facts by (simp add: cand_ok_def distinct_map_filter)
  then have "distinct (map fst (freed_of cand d'))" by (simp add: freed_of_def distinct_map)
  moreover have "\<forall>(k, sz) \<in> set (freed_of cand d'). sz = f k"
    using facts unfolding set by (auto simp: cand_ok_def)
  moreover have "fst ` set (freed_of cand d') = became_free d d'"
  proof (rule set_eqI)
    fix k
    have "k \<in> fst ` set (freed_of cand d') \<longleftrightarrow> k \<in> fst ` set cand \<and> \<not> IsBlobReferenced k d'"
      unfolding set by force
    also have "\<dots> \<longleftrightarrow> k \<in> became_free d d'"
      using facts by (auto simp: became_free_def)
    finally show "k \<in> fst ` set (freed_of cand d') \<longleftrightarrow> k \<in> became_free d d'" .
  qed
  ultimately show ?thesis by (simp add: cand_ok_def)
qed

lemma cand_ok_sorted_unique:
  assumes "cand_ok f xs" "cand_ok f ys" "fst ` set xs = fst ` set ys"
  shows "sort_key fst xs = sort_key fst ys"
proof -
  have ok: "cand_ok f (sort_key fst zs) = cand_ok f zs" for zs :: "(string \<times> int) list"
    by (simp add: cand_ok_def distinct_map)
  have "map fst (sort_key fst xs) = map fst (sort_key fst ys)"
  proof (rule sorted_distinct_set_unique)
    show "distinct (map fst (sort_key fst xs))" "distinct (map fst (sort_key fst ys))"
      using assms(1,2) ok by (auto simp: cand_ok_def)
    show "set (map fst (sort_key fst xs)) = set (map fst (sort_key fst ys))" using assms(3) by simp
  qed simp_all
  then show ?thesis
    using cand_ok_map [of f "sort_key fst xs"] cand_ok_map [of f "sort_key fst ys"] assms(1,2) ok by metis
qed

lemma sort_key_idem: "sort_key fst (sort_key fst xs) = sort_key fst xs"
  by (simp add: sort_key_id_if_sorted)

text \<open>The deletions alone, without the bookkeeping of candidates.\<close>

fun evict_db :: "int list \<Rightarrow> db \<Rightarrow> db_error + db" where
  "evict_db [] d = Inr d"
| "evict_db (rid # rids) d = bind_res (deleteReleaseRows rid d) (evict_db rids)"

lemma evict_db_append: "evict_db (xs @ ys) d = bind_res (evict_db xs d) (evict_db ys)"
  by (induction xs arbitrary: d) (auto simp: bind_res_def split: sum.split)

lemma evict_loop_db:
  "case evict_db rids d of
     Inl e \<Rightarrow> evict_loop rids cand d = Inl e
   | Inr d' \<Rightarrow> \<exists>cand'. evict_loop rids cand d = Inr (cand', d')"
proof (induction rids arbitrary: cand d)
  case Nil
  then show ?case by simp
next
  case (Cons rid rids)
  show ?case
  proof (cases "deleteReleaseRows rid d")
    case (Inl e)
    then show ?thesis by simp
  next
    case (Inr d1)
    with Cons.IH [of "foldl note_candidate cand (ListReleaseBlobKeys rid d)" d1] show ?thesis
      by (simp split: sum.splits)
  qed
qed

lemma evictBatch_ok:
  assumes "evict_db rids d = Inr d'" "sizes_ok f d"
  shows "\<exists>freed cand. evictBatch rids commit d = (if commit then d' else d, Inr (freed, cand))
    \<and> cand_ok f freed \<and> fst ` set freed = became_free d d' \<and> sort_key fst freed = freed"
proof -
  from evict_loop_db [where rids = rids and d = d and cand = "[]"] assms(1) obtain cand where
    cand: "evict_loop rids [] d = Inr (cand, d')" by auto
  from batch_freed [OF this assms(2)] cand show ?thesis
    by (auto simp: evictBatch_def freed_of_def sort_key_idem)
qed

lemma evict_db_mono: "evict_db rids d = Inr d' \<Longrightarrow> IsBlobReferenced k d' \<Longrightarrow> IsBlobReferenced k d"
  using evict_loop_db [where rids = rids and d = d and cand = "[]"] evict_loop_referenced [of rids "[]" d _ d' k] by auto

lemma evict_db_sizes: "evict_db rids d = Inr d' \<Longrightarrow> sizes_ok f d \<Longrightarrow> sizes_ok f d'"
  using evict_loop_db [where rids = rids and d = d and cand = "[]"] evict_loop_sizes [of rids "[]" d _ d' f] by auto

lemma became_free_trans:
  "evict_db xs d = Inr d1 \<Longrightarrow> evict_db ys d1 = Inr d2 \<Longrightarrow>
   became_free d d2 = became_free d d1 \<union> became_free d1 d2"
  using evict_db_mono by (auto simp: became_free_def)

text \<open>Deleting in batches that commit on their own frees the same keys as deleting at once.\<close>

lemma evict_batches_freed:
  assumes "evict_db rids d = Inr dE" "sizes_ok f d"
    and "cand_ok f freed" "\<forall>k \<in> fst ` set freed. \<not> IsBlobReferenced k d"
  shows "\<exists>freed' seen'. evict_batches rids freed seen d = (dE, freed', seen', None) \<and> cand_ok f freed'
    \<and> fst ` set freed' = fst ` set freed \<union> became_free d dE"
  using assms
proof (induction "length rids" arbitrary: rids freed seen d rule: less_induct)
  case less
  show ?case
  proof (cases "rids = []")
    case True
    with less.prems show ?thesis by (auto simp: evict_batches.simps became_free_def)
  next
    case False
    let ?b = "take evictBatchSize rids" and ?r = "drop evictBatchSize rids"
    have "evict_db (?b @ ?r) d = Inr dE" using less.prems(1) by simp
    then obtain d1 where d1: "evict_db ?b d = Inr d1" "evict_db ?r d1 = Inr dE"
      unfolding evict_db_append bind_res_Inr by blast
    from evictBatch_ok [OF d1(1) less.prems(2), of True] obtain part cand where
      part: "evictBatch ?b True d = (d1, Inr (part, cand))" "cand_ok f part" "fst ` set part = became_free d d1"
      by auto
    have disj: "fst ` set freed \<inter> fst ` set part = {}"
      using less.prems(4) part(3) by (auto simp: became_free_def)
    then have ok: "cand_ok f (freed @ part)" using less.prems(3) part(2) by (auto simp: cand_ok_def)
    have "k \<noteq> [] \<longrightarrow> \<not> IsBlobReferenced k d1" if "k \<in> fst ` set part" for k
      using that part(3) by (simp add: became_free_def)
    then have free: "\<forall>k \<in> fst ` set (freed @ part). \<not> IsBlobReferenced k d1"
      using less.prems(4) part(3) evict_db_mono [OF d1(1)] by (auto simp: became_free_def)
    have "length ?r < length rids" using False by (simp add: evictBatchSize_def)
    from less.hyps [OF this d1(2) evict_db_sizes [OF d1(1) less.prems(2)] ok free]
    obtain freed' seen' where "evict_batches ?r (freed @ part) (remdups (seen @ map fst cand)) d1 = (dE, freed', seen', None)"
      "cand_ok f freed'" "fst ` set freed' = fst ` set (freed @ part) \<union> became_free d1 dE" by blast
    with False part became_free_trans [OF d1] show ?thesis
      by (simp add: evict_batches.simps [of rids] image_Un Un_assoc)
  qed
qed

lemma dry_run_agrees:
  assumes "sizes_ok f d" and "EvictReleases rids False d = (d0, freed, n, None)"
  shows "d0 = d \<and> (\<exists>d' n'. EvictReleases rids True d = (d', freed, n', None)
    \<and> fst ` set freed = {k. k \<noteq> [] \<and> IsBlobReferenced k d \<and> \<not> IsBlobReferenced k d'})"
proof (cases "rids = []")
  case True
  with assms(2) show ?thesis by (auto simp: EvictReleases_def)
next
  case False
  have "evict_db rids d \<noteq> Inl e" for e
    using assms(2) False evict_loop_db [where rids = rids and d = d and cand = "[]"]
    by (auto simp: EvictReleases_def evictBatch_def)
  then obtain dE where dE: "evict_db rids d = Inr dE" by (cases "evict_db rids d") auto
  from evictBatch_ok [OF this assms(1), of False] obtain fr cand where
    fr: "evictBatch rids False d = (d, Inr (fr, cand))" "cand_ok f fr" "fst ` set fr = became_free d dE"
    "sort_key fst fr = fr" by auto
  with assms(2) False have dry: "d0 = d" "freed = fr" by (auto simp: EvictReleases_def)
  from evict_batches_freed [OF dE assms(1), of "[]" "[]"] obtain freed' seen' where
    b: "evict_batches rids [] [] d = (dE, freed', seen', None)" "cand_ok f freed'"
      "fst ` set freed' = became_free d dE" by (auto simp: cand_ok_def)
  have "sort_key fst freed' = freed"
    using cand_ok_sorted_unique [OF b(2) fr(2)] b(3) fr(3,4) dry(2) by simp
  with False b dry fr(3) show ?thesis by (auto simp: EvictReleases_def became_free_def)
qed

text \<open>C6: the dry run reports exactly what the real run frees: whenever the dry run succeeds,
  so does the run in committing batches, it frees the same blobs in the same order, and
  those are the keys that some row referred to before and none refers to after. The dry run
  itself changes nothing.\<close>

theorem dry_run_exact:
  assumes "sizes_ok f d" and "EvictReleases rids False d = (d0, freed, n, None)"
  shows "d0 = d \<and> (\<exists>d' n'. EvictReleases rids True d = (d', freed, n', None)
    \<and> fst ` set freed = {k. k \<noteq> [] \<and> IsBlobReferenced k d \<and> \<not> IsBlobReferenced k d'})"
  using assms by (rule dry_run_agrees)

lemma dry_run_cand:
  assumes "sizes_ok f d" and "EvictReleases rids False d = (d0, freed, n, None)"
  shows "cand_ok f freed"
proof (cases "rids = []")
  case True
  with assms(2) show ?thesis by (auto simp: EvictReleases_def cand_ok_def)
next
  case False
  with assms(2) obtain cand where b: "evictBatch rids False d = (d0, Inr (freed, cand))"
    by (auto simp: EvictReleases_def split: prod.splits sum.splits)
  then obtain d' where "evict_db rids d = Inr d'"
    using evict_loop_db [where rids = rids and d = d and cand = "[]"]
    by (cases "evict_db rids d") (auto simp: evictBatch_def)
  from evictBatch_ok [OF this assms(1), of False] b show ?thesis by auto
qed

section \<open>Safety\<close>

text \<open>A package made from an artifact of one of the releases.\<close>

definition packaged_in :: "int set \<Rightarrow> db \<Rightarrow> packaged_artifact \<Rightarrow> bool" where
  "packaged_in ids d k \<longleftrightarrow> (\<exists>a \<in> set (d_artifacts d). a_id a = k_artifact_id k \<and> a_release_id a \<in> ids)"

lemma packaged_in_mono:
  "packaged_in ids d' k \<Longrightarrow> ids \<subseteq> ids' \<Longrightarrow> set (d_artifacts d') \<subseteq> set (d_artifacts d) \<Longrightarrow> packaged_in ids' d k"
  unfolding packaged_in_def by blast

lemma forget_keeps:
  "r_id r \<noteq> rid \<Longrightarrow> r \<in> set (d_releases d) \<Longrightarrow> r \<in> set (d_releases (forget rid d))"
  "a_release_id a \<noteq> rid \<Longrightarrow> a \<in> set (d_artifacts d) \<Longrightarrow> a \<in> set (d_artifacts (forget rid d))"
  "d_sites (forget rid d) = d_sites d" "d_oci_links (forget rid d) = d_oci_links d"
  "d_projects (forget rid d) = d_projects d" "d_goproxy_versions (forget rid d) = d_goproxy_versions d"
  "d_run_files (forget rid d) = d_run_files d" "d_cache_entries (forget rid d) = d_cache_entries d"
  "d_mirror_blobs (forget rid d) = d_mirror_blobs d" "set (d_artifacts (forget rid d)) \<subseteq> set (d_artifacts d)"
  "\<not> packaged_in {rid} d k \<Longrightarrow> k \<in> set (d_packaged d) \<Longrightarrow> k \<in> set (d_packaged (forget rid d))"
  by (auto simp: forget_def packaged_in_def artifact_of_release_def release_artifacts_def list_ex_iff)

text \<open>Everything outside the given releases survives.\<close>

definition survives :: "int set \<Rightarrow> db \<Rightarrow> db \<Rightarrow> bool" where
  "survives ids d d' \<longleftrightarrow>
     (\<forall>r \<in> set (d_releases d). r_id r \<notin> ids \<longrightarrow> r \<in> set (d_releases d'))
   \<and> (\<forall>a \<in> set (d_artifacts d). a_release_id a \<notin> ids \<longrightarrow> a \<in> set (d_artifacts d'))
   \<and> (\<forall>k \<in> set (d_packaged d). \<not> packaged_in ids d k \<longrightarrow> k \<in> set (d_packaged d'))
   \<and> set (d_artifacts d') \<subseteq> set (d_artifacts d)
   \<and> d_sites d' = d_sites d \<and> d_oci_links d' = d_oci_links d \<and> d_projects d' = d_projects d
   \<and> d_goproxy_versions d' = d_goproxy_versions d \<and> d_run_files d' = d_run_files d
   \<and> d_cache_entries d' = d_cache_entries d \<and> d_mirror_blobs d' = d_mirror_blobs d"

lemma survives_refl: "survives ids d d"
  by (simp add: survives_def)

lemma survives_trans: "survives ids d d1 \<Longrightarrow> survives ids d1 d2 \<Longrightarrow> survives ids d d2"
  using packaged_in_mono [of ids d1 _ ids d] unfolding survives_def by (simp, blast)

lemma survives_mono: "survives ids d d' \<Longrightarrow> ids \<subseteq> ids' \<Longrightarrow> survives ids' d d'"
  using packaged_in_mono [of ids d _ ids' d] by (auto simp: survives_def)

lemma evict_db_survives: "evict_db rids d = Inr d' \<Longrightarrow> survives (set rids) d d'"
proof (induction rids arbitrary: d)
  case Nil
  then show ?case by (simp add: survives_refl)
next
  case (Cons rid rids)
  then obtain d1 where d1: "deleteReleaseRows rid d = Inr d1" "evict_db rids d1 = Inr d'"
    by (auto simp: bind_res_Inr)
  have "survives {rid} d d1"
    unfolding deleteReleaseRows_ok [OF d1(1)] using forget_keeps(10) [of rid d] by (auto simp: survives_def forget_keeps)
  then show ?case
    using survives_trans survives_mono Cons.IH [OF d1(2)] by (metis insert_is_Un list.simps(15) sup_ge1 sup_ge2)
qed

lemma evictBatch_cases:
  "case evict_db rids d of
     Inl e \<Rightarrow> evictBatch rids commit d = (d, Inl e)
   | Inr d' \<Rightarrow> \<exists>cand. evictBatch rids commit d = (if commit then d' else d, Inr (freed_of cand d', cand))"
proof (cases "evict_db rids d")
  case (Inl e)
  with evict_loop_db [where rids = rids and d = d and cand = "[]"] show ?thesis by (simp add: evictBatch_def)
next
  case (Inr d')
  with evict_loop_db [where rids = rids and d = d and cand = "[]"] obtain cand where
    "evict_loop rids [] d = Inr (cand, d')" by auto
  with Inr show ?thesis by (auto simp: evictBatch_def)
qed

lemma evict_batches_safe:
  assumes "evict_batches rids freed seen d = (d', freed', seen', err)"
    and "\<forall>x \<in> set freed. \<not> IsBlobReferenced (fst x) d"
  shows "(\<forall>x \<in> set freed'. \<not> IsBlobReferenced (fst x) d') \<and> survives (set rids) d d'"
  using assms
proof (induction "length rids" arbitrary: rids freed seen d rule: less_induct)
  case less
  let ?b = "take evictBatchSize rids" and ?r = "drop evictBatchSize rids"
  show ?case
  proof (cases "rids = []")
    case True
    with less.prems show ?thesis by (simp add: evict_batches.simps survives_refl)
  next
    case False
    show ?thesis
    proof (cases "evict_db ?b d")
      case (Inl e)
      with evictBatch_cases [where rids = ?b and d = d and commit = True] False less.prems show ?thesis
        by (simp add: evict_batches.simps [of rids] survives_refl)
    next
      case (Inr d1)
      with evictBatch_cases [where rids = ?b and d = d and commit = True] obtain cand where
        b: "evictBatch ?b True d = (d1, Inr (freed_of cand d1, cand))" by auto
      with False less.prems(1) have run: "evict_batches ?r (freed @ freed_of cand d1)
        (remdups (seen @ map fst cand)) d1 = (d', freed', seen', err)"
        by (simp add: evict_batches.simps [of rids])
      have "\<forall>x \<in> set (freed @ freed_of cand d1). \<not> IsBlobReferenced (fst x) d1"
        using less.prems(2) evict_db_mono [OF Inr] by (auto simp: freed_of_def)
      moreover have "length ?r < length rids" using False by (simp add: evictBatchSize_def)
      ultimately have rest: "(\<forall>x \<in> set freed'. \<not> IsBlobReferenced (fst x) d') \<and> survives (set ?r) d1 d'"
        using less.hyps run by blast
      have "survives (set rids) d d1" "survives (set rids) d1 d'"
        using survives_mono evict_db_survives [OF Inr] rest set_take_subset set_drop_subset by metis+
      with rest survives_trans show ?thesis by blast
    qed
  qed
qed

lemma eviction_frees_dead:
  assumes "EvictReleases rids commit d = (d', freed, n, err)"
  shows "(commit \<longrightarrow> (\<forall>(k, sz) \<in> set freed. \<not> IsBlobReferenced k d'))
    \<and> (\<not> commit \<longrightarrow> d' = d) \<and> survives (set rids) d d'"
proof (cases "rids = []")
  case True
  with assms show ?thesis by (auto simp: EvictReleases_def survives_refl)
next
  case False
  show ?thesis
  proof (cases commit)
    case True
    obtain dB fr seen er where b: "evict_batches rids [] [] d = (dB, fr, seen, er)" by (metis prod_cases4)
    from evict_batches_safe [OF this] have "\<forall>x \<in> set fr. \<not> IsBlobReferenced (fst x) dB" "survives (set rids) d dB"
      by simp_all
    with assms False True b show ?thesis
      by (auto simp: EvictReleases_def case_prod_beta split: option.splits)
  next
    case commit: False
    with assms False evictBatch_cases [where rids = rids and d = d and commit = False] show ?thesis
      by (auto simp: EvictReleases_def survives_refl split: sum.splits prod.splits)
  qed
qed

text \<open>whatever happens, an error in any batch included, no blob reported for deletion is
  referred to by a row that is left, and nothing but the given releases is touched: every
  other release keeps its row and its artifacts, and sites, image blobs and projects stay.\<close>

theorem eviction_safe:
  assumes "EvictReleases rids commit d = (d', freed, n, err)"
  shows "(commit \<longrightarrow> (\<forall>(k, sz) \<in> set freed. \<not> IsBlobReferenced k d'))
    \<and> (\<not> commit \<longrightarrow> d' = d) \<and> survives (set rids) d d'"
  using assms by (rule eviction_frees_dead)

section \<open>What is kept\<close>

definition branch_tip :: "db \<Rightarrow> release \<Rightarrow> bool" where
  "branch_tip d r \<longleftrightarrow> r \<in> set (d_releases d) \<and> r_published r \<and>
     (\<forall>q \<in> set (d_releases d). r_project_id q = r_project_id r \<and> r_git_branch q = r_git_branch r
        \<and> r_published q \<longrightarrow> r_version_num q \<le> r_version_num r)"

lemma tip_newer: "branch_tip d r \<Longrightarrow> newer_published r d = 0"
  by (auto simp: branch_tip_def newer_published_def filter_empty_conv)

lemma ListEvictableReleases_set:
  "set (ListEvictableReleases keepN cutoff d) = {r \<in> set (d_releases d). evictable keepN (sqliteDatetime cutoff) d r}"
  by (simp add: ListEvictableReleases_def by_num_desc_def)

lemma policy_lists:
  assumes "r \<in> set (ListEvictableReleases keepN cutoff d) \<union> set (ListAbandonedReleases cutoff d)"
  shows "\<not> branch_tip d r \<and> (r_published r \<longrightarrow> int (newer_published r d) \<ge> max keepN 1)
    \<and> (r_published r \<longrightarrow> (\<forall>t \<in> set (d_oci_tags d). ot_release_id t \<noteq> r_id r))
    \<and> (r_published r \<longrightarrow> (\<forall>a \<in> set (d_artifacts d). a_release_id a = r_id r \<longrightarrow> a_kind a \<noteq> KindDocker))
    \<and> (r_draft r \<longrightarrow> r_published r) \<and> r_created_at r < sqliteDatetime cutoff"
proof -
  have "\<not> branch_tip d r"
  proof
    assume tip: "branch_tip d r"
    with assms tip_newer [OF tip] show False
      by (auto simp: ListEvictableReleases_set evictable_def ListAbandonedReleases_def branch_tip_def)
  qed
  then show ?thesis
    using assms
    by (auto simp: ListEvictableReleases_set evictable_def ListAbandonedReleases_def list_ex_iff)
qed

text \<open>the policy never lists the newest published release of a branch, for no setting of
  keep-N (zero and negative ones included), nor one of the newest keep-N, nor a tagged
  release, nor a pushed image, nor a draft, nor anything younger than the cutoff.\<close>

theorem policy_keeps:
  assumes "r \<in> set (ListEvictableReleases keepN cutoff d) \<union> set (ListAbandonedReleases cutoff d)"
  shows "\<not> branch_tip d r \<and> (r_published r \<longrightarrow> int (newer_published r d) \<ge> max keepN 1)
    \<and> (r_published r \<longrightarrow> (\<forall>t \<in> set (d_oci_tags d). ot_release_id t \<noteq> r_id r))
    \<and> (r_published r \<longrightarrow> (\<forall>a \<in> set (d_artifacts d). a_release_id a = r_id r \<longrightarrow> a_kind a \<noteq> KindDocker))
    \<and> (r_draft r \<longrightarrow> r_published r) \<and> r_created_at r < sqliteDatetime cutoff"
  using assms by (rule policy_lists)

section \<open>Download events\<close>

text \<open>C30: a release one of whose artifacts has been downloaded cannot be evicted: the download
  event refers to the artifact, nothing deletes it, and the batch that contains the release
  fails and is rolled back as a whole.\<close>

theorem downloaded_release_not_evictable:
  assumes "a \<in> set (d_artifacts d)" and "a_release_id a = rid"
    and "e \<in> set (d_events d)" and "ev_artifact_id e = a_id a"
  shows "deleteReleaseRows rid d = Inl ForeignKeyViolation
    \<and> EvictReleases [rid] commit d = (d, [], 0, Some ForeignKeyViolation)"
proof -
  let ?d4 = "DeleteReleaseArtifactPlatforms rid (DeleteReleaseOCITags rid
    (DeleteReleaseDownloadCounts rid (DeleteReleasePackagedArtifacts rid d)))"
  have "artifact_of_release rid ?d4 = artifact_of_release rid d" "d_events ?d4 = d_events d"
    by (simp_all add: DeleteReleaseArtifactPlatforms_def DeleteReleaseOCITags_def
        DeleteReleaseDownloadCounts_def DeleteReleasePackagedArtifacts_def)
  moreover have "artifact_of_release rid d (ev_artifact_id e)"
    using assms by (auto simp: artifact_of_release_def release_artifacts_def list_ex_iff)
  ultimately have "list_ex (\<lambda>e. artifact_of_release rid ?d4 (ev_artifact_id e)) (d_events ?d4)"
    using assms(3) by (auto simp: list_ex_iff)
  then have del: "deleteReleaseRows rid d = Inl ForeignKeyViolation"
    by (simp add: deleteReleaseRows_def Let_def DeleteReleaseArtifacts_def)
  then have "evictBatch [rid] c d = (d, Inl ForeignKeyViolation)" for c
    by (simp add: evictBatch_def)
  with del show ?thesis
    by (simp add: EvictReleases_def evict_batches.simps [of "[rid]"] evictBatchSize_def)
qed

section \<open>Concrete instances\<close>

definition demo_artifact :: "int \<Rightarrow> int \<Rightarrow> string \<Rightarrow> int \<Rightarrow> artifact" where
  "demo_artifact i rid key sz = \<lparr>a_id = i, a_release_id = rid, a_os = OSLinux, a_arch = ArchAMD64,
     a_kind = KindBinary, a_storage_key = key, a_size = sz, a_sha256 = key, a_stripped_storage_key = [],
     a_stripped_size = 0, a_stripped_sha256 = [], a_debug_storage_key = [], a_debug_size = 0,
     a_filename = ''tool'', a_exe_format = [], a_created_at = 0\<rparr>"

definition demo_evict_db :: db where
  "demo_evict_db = empty_db\<lparr>d_projects := [new_project 1 ''web'' False],
     d_releases := [demo_release 1 ''41'' 41 ''master'' True, demo_release 2 ''42'' 42 ''master'' True],
     d_artifacts := [demo_artifact 1 1 ''aa'' 5, demo_artifact 2 1 ''bb'' 7, demo_artifact 3 2 ''bb'' 7]\<rparr>"

definition demo_size :: "string \<Rightarrow> int" where
  "demo_size k = (if k = ''aa'' then 5 else 7)"

theorem dry_run_exact_witness:
  "EvictReleases [1] False demo_evict_db = (demo_evict_db, [(''aa'', 5)], 2, None)
   \<and> (\<exists>d' n'. EvictReleases [1] True demo_evict_db = (d', [(''aa'', 5)], n', None))"
proof -
  have ok: "sizes_ok demo_size demo_evict_db" by code_simp
  have dry: "EvictReleases [1] False demo_evict_db = (demo_evict_db, [(''aa'', 5)], 2, None)" by code_simp
  from dry_run_exact [OF ok dry] dry show ?thesis by blast
qed

theorem eviction_safe_witness:
  "fst (snd (EvictReleases [1] True demo_evict_db)) = [(''aa'', 5)]
   \<and> \<not> IsBlobReferenced ''aa'' (fst (EvictReleases [1] True demo_evict_db))
   \<and> survives {1} demo_evict_db (fst (EvictReleases [1] True demo_evict_db))"
proof -
  obtain d' freed n err where run: "EvictReleases [1] True demo_evict_db = (d', freed, n, err)"
    by (metis prod_cases4)
  have "fst (snd (EvictReleases [1] True demo_evict_db)) = [(''aa'', 5)]" by code_simp
  with run have "freed = [(''aa'', 5)]" by simp
  with eviction_safe [OF run] run show ?thesis by simp
qed

theorem policy_keeps_witness:
  "ListEvictableReleases 0 (5 * SecondNs) demo_evict_db = [demo_release 1 ''41'' 41 ''master'' True]
   \<and> \<not> branch_tip demo_evict_db (demo_release 1 ''41'' 41 ''master'' True)"
proof -
  have list: "ListEvictableReleases 0 (5 * SecondNs) demo_evict_db = [demo_release 1 ''41'' 41 ''master'' True]"
    by code_simp
  then have "demo_release 1 ''41'' 41 ''master'' True \<in>
    set (ListEvictableReleases 0 (5 * SecondNs) demo_evict_db) \<union> set (ListAbandonedReleases (5 * SecondNs) demo_evict_db)"
    by simp
  from policy_keeps [OF this] list show ?thesis by blast
qed

theorem downloaded_release_not_evictable_witness:
  "EvictReleases [1] True (demo_evict_db\<lparr>d_events := [\<lparr>ev_artifact_id = 1, ev_fmt = ''raw'', ev_client_ip = [], ev_user_agent = [], ev_principal = []\<rparr>]\<rparr>)
   = (demo_evict_db\<lparr>d_events := [\<lparr>ev_artifact_id = 1, ev_fmt = ''raw'', ev_client_ip = [], ev_user_agent = [], ev_principal = []\<rparr>]\<rparr>, [], 0,
      Some ForeignKeyViolation)"
proof -
  let ?d = "demo_evict_db\<lparr>d_events := [\<lparr>ev_artifact_id = 1, ev_fmt = ''raw'', ev_client_ip = [], ev_user_agent = [], ev_principal = []\<rparr>]\<rparr>"
  have "demo_artifact 1 1 ''aa'' 5 \<in> set (d_artifacts ?d)" "a_release_id (demo_artifact 1 1 ''aa'' 5) = 1"
    "\<lparr>ev_artifact_id = 1, ev_fmt = ''raw'', ev_client_ip = [], ev_user_agent = [], ev_principal = []\<rparr> \<in> set (d_events ?d)"
    "ev_artifact_id \<lparr>ev_artifact_id = 1, ev_fmt = ''raw'', ev_client_ip = [], ev_user_agent = [], ev_principal = []\<rparr> = a_id (demo_artifact 1 1 ''aa'' 5)"
    by (simp_all add: demo_evict_db_def empty_db_def demo_artifact_def)
  from downloaded_release_not_evictable [OF this] show ?thesis by blast
qed

end
