(* ===== verification/Storage.thy ===== *)
theory Storage
  imports Go_IO Db_Types
begin

text \<open>
  The content-addressed blob store: \<open>internal/storage/filesystem.go\<close>. A blob lives at
  \<open>key[:2]/key\<close> under the root, where the key is the hexadecimal SHA-256 of its
  content; with compression on, the file is a 12-byte header (a magic number and the
  little-endian content length) followed by the zstd stream.

  SHA-256 and the zstd encoder and decoder are arguments (\<open>H\<close>, \<open>enc\<close>, \<open>dec\<close>); what the
  theorems need of them is stated as a hypothesis. The operating system's failures are
  the argument \<open>fail\<close>, the stage of the operation that reports an error. The memory
  mapping gives the bytes of the file. Directories are implicit.
\<close>

section \<open>Keys, headers and files\<close>

type_synonym hash = "bytes \<Rightarrow> bytes"

definition hex_digit :: "nat \<Rightarrow> char" where
  "hex_digit n = (if n < 10 then char_of (48 + n) else char_of (87 + n))"

definition hex_encode :: "bytes \<Rightarrow> string" where
  "hex_encode bs = concat (map (\<lambda>b. [hex_digit (unat b div 16), hex_digit (unat b mod 16)]) bs)"

definition is_hex :: "char \<Rightarrow> bool" where
  "is_hex c \<longleftrightarrow> is_digit c \<or> 97 \<le> (of_char c :: nat) \<and> (of_char c :: nat) \<le> 102"

definition validStorageKey :: "string \<Rightarrow> bool" where
  "validStorageKey k \<longleftrightarrow> length k = 64 \<and> list_all is_hex k"

definition compressedMagic :: bytes where
  "compressedMagic = [0x42, 0x48, 0x43, 1]"

fun le_bytes :: "nat \<Rightarrow> nat \<Rightarrow> bytes" where
  "le_bytes 0 n = []"
| "le_bytes (Suc k) n = word_of_nat (n mod 256) # le_bytes k (n div 256)"

fun le_value :: "bytes \<Rightarrow> nat" where
  "le_value [] = 0"
| "le_value (b # bs) = unat b + 256 * le_value bs"

definition int64_of_nat :: "nat \<Rightarrow> int" where
  "int64_of_nat n = (if n < 2 ^ 63 then int n else int n - 2 ^ 64)"

record filesystem =
  fs_compress :: bool
  fs_blobs :: "(string \<times> bytes) list"

definition rel :: "string \<Rightarrow> string" where
  "rel key = take 2 key @ ''/'' @ key"

definition file_at :: "filesystem \<Rightarrow> string \<Rightarrow> bytes option" where
  "file_at fs key = map_of (fs_blobs fs) (rel key)"

definition write_file :: "string \<Rightarrow> bytes \<Rightarrow> filesystem \<Rightarrow> filesystem" where
  "write_file key bs fs = fs\<lparr>fs_blobs := AList.update (rel key) bs (fs_blobs fs)\<rparr>"

datatype storage_error =
    NotExist
  | StageFailed string
  | ErrRandomUnsupported

text \<open>The stages at which the operating system may fail.\<close>

datatype stage =
    StCreateTemp | StMkdir | StCloseTemp | StRename | StSeek | StCreateCompress | StMagic
  | StSizeHeader | StCompressor | StCompress | StFinish | StCloseCompress
  | StOpen | StStat | StMap | StDecompressor | StRemove

section \<open>Operations\<close>

definition is_compressed :: "bytes \<Rightarrow> bool" where
  "is_compressed m \<longleftrightarrow> length m \<ge> 12 \<and> take 4 m = compressedMagic"

definition wrap_compressed :: "(bytes \<Rightarrow> bytes) \<Rightarrow> bytes \<Rightarrow> bytes" where
  "wrap_compressed enc content = compressedMagic @ le_bytes 8 (length content) @ enc content"

definition orig_size :: "bytes \<Rightarrow> int" where
  "orig_size m = int64_of_nat (le_value (take 8 (drop 4 m)))"

text \<open>\<open>Put\<close>. A reader that fails makes the copy to the temporary file fail. Temporary files are
  removed on every path, so they never appear in the result.\<close>

definition Put :: "hash \<Rightarrow> (bytes \<Rightarrow> bytes) \<Rightarrow> stage option \<Rightarrow> reader \<Rightarrow> filesystem \<Rightarrow> filesystem \<times> (storage_error + string \<times> int)" where
  "Put H enc fail r fs =
     (if fail = Some StCreateTemp then (fs, Inl (StageFailed ''create temp file''))
      else if rd_end r \<noteq> IoEOF then (fs, Inl (StageFailed ''write temp file''))
      else
        (let content = rd_bytes r; sz = int (length content); key = hex_encode (H content) in
         if file_at fs key \<noteq> None \<and> fail \<noteq> Some StStat then (fs, Inr (key, sz))
         else if fail = Some StMkdir then (fs, Inl (StageFailed ''create shard dir''))
         else if \<not> fs_compress fs
         then (if fail = Some StCloseTemp then (fs, Inl (StageFailed ''close temp file''))
               else if fail = Some StRename then (fs, Inl (StageFailed ''rename to final''))
               else (write_file key content fs, Inr (key, sz)))
         else if fail = Some StSeek then (fs, Inl (StageFailed ''seek temp file''))
         else if fail = Some StCreateCompress then (fs, Inl (StageFailed ''create compress temp''))
         else if fail = Some StMagic then (fs, Inl (StageFailed ''write magic''))
         else if fail = Some StSizeHeader then (fs, Inl (StageFailed ''write size header''))
         else if fail = Some StCompressor then (fs, Inl (StageFailed ''create compressor''))
         else if fail = Some StCompress then (fs, Inl (StageFailed ''compress data''))
         else if fail = Some StFinish then (fs, Inl (StageFailed ''finalize compression''))
         else if fail = Some StCloseCompress then (fs, Inl (StageFailed ''close compress temp''))
         else if fail = Some StRename then (fs, Inl (StageFailed ''rename to final''))
         else (write_file key (wrap_compressed enc content) fs, Inr (key, sz))))"

definition PutUncompressed :: "hash \<Rightarrow> (bytes \<Rightarrow> bytes) \<Rightarrow> stage option \<Rightarrow> reader \<Rightarrow> filesystem \<Rightarrow> filesystem \<times> (storage_error + string \<times> int)" where
  "PutUncompressed H enc fail r fs =
     (if \<not> fs_compress fs then Put H enc fail r fs
      else (case Put H enc fail r (fs\<lparr>fs_compress := False\<rparr>) of
              (raw, res) \<Rightarrow> (fs\<lparr>fs_blobs := fs_blobs raw\<rparr>, res)))"

text \<open>Opening a blob: the shared beginning of \<open>Get\<close>, \<open>GetCompressed\<close> and \<open>OpenReaderAt\<close>.\<close>

definition open_blob :: "stage option \<Rightarrow> string \<Rightarrow> filesystem \<Rightarrow> storage_error + bytes" where
  "open_blob fail key fs =
     (if \<not> validStorageKey key then Inl NotExist
      else case file_at fs key of
        None \<Rightarrow> Inl NotExist
      | Some m \<Rightarrow>
          if fail = Some StOpen then Inl (StageFailed ''open blob'')
          else if fail = Some StStat then Inl (StageFailed ''stat blob'')
          else if m \<noteq> [] \<and> fail = Some StMap then Inl (StageFailed ''mmap blob'')
          else Inr m)"

text \<open>\<open>Get\<close>: the bytes the returned stream yields (\<open>None\<close>: the zstd stream does not decode) and
  the announced length.\<close>

definition GetBlob :: "(bytes \<Rightarrow> bytes option) \<Rightarrow> stage option \<Rightarrow> string \<Rightarrow> filesystem \<Rightarrow> storage_error + bytes option \<times> int" where
  "GetBlob dec fail key fs =
     (case open_blob fail key fs of
        Inl e \<Rightarrow> Inl e
      | Inr m \<Rightarrow>
          if m = [] then Inr (Some [], 0)
          else if is_compressed m
          then (if fail = Some StDecompressor then Inl (StageFailed ''create decompressor'')
                else Inr (dec (drop 12 m), orig_size m))
          else Inr (Some m, int (length m)))"

record compressed_blob =
  cb_bytes :: bytes
  cb_encoding :: string
  cb_size :: int
  cb_orig_size :: int

definition GetCompressed :: "stage option \<Rightarrow> string \<Rightarrow> filesystem \<Rightarrow> storage_error + compressed_blob" where
  "GetCompressed fail key fs =
     (case open_blob fail key fs of
        Inl e \<Rightarrow> Inl e
      | Inr m \<Rightarrow>
          if m = [] then Inr \<lparr>cb_bytes = [], cb_encoding = [], cb_size = 0, cb_orig_size = 0\<rparr>
          else if is_compressed m
          then Inr \<lparr>cb_bytes = drop 12 m, cb_encoding = ''zstd'', cb_size = int (length m) - 12,
                    cb_orig_size = orig_size m\<rparr>
          else Inr \<lparr>cb_bytes = m, cb_encoding = [], cb_size = int (length m),
                    cb_orig_size = int (length m)\<rparr>)"

definition OpenReaderAt :: "stage option \<Rightarrow> string \<Rightarrow> filesystem \<Rightarrow> storage_error + bytes \<times> int" where
  "OpenReaderAt fail key fs =
     (case open_blob fail key fs of
        Inl e \<Rightarrow> Inl e
      | Inr m \<Rightarrow>
          if m = [] then Inr ([], 0)
          else if is_compressed m then Inl ErrRandomUnsupported
          else Inr (m, int (length m)))"

text \<open>\<open>ReadAt\<close> into a buffer of \<open>n\<close> bytes: the bytes copied and whether end-of-file is reported.\<close>

definition ReadAt :: "bytes \<Rightarrow> nat \<Rightarrow> int \<Rightarrow> bytes \<times> bool" where
  "ReadAt m n off =
     (if off < 0 \<or> off > int (length m) then ([], True)
      else (let bs = take n (drop (nat off) m) in (bs, length bs < n)))"

definition Delete :: "stage option \<Rightarrow> string \<Rightarrow> filesystem \<Rightarrow> filesystem \<times> storage_error option" where
  "Delete fail key fs =
     (if \<not> validStorageKey key then (fs, None)
      else if file_at fs key = None then (fs, None)
      else if fail = Some StRemove then (fs, Some (StageFailed ''remove''))
      else (fs\<lparr>fs_blobs := AList.delete (rel key) (fs_blobs fs)\<rparr>, None))"

definition Exists :: "stage option \<Rightarrow> string \<Rightarrow> filesystem \<Rightarrow> bool \<times> storage_error option" where
  "Exists fail key fs =
     (if \<not> validStorageKey key then (False, None)
      else if fail = Some StStat then (False, Some (StageFailed ''stat''))
      else (file_at fs key \<noteq> None, None))"

text \<open>\<open>SweepTemp\<close> over the listing of the root: an entry is a name, whether it is a directory,
  its modification time and size when it can be read, and whether removing it succeeds. The
  result is the count, the bytes freed, the names removed and the error that stopped it.\<close>

record dir_entry =
  de_name :: string
  de_is_dir :: bool
  de_info :: "(time \<times> int) option"
  de_removable :: bool

definition TempMaxAge :: int where
  "TempMaxAge = 24 * 60 * 60 * 1000000000"

definition is_put_temp :: "dir_entry \<Rightarrow> bool" where
  "is_put_temp e \<longleftrightarrow> \<not> de_is_dir e \<and>
     (has_prefix (de_name e) ''.upload-'' \<or> has_prefix (de_name e) ''.compress-'')"

fun sweep_temp_loop :: "time \<Rightarrow> dir_entry list \<Rightarrow> int \<Rightarrow> int \<Rightarrow> string list \<Rightarrow> int \<times> int \<times> string list \<times> storage_error option" where
  "sweep_temp_loop now [] n freed gone = (n, freed, gone, None)"
| "sweep_temp_loop now (e # es) n freed gone =
     (if \<not> is_put_temp e then sweep_temp_loop now es n freed gone
      else case de_info e of
        None \<Rightarrow> sweep_temp_loop now es n freed gone
      | Some (mtime, sz) \<Rightarrow>
          if now - mtime < TempMaxAge then sweep_temp_loop now es n freed gone
          else if \<not> de_removable e then (n, freed, gone, Some (StageFailed (de_name e)))
          else sweep_temp_loop now es (n + 1) (freed + sz) (gone @ [de_name e]))"

definition SweepTemp :: "time \<Rightarrow> dir_entry list option \<Rightarrow> int \<times> int \<times> string list \<times> storage_error option" where
  "SweepTemp now listing =
     (case listing of
        None \<Rightarrow> (0, 0, [], Some (StageFailed ''read storage root''))
      | Some es \<Rightarrow> sweep_temp_loop now es 0 0 [])"

section \<open>Keys and headers\<close>

lemma hex_digit_is_hex: "n < 16 \<Longrightarrow> is_hex (hex_digit n)"
  by (auto simp: hex_digit_def is_hex_def is_digit_def)

lemma hex_encode_length [simp]: "length (hex_encode bs) = 2 * length bs"
  by (induction bs) (auto simp: hex_encode_def)

lemma hex_encode_valid: "length bs = 32 \<Longrightarrow> validStorageKey (hex_encode bs)"
proof -
  have "unat b div 16 < 16" for b :: byte using unsigned_less [of b, where 'a = nat] by simp
  then have "list_all is_hex (hex_encode bs)"
    by (induction bs) (auto simp: hex_encode_def hex_digit_is_hex)
  then show "length bs = 32 \<Longrightarrow> ?thesis" by (simp add: validStorageKey_def)
qed

lemma rel_inj: "validStorageKey k \<Longrightarrow> validStorageKey k' \<Longrightarrow> rel k = rel k' \<longleftrightarrow> k = k'"
  by (auto simp: rel_def validStorageKey_def)

lemma le_bytes_length [simp]: "length (le_bytes k n) = k"
  by (induction k arbitrary: n) auto

lemma le_value_bytes: "n < 256 ^ k \<Longrightarrow> le_value (le_bytes k n) = n"
proof (induction k arbitrary: n)
  case 0
  then show ?case by simp
next
  case (Suc k)
  have "unat (word_of_nat (n mod 256) :: byte) = n mod 256" by (simp add: unat_of_nat)
  moreover from Suc.prems have "n div 256 < 256 ^ k" by (simp add: less_mult_imp_div_less mult.commute)
  ultimately show ?case using Suc.IH by simp
qed

lemma magic_length [simp]: "length compressedMagic = 4"
  by (simp add: compressedMagic_def)

lemma wrap_is_compressed [simp]: "is_compressed (wrap_compressed enc c)"
  by (simp add: is_compressed_def wrap_compressed_def)

lemma wrap_nonempty [simp]: "wrap_compressed enc c \<noteq> []"
  by (simp add: wrap_compressed_def compressedMagic_def)

lemma wrap_payload [simp]: "drop 12 (wrap_compressed enc c) = enc c"
  by (simp add: wrap_compressed_def)

lemma wrap_orig_size:
  assumes "length c < 2 ^ 63"
  shows "orig_size (wrap_compressed enc c) = int (length c)"
proof -
  have "length c < 256 ^ 8" using assms by simp
  then show ?thesis
    using assms by (simp add: orig_size_def wrap_compressed_def le_value_bytes int64_of_nat_def)
qed

lemma file_at_write:
  "validStorageKey k \<Longrightarrow> validStorageKey k' \<Longrightarrow>
   file_at (write_file k bs fs) k' = (if k' = k then Some bs else file_at fs k')"
  by (auto simp: file_at_def write_file_def al_simps rel_inj)

lemma file_at_delete:
  "validStorageKey k \<Longrightarrow> validStorageKey k' \<Longrightarrow>
   file_at (fs\<lparr>fs_blobs := AList.delete (rel k) (fs_blobs fs)\<rparr>) k' =
     (if k' = k then None else file_at fs k')"
  by (auto simp: file_at_def al_simps rel_inj)

section \<open>Content addressing\<close>

text \<open>A stored file \<open>m\<close> stands for the content \<open>c\<close>.\<close>

definition stored_as :: "(bytes \<Rightarrow> bytes option) \<Rightarrow> bytes \<Rightarrow> bytes \<Rightarrow> bool" where
  "stored_as dec m c \<longleftrightarrow>
     (if is_compressed m then dec (drop 12 m) = Some c \<and> orig_size m = int (length c) else m = c)"

definition store_inv :: "hash \<Rightarrow> (bytes \<Rightarrow> bytes option) \<Rightarrow> bool \<Rightarrow> filesystem \<Rightarrow> bool" where
  "store_inv H dec z fs \<longleftrightarrow> fs_compress fs = z \<and>
     (\<forall>key m. validStorageKey key \<longrightarrow> file_at fs key = Some m \<longrightarrow>
        (\<exists>c. stored_as dec m c \<and> hex_encode (H c) = key))"

datatype storage_op =
    OpPut "stage option" reader
  | OpPutUncompressed "stage option" reader
  | OpDelete "stage option" string

fun storage_step :: "hash \<Rightarrow> (bytes \<Rightarrow> bytes) \<Rightarrow> filesystem \<Rightarrow> storage_op \<Rightarrow> filesystem" where
  "storage_step H enc fs (OpPut fail r) = fst (Put H enc fail r fs)"
| "storage_step H enc fs (OpPutUncompressed fail r) = fst (PutUncompressed H enc fail r fs)"
| "storage_step H enc fs (OpDelete fail key) = fst (Delete fail key fs)"

text \<open>What the two external algorithms must do for a body \<open>c\<close>: a 32-byte digest, a codec that
  returns what it was given; a body that is stored as it is must not look like a
  compressed one.\<close>

definition body_ok :: "hash \<Rightarrow> (bytes \<Rightarrow> bytes) \<Rightarrow> (bytes \<Rightarrow> bytes option) \<Rightarrow> bool \<Rightarrow> bytes \<Rightarrow> bool" where
  "body_ok H enc dec wrapped c \<longleftrightarrow>
     length (H c) = 32 \<and> length c < 2 ^ 63 \<and>
     (if wrapped then dec (enc c) = Some c else \<not> is_compressed c)"

fun op_ok :: "hash \<Rightarrow> (bytes \<Rightarrow> bytes) \<Rightarrow> (bytes \<Rightarrow> bytes option) \<Rightarrow> bool \<Rightarrow> storage_op \<Rightarrow> bool" where
  "op_ok H enc dec z (OpPut fail r) = body_ok H enc dec z (rd_bytes r)"
| "op_ok H enc dec z (OpPutUncompressed fail r) = body_ok H enc dec False (rd_bytes r)"
| "op_ok H enc dec z (OpDelete fail key) = True"

lemma file_at_compress [simp]: "file_at (fs\<lparr>fs_compress := z\<rparr>) = file_at fs"
  by (simp add: file_at_def fun_eq_iff)

lemma write_file_compress [simp]: "fs_compress (write_file k bs fs) = fs_compress fs"
  by (simp add: write_file_def)

lemma stored_as_wrapped:
  "body_ok H enc dec True c \<Longrightarrow> stored_as dec (wrap_compressed enc c) c"
  by (simp add: body_ok_def stored_as_def wrap_orig_size)

lemma stored_as_plain: "\<not> is_compressed c \<Longrightarrow> stored_as dec c c"
  by (simp add: stored_as_def)

lemma stored_as_raw: "body_ok H enc dec False c \<Longrightarrow> stored_as dec c c"
  by (simp add: body_ok_def stored_as_def)

definition stored_form :: "(bytes \<Rightarrow> bytes) \<Rightarrow> bool \<Rightarrow> bytes \<Rightarrow> bytes" where
  "stored_form enc z c = (if z then wrap_compressed enc c else c)"

lemma stored_as_form: "body_ok H enc dec z c \<Longrightarrow> stored_as dec (stored_form enc z c) c"
  by (cases z) (auto simp: stored_form_def stored_as_wrapped stored_as_raw)

text \<open>Every run of \<open>Put\<close> ends in one of three ways.\<close>

lemma Put_cases:
  assumes "Put H enc fail r fs = (fs', res)"
  obtains (error) e where "fs' = fs" "res = Inl e"
  | (present) "fs' = fs" "res = Inr (hex_encode (H (rd_bytes r)), int (length (rd_bytes r)))"
      "file_at fs (hex_encode (H (rd_bytes r))) \<noteq> None"
  | (stored) "res = Inr (hex_encode (H (rd_bytes r)), int (length (rd_bytes r)))"
      "fs' = write_file (hex_encode (H (rd_bytes r))) (stored_form enc (fs_compress fs) (rd_bytes r)) fs"
  using assms by (auto simp: Put_def Let_def stored_form_def split: if_splits)

lemma write_file_inv:
  assumes "store_inv H dec z fs" "body_ok H enc dec w c"
  shows "store_inv H dec z (write_file (hex_encode (H c)) (stored_form enc w c) fs)"
  using assms stored_as_form [OF assms(2)]
  by (auto simp: store_inv_def body_ok_def hex_encode_valid file_at_write split: if_splits)

lemma Put_inv:
  assumes "Put H enc fail r fs = (fs', res)" "store_inv H dec z fs" "body_ok H enc dec z (rd_bytes r)"
  shows "store_inv H dec z fs'"
  using assms(1)
proof (cases rule: Put_cases)
  case stored
  moreover have "fs_compress fs = z" using assms(2) by (simp add: store_inv_def)
  ultimately show ?thesis using write_file_inv [OF assms(2,3)] by simp
qed (use assms(2) in auto)

lemma store_inv_flag: "store_inv H dec z fs \<Longrightarrow> store_inv H dec y (fs\<lparr>fs_compress := y\<rparr>)"
  by (simp add: store_inv_def)

lemma with_blobs: "(fs :: filesystem)\<lparr>fs_blobs := fs_blobs raw\<rparr> = raw\<lparr>fs_compress := fs_compress fs\<rparr>"
  by (rule filesystem.equality) simp_all

lemma same_flag: "fs_compress fs = z \<Longrightarrow> (fs :: filesystem)\<lparr>fs_compress := z\<rparr> = fs"
  by (rule filesystem.equality) simp_all

lemma PutUncompressed_eq:
  "PutUncompressed H enc fail r fs =
     (case Put H enc fail r (fs\<lparr>fs_compress := False\<rparr>) of
        (raw, res) \<Rightarrow> (raw\<lparr>fs_compress := fs_compress fs\<rparr>, res))"
proof (cases "fs_compress fs")
  case False
  moreover have "fs_compress (fst (Put H enc fail r fs)) = fs_compress fs"
    by (simp add: Put_def Let_def)
  ultimately show ?thesis
    by (cases "Put H enc fail r fs") (simp add: PutUncompressed_def same_flag)
qed (simp add: PutUncompressed_def with_blobs split: prod.split)

lemma PutUncompressed_inv:
  assumes "PutUncompressed H enc fail r fs = (fs', res)" "store_inv H dec z fs"
    "body_ok H enc dec False (rd_bytes r)"
  shows "store_inv H dec z fs'"
proof -
  obtain raw where put: "Put H enc fail r (fs\<lparr>fs_compress := False\<rparr>) = (raw, res)"
    and fs': "fs' = raw\<lparr>fs_compress := fs_compress fs\<rparr>"
    using assms(1) by (auto simp: PutUncompressed_eq split: prod.splits)
  from Put_inv [OF put store_inv_flag [OF assms(2)] assms(3)]
  have "store_inv H dec False raw" .
  moreover have "fs_compress fs = z" using assms(2) by (simp add: store_inv_def)
  ultimately show ?thesis using fs' store_inv_flag by simp
qed

lemma Delete_inv: "store_inv H dec z fs \<Longrightarrow> store_inv H dec z (fst (Delete fail key fs))"
  by (auto simp: Delete_def store_inv_def file_at_delete)

interpretation storage: guarded_system "storage_step H enc" "store_inv H dec z" "op_ok H enc dec z"
  for H enc dec z
proof unfold_locales
  fix e fs
  assume "op_ok H enc dec z e" "store_inv H dec z fs"
  then show "store_inv H dec z (storage_step H enc fs e)"
    by (cases e) (auto simp: Delete_inv intro: Put_inv [OF surjective_pairing]
        PutUncompressed_inv [OF surjective_pairing])
qed

lemma open_blob_ok:
  "open_blob fail key fs = Inr m \<Longrightarrow> validStorageKey key \<and> file_at fs key = Some m"
  by (auto simp: open_blob_def split: if_splits option.splits)

lemma open_blob_None [simp]:
  "open_blob None key fs =
     (if validStorageKey key then case file_at fs key of None \<Rightarrow> Inl NotExist | Some m \<Rightarrow> Inr m
      else Inl NotExist)"
  by (auto simp: open_blob_def split: option.splits)

lemma GetBlob_stored:
  assumes "stored_as dec m c" "open_blob fail key fs = Inr m" "GetBlob dec fail key fs = Inr (out, n)"
  shows "out = Some c \<and> n = int (length c)"
  using assms by (auto simp: GetBlob_def stored_as_def is_compressed_def split: if_splits)

text \<open>The same sequences with no condition on how a raw body begins: a file is the content that
  hashes to its key, either wrapped, with a codec that undoes it, or as it came, and then it is
  one of the bodies \<open>R\<close> that were stored raw.\<close>

definition files_inv ::
  "hash \<Rightarrow> (bytes \<Rightarrow> bytes) \<Rightarrow> (bytes \<Rightarrow> bytes option) \<Rightarrow> bool \<Rightarrow> bytes set \<Rightarrow> filesystem \<Rightarrow> bool" where
  "files_inv H enc dec z R fs \<longleftrightarrow> fs_compress fs = z \<and>
     (\<forall>key m. validStorageKey key \<longrightarrow> file_at fs key = Some m \<longrightarrow>
        (\<exists>c. hex_encode (H c) = key \<and>
           (m = wrap_compressed enc c \<and> body_ok H enc dec True c \<or> m = c \<and> c \<in> R)))"

fun raw_bodies :: "bool \<Rightarrow> storage_op \<Rightarrow> bytes set" where
  "raw_bodies z (OpPut fail r) = (if z then {} else {rd_bytes r})"
| "raw_bodies z (OpPutUncompressed fail r) = {rd_bytes r}"
| "raw_bodies z (OpDelete fail key) = {}"

fun codec_sound :: "hash \<Rightarrow> (bytes \<Rightarrow> bytes) \<Rightarrow> (bytes \<Rightarrow> bytes option) \<Rightarrow> bool \<Rightarrow> storage_op \<Rightarrow> bool" where
  "codec_sound H enc dec z (OpPut fail r) =
     (if z then body_ok H enc dec True (rd_bytes r) else length (H (rd_bytes r)) = 32)"
| "codec_sound H enc dec z (OpPutUncompressed fail r) = (length (H (rd_bytes r)) = 32)"
| "codec_sound H enc dec z (OpDelete fail key) = True"

lemma write_file_files:
  assumes "files_inv H enc dec z R fs" "length (H c) = 32"
    and "if w then body_ok H enc dec True c else c \<in> R"
  shows "files_inv H enc dec z R (write_file (hex_encode (H c)) (stored_form enc w c) fs)"
  using assms
  by (auto simp: files_inv_def hex_encode_valid file_at_write stored_form_def split: if_splits)

lemma Put_files:
  assumes "Put H enc fail r fs = (fs', res)" "files_inv H enc dec z R fs"
    and "length (H (rd_bytes r)) = 32"
    and "if z then body_ok H enc dec True (rd_bytes r) else rd_bytes r \<in> R"
  shows "files_inv H enc dec z R fs'"
  using assms(1)
proof (cases rule: Put_cases)
  case stored
  moreover have "fs_compress fs = z" using assms(2) by (simp add: files_inv_def)
  ultimately show ?thesis using write_file_files [OF assms(2-4)] by simp
qed (use assms(2) in auto)

lemma files_inv_flag:
  "files_inv H enc dec z R fs \<Longrightarrow> files_inv H enc dec y R (fs\<lparr>fs_compress := y\<rparr>)"
  by (simp add: files_inv_def)

lemma PutUncompressed_files:
  assumes "PutUncompressed H enc fail r fs = (fs', res)" "files_inv H enc dec z R fs"
    "length (H (rd_bytes r)) = 32" "rd_bytes r \<in> R"
  shows "files_inv H enc dec z R fs'"
proof -
  obtain raw where put: "Put H enc fail r (fs\<lparr>fs_compress := False\<rparr>) = (raw, res)"
    and fs': "fs' = raw\<lparr>fs_compress := fs_compress fs\<rparr>"
    using assms(1) by (auto simp: PutUncompressed_eq split: prod.splits)
  from Put_files [OF put files_inv_flag [OF assms(2)] assms(3)] assms(4)
  have "files_inv H enc dec False R raw" by simp
  moreover have "fs_compress fs = z" using assms(2) by (simp add: files_inv_def)
  ultimately show ?thesis using fs' files_inv_flag by simp
qed

lemma Delete_files: "files_inv H enc dec z R fs \<Longrightarrow> files_inv H enc dec z R (fst (Delete fail key fs))"
  by (auto simp: Delete_def files_inv_def file_at_delete)

interpretation filed: guarded_system "storage_step H enc" "files_inv H enc dec z R"
  "\<lambda>e. codec_sound H enc dec z e \<and> raw_bodies z e \<subseteq> R" for H enc dec z R
proof unfold_locales
  fix e fs
  assume "codec_sound H enc dec z e \<and> raw_bodies z e \<subseteq> R" "files_inv H enc dec z R fs"
  then show "files_inv H enc dec z R (storage_step H enc fs e)"
    by (cases e) (auto simp: Delete_files body_ok_def intro!: Put_files [OF surjective_pairing]
        PutUncompressed_files [OF surjective_pairing] split: if_splits)
qed

lemma files_inv_open:
  assumes "files_inv H enc dec z R fs" "open_blob fail key fs = Inr m"
  shows "\<exists>c. hex_encode (H c) = key \<and>
     (m = wrap_compressed enc c \<and> body_ok H enc dec True c \<or> m = c \<and> c \<in> R)"
  using assms(1) open_blob_ok [OF assms(2)] by (auto simp: files_inv_def)

text \<open>C4: after any sequence of stores, raw stores and deletions, with the operating system
  failing at any stage of each, what \<open>Get\<close> delivers under a key is a content that hashes to the
  key, with its length announced, or the one exception: the file is a content that hashes to
  the key and was stored raw by one of the operations, it begins with the header of a compressed
  blob, and \<open>Get\<close> delivers the decoding of its tail with the length its header names.\<close>

theorem blobs_content_addressed:
  assumes "\<forall>e \<in> set es. codec_sound H enc dec z e"
    and "GetBlob dec fail key (foldl (storage_step H enc) \<lparr>fs_compress = z, fs_blobs = []\<rparr> es)
           = Inr (out, n)"
  shows "\<exists>c. hex_encode (H c) = key \<and>
     (out = Some c \<and> n = int (length c)
      \<or> (\<exists>e \<in> set es. c \<in> raw_bodies z e) \<and> is_compressed c \<and> out = dec (drop 12 c) \<and> n = orig_size c)"
proof -
  let ?fs = "foldl (storage_step H enc) \<lparr>fs_compress = z, fs_blobs = []\<rparr> es"
  let ?R = "\<Union>e \<in> set es. raw_bodies z e"
  have "\<forall>e \<in> set es. codec_sound H enc dec z e \<and> raw_bodies z e \<subseteq> ?R" using assms(1) by auto
  then have inv: "files_inv H enc dec z ?R ?fs"
    by (rule filed.guarded_run) (simp add: files_inv_def file_at_def)
  from assms(2) obtain m where m: "open_blob fail key ?fs = Inr m"
    by (auto simp: GetBlob_def split: sum.splits)
  from files_inv_open [OF inv this] obtain c where key: "hex_encode (H c) = key"
    and c: "m = wrap_compressed enc c \<and> body_ok H enc dec True c \<or> m = c \<and> c \<in> ?R" by blast
  from c consider "stored_as dec m c" | "m = c" "c \<in> ?R" "is_compressed c"
    by (cases "is_compressed c") (auto simp: stored_as_wrapped stored_as_plain)
  then show ?thesis
  proof cases
    case 1
    with GetBlob_stored [OF this m assms(2)] key show ?thesis by blast
  next
    case 2
    with assms(2) m have "out = dec (drop 12 c) \<and> n = orig_size c"
      by (auto simp: GetBlob_def is_compressed_def split: if_splits)
    with 2 key show ?thesis by auto
  qed
qed

lemma hex_digit_inj: "m < 16 \<Longrightarrow> n < 16 \<Longrightarrow> hex_digit m = hex_digit n \<longleftrightarrow> m = n"
  by (auto simp: hex_digit_def dest!: arg_cong [of _ _ "of_char :: char \<Rightarrow> nat"] split: if_splits)

lemma hex_pair_inj:
  fixes a b :: byte
  assumes "hex_digit (unat a div 16) = hex_digit (unat b div 16)"
    and "hex_digit (unat a mod 16) = hex_digit (unat b mod 16)"
  shows "a = b"
proof -
  have "unat x div 16 < 16" for x :: byte using unsigned_less [of x, where 'a = nat] by simp
  with assms have "unat a div 16 = unat b div 16" "unat a mod 16 = unat b mod 16"
    by (simp_all add: hex_digit_inj)
  then have "unat a = unat b" by (metis div_mult_mod_eq)
  then show ?thesis by (rule unsigned_word_eqI)
qed

lemma hex_encode_inj: "hex_encode a = hex_encode b \<longleftrightarrow> a = b"
proof (induction a arbitrary: b)
  case Nil
  then show ?case by (cases b) (auto simp: hex_encode_def)
next
  case (Cons x a)
  then show ?case by (cases b) (auto simp: hex_encode_def dest: hex_pair_inj)
qed

lemma GetBlob_None:
  "stored_as dec m c \<Longrightarrow> validStorageKey key \<Longrightarrow> file_at fs key = Some m \<Longrightarrow>
   GetBlob dec None key fs = Inr (Some c, int (length c))"
  by (auto simp: GetBlob_def stored_as_def is_compressed_def)

lemma GetBlob_frame:
  "(validStorageKey k \<Longrightarrow> file_at fs' k = file_at fs k) \<Longrightarrow>
   GetBlob dec fail k fs' = GetBlob dec fail k fs"
  by (cases "validStorageKey k") (auto simp: GetBlob_def open_blob_def)

lemma Put_error_reason:
  "Put H enc fail r fs = (fs', Inl e) \<Longrightarrow> fail \<noteq> None \<or> rd_end r \<noteq> IoEOF"
  by (auto simp: Put_def Let_def split: if_splits)

lemma Put_eof: "Put H enc fail r fs = (fs', Inr x) \<Longrightarrow> rd_end r = IoEOF"
  by (auto simp: Put_def split: if_splits)

lemma Put_get:
  assumes "store_inv H dec z fs" "body_ok H enc dec z (rd_bytes r)"
    "\<forall>c. H c = H (rd_bytes r) \<longrightarrow> c = rd_bytes r" "Put H enc fail r fs = (fs', Inr (key, n))"
  shows "key = hex_encode (H (rd_bytes r))" "n = int (length (rd_bytes r))"
    "GetBlob dec None key fs' = Inr (Some (rd_bytes r), n)"
proof -
  let ?key = "hex_encode (H (rd_bytes r))"
  have valid: "validStorageKey ?key" using assms(2) by (simp add: body_ok_def hex_encode_valid)
  have inv: "store_inv H dec z fs'" by (rule Put_inv [OF assms(4,1,2)])
  from assms(4) show key: "key = ?key" and n: "n = int (length (rd_bytes r))"
    by (auto elim!: Put_cases)
  obtain m where m: "file_at fs' ?key = Some m"
    using assms(4) valid by (auto elim!: Put_cases simp: file_at_write)
  with inv valid obtain c where "stored_as dec m c" "hex_encode (H c) = ?key" by (auto simp: store_inv_def)
  with assms(3) have "stored_as dec m (rd_bytes r)" by (auto simp: hex_encode_inj)
  with valid m key n show "GetBlob dec None key fs' = Inr (Some (rd_bytes r), n)" by (simp add: GetBlob_None)
qed

text \<open>storing a body either fails, because a stage failed or the body could not be read,
  and then leaves the store as it was, or returns the key and length of the body, after
  which \<open>Get\<close> delivers exactly that body under that key and every other key delivers what it
  did before. This also holds when the blob was already there, in either form.\<close>

theorem put_get_roundtrip:
  assumes "store_inv H dec z fs" and "body_ok H enc dec z (rd_bytes r)"
    and "\<forall>c. H c = H (rd_bytes r) \<longrightarrow> c = rd_bytes r"
    and "Put H enc fail r fs = (fs', res)"
  shows "case res of
      Inl e \<Rightarrow> fs' = fs \<and> (fail \<noteq> None \<or> rd_end r \<noteq> IoEOF)
    | Inr (key, n) \<Rightarrow> key = hex_encode (H (rd_bytes r)) \<and> n = int (length (rd_bytes r))
        \<and> GetBlob dec None key fs' = Inr (Some (rd_bytes r), n)
        \<and> (\<forall>k. k \<noteq> key \<longrightarrow> GetBlob dec None k fs' = GetBlob dec None k fs)"
proof -
  let ?key = "hex_encode (H (rd_bytes r))"
  have key: "validStorageKey ?key" using assms(2) by (simp add: body_ok_def hex_encode_valid)
  from assms(4) show ?thesis
  proof (cases rule: Put_cases)
    case (error e)
    with Put_error_reason assms(4) show ?thesis by auto
  next
    case present
    with Put_get(3) [OF assms(1-3)] assms(4) show ?thesis by simp
  next
    case stored
    have "GetBlob dec None k fs' = GetBlob dec None k fs" if "k \<noteq> ?key" for k
      using stored(2) that key by (intro GetBlob_frame) (auto simp: file_at_write)
    with Put_get(3) [OF assms(1-3)] assms(4) stored(1) show ?thesis by simp
  qed
qed

text \<open>the three ways of reading a blob agree. A blob passed through undecoded is announced
  with the length of what is sent; its decoding (or itself, when it has no encoding) is what
  \<open>Get\<close> delivers, with the same content length; and random access is offered exactly for
  blobs without an encoding.\<close>

theorem read_paths_agree:
  assumes "fail \<noteq> Some StDecompressor"
  shows "case GetCompressed fail key fs of
      Inl e \<Rightarrow> GetBlob dec fail key fs = Inl e \<and> OpenReaderAt fail key fs = Inl e
    | Inr b \<Rightarrow> cb_size b = int (length (cb_bytes b)) \<and>
        (if cb_encoding b = ''zstd''
         then GetBlob dec fail key fs = Inr (dec (cb_bytes b), cb_orig_size b)
           \<and> OpenReaderAt fail key fs = Inl ErrRandomUnsupported
         else cb_encoding b = [] \<and> GetBlob dec fail key fs = Inr (Some (cb_bytes b), cb_orig_size b)
           \<and> OpenReaderAt fail key fs = Inr (cb_bytes b, cb_size b))"
  using assms
  by (auto simp: GetCompressed_def GetBlob_def OpenReaderAt_def is_compressed_def split: sum.split)

section \<open>Blobs that look compressed\<close>

text \<open>a body stored raw that happens to begin with the header of a compressed blob is not
  delivered as it was stored: \<open>Get\<close> decodes its tail and random access is refused.\<close>

theorem raw_blob_misread:
  assumes "is_compressed (rd_bytes r)" and "rd_end r = IoEOF" and "length (H (rd_bytes r)) = 32"
    and "file_at fs (hex_encode (H (rd_bytes r))) = None"
    and "PutUncompressed H enc None r fs = (fs', res)"
  shows "res = Inr (hex_encode (H (rd_bytes r)), int (length (rd_bytes r)))
    \<and> GetBlob dec None (hex_encode (H (rd_bytes r))) fs' =
        Inr (dec (drop 12 (rd_bytes r)), orig_size (rd_bytes r))
    \<and> OpenReaderAt None (hex_encode (H (rd_bytes r))) fs' = Inl ErrRandomUnsupported"
proof -
  from assms(1) have "rd_bytes r \<noteq> []" by (auto simp: is_compressed_def)
  moreover have "validStorageKey (hex_encode (H (rd_bytes r)))"
    using assms(3) by (rule hex_encode_valid)
  moreover from assms(2,4,5) have
    "res = Inr (hex_encode (H (rd_bytes r)), int (length (rd_bytes r)))"
    "fs' = (write_file (hex_encode (H (rd_bytes r))) (rd_bytes r) (fs\<lparr>fs_compress := False\<rparr>))
              \<lparr>fs_compress := fs_compress fs\<rparr>"
    by (auto simp: PutUncompressed_eq Put_def Let_def)
  ultimately show ?thesis
    using assms(1) by (simp add: GetBlob_def OpenReaderAt_def file_at_write)
qed

section \<open>Abandoned temporary files\<close>

definition sweepable :: "time \<Rightarrow> dir_entry \<Rightarrow> bool" where
  "sweepable now e \<longleftrightarrow> is_put_temp e \<and>
     (case de_info e of None \<Rightarrow> False | Some (mtime, sz) \<Rightarrow> TempMaxAge \<le> now - mtime)"

definition entry_size :: "dir_entry \<Rightarrow> int" where
  "entry_size e = (case de_info e of None \<Rightarrow> 0 | Some (mtime, sz) \<Rightarrow> sz)"

lemma sweep_temp_loop_spec:
  assumes "sweep_temp_loop now es n freed gone = (n', freed', gone', err)"
  shows "\<exists>k \<le> length es.
     (let hit = filter (sweepable now) (take k es) in
      gone' = gone @ map de_name hit \<and> n' = n + int (length hit) \<and>
      freed' = freed + sum_list (map entry_size hit)) \<and>
     (case err of None \<Rightarrow> k = length es
      | Some x \<Rightarrow> k < length es \<and> sweepable now (es ! k) \<and> \<not> de_removable (es ! k))"
  using assms
proof (induction es arbitrary: n freed gone)
  case Nil
  then show ?case by auto
next
  case (Cons e es)
  show ?case
  proof (cases "sweepable now e \<and> \<not> de_removable e")
    case True
    with Cons.prems show ?thesis
      by (intro exI [of _ 0]) (auto simp: sweepable_def split: option.splits if_splits)
  next
    case False
    define n1 where "n1 = (if sweepable now e then n + 1 else n)"
    define f1 where "f1 = (if sweepable now e then freed + entry_size e else freed)"
    define g1 where "g1 = (if sweepable now e then gone @ [de_name e] else gone)"
    from False Cons.prems have "sweep_temp_loop now es n1 f1 g1 = (n', freed', gone', err)"
      by (auto simp: sweepable_def n1_def f1_def g1_def entry_size_def split: option.splits if_splits)
    from Cons.IH [OF this] obtain k where "k \<le> length es"
      "let hit = filter (sweepable now) (take k es) in
        gone' = g1 @ map de_name hit \<and> n' = n1 + int (length hit) \<and>
        freed' = f1 + sum_list (map entry_size hit)"
      "case err of None \<Rightarrow> k = length es
       | Some x \<Rightarrow> k < length es \<and> sweepable now (es ! k) \<and> \<not> de_removable (es ! k)"
      by blast
    then show ?thesis
      by (intro exI [of _ "Suc k"]) (auto simp: Let_def n1_def f1_def g1_def split: option.splits)
  qed
qed

text \<open>the sweep removes, in the order of the listing, exactly the files of interrupted
  stores that are at least a day old; the counts are theirs, and it stops early only at one
  of them that cannot be removed. Directories, stored blobs and fresh files stay.\<close>

theorem SweepTemp_exact:
  assumes "SweepTemp now (Some es) = (n, freed, gone, err)"
  shows "\<exists>k \<le> length es.
     (let hit = filter (sweepable now) (take k es) in
      gone = map de_name hit \<and> n = int (length hit) \<and> freed = sum_list (map entry_size hit)) \<and>
     (case err of None \<Rightarrow> k = length es
      | Some x \<Rightarrow> k < length es \<and> sweepable now (es ! k) \<and> \<not> de_removable (es ! k))"
  using sweep_temp_loop_spec [of now es 0 0 "[]" n freed gone err] assms
  by (simp add: SweepTemp_def)

section \<open>The store as its clients see it\<close>

text \<open>What the eviction code relies on: deleting a key makes that key absent and no other.\<close>

locale blob_store =
  fixes has_blob :: "'s \<Rightarrow> string \<Rightarrow> bool"
    and del_blob :: "string \<Rightarrow> 's \<Rightarrow> 's"
  assumes has_del: "has_blob (del_blob k s) k' \<longleftrightarrow> k' \<noteq> k \<and> has_blob s k'"
begin

lemma has_del_all: "has_blob (fold del_blob ks s) k' \<longleftrightarrow> k' \<notin> set ks \<and> has_blob s k'"
  by (induction ks arbitrary: s) (auto simp: has_del)

lemma del_all_sub: "set ks \<subseteq> set ks' \<Longrightarrow> has_blob (fold del_blob ks' s) k \<Longrightarrow> has_blob (fold del_blob ks s) k"
  by (auto simp: has_del_all)

end

definition present :: "filesystem \<Rightarrow> string \<Rightarrow> bool" where
  "present fs key = fst (Exists None key fs)"

definition remove_blob :: "string \<Rightarrow> filesystem \<Rightarrow> filesystem" where
  "remove_blob key fs = fst (Delete None key fs)"

interpretation fs_store: blob_store present remove_blob
  by unfold_locales (auto simp: present_def remove_blob_def Exists_def Delete_def file_at_delete)

section \<open>Concrete instances\<close>

definition demo_reader :: "bytes \<Rightarrow> reader" where
  "demo_reader bs = \<lparr>rd_segs = [bs], rd_end = IoEOF, rd_eager = False\<rparr>"

definition demo_hash :: "bytes \<Rightarrow> hash" where
  "demo_hash bs c = (if c = bs then replicate 32 0xA7 else replicate 32 0)"

definition demo_enc :: "bytes \<Rightarrow> bytes" where "demo_enc c = 0xFF # c"

definition demo_dec :: "bytes \<Rightarrow> bytes option" where
  "demo_dec bs = (case bs of [] \<Rightarrow> None | b # c \<Rightarrow> if b = 0xFF then Some c else None)"

lemma demo_reader_simps [simp]: "rd_bytes (demo_reader bs) = bs" "rd_end (demo_reader bs) = IoEOF"
  by (simp_all add: demo_reader_def rd_bytes_def)

lemma demo_body_ok:
  "body_ok (demo_hash b) demo_enc demo_dec z [1, 2, 3]"
  by (simp add: body_ok_def demo_hash_def demo_enc_def demo_dec_def is_compressed_def)

lemma demo_store:
  "fst (Put (demo_hash b) demo_enc (Some StFinish) (demo_reader b) \<lparr>fs_compress = True, fs_blobs = []\<rparr>)
     = \<lparr>fs_compress = True, fs_blobs = []\<rparr>"
  "Put (demo_hash b) demo_enc None (demo_reader b) \<lparr>fs_compress = True, fs_blobs = []\<rparr> =
     (write_file (hex_encode (replicate 32 0xA7)) (wrap_compressed demo_enc b)
        \<lparr>fs_compress = True, fs_blobs = []\<rparr>, Inr (hex_encode (replicate 32 0xA7), int (length b)))"
  by (simp_all add: Put_def Let_def demo_hash_def file_at_def)

definition demo_ops :: "storage_op list" where
  "demo_ops = [OpPut (Some StFinish) (demo_reader [1, 2, 3]),
     OpPutUncompressed None (demo_reader (wrap_compressed demo_enc [4, 5])),
     OpPut None (demo_reader [1, 2, 3])]"

lemma demo_ops_run:
  "foldl (storage_step (demo_hash [1, 2, 3]) demo_enc) \<lparr>fs_compress = True, fs_blobs = []\<rparr> demo_ops =
     write_file (hex_encode (replicate 32 0xA7)) (wrap_compressed demo_enc [1, 2, 3])
       (write_file (hex_encode (replicate 32 0)) (wrap_compressed demo_enc [4, 5])
          \<lparr>fs_compress = True, fs_blobs = []\<rparr>)"
proof -
  have "wrap_compressed demo_enc [4, 5] \<noteq> [1, 2, 3]"
    by (simp add: wrap_compressed_def compressedMagic_def)
  moreover have "(hex_encode (replicate 32 0xA7) = hex_encode (replicate 32 0)) = False"
    by (simp add: hex_encode_inj)
  ultimately show ?thesis
    by (simp add: demo_ops_def demo_store PutUncompressed_def)
       (simp add: Put_def Let_def demo_hash_def file_at_def write_file_def al_simps rel_inj hex_encode_valid)
qed

lemma demo_ops_get:
  "GetBlob demo_dec None (hex_encode (replicate 32 0xA7))
     (foldl (storage_step (demo_hash [1, 2, 3]) demo_enc) \<lparr>fs_compress = True, fs_blobs = []\<rparr> demo_ops)
     = Inr (Some [1, 2, 3], 3)"
  "GetBlob demo_dec None (hex_encode (replicate 32 0))
     (foldl (storage_step (demo_hash [1, 2, 3]) demo_enc) \<lparr>fs_compress = True, fs_blobs = []\<rparr> demo_ops)
     = Inr (Some [4, 5], 2)"
  unfolding demo_ops_run
  by (simp_all add: GetBlob_def file_at_write hex_encode_valid hex_encode_inj demo_dec_def demo_enc_def
      wrap_orig_size)

theorem blobs_content_addressed_witness:
  "(\<exists>c. hex_encode (demo_hash [1, 2, 3] c) = hex_encode (replicate 32 0xA7) \<and>
     (c = [1, 2, 3] \<or> (\<exists>e \<in> set demo_ops. c \<in> raw_bodies True e) \<and> is_compressed c))
   \<and> (\<exists>c. hex_encode (demo_hash [1, 2, 3] c) = hex_encode (replicate 32 0) \<and>
     (c = [4, 5] \<or> (\<exists>e \<in> set demo_ops. c \<in> raw_bodies True e) \<and> is_compressed c))"
proof -
  have "body_ok (demo_hash [1, 2, 3]) demo_enc demo_dec True [1, 2, 3]" by (rule demo_body_ok)
  then have ok: "\<forall>e \<in> set demo_ops. codec_sound (demo_hash [1, 2, 3]) demo_enc demo_dec True e"
    by (simp add: demo_ops_def demo_hash_def)
  from blobs_content_addressed [OF ok demo_ops_get(1)] blobs_content_addressed [OF ok demo_ops_get(2)]
  show ?thesis by auto
qed

theorem put_get_roundtrip_witness:
  "Put (demo_hash [1, 2, 3]) demo_enc None (demo_reader [1, 2, 3]) \<lparr>fs_compress = True, fs_blobs = []\<rparr>
     = (write_file (hex_encode (replicate 32 0xA7)) (wrap_compressed demo_enc [1, 2, 3])
          \<lparr>fs_compress = True, fs_blobs = []\<rparr>, Inr (hex_encode (replicate 32 0xA7), 3))
   \<and> GetBlob demo_dec None (hex_encode (replicate 32 0xA7))
       (write_file (hex_encode (replicate 32 0xA7)) (wrap_compressed demo_enc [1, 2, 3])
          \<lparr>fs_compress = True, fs_blobs = []\<rparr>) = Inr (Some [1, 2, 3], 3)"
proof -
  let ?fs = "\<lparr>fs_compress = True, fs_blobs = []\<rparr>"
  have inv: "store_inv (demo_hash [1, 2, 3]) demo_dec True ?fs"
    by (simp add: store_inv_def file_at_def)
  have put: "Put (demo_hash [1, 2, 3]) demo_enc None (demo_reader [1, 2, 3]) ?fs
     = (write_file (hex_encode (replicate 32 0xA7)) (wrap_compressed demo_enc [1, 2, 3]) ?fs,
        Inr (hex_encode (replicate 32 0xA7), 3))"
    by (simp add: demo_store)
  from put_get_roundtrip [OF inv _ _ put] put show ?thesis
    by (simp add: demo_body_ok demo_hash_def)
qed

theorem read_paths_agree_witness:
  "GetCompressed None (replicate 64 CHR ''a'')
      \<lparr>fs_compress = False, fs_blobs = [(rel (replicate 64 CHR ''a''), [1, 2])]\<rparr>
     = Inr \<lparr>cb_bytes = [1, 2], cb_encoding = [], cb_size = 2, cb_orig_size = 2\<rparr>
   \<and> GetBlob demo_dec None (replicate 64 CHR ''a'')
      \<lparr>fs_compress = False, fs_blobs = [(rel (replicate 64 CHR ''a''), [1, 2])]\<rparr> = Inr (Some [1, 2], 2)"
proof -
  let ?fs = "\<lparr>fs_compress = False, fs_blobs = [(rel (replicate 64 CHR ''a''), [1, 2])]\<rparr>"
  have "GetCompressed None (replicate 64 CHR ''a'') ?fs
     = Inr \<lparr>cb_bytes = [1, 2], cb_encoding = [], cb_size = 2, cb_orig_size = 2\<rparr>"
    by code_simp
  with read_paths_agree [of None demo_dec "replicate 64 CHR ''a''" ?fs] show ?thesis by simp
qed

theorem raw_blob_misread_witness:
  "snd (PutUncompressed (demo_hash (wrap_compressed demo_enc [1, 2])) demo_enc None
      (demo_reader (wrap_compressed demo_enc [1, 2])) \<lparr>fs_compress = True, fs_blobs = []\<rparr>)
     = Inr (hex_encode (replicate 32 0xA7), 15)
   \<and> GetBlob demo_dec None (hex_encode (replicate 32 0xA7))
      (fst (PutUncompressed (demo_hash (wrap_compressed demo_enc [1, 2])) demo_enc None
        (demo_reader (wrap_compressed demo_enc [1, 2])) \<lparr>fs_compress = True, fs_blobs = []\<rparr>))
     = Inr (Some [1, 2], 2)"
proof -
  let ?c = "wrap_compressed demo_enc [1, 2]"
  have H: "demo_hash ?c ?c = replicate 32 0xA7" by (simp add: demo_hash_def)
  have size: "length ?c = 15" "orig_size ?c = 2" "drop 12 ?c = 0xFF # [1, 2]"
    by (simp_all add: wrap_orig_size) (simp_all add: wrap_compressed_def demo_enc_def)
  obtain fs' res where put: "PutUncompressed (demo_hash ?c) demo_enc None (demo_reader ?c)
     \<lparr>fs_compress = True, fs_blobs = []\<rparr> = (fs', res)" by fastforce
  from raw_blob_misread [OF _ _ _ _ put, of demo_dec] show ?thesis
    by (simp add: H put size file_at_def demo_dec_def demo_enc_def)
qed

definition demo_listing :: "dir_entry list" where
  "demo_listing =
    [\<lparr>de_name = ''.upload-7'', de_is_dir = False, de_info = Some (0, 10), de_removable = True\<rparr>,
     \<lparr>de_name = ''ab'', de_is_dir = True, de_info = Some (0, 0), de_removable = True\<rparr>,
     \<lparr>de_name = ''.compress-8'', de_is_dir = False, de_info = Some (TempMaxAge, 5), de_removable = True\<rparr>]"

theorem SweepTemp_exact_witness:
  "SweepTemp (TempMaxAge + 1) (Some demo_listing) = (1, 10, [''.upload-7''], None)
   \<and> [''.upload-7''] = map de_name (filter (sweepable (TempMaxAge + 1)) demo_listing)"
proof -
  have "SweepTemp (TempMaxAge + 1) (Some demo_listing) = (1, 10, [''.upload-7''], None)"
    by code_simp
  from this SweepTemp_exact [OF this] show ?thesis by (auto simp: Let_def)
qed

end
