(* ===== verification/Retention.thy ===== *)
theory Retention
  imports Evict Storage
begin

text \<open>
  The eviction engine: \<open>internal/retention/retention.go\<close>, \<open>sweep.go\<close> and
  \<open>deletedbranches.go\<close>. It lists the releases the policy forgets, evicts them from the
  database, deletes the blobs that became free from the store and retracts the records
  posted for them. What GitHub answers about branches, what the record service answers, and
  which deletions in the store fail are arguments.

  The report is returned together with the result of \<open>evict\<close>, which fills it through a
  pointer; the model returns the report as \<open>evict\<close> leaves it.
\<close>

section \<open>Reports\<close>

record config =
  KeepN :: int
  RecencyGuard :: int
  Enforce :: bool

record release_ref =
  rr_id :: int
  rr_project_id :: int
  rr_project_name :: string
  rr_branch :: string
  rr_version :: string

record branch_check =
  bc_project :: string
  bc_repo :: string
  bc_branch :: string
  bc_state :: string
  bc_error :: string
  bc_releases :: int

record report =
  rep_enforced :: bool
  rep_evicted :: "release_ref list"
  rep_abandoned :: "release_ref list"
  rep_blobs_deleted :: int
  rep_blobs_retained :: int
  rep_bytes :: int
  rep_freed :: "(string \<times> int) list"
  rep_deleted_branch :: "release_ref list"
  rep_checks :: "branch_check list"
  rep_marked :: int
  rep_unmarked :: int
  rep_record_errors :: "string list"

definition new_report :: "bool \<Rightarrow> report" where
  "new_report enforce = \<lparr>rep_enforced = enforce, rep_evicted = [], rep_abandoned = [], rep_blobs_deleted = 0,
     rep_blobs_retained = 0, rep_bytes = 0, rep_freed = [], rep_deleted_branch = [], rep_checks = [],
     rep_marked = 0, rep_unmarked = 0, rep_record_errors = []\<rparr>"

definition report_releases :: "report \<Rightarrow> nat" where
  "report_releases r = length (rep_evicted r) + length (rep_abandoned r) + length (rep_deleted_branch r)"

definition ConfigFromSettings :: "int \<times> int \<Rightarrow> bool \<Rightarrow> config" where
  "ConfigFromSettings s enforce =
     \<lparr>KeepN = fst s, RecencyGuard = wrap64 (snd s * (3600 * SecondNs)), Enforce = enforce\<rparr>"

section \<open>Records of the evicted artifacts\<close>

record doomed_record =
  dr_repo :: string
  dr_project :: string
  dr_version :: string
  dr_sha256 :: string

fun collect_loop :: "db \<Rightarrow> release_ref list \<Rightarrow> (int \<times> string) list \<Rightarrow> doomed_record list \<Rightarrow> doomed_record list" where
  "collect_loop d [] repos out = out"
| "collect_loop d (ref # refs) repos out =
     (let repo = (case map_of repos (rr_project_id ref) of
                    Some r \<Rightarrow> r
                  | None \<Rightarrow> (case GetProject (rr_project_name ref) d of Inr p \<Rightarrow> p_github_repo p | Inl _ \<Rightarrow> []));
          repos' = (case map_of repos (rr_project_id ref) of
                      Some r \<Rightarrow> repos | None \<Rightarrow> (rr_project_id ref, repo) # repos)
      in if repo = [] then collect_loop d refs repos' out
         else collect_loop d refs repos' (out @
           map (\<lambda>a. \<lparr>dr_repo = repo, dr_project = rr_project_name ref, dr_version = rr_version ref,
                     dr_sha256 = a_sha256 a\<rparr>)
             (filter (\<lambda>a. a_sha256 a \<noteq> []) (release_artifacts (rr_id ref) d))))"

definition collectRecords :: "db \<Rightarrow> release_ref list \<Rightarrow> doomed_record list" where
  "collectRecords d refs = collect_loop d refs [] []"

text \<open>\<open>MarkDeleted\<close> answers an error message or none.\<close>

type_synonym record_deleter = "doomed_record \<Rightarrow> string option"

fun mark_loop :: "record_deleter \<Rightarrow> doomed_record list \<Rightarrow> string list \<Rightarrow> report \<Rightarrow> report" where
  "mark_loop del [] seen rep = rep"
| "mark_loop del (r # rs) seen rep =
     (case del r of
        None \<Rightarrow> mark_loop del rs seen (rep\<lparr>rep_marked := rep_marked rep + 1\<rparr>)
      | Some msg \<Rightarrow>
          mark_loop del rs (if msg \<in> set seen then seen else msg # seen)
            (rep\<lparr>rep_unmarked := rep_unmarked rep + 1,
                 rep_record_errors := (if msg \<in> set seen then rep_record_errors rep
                                       else rep_record_errors rep @ [msg])\<rparr>))"

definition markRecordsDeleted :: "record_deleter option \<Rightarrow> doomed_record list \<Rightarrow> report \<Rightarrow> report" where
  "markRecordsDeleted deleter doomed rep =
     (if doomed = [] then rep
      else case deleter of
        None \<Rightarrow> rep\<lparr>rep_unmarked := int (length doomed),
                    rep_record_errors := rep_record_errors rep @ [''no record deleter configured'']\<rparr>
      | Some del \<Rightarrow> mark_loop del doomed [] rep)"

section \<open>Eviction\<close>

text \<open>The loop over the freed blobs: accounting, and the deletion from the store when enforcing.
  A failed deletion is logged and skipped.\<close>

fun free_loop :: "(string \<Rightarrow> bool) \<Rightarrow> bool \<Rightarrow> (string \<times> int) list \<Rightarrow> report \<times> filesystem \<Rightarrow> report \<times> filesystem" where
  "free_loop delfail enforce [] s = s"
| "free_loop delfail enforce ((k, sz) # refs) (rep, fs) =
     free_loop delfail enforce refs
       (rep\<lparr>rep_bytes := rep_bytes rep + sz, rep_freed := rep_freed rep @ [(k, sz)]\<rparr>,
        if enforce then fst (Delete (if delfail k then Some StRemove else None) k fs) else fs)"

definition evict :: "(string \<Rightarrow> bool) \<Rightarrow> record_deleter option \<Rightarrow> report \<Rightarrow> release_ref list \<Rightarrow> int list \<Rightarrow> bool
    \<Rightarrow> db \<times> filesystem \<Rightarrow> (db \<times> filesystem) \<times> report \<times> db_error option" where
  "evict delfail deleter rep refs ids enforce s =
     (case s of (d, fs) \<Rightarrow>
      if ids = [] then (s, rep, None)
      else
        (let doomed = collectRecords d refs in
         case EvictReleases ids enforce d of (d', freed, candidates, evictErr) \<Rightarrow>
           if evictErr \<noteq> None \<and> freed = [] then ((d', fs), rep, evictErr)
           else
             (let rep1 = rep\<lparr>rep_blobs_deleted := int (length freed),
                            rep_blobs_retained := int candidates - int (length freed)\<rparr>
              in case free_loop delfail enforce freed (rep1, fs) of (rep2, fs') \<Rightarrow>
                 if evictErr \<noteq> None then ((d', fs'), rep2, evictErr)
                 else if enforce then ((d', fs'), markRecordsDeleted deleter doomed rep2, None)
                 else ((d', fs'), rep2\<lparr>rep_unmarked := int (length doomed)\<rparr>, None))))"

definition ref_of :: "db \<Rightarrow> release \<Rightarrow> release_ref" where
  "ref_of d r = \<lparr>rr_id = r_id r, rr_project_id = r_project_id r,
     rr_project_name = (case project_by_id (r_project_id r) d of None \<Rightarrow> [] | Some p \<Rightarrow> p_name p),
     rr_branch = r_git_branch r, rr_version = r_version r\<rparr>"

definition run :: "time \<Rightarrow> config \<Rightarrow> (string \<Rightarrow> bool) \<Rightarrow> record_deleter option \<Rightarrow> bool \<Rightarrow> db \<times> filesystem
    \<Rightarrow> (db \<times> filesystem) \<times> report \<times> db_error option" where
  "run now cfg delfail deleter enforce s =
     (case s of (d, fs) \<Rightarrow>
      let cutoff = now - RecencyGuard cfg;
          abandoned = ListAbandonedReleases cutoff d;
          evictable = ListEvictableReleases (KeepN cfg) cutoff d;
          rep = (new_report enforce)\<lparr>rep_abandoned := map (ref_of d) abandoned, rep_evicted := map (ref_of d) evictable\<rparr>;
          ids = map r_id abandoned @ map r_id evictable;
          refs = rep_evicted rep @ rep_abandoned rep
      in evict delfail deleter rep refs ids enforce s)"

definition Plan :: "time \<Rightarrow> config \<Rightarrow> (string \<Rightarrow> bool) \<Rightarrow> record_deleter option \<Rightarrow> db \<times> filesystem
    \<Rightarrow> (db \<times> filesystem) \<times> report \<times> db_error option" where
  "Plan now cfg delfail deleter s = run now cfg delfail deleter False s"

definition Run :: "time \<Rightarrow> config \<Rightarrow> (string \<Rightarrow> bool) \<Rightarrow> record_deleter option \<Rightarrow> db \<times> filesystem
    \<Rightarrow> (db \<times> filesystem) \<times> report \<times> db_error option" where
  "Run now cfg delfail deleter s = run now cfg delfail deleter (Enforce cfg) s"

text \<open>\<open>DeleteBlobIfUnreferenced\<close>.\<close>

definition DeleteBlobIfUnreferenced :: "(string \<Rightarrow> bool) \<Rightarrow> string \<Rightarrow> bool \<Rightarrow> db \<Rightarrow> filesystem
    \<Rightarrow> filesystem \<times> (storage_error + bool)" where
  "DeleteBlobIfUnreferenced delfail key enforce d fs =
     (if key = [] then (fs, Inr False)
      else if IsBlobReferenced key d then (fs, Inr False)
      else if enforce then
        (case Delete (if delfail key then Some StRemove else None) key fs of
           (fs', Some e) \<Rightarrow> (fs', Inl e)
         | (fs', None) \<Rightarrow> (fs', Inr True))
      else (fs, Inr True))"

section \<open>Branches that are gone\<close>

definition BranchDeleted :: string where "BranchDeleted = ''deleted''"
definition BranchPresent :: string where "BranchPresent = ''present''"
definition BranchDefault :: string where "BranchDefault = ''default''"
definition BranchUnknown :: string where "BranchUnknown = ''unknown''"

record ref_checker =
  DefaultBranch :: "string \<Rightarrow> string + string"
  RefPresent :: "string \<Rightarrow> string \<Rightarrow> string + bool"

definition check_branch :: "ref_checker \<Rightarrow> string + string \<Rightarrow> project \<Rightarrow> release \<Rightarrow> branch_check" where
  "check_branch rc ans p r =
     (let c = \<lparr>bc_project = p_name p, bc_repo = p_github_repo p, bc_branch = r_git_branch r,
              bc_state = [], bc_error = [], bc_releases = 0\<rparr>
      in case ans of
           Inl e \<Rightarrow> c\<lparr>bc_state := BranchUnknown, bc_error := e\<rparr>
         | Inr def \<Rightarrow>
             if r_git_branch r = def then c\<lparr>bc_state := BranchDefault\<rparr>
             else (case RefPresent rc (p_github_repo p) (r_git_branch r) of
                     Inl e \<Rightarrow> c\<lparr>bc_state := BranchUnknown, bc_error := e\<rparr>
                   | Inr True \<Rightarrow> c\<lparr>bc_state := BranchPresent\<rparr>
                   | Inr False \<Rightarrow> c\<lparr>bc_state := BranchDeleted\<rparr>))"

type_synonym repo_answers = "(string \<times> (string + string)) list"
type_synonym check_index = "((string \<times> string) \<times> nat) list"

text \<open>One row: what GitHub answered for a repository is kept in \<open>repos\<close>, the index of the check of
  a project's branch in \<open>checks\<close>. The last component is the state of the branch.\<close>

definition branch_row :: "ref_checker \<Rightarrow> project \<Rightarrow> release \<Rightarrow> repo_answers \<Rightarrow> check_index \<Rightarrow> branch_check list
    \<Rightarrow> repo_answers \<times> check_index \<times> branch_check list \<times> string" where
  "branch_row rc p r repos checks cs =
     (let key = (p_name p, r_git_branch r) in
      case map_of checks key of
        Some i \<Rightarrow> (repos, checks, cs[i := (cs ! i)\<lparr>bc_releases := bc_releases (cs ! i) + 1\<rparr>], bc_state (cs ! i))
      | None \<Rightarrow>
          (let ans = (case map_of repos (p_github_repo p) of Some a \<Rightarrow> a | None \<Rightarrow> DefaultBranch rc (p_github_repo p));
               repos' = (case map_of repos (p_github_repo p) of Some a \<Rightarrow> repos | None \<Rightarrow> (p_github_repo p, ans) # repos);
               c = check_branch rc ans p r
           in (repos', (key, length cs) # checks, cs @ [c\<lparr>bc_releases := bc_releases c + 1\<rparr>], bc_state c)))"

fun branch_loop :: "ref_checker \<Rightarrow> (project \<times> release) list \<Rightarrow> repo_answers \<Rightarrow> check_index \<Rightarrow> report \<Rightarrow> int list
    \<Rightarrow> report \<times> int list" where
  "branch_loop rc [] repos checks rep ids = (rep, ids)"
| "branch_loop rc ((p, r) # rows) repos checks rep ids =
     (case branch_row rc p r repos checks (rep_checks rep) of (repos', checks', cs', state) \<Rightarrow>
      if state = BranchDeleted
      then branch_loop rc rows repos' checks'
             (rep\<lparr>rep_checks := cs', rep_deleted_branch := rep_deleted_branch rep @
                [\<lparr>rr_id = r_id r, rr_project_id = r_project_id r, rr_project_name = p_name p,
                  rr_branch = r_git_branch r, rr_version = r_version r\<rparr>]\<rparr>) (ids @ [r_id r])
      else branch_loop rc rows repos' checks' (rep\<lparr>rep_checks := cs'\<rparr>) ids)"

definition deletedBranches :: "time \<Rightarrow> config \<Rightarrow> (string \<Rightarrow> bool) \<Rightarrow> record_deleter option \<Rightarrow> ref_checker \<Rightarrow> bool
    \<Rightarrow> db \<times> filesystem \<Rightarrow> (db \<times> filesystem) \<times> report \<times> db_error option" where
  "deletedBranches now cfg delfail deleter rc enforce s =
     (case s of (d, fs) \<Rightarrow>
      case branch_loop rc (ListNonDefaultBranchReleases (now - RecencyGuard cfg) d) [] [] (new_report enforce) [] of
        (rep, ids) \<Rightarrow> evict delfail deleter rep (rep_deleted_branch rep) ids enforce s)"

definition PlanDeletedBranches :: "time \<Rightarrow> config \<Rightarrow> (string \<Rightarrow> bool) \<Rightarrow> record_deleter option \<Rightarrow> ref_checker
    \<Rightarrow> db \<times> filesystem \<Rightarrow> (db \<times> filesystem) \<times> report \<times> db_error option" where
  "PlanDeletedBranches now cfg delfail deleter rc s = deletedBranches now cfg delfail deleter rc False s"

definition RunDeletedBranches :: "time \<Rightarrow> config \<Rightarrow> (string \<Rightarrow> bool) \<Rightarrow> record_deleter option \<Rightarrow> ref_checker
    \<Rightarrow> db \<times> filesystem \<Rightarrow> (db \<times> filesystem) \<times> report \<times> db_error option" where
  "RunDeletedBranches now cfg delfail deleter rc s = deletedBranches now cfg delfail deleter rc (Enforce cfg) s"

section \<open>What an eviction does to the store\<close>

definition deletable :: "(string \<Rightarrow> bool) \<Rightarrow> (string \<times> int) list \<Rightarrow> string list" where
  "deletable delfail freed = filter (\<lambda>k. \<not> delfail k) (map fst freed)"

lemma Delete_fail: "fst (Delete (Some StRemove) k fs) = fs"
  by (simp add: Delete_def)

lemma free_loop_spec:
  "free_loop delfail enforce refs (rep, fs) =
     (rep\<lparr>rep_bytes := rep_bytes rep + sum_list (map snd refs), rep_freed := rep_freed rep @ refs\<rparr>,
      if enforce then fold remove_blob (deletable delfail refs) fs else fs)"
  by (induction refs arbitrary: rep fs) (auto simp: deletable_def Delete_fail remove_blob_def)

lemma mark_loop_frame:
  "rep_freed (mark_loop del rs seen rep) = rep_freed rep" "rep_bytes (mark_loop del rs seen rep) = rep_bytes rep"
  "rep_blobs_deleted (mark_loop del rs seen rep) = rep_blobs_deleted rep"
  "rep_evicted (mark_loop del rs seen rep) = rep_evicted rep"
  "rep_abandoned (mark_loop del rs seen rep) = rep_abandoned rep"
  by (induction del rs seen rep rule: mark_loop.induct) (auto split: option.split)

lemma markRecordsDeleted_frame:
  "rep_freed (markRecordsDeleted del ds rep) = rep_freed rep"
  "rep_bytes (markRecordsDeleted del ds rep) = rep_bytes rep"
  "rep_blobs_deleted (markRecordsDeleted del ds rep) = rep_blobs_deleted rep"
  "rep_evicted (markRecordsDeleted del ds rep) = rep_evicted rep"
  "rep_abandoned (markRecordsDeleted del ds rep) = rep_abandoned rep"
  by (auto simp: markRecordsDeleted_def mark_loop_frame split: option.split)

text \<open>The database and the store after an eviction, and the parts of the report that tell of
  them.\<close>

lemma evict_outcome:
  assumes "evict delfail deleter rep refs ids enforce (d, fs) = ((d', fs'), rep', err)"
  shows "\<exists>freed n. EvictReleases ids enforce d = (d', freed, n, err)
    \<and> fs' = (if enforce then fold remove_blob (deletable delfail freed) fs else fs)
    \<and> rep_freed rep' = rep_freed rep @ freed \<and> rep_bytes rep' = rep_bytes rep + sum_list (map snd freed)
    \<and> rep_evicted rep' = rep_evicted rep \<and> rep_abandoned rep' = rep_abandoned rep
    \<and> (ids \<noteq> [] \<longrightarrow> err = None \<or> freed \<noteq> [] \<longrightarrow> rep_blobs_deleted rep' = int (length freed))"
proof (cases "ids = []")
  case True
  with assms show ?thesis by (auto simp: evict_def EvictReleases_def deletable_def)
next
  case False
  obtain d1 freed n e where ev: "EvictReleases ids enforce d = (d1, freed, n, e)" by (metis prod_cases4)
  show ?thesis
  proof (cases "e \<noteq> None \<and> freed = []")
    case True
    with assms False ev show ?thesis by (auto simp: evict_def deletable_def)
  next
    case other: False
    with assms False ev have "d' = d1" "err = e"
      "fs' = (if enforce then fold remove_blob (deletable delfail freed) fs else fs)"
      "rep_freed rep' = rep_freed rep @ freed" "rep_bytes rep' = rep_bytes rep + sum_list (map snd freed)"
      "rep_evicted rep' = rep_evicted rep" "rep_abandoned rep' = rep_abandoned rep"
      "rep_blobs_deleted rep' = int (length freed)"
      by (auto simp: evict_def free_loop_spec markRecordsDeleted_frame Let_def split: if_splits)
    with ev show ?thesis by blast
  qed
qed

lemma evict_keeps_referenced:
  assumes "evict delfail deleter rep refs ids enforce (d, fs) = ((d', fs'), rep', err)"
    and "IsBlobReferenced k d'" "present fs k"
  shows "present fs' k"
proof -
  from evict_outcome [OF assms(1)] obtain freed n where ev: "EvictReleases ids enforce d = (d', freed, n, err)"
    and fs': "fs' = (if enforce then fold remove_blob (deletable delfail freed) fs else fs)" by blast
  have "enforce \<longrightarrow> k \<notin> fst ` set freed" using eviction_frees_dead [OF ev] assms(2) by auto
  then show ?thesis using fs' assms(3) by (auto simp: fs_store.has_del_all deletable_def)
qed

lemma run_evict:
  assumes "run now cfg delfail deleter enforce (d, fs) = out"
  obtains rep refs where "out = evict delfail deleter rep refs
      (map r_id (ListAbandonedReleases (now - RecencyGuard cfg) d @ ListEvictableReleases (KeepN cfg) (now - RecencyGuard cfg) d))
      enforce (d, fs)"
    "rep_freed rep = []" "rep_bytes rep = 0"
    "rep_evicted rep = map (ref_of d) (ListEvictableReleases (KeepN cfg) (now - RecencyGuard cfg) d)"
    "rep_abandoned rep = map (ref_of d) (ListAbandonedReleases (now - RecencyGuard cfg) d)"
  using assms by (auto simp: run_def Let_def new_report_def)

text \<open>C2: no pass of the engine deletes a blob that a row left in the database refers to,
  whatever fails on the way: such a blob, if it was in the store, still is.\<close>

theorem retention_keeps_live_blobs:
  assumes "run now cfg delfail deleter enforce (d, fs) = ((d', fs'), rep, err)
    \<or> deletedBranches now cfg delfail deleter rc enforce (d, fs) = ((d', fs'), rep, err)"
    and "IsBlobReferenced k d'" and "present fs k"
  shows "present fs' k"
  using assms(1)
proof
  assume "run now cfg delfail deleter enforce (d, fs) = ((d', fs'), rep, err)"
  from run_evict [OF this] show ?thesis using evict_keeps_referenced assms(2,3) by metis
next
  assume "deletedBranches now cfg delfail deleter rc enforce (d, fs) = ((d', fs'), rep, err)"
  then show ?thesis
    using evict_keeps_referenced assms(2,3) by (auto simp: deletedBranches_def split: prod.splits)
qed

text \<open>planning changes neither the database nor the store, and what it reports is what a
  run then does: the same releases, the same blobs, the same bytes.\<close>

theorem plan_predicts_run:
  assumes "sizes_ok f d" and "Plan now cfg delfail deleter (d, fs) = (s0, rep, None)"
  shows "s0 = (d, fs) \<and> (\<exists>s' rep'. run now cfg delfail deleter True (d, fs) = (s', rep', None)
    \<and> rep_evicted rep' = rep_evicted rep \<and> rep_abandoned rep' = rep_abandoned rep
    \<and> rep_freed rep' = rep_freed rep \<and> rep_bytes rep' = rep_bytes rep)"
proof -
  let ?ids = "map r_id (ListAbandonedReleases (now - RecencyGuard cfg) d @ ListEvictableReleases (KeepN cfg) (now - RecencyGuard cfg) d)"
  obtain d0 fs0 where s0: "s0 = (d0, fs0)" by fastforce
  from run_evict [OF assms(2) [unfolded Plan_def]] obtain rep0 refs0 where
    dry: "evict delfail deleter rep0 refs0 ?ids False (d, fs) = ((d0, fs0), rep, None)"
    "rep_freed rep0 = []" "rep_bytes rep0 = 0"
    "rep_evicted rep0 = map (ref_of d) (ListEvictableReleases (KeepN cfg) (now - RecencyGuard cfg) d)"
    "rep_abandoned rep0 = map (ref_of d) (ListAbandonedReleases (now - RecencyGuard cfg) d)"
    using s0 by metis
  from evict_outcome [OF dry(1)] obtain freed n where
    ev: "EvictReleases ?ids False d = (d0, freed, n, None)" and same: "fs0 = fs"
    "rep_freed rep = freed" "rep_bytes rep = sum_list (map snd freed)"
    "rep_evicted rep = rep_evicted rep0" "rep_abandoned rep = rep_abandoned rep0"
    using dry by auto
  from dry_run_agrees [OF assms(1) ev] obtain d1 n1 where
    d0: "d0 = d" and real: "EvictReleases ?ids True d = (d1, freed, n1, None)" by blast
  obtain s' rep' err where run: "run now cfg delfail deleter True (d, fs) = (s', rep', err)" by (metis prod_cases3)
  obtain d2 fs2 where s': "s' = (d2, fs2)" by fastforce
  from run_evict [OF run] obtain rep1 refs1 where
    wet: "evict delfail deleter rep1 refs1 ?ids True (d, fs) = ((d2, fs2), rep', err)"
    "rep_freed rep1 = []" "rep_bytes rep1 = 0" "rep_evicted rep1 = rep_evicted rep0"
    "rep_abandoned rep1 = rep_abandoned rep0"
    using s' dry(4,5) by metis
  from evict_outcome [OF wet(1)] real have "err = None" "rep_freed rep' = freed"
    "rep_bytes rep' = sum_list (map snd freed)" "rep_evicted rep' = rep_evicted rep0"
    "rep_abandoned rep' = rep_abandoned rep0"
    using wet by auto
  with run s0 d0 same show ?thesis by auto
qed

text \<open>C10: the newest published release of every branch survives a run, with its artifacts and
  their blobs, for every configuration.\<close>

theorem tips_survive:
  assumes "branch_tip d r" and "distinct (map r_id (d_releases d))"
    and "run now cfg delfail deleter enforce (d, fs) = ((d', fs'), rep, err)"
  shows "r \<in> set (d_releases d') \<and>
    (\<forall>a \<in> set (d_artifacts d). a_release_id a = r_id r \<longrightarrow> a \<in> set (d_artifacts d')
       \<and> (present fs (a_storage_key a) \<longrightarrow> present fs' (a_storage_key a)))"
proof -
  let ?gone = "ListAbandonedReleases (now - RecencyGuard cfg) d @ ListEvictableReleases (KeepN cfg) (now - RecencyGuard cfg) d"
  from run_evict [OF assms(3)] obtain rep0 refs0 where
    ev: "evict delfail deleter rep0 refs0 (map r_id ?gone) enforce (d, fs) = ((d', fs'), rep, err)" by metis
  from evict_outcome [OF ev] obtain freed n where "EvictReleases (map r_id ?gone) enforce d = (d', freed, n, err)"
    by blast
  then have sur: "survives (set (map r_id ?gone)) d d'" using eviction_frees_dead by blast
  have r: "r \<in> set (d_releases d)" using assms(1) by (simp add: branch_tip_def)
  have sub: "set ?gone \<subseteq> set (d_releases d)"
    by (auto simp: ListEvictableReleases_set ListAbandonedReleases_def)
  have "r \<notin> set ?gone" using policy_lists assms(1) by fastforce
  then have "r_id r \<notin> r_id ` set ?gone"
    using sub r assms(2) by (auto simp: distinct_map dest: inj_onD)
  then have "r_id r \<notin> set (map r_id ?gone)" by (simp only: set_map simp_thms)
  with sur r have "r \<in> set (d_releases d')"
    "\<forall>a \<in> set (d_artifacts d). a_release_id a = r_id r \<longrightarrow> a \<in> set (d_artifacts d')"
    unfolding survives_def by (blast, metis)
  moreover have "present fs (a_storage_key a) \<longrightarrow> present fs' (a_storage_key a)" if "a \<in> set (d_artifacts d')" for a
  proof -
    have "IsBlobReferenced (a_storage_key a) d'" using that by (auto simp: IsBlobReferenced_def list_ex_iff)
    then show ?thesis using evict_keeps_referenced [OF ev] by blast
  qed
  ultimately show ?thesis by blast
qed

section \<open>Only branches GitHub confirms as gone\<close>

definition gone :: "ref_checker \<Rightarrow> string \<Rightarrow> string \<Rightarrow> bool" where
  "gone rc repo b \<longleftrightarrow> (\<exists>def. DefaultBranch rc repo = Inr def \<and> b \<noteq> def \<and> RefPresent rc repo b = Inr False)"

lemma check_branch_gone:
  "ans = DefaultBranch rc (p_github_repo p) \<Longrightarrow> bc_state (check_branch rc ans p r) = BranchDeleted
   \<Longrightarrow> gone rc (p_github_repo p) (r_git_branch r)"
  by (auto simp: check_branch_def gone_def Let_def BranchDeleted_def BranchPresent_def BranchDefault_def
      BranchUnknown_def split: sum.splits if_splits bool.splits)

text \<open>The caches of the loop: answers are those of the checker, and a check recorded as deleted
  holds for every row of that project and branch.\<close>

definition check_ok :: "ref_checker \<Rightarrow> (project \<times> release) list \<Rightarrow> string \<Rightarrow> string \<Rightarrow> branch_check \<Rightarrow> bool" where
  "check_ok rc rows n b c \<longleftrightarrow> (bc_state c = BranchDeleted \<longrightarrow>
     (\<forall>p r. (p, r) \<in> set rows \<longrightarrow> p_name p = n \<longrightarrow> gone rc (p_github_repo p) b))"

definition branch_inv :: "ref_checker \<Rightarrow> (project \<times> release) list \<Rightarrow> (string \<times> (string + string)) list
    \<Rightarrow> ((string \<times> string) \<times> nat) list \<Rightarrow> branch_check list \<Rightarrow> bool" where
  "branch_inv rc rows repos checks cs \<longleftrightarrow>
     (\<forall>repo a. map_of repos repo = Some a \<longrightarrow> a = DefaultBranch rc repo)
   \<and> (\<forall>n b i. map_of checks (n, b) = Some i \<longrightarrow> i < length cs \<and> check_ok rc rows n b (cs ! i))"

definition one_repo :: "(project \<times> release) list \<Rightarrow> bool" where
  "one_repo rows \<longleftrightarrow> (\<forall>(p, r) \<in> set rows. \<forall>(q, s) \<in> set rows. p_name p = p_name q \<longrightarrow> p_github_repo p = p_github_repo q)"

lemma branch_row_spec:
  assumes "branch_row rc p r repos checks cs = (repos', checks', cs', state)"
    and inv: "branch_inv rc all repos checks cs" and mem: "(p, r) \<in> set all" and one: "one_repo all"
  shows "branch_inv rc all repos' checks' cs'"
    and "state = BranchDeleted \<Longrightarrow> gone rc (p_github_repo p) (r_git_branch r)"
proof -
  let ?key = "(p_name p, r_git_branch r)"
  have "branch_inv rc all repos' checks' cs' \<and> (state = BranchDeleted \<longrightarrow> gone rc (p_github_repo p) (r_git_branch r))"
  proof (cases "map_of checks ?key")
    case (Some i)
    with inv have i: "i < length cs" "check_ok rc all (p_name p) (r_git_branch r) (cs ! i)"
      unfolding branch_inv_def by blast+
    have "bc_state (cs[i := (cs ! i)\<lparr>bc_releases := n\<rparr>] ! j) = bc_state (cs ! j)" for j n
      using i(1) by (cases "j = i") auto
    moreover have "repos' = repos" "checks' = checks" "state = bc_state (cs ! i)"
      "cs' = cs[i := (cs ! i)\<lparr>bc_releases := bc_releases (cs ! i) + 1\<rparr>]"
      using Some assms(1) by (auto simp: branch_row_def)
    ultimately show ?thesis
      using inv i(2) mem by (auto simp: branch_inv_def check_ok_def)
  next
    case None
    let ?ans = "case map_of repos (p_github_repo p) of Some a \<Rightarrow> a | None \<Rightarrow> DefaultBranch rc (p_github_repo p)"
    have ans: "?ans = DefaultBranch rc (p_github_repo p)"
      using inv by (auto simp: branch_inv_def split: option.split)
    let ?c = "check_branch rc (DefaultBranch rc (p_github_repo p)) p r"
    have new: "repos' = (case map_of repos (p_github_repo p) of Some a \<Rightarrow> repos
        | None \<Rightarrow> (p_github_repo p, DefaultBranch rc (p_github_repo p)) # repos)"
      "checks' = (?key, length cs) # checks" "cs' = cs @ [?c\<lparr>bc_releases := bc_releases ?c + 1\<rparr>]"
      "state = bc_state ?c"
      using None assms(1) unfolding branch_row_def Let_def ans by auto
    have st: "bc_state ?c = BranchDeleted \<Longrightarrow> gone rc (p_github_repo p) (r_git_branch r)"
      using check_branch_gone by simp
    have "p_github_repo q = p_github_repo p" if "(q, s) \<in> set all" "p_name q = p_name p" for q s
      using one mem that unfolding one_repo_def by blast
    with st have c: "check_ok rc all (p_name p) (r_git_branch r) (?c\<lparr>bc_releases := bc_releases ?c + 1\<rparr>)"
      by (auto simp: check_ok_def)
    have "i < length cs' \<and> check_ok rc all n b (cs' ! i)" if "map_of checks' (n, b) = Some i" for n b i
    proof (cases "(n, b) = ?key")
      case True
      with that new(2) c show ?thesis by (auto simp: new(3) nth_append)
    next
      case False
      with that new(2) have "map_of checks (n, b) = Some i" by auto
      with inv have "i < length cs" "check_ok rc all n b (cs ! i)" unfolding branch_inv_def by blast+
      then show ?thesis by (simp add: new(3) nth_append)
    qed
    moreover have "a = DefaultBranch rc repo" if "map_of repos' repo = Some a" for repo a
      using that inv by (auto simp: new(1) branch_inv_def split: option.splits if_splits)
    ultimately show ?thesis using st new(4) by (simp add: branch_inv_def)
  qed
  then show "branch_inv rc all repos' checks' cs'"
    "state = BranchDeleted \<Longrightarrow> gone rc (p_github_repo p) (r_git_branch r)" by blast+
qed

lemma branch_loop_ids:
  assumes "branch_loop rc rows repos checks rep ids = (rep', ids')" "branch_inv rc all repos checks (rep_checks rep)"
    and "set rows \<subseteq> set all" "one_repo all"
  shows "\<forall>i \<in> set ids'. i \<in> set ids \<or> (\<exists>(p, r) \<in> set rows. r_id r = i \<and> gone rc (p_github_repo p) (r_git_branch r))"
  using assms
proof (induction rows arbitrary: repos checks rep ids)
  case Nil
  then show ?case by simp
next
  case (Cons row rows)
  obtain p r where row: "row = (p, r)" by fastforce
  obtain repos' checks' cs' state where
    step: "branch_row rc p r repos checks (rep_checks rep) = (repos', checks', cs', state)" by (metis prod_cases4)
  have mem: "(p, r) \<in> set all" and rest: "set rows \<subseteq> set all" using Cons.prems(3) row by auto
  note spec = branch_row_spec [OF step Cons.prems(2) mem Cons.prems(4)]
  show ?case
  proof (cases "state = BranchDeleted")
    case True
    with Cons.prems(1) step obtain rep1 where
      "branch_loop rc rows repos' checks' rep1 (ids @ [r_id r]) = (rep', ids')" "rep_checks rep1 = cs'"
      unfolding row by auto
    from Cons.IH [OF this(1) _ rest Cons.prems(4)] this(2) spec True show ?thesis unfolding row by fastforce
  next
    case False
    with Cons.prems(1) step have
      "branch_loop rc rows repos' checks' (rep\<lparr>rep_checks := cs'\<rparr>) ids = (rep', ids')"
      unfolding row by auto
    from Cons.IH [OF this _ rest Cons.prems(4)] spec show ?thesis unfolding row by fastforce
  qed
qed

text \<open>C29: the deleted-branch pass forgets a release only if it is older than the guard, on a
  branch other than the project's recorded default, and GitHub answered both that the branch
  is not the repository's default branch and that it does not exist; when an answer is an
  error the release stays.\<close>

theorem only_gone_branches_evicted:
  assumes "deletedBranches now cfg delfail deleter rc enforce (d, fs) = ((d', fs'), rep, err)"
    and "distinct (map p_name (d_projects d))"
    and "r \<in> set (d_releases d)" and "r \<notin> set (d_releases d')"
  shows "\<exists>q p. q \<in> set (d_releases d) \<and> r_id q = r_id r \<and> project_by_id (r_project_id q) d = Some p
    \<and> gone rc (p_github_repo p) (r_git_branch q) \<and> r_git_branch q \<noteq> p_default_branch p
    \<and> r_created_at q < sqliteDatetime (now - RecencyGuard cfg)"
proof -
  let ?rows = "ListNonDefaultBranchReleases (now - RecencyGuard cfg) d"
  obtain rep0 ids where loop: "branch_loop rc ?rows [] [] (new_report enforce) [] = (rep0, ids)" by fastforce
  have rows: "set ?rows = {(p, r). r \<in> set (d_releases d) \<and> project_by_id (r_project_id r) d = Some p
      \<and> r_git_branch r \<noteq> [] \<and> r_git_branch r \<noteq> p_default_branch p \<and> p_github_repo p \<noteq> []
      \<and> r_created_at r < sqliteDatetime (now - RecencyGuard cfg)}"
    by (auto simp: ListNonDefaultBranchReleases_def split: option.splits if_splits)
  have "one_repo ?rows"
    unfolding one_repo_def rows using assms(2) project_by_id_Some
    by (fastforce simp: distinct_map dest: inj_onD)
  moreover have "branch_inv rc ?rows [] [] (rep_checks (new_report enforce))" by (simp add: branch_inv_def)
  ultimately have gone: "\<forall>i \<in> set ids. \<exists>(p, r) \<in> set ?rows. r_id r = i \<and> gone rc (p_github_repo p) (r_git_branch r)"
    using branch_loop_ids [OF loop, of ?rows] by auto
  from assms(1) loop have ev: "evict delfail deleter rep0 (rep_deleted_branch rep0) ids enforce (d, fs) = ((d', fs'), rep, err)"
    by (simp add: deletedBranches_def)
  from evict_outcome [OF ev] obtain freed n where "EvictReleases ids enforce d = (d', freed, n, err)" by blast
  then have "survives (set ids) d d'" using eviction_frees_dead by blast
  with assms(3,4) have "r_id r \<in> set ids" by (auto simp: survives_def)
  with gone show ?thesis unfolding rows by fastforce
qed

section \<open>Accounting\<close>

lemma mark_loop_counts:
  "rep_marked (mark_loop del rs seen rep) + rep_unmarked (mark_loop del rs seen rep) =
     rep_marked rep + rep_unmarked rep + int (length rs)"
  by (induction del rs seen rep rule: mark_loop.induct) (auto split: option.split)

lemma mark_loop_errors:
  assumes "set seen = set (rep_record_errors rep)" "distinct (rep_record_errors rep)"
  shows "distinct (rep_record_errors (mark_loop del rs seen rep)) \<and>
    set (rep_record_errors (mark_loop del rs seen rep)) =
      set (rep_record_errors rep) \<union> {msg. \<exists>r \<in> set rs. del r = Some msg}"
  using assms
proof (induction rs arbitrary: seen rep)
  case Nil
  then show ?case by simp
next
  case (Cons r rs)
  show ?case
  proof (cases "del r")
    case None
    with Cons show ?thesis by auto
  next
    case (Some msg)
    let ?seen = "if msg \<in> set seen then seen else msg # seen"
    let ?rep = "rep\<lparr>rep_unmarked := rep_unmarked rep + 1, rep_record_errors :=
      (if msg \<in> set seen then rep_record_errors rep else rep_record_errors rep @ [msg])\<rparr>"
    from Cons.prems have "set ?seen = set (rep_record_errors ?rep)" "distinct (rep_record_errors ?rep)" by auto
    from Cons.IH [OF this] Some Cons.prems(1) show ?thesis by auto
  qed
qed

text \<open>Every storage record of an evicted artifact is accounted for, as marked or as not
  marked, and the error list names each distinct failure once.\<close>

theorem records_accounted:
  assumes "markRecordsDeleted deleter doomed rep = rep'"
    and "rep_marked rep = 0" and "rep_unmarked rep = 0" and "rep_record_errors rep = []"
  shows "rep_marked rep' + rep_unmarked rep' = int (length doomed)
    \<and> distinct (rep_record_errors rep')
    \<and> (\<forall>del. deleter = Some del \<longrightarrow>
         set (rep_record_errors rep') = {msg. \<exists>r \<in> set doomed. del r = Some msg})"
proof (cases "doomed = [] \<or> deleter = None")
  case True
  with assms show ?thesis by (auto simp: markRecordsDeleted_def split: option.splits)
next
  case False
  then obtain del where del: "deleter = Some del" "doomed \<noteq> []" by auto
  with assms(1) have "rep' = mark_loop del doomed [] rep" by (simp add: markRecordsDeleted_def)
  with mark_loop_counts [of del doomed "[]" rep] mark_loop_errors [of "[]" rep del doomed] assms(2-4) del
  show ?thesis by auto
qed

section \<open>Concrete instances\<close>

definition demo_cfg :: config where
  "demo_cfg = \<lparr>KeepN = 1, RecencyGuard = SecondNs, Enforce = True\<rparr>"

definition demo_fs :: filesystem where
  "demo_fs = \<lparr>fs_compress = False, fs_blobs = [(rel (replicate 64 CHR ''b''), [1])]\<rparr>"

definition demo_ret_db :: db where
  "demo_ret_db = empty_db\<lparr>d_projects := [new_project 1 ''web'' False],
     d_releases := [demo_release 1 ''41'' 41 ''master'' True, demo_release 2 ''42'' 42 ''master'' True],
     d_artifacts := [demo_artifact 1 1 ''aa'' 5, demo_artifact 2 2 (replicate 64 CHR ''b'') 7]\<rparr>"

theorem plan_predicts_run_witness:
  "fst (Plan (5 * SecondNs) demo_cfg (\<lambda>_. False) None (demo_evict_db, demo_fs)) = (demo_evict_db, demo_fs)
   \<and> (\<exists>s' rep'. run (5 * SecondNs) demo_cfg (\<lambda>_. False) None True (demo_evict_db, demo_fs) = (s', rep', None)
        \<and> rep_freed rep' = [(''aa'', 5)])"
proof -
  have ok: "sizes_ok demo_size demo_evict_db" by code_simp
  obtain s0 rep err where plan: "Plan (5 * SecondNs) demo_cfg (\<lambda>_. False) None (demo_evict_db, demo_fs) = (s0, rep, err)"
    by (metis prod_cases3)
  have "snd (snd (Plan (5 * SecondNs) demo_cfg (\<lambda>_. False) None (demo_evict_db, demo_fs))) = None"
    "rep_freed (fst (snd (Plan (5 * SecondNs) demo_cfg (\<lambda>_. False) None (demo_evict_db, demo_fs)))) = [(''aa'', 5)]"
    by code_simp+
  with plan have "err = None" "rep_freed rep = [(''aa'', 5)]" by simp_all
  with plan_predicts_run [OF ok, of "5 * SecondNs" demo_cfg "\<lambda>_. False" None demo_fs s0 rep] plan
  show ?thesis by auto
qed

lemma demo_tip: "branch_tip demo_ret_db (demo_release 2 ''42'' 42 ''master'' True)"
  by code_simp

theorem tips_survive_witness:
  "demo_release 2 ''42'' 42 ''master'' True \<in>
     set (d_releases (fst (fst (run (5 * SecondNs) demo_cfg (\<lambda>_. False) None True (demo_ret_db, demo_fs)))))
   \<and> present (snd (fst (run (5 * SecondNs) demo_cfg (\<lambda>_. False) None True (demo_ret_db, demo_fs)))) (replicate 64 CHR ''b'')"
proof -
  have ids: "distinct (map r_id (d_releases demo_ret_db))" by code_simp
  obtain d' fs' rep err where run: "run (5 * SecondNs) demo_cfg (\<lambda>_. False) None True (demo_ret_db, demo_fs) = ((d', fs'), rep, err)"
    by (metis prod_cases3 surj_pair)
  have "demo_artifact 2 2 (replicate 64 CHR ''b'') 7 \<in> set (d_artifacts demo_ret_db)" by code_simp
  moreover have "present demo_fs (replicate 64 CHR ''b'')" by code_simp
  ultimately show ?thesis
    using tips_survive [OF demo_tip ids run] run by (fastforce simp: demo_artifact_def demo_release_def)
qed

theorem retention_keeps_live_blobs_witness:
  "IsBlobReferenced (replicate 64 CHR ''b'')
     (fst (fst (run (5 * SecondNs) demo_cfg (\<lambda>_. False) None True (demo_ret_db, demo_fs))))
   \<and> present (snd (fst (run (5 * SecondNs) demo_cfg (\<lambda>_. False) None True (demo_ret_db, demo_fs)))) (replicate 64 CHR ''b'')"
proof -
  obtain d' fs' rep err where run: "run (5 * SecondNs) demo_cfg (\<lambda>_. False) None True (demo_ret_db, demo_fs) = ((d', fs'), rep, err)"
    by (metis prod_cases3 surj_pair)
  have "IsBlobReferenced (replicate 64 CHR ''b'')
     (fst (fst (run (5 * SecondNs) demo_cfg (\<lambda>_. False) None True (demo_ret_db, demo_fs))))"
    by code_simp
  moreover have "present demo_fs (replicate 64 CHR ''b'')" by code_simp
  ultimately show ?thesis using retention_keeps_live_blobs [OF disjI1 [OF run]] run by simp
qed

definition demo_branch_db :: db where
  "demo_branch_db = empty_db\<lparr>d_projects := [(new_project 1 ''web'' False)\<lparr>p_github_repo := ''acme/web''\<rparr>],
     d_releases := [demo_release 1 ''41'' 41 ''old'' True, demo_release 2 ''42'' 42 ''dev'' True]\<rparr>"

definition demo_checker :: ref_checker where
  "demo_checker = \<lparr>DefaultBranch = (\<lambda>repo. Inr ''master''), RefPresent = (\<lambda>repo b. if b = ''dev'' then Inl ''timeout'' else Inr False)\<rparr>"

theorem only_gone_branches_evicted_witness:
  "d_releases (fst (fst (deletedBranches (5 * SecondNs) demo_cfg (\<lambda>_. False) None demo_checker True (demo_branch_db, demo_fs))))
     = [demo_release 2 ''42'' 42 ''dev'' True]
   \<and> (\<exists>q p. q \<in> set (d_releases demo_branch_db) \<and> r_id q = 1 \<and> project_by_id (r_project_id q) demo_branch_db = Some p
        \<and> gone demo_checker (p_github_repo p) (r_git_branch q))"
proof -
  let ?r = "demo_release 1 ''41'' 41 ''old'' True"
  obtain d' fs' rep err where run: "deletedBranches (5 * SecondNs) demo_cfg (\<lambda>_. False) None demo_checker True
    (demo_branch_db, demo_fs) = ((d', fs'), rep, err)" by (metis prod_cases3 surj_pair)
  have left: "d_releases (fst (fst (deletedBranches (5 * SecondNs) demo_cfg (\<lambda>_. False) None demo_checker True
    (demo_branch_db, demo_fs)))) = [demo_release 2 ''42'' 42 ''dev'' True]" by code_simp
  with run have "?r \<notin> set (d_releases d')" by (simp add: demo_release_def)
  moreover have "?r \<in> set (d_releases demo_branch_db)" "distinct (map p_name (d_projects demo_branch_db))" by code_simp+
  moreover have "r_id ?r = 1" by (simp add: demo_release_def)
  ultimately show ?thesis using only_gone_branches_evicted [OF run, of ?r] left by auto
qed

theorem records_accounted_witness:
  "rep_marked (markRecordsDeleted (Some (\<lambda>r. if dr_version r = ''1'' then None else Some ''down''))
      [\<lparr>dr_repo = ''a/b'', dr_project = ''b'', dr_version = ''1'', dr_sha256 = ''x''\<rparr>,
       \<lparr>dr_repo = ''a/b'', dr_project = ''b'', dr_version = ''2'', dr_sha256 = ''y''\<rparr>] (new_report True)) +
   rep_unmarked (markRecordsDeleted (Some (\<lambda>r. if dr_version r = ''1'' then None else Some ''down''))
      [\<lparr>dr_repo = ''a/b'', dr_project = ''b'', dr_version = ''1'', dr_sha256 = ''x''\<rparr>,
       \<lparr>dr_repo = ''a/b'', dr_project = ''b'', dr_version = ''2'', dr_sha256 = ''y''\<rparr>] (new_report True)) = 2"
  using records_accounted [OF refl, of "new_report True" "Some (\<lambda>r. if dr_version r = ''1'' then None else Some ''down'')"
    "[\<lparr>dr_repo = ''a/b'', dr_project = ''b'', dr_version = ''1'', dr_sha256 = ''x''\<rparr>,
       \<lparr>dr_repo = ''a/b'', dr_project = ''b'', dr_version = ''2'', dr_sha256 = ''y''\<rparr>]"]
  by (simp add: new_report_def)

end
