(* ===== verification/Ci_Tables.thy ===== *)
theory Ci_Tables
  imports Retention
begin

text \<open>
  What the jobs of a CI run leave with the server: run locks (\<open>internal/db/run_locks.go\<close>), the
  files one job hands to another (\<open>run_files.go\<close>) and the cache (\<open>cache_entries.go\<close>), with the
  queries of the three tables. The clock of the database, \<open>datetime('now')\<close>, is the argument
  \<open>now\<close> cut to whole seconds; the database answers every statement, so the error branches
  that remain are those of the program.
\<close>

section \<open>Run locks\<close>

record run_lock_key =
  key_repo_id :: string
  key_run_id :: string
  key_run_attempt :: string
  key_name :: string

definition RunLockLifetime :: int where
  "RunLockLifetime = 35 * 24 * 3600 * SecondNs"

definition lock_at :: "run_lock_key \<Rightarrow> run_lock \<Rightarrow> bool" where
  "lock_at k l \<longleftrightarrow> lk_repo_id l = key_repo_id k \<and> lk_run_id l = key_run_id k
     \<and> lk_run_attempt l = key_run_attempt k \<and> lk_name l = key_name k"

definition DeleteRunLocksBefore :: "time \<Rightarrow> db \<Rightarrow> db" where
  "DeleteRunLocksBefore cutoff d = d\<lparr>d_run_locks := filter (\<lambda>l. \<not> lk_created_at l < cutoff) (d_run_locks d)\<rparr>"

text \<open>The insert answers how many rows it wrote.\<close>

definition InsertRunLock :: "time \<Rightarrow> run_lock_key \<Rightarrow> string \<Rightarrow> db \<Rightarrow> db \<times> int" where
  "InsertRunLock now k v d =
     (if list_ex (lock_at k) (d_run_locks d) then (d, 0)
      else (d\<lparr>d_run_locks := d_run_locks d @ [\<lparr>lk_repo_id = key_repo_id k, lk_run_id = key_run_id k,
              lk_run_attempt = key_run_attempt k, lk_name = key_name k, lk_value = v,
              lk_created_at = sqliteDatetime now\<rparr>]\<rparr>, 1))"

definition GetRunLock :: "run_lock_key \<Rightarrow> db \<Rightarrow> string option" where
  "GetRunLock k d = map_option lk_value (find_first (lock_at k) (d_run_locks d))"

definition ClaimRunLock :: "run_lock_key \<Rightarrow> string \<Rightarrow> time \<Rightarrow> db \<Rightarrow> db \<times> (db_error + string \<times> bool)" where
  "ClaimRunLock k v now d =
     (case InsertRunLock now k v (DeleteRunLocksBefore (sqliteDatetime (now - RunLockLifetime)) d) of
        (d', rows) \<Rightarrow>
          (case GetRunLock k d' of
             None \<Rightarrow> (d', Inl (Refused ''the row is missing after the insert''))
           | Some held \<Rightarrow> (d', Inr (held, rows = 1))))"

section \<open>Run files\<close>

record run_key =
  run_repo_id :: string
  run_run_id :: string

record run_blob =
  rb_storage_key :: string
  rb_size :: int

definition run_at :: "run_key \<Rightarrow> run_storage_run \<Rightarrow> bool" where
  "run_at k r \<longleftrightarrow> rn_repo_id r = run_repo_id k \<and> rn_run_id r = run_run_id k"

definition file_of :: "run_key \<Rightarrow> run_file \<Rightarrow> bool" where
  "file_of k f \<longleftrightarrow> rf_repo_id f = run_repo_id k \<and> rf_run_id f = run_run_id k"

definition TouchRun :: "time \<Rightarrow> run_key \<Rightarrow> string \<Rightarrow> db \<Rightarrow> db" where
  "TouchRun now k repoPath d =
     (if list_ex (run_at k) (d_runs d)
      then d\<lparr>d_runs := map (\<lambda>r. if run_at k r then r\<lparr>rn_repo_path := repoPath, rn_used_at := sqliteDatetime now,
               rn_checked_at := None, rn_ended_at := None\<rparr> else r) (d_runs d)\<rparr>
      else d\<lparr>d_runs := d_runs d @ [\<lparr>rn_repo_id = run_repo_id k, rn_run_id = run_run_id k, rn_repo_path = repoPath,
               rn_created_at = sqliteDatetime now, rn_used_at = sqliteDatetime now, rn_checked_at = None,
               rn_ended_at = None\<rparr>]\<rparr>)"

definition GetRunFile :: "run_key \<Rightarrow> string \<Rightarrow> db \<Rightarrow> run_blob option" where
  "GetRunFile k name d =
     map_option (\<lambda>f. \<lparr>rb_storage_key = rf_storage_key f, rb_size = rf_size f\<rparr>)
       (find_first (\<lambda>f. file_of k f \<and> rf_name f = name) (d_run_files d))"

definition UpsertRunFile :: "time \<Rightarrow> run_key \<Rightarrow> string \<Rightarrow> run_blob \<Rightarrow> db \<Rightarrow> db" where
  "UpsertRunFile now k name b d =
     (if list_ex (\<lambda>f. file_of k f \<and> rf_name f = name) (d_run_files d)
      then d\<lparr>d_run_files := map (\<lambda>f. if file_of k f \<and> rf_name f = name
               then f\<lparr>rf_storage_key := rb_storage_key b, rf_size := rb_size b, rf_created_at := sqliteDatetime now\<rparr>
               else f) (d_run_files d)\<rparr>
      else d\<lparr>d_run_files := d_run_files d @ [\<lparr>rf_repo_id = run_repo_id k, rf_run_id = run_run_id k, rf_name = name,
               rf_storage_key = rb_storage_key b, rf_size = rb_size b, rf_created_at = sqliteDatetime now,
               rf_reads = 0, rf_read_at = None\<rparr>]\<rparr>)"

text \<open>\<open>PutRunFile\<close> answers the storage key the name held before, when it was another.\<close>

definition PutRunFile :: "time \<Rightarrow> run_key \<Rightarrow> string \<Rightarrow> run_blob \<Rightarrow> db \<Rightarrow> db \<times> string" where
  "PutRunFile now k name b d =
     (UpsertRunFile now k name b d,
      case GetRunFile k name d of
        None \<Rightarrow> []
      | Some old \<Rightarrow> if rb_storage_key old = rb_storage_key b then [] else rb_storage_key old)"

definition MarkRunFileRead :: "time \<Rightarrow> run_key \<Rightarrow> string \<Rightarrow> db \<Rightarrow> db" where
  "MarkRunFileRead now k name d =
     d\<lparr>d_run_files := map (\<lambda>f. if file_of k f \<and> rf_name f = name
         then f\<lparr>rf_reads := rf_reads f + 1, rf_read_at := Some (sqliteDatetime now)\<rparr> else f) (d_run_files d)\<rparr>"

definition ListRunFiles :: "run_key \<Rightarrow> db \<Rightarrow> run_file list" where
  "ListRunFiles k d = sort_key rf_name (filter (file_of k) (d_run_files d))"

definition RunsToCheck :: "time \<Rightarrow> db \<Rightarrow> run_storage_run list" where
  "RunsToCheck cutoff d =
     sort_key rn_used_at (filter (\<lambda>r. rn_ended_at r = None
       \<and> (case rn_checked_at r of None \<Rightarrow> True | Some t \<Rightarrow> t < sqliteDatetime cutoff)) (d_runs d))"

definition MarkRunChecked :: "time \<Rightarrow> run_key \<Rightarrow> time option \<Rightarrow> db \<Rightarrow> db" where
  "MarkRunChecked now k endedAt d =
     d\<lparr>d_runs := map (\<lambda>r. if run_at k r then r\<lparr>rn_checked_at := Some (sqliteDatetime now), rn_ended_at := endedAt\<rparr> else r)
         (d_runs d)\<rparr>"

text \<open>The ended runs first, by the time they ended, then the live ones; with the bytes each holds.\<close>

definition run_bytes :: "db \<Rightarrow> run_storage_run \<Rightarrow> int" where
  "run_bytes d r = sum_list (map rf_size (filter (\<lambda>f. rf_repo_id f = rn_repo_id r \<and> rf_run_id f = rn_run_id r) (d_run_files d)))"

definition RunStorageRuns :: "db \<Rightarrow> (run_storage_run \<times> int) list" where
  "RunStorageRuns d =
     map (\<lambda>r. (r, run_bytes d r))
       (sort_key (\<lambda>r. rn_ended_at r = None)
         (sort_key (\<lambda>r. case rn_ended_at r of None \<Rightarrow> 0 | Some t \<Rightarrow> t)
           (sort_key rn_created_at (d_runs d))))"

definition DeleteRun :: "run_key \<Rightarrow> db \<Rightarrow> db \<times> string list" where
  "DeleteRun k d =
     (d\<lparr>d_run_files := filter (\<lambda>f. \<not> file_of k f) (d_run_files d), d_runs := filter (\<lambda>r. \<not> run_at k r) (d_runs d)\<rparr>,
      map rf_storage_key (ListRunFiles k d))"

section \<open>The cache\<close>

record cache_scope =
  cs_repo_id :: string
  cs_ref :: string

record cache_match =
  cm_scope :: cache_scope
  cm_key :: string
  cm_storage_key :: string
  cm_size :: int

definition in_scope :: "cache_scope \<Rightarrow> cache_entry \<Rightarrow> bool" where
  "in_scope s e \<longleftrightarrow> ce_repo_id e = cs_repo_id s \<and> ce_ref e = cs_ref s"

definition match_of :: "cache_scope \<Rightarrow> cache_entry \<Rightarrow> cache_match" where
  "match_of s e = \<lparr>cm_scope = s, cm_key = ce_key e, cm_storage_key = ce_storage_key e, cm_size = ce_size e\<rparr>"

definition GetCacheEntry :: "cache_scope \<Rightarrow> string \<Rightarrow> db \<Rightarrow> cache_entry option" where
  "GetCacheEntry s key d = find_first (\<lambda>e. in_scope s e \<and> ce_key e = key) (d_cache_entries d)"

text \<open>The newest entry with the prefix; among equally new ones the greatest key.\<close>

definition FindCacheEntryByPrefix :: "cache_scope \<Rightarrow> string \<Rightarrow> db \<Rightarrow> cache_entry option" where
  "FindCacheEntryByPrefix s prefix d =
     first_row (sort_key (\<lambda>e. - ce_created_at e) (rev (sort_key ce_key
       (filter (\<lambda>e. in_scope s e \<and> has_prefix (ce_key e) prefix) (d_cache_entries d)))))"

fun find_exact :: "cache_scope list \<Rightarrow> string \<Rightarrow> db \<Rightarrow> cache_match option" where
  "find_exact [] key d = None"
| "find_exact (s # ss) key d =
     (case GetCacheEntry s key d of Some e \<Rightarrow> Some (match_of s e) | None \<Rightarrow> find_exact ss key d)"

fun find_prefix :: "cache_scope list \<Rightarrow> string \<Rightarrow> db \<Rightarrow> cache_match option" where
  "find_prefix [] prefix d = None"
| "find_prefix (s # ss) prefix d =
     (case FindCacheEntryByPrefix s prefix d of Some e \<Rightarrow> Some (match_of s e) | None \<Rightarrow> find_prefix ss prefix d)"

fun find_prefixes :: "cache_scope list \<Rightarrow> string list \<Rightarrow> db \<Rightarrow> cache_match option" where
  "find_prefixes ss [] d = None"
| "find_prefixes ss (p # ps) d =
     (case find_prefix ss p d of Some m \<Rightarrow> Some m | None \<Rightarrow> find_prefixes ss ps d)"

definition FindCache :: "cache_scope list \<Rightarrow> string \<Rightarrow> string list \<Rightarrow> db \<Rightarrow> cache_match option" where
  "FindCache scopes key restoreKeys d =
     (case find_exact scopes key d of Some m \<Rightarrow> Some m | None \<Rightarrow> find_prefixes scopes restoreKeys d)"

definition GetCache :: "cache_scope \<Rightarrow> string \<Rightarrow> db \<Rightarrow> cache_match option" where
  "GetCache s key d = map_option (match_of s) (GetCacheEntry s key d)"

definition PutCache :: "time \<Rightarrow> cache_scope \<Rightarrow> string \<Rightarrow> string \<Rightarrow> run_blob \<Rightarrow> db \<Rightarrow> db \<times> bool" where
  "PutCache now s key repoPath b d =
     (if list_ex (\<lambda>e. in_scope s e \<and> ce_key e = key) (d_cache_entries d) then (d, False)
      else (d\<lparr>d_cache_entries := d_cache_entries d @ [\<lparr>ce_repo_id = cs_repo_id s, ce_ref = cs_ref s, ce_key = key,
              ce_repo_path = repoPath, ce_storage_key = rb_storage_key b, ce_size = rb_size b,
              ce_created_at = sqliteDatetime now, ce_used_at = sqliteDatetime now, ce_reads = 0\<rparr>]\<rparr>, True))"

definition MarkCacheRead :: "time \<Rightarrow> cache_scope \<Rightarrow> string \<Rightarrow> db \<Rightarrow> db" where
  "MarkCacheRead now s key d =
     d\<lparr>d_cache_entries := map (\<lambda>e. if in_scope s e \<and> ce_key e = key
         then e\<lparr>ce_reads := ce_reads e + 1, ce_used_at := sqliteDatetime now\<rparr> else e) (d_cache_entries d)\<rparr>"

definition ListCacheEntries :: "db \<Rightarrow> cache_entry list" where
  "ListCacheEntries d = sort_key ce_used_at (sort_key ce_created_at (d_cache_entries d))"

definition DeleteCache :: "cache_scope \<Rightarrow> string \<Rightarrow> db \<Rightarrow> db" where
  "DeleteCache s key d =
     d\<lparr>d_cache_entries := filter (\<lambda>e. \<not> (in_scope s e \<and> ce_key e = key)) (d_cache_entries d)\<rparr>"

section \<open>Keys of runs and files\<close>

definition key_of :: "run_storage_run \<Rightarrow> run_key" where
  "key_of r = \<lparr>run_repo_id = rn_repo_id r, run_run_id = rn_run_id r\<rparr>"

definition fkey :: "run_file \<Rightarrow> run_key" where
  "fkey f = \<lparr>run_repo_id = rf_repo_id f, run_run_id = rf_run_id f\<rparr>"

lemma run_keys: "file_of k f \<longleftrightarrow> fkey f = k" "run_at k r \<longleftrightarrow> key_of r = k"
  by (cases k; auto simp: file_of_def run_at_def fkey_def key_of_def)+

section \<open>Racing claims agree\<close>

text \<open>The claims of the jobs of one server, one after the other, with the answer of each.\<close>

fun claim_all :: "(run_lock_key \<times> string \<times> time) list \<Rightarrow> db \<Rightarrow> (db_error + string \<times> bool) list" where
  "claim_all [] d = []"
| "claim_all ((k, v, now) # cs) d = (case ClaimRunLock k v now d of (d', res) \<Rightarrow> res # claim_all cs d')"

lemma lock_at_self [simp]:
  "lock_at k \<lparr>lk_repo_id = key_repo_id k', lk_run_id = key_run_id k', lk_run_attempt = key_run_attempt k',
     lk_name = key_name k', lk_value = v, lk_created_at = t\<rparr> \<longleftrightarrow> k = k'"
  by (cases k; cases k') (auto simp: lock_at_def)

lemma sqliteDatetime_le: "sqliteDatetime t \<le> t"
  by (simp add: sqliteDatetime_def SecondNs_def)

text \<open>A lock that a claim finds in its table and that has not expired is what the claim answers.\<close>

definition holds_lock :: "run_lock_key \<Rightarrow> string \<Rightarrow> time \<Rightarrow> db \<Rightarrow> bool" where
  "holds_lock k v t d \<longleftrightarrow> (\<exists>l. find_first (lock_at k) (d_run_locks d) = Some l \<and> lk_value l = v \<and> lk_created_at l = t)"

lemma find_first_kept: "find_first P xs = Some x \<Longrightarrow> Q x \<Longrightarrow> find_first P (filter Q xs) = Some x"
  by (induction xs) (auto simp: find_first_def split: if_splits)

lemma ClaimRunLock_held:
  assumes "holds_lock k v t d" "now - RunLockLifetime \<le> t"
  shows "holds_lock k v t (fst (ClaimRunLock k' v' now d))" "snd (ClaimRunLock k v' now d) = Inr (v, False)"
proof -
  let ?d = "DeleteRunLocksBefore (sqliteDatetime (now - RunLockLifetime)) d"
  obtain l where l: "find_first (lock_at k) (d_run_locks d) = Some l" "lk_value l = v" "lk_created_at l = t"
    using assms(1) by (auto simp: holds_lock_def)
  have "\<not> lk_created_at l < sqliteDatetime (now - RunLockLifetime)"
    using assms(2) sqliteDatetime_le [of "now - RunLockLifetime"] l(3) by linarith
  then have found: "find_first (lock_at k) (d_run_locks ?d) = Some l"
    using find_first_kept [OF l(1), of "\<lambda>l. \<not> lk_created_at l < sqliteDatetime (now - RunLockLifetime)"] by (simp add: DeleteRunLocksBefore_def)
  then have "list_ex (lock_at k) (d_run_locks ?d)" by (auto simp: list_ex_iff dest: find_first_Some)
  then show "snd (ClaimRunLock k v' now d) = Inr (v, False)"
    using found l by (simp add: ClaimRunLock_def InsertRunLock_def GetRunLock_def)
  have "find_first (lock_at k) (d_run_locks (fst (InsertRunLock now k' v' ?d))) = Some l"
    using found by (auto simp: InsertRunLock_def find_first_append)
  then have "holds_lock k v t (fst (InsertRunLock now k' v' ?d))" using l by (auto simp: holds_lock_def)
  then show "holds_lock k v t (fst (ClaimRunLock k' v' now d))"
    by (simp add: ClaimRunLock_def split: prod.split option.split) (metis fst_conv)
qed

lemma claims_held:
  assumes "holds_lock k v t d" "\<forall>c \<in> set cs. snd (snd c) - RunLockLifetime \<le> t" "i < length cs" "fst (cs ! i) = k"
  shows "claim_all cs d ! i = Inr (v, False)"
  using assms
proof (induction cs arbitrary: d i)
  case (Cons c cs)
  obtain k' v' now where c: "c = (k', v', now)" by (metis prod.exhaust)
  with Cons.prems(2) have now: "now - RunLockLifetime \<le> t" by simp
  note held = ClaimRunLock_held [OF Cons.prems(1) now]
  show ?case
  proof (cases i)
    case 0
    with Cons.prems(4) c have "k' = k" by simp
    with held(2) [of v'] show ?thesis by (simp add: 0 c split: prod.split) (metis snd_conv)
  next
    case (Suc n)
    have "claim_all cs (fst (ClaimRunLock k' v' now d)) ! n = Inr (v, False)"
      using Cons.prems(2,3,4) Suc by (intro Cons.IH held(1)) auto
    then show ?thesis by (simp add: Suc c split: prod.split) (metis fst_conv)
  qed
qed simp

definition no_lock :: "run_lock_key \<Rightarrow> db \<Rightarrow> bool" where
  "no_lock k d \<longleftrightarrow> \<not> list_ex (lock_at k) (d_run_locks d)"

lemma ClaimRunLock_other:
  assumes "no_lock k d" "k' \<noteq> k"
  shows "no_lock k (fst (ClaimRunLock k' v' now d))"
  using assms
  by (auto simp: no_lock_def ClaimRunLock_def InsertRunLock_def DeleteRunLocksBefore_def list_ex_iff split: option.split prod.split if_splits)

lemma ClaimRunLock_first:
  assumes "no_lock k d"
  shows "snd (ClaimRunLock k v now d) = Inr (v, True)" "holds_lock k v (sqliteDatetime now) (fst (ClaimRunLock k v now d))"
proof -
  let ?d = "DeleteRunLocksBefore (sqliteDatetime (now - RunLockLifetime)) d"
  have "\<not> list_ex (lock_at k) (d_run_locks ?d)" using assms by (auto simp: no_lock_def DeleteRunLocksBefore_def list_ex_iff)
  moreover from this have "find_first (lock_at k) (d_run_locks ?d) = None" by (auto simp: find_first_None list_ex_iff)
  ultimately show "snd (ClaimRunLock k v now d) = Inr (v, True)" "holds_lock k v (sqliteDatetime now) (fst (ClaimRunLock k v now d))"
    by (simp_all add: ClaimRunLock_def InsertRunLock_def GetRunLock_def find_first_append holds_lock_def)
qed

text \<open>Of all the claims on one run lock, in whatever order they reach the server and whatever
  other locks are claimed between them, the first is told that it created the lock, and every
  later one is told the value of the first and that it did not create it, as long as the lock
  has not expired.\<close>

theorem run_lock_agreement:
  assumes "no_lock k d" and "\<forall>c \<in> set pre. fst c \<noteq> k"
    and "\<forall>c \<in> set post. snd (snd c) - RunLockLifetime \<le> sqliteDatetime now"
  shows "claim_all (pre @ (k, v, now) # post) d ! length pre = Inr (v, True)
    \<and> (\<forall>i < length post. fst (post ! i) = k \<longrightarrow> claim_all (pre @ (k, v, now) # post) d ! (Suc (length pre) + i) = Inr (v, False))"
  using assms(1,2)
proof (induction pre arbitrary: d)
  case Nil
  have "claim_all post (fst (ClaimRunLock k v now d)) ! i = Inr (v, False)" if "i < length post" "fst (post ! i) = k" for i
    using ClaimRunLock_first(2) [OF Nil(1)] assms(3) that by (intro claims_held) auto
  moreover have "claim_all ((k, v, now) # post) d = snd (ClaimRunLock k v now d) # claim_all post (fst (ClaimRunLock k v now d))"
    by (simp split: prod.split)
  ultimately show ?case using ClaimRunLock_first(1) [OF Nil(1)] by simp
next
  case (Cons c pre)
  obtain k' v' now' where c: "c = (k', v', now')" by (metis prod.exhaust)
  have "no_lock k (fst (ClaimRunLock k' v' now' d))" using Cons.prems c by (intro ClaimRunLock_other) auto
  note ih = Cons.IH [OF this]
  have "claim_all ((c # pre) @ (k, v, now) # post) d
    = snd (ClaimRunLock k' v' now' d) # claim_all (pre @ (k, v, now) # post) (fst (ClaimRunLock k' v' now' d))"
    by (simp add: c split: prod.split)
  then show ?case using ih Cons.prems(2) by simp
qed

definition demo_key :: "string \<Rightarrow> run_lock_key" where
  "demo_key name = \<lparr>key_repo_id = ''7'', key_run_id = ''1'', key_run_attempt = ''1'', key_name = name\<rparr>"

theorem run_lock_agreement_witness:
  "claim_all [(demo_key ''go'', ''1.22'', 5), (demo_key ''v'', ''41'', 6), (demo_key ''v'', ''42'', 7)] empty_db ! 1 = Inr (''41'', True)
   \<and> claim_all [(demo_key ''go'', ''1.22'', 5), (demo_key ''v'', ''41'', 6), (demo_key ''v'', ''42'', 7)] empty_db ! 2 = Inr (''41'', False)"
proof -
  have "no_lock (demo_key ''v'') empty_db" "\<forall>c \<in> set [(demo_key ''go'', ''1.22'', 5 :: time)]. fst c \<noteq> demo_key ''v''"
    "\<forall>c \<in> set [(demo_key ''v'', ''42'', 7 :: time)]. snd (snd c) - RunLockLifetime \<le> sqliteDatetime 6" by code_simp+
  from run_lock_agreement [OF this, of "''41''"] show ?thesis by (auto simp: numeral_2_eq_2)
qed

end
