(* ===== verification/Inventory.thy ===== *)
theory Inventory
  imports Retention Ci_Tables "HOL-Library.Multiset"
begin

text \<open>
  The inventory of stored files: \<open>internal/retention/inventory.go\<close> and the listings it reads
  from \<open>internal/db/retention.sql.go\<close>, \<open>admin.sql.go\<close> and \<open>run_files.sql.go\<close>. Every row that
  refers to a blob becomes an entry; an entry is reclaimable, or carries the reasons for which
  retention keeps it. The plan of the eviction engine decides, and the reasons are derived a
  second time from the facts of each release; the lemmas show that the two always agree, that
  no referenced blob is left out, and that the totals are those of the plan.

  \<open>sort.Slice\<close> is not stable: entries that agree in size, key and role may come in any order;
  the model keeps the order in which they were listed.
\<close>

section \<open>Roles, holds and entries\<close>

definition RoleArtifact :: string where "RoleArtifact = ''artifact''"
definition RoleStripped :: string where "RoleStripped = ''stripped''"
definition RoleDebug :: string where "RoleDebug = ''debug''"
definition RolePackaged :: string where "RolePackaged = ''packaged''"
definition RoleSite :: string where "RoleSite = ''site''"
definition RoleOCIBlob :: string where "RoleOCIBlob = ''oci-blob''"
definition RoleGoproxy :: string where "RoleGoproxy = ''goproxy''"
definition RoleRunFile :: string where "RoleRunFile = ''run-file''"
definition RoleCache :: string where "RoleCache = ''cache''"
definition RoleMirror :: string where "RoleMirror = ''mirror''"

definition HoldNone :: string where "HoldNone = []"
definition HoldBranchTip :: string where "HoldBranchTip = ''branch-tip''"
definition HoldKeepN :: string where "HoldKeepN = ''keep-n''"
definition HoldRecency :: string where "HoldRecency = ''recency-guard''"
definition HoldOCITag :: string where "HoldOCITag = ''oci-tag''"
definition HoldDocker :: string where "HoldDocker = ''docker''"
definition HoldDraft :: string where "HoldDraft = ''draft''"
definition HoldSharedBlob :: string where "HoldSharedBlob = ''shared-blob''"
definition HoldSite :: string where "HoldSite = ''site''"
definition HoldOCIBlob :: string where "HoldOCIBlob = ''oci-blob''"
definition HoldGoproxy :: string where "HoldGoproxy = ''goproxy''"
definition HoldRunFile :: string where "HoldRunFile = ''run-file''"
definition HoldCache :: string where "HoldCache = ''cache''"
definition HoldMirror :: string where "HoldMirror = ''mirror''"
definition HoldUnknown :: string where "HoldUnknown = ''unknown''"

lemmas hold_defs = HoldNone_def HoldBranchTip_def HoldKeepN_def HoldRecency_def HoldOCITag_def HoldDocker_def
  HoldDraft_def HoldSharedBlob_def HoldSite_def HoldOCIBlob_def HoldGoproxy_def HoldRunFile_def HoldCache_def
  HoldMirror_def HoldUnknown_def

record file_entry =
  fe_storage_key :: string
  fe_sha256 :: string
  fe_role :: string
  fe_size :: int
  fe_created_at :: time
  fe_project :: string
  fe_project_id :: int
  fe_module :: string
  fe_release_id :: int
  fe_version :: string
  fe_branch :: string
  fe_os :: OS
  fe_arch :: Arch
  fe_kind :: Kind
  fe_format :: string
  fe_media_type :: string
  fe_filename :: string
  fe_published :: bool
  fe_draft :: bool
  fe_refs :: nat
  fe_reclaimable :: bool
  fe_hold :: string
  fe_holds :: "string list"

text \<open>The zero value.\<close>

definition zero_entry :: file_entry where
  "zero_entry = \<lparr>fe_storage_key = [], fe_sha256 = [], fe_role = [], fe_size = 0, fe_created_at = 0,
     fe_project = [], fe_project_id = 0, fe_module = [], fe_release_id = 0, fe_version = [], fe_branch = [],
     fe_os = [], fe_arch = [], fe_kind = [], fe_format = [], fe_media_type = [], fe_filename = [],
     fe_published = False, fe_draft = False, fe_refs = 0, fe_reclaimable = False, fe_hold = [], fe_holds = []\<rparr>"

record inventory_group =
  ig_name :: string
  ig_files :: nat
  ig_bytes :: int
  ig_blobs :: nat
  ig_blob_bytes :: int

record inventory_totals =
  it_files :: nat
  it_bytes :: int
  it_blobs :: nat
  it_blob_bytes :: int
  it_reclaimable_blobs :: nat
  it_reclaimable_bytes :: int
  it_held_blobs :: nat
  it_held_bytes :: int
  it_releases :: nat
  it_evicted_releases :: nat
  it_hold_mismatches :: nat

definition zero_totals :: inventory_totals where
  "zero_totals = \<lparr>it_files = 0, it_bytes = 0, it_blobs = 0, it_blob_bytes = 0, it_reclaimable_blobs = 0,
     it_reclaimable_bytes = 0, it_held_blobs = 0, it_held_bytes = 0, it_releases = 0, it_evicted_releases = 0,
     it_hold_mismatches = 0\<rparr>"

record inventory_policy =
  ip_keep_n :: int
  ip_recency_guard :: int
  ip_recency_cutoff :: time

record inventory =
  inv_generated_at :: time
  inv_policy :: inventory_policy
  inv_totals :: inventory_totals
  inv_by_hold :: "inventory_group list"
  inv_by_role :: "inventory_group list"
  inv_files :: "file_entry list"

section \<open>The facts of a release\<close>

record retention_facts =
  rt_id :: int
  rt_project_id :: int
  rt_project_name :: string
  rt_version :: string
  rt_version_num :: int
  rt_git_branch :: string
  rt_published :: bool
  rt_draft :: bool
  rt_created_at :: time
  rt_newer_published :: nat
  rt_oci_tags :: nat
  rt_docker_artifacts :: nat

definition facts_row :: "db \<Rightarrow> release \<Rightarrow> project \<Rightarrow> retention_facts" where
  "facts_row d r p = \<lparr>rt_id = r_id r, rt_project_id = r_project_id r, rt_project_name = p_name p,
     rt_version = r_version r, rt_version_num = r_version_num r, rt_git_branch = r_git_branch r,
     rt_published = r_published r, rt_draft = r_draft r, rt_created_at = r_created_at r,
     rt_newer_published = newer_published r d,
     rt_oci_tags = length (filter (\<lambda>t. ot_release_id t = r_id r) (d_oci_tags d)),
     rt_docker_artifacts = length (filter (\<lambda>a. a_release_id a = r_id r \<and> a_kind a = KindDocker) (d_artifacts d))\<rparr>"

text \<open>A join: the rows that have a partner.\<close>

definition join_rows :: "('a \<Rightarrow> 'b option) \<Rightarrow> 'a list \<Rightarrow> ('a \<times> 'b) list" where
  "join_rows f xs = concat (map (\<lambda>x. case f x of None \<Rightarrow> [] | Some y \<Rightarrow> [(x, y)]) xs)"

definition ListReleaseRetentionFacts :: "db \<Rightarrow> retention_facts list" where
  "ListReleaseRetentionFacts d =
     sort_key rt_project_name (sort_key rt_version_num
       (map (\<lambda>(r, p). facts_row d r p) (join_rows (\<lambda>r. project_by_id (r_project_id r) d) (d_releases d))))"

definition releaseHolds :: "retention_facts \<Rightarrow> int \<Rightarrow> time \<Rightarrow> string list" where
  "releaseHolds f keepN cutoff =
     (let inGuard = \<not> rt_created_at f < cutoff in
      if \<not> rt_published f then
        (if rt_draft f then [HoldDraft] else if inGuard then [HoldRecency] else [])
      else
        (let keep = (if keepN < 1 then 1 else keepN);
             newer = int (rt_newer_published f)
         in (if rt_oci_tags f > 0 then [HoldOCITag] else [])
          @ (if rt_docker_artifacts f > 0 then [HoldDocker] else [])
          @ (if newer < keep then (if newer = 0 then [HoldBranchTip] else [HoldKeepN]) else [])
          @ (if inGuard then [HoldRecency] else [])))"

section \<open>The listings\<close>

definition release_by_id :: "int \<Rightarrow> db \<Rightarrow> release option" where
  "release_by_id i d = find_first (\<lambda>r. r_id r = i) (d_releases d)"

definition artifact_by_id :: "int \<Rightarrow> db \<Rightarrow> artifact option" where
  "artifact_by_id i d = find_first (\<lambda>a. a_id a = i) (d_artifacts d)"

text \<open>The release of an artifact with its project: both joins.\<close>

definition release_and_project :: "int \<Rightarrow> db \<Rightarrow> (release \<times> project) option" where
  "release_and_project rid d =
     (case release_by_id rid d of
        None \<Rightarrow> None
      | Some r \<Rightarrow> map_option (Pair r) (project_by_id (r_project_id r) d))"

definition ListArtifactFiles :: "db \<Rightarrow> (artifact \<times> release \<times> project) list" where
  "ListArtifactFiles d =
     sort_key (\<lambda>(a, r, p). p_name p) (sort_key (\<lambda>(a, r, p). r_version_num r) (sort_key (\<lambda>(a, r, p). a_id a)
       (join_rows (\<lambda>a. release_and_project (a_release_id a) d) (d_artifacts d))))"

definition packaged_joins :: "db \<Rightarrow> packaged_artifact \<Rightarrow> (artifact \<times> release \<times> project) option" where
  "packaged_joins d k =
     (case artifact_by_id (k_artifact_id k) d of
        None \<Rightarrow> None
      | Some a \<Rightarrow> map_option (Pair a) (release_and_project (a_release_id a) d))"

definition ListPackagedFiles :: "db \<Rightarrow> (packaged_artifact \<times> artifact \<times> release \<times> project) list" where
  "ListPackagedFiles d =
     sort_key (\<lambda>(k, a, r, p). p_name p) (sort_key (\<lambda>(k, a, r, p). r_version_num r) (sort_key (\<lambda>(k, a, r, p). k_id k)
       (join_rows (packaged_joins d) (d_packaged d))))"

definition ListSiteDetails :: "db \<Rightarrow> (site \<times> project) list" where
  "ListSiteDetails d = sort_key (\<lambda>(s, p). - site_updated_at s)
     (join_rows (\<lambda>s. project_by_id (site_project_id s) d) (d_sites d))"

definition ListOCIBlobFiles :: "db \<Rightarrow> (oci_blob_link \<times> project) list" where
  "ListOCIBlobFiles d = sort_key (\<lambda>(l, p). p_name p)
     (join_rows (\<lambda>l. project_by_id (ol_project_id l) d) (d_oci_links d))"

definition ListGoproxyBlobFiles :: "db \<Rightarrow> (goproxy_version \<times> goproxy_module) list" where
  "ListGoproxyBlobFiles d = sort_key (\<lambda>(v, m). gm_module_path m) (sort_key (\<lambda>(v, m). gv_version v)
     (join_rows (\<lambda>v. find_first (\<lambda>m. gm_id m = gv_module_id v) (d_goproxy_modules d))
       (filter (\<lambda>v. gv_zip_storage_key v \<noteq> []) (d_goproxy_versions d))))"

definition ListRunBlobFiles :: "db \<Rightarrow> (run_file \<times> run_storage_run) list" where
  "ListRunBlobFiles d = join_rows (\<lambda>f. find_first (run_at (fkey f)) (d_runs d)) (d_run_files d)"

definition ListMirrorBlobFiles :: "db \<Rightarrow> mirror_blob list" where
  "ListMirrorBlobFiles d = sort_key mb_upstream (sort_key mb_digest (d_mirror_blobs d))"

definition appendFile :: "file_entry list \<Rightarrow> file_entry \<Rightarrow> string \<Rightarrow> string \<Rightarrow> int \<Rightarrow> string \<Rightarrow> file_entry list" where
  "appendFile out base role key sz sha =
     (if key = [] then out
      else out @ [base\<lparr>fe_role := role, fe_storage_key := key, fe_size := sz, fe_sha256 := sha\<rparr>])"

definition release_base :: "artifact \<Rightarrow> release \<Rightarrow> project \<Rightarrow> file_entry" where
  "release_base a r p = zero_entry\<lparr>fe_created_at := a_created_at a, fe_project := p_name p,
     fe_project_id := r_project_id r, fe_release_id := a_release_id a, fe_version := r_version r,
     fe_branch := r_git_branch r, fe_os := a_os a, fe_arch := a_arch a, fe_kind := a_kind a,
     fe_filename := a_filename a, fe_published := r_published r, fe_draft := r_draft r\<rparr>"

definition append_artifact :: "file_entry list \<Rightarrow> artifact \<times> release \<times> project \<Rightarrow> file_entry list" where
  "append_artifact out row = (case row of (a, r, p) \<Rightarrow>
     let base = release_base a r p;
         out1 = appendFile out base RoleArtifact (a_storage_key a) (a_size a) (a_sha256 a);
         out2 = appendFile out1 base RoleStripped (a_stripped_storage_key a) (a_stripped_size a) (a_stripped_sha256 a)
     in appendFile out2 base RoleDebug (a_debug_storage_key a) (a_debug_size a) [])"

definition append_packaged :: "file_entry list \<Rightarrow> packaged_artifact \<times> artifact \<times> release \<times> project \<Rightarrow> file_entry list" where
  "append_packaged out row = (case row of (k, a, r, p) \<Rightarrow>
     appendFile out ((release_base a r p)\<lparr>fe_created_at := k_created_at k, fe_format := k_format k,
       fe_filename := k_filename k\<rparr>) RolePackaged (k_storage_key k) (k_size k) (k_sha256 k))"

definition append_site :: "file_entry list \<Rightarrow> site \<times> project \<Rightarrow> file_entry list" where
  "append_site out row = (case row of (s, p) \<Rightarrow>
     appendFile out (zero_entry\<lparr>fe_created_at := site_created_at s, fe_project := p_name p,
       fe_project_id := site_project_id s, fe_branch := site_branch s, fe_published := True,
       fe_holds := [HoldSite]\<rparr>) RoleSite (site_storage_key s) (site_size s) (site_sha256 s))"

definition append_oci :: "file_entry list \<Rightarrow> oci_blob_link \<times> project \<Rightarrow> file_entry list" where
  "append_oci out row = (case row of (l, p) \<Rightarrow>
     appendFile out (zero_entry\<lparr>fe_created_at := ol_created_at l, fe_project := p_name p,
       fe_project_id := ol_project_id l, fe_media_type := ol_media_type l, fe_published := True,
       fe_holds := [HoldOCIBlob]\<rparr>) RoleOCIBlob (ol_storage_key l) (ol_size l) [])"

definition append_goproxy :: "file_entry list \<Rightarrow> goproxy_version \<times> goproxy_module \<Rightarrow> file_entry list" where
  "append_goproxy out row = (case row of (v, m) \<Rightarrow>
     appendFile out (zero_entry\<lparr>fe_created_at := gv_fetched_at v, fe_module := gm_module_path m,
       fe_version := gv_version v, fe_published := True, fe_holds := [HoldGoproxy]\<rparr>)
       RoleGoproxy (gv_zip_storage_key v) (gv_zip_size v) [])"

definition append_run_file :: "file_entry list \<Rightarrow> run_file \<times> run_storage_run \<Rightarrow> file_entry list" where
  "append_run_file out row = (case row of (f, r) \<Rightarrow>
     appendFile out (zero_entry\<lparr>fe_created_at := rf_created_at f,
       fe_filename := rn_repo_path r @ ''#'' @ rf_run_id f @ ''/'' @ rf_name f, fe_holds := [HoldRunFile]\<rparr>)
       RoleRunFile (rf_storage_key f) (rf_size f) (rf_storage_key f))"

definition append_cache :: "file_entry list \<Rightarrow> cache_entry \<Rightarrow> file_entry list" where
  "append_cache out e =
     appendFile out (zero_entry\<lparr>fe_created_at := ce_created_at e, fe_branch := ce_ref e,
       fe_filename := ce_repo_path e @ ''/'' @ ce_key e, fe_holds := [HoldCache]\<rparr>)
       RoleCache (ce_storage_key e) (ce_size e) (ce_storage_key e)"

definition append_mirror :: "file_entry list \<Rightarrow> mirror_blob \<Rightarrow> file_entry list" where
  "append_mirror out m =
     appendFile out (zero_entry\<lparr>fe_created_at := mb_created_at m, fe_filename := mb_upstream m @ ''@'' @ mb_digest m,
       fe_media_type := mb_media_type m, fe_holds := [HoldMirror]\<rparr>)
       RoleMirror (mb_storage_key m) (mb_size m) (mb_storage_key m)"

definition listFiles :: "db \<Rightarrow> file_entry list" where
  "listFiles d =
     (let out1 = foldl append_artifact [] (ListArtifactFiles d);
          out2 = foldl append_packaged out1 (ListPackagedFiles d);
          out3 = foldl append_site out2 (ListSiteDetails d);
          out4 = foldl append_oci out3 (ListOCIBlobFiles d);
          out5 = foldl append_goproxy out4 (ListGoproxyBlobFiles d);
          out6 = foldl append_run_file out5 (ListRunBlobFiles d);
          out7 = foldl append_cache out6 (ListCacheEntries d)
      in foldl append_mirror out7 (ListMirrorBlobFiles d))"

section \<open>Groups and totals\<close>

type_synonym groups = "(string \<times> inventory_group) list"

definition bump_group :: "string \<Rightarrow> int \<Rightarrow> bool \<Rightarrow> groups \<Rightarrow> groups" where
  "bump_group name sz fresh m =
     (let g = (case map_of m name of
                 Some g \<Rightarrow> g
               | None \<Rightarrow> \<lparr>ig_name = name, ig_files = 0, ig_bytes = 0, ig_blobs = 0, ig_blob_bytes = 0\<rparr>);
          g1 = g\<lparr>ig_files := ig_files g + 1, ig_bytes := ig_bytes g + sz\<rparr>;
          g2 = (if fresh then g1\<lparr>ig_blobs := ig_blobs g1 + 1, ig_blob_bytes := ig_blob_bytes g1 + sz\<rparr> else g1)
      in AList.update name g2 m)"

definition hold_name :: "file_entry \<Rightarrow> string" where
  "hold_name f = (if fe_reclaimable f then ''reclaimable'' else fe_hold f)"

fun group_loop :: "file_entry list \<Rightarrow> string list \<Rightarrow> groups \<Rightarrow> groups \<Rightarrow> groups \<times> groups" where
  "group_loop [] seen holds roles = (holds, roles)"
| "group_loop (f # fs) seen holds roles =
     (let fresh = fe_storage_key f \<notin> set seen in
      group_loop fs (fe_storage_key f # seen)
        (bump_group (hold_name f) (fe_size f) fresh holds)
        (bump_group (fe_role f) (fe_size f) fresh roles))"

definition sortedGroups :: "groups \<Rightarrow> inventory_group list" where
  "sortedGroups m = sort_key (\<lambda>g. - ig_bytes g) (sort_key ig_name (map snd m))"

definition groupFiles :: "file_entry list \<Rightarrow> inventory_group list \<times> inventory_group list" where
  "groupFiles files = (case group_loop files [] [] [] of (holds, roles) \<Rightarrow> (sortedGroups holds, sortedGroups roles))"

fun summarize_loop :: "file_entry list \<Rightarrow> string list \<Rightarrow> inventory_totals \<Rightarrow> inventory_totals" where
  "summarize_loop [] seen t = t"
| "summarize_loop (f # fs) seen t =
     (let t1 = t\<lparr>it_files := it_files t + 1, it_bytes := it_bytes t + fe_size f\<rparr> in
      if fe_storage_key f \<in> set seen then summarize_loop fs seen t1
      else
        (let t2 = t1\<lparr>it_blobs := it_blobs t1 + 1, it_blob_bytes := it_blob_bytes t1 + fe_size f\<rparr> in
         if fe_reclaimable f then
           summarize_loop fs (fe_storage_key f # seen)
             (t2\<lparr>it_reclaimable_blobs := it_reclaimable_blobs t2 + 1,
                 it_reclaimable_bytes := it_reclaimable_bytes t2 + fe_size f\<rparr>)
         else
           summarize_loop fs (fe_storage_key f # seen)
             (t2\<lparr>it_held_blobs := it_held_blobs t2 + 1, it_held_bytes := it_held_bytes t2 + fe_size f\<rparr>)))"

definition summarize :: "inventory_totals \<Rightarrow> file_entry list \<Rightarrow> inventory_totals" where
  "summarize t files = summarize_loop files [] t"

section \<open>The inventory\<close>

text \<open>The holds of every release, with the number of releases whose reasons disagree with the
  plan.\<close>

fun holds_loop :: "int \<Rightarrow> time \<Rightarrow> int list \<Rightarrow> retention_facts list \<Rightarrow> (int \<times> string list) list \<Rightarrow> nat
    \<Rightarrow> (int \<times> string list) list \<times> nat" where
  "holds_loop keepN cutoff evicted [] holds n = (holds, n)"
| "holds_loop keepN cutoff evicted (f # fs) holds n =
     (let h = releaseHolds f keepN cutoff in
      if (h = []) \<noteq> (rt_id f \<in> set evicted)
      then holds_loop keepN cutoff evicted fs (AList.update (rt_id f) [HoldUnknown] holds) (n + 1)
      else holds_loop keepN cutoff evicted fs (AList.update (rt_id f) h holds) n)"

definition mark_file :: "(int \<times> string list) list \<Rightarrow> string list \<Rightarrow> string list \<Rightarrow> file_entry \<Rightarrow> file_entry" where
  "mark_file holds freed keys f =
     (let f1 = f\<lparr>fe_refs := length (filter (\<lambda>k. k = fe_storage_key f) keys)\<rparr>;
          hs = (if fe_release_id f \<noteq> 0
                then (let h = (case map_of holds (fe_release_id f) of None \<Rightarrow> [] | Some h \<Rightarrow> h) in
                      if h = [] \<and> fe_storage_key f \<notin> set freed then [HoldSharedBlob] else h)
                else fe_holds f);
          h0 = (if hs = [] then fe_hold f else hs ! 0)
      in f1\<lparr>fe_holds := hs, fe_hold := h0, fe_reclaimable := (h0 = HoldNone \<and> fe_storage_key f \<in> set freed)\<rparr>)"

definition sort_files :: "file_entry list \<Rightarrow> file_entry list" where
  "sort_files files = sort_key (\<lambda>f. - fe_size f) (sort_key fe_storage_key (sort_key fe_role files))"

definition Inventory :: "time \<Rightarrow> config \<Rightarrow> (string \<Rightarrow> bool) \<Rightarrow> record_deleter option \<Rightarrow> db \<times> filesystem
    \<Rightarrow> inventory \<times> db_error option" where
  "Inventory now cfg delfail deleter s =
     (let cutoff = sqliteDatetime (now - RecencyGuard cfg);
          inv = \<lparr>inv_generated_at = now,
                 inv_policy = \<lparr>ip_keep_n = KeepN cfg, ip_recency_guard = RecencyGuard cfg, ip_recency_cutoff = cutoff\<rparr>,
                 inv_totals = zero_totals, inv_by_hold = [], inv_by_role = [], inv_files = []\<rparr>
      in case Plan now cfg delfail deleter s of (s', plan, err) \<Rightarrow>
         if err \<noteq> None then (inv, err)
         else
           (let evicted = map rr_id (rep_evicted plan) @ map rr_id (rep_abandoned plan);
                freed = map fst (rep_freed plan);
                facts = ListReleaseRetentionFacts (fst s')
            in case holds_loop (KeepN cfg) cutoff evicted facts [] 0 of (holds, mismatches) \<Rightarrow>
               (let files = listFiles (fst s');
                    files' = sort_files (map (mark_file holds freed (map fe_storage_key files)) files);
                    totals = zero_totals\<lparr>it_hold_mismatches := mismatches, it_releases := length facts,
                                        it_evicted_releases := report_releases plan\<rparr>
                in (inv\<lparr>inv_files := files', inv_by_hold := fst (groupFiles files'),
                        inv_by_role := snd (groupFiles files'), inv_totals := summarize totals files'\<rparr>, None))))"

section \<open>The entries\<close>

text \<open>The rows refer to rows that exist, and identifiers are unique and positive: what the primary
  and foreign keys of the schema enforce.\<close>

definition rows_linked :: "db \<Rightarrow> bool" where
  "rows_linked d \<longleftrightarrow>
     distinct (map r_id (d_releases d)) \<and> distinct (map a_id (d_artifacts d))
   \<and> list_all (\<lambda>r. 0 < r_id r \<and> project_by_id (r_project_id r) d \<noteq> None) (d_releases d)
   \<and> list_all (\<lambda>a. release_by_id (a_release_id a) d \<noteq> None) (d_artifacts d)
   \<and> list_all (\<lambda>k. artifact_by_id (k_artifact_id k) d \<noteq> None) (d_packaged d)
   \<and> list_all (\<lambda>s. project_by_id (site_project_id s) d \<noteq> None) (d_sites d)
   \<and> list_all (\<lambda>l. project_by_id (ol_project_id l) d \<noteq> None) (d_oci_links d)
   \<and> list_all (\<lambda>v. find_first (\<lambda>m. gm_id m = gv_module_id v) (d_goproxy_modules d) \<noteq> None) (d_goproxy_versions d)
   \<and> list_all (\<lambda>f. find_first (run_at (fkey f)) (d_runs d) \<noteq> None) (d_run_files d)"

lemma join_rows_mem [simp]: "(x, y) \<in> set (join_rows f xs) \<longleftrightarrow> x \<in> set xs \<and> f x = Some y"
  by (auto simp: join_rows_def split: option.splits)

lemma join_rows_set: "set (join_rows f xs) = {(x, y). x \<in> set xs \<and> f x = Some y}"
  by auto

lemma appendFile_out: "appendFile out b r k s h = out @ appendFile [] b r k s h"
  by (simp add: appendFile_def)

lemma append_out:
  "append_artifact out ra = out @ append_artifact [] ra" "append_packaged out rp = out @ append_packaged [] rp"
  "append_site out rs = out @ append_site [] rs" "append_oci out ro = out @ append_oci [] ro"
  "append_goproxy out rg = out @ append_goproxy [] rg" "append_run_file out rr = out @ append_run_file [] rr"
  "append_cache out e = out @ append_cache [] e" "append_mirror out m = out @ append_mirror [] m"
  unfolding append_artifact_def append_packaged_def append_site_def append_oci_def append_goproxy_def
    append_run_file_def append_cache_def append_mirror_def
  by (auto simp: appendFile_def Let_def split: prod.splits)

lemma foldl_append_out:
  assumes "\<And>out x. g out x = out @ g [] x"
  shows "set (foldl g out xs) = set out \<union> (\<Union>x \<in> set xs. set (g [] x))"
proof (induction xs arbitrary: out)
  case Nil
  then show ?case by simp
next
  case (Cons x xs)
  have "set (g out x) = set out \<union> set (g [] x)" by (metis assms set_append)
  with Cons show ?case by (simp add: Un_assoc)
qed

lemma listFiles_set:
  "set (listFiles d) =
     (\<Union>x \<in> set (ListArtifactFiles d). set (append_artifact [] x)) \<union> (\<Union>x \<in> set (ListPackagedFiles d). set (append_packaged [] x))
   \<union> (\<Union>x \<in> set (ListSiteDetails d). set (append_site [] x)) \<union> (\<Union>x \<in> set (ListOCIBlobFiles d). set (append_oci [] x))
   \<union> (\<Union>x \<in> set (ListGoproxyBlobFiles d). set (append_goproxy [] x)) \<union> (\<Union>x \<in> set (ListRunBlobFiles d). set (append_run_file [] x))
   \<union> (\<Union>x \<in> set (ListCacheEntries d). set (append_cache [] x)) \<union> (\<Union>x \<in> set (ListMirrorBlobFiles d). set (append_mirror [] x))"
  unfolding listFiles_def Let_def
  by (simp only: foldl_append_out [where g = append_artifact, OF append_out(1)] foldl_append_out [where g = append_packaged, OF append_out(2)]
      foldl_append_out [where g = append_site, OF append_out(3)] foldl_append_out [where g = append_oci, OF append_out(4)]
      foldl_append_out [where g = append_goproxy, OF append_out(5)] foldl_append_out [where g = append_run_file, OF append_out(6)]
      foldl_append_out [where g = append_cache, OF append_out(7)] foldl_append_out [where g = append_mirror, OF append_out(8)]
      list.set(1) Un_empty_left)


text \<open>A key that a row outside the releases refers to.\<close>

definition pinned_key :: "string \<Rightarrow> db \<Rightarrow> bool" where
  "pinned_key k d \<longleftrightarrow>
     (\<exists>s \<in> set (d_sites d). site_storage_key s = k) \<or> (\<exists>l \<in> set (d_oci_links d). ol_storage_key l = k)
   \<or> (\<exists>v \<in> set (d_goproxy_versions d). gv_zip_storage_key v = k) \<or> (\<exists>f \<in> set (d_run_files d). rf_storage_key f = k)
   \<or> (\<exists>e \<in> set (d_cache_entries d). ce_storage_key e = k) \<or> (\<exists>b \<in> set (d_mirror_blobs d). mb_storage_key b = k)"

text \<open>A key that an artifact refers to, itself or by a package made from it.\<close>

definition artifact_key :: "string \<Rightarrow> artifact \<Rightarrow> db \<Rightarrow> bool" where
  "artifact_key k a d \<longleftrightarrow> a \<in> set (d_artifacts d) \<and>
     (a_storage_key a = k \<or> a_stripped_storage_key a = k \<or> a_debug_storage_key a = k
      \<or> (\<exists>x \<in> set (d_packaged d). k_artifact_id x = a_id a \<and> k_storage_key x = k))"

lemma artifact_by_id_Some: "artifact_by_id i d = Some a \<Longrightarrow> a \<in> set (d_artifacts d) \<and> a_id a = i"
  unfolding artifact_by_id_def by (drule find_first_Some) simp

lemma release_by_id_Some: "release_by_id i d = Some r \<Longrightarrow> r \<in> set (d_releases d) \<and> r_id r = i"
  unfolding release_by_id_def by (drule find_first_Some) simp

lemma artifact_entries:
  assumes "e \<in> set (append_artifact [] x)" "x \<in> set (ListArtifactFiles d)"
  shows "\<exists>a. artifact_key (fe_storage_key e) a d \<and> fe_release_id e = a_release_id a \<and> release_and_project (a_release_id a) d \<noteq> None
    \<and> fe_storage_key e \<noteq> [] \<and> fe_hold e = [] \<and> (fe_storage_key e, fe_size e) \<in> set (blob_rows d)"
proof -
  obtain a r p where x: "x = (a, r, p)" by (metis prod.exhaust)
  with assms(2) have "a \<in> set (d_artifacts d)" "release_and_project (a_release_id a) d \<noteq> None"
    by (auto simp: ListArtifactFiles_def)
  with assms(1) x show ?thesis
    by (intro exI [of _ a]) (auto simp: append_artifact_def appendFile_def artifact_key_def release_base_def zero_entry_def blob_rows_def Let_def split: if_splits)
qed

lemma packaged_entries:
  assumes "e \<in> set (append_packaged [] x)" "x \<in> set (ListPackagedFiles d)"
  shows "\<exists>a. artifact_key (fe_storage_key e) a d \<and> fe_release_id e = a_release_id a \<and> release_and_project (a_release_id a) d \<noteq> None
    \<and> fe_storage_key e \<noteq> [] \<and> fe_hold e = [] \<and> (fe_storage_key e, fe_size e) \<in> set (blob_rows d)"
proof -
  obtain k a r p where x: "x = (k, a, r, p)" by (metis prod.exhaust)
  with assms(2) have "k \<in> set (d_packaged d)" "packaged_joins d k = Some (a, r, p)"
    by (auto simp: ListPackagedFiles_def)
  then have "k \<in> set (d_packaged d)" "a \<in> set (d_artifacts d)" "a_id a = k_artifact_id k" "release_and_project (a_release_id a) d \<noteq> None"
    by (auto simp: packaged_joins_def split: option.splits dest: artifact_by_id_Some)
  with assms(1) x show ?thesis
    by (intro exI [of _ a]) (auto simp: append_packaged_def appendFile_def artifact_key_def release_base_def zero_entry_def blob_rows_def split: if_splits)
qed

text \<open>Every entry is of a release's artifact, or carries a hold of its own and a key that a row
  outside the releases refers to.\<close>

lemma entry_cases:
  assumes "e \<in> set (listFiles d)"
  obtains (release) a where "artifact_key (fe_storage_key e) a d" "fe_release_id e = a_release_id a"
      "release_and_project (a_release_id a) d \<noteq> None" "fe_storage_key e \<noteq> []" "fe_hold e = []"
      "(fe_storage_key e, fe_size e) \<in> set (blob_rows d)"
    | (other) h where "fe_release_id e = 0" "fe_holds e = [h]" "h \<noteq> HoldNone" "h \<noteq> HoldUnknown"
      "pinned_key (fe_storage_key e) d" "fe_storage_key e \<noteq> []" "fe_hold e = []"
proof -
  consider (1) x where "x \<in> set (ListArtifactFiles d)" "e \<in> set (append_artifact [] x)"
    | (2) x where "x \<in> set (ListPackagedFiles d)" "e \<in> set (append_packaged [] x)"
    | (3) x where "x \<in> set (ListSiteDetails d)" "e \<in> set (append_site [] x)"
    | (4) x where "x \<in> set (ListOCIBlobFiles d)" "e \<in> set (append_oci [] x)"
    | (5) x where "x \<in> set (ListGoproxyBlobFiles d)" "e \<in> set (append_goproxy [] x)"
    | (6) x where "x \<in> set (ListRunBlobFiles d)" "e \<in> set (append_run_file [] x)"
    | (7) x where "x \<in> set (ListCacheEntries d)" "e \<in> set (append_cache [] x)"
    | (8) x where "x \<in> set (ListMirrorBlobFiles d)" "e \<in> set (append_mirror [] x)"
    using assms unfolding listFiles_set by blast
  then show ?thesis
  proof cases
    case 1
    with artifact_entries release show ?thesis by metis
  next
    case 2
    with packaged_entries release show ?thesis by metis
  next
    case 3
    then show ?thesis
      by (intro other [of HoldSite]) (auto simp: append_site_def appendFile_def zero_entry_def hold_defs pinned_key_def ListSiteDetails_def split: if_splits)
  next
    case 4
    then show ?thesis
      by (intro other [of HoldOCIBlob]) (auto simp: append_oci_def appendFile_def zero_entry_def hold_defs pinned_key_def ListOCIBlobFiles_def split: if_splits)
  next
    case 5
    then show ?thesis
      by (intro other [of HoldGoproxy]) (auto simp: append_goproxy_def appendFile_def zero_entry_def hold_defs pinned_key_def ListGoproxyBlobFiles_def split: if_splits)
  next
    case 6
    then show ?thesis
      by (intro other [of HoldRunFile]) (auto simp: append_run_file_def appendFile_def zero_entry_def hold_defs pinned_key_def ListRunBlobFiles_def split: if_splits)
  next
    case 7
    then show ?thesis
      by (intro other [of HoldCache]) (auto simp: append_cache_def appendFile_def zero_entry_def hold_defs pinned_key_def ListCacheEntries_def split: if_splits)
  next
    case 8
    then show ?thesis
      by (intro other [of HoldMirror]) (auto simp: append_mirror_def appendFile_def zero_entry_def hold_defs pinned_key_def ListMirrorBlobFiles_def split: if_splits)
  qed
qed






section \<open>The reasons agree with the plan\<close>

definition doomed_by_policy :: "int \<Rightarrow> time \<Rightarrow> db \<Rightarrow> release \<Rightarrow> bool" where
  "doomed_by_policy keepN cutoff d r \<longleftrightarrow>
     evictable keepN cutoff d r \<or>
     (project_by_id (r_project_id r) d \<noteq> None \<and> \<not> r_published r \<and> \<not> r_draft r \<and> r_created_at r < cutoff)"

lemma releaseHolds_empty:
  assumes "project_by_id (r_project_id r) d = Some p"
  shows "releaseHolds (facts_row d r p) keepN cutoff = [] \<longleftrightarrow> doomed_by_policy keepN cutoff d r"
  using assms
  by (auto simp: releaseHolds_def facts_row_def doomed_by_policy_def evictable_def Let_def list_ex_iff filter_empty_conv max_def)

lemma releaseHolds_named: "h \<in> set (releaseHolds f keepN cutoff) \<Longrightarrow> h \<noteq> HoldNone \<and> h \<noteq> HoldUnknown"
  by (auto simp: releaseHolds_def hold_defs Let_def split: if_splits)

definition planned_ids :: "time \<Rightarrow> config \<Rightarrow> db \<Rightarrow> int list" where
  "planned_ids now cfg d = map r_id (ListAbandonedReleases (now - RecencyGuard cfg) d
     @ ListEvictableReleases (KeepN cfg) (now - RecencyGuard cfg) d)"

lemma planned_iff:
  assumes "distinct (map r_id (d_releases d))" "r \<in> set (d_releases d)"
  shows "r_id r \<in> set (planned_ids now cfg d) \<longleftrightarrow>
    doomed_by_policy (KeepN cfg) (sqliteDatetime (now - RecencyGuard cfg)) d r"
proof -
  let ?gone = "ListAbandonedReleases (now - RecencyGuard cfg) d @ ListEvictableReleases (KeepN cfg) (now - RecencyGuard cfg) d"
  have "inj_on r_id (set (d_releases d))" using assms(1) by (simp add: distinct_map)
  moreover have "set ?gone \<subseteq> set (d_releases d)" by (auto simp: ListAbandonedReleases_def ListEvictableReleases_set)
  ultimately have "r_id r \<in> set (planned_ids now cfg d) \<longleftrightarrow> r \<in> set ?gone"
    unfolding planned_ids_def using assms(2) by (metis (no_types, lifting) inj_on_image_mem_iff set_map)
  with assms(2) show ?thesis
    by (auto simp: ListAbandonedReleases_def ListEvictableReleases_set doomed_by_policy_def)
qed

lemma facts_set:
  "set (ListReleaseRetentionFacts d) =
     {facts_row d r p | r p. r \<in> set (d_releases d) \<and> project_by_id (r_project_id r) d = Some p}"
  by (auto simp: ListReleaseRetentionFacts_def join_rows_set)

lemma holds_loop_frame:
  "i \<notin> rt_id ` set fs \<Longrightarrow> map_of (fst (holds_loop keepN cutoff evicted fs holds n)) i = map_of holds i"
  by (induction fs arbitrary: holds n) (auto simp: Let_def update_conv')

lemma holds_loop_agree:
  assumes "\<forall>f \<in> set fs. (releaseHolds f keepN cutoff = []) = (rt_id f \<in> set evicted)"
  shows "snd (holds_loop keepN cutoff evicted fs holds n) = n \<and>
    (inj_on rt_id (set fs) \<longrightarrow> (\<forall>f \<in> set fs. map_of (fst (holds_loop keepN cutoff evicted fs holds n)) (rt_id f)
       = Some (releaseHolds f keepN cutoff)))"
  using assms
proof (induction fs arbitrary: holds)
  case Nil
  then show ?case by simp
next
  case (Cons f fs)
  let ?h = "AList.update (rt_id f) (releaseHolds f keepN cutoff) holds"
  have step: "holds_loop keepN cutoff evicted (f # fs) holds n = holds_loop keepN cutoff evicted fs ?h n"
    using Cons.prems by (simp add: Let_def)
  have same: "snd (holds_loop keepN cutoff evicted fs ?h n) = n"
    and rest: "inj_on rt_id (set fs) \<longrightarrow> (\<forall>g \<in> set fs. map_of (fst (holds_loop keepN cutoff evicted fs ?h n)) (rt_id g)
      = Some (releaseHolds g keepN cutoff))"
    using Cons.IH [of ?h] Cons.prems by auto
  have "map_of (fst (holds_loop keepN cutoff evicted fs ?h n)) (rt_id g) = Some (releaseHolds g keepN cutoff)"
    if inj: "inj_on rt_id (set (f # fs))" and g: "g \<in> set (f # fs)" for g
  proof (cases "g \<in> set fs")
    case True
    with rest inj show ?thesis by (simp add: inj_on_def)
  next
    case False
    with g have "g = f" by simp
    moreover from inj False this have "rt_id f \<notin> rt_id ` set fs" by (auto simp: inj_on_def)
    ultimately show ?thesis by (simp add: holds_loop_frame update_conv')
  qed
  with same step show ?case by simp
qed

text \<open>What a plan without error reports, and what the run it predicts does.\<close>

lemma plan_outcome:
  assumes "sizes_ok g d" and "Plan now cfg delfail deleter (d, fs) = (s', rep, None)"
  obtains d1 n1 where "s' = (d, fs)" "set (map rr_id (rep_evicted rep) @ map rr_id (rep_abandoned rep)) = set (planned_ids now cfg d)"
    "EvictReleases (planned_ids now cfg d) True d = (d1, rep_freed rep, n1, None)"
    "fst ` set (rep_freed rep) = became_free d d1" "cand_ok g (rep_freed rep)" "rep_bytes rep = sum_list (map snd (rep_freed rep))"
proof -
  let ?ids = "planned_ids now cfg d"
  obtain d0 fs0 where s': "s' = (d0, fs0)" by fastforce
  from run_evict [OF assms(2) [unfolded Plan_def]] obtain rep0 refs0 where
    dry: "evict delfail deleter rep0 refs0 ?ids False (d, fs) = ((d0, fs0), rep, None)"
    "rep_freed rep0 = []" "rep_bytes rep0 = 0"
    "rep_evicted rep0 = map (ref_of d) (ListEvictableReleases (KeepN cfg) (now - RecencyGuard cfg) d)"
    "rep_abandoned rep0 = map (ref_of d) (ListAbandonedReleases (now - RecencyGuard cfg) d)"
    unfolding planned_ids_def using s' by metis
  from evict_outcome [OF dry(1)] obtain freed n where
    ev: "EvictReleases ?ids False d = (d0, freed, n, None)" and same: "fs0 = fs"
    "rep_freed rep = freed" "rep_bytes rep = sum_list (map snd freed)"
    "rep_evicted rep = rep_evicted rep0" "rep_abandoned rep = rep_abandoned rep0"
    using dry by auto
  from dry_run_agrees [OF assms(1) ev] obtain d1 n1 where "d0 = d"
    "EvictReleases ?ids True d = (d1, freed, n1, None)" "fst ` set freed = became_free d d1"
    by (auto simp: became_free_def)
  moreover have "cand_ok g freed" using dry_run_cand [OF assms(1) ev] .
  moreover have "set (map rr_id (rep_evicted rep) @ map rr_id (rep_abandoned rep)) = set ?ids"
    unfolding same(4,5) dry(4,5) planned_ids_def by (auto simp: ref_of_def)
  ultimately show ?thesis using that s' same by metis
qed


text \<open>A freed key belongs to releases of the plan only.\<close>

lemma freed_of_planned:
  assumes "survives ids d d1" "\<not> IsBlobReferenced k d1"
  shows "\<not> pinned_key k d" and "artifact_key k a d \<Longrightarrow> distinct (map a_id (d_artifacts d)) \<Longrightarrow> a_release_id a \<in> ids"
proof -
  show "\<not> pinned_key k d"
    using assms by (auto simp: survives_def pinned_key_def IsBlobReferenced_def list_ex_iff)
  assume key: "artifact_key k a d" and dist: "distinct (map a_id (d_artifacts d))"
  show "a_release_id a \<in> ids"
  proof (rule ccontr)
    assume out: "a_release_id a \<notin> ids"
    with key assms(1) have "a \<in> set (d_artifacts d1)" by (simp add: artifact_key_def survives_def)
    with assms(2) have "\<not> (a_storage_key a = k \<or> a_stripped_storage_key a = k \<or> a_debug_storage_key a = k)"
      by (auto simp: IsBlobReferenced_def list_ex_iff)
    with key obtain x where x: "x \<in> set (d_packaged d)" "k_artifact_id x = a_id a" "k_storage_key x = k"
      by (auto simp: artifact_key_def)
    have "\<not> packaged_in ids d x"
    proof
      assume "packaged_in ids d x"
      then obtain b where "b \<in> set (d_artifacts d)" "a_id b = a_id a" "a_release_id b \<in> ids"
        using x by (auto simp: packaged_in_def)
      with key dist have "b = a" by (auto simp: artifact_key_def distinct_map dest: inj_onD)
      with \<open>a_release_id b \<in> ids\<close> out show False by simp
    qed
    with x assms(1) have "x \<in> set (d_packaged d1)" by (simp add: survives_def)
    with assms(2) x show False by (auto simp: IsBlobReferenced_def list_ex_iff)
  qed
qed

section \<open>The inventory is exact\<close>

definition holds_ok :: "time \<Rightarrow> config \<Rightarrow> db \<Rightarrow> (int \<times> string list) list \<Rightarrow> bool" where
  "holds_ok now cfg d holds \<longleftrightarrow> (\<forall>r \<in> set (d_releases d). \<forall>p. project_by_id (r_project_id r) d = Some p \<longrightarrow>
     map_of holds (r_id r) = Some (releaseHolds (facts_row d r p) (KeepN cfg) (sqliteDatetime (now - RecencyGuard cfg))))"

lemma sort_files_set [simp]: "set (sort_files fs) = set fs"
  by (simp add: sort_files_def)

lemma mark_file_keeps [simp]:
  "fe_storage_key (mark_file holds freed keys e) = fe_storage_key e" "fe_size (mark_file holds freed keys e) = fe_size e"
  by (simp_all add: mark_file_def Let_def)

lemma inventory_outcome:
  assumes ok: "rows_linked d" and sizes: "sizes_ok g d" and iv: "Inventory now cfg delfail deleter (d, fs) = (iv, None)"
  obtains plan d1 n1 holds t where
    "Plan now cfg delfail deleter (d, fs) = ((d, fs), plan, None)"
    "EvictReleases (planned_ids now cfg d) True d = (d1, rep_freed plan, n1, None)"
    "fst ` set (rep_freed plan) = became_free d d1" "cand_ok g (rep_freed plan)"
    "rep_bytes plan = sum_list (map snd (rep_freed plan))"
    "inv_files iv = sort_files (map (mark_file holds (map fst (rep_freed plan)) (map fe_storage_key (listFiles d))) (listFiles d))"
    "inv_totals iv = summarize t (inv_files iv)" "it_reclaimable_blobs t = 0" "it_reclaimable_bytes t = 0" "it_hold_mismatches t = 0"
    "holds_ok now cfg d holds"
proof -
  obtain s' plan err where plan: "Plan now cfg delfail deleter (d, fs) = (s', plan, err)" by (metis prod_cases3)
  let ?cut = "sqliteDatetime (now - RecencyGuard cfg)" and ?ev = "map rr_id (rep_evicted plan) @ map rr_id (rep_abandoned plan)"
  from iv plan have err: "err = None" by (auto simp: Inventory_def Let_def split: if_splits prod.splits)
  from plan_outcome [OF sizes plan [unfolded err]] obtain d1 n1 where out: "s' = (d, fs)"
    "set ?ev = set (planned_ids now cfg d)"
    "EvictReleases (planned_ids now cfg d) True d = (d1, rep_freed plan, n1, None)"
    "fst ` set (rep_freed plan) = became_free d d1" "cand_ok g (rep_freed plan)"
    "rep_bytes plan = sum_list (map snd (rep_freed plan))" by metis
  obtain holds n where loop: "holds_loop (KeepN cfg) ?cut ?ev (ListReleaseRetentionFacts d) [] 0 = (holds, n)" by fastforce
  have ids: "distinct (map r_id (d_releases d))" using ok by (simp add: rows_linked_def)
  have agree: "\<forall>f \<in> set (ListReleaseRetentionFacts d). (releaseHolds f (KeepN cfg) ?cut = []) = (rt_id f \<in> set ?ev)"
    unfolding facts_set out(2) using releaseHolds_empty planned_iff [OF ids] by (auto simp: facts_row_def)
  have "inj_on rt_id (set (ListReleaseRetentionFacts d))"
    using ids by (auto simp: inj_on_def facts_set facts_row_def distinct_map)
  with holds_loop_agree [OF agree, of "[]" 0] loop have n: "n = 0"
    and holds: "\<forall>f \<in> set (ListReleaseRetentionFacts d). map_of holds (rt_id f) = Some (releaseHolds f (KeepN cfg) ?cut)"
    by auto
  have "holds_ok now cfg d holds"
    unfolding holds_ok_def
  proof (intro ballI allI impI)
    fix r p assume "r \<in> set (d_releases d)" "project_by_id (r_project_id r) d = Some p"
    then have "facts_row d r p \<in> set (ListReleaseRetentionFacts d)" unfolding facts_set by blast
    with holds show "map_of holds (r_id r) = Some (releaseHolds (facts_row d r p) (KeepN cfg) ?cut)"
      by (auto simp: facts_row_def)
  qed
  moreover have "inv_files iv = sort_files (map (mark_file holds (map fst (rep_freed plan)) (map fe_storage_key (listFiles d))) (listFiles d))"
    "\<exists>t. inv_totals iv = summarize t (inv_files iv) \<and> it_reclaimable_blobs t = 0 \<and> it_reclaimable_bytes t = 0 \<and> it_hold_mismatches t = 0"
    using iv loop unfolding Inventory_def Let_def plan err out(1) by (auto simp: n zero_totals_def)
  ultimately show ?thesis using that [OF plan [unfolded err out(1)] out(3-6)] by metis
qed

lemma release_and_project_Some:
  "release_and_project i d = Some (r, p) \<Longrightarrow> r \<in> set (d_releases d) \<and> r_id r = i \<and> project_by_id (r_project_id r) d = Some p"
  by (auto simp: release_and_project_def split: option.splits dest: release_by_id_Some)

text \<open>The mark of an entry: reclaimable exactly when its key is freed, and otherwise held for a
  reason that has a name.\<close>

lemma mark_file_exact:
  assumes ok: "rows_linked d" and surv: "survives (set (planned_ids now cfg d)) d d1"
    and freed: "set freed = became_free d d1" and e: "e \<in> set (listFiles d)"
    and holds: "holds_ok now cfg d holds"
  shows "fe_reclaimable (mark_file holds freed keys e) \<longleftrightarrow> fe_storage_key e \<in> set freed"
    and "fe_storage_key e \<notin> set freed \<Longrightarrow>
      fe_hold (mark_file holds freed keys e) \<noteq> HoldNone \<and> fe_hold (mark_file holds freed keys e) \<noteq> HoldUnknown"
proof -
  have dead: "\<not> IsBlobReferenced (fe_storage_key e) d1" if "fe_storage_key e \<in> set freed"
    using that freed by (simp add: became_free_def)
  have dist: "distinct (map r_id (d_releases d))" "distinct (map a_id (d_artifacts d))"
    using ok by (simp_all add: rows_linked_def)
  have "(fe_reclaimable (mark_file holds freed keys e) \<longleftrightarrow> fe_storage_key e \<in> set freed) \<and>
    (fe_storage_key e \<notin> set freed \<longrightarrow>
      fe_hold (mark_file holds freed keys e) \<noteq> HoldNone \<and> fe_hold (mark_file holds freed keys e) \<noteq> HoldUnknown)"
    using e
  proof (cases rule: entry_cases)
    case (release a)
    then obtain r p where r: "r \<in> set (d_releases d)" "r_id r = a_release_id a" "project_by_id (r_project_id r) d = Some p"
      using release_and_project_Some by fastforce
    let ?h = "releaseHolds (facts_row d r p) (KeepN cfg) (sqliteDatetime (now - RecencyGuard cfg))"
    have map: "map_of holds (fe_release_id e) = Some ?h" using holds r release(2) unfolding holds_ok_def by metis
    have id: "fe_release_id e \<noteq> 0" using ok r release(2) by (auto simp: rows_linked_def list_all_iff)
    have empty: "?h = []" if "fe_storage_key e \<in> set freed"
      using freed_of_planned(2) [OF surv dead [OF that] release(1) dist(2)] r planned_iff [OF dist(1) r(1)]
        releaseHolds_empty [OF r(3)] by simp
    show ?thesis
    proof (cases "fe_storage_key e \<in> set freed")
      case True
      then show ?thesis using map id empty release(5) by (simp add: mark_file_def Let_def HoldNone_def)
    next
      case False
      moreover have "h \<noteq> HoldNone \<and> h \<noteq> HoldUnknown" if "h = ?h ! 0" "?h \<noteq> []" for h
        using that releaseHolds_named nth_mem by (metis length_greater_0_conv)
      ultimately show ?thesis using map id
        by (auto simp: mark_file_def Let_def HoldSharedBlob_def HoldUnknown_def HoldNone_def)
    qed
  next
    case (other h)
    then have "fe_storage_key e \<notin> set freed" using freed_of_planned(1) [OF surv dead] by blast
    with other show ?thesis by (auto simp: mark_file_def Let_def)
  qed
  then show "fe_reclaimable (mark_file holds freed keys e) \<longleftrightarrow> fe_storage_key e \<in> set freed"
    "fe_storage_key e \<notin> set freed \<Longrightarrow>
      fe_hold (mark_file holds freed keys e) \<noteq> HoldNone \<and> fe_hold (mark_file holds freed keys e) \<noteq> HoldUnknown" by blast+
qed



text \<open>The reasons derived from the facts of the releases never disagree with the plan, and every
  entry that is not reclaimable names why it is kept.\<close>

theorem inventory_explains:
  assumes ok: "rows_linked d" and sizes: "sizes_ok g d"
    and inv: "Inventory now cfg delfail deleter (d, fs) = (iv, None)"
  shows "it_hold_mismatches (inv_totals iv) = 0 \<and>
    (\<forall>e \<in> set (inv_files iv). \<not> fe_reclaimable e \<longrightarrow> fe_hold e \<noteq> HoldNone \<and> fe_hold e \<noteq> HoldUnknown)"
proof -
  from ok sizes inv obtain plan d1 n1 holds t where
    plan: "Plan now cfg delfail deleter (d, fs) = ((d, fs), plan, None)"
    and ev: "EvictReleases (planned_ids now cfg d) True d = (d1, rep_freed plan, n1, None)"
    and freed: "fst ` set (rep_freed plan) = became_free d d1" and cand: "cand_ok g (rep_freed plan)"
    and bytes: "rep_bytes plan = sum_list (map snd (rep_freed plan))"
    and files: "inv_files iv = sort_files (map (mark_file holds (map fst (rep_freed plan)) (map fe_storage_key (listFiles d))) (listFiles d))"
    and tot: "inv_totals iv = summarize t (inv_files iv)" "it_reclaimable_blobs t = 0" "it_reclaimable_bytes t = 0"
      "it_hold_mismatches t = 0"
    and holds: "holds_ok now cfg d holds"
    by (rule inventory_outcome)
  have surv: "survives (set (planned_ids now cfg d)) d d1" using eviction_frees_dead [OF ev] by blast
  have fr: "set (map fst (rep_freed plan)) = became_free d d1" using freed by simp
  note mark = mark_file_exact [OF ok surv fr _ holds]
  have "it_hold_mismatches (summarize_loop fs seen t) = it_hold_mismatches t" for fs seen t
    by (induction fs seen t rule: summarize_loop.induct) (auto simp: Let_def)
  with tot have "it_hold_mismatches (inv_totals iv) = 0" by (simp add: summarize_def)
  moreover have "fe_hold e \<noteq> HoldNone \<and> fe_hold e \<noteq> HoldUnknown" if "e \<in> set (inv_files iv)" "\<not> fe_reclaimable e" for e
    using that files mark by auto
  ultimately show ?thesis by blast
qed

section \<open>Groups\<close>

definition group_sum :: "(inventory_group \<Rightarrow> int) \<Rightarrow> groups \<Rightarrow> int" where
  "group_sum h m = sum_list (map (h \<circ> snd) m)"

lemma group_sum_update:
  "distinct (map fst m) \<Longrightarrow> group_sum h (AList.update n g m) =
     group_sum h m + h g - (case map_of m n of None \<Rightarrow> 0 | Some g0 \<Rightarrow> h g0)"
  by (induction m) (auto simp: group_sum_def map_of_eq_None_iff split: option.splits)

lemma bump_group_sums:
  assumes "distinct (map fst m)"
  shows "group_sum (int \<circ> ig_files) (bump_group n s b m) = group_sum (int \<circ> ig_files) m + 1"
    "group_sum ig_bytes (bump_group n s b m) = group_sum ig_bytes m + s"
    "group_sum (int \<circ> ig_blobs) (bump_group n s b m) = group_sum (int \<circ> ig_blobs) m + (if b then 1 else 0)"
    "group_sum ig_blob_bytes (bump_group n s b m) = group_sum ig_blob_bytes m + (if b then s else 0)"
    "distinct (map fst (bump_group n s b m))"
  using assms by (auto simp: bump_group_def Let_def group_sum_update distinct_update split: option.splits)

definition same_sums :: "groups \<Rightarrow> inventory_totals \<Rightarrow> bool" where
  "same_sums m t \<longleftrightarrow> distinct (map fst m) \<and> group_sum (int \<circ> ig_files) m = int (it_files t)
     \<and> group_sum ig_bytes m = it_bytes t \<and> group_sum (int \<circ> ig_blobs) m = int (it_blobs t)
     \<and> group_sum ig_blob_bytes m = it_blob_bytes t"

lemma group_loop_sums:
  assumes "same_sums holds t" "same_sums roles t" "set seen = set seen'"
  shows "same_sums (fst (group_loop fs seen holds roles)) (summarize_loop fs seen' t)
    \<and> same_sums (snd (group_loop fs seen holds roles)) (summarize_loop fs seen' t)"
  using assms
proof (induction fs arbitrary: seen seen' holds roles t)
  case Nil
  then show ?case by simp
next
  case (Cons f fs)
  let ?k = "fe_storage_key f" and ?b = "fe_storage_key f \<notin> set seen"
  let ?t = "if ?b then t\<lparr>it_files := it_files t + 1, it_bytes := it_bytes t + fe_size f,
      it_blobs := it_blobs t + 1, it_blob_bytes := it_blob_bytes t + fe_size f\<rparr>
    else t\<lparr>it_files := it_files t + 1, it_bytes := it_bytes t + fe_size f\<rparr>"
  let ?seen = "if ?b then ?k # seen' else seen'"
  have sums: "same_sums (bump_group n (fe_size f) ?b m) ?t" if "same_sums m t" for n m
    using that by (simp add: same_sums_def bump_group_sums)
  have seen: "set (?k # seen) = set ?seen" using Cons.prems(3) by auto
  have other: "same_sums m (u\<lparr>it_reclaimable_blobs := x, it_reclaimable_bytes := y\<rparr>) = same_sums m u"
    "same_sums m (u\<lparr>it_held_blobs := x, it_held_bytes := y\<rparr>) = same_sums m u" for m u x y
    by (simp_all add: same_sums_def)
  obtain t' where t': "summarize_loop (f # fs) seen' t = summarize_loop fs ?seen t'"
    "\<And>m. same_sums m t' = same_sums m ?t"
  proof (cases ?b)
    case True
    with Cons.prems(3) that other show ?thesis by (cases "fe_reclaimable f") (force simp: Let_def)+
  next
    case False
    with Cons.prems(3) that show ?thesis by (force simp: Let_def)
  qed
  from Cons.IH [of _ t' _ "?k # seen" ?seen] sums [OF Cons.prems(1)] sums [OF Cons.prems(2)] seen t'
  show ?case by (simp add: Let_def)
qed

lemma summarize_loop_counts:
  "it_files (summarize_loop fs seen t) = it_files t + length fs
   \<and> it_bytes (summarize_loop fs seen t) = it_bytes t + sum_list (map fe_size fs)
   \<and> it_blobs (summarize_loop fs seen t) = it_blobs t + card (fe_storage_key ` set fs - set seen)
   \<and> it_reclaimable_blobs (summarize_loop fs seen t) + it_held_blobs (summarize_loop fs seen t)
       = it_reclaimable_blobs t + it_held_blobs t + card (fe_storage_key ` set fs - set seen)"
proof (induction fs arbitrary: seen t)
  case Nil
  then show ?case by simp
next
  case (Cons f fs)
  let ?k = "fe_storage_key f" and ?T = "fe_storage_key ` set fs - insert (fe_storage_key f) (set seen)"
  have fresh: "fe_storage_key ` set (f # fs) - set seen = insert ?k ?T" "?k \<notin> ?T" "finite ?T" if "?k \<notin> set seen"
    using that by auto
  show ?case
  proof (cases "?k \<in> set seen")
    case True
    then have "fe_storage_key ` set (f # fs) - set seen = fe_storage_key ` set fs - set seen" by auto
    with True Cons.IH [of seen] show ?thesis by (simp add: Let_def)
  next
    case False
    with fresh have "card (fe_storage_key ` set (f # fs) - set seen) = Suc (card ?T)" by simp
    with False Cons.IH [of "?k # seen"] show ?thesis by (simp add: Let_def)
  qed
qed

lemma summarize_loop_bytes:
  "it_blob_bytes t = it_reclaimable_bytes t + it_held_bytes t \<Longrightarrow>
   it_blob_bytes (summarize_loop fs seen t) = it_reclaimable_bytes (summarize_loop fs seen t) + it_held_bytes (summarize_loop fs seen t)"
  by (induction fs seen t rule: summarize_loop.induct) (auto simp: Let_def)

text \<open>The accounts close: the groups by hold and the groups by role each add up to the totals, and
  every blob counted is reclaimable or held.\<close>

theorem inventory_accounts:
  assumes "groupFiles files = (byHold, byRole)" and "summarize zero_totals files = t" and "gs = byHold \<or> gs = byRole"
  shows "sum_list (map (\<lambda>g. int (ig_files g)) gs) = int (length files)
    \<and> sum_list (map ig_bytes gs) = sum_list (map fe_size files)
    \<and> sum_list (map (\<lambda>g. int (ig_blobs g)) gs) = int (card (fe_storage_key ` set files))
    \<and> sum_list (map ig_blob_bytes gs) = it_reclaimable_bytes t + it_held_bytes t
    \<and> it_reclaimable_blobs t + it_held_blobs t = card (fe_storage_key ` set files)"
proof -
  obtain holds roles where loop: "group_loop files [] [] [] = (holds, roles)" by fastforce
  have "same_sums [] zero_totals" by (simp add: same_sums_def group_sum_def zero_totals_def)
  from group_loop_sums [OF this this, of "[]" "[]" files] loop assms(2)
  have sums: "same_sums holds t" "same_sums roles t" by (simp_all add: summarize_def)
  from assms(1) loop have "byHold = sortedGroups holds" "byRole = sortedGroups roles" by (simp_all add: groupFiles_def)
  with assms(3) sums obtain m where m: "gs = sortedGroups m" "same_sums m t" by blast
  have perm: "sum_list (map h gs) = group_sum h m" for h :: "inventory_group \<Rightarrow> int"
    unfolding m(1) sortedGroups_def group_sum_def
    by (metis (no_types, lifting) map_map mset_map mset_sort sum_mset_sum_list)
  note counts = summarize_loop_counts [of files "[]" zero_totals, folded summarize_def, unfolded assms(2)]
  show ?thesis
    unfolding perm using m(2) counts summarize_loop_bytes [of zero_totals files "[]", folded summarize_def, unfolded assms(2)]
    by (simp add: same_sums_def zero_totals_def comp_def)
qed

section \<open>Concrete instances\<close>

definition demo_site :: site where
  "demo_site = \<lparr>site_id = 1, site_project_id = 1, site_branch = ''master'', site_storage_key = ''cc'', site_size = 9,
     site_sha256 = ''cc'', site_file_count = 1, site_git_commit = [], site_is_public = True, site_updated_at = 0,
     site_created_at = 0\<rparr>"

definition demo_inv_db :: db where
  "demo_inv_db = demo_evict_db\<lparr>d_sites := [demo_site]\<rparr>"

definition demo_inv :: inventory where
  "demo_inv = fst (Inventory (5 * SecondNs) demo_cfg (\<lambda>_. False) None (demo_inv_db, demo_fs))"

lemma demo_inv_ok:
  "rows_linked demo_inv_db" "sizes_ok demo_size demo_inv_db"
  "Inventory (5 * SecondNs) demo_cfg (\<lambda>_. False) None (demo_inv_db, demo_fs) = (demo_inv, None)"
proof -
  show "rows_linked demo_inv_db" "sizes_ok demo_size demo_inv_db" by code_simp+
  have "snd (Inventory (5 * SecondNs) demo_cfg (\<lambda>_. False) None (demo_inv_db, demo_fs)) = None" by code_simp
  then show "Inventory (5 * SecondNs) demo_cfg (\<lambda>_. False) None (demo_inv_db, demo_fs) = (demo_inv, None)"
    unfolding demo_inv_def by (metis prod.collapse)
qed


theorem inventory_explains_witness:
  "it_hold_mismatches (inv_totals demo_inv) = 0
   \<and> (\<exists>e \<in> set (inv_files demo_inv). \<not> fe_reclaimable e \<and> fe_hold e = HoldSharedBlob)"
proof -
  have "list_ex (\<lambda>e. \<not> fe_reclaimable e \<and> fe_hold e = HoldSharedBlob) (inv_files demo_inv)" by code_simp
  with inventory_explains [OF demo_inv_ok] show ?thesis by (auto simp: list_ex_iff)
qed

theorem inventory_accounts_witness:
  "sum_list (map (\<lambda>g. int (ig_files g)) (fst (groupFiles (inv_files demo_inv)))) = 4
   \<and> sum_list (map (\<lambda>g. int (ig_blobs g)) (fst (groupFiles (inv_files demo_inv)))) = 3"
proof -
  have "length (inv_files demo_inv) = 4" "fe_storage_key ` set (inv_files demo_inv) = {''aa'', ''bb'', ''cc''}"
    by code_simp+
  moreover note inventory_accounts [OF surjective_pairing refl disjI1 [OF refl], of "inv_files demo_inv"]
  ultimately show ?thesis by simp
qed

end
