(* ===== verification/Merge.thy ===== *)
theory Merge
  imports Releases
begin

text \<open>
  Folding one project into another: \<open>internal/db/merge.go\<close>. A plan lists everything that moves
  and every collision that forbids it; applying the plan repeats the planning, compares, and
  moves everything in one transaction, at the end of which the source project is deleted and
  its name is an alias of the target.
\<close>

section \<open>Plans\<close>

record merge_release =
  mr_id :: int
  mr_old_version :: string
  mr_new_version :: string
  mr_old_num :: int
  mr_new_num :: int

text \<open>A conflict; the program renders each as a sentence.\<close>

datatype merge_conflict =
    NoRepoID
  | DifferentRepos
  | VersionInBoth string
  | SiteInBoth string
  | TagInBoth string

record merge_plan =
  mp_from :: project
  mp_into :: project
  mp_releases :: "merge_release list"
  mp_aliases :: "string list"
  mp_sites :: nat
  mp_oci_tags :: nat
  mp_oci_blobs :: int
  mp_dup_blobs :: "string list"
  mp_tokens :: nat
  mp_policies :: nat
  mp_conflicts :: "merge_conflict list"

definition Applicable :: "merge_plan \<Rightarrow> bool" where
  "Applicable p \<longleftrightarrow> mp_conflicts p = []"

definition MaxReleaseVersionNum :: "int \<Rightarrow> db \<Rightarrow> int" where
  "MaxReleaseVersionNum pid d =
     (let nums = map r_version_num (filter (\<lambda>r. r_project_id r = pid) (d_releases d))
      in if nums = [] then 0 else Max (set nums))"

definition ListReleasesForMerge :: "int \<Rightarrow> db \<Rightarrow> release list" where
  "ListReleasesForMerge pid d = sort_key r_version_num (filter (\<lambda>r. r_project_id r = pid) (d_releases d))"

definition versionTaken :: "int \<Rightarrow> string \<Rightarrow> db \<Rightarrow> bool" where
  "versionTaken pid v d \<longleftrightarrow> list_ex (\<lambda>r. r_project_id r = pid \<and> r_version r = v) (d_releases d)"

definition ListSitesByProject :: "int \<Rightarrow> db \<Rightarrow> site list" where
  "ListSitesByProject pid d = sort_key (\<lambda>s. - site_updated_at s) (filter (\<lambda>s. site_project_id s = pid) (d_sites d))"

definition ListOCITags :: "int \<Rightarrow> db \<Rightarrow> oci_tag list" where
  "ListOCITags pid d = sort_key ot_tag (filter (\<lambda>t. ot_project_id t = pid) (d_oci_tags d))"

definition ListOCIBlobKeys :: "int \<Rightarrow> db \<Rightarrow> string list" where
  "ListOCIBlobKeys pid d = sort (map ol_storage_key (filter (\<lambda>l. ol_project_id l = pid) (d_oci_links d)))"

text \<open>The loop over the source's releases, which numbers them on from the target's greatest.\<close>

fun plan_releases :: "project \<Rightarrow> project \<Rightarrow> db \<Rightarrow> release list \<Rightarrow> int \<Rightarrow> merge_release list \<times> merge_conflict list" where
  "plan_releases src dst d [] num = ([], [])"
| "plan_releases src dst d (r # rs) num =
     (let nxt = wrap64 (num + 1);
          keep = (p_versioning dst = VersioningSemver \<or> p_versioning src = VersioningSemver);
          m = \<lparr>mr_id = r_id r, mr_old_version = r_version r,
               mr_new_version = (if keep then r_version r else format_int nxt),
               mr_old_num = r_version_num r, mr_new_num = nxt\<rparr>;
          cs = (if keep \<and> versionTaken (p_id dst) (r_version r) d then [VersionInBoth (r_version r)] else [])
      in case plan_releases src dst d rs nxt of (ms, cs') \<Rightarrow> (m # ms, cs @ cs'))"

definition planSideTables :: "project \<Rightarrow> project \<Rightarrow> db \<Rightarrow> merge_plan \<Rightarrow> merge_plan" where
  "planSideTables src dst d plan =
     (let srcSites = ListSitesByProject (p_id src) d;
          dstBranch = map site_branch (ListSitesByProject (p_id dst) d);
          srcTags = ListOCITags (p_id src) d;
          dstTag = map ot_tag (ListOCITags (p_id dst) d);
          srcKeys = ListOCIBlobKeys (p_id src) d;
          dstKey = ListOCIBlobKeys (p_id dst) d;
          dup = filter (\<lambda>k. k \<in> set dstKey) srcKeys
      in plan\<lparr>mp_conflicts := mp_conflicts plan @
                map SiteInBoth (filter (\<lambda>b. b \<in> set dstBranch) (map site_branch srcSites)) @
                map TagInBoth (filter (\<lambda>t. t \<in> set dstTag) (map ot_tag srcTags)),
              mp_sites := length srcSites, mp_oci_tags := length srcTags,
              mp_dup_blobs := dup, mp_oci_blobs := int (length srcKeys) - int (length dup),
              mp_tokens := length (filter (\<lambda>t. t_project_id t = Some (p_id src)) (d_tokens d)),
              mp_policies := length (filter (\<lambda>p. op_project_id p = Some (p_id src)) (d_policies d))\<rparr>)"

definition repo_conflicts :: "project \<Rightarrow> project \<Rightarrow> merge_conflict list" where
  "repo_conflicts src dst =
     (if p_github_repo_id src = [] \<or> p_github_repo_id dst = [] then [NoRepoID]
      else if p_github_repo_id src \<noteq> p_github_repo_id dst then [DifferentRepos] else [])"

definition PlanProjectMerge :: "string \<Rightarrow> string \<Rightarrow> db \<Rightarrow> db_error + merge_plan" where
  "PlanProjectMerge from into d =
     (if from = into then Inl (Refused ''merge source and target are the same project'')
      else bind_res (GetProject from d) (\<lambda>src. bind_res (GetProject into d) (\<lambda>dst.
        (case plan_releases src dst d (ListReleasesForMerge (p_id src) d) (MaxReleaseVersionNum (p_id dst) d) of
           (ms, cs) \<Rightarrow>
             let plan = \<lparr>mp_from = src, mp_into = dst, mp_releases = ms, mp_aliases = [], mp_sites = 0, mp_oci_tags = 0,
                         mp_oci_blobs = 0, mp_dup_blobs = [], mp_tokens = 0, mp_policies = 0,
                         mp_conflicts = repo_conflicts src dst @ cs\<rparr>
             in Inr ((planSideTables src dst d plan)\<lparr>mp_aliases := ListProjectAliases (p_id src) d @ [p_name src]\<rparr>)))))"

section \<open>Statements\<close>

definition MoveReleaseToProject :: "int \<Rightarrow> merge_release \<Rightarrow> db \<Rightarrow> db_error + db" where
  "MoveReleaseToProject pid m d =
     (if \<not> list_ex (\<lambda>r. r_id r = mr_id m) (d_releases d) then Inr d
      else if list_ex (\<lambda>r. r_id r \<noteq> mr_id m \<and> r_project_id r = pid \<and> r_version r = mr_new_version m) (d_releases d)
      then Inl UniqueViolation
      else if project_by_id pid d = None then Inl ForeignKeyViolation
      else Inr (d\<lparr>d_releases := map (\<lambda>r. if r_id r = mr_id m
             then r\<lparr>r_project_id := pid, r_version := mr_new_version m, r_version_num := mr_new_num m\<rparr> else r) (d_releases d)\<rparr>))"

definition DeleteOCIBlobLink :: "int \<Rightarrow> string \<Rightarrow> db \<Rightarrow> db" where
  "DeleteOCIBlobLink pid key d =
     d\<lparr>d_oci_links := filter (\<lambda>l. \<not> (ol_project_id l = pid \<and> ol_storage_key l = key)) (d_oci_links d)\<rparr>"

definition ReassignSites :: "int \<Rightarrow> int \<Rightarrow> db \<Rightarrow> db_error + db" where
  "ReassignSites to from d =
     (if list_ex (\<lambda>s. site_project_id s = from \<and>
           list_ex (\<lambda>u. site_project_id u = to \<and> site_branch u = site_branch s) (d_sites d)) (d_sites d)
      then Inl UniqueViolation
      else Inr (d\<lparr>d_sites := map (\<lambda>s. if site_project_id s = from then s\<lparr>site_project_id := to\<rparr> else s) (d_sites d)\<rparr>))"

definition ReassignOCITags :: "int \<Rightarrow> int \<Rightarrow> db \<Rightarrow> db_error + db" where
  "ReassignOCITags to from d =
     (if list_ex (\<lambda>t. ot_project_id t = from \<and>
           list_ex (\<lambda>u. ot_project_id u = to \<and> ot_tag u = ot_tag t) (d_oci_tags d)) (d_oci_tags d)
      then Inl UniqueViolation
      else Inr (d\<lparr>d_oci_tags := map (\<lambda>t. if ot_project_id t = from then t\<lparr>ot_project_id := to\<rparr> else t) (d_oci_tags d)\<rparr>))"

definition ReassignOCIBlobLinks :: "int \<Rightarrow> int \<Rightarrow> db \<Rightarrow> db_error + db" where
  "ReassignOCIBlobLinks to from d =
     (if list_ex (\<lambda>l. ol_project_id l = from \<and>
           list_ex (\<lambda>u. ol_project_id u = to \<and> ol_storage_key u = ol_storage_key l) (d_oci_links d)) (d_oci_links d)
      then Inl UniqueViolation
      else Inr (d\<lparr>d_oci_links := map (\<lambda>l. if ol_project_id l = from then l\<lparr>ol_project_id := to\<rparr> else l) (d_oci_links d)\<rparr>))"

definition ReassignAPITokens :: "int \<Rightarrow> int \<Rightarrow> db \<Rightarrow> db" where
  "ReassignAPITokens to from d =
     d\<lparr>d_tokens := map (\<lambda>t. if t_project_id t = Some from then t\<lparr>t_project_id := Some to\<rparr> else t) (d_tokens d)\<rparr>"

definition ReassignOIDCPolicies :: "int \<Rightarrow> int \<Rightarrow> db \<Rightarrow> db" where
  "ReassignOIDCPolicies to from d =
     d\<lparr>d_policies := map (\<lambda>p. if op_project_id p = Some from then p\<lparr>op_project_id := Some to\<rparr> else p) (d_policies d)\<rparr>"

definition ReassignProjectAliases :: "int \<Rightarrow> int \<Rightarrow> db \<Rightarrow> db" where
  "ReassignProjectAliases to from d =
     d\<lparr>d_aliases := map (\<lambda>a. if al_project_id a = from then a\<lparr>al_project_id := to\<rparr> else a) (d_aliases d)\<rparr>"

text \<open>The rows that refer to a project, in the tables whose reference is not cascading.\<close>

definition references :: "int \<Rightarrow> db \<Rightarrow> bool" where
  "references pid d \<longleftrightarrow>
     list_ex (\<lambda>r. r_project_id r = pid) (d_releases d) \<or> list_ex (\<lambda>t. t_project_id t = Some pid) (d_tokens d)
   \<or> list_ex (\<lambda>p. op_project_id p = Some pid) (d_policies d) \<or> list_ex (\<lambda>s. site_project_id s = pid) (d_sites d)
   \<or> list_ex (\<lambda>l. ol_project_id l = pid) (d_oci_links d) \<or> list_ex (\<lambda>t. ot_project_id t = pid) (d_oci_tags d)
   \<or> list_ex (\<lambda>a. al_project_id a = pid) (d_aliases d)"

text \<open>Deleting a project deletes its visibility rows with it and fails when another row refers to
  it.\<close>

definition DeleteProject :: "int \<Rightarrow> db \<Rightarrow> db_error + db" where
  "DeleteProject pid d =
     (if list_ex (\<lambda>p. p_id p = pid) (d_projects d) \<and> references pid d then Inl ForeignKeyViolation
      else Inr (d\<lparr>d_projects := filter (\<lambda>p. p_id p \<noteq> pid) (d_projects d),
                 d_project_vis := filter (\<lambda>v. pv_project_id v \<noteq> pid) (d_project_vis d),
                 d_site_vis := filter (\<lambda>v. sv_project_id v \<noteq> pid) (d_site_vis d)\<rparr>))"

section \<open>Applying a plan\<close>

definition samePlan :: "merge_plan \<Rightarrow> merge_plan \<Rightarrow> bool" where
  "samePlan a b \<longleftrightarrow> p_id (mp_from a) = p_id (mp_from b) \<and> p_id (mp_into a) = p_id (mp_into b)
     \<and> mp_releases a = mp_releases b \<and> mp_conflicts b = []"

fun move_releases :: "int \<Rightarrow> merge_release list \<Rightarrow> db \<Rightarrow> db_error + db" where
  "move_releases pid [] d = Inr d"
| "move_releases pid (m # ms) d = bind_res (MoveReleaseToProject pid m d) (move_releases pid ms)"

definition assertProjectDrained :: "int \<Rightarrow> db \<Rightarrow> db_error + db" where
  "assertProjectDrained pid d = (if references pid d then Inl (Refused ''drain check'') else Inr d)"

definition merge_body :: "time \<Rightarrow> merge_plan \<Rightarrow> db \<Rightarrow> db_error + db" where
  "merge_body now fresh d =
     (let src = mp_from fresh; dst = mp_into fresh in
      bind_res (move_releases (p_id dst) (rev (mp_releases fresh)) d) (\<lambda>d1.
      bind_res (ReassignSites (p_id dst) (p_id src) (fold (DeleteOCIBlobLink (p_id src)) (mp_dup_blobs fresh) d1)) (\<lambda>d2.
      bind_res (ReassignOCITags (p_id dst) (p_id src) d2) (\<lambda>d3.
      bind_res (ReassignOCIBlobLinks (p_id dst) (p_id src) d3) (\<lambda>d4.
      bind_res (InsertProjectAlias (p_name src) (p_id dst)
          (ReassignProjectAliases (p_id dst) (p_id src)
            (ReassignOIDCPolicies (p_id dst) (p_id src) (ReassignAPITokens (p_id dst) (p_id src) d4)))) (\<lambda>d5.
      bind_res (DeleteProject (p_id src) (renameDepends now (p_name src) (p_name dst) (p_id dst) d5))
        (assertProjectDrained (p_id src))))))))"

definition ApplyProjectMerge :: "time \<Rightarrow> merge_plan \<Rightarrow> db \<Rightarrow> db \<times> db_error option" where
  "ApplyProjectMerge now confirmed d =
     (if \<not> Applicable confirmed then (d, Some (Refused ''unresolved conflicts''))
      else case PlanProjectMerge (p_name (mp_from confirmed)) (p_name (mp_into confirmed)) d of
        Inl e \<Rightarrow> (d, Some e)
      | Inr fresh \<Rightarrow>
          if \<not> samePlan confirmed fresh then (d, Some (Refused ''database changed since the dry run''))
          else transaction (merge_body now fresh) d)"

section \<open>Moving the releases\<close>

definition moved_release :: "int \<Rightarrow> merge_release list \<Rightarrow> release \<Rightarrow> release" where
  "moved_release pid ms r =
     (case find_first (\<lambda>m. mr_id m = r_id r) ms of
        None \<Rightarrow> r
      | Some m \<Rightarrow> r\<lparr>r_project_id := pid, r_version := mr_new_version m, r_version_num := mr_new_num m\<rparr>)"

lemma moved_release_id [simp]: "r_id (moved_release pid ms r) = r_id r"
  by (simp add: moved_release_def split: option.split)

lemma moved_release_Nil [simp]: "moved_release pid [] = id"
  by (simp add: moved_release_def find_first_def fun_eq_iff)

lemma moved_release_Cons:
  assumes "mr_id m \<notin> mr_id ` set ms"
  shows "moved_release pid (m # ms) r = moved_release pid ms (if r_id r = mr_id m
     then r\<lparr>r_project_id := pid, r_version := mr_new_version m, r_version_num := mr_new_num m\<rparr> else r)"
proof -
  have "find_first (\<lambda>x. mr_id x = mr_id m) ms = None" using assms by (auto simp: find_first_None image_iff)
  then show ?thesis by (auto simp: moved_release_def find_first_def)
qed

lemma move_releases_ok:
  assumes "project_by_id pid d \<noteq> None" "distinct (map mr_id ms)" "distinct (map mr_new_version ms)"
    "\<forall>m \<in> set ms. \<forall>r \<in> set (d_releases d). r_project_id r = pid \<longrightarrow> r_version r \<noteq> mr_new_version m"
  shows "move_releases pid ms d = Inr (d\<lparr>d_releases := map (moved_release pid ms) (d_releases d)\<rparr>)"
  using assms
proof (induction ms arbitrary: d)
  case Nil
  then show ?case by simp
next
  case (Cons m ms)
  let ?upd = "\<lambda>r. if r_id r = mr_id m
     then r\<lparr>r_project_id := pid, r_version := mr_new_version m, r_version_num := mr_new_num m\<rparr> else r"
  let ?d = "d\<lparr>d_releases := map ?upd (d_releases d)\<rparr>"
  have "\<not> list_ex (\<lambda>r. r_id r \<noteq> mr_id m \<and> r_project_id r = pid \<and> r_version r = mr_new_version m) (d_releases d)"
    using Cons.prems(4) by (auto simp: list_ex_iff)
  moreover have "?d = d" if "\<not> list_ex (\<lambda>r. r_id r = mr_id m) (d_releases d)"
  proof -
    have "map ?upd (d_releases d) = d_releases d" using that by (intro map_idI) (auto simp: list_ex_iff)
    then show ?thesis by simp
  qed
  ultimately have step: "MoveReleaseToProject pid m d = Inr ?d"
    using Cons.prems(1) by (auto simp: MoveReleaseToProject_def)
  have "project_by_id pid ?d \<noteq> None" using Cons.prems(1) by (simp add: project_by_id_def)
  moreover have "r_version r \<noteq> mr_new_version m'"
    if "m' \<in> set ms" "r \<in> set (d_releases ?d)" "r_project_id r = pid" for m' r
  proof -
    from that(2) obtain x where x: "x \<in> set (d_releases d)" "r = ?upd x" by auto
    show ?thesis
    proof (cases "r_id x = mr_id m")
      case True
      have "mr_new_version m' \<in> mr_new_version ` set ms" using that(1) by simp
      then have "mr_new_version m \<noteq> mr_new_version m'" using Cons.prems(3) by auto
      then show ?thesis using x True by simp
    next
      case False
      then show ?thesis using x that Cons.prems(4) by simp
    qed
  qed
  ultimately have "move_releases pid ms ?d = Inr (?d\<lparr>d_releases := map (moved_release pid ms) (d_releases ?d)\<rparr>)"
    using Cons.prems(2,3) by (intro Cons.IH) auto
  moreover have "moved_release pid ms \<circ> ?upd = moved_release pid (m # ms)"
    using Cons.prems(2) moved_release_Cons [of m ms pid] by auto
  ultimately show ?case using step by simp
qed

section \<open>What a plan says about the releases\<close>

lemma plan_releases_ids:
  "plan_releases src dst d rs num = (ms, cs) \<Longrightarrow> map mr_id ms = map r_id rs"
  by (induction rs arbitrary: num ms cs) (auto simp: Let_def split: prod.splits)

lemma plan_releases_nums:
  assumes "plan_releases src dst d rs num = (ms, cs)" "- (2 ^ 63) \<le> num" "num + int (length rs) < 2 ^ 63"
  shows "map mr_new_num ms = [num + 1..num + int (length rs)]"
  using assms
proof (induction rs arbitrary: num ms cs)
  case (Cons r rs)
  have "wrap64 (num + 1) = num + 1" using Cons.prems by (intro wrap64_id) auto
  with Cons.prems(1) obtain m ms' cs' where m: "ms = m # ms'" "mr_new_num m = num + 1"
    "plan_releases src dst d rs (num + 1) = (ms', cs')" by (auto simp: Let_def split: prod.splits)
  with Cons.IH [OF m(3)] Cons.prems have "map mr_new_num ms' = [num + 1 + 1..num + 1 + int (length rs)]" by simp
  with m show ?case by (simp add: upto_rec1 [of "num + 1"] add.assoc)
qed auto

definition keeps_versions :: "project \<Rightarrow> project \<Rightarrow> bool" where
  "keeps_versions src dst \<longleftrightarrow> p_versioning dst = VersioningSemver \<or> p_versioning src = VersioningSemver"

lemma plan_releases_kept:
  assumes "plan_releases src dst d rs num = (ms, [])" "keeps_versions src dst"
  shows "map mr_new_version ms = map r_version rs" "\<forall>r \<in> set rs. \<not> versionTaken (p_id dst) (r_version r) d"
  using assms
  by (induction rs arbitrary: num ms) (auto simp: Let_def keeps_versions_def split: prod.splits if_splits)

lemma plan_releases_numbered:
  assumes "plan_releases src dst d rs num = (ms, cs)" "\<not> keeps_versions src dst"
  shows "map mr_new_version ms = map format_int (map mr_new_num ms)"
  using assms
  by (induction rs arbitrary: num ms cs) (auto simp: Let_def keeps_versions_def split: prod.splits)

lemma MaxReleaseVersionNum_ge:
  "r \<in> set (d_releases d) \<Longrightarrow> r_project_id r = pid \<Longrightarrow> r_version_num r \<le> MaxReleaseVersionNum pid d"
  by (auto simp: MaxReleaseVersionNum_def Let_def filter_empty_conv intro!: Max_ge)

section \<open>The result of a merge\<close>

lemma rename_rows_frame:
  "\<exists>ps. rename_rows now o' n' i rows d = d\<lparr>d_projects := ps\<rparr> \<and> map (\<lambda>p. (p_name p, p_id p)) ps = nm d"
proof (induction now o' n' i rows d rule: rename_rows.induct)
  case (1 now o' n' i d)
  show ?case by (rule exI [of _ "d_projects d"]) (simp add: nm_def)
next
  case (2 now o' n' i j deps rows d)
  let ?d = "set_depends_row now j (joinDepends (rename_names o' n' (j = i) (ParseDepends deps))) d"
  from "2.IH" obtain ps where ps: "rename_rows now o' n' i rows ?d = ?d\<lparr>d_projects := ps\<rparr>"
    "map (\<lambda>p. (p_name p, p_id p)) ps = nm ?d" by blast
  have "?d\<lparr>d_projects := ps\<rparr> = d\<lparr>d_projects := ps\<rparr>" by (simp add: set_depends_row_def update_project_def)
  moreover have "nm ?d = nm d" by (simp add: set_depends_row_def update_project_nm)
  ultimately show ?case using ps by auto
qed

lemma DeleteOCIBlobLink_fold:
  "fold (DeleteOCIBlobLink pid) ks d =
     d\<lparr>d_oci_links := filter (\<lambda>l. \<not> (ol_project_id l = pid \<and> ol_storage_key l \<in> set ks)) (d_oci_links d)\<rparr>"
  by (induction ks arbitrary: d) (auto simp: DeleteOCIBlobLink_def intro!: arg_cong [of _ _ "\<lambda>x. d_oci_links_update x d" for d] filter_cong)

definition merged :: "int \<Rightarrow> int \<Rightarrow> string \<Rightarrow> merge_plan \<Rightarrow> project list \<Rightarrow> db \<Rightarrow> db" where
  "merged src dst name plan ps d = d\<lparr>
     d_projects := filter (\<lambda>p. p_id p \<noteq> src) ps,
     d_aliases := map (\<lambda>a. if al_project_id a = src then a\<lparr>al_project_id := dst\<rparr> else a) (d_aliases d)
       @ [\<lparr>al_name = name, al_project_id = dst\<rparr>],
     d_releases := map (moved_release dst (rev (mp_releases plan))) (d_releases d),
     d_sites := map (\<lambda>s. if site_project_id s = src then s\<lparr>site_project_id := dst\<rparr> else s) (d_sites d),
     d_oci_links := map (\<lambda>l. if ol_project_id l = src then l\<lparr>ol_project_id := dst\<rparr> else l)
       (filter (\<lambda>l. \<not> (ol_project_id l = src \<and> ol_storage_key l \<in> set (mp_dup_blobs plan))) (d_oci_links d)),
     d_oci_tags := map (\<lambda>t. if ot_project_id t = src then t\<lparr>ot_project_id := dst\<rparr> else t) (d_oci_tags d),
     d_tokens := map (\<lambda>t. if t_project_id t = Some src then t\<lparr>t_project_id := Some dst\<rparr> else t) (d_tokens d),
     d_policies := map (\<lambda>p. if op_project_id p = Some src then p\<lparr>op_project_id := Some dst\<rparr> else p) (d_policies d),
     d_project_vis := filter (\<lambda>v. pv_project_id v \<noteq> src) (d_project_vis d),
     d_site_vis := filter (\<lambda>v. sv_project_id v \<noteq> src) (d_site_vis d)\<rparr>"

text \<open>What the body of the transaction needs: room for every release under its new version, no
  site, tag or blob link of the source beside one of the target, and a free alias.\<close>

definition mergeable :: "int \<Rightarrow> int \<Rightarrow> string \<Rightarrow> merge_plan \<Rightarrow> db \<Rightarrow> bool" where
  "mergeable src dst name plan d \<longleftrightarrow> src \<noteq> dst \<and> project_by_id dst d \<noteq> None
     \<and> distinct (map mr_id (mp_releases plan)) \<and> distinct (map mr_new_version (mp_releases plan))
     \<and> (\<forall>m \<in> set (mp_releases plan). \<forall>r \<in> set (d_releases d). r_project_id r = dst \<longrightarrow> r_version r \<noteq> mr_new_version m)
     \<and> (\<forall>r \<in> set (d_releases d). r_project_id r = src \<longrightarrow> r_id r \<in> mr_id ` set (mp_releases plan))
     \<and> (\<forall>s \<in> set (d_sites d). \<forall>u \<in> set (d_sites d). site_project_id s = src \<longrightarrow> site_project_id u = dst \<longrightarrow> site_branch u \<noteq> site_branch s)
     \<and> (\<forall>s \<in> set (d_oci_tags d). \<forall>u \<in> set (d_oci_tags d). ot_project_id s = src \<longrightarrow> ot_project_id u = dst \<longrightarrow> ot_tag u \<noteq> ot_tag s)
     \<and> (\<forall>s \<in> set (d_oci_links d). \<forall>u \<in> set (d_oci_links d). ol_project_id s = src \<longrightarrow> ol_project_id u = dst \<longrightarrow>
          ol_storage_key u = ol_storage_key s \<longrightarrow> ol_storage_key s \<in> set (mp_dup_blobs plan))
     \<and> (\<forall>a \<in> set (d_aliases d). al_name a \<noteq> name)"

lemma merged_drained:
  assumes "mergeable src dst name plan d"
  shows "\<not> references src (merged src dst name plan ps d)"
proof -
  have "r_project_id (moved_release dst (rev (mp_releases plan)) r) \<noteq> src" if "r \<in> set (d_releases d)" for r
  proof (cases "find_first (\<lambda>m. mr_id m = r_id r) (rev (mp_releases plan))")
    case None
    then have "r_id r \<notin> mr_id ` set (mp_releases plan)" by (auto simp: find_first_None)
    then show ?thesis using assms that None by (auto simp: mergeable_def moved_release_def)
  next
    case (Some m)
    then show ?thesis using assms by (simp add: mergeable_def moved_release_def)
  qed
  then show ?thesis
    using assms by (auto simp: references_def merged_def list_ex_iff mergeable_def)
qed

lemma references_cong:
  assumes "d_releases d' = d_releases d" "d_tokens d' = d_tokens d" "d_policies d' = d_policies d"
    "d_sites d' = d_sites d" "d_oci_links d' = d_oci_links d" "d_oci_tags d' = d_oci_tags d" "d_aliases d' = d_aliases d"
  shows "references pid d' = references pid d"
  using assms by (simp add: references_def)

lemma merge_body_result:
  assumes "mergeable (p_id (mp_from plan)) (p_id (mp_into plan)) (p_name (mp_from plan)) plan d"
  shows "\<exists>ps. map (\<lambda>p. (p_name p, p_id p)) ps = nm d \<and>
    merge_body now plan d = Inr (merged (p_id (mp_from plan)) (p_id (mp_into plan)) (p_name (mp_from plan)) plan ps d)"
proof -
  let ?S = "p_id (mp_from plan)" and ?T = "p_id (mp_into plan)" and ?N = "p_name (mp_from plan)"
  note ok = assms [unfolded mergeable_def]
  let ?d1 = "d\<lparr>d_releases := map (moved_release ?T (rev (mp_releases plan))) (d_releases d)\<rparr>"
  let ?d1' = "fold (DeleteOCIBlobLink ?S) (mp_dup_blobs plan) ?d1"
  let ?d2 = "?d1'\<lparr>d_sites := map (\<lambda>s. if site_project_id s = ?S then s\<lparr>site_project_id := ?T\<rparr> else s) (d_sites ?d1')\<rparr>"
  let ?d3 = "?d2\<lparr>d_oci_tags := map (\<lambda>t. if ot_project_id t = ?S then t\<lparr>ot_project_id := ?T\<rparr> else t) (d_oci_tags ?d2)\<rparr>"
  let ?d4 = "?d3\<lparr>d_oci_links := map (\<lambda>l. if ol_project_id l = ?S then l\<lparr>ol_project_id := ?T\<rparr> else l) (d_oci_links ?d3)\<rparr>"
  let ?d4' = "ReassignProjectAliases ?T ?S (ReassignOIDCPolicies ?T ?S (ReassignAPITokens ?T ?S ?d4))"
  let ?d5 = "?d4'\<lparr>d_aliases := d_aliases ?d4' @ [\<lparr>al_name = ?N, al_project_id = ?T\<rparr>]\<rparr>"
  have 1: "move_releases ?T (rev (mp_releases plan)) d = Inr ?d1"
    using ok by (intro move_releases_ok) (simp_all add: rev_map [symmetric])
  have 2: "ReassignSites ?T ?S ?d1' = Inr ?d2"
    using ok by (auto simp: ReassignSites_def DeleteOCIBlobLink_fold list_ex_iff)
  have 3: "ReassignOCITags ?T ?S ?d2 = Inr ?d3"
    using ok by (auto simp: ReassignOCITags_def DeleteOCIBlobLink_fold list_ex_iff)
  have 4: "ReassignOCIBlobLinks ?T ?S ?d3 = Inr ?d4"
    using ok by (auto simp: ReassignOCIBlobLinks_def DeleteOCIBlobLink_fold list_ex_iff)
  have "project_by_id ?T ?d4' = project_by_id ?T d"
    by (simp add: project_by_id_def ReassignProjectAliases_def ReassignOIDCPolicies_def ReassignAPITokens_def DeleteOCIBlobLink_fold)
  then have 5: "InsertProjectAlias ?N ?T ?d4' = Inr ?d5"
    using ok by (auto simp: InsertProjectAlias_def list_ex_iff ReassignProjectAliases_def ReassignOIDCPolicies_def
        ReassignAPITokens_def DeleteOCIBlobLink_fold)
  obtain ps where ps: "renameDepends now ?N (p_name (mp_into plan)) ?T ?d5 = ?d5\<lparr>d_projects := ps\<rparr>"
    "map (\<lambda>p. (p_name p, p_id p)) ps = nm ?d5" using rename_rows_frame unfolding renameDepends_def by blast
  let ?M = "merged ?S ?T ?N plan ps d"
  have "references ?S (?d5\<lparr>d_projects := ps\<rparr>) = references ?S ?M"
    by (rule references_cong) (simp_all add: merged_def ReassignProjectAliases_def ReassignOIDCPolicies_def
        ReassignAPITokens_def DeleteOCIBlobLink_fold)
  with merged_drained [OF assms, of ps] have "DeleteProject ?S (?d5\<lparr>d_projects := ps\<rparr>) = Inr ?M"
    by (simp only: DeleteProject_def) (simp add: merged_def ReassignProjectAliases_def ReassignOIDCPolicies_def
        ReassignAPITokens_def DeleteOCIBlobLink_fold)
  moreover have "assertProjectDrained ?S ?M = Inr ?M"
    using merged_drained [OF assms, of ps] by (simp add: assertProjectDrained_def)
  ultimately have "merge_body now plan d = Inr ?M"
    by (simp only: merge_body_def Let_def 1 2 3 4 5 ps(1) bind_res_simps)
  moreover have "nm ?d5 = nm d"
    by (simp add: nm_def ReassignProjectAliases_def ReassignOIDCPolicies_def ReassignAPITokens_def DeleteOCIBlobLink_fold)
  ultimately show ?thesis using ps(2) by auto
qed

section \<open>An applicable plan goes through\<close>

definition release_rows :: "db \<Rightarrow> bool" where
  "release_rows d \<longleftrightarrow> distinct (map r_id (d_releases d)) \<and> distinct (map (\<lambda>r. (r_project_id r, r_version r)) (d_releases d))"

text \<open>The numbers of a project cover its numeric versions, and a number of releases still fits.\<close>

definition numbered_line :: "int \<Rightarrow> db \<Rightarrow> bool" where
  "numbered_line pid d \<longleftrightarrow> list_all (\<lambda>r. r_project_id r = pid \<longrightarrow>
     (case parse_int64 (r_version r) of None \<Rightarrow> True | Some n \<Rightarrow> n \<le> MaxReleaseVersionNum pid d)) (d_releases d)"

definition has_room :: "int \<Rightarrow> nat \<Rightarrow> db \<Rightarrow> bool" where
  "has_room pid k d \<longleftrightarrow> - (2 ^ 63) \<le> MaxReleaseVersionNum pid d \<and> MaxReleaseVersionNum pid d + int k < 2 ^ 63"

lemma PlanProjectMerge_shape:
  assumes "PlanProjectMerge from into d = Inr plan" "Applicable plan"
  shows "from \<noteq> into" "GetProject from d = Inr (mp_from plan)" "GetProject into d = Inr (mp_into plan)"
    "plan_releases (mp_from plan) (mp_into plan) d (ListReleasesForMerge (p_id (mp_from plan)) d)
       (MaxReleaseVersionNum (p_id (mp_into plan)) d) = (mp_releases plan, [])"
    "\<forall>b \<in> site_branch ` set (ListSitesByProject (p_id (mp_from plan)) d). b \<notin> site_branch ` set (ListSitesByProject (p_id (mp_into plan)) d)"
    "\<forall>t \<in> ot_tag ` set (ListOCITags (p_id (mp_from plan)) d). t \<notin> ot_tag ` set (ListOCITags (p_id (mp_into plan)) d)"
    "mp_dup_blobs plan = filter (\<lambda>k. k \<in> set (ListOCIBlobKeys (p_id (mp_into plan)) d)) (ListOCIBlobKeys (p_id (mp_from plan)) d)"
    "repo_conflicts (mp_from plan) (mp_into plan) = []"
proof -
  obtain src dst where ne: "from \<noteq> into" and get: "GetProject from d = Inr src" "GetProject into d = Inr dst"
    using assms(1) by (auto simp: PlanProjectMerge_def bind_res_Inr simp del: split_paired_All split_paired_Ex split: if_splits)
  obtain ms cs where pr: "plan_releases src dst d (ListReleasesForMerge (p_id src) d) (MaxReleaseVersionNum (p_id dst) d) = (ms, cs)"
    by fastforce
  have plan: "plan = (planSideTables src dst d \<lparr>mp_from = src, mp_into = dst, mp_releases = ms, mp_aliases = [], mp_sites = 0,
       mp_oci_tags = 0, mp_oci_blobs = 0, mp_dup_blobs = [], mp_tokens = 0, mp_policies = 0,
       mp_conflicts = repo_conflicts src dst @ cs\<rparr>)\<lparr>mp_aliases := ListProjectAliases (p_id src) d @ [p_name src]\<rparr>"
    using assms(1) ne by (simp add: PlanProjectMerge_def get pr Let_def)
  then have fields: "mp_from plan = src" "mp_into plan = dst" "mp_releases plan = ms"
    "mp_dup_blobs plan = filter (\<lambda>k. k \<in> set (ListOCIBlobKeys (p_id dst) d)) (ListOCIBlobKeys (p_id src) d)"
    by (simp_all add: planSideTables_def Let_def)
  from plan assms(2) have none: "cs = []" "repo_conflicts src dst = []"
    "filter (\<lambda>b. b \<in> site_branch ` set (ListSitesByProject (p_id dst) d)) (map site_branch (ListSitesByProject (p_id src) d)) = []"
    "filter (\<lambda>b. b \<in> ot_tag ` set (ListOCITags (p_id dst) d)) (map ot_tag (ListOCITags (p_id src) d)) = []"
    by (simp_all add: planSideTables_def Let_def Applicable_def)
  show "from \<noteq> into" "GetProject from d = Inr (mp_from plan)" "GetProject into d = Inr (mp_into plan)"
    "plan_releases (mp_from plan) (mp_into plan) d (ListReleasesForMerge (p_id (mp_from plan)) d)
       (MaxReleaseVersionNum (p_id (mp_into plan)) d) = (mp_releases plan, [])"
    "\<forall>b \<in> site_branch ` set (ListSitesByProject (p_id (mp_from plan)) d). b \<notin> site_branch ` set (ListSitesByProject (p_id (mp_into plan)) d)"
    "\<forall>t \<in> ot_tag ` set (ListOCITags (p_id (mp_from plan)) d). t \<notin> ot_tag ` set (ListOCITags (p_id (mp_into plan)) d)"
    "mp_dup_blobs plan = filter (\<lambda>k. k \<in> set (ListOCIBlobKeys (p_id (mp_into plan)) d)) (ListOCIBlobKeys (p_id (mp_from plan)) d)"
    "repo_conflicts (mp_from plan) (mp_into plan) = []"
    using ne get pr none fields by (simp_all add: filter_empty_conv)
qed

lemma release_version_inj:
  assumes "release_rows d" "r \<in> set (d_releases d)" "s \<in> set (d_releases d)"
    "r_project_id r = r_project_id s" "r_version r = r_version s"
  shows "r = s"
  using assms unfolding release_rows_def distinct_map inj_on_def by auto

lemma merge_list_distinct:
  assumes "release_rows d"
  shows "distinct (map r_id (ListReleasesForMerge pid d))" "distinct (map r_version (ListReleasesForMerge pid d))"
proof -
  have "distinct (d_releases d)" using assms unfolding release_rows_def distinct_map by blast
  then show "distinct (map r_version (ListReleasesForMerge pid d))"
    using release_version_inj [OF assms] by (auto simp: ListReleasesForMerge_def distinct_map inj_on_def)
  show "distinct (map r_id (ListReleasesForMerge pid d))"
    using assms by (auto simp: ListReleasesForMerge_def release_rows_def distinct_map inj_on_def)
qed

lemma plan_versions_fresh:
  assumes "release_rows d" "numbered_line (p_id dst) d" "has_room (p_id dst) (length (ListReleasesForMerge (p_id src) d)) d"
    "plan_releases src dst d (ListReleasesForMerge (p_id src) d) (MaxReleaseVersionNum (p_id dst) d) = (ms, [])"
  shows "distinct (map mr_new_version ms)"
    "m \<in> set ms \<Longrightarrow> r \<in> set (d_releases d) \<Longrightarrow> r_project_id r = p_id dst \<Longrightarrow> r_version r \<noteq> mr_new_version m"
proof -
  let ?rs = "ListReleasesForMerge (p_id src) d" and ?max = "MaxReleaseVersionNum (p_id dst) d"
  have room: "- (2 ^ 63) \<le> ?max" "?max + int (length ?rs) < 2 ^ 63" using assms(3) by (simp_all add: has_room_def)
  note nums = plan_releases_nums [OF assms(4) room]
  have versions: "map mr_new_version ms = map r_version ?rs \<and> (\<forall>r \<in> set ?rs. \<not> versionTaken (p_id dst) (r_version r) d)
    \<or> map mr_new_version ms = map format_int [?max + 1..?max + int (length ?rs)]"
    using plan_releases_kept [OF assms(4)] plan_releases_numbered [OF assms(4)] nums by metis
  have inj: "inj_on format_int (set [?max + 1..?max + int (length ?rs)])"
    using room by (intro inj_onI) (rule format_int_inj, auto)
  show "distinct (map mr_new_version ms)"
  proof -
    have "distinct (map format_int [?max + 1..?max + int (length ?rs)])" using inj by (simp add: distinct_map)
    with versions merge_list_distinct(2) [OF assms(1), of "p_id src"] show ?thesis by metis
  qed
  show "r_version r \<noteq> mr_new_version m" if "m \<in> set ms" "r \<in> set (d_releases d)" "r_project_id r = p_id dst"
    using versions
  proof
    assume kept: "map mr_new_version ms = map r_version ?rs \<and> (\<forall>r \<in> set ?rs. \<not> versionTaken (p_id dst) (r_version r) d)"
    have "mr_new_version m \<in> set (map mr_new_version ms)" using that(1) by simp
    with kept obtain s where "s \<in> set ?rs" "mr_new_version m = r_version s" by auto
    with kept that(2,3) show ?thesis by (auto simp: versionTaken_def list_ex_iff)
  next
    assume "map mr_new_version ms = map format_int [?max + 1..?max + int (length ?rs)]"
    moreover have "mr_new_version m \<in> set (map mr_new_version ms)" using that(1) by simp
    ultimately obtain n where n: "mr_new_version m = format_int n" "?max < n" "n < 2 ^ 63" using room by auto
    then have "parse_int64 (mr_new_version m) = Some n" using room by (simp add: parse_format_int)
    with n assms(2) that(2,3) show ?thesis by (auto simp: numbered_line_def list_all_iff)
  qed
qed

lemma plan_mergeable:
  assumes "PlanProjectMerge from into d = Inr plan" "Applicable plan" "name_inv d" "release_rows d"
    "numbered_line (p_id (mp_into plan)) d"
    "has_room (p_id (mp_into plan)) (length (ListReleasesForMerge (p_id (mp_from plan)) d)) d"
  shows "mergeable (p_id (mp_from plan)) (p_id (mp_into plan)) from plan d"
    "(from, p_id (mp_from plan)) \<in> set (nm d)" "(into, p_id (mp_into plan)) \<in> set (nm d)"
    "p_name (mp_from plan) = from" "p_name (mp_into plan) = into"
proof -
  note shape = PlanProjectMerge_shape [OF assms(1,2)]
  note get = shape(2,3) and rel = shape(4) and dup = shape(7)
  have rows: "mp_from plan \<in> set (d_projects d)" "p_name (mp_from plan) = from"
    "mp_into plan \<in> set (d_projects d)" "p_name (mp_into plan) = into"
    using get by (auto simp: GetProject_def GetProjectByName_def split: option.splits dest: find_first_Some)
  show "(from, p_id (mp_from plan)) \<in> set (nm d)" "(into, p_id (mp_into plan)) \<in> set (nm d)"
    "p_name (mp_from plan) = from" "p_name (mp_into plan) = into" using rows by (auto simp: nm_def image_iff)
  have "p_id (mp_from plan) \<noteq> p_id (mp_into plan)"
    using rows shape(1) assms(3) by (auto simp: name_inv_def distinct_map inj_on_def)
  moreover have "project_by_id (p_id (mp_into plan)) d \<noteq> None"
    using rows assms(3) by (simp add: name_inv_def project_by_id_unique)
  moreover have "\<forall>a \<in> set (d_aliases d). al_name a \<noteq> from"
    using assms(3) rows unfolding name_inv_def table_images by auto
  moreover note plan_versions_fresh [OF assms(4-6) rel] plan_releases_ids [OF rel] merge_list_distinct(1) [OF assms(4)]
  moreover have "r_id r \<in> mr_id ` set (mp_releases plan)" if "r \<in> set (d_releases d)" "r_project_id r = p_id (mp_from plan)" for r
  proof -
    have "r_id r \<in> set (map r_id (ListReleasesForMerge (p_id (mp_from plan)) d))" using that by (simp add: ListReleasesForMerge_def)
    then show ?thesis unfolding plan_releases_ids [OF rel, symmetric] by simp
  qed
  moreover have "site_branch u \<noteq> site_branch s" if "s \<in> set (d_sites d)" "u \<in> set (d_sites d)"
    "site_project_id s = p_id (mp_from plan)" "site_project_id u = p_id (mp_into plan)" for s u
    using shape(5) that by (fastforce simp: ListSitesByProject_def)
  moreover have "ot_tag u \<noteq> ot_tag s" if "s \<in> set (d_oci_tags d)" "u \<in> set (d_oci_tags d)"
    "ot_project_id s = p_id (mp_from plan)" "ot_project_id u = p_id (mp_into plan)" for s u
    using shape(6) that by (fastforce simp: ListOCITags_def)
  moreover have "ol_storage_key s \<in> set (mp_dup_blobs plan)" if "s \<in> set (d_oci_links d)" "u \<in> set (d_oci_links d)"
    "ol_project_id s = p_id (mp_from plan)" "ol_project_id u = p_id (mp_into plan)" "ol_storage_key u = ol_storage_key s" for s u
    using that unfolding dup ListOCIBlobKeys_def by (auto simp: image_iff intro: bexI [of _ u] bexI [of _ s])
  ultimately show "mergeable (p_id (mp_from plan)) (p_id (mp_into plan)) from plan d"
    unfolding mergeable_def by simp
qed

section \<open>Names and releases after a merge\<close>

lemma map_of_filter_snd:
  "distinct (map fst xs) \<Longrightarrow> map_of (filter (\<lambda>x. snd x \<noteq> i) xs) n = (if map_of xs n = Some i then None else map_of xs n)"
proof (induction xs)
  case (Cons x xs)
  have "map_of xs (fst x) = None" using Cons.prems by (simp add: map_of_eq_None_iff)
  with Cons show ?case by auto
qed simp

lemma merged_tables:
  assumes "map (\<lambda>p. (p_name p, p_id p)) ps = nm d"
  shows "nm (merged src dst name plan ps d) = filter (\<lambda>x. snd x \<noteq> src) (nm d)"
    "al (merged src dst name plan ps d) = map (\<lambda>(n, i). (n, if i = src then dst else i)) (al d) @ [(name, dst)]"
  using assms [symmetric] by (simp_all add: merged_def nm_def al_def filter_map o_def if_distrib cong: if_cong)

lemma redirected_subset:
  "A = N - {s} \<Longrightarrow> B \<subseteq> insert t (L - {s}) \<Longrightarrow> L \<subseteq> N \<Longrightarrow> t \<in> N \<Longrightarrow> s \<noteq> t \<Longrightarrow> B \<subseteq> A"
  by auto

lemma merged_owner:
  assumes "map (\<lambda>p. (p_name p, p_id p)) ps = nm d" "name_inv d" "(name, src) \<in> set (nm d)" "dst \<in> snd ` set (nm d)" "src \<noteq> dst"
  shows "name_inv (merged src dst name plan ps d)"
    "owner_of (merged src dst name plan ps d) n = map_option (\<lambda>i. if i = src then dst else i) (owner_of d n)"
proof -
  let ?d = "merged src dst name plan ps d"
  note tables = merged_tables [OF assms(1), of src dst name plan]
  note inv = assms(2) [unfolded name_inv_def]
  have "name \<notin> fst ` set (al d)" using inv assms(3) by force
  have fsts: "map fst (al ?d) = map fst (al d) @ [name]" by (simp add: tables(2) case_prod_unfold o_def)
  have only: "n = name" if "(n, src) \<in> set (nm d)" for n
    using that assms(3) inv unfolding nm_ids [symmetric] distinct_map by (metis inj_onD prod.inject snd_conv)
  have "distinct (map p_id (d_projects ?d))"
    using inv unfolding nm_ids [symmetric] tables(1) by (auto simp: distinct_map_filter)
  moreover have "distinct (map fst (nm ?d))" using inv by (simp add: tables(1) distinct_map_filter)
  moreover have "distinct (map fst (al ?d))" using inv \<open>name \<notin> fst ` set (al d)\<close> by (simp add: fsts)
  moreover have "\<forall>n \<in> fst ` set (al ?d). n \<notin> fst ` set (nm ?d)"
  proof -
    have "fst ` set (al ?d) = insert name (fst ` set (al d))" using arg_cong [OF fsts, of set] by simp
    moreover have "name \<notin> fst ` set (nm ?d)"
    proof
      assume "name \<in> fst ` set (nm ?d)"
      then obtain i where "(name, i) \<in> set (nm d)" "i \<noteq> src" by (auto simp: tables(1))
      then show False using inv assms(3) unfolding distinct_map by (metis fst_conv inj_onD prod.inject)
    qed
    ultimately show ?thesis using inv by (auto simp: tables(1))
  qed
  moreover have "snd ` set (al ?d) \<subseteq> snd ` set (nm ?d)"
  proof -
    have "snd ` set (nm ?d) = snd ` set (nm d) - {src}" by (auto simp: tables(1))
    moreover have "snd ` set (al ?d) \<subseteq> insert dst (snd ` set (al d) - {src})"
      by (auto simp: tables(2) image_iff split: if_splits)
    moreover have "snd ` set (al d) \<subseteq> snd ` set (nm d)" using inv by simp
    ultimately show ?thesis using assms(4,5) by (rule redirected_subset)
  qed
  ultimately show new: "name_inv ?d" by (simp add: name_inv_def)
  have nm: "map_of (nm ?d) n = (if map_of (nm d) n = Some src then None else map_of (nm d) n)"
    unfolding tables(1) using inv by (intro map_of_filter_snd) simp
  have al: "map_of (al ?d) n = (if n = name then Some dst else map_option (\<lambda>i. if i = src then dst else i) (map_of (al d) n))"
    using \<open>name \<notin> fst ` set (al d)\<close> [folded map_of_eq_None_iff]
    by (auto simp: tables(2) map_of_append map_add_def map_of_map [of "\<lambda>i. if i = src then dst else i"] o_def split: option.splits)
  have self: "map_of (nm d) name = Some src" using assms(2,3) by (simp add: name_inv_def)
  show "owner_of ?d n = map_option (\<lambda>i. if i = src then dst else i) (owner_of d n)"
  proof (cases "map_of (nm d) n")
    case None
    then have "n \<noteq> name" using self by auto
    with None show ?thesis unfolding owner_of_tables [OF new] owner_of_tables [OF assms(2)] nm al by simp
  next
    case (Some i)
    then have "(n, i) \<in> set (nm d)" by (rule map_of_SomeD)
    then have "i = src \<longleftrightarrow> n = name" using self Some only [of n] by (metis option.inject)
    with Some show ?thesis unfolding owner_of_tables [OF new] owner_of_tables [OF assms(2)] nm al by auto
  qed
qed

lemma moved_release_cases:
  assumes "distinct (map mr_id ms)"
  shows "m \<in> set ms \<Longrightarrow> mr_id m = r_id r \<Longrightarrow>
      moved_release pid (rev ms) r = r\<lparr>r_project_id := pid, r_version := mr_new_version m, r_version_num := mr_new_num m\<rparr>"
    "r_id r \<notin> mr_id ` set ms \<Longrightarrow> moved_release pid (rev ms) r = r"
proof -
  show "moved_release pid (rev ms) r = r\<lparr>r_project_id := pid, r_version := mr_new_version m, r_version_num := mr_new_num m\<rparr>"
    if "m \<in> set ms" "mr_id m = r_id r"
    using find_first_unique [of mr_id "rev ms" m] assms that by (simp add: moved_release_def rev_map [symmetric])
  show "moved_release pid (rev ms) r = r" if "r_id r \<notin> mr_id ` set ms"
  proof -
    have "find_first (\<lambda>m. mr_id m = r_id r) (rev ms) = None" using that by (auto simp: find_first_None image_iff)
    then show ?thesis by (simp add: moved_release_def)
  qed
qed

lemma merged_release_facts:
  assumes "mergeable src dst name plan d" "release_rows d" "set (map mr_id (mp_releases plan)) = r_id ` {r \<in> set (d_releases d). r_project_id r = src}"
    "r \<in> set (d_releases d)"
  shows "r_project_id r \<noteq> src \<Longrightarrow> moved_release dst (rev (mp_releases plan)) r = r"
    "r_project_id r = src \<Longrightarrow> \<exists>m \<in> set (mp_releases plan). mr_id m = r_id r \<and> moved_release dst (rev (mp_releases plan)) r
       = r\<lparr>r_project_id := dst, r_version := mr_new_version m, r_version_num := mr_new_num m\<rparr>"
proof -
  have dist: "distinct (map mr_id (mp_releases plan))" using assms(1) by (simp add: mergeable_def)
  have ids: "inj_on r_id (set (d_releases d))" using assms(2) by (simp add: release_rows_def distinct_map)
  show "moved_release dst (rev (mp_releases plan)) r = r" if "r_project_id r \<noteq> src"
  proof (rule moved_release_cases(2) [OF dist])
    show "r_id r \<notin> mr_id ` set (mp_releases plan)"
      using assms(3,4) that ids by (auto dest: inj_onD)
  qed
  show "\<exists>m \<in> set (mp_releases plan). mr_id m = r_id r \<and> moved_release dst (rev (mp_releases plan)) r
       = r\<lparr>r_project_id := dst, r_version := mr_new_version m, r_version_num := mr_new_num m\<rparr>" if "r_project_id r = src"
  proof -
    have "r_id r \<in> mr_id ` set (mp_releases plan)" using assms(1,4) that unfolding mergeable_def by blast
    then obtain m where "m \<in> set (mp_releases plan)" "mr_id m = r_id r" by force
    then show ?thesis using moved_release_cases(1) [OF dist, of m r] by blast
  qed
qed

lemma merged_release_rows:
  assumes "mergeable src dst name plan d" "release_rows d" "set (map mr_id (mp_releases plan)) = r_id ` {r \<in> set (d_releases d). r_project_id r = src}"
  shows "release_rows (merged src dst name plan ps d)"
proof -
  let ?mv = "moved_release dst (rev (mp_releases plan))"
  note facts = merged_release_facts [OF assms]
  have versions: "inj_on mr_new_version (set (mp_releases plan))" and ids: "inj_on mr_id (set (mp_releases plan))"
    using assms(1) unfolding mergeable_def distinct_map by blast+
  have clash: "r_version s \<noteq> mr_new_version m" if "m \<in> set (mp_releases plan)" "s \<in> set (d_releases d)" "r_project_id s = dst" for m s
    using assms(1) that unfolding mergeable_def by blast
  have rid: "inj_on r_id (set (d_releases d))" and dist: "distinct (d_releases d)"
    using assms(2) unfolding release_rows_def distinct_map by blast+
  have mixed: "(r_project_id (?mv r), r_version (?mv r)) \<noteq> (r_project_id (?mv s), r_version (?mv s))"
    if rs: "r \<in> set (d_releases d)" "s \<in> set (d_releases d)" "r_project_id r = src" "r_project_id s \<noteq> src" for r s
  proof -
    from facts(2) [OF rs(1,3)] obtain m where m: "m \<in> set (mp_releases plan)"
      "r_project_id (?mv r) = dst" "r_version (?mv r) = mr_new_version m" by auto
    show ?thesis unfolding facts(1) [OF rs(2,4)] m(2,3) using clash [OF m(1) rs(2)] by auto
  qed
  have key: "r = s" if rs: "r \<in> set (d_releases d)" "s \<in> set (d_releases d)"
    and eq: "r_project_id (?mv r) = r_project_id (?mv s)" "r_version (?mv r) = r_version (?mv s)" for r s
  proof (cases "r_project_id r = src"; cases "r_project_id s = src")
    assume src: "r_project_id r = src" "r_project_id s = src"
    obtain m n where m: "m \<in> set (mp_releases plan)" "mr_id m = r_id r" "r_version (?mv r) = mr_new_version m"
      and n: "n \<in> set (mp_releases plan)" "mr_id n = r_id s" "r_version (?mv s) = mr_new_version n"
      using facts(2) [OF rs(1) src(1)] facts(2) [OF rs(2) src(2)] by auto
    then have "m = n" using versions eq(2) by (auto dest: inj_onD)
    then show ?thesis using m(2) n(2) rid rs by (auto dest: inj_onD)
  next
    assume src: "r_project_id r = src" "r_project_id s \<noteq> src"
    then show ?thesis using mixed [OF rs src] eq by simp
  next
    assume src: "r_project_id r \<noteq> src" "r_project_id s = src"
    then show ?thesis using mixed [OF rs(2,1) src(2,1)] eq by simp
  next
    assume "r_project_id r \<noteq> src" "r_project_id s \<noteq> src"
    then show ?thesis using facts(1) rs eq release_version_inj [OF assms(2)] by simp
  qed
  have "distinct (map r_id (map ?mv (d_releases d)))" using assms(2) by (simp add: release_rows_def o_def)
  moreover have "distinct (map (\<lambda>r. (r_project_id r, r_version r)) (map ?mv (d_releases d)))"
    unfolding map_map distinct_map using dist key by (auto simp: inj_on_def)
  ultimately show ?thesis by (simp add: release_rows_def merged_def)
qed

lemma plan_ids:
  assumes "PlanProjectMerge from into d = Inr plan" "Applicable plan"
  shows "set (map mr_id (mp_releases plan)) = r_id ` {r \<in> set (d_releases d). r_project_id r = p_id (mp_from plan)}"
  unfolding plan_releases_ids [OF PlanProjectMerge_shape(4) [OF assms]] by (simp add: ListReleasesForMerge_def)

lemma plan_numbers_above:
  assumes "PlanProjectMerge from into d = Inr plan" "Applicable plan"
    "has_room (p_id (mp_into plan)) (length (ListReleasesForMerge (p_id (mp_from plan)) d)) d" "m \<in> set (mp_releases plan)"
  shows "MaxReleaseVersionNum (p_id (mp_into plan)) d < mr_new_num m"
proof -
  have "map mr_new_num (mp_releases plan) = [MaxReleaseVersionNum (p_id (mp_into plan)) d + 1..
      MaxReleaseVersionNum (p_id (mp_into plan)) d + int (length (ListReleasesForMerge (p_id (mp_from plan)) d))]"
    using assms(3) by (intro plan_releases_nums [OF PlanProjectMerge_shape(4) [OF assms(1,2)]]) (simp_all add: has_room_def)
  moreover have "mr_new_num m \<in> set (map mr_new_num (mp_releases plan))" using assms(4) by simp
  ultimately show ?thesis by auto
qed

lemma samePlan_refl: "Applicable plan \<Longrightarrow> samePlan plan plan"
  by (simp add: samePlan_def Applicable_def)

lemma ApplyProjectMerge_planned:
  assumes "PlanProjectMerge from into d = Inr plan" "Applicable plan" "name_inv d" "release_rows d"
    "numbered_line (p_id (mp_into plan)) d"
    "has_room (p_id (mp_into plan)) (length (ListReleasesForMerge (p_id (mp_from plan)) d)) d"
  shows "\<exists>ps. map (\<lambda>p. (p_name p, p_id p)) ps = nm d \<and>
    ApplyProjectMerge now plan d = (merged (p_id (mp_from plan)) (p_id (mp_into plan)) from plan ps d, None)"
proof -
  note pm = plan_mergeable [OF assms]
  obtain ps where "map (\<lambda>p. (p_name p, p_id p)) ps = nm d"
    "merge_body now plan d = Inr (merged (p_id (mp_from plan)) (p_id (mp_into plan)) from plan ps d)"
    using merge_body_result [of plan d now] pm by auto
  then show ?thesis
    using assms(1,2) pm(4,5) samePlan_refl by (intro exI [of _ ps]) (simp add: ApplyProjectMerge_def transaction_def)
qed

text \<open>C25: An applicable merge plan, applied to the database it was made for, goes through, and the
  merge loses nothing: the names of the source, old and new, lead to the target and every other
  name leads where it did; every release is still there under its identifier, those of the source
  belong to the target, numbered after all of the target's, and no other release changed; no two
  releases of a project share a version; and no row refers to the source, which is gone.\<close>

theorem merge_complete:
  assumes "PlanProjectMerge from into d = Inr plan" "Applicable plan" "name_inv d" "release_rows d"
    "numbered_line (p_id (mp_into plan)) d"
    "has_room (p_id (mp_into plan)) (length (ListReleasesForMerge (p_id (mp_from plan)) d)) d"
  shows "\<exists>d'. ApplyProjectMerge now plan d = (d', None) \<and> name_inv d' \<and> release_rows d'
    \<and> project_by_id (p_id (mp_from plan)) d' = None \<and> \<not> references (p_id (mp_from plan)) d'
    \<and> (\<forall>n. owner_of d' n = map_option (\<lambda>i. if i = p_id (mp_from plan) then p_id (mp_into plan) else i) (owner_of d n))
    \<and> map r_id (d_releases d') = map r_id (d_releases d)
    \<and> (\<forall>r \<in> set (d_releases d). if r_project_id r \<noteq> p_id (mp_from plan) then r \<in> set (d_releases d')
        else \<exists>v num. MaxReleaseVersionNum (p_id (mp_into plan)) d < num
          \<and> r\<lparr>r_project_id := p_id (mp_into plan), r_version := v, r_version_num := num\<rparr> \<in> set (d_releases d'))"
proof -
  let ?S = "p_id (mp_from plan)" and ?T = "p_id (mp_into plan)"
  note pm = plan_mergeable [OF assms]
  obtain ps where ps: "map (\<lambda>p. (p_name p, p_id p)) ps = nm d"
    and run: "ApplyProjectMerge now plan d = (merged ?S ?T from plan ps d, None)"
    using ApplyProjectMerge_planned [OF assms] by blast
  let ?d = "merged ?S ?T from plan ps d"
  have T: "?T \<in> snd ` set (nm d)" "?S \<noteq> ?T" using imageI [OF pm(3), of snd] pm(1) [unfolded mergeable_def] by simp_all
  have rows: "d_releases ?d = map (moved_release ?T (rev (mp_releases plan))) (d_releases d)" by (simp add: merged_def)
  have "project_by_id ?S ?d = None" by (simp add: project_by_id_def find_first_None merged_def)
  moreover have "map r_id (d_releases ?d) = map r_id (d_releases d)" by (simp add: rows)
  moreover have "if r_project_id r \<noteq> ?S then r \<in> set (d_releases ?d)
        else \<exists>v num. MaxReleaseVersionNum ?T d < num \<and> r\<lparr>r_project_id := ?T, r_version := v, r_version_num := num\<rparr> \<in> set (d_releases ?d)"
    if r: "r \<in> set (d_releases d)" for r
  proof (cases "r_project_id r = ?S")
    case True
    then obtain m where "m \<in> set (mp_releases plan)" and "moved_release ?T (rev (mp_releases plan)) r
        = r\<lparr>r_project_id := ?T, r_version := mr_new_version m, r_version_num := mr_new_num m\<rparr>"
      using merged_release_facts(2) [OF pm(1) assms(4) plan_ids [OF assms(1,2)] r] by blast
    then have "MaxReleaseVersionNum ?T d < mr_new_num m"
      "r\<lparr>r_project_id := ?T, r_version := mr_new_version m, r_version_num := mr_new_num m\<rparr> \<in> set (d_releases ?d)"
      using plan_numbers_above [OF assms(1,2,6)] r unfolding rows set_map by (auto simp: image_iff intro: bexI [of _ r])
    with True show ?thesis by auto
  next
    case False
    then have "moved_release ?T (rev (mp_releases plan)) r = r"
      using merged_release_facts(1) [OF pm(1) assms(4) plan_ids [OF assms(1,2)] r] by simp
    with False r show ?thesis unfolding rows set_map by (metis imageI)
  qed
  ultimately show ?thesis
    using run merged_owner [OF ps assms(3) pm(2) T] merged_drained [OF pm(1)]
      merged_release_rows [OF pm(1) assms(4) plan_ids [OF assms(1,2)]]
    by (intro exI [of _ ?d]) simp
qed

text \<open>A merge drops the visibility overrides of the source's sites: afterwards every branch of
  the target has the override it had before, so a site that moved and was set private is as
  visible as the target.\<close>

theorem merge_drops_site_overrides:
  assumes "PlanProjectMerge from into d = Inr plan" "Applicable plan" "name_inv d" "release_rows d"
    "numbered_line (p_id (mp_into plan)) d"
    "has_room (p_id (mp_into plan)) (length (ListReleasesForMerge (p_id (mp_from plan)) d)) d"
  shows "SiteVisibility (p_id (mp_into plan)) branch (fst (ApplyProjectMerge now plan d))
    = SiteVisibility (p_id (mp_into plan)) branch d"
proof -
  have ne: "p_id (mp_from plan) \<noteq> p_id (mp_into plan)" using plan_mergeable(1) [OF assms] by (simp add: mergeable_def)
  have "find_first (\<lambda>v. (sv_project_id v = p_id (mp_into plan) \<and> sv_branch v = branch) \<and> sv_project_id v \<noteq> p_id (mp_from plan)) (d_site_vis d)
     = find_first (\<lambda>v. sv_project_id v = p_id (mp_into plan) \<and> sv_branch v = branch) (d_site_vis d)"
    using ne by (intro find_first_cong) auto
  moreover obtain ps where "ApplyProjectMerge now plan d = (merged (p_id (mp_from plan)) (p_id (mp_into plan)) from plan ps d, None)"
    using ApplyProjectMerge_planned [OF assms] by blast
  ultimately show ?thesis by (simp add: SiteVisibility_def merged_def find_first_filter)
qed

definition merge_db :: db where
  "merge_db = empty_db\<lparr>
     d_projects := [(new_project 1 ''org/web'' False)\<lparr>p_github_repo_id := ''77''\<rparr>,
                    (new_project 2 ''org/site'' False)\<lparr>p_github_repo_id := ''77''\<rparr>],
     d_aliases := [\<lparr>al_name = ''org/old'', al_project_id = 1\<rparr>],
     d_releases := [demo_release 1 ''1'' 1 ''master'' True, demo_release 2 ''2'' 2 ''master'' True,
                    (demo_release 3 ''1'' 1 ''master'' True)\<lparr>r_project_id := 2\<rparr>],
     d_sites := [\<lparr>site_id = 1, site_project_id = 1, site_branch = ''docs'', site_storage_key = ''k'', site_size = 1,
                  site_sha256 = [], site_file_count = 1, site_git_commit = [], site_is_public = True, site_updated_at = 0, site_created_at = 0\<rparr>],
     d_site_vis := [\<lparr>sv_project_id = 1, sv_branch = ''docs'', sv_mode = ''private''\<rparr>]\<rparr>"

definition demo_plan :: merge_plan where
  "demo_plan = (case PlanProjectMerge ''org/web'' ''org/site'' merge_db of Inr p \<Rightarrow> p)"

lemma demo_plan_ok:
  "PlanProjectMerge ''org/web'' ''org/site'' merge_db = Inr demo_plan" "Applicable demo_plan"
  "name_inv merge_db" "release_rows merge_db" "numbered_line (p_id (mp_into demo_plan)) merge_db"
  "has_room (p_id (mp_into demo_plan)) (length (ListReleasesForMerge (p_id (mp_from demo_plan)) merge_db)) merge_db"
  by code_simp+

theorem merge_complete_witness:
  "\<exists>d'. ApplyProjectMerge 0 demo_plan merge_db = (d', None) \<and> owner_of d' ''org/web'' = Some 2
     \<and> owner_of d' ''org/old'' = Some 2 \<and> map r_id (d_releases d') = [1, 2, 3]"
proof -
  have "owner_of merge_db ''org/web'' = Some 1" "owner_of merge_db ''org/old'' = Some 1" "p_id (mp_from demo_plan) = 1"
    "p_id (mp_into demo_plan) = 2" "map r_id (d_releases merge_db) = [1, 2, 3]" by code_simp+
  with merge_complete [OF demo_plan_ok, of 0] show ?thesis by auto
qed

theorem merge_drops_site_overrides_witness:
  "SiteVisibility 1 ''docs'' merge_db = ''private''
   \<and> SiteVisibility 2 ''docs'' (fst (ApplyProjectMerge 0 demo_plan merge_db)) = ''auto''"
proof -
  have "p_id (mp_into demo_plan) = 2" "SiteVisibility 2 ''docs'' merge_db = ''auto''"
    "SiteVisibility 1 ''docs'' merge_db = ''private''" by code_simp+
  with merge_drops_site_overrides [OF demo_plan_ok, of "''docs''" 0] show ?thesis by simp
qed

end
