(* ===== verification/Ci_Janitors.thy ===== *)
theory Ci_Janitors
  imports Ci_Tables
begin

text \<open>
  The janitors of the CI storage: \<open>internal/cicache/janitor.go\<close> and
  \<open>internal/runfiles/janitor.go\<close>. A pass deletes what its period of keeping has passed, and
  while the disk is low it deletes more, in the order of the queries, asking the file system
  again before each deletion. What the file system reports (\<open>jn_disk\<close>), whether that is below the
  configured percentage (\<open>jn_below\<close>, a floating-point comparison) and what GitHub answers about
  a run (\<open>jn_run_ended\<close>) are arguments. A tick of the timer while writes are in flight is
  deferred.
\<close>

section \<open>Disk pressure\<close>

record disk_usage =
  du_total :: nat
  du_free :: nat

record janitor =
  jn_keep :: int
  jn_has_floor :: bool
  jn_below :: "nat \<Rightarrow> nat \<Rightarrow> bool"
  jn_disk :: "filesystem \<Rightarrow> string + disk_usage"
  jn_run_ended :: "string \<Rightarrow> string \<Rightarrow> string + time \<times> bool"
  jn_delfail :: "string \<Rightarrow> bool"

definition disk_low :: "janitor \<Rightarrow> filesystem \<Rightarrow> string + bool" where
  "disk_low j fs =
     (case jn_disk j fs of
        Inl e \<Rightarrow> Inl e
      | Inr du \<Rightarrow> Inr (du_total du \<noteq> 0 \<and> jn_below j (du_free du) (du_total du)))"

definition CheckInterval :: int where "CheckInterval = 5 * 60 * SecondNs"

text \<open>How a loop over candidates ends: early, with or without an error, or after the last one.\<close>

datatype 'a relief = Stopped "string option" | Exhausted 'a

section \<open>The cache janitor\<close>

definition PressureGrace :: int where "PressureGrace = 24 * 3600 * SecondNs"

record cache_report =
  cr_at :: time
  cr_deferred :: bool
  cr_entries :: nat
  cr_expired :: nat
  cr_pressure_deleted :: nat
  cr_pressure_kept :: nat
  cr_freed :: int
  cr_error :: "string option"

type_synonym cache_pass = "(db \<times> filesystem) \<times> cache_report"

definition cache_delete :: "janitor \<Rightarrow> cache_entry \<Rightarrow> cache_pass \<Rightarrow> cache_pass" where
  "cache_delete j e st =
     (case st of ((d, fs), rep) \<Rightarrow>
      let d' = DeleteCache \<lparr>cs_repo_id = ce_repo_id e, cs_ref = ce_ref e\<rparr> (ce_key e) d in
      ((d', fst (DeleteBlobIfUnreferenced (jn_delfail j) (ce_storage_key e) True d' fs)),
       rep\<lparr>cr_freed := cr_freed rep + ce_size e\<rparr>))"

fun cache_expire :: "janitor \<Rightarrow> time \<Rightarrow> cache_entry list \<Rightarrow> cache_entry list \<Rightarrow> cache_pass \<Rightarrow> cache_pass \<times> cache_entry list" where
  "cache_expire j now [] kept st = (st, kept)"
| "cache_expire j now (e # es) kept st =
     (if now - ce_used_at e \<ge> jn_keep j
      then (case cache_delete j e st of (s, rep) \<Rightarrow>
              cache_expire j now es kept (s, rep\<lparr>cr_expired := cr_expired rep + 1\<rparr>))
      else cache_expire j now es (kept @ [e]) st)"

fun cache_relieve :: "janitor \<Rightarrow> time \<Rightarrow> cache_entry list \<Rightarrow> cache_entry list \<Rightarrow> cache_pass
    \<Rightarrow> cache_pass \<times> cache_entry list relief" where
  "cache_relieve j now [] recent st = (st, Exhausted recent)"
| "cache_relieve j now (e # es) recent st =
     (if now - ce_used_at e < PressureGrace then cache_relieve j now es (recent @ [e]) st
      else case disk_low j (snd (fst st)) of
        Inl err \<Rightarrow> (st, Stopped (Some err))
      | Inr isLow \<Rightarrow>
          if \<not> isLow then (st, Stopped None)
          else (case cache_delete j e st of (s, rep) \<Rightarrow>
                  cache_relieve j now es recent (s, rep\<lparr>cr_pressure_deleted := cr_pressure_deleted rep + 1\<rparr>)))"

definition cache_relievePressure :: "janitor \<Rightarrow> time \<Rightarrow> cache_entry list \<Rightarrow> cache_pass \<Rightarrow> cache_pass \<times> string option" where
  "cache_relievePressure j now entries st =
     (if \<not> jn_has_floor j then (st, None)
      else case cache_relieve j now entries [] st of
        (st', Stopped err) \<Rightarrow> (st', err)
      | ((s, rep), Exhausted recent) \<Rightarrow>
          (case disk_low j (snd s) of
             Inl err \<Rightarrow> ((s, rep), Some err)
           | Inr isLow \<Rightarrow>
               if \<not> isLow \<or> recent = [] then ((s, rep), None)
               else ((s, rep\<lparr>cr_pressure_kept := length recent\<rparr>), None)))"

definition cache_sweep :: "janitor \<Rightarrow> time \<Rightarrow> cache_pass \<Rightarrow> cache_pass \<times> string option" where
  "cache_sweep j now st =
     (case st of (s, rep) \<Rightarrow>
      let entries = ListCacheEntries (fst s) in
      case cache_expire j now entries [] (s, rep\<lparr>cr_entries := length entries\<rparr>) of
        (st', kept) \<Rightarrow> cache_relievePressure j now kept st')"

definition new_cache_report :: "time \<Rightarrow> bool \<Rightarrow> cache_report" where
  "new_cache_report now deferred = \<lparr>cr_at = now, cr_deferred = deferred, cr_entries = 0, cr_expired = 0,
     cr_pressure_deleted = 0, cr_pressure_kept = 0, cr_freed = 0, cr_error = None\<rparr>"

definition CacheSweep :: "janitor \<Rightarrow> time \<Rightarrow> db \<times> filesystem \<Rightarrow> (db \<times> filesystem) \<times> cache_report \<times> string option" where
  "CacheSweep j now s =
     (case cache_sweep j now (s, new_cache_report now False) of
        ((s', rep), err) \<Rightarrow> (s', rep\<lparr>cr_error := err\<rparr>, err))"

definition cache_tick :: "janitor \<Rightarrow> bool \<Rightarrow> time \<Rightarrow> db \<times> filesystem \<Rightarrow> (db \<times> filesystem) \<times> cache_report" where
  "cache_tick j busy now s =
     (if busy then (s, new_cache_report now True)
      else case CacheSweep j now s of (s', rep, _) \<Rightarrow> (s', rep))"

section \<open>The run files janitor\<close>

definition MaxRunLifetime :: int where "MaxRunLifetime = RunLockLifetime"

record files_report =
  fr_at :: time
  fr_deferred :: bool
  fr_checked :: nat
  fr_check_failures :: nat
  fr_last_check_error :: string
  fr_ended :: nat
  fr_deleted :: nat
  fr_pressure_deleted :: nat
  fr_freed :: int
  fr_error :: "string option"

text \<open>The reasons of failed checks outlive a pass.\<close>

type_synonym check_errors = "(run_key \<times> string) list"

type_synonym files_pass = "(db \<times> filesystem) \<times> check_errors \<times> files_report"

definition CheckError :: "run_key \<Rightarrow> check_errors \<Rightarrow> string" where
  "CheckError k errs = (case map_of errs k of None \<Rightarrow> [] | Some e \<Rightarrow> e)"

fun check_loop :: "janitor \<Rightarrow> time \<Rightarrow> run_storage_run list \<Rightarrow> run_key list \<Rightarrow> files_pass \<Rightarrow> files_pass \<times> run_key list" where
  "check_loop j now [] unknown st = (st, unknown)"
| "check_loop j now (r # rs) unknown ((d, fs), errs, rep) =
     (let rep1 = rep\<lparr>fr_checked := fr_checked rep + 1\<rparr> in
      case jn_run_ended j (rn_repo_path r) (rn_run_id r) of
        Inl err \<Rightarrow>
          check_loop j now rs (key_of r # unknown)
            ((d, fs), AList.update (key_of r) err errs,
             rep1\<lparr>fr_check_failures := fr_check_failures rep1 + 1, fr_last_check_error := err\<rparr>)
      | Inr (endedAt, done) \<Rightarrow>
          check_loop j now rs unknown
            ((MarkRunChecked now (key_of r) (if done then Some endedAt else None) d, fs), AList.delete (key_of r) errs,
             if done then rep1\<lparr>fr_ended := fr_ended rep1 + 1\<rparr> else rep1))"

definition checkRuns :: "janitor \<Rightarrow> time \<Rightarrow> files_pass \<Rightarrow> files_pass \<times> run_key list" where
  "checkRuns j now st = check_loop j now (RunsToCheck (now - CheckInterval) (fst (fst st))) [] st"

text \<open>Deleting a run: its rows, then each blob that nothing refers to any more.\<close>

fun delete_blobs :: "janitor \<Rightarrow> db \<Rightarrow> string list \<Rightarrow> filesystem \<Rightarrow> filesystem" where
  "delete_blobs j d [] fs = fs"
| "delete_blobs j d (k # ks) fs = delete_blobs j d ks (fst (DeleteBlobIfUnreferenced (jn_delfail j) k True d fs))"

definition deleteRun :: "janitor \<Rightarrow> run_storage_run \<times> int \<Rightarrow> files_pass \<Rightarrow> files_pass" where
  "deleteRun j row st =
     (case (row, st) of ((r, bytes), ((d, fs), errs, rep)) \<Rightarrow>
      case DeleteRun (key_of r) d of (d', keys) \<Rightarrow>
        ((d', delete_blobs j d' keys fs), AList.delete (key_of r) errs,
         rep\<lparr>fr_deleted := fr_deleted rep + 1, fr_freed := fr_freed rep + bytes\<rparr>))"

definition run_overdue :: "janitor \<Rightarrow> time \<Rightarrow> run_key list \<Rightarrow> run_storage_run \<Rightarrow> bool" where
  "run_overdue j now unknown r \<longleftrightarrow>
     (case rn_ended_at r of Some t \<Rightarrow> now - t \<ge> jn_keep j | None \<Rightarrow> False)
   \<or> key_of r \<in> set unknown \<and> now - rn_used_at r \<ge> jn_keep j
   \<or> now - rn_created_at r \<ge> MaxRunLifetime"

fun files_expire :: "janitor \<Rightarrow> time \<Rightarrow> run_key list \<Rightarrow> (run_storage_run \<times> int) list \<Rightarrow> (run_storage_run \<times> int) list
    \<Rightarrow> files_pass \<Rightarrow> files_pass \<times> (run_storage_run \<times> int) list" where
  "files_expire j now unknown [] ended st = (st, ended)"
| "files_expire j now unknown (row # rows) ended st =
     (if run_overdue j now unknown (fst row) then files_expire j now unknown rows ended (deleteRun j row st)
      else files_expire j now unknown rows (if rn_ended_at (fst row) \<noteq> None then ended @ [row] else ended) st)"

fun files_relieve :: "janitor \<Rightarrow> (run_storage_run \<times> int) list \<Rightarrow> files_pass \<Rightarrow> files_pass \<times> unit relief" where
  "files_relieve j [] st = (st, Exhausted ())"
| "files_relieve j (row # rows) st =
     (case disk_low j (snd (fst st)) of
        Inl err \<Rightarrow> (st, Stopped (Some err))
      | Inr isLow \<Rightarrow>
          if \<not> isLow then (st, Stopped None)
          else (case deleteRun j row st of (s, errs, rep) \<Rightarrow>
                  files_relieve j rows (s, errs, rep\<lparr>fr_pressure_deleted := fr_pressure_deleted rep + 1\<rparr>)))"

definition files_relievePressure :: "janitor \<Rightarrow> (run_storage_run \<times> int) list \<Rightarrow> files_pass \<Rightarrow> files_pass \<times> string option" where
  "files_relievePressure j ended st =
     (if \<not> jn_has_floor j then (st, None)
      else case files_relieve j ended st of
        (st', Stopped err) \<Rightarrow> (st', err)
      | (st', Exhausted _) \<Rightarrow> (st', case disk_low j (snd (fst st')) of Inl err \<Rightarrow> Some err | Inr _ \<Rightarrow> None))"

definition files_sweep :: "janitor \<Rightarrow> time \<Rightarrow> files_pass \<Rightarrow> files_pass \<times> string option" where
  "files_sweep j now st =
     (case checkRuns j now st of (st1, unknown) \<Rightarrow>
      case files_expire j now unknown (RunStorageRuns (fst (fst st1))) [] st1 of
        (st2, ended) \<Rightarrow> files_relievePressure j ended st2)"

definition new_files_report :: "time \<Rightarrow> bool \<Rightarrow> files_report" where
  "new_files_report now deferred = \<lparr>fr_at = now, fr_deferred = deferred, fr_checked = 0, fr_check_failures = 0,
     fr_last_check_error = [], fr_ended = 0, fr_deleted = 0, fr_pressure_deleted = 0, fr_freed = 0, fr_error = None\<rparr>"

definition FilesSweep :: "janitor \<Rightarrow> time \<Rightarrow> (db \<times> filesystem) \<times> check_errors \<Rightarrow> files_pass \<times> string option" where
  "FilesSweep j now s =
     (case files_sweep j now (fst s, snd s, new_files_report now False) of
        ((s', errs, rep), err) \<Rightarrow> ((s', errs, rep\<lparr>fr_error := err\<rparr>), err))"

definition files_tick :: "janitor \<Rightarrow> bool \<Rightarrow> time \<Rightarrow> (db \<times> filesystem) \<times> check_errors \<Rightarrow> files_pass" where
  "files_tick j busy now s =
     (if busy then (fst s, snd s, new_files_report now True) else fst (FilesSweep j now s))"

section \<open>Passes only take away\<close>

text \<open>A pass refers to no blob it did not refer to before, and keeps every blob it still refers to.\<close>

definition shrinks :: "db \<times> filesystem \<Rightarrow> db \<times> filesystem \<Rightarrow> bool" where
  "shrinks s s' \<longleftrightarrow> (\<forall>k. IsBlobReferenced k (fst s') \<longrightarrow>
     IsBlobReferenced k (fst s) \<and> (present (snd s) k \<longrightarrow> present (snd s') k))"

lemma shrinks_refl [simp]: "shrinks s s"
  by (simp add: shrinks_def)

lemma shrinks_trans: "shrinks s s' \<Longrightarrow> shrinks s' s'' \<Longrightarrow> shrinks s s''"
  by (auto simp: shrinks_def)

lemma DeleteBlob_present:
  assumes "present fs k" "IsBlobReferenced k d"
  shows "present (fst (DeleteBlobIfUnreferenced delfail key enforce d fs)) k"
  using assms
  by (auto simp: DeleteBlobIfUnreferenced_def Delete_def present_def Exists_def file_at_delete split: prod.splits if_splits)

lemma delete_blobs_present: "present fs k \<Longrightarrow> IsBlobReferenced k d \<Longrightarrow> present (delete_blobs j d ks fs) k"
  by (induction ks arbitrary: fs) (auto intro: DeleteBlob_present)

subsection \<open>Cache entries\<close>

abbreviation cid :: "cache_entry \<Rightarrow> string \<times> string \<times> string" where
  "cid e \<equiv> (ce_repo_id e, ce_ref e, ce_key e)"

definition cache_rows :: "db \<Rightarrow> bool" where
  "cache_rows d \<longleftrightarrow> distinct (map cid (d_cache_entries d))"

definition drop_cache :: "(string \<times> string \<times> string) set \<Rightarrow> db \<Rightarrow> db" where
  "drop_cache ids d = d\<lparr>d_cache_entries := filter (\<lambda>e. cid e \<notin> ids) (d_cache_entries d)\<rparr>"

lemma drop_cache_drop [simp]: "drop_cache A (drop_cache B d) = drop_cache (A \<union> B) d"
  by (auto simp: drop_cache_def intro!: arg_cong [of _ _ "\<lambda>x. d_cache_entries_update x d"] filter_cong)

lemma drop_cache_empty [simp]: "drop_cache {} d = d"
  by (simp add: drop_cache_def)

lemma DeleteCache_drop: "DeleteCache \<lparr>cs_repo_id = ce_repo_id e, cs_ref = ce_ref e\<rparr> (ce_key e) d = drop_cache {cid e} d"
  by (auto simp: DeleteCache_def drop_cache_def in_scope_def intro!: arg_cong [of _ _ "\<lambda>x. d_cache_entries_update x d"] filter_cong)

lemma drop_cache_refs: "IsBlobReferenced k (drop_cache A d) \<Longrightarrow> IsBlobReferenced k d"
  by (auto simp: IsBlobReferenced_def drop_cache_def list_ex_iff)

lemma cache_delete_drop:
  assumes "cache_delete j e (s, rep) = (s', rep')"
  shows "fst s' = drop_cache {cid e} (fst s)" "shrinks s s'"
  using assms DeleteBlob_present drop_cache_refs
  by (cases s; fastforce simp: cache_delete_def Let_def DeleteCache_drop shrinks_def)+

definition idle :: "time \<Rightarrow> cache_entry \<Rightarrow> int" where
  "idle now e = now - ce_used_at e"

lemma cache_expire_spec:
  assumes "cache_expire j now es kept (s, rep) = ((s', rep'), kept')"
  shows "kept' = kept @ filter (\<lambda>e. idle now e < jn_keep j) es
    \<and> fst s' = drop_cache (cid ` {e \<in> set es. jn_keep j \<le> idle now e}) (fst s) \<and> shrinks s s'"
  using assms
proof (induction es arbitrary: kept s rep)
  case Nil
  then show ?case by simp
next
  case (Cons e es)
  show ?case
  proof (cases "jn_keep j \<le> idle now e")
    case True
    obtain s1 rep1 where del: "cache_delete j e (s, rep) = (s1, rep1)" by fastforce
    note drop = cache_delete_drop [OF del]
    have "cache_expire j now es kept (s1, rep1\<lparr>cr_expired := cr_expired rep1 + 1\<rparr>) = ((s', rep'), kept')"
      using Cons.prems True del by (simp add: idle_def)
    note ih = Cons.IH [OF this]
    have "{x \<in> set (e # es). jn_keep j \<le> idle now x} = insert e {x \<in> set es. jn_keep j \<le> idle now x}" using True by auto
    with ih drop(1) True shrinks_trans [OF drop(2)] show ?thesis by simp
  next
    case False
    then have "cache_expire j now es (kept @ [e]) (s, rep) = ((s', rep'), kept')" using Cons.prems by (simp add: idle_def)
    note ih = Cons.IH [OF this]
    have "{x \<in> set (e # es). jn_keep j \<le> idle now x} = {x \<in> set es. jn_keep j \<le> idle now x}" using False by auto
    with ih False show ?thesis by simp
  qed
qed

text \<open>What the loop under disk pressure leaves when it ends: the entries it took were old; it
  stopped because the disk was not low, or it took every old one.\<close>

lemma cache_relieve_spec:
  assumes "cache_relieve j now es recent (s, rep) = ((s', rep'), out)"
  shows "\<exists>gone \<subseteq> {e \<in> set es. PressureGrace \<le> idle now e}. fst s' = drop_cache (cid ` gone) (fst s) \<and> shrinks s s'
    \<and> (case out of Stopped None \<Rightarrow> disk_low j (snd s') = Inr False | Stopped (Some _) \<Rightarrow> True
       | Exhausted _ \<Rightarrow> gone = {e \<in> set es. PressureGrace \<le> idle now e})"
  using assms
proof (induction es arbitrary: recent s rep)
  case Nil
  then show ?case by (intro exI [of _ "{}"]) auto
next
  case (Cons e es)
  show ?case
  proof (cases "PressureGrace \<le> idle now e")
    case False
    then have "cache_relieve j now es (recent @ [e]) (s, rep) = ((s', rep'), out)" using Cons.prems by (simp add: idle_def)
    note ih = Cons.IH [OF this]
    have "{x \<in> set (e # es). PressureGrace \<le> idle now x} = {x \<in> set es. PressureGrace \<le> idle now x}" using False by auto
    then show ?thesis using ih by (simp only:)
  next
    case old: True
    show ?thesis
    proof (cases "disk_low j (snd s)")
      case (Inl err)
      then have "s' = s" "out = Stopped (Some err)" using Cons.prems old by (auto simp: idle_def)
      then show ?thesis by (intro exI [of _ "{}"]) simp
    next
      case (Inr isLow)
      show ?thesis
      proof (cases isLow)
        case False
        then have "s' = s" "out = Stopped None" using Cons.prems old Inr by (auto simp: idle_def)
        with False Inr show ?thesis by (intro exI [of _ "{}"]) simp
      next
        case True
        obtain s1 rep1 where del: "cache_delete j e (s, rep) = (s1, rep1)" by fastforce
        note drop = cache_delete_drop [OF del]
        have "cache_relieve j now es recent (s1, rep1\<lparr>cr_pressure_deleted := cr_pressure_deleted rep1 + 1\<rparr>) = ((s', rep'), out)"
          using Cons.prems True Inr old del by (simp add: idle_def)
        from Cons.IH [OF this] obtain gone where gone: "gone \<subseteq> {e \<in> set es. PressureGrace \<le> idle now e}"
          "fst s' = drop_cache (cid ` gone) (fst s1)" "shrinks s1 s'"
          and out: "case out of Stopped None \<Rightarrow> disk_low j (snd s') = Inr False | Stopped (Some _) \<Rightarrow> True
            | Exhausted _ \<Rightarrow> gone = {e \<in> set es. PressureGrace \<le> idle now e}" by blast
        have old': "{x \<in> set (e # es). PressureGrace \<le> idle now x} = insert e {x \<in> set es. PressureGrace \<le> idle now x}"
          using old by auto
        show ?thesis unfolding old'
          using gone drop shrinks_trans [OF drop(2) gone(3)] out
          by (intro exI [of _ "insert e gone"]) (auto split: relief.splits option.splits)
      qed
    qed
  qed
qed

lemma ListCacheEntries_set [simp]: "set (ListCacheEntries d) = set (d_cache_entries d)"
  by (simp add: ListCacheEntries_def)

text \<open>The whole pass: what is left, and how it ended.\<close>

lemma CacheSweep_spec:
  assumes "CacheSweep j now (d, fs) = ((d', fs'), rep, err)"
  shows "\<exists>gone \<subseteq> {e \<in> set (d_cache_entries d). idle now e < jn_keep j \<and> PressureGrace \<le> idle now e}.
    d' = drop_cache (cid ` {e \<in> set (d_cache_entries d). jn_keep j \<le> idle now e} \<union> cid ` gone) d \<and> shrinks (d, fs) (d', fs')
    \<and> (jn_has_floor j \<or> gone = {})
    \<and> (err = None \<longrightarrow> jn_has_floor j \<longrightarrow> disk_low j fs' = Inr False
        \<or> gone = {e \<in> set (d_cache_entries d). idle now e < jn_keep j \<and> PressureGrace \<le> idle now e})"
proof -
  obtain rep1 where sw: "cache_sweep j now ((d, fs), new_cache_report now False) = (((d', fs'), rep1), err)"
    using assms by (auto simp: CacheSweep_def split: prod.splits)
  obtain d1 fs1 rep2 kept where ex: "cache_expire j now (ListCacheEntries d) []
      ((d, fs), (new_cache_report now False)\<lparr>cr_entries := length (ListCacheEntries d)\<rparr>) = (((d1, fs1), rep2), kept)"
    by (metis prod.exhaust)
  note spec = cache_expire_spec [OF ex]
  then have kept: "kept = filter (\<lambda>e. idle now e < jn_keep j) (ListCacheEntries d)"
    and d1: "d1 = drop_cache (cid ` {e \<in> set (d_cache_entries d). jn_keep j \<le> idle now e}) d"
    by simp_all
  have sh1: "shrinks (d, fs) (d1, fs1)" using spec by blast
  have rel: "cache_relievePressure j now kept ((d1, fs1), rep2) = (((d', fs'), rep1), err)"
    using sw by (simp add: cache_sweep_def Let_def ex)
  show ?thesis
  proof (cases "jn_has_floor j")
    case False
    with rel have "d' = d1" "fs' = fs1" by (auto simp: cache_relievePressure_def)
    with d1 sh1 False show ?thesis by (intro exI [of _ "{}"]) simp
  next
    case True
    obtain s3 rep3 out where lo: "cache_relieve j now kept [] ((d1, fs1), rep2) = ((s3, rep3), out)"
      by (metis prod.exhaust)
    then have s3: "s3 = (d', fs')" and stop: "\<And>x. out = Stopped x \<Longrightarrow> err = x"
      using rel True by (auto simp: cache_relievePressure_def split: relief.splits sum.splits if_splits)
    from cache_relieve_spec [OF lo, unfolded s3 fst_conv snd_conv] obtain gone where
      gone: "gone \<subseteq> {e \<in> set kept. PressureGrace \<le> idle now e}" "d' = drop_cache (cid ` gone) d1" "shrinks (d1, fs1) (d', fs')"
      and out: "case out of Stopped None \<Rightarrow> disk_low j fs' = Inr False | Stopped (Some _) \<Rightarrow> True
        | Exhausted _ \<Rightarrow> gone = {e \<in> set kept. PressureGrace \<le> idle now e}" by blast
    have k: "{e \<in> set kept. PressureGrace \<le> idle now e} = {e \<in> set (d_cache_entries d). idle now e < jn_keep j \<and> PressureGrace \<le> idle now e}"
      by (auto simp: kept)
    have "err = None \<longrightarrow> disk_low j fs' = Inr False \<or> gone = {e \<in> set kept. PressureGrace \<le> idle now e}"
      using out stop by (cases out) (auto split: option.splits)
    then show ?thesis
      using gone(1) True shrinks_trans [OF sh1 gone(3)] unfolding k
      by (intro exI [of _ gone]) (simp add: gone(2) d1 Un_commute)
  qed
qed

lemma drop_cache_entries:
  assumes "cache_rows d" "A \<subseteq> set (d_cache_entries d)"
  shows "set (d_cache_entries (drop_cache (cid ` A) d)) = set (d_cache_entries d) - A"
proof -
  have "inj_on cid (set (d_cache_entries d))" using assms(1) by (simp add: cache_rows_def distinct_map)
  then have "cid e \<in> cid ` A \<longleftrightarrow> e \<in> A" if "e \<in> set (d_cache_entries d)" for e
    using that assms(2) by (meson inj_on_image_mem_iff)
  then show ?thesis by (auto simp: drop_cache_def simp del: image_iff)
qed

text \<open>A pass of the cache janitor forgets exactly what it may: every entry that was not
  restored for the keeping period is gone; an entry used within the grace (and the keeping
  period) is there as it was, and so is every entry when no floor is set; no other table
  changes; and no blob that any row still refers to is deleted.\<close>

theorem cache_sweep_exact:
  assumes "cache_rows d" and "CacheSweep j now (d, fs) = ((d', fs'), rep, err)"
  shows "set (d_cache_entries d') \<subseteq> {e \<in> set (d_cache_entries d). idle now e < jn_keep j}
    \<and> {e \<in> set (d_cache_entries d). idle now e < jn_keep j \<and> (jn_has_floor j \<longrightarrow> idle now e < PressureGrace)} \<subseteq> set (d_cache_entries d')
    \<and> (\<exists>es. d' = d\<lparr>d_cache_entries := es\<rparr>)
    \<and> (\<forall>k. IsBlobReferenced k d' \<longrightarrow> present fs k \<longrightarrow> present fs' k)"
proof -
  let ?old = "{e \<in> set (d_cache_entries d). jn_keep j \<le> idle now e}"
  from CacheSweep_spec [OF assms(2)] obtain gone where
    gone: "gone \<subseteq> {e \<in> set (d_cache_entries d). idle now e < jn_keep j \<and> PressureGrace \<le> idle now e}" "jn_has_floor j \<or> gone = {}"
    and d': "d' = drop_cache (cid ` (?old \<union> gone)) d" and sh: "shrinks (d, fs) (d', fs')" by (auto simp: image_Un)
  have "set (d_cache_entries d') = set (d_cache_entries d) - (?old \<union> gone)"
    unfolding d' by (rule drop_cache_entries [OF assms(1)]) (use gone(1) in auto)
  moreover have "\<exists>es. d' = d\<lparr>d_cache_entries := es\<rparr>" unfolding d' drop_cache_def by blast
  ultimately show ?thesis using gone sh by (auto simp: shrinks_def)
qed

text \<open>A pass under disk pressure does all it may: when it ends without an error, the disk is
  not low any more, or every entry left was used within the grace.\<close>

theorem cache_sweep_relieves:
  assumes "cache_rows d" and "CacheSweep j now (d, fs) = ((d', fs'), rep, None)" and "jn_has_floor j"
  shows "disk_low j fs' = Inr False \<or> (\<forall>e \<in> set (d_cache_entries d'). idle now e < PressureGrace)"
proof -
  let ?old = "{e \<in> set (d_cache_entries d). jn_keep j \<le> idle now e}"
  from CacheSweep_spec [OF assms(2)] obtain gone where
    gone: "gone \<subseteq> {e \<in> set (d_cache_entries d). idle now e < jn_keep j \<and> PressureGrace \<le> idle now e}"
    and d': "d' = drop_cache (cid ` (?old \<union> gone)) d"
    and fin: "disk_low j fs' = Inr False \<or> gone = {e \<in> set (d_cache_entries d). idle now e < jn_keep j \<and> PressureGrace \<le> idle now e}"
    using assms(3) by (auto simp: image_Un)
  have "set (d_cache_entries d') = set (d_cache_entries d) - (?old \<union> gone)"
    unfolding d' by (rule drop_cache_entries [OF assms(1)]) (use gone(1) in auto)
  with fin show ?thesis by auto
qed

subsection \<open>Runs\<close>

definition run_rows :: "db \<Rightarrow> bool" where
  "run_rows d \<longleftrightarrow> distinct (map key_of (d_runs d))"

definition drop_runs :: "run_key set \<Rightarrow> db \<Rightarrow> db" where
  "drop_runs ks d = d\<lparr>d_run_files := filter (\<lambda>f. fkey f \<notin> ks) (d_run_files d),
     d_runs := filter (\<lambda>r. key_of r \<notin> ks) (d_runs d)\<rparr>"

lemma drop_runs_drop [simp]: "drop_runs A (drop_runs B d) = drop_runs (A \<union> B) d"
  by (simp add: drop_runs_def conj_commute)

lemma drop_runs_empty [simp]: "drop_runs {} d = d"
  by (simp add: drop_runs_def)

lemma drop_runs_files:
  "k \<notin> ks \<Longrightarrow> filter (\<lambda>f. fkey f = k) (d_run_files (drop_runs ks d)) = filter (\<lambda>f. fkey f = k) (d_run_files d)"
  by (auto simp: drop_runs_def intro!: filter_cong)

lemma drop_runs_refs: "IsBlobReferenced k (drop_runs A d) \<Longrightarrow> IsBlobReferenced k d"
  by (auto simp: IsBlobReferenced_def drop_runs_def list_ex_iff)

lemma deleteRun_drop:
  assumes "deleteRun j row (s, errs, rep) = (s', errs', rep')"
  shows "fst s' = drop_runs {key_of (fst row)} (fst s)" "shrinks s s'"
proof -
  have "fst (DeleteRun k d) = drop_runs {k} d" for k d
    by (simp add: DeleteRun_def drop_runs_def run_keys)
  with assms show "fst s' = drop_runs {key_of (fst row)} (fst s)"
    by (cases s; cases row) (auto simp: deleteRun_def split: prod.splits dest: arg_cong [of _ _ fst])
  moreover have "present (snd s') k" if "IsBlobReferenced k (fst s')" "present (snd s) k" for k
    using assms that by (cases s; cases row) (auto simp: deleteRun_def delete_blobs_present split: prod.splits)
  ultimately show "shrinks s s'" using drop_runs_refs by (auto simp: shrinks_def)
qed

text \<open>Reading the status of the runs changes no file and only the end of runs GitHub reports ended.\<close>

definition check_row :: "janitor \<Rightarrow> time \<Rightarrow> run_storage_run \<Rightarrow> run_storage_run \<Rightarrow> run_storage_run" where
  "check_row j now r x =
     (case jn_run_ended j (rn_repo_path r) (rn_run_id r) of
        Inl _ \<Rightarrow> x
      | Inr (endedAt, done) \<Rightarrow> if key_of x = key_of r
          then x\<lparr>rn_checked_at := Some (sqliteDatetime now), rn_ended_at := (if done then Some endedAt else None)\<rparr> else x)"

lemma check_row_fields [simp]:
  "key_of (check_row j now r x) = key_of x" "rn_created_at (check_row j now r x) = rn_created_at x"
  "rn_used_at (check_row j now r x) = rn_used_at x"
  by (simp_all add: check_row_def key_of_def split: sum.split prod.split)

lemma check_rows_fields [simp]:
  "key_of (fold (check_row j now) rs x) = key_of x" "rn_created_at (fold (check_row j now) rs x) = rn_created_at x"
  "rn_used_at (fold (check_row j now) rs x) = rn_used_at x"
  by (induction rs arbitrary: x) auto

lemma check_loop_spec:
  assumes "check_loop j now rs u ((d, fs), errs, rep) = (((d', fs'), errs', rep'), u')"
  shows "fs' = fs \<and> d' = d\<lparr>d_runs := map (fold (check_row j now) rs) (d_runs d)\<rparr>
    \<and> set u' = set u \<union> {key_of r | r. r \<in> set rs \<and> (\<exists>e. jn_run_ended j (rn_repo_path r) (rn_run_id r) = Inl e)}"
  using assms
proof (induction rs arbitrary: u d errs rep)
  case Nil
  then show ?case by simp
next
  case (Cons r rs)
  show ?case
  proof (cases "jn_run_ended j (rn_repo_path r) (rn_run_id r)")
    case (Inl e)
    then obtain u1 errs1 rep1 where "u1 = key_of r # u" "check_loop j now rs u1 ((d, fs), errs1, rep1) = (((d', fs'), errs', rep'), u')"
      using Cons.prems by (auto simp: Let_def)
    moreover have "check_row j now r = id" using Inl by (simp add: check_row_def fun_eq_iff)
    ultimately show ?thesis using Cons.IH Inl by auto
  next
    case (Inr a)
    then obtain t fin errs1 rep1 where a: "jn_run_ended j (rn_repo_path r) (rn_run_id r) = Inr (t, fin)"
      and step: "check_loop j now rs u ((MarkRunChecked now (key_of r) (if fin then Some t else None) d, fs), errs1, rep1)
        = (((d', fs'), errs', rep'), u')"
      using Cons.prems by (cases a) (auto simp: Let_def)
    have "MarkRunChecked now (key_of r) (if fin then Some t else None) d = d\<lparr>d_runs := map (check_row j now r) (d_runs d)\<rparr>"
      by (auto simp: MarkRunChecked_def check_row_def a run_keys intro!: arg_cong [of _ _ "\<lambda>x. d_runs_update x d"])
    with Cons.IH [OF step] show ?thesis using a by auto
  qed
qed

lemma check_rows_ended:
  assumes "\<And>r. r \<in> set rs \<Longrightarrow> key_of r = key_of x \<Longrightarrow> \<not> (\<exists>t. jn_run_ended j (rn_repo_path r) (rn_run_id r) = Inr (t, True))"
    "rn_ended_at x = None"
  shows "rn_ended_at (fold (check_row j now) rs x) = None"
  using assms
proof (induction rs arbitrary: x)
  case (Cons r rs)
  have "rn_ended_at (check_row j now r x) = None"
    using Cons.prems by (auto simp: check_row_def split: sum.split prod.split)
  then show ?case using Cons.IH [of "check_row j now r x"] Cons.prems(1) by simp
qed simp

lemma check_rows_other: "key_of x \<notin> key_of ` set rs \<Longrightarrow> fold (check_row j now) rs x = x"
  by (induction rs arbitrary: x) (auto simp: check_row_def split: sum.split prod.split)

lemma files_expire_spec:
  assumes "files_expire j now u rows ended (s, errs, rep) = ((s', errs', rep'), ended')"
  shows "ended' = ended @ filter (\<lambda>row. \<not> run_overdue j now u (fst row) \<and> rn_ended_at (fst row) \<noteq> None) rows
    \<and> fst s' = drop_runs (key_of ` {r \<in> fst ` set rows. run_overdue j now u r}) (fst s) \<and> shrinks s s'"
  using assms
proof (induction rows arbitrary: ended s errs rep)
  case Nil
  then show ?case by simp
next
  case (Cons row rows)
  show ?case
  proof (cases "run_overdue j now u (fst row)")
    case True
    obtain s1 errs1 rep1 where del: "deleteRun j row (s, errs, rep) = (s1, errs1, rep1)" by (metis prod.exhaust)
    have "files_expire j now u rows ended (s1, errs1, rep1) = ((s', errs', rep'), ended')"
      using Cons.prems True del by simp
    note ih = Cons.IH [OF this]
    have "{r \<in> fst ` set (row # rows). run_overdue j now u r} = insert (fst row) {r \<in> fst ` set rows. run_overdue j now u r}"
      using True by auto
    with ih deleteRun_drop [OF del] True shrinks_trans [OF deleteRun_drop(2) [OF del]] show ?thesis by simp
  next
    case False
    then have "files_expire j now u rows (if rn_ended_at (fst row) \<noteq> None then ended @ [row] else ended) (s, errs, rep) = ((s', errs', rep'), ended')"
      using Cons.prems by simp
    note ih = Cons.IH [OF this]
    have "{r \<in> fst ` set (row # rows). run_overdue j now u r} = {r \<in> fst ` set rows. run_overdue j now u r}" using False by auto
    with ih False show ?thesis by simp
  qed
qed

lemma files_relieve_spec:
  assumes "files_relieve j rows (s, errs, rep) = ((s', errs', rep'), out)"
  shows "\<exists>gone \<subseteq> fst ` set rows. fst s' = drop_runs (key_of ` gone) (fst s) \<and> shrinks s s'
    \<and> (case out of Stopped None \<Rightarrow> disk_low j (snd s') = Inr False | Stopped (Some _) \<Rightarrow> True | Exhausted _ \<Rightarrow> gone = fst ` set rows)"
  using assms
proof (induction rows arbitrary: s errs rep)
  case Nil
  then show ?case by (intro exI [of _ "{}"]) auto
next
  case (Cons row rows)
  show ?case
  proof (cases "disk_low j (snd s) = Inr True")
    case False
    then have "s' = s" "case out of Stopped None \<Rightarrow> disk_low j (snd s') = Inr False | Stopped (Some _) \<Rightarrow> True | Exhausted _ \<Rightarrow> False"
      using Cons.prems by (auto split: sum.splits if_splits)
    then show ?thesis by (intro exI [of _ "{}"]) (auto split: relief.splits option.splits)
  next
    case True
    obtain s1 errs1 rep1 where del: "deleteRun j row (s, errs, rep) = (s1, errs1, rep1)" by (metis prod.exhaust)
    note drop = deleteRun_drop [OF del]
    have "files_relieve j rows (s1, errs1, rep1\<lparr>fr_pressure_deleted := fr_pressure_deleted rep1 + 1\<rparr>) = ((s', errs', rep'), out)"
      using Cons.prems True del by simp
    from Cons.IH [OF this] obtain gone where gone: "gone \<subseteq> fst ` set rows"
      "fst s' = drop_runs (key_of ` gone) (fst s1)" "shrinks s1 s'"
      and out: "case out of Stopped None \<Rightarrow> disk_low j (snd s') = Inr False | Stopped (Some _) \<Rightarrow> True | Exhausted _ \<Rightarrow> gone = fst ` set rows"
      by blast
    show ?thesis
      using gone drop shrinks_trans [OF drop(2) gone(3)] out
      by (intro exI [of _ "insert (fst row) gone"]) (auto split: relief.splits option.splits)
  qed
qed

lemma RunStorageRuns_set [simp]: "fst ` set (RunStorageRuns d) = set (d_runs d)"
  by (auto simp: RunStorageRuns_def image_image)

text \<open>A whole pass: the rows as the check leaves them, the runs that went because their time had
  come, and the ended runs that went because the disk was low.\<close>

lemma FilesSweep_spec:
  assumes "FilesSweep j now ((d, fs), errs) = (((d', fs'), errs', rep), err)"
  shows "\<exists>d1 u gone. d1 = d\<lparr>d_runs := map (fold (check_row j now) (RunsToCheck (now - CheckInterval) d)) (d_runs d)\<rparr>
    \<and> set u = {key_of r | r. r \<in> set (RunsToCheck (now - CheckInterval) d) \<and> (\<exists>e. jn_run_ended j (rn_repo_path r) (rn_run_id r) = Inl e)}
    \<and> gone \<subseteq> {r \<in> set (d_runs d1). \<not> run_overdue j now u r \<and> rn_ended_at r \<noteq> None}
    \<and> d' = drop_runs (key_of ` {r \<in> set (d_runs d1). run_overdue j now u r} \<union> key_of ` gone) d1
    \<and> shrinks (d, fs) (d', fs') \<and> (jn_has_floor j \<or> gone = {})
    \<and> (err = None \<longrightarrow> jn_has_floor j \<longrightarrow> disk_low j fs' = Inr False
        \<or> gone = {r \<in> set (d_runs d1). \<not> run_overdue j now u r \<and> rn_ended_at r \<noteq> None})"
proof -
  obtain rep1 where sw: "files_sweep j now ((d, fs), errs, new_files_report now False) = (((d', fs'), errs', rep1), err)"
    using assms by (auto simp: FilesSweep_def split: prod.splits)
  obtain d1 fs1 errs1 rep2 u where ch: "check_loop j now (RunsToCheck (now - CheckInterval) d) []
      ((d, fs), errs, new_files_report now False) = (((d1, fs1), errs1, rep2), u)" by (metis prod.exhaust)
  from check_loop_spec [OF ch] have fs1: "fs1 = fs"
    and d1: "d1 = d\<lparr>d_runs := map (fold (check_row j now) (RunsToCheck (now - CheckInterval) d)) (d_runs d)\<rparr>"
    and u: "set u = {key_of r | r. r \<in> set (RunsToCheck (now - CheckInterval) d) \<and> (\<exists>e. jn_run_ended j (rn_repo_path r) (rn_run_id r) = Inl e)}"
    by simp_all
  obtain s2 errs2 rep3 ended where ex: "files_expire j now u (RunStorageRuns d1) [] ((d1, fs1), errs1, rep2) = ((s2, errs2, rep3), ended)"
    by (metis prod.exhaust)
  note exs = files_expire_spec [OF ex]
  have ended: "fst ` set ended = {r \<in> set (d_runs d1). \<not> run_overdue j now u r \<and> rn_ended_at r \<noteq> None}"
    using exs by (force simp: RunStorageRuns_set [symmetric] simp del: RunStorageRuns_set)
  have s2: "fst s2 = drop_runs (key_of ` {r \<in> set (d_runs d1). run_overdue j now u r}) d1" using exs by simp
  have "IsBlobReferenced k d1 = IsBlobReferenced k d" for k by (simp add: IsBlobReferenced_def d1)
  then have sh: "shrinks (d, fs) s2" using exs by (auto simp: shrinks_def fs1)
  have rel: "files_relievePressure j ended (s2, errs2, rep3) = (((d', fs'), errs', rep1), err)"
    using sw by (simp add: files_sweep_def checkRuns_def ch ex)
  show ?thesis
  proof (cases "jn_has_floor j")
    case False
    with rel have "s2 = (d', fs')" by (auto simp: files_relievePressure_def)
    with s2 sh False d1 u show ?thesis by (intro exI [of _ d1] exI [of _ u] exI [of _ "{}"]) simp
  next
    case True
    obtain s3 errs3 rep4 out where lo: "files_relieve j ended (s2, errs2, rep3) = ((s3, errs3, rep4), out)" by (metis prod.exhaust)
    then have s3: "s3 = (d', fs')" and stop: "\<And>x. out = Stopped x \<Longrightarrow> err = x"
      using rel True by (auto simp: files_relievePressure_def split: relief.splits)
    from files_relieve_spec [OF lo, unfolded s3 fst_conv snd_conv] obtain gone where
      gone: "gone \<subseteq> fst ` set ended" "d' = drop_runs (key_of ` gone) (fst s2)" "shrinks s2 (d', fs')"
      and out: "case out of Stopped None \<Rightarrow> disk_low j fs' = Inr False | Stopped (Some _) \<Rightarrow> True | Exhausted _ \<Rightarrow> gone = fst ` set ended"
      by blast
    have "err = None \<longrightarrow> disk_low j fs' = Inr False \<or> gone = fst ` set ended"
      using out stop by (cases out) (auto split: option.splits)
    then show ?thesis
      using gone(1) True shrinks_trans [OF sh gone(3)] d1 u unfolding ended
      by (intro exI [of _ d1] exI [of _ u] exI [of _ gone]) (simp add: gone(2) s2 Un_commute)
  qed
qed

lemma run_row_unique: "run_rows d \<Longrightarrow> r \<in> set (d_runs d) \<Longrightarrow> x \<in> set (d_runs d) \<Longrightarrow> key_of r = key_of x \<Longrightarrow> r = x"
  by (auto simp: run_rows_def distinct_map dest: inj_onD)

lemma RunsToCheck_live: "r \<in> set (RunsToCheck cutoff d) \<Longrightarrow> r \<in> set (d_runs d) \<and> rn_ended_at r = None"
  by (simp add: RunsToCheck_def)

text \<open>C28: What a pass of the run files janitor leaves alone: a run whose row is younger than the
  longest a run is taken to last (35 days), that is not marked ended, and that GitHub does not
  report ended, or cannot report on while the run was used within the keeping period. Such a run
  keeps its row, every one of its files as it was, and their blobs. A run that is still live
  35 days after its row was made, as a re-run can be, is outside: the pass deletes it.\<close>

theorem live_run_keeps_files:
  assumes "run_rows d" and "FilesSweep j now ((d, fs), errs) = (((d', fs'), errs', rep), err)"
    and "r \<in> set (d_runs d)" and "rn_ended_at r = None" and "now - rn_created_at r < MaxRunLifetime"
    and "case jn_run_ended j (rn_repo_path r) (rn_run_id r) of Inl _ \<Rightarrow> now - rn_used_at r < jn_keep j | Inr (_, fin) \<Rightarrow> \<not> fin"
  shows "filter (\<lambda>f. fkey f = key_of r) (d_run_files d') = filter (\<lambda>f. fkey f = key_of r) (d_run_files d)
    \<and> key_of r \<in> key_of ` set (d_runs d')
    \<and> (\<forall>f \<in> set (d_run_files d). fkey f = key_of r \<longrightarrow> present fs (rf_storage_key f) \<longrightarrow> present fs' (rf_storage_key f))"
proof -
  let ?due = "RunsToCheck (now - CheckInterval) d" and ?x = "fold (check_row j now) (RunsToCheck (now - CheckInterval) d) r"
  from FilesSweep_spec [OF assms(2)] obtain d1 u gone where
    d1: "d1 = d\<lparr>d_runs := map (fold (check_row j now) ?due) (d_runs d)\<rparr>"
    and u: "set u = {key_of r | r. r \<in> set ?due \<and> (\<exists>e. jn_run_ended j (rn_repo_path r) (rn_run_id r) = Inl e)}"
    and gone: "gone \<subseteq> {r \<in> set (d_runs d1). \<not> run_overdue j now u r \<and> rn_ended_at r \<noteq> None}"
    and d': "d' = drop_runs (key_of ` {r \<in> set (d_runs d1). run_overdue j now u r} \<union> key_of ` gone) d1"
    and sh: "shrinks (d, fs) (d', fs')" by blast
  have same: "y = r" if "y \<in> set ?due" "key_of y = key_of r" for y
    using run_row_unique [OF assms(1)] RunsToCheck_live that assms(3) by blast
  have "\<not> (\<exists>t. jn_run_ended j (rn_repo_path r) (rn_run_id r) = Inr (t, True))"
    using assms(6) by (auto split: sum.splits)
  then have live: "rn_ended_at ?x = None"
    using same assms(4) by (intro check_rows_ended) blast+
  have "\<not> (key_of r \<in> set u \<and> jn_keep j \<le> now - rn_used_at r)"
    using assms(6) same unfolding u by (auto split: sum.splits)
  then have on_time: "\<not> run_overdue j now u ?x" using live assms(5) by (auto simp: run_overdue_def)
  have only: "y = ?x" if "y \<in> set (d_runs d1)" "key_of y = key_of r" for y
  proof -
    from that obtain x where x: "x \<in> set (d_runs d)" "y = fold (check_row j now) ?due x" "key_of x = key_of r" by (auto simp: d1)
    then have "x = r" using run_row_unique [OF assms(1) _ assms(3)] by blast
    with x(2) show ?thesis by simp
  qed
  have kept: "key_of r \<notin> key_of ` {r \<in> set (d_runs d1). run_overdue j now u r} \<union> key_of ` gone"
    using only on_time live gone by fastforce
  then have files: "filter (\<lambda>f. fkey f = key_of r) (d_run_files d') = filter (\<lambda>f. fkey f = key_of r) (d_run_files d)"
    unfolding d' by (subst drop_runs_files) (simp_all add: d1)
  moreover have "?x \<in> set (d_runs d')" using kept assms(3) by (simp add: d' drop_runs_def d1)
  then have "key_of r \<in> key_of ` set (d_runs d')" by (metis check_rows_fields(1) imageI)
  moreover have "present fs' (rf_storage_key f)" if "f \<in> set (d_run_files d)" "fkey f = key_of r" "present fs (rf_storage_key f)" for f
  proof -
    have "f \<in> set (filter (\<lambda>f. fkey f = key_of r) (d_run_files d'))" unfolding files using that by simp
    then have "IsBlobReferenced (rf_storage_key f) d'" by (auto simp: IsBlobReferenced_def list_ex_iff)
    then show ?thesis using sh that(3) by (simp add: shrinks_def)
  qed
  ultimately show ?thesis by blast
qed

text \<open>C32: A pass of the run files janitor finishes its work: the files and the row of every run
  that ended before the keeping period are gone, and when the pass ends without an error under
  a floor, the disk is not low any more or no ended run is left.\<close>

theorem files_sweep_clears:
  assumes "run_rows d" and "FilesSweep j now ((d, fs), errs) = (((d', fs'), errs', rep), err)"
  shows "(\<forall>r \<in> set (d_runs d). (\<exists>t. rn_ended_at r = Some t \<and> jn_keep j \<le> now - t) \<longrightarrow>
        key_of r \<notin> fkey ` set (d_run_files d') \<and> key_of r \<notin> key_of ` set (d_runs d'))
    \<and> (err = None \<longrightarrow> jn_has_floor j \<longrightarrow> disk_low j fs' = Inr False \<or> (\<forall>r \<in> set (d_runs d'). rn_ended_at r = None))"
proof -
  let ?due = "RunsToCheck (now - CheckInterval) d"
  from FilesSweep_spec [OF assms(2)] obtain d1 u gone where
    d1: "d1 = d\<lparr>d_runs := map (fold (check_row j now) ?due) (d_runs d)\<rparr>"
    and d': "d' = drop_runs (key_of ` {r \<in> set (d_runs d1). run_overdue j now u r} \<union> key_of ` gone) d1"
    and fin: "err = None \<longrightarrow> jn_has_floor j \<longrightarrow> disk_low j fs' = Inr False
        \<or> gone = {r \<in> set (d_runs d1). \<not> run_overdue j now u r \<and> rn_ended_at r \<noteq> None}" by blast
  have "key_of r \<in> key_of ` {r \<in> set (d_runs d1). run_overdue j now u r}"
    if r: "r \<in> set (d_runs d)" "rn_ended_at r = Some t" "jn_keep j \<le> now - t" for r t
  proof -
    have "key_of r \<notin> key_of ` set ?due"
      using run_row_unique [OF assms(1) r(1)] RunsToCheck_live r(2) by force
    then have "fold (check_row j now) ?due r = r" by (rule check_rows_other)
    then have "r \<in> set (d_runs d1)" using r(1) by (force simp: d1)
    then show ?thesis using r(2,3) by (auto simp: run_overdue_def)
  qed
  then have "\<forall>r \<in> set (d_runs d). (\<exists>t. rn_ended_at r = Some t \<and> jn_keep j \<le> now - t) \<longrightarrow>
        key_of r \<notin> fkey ` set (d_run_files d') \<and> key_of r \<notin> key_of ` set (d_runs d')"
    unfolding d' drop_runs_def by (simp add: image_iff) metis
  moreover have "rn_ended_at r = None"
    if "gone = {r \<in> set (d_runs d1). \<not> run_overdue j now u r \<and> rn_ended_at r \<noteq> None}" "r \<in> set (d_runs d')" for r
    using that by (auto simp: d' drop_runs_def)
  ultimately show ?thesis using fin by blast
qed

section \<open>Concrete instances\<close>

definition demo_janitor :: janitor where
  "demo_janitor = \<lparr>jn_keep = 7 * 24 * 3600 * SecondNs, jn_has_floor = True, jn_below = (\<lambda>free total. free * 100 < 10 * total),
     jn_disk = (\<lambda>fs. Inr \<lparr>du_total = 100, du_free = 12 - 4 * length (fs_blobs fs)\<rparr>),
     jn_run_ended = (\<lambda>repo run. if run = ''9'' then Inl ''no answer'' else Inr (0, False)), jn_delfail = (\<lambda>_. False)\<rparr>"

definition demo_entry :: "string \<Rightarrow> char \<Rightarrow> time \<Rightarrow> cache_entry" where
  "demo_entry key c used = \<lparr>ce_repo_id = ''7'', ce_ref = ''refs/heads/master'', ce_key = key, ce_repo_path = ''org/app'',
     ce_storage_key = replicate 64 c, ce_size = 5, ce_created_at = 0, ce_used_at = used, ce_reads = 0\<rparr>"

definition demo_blobs :: filesystem where
  "demo_blobs = \<lparr>fs_compress = False, fs_blobs = map (\<lambda>c. (rel (replicate 64 c), [1])) ''abc''\<rparr>"

definition cache_db :: db where
  "cache_db = empty_db\<lparr>d_cache_entries := [demo_entry ''old'' CHR ''a'' 0, demo_entry ''week'' CHR ''b'' (9 * 24 * 3600 * SecondNs),
     demo_entry ''new'' CHR ''c'' (11 * 24 * 3600 * SecondNs)]\<rparr>"

definition demo_noon :: time where "demo_noon = (11 * 24 + 12) * 3600 * SecondNs"

theorem cache_sweep_exact_witness:
  "demo_entry ''new'' CHR ''c'' (11 * 24 * 3600 * SecondNs)
     \<in> set (d_cache_entries (fst (fst (CacheSweep demo_janitor demo_noon (cache_db, demo_blobs)))))
   \<and> demo_entry ''old'' CHR ''a'' 0 \<notin> set (d_cache_entries (fst (fst (CacheSweep demo_janitor demo_noon (cache_db, demo_blobs)))))"
proof -
  let ?e = "demo_entry ''new'' CHR ''c'' (11 * 24 * 3600 * SecondNs)"
  obtain d' fs' rep err where sw: "CacheSweep demo_janitor demo_noon (cache_db, demo_blobs) = ((d', fs'), rep, err)"
    by (metis prod.exhaust)
  have rows: "cache_rows cache_db" by code_simp
  have "?e \<in> set (d_cache_entries cache_db)" "idle demo_noon ?e < jn_keep demo_janitor" "idle demo_noon ?e < PressureGrace"
    "\<not> idle demo_noon (demo_entry ''old'' CHR ''a'' 0) < jn_keep demo_janitor" by code_simp+
  with cache_sweep_exact [OF rows sw] show ?thesis unfolding sw by auto
qed

theorem cache_sweep_relieves_witness:
  "\<exists>d' fs' rep. CacheSweep demo_janitor demo_noon (cache_db, demo_blobs) = ((d', fs'), rep, None)
     \<and> (disk_low demo_janitor fs' = Inr False \<or> (\<forall>e \<in> set (d_cache_entries d'). idle demo_noon e < PressureGrace))"
proof -
  obtain d' fs' rep err where sw: "CacheSweep demo_janitor demo_noon (cache_db, demo_blobs) = ((d', fs'), rep, err)"
    by (metis prod.exhaust)
  moreover have "snd (snd (CacheSweep demo_janitor demo_noon (cache_db, demo_blobs))) = None" by code_simp
  ultimately have "CacheSweep demo_janitor demo_noon (cache_db, demo_blobs) = ((d', fs'), rep, None)" by simp
  moreover have "cache_rows cache_db" "jn_has_floor demo_janitor" by code_simp+
  ultimately show ?thesis using cache_sweep_relieves by blast
qed

definition demo_run :: "string \<Rightarrow> time \<Rightarrow> time option \<Rightarrow> run_storage_run" where
  "demo_run i used ended = \<lparr>rn_repo_id = ''7'', rn_run_id = i, rn_repo_path = ''org/app'', rn_created_at = 0, rn_used_at = used,
     rn_checked_at = None, rn_ended_at = ended\<rparr>"

definition demo_file :: "string \<Rightarrow> char \<Rightarrow> run_file" where
  "demo_file i c = \<lparr>rf_repo_id = ''7'', rf_run_id = i, rf_name = ''out'', rf_storage_key = replicate 64 c, rf_size = 5,
     rf_created_at = 0, rf_reads = 0, rf_read_at = None\<rparr>"

definition files_db :: db where
  "files_db = empty_db\<lparr>d_runs := [demo_run ''5'' 0 None, demo_run ''6'' 0 (Some 0)],
     d_run_files := [demo_file ''5'' CHR ''a'', demo_file ''6'' CHR ''b'']\<rparr>"

theorem live_run_keeps_files_witness:
  "filter (\<lambda>f. fkey f = key_of (demo_run ''5'' 0 None)) (d_run_files (fst (fst (fst (FilesSweep demo_janitor demo_noon ((files_db, demo_blobs), []))))))
     = [demo_file ''5'' CHR ''a'']"
proof -
  let ?r = "demo_run ''5'' 0 None"
  obtain d' fs' errs rep err where sw: "FilesSweep demo_janitor demo_noon ((files_db, demo_blobs), []) = (((d', fs'), errs, rep), err)"
    by (metis prod.exhaust)
  have "run_rows files_db" "?r \<in> set (d_runs files_db)" "rn_ended_at ?r = None" "demo_noon - rn_created_at ?r < MaxRunLifetime"
    "case jn_run_ended demo_janitor (rn_repo_path ?r) (rn_run_id ?r) of Inl _ \<Rightarrow> demo_noon - rn_used_at ?r < jn_keep demo_janitor
       | Inr (_, fin) \<Rightarrow> \<not> fin"
    "filter (\<lambda>f. fkey f = key_of ?r) (d_run_files files_db) = [demo_file ''5'' CHR ''a'']" by code_simp+
  with live_run_keeps_files [OF _ sw] show ?thesis unfolding sw by simp
qed

theorem files_sweep_clears_witness:
  "key_of (demo_run ''6'' 0 (Some 0)) \<notin> key_of ` set (d_runs (fst (fst (fst (FilesSweep demo_janitor demo_noon ((files_db, demo_blobs), []))))))"
proof -
  let ?r = "demo_run ''6'' 0 (Some 0)"
  obtain d' fs' errs rep err where sw: "FilesSweep demo_janitor demo_noon ((files_db, demo_blobs), []) = (((d', fs'), errs, rep), err)"
    by (metis prod.exhaust)
  have "run_rows files_db" "?r \<in> set (d_runs files_db)" "rn_ended_at ?r = Some 0" "jn_keep demo_janitor \<le> demo_noon - 0" by code_simp+
  with files_sweep_clears [OF _ sw] show ?thesis unfolding sw by auto
qed

end
