(* ===== verification/Oidc.thy ===== *)
theory Oidc
  imports Projects
begin

text \<open>
  Tokens of GitHub Actions and other OpenID issuers: \<open>internal/auth/oidc.go\<close>,
  \<open>reserved.go\<close> and the name checks of \<open>githubbranch.go\<close>. A verified token either matches a
  stored policy and gets the policy's scopes, or, for a trusted issuer, an identity that owns
  the project named after its repository. The JWT library and the fetching of an issuer's keys
  are parameters: \<open>ParseUnverified\<close> reads the claims, \<open>ParseWithClaims\<close> asks a function for
  the key that belongs to the token's header and verifies the signature with it.
\<close>

section \<open>Names in claims\<close>

definition ReservedProjectRoots :: "string list" where
  "ReservedProjectRoots = [''dockerhub'', ''ghcr'']"

definition ReservedProjectName :: "string \<Rightarrow> bool" where
  "ReservedProjectName name = (case cut_at (CHR ''/'') name of (root, _, _) \<Rightarrow> root \<in> set ReservedProjectRoots)"

definition splitImmutableID :: "string \<Rightarrow> string \<times> string" where
  "splitImmutableID segment =
     (case cut_last (CHR ''@'') segment of (name, i, ok) \<Rightarrow>
      if \<not> ok \<or> name = [] \<or> i = [] then (segment, [])
      else if list_all is_digit i then (name, i) else (segment, []))"

definition trimImmutableID :: "string \<Rightarrow> string" where
  "trimImmutableID segment = fst (splitImmutableID segment)"

definition validNumericID :: "string \<Rightarrow> bool" where
  "validNumericID s \<longleftrightarrow> \<not> (s = [] \<or> length s > 20) \<and> list_all is_digit s"

definition name_tail_char :: "char \<Rightarrow> bool" where
  "name_tail_char c \<longleftrightarrow> is_lower c \<or> is_digit c \<or> c = CHR ''.'' \<or> c = CHR ''_'' \<or> c = CHR ''-''"

definition validOIDCProjectName :: "string \<Rightarrow> bool" where
  "validOIDCProjectName name =
     (case name of [] \<Rightarrow> False
      | c # cs \<Rightarrow> length name \<le> 128 \<and> (is_lower c \<or> is_digit c) \<and> list_all name_tail_char cs)"

definition RepoProjectName :: "string \<Rightarrow> string" where
  "RepoProjectName repo =
     (let name = trim_left (to_lower repo) ''._-'' in
      if \<not> validOIDCProjectName name \<or> ReservedProjectName name then [] else name)"

definition validGitHubSegment :: "string \<Rightarrow> bool" where
  "validGitHubSegment s \<longleftrightarrow> \<not> (s = [] \<or> length s > 100) \<and>
     list_all (\<lambda>c. is_lower c \<or> is_upper c \<or> is_digit c \<or> c = CHR ''.'' \<or> c = CHR ''_'' \<or> c = CHR ''-'') s"

definition validRepoPath :: "string \<Rightarrow> bool" where
  "validRepoPath s =
     (case cut_at (CHR ''/'') s of (owner, repo, ok) \<Rightarrow>
      if \<not> ok \<or> CHR ''/'' \<in> set repo then False else validGitHubSegment owner \<and> validGitHubSegment repo)"

definition trimRepoPathIDs :: "string \<Rightarrow> string" where
  "trimRepoPathIDs path = join_with ''/'' (map trimImmutableID (split_on (CHR ''/'') path))"

text \<open>The part of a subject between \<open>repo:\<close> and the next colon, which the functions below
  share: each cuts it out the same way and gives up when it is missing.\<close>

definition subject_repo :: "string \<Rightarrow> string option" where
  "subject_repo subject =
     (if \<not> has_prefix subject ''repo:'' then None
      else case cut_at (CHR '':'') (drop 5 subject) of (path, _, ok) \<Rightarrow> if ok then Some path else None)"

definition idsFromSubject :: "string \<Rightarrow> string \<times> string" where
  "idsFromSubject subject =
     (case subject_repo subject of
        None \<Rightarrow> ([], [])
      | Some path \<Rightarrow>
          (case cut_at (CHR ''/'') path of (owner, _, ok) \<Rightarrow>
           if \<not> ok then ([], [])
           else (snd (splitImmutableID owner), snd (splitImmutableID (fst (snd (cut_last (CHR ''/'') path)))))))"

definition projectFromSubject :: "string \<Rightarrow> string" where
  "projectFromSubject subject =
     (case subject_repo subject of
        None \<Rightarrow> []
      | Some path \<Rightarrow>
          (case cut_last (CHR ''/'') path of (_, repo, ok) \<Rightarrow>
           if \<not> ok then [] else RepoProjectName (trimImmutableID repo)))"

definition repoPathFromSubject :: "string \<Rightarrow> string" where
  "repoPathFromSubject subject =
     (case subject_repo subject of None \<Rightarrow> [] | Some path \<Rightarrow> trimRepoPathIDs path)"

definition orgFromSubject :: "string \<Rightarrow> string" where
  "orgFromSubject subject =
     (case subject_repo subject of
        None \<Rightarrow> []
      | Some path \<Rightarrow>
          (case cut_at (CHR ''/'') path of (owner, _, ok) \<Rightarrow> if \<not> ok then [] else trimImmutableID owner))"

definition matchSubject :: "string \<Rightarrow> string \<Rightarrow> bool" where
  "matchSubject pattern subject =
     (if pattern = ''*'' then True
      else if has_suffix pattern '':*'' then has_prefix subject (butlast pattern)
      else if has_suffix pattern ''*'' then has_prefix subject (butlast pattern)
      else pattern = subject)"

definition orgAllowed :: "string list \<Rightarrow> string \<Rightarrow> string \<Rightarrow> bool" where
  "orgAllowed allowed org ownerID \<longleftrightarrow>
     ''*'' \<in> set allowed \<or>
     list_ex (\<lambda>entry. case splitImmutableID entry of (name, i) \<Rightarrow>
        equal_fold name org \<and> (i = [] \<or> i = ownerID)) allowed"

section \<open>Claims\<close>

record oidc_claims =
  cl_issuer :: string
  cl_subject :: string
  cl_audience :: "string list"
  cl_expires :: "time option"
  cl_not_before :: "time option"
  cl_event_name :: string
  cl_repo_visibility :: string
  cl_repository :: string
  cl_repository_id :: string
  cl_repository_owner :: string
  cl_repository_owner_id :: string
  cl_run_id :: string
  cl_run_attempt :: string
  cl_actor :: string
  cl_ref :: string

definition ownerName :: "oidc_claims \<Rightarrow> string" where
  "ownerName c = (if cl_repository_owner c \<noteq> [] then trimImmutableID (cl_repository_owner c)
                  else orgFromSubject (cl_subject c))"

definition projectName :: "oidc_claims \<Rightarrow> string" where
  "projectName c =
     (case cut_at (CHR ''/'') (cl_repository c) of (_, repo, ok) \<Rightarrow>
      let name = RepoProjectName (trimImmutableID repo) in
      if cl_repository c \<noteq> [] \<and> ok \<and> name \<noteq> [] then name else projectFromSubject (cl_subject c))"

definition repoPath :: "oidc_claims \<Rightarrow> string" where
  "repoPath c =
     (let path = trimRepoPathIDs (cl_repository c) in
      if cl_repository c \<noteq> [] \<and> validRepoPath path then path else repoPathFromSubject (cl_subject c))"

definition repoIDs :: "oidc_claims \<Rightarrow> string \<times> string" where
  "repoIDs c =
     (let ownerID = (if validNumericID (cl_repository_owner_id c) then cl_repository_owner_id c else []);
          repoID = (if validNumericID (cl_repository_id c) then cl_repository_id c else [])
      in if ownerID \<noteq> [] \<and> repoID \<noteq> [] then (ownerID, repoID)
         else case idsFromSubject (cl_subject c) of (subOwner, subRepo) \<Rightarrow>
           (if ownerID = [] then subOwner else ownerID, if repoID = [] then subRepo else repoID))"

section \<open>Verification\<close>

record oidc_verifier =
  trustedIssuers :: "string list"
  allowedOrgs :: "string list"
  allowedEvents :: "string list"

record jwk_key =
  jwk_kid :: string
  jwk_pub :: string

record jwt_header =
  jh_rsa :: bool
  jh_kid :: string

record jwt_library =
  ParseUnverified :: "string \<Rightarrow> oidc_claims option"
  ParseWithClaims :: "time \<Rightarrow> (jwt_header \<Rightarrow> string option) \<Rightarrow> string \<Rightarrow> oidc_claims option"
  getKeys :: "string \<Rightarrow> jwk_key list option"

datatype oidc_error =
    ErrParse
  | ErrNoExpiry
  | ErrExpired
  | ErrNotYetValid
  | ErrAudience
  | ErrOIDCNotMatched
  | ErrFetchKeys
  | ErrVerify
  | ErrOrg string string
  | EventNotAllowedError string
  | ErrNoProject

record verify_result =
  vr_private :: bool
  vr_repo_path :: string
  vr_issuer :: string
  vr_owner_id :: string
  vr_repo_id :: string
  vr_run_id :: string
  vr_run_attempt :: string
  vr_actor :: string
  vr_ref :: string

definition empty_result :: verify_result where
  "empty_result = \<lparr>vr_private = False, vr_repo_path = [], vr_issuer = [], vr_owner_id = [], vr_repo_id = [],
     vr_run_id = [], vr_run_attempt = [], vr_actor = [], vr_ref = []\<rparr>"

definition oidcLeeway :: int where "oidcLeeway = 60 * 1000000000"

definition LooksLikeJWT :: "string \<Rightarrow> bool" where
  "LooksLikeJWT token \<longleftrightarrow> length (split_on (CHR ''.'') token) = 3 \<and> length token > 100"

definition match_policy :: "oidc_claims \<Rightarrow> oidc_policy list \<Rightarrow> oidc_policy option" where
  "match_policy c policies =
     find_first (\<lambda>p. op_issuer p = cl_issuer c \<and> matchSubject (op_subject_pattern p) (cl_subject c)) policies"

text \<open>The key function handed to the library: only RSA, the first key of that id, or the
  first key at all for a token without one.\<close>

definition key_func :: "jwk_key list \<Rightarrow> jwt_header \<Rightarrow> string option" where
  "key_func keys h =
     (if \<not> jh_rsa h then None
      else map_option jwk_pub (find_first (\<lambda>k. jh_kid h = [] \<or> jwk_kid k = jh_kid h) keys))"

definition oidc_token :: "oidc_claims \<Rightarrow> int option \<Rightarrow> string \<Rightarrow> api_token" where
  "oidc_token c pid scopes = \<lparr>t_id = - 1, t_name = ''oidc:'' @ cl_subject c, t_hash = [], t_prefix = [],
     t_project_id = pid, t_scopes = scopes, t_expires_at = None, t_last_used_at = None, t_created_at = 0\<rparr>"

text \<open>What follows the verification of the signature: the policy, or the derived identity. The
  result record is filled in also when the token is refused.\<close>

definition grant_verified :: "oidc_verifier \<Rightarrow> oidc_policy option \<Rightarrow> oidc_claims
    \<Rightarrow> verify_result \<times> (oidc_error + api_token \<times> string)" where
  "grant_verified v matched c =
     (case repoIDs c of (ownerID, repoID) \<Rightarrow>
      let vr = empty_result\<lparr>vr_issuer := cl_issuer c, vr_repo_path := repoPath c, vr_owner_id := ownerID,
                 vr_repo_id := repoID, vr_run_id := cl_run_id c, vr_run_attempt := cl_run_attempt c,
                 vr_ref := cl_ref c\<rparr>
      in case matched of
           Some p \<Rightarrow> (vr, Inr (oidc_token c (op_project_id p) (op_scopes p), []))
         | None \<Rightarrow>
             if \<not> orgAllowed (allowedOrgs v) (ownerName c) ownerID then (vr, Inl (ErrOrg (ownerName c) ownerID))
             else if ''*'' \<notin> set (allowedEvents v) \<and> cl_event_name c \<notin> set (allowedEvents v)
             then (vr, Inl (EventNotAllowedError (cl_event_name c)))
             else if projectName c = [] then (vr, Inl ErrNoProject)
             else (vr\<lparr>vr_private := (cl_repo_visibility c \<noteq> ''public''), vr_actor := cl_actor c\<rparr>,
                   Inr (oidc_token c None ''read,write'', projectName c)))"

definition verifyTokenFull :: "jwt_library \<Rightarrow> oidc_verifier \<Rightarrow> time \<Rightarrow> string \<Rightarrow> oidc_policy list
    \<Rightarrow> verify_result \<times> (oidc_error + api_token \<times> string)" where
  "verifyTokenFull lib v now raw policies =
     (case ParseUnverified lib raw of
        None \<Rightarrow> (empty_result, Inl ErrParse)
      | Some u \<Rightarrow>
          (case cl_expires u of
             None \<Rightarrow> (empty_result, Inl ErrNoExpiry)
           | Some ex \<Rightarrow>
               if now > ex + oidcLeeway then (empty_result, Inl ErrExpired)
               else if (case cl_not_before u of None \<Rightarrow> False | Some nb \<Rightarrow> now < nb - oidcLeeway)
               then (empty_result, Inl ErrNotYetValid)
               else
                 (let matched = match_policy u policies in
                  if (case matched of None \<Rightarrow> False
                      | Some p \<Rightarrow> op_audience p \<noteq> [] \<and> op_audience p \<notin> set (cl_audience u))
                  then (empty_result, Inl ErrAudience)
                  else if matched = None \<and> cl_issuer u \<notin> set (trustedIssuers v)
                  then (empty_result, Inl ErrOIDCNotMatched)
                  else case getKeys lib (cl_issuer u) of
                    None \<Rightarrow> (empty_result, Inl ErrFetchKeys)
                  | Some keys \<Rightarrow>
                      (case ParseWithClaims lib now (key_func keys) raw of
                         None \<Rightarrow> (empty_result, Inl ErrVerify)
                       | Some c \<Rightarrow> grant_verified v matched c))))"

section \<open>The name a repository owns\<close>

text \<open>\<open>repoNamespaceRoot\<close> and \<open>renamedNamespaceName\<close> of \<open>reponame.go\<close>.\<close>

definition repoNamespaceRoot :: "string \<Rightarrow> string" where
  "repoNamespaceRoot path =
     (case cut_last (CHR ''/'') path of (_, repo, ok) \<Rightarrow>
      if \<not> ok \<or> repo = [] then [] else RepoProjectName repo)"

definition renamedNamespaceName :: "string \<Rightarrow> string \<Rightarrow> string" where
  "renamedNamespaceName name root =
     (case cut_at (CHR ''/'') name of (hd_seg, rest, hasChild) \<Rightarrow>
      if hd_seg = root then []
      else if \<not> hasChild \<or> rest = root then root
      else root @ ''/'' @ rest)"

lemma splitImmutableID_cases:
  "splitImmutableID s = (s, []) \<or>
   (\<exists>name i. s = name @ CHR ''@'' # i \<and> name \<noteq> [] \<and> i \<noteq> [] \<and> list_all is_digit i \<and> splitImmutableID s = (name, i))"
proof (cases "cut_last (CHR ''@'') s")
  case (fields name i ok)
  then show ?thesis
    by (cases ok) (auto simp: splitImmutableID_def cut_last_found)
qed

lemma trimImmutableID_set: "set (trimImmutableID s) \<subseteq> set s"
  using splitImmutableID_cases [of s] by (auto simp: trimImmutableID_def)

lemma trimImmutableID_empty [simp]: "trimImmutableID s = [] \<longleftrightarrow> s = []"
  using splitImmutableID_cases [of s] by (auto simp: trimImmutableID_def)

lemma join_with_snoc: "xs \<noteq> [] \<Longrightarrow> join_with sep (xs @ [y]) = join_with sep xs @ sep @ y"
  by (induction xs rule: list_nonempty_induct) (auto simp: join_with_Cons)

lemma trimRepoPathIDs_last:
  assumes "CHR ''/'' \<notin> set repo"
  shows "trimRepoPathIDs (owner @ CHR ''/'' # repo) = trimRepoPathIDs owner @ CHR ''/'' # trimImmutableID repo"
  by (simp add: trimRepoPathIDs_def split_on_append_sep split_on_free assms join_with_snoc)

lemma trimRepoPathIDs_single: "CHR ''/'' \<notin> set s \<Longrightarrow> trimRepoPathIDs s = trimImmutableID s"
  by (simp add: trimRepoPathIDs_def split_on_free)

lemma trimRepoPathIDs_cut_last:
  "cut_last (CHR ''/'') (trimRepoPathIDs path) =
     (case cut_last (CHR ''/'') path of (owner, repo, ok) \<Rightarrow>
      if ok then (trimRepoPathIDs owner, trimImmutableID repo, True) else (trimImmutableID path, [], False))"
proof (cases "CHR ''/'' \<in> set path")
  case True
  then obtain owner repo where path: "path = owner @ CHR ''/'' # repo" "CHR ''/'' \<notin> set repo"
    by (meson split_list_last)
  moreover from path(2) have "CHR ''/'' \<notin> set (trimImmutableID repo)" using trimImmutableID_set by blast
  ultimately show ?thesis by (simp add: trimRepoPathIDs_last)
next
  case False
  moreover from this have "CHR ''/'' \<notin> set (trimImmutableID path)" using trimImmutableID_set by blast
  ultimately show ?thesis by (simp add: trimRepoPathIDs_single)
qed

lemma trimImmutableID_Nil [simp]: "trimImmutableID [] = []"
  by simp

lemma RepoProjectName_valid:
  "RepoProjectName repo \<noteq> [] \<Longrightarrow>
   validOIDCProjectName (RepoProjectName repo) \<and> \<not> ReservedProjectName (RepoProjectName repo)"
  by (auto simp: RepoProjectName_def Let_def split: if_splits)

lemma RepoProjectName_Nil [simp]: "RepoProjectName [] = []"
  by (simp add: RepoProjectName_def to_lower_def trim_left_def validOIDCProjectName_def)

lemma root_of_trimmed:
  "repoNamespaceRoot (trimRepoPathIDs path) =
     (case cut_last (CHR ''/'') path of (_, repo, ok) \<Rightarrow> if ok then RepoProjectName (trimImmutableID repo) else [])"
  by (cases "cut_last (CHR ''/'') path") (auto simp: repoNamespaceRoot_def trimRepoPathIDs_cut_last)

lemma root_of_subject: "repoNamespaceRoot (repoPathFromSubject s) = projectFromSubject s"
proof (cases "subject_repo s")
  case None
  then show ?thesis by (simp add: repoPathFromSubject_def projectFromSubject_def repoNamespaceRoot_def cut_last_def)
next
  case (Some path)
  then show ?thesis
    by (auto simp: repoPathFromSubject_def projectFromSubject_def root_of_trimmed split: prod.split)
qed

lemma validRepoPath_trimmed:
  assumes "validRepoPath (trimRepoPathIDs path)"
  shows "\<exists>owner repo. path = owner @ CHR ''/'' # repo \<and> CHR ''/'' \<notin> set owner \<and> CHR ''/'' \<notin> set repo"
proof -
  obtain o' r' where t: "trimRepoPathIDs path = o' @ CHR ''/'' # r'" "CHR ''/'' \<notin> set o'" "CHR ''/'' \<notin> set r'"
    using assms by (cases "cut_at (CHR ''/'') (trimRepoPathIDs path)")
      (auto simp: validRepoPath_def cut_at_found split: if_splits)
  then have cut: "cut_last (CHR ''/'') (trimRepoPathIDs path) = (o', r', True)" by simp
  then obtain owner repo where p: "path = owner @ CHR ''/'' # repo" "CHR ''/'' \<notin> set repo" "trimRepoPathIDs owner = o'"
    by (cases "cut_last (CHR ''/'') path") (auto simp: trimRepoPathIDs_cut_last cut_last_found split: if_splits)
  have "CHR ''/'' \<notin> set owner"
  proof
    assume "CHR ''/'' \<in> set owner"
    then obtain u v where "owner = u @ CHR ''/'' # v" "CHR ''/'' \<notin> set v" by (meson split_list_last)
    with p(3) t(2) show False by (auto simp: trimRepoPathIDs_last)
  qed
  with p show ?thesis by blast
qed

lemma root_of_repoPath:
  assumes "cl_repository c = [] \<or> validRepoPath (trimRepoPathIDs (cl_repository c))"
  shows "repoNamespaceRoot (repoPath c) = [] \<or> repoNamespaceRoot (repoPath c) = projectName c"
proof (cases "cl_repository c = []")
  case True
  then show ?thesis by (simp add: repoPath_def projectName_def root_of_subject)
next
  case False
  with assms obtain owner repo where r: "cl_repository c = owner @ CHR ''/'' # repo"
    "CHR ''/'' \<notin> set owner" "CHR ''/'' \<notin> set repo" using validRepoPath_trimmed by blast
  with False assms show ?thesis
    by (auto simp: repoPath_def root_of_trimmed projectName_def Let_def)
qed

section \<open>What an accepted token is\<close>

text \<open>What the library documents: the claims are those of the token, and the signature was
  checked with the key the function returned.\<close>

definition jwt_verifies :: "jwt_library \<Rightarrow> (string \<Rightarrow> string \<Rightarrow> bool) \<Rightarrow> bool" where
  "jwt_verifies lib signed \<longleftrightarrow> (\<forall>now kf raw c. ParseWithClaims lib now kf raw = Some c \<longrightarrow>
     ParseUnverified lib raw = Some c \<and> (\<exists>h key. kf h = Some key \<and> signed key raw))"

lemma key_func_key: "key_func keys h = Some key \<Longrightarrow> \<exists>k \<in> set keys. jwk_pub k = key"
  by (auto simp: key_func_def split: if_splits dest: find_first_Some)

lemma grant_verified_ok:
  assumes "grant_verified v matched c = (vr, Inr (t, project))"
  shows "(case matched of
      Some p \<Rightarrow> project = [] \<and> t = oidc_token c (op_project_id p) (op_scopes p)
    | None \<Rightarrow> project \<noteq> [] \<and> project = projectName c \<and> t = oidc_token c None ''read,write''
        \<and> orgAllowed (allowedOrgs v) (ownerName c) (fst (repoIDs c))
        \<and> (''*'' \<in> set (allowedEvents v) \<or> cl_event_name c \<in> set (allowedEvents v)))"
  using assms by (auto simp: grant_verified_def Let_def split: prod.splits option.splits if_splits)

lemma projectName_valid:
  "projectName c \<noteq> [] \<Longrightarrow> validOIDCProjectName (projectName c) \<and> \<not> ReservedProjectName (projectName c)"
  by (auto simp: projectName_def projectFromSubject_def Let_def RepoProjectName_valid
      split: prod.splits option.splits if_splits)

text \<open>C9: a token that is accepted is signed with a key its issuer publishes and is within its
  time, and it either matches a stored policy, the first one for its issuer and subject, whose
  scopes, project and audience then apply, or comes from a trusted issuer for an allowed
  organisation and event and acts for the project named after its repository, a well-formed
  name outside the reserved ones.\<close>

theorem verified_token_justified:
  assumes "jwt_verifies lib signed"
    and "verifyTokenFull lib v now raw policies = (vr, Inr (t, project))"
  shows "\<exists>c keys k ex. ParseUnverified lib raw = Some c \<and> getKeys lib (cl_issuer c) = Some keys
    \<and> k \<in> set keys \<and> signed (jwk_pub k) raw \<and> cl_expires c = Some ex \<and> now \<le> ex + oidcLeeway
    \<and> (case match_policy c policies of
         Some p \<Rightarrow> project = [] \<and> t_scopes t = op_scopes p \<and> t_project_id t = op_project_id p
           \<and> (op_audience p = [] \<or> op_audience p \<in> set (cl_audience c))
       | None \<Rightarrow> cl_issuer c \<in> set (trustedIssuers v) \<and> t_scopes t = ''read,write''
           \<and> orgAllowed (allowedOrgs v) (ownerName c) (fst (repoIDs c))
           \<and> (''*'' \<in> set (allowedEvents v) \<or> cl_event_name c \<in> set (allowedEvents v))
           \<and> project = projectName c \<and> validOIDCProjectName project \<and> \<not> ReservedProjectName project)"
proof -
  from assms(2) obtain u ex keys c where u: "ParseUnverified lib raw = Some u" "cl_expires u = Some ex"
    "now \<le> ex + oidcLeeway" "getKeys lib (cl_issuer u) = Some keys"
    "ParseWithClaims lib now (key_func keys) raw = Some c"
    "grant_verified v (match_policy u policies) c = (vr, Inr (t, project))"
    "\<forall>p. match_policy u policies = Some p \<longrightarrow> op_audience p = [] \<or> op_audience p \<in> set (cl_audience u)"
    "match_policy u policies = None \<longrightarrow> cl_issuer u \<in> set (trustedIssuers v)"
    by (auto simp: verifyTokenFull_def Let_def split: option.splits if_splits)
  from assms(1) u(1,5) obtain h key where "u = c" "key_func keys h = Some key" "signed key raw"
    by (fastforce simp: jwt_verifies_def)
  then obtain k where k: "u = c" "k \<in> set keys" "signed (jwk_pub k) raw" using key_func_key by blast
  show ?thesis
    using u k grant_verified_ok [OF u(6)] projectName_valid [of c]
    by (intro exI [of _ c] exI [of _ keys] exI [of _ k] exI [of _ ex])
      (auto simp: oidc_token_def split: option.splits)
qed

definition demo_claims :: oidc_claims where
  "demo_claims = \<lparr>cl_issuer = ''https://token.actions.githubusercontent.com'',
     cl_subject = ''repo:Acme@42/Web.App@7:ref:refs/heads/master'', cl_audience = [''buildhost''],
     cl_expires = Some 100, cl_not_before = None, cl_event_name = ''push'', cl_repo_visibility = ''public'',
     cl_repository = ''Acme/Web.App'', cl_repository_id = [], cl_repository_owner = ''Acme'',
     cl_repository_owner_id = [], cl_run_id = ''1'', cl_run_attempt = ''1'', cl_actor = ''ada'',
     cl_ref = ''refs/heads/master''\<rparr>"

definition demo_verifier :: oidc_verifier where
  "demo_verifier = \<lparr>trustedIssuers = [''https://token.actions.githubusercontent.com''],
     allowedOrgs = [''acme@42''], allowedEvents = [''push'']\<rparr>"

text \<open>A library that knows one token, signed with the key named \<open>k1\<close>.\<close>

definition demo_lib :: jwt_library where
  "demo_lib = \<lparr>ParseUnverified = (\<lambda>raw. if raw = ''tok'' then Some demo_claims else None),
     ParseWithClaims = (\<lambda>now kf raw. if raw = ''tok'' \<and> kf \<lparr>jh_rsa = True, jh_kid = ''k1''\<rparr> = Some ''pub''
        then Some demo_claims else None),
     getKeys = (\<lambda>iss. Some [\<lparr>jwk_kid = ''k0'', jwk_pub = ''old''\<rparr>, \<lparr>jwk_kid = ''k1'', jwk_pub = ''pub''\<rparr>])\<rparr>"

theorem verified_token_justified_witness:
  "\<exists>vr t. verifyTokenFull demo_lib demo_verifier 50 ''tok'' [] = (vr, Inr (t, ''web.app''))
     \<and> vr_owner_id vr = ''42'' \<and> validOIDCProjectName ''web.app''"
proof -
  have lib: "jwt_verifies demo_lib (\<lambda>key raw. key = ''pub'' \<and> raw = ''tok'')"
    by (auto simp: jwt_verifies_def demo_lib_def split: if_splits)
  obtain vr res where eq: "verifyTokenFull demo_lib demo_verifier 50 ''tok'' [] = (vr, res)" by (metis surj_pair)
  have "(case snd (verifyTokenFull demo_lib demo_verifier 50 ''tok'' []) of Inr x \<Rightarrow> Some (snd x) | Inl _ \<Rightarrow> None)
      = Some ''web.app''" by code_simp
  moreover have "vr_owner_id (fst (verifyTokenFull demo_lib demo_verifier 50 ''tok'' [])) = ''42''" by code_simp
  ultimately obtain t where v: "verifyTokenFull demo_lib demo_verifier 50 ''tok'' [] = (vr, Inr (t, ''web.app''))"
    "vr_owner_id vr = ''42''"
    unfolding eq by (cases res) auto
  from verified_token_justified [OF lib v(1)] have "validOIDCProjectName ''web.app''"
    by (auto simp: match_policy_def find_first_def)
  with v show ?thesis by blast
qed

end
