(* ===== verification/Access.thy ===== *)
theory Access
  imports Oidc Http
begin

text \<open>
  Who may do what: \<open>internal/auth/token.go\<close>, \<open>auth.go\<close>, \<open>route.go\<close>, \<open>reponame.go\<close>,
  \<open>middleware.go\<close> and \<open>unauthorized.go\<close>, with the token lookup of \<open>internal/db/tokens.go\<close>.
  \<open>Authenticate\<close> turns the credential of a request into the values of its context;
  \<open>requireProject\<close> resolves or provisions the project, keeps it in step with the identity of
  the repository, and lets the request through to the handler or answers it. The answers of
  GitHub (who can see a repository, its default branch) are the fields of \<open>gh_env\<close>; tracing
  and logging are left out.
\<close>

section \<open>Credentials in a request\<close>

text \<open>\<open>base64.StdEncoding.DecodeString\<close>: line breaks are skipped, padding is required.\<close>

definition b64_val :: "char \<Rightarrow> nat option" where
  "b64_val c =
     (if is_upper c then Some (of_char c - 65)
      else if is_lower c then Some (of_char c - 71)
      else if is_digit c then Some (of_char c + 4)
      else if c = CHR ''+'' then Some 62 else if c = CHR ''/'' then Some 63 else None)"

fun b64_quads :: "string \<Rightarrow> string option" where
  "b64_quads [] = Some []"
| "b64_quads (a # b # c # d # rest) =
     (case (b64_val a, b64_val b) of
        (Some x, Some y) \<Rightarrow>
          (case b64_val c of
             None \<Rightarrow> if c = CHR ''='' \<and> d = CHR ''='' \<and> rest = [] then Some [char_of (x * 4 + y div 16)] else None
           | Some z \<Rightarrow>
               (case b64_val d of
                  None \<Rightarrow> if d = CHR ''='' \<and> rest = []
                          then Some [char_of (x * 4 + y div 16), char_of (y mod 16 * 16 + z div 4)] else None
                | Some w \<Rightarrow>
                    map_option (\<lambda>r. char_of (x * 4 + y div 16) # char_of (y mod 16 * 16 + z div 4) #
                                    char_of (z mod 4 * 64 + w) # r) (b64_quads rest)))
      | _ \<Rightarrow> None)"
| "b64_quads _ = None"

definition b64_decode :: "string \<Rightarrow> string option" where
  "b64_decode s = b64_quads (filter (\<lambda>c. c \<noteq> CHR 0x0D \<and> c \<noteq> CHR 0x0A) s)"

definition extractBearer :: "request \<Rightarrow> string" where
  "extractBearer r = (let h = header_get r ''Authorization'' in if has_prefix h ''Bearer '' then drop 7 h else [])"

definition extractBasicAuth :: "request \<Rightarrow> string" where
  "extractBasicAuth r =
     (let h = header_get r ''Authorization'' in
      if \<not> has_prefix h ''Basic '' then []
      else case b64_decode (drop 6 h) of
        None \<Rightarrow> []
      | Some decoded \<Rightarrow> (case cut_at (CHR '':'') decoded of (_, password, ok) \<Rightarrow> if ok then password else []))"

definition ExtractToken :: "request \<Rightarrow> string" where
  "ExtractToken r =
     (if extractBearer r \<noteq> [] then extractBearer r
      else if extractBasicAuth r \<noteq> [] then extractBasicAuth r
      else query_get r ''token'')"

definition LookupToken :: "(string \<Rightarrow> string) \<Rightarrow> time \<Rightarrow> string \<Rightarrow> db \<Rightarrow> db \<times> (db_error + api_token)" where
  "LookupToken sha256hex now plaintext d =
     (case find_first (\<lambda>t. t_hash t = sha256hex plaintext) (d_tokens d) of
        None \<Rightarrow> (d, Inl ErrNotFound)
      | Some t \<Rightarrow>
          if IsExpired now t then (d, Inl ErrNotFound)
          else (d\<lparr>d_tokens := map (\<lambda>u. if t_id u = t_id t then u\<lparr>t_last_used_at := Some now\<rparr> else u) (d_tokens d)\<rparr>,
                Inr t))"

definition ListOIDCPolicies :: "db \<Rightarrow> oidc_policy list" where
  "ListOIDCPolicies d = sort_key (\<lambda>p. - op_created_at p) (d_policies d)"

section \<open>The request context\<close>

record repo_identity =
  ri_path :: string
  ri_issuer :: string
  ri_owner_id :: string
  ri_repo_id :: string
  ri_run_id :: string
  ri_run_attempt :: string
  ri_actor :: string
  ri_ref :: string

definition no_repo :: repo_identity where
  "no_repo = \<lparr>ri_path = [], ri_issuer = [], ri_owner_id = [], ri_repo_id = [], ri_run_id = [],
     ri_run_attempt = [], ri_actor = [], ri_ref = []\<rparr>"

record auth_ctx =
  cx_token :: "api_token option"
  cx_project :: "project option"
  cx_oidc_project :: string
  cx_oidc_private :: "bool option"
  cx_oidc_error :: "oidc_error option"
  cx_oidc_repo :: repo_identity
  cx_run_repo :: "repo_identity option"
  cx_user :: "string option"
  cx_github_token :: string
  cx_session_dead :: bool
  cx_read_private :: "bool option"

definition empty_ctx :: auth_ctx where
  "empty_ctx = \<lparr>cx_token = None, cx_project = None, cx_oidc_project = [], cx_oidc_private = None,
     cx_oidc_error = None, cx_oidc_repo = no_repo, cx_run_repo = None, cx_user = None,
     cx_github_token = [], cx_session_dead = False, cx_read_private = None\<rparr>"

definition GitHubActionsIssuer :: string where
  "GitHubActionsIssuer = ''https://token.actions.githubusercontent.com''"

definition UserFrom :: "auth_ctx \<Rightarrow> string option" where
  "UserFrom ctx = (case cx_user ctx of None \<Rightarrow> None | Some s \<Rightarrow> if s = [] then None else Some s)"

definition RunRepoFrom :: "auth_ctx \<Rightarrow> repo_identity option" where
  "RunRepoFrom ctx =
     (if (case cx_token ctx of None \<Rightarrow> False | Some t \<Rightarrow> HasScope t ''write'') \<and> ri_repo_id (cx_oidc_repo ctx) \<noteq> []
      then Some (cx_oidc_repo ctx)
      else case cx_run_repo ctx of None \<Rightarrow> None | Some r \<Rightarrow> if ri_repo_id r = [] then None else Some r)"

definition ReadIsPrivate :: "auth_ctx \<Rightarrow> bool" where
  "ReadIsPrivate ctx =
     (case cx_read_private ctx of Some v \<Rightarrow> v
      | None \<Rightarrow> (case cx_project ctx of Some p \<Rightarrow> p_is_private p | None \<Rightarrow> False))"

definition identity_of :: "verify_result \<Rightarrow> string \<Rightarrow> repo_identity" where
  "identity_of vr actor = \<lparr>ri_path = vr_repo_path vr, ri_issuer = vr_issuer vr, ri_owner_id = vr_owner_id vr,
     ri_repo_id = vr_repo_id vr, ri_run_id = vr_run_id vr, ri_run_attempt = vr_run_attempt vr,
     ri_actor = actor, ri_ref = vr_ref vr\<rparr>"

section \<open>Authentication\<close>

record auth_env =
  ae_lib :: jwt_library
  ae_verifier :: "oidc_verifier option"
  ae_sha256hex :: "string \<Rightarrow> string"
  ae_github :: bool
  ae_session :: "request \<Rightarrow> (string \<times> string) option"

definition with_verified :: "verify_result \<Rightarrow> api_token \<Rightarrow> string \<Rightarrow> auth_ctx" where
  "with_verified vr t oidcProject =
     (let ctx = empty_ctx\<lparr>cx_token := Some t\<rparr> in
      if oidcProject = [] then ctx
      else ctx\<lparr>cx_oidc_project := oidcProject, cx_oidc_private := Some (vr_private vr),
               cx_oidc_repo := identity_of vr (vr_actor vr)\<rparr>)"

definition with_refused :: "verify_result \<Rightarrow> oidc_error \<Rightarrow> auth_ctx" where
  "with_refused vr e =
     (let ctx = empty_ctx\<lparr>cx_oidc_error := Some e\<rparr> in
      case e of EventNotAllowedError _ \<Rightarrow> ctx\<lparr>cx_run_repo := Some (identity_of vr [])\<rparr> | _ \<Rightarrow> ctx)"

definition with_session :: "auth_env \<Rightarrow> request \<Rightarrow> auth_ctx \<Rightarrow> auth_ctx" where
  "with_session env r ctx =
     (if ae_github env then
        (case ae_session env r of
           Some (login, ghToken) \<Rightarrow> ctx\<lparr>cx_user := Some login, cx_github_token := ghToken\<rparr>
         | None \<Rightarrow> ctx)
      else ctx)"

text \<open>The verification of a token that looks like a JWT, when a verifier is configured; the
  stored token otherwise, and also after a failed verification.\<close>

definition Authenticate :: "auth_env \<Rightarrow> time \<Rightarrow> request \<Rightarrow> db \<Rightarrow> db \<times> auth_ctx" where
  "Authenticate env now r d =
     (let raw = ExtractToken r;
          stored = (\<lambda>ctx. case LookupToken (ae_sha256hex env) now raw d of
                       (d', Inr t) \<Rightarrow> (d', with_session env r (ctx\<lparr>cx_token := Some t\<rparr>))
                     | (d', Inl _) \<Rightarrow> (d', with_session env r ctx))
      in if raw = [] then (d, with_session env r empty_ctx)
         else case ae_verifier env of
           None \<Rightarrow> stored empty_ctx
         | Some v \<Rightarrow>
             if LooksLikeJWT raw then
               (case verifyTokenFull (ae_lib env) v now raw (ListOIDCPolicies d) of
                  (vr, Inr (t, oidcProject)) \<Rightarrow> (d, with_verified vr t oidcProject)
                | (vr, Inl e) \<Rightarrow> stored (with_refused vr e))
             else stored empty_ctx)"

end
