(* ===== verification/Ci_Api.thy ===== *)
theory Ci_Api
  imports Ci_Janitors Access
begin

text \<open>
  The endpoints a CI job calls with the token of its run: \<open>internal/api/runlocks.go\<close>,
  \<open>runfiles.go\<close>, \<open>cache.go\<close> and \<open>serveblob.go\<close>. The run, the repository and the ref come from
  the request context, where the authentication middleware put the verified identity. The
  decoded JSON body of a claim is an argument, \<open>None\<close> when it does not decode. The variable of
  a path pattern is \<open>rq_path_id\<close>. What GitHub answers about the default branch, the size limit of
  uploads and the failures of the blob store are arguments; log lines are left out.
\<close>

section \<open>Requests and answers\<close>

text \<open>An answer: a JSON document; a blob with random access handed to \<open>http.ServeContent\<close>; or a
  blob sent whole, with its announced length.\<close>

datatype ci_answer =
    Answer response
  | ServeContent string bytes
  | SendBlob string "bytes option" int

record ci_env =
  ci_hash :: hash
  ci_enc :: "bytes \<Rightarrow> bytes"
  ci_dec :: "bytes \<Rightarrow> bytes option"
  ci_max_upload :: int
  ci_default_branch :: "string \<Rightarrow> string"
  ci_delfail :: "string \<Rightarrow> bool"

type_synonym server = "db \<times> filesystem"

definition json_response :: "int \<Rightarrow> (string \<times> jval) list \<Rightarrow> response" where
  "json_response status body = \<lparr>rs_status = status, rs_body = body\<rparr>"

definition query_all :: "request \<Rightarrow> string \<Rightarrow> string list" where
  "query_all r k = map snd (filter (\<lambda>(a, _). a = k) (rq_query r))"

section \<open>Stored bodies\<close>

definition storeCIBody :: "ci_env \<Rightarrow> stage option \<Rightarrow> request \<Rightarrow> filesystem \<Rightarrow> filesystem \<times> (response + run_blob)" where
  "storeCIBody env fail r fs =
     (let body = limit_body (ci_max_upload env) (rq_body r) in
      case PutUncompressed (ci_hash env) (ci_enc env) fail body fs of
        (fs', Inl _) \<Rightarrow>
          (fs', Inl (if fail \<noteq> Some StCreateTemp \<and> rd_end body = IoTooLarge
                     then json_error 413 ''body exceeds the limit'' else json_error 500 ''failed to store''))
      | (fs', Inr (key, sz)) \<Rightarrow> (fs', Inr \<lparr>rb_storage_key = key, rb_size = sz\<rparr>))"

definition serveCIBlob :: "ci_env \<Rightarrow> stage option \<Rightarrow> request \<Rightarrow> string \<Rightarrow> filesystem \<Rightarrow> ci_answer" where
  "serveCIBlob env fail r storageKey fs =
     (case OpenReaderAt fail storageKey fs of
        Inr (m, sz) \<Rightarrow> ServeContent storageKey m
      | Inl e \<Rightarrow>
          if e \<noteq> ErrRandomUnsupported then Answer (json_error 500 ''failed to open'')
          else case GetBlob (ci_dec env) fail storageKey fs of
            Inl _ \<Rightarrow> Answer (json_error 500 ''failed to open'')
          | Inr (content, sz) \<Rightarrow> SendBlob storageKey (if rq_method r = ''HEAD'' then Some [] else content) sz)"

section \<open>Run locks\<close>

record run_lock_request =
  lr_repository :: string
  lr_run_id :: string
  lr_run_attempt :: string
  lr_name :: string
  lr_value :: string

definition maxRunLockField :: nat where "maxRunLockField = 1024"

definition runLockKey :: "auth_ctx \<Rightarrow> run_lock_request \<Rightarrow> response + run_lock_key" where
  "runLockKey ctx req =
     (case RunRepoFrom ctx of
        None \<Rightarrow> if cx_token ctx = None then Inl (json_error 401 ''authentication required'')
                else Inl (json_error 403 ''a run lock needs a GitHub Actions OIDC token'')
      | Some repo \<Rightarrow>
          if ri_run_id repo = [] \<or> ri_run_attempt repo = []
          then Inl (json_error 403 ''a run lock needs a GitHub Actions OIDC token'')
          else if \<not> equal_fold (lr_repository req) (ri_path repo) \<or> lr_run_id req \<noteq> ri_run_id repo
                  \<or> lr_run_attempt req \<noteq> ri_run_attempt repo
          then Inl (json_error 403 ''the request names another run'')
          else if lr_name req = [] \<or> length (lr_name req) > maxRunLockField
          then Inl (json_error 400 ''name is required and must be at most 1024 bytes'')
          else Inr \<lparr>key_repo_id = ri_repo_id repo, key_run_id = ri_run_id repo,
                    key_run_attempt = ri_run_attempt repo, key_name = lr_name req\<rparr>)"

definition run_lock_response :: "bool \<Rightarrow> string \<Rightarrow> bool \<Rightarrow> response" where
  "run_lock_response found v created =
     json_response 200 [(''found'', JBool found), (''value'', JStr v), (''created'', JBool created)]"

definition handleGetRunLock :: "auth_ctx \<Rightarrow> request \<Rightarrow> db \<Rightarrow> response" where
  "handleGetRunLock ctx r d =
     (case runLockKey ctx \<lparr>lr_repository = query_get r ''repository'', lr_run_id = query_get r ''run_id'',
             lr_run_attempt = query_get r ''run_attempt'', lr_name = query_get r ''name'', lr_value = []\<rparr> of
        Inl resp \<Rightarrow> resp
      | Inr key \<Rightarrow> (case GetRunLock key d of None \<Rightarrow> run_lock_response False [] False
                    | Some v \<Rightarrow> run_lock_response True v False))"

definition handleClaimRunLock :: "time \<Rightarrow> auth_ctx \<Rightarrow> run_lock_request option \<Rightarrow> db \<Rightarrow> db \<times> response" where
  "handleClaimRunLock now ctx body d =
     (case body of
        None \<Rightarrow> (d, json_error 400 ''invalid request body'')
      | Some req \<Rightarrow>
          (case runLockKey ctx req of
             Inl resp \<Rightarrow> (d, resp)
           | Inr key \<Rightarrow>
               if lr_value req = [] \<or> length (lr_value req) > maxRunLockField
               then (d, json_error 400 ''value is required and must be at most 1024 bytes'')
               else (case ClaimRunLock key (lr_value req) now d of
                       (d', Inl _) \<Rightarrow> (d', json_error 500 ''failed to claim run lock'')
                     | (d', Inr (v, created)) \<Rightarrow> (d', run_lock_response True v created))))"

section \<open>Run files\<close>

definition file_char :: "char \<Rightarrow> bool" where
  "file_char c \<longleftrightarrow> is_lower c \<or> is_upper c \<or> is_digit c \<or> c = CHR ''.'' \<or> c = CHR ''_'' \<or> c = CHR ''-''"

definition validRunFileName :: "string \<Rightarrow> bool" where
  "validRunFileName s \<longleftrightarrow> (case s of [] \<Rightarrow> False
     | c # cs \<Rightarrow> (is_lower c \<or> is_upper c \<or> is_digit c) \<and> list_all file_char cs \<and> length cs \<le> 127)"

definition runKey :: "auth_ctx \<Rightarrow> request \<Rightarrow> response + run_key \<times> repo_identity" where
  "runKey ctx r =
     (case RunRepoFrom ctx of
        None \<Rightarrow> if cx_token ctx = None then Inl (json_error 401 ''authentication required'')
                else Inl (json_error 403 ''a run file needs a GitHub Actions OIDC token'')
      | Some repo \<Rightarrow>
          if ri_run_id repo = [] then Inl (json_error 403 ''a run file needs a GitHub Actions OIDC token'')
          else if \<not> equal_fold (query_get r ''repository'') (ri_path repo) \<or> query_get r ''run_id'' \<noteq> ri_run_id repo
          then Inl (json_error 403 ''the request names another run'')
          else Inr (\<lparr>run_repo_id = ri_repo_id repo, run_run_id = ri_run_id repo\<rparr>, repo))"

definition runFileName :: "request \<Rightarrow> response + string" where
  "runFileName r = (if validRunFileName (rq_path_id r) then Inr (rq_path_id r)
                    else Inl (json_error 400 ''invalid run file name''))"

definition file_response :: "string \<Rightarrow> int \<Rightarrow> string \<Rightarrow> (string \<times> jval) list" where
  "file_response name sz sha = [(''name'', JStr name), (''size'', JInt sz), (''sha256'', JStr sha)]"

definition handlePutRunFile :: "ci_env \<Rightarrow> time \<Rightarrow> stage option \<Rightarrow> auth_ctx \<Rightarrow> request \<Rightarrow> server \<Rightarrow> server \<times> response" where
  "handlePutRunFile env now fail ctx r s =
     (case s of (d, fs) \<Rightarrow>
      case runKey ctx r of Inl resp \<Rightarrow> (s, resp)
      | Inr (key, repo) \<Rightarrow>
      case runFileName r of Inl resp \<Rightarrow> (s, resp)
      | Inr name \<Rightarrow>
        let d1 = TouchRun now key (ri_path repo) d in
        case storeCIBody env fail r fs of
          (fs1, Inl resp) \<Rightarrow> ((d1, fs1), resp)
        | (fs1, Inr b) \<Rightarrow>
            (case PutRunFile now key name b d1 of (d2, replaced) \<Rightarrow>
               ((d2, if replaced = [] then fs1 else fst (DeleteBlobIfUnreferenced (ci_delfail env) replaced True d2 fs1)),
                json_response 201 (file_response name (rb_size b) (rb_storage_key b)))))"

definition missingRunFile :: "run_key \<Rightarrow> repo_identity \<Rightarrow> string \<Rightarrow> db \<Rightarrow> string" where
  "missingRunFile key repo name d =
     (let msg = ''run '' @ ri_path repo @ ''#'' @ run_run_id key @ '' holds no file named '' @ name;
          files = ListRunFiles key d
      in if files = [] then msg @ ''; it holds no files''
         else msg @ ''; it holds: '' @ join_with '', '' (map rf_name files))"

definition handleGetRunFile :: "ci_env \<Rightarrow> time \<Rightarrow> stage option \<Rightarrow> auth_ctx \<Rightarrow> request \<Rightarrow> server \<Rightarrow> server \<times> ci_answer" where
  "handleGetRunFile env now fail ctx r s =
     (case s of (d, fs) \<Rightarrow>
      case runKey ctx r of Inl resp \<Rightarrow> (s, Answer resp)
      | Inr (key, repo) \<Rightarrow>
      case runFileName r of Inl resp \<Rightarrow> (s, Answer resp)
      | Inr name \<Rightarrow>
      case GetRunFile key name d of
        None \<Rightarrow> (s, Answer (json_error 404 (missingRunFile key repo name d)))
      | Some b \<Rightarrow>
          (let d1 = TouchRun now key (ri_path repo) d;
               d2 = (if header_get r ''Range'' = [] then MarkRunFileRead now key name d1 else d1)
           in ((d2, fs), serveCIBlob env fail r (rb_storage_key b) fs)))"

definition handleListRunFiles :: "auth_ctx \<Rightarrow> request \<Rightarrow> db \<Rightarrow> response" where
  "handleListRunFiles ctx r d =
     (case runKey ctx r of Inl resp \<Rightarrow> resp
      | Inr (key, _) \<Rightarrow> json_response 200 [(''files'',
          JObjs (map (\<lambda>f. file_response (rf_name f) (rf_size f) (rf_storage_key f)) (ListRunFiles key d)))])"

section \<open>The cache\<close>

definition validCacheKey :: "string \<Rightarrow> bool" where
  "validCacheKey s \<longleftrightarrow> 1 \<le> length s \<and> length s \<le> 512 \<and> list_all file_char s"

definition cacheFallbackBranch :: string where "cacheFallbackBranch = ''master''"

definition cacheCaller :: "auth_ctx \<Rightarrow> request \<Rightarrow> response + repo_identity" where
  "cacheCaller ctx r =
     (case RunRepoFrom ctx of
        None \<Rightarrow> if cx_token ctx = None then Inl (json_error 401 ''authentication required'')
                else Inl (json_error 403 ''the cache needs a GitHub Actions OIDC token'')
      | Some repo \<Rightarrow>
          if ri_ref repo = [] then Inl (json_error 403 ''the cache needs a GitHub Actions OIDC token'')
          else if \<not> equal_fold (query_get r ''repository'') (ri_path repo)
          then Inl (json_error 403 ''the request names another repository'')
          else Inr repo)"

definition cacheScopes :: "ci_env \<Rightarrow> repo_identity \<Rightarrow> cache_scope list \<times> string" where
  "cacheScopes env repo =
     (let own = \<lparr>cs_repo_id = ri_repo_id repo, cs_ref = ri_ref repo\<rparr> in
      if ri_issuer repo \<noteq> GitHubActionsIssuer then ([own], ''not read: the token is not from GitHub Actions'')
      else
        (let answer = ci_default_branch env (ri_path repo);
             branch = (if answer = [] then cacheFallbackBranch else answer);
             note = (if answer = [] then cacheFallbackBranch @ '': GitHub did not answer the repository'' @ [CHR 0x27] @ ''s default branch'' else []);
             ref = ''refs/heads/'' @ branch
         in (if ref \<noteq> ri_ref repo then [own, \<lparr>cs_repo_id = ri_repo_id repo, cs_ref = ref\<rparr>] else [own], note)))"

definition handleFindCache :: "ci_env \<Rightarrow> auth_ctx \<Rightarrow> request \<Rightarrow> db \<Rightarrow> response" where
  "handleFindCache env ctx r d =
     (case cacheCaller ctx r of Inl resp \<Rightarrow> resp
      | Inr repo \<Rightarrow>
        if \<not> validCacheKey (query_get r ''key'') then json_error 400 ''invalid cache key''
        else if \<not> list_all validCacheKey (query_all r ''restore_keys'') then json_error 400 ''invalid restore key''
        else case cacheScopes env repo of (scopes, note) \<Rightarrow>
          (let found = [(''scopes'', JStrs (map cs_ref scopes)), (''default_branch'', JStr note)] in
           case FindCache scopes (query_get r ''key'') (query_all r ''restore_keys'') d of
             None \<Rightarrow> json_response 404 found
           | Some m \<Rightarrow> json_response 200 ([(''key'', JStr (cm_key m)), (''ref'', JStr (cs_ref (cm_scope m))),
               (''size'', JInt (cm_size m)), (''sha256'', JStr (cm_storage_key m)),
               (''exact'', JBool (cm_key m = query_get r ''key''))] @ found)))"

definition handlePutCache :: "ci_env \<Rightarrow> time \<Rightarrow> stage option \<Rightarrow> auth_ctx \<Rightarrow> request \<Rightarrow> server \<Rightarrow> server \<times> response" where
  "handlePutCache env now fail ctx r s =
     (case s of (d, fs) \<Rightarrow>
      case cacheCaller ctx r of Inl resp \<Rightarrow> (s, resp)
      | Inr repo \<Rightarrow>
        let key = rq_path_id r; scope = \<lparr>cs_repo_id = ri_repo_id repo, cs_ref = ri_ref repo\<rparr> in
        if \<not> validCacheKey key then (s, json_error 400 ''invalid cache key'')
        else if GetCache scope key d \<noteq> None then (s, json_error 409 (ri_ref repo @ '' already holds cache key '' @ key))
        else case storeCIBody env fail r fs of
          (fs1, Inl resp) \<Rightarrow> ((d, fs1), resp)
        | (fs1, Inr b) \<Rightarrow>
            (case PutCache now scope key (ri_path repo) b d of
               (d1, inserted) \<Rightarrow>
                 if inserted
                 then ((d1, fs1), json_response 201 [(''key'', JStr key), (''ref'', JStr (ri_ref repo)), (''size'', JInt (rb_size b)),
                        (''sha256'', JStr (rb_storage_key b)), (''exact'', JBool True)])
                 else ((d1, fst (DeleteBlobIfUnreferenced (ci_delfail env) (rb_storage_key b) True d1 fs1)),
                       json_error 409 (ri_ref repo @ '' already holds cache key '' @ key))))"

definition handleGetCache :: "ci_env \<Rightarrow> time \<Rightarrow> stage option \<Rightarrow> auth_ctx \<Rightarrow> request \<Rightarrow> server \<Rightarrow> server \<times> ci_answer" where
  "handleGetCache env now fail ctx r s =
     (case s of (d, fs) \<Rightarrow>
      case cacheCaller ctx r of Inl resp \<Rightarrow> (s, Answer resp)
      | Inr repo \<Rightarrow>
        let key = rq_path_id r; ref = (if query_get r ''ref'' = [] then ri_ref repo else query_get r ''ref'') in
        if \<not> validCacheKey key then (s, Answer (json_error 400 ''invalid cache key''))
        else case filter (\<lambda>c. cs_ref c = ref) (fst (cacheScopes env repo)) of
          [] \<Rightarrow> (s, Answer (json_error 403 ''not a scope of the caller''))
        | c # cs \<Rightarrow>
            let scope = last (c # cs) in
            (case GetCache scope key d of
               None \<Rightarrow> (s, Answer (json_error 404 (ref @ '' holds no cache key '' @ key)))
             | Some m \<Rightarrow>
                 let d1 = (if header_get r ''Range'' = [] then MarkCacheRead now scope key d else d)
                 in ((d1, fs), serveCIBlob env fail r (cm_storage_key m) fs)))"

section \<open>Sequences of requests\<close>

datatype ci_op =
    OpClaim time auth_ctx "run_lock_request option"
  | OpPutFile time "stage option" auth_ctx request
  | OpGetFile time "stage option" auth_ctx request
  | OpPutCache time "stage option" auth_ctx request
  | OpGetCache time "stage option" auth_ctx request

fun ci_step :: "ci_env \<Rightarrow> server \<Rightarrow> ci_op \<Rightarrow> server" where
  "ci_step env s (OpClaim now ctx body) = (fst (handleClaimRunLock now ctx body (fst s)), snd s)"
| "ci_step env s (OpPutFile now fail ctx r) = fst (handlePutRunFile env now fail ctx r s)"
| "ci_step env s (OpGetFile now fail ctx r) = fst (handleGetRunFile env now fail ctx r s)"
| "ci_step env s (OpPutCache now fail ctx r) = fst (handlePutCache env now fail ctx r s)"
| "ci_step env s (OpGetCache now fail ctx r) = fst (handleGetCache env now fail ctx r s)"

text \<open>The bytes an answer delivers, when it delivers a blob.\<close>

fun delivered :: "ci_answer \<Rightarrow> bytes option" where
  "delivered (Answer _) = None"
| "delivered (ServeContent _ m) = Some m"
| "delivered (SendBlob _ content _) = content"

fun delivered_key :: "ci_answer \<Rightarrow> string option" where
  "delivered_key (Answer _) = None"
| "delivered_key (ServeContent k _) = Some k"
| "delivered_key (SendBlob k _ _) = Some k"

section \<open>Blobs under these requests\<close>

definition stored_body :: "ci_env \<Rightarrow> request \<Rightarrow> bytes" where
  "stored_body env r = rd_bytes (limit_body (ci_max_upload env) (rq_body r))"

text \<open>Nothing is asked of a body but that the digest has its length: these handlers store raw, so a body may begin with
  the header of a compressed blob.\<close>

definition digest_fits :: "ci_env \<Rightarrow> request \<Rightarrow> bool" where
  "digest_fits env r \<longleftrightarrow> length (ci_hash env (stored_body env r)) = 32"

fun ci_op_ok :: "ci_env \<Rightarrow> ci_op \<Rightarrow> bool" where
  "ci_op_ok env (OpPutFile now fail ctx r) = digest_fits env r"
| "ci_op_ok env (OpPutCache now fail ctx r) = digest_fits env r"
| "ci_op_ok env _ = True"

definition ci_inv :: "ci_env \<Rightarrow> bool \<Rightarrow> server \<Rightarrow> bool" where
  "ci_inv env z s \<longleftrightarrow> files_inv (ci_hash env) (ci_enc env) (ci_dec env) z UNIV (snd s)"

lemma PutUncompressed_present:
  "PutUncompressed H enc fail r fs = (fs', res) \<Longrightarrow> present fs k \<Longrightarrow> present fs' k"
  by (auto simp: PutUncompressed_eq present_def Exists_def split: prod.splits elim!: Put_cases)
    (auto simp: file_at_def write_file_def update_conv' split: if_splits)

lemma PutUncompressed_stored:
  assumes "PutUncompressed H enc fail r fs = (fs', Inr (key, n))"
  shows "rd_end r = IoEOF" "key = hex_encode (H (rd_bytes r))" "n = int (length (rd_bytes r))"
    "validStorageKey key \<Longrightarrow> present fs' key"
proof -
  obtain raw where put: "Put H enc fail r (fs\<lparr>fs_compress := False\<rparr>) = (raw, Inr (key, n))"
    and fs': "fs' = raw\<lparr>fs_compress := fs_compress fs\<rparr>"
    using assms by (auto simp: PutUncompressed_eq split: prod.splits)
  show "rd_end r = IoEOF" "key = hex_encode (H (rd_bytes r))" "n = int (length (rd_bytes r))"
    using put by (auto simp: Put_def Let_def split: if_splits)
  show "present fs' key" if "validStorageKey key"
    using put that by (cases rule: Put_cases) (auto simp: present_def Exists_def fs' file_at_write)
qed

lemma storeCIBody_present: "storeCIBody env fail r fs = (fs', res) \<Longrightarrow> present fs k \<Longrightarrow> present fs' k"
  by (auto simp: storeCIBody_def Let_def split: prod.splits sum.splits intro: PutUncompressed_present)

lemma storeCIBody_inv:
  "storeCIBody env fail r fs = (fs', res) \<Longrightarrow> files_inv (ci_hash env) (ci_enc env) (ci_dec env) z UNIV fs \<Longrightarrow>
   digest_fits env r \<Longrightarrow> files_inv (ci_hash env) (ci_enc env) (ci_dec env) z UNIV fs'"
  by (auto simp: storeCIBody_def stored_body_def digest_fits_def Let_def split: prod.splits sum.splits intro: PutUncompressed_files)

lemma storeCIBody_stored:
  assumes "storeCIBody env fail r fs = (fs', Inr b)"
  shows "rb_storage_key b = hex_encode (ci_hash env (rd_bytes (rq_body r)))" "stored_body env r = rd_bytes (rq_body r)"
    "validStorageKey (rb_storage_key b) \<Longrightarrow> present fs' (rb_storage_key b)"
proof -
  let ?body = "limit_body (ci_max_upload env) (rq_body r)"
  obtain key n where put: "PutUncompressed (ci_hash env) (ci_enc env) fail ?body fs = (fs', Inr (key, n))"
    and b: "b = \<lparr>rb_storage_key = key, rb_size = n\<rparr>"
    using assms by (auto simp: storeCIBody_def Let_def split: prod.splits sum.splits)
  note stored = PutUncompressed_stored [OF put]
  from stored(1) have "?body = rq_body r" by (auto simp: limit_body_def split: if_splits)
  then show "rb_storage_key b = hex_encode (ci_hash env (rd_bytes (rq_body r)))" "stored_body env r = rd_bytes (rq_body r)"
    "validStorageKey (rb_storage_key b) \<Longrightarrow> present fs' (rb_storage_key b)"
    using stored b by (simp_all add: stored_body_def)
qed

lemma DeleteBlob_cases:
  "fst (DeleteBlobIfUnreferenced delfail key enforce d fs) = fs
   \<or> (\<exists>fail. fst (DeleteBlobIfUnreferenced delfail key enforce d fs) = fst (Delete fail key fs))"
proof -
  obtain fs' res where "Delete (if delfail key then Some StRemove else None) key fs = (fs', res)" by fastforce
  then show ?thesis
    by (cases res) (auto simp: DeleteBlobIfUnreferenced_def intro!: exI [of _ "if delfail key then Some StRemove else None"])
qed

lemma DeleteBlob_inv:
  "files_inv H enc dec z R fs \<Longrightarrow> files_inv H enc dec z R (fst (DeleteBlobIfUnreferenced delfail key enforce d fs))"
  using DeleteBlob_cases [of delfail key enforce d fs] by (auto intro: Delete_files)

interpretation ci: guarded_system "ci_step env" "ci_inv env z" "ci_op_ok env" for env z
proof unfold_locales
  fix op s
  assume ok: "ci_op_ok env op" and inv: "ci_inv env z s"
  obtain d fs where s: "s = (d, fs)" by fastforce
  have fs: "files_inv (ci_hash env) (ci_enc env) (ci_dec env) z UNIV fs" using inv by (simp add: s ci_inv_def)
  show "ci_inv env z (ci_step env s op)"
  proof (cases op)
    case (OpPutFile now fail ctx r)
    then show ?thesis using ok fs
      by (auto simp: s ci_inv_def handlePutRunFile_def Let_def split: sum.split prod.split
          intro!: DeleteBlob_inv dest: storeCIBody_inv)
  next
    case (OpPutCache now fail ctx r)
    then show ?thesis using ok fs
      by (auto simp: s ci_inv_def handlePutCache_def Let_def split: sum.split prod.split
          intro!: DeleteBlob_inv dest: storeCIBody_inv)
  qed (use fs in \<open>auto simp: s ci_inv_def handleGetRunFile_def handleGetCache_def Let_def split: sum.split prod.split option.split list.split\<close>)
qed

section \<open>A file handed from job to job\<close>

text \<open>The run and the name a request about a run file concerns.\<close>

definition file_slot :: "auth_ctx \<Rightarrow> request \<Rightarrow> (run_key \<times> string) option" where
  "file_slot ctx r =
     (case runKey ctx r of Inl _ \<Rightarrow> None
      | Inr (k, _) \<Rightarrow> if validRunFileName (rq_path_id r) then Some (k, rq_path_id r) else None)"

fun writes_slot :: "ci_op \<Rightarrow> (run_key \<times> string) option" where
  "writes_slot (OpPutFile now fail ctx r) = file_slot ctx r"
| "writes_slot _ = None"

definition slot_holds :: "run_key \<times> string \<Rightarrow> string \<Rightarrow> server \<Rightarrow> bool" where
  "slot_holds slot key s \<longleftrightarrow> map_option rb_storage_key (GetRunFile (fst slot) (snd slot) (fst s)) = Some key \<and> present (snd s) key"

lemma GetRunFile_referenced:
  "map_option rb_storage_key (GetRunFile k n d) = Some key \<Longrightarrow> IsBlobReferenced key d"
  by (auto simp: GetRunFile_def IsBlobReferenced_def list_ex_iff dest!: find_first_Some)

lemma run_tables [simp]:
  "d_run_files (TouchRun now k p d) = d_run_files d"
  "d_run_files (fst (PutCache now sc key p b d)) = d_run_files d"
  "d_run_files (MarkCacheRead now sc key d) = d_run_files d"
  "d_cache_entries (TouchRun now k p d) = d_cache_entries d"
  "d_cache_entries (UpsertRunFile now k n b d) = d_cache_entries d"
  "d_cache_entries (MarkRunFileRead now k n d) = d_cache_entries d"
  by (simp_all add: TouchRun_def PutCache_def MarkCacheRead_def UpsertRunFile_def MarkRunFileRead_def)

lemma ClaimRunLock_tables [simp]:
  "d_run_files (fst (ClaimRunLock k v now d)) = d_run_files d" "d_cache_entries (fst (ClaimRunLock k v now d)) = d_cache_entries d"
  by (simp_all add: ClaimRunLock_def InsertRunLock_def DeleteRunLocksBefore_def split: option.split)

lemma handleClaimRunLock_tables [simp]:
  "d_run_files (fst (handleClaimRunLock now ctx body d)) = d_run_files d"
  "d_cache_entries (fst (handleClaimRunLock now ctx body d)) = d_cache_entries d"
proof -
  have "d_run_files d' = d_run_files d \<and> d_cache_entries d' = d_cache_entries d" if "ClaimRunLock k v now d = (d', res)" for k v d' res
    using ClaimRunLock_tables [of k v now d] that by simp
  then show "d_run_files (fst (handleClaimRunLock now ctx body d)) = d_run_files d"
    "d_cache_entries (fst (handleClaimRunLock now ctx body d)) = d_cache_entries d"
    by (auto simp: handleClaimRunLock_def split: option.split sum.split prod.split)
qed

lemma GetRunFile_tables: "d_run_files d' = d_run_files d \<Longrightarrow> GetRunFile k n d' = GetRunFile k n d"
  by (simp add: GetRunFile_def)

lemma GetRunFile_read [simp]: "GetRunFile k n (MarkRunFileRead now k' n' d) = GetRunFile k n d"
proof -
  let ?f = "\<lambda>f. if file_of k' f \<and> rf_name f = n' then f\<lparr>rf_reads := rf_reads f + 1, rf_read_at := Some (sqliteDatetime now)\<rparr> else f"
  have "find_first (\<lambda>f. file_of k f \<and> rf_name f = n) (map ?f (d_run_files d))
    = map_option ?f (find_first (\<lambda>f. file_of k f \<and> rf_name f = n) (d_run_files d))"
    unfolding find_first_map by (intro arg_cong [of _ _ "map_option _"] find_first_cong) (auto simp: file_of_def)
  then show ?thesis by (auto simp: GetRunFile_def MarkRunFileRead_def option.map_comp intro!: map_option_cong)
qed

lemma GetRunFile_upsert:
  "GetRunFile k n (UpsertRunFile now k' n' b d) = (if k = k' \<and> n = n' then Some b else GetRunFile k n d)"
proof -
  let ?at = "\<lambda>k n f. fkey f = k \<and> rf_name f = n"
  let ?u = "\<lambda>f. if ?at k' n' f
       then f\<lparr>rf_storage_key := rb_storage_key b, rf_size := rb_size b, rf_created_at := sqliteDatetime now\<rparr> else f"
  have upd: "find_first (?at k n) (map ?u xs) = map_option ?u (find_first (?at k n) xs)" for xs
    unfolding find_first_map by (intro arg_cong [of _ _ "map_option _"] find_first_cong) (auto simp: fkey_def)
  show ?thesis
  proof (cases "find_first (?at k' n') (d_run_files d)")
    case None
    then have "\<not> list_ex (?at k' n') (d_run_files d)" by (auto simp: find_first_None list_ex_iff)
    with None show ?thesis
      by (auto simp: UpsertRunFile_def GetRunFile_def run_keys find_first_append fkey_def split: option.split)
  next
    case (Some g)
    then have "list_ex (?at k' n') (d_run_files d)" by (auto simp: list_ex_iff dest: find_first_Some)
    then have eq: "GetRunFile k n (UpsertRunFile now k' n' b d) =
        map_option (\<lambda>f. \<lparr>rb_storage_key = rf_storage_key f, rb_size = rf_size f\<rparr>) (map_option ?u (find_first (?at k n) (d_run_files d)))"
      by (simp add: UpsertRunFile_def GetRunFile_def run_keys upd)
    show ?thesis
    proof (cases "k = k' \<and> n = n'")
      case True
      then show ?thesis unfolding eq using Some find_first_Some [OF Some] by simp
    next
      case False
      have "?u f = f" if "find_first (?at k n) (d_run_files d) = Some f" for f
        using find_first_Some [OF that] False by auto
      then show ?thesis unfolding eq if_not_P [OF False]
        by (cases "find_first (?at k n) (d_run_files d)") (simp_all add: GetRunFile_def run_keys)
    qed
  qed
qed

lemma put_file_state:
  assumes "runKey ctx r = Inr (k, repo)" "validRunFileName (rq_path_id r)" "storeCIBody env fail r fs = (fs1, Inr b)"
  shows "\<exists>gone. fst (handlePutRunFile env now fail ctx r (d, fs)) =
    (UpsertRunFile now k (rq_path_id r) b (TouchRun now k (ri_path repo) d),
     if gone = [] then fs1 else fst (DeleteBlobIfUnreferenced (ci_delfail env) gone True
       (UpsertRunFile now k (rq_path_id r) b (TouchRun now k (ri_path repo) d)) fs1))"
  using assms by (auto simp: handlePutRunFile_def runFileName_def PutRunFile_def Let_def)

lemma slot_put_file:
  assumes "slot_holds slot key s" "file_slot ctx r \<noteq> Some slot"
  shows "slot_holds slot key (fst (handlePutRunFile env now fail ctx r s))"
proof -
  obtain d fs where s: "s = (d, fs)" by fastforce
  show ?thesis
  proof (cases "file_slot ctx r")
    case None
    then have "fst (handlePutRunFile env now fail ctx r s) = s"
      by (auto simp: file_slot_def handlePutRunFile_def runFileName_def s split: sum.splits if_splits)
    then show ?thesis using assms(1) by simp
  next
    case (Some w)
    then obtain k repo where run: "runKey ctx r = Inr (k, repo)" "validRunFileName (rq_path_id r)" "w = (k, rq_path_id r)"
      by (auto simp: file_slot_def split: sum.splits prod.splits if_splits)
    obtain fs1 res where st: "storeCIBody env fail r fs = (fs1, res)" by fastforce
    let ?d1 = "TouchRun now k (ri_path repo) d"
    have here: "map_option rb_storage_key (GetRunFile (fst slot) (snd slot) d) = Some key" "present fs1 key"
      using assms(1) storeCIBody_present [OF st] by (simp_all add: slot_holds_def s)
    have ne: "\<not> (fst slot = k \<and> snd slot = rq_path_id r)" using assms(2) Some run(3) by (cases slot) auto
    have get: "map_option rb_storage_key (GetRunFile (fst slot) (snd slot) (UpsertRunFile now k (rq_path_id r) b ?d1)) = Some key" for b
      using here(1) unfolding GetRunFile_upsert if_not_P [OF ne] by (simp add: GetRunFile_tables [of ?d1 d])
    then have ref: "IsBlobReferenced key (UpsertRunFile now k (rq_path_id r) b ?d1)" for b by (rule GetRunFile_referenced)
    show ?thesis
    proof (cases res)
      case (Inl e)
      then show ?thesis using here by (simp add: slot_holds_def handlePutRunFile_def runFileName_def s run st GetRunFile_tables [of ?d1 d])
    next
      case (Inr b)
      from put_file_state [OF run(1,2) st [unfolded Inr], of now d] obtain gone where
        "fst (handlePutRunFile env now fail ctx r s) = (UpsertRunFile now k (rq_path_id r) b ?d1,
           if gone = [] then fs1 else fst (DeleteBlobIfUnreferenced (ci_delfail env) gone True (UpsertRunFile now k (rq_path_id r) b ?d1) fs1))"
        unfolding s by blast
      then show ?thesis using here(2) get ref by (simp add: slot_holds_def DeleteBlob_present)
    qed
  qed
qed

lemma slot_other:
  assumes "slot_holds slot key s"
  shows "slot_holds slot key (fst (handleGetRunFile env now fail ctx r s))"
    "slot_holds slot key (fst (handlePutCache env now fail ctx r s))"
    "slot_holds slot key (fst (handleGetCache env now fail ctx r s))"
    "slot_holds slot key (ci_step env s (OpClaim now ctx body))"
proof -
  obtain d fs where s: "s = (d, fs)" by fastforce
  have here: "map_option rb_storage_key (GetRunFile (fst slot) (snd slot) d) = Some key" "present fs key"
    using assms by (simp_all add: slot_holds_def s)
  show "slot_holds slot key (fst (handleGetRunFile env now fail ctx r s))"
    using here by (auto simp: slot_holds_def s handleGetRunFile_def Let_def GetRunFile_tables [of "TouchRun _ _ _ _" d] split: sum.split option.split)
  show "slot_holds slot key (fst (handleGetCache env now fail ctx r s))"
    using here by (auto simp: slot_holds_def s handleGetCache_def Let_def GetRunFile_tables [of "MarkCacheRead _ _ _ _" d] split: sum.split option.split list.split)
  show "slot_holds slot key (ci_step env s (OpClaim now ctx body))"
    using here by (simp add: slot_holds_def s GetRunFile_tables [of "fst (handleClaimRunLock _ _ _ _)" d])
  obtain fs1 res where st: "storeCIBody env fail r fs = (fs1, res)" by fastforce
  have fs1: "present fs1 key" using here(2) storeCIBody_present [OF st] by simp
  have put: "map_option rb_storage_key (GetRunFile (fst slot) (snd slot) (fst (PutCache now sc ck p b d))) = Some key" for sc ck p b
    using here(1) by (simp add: GetRunFile_tables [of "fst (PutCache _ _ _ _ _ _)" d])
  then have ref: "IsBlobReferenced key (fst (PutCache now sc ck p b d))" for sc ck p b by (rule GetRunFile_referenced)
  show "slot_holds slot key (fst (handlePutCache env now fail ctx r s))"
  proof (cases res)
    case (Inl e)
    then show ?thesis using here fs1 by (auto simp: slot_holds_def s handlePutCache_def Let_def st split: sum.split)
  next
    case (Inr b)
    show ?thesis
    proof (cases "cacheCaller ctx r")
      case (Inl e)
      then show ?thesis using here by (simp add: slot_holds_def s handlePutCache_def)
    next
      case repo: (Inr repo)
      let ?sc = "\<lparr>cs_repo_id = ri_repo_id repo, cs_ref = ri_ref repo\<rparr>"
      obtain d1 ins where pc: "PutCache now ?sc (rq_path_id r) (ri_path repo) b d = (d1, ins)" by fastforce
      have "map_option rb_storage_key (GetRunFile (fst slot) (snd slot) d1) = Some key" "IsBlobReferenced key d1"
        using put [of ?sc "rq_path_id r" "ri_path repo" b] ref [of ?sc "rq_path_id r" "ri_path repo" b] pc by simp_all
      then show ?thesis using here fs1 pc
        by (simp add: slot_holds_def s handlePutCache_def repo Let_def st Inr DeleteBlob_present)
    qed
  qed
qed

interpretation handoff: guarded_system "ci_step env" "\<lambda>s. ci_inv env z s \<and> slot_holds slot key s"
    "\<lambda>op. ci_op_ok env op \<and> writes_slot op \<noteq> Some slot" for env z slot key
proof unfold_locales
  fix op s
  assume ok: "ci_op_ok env op \<and> writes_slot op \<noteq> Some slot" and inv: "ci_inv env z s \<and> slot_holds slot key s"
  have "slot_holds slot key (ci_step env s op)"
    using ok inv slot_other slot_put_file by (cases op) auto
  then show "ci_inv env z (ci_step env s op) \<and> slot_holds slot key (ci_step env s op)"
    using ok inv ci.guarded_inv by blast
qed

lemma runKey_status: "runKey ctx r = Inl resp \<Longrightarrow> rs_status resp \<noteq> 201"
  by (auto simp: runKey_def json_error_def split: option.splits if_splits)

text \<open>Serving a present blob delivers the one content that has its key, unless that content is stored raw and begins with the header of
  a compressed blob.\<close>

lemma serve_present:
  assumes "files_inv (ci_hash env) (ci_enc env) (ci_dec env) z UNIV fs" "present fs key" "key = hex_encode (ci_hash env body)"
    "\<forall>c. ci_hash env c = ci_hash env body \<longrightarrow> c = body" "rq_method r \<noteq> ''HEAD''"
  shows "delivered (serveCIBlob env None r key fs) = Some body
    \<or> is_compressed body \<and> delivered (serveCIBlob env None r key fs) = ci_dec env (drop 12 body)"
proof -
  have valid: "validStorageKey key" and "file_at fs key \<noteq> None" using assms(2) by (auto simp: present_def Exists_def split: if_splits)
  then obtain m where m: "file_at fs key = Some m" by blast
  then have op: "open_blob None key fs = Inr m" using valid by simp
  from files_inv_open [OF assms(1) this] assms(3,4)
  have "m = wrap_compressed (ci_enc env) body \<and> body_ok (ci_hash env) (ci_enc env) (ci_dec env) True body \<or> m = body"
    by (auto simp: hex_encode_inj)
  then consider "stored_as (ci_dec env) m body" | "m = body" "is_compressed body"
    by (cases "is_compressed body") (auto simp: stored_as_wrapped stored_as_plain)
  then show ?thesis
  proof cases
    case 1
    with m valid assms(5) show ?thesis
      by (auto simp: serveCIBlob_def OpenReaderAt_def GetBlob_def stored_as_def is_compressed_def)
  next
    case 2
    moreover from 2(2) have "body \<noteq> []" by (auto simp: is_compressed_def)
    ultimately show ?thesis using m valid assms(5) by (auto simp: serveCIBlob_def OpenReaderAt_def GetBlob_def)
  qed
qed

text \<open>C26: a file a job of a run hands over reaches the later jobs of the run as it was sent: after a
  successful put, and whatever other requests the server handles (claims, run files of other
  runs or names, cache saves and restores, with failures of the store), a job of the same run
  that asks for the name is served exactly the bytes that were put. The one exception is a file that begins with the header the store
  gives to compressed blobs: it may be served as the decoding of what follows the header. The other requests may store such files too.\<close>

theorem run_file_handoff:
  assumes "ci_inv env z s" and "digest_fits env r"
    and "\<forall>c. ci_hash env c = ci_hash env (rd_bytes (rq_body r)) \<longrightarrow> c = rd_bytes (rq_body r)"
    and "handlePutRunFile env now fail ctx r s = (s1, resp)" and "rs_status resp = 201"
    and "\<forall>op \<in> set ops. ci_op_ok env op \<and> writes_slot op \<noteq> file_slot ctx r"
    and "file_slot ctx' r' = file_slot ctx r" and "rq_method r' \<noteq> ''HEAD''"
    and "got = delivered (snd (handleGetRunFile env now' None ctx' r' (foldl (ci_step env) s1 ops)))"
  shows "got = Some (rd_bytes (rq_body r))
    \<or> is_compressed (rd_bytes (rq_body r)) \<and> got = ci_dec env (drop 12 (rd_bytes (rq_body r)))"
proof -
  let ?key = "hex_encode (ci_hash env (rd_bytes (rq_body r)))"
  obtain d fs where s: "s = (d, fs)" by fastforce
  obtain k repo fs1 b where run: "runKey ctx r = Inr (k, repo)" "validRunFileName (rq_path_id r)"
    and st: "storeCIBody env fail r fs = (fs1, Inr b)"
    using assms(4,5) runKey_status [of ctx r]
    by (auto simp: s handlePutRunFile_def runFileName_def storeCIBody_def Let_def json_error_def split: sum.splits prod.splits if_splits)
  note stored = storeCIBody_stored [OF st]
  have valid: "validStorageKey ?key" using assms(2) stored(2) by (simp add: digest_fits_def hex_encode_valid)
  let ?d2 = "UpsertRunFile now k (rq_path_id r) b (TouchRun now k (ri_path repo) d)"
  have "GetRunFile k (rq_path_id r) ?d2 = Some b" by (simp add: GetRunFile_upsert)
  then have row: "map_option rb_storage_key (GetRunFile k (rq_path_id r) ?d2) = Some ?key" using stored(1) by simp
  obtain gone where "s1 = (?d2, if gone = [] then fs1 else fst (DeleteBlobIfUnreferenced (ci_delfail env) gone True ?d2 fs1))"
    using put_file_state [OF run st, of now d] assms(4) by (auto simp: s)
  then have "slot_holds (k, rq_path_id r) ?key s1"
    using row stored(1,3) valid GetRunFile_referenced [OF row] by (simp add: slot_holds_def DeleteBlob_present)
  moreover have "ci_inv env z s1" using ci.guarded_inv [of env "OpPutFile now fail ctx r" z s] assms(1,2,4) by simp
  moreover have slot: "file_slot ctx r = Some (k, rq_path_id r)" using run by (simp add: file_slot_def)
  ultimately have "ci_inv env z (foldl (ci_step env) s1 ops) \<and> slot_holds (k, rq_path_id r) ?key (foldl (ci_step env) s1 ops)"
    using assms(6) by (intro handoff.guarded_run) auto
  moreover obtain d3 fs3 where s3: "foldl (ci_step env) s1 ops = (d3, fs3)" by fastforce
  ultimately have inv: "files_inv (ci_hash env) (ci_enc env) (ci_dec env) z UNIV fs3" and here: "present fs3 ?key"
    and row: "map_option rb_storage_key (GetRunFile k (rq_path_id r) d3) = Some ?key" by (simp_all add: ci_inv_def slot_holds_def)
  obtain repo' where run': "runKey ctx' r' = Inr (k, repo')" "validRunFileName (rq_path_id r')" "rq_path_id r' = rq_path_id r"
    using assms(7) slot by (auto simp: file_slot_def split: sum.splits prod.splits if_splits)
  have "snd (handleGetRunFile env now' None ctx' r' (d3, fs3)) = serveCIBlob env None r' ?key fs3"
    using row run' by (auto simp: handleGetRunFile_def runFileName_def Let_def)
  then show ?thesis unfolding assms(9) s3 using serve_present [OF inv here refl assms(3,8)] by simp
qed

section \<open>Where a restored cache entry comes from\<close>

text \<open>A save request stands behind an entry when its caller is the repository and ref of the entry and
  the entry's blob is its body.\<close>

definition saved_by :: "ci_env \<Rightarrow> cache_entry \<Rightarrow> ci_op \<Rightarrow> bool" where
  "saved_by env e op \<longleftrightarrow> (case op of
      OpPutCache now fail ctx r \<Rightarrow>
        (case cacheCaller ctx r of Inl _ \<Rightarrow> False
         | Inr repo \<Rightarrow> ri_repo_id repo = ce_repo_id e \<and> ri_ref repo = ce_ref e \<and> rq_path_id r = ce_key e
             \<and> ce_storage_key e = hex_encode (ci_hash env (rd_bytes (rq_body r))))
    | _ \<Rightarrow> False)"

text \<open>What of an entry never changes while it is there.\<close>

abbreviation entry_core :: "cache_entry \<Rightarrow> string \<times> string \<times> string \<times> string" where
  "entry_core e \<equiv> (ce_repo_id e, ce_ref e, ce_key e, ce_storage_key e)"

lemma saved_by_core: "entry_core e = entry_core e' \<Longrightarrow> saved_by env e op = saved_by env e' op"
  by (simp add: saved_by_def split: ci_op.split sum.split)

lemma MarkCacheRead_core [simp]: "map entry_core (d_cache_entries (MarkCacheRead now sc key d)) = map entry_core (d_cache_entries d)"
  by (simp add: MarkCacheRead_def)

text \<open>A request leaves the entries as they are, or is a save that appends one of its own.\<close>

lemma ci_step_entries:
  "map entry_core (d_cache_entries (fst (ci_step env (d, fs) op))) = map entry_core (d_cache_entries d)
   \<or> (\<exists>e. saved_by env e op \<and> map entry_core (d_cache_entries (fst (ci_step env (d, fs) op))) = map entry_core (d_cache_entries d) @ [entry_core e]
        \<and> cid e \<notin> cid ` set (d_cache_entries d))"
proof (cases op)
  case (OpPutCache now fail ctx r)
  show ?thesis
  proof (cases "\<exists>repo fs1 b. cacheCaller ctx r = Inr repo \<and> storeCIBody env fail r fs = (fs1, Inr b)")
    case False
    then show ?thesis
      by (auto simp: OpPutCache handlePutCache_def Let_def split: sum.splits prod.splits if_splits)
  next
    case True
    then obtain repo fs1 b where c: "cacheCaller ctx r = Inr repo" and st: "storeCIBody env fail r fs = (fs1, Inr b)" by blast
    let ?sc = "\<lparr>cs_repo_id = ri_repo_id repo, cs_ref = ri_ref repo\<rparr>"
    show ?thesis
    proof (cases "validCacheKey (rq_path_id r) \<and> GetCache ?sc (rq_path_id r) d = None")
      case False
      then show ?thesis by (auto simp: OpPutCache handlePutCache_def Let_def c)
    next
      case new: True
      let ?e = "\<lparr>ce_repo_id = ri_repo_id repo, ce_ref = ri_ref repo, ce_key = rq_path_id r, ce_repo_path = ri_path repo,
        ce_storage_key = rb_storage_key b, ce_size = rb_size b, ce_created_at = sqliteDatetime now,
        ce_used_at = sqliteDatetime now, ce_reads = 0\<rparr>"
      have none: "\<not> list_ex (\<lambda>e. in_scope ?sc e \<and> ce_key e = rq_path_id r) (d_cache_entries d)"
        using new by (auto simp: GetCache_def GetCacheEntry_def find_first_None list_ex_iff)
      then have "PutCache now ?sc (rq_path_id r) (ri_path repo) b d = (d\<lparr>d_cache_entries := d_cache_entries d @ [?e]\<rparr>, True)"
        by (simp add: PutCache_def)
      then have "fst (ci_step env (d, fs) op) = d\<lparr>d_cache_entries := d_cache_entries d @ [?e]\<rparr>"
        using new by (simp add: OpPutCache handlePutCache_def Let_def c st)
      moreover have "saved_by env ?e op" using storeCIBody_stored(1) [OF st] by (simp add: saved_by_def OpPutCache c)
      moreover have "cid ?e \<notin> cid ` set (d_cache_entries d)" using none by (auto simp: list_ex_iff in_scope_def)
      ultimately show ?thesis by (intro disjI2 exI [of _ ?e]) simp
    qed
  qed
next
  case (OpPutFile now fail ctx r)
  then show ?thesis by (auto simp: handlePutRunFile_def PutRunFile_def Let_def split: sum.splits prod.splits)
next
  case (OpGetFile now fail ctx r)
  then show ?thesis by (auto simp: handleGetRunFile_def Let_def split: sum.splits prod.splits option.splits)
next
  case (OpGetCache now fail ctx r)
  then show ?thesis using MarkCacheRead_core by (auto simp: handleGetCache_def Let_def split: sum.splits prod.splits option.splits list.splits)
qed simp

lemma entries_saved:
  assumes "e \<in> set (d_cache_entries (fst (foldl (ci_step env) (d, fs) ops)))" "d_cache_entries d = []"
  shows "\<exists>op \<in> set ops. saved_by env e op"
  using assms(1)
proof (induction ops arbitrary: e rule: rev_induct)
  case Nil
  then show ?case using assms(2) by simp
next
  case (snoc op ops)
  obtain d1 fs1 where s1: "foldl (ci_step env) (d, fs) ops = (d1, fs1)" by fastforce
  have "e \<in> set (d_cache_entries (fst (ci_step env (d1, fs1) op)))" using snoc.prems by (simp add: s1)
  then have "entry_core e \<in> set (map entry_core (d_cache_entries (fst (ci_step env (d1, fs1) op))))" unfolding set_map by (rule imageI)
  with ci_step_entries [of env d1 fs1 op] have "entry_core e \<in> entry_core ` set (d_cache_entries d1)
    \<or> (\<exists>e'. saved_by env e' op \<and> entry_core e = entry_core e')" unfolding set_map [symmetric] by (elim disjE exE conjE) auto
  then show ?case
  proof
    assume "entry_core e \<in> entry_core ` set (d_cache_entries d1)"
    then obtain e' where e': "entry_core e = entry_core e'" "e' \<in> set (d_cache_entries d1)" by (rule imageE)
    with snoc.IH [of e'] obtain op' where "op' \<in> set ops" "saved_by env e' op'" by (auto simp: s1)
    with saved_by_core [OF e'(1)] show ?thesis by auto
  next
    assume "\<exists>e'. saved_by env e' op \<and> entry_core e = entry_core e'"
    then obtain e' where e': "saved_by env e' op" "entry_core e = entry_core e'" by blast
    with saved_by_core [OF e'(2)] show ?thesis by auto
  qed
qed

lemma serveCIBlob_key: "delivered_key (serveCIBlob env fail r key fs) = Some k \<Longrightarrow> k = key"
  by (auto simp: serveCIBlob_def split: sum.splits if_splits prod.splits)

lemma cacheScopes_refs:
  "sc \<in> set (fst (cacheScopes env repo)) \<Longrightarrow> cs_repo_id sc = ri_repo_id repo
     \<and> (cs_ref sc = ri_ref repo \<or> cs_ref sc = ''refs/heads/'' @ (if ci_default_branch env (ri_path repo) = [] then cacheFallbackBranch
          else ci_default_branch env (ri_path repo)))"
  by (auto simp: cacheScopes_def Let_def split: if_splits)

text \<open>C27: A restore never delivers what another branch or another repository saved: the blob it is
  served was, in this server's history, the body of a save under the same key whose caller was
  verified as the same repository, on the caller's own ref or on the default branch.\<close>

theorem cache_restore_authentic:
  assumes "d_cache_entries d = []"
    and "delivered_key (snd (handleGetCache env now fail ctx r (foldl (ci_step env) (d, fs) ops))) = Some sha"
  shows "\<exists>repo now' fail' ctx' r' repo'. cacheCaller ctx r = Inr repo \<and> OpPutCache now' fail' ctx' r' \<in> set ops
    \<and> cacheCaller ctx' r' = Inr repo' \<and> ri_repo_id repo' = ri_repo_id repo \<and> rq_path_id r' = rq_path_id r
    \<and> (ri_ref repo' = ri_ref repo \<or> ri_ref repo' = ''refs/heads/'' @ (if ci_default_branch env (ri_path repo) = []
          then cacheFallbackBranch else ci_default_branch env (ri_path repo)))
    \<and> sha = hex_encode (ci_hash env (rd_bytes (rq_body r')))"
proof -
  obtain d1 fs1 where s1: "foldl (ci_step env) (d, fs) ops = (d1, fs1)" by fastforce
  obtain repo where c: "cacheCaller ctx r = Inr repo"
    using assms(2) by (cases "cacheCaller ctx r") (simp_all add: s1 handleGetCache_def)
  let ?ref = "if query_get r ''ref'' = [] then ri_ref repo else query_get r ''ref''"
  obtain sc m where sc: "sc \<in> set (fst (cacheScopes env repo))" and m: "GetCache sc (rq_path_id r) d1 = Some m"
    and sha: "sha = cm_storage_key m"
  proof (cases "filter (\<lambda>c. cs_ref c = ?ref) (fst (cacheScopes env repo))")
    case Nil
    then show ?thesis using assms(2) by (auto simp: s1 handleGetCache_def c Let_def split: if_splits)
  next
    case (Cons a l)
    let ?sc = "last (a # l)"
    have "?sc \<in> set (filter (\<lambda>c. cs_ref c = ?ref) (fst (cacheScopes env repo)))" unfolding Cons by (rule last_in_set) simp
    then have mem: "?sc \<in> set (fst (cacheScopes env repo))" by simp
    have ok: "validCacheKey (rq_path_id r)" using assms(2) by (auto simp: s1 handleGetCache_def c Let_def split: if_splits)
    have ans: "snd (handleGetCache env now fail ctx r (d1, fs1)) = (case GetCache ?sc (rq_path_id r) d1 of
        None \<Rightarrow> Answer (json_error 404 (?ref @ '' holds no cache key '' @ rq_path_id r))
      | Some m \<Rightarrow> serveCIBlob env fail r (cm_storage_key m) fs1)"
      using Cons ok by (simp add: handleGetCache_def c Let_def split: option.split)
    show ?thesis
    proof (cases "GetCache ?sc (rq_path_id r) d1")
      case None
      then show ?thesis using assms(2) ans by (simp add: s1)
    next
      case (Some m)
      then show ?thesis using assms(2) ans serveCIBlob_key [of env fail r "cm_storage_key m" fs1 sha] mem that by (simp add: s1)
    qed
  qed
  from m obtain e where e: "e \<in> set (d_cache_entries d1)" "in_scope sc e" "ce_key e = rq_path_id r" "m = match_of sc e"
    by (auto simp: GetCache_def GetCacheEntry_def dest: find_first_Some)
  have "e \<in> set (d_cache_entries (fst (foldl (ci_step env) (d, fs) ops)))" using e(1) by (simp add: s1)
  from entries_saved [OF this assms(1)] obtain op where op: "op \<in> set ops" "saved_by env e op" by blast
  then obtain now' fail' ctx' r' repo' where "op = OpPutCache now' fail' ctx' r'" "cacheCaller ctx' r' = Inr repo'"
    "ri_repo_id repo' = ce_repo_id e" "ri_ref repo' = ce_ref e" "rq_path_id r' = ce_key e"
    "ce_storage_key e = hex_encode (ci_hash env (rd_bytes (rq_body r')))"
    by (auto simp: saved_by_def split: ci_op.splits sum.splits)
  with op(1) c sha e cacheScopes_refs [OF sc] show ?thesis
    by (intro exI [of _ repo] exI [of _ now'] exI [of _ fail'] exI [of _ ctx'] exI [of _ r'] exI [of _ repo'])
      (simp add: match_of_def in_scope_def)
qed

section \<open>Concrete instances\<close>

definition demo_ci :: ci_env where
  "demo_ci = \<lparr>ci_hash = (\<lambda>c. take 32 (c @ replicate 32 0)), ci_enc = demo_enc, ci_dec = demo_dec, ci_max_upload = 1000,
     ci_default_branch = (\<lambda>_. ''main''), ci_delfail = (\<lambda>_. False)\<rparr>"

definition demo_job :: "string \<Rightarrow> auth_ctx" where
  "demo_job ref = empty_ctx\<lparr>cx_run_repo := Some (no_repo\<lparr>ri_path := ''org/app'', ri_issuer := GitHubActionsIssuer, ri_repo_id := ''7'',
     ri_run_id := ''5'', ri_run_attempt := ''1'', ri_ref := ref\<rparr>)\<rparr>"

definition demo_call :: "string \<Rightarrow> bytes \<Rightarrow> request" where
  "demo_call name body = \<lparr>rq_method = ''GET'', rq_path = [], rq_query = [(''repository'', ''org/app''), (''run_id'', ''5'')], rq_headers = [],
     rq_path_id = name, rq_token = None, rq_content_length = 0, rq_has_body = True, rq_body = demo_reader body\<rparr>"

definition empty_fs :: filesystem where
  "empty_fs = \<lparr>fs_compress = True, fs_blobs = []\<rparr>"

definition handoff_ci :: ci_env where
  "handoff_ci = demo_ci\<lparr>ci_hash := demo_hash [1, 2, 3]\<rparr>"

lemma handoff_body: "digest_fits handoff_ci r"
  by (simp add: digest_fits_def handoff_ci_def demo_hash_def)

theorem run_file_handoff_witness:
  "delivered (snd (handleGetRunFile handoff_ci 9 None (demo_job ''refs/heads/dev'') (demo_call ''out'' [])
     (foldl (ci_step handoff_ci) (fst (handlePutRunFile handoff_ci 1 None (demo_job ''refs/heads/dev'') (demo_call ''out'' [1, 2, 3]) (empty_db, empty_fs)))
        [OpPutFile 2 None (demo_job ''refs/heads/dev'') (demo_call ''log'' (compressedMagic @ replicate 8 0)),
         OpPutCache 3 None (demo_job ''refs/heads/dev'') (demo_call ''k'' [1, 2, 3])])))
   = Some [1, 2, 3]"
proof -
  let ?job = "demo_job ''refs/heads/dev''" and ?put = "demo_call ''out'' [1, 2, 3]" and ?get = "demo_call ''out'' []"
  let ?ops = "[OpPutFile 2 None ?job (demo_call ''log'' (compressedMagic @ replicate 8 0)), OpPutCache 3 None ?job (demo_call ''k'' [1, 2, 3])]"
  obtain s1 resp where put: "handlePutRunFile handoff_ci 1 None ?job ?put (empty_db, empty_fs) = (s1, resp)" by fastforce
  have "rs_status (snd (handlePutRunFile handoff_ci 1 None ?job ?put (empty_db, empty_fs))) = 201" by code_simp
  then have status: "rs_status resp = 201" by (simp add: put)
  have inv: "ci_inv handoff_ci True (empty_db, empty_fs)" by (simp add: ci_inv_def files_inv_def empty_fs_def file_at_def)
  have coll: "\<forall>c. ci_hash handoff_ci c = ci_hash handoff_ci (rd_bytes (rq_body ?put)) \<longrightarrow> c = rd_bytes (rq_body ?put)"
    by (simp add: handoff_ci_def demo_hash_def demo_call_def)
  have "\<forall>op \<in> set ?ops. writes_slot op \<noteq> file_slot ?job ?put" by code_simp
  moreover have "\<forall>op \<in> set ?ops. ci_op_ok handoff_ci op" by (simp add: handoff_body)
  ultimately have ops: "\<forall>op \<in> set ?ops. ci_op_ok handoff_ci op \<and> writes_slot op \<noteq> file_slot ?job ?put" by blast
  have get: "file_slot ?job ?get = file_slot ?job ?put" "rq_method ?get \<noteq> ''HEAD''" by code_simp+
  have body: "rd_bytes (rq_body ?put) = [1, 2, 3]" "\<not> is_compressed [1, 2, 3]" by (simp_all add: demo_call_def is_compressed_def)
  from run_file_handoff [OF inv handoff_body coll put status ops get refl, of 9] body show ?thesis unfolding put fst_conv by simp
qed

theorem cache_restore_authentic_witness:
  "\<exists>sha. delivered_key (snd (handleGetCache demo_ci 9 None (demo_job ''refs/heads/dev'') ((demo_call ''k'' [])\<lparr>rq_query := [(''repository'', ''org/app''), (''ref'', ''refs/heads/main'')]\<rparr>)
       (foldl (ci_step demo_ci) (empty_db, empty_fs) [OpPutCache 1 None (demo_job ''refs/heads/main'') (demo_call ''k'' [1, 2])]))) = Some sha
     \<and> sha = hex_encode (ci_hash demo_ci [1, 2])"
proof -
  let ?ops = "[OpPutCache 1 None (demo_job ''refs/heads/main'') (demo_call ''k'' [1, 2])]"
  let ?r = "(demo_call ''k'' [])\<lparr>rq_query := [(''repository'', ''org/app''), (''ref'', ''refs/heads/main'')]\<rparr>"
  have "delivered_key (snd (handleGetCache demo_ci 9 None (demo_job ''refs/heads/dev'') ?r (foldl (ci_step demo_ci) (empty_db, empty_fs) ?ops)))
     = Some (hex_encode (ci_hash demo_ci [1, 2]))" by code_simp
  moreover have "d_cache_entries empty_db = []" by code_simp
  ultimately show ?thesis using cache_restore_authentic [of empty_db demo_ci 9 None "demo_job ''refs/heads/dev''" ?r empty_fs ?ops] by blast
qed

end
