(* ===== verification/Project_Gate.thy ===== *)
theory Project_Gate
  imports Access
begin

text \<open>
  The gate in front of every project route: \<open>reconcileRepoNamespace\<close> of
  \<open>internal/auth/reponame.go\<close> and \<open>requireProject\<close> of \<open>internal/auth/middleware.go\<close>, with
  the answers of \<open>unauthorized.go\<close>. \<open>requireProject\<close> is modelled as the function from the
  request's context and the database to either the response it writes itself or the context
  it hands to the route's handler.
\<close>

section \<open>Projects follow their repository\<close>

definition follow_repo :: "time \<Rightarrow> string \<Rightarrow> project \<Rightarrow> db \<Rightarrow> db" where
  "follow_repo now root p d =
     (let newName = renamedNamespaceName (p_name p) root in
      if newName = [] then d
      else if \<not> NameAvailableTo newName (p_id p) d then d
      else fst (RenameProject now (p_id p) (p_name p) newName d))"

definition reconcileRepoNamespace :: "time \<Rightarrow> repo_identity \<Rightarrow> db \<Rightarrow> db" where
  "reconcileRepoNamespace now repo d =
     (if ri_repo_id repo = [] \<or> ri_path repo = [] then d
      else
        (let root = repoNamespaceRoot (ri_path repo) in
         if root = [] then d
         else fold (follow_repo now root) (ProjectsForRepoID (ri_repo_id repo) d) d))"

section \<open>Routes and answers\<close>

datatype AccessLevel = ReadAccess | WriteAccess | HiddenReadAccess

text \<open>What a route says about itself: the project name of the path, the access, and the two
  optional interfaces (\<open>BuildVisibilityRoute\<close>, \<open>PublicReadAuthorizer\<close>).\<close>

record route_info =
  rt_project :: string
  rt_access :: AccessLevel
  rt_build_visibility :: "(db \<Rightarrow> project \<Rightarrow> Visibility) option"
  rt_public_read :: "(db \<Rightarrow> project \<Rightarrow> bool) option"

text \<open>GitHub sign-in: whether it is configured, what GitHub answers for a session (allowed,
  session token dead), for a login on a repository, the default branch of a repository, and
  the sign-in address of the request (empty when there is none).\<close>

record gh_env =
  gh_enabled :: bool
  gh_session_access :: "string \<Rightarrow> string \<Rightarrow> string \<Rightarrow> bool \<times> bool"
  gh_permission :: "string \<Rightarrow> string \<Rightarrow> bool \<times> string"
  gh_branch :: "string \<Rightarrow> string"
  gh_login_url :: "request \<Rightarrow> string"

text \<open>The text of a refusal; the library's own part of the message is left out. \<open>quoted\<close> is the
  verb \<open>%q\<close> on printable text.\<close>

definition quoted :: "string \<Rightarrow> string" where
  "quoted s = [CHR 0x22] @ s @ [CHR 0x22]"

fun oidc_error_text :: "oidc_error \<Rightarrow> string" where
  "oidc_error_text ErrParse = ''parse token''"
| "oidc_error_text ErrNoExpiry = ''token missing exp claim''"
| "oidc_error_text ErrExpired = ''token expired''"
| "oidc_error_text ErrNotYetValid = ''token not yet valid''"
| "oidc_error_text ErrAudience = ''token audience does not match policy''"
| "oidc_error_text ErrOIDCNotMatched = ''no matching OIDC policy''"
| "oidc_error_text ErrFetchKeys = ''fetch JWKS''"
| "oidc_error_text ErrVerify = ''verify token''"
| "oidc_error_text (ErrOrg org ownerID) =
     (if ownerID = [] then ''org '' @ quoted org @ '' not in allowed list''
      else ''org '' @ quoted org @ '' (owner id '' @ ownerID @ '') not in allowed list'')"
| "oidc_error_text (EventNotAllowedError ev) = ''event '' @ quoted ev @ '' not in allowed list''"
| "oidc_error_text ErrNoProject = ''cannot derive project name from OIDC subject''"

definition projectNotFound :: response where
  "projectNotFound = json_error 404 ''project not found''"

definition prefersHTML :: "request \<Rightarrow> bool" where
  "prefersHTML r = contains_str (header_get r ''Accept'') ''text/html''"

definition unauthorizedResponse :: "gh_env \<Rightarrow> request \<Rightarrow> auth_ctx \<Rightarrow> response" where
  "unauthorizedResponse gh r ctx =
     (let msg = ''authentication required'' @
            (case cx_oidc_error ctx of None \<Rightarrow> [] | Some e \<Rightarrow> '': OIDC token rejected: '' @ oidc_error_text e);
          plain = json_error 401 msg;
          redirect = (if gh_login_url gh r \<noteq> [] then \<lparr>rs_status = 303, rs_body = [(''location'', JStr (gh_login_url gh r))]\<rparr>
                      else plain)
      in if has_prefix (rq_path r) ''/v2/''
         then \<lparr>rs_status = 401, rs_body = [(''code'', JStr ''UNAUTHORIZED''), (''message'', JStr msg)]\<rparr>
         else if \<not> (prefersHTML r \<and> gh_enabled gh) then plain
         else case UserFrom ctx of
           None \<Rightarrow> if cx_token ctx = None then redirect else plain
         | Some login \<Rightarrow>
             if cx_session_dead ctx then redirect
             else \<lparr>rs_status = 403, rs_body = [(''login'', JStr login)]\<rparr>)"

section \<open>Read checks\<close>

definition oidcAuthorizesProject :: "string \<Rightarrow> string \<Rightarrow> bool" where
  "oidcAuthorizesProject oidcProject requested \<longleftrightarrow>
     oidcProject \<noteq> [] \<and> (requested = oidcProject \<or> has_prefix requested (oidcProject @ ''/''))"

definition validNamespacedProjectName :: "string \<Rightarrow> bool" where
  "validNamespacedProjectName name \<longleftrightarrow>
     \<not> (name = [] \<or> ReservedProjectName name) \<and> list_all validOIDCProjectName (split_on (CHR ''/'') name)"

definition canAccessRepo :: "gh_env \<Rightarrow> string \<Rightarrow> string \<Rightarrow> string \<Rightarrow> bool \<times> bool" where
  "canAccessRepo gh login token ownerRepo =
     (if login = [] \<or> token = [] \<or> \<not> validRepoPath ownerRepo then (False, False)
      else gh_session_access gh login token ownerRepo)"

definition userCanReadProject :: "gh_env \<Rightarrow> auth_ctx \<Rightarrow> project \<Rightarrow> bool \<times> bool" where
  "userCanReadProject gh ctx p =
     (if \<not> gh_enabled gh \<or> p_github_repo p = [] then (False, False)
      else case UserFrom ctx of
        None \<Rightarrow> (False, False)
      | Some login \<Rightarrow> canAccessRepo gh login (cx_github_token ctx) (p_github_repo p))"

definition gitHubUserReadsRepo :: "gh_env \<Rightarrow> string \<Rightarrow> string \<Rightarrow> bool \<times> string" where
  "gitHubUserReadsRepo gh login ownerRepo =
     (if login = [] then (False, ''the token names no GitHub actor'')
      else if \<not> validGitHubSegment login then (False, ''GitHub actor '' @ quoted login @ '' is not a user login'')
      else if \<not> validRepoPath ownerRepo then (False, ''the project records no GitHub repo'')
      else gh_permission gh login ownerRepo)"

definition oidcActorReads :: "gh_env \<Rightarrow> auth_ctx \<Rightarrow> project \<Rightarrow> bool \<times> string" where
  "oidcActorReads gh ctx p =
     (if ri_issuer (cx_oidc_repo ctx) \<noteq> GitHubActionsIssuer
      then (False, ''only a GitHub Actions token reads outside its own repo'')
      else gitHubUserReadsRepo gh (ri_actor (cx_oidc_repo ctx)) (p_github_repo p))"

definition tokenReadsProjectWhy :: "gh_env \<Rightarrow> auth_ctx \<Rightarrow> api_token \<Rightarrow> project \<Rightarrow> bool \<times> string" where
  "tokenReadsProjectWhy gh ctx t p =
     (if \<not> AuthorizedForProject t (p_id p) then (False, [])
      else if cx_oidc_project ctx = [] \<or> oidcAuthorizesProject (cx_oidc_project ctx) (p_name p) then (True, [])
      else oidcActorReads gh ctx p)"

definition tokenReadsProject :: "gh_env \<Rightarrow> auth_ctx \<Rightarrow> api_token \<Rightarrow> project \<Rightarrow> bool" where
  "tokenReadsProject gh ctx t p = fst (tokenReadsProjectWhy gh ctx t p)"

definition TokenCanReadProject :: "gh_env \<Rightarrow> auth_ctx \<Rightarrow> project \<Rightarrow> bool" where
  "TokenCanReadProject gh ctx p =
     (if \<not> p_is_private p then True
      else case cx_token ctx of
        None \<Rightarrow> False
      | Some t \<Rightarrow> HasScope t ''read'' \<and> tokenReadsProject gh ctx t p)"

definition GitHubDefaultBranch :: "gh_env \<Rightarrow> string \<Rightarrow> string" where
  "GitHubDefaultBranch gh path = (if \<not> validRepoPath path then [] else gh_branch gh path)"

section \<open>The gate\<close>

text \<open>The project the name stands for. A write by an identity whose namespace the name is in
  creates a missing project.\<close>

definition provisioned :: "string \<Rightarrow> bool \<Rightarrow> repo_identity \<Rightarrow> project" where
  "provisioned name priv repo = (new_project 0 name priv)
     \<lparr>p_versioning := VersioningAuto, p_default_branch := [], p_github_repo := ri_path repo,
      p_github_owner_id := ri_owner_id repo, p_github_repo_id := ri_repo_id repo\<rparr>"

definition find_or_provision :: "time \<Rightarrow> gh_env \<Rightarrow> request \<Rightarrow> route_info \<Rightarrow> auth_ctx \<Rightarrow> db \<Rightarrow> db \<times> (response + project)" where
  "find_or_provision now gh r ri ctx d =
     (case ResolveProject (rt_project ri) d of
        Inr (p, _) \<Rightarrow> (d, Inr p)
      | Inl _ \<Rightarrow>
          if rt_access ri \<noteq> WriteAccess \<or> cx_token ctx = None \<or> cx_oidc_project ctx = []
             \<or> \<not> oidcAuthorizesProject (cx_oidc_project ctx) (rt_project ri)
             \<or> \<not> validNamespacedProjectName (rt_project ri)
          then (d, Inl (if rt_access ri = WriteAccess \<and> cx_token ctx = None
                        then unauthorizedResponse gh r ctx else projectNotFound))
          else
            (case CreateProject now
                    (provisioned (rt_project ri) (case cx_oidc_private ctx of None \<Rightarrow> False | Some b \<Rightarrow> b) (cx_oidc_repo ctx)) d of
               (d', Inr p) \<Rightarrow> (d', Inr p)
             | (d', Inl (ErrConflict _)) \<Rightarrow>
                 (case GetProject (rt_project ri) d' of
                    Inr p \<Rightarrow> (d', Inr p)
                  | Inl _ \<Rightarrow> (d', Inl (json_error 500 ''internal error'')))
             | (d', Inl _) \<Rightarrow> (d', Inl (json_error 500 ''internal error''))))"

text \<open>The visibility the token reports for its repository; an error is logged and ignored.\<close>

definition sync_visibility :: "time \<Rightarrow> auth_ctx \<Rightarrow> project \<Rightarrow> db \<Rightarrow> db \<times> project" where
  "sync_visibility now ctx p d =
     (case cx_oidc_private ctx of
        None \<Rightarrow> (d, p)
      | Some priv \<Rightarrow>
          (case SyncAutoPrivate now p priv d of
             (d', Inr p') \<Rightarrow> (d', p')
           | (d', Inl _) \<Rightarrow> (d', p)))"

definition mismatch_message :: "repo_identity \<Rightarrow> project \<Rightarrow> string" where
  "mismatch_message repo p =
     ''OIDC repo identity mismatch: token for '' @ ri_path repo @ '' carries GitHub ids owner='' @ ri_owner_id repo @
     '' repo='' @ ri_repo_id repo @ '', but project '' @ quoted (p_name p) @ '' is pinned to owner='' @
     p_github_owner_id p @ '' repo='' @ p_github_repo_id p @
     ''; a renamed or re-created (resurrected) repository may not take over an existing project -- if this project should belong to the new repo, an operator must clear or re-pin its recorded GitHub identity''"

text \<open>The numeric identity of the repository: checked against the one the project is pinned to,
  re-pinned when only the owner changed, pinned on the first write.\<close>

definition pin_identity :: "time \<Rightarrow> AccessLevel \<Rightarrow> repo_identity \<Rightarrow> project \<Rightarrow> db \<Rightarrow> db \<times> (response + project)" where
  "pin_identity now access repo p d =
     (if ri_owner_id repo = [] \<or> ri_repo_id repo = [] then (d, Inr p)
      else if p_github_owner_id p \<noteq> [] \<or> p_github_repo_id p \<noteq> [] then
        (if p_github_repo_id p \<noteq> ri_repo_id repo
         then (d, Inl (if access = HiddenReadAccess then projectNotFound
                       else json_error 403 (mismatch_message repo p)))
         else if p_github_owner_id p \<noteq> ri_owner_id repo \<and> access = WriteAccess
         then (SetProjectGitHubIDs now (p_id p) (ri_owner_id repo) (ri_repo_id repo) d,
               Inr (p\<lparr>p_github_owner_id := ri_owner_id repo\<rparr>))
         else (d, Inr p))
      else if access = WriteAccess
      then (SetProjectGitHubIDs now (p_id p) (ri_owner_id repo) (ri_repo_id repo) d,
            Inr (p\<lparr>p_github_owner_id := ri_owner_id repo, p_github_repo_id := ri_repo_id repo\<rparr>))
      else (d, Inr p))"

definition sync_repo_path :: "time \<Rightarrow> repo_identity \<Rightarrow> project \<Rightarrow> db \<Rightarrow> db \<times> project" where
  "sync_repo_path now repo p d =
     (if p_github_repo p \<noteq> ri_path repo
      then (SetProjectGitHubRepo now (p_id p) (ri_path repo) d, p\<lparr>p_github_repo := ri_path repo\<rparr>)
      else (d, p))"

definition sync_branch :: "time \<Rightarrow> gh_env \<Rightarrow> repo_identity \<Rightarrow> project \<Rightarrow> db \<Rightarrow> db \<times> project" where
  "sync_branch now gh repo p d =
     (let branch = GitHubDefaultBranch gh (ri_path repo) in
      if ri_issuer repo = GitHubActionsIssuer \<and> branch \<noteq> [] \<and> branch \<noteq> p_default_branch p
      then (SetProjectDefaultBranch now (p_id p) branch d, p\<lparr>p_default_branch := branch\<rparr>)
      else (d, p))"

definition sync_identity :: "time \<Rightarrow> gh_env \<Rightarrow> AccessLevel \<Rightarrow> auth_ctx \<Rightarrow> project \<Rightarrow> db \<Rightarrow> db \<times> (response + project)" where
  "sync_identity now gh access ctx p d =
     (if cx_token ctx = None \<or> cx_oidc_project ctx = [] \<or> \<not> oidcAuthorizesProject (cx_oidc_project ctx) (p_name p)
      then (d, Inr p)
      else
        (case sync_visibility now ctx p d of (d1, p1) \<Rightarrow>
         let repo = cx_oidc_repo ctx in
         if ri_path repo = [] then (d1, Inr p1)
         else case pin_identity now access repo p1 d1 of
           (d2, Inl resp) \<Rightarrow> (d2, Inl resp)
         | (d2, Inr p2) \<Rightarrow>
             (case sync_repo_path now repo p2 d2 of (d3, p3) \<Rightarrow>
              case sync_branch now gh repo p3 d3 of (d4, p4) \<Rightarrow> (d4, Inr p4))))"

definition read_private :: "route_info \<Rightarrow> project \<Rightarrow> db \<Rightarrow> bool" where
  "read_private ri p d =
     (if rt_access ri = WriteAccess then p_is_private p
      else case rt_build_visibility ri of
        None \<Rightarrow> p_is_private p
      | Some bv \<Rightarrow> Apply (bv d p) (p_is_private p))"

definition authorize :: "gh_env \<Rightarrow> request \<Rightarrow> route_info \<Rightarrow> auth_ctx \<Rightarrow> project \<Rightarrow> db \<Rightarrow> response + auth_ctx" where
  "authorize gh r ri ctx0 p d =
     (let readPrivate = read_private ri p d;
          ctx1 = ctx0\<lparr>cx_project := Some p\<rparr>;
          ctx = (if rt_access ri = WriteAccess then ctx1 else ctx1\<lparr>cx_read_private := Some readPrivate\<rparr>)
      in case rt_access ri of
           WriteAccess \<Rightarrow>
             (case cx_token ctx of
                None \<Rightarrow> Inl (unauthorizedResponse gh r ctx)
              | Some t \<Rightarrow>
                  if \<not> HasScope t ''write'' then Inl (unauthorizedResponse gh r ctx)
                  else if \<not> AuthorizedForProject t (p_id p)
                     \<or> (cx_oidc_project ctx \<noteq> [] \<and> \<not> oidcAuthorizesProject (cx_oidc_project ctx) (p_name p))
                  then Inl (json_error 403 ''token not authorized for this project'')
                  else Inr ctx)
         | ReadAccess \<Rightarrow>
             if \<not> readPrivate then Inr ctx
             else if (case rt_public_read ri of None \<Rightarrow> False | Some allows \<Rightarrow> allows d p) then Inr ctx
             else
               (case userCanReadProject gh ctx p of (userOK, sessionDead) \<Rightarrow>
                if userOK then Inr ctx
                else case cx_token ctx of
                  None \<Rightarrow> Inl (unauthorizedResponse gh r (if sessionDead then ctx\<lparr>cx_session_dead := True\<rparr> else ctx))
                | Some t \<Rightarrow>
                    if \<not> HasScope t ''read''
                    then Inl (unauthorizedResponse gh r (if sessionDead then ctx\<lparr>cx_session_dead := True\<rparr> else ctx))
                    else (case tokenReadsProjectWhy gh ctx t p of (ok, reason) \<Rightarrow>
                          if ok then Inr ctx
                          else Inl (json_error 403 (''token not authorized for this project'' @
                                 (if reason = [] then [] else '': '' @ reason)))))
         | HiddenReadAccess \<Rightarrow>
             if \<not> readPrivate then Inr ctx
             else if fst (userCanReadProject gh ctx p) \<or>
                  (case cx_token ctx of None \<Rightarrow> False
                   | Some t \<Rightarrow> HasScope t ''read'' \<and> tokenReadsProject gh ctx t p)
             then Inr ctx
             else Inl projectNotFound)"

definition requireProject :: "time \<Rightarrow> gh_env \<Rightarrow> request \<Rightarrow> route_info \<Rightarrow> auth_ctx \<Rightarrow> db \<Rightarrow> db \<times> (response + auth_ctx)" where
  "requireProject now gh r ri ctx d =
     (if rt_project ri = [] then (d, Inl \<lparr>rs_status = 404, rs_body = []\<rparr>)
      else
        (let d0 = (if rt_access ri = WriteAccess \<and> cx_token ctx \<noteq> None
                   then reconcileRepoNamespace now (cx_oidc_repo ctx) d else d)
         in case find_or_provision now gh r ri ctx d0 of
              (d1, Inl resp) \<Rightarrow> (d1, Inl resp)
            | (d1, Inr p) \<Rightarrow>
                (case sync_identity now gh (rt_access ri) ctx p d1 of
                   (d2, Inl resp) \<Rightarrow> (d2, Inl resp)
                 | (d2, Inr p') \<Rightarrow> (d2, authorize gh r ri ctx p' d2))))"

section \<open>What keeping in step may change\<close>

text \<open>A project without the fields that follow its repository.\<close>

definition settled :: "project \<Rightarrow> project" where
  "settled p = p\<lparr>p_is_private := False, p_github_repo := [], p_default_branch := [], p_updated_at := 0\<rparr>"

definition synced :: "db \<Rightarrow> db \<Rightarrow> bool" where
  "synced d d' \<longleftrightarrow> d' = d\<lparr>d_projects := d_projects d', d_project_vis := d_project_vis d'\<rparr>
     \<and> map settled (d_projects d') = map settled (d_projects d)"

lemma synced_iff:
  "synced d d' \<longleftrightarrow> (\<exists>ps vs. d' = d\<lparr>d_projects := ps, d_project_vis := vs\<rparr>)
     \<and> map settled (d_projects d') = map settled (d_projects d)"
  unfolding synced_def by (intro conj_cong refl iffI) (blast, elim exE, simp)

lemma synced_refl [simp]: "synced d d"
  by (simp add: synced_def)

lemma synced_trans: "synced d d' \<Longrightarrow> synced d' d'' \<Longrightarrow> synced d d''"
  unfolding synced_iff by (elim conjE exE) (simp, blast)

lemma synced_update_project:
  assumes "\<And>p. settled (f p) = settled p"
  shows "synced d (update_project now i f d)"
proof -
  have "settled ((f p)\<lparr>p_updated_at := now\<rparr>) = settled p" for p
    using assms [of p] by (simp add: settled_def)
  then show ?thesis by (simp add: synced_def update_project_def)
qed

definition syncs :: "'a db_op \<Rightarrow> bool" where
  "syncs m \<longleftrightarrow> (\<forall>d. synced d (fst (m d)))"

lemma syncs_bind: "syncs m \<Longrightarrow> (\<And>x. syncs (k x)) \<Longrightarrow> syncs (bind_db m k)"
  unfolding syncs_def bind_db_def
  by (auto split: prod.splits sum.splits) (metis fst_conv synced_trans)+

lemma syncs_Upsert: "syncs (exec (UpsertProjectVisibilityRow i m a))"
  by (auto simp: syncs_def exec_def UpsertProjectVisibilityRow_def synced_def split: sum.splits)

lemma synced_Apply: "synced d (ApplyProjectPrivate now a i d)"
  by (auto simp: synced_def ApplyProjectPrivate_def settled_def)

lemma syncs_row: "syncs (projectVisibilityRow p)"
proof -
  have "syncs (bind_db (exec (UpsertProjectVisibilityRow (p_id p) VisibilityAuto (p_is_private p))) (\<lambda>_. ret_db row))" for row :: project_visibility
    by (intro syncs_bind syncs_Upsert) (simp add: syncs_def ret_db_def)
  then show ?thesis
    by (auto simp: syncs_def projectVisibilityRow_def Let_def split: option.splits)
qed

lemma syncs_apply: "syncs (applyProjectVisibility now p)"
  unfolding applyProjectVisibility_def ProjectVisibility_def
  by (intro syncs_bind syncs_row) (simp_all add: syncs_def synced_Apply)

lemma syncs_SyncAutoPrivate: "syncs (SyncAutoPrivate now p a)"
  unfolding SyncAutoPrivate_def
  by (intro syncs_bind syncs_row) (auto intro: syncs_bind syncs_Upsert syncs_apply)

lemma apply_returns:
  "applyProjectVisibility now p d = (d', Inr p') \<Longrightarrow> \<exists>b. p' = p\<lparr>p_is_private := b\<rparr>"
  by (auto simp: applyProjectVisibility_def bind_db_Inr)

lemma SyncAutoPrivate_returns:
  "SyncAutoPrivate now p a d = (d', Inr p') \<Longrightarrow> \<exists>b. p' = p\<lparr>p_is_private := b\<rparr>"
  by (auto simp: SyncAutoPrivate_def bind_db_Inr split: if_splits dest!: apply_returns)

lemma sync_visibility_frame:
  assumes "sync_visibility now ctx p d = (d', p')"
  shows "synced d d'" "settled p' = settled p"
proof -
  have "synced d (fst (SyncAutoPrivate now p a d))" for a
    using syncs_SyncAutoPrivate by (auto simp: syncs_def)
  with assms show "synced d d'"
    by (auto simp: sync_visibility_def split: option.splits prod.splits sum.splits) (metis fst_conv)+
  from assms show "settled p' = settled p"
    by (auto simp: sync_visibility_def settled_def split: option.splits prod.splits sum.splits
        dest!: SyncAutoPrivate_returns)
qed

lemma settled_fields:
  assumes "settled p' = settled p"
  shows "p_id p' = p_id p" "p_name p' = p_name p" "p_github_owner_id p' = p_github_owner_id p"
    "p_github_repo_id p' = p_github_repo_id p"
  using arg_cong [OF assms, of p_id] arg_cong [OF assms, of p_name] arg_cong [OF assms, of p_github_owner_id]
    arg_cong [OF assms, of p_github_repo_id] by (simp_all add: settled_def)

text \<open>The numeric identities the projects are pinned to.\<close>

definition pins :: "db \<Rightarrow> (int \<times> string \<times> string) list" where
  "pins d = map (\<lambda>p. (p_id p, p_github_owner_id p, p_github_repo_id p)) (d_projects d)"

lemma synced_tables:
  assumes "synced d d'"
  shows "nm d' = nm d" "al d' = al d" "pins d' = pins d" "d_aliases d' = d_aliases d"
proof -
  from assms have "map (g \<circ> settled) (d_projects d') = map (g \<circ> settled) (d_projects d)" for g :: "project \<Rightarrow> 'b"
    by (simp add: synced_def flip: map_map)
  from this [of "\<lambda>p. (p_name p, p_id p)"] this [of "\<lambda>p. (p_id p, p_github_owner_id p, p_github_repo_id p)"]
  show "nm d' = nm d" "pins d' = pins d" by (simp_all add: nm_def pins_def settled_def o_def)
  show "d_aliases d' = d_aliases d" using assms unfolding synced_iff by (elim conjE exE) simp
  then show "al d' = al d" by (simp add: al_def)
qed

lemma GetProjectByAlias_owner:
  "map_option p_id (GetProjectByAlias name d) =
     map_option al_project_id (find_first (\<lambda>a. al_name a = name \<and> al_project_id a \<in> snd ` set (nm d)) (d_aliases d))"
proof -
  have "GetProjectByAlias name d =
      (case find_first (\<lambda>a. al_name a = name \<and> al_project_id a \<in> snd ` set (nm d)) (d_aliases d) of
         None \<Rightarrow> None | Some a \<Rightarrow> project_by_id (al_project_id a) d)"
    unfolding GetProjectByAlias_def project_by_id_nm ..
  then show ?thesis
    by (auto split: option.split dest!: find_first_Some project_by_id_Some)
      (metis image_eqI option.exhaust project_by_id_nm project_by_id_Some snd_conv)
qed

lemma owner_of_frame:
  assumes "nm d' = nm d" "d_aliases d' = d_aliases d"
  shows "owner_of d' = owner_of d"
proof
  fix name
  have own: "owner_of e name = (case map_of (nm e) name of Some i \<Rightarrow> Some i
      | None \<Rightarrow> map_option p_id (GetProjectByAlias name e))" for e
    unfolding GetProjectByName_nm [symmetric]
    by (auto simp: owner_of_def ResolveProject_def GetProject_def split: option.splits)
  show "owner_of d' name = owner_of d name" unfolding own GetProjectByAlias_owner assms ..
qed

lemma pin_identity_read:
  "access \<noteq> WriteAccess \<Longrightarrow> pin_identity now access repo p d = (d', res) \<Longrightarrow>
     d' = d \<and> (\<forall>p'. res = Inr p' \<longrightarrow> p' = p)"
  by (auto simp: pin_identity_def split: if_splits)

lemma sync_repo_frame:
  assumes "sync_repo_path now repo p d = (d', p')"
  shows "synced d d'" "settled p' = settled p"
  using assms by (auto simp: sync_repo_path_def SetProjectGitHubRepo_def settled_def intro!: synced_update_project
      split: if_splits)

lemma sync_branch_frame:
  assumes "sync_branch now gh repo p d = (d', p')"
  shows "synced d d'" "settled p' = settled p"
  using assms by (auto simp: sync_branch_def SetProjectDefaultBranch_def settled_def Let_def
      intro!: synced_update_project split: if_splits)

text \<open>The steps of \<open>sync_identity\<close>, apart from the pinning, only bring the project in step.\<close>

lemma sync_identity_cases:
  assumes "sync_identity now gh access ctx p d = (d', res)"
  obtains (foreign) "d' = d" "res = Inr p"
      "cx_token ctx = None \<or> cx_oidc_project ctx = [] \<or> \<not> oidcAuthorizesProject (cx_oidc_project ctx) (p_name p)"
  | (no_path) p' where "synced d d'" "res = Inr p'" "settled p' = settled p" "ri_path (cx_oidc_repo ctx) = []"
  | (refused) d1 p1 resp where "synced d d1" "settled p1 = settled p" "res = Inl resp"
      "pin_identity now access (cx_oidc_repo ctx) p1 d1 = (d', Inl resp)"
  | (pinned) d1 p1 d2 p2 p' where "synced d d1" "settled p1 = settled p" "res = Inr p'"
      "pin_identity now access (cx_oidc_repo ctx) p1 d1 = (d2, Inr p2)" "synced d2 d'" "settled p' = settled p2"
proof -
  note frames = sync_visibility_frame sync_repo_frame sync_branch_frame
  show ?thesis
  proof (cases "cx_token ctx = None \<or> cx_oidc_project ctx = [] \<or> \<not> oidcAuthorizesProject (cx_oidc_project ctx) (p_name p)")
    case True
    with assms foreign show ?thesis by (simp add: sync_identity_def)
  next
    case False
    obtain d1 p1 where v: "sync_visibility now ctx p d = (d1, p1)" by force
    show ?thesis
    proof (cases "ri_path (cx_oidc_repo ctx) = []")
      case True
      with assms False v no_path [of p1] frames(1,2) [OF v] show ?thesis by (auto simp: sync_identity_def Let_def)
    next
      case path: False
      obtain d2 r2 where pin: "pin_identity now access (cx_oidc_repo ctx) p1 d1 = (d2, r2)" by force
      show ?thesis
      proof (cases r2)
        case (Inl resp)
        with assms False path v pin refused [of d1 p1 resp] frames(1,2) [OF v] show ?thesis
          by (auto simp: sync_identity_def Let_def)
      next
        case (Inr p2)
        obtain d3 p3 where r: "sync_repo_path now (cx_oidc_repo ctx) p2 d2 = (d3, p3)" by force
        obtain d4 p4 where b: "sync_branch now gh (cx_oidc_repo ctx) p3 d3 = (d4, p4)" by force
        from assms False path v pin Inr r b have "d' = d4" "res = Inr p4" by (auto simp: sync_identity_def Let_def)
        moreover have "synced d2 d4" using frames(3) [OF r] frames(5) [OF b] synced_trans by blast
        moreover have "settled p4 = settled p2" using frames(4) [OF r] frames(6) [OF b] by simp
        ultimately show ?thesis using pinned [of d1 p1 p4 d2 p2] frames(1,2) [OF v] pin Inr by simp
      qed
    qed
  qed
qed

lemma sync_identity_read:
  assumes "sync_identity now gh access ctx p d = (d', res)" "access \<noteq> WriteAccess"
  shows "synced d d' \<and> (\<forall>p'. res = Inr p' \<longrightarrow> settled p' = settled p)"
  using assms(1)
proof (cases rule: sync_identity_cases)
  case (pinned d1 p1 d2 p2 p')
  with pin_identity_read [OF assms(2)] synced_trans show ?thesis by (metis sum.inject(2))
next
  case (refused d1 p1 resp)
  with pin_identity_read [OF assms(2)] show ?thesis by blast
qed auto

section \<open>Reads\<close>

text \<open>a request that only reads changes at most what follows the repository: the visibility,
  the recorded repository path and the default branch. It creates and renames no project, and
  no pin, alias, release, token or other row changes, whatever its credentials.\<close>

theorem reads_only_sync:
  assumes "rt_access ri \<noteq> WriteAccess" and "requireProject now gh r ri ctx d = (d', res)"
  shows "d' = d\<lparr>d_projects := d_projects d', d_project_vis := d_project_vis d'\<rparr>
    \<and> map settled (d_projects d') = map settled (d_projects d)"
proof -
  have "fst (find_or_provision now gh r ri ctx d) = d"
    using assms(1) by (simp add: find_or_provision_def split: sum.splits)
  moreover have "synced e (fst (sync_identity now gh (rt_access ri) ctx p e))" for p e
    using sync_identity_read [OF _ assms(1)] by (metis prod.collapse)
  ultimately have "synced d d'"
    using assms by (auto simp: requireProject_def Let_def split: if_splits prod.splits sum.splits)
      (metis fst_conv)+
  then show ?thesis by (simp add: synced_def)
qed

text \<open>on a route that hides its projects, a refusal is the same answer as for a project that
  does not exist, whatever the reason: no credential, the wrong one, or the identity of
  another repository.\<close>

theorem hidden_refusal_uniform:
  assumes "rt_access ri = HiddenReadAccess" and "rt_project ri \<noteq> []"
    and "requireProject now gh r ri ctx d = (d', Inl resp)"
    and "ResolveProject (rt_project ri) e = Inl x"
  shows "requireProject now gh r ri ctx' e = (e, Inl resp)"
proof -
  have pin: "snd (pin_identity now HiddenReadAccess repo p e') = Inl resp' \<Longrightarrow> resp' = projectNotFound" for repo p e' resp'
    by (auto simp: pin_identity_def split: if_splits)
  have sync: "resp' = projectNotFound" if "sync_identity now gh HiddenReadAccess ctx p e' = (d2, Inl resp')" for p e' d2 resp'
    using that
  proof (cases rule: sync_identity_cases)
    case (refused d1 p1 resp)
    with pin [of "cx_oidc_repo ctx" p1 d1 resp] show ?thesis by simp
  qed auto
  have auth: "authorize gh r ri ctx p e' = Inl resp' \<Longrightarrow> resp' = projectNotFound" for p e' resp'
    using assms(1) by (auto simp: authorize_def Let_def split: if_splits)
  have find: "find_or_provision now gh r ri ctx d = (d1, Inl resp') \<Longrightarrow> resp' = projectNotFound" for d1 resp'
    using assms(1) by (auto simp: find_or_provision_def split: sum.splits)
  from assms have "resp = projectNotFound"
    by (auto simp: requireProject_def Let_def split: prod.splits sum.splits dest: sync auth find)
  with assms(1,2,4) show ?thesis by (simp add: requireProject_def find_or_provision_def)
qed

section \<open>The project behind the name\<close>

lemma owner_of_own_name: "map_of (nm d) n = Some i \<Longrightarrow> owner_of d n = Some i"
  using GetProjectByName_nm [of n d]
  by (auto simp: owner_of_def ResolveProject_def GetProject_def split: option.splits)

lemma CreateProject_names:
  assumes "CreateProject now p d = (d', Inr p')"
  shows "nm d' = nm d @ [(p_name p, p_id p')]" "p_name p \<notin> fst ` set (nm d)"
    "\<exists>b. p' = p\<lparr>p_id := p_id p', p_is_private := b\<rparr>"
proof -
  from assms obtain d1 i where ins: "InsertProject now p d = Inr (d1, i)"
    "bind_db (exec (UpsertProjectVisibilityRow i VisibilityAuto (p_is_private p)))
      (\<lambda>_. applyProjectVisibility now (p\<lparr>p_id := i\<rparr>)) d1 = (d', Inr p')"
    by (auto simp: CreateProject_def split: sum.splits db_error.splits)
  have "synced d1 d'"
    using syncs_bind [OF syncs_Upsert syncs_apply,
        of i VisibilityAuto "p_is_private p" "\<lambda>_. now" "\<lambda>_. p\<lparr>p_id := i\<rparr>"] ins(2)
    by (simp add: syncs_def) (metis fst_conv)
  moreover have d1: "nm d1 = nm d @ [(p_name p, i)]" "\<not> list_ex (\<lambda>q. p_name q = p_name p) (d_projects d)"
    using ins(1) by (auto simp: InsertProject_def Let_def nm_def split: if_splits)
  moreover from ins(2) obtain b where "p' = p\<lparr>p_id := i, p_is_private := b\<rparr>"
    by (auto simp: bind_db_Inr dest!: apply_returns)
  ultimately show "nm d' = nm d @ [(p_name p, p_id p')]" "\<exists>b. p' = p\<lparr>p_id := p_id p', p_is_private := b\<rparr>"
    using synced_tables(1) [of d1 d'] by auto
  show "p_name p \<notin> fst ` set (nm d)" using d1(2) unfolding table_images by (auto simp: list_ex_iff)
qed

lemma find_or_provision_owner:
  assumes "find_or_provision now gh r ri ctx d = (d1, Inr p)"
  shows "owner_of d1 (rt_project ri) = Some (p_id p)"
proof (cases "ResolveProject (rt_project ri) d")
  case (Inr x)
  with assms show ?thesis by (auto simp: find_or_provision_def owner_of_def split: prod.splits)
next
  case (Inl e)
  let ?p = "provisioned (rt_project ri) (case cx_oidc_private ctx of None \<Rightarrow> False | Some b \<Rightarrow> b) (cx_oidc_repo ctx)"
  have name: "p_name ?p = rt_project ri" by (simp add: provisioned_def new_project_def)
  from assms Inl consider "CreateProject now ?p d = (d1, Inr p)" | "GetProject (rt_project ri) d1 = Inr p"
    by (auto simp: find_or_provision_def split: if_splits prod.splits sum.splits db_error.splits)
  then show ?thesis
  proof cases
    case 1
    note names = CreateProject_names(1,2) [OF this, unfolded name]
    from names(2) have "map_of (nm d) (rt_project ri) = None" by (simp add: map_of_eq_None_iff)
    with names(1) have "map_of (nm d1) (rt_project ri) = Some (p_id p)" by (simp add: map_add_def)
    then show ?thesis by (rule owner_of_own_name)
  next
    case 2
    then show ?thesis by (simp add: owner_of_def ResolveProject_def)
  qed
qed

lemma pin_identity_frame:
  assumes "pin_identity now access repo p d = (d', Inr p')"
  shows "nm d' = nm d" "d_aliases d' = d_aliases d" "p_id p' = p_id p" "p_name p' = p_name p"
  using assms by (auto simp: pin_identity_def SetProjectGitHubIDs_def update_project_nm split: if_splits)

lemma sync_identity_owner:
  assumes "sync_identity now gh access ctx p d = (d', Inr p')"
  shows "owner_of d' = owner_of d" "p_id p' = p_id p" "p_name p' = p_name p"
proof -
  have "nm d' = nm d \<and> d_aliases d' = d_aliases d \<and> p_id p' = p_id p \<and> p_name p' = p_name p"
    using assms
  proof (cases rule: sync_identity_cases)
    case (pinned d1 p1 d2 p2 q)
    with pin_identity_frame [OF pinned(4)] synced_tables [OF pinned(1)] synced_tables [OF pinned(5)]
      settled_fields [OF pinned(2)] settled_fields [OF pinned(6)]
    show ?thesis by simp
  next
    case (no_path q)
    with synced_tables [OF no_path(1)] settled_fields [OF no_path(3)] show ?thesis by simp
  qed auto
  then show "p_id p' = p_id p" "p_name p' = p_name p" "owner_of d' = owner_of d"
    by (blast intro: owner_of_frame)+
qed

text \<open>A write goes on only with the identity the project is pinned to.\<close>

lemma sync_identity_pinned:
  assumes "sync_identity now gh WriteAccess ctx p d = (d', Inr p')"
    and "cx_token ctx \<noteq> None" "oidcAuthorizesProject (cx_oidc_project ctx) (p_name p)"
    and "ri_path (cx_oidc_repo ctx) \<noteq> []" "ri_owner_id (cx_oidc_repo ctx) \<noteq> []" "ri_repo_id (cx_oidc_repo ctx) \<noteq> []"
  shows "p_github_repo_id p' = ri_repo_id (cx_oidc_repo ctx) \<and> p_github_owner_id p' = ri_owner_id (cx_oidc_repo ctx)"
  using assms(1)
proof (cases rule: sync_identity_cases)
  case foreign
  with assms(2,3) show ?thesis by (auto simp: oidcAuthorizesProject_def)
next
  case (pinned d1 p1 d2 p2 q)
  from pinned(4) assms(4-6) have "p_github_repo_id p2 = ri_repo_id (cx_oidc_repo ctx)"
    "p_github_owner_id p2 = ri_owner_id (cx_oidc_repo ctx)"
    by (auto simp: pin_identity_def split: if_splits)
  with settled_fields [OF pinned(6)] pinned(3) show ?thesis by simp
qed (use assms in auto)

lemma requireProject_passes:
  assumes "requireProject now gh r ri ctx d = (d', Inr ctx')"
  obtains d1 p p' where "find_or_provision now gh r ri ctx
      (if rt_access ri = WriteAccess \<and> cx_token ctx \<noteq> None then reconcileRepoNamespace now (cx_oidc_repo ctx) d else d) = (d1, Inr p)"
    "sync_identity now gh (rt_access ri) ctx p d1 = (d', Inr p')" "authorize gh r ri ctx p' d' = Inr ctx'"
    "owner_of d' (rt_project ri) = Some (p_id p')"
proof -
  from assms obtain d1 p p' where p: "find_or_provision now gh r ri ctx
      (if rt_access ri = WriteAccess \<and> cx_token ctx \<noteq> None then reconcileRepoNamespace now (cx_oidc_repo ctx) d else d) = (d1, Inr p)"
    "sync_identity now gh (rt_access ri) ctx p d1 = (d', Inr p')" "authorize gh r ri ctx p' d' = Inr ctx'"
    by (auto simp: requireProject_def Let_def split: if_splits prod.splits sum.splits)
  with find_or_provision_owner [OF p(1)] sync_identity_owner [OF p(2)] that show ?thesis by simp
qed

text \<open>C1: a write reaches the handler only with a token that has the write scope and is
  authorized for the project the name leads to; the token of a repository identity only
  inside its own namespace and, when it carries the numeric identity of its repository, only
  on a project pinned to that identity.\<close>

theorem write_needs_authority:
  assumes "rt_access ri = WriteAccess" and "requireProject now gh r ri ctx d = (d', Inr ctx')"
  shows "\<exists>t p. cx_token ctx = Some t \<and> cx_project ctx' = Some p \<and> HasScope t ''write''
    \<and> AuthorizedForProject t (p_id p) \<and> owner_of d' (rt_project ri) = Some (p_id p)
    \<and> (cx_oidc_project ctx \<noteq> [] \<longrightarrow> oidcAuthorizesProject (cx_oidc_project ctx) (p_name p)
        \<and> (ri_path (cx_oidc_repo ctx) \<noteq> [] \<and> ri_owner_id (cx_oidc_repo ctx) \<noteq> [] \<and> ri_repo_id (cx_oidc_repo ctx) \<noteq> []
            \<longrightarrow> p_github_repo_id p = ri_repo_id (cx_oidc_repo ctx) \<and> p_github_owner_id p = ri_owner_id (cx_oidc_repo ctx)))"
proof -
  from assms(2) obtain d1 p p' where p: "sync_identity now gh (rt_access ri) ctx p d1 = (d', Inr p')"
    "authorize gh r ri ctx p' d' = Inr ctx'" "owner_of d' (rt_project ri) = Some (p_id p')"
    by (rule requireProject_passes)
  from p(2) assms(1) obtain t where t: "cx_token ctx = Some t" "HasScope t ''write''" "AuthorizedForProject t (p_id p')"
    "cx_project ctx' = Some p'" "cx_oidc_project ctx \<noteq> [] \<longrightarrow> oidcAuthorizesProject (cx_oidc_project ctx) (p_name p')"
    by (auto simp: authorize_def Let_def split: option.splits if_splits)
  with p(3) sync_identity_pinned [OF p(1) [unfolded assms(1)]] sync_identity_owner(3) [OF p(1)] show ?thesis
    by auto
qed

definition read_ctx :: "route_info \<Rightarrow> auth_ctx \<Rightarrow> project \<Rightarrow> db \<Rightarrow> auth_ctx" where
  "read_ctx ri ctx p d = ctx\<lparr>cx_project := Some p, cx_read_private := Some (read_private ri p d)\<rparr>"

lemma read_ctx_fields [simp]:
  "UserFrom (read_ctx ri ctx p d) = UserFrom ctx" "cx_github_token (read_ctx ri ctx p d) = cx_github_token ctx"
  "cx_token (read_ctx ri ctx p d) = cx_token ctx" "cx_oidc_project (read_ctx ri ctx p d) = cx_oidc_project ctx"
  "cx_oidc_repo (read_ctx ri ctx p d) = cx_oidc_repo ctx" "cx_project (read_ctx ri ctx p d) = Some p"
  "ReadIsPrivate (read_ctx ri ctx p d) = read_private ri p d"
  by (simp_all add: read_ctx_def UserFrom_def ReadIsPrivate_def)

lemma authorize_read:
  assumes "authorize gh r ri ctx p d = Inr ctx'" "rt_access ri \<noteq> WriteAccess"
  shows "ctx' = read_ctx ri ctx p d \<and> (read_private ri p d \<longrightarrow>
      (rt_access ri = ReadAccess \<and> (\<exists>allows. rt_public_read ri = Some allows \<and> allows d p))
    \<or> fst (userCanReadProject gh (read_ctx ri ctx p d) p)
    \<or> (\<exists>t. cx_token ctx = Some t \<and> HasScope t ''read'' \<and> fst (tokenReadsProjectWhy gh (read_ctx ri ctx p d) t p)))"
proof (cases "rt_access ri")
  case ReadAccess
  with assms(1) show ?thesis
    by (auto simp: authorize_def Let_def read_ctx_def split: if_splits option.splits prod.splits)
next
  case HiddenReadAccess
  with assms(1) show ?thesis
    by (auto simp: authorize_def Let_def read_ctx_def tokenReadsProject_def split: if_splits option.splits)
qed (use assms(2) in simp)

lemma session_reads:
  "fst (userCanReadProject gh ctx p) \<Longrightarrow>
     \<exists>login. UserFrom ctx = Some login \<and> fst (gh_session_access gh login (cx_github_token ctx) (p_github_repo p))"
  by (auto simp: userCanReadProject_def canAccessRepo_def split: option.splits if_splits)

lemma token_reads:
  "fst (tokenReadsProjectWhy gh ctx t p) \<Longrightarrow> AuthorizedForProject t (p_id p) \<and>
    (cx_oidc_project ctx = [] \<or> oidcAuthorizesProject (cx_oidc_project ctx) (p_name p)
      \<or> ri_issuer (cx_oidc_repo ctx) = GitHubActionsIssuer
         \<and> fst (gh_permission gh (ri_actor (cx_oidc_repo ctx)) (p_github_repo p)))"
  by (auto simp: tokenReadsProjectWhy_def oidcActorReads_def gitHubUserReadsRepo_def split: if_splits)

text \<open>C20: a read of something private reaches the handler only for a route that serves it
  publicly, a signed-in user who can see the repository, or a token with the read scope that
  is authorized for the project and, as a repository identity, inside its namespace or on
  behalf of a user who can see the repository.\<close>

theorem private_read_justified:
  assumes "rt_access ri \<noteq> WriteAccess" and "requireProject now gh r ri ctx d = (d', Inr ctx')"
  shows "\<exists>p. cx_project ctx' = Some p \<and> owner_of d' (rt_project ri) = Some (p_id p)
    \<and> ReadIsPrivate ctx' = read_private ri p d'
    \<and> (ReadIsPrivate ctx' \<longrightarrow>
        (rt_access ri = ReadAccess \<and> (\<exists>allows. rt_public_read ri = Some allows \<and> allows d' p))
      \<or> (\<exists>login. UserFrom ctx = Some login \<and> fst (gh_session_access gh login (cx_github_token ctx) (p_github_repo p)))
      \<or> (\<exists>t. cx_token ctx = Some t \<and> HasScope t ''read'' \<and> AuthorizedForProject t (p_id p)
          \<and> (cx_oidc_project ctx = [] \<or> oidcAuthorizesProject (cx_oidc_project ctx) (p_name p)
            \<or> ri_issuer (cx_oidc_repo ctx) = GitHubActionsIssuer
               \<and> fst (gh_permission gh (ri_actor (cx_oidc_repo ctx)) (p_github_repo p)))))"
proof -
  from assms(2) obtain d1 p p' where p: "authorize gh r ri ctx p' d' = Inr ctx'"
    "owner_of d' (rt_project ri) = Some (p_id p')" by (rule requireProject_passes)
  note rd = authorize_read [OF p(1) assms(1)]
  have "ReadIsPrivate ctx' \<longrightarrow>
        (rt_access ri = ReadAccess \<and> (\<exists>allows. rt_public_read ri = Some allows \<and> allows d' p'))
      \<or> (\<exists>login. UserFrom ctx = Some login \<and> fst (gh_session_access gh login (cx_github_token ctx) (p_github_repo p')))
      \<or> (\<exists>t. cx_token ctx = Some t \<and> HasScope t ''read'' \<and> AuthorizedForProject t (p_id p')
          \<and> (cx_oidc_project ctx = [] \<or> oidcAuthorizesProject (cx_oidc_project ctx) (p_name p')
            \<or> ri_issuer (cx_oidc_repo ctx) = GitHubActionsIssuer
               \<and> fst (gh_permission gh (ri_actor (cx_oidc_repo ctx)) (p_github_repo p'))))"
    using rd session_reads [of gh "read_ctx ri ctx p' d'" p'] token_reads [of gh "read_ctx ri ctx p' d'" _ p'] by auto
  with p(2) rd show ?thesis by (intro exI [of _ p']) simp
qed

section \<open>Renames that follow the repository\<close>

lemma same_id:
  "distinct (map p_id ps) \<Longrightarrow> p \<in> set ps \<Longrightarrow> q \<in> set ps \<Longrightarrow> p_id p = p_id q \<Longrightarrow> p = q"
  by (auto simp: distinct_map inj_on_def)

lemma resolve_member: "ResolveProject name d = Inr (p, b) \<Longrightarrow> p \<in> set (d_projects d)"
  by (auto simp: ResolveProject_def GetProject_def GetProjectByName_def GetProjectByAlias_def
      split: option.splits dest!: find_first_Some project_by_id_Some)

lemma pins_update:
  "(\<And>p. p_id (f p) = p_id p \<and> p_github_owner_id (f p) = p_github_owner_id p \<and> p_github_repo_id (f p) = p_github_repo_id p)
    \<Longrightarrow> pins (update_project now i f d) = pins d"
  by (auto simp: pins_def update_project_def)

lemma pins_rename_rows: "pins (rename_rows now o' n' i rows d) = pins d"
  by (induction now o' n' i rows d rule: rename_rows.induct) (auto simp: set_depends_row_def pins_update)

lemma pins_aliases [simp]: "pins (d\<lparr>d_aliases := x\<rparr>) = pins d" "pins (DeleteProjectAlias n d) = pins d"
  by (simp_all add: pins_def DeleteProjectAlias_def)

lemma RenameProject_pins: "pins (fst (RenameProject now i old new d)) = pins d"
  by (auto simp: RenameProject_def transaction_def bind_res_def rename_row_def InsertProjectAlias_def renameDepends_def
      pins_rename_rows pins_update split: sum.splits if_splits)

lemma try_rename_renamed:
  assumes "name_inv d"
  shows "try_rename_project now d (i, n) = d \<or>
    (\<exists>old. (old, i) \<in> set (nm d) \<and> renamed i old n d (try_rename_project now d (i, n)))"
proof (cases "project_by_id i d")
  case (Some p)
  show ?thesis
  proof (cases "NameAvailableTo n i d")
    case True
    note pre = rename_pre [OF assms Some True]
    from RenameProject_tables [of i d n now "p_name p"] Some pre(2) obtain d' where
      "RenameProject now i (p_name p) n d = (d', None)" "renamed i (p_name p) n d d'" by auto
    with Some True pre(1) show ?thesis by (auto simp: try_rename_project_def)
  qed (simp add: try_rename_project_def Some)
qed (simp add: try_rename_project_def)

lemma follow_repo_try:
  assumes "name_inv d" "(p_name p, p_id p) \<in> set (nm d)" "renamedNamespaceName (p_name p) root \<noteq> []"
  shows "follow_repo now root p d = try_rename_project now d (p_id p, renamedNamespaceName (p_name p) root)"
proof -
  from assms(2) obtain q where q: "q \<in> set (d_projects d)" "p_name q = p_name p" "p_id q = p_id p" by (auto simp: nm_def)
  with assms(1) have "project_by_id (p_id p) d = Some q"
    using find_first_unique [of p_id "d_projects d" q] by (simp add: project_by_id_def name_inv_def)
  with q assms(3) show ?thesis by (simp add: follow_repo_def try_rename_project_def Let_def)
qed

definition names_kept :: "int set \<Rightarrow> db \<Rightarrow> db \<Rightarrow> bool" where
  "names_kept J d d' \<longleftrightarrow> name_inv d' \<and> pins d' = pins d
     \<and> (\<forall>name i. owner_of d name = Some i \<longrightarrow> owner_of d' name = Some i)
     \<and> (\<forall>x \<in> set (nm d). snd x \<notin> J \<longrightarrow> x \<in> set (nm d'))"

lemma follow_repo_kept:
  assumes "name_inv d" "(p_name p, p_id p) \<in> set (nm d)"
  shows "names_kept {p_id p} d (follow_repo now root p d)"
proof (cases "renamedNamespaceName (p_name p) root = []")
  case True
  with assms show ?thesis by (simp add: follow_repo_def names_kept_def)
next
  case False
  let ?n = "renamedNamespaceName (p_name p) root"
  note eq = follow_repo_try [OF assms False, of now]
  have "pins (follow_repo now root p d) = pins d"
    by (simp add: follow_repo_def Let_def RenameProject_pins)
  moreover have "x \<in> set (nm (follow_repo now root p d))" if "x \<in> set (nm d)" "snd x \<noteq> p_id p" for x
    using try_rename_renamed [OF assms(1), of now "p_id p" ?n] that
    by (cases x) (force simp: eq renamed_def)
  ultimately show ?thesis
    using registry.rename_inv [OF assms(1)] registry.rename_keeps [OF assms(1)]
    by (auto simp: names_kept_def eq)
qed

lemma follow_fold_kept:
  assumes "name_inv d" "distinct (map p_id ps)" "\<forall>p \<in> set ps. (p_name p, p_id p) \<in> set (nm d)"
  shows "names_kept (p_id ` set ps) d (fold (follow_repo now root) ps d)"
  using assms
proof (induction ps arbitrary: d)
  case Nil
  then show ?case by (simp add: names_kept_def)
next
  case (Cons p ps)
  from follow_repo_kept [of d p now root] Cons.prems
  have step: "names_kept {p_id p} d (follow_repo now root p d)" by simp
  let ?d = "follow_repo now root p d"
  have "name_inv ?d" using step by (simp add: names_kept_def)
  moreover have "\<forall>q \<in> set ps. (p_name q, p_id q) \<in> set (nm ?d)"
  proof
    fix q
    assume q: "q \<in> set ps"
    then have "p_id q \<noteq> p_id p" using Cons.prems(2) by (metis distinct.simps(2) image_eqI list.simps(9) list.set_map)
    with q Cons.prems(3) step show "(p_name q, p_id q) \<in> set (nm ?d)" unfolding names_kept_def by force
  qed
  ultimately have rest: "names_kept (p_id ` set ps) ?d (fold (follow_repo now root) ps ?d)"
    using Cons.IH Cons.prems(2) by simp
  show ?case
    unfolding names_kept_def
  proof (intro conjI)
    show "name_inv (fold (follow_repo now root) (p # ps) d)" "pins (fold (follow_repo now root) (p # ps) d) = pins d"
      "\<forall>name i. owner_of d name = Some i \<longrightarrow> owner_of (fold (follow_repo now root) (p # ps) d) name = Some i"
      using step rest by (simp_all add: names_kept_def)
    show "\<forall>x \<in> set (nm d). snd x \<notin> p_id ` set (p # ps) \<longrightarrow> x \<in> set (nm (fold (follow_repo now root) (p # ps) d))"
      using step rest by (simp add: names_kept_def)
  qed
qed

lemma ProjectsForRepoID_rows:
  "set (ProjectsForRepoID rid d) = (if rid = [] then {} else {p \<in> set (d_projects d). p_github_repo_id p = rid})"
  by (auto simp: ProjectsForRepoID_def ListProjectsByGitHubRepoID_def)

lemma ProjectsForRepoID_distinct:
  assumes "distinct (map p_id (d_projects d))"
  shows "distinct (map p_id (ProjectsForRepoID rid d))"
  using assms by (auto simp: ProjectsForRepoID_def ListProjectsByGitHubRepoID_def distinct_map inj_on_def)

lemma reconcile_kept:
  assumes "name_inv d"
  shows "names_kept (p_id ` {p \<in> set (d_projects d). p_github_repo_id p = ri_repo_id repo}) d
    (reconcileRepoNamespace now repo d)"
proof (cases "ri_repo_id repo = [] \<or> ri_path repo = [] \<or> repoNamespaceRoot (ri_path repo) = []")
  case True
  with assms show ?thesis by (auto simp: reconcileRepoNamespace_def names_kept_def)
next
  case False
  let ?ps = "ProjectsForRepoID (ri_repo_id repo) d"
  have "names_kept (p_id ` set ?ps) d (fold (follow_repo now (repoNamespaceRoot (ri_path repo))) ?ps d)"
    using assms by (intro follow_fold_kept ProjectsForRepoID_distinct)
      (auto simp: name_inv_def ProjectsForRepoID_rows nm_def split: if_splits)
  with False show ?thesis by (simp add: reconcileRepoNamespace_def ProjectsForRepoID_rows)
qed

text \<open>Following the repository loses no name and touches no project of another repository.\<close>

lemma reconcile_resolves:
  assumes "name_inv d" "ResolveProject name d = Inr (p, b)"
  shows "\<exists>q c. ResolveProject name (reconcileRepoNamespace now repo d) = Inr (q, c) \<and> p_id q = p_id p
    \<and> p_github_owner_id q = p_github_owner_id p \<and> p_github_repo_id q = p_github_repo_id p
    \<and> (p_github_repo_id p \<noteq> ri_repo_id repo \<longrightarrow> p_name q = p_name p)"
proof -
  let ?d = "reconcileRepoNamespace now repo d"
  note kept = reconcile_kept [OF assms(1), of repo now, unfolded names_kept_def]
  have p: "p \<in> set (d_projects d)" using resolve_member [OF assms(2)] .
  have "owner_of d name = Some (p_id p)" using assms(2) by (simp add: owner_of_def)
  with kept obtain q c where q: "ResolveProject name ?d = Inr (q, c)" "p_id q = p_id p"
    using resolve_of_owner [of ?d name "p_id p"] by blast
  have qm: "q \<in> set (d_projects ?d)" using resolve_member [OF q(1)] .
  have ids: "distinct (map p_id (d_projects d))" "distinct (map p_id (d_projects ?d))"
    using assms(1) kept by (auto simp: name_inv_def)
  have "(p_id q, p_github_owner_id q, p_github_repo_id q) \<in> set (pins d)"
  proof -
    have "(p_id q, p_github_owner_id q, p_github_repo_id q) \<in> set (pins ?d)" using qm by (auto simp: pins_def)
    with kept show ?thesis by simp
  qed
  then obtain p' where "p' \<in> set (d_projects d)" "p_id p' = p_id p"
    "p_github_owner_id q = p_github_owner_id p'" "p_github_repo_id q = p_github_repo_id p'"
    using q(2) by (auto simp: pins_def)
  moreover from this have "p' = p" using same_id [OF ids(1)] p by simp
  ultimately have pin: "p_github_owner_id q = p_github_owner_id p" "p_github_repo_id q = p_github_repo_id p" by simp_all
  have "p_name q = p_name p" if other: "p_github_repo_id p \<noteq> ri_repo_id repo"
  proof -
    have "p_id p \<notin> p_id ` {p \<in> set (d_projects d). p_github_repo_id p = ri_repo_id repo}"
      using ids(1) p other by (auto simp: distinct_map inj_on_def)
    moreover have "(p_name p, p_id p) \<in> set (nm d)" using p by (auto simp: nm_def)
    ultimately have "(p_name p, p_id p) \<in> set (nm ?d)"
      using kept [THEN conjunct2, THEN conjunct2, THEN conjunct2, THEN bspec [of _ _ "(p_name p, p_id p)"]] by simp
    then obtain r where "r \<in> set (d_projects ?d)" "p_name r = p_name p" "p_id r = p_id p" by (auto simp: nm_def)
    moreover from this have "r = q" using same_id [OF ids(2)] qm q(2) by simp
    ultimately show ?thesis by simp
  qed
  with q pin show ?thesis by blast
qed

text \<open>C5: a token for a repository whose numeric identity is not the one the project is pinned to
  never reaches the handler, for a read or a write, although the name of the repository
  entitles it to the project's namespace; no pin changes, and no name is lost.\<close>

theorem foreign_identity_refused:
  assumes "name_inv d" and "rt_project ri \<noteq> []" and "ResolveProject (rt_project ri) d = Inr (p, b)"
    and "cx_token ctx \<noteq> None" and "oidcAuthorizesProject (cx_oidc_project ctx) (p_name p)"
    and "ri_path (cx_oidc_repo ctx) \<noteq> []" and "ri_owner_id (cx_oidc_repo ctx) \<noteq> []" and "ri_repo_id (cx_oidc_repo ctx) \<noteq> []"
    and "p_github_owner_id p \<noteq> [] \<or> p_github_repo_id p \<noteq> []"
    and "p_github_repo_id p \<noteq> ri_repo_id (cx_oidc_repo ctx)"
  shows "\<exists>d' resp. requireProject now gh r ri ctx d = (d', Inl resp)
    \<and> rs_status resp = (if rt_access ri = HiddenReadAccess then 404 else 403)
    \<and> pins d' = pins d \<and> (\<forall>name i. owner_of d name = Some i \<longrightarrow> owner_of d' name = Some i)"
proof -
  define d0 where "d0 = (if rt_access ri = WriteAccess \<and> cx_token ctx \<noteq> None
    then reconcileRepoNamespace now (cx_oidc_repo ctx) d else d)"
  have d0: "pins d0 = pins d" "\<forall>name i. owner_of d name = Some i \<longrightarrow> owner_of d0 name = Some i"
    using reconcile_kept [OF assms(1), of "cx_oidc_repo ctx" now] by (auto simp: d0_def names_kept_def)
  obtain q c where q: "ResolveProject (rt_project ri) d0 = Inr (q, c)" "p_name q = p_name p"
    "p_github_owner_id q = p_github_owner_id p" "p_github_repo_id q = p_github_repo_id p"
    using reconcile_resolves [OF assms(1,3), of now "cx_oidc_repo ctx"] assms(3,10) unfolding d0_def
    by (cases "rt_access ri = WriteAccess \<and> cx_token ctx \<noteq> None") auto
  obtain d1 p1 where v: "sync_visibility now ctx q d0 = (d1, p1)" by force
  note v' = sync_visibility_frame [OF v]
  let ?resp = "if rt_access ri = HiddenReadAccess then projectNotFound
    else json_error 403 (mismatch_message (cx_oidc_repo ctx) p1)"
  have "pin_identity now (rt_access ri) (cx_oidc_repo ctx) p1 d1 = (d1, Inl ?resp)"
    using assms(7-10) q settled_fields [OF v'(2)] by (simp add: pin_identity_def)
  with assms(4-6) q v have "sync_identity now gh (rt_access ri) ctx q d0 = (d1, Inl ?resp)"
    by (auto simp: sync_identity_def Let_def oidcAuthorizesProject_def)
  moreover have "find_or_provision now gh r ri ctx d0 = (d0, Inr q)" by (simp add: find_or_provision_def q(1))
  ultimately have "requireProject now gh r ri ctx d = (d1, Inl ?resp)"
    unfolding requireProject_def Let_def d0_def [symmetric] using assms(2) by simp
  moreover have "pins d1 = pins d" using synced_tables(3) [OF v'(1)] d0(1) by simp
  moreover have "owner_of d1 = owner_of d0"
    using owner_of_frame [OF synced_tables(1,4) [OF v'(1)]] .
  ultimately show ?thesis using d0(2) by (auto simp: projectNotFound_def json_error_def)
qed

section \<open>A repository's namespace\<close>

lemma valid_name_no_slash: "validOIDCProjectName n \<Longrightarrow> CHR ''/'' \<notin> set n"
  by (auto simp: validOIDCProjectName_def name_tail_char_def is_lower_def is_digit_def list_all_iff split: list.splits)

lemma namespace_head:
  assumes "oidcAuthorizesProject root name" "CHR ''/'' \<notin> set root"
  shows "fst (cut_at (CHR ''/'') name) = root"
  using assms by (auto simp: oidcAuthorizesProject_def has_prefix_iff)

lemma renamed_in_place: "fst (cut_at (CHR ''/'') name) = root \<Longrightarrow> renamedNamespaceName name root = []"
  by (cases "cut_at (CHR ''/'') name") (simp add: renamedNamespaceName_def)

text \<open>the root a repository's projects are moved to is the project its tokens act for. A
  project in the namespace of a token is left where it is by the rename that follows the
  token's repository, and every project that is moved ends up in that namespace.\<close>

theorem namespace_stable:
  assumes "cl_repository c = [] \<or> validRepoPath (trimRepoPathIDs (cl_repository c))"
    and "root = repoNamespaceRoot (repoPath c)" and "root \<noteq> []"
  shows "(oidcAuthorizesProject (projectName c) (p_name p) \<longrightarrow> follow_repo now root p d = d)
    \<and> (renamedNamespaceName name root \<noteq> [] \<longrightarrow>
         oidcAuthorizesProject (projectName c) (renamedNamespaceName name root))"
proof -
  have root: "projectName c = root" using root_of_repoPath [OF assms(1)] assms(2,3) by simp
  have "CHR ''/'' \<notin> set root" using projectName_valid [of c] assms(3) root valid_name_no_slash by simp
  then have "follow_repo now root p d = d" if "oidcAuthorizesProject root (p_name p)"
    using renamed_in_place [OF namespace_head [OF that]] by (simp add: follow_repo_def)
  moreover have "oidcAuthorizesProject root (renamedNamespaceName name root)" if "renamedNamespaceName name root \<noteq> []"
    using that assms(3) by (auto simp: renamedNamespaceName_def oidcAuthorizesProject_def split: prod.splits if_splits)
      (metis append_assoc has_prefix_append append_Cons append_Nil)+
  ultimately show ?thesis by (simp add: root)
qed

section \<open>The visibility of a refused token\<close>

lemma SyncAutoPrivate_stored:
  assumes "SyncAutoPrivate now p a d = (d', Inr p')" "q \<in> set (d_projects d')" "p_id q = p_id p"
  shows "p_is_private q = p_is_private p'"
  using assms
  by (auto simp: SyncAutoPrivate_def applyProjectVisibility_def bind_db_Inr ApplyProjectPrivate_def split: if_splits)

lemma uncovered_folders: "\<forall>f \<in> set fs. \<not> FolderCovers (vf_prefix f) name \<Longrightarrow> pick_folder name fs acc = acc"
  by (induction fs arbitrary: acc) auto

lemma report_decides:
  assumes "current p d" "vis_inv d" "pv_mode (row_of p d) = VisibilityAuto"
    and "\<forall>f \<in> set (d_folders d). \<not> FolderCovers (vf_prefix f) (p_name p)"
  shows "\<exists>d' p'. SyncAutoPrivate now p a d = (d', Inr p') \<and> idn d' = idn d
    \<and> (\<forall>q \<in> set (d_projects d'). p_id q = p_id p \<longrightarrow> p_is_private q = a)"
proof -
  have "pick_folder (p_name p) (ListVisibilityFolders d) ([], VisibilityAuto) = ([], VisibilityAuto)"
    using assms(4) by (intro uncovered_folders) (simp add: ListVisibilityFolders_def)
  then have "resolved d (p_name p) ((row_of p d)\<lparr>pv_auto_private := a\<rparr>) = a"
    using assms(3) by (simp add: resolved_def resolveProject_def Apply_def VisibilityAuto_def VisibilityPublic_def VisibilityPrivate_def)
  with SyncAutoPrivate_spec [OF assms(1,2), of now a] SyncAutoPrivate_stored show ?thesis by fastforce
qed

text \<open>C31: the visibility a token reports is applied before its identity is checked. A project that is
  private, under no operator rule (its own mode is automatic and no folder rule covers it) and pinned to a
  repository, is read with a CI token for a public repository of another id whose name entitles it to the project's
  namespace: the request is refused, and the project is public afterwards, whatever database it is in.\<close>

theorem refused_token_publishes:
  assumes "vis_inv d" and "pv_mode (row_of p d) = VisibilityAuto"
    and "\<forall>f \<in> set (d_folders d). \<not> FolderCovers (vf_prefix f) (p_name p)"
    and "rt_access ri \<noteq> WriteAccess" and "rt_project ri \<noteq> []" and "ResolveProject (rt_project ri) d = Inr (p, b)"
    and "p_is_private p" and "p_github_repo_id p \<noteq> []" and "p_github_repo_id p \<noteq> ri_repo_id (cx_oidc_repo ctx)"
    and "cx_token ctx \<noteq> None" and "oidcAuthorizesProject (cx_oidc_project ctx) (p_name p)"
    and "cx_oidc_private ctx = Some False"
    and "ri_path (cx_oidc_repo ctx) \<noteq> []" and "ri_owner_id (cx_oidc_repo ctx) \<noteq> []" and "ri_repo_id (cx_oidc_repo ctx) \<noteq> []"
  shows "\<exists>d' resp. requireProject now gh r ri ctx d = (d', Inl resp)
    \<and> rs_status resp = (if rt_access ri = HiddenReadAccess then 404 else 403)
    \<and> p \<in> set (d_projects d) \<and> p_id p \<in> p_id ` set (d_projects d')
    \<and> (\<forall>q \<in> set (d_projects d'). p_id q = p_id p \<longrightarrow> \<not> p_is_private q)"
proof -
  have p: "p \<in> set (d_projects d)" using resolve_member [OF assms(6)] .
  then have "current p d" by (auto simp: current_def idn_def)
  from report_decides [OF this assms(1-3), of now False] obtain d' p'
    where sync: "SyncAutoPrivate now p False d = (d', Inr p')" "idn d' = idn d"
      "\<forall>q \<in> set (d_projects d'). p_id q = p_id p \<longrightarrow> \<not> p_is_private q" by auto
  then have v: "sync_visibility now ctx p d = (d', p')" using assms(12) by (simp add: sync_visibility_def)
  let ?resp = "if rt_access ri = HiddenReadAccess then projectNotFound
    else json_error 403 (mismatch_message (cx_oidc_repo ctx) p')"
  have "pin_identity now (rt_access ri) (cx_oidc_repo ctx) p' d' = (d', Inl ?resp)"
    using assms(8,9,14,15) settled_fields [OF sync_visibility_frame(2) [OF v]] by (simp add: pin_identity_def)
  with assms(10,11,13) v have "sync_identity now gh (rt_access ri) ctx p d = (d', Inl ?resp)"
    by (auto simp: sync_identity_def Let_def oidcAuthorizesProject_def)
  moreover have "find_or_provision now gh r ri ctx d = (d, Inr p)" by (simp add: find_or_provision_def assms(6))
  ultimately have "requireProject now gh r ri ctx d = (d', Inl ?resp)"
    using assms(4,5) by (simp add: requireProject_def Let_def)
  moreover have "p_id p \<in> p_id ` set (d_projects d')"
    using sync(2) p by (force simp: idn_def dest!: arg_cong [of _ _ set])
  ultimately show ?thesis using sync(3) p by (auto simp: projectNotFound_def json_error_def)
qed

section \<open>Instances\<close>

definition demo_gh :: gh_env where
  "demo_gh = \<lparr>gh_enabled = False, gh_session_access = (\<lambda>_ _ _. (False, False)), gh_permission = (\<lambda>_ _. (False, [])),
     gh_branch = (\<lambda>_. ''master''), gh_login_url = (\<lambda>_. [])\<rparr>"

definition demo_req :: request where
  "demo_req = \<lparr>rq_method = ''GET'', rq_path = ''/web'', rq_query = [], rq_headers = [], rq_path_id = [],
     rq_token = None, rq_content_length = 0, rq_has_body = False, rq_body = \<lparr>rd_segs = [], rd_end = IoEOF, rd_eager = False\<rparr>\<rparr>"

definition demo_route :: "AccessLevel \<Rightarrow> route_info" where
  "demo_route access = \<lparr>rt_project = ''web'', rt_access = access, rt_build_visibility = None, rt_public_read = None\<rparr>"

text \<open>The token of a public repository \<open>acme/web\<close> with the given repository id.\<close>

definition demo_ctx :: "string \<Rightarrow> auth_ctx" where
  "demo_ctx rid = empty_ctx\<lparr>cx_token := Some (oidc_token demo_claims None ''read,write''), cx_oidc_project := ''web'',
     cx_oidc_private := Some False, cx_oidc_repo := no_repo\<lparr>ri_path := ''acme/web'', ri_issuer := GitHubActionsIssuer,
       ri_owner_id := ''42'', ri_repo_id := rid\<rparr>\<rparr>"

text \<open>A private project pinned to repository 7.\<close>

definition demo_gate_db :: db where
  "demo_gate_db = empty_db\<lparr>d_projects := [(new_project 1 ''web'' True)\<lparr>p_github_repo := ''acme/web'',
       p_github_owner_id := ''42'', p_github_repo_id := ''7''\<rparr>], d_project_seq := 1\<rparr>"

lemma demo_gate_ok: "name_inv demo_gate_db"
  by code_simp

theorem refused_token_publishes_witness:
  "p_is_private (hd (d_projects demo_gate_db))
   \<and> (\<exists>d' resp. requireProject 9 demo_gh demo_req (demo_route ReadAccess) (demo_ctx ''8'') demo_gate_db = (d', Inl resp)
        \<and> rs_status resp = 403 \<and> (\<forall>q \<in> set (d_projects d'). p_id q = 1 \<longrightarrow> \<not> p_is_private q))"
proof -
  let ?p = "hd (d_projects demo_gate_db)" and ?ri = "demo_route ReadAccess" and ?ctx = "demo_ctx ''8''"
  have inv: "vis_inv demo_gate_db"
    by (simp add: vis_inv_except_def vis_ok_def GetProjectVisibilityRow_def demo_gate_db_def empty_db_def find_first_def)
  have p: "p_id ?p = 1" "p_is_private ?p" by code_simp+
  have h: "pv_mode (row_of ?p demo_gate_db) = VisibilityAuto"
    "\<forall>f \<in> set (d_folders demo_gate_db). \<not> FolderCovers (vf_prefix f) (p_name ?p)"
    "rt_access ?ri \<noteq> WriteAccess" "rt_project ?ri \<noteq> []" "ResolveProject (rt_project ?ri) demo_gate_db = Inr (?p, False)"
    by code_simp+
  have k: "p_github_repo_id ?p \<noteq> []" "p_github_repo_id ?p \<noteq> ri_repo_id (cx_oidc_repo ?ctx)" "cx_token ?ctx \<noteq> None"
    "oidcAuthorizesProject (cx_oidc_project ?ctx) (p_name ?p)" "cx_oidc_private ?ctx = Some False"
    "ri_path (cx_oidc_repo ?ctx) \<noteq> []" "ri_owner_id (cx_oidc_repo ?ctx) \<noteq> []" "ri_repo_id (cx_oidc_repo ?ctx) \<noteq> []"
    by code_simp+
  have "rt_access ?ri \<noteq> HiddenReadAccess" by (simp add: demo_route_def)
  with refused_token_publishes [OF inv h p(2) k, of 9 demo_gh demo_req] p show ?thesis by auto
qed

theorem reads_only_sync_witness:
  "\<exists>d' resp. requireProject 9 demo_gh demo_req (demo_route ReadAccess) (demo_ctx ''8'') demo_gate_db = (d', Inl resp)
     \<and> map settled (d_projects d') = map settled (d_projects demo_gate_db)"
proof -
  obtain d' res where run: "requireProject 9 demo_gh demo_req (demo_route ReadAccess) (demo_ctx ''8'') demo_gate_db = (d', res)"
    by (metis surj_pair)
  have "isl (snd (requireProject 9 demo_gh demo_req (demo_route ReadAccess) (demo_ctx ''8'') demo_gate_db))" by code_simp
  with run reads_only_sync [OF _ run] show ?thesis by (cases res) (simp_all add: demo_route_def)
qed

theorem hidden_refusal_uniform_witness:
  "requireProject 9 demo_gh demo_req (demo_route HiddenReadAccess) (demo_ctx ''8'') empty_db = (empty_db, Inl projectNotFound)"
proof -
  have "snd (requireProject 9 demo_gh demo_req (demo_route HiddenReadAccess) (demo_ctx ''8'') demo_gate_db) = Inl projectNotFound"
    by code_simp
  then have run: "requireProject 9 demo_gh demo_req (demo_route HiddenReadAccess) (demo_ctx ''8'') demo_gate_db =
      (fst (requireProject 9 demo_gh demo_req (demo_route HiddenReadAccess) (demo_ctx ''8'') demo_gate_db), Inl projectNotFound)"
    by (metis prod.collapse)
  have "ResolveProject (rt_project (demo_route HiddenReadAccess)) empty_db = Inl ErrNotFound" by code_simp
  from hidden_refusal_uniform [OF _ _ run this, of "demo_ctx ''8''"] show ?thesis by (simp add: demo_route_def)
qed

theorem write_needs_authority_witness:
  "\<exists>d' ctx'. requireProject 9 demo_gh demo_req (demo_route WriteAccess) (demo_ctx ''7'') demo_gate_db = (d', Inr ctx')
     \<and> (\<exists>t p. cx_token (demo_ctx ''7'') = Some t \<and> cx_project ctx' = Some p \<and> HasScope t ''write'' \<and> p_github_repo_id p = ''7'')"
proof -
  let ?run = "requireProject 9 demo_gh demo_req (demo_route WriteAccess) (demo_ctx ''7'') demo_gate_db"
  have "\<not> isl (snd ?run)" by code_simp
  then obtain d' ctx' where run: "?run = (d', Inr ctx')" by (metis isl_def prod.collapse sum.exhaust)
  have "rt_access (demo_route WriteAccess) = WriteAccess" by (simp add: demo_route_def)
  from write_needs_authority [OF this run] run show ?thesis
    by (fastforce simp: demo_ctx_def no_repo_def)
qed

theorem private_read_justified_witness:
  "\<exists>d' ctx'. requireProject 9 demo_gh demo_req (demo_route ReadAccess) ((demo_ctx ''7'')\<lparr>cx_oidc_private := Some True\<rparr>)
      demo_gate_db = (d', Inr ctx') \<and> ReadIsPrivate ctx'
     \<and> (\<exists>t. cx_token (demo_ctx ''7'') = Some t \<and> HasScope t ''read'')"
proof -
  let ?ctx = "(demo_ctx ''7'')\<lparr>cx_oidc_private := Some True\<rparr>"
  let ?run = "requireProject 9 demo_gh demo_req (demo_route ReadAccess) ?ctx demo_gate_db"
  have "case snd ?run of Inl _ \<Rightarrow> False | Inr c \<Rightarrow> ReadIsPrivate c" by code_simp
  then obtain d' ctx' where run: "?run = (d', Inr ctx')" "ReadIsPrivate ctx'"
    by (cases ?run) (auto split: sum.splits)
  have access: "rt_access (demo_route ReadAccess) \<noteq> WriteAccess" by (simp add: demo_route_def)
  from private_read_justified [OF access run(1)] run show ?thesis
    by (auto simp: demo_route_def demo_gh_def demo_ctx_def UserFrom_def empty_ctx_def)
qed

theorem foreign_identity_refused_witness:
  "\<exists>d' resp. requireProject 9 demo_gh demo_req (demo_route WriteAccess) (demo_ctx ''8'') demo_gate_db = (d', Inl resp)
     \<and> rs_status resp = 403 \<and> pins d' = pins demo_gate_db"
proof -
  let ?p = "hd (d_projects demo_gate_db)"
  have h: "rt_project (demo_route WriteAccess) \<noteq> []"
    "ResolveProject (rt_project (demo_route WriteAccess)) demo_gate_db = Inr (?p, False)" "cx_token (demo_ctx ''8'') \<noteq> None"
    "oidcAuthorizesProject (cx_oidc_project (demo_ctx ''8'')) (p_name ?p)" "ri_path (cx_oidc_repo (demo_ctx ''8'')) \<noteq> []"
    "ri_owner_id (cx_oidc_repo (demo_ctx ''8'')) \<noteq> []" "ri_repo_id (cx_oidc_repo (demo_ctx ''8'')) \<noteq> []"
    "p_github_owner_id ?p \<noteq> [] \<or> p_github_repo_id ?p \<noteq> []" "p_github_repo_id ?p \<noteq> ri_repo_id (cx_oidc_repo (demo_ctx ''8''))"
    by code_simp+
  have "rt_access (demo_route WriteAccess) \<noteq> HiddenReadAccess" by (simp add: demo_route_def)
  with foreign_identity_refused [OF demo_gate_ok h, of 9 demo_gh demo_req] show ?thesis by auto
qed

theorem namespace_stable_witness:
  "follow_repo 9 ''web.app'' (new_project 3 ''web.app/cli'' False) empty_db = empty_db
   \<and> oidcAuthorizesProject (projectName demo_claims) ''web.app/tool''"
proof -
  have facts: "validRepoPath (trimRepoPathIDs (cl_repository demo_claims))"
    "repoNamespaceRoot (repoPath demo_claims) = ''web.app''"
    "oidcAuthorizesProject (projectName demo_claims) ''web.app/cli''"
    "renamedNamespaceName ''old/tool'' ''web.app'' = ''web.app/tool''" by code_simp+
  from namespace_stable [OF disjI2 [OF facts(1)] facts(2) [symmetric], of "new_project 3 ''web.app/cli'' False" 9 empty_db "''old/tool''"]
    facts(3,4) show ?thesis by (simp add: new_project_def)
qed

end
