(* ===== verification/Release_Api.thy ===== *)
theory Release_Api
  imports Project_Gate Releases
begin

text \<open>
  Creating projects and releases over HTTP: \<open>internal/api/projects.go\<close>, \<open>depends.go\<close>,
  \<open>releases.go\<close> and the helpers of \<open>handler.go\<close> they use. The functions generated from the
  regular expressions of names, versions, branches and commits are the fields of
  \<open>validators\<close>. A handler gets the decoded body, or \<open>None\<close> when decoding failed, and answers a
  \<open>reply\<close>; where the program prints a sentence about a refused dependency the reply holds the
  reason. The project in the context of a request is an argument, as the gate left it.

  Between two statements of one request other requests may change the database. The creation
  of a release, whose retries exist for that, takes what they do as a list of functions, one
  for each try; every other handler runs alone.
\<close>

section \<open>Requests and replies\<close>

record validators =
  validProjectNameRegex :: "string \<Rightarrow> bool"
  validVersion :: "string \<Rightarrow> bool"
  validGitBranch :: "string \<Rightarrow> bool"
  validGitCommit :: "string \<Rightarrow> bool"
  aptRelation :: "string \<Rightarrow> bool"

datatype depends_error =
    TooManyDepends
  | NotAProjectName string
  | UnknownProject string
  | DependsOnItself
  | DependsCycle

datatype refusal = Msg string | DependsRefused depends_error | AptDependsRefused db_error

datatype reply =
    Refuse int refusal
  | ProjectReply int project
  | ProjectsReply int "project list"
  | ReleaseReply int release
  | ReleasesReply int "release list"

record create_project_request =
  cp_name :: string
  cp_description :: string
  cp_homepage :: string
  cp_license :: string
  cp_is_private :: bool
  cp_versioning :: string

record update_project_request =
  up_create_service :: "bool option"
  up_apt_depends :: "string option"
  up_depends :: "string list option"
  up_versioning :: bool

record create_release_request =
  cr_version :: string
  cr_git_branch :: string
  cr_git_commit :: string
  cr_default_branch :: string
  cr_create_service :: "bool option"
  cr_apt_depends :: "string option"
  cr_depends :: "string list option"
  cr_notes :: string
  cr_oci_user :: string
  cr_draft :: bool

definition requireWrite :: "auth_ctx \<Rightarrow> reply option" where
  "requireWrite ctx =
     (case cx_token ctx of
        None \<Rightarrow> Some (Refuse 401 (Msg ''authentication required''))
      | Some t \<Rightarrow> if HasScope t ''write'' then None else Some (Refuse 401 (Msg ''authentication required'')))"

section \<open>Dependencies\<close>

definition maxProjectNameLen :: nat where "maxProjectNameLen = 255"

definition validProjectName :: "validators \<Rightarrow> string \<Rightarrow> bool" where
  "validProjectName v s \<longleftrightarrow> length s \<ge> 1 \<and> length s \<le> maxProjectNameLen \<and> validProjectNameRegex v s"

text \<open>The names that a queue of names can lead to.\<close>

definition dependency_names :: "db \<Rightarrow> string set" where
  "dependency_names d = (\<Union>p \<in> set (d_projects d). set (DependsOn p))"

lemma finite_dependency_names [simp]: "finite (dependency_names d)"
  by (simp add: dependency_names_def)

lemma ResolveProject_row:
  "ResolveProject n d = Inr (p, a) \<Longrightarrow> p \<in> set (d_projects d)"
  by (auto simp: ResolveProject_def GetProject_def GetProjectByName_def GetProjectByAlias_def
      split: option.splits sum.splits dest!: find_first_Some project_by_id_Some)

lemma DependsOn_names: "ResolveProject n d = Inr (p, a) \<Longrightarrow> set (DependsOn p) \<subseteq> dependency_names d"
  unfolding dependency_names_def by (blast dest: ResolveProject_row)

function cycle_loop :: "db \<Rightarrow> int \<Rightarrow> string list \<Rightarrow> string list \<Rightarrow> bool" where
  "cycle_loop d i seen [] = False"
| "cycle_loop d i seen (name # queue) =
     (if name \<in> set seen then cycle_loop d i seen queue
      else case ResolveProject name d of
        Inl _ \<Rightarrow> cycle_loop d i (name # seen) queue
      | Inr (p, _) \<Rightarrow>
          if p_id p = i then True else cycle_loop d i (name # seen) (queue @ DependsOn p))"
  by pat_completeness auto

text \<open>Every name leaves the queue; one that is new among those the dependencies can name is
  then seen, and there are finitely many of them.\<close>

definition unseen :: "db \<Rightarrow> string list \<Rightarrow> string list \<Rightarrow> nat" where
  "unseen d seen queue = card ((dependency_names d \<union> set queue) - set seen)"

lemma unseen_less:
  assumes "name \<notin> set seen" "set extra \<subseteq> dependency_names d"
  shows "unseen d (name # seen) (queue @ extra) < unseen d seen (name # queue)"
  unfolding unseen_def using assms by (intro psubset_card_mono) auto

lemma unseen_same: "name \<in> set seen \<Longrightarrow> unseen d seen (name # queue) = unseen d seen queue"
  unfolding unseen_def by (rule arg_cong [where f = card]) auto

termination cycle_loop
  by (relation "measures [\<lambda>(d, i, seen, queue). unseen d seen queue, \<lambda>(d, i, seen, queue). length queue]")
    (use unseen_less [of _ _ "[]"] in \<open>auto simp: unseen_same intro!: unseen_less dest: DependsOn_names\<close>)

definition refuseDependsCycle :: "project \<Rightarrow> string list \<Rightarrow> db \<Rightarrow> depends_error option" where
  "refuseDependsCycle project deps d = (if cycle_loop d (p_id project) [] deps then Some DependsCycle else None)"

fun resolve_names :: "validators \<Rightarrow> gh_env \<Rightarrow> auth_ctx \<Rightarrow> project \<Rightarrow> db \<Rightarrow> string list \<Rightarrow> string list
    \<Rightarrow> depends_error + string list" where
  "resolve_names v gh ctx project d [] acc = Inr acc"
| "resolve_names v gh ctx project d (name # names) acc =
     (if \<not> validProjectName v name then Inl (NotAProjectName name)
      else case ResolveProject name d of
        Inl _ \<Rightarrow> Inl (UnknownProject name)
      | Inr (dep, _) \<Rightarrow>
          if \<not> TokenCanReadProject gh ctx dep then Inl (UnknownProject name)
          else if p_id dep = p_id project then Inl DependsOnItself
          else resolve_names v gh ctx project d names (acc @ [p_name dep]))"

definition resolveDepends :: "validators \<Rightarrow> gh_env \<Rightarrow> auth_ctx \<Rightarrow> project \<Rightarrow> string list \<Rightarrow> db
    \<Rightarrow> depends_error + string list" where
  "resolveDepends v gh ctx project names d =
     (if length names > MaxDepends then Inl TooManyDepends
      else bind_res (resolve_names v gh ctx project d names []) (\<lambda>acc.
        let acc = remdups_adj (sort acc) in
        case refuseDependsCycle project acc d of Some e \<Rightarrow> Inl e | None \<Rightarrow> Inr acc))"

text \<open>The project with the stored list, or the reply that ends the request.\<close>

definition applyDepends :: "time \<Rightarrow> validators \<Rightarrow> gh_env \<Rightarrow> auth_ctx \<Rightarrow> project \<Rightarrow> string list option \<Rightarrow> db
    \<Rightarrow> db \<times> (reply + project)" where
  "applyDepends now v gh ctx project names d =
     (case names of
        None \<Rightarrow> (d, Inr project)
      | Some ns \<Rightarrow>
          (case resolveDepends v gh ctx project ns d of
             Inl e \<Rightarrow> (d, Inl (Refuse 400 (DependsRefused e)))
           | Inr deps \<Rightarrow>
               if deps = DependsOn project then (d, Inr project)
               else (case SetProjectDepends now (p_id project) deps d of
                       (d', Inl _) \<Rightarrow> (d', Inl (Refuse 500 (Msg ''failed to update project depends'')))
                     | (d', Inr _) \<Rightarrow> (d', Inr (project\<lparr>p_depends := join_with '','' deps\<rparr>)))))"

section \<open>Projects\<close>

definition handleCreateProject :: "time \<Rightarrow> validators \<Rightarrow> auth_ctx \<Rightarrow> create_project_request option \<Rightarrow> db \<Rightarrow> db \<times> reply" where
  "handleCreateProject now v ctx body d =
     (case requireWrite ctx of
        Some refusal \<Rightarrow> (d, refusal)
      | None \<Rightarrow>
     (case body of
        None \<Rightarrow> (d, Refuse 400 (Msg ''invalid request body''))
      | Some req \<Rightarrow>
     (let versioning = (if cp_versioning req = [] then VersioningAuto else cp_versioning req);
          p = (new_project 0 (cp_name req) (cp_is_private req))\<lparr>p_description := cp_description req,
                p_homepage := cp_homepage req, p_license := cp_license req, p_versioning := versioning\<rparr>
      in if cp_name req = [] then (d, Refuse 400 (Msg ''name is required''))
         else if \<not> validProjectName v (cp_name req) then (d, Refuse 400 (Msg ''name must be 1-255 chars''))
         else if ReservedProjectName (cp_name req) then (d, Refuse 400 (Msg ''a registry mirror prefix''))
         else if versioning \<noteq> VersioningAuto \<and> versioning \<noteq> VersioningSemver
         then (d, Refuse 400 (Msg ''versioning must be auto or semver''))
         else (case CreateProject now p d of
                 (d', Inr p') \<Rightarrow> (d', ProjectReply 201 p')
               | (d', Inl (ErrConflict _)) \<Rightarrow> (d', Refuse 409 (Msg ''project already exists''))
               | (d', Inl _) \<Rightarrow> (d', Refuse 500 (Msg ''failed to create project''))))))"

definition handleGetProject :: "project \<Rightarrow> reply" where
  "handleGetProject project = ProjectReply 200 project"

text \<open>The three settings of a project: each is written only when the request names it and it
  differs.\<close>

definition set_apt_depends :: "time \<Rightarrow> validators \<Rightarrow> string option \<Rightarrow> project \<Rightarrow> db \<Rightarrow> db \<times> (unit + project)" where
  "set_apt_depends now v deps project d =
     (case deps of
        None \<Rightarrow> (d, Inr project)
      | Some s \<Rightarrow>
          if s = p_apt_depends project then (d, Inr project)
          else (case SetProjectAptDepends (aptRelation v) now (p_id project) s d of
                  (d', Inl _) \<Rightarrow> (d', Inl ())
                | (d', Inr _) \<Rightarrow> (d', Inr (project\<lparr>p_apt_depends := s\<rparr>))))"

definition set_create_service :: "time \<Rightarrow> bool option \<Rightarrow> project \<Rightarrow> db \<Rightarrow> db \<times> project" where
  "set_create_service now flag project d =
     (case flag of
        None \<Rightarrow> (d, project)
      | Some b \<Rightarrow>
          if b = p_create_service project then (d, project)
          else (SetProjectCreateService now (p_id project) b d, project\<lparr>p_create_service := b\<rparr>))"

definition apt_refused :: "validators \<Rightarrow> string option \<Rightarrow> reply option" where
  "apt_refused v deps =
     (case deps of
        None \<Rightarrow> None
      | Some s \<Rightarrow> (case ValidateAptDepends (aptRelation v) s of
                    Inl e \<Rightarrow> Some (Refuse 400 (AptDependsRefused e)) | Inr _ \<Rightarrow> None))"

definition handleUpdateProjectSettings :: "time \<Rightarrow> validators \<Rightarrow> gh_env \<Rightarrow> auth_ctx \<Rightarrow> project
    \<Rightarrow> update_project_request option \<Rightarrow> db \<Rightarrow> db \<times> reply" where
  "handleUpdateProjectSettings now v gh ctx project body d =
     (case body of
        None \<Rightarrow> (d, Refuse 400 (Msg ''invalid request body''))
      | Some req \<Rightarrow>
     if up_versioning req then (d, Refuse 403 (Msg ''versioning is changed from the admin dashboard only''))
     else case apt_refused v (up_apt_depends req) of
       Some refusal \<Rightarrow> (d, refusal)
     | None \<Rightarrow>
     (case applyDepends now v gh ctx project (up_depends req) d of
        (d1, Inl refusal) \<Rightarrow> (d1, refusal)
      | (d1, Inr p1) \<Rightarrow>
     (case set_apt_depends now v (up_apt_depends req) p1 d1 of
        (d2, Inl _) \<Rightarrow> (d2, Refuse 500 (Msg ''failed to update project''))
      | (d2, Inr p2) \<Rightarrow>
     (case set_create_service now (up_create_service req) p2 d2 of
        (d3, p3) \<Rightarrow> (d3, ProjectReply 200 p3)))))"

definition handleListProjects :: "auth_ctx \<Rightarrow> db \<Rightarrow> reply" where
  "handleListProjects ctx d =
     ProjectsReply 200 (filter (\<lambda>p. \<not> p_is_private p \<or>
       (case cx_token ctx of None \<Rightarrow> False | Some t \<Rightarrow> HasScope t ''read'' \<and> AuthorizedForProject t (p_id p)))
       (ListAllProjects d))"

section \<open>Releases\<close>

text \<open>The version and number of a new release, and whether the server picked them.\<close>

definition pick_version :: "validators \<Rightarrow> project \<Rightarrow> string \<Rightarrow> db \<Rightarrow> reply + string \<times> int \<times> bool" where
  "pick_version v project req d =
     (if p_versioning project = VersioningAuto then
        (let nextNum = NextVersionNum (p_id project) d in
         case (if req \<noteq> [] then parse_int64 req else None) of
           Some num \<Rightarrow> Inr (req, num, False)
         | None \<Rightarrow> Inr (format_int nextNum, nextNum, True))
      else if req = [] then
        (let nextNum = NextVersionNum (p_id project) d in Inr (numToSemver nextNum, nextNum, False))
      else
        (let version = (if has_prefix req ''v'' then tl req else req) in
         if \<not> validVersion v version then Inl (Refuse 400 (Msg ''invalid version string''))
         else Inr (version, semverToNum version, False)))"

definition request_refused :: "validators \<Rightarrow> create_release_request \<Rightarrow> reply option" where
  "request_refused v req =
     (if cr_git_branch req \<noteq> [] \<and> \<not> validGitBranch v (cr_git_branch req) then Some (Refuse 400 (Msg ''invalid git_branch''))
      else if cr_default_branch req \<noteq> [] \<and> \<not> validGitBranch v (cr_default_branch req)
      then Some (Refuse 400 (Msg ''invalid default_branch''))
      else if cr_git_commit req \<noteq> [] \<and> \<not> validGitCommit v (cr_git_commit req) then Some (Refuse 400 (Msg ''invalid git_commit''))
      else if length (cr_notes req) > 65536 then Some (Refuse 400 (Msg ''notes too long''))
      else if cr_oci_user req \<noteq> [] \<and> \<not> validOCIUser (cr_oci_user req) then Some (Refuse 400 (Msg ''invalid oci_user''))
      else apt_refused v (cr_apt_depends req))"

text \<open>The insertion with its retries. Each element of \<open>env\<close> is what other requests do before
  the next statement group; when it is used up the request runs alone. The last argument says
  how often the context of the request is still alive when a retry asks.\<close>

definition step_env :: "(db \<Rightarrow> db) list \<Rightarrow> db \<Rightarrow> (db \<Rightarrow> db) list \<times> db" where
  "step_env env d = (case env of [] \<Rightarrow> ([], d) | f # fs \<Rightarrow> (fs, f d))"

partial_function (option) create_retry :: "time \<Rightarrow> (db \<Rightarrow> db) list \<Rightarrow> (nat \<Rightarrow> bool) \<Rightarrow> nat \<Rightarrow> bool \<Rightarrow> release \<Rightarrow> db
    \<Rightarrow> (db \<times> (db_error + release)) option" where
  "create_retry now env alive k picked rel d =
     (case step_env env d of (env', d1) \<Rightarrow>
      case CreateRelease now rel d1 of
        (d2, Inl (ErrConflict m)) \<Rightarrow>
          if picked \<and> alive k
          then (let num = max (NextVersionNum (r_project_id rel) d2) (wrap64 (r_version_num rel + 1))
                in create_retry now env' alive (k + 1) picked
                     (rel\<lparr>r_version_num := num, r_version := format_int num\<rparr>) d2)
          else Some (d2, Inl (ErrConflict m))
      | (d2, r) \<Rightarrow> Some (d2, r))"

definition new_release :: "project \<Rightarrow> string \<Rightarrow> int \<Rightarrow> create_release_request \<Rightarrow> release" where
  "new_release project version num req =
     \<lparr>r_id = 0, r_project_id = p_id project, r_version = version, r_version_num = num,
      r_git_branch = cr_git_branch req, r_git_commit = cr_git_commit req, r_notes = cr_notes req,
      r_oci_user = cr_oci_user req, r_published = False, r_draft = cr_draft req, r_created_at = 0,
      r_published_at = None\<rparr>"

definition handleCreateRelease :: "time \<Rightarrow> validators \<Rightarrow> gh_env \<Rightarrow> auth_ctx \<Rightarrow> (db \<Rightarrow> db) list \<Rightarrow> (nat \<Rightarrow> bool)
    \<Rightarrow> project \<Rightarrow> create_release_request option \<Rightarrow> db \<Rightarrow> (db \<times> reply) option" where
  "handleCreateRelease now v gh ctx env alive project body d =
     (case body of
        None \<Rightarrow> Some (d, Refuse 400 (Msg ''invalid request body''))
      | Some req \<Rightarrow>
     (case pick_version v project (cr_version req) d of
        Inl refusal \<Rightarrow> Some (d, refusal)
      | Inr (version, num, picked) \<Rightarrow>
     (case request_refused v req of
        Some refusal \<Rightarrow> Some (d, refusal)
      | None \<Rightarrow>
     (case applyDepends now v gh ctx project (cr_depends req) d of
        (d1, Inl refusal) \<Rightarrow> Some (d1, refusal)
      | (d1, Inr p1) \<Rightarrow>
     (case set_apt_depends now v (cr_apt_depends req) p1 d1 of
        (d2, Inl _) \<Rightarrow> Some (d2, Refuse 500 (Msg ''failed to update project apt_depends''))
      | (d2, Inr p2) \<Rightarrow>
     (case create_retry now env alive 0 picked (new_release project version num req)
             (fst (set_create_service now (cr_create_service req) p2 d2)) of
        None \<Rightarrow> None
      | Some (d4, Inl (ErrConflict _)) \<Rightarrow> Some (d4, Refuse 409 (Msg ''release already exists''))
      | Some (d4, Inl _) \<Rightarrow> Some (d4, Refuse 500 (Msg ''failed to create release''))
      | Some (d4, Inr rel) \<Rightarrow>
          Some (if cr_default_branch req \<noteq> [] \<and> cr_default_branch req \<noteq> p_default_branch project
                then SetProjectDefaultBranch now (p_id project) (cr_default_branch req) d4 else d4,
                ReleaseReply 201 rel)))))))"

definition handleListReleases :: "project \<Rightarrow> db \<Rightarrow> reply" where
  "handleListReleases project d = ReleasesReply 200 (ListReleases (p_id project) d)"

section \<open>The search for a cycle\<close>

text \<open>Which project depends on which: an edge for every name of a list that leads to a project.\<close>

definition dep_graph :: "db \<Rightarrow> (int \<times> int) set" where
  "dep_graph d = {(p_id p, j) | p j. p \<in> set (d_projects d) \<and> (\<exists>n \<in> set (DependsOn p). owner_of d n = Some j)}"

lemma owner_of_resolve: "owner_of d n = Some j \<longleftrightarrow> (\<exists>p a. ResolveProject n d = Inr (p, a) \<and> p_id p = j)"
  by (auto simp: owner_of_def split: sum.splits)

lemma search_cases:
  obtains (skip) "name \<in> set seen" | (gone) e where "name \<notin> set seen" "ResolveProject name d = Inl e"
    | (hit) p a where "name \<notin> set seen" "ResolveProject name d = Inr (p, a)" "p_id p = i"
    | (go) p a where "name \<notin> set seen" "ResolveProject name d = Inr (p, a)" "p_id p \<noteq> i"
  by (metis sum.exhaust prod.exhaust)

lemma cycle_loop_sound:
  "cycle_loop d i seen queue \<Longrightarrow> \<exists>n \<in> set queue. \<exists>j. owner_of d n = Some j \<and> (j, i) \<in> (dep_graph d)\<^sup>*"
proof (induction d i seen queue rule: cycle_loop.induct)
  case (1 d i seen)
  then show ?case by simp
next
  case (2 d i seen name queue)
  show ?case
  proof (cases rule: search_cases [where name = name and seen = seen and d = d and i = i])
    case skip
    with 2 show ?thesis by auto
  next
    case (gone e)
    with 2 show ?thesis by auto
  next
    case (hit p a)
    then show ?thesis by (auto simp: owner_of_resolve)
  next
    case (go p a)
    with 2 have "\<exists>n \<in> set (queue @ DependsOn p). \<exists>j. owner_of d n = Some j \<and> (j, i) \<in> (dep_graph d)\<^sup>*" by auto
    then obtain n j where n: "n \<in> set queue \<or> n \<in> set (DependsOn p)" "owner_of d n = Some j" "(j, i) \<in> (dep_graph d)\<^sup>*" by auto
    show ?thesis
    proof (cases "n \<in> set queue")
      case True
      with n show ?thesis by auto
    next
      case False
      with n have "(p_id p, j) \<in> dep_graph d" using ResolveProject_row [OF go(2)] by (auto simp: dep_graph_def)
      then have "(p_id p, i) \<in> (dep_graph d)\<^sup>*" using n(3) by (rule converse_rtrancl_into_rtrancl)
      with go(2) show ?thesis by (auto simp: owner_of_resolve)
    qed
  qed
qed

text \<open>A search that finds nothing leaves a set of names closed under dependency that does not
  lead to the project.\<close>

definition closed_names :: "db \<Rightarrow> int \<Rightarrow> string set \<Rightarrow> string set \<Rightarrow> bool" where
  "closed_names d i A B \<longleftrightarrow> (\<forall>n \<in> A. \<forall>p a. ResolveProject n d = Inr (p, a) \<longrightarrow> p_id p \<noteq> i \<and> set (DependsOn p) \<subseteq> B)"

lemma cycle_loop_complete:
  "\<not> cycle_loop d i seen queue \<Longrightarrow> closed_names d i (set seen) (set seen \<union> set queue) \<Longrightarrow>
   \<exists>S. set seen \<union> set queue \<subseteq> S \<and> closed_names d i S S"
proof (induction d i seen queue rule: cycle_loop.induct)
  case (1 d i seen)
  then show ?case by auto
next
  case (2 d i seen name queue)
  show ?case
  proof (cases rule: search_cases [where name = name and seen = seen and d = d and i = i])
    case skip
    then have "set seen \<union> set (name # queue) = set seen \<union> set queue" by auto
    with 2 skip show ?thesis by auto
  next
    case (gone e)
    with 2(5) have "closed_names d i (set (name # seen)) (set (name # seen) \<union> set queue)"
      by (auto simp: closed_names_def)
    with 2 gone show ?thesis by auto
  next
    case (hit p a)
    with 2(4) show ?thesis by simp
  next
    case (go p a)
    have "closed_names d i (set (name # seen)) (set (name # seen) \<union> set (queue @ DependsOn p))"
      using 2(5) go by (fastforce simp: closed_names_def)
    with 2(3) [OF go(1,2) refl go(3)] 2(4) go obtain S where
      "set (name # seen) \<union> set (queue @ DependsOn p) \<subseteq> S" "closed_names d i S S" by auto
    then show ?thesis by (intro exI [of _ S]) auto
  qed
qed

lemma closed_names_reach:
  assumes "closed_names d i S S" "distinct (map p_id (d_projects d))" "n \<in> S" "owner_of d n = Some j" "(j, k) \<in> (dep_graph d)\<^sup>*"
  shows "\<exists>m \<in> S. owner_of d m = Some k"
  using assms(5)
proof (induction rule: rtrancl_induct)
  case base
  with assms(3,4) show ?case by blast
next
  case (step k l)
  then obtain m p a where m: "m \<in> S" "ResolveProject m d = Inr (p, a)" "p_id p = k" by (auto simp: owner_of_resolve)
  from step.hyps obtain q n' where q: "q \<in> set (d_projects d)" "p_id q = k" "n' \<in> set (DependsOn q)" "owner_of d n' = Some l"
    by (auto simp: dep_graph_def)
  from q m have "q = p" using assms(2) ResolveProject_row by (metis distinct_map inj_onD)
  with q m assms(1) have "n' \<in> S" by (auto simp: closed_names_def)
  with q show ?case by blast
qed

lemma cycle_iff:
  assumes "distinct (map p_id (d_projects d))"
  shows "cycle_loop d i [] deps \<longleftrightarrow> (\<exists>n \<in> set deps. \<exists>j. owner_of d n = Some j \<and> (j, i) \<in> (dep_graph d)\<^sup>*)"
proof
  assume reach: "\<exists>n \<in> set deps. \<exists>j. owner_of d n = Some j \<and> (j, i) \<in> (dep_graph d)\<^sup>*"
  show "cycle_loop d i [] deps"
  proof (rule ccontr)
    assume "\<not> cycle_loop d i [] deps"
    from cycle_loop_complete [OF this] obtain S where S: "set deps \<subseteq> S" "closed_names d i S S"
      by (auto simp: closed_names_def)
    with reach closed_names_reach [OF S(2) assms] obtain m where "m \<in> S" "owner_of d m = Some i" by blast
    with S(2) show False by (auto simp: closed_names_def owner_of_resolve)
  qed
qed (use cycle_loop_sound in blast)

text \<open>The search for a dependency cycle ends, whatever cycles the stored lists already have, and
  refuses exactly the lists with a name from which the project is reached.\<close>

theorem depends_cycle_exact:
  assumes "distinct (map p_id (d_projects d))"
  shows "refuseDependsCycle project deps d =
    (if \<exists>n \<in> set deps. \<exists>j. owner_of d n = Some j \<and> (j, p_id project) \<in> (dep_graph d)\<^sup>* then Some DependsCycle else None)"
  using cycle_iff [OF assms] by (simp add: refuseDependsCycle_def)

section \<open>The graph of dependencies stays acyclic\<close>

lemma owner_of_update:
  assumes "\<And>p. p_id (f p) = p_id p" "\<And>p. p_name (f p) = p_name p"
  shows "owner_of (update_project now i f d) = owner_of d"
proof
  fix n
  let ?g = "\<lambda>p. if p_id p = i then (f p)\<lparr>p_updated_at := now\<rparr> else p"
  have proj: "d_projects (update_project now i f d) = map ?g (d_projects d)" by (simp add: update_project_def)
  have by_id: "project_by_id k (update_project now i f d) = map_option ?g (project_by_id k d)" for k
    unfolding project_by_id_def proj find_first_map
    by (rule arg_cong [where f = "map_option ?g"], rule find_first_cong) (simp add: assms)
  have by_name: "GetProjectByName m (update_project now i f d) = map_option ?g (GetProjectByName m d)" for m
    unfolding GetProjectByName_def proj find_first_map
    by (rule arg_cong [where f = "map_option ?g"], rule find_first_cong) (simp add: assms)
  have "GetProjectByAlias m (update_project now i f d) = map_option ?g (GetProjectByAlias m d)" for m
    by (auto simp: GetProjectByAlias_def by_id split: option.split)
  then show "owner_of (update_project now i f d) n = owner_of d n"
    by (auto simp: owner_of_def ResolveProject_def GetProject_def by_name assms split: option.split sum.split)
qed

lemma dep_graph_UN:
  "dep_graph d = (\<Union>p \<in> set (d_projects d). {p_id p} \<times> {j. \<exists>n \<in> set (DependsOn p). owner_of d n = Some j})"
  by (auto simp: dep_graph_def)

lemma dep_graph_same:
  assumes "\<And>p. p_id (f p) = p_id p" "\<And>p. p_name (f p) = p_name p" "\<And>p. p_depends (f p) = p_depends p"
  shows "dep_graph (update_project now i f d) = dep_graph d"
proof -
  let ?g = "\<lambda>p. if p_id p = i then (f p)\<lparr>p_updated_at := now\<rparr> else p"
  have g: "p_id (?g p) = p_id p" "DependsOn (?g p) = DependsOn p" for p by (simp_all add: assms DependsOn_def)
  have "set (d_projects (update_project now i f d)) = ?g ` set (d_projects d)" by (simp add: update_project_def)
  then show ?thesis unfolding dep_graph_UN owner_of_update [OF assms(1,2)] by (simp only: UN_simps g)
qed

lemma dep_graph_frame:
  assumes "d_projects d' = d_projects d" "d_aliases d' = d_aliases d"
  shows "dep_graph d' = dep_graph d"
proof -
  have "project_by_id k d' = project_by_id k d" for k using assms(1) by (simp add: project_by_id_def)
  then have "GetProjectByAlias n d' = GetProjectByAlias n d" "GetProjectByName n d' = GetProjectByName n d" for n
    using assms by (auto simp: GetProjectByAlias_def GetProjectByName_def split: option.split)
  then have "owner_of d' = owner_of d"
    by (auto simp: fun_eq_iff owner_of_def ResolveProject_def GetProject_def split: option.split sum.split)
  with assms(1) show ?thesis by (simp add: dep_graph_def)
qed

lemma dep_graph_update:
  assumes "distinct (map p_id (d_projects d))" "\<forall>n \<in> set ns. good_name n"
  shows "dep_graph (set_depends_row now i (joinDepends ns) d)
    \<subseteq> dep_graph d \<union> {(i, j) | j. \<exists>n \<in> set ns. owner_of d n = Some j}"
proof -
  have deps: "set (DependsOn (p\<lparr>p_depends := joinDepends ns, p_updated_at := now\<rparr>)) = set ns" for p
    using Parse_joinDepends [OF assms(2)] by (simp add: DependsOn_def)
  show ?thesis
    unfolding dep_graph_def set_depends_row_def
    by (subst owner_of_update) (auto simp: update_project_def deps)
qed

lemma contains_comma: "contains_str n '','' \<longleftrightarrow> CHR '','' \<in> set n"
  by (auto simp: contains_str_iff in_set_conv_decomp)

lemma applyDepends_acyclic:
  assumes "applyDepends now v gh ctx project names d = (d', r)" and "acyclic (dep_graph d)"
    and "distinct (map p_id (d_projects d))"
  shows "acyclic (dep_graph d')"
proof (cases "d' = d")
  case True
  with assms(2) show ?thesis by simp
next
  case False
  with assms(1) obtain ns deps where ns: "names = Some ns" "resolveDepends v gh ctx project ns d = Inr deps"
    "\<exists>r. SetProjectDepends now (p_id project) deps d = (d', r)"
    by (auto simp: applyDepends_def split: option.splits sum.splits if_splits prod.splits)
  from ns(3) False have good: "\<forall>n \<in> set deps. good_name n"
    and d': "d' = set_depends_row now (p_id project) (joinDepends deps) d"
    by (auto simp: SetProjectDepends_def good_name_def list_ex_iff contains_comma split: if_splits)
  from ns(2) have "\<not> cycle_loop d (p_id project) [] deps"
    by (auto simp: resolveDepends_def refuseDependsCycle_def bind_res_Inr Let_def split: if_splits)
  then have "\<forall>j. (\<exists>n \<in> set deps. owner_of d n = Some j) \<longrightarrow> (j, p_id project) \<notin> (dep_graph d)\<^sup>*"
    using cycle_iff [OF assms(3)] by blast
  with assms(2) have "acyclic (dep_graph d \<union> {(p_id project, j) | j. \<exists>n \<in> set deps. owner_of d n = Some j})"
    using acyclic_fan [of "dep_graph d" "{j. \<exists>n \<in> set deps. owner_of d n = Some j}" "p_id project"] by simp
  then show ?thesis unfolding d' using dep_graph_update [OF assms(3) good] by (rule acyclic_subset)
qed

lemma set_apt_depends_graph: "set_apt_depends now v s p d = (d', x) \<Longrightarrow> dep_graph d' = dep_graph d"
  by (auto simp: set_apt_depends_def SetProjectAptDepends_def dep_graph_same split: option.splits sum.splits if_splits)

lemma set_create_service_graph: "set_create_service now b p d = (d', x) \<Longrightarrow> dep_graph d' = dep_graph d"
  by (auto simp: set_create_service_def SetProjectCreateService_def dep_graph_same split: option.splits if_splits)

lemma CreateRelease_frame:
  "CreateRelease now r d = (d', x) \<Longrightarrow> d_projects d' = d_projects d \<and> d_aliases d' = d_aliases d"
  by (auto simp: CreateRelease_def InsertRelease_def Let_def split: if_splits)

lemma create_retry_frame:
  "create_retry now env alive k picked rel d = Some y \<Longrightarrow> env = [] \<Longrightarrow>
   d_projects (fst y) = d_projects d \<and> d_aliases (fst y) = d_aliases d"
proof (induction rule: create_retry.raw_induct [rotated, consumes 1, case_names step])
  case (step f now env alive k picked rel d y)
  obtain d1 z where c: "CreateRelease now rel d = (d1, z)" by fastforce
  note same = CreateRelease_frame [OF c]
  show ?case
  proof (cases "(\<exists>m. z = Inl (ErrConflict m)) \<and> picked \<and> alive k")
    case True
    then obtain rel' where "f now [] alive (k + 1) picked rel' d1 = Some y"
      using step.hyps step.prems c by (auto simp: step_env_def Let_def)
    from step.IH [OF this] same show ?thesis by simp
  next
    case False
    then have "y = (d1, z)"
      using step.hyps step.prems c by (auto simp: step_env_def split: sum.splits db_error.splits if_splits)
    with same show ?thesis by simp
  qed
qed

lemma handleCreateRelease_graph:
  assumes "handleCreateRelease now v gh ctx [] alive project body d = Some (d', r)"
  shows "d' = d \<or> (\<exists>names d1 x. applyDepends now v gh ctx project names d = (d1, x) \<and> dep_graph d' = dep_graph d1)"
proof (cases "\<exists>req picked num version. body = Some req \<and> pick_version v project (cr_version req) d = Inr (version, num, picked)
    \<and> request_refused v req = None")
  case False
  with assms show ?thesis by (auto simp: handleCreateRelease_def split: option.splits sum.splits)
next
  case True
  then obtain req picked num version where req: "body = Some req" "pick_version v project (cr_version req) d = Inr (version, num, picked)"
    "request_refused v req = None" by blast
  obtain d1 x where ad: "applyDepends now v gh ctx project (cr_depends req) d = (d1, x)" by fastforce
  show ?thesis
  proof (cases x)
    case (Inl refusal)
    with assms req ad show ?thesis by (auto simp: handleCreateRelease_def)
  next
    case (Inr p1)
    obtain d2 y where sa: "set_apt_depends now v (cr_apt_depends req) p1 d1 = (d2, y)" by fastforce
    note g2 = set_apt_depends_graph [OF sa]
    show ?thesis
    proof (cases y)
      case (Inl u)
      with assms req ad \<open>x = Inr p1\<close> sa g2 show ?thesis by (auto simp: handleCreateRelease_def)
    next
      case (Inr p2)
      obtain d3 p3 where sc: "set_create_service now (cr_create_service req) p2 d2 = (d3, p3)" by fastforce
      note g3 = set_create_service_graph [OF sc]
      from assms req ad \<open>x = Inr p1\<close> sa Inr sc obtain d4 z where
        loop: "create_retry now [] alive 0 picked (new_release project version num req) d3 = Some (d4, z)"
        and d': "d' = d4 \<or> d' = SetProjectDefaultBranch now (p_id project) (cr_default_branch req) d4"
        by (auto simp: handleCreateRelease_def split: option.splits prod.splits sum.splits db_error.splits if_splits)
      have "dep_graph d4 = dep_graph d3" using create_retry_frame [OF loop] by (intro dep_graph_frame) simp_all
      moreover have "dep_graph (SetProjectDefaultBranch now (p_id project) (cr_default_branch req) d4) = dep_graph d4"
        by (simp add: SetProjectDefaultBranch_def dep_graph_same)
      ultimately have "dep_graph d' = dep_graph d1" using d' g2 g3 by auto
      with ad show ?thesis by blast
    qed
  qed
qed

text \<open>C35: Neither a change of settings nor a new release closes a cycle of dependencies.\<close>

theorem depends_stay_acyclic:
  assumes "acyclic (dep_graph d)" and "distinct (map p_id (d_projects d))"
    and "handleUpdateProjectSettings now v gh ctx project ubody d = (d', r)
      \<or> handleCreateRelease now v gh ctx [] alive project cbody d = Some (d', r)"
  shows "acyclic (dep_graph d')"
  using assms(3)
proof
  assume "handleUpdateProjectSettings now v gh ctx project ubody d = (d', r)"
  then consider "d' = d" | names d1 x where "applyDepends now v gh ctx project names d = (d1, x)" "dep_graph d' = dep_graph d1"
    by (cases ubody) (auto simp: handleUpdateProjectSettings_def split: option.splits if_splits prod.splits sum.splits
        dest!: set_apt_depends_graph set_create_service_graph)
  then show ?thesis by cases (use applyDepends_acyclic assms in auto)
next
  assume "handleCreateRelease now v gh ctx [] alive project cbody d = Some (d', r)"
  then consider "d' = d" | names d1 x where "applyDepends now v gh ctx project names d = (d1, x)" "dep_graph d' = dep_graph d1"
    using handleCreateRelease_graph by metis
  then show ?thesis by cases (use applyDepends_acyclic assms in auto)
qed

section \<open>A number the server picks is found\<close>

text \<open>The numbers from \<open>num\<close> on whose text is a version of the project.\<close>

definition taken :: "int \<Rightarrow> db \<Rightarrow> int \<Rightarrow> int set" where
  "taken pid d num = {n. num \<le> n \<and> - (2 ^ 63) \<le> n \<and> n < 2 ^ 63 \<and>
     (\<exists>r \<in> set (d_releases d). r_project_id r = pid \<and> r_version r = format_int n)}"

lemma taken_inj: "inj_on format_int (taken pid d num)"
  unfolding taken_def inj_on_def using format_int_inj by blast

lemma taken_finite [simp]: "finite (taken pid d num)"
  and taken_card: "card (taken pid d num) \<le> length (filter (\<lambda>r. r_project_id r = pid) (d_releases d))"
proof -
  let ?V = "r_version ` set (filter (\<lambda>r. r_project_id r = pid) (d_releases d))"
  have sub: "format_int ` taken pid d num \<subseteq> ?V" by (force simp: taken_def intro: rev_image_eqI)
  then show "finite (taken pid d num)"
    using finite_imageD [OF finite_subset taken_inj] by auto
  have "card (taken pid d num) = card (format_int ` taken pid d num)" by (rule card_image [OF taken_inj, symmetric])
  also have "\<dots> \<le> card ?V" using sub by (intro card_mono) auto
  also have "\<dots> \<le> length (filter (\<lambda>r. r_project_id r = pid) (d_releases d))"
    by (metis card_image_le card_length finite_set le_trans)
  finally show "card (taken pid d num) \<le> length (filter (\<lambda>r. r_project_id r = pid) (d_releases d))" .
qed

text \<open>The project exists, its line of numbers is below \<open>M\<close>, and it has at most \<open>N\<close> releases.\<close>

definition within :: "int \<Rightarrow> int \<Rightarrow> nat \<Rightarrow> db \<Rightarrow> bool" where
  "within pid M N d \<longleftrightarrow> project_by_id pid d \<noteq> None \<and> - (2 ^ 63) \<le> GetMaxVersionNum pid d \<and> GetMaxVersionNum pid d < M
     \<and> length (filter (\<lambda>r. r_project_id r = pid) (d_releases d)) \<le> N"

lemma NextVersionNum_within:
  "within pid M N d \<Longrightarrow> 1 \<le> M \<Longrightarrow> M < 2 ^ 63 \<Longrightarrow> - (2 ^ 63) \<le> NextVersionNum pid d \<and> NextVersionNum pid d \<le> M"
  by (auto simp: within_def NextVersionNum_def Let_def wrap64_id)

definition renumbered :: "release \<Rightarrow> int \<Rightarrow> release" where
  "renumbered rel num = rel\<lparr>r_version_num := num, r_version := format_int num\<rparr>"

lemma renumbered_simps [simp]:
  "r_project_id (renumbered rel n) = r_project_id rel" "r_version_num (renumbered rel n) = n"
  "r_version (renumbered rel n) = format_int n" "renumbered (renumbered rel n) m = renumbered rel m"
  by (simp_all add: renumbered_def)

text \<open>One try: the row is inserted, or the number is taken.\<close>

lemma CreateRelease_try:
  assumes "within (r_project_id rel) M N d" "- (2 ^ 63) \<le> num" "num < 2 ^ 63"
  obtains d' r where "CreateRelease now (renumbered rel num) d = (d', Inr r)"
    | m where "CreateRelease now (renumbered rel num) d = (d, Inl (ErrConflict m))" "num \<in> taken (r_project_id rel) d num"
proof (cases "list_ex (\<lambda>q. r_project_id q = r_project_id rel \<and> r_version q = format_int num) (d_releases d)")
  case True
  then show ?thesis using assms that(2) by (auto simp: CreateRelease_def InsertRelease_def taken_def list_ex_iff)
next
  case False
  with assms(1) show ?thesis using that(1) by (auto simp: CreateRelease_def InsertRelease_def within_def Let_def)
qed

lemma create_retry_conflict:
  assumes "step_env env d = (env', d1)" "CreateRelease now (renumbered rel num) d1 = (d1, Inl (ErrConflict m))" "alive k"
    and "- (2 ^ 63) \<le> num" "num + 1 < 2 ^ 63"
  shows "create_retry now env alive k True (renumbered rel num) d =
    create_retry now env' alive (k + 1) True (renumbered rel (max (NextVersionNum (r_project_id rel) d1) (num + 1))) d1"
  using assms by (subst create_retry.simps) (simp add: Let_def wrap64_id renumbered_def)

lemma create_retry_done:
  assumes "step_env env d = (env', d1)" "CreateRelease now rel d1 = (d2, Inr r)"
  shows "create_retry now env alive k picked rel d = Some (d2, Inr r)"
  using assms by (subst create_retry.simps) simp

lemma create_retry_alone:
  assumes "within (r_project_id rel) M N d" "1 \<le> M" "M + int N < 2 ^ 63" "\<And>k. alive k"
    and "- (2 ^ 63) \<le> num" "num + int (card (taken (r_project_id rel) d num)) < 2 ^ 63"
  shows "\<exists>d' r n. create_retry now [] alive k True (renumbered rel num) d = Some (d', Inr r)
    \<and> CreateRelease now (renumbered rel n) d = (d', Inr r)"
  using assms(5,6)
proof (induction "card (taken (r_project_id rel) d num)" arbitrary: num k rule: less_induct)
  case less
  let ?pid = "r_project_id rel"
  have env: "step_env [] d = ([], d)" by (simp add: step_env_def)
  have num: "- (2 ^ 63) \<le> num" "num < 2 ^ 63" using less.prems by auto
  show ?case
  proof (cases rule: CreateRelease_try [OF assms(1) num, where now = now])
    case (1 d' r)
    from create_retry_done [OF env 1] 1 show ?thesis by blast
  next
    case (2 m)
    let ?n = "max (NextVersionNum ?pid d) (num + 1)"
    have "num \<notin> taken ?pid d ?n" "taken ?pid d ?n \<subseteq> taken ?pid d num" by (auto simp: taken_def)
    with 2(2) have "taken ?pid d ?n \<subset> taken ?pid d num" by blast
    then have less': "card (taken ?pid d ?n) < card (taken ?pid d num)" by (intro psubset_card_mono) auto
    then have "num + 1 < 2 ^ 63" using less.prems by linarith
    note eq = create_retry_conflict [OF env 2(1) assms(4) num(1) this, where k = k]
    have nxt: "- (2 ^ 63) \<le> NextVersionNum ?pid d" "NextVersionNum ?pid d \<le> M"
      using NextVersionNum_within [OF assms(1,2)] assms(3) by auto
    have "int (card (taken ?pid d ?n)) \<le> int N"
      using taken_card [of ?pid d ?n] assms(1) by (simp add: within_def)
    then have "?n + int (card (taken ?pid d ?n)) < 2 ^ 63"
      using nxt assms(3) less' less.prems by (cases "NextVersionNum ?pid d \<le> num + 1") auto
    with less.hyps [OF less', of "k + 1"] nxt show ?thesis unfolding eq by auto
  qed
qed

text \<open>The database as it stands at the try \<open>j\<close>, when every try before it left the tables alone.\<close>

definition after_others :: "(db \<Rightarrow> db) list \<Rightarrow> nat \<Rightarrow> db \<Rightarrow> db" where
  "after_others env j d = fold (\<lambda>f. f) (take j env) d"

lemma after_others_simps [simp]:
  "after_others env 0 d = d" "after_others [] j d = d" "after_others (f # env) (Suc j) d = after_others env j (f d)"
  by (simp_all add: after_others_def)

lemma create_retry_returns:
  assumes "\<forall>j. within (r_project_id rel) M N (after_others env j d)"
    and "1 \<le> M" "M + int (length env) + int N < 2 ^ 63" "\<And>k. alive k"
    and "- (2 ^ 63) \<le> num" "num + int (length env) + int N < 2 ^ 63"
  shows "\<exists>d' r n j. create_retry now env alive k True (renumbered rel num) d = Some (d', Inr r)
    \<and> CreateRelease now (renumbered rel n) (after_others env j d) = (d', Inr r)"
  using assms(1,3,5,6)
proof (induction env arbitrary: num d k)
  case Nil
  then have w: "within (r_project_id rel) M N d" by simp
  have "int (card (taken (r_project_id rel) d num)) \<le> int N"
    using taken_card [of "r_project_id rel" d num] w by (simp add: within_def)
  with create_retry_alone [OF w assms(2) _ assms(4) Nil.prems(3), where k = k and now = now] Nil.prems
  show ?case by auto
next
  case (Cons f env)
  let ?pid = "r_project_id rel"
  have env: "step_env (f # env) d = (env, f d)" by (simp add: step_env_def)
  have ws: "\<forall>j. within ?pid M N (after_others env j (f d))"
    using Cons.prems(1) by (metis after_others_simps(3))
  then have w: "within ?pid M N (f d)" by (metis after_others_simps(1))
  have num: "- (2 ^ 63) \<le> num" "num < 2 ^ 63" "num + 1 < 2 ^ 63" using Cons.prems by auto
  show ?case
  proof (cases rule: CreateRelease_try [OF w num(1,2), where now = now])
    case (1 d' r)
    from create_retry_done [OF env 1] 1 show ?thesis
      by (intro exI [of _ d'] exI [of _ r] exI [of _ num] exI [of _ "Suc 0"]) simp
  next
    case (2 m)
    let ?n = "max (NextVersionNum ?pid (f d)) (num + 1)"
    note eq = create_retry_conflict [OF env 2(1) assms(4) num(1,3), where k = k]
    have nxt: "- (2 ^ 63) \<le> NextVersionNum ?pid (f d)" "NextVersionNum ?pid (f d) \<le> M"
      using NextVersionNum_within [OF w assms(2)] Cons.prems(2) by auto
    then have "?n + int (length env) + int N < 2 ^ 63" "- (2 ^ 63) \<le> ?n" using Cons.prems by auto
    with Cons.IH [OF ws, of ?n "k + 1"] Cons.prems obtain d' r n j where
      "create_retry now env alive (k + 1) True (renumbered rel ?n) (f d) = Some (d', Inr r)"
      "CreateRelease now (renumbered rel n) (after_others env j (f d)) = (d', Inr r)" by auto
    then show ?thesis unfolding eq
      by (intro exI [of _ d'] exI [of _ r] exI [of _ n] exI [of _ "Suc j"]) simp
  qed
qed

lemma CreateRelease_ok:
  assumes "CreateRelease now rel d = (d', Inr r)"
  shows "(\<exists>row. d_releases d' = d_releases d @ [row] \<and> r_id row = r_id r \<and> r_version row = r_version r
      \<and> r_project_id row = r_project_id rel \<and> \<not> r_published row)
    \<and> r_project_id r = r_project_id rel
    \<and> (\<forall>q \<in> set (d_releases d). r_project_id q = r_project_id rel \<longrightarrow> r_version q \<noteq> r_version r)"
  using assms by (auto simp: CreateRelease_def InsertRelease_def Let_def list_ex_iff split: if_splits)

text \<open>The settings a publish writes first leave the line of numbers as it is.\<close>

lemma GetMaxVersionNum_update:
  assumes "\<And>p. p_id (f p) = p_id p" "\<And>p. p_name (f p) = p_name p" "\<And>p. p_versioning (f p) = p_versioning p"
  shows "GetMaxVersionNum pid (update_project now i f d) = GetMaxVersionNum pid d"
proof -
  let ?g = "\<lambda>p. if p_id p = i then (f p)\<lparr>p_updated_at := now\<rparr> else p"
  have "d_projects (update_project now i f d) = map ?g (d_projects d)" by (simp add: update_project_def)
  then have by_id: "project_by_id k (update_project now i f d) = map_option ?g (project_by_id k d)" for k
    unfolding project_by_id_def by (simp only: find_first_map)
      (rule arg_cong [where f = "map_option ?g"], rule find_first_cong, simp add: assms)
  have line: "same_line (?g p) (?g q) = same_line p q" for p q by (simp add: same_line_def assms)
  have "(case map_option ?g x of None \<Rightarrow> False | Some q \<Rightarrow> same_line (?g p) q) =
      (case x of None \<Rightarrow> False | Some q \<Rightarrow> same_line p q)" for x p
    by (cases x) (simp_all only: line option.map option.case)
  moreover have "d_releases (update_project now i f d) = d_releases d" by (simp add: update_project_def)
  ultimately show ?thesis unfolding GetMaxVersionNum_def by_id by (cases "project_by_id pid d") simp_all
qed

lemma applyDepends_line:
  "applyDepends now v gh ctx p names d = (d', x) \<Longrightarrow> GetMaxVersionNum pid d' = GetMaxVersionNum pid d"
  by (auto simp: applyDepends_def SetProjectDepends_def set_depends_row_def GetMaxVersionNum_update
      split: option.splits sum.splits if_splits)

lemma set_apt_depends_line:
  "set_apt_depends now v s p d = (d', x) \<Longrightarrow> GetMaxVersionNum pid d' = GetMaxVersionNum pid d"
  by (auto simp: set_apt_depends_def SetProjectAptDepends_def GetMaxVersionNum_update split: option.splits sum.splits if_splits)

lemma set_create_service_line: "GetMaxVersionNum pid (fst (set_create_service now b p d)) = GetMaxVersionNum pid d"
  by (auto simp: set_create_service_def SetProjectCreateService_def GetMaxVersionNum_update split: option.split)

lemma set_apt_depends_ok:
  "request_refused v req = None \<Longrightarrow> \<exists>d' p'. set_apt_depends now v (cr_apt_depends req) p d = (d', Inr p')"
  by (auto simp: request_refused_def apt_refused_def set_apt_depends_def SetProjectAptDepends_def
      split: option.splits sum.splits if_splits)

lemma SetProjectDefaultBranch_releases [simp]: "d_releases (SetProjectDefaultBranch now i b d) = d_releases d"
  by (simp add: SetProjectDefaultBranch_def update_project_def)

text \<open>C34: On a project with automatic numbers, a publish that names no number (no version at all,
  or one that is no 64-bit number) and that is not refused, for its fields or for its
  dependencies, comes to an end with a new release, whatever a finite number of other requests
  does between its tries, those that take the very number it was about to use included. They
  have to keep the project, leave room in the 64-bit numbers, and the request has to stay
  alive. The row is appended to the releases of that moment, unpublished, under a version none
  of the project's releases has; before it the settings of the request are stored. A semver
  project is not meant: there a missing version is filled in too, but not retried.\<close>

theorem picked_release_created:
  assumes "p_versioning project = VersioningAuto" and "cr_version req = [] \<or> parse_int64 (cr_version req) = None"
    and "request_refused v req = None" and "applyDepends now v gh ctx project (cr_depends req) d = (da, Inr p1)"
    and "\<And>db p2 j. set_apt_depends now v (cr_apt_depends req) p1 da = (db, Inr p2) \<Longrightarrow>
      within (p_id project) M N (after_others env j (fst (set_create_service now (cr_create_service req) p2 db)))"
    and "1 \<le> M" and "M + int (length env) + int N < 2 ^ 63"
  shows "\<exists>d' rel row d1. handleCreateRelease now v gh ctx env (\<lambda>_. True) project (Some req) d = Some (d', ReleaseReply 201 rel)
    \<and> (\<exists>db p2 j. set_apt_depends now v (cr_apt_depends req) p1 da = (db, Inr p2)
        \<and> d1 = after_others env j (fst (set_create_service now (cr_create_service req) p2 db)))
    \<and> d_releases d' = d_releases d1 @ [row]
    \<and> r_id row = r_id rel \<and> r_version row = r_version rel \<and> r_project_id row = p_id project \<and> \<not> r_published row
    \<and> (\<forall>q \<in> set (d_releases d1). r_project_id q = p_id project \<longrightarrow> r_version q \<noteq> r_version rel)"
proof -
  obtain db p2 where apt: "set_apt_depends now v (cr_apt_depends req) p1 da = (db, Inr p2)"
    using set_apt_depends_ok [OF assms(3)] by blast
  let ?dc = "fst (set_create_service now (cr_create_service req) p2 db)"
  let ?num = "NextVersionNum (p_id project) d" and ?rel = "new_release project [] 0 req"
  have pid: "r_project_id ?rel = p_id project" by (simp add: new_release_def)
  have ws: "\<forall>j. within (r_project_id ?rel) M N (after_others env j ?dc)" using assms(5) [OF apt] pid by simp
  then have "within (p_id project) M N ?dc" by (metis after_others_simps(1) pid)
  moreover have same: "NextVersionNum (p_id project) ?dc = ?num"
    by (simp add: NextVersionNum_def set_create_service_line set_apt_depends_line [OF apt] applyDepends_line [OF assms(4)])
  ultimately have num: "- (2 ^ 63) \<le> ?num" "?num \<le> M"
    using NextVersionNum_within [of "p_id project" M N ?dc] assms(6,7) by auto
  have pick: "pick_version v project (cr_version req) d = Inr (format_int ?num, ?num, True)"
    using assms(1,2) by (auto simp: pick_version_def Let_def)
  have new: "new_release project (format_int ?num) ?num req = renumbered ?rel ?num"
    by (simp add: new_release_def renumbered_def)
  have "?num + int (length env) + int N < 2 ^ 63" using num assms(7) by linarith
  from create_retry_returns [OF ws assms(6,7) TrueI num(1) this, where now = now and k = 0]
  obtain d' r n j where loop: "create_retry now env (\<lambda>_. True) 0 True (renumbered ?rel ?num) ?dc = Some (d', Inr r)"
    and ins: "CreateRelease now (renumbered ?rel n) (after_others env j ?dc) = (d', Inr r)" by auto
  have "\<exists>d''. handleCreateRelease now v gh ctx env (\<lambda>_. True) project (Some req) d = Some (d'', ReleaseReply 201 r)
      \<and> d_releases d'' = d_releases d'"
    using assms(3,4) pick loop apt by (simp add: handleCreateRelease_def new)
  with CreateRelease_ok [OF ins] pid apt show ?thesis by (metis renumbered_simps(1))
qed

section \<open>Concrete instances\<close>

definition demo_validators :: validators where
  "demo_validators = \<lparr>validProjectNameRegex = list_all (\<lambda>c. is_lower c \<or> c = CHR ''/''),
     validVersion = (\<lambda>_. True), validGitBranch = (\<lambda>_. True), validGitCommit = (\<lambda>_. True), aptRelation = (\<lambda>_. True)\<rparr>"

definition demo_dep_db :: db where
  "demo_dep_db = empty_db\<lparr>d_projects := [(new_project 1 ''web'' False)\<lparr>p_depends := ''lib''\<rparr>, new_project 2 ''lib'' False],
     d_project_seq := 2\<rparr>"

lemma demo_graph: "dep_graph demo_dep_db = {(1, 2)}"
proof -
  have own: "owner_of demo_dep_db ''lib'' = Some 2" by code_simp
  have "d_projects demo_dep_db = [(new_project 1 ''web'' False)\<lparr>p_depends := ''lib''\<rparr>, new_project 2 ''lib'' False]"
    by (simp add: demo_dep_db_def)
  moreover have "DependsOn ((new_project 1 ''web'' False)\<lparr>p_depends := ''lib''\<rparr>) = [''lib'']" "DependsOn (new_project 2 ''lib'' False) = []"
    by code_simp+
  ultimately show ?thesis unfolding dep_graph_UN using own by (auto simp: new_project_def)
qed

theorem depends_cycle_exact_witness:
  "refuseDependsCycle (new_project 2 ''lib'' False) [''web''] demo_dep_db = Some DependsCycle"
proof -
  have ids: "distinct (map p_id (d_projects demo_dep_db))" by code_simp
  have "owner_of demo_dep_db ''web'' = Some 1" by code_simp
  moreover have "(1, p_id (new_project 2 ''lib'' False)) \<in> (dep_graph demo_dep_db)\<^sup>*"
    unfolding demo_graph by (auto simp: new_project_def)
  ultimately show ?thesis unfolding depends_cycle_exact [OF ids] by auto
qed

definition demo_settings :: update_project_request where
  "demo_settings = \<lparr>up_create_service = None, up_apt_depends = None, up_depends = Some [''web''], up_versioning = False\<rparr>"

theorem depends_stay_acyclic_witness:
  "acyclic (dep_graph (fst (handleUpdateProjectSettings 5 demo_validators demo_gh empty_ctx (new_project 2 ''lib'' False)
     (Some demo_settings) demo_dep_db)))
   \<and> snd (handleUpdateProjectSettings 5 demo_validators demo_gh empty_ctx (new_project 2 ''lib'' False)
     (Some demo_settings) demo_dep_db) = Refuse 400 (DependsRefused DependsCycle)"
proof -
  have "distinct (map p_id (d_projects demo_dep_db))" by code_simp
  moreover have "acyclic (dep_graph demo_dep_db)" unfolding demo_graph by (simp add: acyclic_def trancl_insert)
  moreover have "snd (handleUpdateProjectSettings 5 demo_validators demo_gh empty_ctx (new_project 2 ''lib'' False)
     (Some demo_settings) demo_dep_db) = Refuse 400 (DependsRefused DependsCycle)" by code_simp
  ultimately show ?thesis using depends_stay_acyclic [OF _ _ disjI1 [OF surjective_pairing]] by auto
qed

definition demo_publish :: create_release_request where
  "demo_publish = \<lparr>cr_version = [], cr_git_branch = ''master'', cr_git_commit = [], cr_default_branch = ''main'',
     cr_create_service = Some True, cr_apt_depends = None, cr_depends = Some [], cr_notes = [], cr_oci_user = [], cr_draft = False\<rparr>"

text \<open>The other request publishes the number 43 between the choice of the number and the first try.\<close>

definition demo_rival :: "db \<Rightarrow> db" where
  "demo_rival d = fst (CreateRelease 4 (demo_release 0 ''43'' 43 ''master'' False) d)"

definition demo_serviced :: db where
  "demo_serviced = fst (set_create_service 5 (Some True) (new_project 1 ''web'' False) demo_rel_db)"

lemma demo_rival_within: "within 1 100 5 (after_others [demo_rival] j demo_serviced)"
proof (cases j)
  case 0
  have "project_by_id 1 demo_serviced \<noteq> None" "length (filter (\<lambda>r. r_project_id r = 1) (d_releases demo_serviced)) \<le> 5"
    "GetMaxVersionNum 1 demo_serviced < 100" "0 \<le> GetMaxVersionNum 1 demo_serviced" by code_simp+
  with 0 show ?thesis by (simp add: within_def)
next
  case (Suc k)
  have "project_by_id 1 (demo_rival demo_serviced) \<noteq> None"
    "length (filter (\<lambda>r. r_project_id r = 1) (d_releases (demo_rival demo_serviced))) \<le> 5"
    "GetMaxVersionNum 1 (demo_rival demo_serviced) < 100" "0 \<le> GetMaxVersionNum 1 (demo_rival demo_serviced)" by code_simp+
  with Suc show ?thesis by (simp add: within_def)
qed

definition created_version :: "(db \<times> reply) option \<Rightarrow> string option" where
  "created_version x = (case x of Some (_, ReleaseReply _ rel) \<Rightarrow> Some (r_version rel) | _ \<Rightarrow> None)"

lemma demo_race:
  "created_version (handleCreateRelease 5 demo_validators demo_gh empty_ctx [demo_rival] (\<lambda>_. True) (new_project 1 ''web'' False)
     (Some demo_publish) demo_rel_db) = Some ''44''"
proof -
  let ?p = "new_project 1 ''web'' False" and ?d = "demo_rival demo_serviced"
  let ?rel = "new_release ?p [] 0 demo_publish"
  have dep: "applyDepends 5 demo_validators demo_gh empty_ctx ?p (Some []) demo_rel_db = (demo_rel_db, Inr ?p)" by code_simp
  have pick: "pick_version demo_validators ?p [] demo_rel_db = Inr (format_int 43, 43, True)" by code_simp
  have pid: "r_project_id ?rel = 1" by (simp add: new_release_def new_project_def)
  have held: "list_ex (\<lambda>q. r_project_id q = 1 \<and> r_version q = format_int 43) (d_releases ?d)"
    "\<not> list_ex (\<lambda>q. r_project_id q = 1 \<and> r_version q = format_int 44) (d_releases ?d)"
    "project_by_id 1 ?d \<noteq> None" "NextVersionNum 1 ?d = 44" "format_int 44 = ''44''" by code_simp+
  have one: "CreateRelease 5 (renumbered ?rel 43) ?d = (?d, Inl (ErrConflict (format_int 43)))"
    using held(1) by (simp add: CreateRelease_def InsertRelease_def pid)
  have two: "\<exists>d2 r. CreateRelease 5 (renumbered ?rel 44) ?d = (d2, Inr r) \<and> r_version r = ''44''"
    using held(2,3,5) by (simp add: CreateRelease_def InsertRelease_def pid Let_def)
  have "step_env [demo_rival] demo_serviced = ([], ?d)" "step_env [] ?d = ([], ?d)" by (simp_all add: step_env_def)
  with create_retry_conflict [OF _ one, of "[demo_rival]" demo_serviced "[]" "\<lambda>_. True" 0] two
  have "\<exists>d2 r. create_retry 5 [demo_rival] (\<lambda>_. True) 0 True (renumbered ?rel 43) demo_serviced = Some (d2, Inr r) \<and> r_version r = ''44''"
    by (auto simp: pid held(4) intro: create_retry_done)
  moreover have "new_release ?p (format_int 43) 43 demo_publish = renumbered ?rel 43" by (simp add: new_release_def renumbered_def)
  moreover have "request_refused demo_validators demo_publish = None"
    by (simp add: request_refused_def demo_publish_def demo_validators_def apt_refused_def)
  moreover have "cr_depends demo_publish = Some []" "cr_apt_depends demo_publish = None" "cr_version demo_publish = []"
    "cr_create_service demo_publish = Some True" by (simp_all add: demo_publish_def)
  ultimately show ?thesis
    by (auto simp: handleCreateRelease_def pick dep set_apt_depends_def demo_serviced_def [symmetric] created_version_def)
qed

theorem picked_release_created_witness:
  "NextVersionNum 1 demo_rel_db = 43 \<and>
   (\<exists>d' rel row. handleCreateRelease 5 demo_validators demo_gh empty_ctx [demo_rival] (\<lambda>_. True) (new_project 1 ''web'' False)
      (Some demo_publish) demo_rel_db = Some (d', ReleaseReply 201 rel) \<and> r_version rel = ''44''
    \<and> row \<in> set (d_releases d') \<and> r_project_id row = 1 \<and> r_version row = ''44'')"
proof -
  let ?p = "new_project 1 ''web'' False"
  have p: "p_versioning ?p = VersioningAuto" "p_id ?p = 1" by (simp_all add: new_project_def)
  have req: "request_refused demo_validators demo_publish = None" "cr_version demo_publish = []"
    by (simp_all add: request_refused_def demo_publish_def demo_validators_def apt_refused_def)
  have dep: "applyDepends 5 demo_validators demo_gh empty_ctx ?p (cr_depends demo_publish) demo_rel_db = (demo_rel_db, Inr ?p)"
    by code_simp
  have w: "within (p_id ?p) 100 5 (after_others [demo_rival] j (fst (set_create_service 5 (cr_create_service demo_publish) p2 db)))"
    if "set_apt_depends 5 demo_validators (cr_apt_depends demo_publish) ?p demo_rel_db = (db, Inr p2)" for db p2 j
    using that demo_rival_within by (auto simp: set_apt_depends_def demo_serviced_def demo_publish_def p)
  have n: "NextVersionNum 1 demo_rel_db = 43" by code_simp
  from picked_release_created [OF p(1) disjI1 [OF req(2)] req(1) dep w] obtain d' rel row where
    "handleCreateRelease 5 demo_validators demo_gh empty_ctx [demo_rival] (\<lambda>_. True) ?p (Some demo_publish) demo_rel_db
      = Some (d', ReleaseReply 201 rel)" "row \<in> set (d_releases d')" "r_version row = r_version rel" "r_project_id row = p_id ?p"
    by fastforce
  with n p(2) demo_race show ?thesis by (auto simp: created_version_def)
qed

end
