(* ===== verification/Artifacts.thy ===== *)
theory Artifacts
  imports Releases Storage
begin

text \<open>
  Artifacts and the platforms they cover: \<open>internal/db/artifacts.go\<close> with its queries, and the
  executable formats of \<open>internal/exeformat\<close>. A row of \<open>artifacts\<close> is one uploaded file; the
  rows of \<open>artifact_platforms\<close> that name it are the slots (release, kind, os, arch) it occupies,
  and a download is resolved through them. The schema makes a slot unique.

  A query without \<open>ORDER BY\<close> is modelled in the order of insertion; SQLite promises no order
  there, and no theorem depends on it.
\<close>

section \<open>Executable formats\<close>

definition APE :: string where "APE = ''ape''"

definition apeMagic :: bytes where "apeMagic = [0x4D, 0x5A, 0x71, 0x46, 0x70, 0x44]"

definition Detect :: "bytes \<Rightarrow> string" where
  "Detect head = (if length head \<ge> length apeMagic \<and> take (length apeMagic) head = apeMagic then APE else [])"

definition MultiPlatformCapable :: "string \<Rightarrow> bool" where
  "MultiPlatformCapable f \<longleftrightarrow> f = APE"

definition Label :: "string \<Rightarrow> string" where
  "Label f = (if f = APE then ''APE'' else [])"

definition SniffLen :: nat where "SniffLen = 512"

definition elfanewOff :: nat where "elfanewOff = 0x3c"

definition peNsectOff :: nat where "peNsectOff = 6"

datatype nt_boot = NTUnknown | NTStub | NTReal

definition DetectNTBoot :: "bytes \<Rightarrow> nt_boot" where
  "DetectNTBoot head =
     (if Detect head \<noteq> APE then NTUnknown
      else if length head < elfanewOff + 4 then NTUnknown
      else
        (let peOff = le_value (take 4 (drop elfanewOff head)); nsectOff = peOff + peNsectOff in
         if nsectOff + 2 > length head then NTUnknown
         else if le_value (take 2 (drop nsectOff head)) = 1 then NTStub else NTReal))"

section \<open>Queries\<close>

definition InsertArtifact :: "time \<Rightarrow> artifact \<Rightarrow> db \<Rightarrow> db_error + db \<times> int" where
  "InsertArtifact now a d =
     (if list_ex (\<lambda>b. a_release_id b = a_release_id a \<and> a_os b = a_os a \<and> a_arch b = a_arch a
                      \<and> a_kind b = a_kind a) (d_artifacts d)
      then Inl UniqueViolation
      else if \<not> list_ex (\<lambda>r. r_id r = a_release_id a) (d_releases d) then Inl ForeignKeyViolation
      else
        (let i = d_artifact_seq d + 1;
             row = a\<lparr>a_id := i, a_stripped_storage_key := [], a_stripped_size := 0, a_stripped_sha256 := [],
                     a_debug_storage_key := [], a_debug_size := 0, a_created_at := now\<rparr>
         in Inr (d\<lparr>d_artifacts := d_artifacts d @ [row], d_artifact_seq := i\<rparr>, i)))"

definition same_slot :: "artifact_platform \<Rightarrow> artifact_platform \<Rightarrow> bool" where
  "same_slot x y \<longleftrightarrow> ap_release_id x = ap_release_id y \<and> ap_kind x = ap_kind y \<and> ap_os x = ap_os y \<and> ap_arch x = ap_arch y"

definition InsertArtifactPlatform :: "artifact_platform \<Rightarrow> db \<Rightarrow> db_error + db" where
  "InsertArtifactPlatform x d =
     (if list_ex (\<lambda>y. same_slot x y \<or>
           (ap_artifact_id x = ap_artifact_id y \<and> ap_os x = ap_os y \<and> ap_arch x = ap_arch y)) (d_platforms d)
      then Inl UniqueViolation
      else if \<not> list_ex (\<lambda>a. a_id a = ap_artifact_id x) (d_artifacts d) \<or>
              \<not> list_ex (\<lambda>r. r_id r = ap_release_id x) (d_releases d) then Inl ForeignKeyViolation
      else Inr (d\<lparr>d_platforms := d_platforms d @ [x]\<rparr>))"

definition platform_of :: "artifact_platform \<Rightarrow> platform" where
  "platform_of x = \<lparr>plat_os = ap_os x, plat_arch = ap_arch x\<rparr>"

definition ListArtifactPlatformsByArtifact :: "int \<Rightarrow> db \<Rightarrow> platform list" where
  "ListArtifactPlatformsByArtifact i d =
     map platform_of (sort_key ap_ordinal (filter (\<lambda>x. ap_artifact_id x = i) (d_platforms d)))"

definition ListArtifactPlatformsByRelease :: "int \<Rightarrow> db \<Rightarrow> (int \<times> platform) list" where
  "ListArtifactPlatformsByRelease rid d =
     map (\<lambda>x. (ap_artifact_id x, platform_of x))
       (sort_key ap_artifact_id (sort_key ap_ordinal (filter (\<lambda>x. ap_release_id x = rid) (d_platforms d))))"

definition ListArtifactsByRelease :: "int \<Rightarrow> db \<Rightarrow> artifact list" where
  "ListArtifactsByRelease rid d = filter (\<lambda>a. a_release_id a = rid) (d_artifacts d)"

definition GetArtifactByReleaseAndKind :: "int \<Rightarrow> Kind \<Rightarrow> db \<Rightarrow> artifact option" where
  "GetArtifactByReleaseAndKind rid kind d =
     find_first (\<lambda>a. a_release_id a = rid \<and> a_kind a = kind) (d_artifacts d)"

text \<open>The join of \<open>artifacts\<close> and \<open>artifact_platforms\<close>, ordered by the id of the artifact.\<close>

definition covering :: "int \<Rightarrow> OS \<Rightarrow> Arch \<Rightarrow> db \<Rightarrow> artifact list" where
  "covering rid os arch d =
     sort_key a_id (concat (map (\<lambda>a. map (\<lambda>x. a)
       (filter (\<lambda>x. ap_artifact_id x = a_id a \<and> ap_release_id x = rid \<and> ap_os x = os \<and> ap_arch x = arch)
         (d_platforms d))) (d_artifacts d)))"

definition GetArtifactByReleaseOSArch :: "int \<Rightarrow> OS \<Rightarrow> Arch \<Rightarrow> db \<Rightarrow> artifact option" where
  "GetArtifactByReleaseOSArch rid os arch d = first_row (covering rid os arch d)"

definition UpdateArtifactStripped :: "int \<Rightarrow> string \<Rightarrow> int \<Rightarrow> string \<Rightarrow> string \<Rightarrow> int \<Rightarrow> db \<Rightarrow> db" where
  "UpdateArtifactStripped i skey ssize ssha dkey dsize d =
     d\<lparr>d_artifacts := map (\<lambda>a. if a_id a = i
        then a\<lparr>a_stripped_storage_key := skey, a_stripped_size := ssize, a_stripped_sha256 := ssha,
               a_debug_storage_key := dkey, a_debug_size := dsize\<rparr> else a) (d_artifacts d)\<rparr>"

text \<open>\<open>INSERT OR REPLACE\<close>: the row with the same artifact and format is deleted first, and the
  new row has a new id. The column \<open>id\<close> is an \<open>AUTOINCREMENT\<close>; its counter is an argument.\<close>

definition UpsertPackagedArtifact :: "time \<Rightarrow> int \<Rightarrow> packaged_artifact \<Rightarrow> db \<Rightarrow> db_error + db" where
  "UpsertPackagedArtifact now newid k d =
     (if \<not> list_ex (\<lambda>a. a_id a = k_artifact_id k) (d_artifacts d) then Inl ForeignKeyViolation
      else Inr (d\<lparr>d_packaged :=
        filter (\<lambda>q. \<not> (k_artifact_id q = k_artifact_id k \<and> k_format q = k_format k)) (d_packaged d)
          @ [k\<lparr>k_id := newid, k_created_at := now\<rparr>]\<rparr>))"

definition GetPackagedArtifact :: "int \<Rightarrow> string \<Rightarrow> db \<Rightarrow> db_error + packaged_artifact" where
  "GetPackagedArtifact i format d =
     (case find_first (\<lambda>k. k_artifact_id k = i \<and> k_format k = format) (d_packaged d) of
        None \<Rightarrow> Inl ErrNotFound | Some k \<Rightarrow> Inr k)"

definition in_project :: "int \<Rightarrow> db \<Rightarrow> artifact \<Rightarrow> bool" where
  "in_project pid d a \<longleftrightarrow> list_ex (\<lambda>r. r_id r = a_release_id a \<and> r_project_id r = pid) (d_releases d)"

definition BlobBelongsToProject :: "int \<Rightarrow> string \<Rightarrow> db \<Rightarrow> bool" where
  "BlobBelongsToProject pid key d \<longleftrightarrow>
     list_ex (\<lambda>a. in_project pid d a \<and>
       (a_storage_key a = key \<or> a_stripped_storage_key a = key \<or> a_debug_storage_key a = key)) (d_artifacts d)
     \<or> list_ex (\<lambda>k. k_storage_key k = key \<and>
         list_ex (\<lambda>a. a_id a = k_artifact_id k \<and> in_project pid d a) (d_artifacts d)) (d_packaged d)
     \<or> list_ex (\<lambda>l. ol_project_id l = pid \<and> ol_storage_key l = key) (d_oci_links d)"

section \<open>Operations\<close>

text \<open>The two loops of \<open>createArtifacts\<close>: the slots of one artifact, then the artifacts.\<close>

definition slot_row :: "artifact \<Rightarrow> platform \<Rightarrow> nat \<Rightarrow> artifact_platform" where
  "slot_row a p ordinal = \<lparr>ap_artifact_id = a_id a, ap_release_id = a_release_id a, ap_kind = a_kind a,
     ap_os = plat_os p, ap_arch = plat_arch p, ap_ordinal = int ordinal\<rparr>"

definition conflict_at :: "platform \<Rightarrow> db_error" where
  "conflict_at p = ErrConflict (''artifact '' @ platform_string p)"

fun insert_platforms :: "artifact \<Rightarrow> nat \<Rightarrow> platform list \<Rightarrow> db \<Rightarrow> db_error + db" where
  "insert_platforms a ordinal [] d = Inr d"
| "insert_platforms a ordinal (p # ps) d =
     (case InsertArtifactPlatform (slot_row a p ordinal) d of
        Inl UniqueViolation \<Rightarrow> Inl (conflict_at p)
      | Inl e \<Rightarrow> Inl e
      | Inr d' \<Rightarrow> insert_platforms a (ordinal + 1) ps d')"

fun insert_artifacts :: "time \<Rightarrow> (artifact \<times> platform list) list \<Rightarrow> artifact list \<Rightarrow> db \<Rightarrow> db_error + db \<times> artifact list" where
  "insert_artifacts now [] out d = Inr (d, out)"
| "insert_artifacts now ((a, ps) # rows) out d =
     (case InsertArtifact now a d of
        Inl UniqueViolation \<Rightarrow> Inl (conflict_at \<lparr>plat_os = a_os a, plat_arch = a_arch a\<rparr>)
      | Inl e \<Rightarrow> Inl e
      | Inr (d1, i) \<Rightarrow>
          (case insert_platforms (a\<lparr>a_id := i\<rparr>) 0 ps d1 of
             Inl e \<Rightarrow> Inl e
           | Inr d2 \<Rightarrow> insert_artifacts now rows (out @ [a\<lparr>a_id := i\<rparr>]) d2))"

text \<open>One transaction: an error leaves the database as it was. The artifacts come back with
  their ids.\<close>

definition createArtifacts :: "time \<Rightarrow> (artifact \<times> platform list) list \<Rightarrow> artifact list db_op" where
  "createArtifacts now rows d =
     (case insert_artifacts now rows [] d of Inl e \<Rightarrow> (d, Inl e) | Inr (d', out) \<Rightarrow> (d', Inr out))"

definition own_platform :: "artifact \<Rightarrow> platform" where
  "own_platform a = \<lparr>plat_os = a_os a, plat_arch = a_arch a\<rparr>"

definition CreateArtifacts :: "time \<Rightarrow> artifact list \<Rightarrow> artifact list db_op" where
  "CreateArtifacts now artifacts = createArtifacts now (map (\<lambda>a. (a, [own_platform a])) artifacts)"

definition CreateArtifact :: "time \<Rightarrow> artifact \<Rightarrow> artifact list db_op" where
  "CreateArtifact now a = CreateArtifacts now [a]"

definition CreateMultiPlatformArtifact :: "time \<Rightarrow> artifact \<Rightarrow> platform list \<Rightarrow> artifact list db_op" where
  "CreateMultiPlatformArtifact now a platforms d =
     (case platforms of
        [] \<Rightarrow> (d, Inl (Refused ''create multi-platform artifact: no platforms''))
      | p # _ \<Rightarrow> createArtifacts now [(a\<lparr>a_os := plat_os p, a_arch := plat_arch p\<rparr>, platforms)] d)"

definition ArtifactPlatforms :: "int \<Rightarrow> db \<Rightarrow> platform list" where
  "ArtifactPlatforms i d = ListArtifactPlatformsByArtifact i d"

definition ListArtifacts :: "int \<Rightarrow> db \<Rightarrow> artifact list" where
  "ListArtifacts rid d = ListArtifactsByRelease rid d"

definition ListArtifactsWithPlatforms :: "int \<Rightarrow> db \<Rightarrow> (artifact \<times> platform list) list" where
  "ListArtifactsWithPlatforms rid d =
     map (\<lambda>a. (a, map snd (filter (\<lambda>(i, p). i = a_id a) (ListArtifactPlatformsByRelease rid d)))) (ListArtifacts rid d)"

definition GetArtifactByKind :: "int \<Rightarrow> Kind \<Rightarrow> db \<Rightarrow> db_error + artifact" where
  "GetArtifactByKind rid kind d =
     (case GetArtifactByReleaseAndKind rid kind d of None \<Rightarrow> Inl ErrNotFound | Some a \<Rightarrow> Inr a)"

definition GetArtifact :: "int \<Rightarrow> string \<Rightarrow> string \<Rightarrow> db \<Rightarrow> db_error + artifact" where
  "GetArtifact rid os arch d =
     (case GetArtifactByReleaseOSArch rid os arch d of None \<Rightarrow> Inl ErrNotFound | Some a \<Rightarrow> Inr a)"

definition ListArtifactsByPlatform :: "int \<Rightarrow> db \<Rightarrow> platform_artifact list" where
  "ListArtifactsByPlatform rid d =
     concat (map (\<lambda>(a, ps). map (newPlatformArtifact a) ps) (ListArtifactsWithPlatforms rid d))"

definition GetPlatformArtifact :: "int \<Rightarrow> string \<Rightarrow> string \<Rightarrow> db \<Rightarrow> db_error + platform_artifact" where
  "GetPlatformArtifact rid os arch d =
     (case GetArtifact rid os arch d of
        Inl e \<Rightarrow> Inl e | Inr a \<Rightarrow> Inr (newPlatformArtifact a \<lparr>plat_os = os, plat_arch = arch\<rparr>))"

fun portable_loop :: "artifact list \<Rightarrow> artifact option \<Rightarrow> db_error + artifact" where
  "portable_loop [] found = (case found of None \<Rightarrow> Inl ErrNotFound | Some a \<Rightarrow> Inr a)"
| "portable_loop (a # as) found =
     (if a_exe_format a \<noteq> APE then portable_loop as found
      else if found \<noteq> None then Inl ErrNotFound else portable_loop as (Some a))"

definition PortableArtifact :: "int \<Rightarrow> db \<Rightarrow> db_error + artifact" where
  "PortableArtifact rid d = portable_loop (ListArtifacts rid d) None"

definition CanonicalPlatform :: "int \<Rightarrow> string \<Rightarrow> string \<Rightarrow> db \<Rightarrow> db_error + string \<times> string" where
  "CanonicalPlatform rid os arch d =
     (case GetArtifact rid os arch d of Inl e \<Rightarrow> Inl e | Inr a \<Rightarrow> Inr (a_os a, a_arch a))"

definition CreatePackagedArtifact :: "time \<Rightarrow> int \<Rightarrow> packaged_artifact \<Rightarrow> unit db_op" where
  "CreatePackagedArtifact now newid k = exec (UpsertPackagedArtifact now newid k)"

section \<open>The effect of an insertion\<close>

definition slot_of :: "artifact_platform \<Rightarrow> int \<times> Kind \<times> platform" where
  "slot_of x = (ap_release_id x, ap_kind x, platform_of x)"

definition slots :: "db \<Rightarrow> (int \<times> Kind \<times> platform) set" where
  "slots d = slot_of ` set (d_platforms d)"

definition slot_rows :: "artifact \<Rightarrow> nat \<Rightarrow> platform list \<Rightarrow> artifact_platform list" where
  "slot_rows a k ps = map (\<lambda>(i, p). slot_row a p i) (enumerate k ps)"

definition add_artifact :: "time \<Rightarrow> artifact \<Rightarrow> platform list \<Rightarrow> db \<Rightarrow> db" where
  "add_artifact now a ps d =
     (let i = d_artifact_seq d + 1;
          row = a\<lparr>a_id := i, a_stripped_storage_key := [], a_stripped_size := 0, a_stripped_sha256 := [],
                  a_debug_storage_key := [], a_debug_size := 0, a_created_at := now\<rparr>
      in d\<lparr>d_artifacts := d_artifacts d @ [row], d_artifact_seq := i,
           d_platforms := d_platforms d @ slot_rows (a\<lparr>a_id := i\<rparr>) 0 ps\<rparr>)"

definition add_ok :: "artifact \<Rightarrow> platform list \<Rightarrow> db \<Rightarrow> bool" where
  "add_ok a ps d \<longleftrightarrow> (\<exists>r \<in> set (d_releases d). r_id r = a_release_id a) \<and> distinct ps
     \<and> (\<forall>p \<in> set ps. (a_release_id a, a_kind a, p) \<notin> slots d)"

lemma same_slot_iff: "same_slot x y \<longleftrightarrow> slot_of x = slot_of y"
  by (auto simp: same_slot_def slot_of_def platform_of_def)

lemma slot_of_row [simp]: "slot_of (slot_row a p k) = (a_release_id a, a_kind a, p)"
  by (simp add: slot_of_def slot_row_def platform_of_def)

lemma slot_row_ids [simp]:
  "ap_artifact_id (slot_row a p k) = a_id a" "ap_release_id (slot_row a p k) = a_release_id a"
  "ap_kind (slot_row a p k) = a_kind a"
  by (simp_all add: slot_row_def)

lemma same_platform: "ap_os x = ap_os y \<and> ap_arch x = ap_arch y \<longleftrightarrow> platform_of x = platform_of y"
  by (auto simp: platform_of_def)

lemma platform_of_row [simp]: "platform_of (slot_row a p k) = p"
  by (simp add: slot_row_def platform_of_def)

lemma slot_rows_simps [simp]:
  "slot_rows a k [] = []" "slot_rows a k (p # ps) = slot_row a p k # slot_rows a (Suc k) ps"
  by (simp_all add: slot_rows_def)

lemma slot_rows_map: "map slot_of (slot_rows a k ps) = map (\<lambda>p. (a_release_id a, a_kind a, p)) ps"
  by (induction ps arbitrary: k) auto

lemma slot_rows_slots: "slot_of ` set (slot_rows a k ps) = (\<lambda>p. (a_release_id a, a_kind a, p)) ` set ps"
  using slot_rows_map [of a k ps] by (metis list.set_map)

lemma slot_rows_fields:
  "x \<in> set (slot_rows a k ps) \<Longrightarrow> ap_artifact_id x = a_id a \<and> ap_release_id x = a_release_id a
     \<and> ap_kind x = a_kind a \<and> platform_of x \<in> set ps"
  by (induction ps arbitrary: k) (auto simp: slot_row_def platform_of_def)

lemma slot_rows_platforms: "map platform_of (slot_rows a k ps) = ps"
  by (induction ps arbitrary: k) auto

lemma sorted_slot_rows: "sorted (map ap_ordinal (slot_rows a k ps)) \<and> (\<forall>x \<in> set (slot_rows a k ps). int k \<le> ap_ordinal x)"
  by (induction ps arbitrary: k) (force simp: slot_row_def)+

text \<open>The slots of one artifact, inserted one after the other.\<close>

lemma insert_platforms_ok:
  assumes "insert_platforms a k ps d = Inr d'"
  shows "d' = d\<lparr>d_platforms := d_platforms d @ slot_rows a k ps\<rparr>" "distinct ps"
    "\<forall>p \<in> set ps. (a_release_id a, a_kind a, p) \<notin> slots d"
proof -
  have "d' = d\<lparr>d_platforms := d_platforms d @ slot_rows a k ps\<rparr> \<and> distinct ps
    \<and> (\<forall>p \<in> set ps. (a_release_id a, a_kind a, p) \<notin> slots d)"
    using assms
  proof (induction ps arbitrary: k d)
    case (Cons p ps)
    let ?d1 = "d\<lparr>d_platforms := d_platforms d @ [slot_row a p k]\<rparr>"
    from Cons.prems have free: "(a_release_id a, a_kind a, p) \<notin> slots d"
      and step: "insert_platforms a (Suc k) ps ?d1 = Inr d'"
      by (auto simp: InsertArtifactPlatform_def list_ex_iff same_slot_iff slots_def image_iff
          split: if_splits db_error.splits)
    from Cons.IH [OF step] have "d' = ?d1\<lparr>d_platforms := d_platforms ?d1 @ slot_rows a (Suc k) ps\<rparr>"
      "distinct ps" "\<forall>q \<in> set ps. (a_release_id a, a_kind a, q) \<notin> slots ?d1" by auto
    with free show ?case by (auto simp: slots_def)
  qed simp
  then show "d' = d\<lparr>d_platforms := d_platforms d @ slot_rows a k ps\<rparr>" "distinct ps"
    "\<forall>p \<in> set ps. (a_release_id a, a_kind a, p) \<notin> slots d" by auto
qed

lemma insert_platforms_complete:
  assumes "\<exists>b \<in> set (d_artifacts d). a_id b = a_id a" "\<exists>r \<in> set (d_releases d). r_id r = a_release_id a"
    "distinct ps" "\<forall>p \<in> set ps. (a_release_id a, a_kind a, p) \<notin> slots d"
    "\<forall>p \<in> set ps. \<forall>y \<in> set (d_platforms d). ap_artifact_id y = a_id a \<longrightarrow> platform_of y \<noteq> p"
  shows "insert_platforms a k ps d = Inr (d\<lparr>d_platforms := d_platforms d @ slot_rows a k ps\<rparr>)"
  using assms
proof (induction ps arbitrary: k d)
  case (Cons p ps)
  let ?d1 = "d\<lparr>d_platforms := d_platforms d @ [slot_row a p k]\<rparr>"
  have "InsertArtifactPlatform (slot_row a p k) d = Inr ?d1"
    using Cons.prems
    by (auto simp: InsertArtifactPlatform_def list_ex_iff same_slot_iff same_platform slots_def image_iff)
  moreover have "insert_platforms a (Suc k) ps ?d1 = Inr (?d1\<lparr>d_platforms := d_platforms ?d1 @ slot_rows a (Suc k) ps\<rparr>)"
    using Cons.prems by (intro Cons.IH) (auto simp: slots_def)
  ultimately show ?case by simp
qed simp

lemma insert_artifacts_Cons:
  assumes "insert_artifacts now ((a, ps) # rows) out d = Inr (d', out')"
  shows "add_ok a ps d"
    "insert_artifacts now rows (out @ [a\<lparr>a_id := d_artifact_seq d + 1\<rparr>]) (add_artifact now a ps d) = Inr (d', out')"
proof -
  obtain d1 i d2 where ins: "InsertArtifact now a d = Inr (d1, i)"
    and plats: "insert_platforms (a\<lparr>a_id := i\<rparr>) 0 ps d1 = Inr d2"
    and rest: "insert_artifacts now rows (out @ [a\<lparr>a_id := i\<rparr>]) d2 = Inr (d', out')"
    using assms by (auto split: sum.splits prod.splits db_error.splits)
  note d1 = ins [unfolded InsertArtifact_def Let_def]
  note eff = insert_platforms_ok [OF plats]
  from d1 eff(2,3) show "add_ok a ps d"
    by (auto simp: add_ok_def slots_def list_ex_iff split: if_splits)
  from d1 eff(1) have "d2 = add_artifact now a ps d" "i = d_artifact_seq d + 1"
    by (auto simp: add_artifact_def Let_def split: if_splits)
  with rest show "insert_artifacts now rows (out @ [a\<lparr>a_id := d_artifact_seq d + 1\<rparr>]) (add_artifact now a ps d) = Inr (d', out')"
    by simp
qed

section \<open>The invariant of the tables\<close>

text \<open>What a platform of an artifact of some kind may be: an npm package is for every platform,
  anything else names a canonical pair.\<close>

definition any_platform :: platform where
  "any_platform = \<lparr>plat_os = ''any'', plat_arch = ''any''\<rparr>"

definition platform_typed :: "Kind \<Rightarrow> platform \<Rightarrow> bool" where
  "platform_typed kind p \<longleftrightarrow> (if kind = KindNPMPackage then p = any_platform else canonical_platform p)"

text \<open>The images a registry push records are not held to that: their platforms are whatever the
  pushed documents say.\<close>

definition platform_ok :: "Kind \<Rightarrow> platform \<Rightarrow> bool" where
  "platform_ok kind p \<longleftrightarrow> kind = KindDocker \<or> platform_typed kind p"

definition ids_ok :: "db \<Rightarrow> bool" where
  "ids_ok d \<longleftrightarrow> distinct (map a_id (d_artifacts d)) \<and> (\<forall>a \<in> set (d_artifacts d). a_id a \<le> d_artifact_seq d)"

definition slots_ok :: "db \<Rightarrow> bool" where
  "slots_ok d \<longleftrightarrow> distinct (map slot_of (d_platforms d))
     \<and> (\<forall>x \<in> set (d_platforms d). \<exists>a \<in> set (d_artifacts d). a_id a = ap_artifact_id x
          \<and> a_release_id a = ap_release_id x \<and> a_kind a = ap_kind x)
     \<and> (\<forall>a \<in> set (d_artifacts d). \<exists>x \<in> set (d_platforms d). ap_artifact_id x = a_id a \<and> platform_of x = own_platform a)"

definition typed_ok :: "db \<Rightarrow> bool" where
  "typed_ok d \<longleftrightarrow> (\<forall>a \<in> set (d_artifacts d). ValidKind (a_kind a))
     \<and> (\<forall>x \<in> set (d_platforms d). platform_ok (ap_kind x) (platform_of x))"

text \<open>Only a portable executable covers more than one platform.\<close>

definition portable_ok :: "db \<Rightarrow> bool" where
  "portable_ok d \<longleftrightarrow> (\<forall>a \<in> set (d_artifacts d). a_exe_format a \<noteq> APE \<longrightarrow>
     (\<forall>x \<in> set (d_platforms d). ap_artifact_id x = a_id a \<longrightarrow> platform_of x = own_platform a))"

definition artifacts_inv :: "db \<Rightarrow> bool" where
  "artifacts_inv d \<longleftrightarrow> ids_ok d \<and> slots_ok d \<and> typed_ok d \<and> portable_ok d"

text \<open>What the handlers check of the rows they ask for.\<close>

definition row_ok :: "artifact \<Rightarrow> platform list \<Rightarrow> bool" where
  "row_ok a ps \<longleftrightarrow> ValidKind (a_kind a) \<and> own_platform a \<in> set ps \<and> (\<forall>p \<in> set ps. platform_ok (a_kind a) p)
     \<and> (a_exe_format a \<noteq> APE \<longrightarrow> ps = [own_platform a])"

lemmas artifacts_inv_defs = artifacts_inv_def ids_ok_def slots_ok_def typed_ok_def portable_ok_def

lemma slots_ok_artifact:
  "slots_ok d \<Longrightarrow> x \<in> set (d_platforms d) \<Longrightarrow> \<exists>a \<in> set (d_artifacts d). a_id a = ap_artifact_id x"
  by (auto simp: slots_ok_def)

lemma fresh_artifact_id:
  "ids_ok d \<Longrightarrow> slots_ok d \<Longrightarrow> x \<in> set (d_platforms d) \<Longrightarrow> ap_artifact_id x \<noteq> d_artifact_seq d + 1"
  using slots_ok_artifact by (fastforce simp: ids_ok_def)

lemma add_artifact_tables [simp]:
  "d_platforms (add_artifact now a ps d) = d_platforms d @ slot_rows (a\<lparr>a_id := d_artifact_seq d + 1\<rparr>) 0 ps"
  "d_artifact_seq (add_artifact now a ps d) = d_artifact_seq d + 1"
  "d_artifacts (add_artifact now a ps d) = d_artifacts d @ [a\<lparr>a_id := d_artifact_seq d + 1, a_stripped_storage_key := [],
     a_stripped_size := 0, a_stripped_sha256 := [], a_debug_storage_key := [], a_debug_size := 0, a_created_at := now\<rparr>]"
  "d_releases (add_artifact now a ps d) = d_releases d"
  by (simp_all add: add_artifact_def Let_def)

lemma slots_add [simp]:
  "slots (add_artifact now a ps d) = slots d \<union> (\<lambda>p. (a_release_id a, a_kind a, p)) ` set ps"
  by (simp add: slots_def image_Un slot_rows_slots)

lemma add_artifact_inv:
  assumes "artifacts_inv d" "add_ok a ps d" "row_ok a ps"
  shows "artifacts_inv (add_artifact now a ps d)"
proof -
  let ?i = "d_artifact_seq d + 1"
  let ?new = "slot_rows (a\<lparr>a_id := ?i\<rparr>) 0 ps"
  note inv = assms(1) [unfolded artifacts_inv_def]
  have new_fields: "ap_artifact_id x = ?i \<and> ap_release_id x = a_release_id a \<and> ap_kind x = a_kind a \<and> platform_of x \<in> set ps"
    if "x \<in> set ?new" for x using slot_rows_fields [OF that] by simp
  have old_id: "ap_artifact_id x \<noteq> ?i" if "x \<in> set (d_platforms d)" for x
    using inv that fresh_artifact_id by blast
  have "ids_ok (add_artifact now a ps d)" using inv by (force simp: ids_ok_def)
  moreover have "slots_ok (add_artifact now a ps d)"
  proof -
    have "map slot_of ?new = map (\<lambda>p. (a_release_id a, a_kind a, p)) ps" by (simp add: slot_rows_map)
    then have "distinct (map slot_of ?new)" using assms(2) by (simp add: distinct_map inj_on_def add_ok_def)
    moreover have "slot_of ` set (d_platforms d) \<inter> slot_of ` set ?new = {}"
      using assms(2) by (auto simp: slot_rows_slots add_ok_def slots_def)
    moreover have "own_platform a \<in> platform_of ` set ?new"
      using assms(3) slot_rows_platforms [of "a\<lparr>a_id := ?i\<rparr>" 0 ps] by (metis row_ok_def list.set_map)
    ultimately show ?thesis
      unfolding slots_ok_def add_artifact_tables
    proof (intro conjI ballI, goal_cases)
      case 1
      with inv show ?case by (simp add: slots_ok_def)
    next
      case (2 x)
      with inv new_fields [of x] show ?case by (fastforce simp: slots_ok_def)
    next
      case (3 b)
      then consider "b \<in> set (d_artifacts d)" | "a_id b = ?i" "own_platform b = own_platform a"
        by (auto simp: own_platform_def)
      then show ?case
      proof cases
        case 1
        with inv show ?thesis by (fastforce simp: slots_ok_def)
      next
        case 2
        with 3(3) new_fields show ?thesis by force
      qed
    qed
  qed
  moreover have "typed_ok (add_artifact now a ps d)"
    using inv assms(3) new_fields by (auto simp: typed_ok_def row_ok_def)
  moreover have "portable_ok (add_artifact now a ps d)"
    using inv assms(3) new_fields old_id
    by (auto simp: portable_ok_def row_ok_def own_platform_def ids_ok_def)
  ultimately show ?thesis by (simp add: artifacts_inv_def)
qed

section \<open>Inserting several artifacts\<close>

definition has_release :: "int \<Rightarrow> db \<Rightarrow> bool" where
  "has_release rid d \<longleftrightarrow> (\<exists>r \<in> set (d_releases d). r_id r = rid)"

lemma insert_platforms_err:
  assumes "\<exists>b \<in> set (d_artifacts d). a_id b = a_id a" "has_release (a_release_id a) d"
    "insert_platforms a k ps d = Inl e"
  shows "\<exists>p \<in> set ps. e = conflict_at p"
  using assms
proof (induction ps arbitrary: k d)
  case (Cons p ps)
  show ?case
  proof (cases "InsertArtifactPlatform (slot_row a p k) d")
    case (Inl e')
    then have "e' = UniqueViolation"
      using Cons.prems(1,2) by (auto simp: InsertArtifactPlatform_def list_ex_iff has_release_def split: if_splits)
    with Inl Cons.prems(3) show ?thesis by simp
  next
    case (Inr d1)
    then have "d_artifacts d1 = d_artifacts d" "d_releases d1 = d_releases d"
      by (auto simp: InsertArtifactPlatform_def split: if_splits)
    moreover from Inr Cons.prems(3) have "insert_platforms a (Suc k) ps d1 = Inl e" by simp
    ultimately have "\<exists>p \<in> set ps. e = conflict_at p"
      using Cons.prems(1,2) by (intro Cons.IH) (simp_all add: has_release_def)
    then show ?thesis by simp
  qed
qed simp

lemma insert_artifacts_step:
  assumes "artifacts_inv d" "row_ok a ps" "add_ok a ps d"
  shows "insert_artifacts now ((a, ps) # rows) out d =
    insert_artifacts now rows (out @ [a\<lparr>a_id := d_artifact_seq d + 1\<rparr>]) (add_artifact now a ps d)"
proof -
  let ?i = "d_artifact_seq d + 1"
  let ?d1 = "(add_artifact now a ps d)\<lparr>d_platforms := d_platforms d\<rparr>"
  have "\<not> (a_release_id b = a_release_id a \<and> own_platform b = own_platform a \<and> a_kind b = a_kind a)"
    if "b \<in> set (d_artifacts d)" for b
  proof
    assume b: "a_release_id b = a_release_id a \<and> own_platform b = own_platform a \<and> a_kind b = a_kind a"
    from assms(1) that obtain x where x: "x \<in> set (d_platforms d)" "ap_artifact_id x = a_id b" "platform_of x = own_platform b"
      by (auto simp: artifacts_inv_def slots_ok_def)
    from assms(1) x(1) obtain c where c: "c \<in> set (d_artifacts d)" "a_id c = ap_artifact_id x"
      "a_release_id c = ap_release_id x" "a_kind c = ap_kind x" by (auto simp: artifacts_inv_def slots_ok_def)
    from assms(1) have "inj_on a_id (set (d_artifacts d))" by (simp add: artifacts_inv_def ids_ok_def distinct_map)
    with c x that have "c = b" by (metis inj_onD)
    with c x b have "slot_of x = (a_release_id a, a_kind a, own_platform a)" by (simp add: slot_of_def)
    with x(1) assms(2,3) show False by (force simp: add_ok_def row_ok_def slots_def)
  qed
  then have "InsertArtifact now a d = Inr (?d1, ?i)"
    using assms(3) by (auto simp: InsertArtifact_def Let_def list_ex_iff own_platform_def add_ok_def add_artifact_def)
  moreover have "insert_platforms (a\<lparr>a_id := ?i\<rparr>) 0 ps ?d1 = Inr (?d1\<lparr>d_platforms := d_platforms ?d1 @ slot_rows (a\<lparr>a_id := ?i\<rparr>) 0 ps\<rparr>)"
    using assms fresh_artifact_id [of d]
    by (intro insert_platforms_complete) (auto simp: add_ok_def slots_def artifacts_inv_def)
  moreover have "?d1\<lparr>d_platforms := d_platforms ?d1 @ slot_rows (a\<lparr>a_id := ?i\<rparr>) 0 ps\<rparr> = add_artifact now a ps d"
    by (simp add: add_artifact_def Let_def)
  ultimately show ?thesis by (simp only: insert_artifacts.simps sum.case prod.case)
qed

lemma insert_artifacts_conflict:
  assumes "row_ok a ps" "has_release (a_release_id a) d" "\<not> add_ok a ps d"
  shows "\<exists>p \<in> set ps. insert_artifacts now ((a, ps) # rows) out d = Inl (conflict_at p)"
proof (cases "InsertArtifact now a d")
  case (Inl e)
  with assms(2) have "e = UniqueViolation"
    by (auto simp: InsertArtifact_def has_release_def list_ex_iff Let_def split: if_splits)
  with Inl assms(1) show ?thesis by (auto simp: row_ok_def own_platform_def)
next
  case (Inr r)
  then obtain d1 i where r: "r = (d1, i)" and d1: "\<exists>b \<in> set (d_artifacts d1). a_id b = i" "has_release (a_release_id a) d1"
    using assms(2) by (cases r) (fastforce simp: InsertArtifact_def Let_def has_release_def split: if_splits)
  have "insert_platforms (a\<lparr>a_id := i\<rparr>) 0 ps d1 = Inr d2 \<Longrightarrow> False" for d2
    using insert_platforms_ok(2,3) [of "a\<lparr>a_id := i\<rparr>" 0 ps d1 d2] Inr r assms(2,3)
    by (auto simp: InsertArtifact_def Let_def add_ok_def has_release_def slots_def split: if_splits)
  then obtain e where e: "insert_platforms (a\<lparr>a_id := i\<rparr>) 0 ps d1 = Inl e"
    by (cases "insert_platforms (a\<lparr>a_id := i\<rparr>) 0 ps d1") auto
  with insert_platforms_err [OF _ _ e] d1 obtain p where "p \<in> set ps" "e = conflict_at p" by auto
  with Inr r e show ?thesis by auto
qed

text \<open>The rows of one request are for one release and of one kind.\<close>

definition rows_ok :: "int \<Rightarrow> Kind \<Rightarrow> (artifact \<times> platform list) list \<Rightarrow> bool" where
  "rows_ok rid kind rows \<longleftrightarrow> (\<forall>(a, ps) \<in> set rows. a_release_id a = rid \<and> a_kind a = kind \<and> row_ok a ps)"

definition slots_free :: "int \<Rightarrow> Kind \<Rightarrow> platform list \<Rightarrow> db \<Rightarrow> bool" where
  "slots_free rid kind ps d \<longleftrightarrow> distinct ps \<and> (\<forall>p \<in> set ps. (rid, kind, p) \<notin> slots d)"

fun add_artifacts :: "time \<Rightarrow> (artifact \<times> platform list) list \<Rightarrow> db \<Rightarrow> db" where
  "add_artifacts now [] d = d"
| "add_artifacts now ((a, ps) # rows) d = add_artifacts now rows (add_artifact now a ps d)"

fun with_ids :: "int \<Rightarrow> (artifact \<times> platform list) list \<Rightarrow> artifact list" where
  "with_ids i [] = []"
| "with_ids i ((a, ps) # rows) = a\<lparr>a_id := i + 1\<rparr> # with_ids (i + 1) rows"

lemma rows_ok_Cons [simp]:
  "rows_ok rid kind ((a, ps) # rows) \<longleftrightarrow> a_release_id a = rid \<and> a_kind a = kind \<and> row_ok a ps \<and> rows_ok rid kind rows"
  by (auto simp: rows_ok_def)

lemma slots_free_Cons:
  assumes "a_release_id a = rid" "a_kind a = kind" "has_release rid d"
  shows "slots_free rid kind (ps @ qs) d \<longleftrightarrow> add_ok a ps d \<and> slots_free rid kind qs (add_artifact now a ps d)"
  using assms by (auto simp: slots_free_def add_ok_def has_release_def)

lemma insert_artifacts_all:
  assumes "artifacts_inv d" "rows_ok rid kind rows" "has_release rid d"
  shows "if slots_free rid kind (concat (map snd rows)) d
    then insert_artifacts now rows out d = Inr (add_artifacts now rows d, out @ with_ids (d_artifact_seq d) rows)
      \<and> artifacts_inv (add_artifacts now rows d)
    else \<exists>p \<in> set (concat (map snd rows)). insert_artifacts now rows out d = Inl (conflict_at p)"
  using assms
proof (induction rows arbitrary: out d)
  case Nil
  then show ?case by (simp add: slots_free_def)
next
  case (Cons row rows)
  obtain a ps where row_eq: "row = (a, ps)" by (cases row)
  with Cons.prems have row: "a_release_id a = rid" "a_kind a = kind" "row_ok a ps" "rows_ok rid kind rows" by auto
  note free = slots_free_Cons [OF row(1,2) Cons.prems(3), of ps "concat (map snd rows)" now]
  show ?case
  proof (cases "add_ok a ps d")
    case False
    with insert_artifacts_conflict [OF row(3) _ False, of now rows out] Cons.prems(3) row(1) free row_eq
    show ?thesis by (auto simp del: insert_artifacts.simps)
  next
    case True
    let ?d1 = "add_artifact now a ps d" and ?out = "out @ [a\<lparr>a_id := d_artifact_seq d + 1\<rparr>]"
    from Cons.prems(1) True row(3) have "artifacts_inv ?d1" by (rule add_artifact_inv)
    moreover have "has_release rid ?d1" using Cons.prems(3) by (simp add: has_release_def)
    ultimately have "if slots_free rid kind (concat (map snd rows)) ?d1
      then insert_artifacts now rows ?out ?d1 = Inr (add_artifacts now rows ?d1, ?out @ with_ids (d_artifact_seq ?d1) rows)
        \<and> artifacts_inv (add_artifacts now rows ?d1)
      else \<exists>p \<in> set (concat (map snd rows)). insert_artifacts now rows ?out ?d1 = Inl (conflict_at p)"
      using row(4) by (intro Cons.IH)
    with insert_artifacts_step [OF Cons.prems(1) row(3) True, of now rows out] True free row_eq
    show ?thesis by (auto simp del: insert_artifacts.simps split: if_splits)
  qed
qed

lemma createArtifacts_cases:
  assumes "artifacts_inv d" "rows_ok rid kind rows" "has_release rid d"
  obtains (ok) "slots_free rid kind (concat (map snd rows)) d" "artifacts_inv (add_artifacts now rows d)"
      "createArtifacts now rows d = (add_artifacts now rows d, Inr (with_ids (d_artifact_seq d) rows))"
  | (conflict) p where "\<not> slots_free rid kind (concat (map snd rows)) d" "p \<in> set (concat (map snd rows))"
      "createArtifacts now rows d = (d, Inl (conflict_at p))"
  using insert_artifacts_all [OF assms, of now "[]"] unfolding createArtifacts_def
  by (auto simp del: set_concat split: if_splits)

lemma createArtifacts_conflict:
  assumes "artifacts_inv d" "rows_ok rid kind rows" "has_release rid d" "\<not> slots_free rid kind (concat (map snd rows)) d"
  shows "\<exists>p. createArtifacts now rows d = (d, Inl (conflict_at p))"
  using assms(1-3) by (cases rule: createArtifacts_cases [where now = now]) (use assms(4) in auto)

text \<open>recording the artifacts of an upload is all or nothing: when every slot they ask for is
  free and asked for once, all rows are added, with consecutive ids, and the tables stay well-formed;
  otherwise the upload is refused with a conflict at one of its platforms and nothing is
  recorded.\<close>

theorem createArtifacts_exact:
  assumes "artifacts_inv d" "rows_ok rid kind rows" "has_release rid d"
  shows "if slots_free rid kind (concat (map snd rows)) d
    then createArtifacts now rows d = (add_artifacts now rows d, Inr (with_ids (d_artifact_seq d) rows))
      \<and> artifacts_inv (add_artifacts now rows d)
    else \<exists>p \<in> set (concat (map snd rows)). createArtifacts now rows d = (d, Inl (conflict_at p))"
  using assms by (cases rule: createArtifacts_cases [where now = now]) auto

lemma add_artifacts_frame [simp]:
  "d_releases (add_artifacts now rows d) = d_releases d"
  "d_projects (add_artifacts now rows d) = d_projects d"
  "d_release_seq (add_artifacts now rows d) = d_release_seq d"
  by (induction now rows d rule: add_artifacts.induct) (simp_all add: add_artifact_def Let_def)

lemma add_artifacts_grow:
  assumes "rows_ok rid kind rows"
  shows "\<exists>as xs. d_artifacts (add_artifacts now rows d) = d_artifacts d @ as
      \<and> d_platforms (add_artifacts now rows d) = d_platforms d @ xs
      \<and> (\<forall>a \<in> set as. a_release_id a = rid) \<and> (\<forall>x \<in> set xs. ap_release_id x = rid \<and> ap_kind x = kind)"
  using assms
proof (induction now rows d rule: add_artifacts.induct)
  case (2 now a ps rows d)
  then obtain as xs where "d_artifacts (add_artifacts now rows (add_artifact now a ps d)) = d_artifacts (add_artifact now a ps d) @ as"
    "d_platforms (add_artifacts now rows (add_artifact now a ps d)) = d_platforms (add_artifact now a ps d) @ xs"
    "\<forall>a \<in> set as. a_release_id a = rid" "\<forall>x \<in> set xs. ap_release_id x = rid \<and> ap_kind x = kind" by auto
  with "2.prems" show ?case by (auto dest: slot_rows_fields)
qed simp

section \<open>Resolving a platform\<close>

definition covers :: "db \<Rightarrow> artifact \<Rightarrow> int \<Rightarrow> platform \<Rightarrow> bool" where
  "covers d a rid p \<longleftrightarrow> (\<exists>x \<in> set (d_platforms d). ap_artifact_id x = a_id a \<and> ap_release_id x = rid \<and> platform_of x = p)"

lemma covering_set:
  "set (covering rid os arch d) = {a \<in> set (d_artifacts d). covers d a rid \<lparr>plat_os = os, plat_arch = arch\<rparr>}"
  by (auto simp: covering_def covers_def platform_of_def)

lemma GetArtifact_first:
  assumes "GetArtifact rid os arch d = Inr a"
  shows "a \<in> set (d_artifacts d)" "covers d a rid \<lparr>plat_os = os, plat_arch = arch\<rparr>"
    "\<And>b. b \<in> set (d_artifacts d) \<Longrightarrow> covers d b rid \<lparr>plat_os = os, plat_arch = arch\<rparr> \<Longrightarrow> a_id a \<le> a_id b"
proof -
  obtain as where as: "covering rid os arch d = a # as"
    using assms by (auto simp: GetArtifact_def GetArtifactByReleaseOSArch_def first_row_def split: option.splits list.splits)
  then have "a \<in> set (covering rid os arch d)" by simp
  then show "a \<in> set (d_artifacts d)" "covers d a rid \<lparr>plat_os = os, plat_arch = arch\<rparr>"
    by (simp_all add: covering_set)
  have "sorted (map a_id (covering rid os arch d))" by (simp add: covering_def)
  then have "\<forall>b \<in> set (covering rid os arch d). a_id a \<le> a_id b" by (auto simp: as)
  then show "\<And>b. b \<in> set (d_artifacts d) \<Longrightarrow> covers d b rid \<lparr>plat_os = os, plat_arch = arch\<rparr> \<Longrightarrow> a_id a \<le> a_id b"
    by (simp add: covering_set)
qed

lemma GetArtifact_none:
  "(\<exists>e. GetArtifact rid os arch d = Inl e) \<longleftrightarrow>
     (\<forall>a \<in> set (d_artifacts d). \<not> covers d a rid \<lparr>plat_os = os, plat_arch = arch\<rparr>)"
proof -
  have "(\<exists>e. GetArtifact rid os arch d = Inl e) \<longleftrightarrow> set (covering rid os arch d) = {}"
    by (auto simp: GetArtifact_def GetArtifactByReleaseOSArch_def first_row_def split: option.splits list.splits)
  then show ?thesis by (auto simp: covering_set)
qed

lemma platform_eta [simp]: "\<lparr>plat_os = plat_os p, plat_arch = plat_arch p\<rparr> = (p :: platform)"
  by (cases p) simp

lemma GetArtifact_only:
  assumes "a \<in> set (d_artifacts d)" "covers d a rid p"
    "\<And>b. b \<in> set (d_artifacts d) \<Longrightarrow> covers d b rid p \<Longrightarrow> b = a"
  shows "GetArtifact rid (plat_os p) (plat_arch p) d = Inr a"
proof (cases "GetArtifact rid (plat_os p) (plat_arch p) d")
  case (Inl e)
  then have "\<exists>e. GetArtifact rid (plat_os p) (plat_arch p) d = Inl e" by simp
  with assms(1,2) show ?thesis by (simp add: GetArtifact_none)
next
  case (Inr b)
  with GetArtifact_first(1,2) [OF this] assms(3) show ?thesis by simp
qed

text \<open>One artifact per platform and kind: what lets a slot name a file.\<close>

lemma slot_holder_unique:
  assumes "artifacts_inv d" "a \<in> set (d_artifacts d)" "b \<in> set (d_artifacts d)" "a_kind a = a_kind b"
    "covers d a rid p" "covers d b rid p"
  shows "a = b"
proof -
  obtain x where x: "x \<in> set (d_platforms d)" "ap_artifact_id x = a_id a" "ap_release_id x = rid" "platform_of x = p"
    using assms(5) by (auto simp: covers_def)
  obtain y where y: "y \<in> set (d_platforms d)" "ap_artifact_id y = a_id b" "ap_release_id y = rid" "platform_of y = p"
    using assms(6) by (auto simp: covers_def)
  have inj: "inj_on a_id (set (d_artifacts d))" "inj_on slot_of (set (d_platforms d))"
    using assms(1) by (simp_all add: artifacts_inv_def ids_ok_def slots_ok_def distinct_map)
  have "ap_kind x = a_kind a" "ap_kind y = a_kind b"
    using assms(1-3) x y inj(1) unfolding artifacts_inv_def slots_ok_def by (metis inj_onD)+
  with x y assms(4) have "slot_of x = slot_of y" by (simp add: slot_of_def)
  with inj(2) x(1) y(1) have "x = y" by (metis inj_onD)
  with x(2) y(2) inj(1) assms(2,3) show ?thesis by (metis inj_onD)
qed

lemma covers_grow:
  assumes "set (d_platforms d) \<subseteq> set (d_platforms d')"
  shows "covers d a rid p \<Longrightarrow> covers d' a rid p"
  using assms by (auto simp: covers_def)

text \<open>Every platform of a row that was added is covered by an artifact with its content.\<close>

lemma add_artifacts_covers:
  assumes "(a, ps) \<in> set rows" "p \<in> set ps" "rows_ok rid kind rows"
  shows "\<exists>b \<in> set (d_artifacts (add_artifacts now rows d)). covers (add_artifacts now rows d) b rid p
    \<and> a_kind b = kind \<and> a_storage_key b = a_storage_key a \<and> a_size b = a_size a \<and> a_sha256 b = a_sha256 a
    \<and> a_exe_format b = a_exe_format a"
  using assms
proof (induction now rows d rule: add_artifacts.induct)
  case (2 now a' ps' rows d)
  let ?d1 = "add_artifact now a' ps' d"
  show ?case
  proof (cases "(a, ps) = (a', ps')")
    case True
    let ?b = "last (d_artifacts ?d1)"
    have "p \<in> platform_of ` set (slot_rows (a\<lparr>a_id := d_artifact_seq d + 1\<rparr>) 0 ps)"
      using "2.prems"(2) slot_rows_platforms by (metis list.set_map)
    with True "2.prems"(3) slot_rows_fields have "covers ?d1 ?b rid p" by (fastforce simp: covers_def)
    moreover from add_artifacts_grow "2.prems"(3) obtain as xs where
      "d_artifacts (add_artifacts now rows ?d1) = d_artifacts ?d1 @ as"
      "d_platforms (add_artifacts now rows ?d1) = d_platforms ?d1 @ xs" by (meson rows_ok_Cons)
    ultimately have "?b \<in> set (d_artifacts (add_artifacts now rows ?d1))" "covers (add_artifacts now rows ?d1) ?b rid p"
      by (auto intro: covers_grow [of ?d1])
    with True "2.prems"(3) show ?thesis by (intro bexI [of _ ?b]) auto
  next
    case False
    with "2.prems" have "\<exists>b \<in> set (d_artifacts (add_artifacts now rows ?d1)). covers (add_artifacts now rows ?d1) b rid p
      \<and> a_kind b = kind \<and> a_storage_key b = a_storage_key a \<and> a_size b = a_size a \<and> a_sha256 b = a_sha256 a
      \<and> a_exe_format b = a_exe_format a" by (intro "2.IH") auto
    then show ?thesis by auto
  qed
qed simp

section \<open>What a release shows\<close>

text \<open>The rows of a release determine every query on its artifacts.\<close>

definition release_view :: "int \<Rightarrow> db \<Rightarrow> artifact list \<times> artifact_platform list" where
  "release_view rid d = (filter (\<lambda>a. a_release_id a = rid) (d_artifacts d), filter (\<lambda>x. ap_release_id x = rid) (d_platforms d))"

lemma view_list: "release_view rid d = release_view rid d' \<Longrightarrow> ListArtifactsWithPlatforms rid d = ListArtifactsWithPlatforms rid d'"
  by (simp add: release_view_def ListArtifactsWithPlatforms_def ListArtifacts_def ListArtifactsByRelease_def
      ListArtifactPlatformsByRelease_def)

lemma covers_release:
  assumes "artifacts_inv d" "a \<in> set (d_artifacts d)" "covers d a rid p"
  shows "a_release_id a = rid"
proof -
  obtain x where x: "x \<in> set (d_platforms d)" "ap_artifact_id x = a_id a" "ap_release_id x = rid"
    using assms(3) by (auto simp: covers_def)
  have "inj_on a_id (set (d_artifacts d))" using assms(1) by (simp add: artifacts_inv_def ids_ok_def distinct_map)
  with assms(1,2) x show ?thesis unfolding artifacts_inv_def slots_ok_def by (metis inj_onD)
qed

lemma concat_map_filter: "(\<And>x. x \<in> set xs \<Longrightarrow> f x \<noteq> [] \<Longrightarrow> P x) \<Longrightarrow> concat (map f xs) = concat (map f (filter P xs))"
  by (induction xs) auto

lemma covering_view:
  assumes "artifacts_inv d"
  shows "covering rid os arch d = sort_key a_id (concat (map (\<lambda>a. map (\<lambda>x. a)
     (filter (\<lambda>x. ap_artifact_id x = a_id a \<and> ap_os x = os \<and> ap_arch x = arch) (snd (release_view rid d))))
     (fst (release_view rid d))))"
proof -
  have "a_release_id a = rid" if "a \<in> set (d_artifacts d)" "x \<in> set (d_platforms d)" "ap_artifact_id x = a_id a"
    "ap_release_id x = rid" for a x
    using covers_release [OF assms that(1), of rid "platform_of x"] that by (auto simp: covers_def)
  then have "concat (map (\<lambda>a. map (\<lambda>x. a)
     (filter (\<lambda>x. ap_artifact_id x = a_id a \<and> ap_release_id x = rid \<and> ap_os x = os \<and> ap_arch x = arch) (d_platforms d))) (d_artifacts d))
   = concat (map (\<lambda>a. map (\<lambda>x. a)
     (filter (\<lambda>x. ap_artifact_id x = a_id a \<and> ap_release_id x = rid \<and> ap_os x = os \<and> ap_arch x = arch) (d_platforms d)))
     (filter (\<lambda>a. a_release_id a = rid) (d_artifacts d)))"
    by (intro concat_map_filter) (auto simp: filter_empty_conv)
  then show ?thesis by (simp add: covering_def release_view_def conj_ac)
qed

lemma view_get:
  assumes "artifacts_inv d" "artifacts_inv d'" "release_view rid d = release_view rid d'"
  shows "GetArtifact rid os arch d = GetArtifact rid os arch d'"
  using assms by (simp add: GetArtifact_def GetArtifactByReleaseOSArch_def covering_view)

lemma view_add:
  assumes "rows_ok rid' kind rows" "rid \<noteq> rid'"
  shows "release_view rid (add_artifacts now rows d) = release_view rid d"
proof -
  from add_artifacts_grow [OF assms(1)] obtain as xs where
    "d_artifacts (add_artifacts now rows d) = d_artifacts d @ as"
    "d_platforms (add_artifacts now rows d) = d_platforms d @ xs"
    "\<forall>a \<in> set as. a_release_id a = rid'" "\<forall>x \<in> set xs. ap_release_id x = rid'" by blast
  with assms(2) show ?thesis by (auto simp: release_view_def filter_empty_conv)
qed

text \<open>A platform nothing covered resolves to the artifact that was added for it.\<close>

lemma add_artifacts_resolves:
  assumes "artifacts_inv d" "artifacts_inv (add_artifacts now rows d)" "rows_ok rid kind rows"
    "\<forall>b \<in> set (d_artifacts d). \<not> covers d b rid p"
    "a \<in> set (d_artifacts (add_artifacts now rows d))" "covers (add_artifacts now rows d) a rid p" "a_kind a = kind"
  shows "GetArtifact rid (plat_os p) (plat_arch p) (add_artifacts now rows d) = Inr a"
  using assms(5,6)
proof (rule GetArtifact_only)
  let ?d' = "add_artifacts now rows d"
  fix b
  assume b: "b \<in> set (d_artifacts ?d')" "covers ?d' b rid p"
  from add_artifacts_grow [OF assms(3), of now d] obtain as xs where
    grow: "d_artifacts ?d' = d_artifacts d @ as" "d_platforms ?d' = d_platforms d @ xs"
      "\<forall>x \<in> set xs. ap_release_id x = rid \<and> ap_kind x = kind" by blast
  obtain x where x: "x \<in> set (d_platforms ?d')" "ap_artifact_id x = a_id b" "ap_release_id x = rid" "platform_of x = p"
    using b(2) by (auto simp: covers_def)
  have inj: "inj_on a_id (set (d_artifacts ?d'))" using assms(2) by (simp add: artifacts_inv_def ids_ok_def distinct_map)
  show "b = a"
  proof (cases "x \<in> set xs")
    case True
    obtain c where "c \<in> set (d_artifacts ?d')" "a_id c = ap_artifact_id x" "a_kind c = ap_kind x"
      using assms(2) x(1) by (auto simp: artifacts_inv_def slots_ok_def)
    with inj b(1) x(2) True grow(3) have "a_kind b = kind" by (metis inj_onD)
    with slot_holder_unique [OF assms(2) b(1) assms(5) _ b(2) assms(6)] assms(7) show ?thesis by simp
  next
    case False
    with x(1) grow(2) have old: "x \<in> set (d_platforms d)" by simp
    then obtain c where c: "c \<in> set (d_artifacts d)" "a_id c = ap_artifact_id x"
      using assms(1) by (auto simp: artifacts_inv_def slots_ok_def)
    with old x have "covers d c rid p" by (auto simp: covers_def)
    with assms(4) c(1) show ?thesis by blast
  qed
qed

section \<open>A concrete instance\<close>

definition demo_slot_db :: db where
  "demo_slot_db = empty_db\<lparr>d_releases := [demo_release 1 ''1'' 1 ''master'' False], d_release_seq := 1\<rparr>"

definition demo_slot :: "OS \<Rightarrow> artifact \<times> platform list" where
  "demo_slot os = (\<lparr>a_id = 0, a_release_id = 1, a_os = os, a_arch = ArchAMD64, a_kind = KindBinary, a_storage_key = ''k'',
     a_size = 3, a_sha256 = ''k'', a_stripped_storage_key = [], a_stripped_size = 0, a_stripped_sha256 = [],
     a_debug_storage_key = [], a_debug_size = 0, a_filename = ''f'', a_exe_format = [], a_created_at = 0\<rparr>,
     [\<lparr>plat_os = os, plat_arch = ArchAMD64\<rparr>])"

theorem createArtifacts_exact_witness:
  "\<not> slots_free 1 KindBinary [\<lparr>plat_os = OSLinux, plat_arch = ArchAMD64\<rparr>, \<lparr>plat_os = OSLinux, plat_arch = ArchAMD64\<rparr>] demo_slot_db
   \<and> (\<exists>p. createArtifacts 9 [demo_slot OSLinux, demo_slot OSLinux] demo_slot_db = (demo_slot_db, Inl (conflict_at p)))
   \<and> createArtifacts 9 [demo_slot OSLinux, demo_slot OSDarwin] demo_slot_db \<noteq> (demo_slot_db, Inl ErrNotFound)"
proof -
  have inv: "artifacts_inv demo_slot_db" by (simp add: artifacts_inv_defs demo_slot_db_def empty_db_def)
  have typed: "rows_ok 1 KindBinary [demo_slot OSLinux, demo_slot OSLinux]" by code_simp
  have rl: "has_release 1 demo_slot_db" by (simp add: has_release_def demo_slot_db_def demo_release_def)
  have ex: "createArtifacts 9 [demo_slot OSLinux, demo_slot OSDarwin] demo_slot_db \<noteq> (demo_slot_db, Inl ErrNotFound)" by code_simp
  have free: "\<not> slots_free 1 KindBinary (concat (map snd [demo_slot OSLinux, demo_slot OSLinux])) demo_slot_db"
    by (simp add: slots_free_def demo_slot_def)
  with createArtifacts_exact [OF inv typed rl, of 9] ex show ?thesis by (auto simp: slots_free_def)
qed

end
