(* ===== verification/Artifact_Api.thy ===== *)
theory Artifact_Api
  imports Artifacts Http
begin

text \<open>
  Uploading artifacts and publishing releases: \<open>internal/api/artifacts.go\<close>,
  \<open>artifacts_ape.go\<close>, \<open>publish.go\<close>, and \<open>GetRelease\<close> of \<open>releases.go\<close>. A handler gets the project
  the gate put in the context, the parts of the route it reads and the request, and works on the
  database and the blob store. Where the program prints a sentence about what it refused, the
  reply holds the reason. The hash, the zstd coder and decoder and the size limit are the fields
  of \<open>art_env\<close>; \<open>fail\<close> is the stage at which the file system fails, if it does. A stored stream that
  does not decode is taken to fail within its first bytes.

  Strings are sequences of bytes; \<open>strings.Map\<close> walks over their UTF-8 encoding and replaces
  what is not valid by U+FFFD, as Go does.
\<close>

section \<open>Requests and replies\<close>

type_synonym art_state = "db \<times> filesystem"

record art_env =
  ae_hash :: hash
  ae_enc :: "bytes \<Rightarrow> bytes"
  ae_dec :: "bytes \<Rightarrow> bytes option"
  ae_max_upload :: int

record art_route =
  ro_version :: string
  ro_os :: string
  ro_arch :: string

datatype spec_error = InvalidOSName string | DuplicateOS OS | InvalidArchName string | DuplicateArch Arch

datatype art_refusal =
    AMsg string
  | BadSpec spec_error
  | BadPlatforms platform_error
  | IncompatiblePair OS Arch
  | KindNotMulti Kind
  | NotPortable nat
  | StubPE platform
  | SlotConflict db_error

datatype art_reply =
    ARefuse int art_refusal
  | ArtifactReply int artifact "platform list"
  | ArtifactsReply int "(artifact \<times> platform list) list"
  | PublishedReply int release "(artifact \<times> platform list) list"

section \<open>File names\<close>

text \<open>The length of the UTF-8 sequence a string starts with; a byte that starts none counts as one,
  and is not valid (\<open>utf8.DecodeRune\<close>).\<close>

definition byte_in :: "nat \<Rightarrow> nat \<Rightarrow> char \<Rightarrow> bool" where
  "byte_in lo hi c \<longleftrightarrow> lo \<le> of_char c \<and> of_char c \<le> hi"

definition is_cont :: "char \<Rightarrow> bool" where
  "is_cont c \<longleftrightarrow> byte_in 0x80 0xBF c"

definition second_ok :: "char \<Rightarrow> char \<Rightarrow> bool" where
  "second_ok c d \<longleftrightarrow>
     (if of_char c = (0xE0 :: nat) then byte_in 0xA0 0xBF d
      else if of_char c = (0xED :: nat) then byte_in 0x80 0x9F d
      else if of_char c = (0xF0 :: nat) then byte_in 0x90 0xBF d
      else if of_char c = (0xF4 :: nat) then byte_in 0x80 0x8F d
      else is_cont d)"

definition rune_width :: "string \<Rightarrow> nat \<times> bool" where
  "rune_width s =
     (case s of
        [] \<Rightarrow> (0, False)
      | c # t \<Rightarrow>
          if byte_in 0 0x7F c then (1, True)
          else if byte_in 0xC2 0xDF c \<and> length t \<ge> 1 \<and> is_cont (t ! 0) then (2, True)
          else if byte_in 0xE0 0xEF c \<and> length t \<ge> 2 \<and> second_ok c (t ! 0) \<and> is_cont (t ! 1) then (3, True)
          else if byte_in 0xF0 0xF4 c \<and> length t \<ge> 3 \<and> second_ok c (t ! 0) \<and> is_cont (t ! 1) \<and> is_cont (t ! 2)
          then (4, True)
          else (1, False))"

definition rune_error :: string where
  "rune_error = [CHR 0xEF, CHR 0xBF, CHR 0xBD]"

definition is_control :: "char \<Rightarrow> bool" where
  "is_control c \<longleftrightarrow> (of_char c :: nat) < 32 \<or> (of_char c :: nat) = 127"

text \<open>\<open>strings.Map\<close> with the function that drops control characters.\<close>

function drop_controls :: "string \<Rightarrow> string" where
  "drop_controls [] = []"
| "drop_controls (c # t) =
     (case rune_width (c # t) of (n, valid) \<Rightarrow>
      if is_control c then drop_controls t
      else if \<not> valid then rune_error @ drop_controls t
      else take n (c # t) @ drop_controls (drop (n - 1) t))"
  by pat_completeness auto
termination by (relation "measure length") auto

text \<open>\<open>filepath.Base\<close> on a system with \<open>/\<close> as separator.\<close>

definition trim_slashes :: "string \<Rightarrow> string" where
  "trim_slashes s = rev (dropWhile (\<lambda>c. c = CHR ''/'') (rev s))"

definition path_base :: "string \<Rightarrow> string" where
  "path_base s =
     (if s = [] then ''.''
      else let t = trim_slashes s in
        if t = [] then ''/'' else rev (takeWhile (\<lambda>c. c \<noteq> CHR ''/'') (rev t)))"

definition sanitizeFilename :: "string \<Rightarrow> string" where
  "sanitizeFilename name =
     (let base = path_base (map (\<lambda>c. if c = CHR 0x5C then CHR ''/'' else c) name) in
      if base = ''.'' \<or> base = ''/'' \<or> base = ''..'' then []
      else take 255 (drop_controls base))"

section \<open>The request\<close>

definition SHA256Param :: string where "SHA256Param = ''upload_sha256''"
definition SessionParam :: string where "SessionParam = ''upload_session''"

definition hashRefRequest :: "request \<Rightarrow> string option" where
  "hashRefRequest r =
     (if query_get r SHA256Param = [] \<or> query_get r SessionParam \<noteq> [] \<or> rq_content_length r \<noteq> 0 then None
      else Some (to_lower (query_get r SHA256Param)))"

definition osAliasExpansion :: "OS list" where "osAliasExpansion = [OSLinux, OSDarwin, OSWindows]"
definition archAliasExpansion :: "Arch list" where "archAliasExpansion = [ArchAMD64, ArchARM64]"

fun os_elems :: "string list \<Rightarrow> OS list \<Rightarrow> spec_error + OS list" where
  "os_elems [] out = Inr out"
| "os_elems (e # es) out =
     (case NormalizeOS e of (osName, ok) \<Rightarrow>
      if \<not> ok then Inl (InvalidOSName (trim_space e))
      else if osName \<in> set out then Inl (DuplicateOS osName)
      else os_elems es (out @ [osName]))"

definition expandOSSpec :: "string \<Rightarrow> spec_error + OS list" where
  "expandOSSpec spec =
     (if to_lower (trim_space spec) \<in> {''cosmo'', ''any'', ''all'', ''universal''} then Inr osAliasExpansion
      else os_elems (split_on (CHR '','') spec) [])"

fun arch_elems :: "string list \<Rightarrow> Arch list \<Rightarrow> spec_error + Arch list" where
  "arch_elems [] out = Inr out"
| "arch_elems (e # es) out =
     (case NormalizeArch e of (arch, ok) \<Rightarrow>
      if \<not> ok then Inl (InvalidArchName (trim_space e))
      else if arch \<in> set out then Inl (DuplicateArch arch)
      else arch_elems es (out @ [arch]))"

definition expandArchSpec :: "string \<Rightarrow> spec_error + Arch list" where
  "expandArchSpec spec =
     (if to_lower (trim_space spec) \<in> {''any'', ''all''} then Inr archAliasExpansion
      else arch_elems (split_on (CHR '','') spec) [])"

definition platformCombos :: "OS list \<Rightarrow> Arch list \<Rightarrow> platform list" where
  "platformCombos oses arches =
     concat (map (\<lambda>os. map (\<lambda>arch. \<lparr>plat_os = os, plat_arch = arch\<rparr>) arches) oses)"

definition artifactKind :: "request \<Rightarrow> string" where
  "artifactKind r =
     (if query_get r ''kind'' \<noteq> [] then query_get r ''kind''
      else if header_get r ''X-Artifact-Kind'' \<noteq> [] then header_get r ''X-Artifact-Kind''
      else KindBinary)"

definition firstWindows :: "platform list \<Rightarrow> platform option" where
  "firstWindows ps = find_first (\<lambda>p. plat_os p = OSWindows) ps"

section \<open>Getting the bytes into the store\<close>

record stored_upload =
  su_storage_key :: string
  su_sha256hex :: string
  su_size :: int
  su_format :: string
  su_nt_boot :: nt_boot

text \<open>The first bytes of the upload, collected from the writes of the tee.\<close>

definition headCapture_Write :: "bytes \<Rightarrow> bytes \<Rightarrow> bytes" where
  "headCapture_Write p head = (if SniffLen - length head > 0 then head @ take (min (SniffLen - length head) (length p)) p else head)"

definition capture_head :: "bytes list \<Rightarrow> bytes" where
  "capture_head segs = fold headCapture_Write segs []"

definition resolveHashRef :: "art_env \<Rightarrow> stage option \<Rightarrow> int \<Rightarrow> string \<Rightarrow> art_state \<Rightarrow> art_reply + string \<times> int \<times> bytes" where
  "resolveHashRef env fail projectID refHex s =
     (case s of (d, fs) \<Rightarrow>
      if \<not> validStorageKey refHex then Inl (ARefuse 400 (AMsg ''invalid upload_sha256: want 64 hex characters''))
      else
        (let owned = BlobBelongsToProject projectID refHex d in
         case (if owned then Exists fail refHex fs else (False, None)) of
           (_, Some _) \<Rightarrow> Inl (ARefuse 500 (AMsg ''failed to look up blob''))
         | (ex, None) \<Rightarrow>
             if \<not> owned \<or> \<not> ex then Inl (ARefuse 404 (AMsg ''no blob with this upload_sha256 in this project''))
             else (case GetBlob (ae_dec env) fail refHex fs of
                     Inr (Some content, sz) \<Rightarrow> Inr (refHex, sz, take SniffLen content)
                   | _ \<Rightarrow> Inl (ARefuse 500 (AMsg ''failed to read blob'')))))"

definition storeUpload :: "art_env \<Rightarrow> stage option \<Rightarrow> request \<Rightarrow> int \<Rightarrow> art_state \<Rightarrow> art_state \<times> (art_reply + stored_upload)" where
  "storeUpload env fail r projectID s =
     (case hashRefRequest r of
        Some refHex \<Rightarrow>
          (case resolveHashRef env fail projectID refHex s of
             Inl refusal \<Rightarrow> (s, Inl refusal)
           | Inr (key, sz, head) \<Rightarrow>
               (s, Inr \<lparr>su_storage_key = key, su_sha256hex = key, su_size = sz, su_format = Detect head,
                        su_nt_boot = DetectNTBoot head\<rparr>))
      | None \<Rightarrow>
          (let body = limit_body (ae_max_upload env) (rq_body r); head = capture_head (rd_segs body) in
           case Put (ae_hash env) (ae_enc env) fail body (snd s) of
             (fs', Inl _) \<Rightarrow> ((fst s, fs'), Inl (ARefuse 500 (AMsg ''failed to store artifact'')))
           | (fs', Inr (key, sz)) \<Rightarrow>
               ((fst s, fs'), Inr \<lparr>su_storage_key = key, su_sha256hex = hex_encode (ae_hash env (rd_bytes body)),
                  su_size = sz, su_format = Detect head, su_nt_boot = DetectNTBoot head\<rparr>)))"

section \<open>Handlers\<close>

definition getRelease :: "int \<Rightarrow> string \<Rightarrow> db \<Rightarrow> art_reply + release" where
  "getRelease projectID version d =
     (case GetRelease projectID version d of
        Inl _ \<Rightarrow> Inl (ARefuse 404 (AMsg ''release not found'')) | Inr r \<Rightarrow> Inr r)"

definition getLatestRelease :: "int \<Rightarrow> db \<Rightarrow> art_reply + release" where
  "getLatestRelease projectID d =
     (case GetLatestRelease projectID d of
        Inl _ \<Rightarrow> Inl (ARefuse 404 (AMsg ''release not found'')) | Inr r \<Rightarrow> Inr r)"

text \<open>The row an upload asks for.\<close>

definition upload_row :: "int \<Rightarrow> Kind \<Rightarrow> string \<Rightarrow> stored_upload \<Rightarrow> OS \<Rightarrow> Arch \<Rightarrow> artifact" where
  "upload_row releaseID kind filename su os arch =
     \<lparr>a_id = 0, a_release_id = releaseID, a_os = os, a_arch = arch, a_kind = kind, a_storage_key = su_storage_key su,
      a_size = su_size su, a_sha256 = su_sha256hex su, a_stripped_storage_key = [], a_stripped_size = 0,
      a_stripped_sha256 = [], a_debug_storage_key = [], a_debug_size = 0, a_filename = filename,
      a_exe_format = su_format su, a_created_at = 0\<rparr>"

definition sameMultiPlatformArtifact :: "artifact \<Rightarrow> platform list \<Rightarrow> db \<Rightarrow> (artifact \<times> platform list) option" where
  "sameMultiPlatformArtifact want platforms d =
     find_first (\<lambda>(a, ps). a_sha256 a = a_sha256 want \<and> a_kind a = a_kind want
         \<and> length ps = length (remdups platforms) \<and> list_all (\<lambda>p. p \<in> set platforms) ps)
       (ListArtifactsWithPlatforms (a_release_id want) d)"

definition publishMultiPlatform :: "time \<Rightarrow> int \<Rightarrow> Kind \<Rightarrow> string \<Rightarrow> stored_upload \<Rightarrow> platform list \<Rightarrow> db \<Rightarrow> db \<times> art_reply" where
  "publishMultiPlatform now releaseID kind filename su platforms d =
     (if length platforms > 1 \<and> \<not> MultiPlatformCapable (su_format su)
      then (d, ARefuse 400 (NotPortable (length platforms)))
      else case (if su_nt_boot su = NTStub then firstWindows platforms else None) of
        Some p \<Rightarrow> (d, ARefuse 400 (StubPE p))
      | None \<Rightarrow>
          (let artifact = upload_row releaseID kind filename su [] [] in
           case CreateMultiPlatformArtifact now artifact platforms d of
             (d', Inr as) \<Rightarrow> (d', ArtifactReply 201 (hd as) platforms)
           | (d', Inl (ErrConflict m)) \<Rightarrow>
               (case sameMultiPlatformArtifact artifact platforms d' of
                  Some (a, ps) \<Rightarrow> (d', ArtifactReply 200 a ps)
                | None \<Rightarrow> (d', ARefuse 409 (SlotConflict (ErrConflict m))))
           | (d', Inl _) \<Rightarrow> (d', ARefuse 500 (AMsg ''failed to record artifact''))))"

text \<open>The platforms an upload to \<open>/artifacts/{os}/{arch}\<close> fans out to.\<close>

definition incompatible :: "platform list \<Rightarrow> platform option" where
  "incompatible ps = find_first (\<lambda>p. \<not> CompatiblePlatform (plat_os p) (plat_arch p)) ps"

definition upload_platforms :: "Kind \<Rightarrow> string \<Rightarrow> string \<Rightarrow> art_reply + OS list \<times> Arch list" where
  "upload_platforms kind os arch =
     (if kind = KindNPMPackage then
        (if os \<noteq> ''any'' \<or> arch \<noteq> ''any''
         then Inl (ARefuse 400 (AMsg ''npm-package artifacts must use os=any and arch=any''))
         else Inr ([os], [arch]))
      else case NormalizeLegacyWasmPair os arch of
        (o', a', True) \<Rightarrow> Inr ([o'], [a'])
      | _ \<Rightarrow>
          (case expandOSSpec os of
             Inl e \<Rightarrow> Inl (ARefuse 400 (BadSpec e))
           | Inr oses \<Rightarrow>
          (case expandArchSpec arch of
             Inl e \<Rightarrow> Inl (ARefuse 400 (BadSpec e))
           | Inr arches \<Rightarrow>
          (case incompatible (platformCombos oses arches) of
             Some p \<Rightarrow> Inl (ARefuse 400 (IncompatiblePair (plat_os p) (plat_arch p)))
           | None \<Rightarrow> Inr (oses, arches)))))"

definition record_artifacts :: "time \<Rightarrow> artifact list \<Rightarrow> db \<Rightarrow> db \<times> art_reply" where
  "record_artifacts now artifacts d =
     (case (if length artifacts = 1 then CreateArtifact now (hd artifacts) d else CreateArtifacts now artifacts d) of
        (d', Inl (ErrConflict m)) \<Rightarrow>
          (d', ARefuse 409 (if length artifacts > 1 then SlotConflict (ErrConflict m)
                            else AMsg ''artifact already exists for this os/arch''))
      | (d', Inl _) \<Rightarrow> (d', ARefuse 500 (AMsg ''failed to record artifact''))
      | (d', Inr as) \<Rightarrow>
          (let withPlatforms = map (\<lambda>a. (a, [own_platform a])) as in
           (d', if length withPlatforms = 1
                then ArtifactReply 201 (fst (hd withPlatforms)) (snd (hd withPlatforms))
                else ArtifactsReply 201 withPlatforms)))"

definition UploadArtifact :: "art_env \<Rightarrow> time \<Rightarrow> stage option \<Rightarrow> project \<Rightarrow> art_route \<Rightarrow> request \<Rightarrow> art_state \<Rightarrow> art_state \<times> art_reply" where
  "UploadArtifact env now fail project rt r s =
     (case getRelease (p_id project) (ro_version rt) (fst s) of
        Inl refusal \<Rightarrow> (s, refusal)
      | Inr rl \<Rightarrow>
     if r_published rl then (s, ARefuse 409 (AMsg ''release already published''))
     else if \<not> ValidKind (artifactKind r) then (s, ARefuse 400 (AMsg ''invalid kind''))
     else case upload_platforms (artifactKind r) (ro_os rt) (ro_arch rt) of
        Inl refusal \<Rightarrow> (s, refusal)
      | Inr (oses, arches) \<Rightarrow>
     (case storeUpload env fail r (p_id project) s of
        (s1, Inl refusal) \<Rightarrow> (s1, refusal)
      | (s1, Inr su) \<Rightarrow>
          (let filename = sanitizeFilename (header_get r ''X-Artifact-Filename'');
               combos = platformCombos oses arches in
           case (if length combos > 1 \<and> MultiPlatformCapable (su_format su)
                 then publishMultiPlatform now (r_id rl) (artifactKind r) filename su combos (fst s1)
                 else record_artifacts now
                   (map (\<lambda>p. upload_row (r_id rl) (artifactKind r) filename su (plat_os p) (plat_arch p)) combos) (fst s1)) of
             (d', reply) \<Rightarrow> ((d', snd s1), reply))))"

definition UploadMultiPlatformArtifact :: "art_env \<Rightarrow> time \<Rightarrow> stage option \<Rightarrow> project \<Rightarrow> art_route \<Rightarrow> request \<Rightarrow> art_state \<Rightarrow> art_state \<times> art_reply" where
  "UploadMultiPlatformArtifact env now fail project rt r s =
     (case getRelease (p_id project) (ro_version rt) (fst s) of
        Inl refusal \<Rightarrow> (s, refusal)
      | Inr rl \<Rightarrow>
     if r_published rl then (s, ARefuse 409 (AMsg ''release already published''))
     else if query_get r ''platforms'' = [] then (s, ARefuse 400 (AMsg ''platforms is required''))
     else case ParsePlatformList (query_get r ''platforms'') of
        Inl e \<Rightarrow> (s, ARefuse 400 (BadPlatforms e))
      | Inr platforms \<Rightarrow>
     if \<not> ValidKind (artifactKind r) then (s, ARefuse 400 (AMsg ''invalid kind''))
     else if artifactKind r = KindDocker \<or> artifactKind r = KindNPMPackage
     then (s, ARefuse 400 (KindNotMulti (artifactKind r)))
     else case storeUpload env fail r (p_id project) s of
        (s1, Inl refusal) \<Rightarrow> (s1, refusal)
      | (s1, Inr su) \<Rightarrow>
          (case publishMultiPlatform now (r_id rl) (artifactKind r)
                  (sanitizeFilename (header_get r ''X-Artifact-Filename'')) su platforms (fst s1) of
             (d', reply) \<Rightarrow> ((d', snd s1), reply)))"

definition handlePublishRelease :: "time \<Rightarrow> project \<Rightarrow> art_route \<Rightarrow> db \<Rightarrow> db \<times> art_reply" where
  "handlePublishRelease now project rt d =
     (case getRelease (p_id project) (ro_version rt) d of
        Inl refusal \<Rightarrow> (d, refusal)
      | Inr rl \<Rightarrow>
     if r_published rl then (d, ARefuse 409 (AMsg ''release already published''))
     else (let artifacts = ListArtifactsWithPlatforms (r_id rl) d in
        if artifacts = [] then (d, ARefuse 400 (AMsg ''no artifacts uploaded''))
        else (PublishRelease now (r_id rl) d, PublishedReply 200 (rl\<lparr>r_published := True\<rparr>) artifacts)))"

definition handleGetRelease :: "project \<Rightarrow> art_route \<Rightarrow> db \<Rightarrow> art_reply" where
  "handleGetRelease project rt d =
     (case (if ro_version rt = [] \<or> ro_version rt = ''latest'' then getLatestRelease (p_id project) d
            else getRelease (p_id project) (ro_version rt) d) of
        Inl refusal \<Rightarrow> refusal
      | Inr rl \<Rightarrow> PublishedReply 200 rl (ListArtifactsWithPlatforms (r_id rl) d))"

section \<open>File names are harmless\<close>

lemma not_control_high: "byte_in lo hi c \<Longrightarrow> 128 \<le> lo \<Longrightarrow> \<not> is_control c \<and> c \<noteq> CHR ''/''"
  by (auto simp: byte_in_def is_control_def)

lemma second_high: "second_ok c d \<Longrightarrow> \<not> is_control d \<and> d \<noteq> CHR ''/''"
  by (auto simp: second_ok_def is_cont_def split: if_splits dest: not_control_high)

lemma rune_width_cases:
  assumes "rune_width (c # t) = (n, True)"
  obtains (one) "n = 1" | (two) "n = 2" "length t \<ge> 1" "is_cont (t ! 0)"
  | (three) "n = 3" "length t \<ge> 2" "second_ok c (t ! 0)" "is_cont (t ! 1)"
  | (four) "n = 4" "length t \<ge> 3" "second_ok c (t ! 0)" "is_cont (t ! 1)" "is_cont (t ! 2)"
  using assms unfolding rune_width_def list.case by (simp split: if_splits)

lemma is_cont_high: "is_cont d \<Longrightarrow> \<not> is_control d"
  unfolding is_cont_def by (drule not_control_high) simp_all

lemma rune_tail:
  assumes "rune_width (c # t) = (n, True)" "i < n - 1"
  shows "\<not> is_control (t ! i)"
  using assms(1)
proof (cases rule: rune_width_cases)
  case four
  with assms(2) have "i = 0 \<or> i = 1 \<or> i = 2" by linarith
  with four show ?thesis using second_high is_cont_high by auto
next
  case three
  with assms(2) have "i = 0 \<or> i = 1" by linarith
  with three show ?thesis using second_high is_cont_high by auto
qed (use assms(2) is_cont_high in auto)

lemma rune_chars:
  assumes "rune_width (c # t) = (n, True)" "x \<in> set (take n (c # t))" "\<not> is_control c"
  shows "\<not> is_control x" "x \<in> set (c # t)"
proof -
  from assms(2) obtain i where i: "i < n" "x = (c # t) ! i" by (auto simp: in_set_conv_nth)
  show "\<not> is_control x"
  proof (cases i)
    case (Suc j)
    with i rune_tail [OF assms(1), of j] show ?thesis by simp
  qed (use i assms(3) in simp)
  from assms(2) show "x \<in> set (c # t)" by (rule in_set_takeD)
qed

lemma drop_controls_set:
  "x \<in> set (drop_controls s) \<Longrightarrow> \<not> is_control x \<and> (x \<in> set s \<or> x \<in> set rune_error)"
proof (induction s rule: drop_controls.induct)
  case (2 c t)
  obtain n valid where w: "rune_width (c # t) = (n, valid)" by (cases "rune_width (c # t)")
  consider (ctrl) "is_control c" | (bad) "\<not> is_control c" "\<not> valid" | (good) "\<not> is_control c" "valid" by blast
  then show ?case
  proof cases
    case ctrl
    with 2 w show ?thesis by auto
  next
    case bad
    with "2.prems" w have "x \<in> set rune_error \<or> x \<in> set (drop_controls t)" by simp
    with "2.IH"(2) [OF w [symmetric] bad] show ?thesis by (auto simp: rune_error_def is_control_def)
  next
    case good
    with "2.prems" w have "x \<in> set (take n (c # t)) \<or> x \<in> set (drop_controls (drop (n - 1) t))" by simp
    with "2.IH"(3) [OF w [symmetric] good(1)] good w rune_chars [of c t n x]
    show ?thesis by (auto dest: in_set_dropD)
  qed
qed simp

lemma path_base_parts:
  assumes "CHR ''/'' \<in> set (path_base s)"
  shows "path_base s = ''/''"
  using assms by (auto simp: path_base_def Let_def split: if_splits dest: set_takeWhileD)

lemma path_base_chars: "x \<in> set (path_base s) \<Longrightarrow> x \<in> set s \<or> x = CHR ''.'' \<or> x = CHR ''/''"
  by (auto simp: path_base_def trim_slashes_def Let_def split: if_splits dest!: set_takeWhileD set_dropWhileD)

text \<open>C36: the file name recorded for an upload is at most 255 bytes, has no path separator of
  either kind and no control character, whatever the header says. The names of the current and the
  parent directory are refused before control characters are dropped, so a tab between two
  dots still leaves the parent directory as file name.\<close>

theorem sanitizeFilename_bounds:
  "length (sanitizeFilename name) \<le> 255
   \<and> set (sanitizeFilename name) \<inter> ({CHR ''/'', CHR 0x5C} \<union> Collect is_control) = {}
   \<and> sanitizeFilename ''..'' = [] \<and> sanitizeFilename [CHR ''.'', CHR 0x09, CHR ''.''] = ''..''"
proof -
  let ?s = "map (\<lambda>c. if c = CHR 0x5C then CHR ''/'' else c) name"
  have "x \<noteq> CHR ''/'' \<and> x \<noteq> CHR 0x5C \<and> \<not> is_control x" if "x \<in> set (sanitizeFilename name)" for x
  proof -
    from that have base: "path_base ?s \<noteq> ''/''" and x: "x \<in> set (drop_controls (path_base ?s))"
      by (auto simp: sanitizeFilename_def Let_def split: if_splits dest: in_set_takeD)
    from drop_controls_set [OF x] consider "x \<in> set (path_base ?s)" "\<not> is_control x" | "x \<in> set rune_error" "\<not> is_control x" by blast
    then show ?thesis
    proof cases
      case 1
      with base path_base_parts have "x \<noteq> CHR ''/''" by blast
      with 1 path_base_chars [OF 1(1)] show ?thesis by (auto split: if_splits)
    qed (auto simp: rune_error_def)
  qed
  moreover have "sanitizeFilename ''..'' = []" by code_simp
  moreover have "sanitizeFilename [CHR ''.'', CHR 0x09, CHR ''.''] = ''..''" by code_simp
  moreover have "length (sanitizeFilename name) \<le> 255" by (simp add: sanitizeFilename_def Let_def)
  ultimately show ?thesis by blast
qed

section \<open>Platforms of an upload\<close>

lemma os_elems_valid:
  "os_elems es out = Inr oses \<Longrightarrow> distinct out \<Longrightarrow> (\<forall>w \<in> set out. ValidOS w) \<Longrightarrow>
   distinct oses \<and> (\<forall>w \<in> set oses. ValidOS w) \<and> length oses = length out + length es"
proof (induction es out rule: os_elems.induct)
  case (2 e es out)
  obtain w ok where n: "NormalizeOS e = (w, ok)" by (cases "NormalizeOS e")
  with "2.prems"(1) have ok: "ok" "w \<notin> set out" "os_elems es (out @ [w]) = Inr oses"
    by (simp_all split: if_splits)
  from n ok(1) have "ValidOS w" using NormalizeOS_valid by simp
  with "2.prems"(2,3) ok(2) have "distinct (out @ [w])" "\<forall>v \<in> set (out @ [w]). ValidOS v" by auto
  from "2.IH" [OF n [symmetric] _ ok(2,3) this] ok(1) show ?case by simp
qed simp

lemma arch_elems_valid:
  "arch_elems es out = Inr arches \<Longrightarrow> distinct out \<Longrightarrow> (\<forall>w \<in> set out. ValidArch w) \<Longrightarrow>
   distinct arches \<and> (\<forall>w \<in> set arches. ValidArch w) \<and> length arches = length out + length es"
proof (induction es out rule: arch_elems.induct)
  case (2 e es out)
  obtain w ok where n: "NormalizeArch e = (w, ok)" by (cases "NormalizeArch e")
  with "2.prems"(1) have ok: "ok" "w \<notin> set out" "arch_elems es (out @ [w]) = Inr arches"
    by (simp_all split: if_splits)
  from n ok(1) have "ValidArch w" using NormalizeArch_valid by simp
  with "2.prems"(2,3) ok(2) have "distinct (out @ [w])" "\<forall>v \<in> set (out @ [w]). ValidArch v" by auto
  from "2.IH" [OF n [symmetric] _ ok(2,3) this] ok(1) show ?case by simp
qed simp

lemma expandOSSpec_valid:
  assumes "expandOSSpec spec = Inr oses"
  shows "distinct oses \<and> (\<forall>w \<in> set oses. ValidOS w) \<and> oses \<noteq> []"
proof -
  have "distinct osAliasExpansion \<and> (\<forall>w \<in> set osAliasExpansion. ValidOS w) \<and> osAliasExpansion \<noteq> []" by code_simp
  with assms os_elems_valid [of "split_on (CHR '','') spec" "[]" oses] show ?thesis
    by (auto simp: expandOSSpec_def split: if_splits)
qed

lemma expandArchSpec_valid:
  assumes "expandArchSpec spec = Inr arches"
  shows "distinct arches \<and> (\<forall>w \<in> set arches. ValidArch w) \<and> arches \<noteq> []"
proof -
  have "distinct archAliasExpansion \<and> (\<forall>w \<in> set archAliasExpansion. ValidArch w) \<and> archAliasExpansion \<noteq> []" by code_simp
  with assms arch_elems_valid [of "split_on (CHR '','') spec" "[]" arches] show ?thesis
    by (auto simp: expandArchSpec_def split: if_splits)
qed

lemma platformCombos_set:
  "set (platformCombos oses arches) = {\<lparr>plat_os = os, plat_arch = arch\<rparr> | os arch. os \<in> set oses \<and> arch \<in> set arches}"
  by (auto simp: platformCombos_def)

lemma platformCombos_distinct: "distinct oses \<Longrightarrow> distinct arches \<Longrightarrow> distinct (platformCombos oses arches)"
  by (induction oses) (auto simp: platformCombos_def distinct_map inj_on_def)

lemma platformCombos_nonempty: "oses \<noteq> [] \<Longrightarrow> arches \<noteq> [] \<Longrightarrow> platformCombos oses arches \<noteq> []"
  by (cases oses) (auto simp: platformCombos_def)

lemma find_first_none: "find_first P xs = None \<longleftrightarrow> (\<forall>x \<in> set xs. \<not> P x)"
  by (auto simp: find_first_def find_None_iff)

lemma legacy_wasm_pair:
  "NormalizeLegacyWasmPair os arch = (o', a', True) \<Longrightarrow> canonical_platform \<lparr>plat_os = o', plat_arch = a'\<rparr>"
proof -
  have "canonical_platform \<lparr>plat_os = OSWasm, plat_arch = ArchJS\<rparr>"
    "canonical_platform \<lparr>plat_os = OSWasm, plat_arch = ArchWasip1\<rparr>" by code_simp+
  then show "NormalizeLegacyWasmPair os arch = (o', a', True) \<Longrightarrow> ?thesis"
    by (auto simp: NormalizeLegacyWasmPair_def split: if_splits)
qed

lemma upload_platforms_typed:
  assumes "upload_platforms kind os arch = Inr (oses, arches)"
  shows "platformCombos oses arches \<noteq> []" "distinct (platformCombos oses arches)"
    "\<forall>p \<in> set (platformCombos oses arches). platform_typed kind p"
proof -
  let ?ps = "platformCombos oses arches"
  consider (npm) "kind = KindNPMPackage" "oses = [''any'']" "arches = [''any'']"
    | (wasm) o' a' where "kind \<noteq> KindNPMPackage" "NormalizeLegacyWasmPair os arch = (o', a', True)" "oses = [o']" "arches = [a']"
    | (spec) "kind \<noteq> KindNPMPackage" "expandOSSpec os = Inr oses" "expandArchSpec arch = Inr arches" "incompatible ?ps = None"
    using assms by (auto simp: upload_platforms_def split: if_splits prod.splits bool.splits sum.splits option.splits)
  then have "?ps \<noteq> [] \<and> distinct ?ps \<and> (\<forall>p \<in> set ?ps. platform_typed kind p)"
  proof cases
    case npm
    then show ?thesis by (simp add: platformCombos_def platform_typed_def any_platform_def)
  next
    case wasm
    with legacy_wasm_pair [OF wasm(2)] show ?thesis by (simp add: platformCombos_def platform_typed_def)
  next
    case spec
    note os = expandOSSpec_valid [OF spec(2)] and ar = expandArchSpec_valid [OF spec(3)]
    have "\<forall>p \<in> set ?ps. canonical_platform p"
      using os ar spec(4) by (auto simp: incompatible_def find_first_none platformCombos_set canonical_platform_def)
    with os ar spec(1) show ?thesis
      by (simp add: platform_typed_def platformCombos_distinct platformCombos_nonempty)
  qed
  then show "?ps \<noteq> []" "distinct ?ps" "\<forall>p \<in> set ?ps. platform_typed kind p" by auto
qed

section \<open>What an upload does to the tables\<close>

text \<open>Either nothing, or well-formed rows for the release, on slots that were free.\<close>

definition added :: "time \<Rightarrow> int \<Rightarrow> db \<Rightarrow> db \<Rightarrow> bool" where
  "added now rid d d' \<longleftrightarrow> d' = d \<or> (\<exists>kind rows. rows_ok rid kind rows
     \<and> slots_free rid kind (concat (map snd rows)) d \<and> artifacts_inv d' \<and> d' = add_artifacts now rows d)"

lemma addedI:
  "rows_ok rid kind rows \<Longrightarrow> slots_free rid kind (concat (map snd rows)) d \<Longrightarrow> artifacts_inv (add_artifacts now rows d)
   \<Longrightarrow> added now rid d (add_artifacts now rows d)"
  unfolding added_def by blast

lemma own_upload_row [simp]: "own_platform (upload_row rid kind name su os arch) = \<lparr>plat_os = os, plat_arch = arch\<rparr>"
  by (simp add: own_platform_def upload_row_def)

lemma upload_row_sel [simp]:
  "a_release_id (upload_row rid kind name su os arch) = rid" "a_kind (upload_row rid kind name su os arch) = kind"
  "a_storage_key (upload_row rid kind name su os arch) = su_storage_key su"
  "a_size (upload_row rid kind name su os arch) = su_size su"
  "a_sha256 (upload_row rid kind name su os arch) = su_sha256hex su"
  "a_exe_format (upload_row rid kind name su os arch) = su_format su"
  by (simp_all add: upload_row_def)

definition single_rows :: "int \<Rightarrow> Kind \<Rightarrow> string \<Rightarrow> stored_upload \<Rightarrow> platform list \<Rightarrow> (artifact \<times> platform list) list" where
  "single_rows rid kind name su ps = map (\<lambda>p. (upload_row rid kind name su (plat_os p) (plat_arch p), [p])) ps"

definition multi_row :: "int \<Rightarrow> Kind \<Rightarrow> string \<Rightarrow> stored_upload \<Rightarrow> platform list \<Rightarrow> artifact \<times> platform list" where
  "multi_row rid kind name su ps = (upload_row rid kind name su (plat_os (hd ps)) (plat_arch (hd ps)), ps)"

lemma single_rows_ok:
  "ValidKind kind \<Longrightarrow> \<forall>p \<in> set ps. platform_typed kind p \<Longrightarrow> rows_ok rid kind (single_rows rid kind name su ps)"
  by (auto simp: rows_ok_def single_rows_def row_ok_def platform_ok_def)

lemma multi_row_ok:
  "ValidKind kind \<Longrightarrow> \<forall>p \<in> set ps. platform_typed kind p \<Longrightarrow> ps \<noteq> [] \<Longrightarrow> length ps > 1 \<longrightarrow> su_format su = APE
   \<Longrightarrow> rows_ok rid kind [multi_row rid kind name su ps]"
  by (cases ps) (auto simp: multi_row_def row_ok_def rows_ok_def platform_ok_def)

lemma record_eq:
  assumes "ps \<noteq> []"
  shows "record_artifacts now (map (\<lambda>p. upload_row rid kind name su (plat_os p) (plat_arch p)) ps) d =
    (case createArtifacts now (single_rows rid kind name su ps) d of
       (d', Inl (ErrConflict m)) \<Rightarrow>
          (d', ARefuse 409 (if length ps > 1 then SlotConflict (ErrConflict m)
                            else AMsg ''artifact already exists for this os/arch''))
      | (d', Inl _) \<Rightarrow> (d', ARefuse 500 (AMsg ''failed to record artifact''))
      | (d', Inr as) \<Rightarrow>
          (let withPlatforms = map (\<lambda>a. (a, [own_platform a])) as in
           (d', if length withPlatforms = 1
                then ArtifactReply 201 (fst (hd withPlatforms)) (snd (hd withPlatforms))
                else ArtifactsReply 201 withPlatforms)))"
proof -
  have A: "CreateArtifacts now (map (\<lambda>p. upload_row rid kind name su (plat_os p) (plat_arch p)) ps) d =
    createArtifacts now (single_rows rid kind name su ps) d" by (simp add: CreateArtifacts_def single_rows_def comp_def)
  have B: "(if length ps = 1 then CreateArtifact now (hd (map (\<lambda>p. upload_row rid kind name su (plat_os p) (plat_arch p)) ps)) d
      else CreateArtifacts now (map (\<lambda>p. upload_row rid kind name su (plat_os p) (plat_arch p)) ps) d) =
    CreateArtifacts now (map (\<lambda>p. upload_row rid kind name su (plat_os p) (plat_arch p)) ps) d"
    using assms by (cases ps) (auto simp: CreateArtifact_def)
  show ?thesis unfolding record_artifacts_def length_map B by (simp only: A)
qed

lemma multi_eq:
  assumes "ps \<noteq> []"
  shows "CreateMultiPlatformArtifact now (upload_row rid kind name su [] []) ps d =
    createArtifacts now [multi_row rid kind name su ps] d"
  using assms by (cases ps) (simp_all add: CreateMultiPlatformArtifact_def multi_row_def upload_row_def)

lemma platform_string_conflict [simp]: "conflict_at p = ErrConflict (''artifact '' @ platform_string p)"
  by (simp add: conflict_at_def)

lemma record_added:
  assumes "artifacts_inv d" "has_release rid d" "ValidKind kind" "\<forall>p \<in> set ps. platform_typed kind p" "ps \<noteq> []"
    "record_artifacts now (map (\<lambda>p. upload_row rid kind name su (plat_os p) (plat_arch p)) ps) d = (d', reply)"
  shows "added now rid d d'"
  using assms(1) single_rows_ok [OF assms(3,4)] assms(2)
proof (cases rule: createArtifacts_cases [where now = now and rows = "single_rows rid kind name su ps"])
  case ok
  with assms(6) have "d' = add_artifacts now (single_rows rid kind name su ps) d"
    by (simp add: record_eq [OF assms(5)] Let_def split: if_splits)
  with addedI [OF single_rows_ok [OF assms(3,4)] ok(1,2)] show ?thesis by simp
next
  case (conflict p)
  with assms(6) show ?thesis by (simp add: record_eq [OF assms(5)] added_def)
qed

lemma multi_added:
  assumes "artifacts_inv d" "has_release rid d" "ValidKind kind" "\<forall>p \<in> set ps. platform_typed kind p" "ps \<noteq> []"
    "publishMultiPlatform now rid kind name su ps d = (d', reply)"
  shows "added now rid d d'"
proof (cases "length ps > 1 \<and> \<not> MultiPlatformCapable (su_format su)
    \<or> (if su_nt_boot su = NTStub then firstWindows ps else None) \<noteq> None")
  case True
  with assms(6) show ?thesis by (auto simp: publishMultiPlatform_def added_def split: if_splits option.splits)
next
  case False
  then have fmt: "length ps > 1 \<longrightarrow> su_format su = APE" by (auto simp: MultiPlatformCapable_def)
  note rows = multi_row_ok [OF assms(3,4,5) fmt]
  from False assms(6) have eq: "(case createArtifacts now [multi_row rid kind name su ps] d of
             (d', Inr as) \<Rightarrow> (d', ArtifactReply 201 (hd as) ps)
           | (d', Inl (ErrConflict m)) \<Rightarrow>
               (case sameMultiPlatformArtifact (upload_row rid kind name su [] []) ps d' of
                  Some (a, qs) \<Rightarrow> (d', ArtifactReply 200 a qs)
                | None \<Rightarrow> (d', ARefuse 409 (SlotConflict (ErrConflict m))))
           | (d', Inl _) \<Rightarrow> (d', ARefuse 500 (AMsg ''failed to record artifact''))) = (d', reply)"
    unfolding publishMultiPlatform_def Let_def by (auto simp: multi_eq [OF assms(5)] split: if_splits option.splits)
  from assms(1) rows assms(2) show ?thesis
  proof (cases rule: createArtifacts_cases [where now = now and rows = "[multi_row rid kind name su ps]" and rid = rid])
    case ok
    from addedI [OF rows ok(1,2)] ok(3) eq show ?thesis by simp
  next
    case (conflict p)
    with eq show ?thesis by (auto simp: added_def split: option.splits)
  qed
qed

section \<open>The handlers as a system\<close>

definition released :: "project \<Rightarrow> art_route \<Rightarrow> db \<Rightarrow> release \<Rightarrow> bool" where
  "released project rt d rl \<longleftrightarrow> GetRelease (p_id project) (ro_version rt) d = Inr rl"

lemma getRelease_Inr: "getRelease pid v d = Inr rl \<longleftrightarrow> GetRelease pid v d = Inr rl"
  by (auto simp: getRelease_def split: sum.splits)

lemma GetRelease_row: "GetRelease pid v d = Inr rl \<Longrightarrow> rl \<in> set (d_releases d) \<and> r_project_id rl = pid \<and> r_version rl = v"
  by (auto simp: GetRelease_def GetReleaseByProjectAndVersion_def split: option.splits dest!: find_first_Some)

lemma GetRelease_has: "GetRelease pid v d = Inr rl \<Longrightarrow> has_release (r_id rl) d"
  by (auto simp: has_release_def dest: GetRelease_row)

lemma storeUpload_db: "storeUpload env fail r pid s = (s1, res) \<Longrightarrow> fst s1 = fst s"
  by (auto simp: storeUpload_def Let_def split: option.splits sum.splits prod.splits)

text \<open>The two ways an upload gets past its checks.\<close>

lemma UploadArtifact_cases:
  assumes "UploadArtifact env now fail project rt r s = (s', reply)"
  obtains (refused) "fst s' = fst s" "\<And>c a ps. reply \<noteq> ArtifactReply c a ps" "\<And>c as. reply \<noteq> ArtifactsReply c as"
  | (stored) rl oses arches s1 su where
      "GetRelease (p_id project) (ro_version rt) (fst s) = Inr rl" "\<not> r_published rl" "ValidKind (artifactKind r)"
      "upload_platforms (artifactKind r) (ro_os rt) (ro_arch rt) = Inr (oses, arches)"
      "storeUpload env fail r (p_id project) s = (s1, Inr su)" "snd s' = snd s1"
      "(if length (platformCombos oses arches) > 1 \<and> MultiPlatformCapable (su_format su)
        then publishMultiPlatform now (r_id rl) (artifactKind r) (sanitizeFilename (header_get r ''X-Artifact-Filename''))
               su (platformCombos oses arches) (fst s)
        else record_artifacts now (map (\<lambda>p. upload_row (r_id rl) (artifactKind r)
               (sanitizeFilename (header_get r ''X-Artifact-Filename'')) su (plat_os p) (plat_arch p))
               (platformCombos oses arches)) (fst s)) = (fst s', reply)"
proof (cases "getRelease (p_id project) (ro_version rt) (fst s)")
  case (Inl e)
  with assms that(1) show ?thesis by (auto simp: UploadArtifact_def getRelease_def split: sum.splits)
next
  case (Inr rl)
  note step = assms [unfolded UploadArtifact_def Inr sum.case]
  consider (pub) "r_published rl \<or> \<not> ValidKind (artifactKind r)"
    | (go) "\<not> r_published rl" "ValidKind (artifactKind r)" by blast
  then show ?thesis
  proof cases
    case pub
    with step that(1) show ?thesis by (auto split: if_splits)
  next
    case go
    show ?thesis
    proof (cases "upload_platforms (artifactKind r) (ro_os rt) (ro_arch rt)")
      case (Inl e)
      then have "\<And>c a ps. e \<noteq> ArtifactReply c a ps" "\<And>c as. e \<noteq> ArtifactsReply c as"
        by (auto simp: upload_platforms_def split: if_splits prod.splits bool.splits sum.splits option.splits)
      with step go Inl that(1) show ?thesis by auto
    next
      case (Inr pl)
      obtain oses arches where pl: "pl = (oses, arches)" by (cases pl)
      obtain s1 res where su: "storeUpload env fail r (p_id project) s = (s1, res)"
        by (cases "storeUpload env fail r (p_id project) s")
      note db = storeUpload_db [OF su]
      show ?thesis
      proof (cases res)
        case (Inl e)
        then have "\<And>c a ps. e \<noteq> ArtifactReply c a ps" "\<And>c as. e \<noteq> ArtifactsReply c as"
          using su by (auto simp: storeUpload_def resolveHashRef_def Let_def split: option.splits sum.splits prod.splits if_splits)
        with step go Inr pl su Inl db that(1) show ?thesis by auto
      next
        case (Inr v)
        with step go \<open>upload_platforms _ _ _ = Inr pl\<close> pl su db \<open>getRelease _ _ _ = Inr rl\<close> show ?thesis
          by (intro that(2) [of rl oses arches s1 v])
            (auto simp: getRelease_Inr Let_def split: prod.splits if_splits)
      qed
    qed
  qed
qed

lemma UploadMulti_cases:
  assumes "UploadMultiPlatformArtifact env now fail project rt r s = (s', reply)"
  obtains (refused) "fst s' = fst s"
  | (stored) rl ps s1 su where
      "GetRelease (p_id project) (ro_version rt) (fst s) = Inr rl" "\<not> r_published rl" "ValidKind (artifactKind r)"
      "artifactKind r \<noteq> KindNPMPackage" "ParsePlatformList (query_get r ''platforms'') = Inr ps"
      "storeUpload env fail r (p_id project) s = (s1, Inr su)" "snd s' = snd s1"
      "publishMultiPlatform now (r_id rl) (artifactKind r) (sanitizeFilename (header_get r ''X-Artifact-Filename''))
         su ps (fst s) = (fst s', reply)"
proof (cases "getRelease (p_id project) (ro_version rt) (fst s)")
  case (Inl e)
  with assms that(1) show ?thesis by (auto simp: UploadMultiPlatformArtifact_def)
next
  case (Inr rl)
  note step = assms [unfolded UploadMultiPlatformArtifact_def Inr sum.case]
  show ?thesis
  proof (cases "ParsePlatformList (query_get r ''platforms'')")
    case (Inl e)
    with step that(1) show ?thesis by (auto split: if_splits)
  next
    case pl: (Inr ps)
    obtain s1 res where su: "storeUpload env fail r (p_id project) s = (s1, res)"
      by (cases "storeUpload env fail r (p_id project) s")
    note db = storeUpload_db [OF su]
    show ?thesis
    proof (cases res)
      case (Inl e)
      with step pl su db that(1) show ?thesis by (auto split: if_splits)
    next
      case v: (Inr v)
      show ?thesis
      proof (cases "r_published rl \<or> query_get r ''platforms'' = [] \<or> \<not> ValidKind (artifactKind r)
          \<or> artifactKind r = KindDocker \<or> artifactKind r = KindNPMPackage")
        case True
        with step pl that(1) show ?thesis by (auto split: if_splits)
      next
        case False
        with step pl su db v Inr show ?thesis
          by (intro that(2) [of rl ps s1 v]) (auto simp: getRelease_Inr split: prod.splits)
      qed
    qed
  qed
qed

definition upload_effect :: "time \<Rightarrow> db \<Rightarrow> db \<Rightarrow> bool" where
  "upload_effect now d d' \<longleftrightarrow> d' = d \<or> (\<exists>rl \<in> set (d_releases d). \<not> r_published rl \<and> added now (r_id rl) d d')"

lemma UploadArtifact_effect:
  assumes "UploadArtifact env now fail project rt r s = (s', reply)" "artifacts_inv (fst s)"
  shows "upload_effect now (fst s) (fst s')"
  using assms(1)
proof (cases rule: UploadArtifact_cases)
  case (stored rl oses arches s1 su)
  note typed = upload_platforms_typed [OF stored(4)]
  have "added now (r_id rl) (fst s) (fst s')"
    using stored(7) multi_added [OF assms(2) GetRelease_has [OF stored(1)] stored(3) typed(3,1)]
      record_added [OF assms(2) GetRelease_has [OF stored(1)] stored(3) typed(3,1)]
    by (auto split: if_splits)
  with stored(1,2) GetRelease_row [OF stored(1)] show ?thesis by (auto simp: upload_effect_def)
qed (simp add: upload_effect_def)

lemma ParsePlatformList_typed:
  assumes "ParsePlatformList spec = Inr ps" "kind \<noteq> KindNPMPackage"
  shows "ps \<noteq> []" "distinct ps" "\<forall>p \<in> set ps. platform_typed kind p"
  using parse_platforms_sound [OF assms(1) [unfolded ParsePlatformList_def]] assms(2)
  by (auto simp: platform_typed_def list_all_iff)

lemma UploadMulti_effect:
  assumes "UploadMultiPlatformArtifact env now fail project rt r s = (s', reply)" "artifacts_inv (fst s)"
  shows "upload_effect now (fst s) (fst s')"
  using assms(1)
proof (cases rule: UploadMulti_cases)
  case (stored rl ps s1 su)
  note typed = ParsePlatformList_typed [OF stored(5,4)]
  have "added now (r_id rl) (fst s) (fst s')"
    by (rule multi_added [OF assms(2) GetRelease_has [OF stored(1)] stored(3) typed(3,1) stored(8)])
  with stored(1,2) GetRelease_row [OF stored(1)] show ?thesis by (auto simp: upload_effect_def)
qed (simp add: upload_effect_def)

datatype art_op =
    OpUpload time "stage option" project art_route request
  | OpUploadMulti time "stage option" project art_route request
  | OpPublish time project art_route
  | OpCreateRelease time release

fun art_step :: "art_env \<Rightarrow> art_state \<Rightarrow> art_op \<Rightarrow> art_state" where
  "art_step env s (OpUpload now fail project rt r) = fst (UploadArtifact env now fail project rt r s)"
| "art_step env s (OpUploadMulti now fail project rt r) = fst (UploadMultiPlatformArtifact env now fail project rt r s)"
| "art_step env s (OpPublish now project rt) = (fst (handlePublishRelease now project rt (fst s)), snd s)"
| "art_step env s (OpCreateRelease now rl) = (fst (CreateRelease now rl (fst s)), snd s)"

definition release_ids_ok :: "db \<Rightarrow> bool" where
  "release_ids_ok d \<longleftrightarrow> distinct (map r_id (d_releases d)) \<and> (\<forall>r \<in> set (d_releases d). r_id r \<le> d_release_seq d)"

definition art_wf :: "db \<Rightarrow> bool" where
  "art_wf d \<longleftrightarrow> artifacts_inv d \<and> release_ids_ok d"

lemma artifacts_inv_cong:
  "d_artifacts d' = d_artifacts d \<Longrightarrow> d_platforms d' = d_platforms d \<Longrightarrow> d_artifact_seq d' = d_artifact_seq d
   \<Longrightarrow> artifacts_inv d' = artifacts_inv d"
  by (simp add: artifacts_inv_defs)

definition step_effect :: "db \<Rightarrow> db \<Rightarrow> bool" where
  "step_effect d d' \<longleftrightarrow> (\<exists>now. upload_effect now d d')
     \<or> (\<exists>now rid. d' = PublishRelease now rid d) \<or> (\<exists>now rl. d' = fst (CreateRelease now rl d))"

lemma art_step_effect:
  assumes "artifacts_inv (fst s)"
  shows "step_effect (fst s) (fst (art_step env s e))"
proof (cases e)
  case (OpUpload now fail project rt r)
  then show ?thesis
    using UploadArtifact_effect [OF surjective_pairing assms, where env = env and now = now]
    by (simp add: step_effect_def) blast
next
  case (OpUploadMulti now fail project rt r)
  then show ?thesis
    using UploadMulti_effect [OF surjective_pairing assms, where env = env and now = now]
    by (simp add: step_effect_def) blast
next
  case (OpPublish now project rt)
  have "fst (handlePublishRelease now project rt (fst s)) = fst s
    \<or> (\<exists>rid. fst (handlePublishRelease now project rt (fst s)) = PublishRelease now rid (fst s))"
    by (auto simp: handlePublishRelease_def Let_def split: sum.splits)
  with OpPublish show ?thesis by (auto simp: step_effect_def upload_effect_def)
qed (auto simp: step_effect_def)

lemma added_frame:
  "added now rid d d' \<Longrightarrow> d_releases d' = d_releases d \<and> d_release_seq d' = d_release_seq d"
  by (auto simp: added_def)

lemma PublishRelease_ids:
  "map r_id (d_releases (PublishRelease now rid d)) = map r_id (d_releases d)"
  by (auto simp: PublishRelease_def)

lemma CreateRelease_tables:
  "\<exists>rs. fst (CreateRelease now rl d) = d \<or> fst (CreateRelease now rl d) =
     d\<lparr>d_releases := d_releases d @ [rs\<lparr>r_id := d_release_seq d + 1\<rparr>], d_release_seq := d_release_seq d + 1\<rparr>"
proof -
  let ?rs = "rl\<lparr>r_published := False, r_created_at := now, r_published_at := None\<rparr>"
  have "fst (CreateRelease now rl d) = d \<or> fst (CreateRelease now rl d) =
     d\<lparr>d_releases := d_releases d @ [?rs\<lparr>r_id := d_release_seq d + 1\<rparr>], d_release_seq := d_release_seq d + 1\<rparr>"
    by (simp add: CreateRelease_def InsertRelease_def Let_def)
  then show ?thesis by blast
qed

lemma step_effect_wf:
  assumes "step_effect d d'" "art_wf d"
  shows "art_wf d'"
proof -
  from assms(1) consider (up) now where "upload_effect now d d'" | (pub) now rid where "d' = PublishRelease now rid d"
    | (new) now rl where "d' = fst (CreateRelease now rl d)" by (auto simp: step_effect_def)
  then show ?thesis
  proof cases
    case up
    with assms(2) show ?thesis
      by (auto simp: upload_effect_def added_def art_wf_def release_ids_ok_def)
  next
    case pub
    then have "artifacts_inv d' = artifacts_inv d" by (intro artifacts_inv_cong) (simp_all add: PublishRelease_def)
    moreover have "distinct (map r_id (d_releases d'))"
      using assms(2) unfolding pub PublishRelease_ids by (simp add: art_wf_def release_ids_ok_def)
    moreover have "\<forall>r \<in> set (d_releases d'). r_id r \<le> d_release_seq d'"
      using assms(2) pub by (auto simp: art_wf_def release_ids_ok_def PublishRelease_def)
    ultimately show ?thesis using assms(2) by (simp add: art_wf_def release_ids_ok_def)
  next
    case new
    with CreateRelease_tables [of now rl d] obtain rs where "d' = d \<or>
      d' = d\<lparr>d_releases := d_releases d @ [rs\<lparr>r_id := d_release_seq d + 1\<rparr>], d_release_seq := d_release_seq d + 1\<rparr>" by blast
    then show ?thesis
    proof
      assume d': "d' = d\<lparr>d_releases := d_releases d @ [rs\<lparr>r_id := d_release_seq d + 1\<rparr>], d_release_seq := d_release_seq d + 1\<rparr>"
      then have "artifacts_inv d' = artifacts_inv d" by (intro artifacts_inv_cong) simp_all
      with d' assms(2) show ?thesis by (fastforce simp: art_wf_def release_ids_ok_def)
    qed (use assms(2) in simp)
  qed
qed

interpretation artifacts: transition_system "art_step env" "\<lambda>s. art_wf (fst s)"
  for env
proof unfold_locales
  fix s :: art_state and e
  assume "art_wf (fst s)"
  then show "art_wf (fst (art_step env s e))"
    by (intro step_effect_wf [OF art_step_effect]) (simp_all add: art_wf_def)
qed

text \<open>In tables that satisfy the invariant, what a platform resolves to.\<close>

lemma resolved_typed:
  assumes inv: "artifacts_inv d" and get: "GetArtifact rid (plat_os p) (plat_arch p) d = Inr a"
  shows "ValidKind (a_kind a)" "a_release_id a = rid" "platform_ok (a_kind a) p"
    "\<And>b. b \<in> set (d_artifacts d) \<Longrightarrow> covers d b rid p \<Longrightarrow> a_kind b = a_kind a \<Longrightarrow> b = a"
    "\<And>q. a_exe_format a \<noteq> APE \<Longrightarrow> covers d a rid q \<Longrightarrow> q = p"
proof -
  note a = GetArtifact_first(1,2) [OF get, simplified]
  obtain x where x: "x \<in> set (d_platforms d)" "ap_artifact_id x = a_id a" "ap_release_id x = rid" "platform_of x = p"
    using a(2) by (auto simp: covers_def)
  have "inj_on a_id (set (d_artifacts d))" using inv by (simp add: artifacts_inv_def ids_ok_def distinct_map)
  with inv a(1) x(1,2) have "ap_kind x = a_kind a" unfolding artifacts_inv_def slots_ok_def by (metis inj_onD)
  with inv a(1) x show "ValidKind (a_kind a)" "platform_ok (a_kind a) p" by (auto simp: artifacts_inv_def typed_ok_def)
  show "a_exe_format a \<noteq> APE \<Longrightarrow> covers d a rid q \<Longrightarrow> q = p" for q
    using inv a by (auto simp: artifacts_inv_def portable_ok_def covers_def)
  show "a_release_id a = rid" by (rule covers_release [OF inv a])
  show "b \<in> set (d_artifacts d) \<Longrightarrow> covers d b rid p \<Longrightarrow> a_kind b = a_kind a \<Longrightarrow> b = a" for b
    using slot_holder_unique [OF inv _ a(1) _ _ a(2)] by blast
qed

section \<open>A published release is immutable\<close>

definition frozen :: "int \<Rightarrow> artifact list \<times> artifact_platform list \<Rightarrow> db \<Rightarrow> bool" where
  "frozen rid v d \<longleftrightarrow> art_wf d \<and> (\<exists>r \<in> set (d_releases d). r_id r = rid \<and> r_published r) \<and> release_view rid d = v"

lemma view_cong:
  "d_artifacts d' = d_artifacts d \<Longrightarrow> d_platforms d' = d_platforms d \<Longrightarrow> release_view rid d' = release_view rid d"
  by (simp add: release_view_def)

lemma step_effect_frozen:
  assumes "step_effect d d'" "frozen rid v d"
  shows "frozen rid v d'"
proof -
  have wf: "art_wf d'" using step_effect_wf [OF assms(1)] assms(2) by (simp add: frozen_def)
  from assms(2) obtain r where r: "r \<in> set (d_releases d)" "r_id r = rid" "r_published r" and v: "release_view rid d = v"
    by (auto simp: frozen_def)
  from assms(1) consider (same) "d' = d"
    | (up) now rl where "rl \<in> set (d_releases d)" "\<not> r_published rl" "added now (r_id rl) d d'" "d' \<noteq> d"
    | (pub) now rid' where "d' = PublishRelease now rid' d"
    | (new) now rl where "d' = fst (CreateRelease now rl d)" by (auto simp: step_effect_def upload_effect_def)
  then show ?thesis
  proof cases
    case same
    with assms(2) show ?thesis by simp
  next
    case up
    have "inj_on r_id (set (d_releases d))" using assms(2) by (simp add: frozen_def art_wf_def release_ids_ok_def distinct_map)
    with up(1,2) r have "rid \<noteq> r_id rl" by (metis inj_onD)
    with up(3,4) v have "release_view rid d' = v" by (auto simp: added_def view_add)
    with wf r added_frame [OF up(3)] show ?thesis by (auto simp: frozen_def)
  next
    case pub
    then have "\<exists>r \<in> set (d_releases d'). r_id r = rid \<and> r_published r" 
      using r by (intro bexI [of _ "if r_id r = rid' then r\<lparr>r_published := True, r_draft := False, r_published_at := Some now\<rparr> else r"])
        (auto simp: PublishRelease_def)
    moreover from pub v have "release_view rid d' = v" by (simp add: PublishRelease_def release_view_def)
    ultimately show ?thesis using wf by (simp add: frozen_def)
  next
    case new
    with CreateRelease_tables [of now rl d] obtain rs where "d' = d \<or>
      d' = d\<lparr>d_releases := d_releases d @ [rs\<lparr>r_id := d_release_seq d + 1\<rparr>], d_release_seq := d_release_seq d + 1\<rparr>" by blast
    with wf r v view_cong [of d' d rid] show ?thesis by (auto simp: frozen_def)
  qed
qed

interpretation published: transition_system "art_step env" "\<lambda>s. frozen rid v (fst s)"
  for env rid v
proof unfold_locales
  fix s :: art_state and e
  assume "frozen rid v (fst s)"
  then show "frozen rid v (fst (art_step env s e))"
    by (intro step_effect_frozen [OF art_step_effect]) (simp_all add: frozen_def art_wf_def)
qed

text \<open>C22: once a release is published, no later upload, publication or creation of a release
  changes what it shows: the list of its artifacts with their platforms and the artifact every platform
  resolves to stay what they were.\<close>

theorem published_release_immutable:
  assumes "art_wf d" "r \<in> set (d_releases d)" "r_published r"
    "foldl (art_step env) (d, fs) es = (d', fs')"
  shows "ListArtifactsWithPlatforms (r_id r) d' = ListArtifactsWithPlatforms (r_id r) d
    \<and> GetArtifact (r_id r) os arch d' = GetArtifact (r_id r) os arch d"
proof -
  let ?v = "release_view (r_id r) d"
  have "frozen (r_id r) ?v d" using assms(1-3) by (auto simp: frozen_def)
  then have "frozen (r_id r) ?v d'" using published.run_inv [of "r_id r" ?v "(d, fs)" env es] assms(4) by simp
  with assms(1) view_list [of "r_id r" d' d] view_get [of d' d "r_id r"] show ?thesis
    by (simp add: frozen_def art_wf_def)
qed

section \<open>What was uploaded is what is served\<close>

lemma capture_head_take: "length head \<le> SniffLen \<Longrightarrow> fold headCapture_Write segs head = take SniffLen (head @ concat segs)"
proof (induction segs arbitrary: head)
  case (Cons s segs)
  have "headCapture_Write s head = take SniffLen (head @ s)"
    using Cons.prems by (auto simp: headCapture_Write_def min_def)
  moreover have "take SniffLen (take SniffLen (head @ s) @ concat segs) = take SniffLen (head @ s @ concat segs)"
    by (simp add: min_def)
  ultimately show ?case using Cons.IH [of "take SniffLen (head @ s)"] by simp
qed simp

lemma Detect_head: "Detect (take SniffLen bs) = Detect bs"
  by (simp add: Detect_def SniffLen_def apeMagic_def min_def)

lemma limit_body_eof: "rd_end (limit_body n r) = IoEOF \<Longrightarrow> limit_body n r = r"
  by (auto simp: limit_body_def split: if_splits)

lemma storeUpload_body:
  assumes "storeUpload env fail r pid s = (s1, Inr su)" "hashRefRequest r = None"
    "store_inv (ae_hash env) (ae_dec env) z (snd s)" "body_ok (ae_hash env) (ae_enc env) (ae_dec env) z (rd_bytes (rq_body r))"
    "\<forall>c. ae_hash env c = ae_hash env (rd_bytes (rq_body r)) \<longrightarrow> c = rd_bytes (rq_body r)"
  shows "GetBlob (ae_dec env) None (su_storage_key su) (snd s1) = Inr (Some (rd_bytes (rq_body r)), su_size su)"
    "su_size su = int (length (rd_bytes (rq_body r)))" "su_sha256hex su = su_storage_key su"
    "su_format su = Detect (rd_bytes (rq_body r))"
proof -
  let ?body = "limit_body (ae_max_upload env) (rq_body r)"
  obtain fs' key n where put: "Put (ae_hash env) (ae_enc env) fail ?body (snd s) = (fs', Inr (key, n))"
    and s1: "snd s1 = fs'" and su: "su = \<lparr>su_storage_key = key, su_sha256hex = hex_encode (ae_hash env (rd_bytes ?body)),
       su_size = n, su_format = Detect (capture_head (rd_segs ?body)), su_nt_boot = DetectNTBoot (capture_head (rd_segs ?body))\<rparr>"
    using assms(1,2) by (auto simp: storeUpload_def Let_def split: prod.splits sum.splits)
  from Put_eof [OF put] have body: "?body = rq_body r" by (rule limit_body_eof)
  note got = Put_get [OF assms(3,4,5) put [unfolded body]]
  have "capture_head (rd_segs (rq_body r)) = take SniffLen (rd_bytes (rq_body r))"
    using capture_head_take [of "[]"] by (simp add: capture_head_def rd_bytes_def)
  with got s1 su body show "GetBlob (ae_dec env) None (su_storage_key su) (snd s1) = Inr (Some (rd_bytes (rq_body r)), su_size su)"
    "su_size su = int (length (rd_bytes (rq_body r)))" "su_sha256hex su = su_storage_key su"
    "su_format su = Detect (rd_bytes (rq_body r))" by (simp_all add: Detect_head)
qed

definition created :: "art_reply \<Rightarrow> bool" where
  "created reply = (case reply of ArtifactReply c a ps \<Rightarrow> c = 201 | ArtifactsReply c as \<Rightarrow> c = 201 | _ \<Rightarrow> False)"

definition rows_for :: "int \<Rightarrow> Kind \<Rightarrow> stored_upload \<Rightarrow> platform list \<Rightarrow> (artifact \<times> platform list) list \<Rightarrow> bool" where
  "rows_for rid kind su ps rows \<longleftrightarrow> rows_ok rid kind rows \<and> (\<forall>p \<in> set ps. \<exists>(a, qs) \<in> set rows. p \<in> set qs
     \<and> a_storage_key a = su_storage_key su \<and> a_size a = su_size su \<and> a_sha256 a = su_sha256hex su \<and> a_exe_format a = su_format su)"

lemma record_created:
  assumes "artifacts_inv d" "has_release rid d" "ValidKind kind" "\<forall>p \<in> set ps. platform_typed kind p" "ps \<noteq> []"
    "record_artifacts now (map (\<lambda>p. upload_row rid kind name su (plat_os p) (plat_arch p)) ps) d = (d', reply)" "created reply"
  shows "\<exists>rows. rows_for rid kind su ps rows \<and> d' = add_artifacts now rows d \<and> artifacts_inv d'"
  using assms(1) single_rows_ok [OF assms(3,4)] assms(2)
proof (cases rule: createArtifacts_cases [where now = now and rows = "single_rows rid kind name su ps"])
  case ok
  moreover from ok assms(6) have "d' = add_artifacts now (single_rows rid kind name su ps) d"
    by (simp add: record_eq [OF assms(5)] Let_def split: if_splits)
  moreover have "rows_for rid kind su ps (single_rows rid kind name su ps)"
    using single_rows_ok [OF assms(3,4)] by (auto simp: rows_for_def) (auto simp: single_rows_def)
  ultimately show ?thesis by blast
next
  case (conflict p)
  with assms(6,7) show ?thesis by (auto simp: record_eq [OF assms(5)] created_def)
qed

lemma multi_created:
  assumes "artifacts_inv d" "has_release rid d" "ValidKind kind" "\<forall>p \<in> set ps. platform_typed kind p" "ps \<noteq> []"
    "publishMultiPlatform now rid kind name su ps d = (d', reply)" "created reply"
  shows "\<exists>rows. rows_for rid kind su ps rows \<and> d' = add_artifacts now rows d \<and> artifacts_inv d'"
proof -
  from assms(6,7) have "length ps > 1 \<longrightarrow> su_format su = APE"
    by (auto simp: publishMultiPlatform_def created_def MultiPlatformCapable_def split: if_splits)
  note rows = multi_row_ok [OF assms(3,4,5) this]
  from assms(6,7) have eq: "\<exists>as. createArtifacts now [multi_row rid kind name su ps] d = (d', Inr as)"
    by (auto simp: publishMultiPlatform_def created_def Let_def multi_eq [OF assms(5)]
        split: if_splits option.splits prod.splits sum.splits db_error.splits)
  from assms(1) rows assms(2) show ?thesis
  proof (cases rule: createArtifacts_cases [where now = now and rows = "[multi_row rid kind name su ps]" and rid = rid])
    case ok
    with eq have "d' = add_artifacts now [multi_row rid kind name su ps] d" by simp
    moreover have "rows_for rid kind su ps [multi_row rid kind name su ps]"
      using rows by (auto simp: rows_for_def) (auto simp: multi_row_def)
    ultimately show ?thesis using ok(2) by blast
  next
    case (conflict p)
    with eq show ?thesis by simp
  qed
qed

text \<open>C21: an upload answered with 201 is what its platforms get. Every platform of the request is
  covered by an artifact of the kind uploaded, whose blob delivers exactly the bytes of the body, whose
  recorded length is that of the body and whose recorded format is the one the body shows; and where
  nothing covered the platform before, the platform resolves to it.\<close>

theorem upload_download_roundtrip:
  assumes "artifacts_inv d" "store_inv (ae_hash env) (ae_dec env) z fs"
    "body_ok (ae_hash env) (ae_enc env) (ae_dec env) z (rd_bytes (rq_body r))"
    "\<forall>c. ae_hash env c = ae_hash env (rd_bytes (rq_body r)) \<longrightarrow> c = rd_bytes (rq_body r)"
    "hashRefRequest r = None" "UploadArtifact env now fail project rt r (d, fs) = ((d', fs'), reply)" "created reply"
  shows "\<exists>rl oses arches. GetRelease (p_id project) (ro_version rt) d = Inr rl
    \<and> upload_platforms (artifactKind r) (ro_os rt) (ro_arch rt) = Inr (oses, arches)
    \<and> (\<forall>p \<in> set (platformCombos oses arches). \<exists>a \<in> set (d_artifacts d'). covers d' a (r_id rl) p
        \<and> a_kind a = artifactKind r \<and> a_exe_format a = Detect (rd_bytes (rq_body r))
        \<and> GetBlob (ae_dec env) None (a_storage_key a) fs' = Inr (Some (rd_bytes (rq_body r)), a_size a)
        \<and> ((\<forall>b \<in> set (d_artifacts d). \<not> covers d b (r_id rl) p)
             \<longrightarrow> GetArtifact (r_id rl) (plat_os p) (plat_arch p) d' = Inr a))"
  using assms(6)
proof (cases rule: UploadArtifact_cases)
  case refused
  then have "\<not> created reply" by (cases reply) (auto simp: created_def)
  with assms(7) show ?thesis by simp
next
  case (stored rl oses arches s1 su)
  note typed = upload_platforms_typed [OF stored(4)]
  note body = storeUpload_body [OF stored(5) assms(5), simplified snd_conv, OF assms(2,3,4)]
  have "\<exists>rows. rows_for (r_id rl) (artifactKind r) su (platformCombos oses arches) rows \<and> d' = add_artifacts now rows d \<and> artifacts_inv d'"
    using stored(7) assms(7) multi_created [OF assms(1) GetRelease_has [OF stored(1) [simplified fst_conv]] stored(3) typed(3,1)]
      record_created [OF assms(1) GetRelease_has [OF stored(1) [simplified fst_conv]] stored(3) typed(3,1)]
    by (simp split: if_splits)
  then obtain rows where rows: "rows_for (r_id rl) (artifactKind r) su (platformCombos oses arches) rows"
    "d' = add_artifacts now rows d" "artifacts_inv d'" by blast
  have "\<exists>a \<in> set (d_artifacts d'). covers d' a (r_id rl) p
        \<and> a_kind a = artifactKind r \<and> a_exe_format a = Detect (rd_bytes (rq_body r))
        \<and> GetBlob (ae_dec env) None (a_storage_key a) fs' = Inr (Some (rd_bytes (rq_body r)), a_size a)
        \<and> ((\<forall>b \<in> set (d_artifacts d). \<not> covers d b (r_id rl) p)
             \<longrightarrow> GetArtifact (r_id rl) (plat_os p) (plat_arch p) d' = Inr a)"
    if "p \<in> set (platformCombos oses arches)" for p
  proof -
    from rows(1) that obtain a qs where a: "(a, qs) \<in> set rows" "p \<in> set qs" "a_storage_key a = su_storage_key su"
      "a_size a = su_size su" "a_exe_format a = su_format su" and ok: "rows_ok (r_id rl) (artifactKind r) rows"
      by (auto simp: rows_for_def)
    from add_artifacts_covers [OF a(1,2) ok, of now d] obtain b where b: "b \<in> set (d_artifacts d')" "covers d' b (r_id rl) p"
      "a_kind b = artifactKind r" "a_storage_key b = su_storage_key su" "a_size b = su_size su" "a_exe_format b = su_format su"
      using a rows(2) by auto
    with add_artifacts_resolves [OF assms(1) _ ok, of now p b] rows(2,3) body stored(6) show ?thesis
      by (intro bexI [of _ b]) auto
  qed
  with stored(1,4) show ?thesis by (intro exI [of _ rl] exI [of _ oses] exI [of _ arches]) simp
qed

section \<open>Uploads by reference\<close>

lemma insert_artifacts_adds: "insert_artifacts now rows out d = Inr (d', out') \<Longrightarrow> d' = add_artifacts now rows d"
proof (induction rows arbitrary: out d)
  case (Cons row rows)
  obtain a ps where "row = (a, ps)" by (cases row)
  with Cons.prems Cons.IH insert_artifacts_Cons(2) [of now a ps rows out d d' out'] show ?case by auto
qed simp

lemma createArtifacts_adds: "createArtifacts now rows d = (d', res) \<Longrightarrow> d' = d \<or> d' = add_artifacts now rows d"
  by (auto simp: createArtifacts_def split: sum.splits dest: insert_artifacts_adds)

lemma add_artifacts_keys:
  "b \<in> set (d_artifacts (add_artifacts now rows d)) \<Longrightarrow> b \<in> set (d_artifacts d) \<or> (\<exists>(a, ps) \<in> set rows. a_storage_key b = a_storage_key a)"
  by (induction now rows d rule: add_artifacts.induct) auto

definition keys_added :: "string \<Rightarrow> db \<Rightarrow> db \<Rightarrow> bool" where
  "keys_added key d d' \<longleftrightarrow> (\<forall>b \<in> set (d_artifacts d'). b \<in> set (d_artifacts d) \<or> a_storage_key b = key)"

lemma record_keys:
  assumes "(ps :: platform list) \<noteq> []" "record_artifacts now (map (\<lambda>p. upload_row rid kind name su (plat_os p) (plat_arch p)) ps) d = (d', reply)"
  shows "keys_added (su_storage_key su) d d'"
proof -
  have "d' = d \<or> d' = add_artifacts now (single_rows rid kind name su ps) d"
    using assms(2) createArtifacts_adds [OF surjective_pairing, of now "single_rows rid kind name su ps" d]
    by (auto simp: record_eq [OF assms(1)] Let_def split: prod.splits sum.splits db_error.splits)
  then show ?thesis by (auto simp: keys_added_def single_rows_def dest!: add_artifacts_keys)
qed

lemma multi_keys:
  assumes "ps \<noteq> []" "publishMultiPlatform now rid kind name su ps d = (d', reply)"
  shows "keys_added (su_storage_key su) d d'"
proof -
  have "d' = d \<or> d' = add_artifacts now [multi_row rid kind name su ps] d"
    using assms(2) createArtifacts_adds [OF surjective_pairing, of now "[multi_row rid kind name su ps]" d]
    unfolding publishMultiPlatform_def Let_def multi_eq [OF assms(1)]
    by (auto split: prod.splits sum.splits db_error.splits if_splits option.splits)
  then show ?thesis by (auto simp: keys_added_def multi_row_def dest!: add_artifacts_keys)
qed

lemma storeUpload_ref:
  assumes "hashRefRequest r = Some h"
  shows "fst (storeUpload env fail r pid s) = s"
    "snd (storeUpload env fail r pid s) = Inr su \<Longrightarrow>
       su_storage_key su = h \<and> BlobBelongsToProject pid h (fst s) \<and> present (snd s) h"
    "\<not> BlobBelongsToProject pid h (fst s) \<Longrightarrow>
       snd (storeUpload env fail r pid s) = Inl (if validStorageKey h
         then ARefuse 404 (AMsg ''no blob with this upload_sha256 in this project'')
         else ARefuse 400 (AMsg ''invalid upload_sha256: want 64 hex characters''))"
  using assms
  by (auto simp: storeUpload_def resolveHashRef_def Let_def present_def Exists_def split: sum.splits option.splits prod.splits if_splits)

lemma UploadArtifact_ref:
  assumes "hashRefRequest r = Some h" "UploadArtifact env now fail project rt r (d, fs) = ((d', fs'), reply)"
  shows "d' = d \<or> (BlobBelongsToProject (p_id project) h d \<and> present fs h \<and> keys_added h d d')"
  using assms(2)
proof (cases rule: UploadArtifact_cases)
  case (stored rl oses arches s1 su)
  from storeUpload_ref(2) [OF assms(1), of env fail "p_id project" "(d, fs)" su] stored(5)
  have "su_storage_key su = h" "BlobBelongsToProject (p_id project) h d" "present fs h" by simp_all
  with stored(7) multi_keys [OF upload_platforms_typed(1) [OF stored(4)]] record_keys [OF upload_platforms_typed(1) [OF stored(4)]]
  show ?thesis by (auto split: if_splits)
qed simp

lemma UploadMulti_ref:
  assumes "hashRefRequest r = Some h" "UploadMultiPlatformArtifact env now fail project rt r (d, fs) = ((d', fs'), reply)"
  shows "d' = d \<or> (BlobBelongsToProject (p_id project) h d \<and> present fs h \<and> keys_added h d d')"
  using assms(2)
proof (cases rule: UploadMulti_cases)
  case (stored rl ps s1 su)
  from storeUpload_ref(2) [OF assms(1), of env fail "p_id project" "(d, fs)" su] stored(6)
  have "su_storage_key su = h" "BlobBelongsToProject (p_id project) h d" "present fs h" by simp_all
  with multi_keys [OF ParsePlatformList_typed(1) [OF stored(5,4)] stored(8)] show ?thesis by simp
qed simp

lemma foreign_reference:
  assumes "handler \<in> {UploadArtifact, UploadMultiPlatformArtifact}" "hashRefRequest r = Some h"
    "\<not> BlobBelongsToProject (p_id project) h d" "\<not> BlobBelongsToProject (p_id project) h d2"
    "GetRelease (p_id project) (ro_version rt) d2 = GetRelease (p_id project) (ro_version rt) d"
    "handler env now fail project rt r (d, fs) = (s', reply)"
  shows "handler env now fail project rt r (d2, fs2) = ((d2, fs2), reply)"
proof -
  have hide: "storeUpload env fail r (p_id project) (e, s) =
    ((e, s), Inl (if validStorageKey h then ARefuse 404 (AMsg ''no blob with this upload_sha256 in this project'')
       else ARefuse 400 (AMsg ''invalid upload_sha256: want 64 hex characters'')))"
    if "\<not> BlobBelongsToProject (p_id project) h e" for e s
    using storeUpload_ref(1,3) [OF assms(2), where env = env and fail = fail and pid = "p_id project" and s = "(e, s)"] that
    by (simp add: prod_eq_iff)
  have "getRelease (p_id project) (ro_version rt) d2 = getRelease (p_id project) (ro_version rt) d"
    by (simp add: getRelease_def assms(5))
  with assms(1,6) hide [OF assms(3), of fs] hide [OF assms(4), of fs2] show ?thesis
    by (auto simp: UploadArtifact_def UploadMultiPlatformArtifact_def split: sum.splits if_splits prod.splits)
qed

text \<open>C24: an upload that names a blob instead of sending one never touches the blob store, and
  records only that blob, only when a release or an image of the same project already holds it and the
  store still has it. For a blob the project does not hold the request changes nothing, and any other
  database and blob store in which the project does not hold it either, and in which the release of the
  request is the same, gets the same answer and stays as it is: who else holds the blob, and whether the store has it,
  does not show.\<close>

theorem hash_reference_owned:
  assumes "handler \<in> {UploadArtifact, UploadMultiPlatformArtifact}" "hashRefRequest r = Some h"
    "handler env now fail project rt r (d, fs) = ((d', fs'), reply)"
  shows "fs' = fs
    \<and> (d' \<noteq> d \<longrightarrow> BlobBelongsToProject (p_id project) h d \<and> present fs h
        \<and> (\<forall>a \<in> set (d_artifacts d') - set (d_artifacts d). a_storage_key a = h))
    \<and> (\<not> BlobBelongsToProject (p_id project) h d \<longrightarrow> d' = d
        \<and> (\<forall>d2 fs2. \<not> BlobBelongsToProject (p_id project) h d2
             \<and> GetRelease (p_id project) (ro_version rt) d2 = GetRelease (p_id project) (ro_version rt) d
             \<longrightarrow> handler env now fail project rt r (d2, fs2) = ((d2, fs2), reply)))"
proof -
  have keep: "storeUpload env fail r (p_id project) s = (s1, res) \<Longrightarrow> s1 = s" for s s1 res
    using storeUpload_ref(1) [OF assms(2)] by (metis fst_conv)
  have fs: "fs' = fs"
    using assms(1,3) keep
    by (auto simp: UploadArtifact_def UploadMultiPlatformArtifact_def Let_def
        split: sum.splits if_splits prod.splits dest!: keep)
  have ref: "d' = d \<or> (BlobBelongsToProject (p_id project) h d \<and> present fs h \<and> keys_added h d d')"
    using assms(1,3)
  proof (elim insertE emptyE)
    assume "handler = UploadArtifact"
    with assms(3) show ?thesis by (intro UploadArtifact_ref [OF assms(2)]) simp
  next
    assume "handler = UploadMultiPlatformArtifact"
    with assms(3) show ?thesis by (intro UploadMulti_ref [OF assms(2)]) simp
  qed
  with fs foreign_reference [OF assms(1,2) _ _ _ assms(3)] show ?thesis by (auto simp: keys_added_def)
qed

section \<open>Uploading the same portable executable again\<close>

lemma sort_key_const_on: "(\<forall>x \<in> set xs. f x = c) \<Longrightarrow> sort_key f xs = xs"
  by (rule sort_key_id_if_sorted) (induction xs, auto)

lemma sorted_slot_list: "sort_key ap_ordinal (slot_rows a k ps) = slot_rows a k ps"
  using sorted_slot_rows [of a k ps] by (simp add: sort_key_id_if_sorted)

lemma platforms_of_artifact:
  "map snd (filter (\<lambda>(i, p). i = k) (ListArtifactPlatformsByRelease rid d)) =
   map platform_of (sort_key ap_ordinal (filter (\<lambda>x. ap_artifact_id x = k \<and> ap_release_id x = rid) (d_platforms d)))"
proof -
  let ?xs = "sort_key ap_ordinal (filter (\<lambda>x. ap_release_id x = rid) (d_platforms d))"
  have "filter (\<lambda>x. ap_artifact_id x = k) (sort_key ap_artifact_id ?xs) = filter (\<lambda>x. ap_artifact_id x = k) ?xs"
    by (rule sort_key_stable)
  also have "\<dots> = sort_key ap_ordinal (filter (\<lambda>x. ap_artifact_id x = k \<and> ap_release_id x = rid) (d_platforms d))"
    by (simp add: filter_sort conj_commute)
  finally show ?thesis
    by (simp add: ListArtifactPlatformsByRelease_def filter_map comp_def)
qed

lemma listed_platforms:
  assumes "(b, qs) \<in> set (ListArtifactsWithPlatforms rid d)"
  shows "b \<in> set (d_artifacts d)" "a_release_id b = rid" "p \<in> set qs \<Longrightarrow> covers d b rid p"
  using assms
  by (auto simp: ListArtifactsWithPlatforms_def ListArtifacts_def ListArtifactsByRelease_def platforms_of_artifact covers_def)

lemma added_listed:
  assumes "artifacts_inv d" "a_release_id a = rid"
  shows "\<exists>b. (b, ps) \<in> set (ListArtifactsWithPlatforms rid (add_artifact now a ps d)) \<and> a_id b = d_artifact_seq d + 1
    \<and> a_sha256 b = a_sha256 a \<and> a_kind b = a_kind a \<and> a_storage_key b = a_storage_key a"
proof -
  let ?d = "add_artifact now a ps d" and ?i = "d_artifact_seq d + 1"
  let ?b = "last (d_artifacts ?d)"
  have "filter (\<lambda>x. ap_artifact_id x = ?i \<and> ap_release_id x = rid) (d_platforms d) = []"
    using assms(1) fresh_artifact_id [of d] by (auto simp: filter_empty_conv artifacts_inv_def)
  moreover have "filter (\<lambda>x. ap_artifact_id x = ?i \<and> ap_release_id x = rid) (slot_rows (a\<lparr>a_id := ?i\<rparr>) 0 ps) = slot_rows (a\<lparr>a_id := ?i\<rparr>) 0 ps"
    using assms(2) slot_rows_fields [of _ "a\<lparr>a_id := ?i\<rparr>" 0 ps] by (auto simp: filter_id_conv)
  ultimately have "map snd (filter (\<lambda>(i, p). i = ?i) (ListArtifactPlatformsByRelease rid ?d)) = ps"
    by (simp add: platforms_of_artifact sorted_slot_list slot_rows_platforms)
  then have "(?b, ps) \<in> set (ListArtifactsWithPlatforms rid ?d)"
    using assms(2) by (auto simp: ListArtifactsWithPlatforms_def ListArtifacts_def ListArtifactsByRelease_def image_iff)
  then show ?thesis by (intro exI [of _ ?b]) simp
qed

lemma same_found:
  assumes "artifacts_inv d" "(b, ps) \<in> set (ListArtifactsWithPlatforms rid d)" "ps \<noteq> []" "distinct ps"
    "a_sha256 b = a_sha256 want" "a_kind b = a_kind want" "a_release_id want = rid"
  shows "\<exists>qs. sameMultiPlatformArtifact want ps d = Some (b, qs) \<and> set qs \<subseteq> set ps \<and> length qs = length ps"
proof -
  let ?P = "\<lambda>(a, qs). a_sha256 a = a_sha256 want \<and> a_kind a = a_kind want \<and> length qs = length (remdups ps)
     \<and> list_all (\<lambda>p. p \<in> set ps) qs"
  have "?P (b, ps)" using assms(4-6) by (auto simp: list_all_iff distinct_remdups_id)
  with assms(2) have "find_first ?P (ListArtifactsWithPlatforms rid d) \<noteq> None" by (auto simp: find_first_none)
  then obtain c qs where c: "find_first ?P (ListArtifactsWithPlatforms rid d) = Some (c, qs)" by auto
  then have cP: "(c, qs) \<in> set (ListArtifactsWithPlatforms rid d)" "?P (c, qs)" by (auto dest: find_first_Some)
  from cP(2) assms(3,4) obtain p where p: "p \<in> set qs" "p \<in> set ps"
    by (cases qs) (auto simp: distinct_remdups_id list_all_iff)
  have "c = b"
    using slot_holder_unique [OF assms(1) listed_platforms(1) [OF cP(1)] listed_platforms(1) [OF assms(2)] _
        listed_platforms(3) [OF cP(1) p(1)] listed_platforms(3) [OF assms(2) p(2)]] cP(2) assms(6) by simp
  with c cP(2) assms(4,7) show ?thesis
    by (auto simp: sameMultiPlatformArtifact_def distinct_remdups_id list_all_iff)
qed

text \<open>every leg of a build matrix may upload the same portable executable for the same
  platforms: after the first upload was recorded, a further one, whatever its file name, is
  answered with 200 and the recorded artifact, and the tables do not change.\<close>

theorem republish_idempotent:
  assumes "artifacts_inv d" "has_release rid d" "ValidKind kind" "kind \<noteq> KindNPMPackage" "ParsePlatformList spec = Inr ps"
    "publishMultiPlatform now rid kind name su ps d = (d1, ArtifactReply 201 a qs)"
  shows "\<exists>b. publishMultiPlatform now' rid kind name' su ps d1 = (d1, ArtifactReply 200 b ps)
    \<and> a_id b = a_id a \<and> a_storage_key b = su_storage_key su \<and> b \<in> set (d_artifacts d1)"
proof -
  note typed = ParsePlatformList_typed [OF assms(5,4)]
  let ?row = "\<lambda>n. multi_row rid kind n su ps"
  from assms(6) have pass: "\<not> (length ps > 1 \<and> \<not> MultiPlatformCapable (su_format su))"
    "(if su_nt_boot su = NTStub then firstWindows ps else None) = None"
    by (auto simp: publishMultiPlatform_def split: if_splits option.splits)
  have fmt: "length ps > 1 \<longrightarrow> su_format su = APE" using pass(1) by (auto simp: MultiPlatformCapable_def)
  have rows: "rows_ok rid kind [?row n]" for n by (rule multi_row_ok [OF assms(3) typed(3,1) fmt])
  from assms(6) pass obtain as where as: "createArtifacts now [?row name] d = (d1, Inr as)" "a = hd as"
    by (auto simp: publishMultiPlatform_def Let_def multi_eq [OF typed(1)]
        split: if_splits option.splits prod.splits sum.splits db_error.splits)
  have d1: "artifacts_inv d1" "d1 = add_artifact now (fst (?row name)) ps d" "a_id a = d_artifact_seq d + 1"
    using assms(1) rows [of name] assms(2) as
    by (cases rule: createArtifacts_cases [where now = now and rows = "[?row name]" and rid = rid]; simp add: multi_row_def)+
  obtain b where b: "(b, ps) \<in> set (ListArtifactsWithPlatforms rid d1)" "a_id b = a_id a" "a_sha256 b = su_sha256hex su"
    "a_kind b = kind" "a_storage_key b = su_storage_key su"
    using added_listed [OF assms(1), where a = "fst (?row name)" and rid = rid and now = now and ps = ps] d1 by (auto simp: multi_row_def)
  have "\<exists>p. createArtifacts now' [?row name'] d1 = (d1, Inl (conflict_at p))"
  proof -
    have "\<not> slots_free rid kind ps d1" using d1(2) typed(1) by (cases ps) (auto simp: slots_free_def multi_row_def)
    moreover have "has_release rid d1" using assms(2) d1(2) by (simp add: has_release_def)
    ultimately show ?thesis
      using createArtifacts_conflict [OF d1(1) rows [of name']] by (simp add: multi_row_def)
  qed
  then obtain p where conflict: "createArtifacts now' [?row name'] d1 = (d1, Inl (conflict_at p))" by blast
  obtain qs' where found: "sameMultiPlatformArtifact (upload_row rid kind name' su [] []) ps d1 = Some (b, qs')"
    using same_found [OF d1(1) b(1) typed(1,2), of "upload_row rid kind name' su [] []"] b by auto
  then have "(b, qs') \<in> set (ListArtifactsWithPlatforms rid d1)"
    by (auto simp: sameMultiPlatformArtifact_def dest: find_first_Some)
  with b(1) have "qs' = ps" by (auto simp: ListArtifactsWithPlatforms_def)
  with found conflict pass have "publishMultiPlatform now' rid kind name' su ps d1 = (d1, ArtifactReply 200 b ps)"
    by (simp add: publishMultiPlatform_def Let_def multi_eq [OF typed(1)])
  with b listed_platforms(1) [OF b(1)] show ?thesis by blast
qed

section \<open>Concrete instances\<close>

definition demo_art_env :: art_env where
  "demo_art_env = \<lparr>ae_hash = demo_hash [1, 2, 3], ae_enc = demo_enc, ae_dec = demo_dec, ae_max_upload = 100\<rparr>"

definition demo_art_db :: db where
  "demo_art_db = empty_db\<lparr>d_projects := [new_project 1 ''web'' False], d_project_seq := 1,
     d_releases := [demo_release 1 ''1'' 1 ''master'' False], d_release_seq := 1\<rparr>"

definition demo_art_fs :: filesystem where
  "demo_art_fs = \<lparr>fs_compress = True, fs_blobs = []\<rparr>"

definition demo_put :: "(string \<times> string) list \<Rightarrow> int \<Rightarrow> request" where
  "demo_put query len = \<lparr>rq_method = ''PUT'', rq_path = [], rq_query = query, rq_headers = [], rq_path_id = [], rq_token = None,
     rq_content_length = len, rq_has_body = True, rq_body = demo_reader [1, 2, 3]\<rparr>"

definition demo_rt :: art_route where
  "demo_rt = \<lparr>ro_version = ''1'', ro_os = ''js'', ro_arch = ''wasm''\<rparr>"

definition demo_uploaded :: "art_state \<times> art_reply" where
  "demo_uploaded = UploadArtifact demo_art_env 9 None (new_project 1 ''web'' False) demo_rt (demo_put [] 3) (demo_art_db, demo_art_fs)"

lemma demo_art_wf: "art_wf demo_art_db"
  by (simp add: art_wf_def artifacts_inv_defs release_ids_ok_def demo_art_db_def empty_db_def demo_release_def)

lemma demo_art_inv: "artifacts_inv demo_art_db"
  using demo_art_wf by (simp add: art_wf_def)

lemma demo_platforms:
  "upload_platforms KindBinary ''js'' ''wasm'' = Inr ([OSWasm], [ArchJS])"
  by code_simp

lemma demo_created: "created (snd demo_uploaded)"
  by code_simp

definition demo_ops :: "art_op list" where
  "demo_ops = [OpUpload 9 None (new_project 1 ''web'' False) demo_rt (demo_put [] 3), OpPublish 9 (new_project 1 ''web'' False) demo_rt]"

definition demo_after :: art_state where
  "demo_after = foldl (art_step demo_art_env) (demo_art_db, demo_art_fs) demo_ops"

theorem published_release_immutable_witness:
  "\<exists>r \<in> set (d_releases (fst demo_after)). r_published r
     \<and> GetArtifact (r_id r) OSWasm ArchJS (fst (foldl (art_step demo_art_env) demo_after demo_ops))
       = GetArtifact (r_id r) OSWasm ArchJS (fst demo_after)"
proof -
  have wf: "art_wf (fst demo_after)"
    using artifacts.run_inv [of "(demo_art_db, demo_art_fs)" demo_art_env demo_ops] demo_art_wf by (simp add: demo_after_def)
  have "list_ex r_published (d_releases (fst demo_after))" by code_simp
  then obtain r where r: "r \<in> set (d_releases (fst demo_after))" "r_published r" by (auto simp: list_ex_iff)
  have run: "foldl (art_step demo_art_env) (fst demo_after, snd demo_after) demo_ops =
    (fst (foldl (art_step demo_art_env) demo_after demo_ops), snd (foldl (art_step demo_art_env) demo_after demo_ops))" by simp
  from published_release_immutable [OF wf r run] r show ?thesis by blast
qed

theorem upload_download_roundtrip_witness:
  "\<exists>a \<in> set (d_artifacts (fst (fst demo_uploaded))).
     covers (fst (fst demo_uploaded)) a 1 \<lparr>plat_os = OSWasm, plat_arch = ArchJS\<rparr> \<and> a_kind a = KindBinary
     \<and> GetBlob demo_dec None (a_storage_key a) (snd (fst demo_uploaded)) = Inr (Some [1, 2, 3], a_size a)"
proof -
  have up: "UploadArtifact demo_art_env 9 None (new_project 1 ''web'' False) demo_rt (demo_put [] 3) (demo_art_db, demo_art_fs)
    = ((fst (fst demo_uploaded), snd (fst demo_uploaded)), snd demo_uploaded)" by (simp add: demo_uploaded_def)
  have st: "store_inv (ae_hash demo_art_env) (ae_dec demo_art_env) True demo_art_fs"
    by (simp add: store_inv_def demo_art_fs_def file_at_def)
  have ok: "body_ok (ae_hash demo_art_env) (ae_enc demo_art_env) (ae_dec demo_art_env) True (rd_bytes (rq_body (demo_put [] 3)))"
    by (simp add: demo_art_env_def demo_put_def demo_body_ok)
  have coll: "\<forall>c. ae_hash demo_art_env c = ae_hash demo_art_env (rd_bytes (rq_body (demo_put [] 3))) \<longrightarrow> c = rd_bytes (rq_body (demo_put [] 3))"
    by (simp add: demo_art_env_def demo_put_def demo_hash_def)
  have ref: "hashRefRequest (demo_put [] 3) = None" "artifactKind (demo_put [] 3) = KindBinary"
    "rd_bytes (rq_body (demo_put [] 3)) = [1, 2, 3]"
    by (simp_all add: hashRefRequest_def artifactKind_def demo_put_def query_get_def header_get_def)
  have rl: "GetRelease (p_id (new_project 1 ''web'' False)) (ro_version demo_rt) demo_art_db = Inr (demo_release 1 ''1'' 1 ''master'' False)"
    by code_simp
  obtain oses arches where ua: "upload_platforms (artifactKind (demo_put [] 3)) (ro_os demo_rt) (ro_arch demo_rt) = Inr (oses, arches)"
    and every: "\<forall>p \<in> set (platformCombos oses arches). \<exists>a \<in> set (d_artifacts (fst (fst demo_uploaded))).
       covers (fst (fst demo_uploaded)) a 1 p \<and> a_kind a = KindBinary
       \<and> GetBlob demo_dec None (a_storage_key a) (snd (fst demo_uploaded)) = Inr (Some [1, 2, 3], a_size a)"
    using upload_download_roundtrip [OF demo_art_inv st ok coll ref(1) up demo_created] rl ref(2,3)
    by (fastforce simp: demo_release_def demo_art_env_def)
  from ua demo_platforms ref(2) have "oses = [OSWasm]" "arches = [ArchJS]" by (simp_all add: demo_rt_def)
  with every show ?thesis by (simp add: platformCombos_def)
qed

definition demo_ref :: request where
  "demo_ref = demo_put [(''upload_sha256'', hex_encode (replicate 32 0xA7))] 0"

definition demo_ref_rt :: art_route where
  "demo_ref_rt = \<lparr>ro_version = ''1'', ro_os = ''wasip1'', ro_arch = ''wasm''\<rparr>"

definition demo_raw :: art_state where
  "demo_raw = (demo_art_db\<lparr>d_artifacts := [(fst (demo_slot OSLinux))\<lparr>a_id := 1, a_storage_key := hex_encode (replicate 32 0xA7)\<rparr>],
     d_artifact_seq := 1\<rparr>, \<lparr>fs_compress = False, fs_blobs = [(rel (hex_encode (replicate 32 0xA7)), [1, 2, 3])]\<rparr>)"

text \<open>The same blob in the store and in a release of another project.\<close>

definition demo_foreign :: art_state where
  "demo_foreign = ((fst demo_raw)\<lparr>d_projects := d_projects demo_art_db @ [new_project 2 ''other'' True],
     d_releases := d_releases demo_art_db @ [(demo_release 2 ''1'' 1 ''master'' True)\<lparr>r_project_id := 2\<rparr>],
     d_artifacts := map (\<lambda>a. a\<lparr>a_release_id := 2\<rparr>) (d_artifacts (fst demo_raw))\<rparr>, snd demo_raw)"

theorem hash_reference_owned_witness:
  "fst (fst (UploadArtifact demo_art_env 9 None (new_project 1 ''web'' False) demo_ref_rt demo_ref demo_raw)) \<noteq> fst demo_raw
   \<and> BlobBelongsToProject 1 (hex_encode (replicate 32 0xA7)) (fst demo_raw)
   \<and> UploadArtifact demo_art_env 9 None (new_project 1 ''web'' False) demo_ref_rt demo_ref demo_foreign =
     (demo_foreign, snd (UploadArtifact demo_art_env 9 None (new_project 1 ''web'' False) demo_ref_rt demo_ref (demo_art_db, demo_art_fs)))
   \<and> BlobBelongsToProject 2 (hex_encode (replicate 32 0xA7)) (fst demo_foreign)"
proof -
  let ?f = "UploadArtifact demo_art_env 9 None (new_project 1 ''web'' False) demo_ref_rt demo_ref"
  let ?s = "demo_raw"
  have ref: "hashRefRequest demo_ref = Some (hex_encode (replicate 32 0xA7))" by code_simp
  have p: "p_id (new_project 1 ''web'' False) = 1" by (simp add: new_project_def)
  have run: "?f (fst ?s, snd ?s) = ((fst (fst (?f ?s)), snd (fst (?f ?s))), snd (?f ?s))" by simp
  have "length (d_artifacts (fst (fst (?f ?s)))) \<noteq> length (d_artifacts (fst ?s))" by code_simp
  then have new: "fst (fst (?f ?s)) \<noteq> fst ?s" by auto
  have foreign: "\<not> BlobBelongsToProject 1 (hex_encode (replicate 32 0xA7)) demo_art_db" by code_simp
  have run2: "?f (demo_art_db, demo_art_fs) = ((fst (fst (?f (demo_art_db, demo_art_fs))), snd (fst (?f (demo_art_db, demo_art_fs)))),
    snd (?f (demo_art_db, demo_art_fs)))" by simp
  have other: "\<not> BlobBelongsToProject 1 (hex_encode (replicate 32 0xA7)) (fst demo_foreign)"
    "BlobBelongsToProject 2 (hex_encode (replicate 32 0xA7)) (fst demo_foreign)" by code_simp+
  have rel: "GetRelease 1 (ro_version demo_ref_rt) (fst demo_foreign) = GetRelease 1 (ro_version demo_ref_rt) demo_art_db" by code_simp
  have "?f (fst demo_foreign, snd demo_foreign) = ((fst demo_foreign, snd demo_foreign), snd (?f (demo_art_db, demo_art_fs)))"
    using hash_reference_owned [OF insertI1 ref run2] foreign other(1) rel unfolding p by blast
  moreover have "BlobBelongsToProject 1 (hex_encode (replicate 32 0xA7)) (fst ?s)"
    using hash_reference_owned [OF insertI1 ref run] new unfolding p by blast
  ultimately show ?thesis using new other by simp
qed

definition demo_ape :: stored_upload where
  "demo_ape = \<lparr>su_storage_key = ''k'', su_sha256hex = ''k'', su_size = 3, su_format = APE, su_nt_boot = NTReal\<rparr>"

theorem republish_idempotent_witness:
  "\<exists>ps d1 b. publishMultiPlatform 9 1 KindBinary ''x'' demo_ape ps demo_art_db = (d1, ArtifactReply 201 b ps)
     \<and> (\<exists>c. publishMultiPlatform 10 1 KindBinary ''y'' demo_ape ps d1 = (d1, ArtifactReply 200 c ps) \<and> a_id c = a_id b)"
proof -
  let ?ps = "[\<lparr>plat_os = OSLinux, plat_arch = ArchAMD64\<rparr>, \<lparr>plat_os = OSDarwin, plat_arch = ArchARM64\<rparr>]"
  let ?X = "publishMultiPlatform 9 1 KindBinary ''x'' demo_ape ?ps demo_art_db"
  have pl: "ParsePlatformList ''linux/amd64,mac/aarch64'' = Inr ?ps" by code_simp
  have "case snd ?X of ArtifactReply c a qs \<Rightarrow> c = 201 \<and> qs = ?ps | _ \<Rightarrow> False" by code_simp
  then obtain a where X: "?X = (fst ?X, ArtifactReply 201 a ?ps)"
    by (cases ?X) (auto split: art_reply.splits)
  have rl: "has_release 1 demo_art_db" by (simp add: has_release_def demo_art_db_def demo_release_def)
  have kind: "ValidKind KindBinary" "KindBinary \<noteq> KindNPMPackage" by code_simp+
  from republish_idempotent [OF demo_art_inv rl kind pl X, of 10 "''y''"] X show ?thesis by blast
qed

end
