(* ===== verification/Upload_Client.thy ===== *)
theory Upload_Client
  imports Uploads Artifact_Api
begin

text \<open>
  The client that uploads a file to any endpoint, \<open>internal/uploadclient/uploadclient.go\<close>, together
  with the server it talks to: the session API of \<open>Uploads\<close>, the public limits of
  \<open>internal/api/serverinfo.go\<close> and an endpoint behind the session middleware, arbitrary or one of the artifact handlers of \<open>Artifact_Api\<close>. The network
  decides for every request what becomes of it: it may not arrive, its body may be cut, its answer
  may be lost or replaced by that of a proxy, and chunks sent earlier may arrive late, or twice, before
  it. Waiting between retries has no effect of its own: what time does is in the choices of the network.
\<close>

section \<open>The network and the server behind it\<close>

datatype net_event = Late io_env request | Sweep time

datatype answer = FromServer | NoAnswer | FromProxy response

record fate =
  ft_events :: "net_event list"
  ft_now :: time
  ft_rnd :: "string option"
  ft_open_ok :: bool
  ft_env :: io_env
  ft_arrives :: bool
  ft_cut :: "nat option"
  ft_answer :: answer

text \<open>What the model is about: the endpoint (on the application's own state), the digest, the
  credential read from the headers, the configured limits and the network, which sees the number of
  the request and the request.\<close>

record 'w deployment =
  dp_endpoint :: "request \<Rightarrow> 'w \<Rightarrow> reader \<Rightarrow> int \<Rightarrow> 'w \<times> endpoint_result"
  dp_sha :: "bytes \<Rightarrow> string"
  dp_auth :: "(string \<times> string) list \<Rightarrow> api_token option"
  dp_max_direct :: int
  dp_max_upload :: int
  dp_net :: "nat \<Rightarrow> request \<Rightarrow> fate"

record 'w world =
  wd_count :: nat
  wd_store :: "upload_store option"
  wd_app :: 'w

definition ServerInfo :: "int \<Rightarrow> int \<Rightarrow> response" where
  "ServerInfo maxDirect maxUpload = \<lparr>rs_status = 200,
     rs_body = [(''max_direct_upload_bytes'', JInt maxDirect), (''max_upload_bytes'', JInt maxUpload),
       (''upload_sessions'', JBool True), (''upload_by_sha256'', JBool True)]\<rparr>"

fun net_event_step :: "net_event \<Rightarrow> upload_store option \<Rightarrow> upload_store option" where
  "net_event_step (Late env r) active = fst (handleAppend env r active)"
| "net_event_step (Sweep now) active = map_option (SweepExpired now) active"

definition cut_body :: "nat option \<Rightarrow> request \<Rightarrow> request" where
  "cut_body c r =
     (case c of None \<Rightarrow> r
      | Some n \<Rightarrow> r\<lparr>rq_body := \<lparr>rd_segs = [take n (rd_bytes (rq_body r))], rd_end = IoFailed, rd_eager = False\<rparr>\<rparr>)"

text \<open>The routes of the session API, of the limits, and everything else behind the middleware.\<close>

definition serve :: "'w deployment \<Rightarrow> fate \<Rightarrow> request \<Rightarrow> upload_store option \<Rightarrow> 'w \<Rightarrow> upload_store option \<times> 'w \<times> endpoint_result" where
  "serve dp ft r active w =
     (if rq_path r = ''/api/v1/server-info'' \<and> rq_method r = ''GET''
      then (active, w, Responded (ServerInfo (dp_max_direct dp) (dp_max_upload dp)))
      else if rq_path r = ''/api/v1/uploads'' \<and> rq_method r = ''POST''
      then (case handleCreate (ft_now ft) (ft_rnd ft) (ft_open_ok ft) r active of (a', resp) \<Rightarrow> (a', w, Responded resp))
      else if rq_path r = ''/api/v1/uploads/'' @ rq_path_id r \<and> rq_method r = ''GET''
      then (case handleStatus r active of (a', resp) \<Rightarrow> (a', w, Responded resp))
      else if rq_path r = ''/api/v1/uploads/'' @ rq_path_id r \<and> rq_method r = ''PATCH''
      then (case handleAppend (ft_env ft) r active of (a', resp) \<Rightarrow> (a', w, Responded resp))
      else if rq_path r = ''/api/v1/uploads/'' @ rq_path_id r \<and> rq_method r = ''DELETE''
      then (case handleAbort r active of (a', resp) \<Rightarrow> (a', w, Responded resp))
      else ResolveSessionBody (dp_endpoint dp r) (\<lambda>b. Some (dp_sha dp b)) (ft_open_ok ft) r active w)"

text \<open>\<open>http.Client.Do\<close>: the answer the client gets, \<open>None\<close> when the connection fails.\<close>

definition Do :: "'w deployment \<Rightarrow> request \<Rightarrow> 'w world \<Rightarrow> 'w world \<times> response option" where
  "Do dp r wd =
     (let ft = dp_net dp (wd_count wd) r; active0 = fold net_event_step (ft_events ft) (wd_store wd) in
      case (if ft_arrives ft then serve dp ft (cut_body (ft_cut ft) r) active0 (wd_app wd) else (active0, wd_app wd, Panicked)) of
        (active, w, res) \<Rightarrow>
          (\<lparr>wd_count = wd_count wd + 1, wd_store = active, wd_app = w\<rparr>,
           case ft_answer ft of
             NoAnswer \<Rightarrow> None
           | FromProxy resp \<Rightarrow> Some resp
           | FromServer \<Rightarrow> (case res of Responded resp \<Rightarrow> Some resp | Panicked \<Rightarrow> None)))"

section \<open>The client\<close>

datatype client_err =
    OpenFailed
  | CreateUnreachable
  | CreateFailed int
  | CreateBadResponse
  | ChunkBadResponse int
  | ChunkFailed int int
  | SizeUnknown
  | NoProgress int
  | FinalizeUnreachable
  | DirectFailed

definition DefaultChunkThreshold :: int where "DefaultChunkThreshold = 95 * 2 ^ 20"
definition DefaultChunkSize :: int where "DefaultChunkSize = 64 * 2 ^ 20"
definition retryAttempts :: nat where "retryAttempts = 4"

record server_info =
  si_max_direct :: int
  si_by_sha256 :: bool

record uploader =
  up_token :: string
  up_chunk_size :: int
  up_threshold :: int
  up_info :: server_info
  up_info_fetched :: bool

record upload_target =
  tg_method :: string
  tg_path :: string
  tg_query :: "(string \<times> string) list"

definition chunkSize :: "uploader \<Rightarrow> int" where
  "chunkSize u = (if up_chunk_size u = 0 then DefaultChunkSize else up_chunk_size u)"

definition header_set :: "(string \<times> string) list \<Rightarrow> string \<Rightarrow> string \<Rightarrow> (string \<times> string) list" where
  "header_set hs k v = (k, v) # filter (\<lambda>(h, _). \<not> equal_fold h k) hs"

definition query_set :: "(string \<times> string) list \<Rightarrow> string \<Rightarrow> string \<Rightarrow> (string \<times> string) list" where
  "query_set qs k v = (k, v) # filter (\<lambda>(q, _). q \<noteq> k) qs"

text \<open>A request as the server sees it: a reader of unknown length is sent chunked.\<close>

definition new_request :: "'w deployment \<Rightarrow> string \<Rightarrow> string \<Rightarrow> (string \<times> string) list \<Rightarrow> string \<Rightarrow> (string \<times> string) list \<Rightarrow> reader option \<Rightarrow> request" where
  "new_request dp m path query pid headers body =
     \<lparr>rq_method = m, rq_path = path, rq_query = query, rq_headers = headers, rq_path_id = pid, rq_token = dp_auth dp headers,
      rq_content_length = (if body = None then 0 else - 1), rq_has_body = body \<noteq> None,
      rq_body = (case body of None \<Rightarrow> \<lparr>rd_segs = [], rd_end = IoEOF, rd_eager = False\<rparr> | Some b \<Rightarrow> b)\<rparr>"

definition bearer :: "uploader \<Rightarrow> (string \<times> string) list" where
  "bearer u = [(''Authorization'', ''Bearer '' @ up_token u)]"

definition session_headers :: "uploader \<Rightarrow> reader option \<Rightarrow> (string \<times> string) list" where
  "session_headers u body = (if body = None then bearer u else header_set (bearer u) ''Content-Type'' ''application/octet-stream'')"

definition set_headers :: "(string \<times> string) list \<Rightarrow> (string \<times> string) list \<Rightarrow> (string \<times> string) list" where
  "set_headers header hs = foldl (\<lambda>acc (k, v). header_set acc k v) hs header"

definition upload_headers :: "uploader \<Rightarrow> (string \<times> string) list \<Rightarrow> (string \<times> string) list" where
  "upload_headers u header = set_headers header (header_set (bearer u) ''Content-Type'' ''application/octet-stream'')"

text \<open>\<open>sessionRequest\<close>: the path is that of the collection or of one session.\<close>

definition session_req :: "'w deployment \<Rightarrow> uploader \<Rightarrow> string \<Rightarrow> string option \<Rightarrow> (string \<times> string) list \<Rightarrow> reader option \<Rightarrow> request" where
  "session_req dp u m i query body =
     (case i of
        None \<Rightarrow> new_request dp m ''/api/v1/uploads'' query [] (session_headers u body) body
      | Some i \<Rightarrow> new_request dp m (''/api/v1/uploads/'' @ i) query i (session_headers u body) body)"

definition sessionRequest :: "'w deployment \<Rightarrow> uploader \<Rightarrow> string \<Rightarrow> string option \<Rightarrow> (string \<times> string) list \<Rightarrow> reader option \<Rightarrow> 'w world
    \<Rightarrow> 'w world \<times> response option" where
  "sessionRequest dp u m i query body wd = Do dp (session_req dp u m i query body) wd"

definition json_size :: "response \<Rightarrow> int option" where
  "json_size resp = (case map_of (rs_body resp) ''size'' of Some (JInt n) \<Rightarrow> Some n | _ \<Rightarrow> None)"

definition json_id :: "response \<Rightarrow> string option" where
  "json_id resp = (case map_of (rs_body resp) ''id'' of Some (JStr i) \<Rightarrow> if i = [] then None else Some i | _ \<Rightarrow> None)"

definition createSession :: "'w deployment \<Rightarrow> uploader \<Rightarrow> 'w world \<Rightarrow> 'w world \<times> (client_err + string)" where
  "createSession dp u wd =
     (case sessionRequest dp u ''POST'' None [] None wd of
        (wd1, None) \<Rightarrow> (wd1, Inl CreateUnreachable)
      | (wd1, Some resp) \<Rightarrow>
          (wd1, if rs_status resp \<noteq> 201 then Inl (CreateFailed (rs_status resp))
                else case json_id resp of None \<Rightarrow> Inl CreateBadResponse | Some i \<Rightarrow> Inr i))"

text \<open>The attempts of \<open>sessionSize\<close> that are left.\<close>

fun session_size_loop :: "'w deployment \<Rightarrow> uploader \<Rightarrow> string \<Rightarrow> nat \<Rightarrow> 'w world \<Rightarrow> 'w world \<times> (client_err + int)" where
  "session_size_loop dp u i 0 wd = (wd, Inl SizeUnknown)"
| "session_size_loop dp u i (Suc k) wd =
     (case sessionRequest dp u ''GET'' (Some i) [] None wd of
        (wd1, None) \<Rightarrow> session_size_loop dp u i k wd1
      | (wd1, Some resp) \<Rightarrow>
          (case (if rs_status resp = 200 then json_size resp else None) of
             Some n \<Rightarrow> (wd1, Inr n)
           | None \<Rightarrow> session_size_loop dp u i k wd1))"

definition sessionSize :: "'w deployment \<Rightarrow> uploader \<Rightarrow> string \<Rightarrow> 'w world \<Rightarrow> 'w world \<times> (client_err + int)" where
  "sessionSize dp u i wd = session_size_loop dp u i retryAttempts wd"

definition appendChunk :: "'w deployment \<Rightarrow> uploader \<Rightarrow> string \<Rightarrow> int \<Rightarrow> reader \<Rightarrow> 'w world \<Rightarrow> 'w world \<times> (client_err + int)" where
  "appendChunk dp u i offset chunk wd =
     (case sessionRequest dp u ''PATCH'' (Some i) [(''offset'', format_int offset)] (Some chunk) wd of
        (wd1, None) \<Rightarrow> sessionSize dp u i wd1
      | (wd1, Some resp) \<Rightarrow>
          if rs_status resp = 200 \<or> rs_status resp = 409
          then (wd1, case json_size resp of None \<Rightarrow> Inl (ChunkBadResponse offset) | Some n \<Rightarrow> Inr n)
          else if rs_status resp \<ge> 500 then sessionSize dp u i wd1
          else (wd1, Inl (ChunkFailed offset (rs_status resp))))"

text \<open>\<open>io.NewSectionReader\<close>: a negative offset cannot be read.\<close>

definition section_reader :: "bytes \<Rightarrow> int \<Rightarrow> int \<Rightarrow> reader" where
  "section_reader file off n =
     (if off < 0 then \<lparr>rd_segs = [], rd_end = IoFailed, rd_eager = False\<rparr>
      else \<lparr>rd_segs = [take (nat n) (drop (nat off) file)], rd_end = IoEOF, rd_eager = False\<rparr>)"

text \<open>\<open>sendChunks\<close>: the loop trusts the size the answers carry, so it need not end.\<close>

partial_function (option) sendChunks :: "'w deployment \<Rightarrow> uploader \<Rightarrow> string \<Rightarrow> bytes \<Rightarrow> int \<Rightarrow> nat \<Rightarrow> 'w world
    \<Rightarrow> ('w world \<times> client_err option) option" where
  "sendChunks dp u i file offset failures wd =
     (if offset < int (length file)
      then (case appendChunk dp u i offset (section_reader file offset (min (chunkSize u) (int (length file) - offset))) wd of
              (wd1, Inl e) \<Rightarrow> Some (wd1, Some e)
            | (wd1, Inr newOffset) \<Rightarrow>
                if newOffset \<le> offset
                then (if failures + 1 \<ge> retryAttempts then Some (wd1, Some (NoProgress offset))
                      else sendChunks dp u i file newOffset (failures + 1) wd1)
                else sendChunks dp u i file newOffset 0 wd1)
      else Some (wd, None))"

definition finalize_query :: "upload_target \<Rightarrow> string \<Rightarrow> string \<Rightarrow> (string \<times> string) list" where
  "finalize_query t i digest = query_set (query_set (tg_query t) ''upload_session'' i) ''upload_sha256'' digest"

definition finalize_request :: "'w deployment \<Rightarrow> uploader \<Rightarrow> upload_target \<Rightarrow> (string \<times> string) list \<Rightarrow> string \<Rightarrow> string \<Rightarrow> request" where
  "finalize_request dp u t header i digest =
     new_request dp (tg_method t) (tg_path t) (finalize_query t i digest) [] (upload_headers u header) None"

definition finalize :: "'w deployment \<Rightarrow> uploader \<Rightarrow> upload_target \<Rightarrow> (string \<times> string) list \<Rightarrow> string \<Rightarrow> string \<Rightarrow> 'w world
    \<Rightarrow> 'w world \<times> (client_err + response)" where
  "finalize dp u t header i digest wd =
     (case Do dp (finalize_request dp u t header i digest) wd of
        (wd1, None) \<Rightarrow> (wd1, Inl FinalizeUnreachable)
      | (wd1, Some resp) \<Rightarrow> (wd1, Inr resp))"

definition abortSession :: "'w deployment \<Rightarrow> uploader \<Rightarrow> string \<Rightarrow> 'w world \<Rightarrow> 'w world" where
  "abortSession dp u i wd = fst (sessionRequest dp u ''DELETE'' (Some i) [] None wd)"

definition chunked :: "'w deployment \<Rightarrow> uploader \<Rightarrow> upload_target \<Rightarrow> (string \<times> string) list \<Rightarrow> bytes \<Rightarrow> 'w world
    \<Rightarrow> ('w world \<times> (client_err + response)) option" where
  "chunked dp u t header file wd =
     (case createSession dp u wd of
        (wd1, Inl e) \<Rightarrow> Some (wd1, Inl e)
      | (wd1, Inr i) \<Rightarrow>
          (case sendChunks dp u i file 0 0 wd1 of
             None \<Rightarrow> None
           | Some (wd2, Some e) \<Rightarrow> Some (abortSession dp u i wd2, Inl e)
           | Some (wd2, None) \<Rightarrow>
               (case finalize dp u t header i (dp_sha dp file) wd2 of
                  (wd3, Inl e) \<Rightarrow> Some (abortSession dp u i wd3, Inl e)
                | (wd3, Inr resp) \<Rightarrow> Some (wd3, Inr resp))))"

definition direct :: "'w deployment \<Rightarrow> uploader \<Rightarrow> upload_target \<Rightarrow> (string \<times> string) list \<Rightarrow> reader \<Rightarrow> 'w world
    \<Rightarrow> 'w world \<times> (client_err + response)" where
  "direct dp u t header body wd =
     (case Do dp (new_request dp (tg_method t) (tg_path t) (tg_query t) [] (upload_headers u header) (Some body)) wd of
        (wd1, None) \<Rightarrow> (wd1, Inl DirectFailed)
      | (wd1, Some resp) \<Rightarrow> (wd1, Inr resp))"

definition UploadByHash :: "'w deployment \<Rightarrow> uploader \<Rightarrow> upload_target \<Rightarrow> (string \<times> string) list \<Rightarrow> string \<Rightarrow> 'w world
    \<Rightarrow> 'w world \<times> (client_err + response)" where
  "UploadByHash dp u t header sha256hex wd =
     (case Do dp (new_request dp (tg_method t) (tg_path t) (query_set (tg_query t) ''upload_sha256'' sha256hex) []
             (set_headers header (bearer u)) None) wd of
        (wd1, None) \<Rightarrow> (wd1, Inl DirectFailed)
      | (wd1, Some resp) \<Rightarrow> (wd1, Inr resp))"

text \<open>\<open>serverInfo\<close>: a field that is missing or has another type keeps the zero value, and a field of
  another type makes the decoding fail.\<close>

definition decode_info :: "response \<Rightarrow> server_info option" where
  "decode_info resp =
     (case (case map_of (rs_body resp) ''max_direct_upload_bytes'' of None \<Rightarrow> Some 0 | Some (JInt n) \<Rightarrow> Some n | Some _ \<Rightarrow> None) of
        None \<Rightarrow> None
      | Some n \<Rightarrow>
          (case (case map_of (rs_body resp) ''upload_by_sha256'' of None \<Rightarrow> Some False | Some (JBool b) \<Rightarrow> Some b | Some _ \<Rightarrow> None) of
             None \<Rightarrow> None
           | Some b \<Rightarrow> Some \<lparr>si_max_direct = n, si_by_sha256 = b\<rparr>))"

definition serverInfo :: "'w deployment \<Rightarrow> uploader \<Rightarrow> 'w world \<Rightarrow> 'w world \<times> uploader" where
  "serverInfo dp u wd =
     (if up_info_fetched u then (wd, u)
      else (let u1 = u\<lparr>up_info_fetched := True\<rparr> in
        case Do dp (new_request dp ''GET'' ''/api/v1/server-info'' [] [] [] None) wd of
          (wd1, None) \<Rightarrow> (wd1, u1)
        | (wd1, Some resp) \<Rightarrow>
            (wd1, if rs_status resp \<noteq> 200 then u1
                  else case decode_info resp of None \<Rightarrow> u1 | Some info \<Rightarrow> u1\<lparr>up_info := info\<rparr>)))"

definition SupportsUploadBySHA256 :: "'w deployment \<Rightarrow> uploader \<Rightarrow> 'w world \<Rightarrow> 'w world \<times> uploader \<times> bool" where
  "SupportsUploadBySHA256 dp u wd = (case serverInfo dp u wd of (wd1, u1) \<Rightarrow> (wd1, u1, si_by_sha256 (up_info u1)))"

definition directLimit :: "'w deployment \<Rightarrow> uploader \<Rightarrow> 'w world \<Rightarrow> 'w world \<times> uploader \<times> int" where
  "directLimit dp u wd =
     (if up_threshold u > 0 then (wd, u, up_threshold u)
      else (case serverInfo dp u wd of
        (wd1, u1) \<Rightarrow>
          let n = (if si_max_direct (up_info u1) > 0 then si_max_direct (up_info u1) else DefaultChunkThreshold) in
          (wd1, u1\<lparr>up_threshold := n\<rparr>, n)))"

definition Upload :: "'w deployment \<Rightarrow> uploader \<Rightarrow> upload_target \<Rightarrow> (string \<times> string) list \<Rightarrow> bytes option \<Rightarrow> 'w world
    \<Rightarrow> ('w world \<times> uploader \<times> (client_err + response)) option" where
  "Upload dp u t header path wd =
     (case path of
        None \<Rightarrow> Some (wd, u, Inl OpenFailed)
      | Some file \<Rightarrow>
          (case (if chunkSize u \<le> 0 then (wd, u, True)
                 else case directLimit dp u wd of (wd1, u1, limit) \<Rightarrow> (wd1, u1, int (length file) \<le> limit)) of
             (wd1, u1, small) \<Rightarrow>
               if small
               then (case direct dp u1 t header (spool_reader file) wd1 of (wd2, r) \<Rightarrow> Some (wd2, u1, r))
               else (case chunked dp u1 t header file wd1 of None \<Rightarrow> None | Some (wd2, r) \<Rightarrow> Some (wd2, u1, r))))"

section \<open>What a request can do to the server\<close>

definition env_sane :: "io_env \<Rightarrow> bool" where
  "env_sane env \<longleftrightarrow> env_truncate_ok env \<and> env_seek_ok env"

fun event_sane :: "net_event \<Rightarrow> bool" where
  "event_sane (Late env r) \<longleftrightarrow> env_sane env"
| "event_sane (Sweep now) \<longleftrightarrow> True"

text \<open>The disk of the server can roll an append back.\<close>

definition sane_net :: "'w deployment \<Rightarrow> bool" where
  "sane_net dp \<longleftrightarrow> (\<forall>k r. env_sane (ft_env (dp_net dp k r)) \<and> (\<forall>e \<in> set (ft_events (dp_net dp k r)). event_sane e))"

abbreviation store_ok :: "upload_store option \<Rightarrow> bool" where
  "store_ok active \<equiv> pred_option upload_inv active"

lemma getSession_some:
  assumes "getSession r active = Inr (st, a)"
  shows "active = Some st" "\<exists>t. rq_token r = Some t \<and> Get (rq_path_id r) (ownerIdentity t) st = Inr a"
  using assms by (auto simp: getSession_def requireOwner_def split: option.splits sum.splits if_splits)

lemma handleAppend_store:
  assumes "store_ok active" "env_sane env"
  shows "store_ok (fst (handleAppend env r active))"
proof (cases "getSession r active")
  case (Inr sa)
  obtain st a where sa: "sa = (st, a)" by (cases sa)
  note g = getSession_some [OF Inr [unfolded sa]]
  have inv: "upload_inv st" and a: "a < length (us_heap st)" using assms(1) g Get_valid by auto
  have app: "upload_inv (fst (Append env a off (rq_body r) st))" for off
    using assms(2) inv a by (intro Append_inv) (simp_all add: env_sane_def)
  have "fst (handleAppend env r active) = active \<or> (\<exists>off. fst (handleAppend env r active) = Some (fst (Append env a off (rq_body r) st)))"
  proof (cases "parse_int64 (if query_get r ''offset'' = [] then header_get r ''Upload-Offset'' else query_get r ''offset'')")
    case (Some off)
    with Inr sa show ?thesis by (cases "Append env a off (rq_body r) st") (auto simp: handleAppend_def Let_def intro: exI [of _ off])
  qed (use Inr sa in \<open>simp add: handleAppend_def Let_def\<close>)
  with app assms(1) show ?thesis by auto
qed (use assms in \<open>simp add: handleAppend_def\<close>)

lemma handleCreate_store:
  assumes "store_ok active"
  shows "store_ok (fst (handleCreate now rnd ok r active))"
proof (cases "requireOwner r")
  case (Inr owner)
  show ?thesis
  proof (cases active)
    case (Some st)
    have "upload_inv (fst (Create now rnd ok owner st))" using assms Some by (intro Create_inv) simp
    with Inr Some show ?thesis
      by (cases "Create now rnd ok owner st") (auto simp: handleCreate_def split: sum.split)
  qed (use Inr in \<open>simp add: handleCreate_def\<close>)
qed (use assms in \<open>simp add: handleCreate_def\<close>)

lemma handleStatus_store: "fst (handleStatus r active) = active"
  by (auto simp: handleStatus_def split: sum.split)

lemma handleAbort_store:
  assumes "store_ok active"
  shows "store_ok (fst (handleAbort r active))"
proof (cases "getSession r active")
  case (Inr sa)
  obtain st a where sa: "sa = (st, a)" by (cases sa)
  note g = getSession_some [OF Inr [unfolded sa]]
  have inv: "upload_inv st" and a: "a < length (us_heap st)" using assms g Get_valid by auto
  with Inr sa show ?thesis by (simp add: handleAbort_def Remove_inv)
qed (use assms in \<open>simp add: handleAbort_def\<close>)

lemma events_store:
  assumes "store_ok active" "\<forall>e \<in> set es. event_sane e"
  shows "store_ok (fold net_event_step es active)"
  using assms
proof (induction es arbitrary: active)
  case (Cons e es)
  then have "store_ok (net_event_step e active)"
    by (cases e) (auto simp: handleAppend_store SweepExpired_inv option.pred_map split: option.splits intro: option.pred_mono_strong)
  with Cons show ?case by simp
qed simp

lemma cut_body_fields [simp]:
  "rq_path (cut_body c r) = rq_path r" "rq_method (cut_body c r) = rq_method r" "rq_path_id (cut_body c r) = rq_path_id r"
  "rq_token (cut_body c r) = rq_token r" "rq_query (cut_body c r) = rq_query r" "rq_headers (cut_body c r) = rq_headers r"
  "rq_content_length (cut_body c r) = rq_content_length r" "rq_has_body (cut_body c r) = rq_has_body r"
  by (simp_all add: cut_body_def split: option.split)

lemma cut_body_none [simp]: "cut_body None r = r"
  by (simp add: cut_body_def)

lemma cut_body_gets [simp]:
  "query_get (cut_body c r) k = query_get r k" "header_get (cut_body c r) k = header_get r k"
  "expectedSHA256 (cut_body c r) = expectedSHA256 r"
  by (simp_all add: query_get_def header_get_def expectedSHA256_def Let_def)

lemma new_request_fields [simp]:
  "rq_path (new_request dp m p q i hs b) = p" "rq_method (new_request dp m p q i hs b) = m" "rq_path_id (new_request dp m p q i hs b) = i"
  "rq_token (new_request dp m p q i hs b) = dp_auth dp hs" "rq_query (new_request dp m p q i hs b) = q" "rq_headers (new_request dp m p q i hs b) = hs"
  "rq_content_length (new_request dp m p q i hs b) = (if b = None then 0 else - 1)" "rq_has_body (new_request dp m p q i hs b) = (b \<noteq> None)"
  by (simp_all add: new_request_def)

text \<open>The requests of the session API go to their handlers and leave the application alone.\<close>

inductive session_api :: "request \<Rightarrow> bool" where
  "rq_path r = ''/api/v1/uploads'' \<Longrightarrow> rq_method r = ''POST'' \<Longrightarrow> session_api r"
| "rq_path r = ''/api/v1/uploads/'' @ rq_path_id r \<Longrightarrow> rq_method r \<in> {''GET'', ''PATCH'', ''DELETE''} \<Longrightarrow> session_api r"

lemma session_req_api:
  "session_api (session_req dp u ''POST'' None q b)"
  "m \<in> {''GET'', ''PATCH'', ''DELETE''} \<Longrightarrow> session_api (session_req dp u m (Some i) q b)"
  by (simp_all add: session_api.simps session_req_def)

lemma session_api_cut: "session_api r \<Longrightarrow> session_api (cut_body c r)"
  by (simp add: session_api.simps)

lemma serve_session:
  assumes "session_api r" "store_ok active" "env_sane (ft_env ft)" "serve dp ft r active w = (active', w', res)"
  shows "w' = w" "store_ok active'"
  using assms
  by (auto simp: serve_def handleStatus_store session_api.simps split: prod.splits if_splits
      dest: handleCreate_store [of _ "ft_now ft" "ft_rnd ft" "ft_open_ok ft" r] handleAppend_store [of _ "ft_env ft" r] handleAbort_store [of _ r])
    (metis fst_conv handleAbort_store handleAppend_store handleCreate_store handleStatus_store)+

lemma Do_session:
  assumes "session_api r" "store_ok (wd_store wd)" "sane_net dp" "Do dp r wd = (wd', resp)"
  shows "wd_app wd' = wd_app wd" "store_ok (wd_store wd')"
proof -
  let ?ft = "dp_net dp (wd_count wd) r"
  let ?active = "fold net_event_step (ft_events ?ft) (wd_store wd)"
  have ok: "store_ok ?active" using assms(2,3) by (intro events_store) (simp_all add: sane_net_def)
  have env: "env_sane (ft_env ?ft)" using assms(3) by (simp add: sane_net_def)
  obtain active' w' res where s: "serve dp ?ft (cut_body (ft_cut ?ft) r) ?active (wd_app wd) = (active', w', res)" by (rule prod_cases3)
  note eff = serve_session [OF session_api_cut [OF assms(1)] ok env s]
  show "wd_app wd' = wd_app wd" "store_ok (wd_store wd')"
    using assms(4) s eff ok by (auto simp: Do_def Let_def split: if_splits)
qed

text \<open>A request behind the middleware runs the endpoint on a spool with the declared digest or not at all.\<close>

definition finalizing :: "request \<Rightarrow> bool" where
  "finalizing r \<longleftrightarrow> query_get r ''upload_session'' \<noteq> [] \<and> mutatingMethod (rq_method r)
     \<and> \<not> has_prefix (rq_path r) ''/api/v1/uploads'' \<and> expectedSHA256 r \<noteq> []"

definition ran_on :: "('w \<Rightarrow> reader \<Rightarrow> int \<Rightarrow> 'w \<times> endpoint_result) \<Rightarrow> bytes \<Rightarrow> 'w \<Rightarrow> 'w \<Rightarrow> bool" where
  "ran_on endpoint content w w' \<longleftrightarrow> w' = fst (endpoint w (spool_reader content) (int (length content)))"

lemma resolve_effect:
  assumes "finalizing r" "store_ok active" "ResolveSessionBody endpoint (\<lambda>b. Some (sha b)) ok r active w = (active', w', res)"
  shows "store_ok active'"
    "w' = w \<or> (\<exists>content. equal_fold (expectedSHA256 r) (sha content) \<and> ran_on endpoint content w w')"
proof -
  obtain active1 fp where fb: "finalize_begin (\<lambda>b. Some (sha b)) ok r active = (active1, fp)" by fastforce
  have "store_ok active' \<and> (w' = w \<or> (\<exists>content. equal_fold (expectedSHA256 r) (sha content) \<and> ran_on endpoint content w w'))"
  proof (cases active)
    case None
    with fb have "active1 = None" "\<exists>resp. fp = Answer resp"
      using assms(1) by (auto simp: finalize_begin_def Let_def finalizing_def split: sum.splits if_splits)
    with fb assms(3) show ?thesis by (auto simp: ResolveSessionBody_def)
  next
    case (Some st)
    then have inv: "upload_inv st" using assms(2) by simp
    note fb' = fb [unfolded Some]
    show ?thesis
    proof (cases fp)
      case PassThrough
      with fb' show ?thesis using assms(1)
        by (auto simp: finalize_begin_def Let_def finalizing_def split: option.splits sum.splits if_splits prod.splits)
    next
      case (Answer resp)
      with fb' have "active1 = Some st" using finalize_begin_answer [OF inv] by blast
      with fb Answer inv assms(3) show ?thesis by (auto simp: ResolveSessionBody_def)
    next
      case (RunWith a spool sz)
      note run = finalize_begin_run [OF inv fb' [unfolded RunWith]]
      have ok: "session_ok st (deref st a)" by (rule session_ok_deref [OF inv run(4)])
      then have sz: "sz = int (length spool)" using run by (simp add: session_ok_def)
      let ?st1 = "set_session a ((deref st a)\<lparr>s_busy := True\<rparr>) st"
      have "upload_inv ?st1" using ok by (intro upload_inv_update [OF inv run(4)]) (simp_all add: session_ok_def)
      then have "upload_inv (finalize_end a res ?st1)" using run(4) by (intro finalize_inv(3)) simp_all
      moreover have "equal_fold (expectedSHA256 r) (sha spool)" using run(7) assms(1) by (simp add: finalizing_def)
      ultimately show ?thesis
        using fb RunWith run(1) assms(3) sz by (auto simp: ResolveSessionBody_def ran_on_def split: prod.splits)
    qed
  qed
  then show "store_ok active'" "w' = w \<or> (\<exists>content. equal_fold (expectedSHA256 r) (sha content) \<and> ran_on endpoint content w w')"
    by blast+
qed

lemma serve_finalizing:
  "finalizing r \<Longrightarrow> rq_path_id r = [] \<Longrightarrow>
   serve dp ft r active w = ResolveSessionBody (dp_endpoint dp r) (\<lambda>b. Some (dp_sha dp b)) (ft_open_ok ft) r active w"
  by (auto simp: serve_def finalizing_def mutatingMethod_def has_prefix_def)

lemma finalizing_cut: "finalizing r \<Longrightarrow> finalizing (cut_body c r)"
  by (simp add: finalizing_def)

lemma finalize_request_fields [simp]:
  assumes "i \<noteq> []" "digest \<noteq> []"
  shows "query_get (finalize_request dp u t header i digest) ''upload_session'' = i"
    "expectedSHA256 (finalize_request dp u t header i digest) = digest"
    "rq_path_id (finalize_request dp u t header i digest) = []"
  using assms by (simp_all add: finalize_request_def finalize_query_def query_get_def query_set_def expectedSHA256_def)

definition upload_endpoint :: "upload_target \<Rightarrow> bool" where
  "upload_endpoint t \<longleftrightarrow> mutatingMethod (tg_method t) \<and> \<not> has_prefix (tg_path t) ''/api/v1/uploads''"

lemma finalize_request_finalizing:
  "upload_endpoint t \<Longrightarrow> i \<noteq> [] \<Longrightarrow> digest \<noteq> [] \<Longrightarrow> finalizing (finalize_request dp u t header i digest)"
  by (simp add: finalizing_def upload_endpoint_def) (simp add: finalize_request_def)

lemma Do_finalize:
  assumes "upload_endpoint t" "i \<noteq> []" "dp_sha dp file \<noteq> []" "\<forall>bs. equal_fold (dp_sha dp file) (dp_sha dp bs) \<longrightarrow> bs = file"
    "store_ok (wd_store wd)" "sane_net dp" "Do dp (finalize_request dp u t header i (dp_sha dp file)) wd = (wd', resp)"
  shows "store_ok (wd_store wd')"
    "wd_app wd' = wd_app wd \<or> (\<exists>r. ran_on (dp_endpoint dp r) file (wd_app wd) (wd_app wd'))"
proof -
  let ?r = "finalize_request dp u t header i (dp_sha dp file)"
  let ?ft = "dp_net dp (wd_count wd) ?r"
  let ?active = "fold net_event_step (ft_events ?ft) (wd_store wd)" and ?c = "cut_body (ft_cut ?ft) ?r"
  have ok: "store_ok ?active" using assms(5,6) by (intro events_store) (simp_all add: sane_net_def)
  have fin: "finalizing ?c" using assms(1-3) by (intro finalizing_cut finalize_request_finalizing)
  have sum: "expectedSHA256 ?c = dp_sha dp file"
    using assms(2,3) by simp
  obtain active' w' res where s: "serve dp ?ft ?c ?active (wd_app wd) = (active', w', res)" by (rule prod_cases3)
  then have "ResolveSessionBody (dp_endpoint dp ?c) (\<lambda>b. Some (dp_sha dp b)) (ft_open_ok ?ft) ?c ?active (wd_app wd) = (active', w', res)"
    using fin assms(2,3) by (subst serve_finalizing [symmetric]) simp_all
  note eff = resolve_effect [OF fin ok this]
  have "w' = wd_app wd \<or> ran_on (dp_endpoint dp ?c) file (wd_app wd) w'" using eff(2) assms(4) unfolding sum by blast
  then show "store_ok (wd_store wd')" "wd_app wd' = wd_app wd \<or> (\<exists>r. ran_on (dp_endpoint dp r) file (wd_app wd) (wd_app wd'))"
    using assms(7) s ok eff(1) by (auto simp: Do_def Let_def split: if_splits)
qed

section \<open>Whatever the network does\<close>

text \<open>The application and the invariant through the requests of an upload.\<close>

definition untouched :: "'w world \<Rightarrow> 'w world \<Rightarrow> bool" where
  "untouched wd wd' \<longleftrightarrow> wd_app wd' = wd_app wd \<and> store_ok (wd_store wd')"

lemma sessionRequest_untouched:
  assumes "store_ok (wd_store wd)" "sane_net dp" "sessionRequest dp u m i q b wd = (wd', resp)"
    "i = None \<and> m = ''POST'' \<or> (\<exists>j. i = Some j) \<and> m \<in> {''GET'', ''PATCH'', ''DELETE''}"
  shows "untouched wd wd'"
proof -
  have "session_api (session_req dp u m i q b)" using assms(4) session_req_api by blast
  from Do_session [OF this assms(1,2) assms(3) [unfolded sessionRequest_def]] show ?thesis by (simp add: untouched_def)
qed

lemma untouched_trans: "untouched wd wd1 \<Longrightarrow> untouched wd1 wd2 \<Longrightarrow> untouched wd wd2"
  by (simp add: untouched_def)

lemma session_size_untouched:
  assumes "store_ok (wd_store wd)" "sane_net dp" "session_size_loop dp u i k wd = (wd', r)"
  shows "untouched wd wd'"
  using assms
proof (induction k arbitrary: wd)
  case (Suc k)
  obtain wd1 resp where q: "sessionRequest dp u ''GET'' (Some i) [] None wd = (wd1, resp)" by fastforce
  have u: "untouched wd wd1" by (rule sessionRequest_untouched [OF Suc.prems(1,2) q]) simp
  with Suc.IH [of wd1] Suc.prems q show ?case
    by (auto simp: untouched_def split: option.splits)
qed (simp add: untouched_def)

lemma appendChunk_untouched:
  assumes "store_ok (wd_store wd)" "sane_net dp" "appendChunk dp u i off chunk wd = (wd', r)"
  shows "untouched wd wd'"
proof -
  obtain wd1 resp where q: "sessionRequest dp u ''PATCH'' (Some i) [(''offset'', format_int off)] (Some chunk) wd = (wd1, resp)" by fastforce
  have u: "untouched wd wd1" by (rule sessionRequest_untouched [OF assms(1,2) q]) simp
  have "untouched wd1 wd'" if "sessionSize dp u i wd1 = (wd', r)"
    using u that by (intro session_size_untouched [OF _ assms(2)]) (simp_all add: untouched_def sessionSize_def)
  with u q assms(3) show ?thesis
    by (auto simp: appendChunk_def split: option.splits if_splits intro: untouched_trans)
qed

lemma sendChunks_untouched:
  assumes "sendChunks dp u i file off k wd = Some y" "store_ok (wd_store wd)" "sane_net dp"
  shows "untouched wd (fst y)"
  using assms
proof (induction rule: sendChunks.raw_induct [rotated, consumes 1, case_names step])
  case (step rec dp u i fl off k wd y)
  obtain wd1 res where a: "appendChunk dp u i off (section_reader fl off (min (chunkSize u) (int (length fl) - off))) wd = (wd1, res)" by fastforce
  have u: "untouched wd wd1" by (rule appendChunk_untouched [OF step.prems a])
  then have ok: "store_ok (wd_store wd1)" by (simp add: untouched_def)
  note body = step.hyps [unfolded a prod.case]
  show ?case
  proof (cases "off < int (length fl)")
    case True
    then show ?thesis
    proof (cases res)
      case (Inr n)
      with True body consider "rec dp u i fl n (k + 1) wd1 = Some y" | "rec dp u i fl n 0 wd1 = Some y" | "fst y = wd1"
        by (auto split: if_splits)
      then show ?thesis using step.IH [OF _ ok step.prems(2)] u untouched_trans by cases blast+
    qed (use u body in auto)
  qed (use body step.prems in \<open>auto simp: untouched_def\<close>)
qed

text \<open>C19: whatever the network loses, cuts, delays, repeats or has a proxy answer, and whatever the client
  is told, a chunked upload runs the endpoint on the whole file with its length or does not run it: no
  truncated, reordered or doubled content reaches the application. The digest has to tell the file from
  other contents.\<close>

theorem chunked_runs_on_file:
  assumes "sane_net dp" "store_ok (wd_store wd)" "upload_endpoint t" "dp_sha dp file \<noteq> []"
    "\<forall>bs. equal_fold (dp_sha dp file) (dp_sha dp bs) \<longrightarrow> bs = file"
    "chunked dp u t header file wd = Some (wd', r)"
  shows "wd_app wd' = wd_app wd \<or> (\<exists>q. wd_app wd' = fst (dp_endpoint dp q (wd_app wd) (spool_reader file) (int (length file))))"
proof -
  obtain wd1 c where cr: "createSession dp u wd = (wd1, c)" by fastforce
  obtain resp where "sessionRequest dp u ''POST'' None [] None wd = (wd1, resp)"
    using cr by (auto simp: createSession_def split: prod.splits option.splits)
  then have u1: "untouched wd wd1" by (rule sessionRequest_untouched [OF assms(2,1)]) simp
  have abort: "untouched wd2 (abortSession dp u i wd2)" if "store_ok (wd_store wd2)" for i wd2
    by (cases "sessionRequest dp u ''DELETE'' (Some i) [] None wd2")
      (use that in \<open>auto simp: abortSession_def intro: sessionRequest_untouched [OF _ assms(1)]\<close>)
  show ?thesis
  proof (cases c)
    case (Inl e)
    with u1 cr assms(6) show ?thesis by (simp add: chunked_def untouched_def)
  next
    case (Inr i)
    then have i: "i \<noteq> []" using cr by (auto simp: createSession_def json_id_def split: prod.splits option.splits if_splits jval.splits)
    obtain wd2 e where sc: "sendChunks dp u i file 0 0 wd1 = Some (wd2, e)"
      using assms(6) cr Inr by (auto simp: chunked_def split: option.splits)
    have u2: "untouched wd wd2"
      using u1 sendChunks_untouched [OF sc _ assms(1)] by (simp add: untouched_def)
    show ?thesis
    proof (cases e)
      case (Some e)
      with sc cr Inr assms(6) u2 abort [of wd2 i] show ?thesis by (simp add: chunked_def untouched_def)
    next
      case None
      obtain wd3 resp where d: "Do dp (finalize_request dp u t header i (dp_sha dp file)) wd2 = (wd3, resp)" by fastforce
      have "store_ok (wd_store wd2)" using u2 by (simp add: untouched_def)
      note fin = Do_finalize [OF assms(3) i assms(4,5) this assms(1) d]
      have "wd_app wd' = wd_app wd3"
        using None sc cr Inr assms(6) d abort [OF fin(1), of i] by (auto simp: chunked_def finalize_def untouched_def split: option.splits)
      with fin(2) u2 show ?thesis by (auto simp: untouched_def ran_on_def)
    qed
  qed
qed

section \<open>A network that loses requests now and then\<close>

lemma copy_capped_fits:
  assumes "copy_capped room c acc = (out, e, c')" "int (length (rd_bytes (cp_reader c))) \<le> cp_remaining c" "\<not> cp_exceeded c"
  shows "\<not> cp_exceeded c'"
  using assms
proof (induction "rd_measure (cp_reader c)" arbitrary: room c acc rule: less_induct)
  case less
  obtain bs er c1 where rd: "capped_read copy_buffer c = (bs, er, c1)" by (rule prod_cases3)
  have "int (length bs) \<le> cp_remaining c"
    using rd less.prems(2) by (auto simp: capped_read_def Let_def split: if_splits prod.splits dest!: rd_read_split)
  note fits = capped_read_fits [OF rd this]
  then have c1: "int (length (rd_bytes (cp_reader c1))) \<le> cp_remaining c1" "\<not> cp_exceeded c1" using less.prems(2,3) by simp_all
  obtain ws ew room' where w: "(if bs = [] then ([], None, room) else file_write room bs) = (ws, ew, room')" by (rule prod_cases3)
  show ?case
  proof (cases "ew = None \<and> er = None")
    case True
    then have "capped_read copy_buffer c = (bs, None, c1)" using rd by simp
    then have "rd_measure (cp_reader c1) < rd_measure (cp_reader c)"
      by (rule capped_read_progress) (simp add: copy_buffer_def)
    moreover have "copy_capped room' c1 (acc @ ws) = (out, e, c')"
      using less.prems(1) rd w True by (subst (asm) copy_capped.simps) (simp split: if_splits)
    ultimately show ?thesis using c1 by (rule less.hyps)
  next
    case False
    then have "c' = c1"
      using less.prems(1) rd w by (subst (asm) copy_capped.simps) (auto split: if_splits option.splits)
    with c1 show ?thesis by simp
  qed
qed

text \<open>The server holds the first \<open>n\<close> bytes of the file.\<close>

definition holds :: "string \<Rightarrow> string \<Rightarrow> time \<Rightarrow> int \<Rightarrow> bytes \<Rightarrow> nat \<Rightarrow> upload_store option \<Rightarrow> bool" where
  "holds i owner t0 ttl file n active \<longleftrightarrow> (\<exists>st a. active = Some st \<and> upload_inv st \<and> us_ttl st = ttl \<and> us_max st < 2 ^ 63
     \<and> int (length file) \<le> us_max st \<and> n \<le> length file \<and> Get i owner st = Inr a \<and> \<not> s_busy (deref st a)
     \<and> s_created (deref st a) = t0 \<and> s_data (deref st a) = take n file)"

definition chunk_req :: "'w deployment \<Rightarrow> uploader \<Rightarrow> string \<Rightarrow> bytes \<Rightarrow> int \<Rightarrow> int \<Rightarrow> request" where
  "chunk_req dp u i file off m = session_req dp u ''PATCH'' (Some i) [(''offset'', format_int off)] (Some (section_reader file off m))"

definition signed_in :: "'w deployment \<Rightarrow> uploader \<Rightarrow> string \<Rightarrow> bool" where
  "signed_in dp u owner \<longleftrightarrow> (\<forall>b. \<exists>t. dp_auth dp (session_headers u b) = Some t \<and> HasScope t ''write'' \<and> ownerIdentity t = owner)"

lemma holds_session:
  assumes "holds i owner t0 ttl file n active" "dp_auth dp hs = Some t" "HasScope t ''write''" "ownerIdentity t = owner"
    "rq_token r = dp_auth dp hs" "rq_path_id r = i"
  obtains st a where "getSession r active = Inr (st, a)" "active = Some st" "upload_inv st" "us_ttl st = ttl" "us_max st < 2 ^ 63"
    "int (length file) \<le> us_max st" "n \<le> length file" "Get i owner st = Inr a" "\<not> s_busy (deref st a)" "s_created (deref st a) = t0"
    "s_data (deref st a) = take n file" "a < length (us_heap st)" "s_open (deref st a)" "s_size (deref st a) = int n"
proof -
  obtain st a where h: "active = Some st" "upload_inv st" "us_ttl st = ttl" "us_max st < 2 ^ 63" "int (length file) \<le> us_max st"
    "n \<le> length file" "Get i owner st = Inr a" "\<not> s_busy (deref st a)" "s_created (deref st a) = t0" "s_data (deref st a) = take n file"
    using assms(1) by (auto simp: holds_def)
  have a: "a < length (us_heap st)" by (rule Get_valid [OF h(2,7)])
  moreover have "s_open (deref st a)" using h(2) Get_some [OF h(7)] by (auto simp: upload_inv_def entry_ok_def dest!: map_of_SomeD)
  moreover have "s_size (deref st a) = int n" using session_ok_deref [OF h(2) a] h(6,10) by (simp add: session_ok_def)
  moreover have "getSession r active = Inr (st, a)" using h assms by (simp add: getSession_def requireOwner_def)
  ultimately show thesis using h by (intro that)
qed

lemma Append_chunk:
  assumes "upload_inv st" "a < length (us_heap st)" "\<not> s_busy (deref st a)" "s_open (deref st a)" "env_sane env"
    "s_size (deref st a) + int (length (rd_bytes body)) \<le> us_max st"
  obtains k e where "Append env a (s_size (deref st a)) body st = (set_session a (grown (take k (rd_bytes body)) (deref st a)) st,
      s_size (grown (take k (rd_bytes body)) (deref st a)), e)" "e = None \<or> e = Some ErrWriteChunk"
    "env_room env = None \<longrightarrow> take k (rd_bytes body) = rd_bytes body \<and> (rd_end body = IoEOF \<longrightarrow> e = None)"
proof -
  obtain w er c' where cp: "copy_capped (env_room env) (cap_for st a body) [] = (w, er, c')" by (rule prod_cases3)
  obtain k where k: "w = take k (rd_bytes body)" using copy_capped_bound [OF cp] by (auto simp: cap_for_def)
  have nx: "\<not> cp_exceeded c'" using assms(6) by (intro copy_capped_fits [OF cp]) (simp_all add: cap_for_def)
  have sz: "s_size (deref st a) = int (length (s_data (deref st a)))"
    using session_ok_deref [OF assms(1,2)] by (simp add: session_ok_def)
  have app: "Append env a (s_size (deref st a)) body st = (set_session a (grown w (deref st a)) st, s_size (grown w (deref st a)),
      if er = None then None else Some ErrWriteChunk)"
    using Append_copied [OF assms(3,4) refl sz cp] assms(5) nx by (simp add: env_sane_def)
  have full: "take k (rd_bytes body) = rd_bytes body \<and> (rd_end body = IoEOF \<longrightarrow> (if er = None then None else Some ErrWriteChunk) = None)"
    if "env_room env = None"
  proof -
    have "copy_result (cap_for st a body) [] w er c'" using cp that by (intro copy_capped_total) (simp_all add: cap_for_def)
    with nx k show ?thesis using assms(6) by (auto simp: copy_result_def cap_for_def split: if_splits)
  qed
  show thesis by (rule that [OF app [unfolded k]]) (use full in auto)
qed

text \<open>A chunk of the file, whole or cut, early or late, leaves a prefix of the file that is no shorter.\<close>

lemma section_bytes: "0 \<le> off \<Longrightarrow> rd_bytes (section_reader file off m) = take (nat m) (drop (nat off) file)"
  by (simp add: section_reader_def rd_bytes_def)

lemma cut_bytes: "\<exists>l. rd_bytes (rq_body (cut_body c r)) = take l (rd_bytes (rq_body r))"
  by (auto simp: cut_body_def rd_bytes_def split: option.split intro: exI [of _ "length (concat (rd_segs (rq_body r)))"])

lemma session_req_some [simp]:
  "rq_path_id (session_req dp u m (Some i) q b) = i" "rq_token (session_req dp u m (Some i) q b) = dp_auth dp (session_headers u b)"
  "rq_query (session_req dp u m (Some i) q b) = q" "rq_method (session_req dp u m (Some i) q b) = m"
  "rq_path (session_req dp u m (Some i) q b) = ''/api/v1/uploads/'' @ i" "rq_body (session_req dp u m (Some i) q (Some rd)) = rd"
  by (simp_all add: session_req_def) (simp add: new_request_def)

lemma handleAppend_chunk:
  assumes "holds i owner t0 ttl file n active" "signed_in dp u owner" "env_sane env" "0 \<le> off" "off \<le> int (length file)"
  obtains active' resp n' where "handleAppend env (cut_body c (chunk_req dp u i file off m)) active = (active', resp)"
    "holds i owner t0 ttl file n' active'" "n \<le> n'" "json_size resp = Some (int n')" "rs_status resp = 500 \<or> rs_status resp \<in> {200, 409}"
    "c = None \<and> env_room env = None \<and> off \<le> int n \<and> off < int (length file) \<and> 0 < m \<longrightarrow> rs_status resp \<in> {200, 409} \<and> off < int n'"
proof -
  let ?r = "cut_body c (chunk_req dp u i file off m)"
  obtain t where t: "dp_auth dp (session_headers u (Some (section_reader file off m))) = Some t" "HasScope t ''write''" "ownerIdentity t = owner"
    using assms(2) by (auto simp: signed_in_def)
  have tk: "rq_token ?r = dp_auth dp (session_headers u (Some (section_reader file off m)))" "rq_path_id ?r = i" by (simp_all add: chunk_req_def)
  obtain st a where g: "getSession ?r active = Inr (st, a)" "active = Some st" "upload_inv st" "us_ttl st = ttl" "us_max st < 2 ^ 63"
    "int (length file) \<le> us_max st" "n \<le> length file" "Get i owner st = Inr a" "\<not> s_busy (deref st a)" "s_created (deref st a) = t0"
    "s_data (deref st a) = take n file" "a < length (us_heap st)" "s_open (deref st a)" "s_size (deref st a) = int n"
    by (rule holds_session [OF assms(1) t tk])
  have q: "query_get (chunk_req dp u i file off m) ''offset'' = format_int off" by (simp add: chunk_req_def query_get_def)
  have parse: "parse_int64 (format_int off) = Some off" using assms(4,5) g(5,6) by (intro parse_format_int) auto
  have ne: "format_int off \<noteq> []" using parse by (auto simp: parse_int64_def)
  have handled: "handleAppend env ?r active = (case Append env a off (rq_body ?r) st of (st', sz, err) \<Rightarrow> (Some st', append_response st' a sz err))"
    using g(1) parse assms(4) by (simp add: handleAppend_def q ne Let_def)
  show thesis
  proof (cases "off = int n")
    case False
    then have "handleAppend env ?r active = (Some st, append_response st a (int n) (Some ErrOffsetMismatch))"
      unfolding handled using g(9,14) by (simp add: Append_def)
    then show thesis
      by (rule that) (use assms(1) g False in \<open>auto simp: append_response_def json_size_def\<close>)
  next
    case True
    obtain l where l: "rd_bytes (rq_body ?r) = take l (take (nat m) (drop n file))"
      using cut_bytes [of c "chunk_req dp u i file off m"] True by (auto simp: chunk_req_def section_bytes)
    have fits: "s_size (deref st a) + int (length (rd_bytes (rq_body ?r))) \<le> us_max st" unfolding l g(14) using g(6,7) by simp
    obtain k e where ap: "Append env a (s_size (deref st a)) (rq_body ?r) st = (set_session a (grown (take k (rd_bytes (rq_body ?r))) (deref st a)) st,
        s_size (grown (take k (rd_bytes (rq_body ?r))) (deref st a)), e)" "e = None \<or> e = Some ErrWriteChunk"
      "env_room env = None \<longrightarrow> take k (rd_bytes (rq_body ?r)) = rd_bytes (rq_body ?r) \<and> (rd_end (rq_body ?r) = IoEOF \<longrightarrow> e = None)"
      by (rule Append_chunk [OF g(3,12,9,13) assms(3) fits])
    define w where "w = take k (rd_bytes (rq_body ?r))"
    let ?st = "set_session a (grown w (deref st a)) st" and ?n = "n + length w"
    have w: "w = take (length w) (drop n file)" "?n \<le> length file" unfolding w_def l using g(7) by (auto simp: min_def)
    have data: "take n file @ w = take ?n file" using w(1) g(7) by (metis take_add)
    have inv: "upload_inv ?st" using Append_inv [OF g(3,12), of env "s_size (deref st a)" "rq_body ?r"] ap(1) assms(3)
      by (simp add: env_sane_def w_def)
    have "Get i owner ?st = Inr a" using g(8,12) by (auto simp: Get_def grown_def split: option.splits if_splits)
    then have hl: "holds i owner t0 ttl file ?n (Some ?st)"
      using inv g w(2) data by (auto simp: holds_def grown_def)
    have "s_size (grown w (deref st a)) = int ?n" by (simp add: grown_def g(14))
    with ap(1) have "Append env a (s_size (deref st a)) (rq_body ?r) st = (?st, int ?n, e)" unfolding w_def [symmetric] by simp
    then have ap': "Append env a off (rq_body ?r) st = (?st, int ?n, e)" using g(14) True by metis
    have res: "handleAppend env ?r active = (Some ?st, append_response ?st a (int ?n) e)"
      unfolding handled ap' by simp
    have "rs_status (append_response ?st a (int ?n) e) \<in> {200, 409} \<and> off < int ?n"
      if "c = None" "env_room env = None" "off < int (length file)" "0 < m"
    proof -
      have "w = take (nat m) (drop n file)" "e = None"
        using ap(3) that(1,2) True by (simp_all add: w_def cut_body_def chunk_req_def section_reader_def rd_bytes_def)
      then show ?thesis using that True by (simp add: append_response_def)
    qed
    then show thesis
      by (intro that [OF res hl]) (use ap(2) in \<open>auto simp: append_response_def json_size_def\<close>)
  qed
qed

lemma handleStatus_size:
  assumes "holds i owner t0 ttl file n active" "signed_in dp u owner"
  shows "\<exists>resp. handleStatus (cut_body c (session_req dp u ''GET'' (Some i) [] None)) active = (active, resp)
    \<and> rs_status resp = 200 \<and> json_size resp = Some (int n)"
proof -
  let ?r = "cut_body c (session_req dp u ''GET'' (Some i) [] None)"
  obtain t where t: "dp_auth dp (session_headers u None) = Some t" "HasScope t ''write''" "ownerIdentity t = owner"
    using assms(2) by (auto simp: signed_in_def)
  have tk: "rq_token ?r = dp_auth dp (session_headers u None)" "rq_path_id ?r = i" by simp_all
  from holds_session [OF assms(1) t tk] obtain st a where "getSession ?r active = Inr (st, a)" "s_size (deref st a) = int n" "active = Some st" by metis
  then show ?thesis by (simp add: handleStatus_def json_size_def)
qed

lemma foldl_Remove_frame:
  "us_files (foldl (\<lambda>st' a. Remove a st') st xs) \<subseteq> us_files st"
  "us_ttl (foldl (\<lambda>st' a. Remove a st') st xs) = us_ttl st" "us_dir (foldl (\<lambda>st' a. Remove a st') st xs) = us_dir st"
proof -
  show "us_files (foldl (\<lambda>st' a. Remove a st') st xs) \<subseteq> us_files st"
  proof (induction xs arbitrary: st)
    case (Cons a xs)
    have "us_files (foldl (\<lambda>st' a. Remove a st') (Remove a st) xs) \<subseteq> us_files (Remove a st)" by (rule Cons.IH)
    also have "\<dots> \<subseteq> us_files st" by (auto simp: us_files_Remove)
    finally show ?case by simp
  qed simp
  show "us_ttl (foldl (\<lambda>st' a. Remove a st') st xs) = us_ttl st" "us_dir (foldl (\<lambda>st' a. Remove a st') st xs) = us_dir st"
    by (induction xs arbitrary: st) simp_all
qed

lemma sweep_holds:
  assumes "holds i owner t0 ttl file n active" "now \<le> t0 + ttl"
  shows "holds i owner t0 ttl file n (map_option (SweepExpired now) active)"
proof -
  obtain st a where h: "active = Some st" "upload_inv st" "us_ttl st = ttl" "us_max st < 2 ^ 63" "int (length file) \<le> us_max st"
    "n \<le> length file" "Get i owner st = Inr a" "\<not> s_busy (deref st a)" "s_created (deref st a) = t0" "s_data (deref st a) = take n file"
    using assms(1) by (auto simp: holds_def)
  have "map_of (us_sessions st) i = Some a" using Get_some [OF h(7)] by simp
  from SweepExpired_exact [OF h(2) this, of now] h(3,9) assms(2)
  have "map_of (us_sessions (SweepExpired now st)) i = Some a" "deref (SweepExpired now st) a = deref st a" by simp_all
  moreover have "us_ttl (SweepExpired now st) = us_ttl st" "us_max (SweepExpired now st) = us_max st" by (simp_all add: SweepExpired_def foldl_Remove_frame)
  ultimately show ?thesis using h SweepExpired_inv [OF h(2), of now] by (auto simp: holds_def Get_def split: option.splits if_splits)
qed

text \<open>What a tolerable network may do, and what it does to a request that goes through.\<close>

fun harmless :: "'w deployment \<Rightarrow> uploader \<Rightarrow> string \<Rightarrow> bytes \<Rightarrow> time \<Rightarrow> net_event \<Rightarrow> bool" where
  "harmless dp u i file deadline (Late env r) \<longleftrightarrow>
     env_sane env \<and> (\<exists>c off m. 0 \<le> off \<and> off \<le> int (length file) \<and> r = cut_body c (chunk_req dp u i file off m))"
| "harmless dp u i file deadline (Sweep now) \<longleftrightarrow> now \<le> deadline"

definition tolerable :: "'w deployment \<Rightarrow> uploader \<Rightarrow> string \<Rightarrow> bytes \<Rightarrow> time \<Rightarrow> fate \<Rightarrow> bool" where
  "tolerable dp u i file deadline ft \<longleftrightarrow> (\<forall>e \<in> set (ft_events ft). harmless dp u i file deadline e) \<and> env_sane (ft_env ft)
     \<and> (\<forall>resp. ft_answer ft = FromProxy resp \<longrightarrow> 500 \<le> rs_status resp)"

definition smooth :: "fate \<Rightarrow> bool" where
  "smooth ft \<longleftrightarrow> env_room (ft_env ft) = None \<and> ft_open_ok ft \<and> ft_arrives ft \<and> ft_cut ft = None \<and> ft_answer ft = FromServer"

text \<open>Of eight requests in a row at most three are disturbed, and only requests about a session are.\<close>

definition calm :: "'w deployment \<Rightarrow> uploader \<Rightarrow> string \<Rightarrow> bytes \<Rightarrow> time \<Rightarrow> (nat \<Rightarrow> bool) \<Rightarrow> bool" where
  "calm dp u i file deadline bad \<longleftrightarrow> (\<forall>k r. tolerable dp u i file deadline (dp_net dp k r))
     \<and> (\<forall>k r. \<not> bad k \<or> \<not> has_prefix (rq_path r) ''/api/v1/uploads/'' \<longrightarrow> smooth (dp_net dp k r))
     \<and> (\<forall>k. card {j \<in> {k..<k + 8}. bad j} \<le> 3)"

lemma events_hold:
  assumes "holds i owner t0 ttl file n active" "signed_in dp u owner" "\<forall>e \<in> set es. harmless dp u i file (t0 + ttl) e"
  shows "\<exists>n'. n \<le> n' \<and> holds i owner t0 ttl file n' (fold net_event_step es active)"
  using assms(1,3)
proof (induction es arbitrary: n active)
  case (Cons e es)
  have "\<exists>n'. n \<le> n' \<and> holds i owner t0 ttl file n' (net_event_step e active)"
  proof (cases e)
    case (Late env r)
    then obtain c off m where "env_sane env" "0 \<le> off" "off \<le> int (length file)" "r = cut_body c (chunk_req dp u i file off m)"
      using Cons.prems(2) by auto
    with Late handleAppend_chunk [OF Cons.prems(1) assms(2), of env off c m] show ?thesis by (metis fst_conv net_event_step.simps(1))
  next
    case (Sweep now)
    then show ?thesis using Cons.prems sweep_holds [OF Cons.prems(1), of now] by auto
  qed
  then obtain n1 where "n \<le> n1" "holds i owner t0 ttl file n1 (net_event_step e active)" by blast
  moreover from this Cons.IH [of n1 "net_event_step e active"] Cons.prems(2) obtain n2 where
    "n1 \<le> n2" "holds i owner t0 ttl file n2 (fold net_event_step es (net_event_step e active))" by auto
  ultimately show ?case by (intro exI [of _ n2]) simp
qed auto

lemma serve_chunk:
  "serve dp ft (cut_body c (chunk_req dp u i file off m)) active w =
    (case handleAppend (ft_env ft) (cut_body c (chunk_req dp u i file off m)) active of (a', resp) \<Rightarrow> (a', w, Responded resp))"
  "serve dp ft (cut_body c (session_req dp u ''GET'' (Some i) [] None)) active w =
    (case handleStatus (cut_body c (session_req dp u ''GET'' (Some i) [] None)) active of (a', resp) \<Rightarrow> (a', w, Responded resp))"
  by (simp_all add: serve_def chunk_req_def)

text \<open>One exchange about the session: its outcome is lost, a server error, or the size.\<close>

definition exchange :: "nat \<Rightarrow> response option \<Rightarrow> bool" where
  "exchange n resp \<longleftrightarrow> (\<forall>q. resp = Some q \<longrightarrow> 500 \<le> rs_status q \<or> rs_status q \<in> {200, 409} \<and> json_size q = Some (int n))"

lemma Do_chunk:
  assumes "holds i owner t0 ttl file n (wd_store wd)" "signed_in dp u owner" "calm dp u i file (t0 + ttl) bad"
    "0 \<le> off" "off \<le> int n" "off < int (length file)" "0 < m"
  obtains wd' resp n' where "Do dp (chunk_req dp u i file off m) wd = (wd', resp)" "wd_app wd' = wd_app wd" "wd_count wd' = wd_count wd + 1"
    "holds i owner t0 ttl file n' (wd_store wd')" "n \<le> n'" "exchange n' resp"
    "\<not> bad (wd_count wd) \<longrightarrow> (\<exists>q. resp = Some q \<and> rs_status q \<in> {200, 409}) \<and> off < int n'"
proof -
  let ?r = "chunk_req dp u i file off m"
  let ?ft = "dp_net dp (wd_count wd) ?r"
  let ?active = "fold net_event_step (ft_events ?ft) (wd_store wd)"
  have tol: "tolerable dp u i file (t0 + ttl) ?ft" using assms(3) by (simp add: calm_def)
  have smooth: "smooth ?ft" if "\<not> bad (wd_count wd)" using assms(3) that by (simp add: calm_def)
  from events_hold [OF assms(1,2)] tol obtain n1 where n1: "n \<le> n1" "holds i owner t0 ttl file n1 ?active"
    unfolding tolerable_def by blast
  have env: "env_sane (ft_env ?ft)" and off: "off \<le> int (length file)" using tol assms(6) by (simp_all add: tolerable_def)
  obtain active' resp n' where ap: "handleAppend (ft_env ?ft) (cut_body (ft_cut ?ft) ?r) ?active = (active', resp)"
    "holds i owner t0 ttl file n' active'" "n1 \<le> n'" "json_size resp = Some (int n')" "rs_status resp = 500 \<or> rs_status resp \<in> {200, 409}"
    "ft_cut ?ft = None \<and> env_room (ft_env ?ft) = None \<and> off \<le> int n1 \<and> off < int (length file) \<and> 0 < m
      \<longrightarrow> rs_status resp \<in> {200, 409} \<and> off < int n'"
    by (rule handleAppend_chunk [OF n1(2) assms(2) env assms(4) off])
  let ?arr = "ft_arrives ?ft"
  have proxy: "ft_answer ?ft = FromProxy q \<Longrightarrow> 500 \<le> rs_status q" for q using tol by (simp add: tolerable_def)
  obtain ans where ans: "Do dp ?r wd = (\<lparr>wd_count = wd_count wd + 1, wd_store = if ?arr then active' else ?active, wd_app = wd_app wd\<rparr>, ans)"
    "ans = (case ft_answer ?ft of NoAnswer \<Rightarrow> None | FromProxy q \<Rightarrow> Some q | FromServer \<Rightarrow> if ?arr then Some resp else None)"
    using ap(1) by (auto simp: Do_def Let_def serve_chunk split: answer.splits)
  show thesis
  proof (rule that [OF ans(1), of "if ?arr then n' else n1"])
    show "exchange (if ?arr then n' else n1) ans" unfolding exchange_def ans(2) using ap(4,5) proxy by (auto split: answer.splits if_splits)
  qed (use n1 ap smooth assms(5-7) ans(2) in \<open>auto simp: smooth_def split: answer.splits\<close>)
qed

lemma Do_status:
  assumes "holds i owner t0 ttl file n (wd_store wd)" "signed_in dp u owner" "calm dp u i file (t0 + ttl) bad"
  obtains wd' resp n' where "Do dp (session_req dp u ''GET'' (Some i) [] None) wd = (wd', resp)" "wd_app wd' = wd_app wd"
    "wd_count wd' = wd_count wd + 1" "holds i owner t0 ttl file n' (wd_store wd')" "n \<le> n'"
    "\<forall>q. resp = Some q \<longrightarrow> rs_status q = 200 \<longrightarrow> json_size q = Some (int n')"
    "\<not> bad (wd_count wd) \<longrightarrow> (\<exists>q. resp = Some q \<and> rs_status q = 200)"
proof -
  let ?r = "session_req dp u ''GET'' (Some i) [] None"
  let ?ft = "dp_net dp (wd_count wd) ?r"
  let ?active = "fold net_event_step (ft_events ?ft) (wd_store wd)"
  have tol: "tolerable dp u i file (t0 + ttl) ?ft" using assms(3) by (simp add: calm_def)
  have smooth: "smooth ?ft" if "\<not> bad (wd_count wd)" using assms(3) that by (simp add: calm_def)
  from events_hold [OF assms(1,2)] tol obtain n1 where n1: "n \<le> n1" "holds i owner t0 ttl file n1 ?active"
    unfolding tolerable_def by blast
  obtain resp where hs: "handleStatus (cut_body (ft_cut ?ft) ?r) ?active = (?active, resp)" "rs_status resp = 200" "json_size resp = Some (int n1)"
    using handleStatus_size [OF n1(2) assms(2)] by blast
  obtain ans where ans: "Do dp ?r wd = (\<lparr>wd_count = wd_count wd + 1, wd_store = ?active, wd_app = wd_app wd\<rparr>, ans)"
    "ans = (case ft_answer ?ft of NoAnswer \<Rightarrow> None | FromProxy q \<Rightarrow> Some q | FromServer \<Rightarrow> if ft_arrives ?ft then Some resp else None)"
    using hs(1) by (auto simp: Do_def Let_def serve_chunk split: answer.splits)
  have proxy: "ft_answer ?ft = FromProxy q \<Longrightarrow> 500 \<le> rs_status q" for q using tol by (simp add: tolerable_def)
  show thesis
  proof (rule that [OF ans(1), of n1])
    show "\<forall>q. ans = Some q \<longrightarrow> rs_status q = 200 \<longrightarrow> json_size q = Some (int n1)"
      unfolding ans(2) using hs(3) proxy by (fastforce split: answer.splits if_splits)
  qed (use n1 hs smooth ans(2) in \<open>auto simp: smooth_def split: answer.splits\<close>)
qed

text \<open>Counting the requests of a stretch that were disturbed and those that were not.\<close>

definition bads :: "(nat \<Rightarrow> bool) \<Rightarrow> nat \<Rightarrow> nat \<Rightarrow> nat" where "bads bad k l = card {j \<in> {k..<l}. bad j}"

lemma bads_same [simp]: "bads bad k k = 0"
  by (simp add: bads_def)

lemma bads_split: "k \<le> l \<Longrightarrow> l \<le> m \<Longrightarrow> bads bad k m = bads bad k l + bads bad l m"
proof -
  assume "k \<le> l" "l \<le> m"
  then have "{j \<in> {k..<m}. bad j} = {j \<in> {k..<l}. bad j} \<union> {j \<in> {l..<m}. bad j}" by auto
  moreover have "{j \<in> {k..<l}. bad j} \<inter> {j \<in> {l..<m}. bad j} = {}" by auto
  ultimately show ?thesis by (simp add: bads_def card_Un_disjoint)
qed

lemma bads_one: "bads bad k (Suc k) = (if bad k then 1 else 0)"
proof -
  have "{j \<in> {k..<Suc k}. bad j} = (if bad k then {k} else {})" by auto
  then show ?thesis by (simp add: bads_def)
qed

lemma bads_total: "k \<le> l \<Longrightarrow> bads bad k l + bads (\<lambda>j. \<not> bad j) k l = l - k"
proof -
  assume "k \<le> l"
  have "card {k..<l} = card ({j \<in> {k..<l}. bad j} \<union> {j \<in> {k..<l}. \<not> bad j})" by (rule arg_cong [of _ _ card]) auto
  also have "\<dots> = bads bad k l + bads (\<lambda>j. \<not> bad j) k l" unfolding bads_def by (rule card_Un_disjoint) auto
  finally show ?thesis by simp
qed

text \<open>In a calm network four disturbed requests need more than four others among them.\<close>

lemma calm_stretch:
  assumes "calm dp u i file deadline bad" "k \<le> l" "bads (\<lambda>j. \<not> bad j) k l \<le> 4"
  shows "bads bad k l \<le> 3"
proof (cases "l - k < 8")
  case True
  have "bads bad k l \<le> bads bad k (k + 8)" unfolding bads_def using True by (intro card_mono) auto
  also have "\<dots> \<le> 3" using assms(1) by (simp add: calm_def bads_def)
  finally show ?thesis .
next
  case False
  have "bads bad k (k + 8) \<le> 3" using assms(1) by (simp add: calm_def bads_def)
  then have "5 \<le> bads (\<lambda>j. \<not> bad j) k (k + 8)" using bads_total [of k "k + 8" bad] by simp
  also have "\<dots> \<le> bads (\<lambda>j. \<not> bad j) k l" using False assms(2) bads_split [of k "k + 8" l "\<lambda>j. \<not> bad j"] by simp
  finally show ?thesis using assms(3) by simp
qed

lemma session_size_live:
  assumes "signed_in dp u owner" "calm dp u i file (t0 + ttl) bad" "holds i owner t0 ttl file n (wd_store wd)"
    "bads bad (wd_count wd) (wd_count wd + k) < k"
  obtains wd' n' where "session_size_loop dp u i k wd = (wd', Inr (int n'))" "wd_app wd' = wd_app wd" "n \<le> n'"
    "holds i owner t0 ttl file n' (wd_store wd')" "wd_count wd \<le> wd_count wd'" "bads (\<lambda>j. \<not> bad j) (wd_count wd) (wd_count wd') \<le> 1"
proof -
  have "\<exists>wd' n'. session_size_loop dp u i k wd = (wd', Inr (int n')) \<and> wd_app wd' = wd_app wd \<and> n \<le> n'
    \<and> holds i owner t0 ttl file n' (wd_store wd') \<and> wd_count wd \<le> wd_count wd' \<and> bads (\<lambda>j. \<not> bad j) (wd_count wd) (wd_count wd') \<le> 1"
    using assms(3,4)
  proof (induction k arbitrary: wd n)
    case (Suc k)
    obtain wd1 resp n1 where d: "Do dp (session_req dp u ''GET'' (Some i) [] None) wd = (wd1, resp)" "wd_app wd1 = wd_app wd"
      "wd_count wd1 = wd_count wd + 1" "holds i owner t0 ttl file n1 (wd_store wd1)" "n \<le> n1"
      "\<forall>q. resp = Some q \<longrightarrow> rs_status q = 200 \<longrightarrow> json_size q = Some (int n1)"
      "\<not> bad (wd_count wd) \<longrightarrow> (\<exists>q. resp = Some q \<and> rs_status q = 200)"
      by (rule Do_status [OF Suc.prems(1) assms(1,2)])
    show ?case
    proof (cases "\<exists>q. resp = Some q \<and> rs_status q = 200")
      case True
      then have "session_size_loop dp u i (Suc k) wd = (wd1, Inr (int n1))" using d(1,6) by (auto simp: sessionRequest_def)
      with d(2-5) show ?thesis by (auto simp: bads_one)
    next
      case False
      then have bad: "bad (wd_count wd)" using d(7) by blast
      have step: "session_size_loop dp u i (Suc k) wd = session_size_loop dp u i k wd1"
        using d(1) False by (auto simp: sessionRequest_def split: option.splits)
      have "bads bad (wd_count wd1) (wd_count wd1 + k) < k"
        using Suc.prems(2) bads_split [of "wd_count wd" "Suc (wd_count wd)" "wd_count wd + Suc k" bad] bad d(3) by (simp add: bads_one)
      from Suc.IH [OF d(4) this] obtain wd' n' where w: "session_size_loop dp u i k wd1 = (wd', Inr (int n'))" "wd_app wd' = wd_app wd1"
        "n1 \<le> n'" "holds i owner t0 ttl file n' (wd_store wd')" "wd_count wd1 \<le> wd_count wd'"
        "bads (\<lambda>j. \<not> bad j) (wd_count wd1) (wd_count wd') \<le> 1" by blast
      have "bads (\<lambda>j. \<not> bad j) (wd_count wd) (wd_count wd') \<le> 1"
        using bads_split [of "wd_count wd" "Suc (wd_count wd)" "wd_count wd'" "\<lambda>j. \<not> bad j"] bad w(5,6) d(3) by (simp add: bads_one)
      with w d(2,3,5) step show ?thesis by auto
    qed
  qed simp
  then show thesis using that by blast
qed

lemma appendChunk_live:
  assumes "signed_in dp u owner" "calm dp u i file (t0 + ttl) bad" "holds i owner t0 ttl file n (wd_store wd)"
    "0 \<le> off" "off \<le> int n" "off < int (length file)" "0 < m"
  obtains wd' n' where "appendChunk dp u i off (section_reader file off m) wd = (wd', Inr (int n'))" "wd_app wd' = wd_app wd" "n \<le> n'"
    "holds i owner t0 ttl file n' (wd_store wd')" "wd_count wd < wd_count wd'"
    "off < int n' \<or> bads (\<lambda>j. \<not> bad j) (wd_count wd) (wd_count wd') \<le> 1 \<and> 1 \<le> bads bad (wd_count wd) (wd_count wd')"
proof -
  obtain wd1 resp n1 where d: "Do dp (chunk_req dp u i file off m) wd = (wd1, resp)" "wd_app wd1 = wd_app wd" "wd_count wd1 = wd_count wd + 1"
    "holds i owner t0 ttl file n1 (wd_store wd1)" "n \<le> n1" "exchange n1 resp"
    "\<not> bad (wd_count wd) \<longrightarrow> (\<exists>q. resp = Some q \<and> rs_status q \<in> {200, 409}) \<and> off < int n1"
    by (rule Do_chunk [OF assms(3,1,2,4-7)])
  have req: "sessionRequest dp u ''PATCH'' (Some i) [(''offset'', format_int off)] (Some (section_reader file off m)) wd = (wd1, resp)"
    using d(1) by (simp add: sessionRequest_def chunk_req_def)
  show thesis
  proof (cases "\<exists>q. resp = Some q \<and> rs_status q \<in> {200, 409}")
    case True
    then have "appendChunk dp u i off (section_reader file off m) wd = (wd1, Inr (int n1))"
      using d(6) by (auto simp: appendChunk_def req exchange_def)
    then show thesis using d by (intro that) (auto simp: bads_one)
  next
    case False
    then have bad: "bad (wd_count wd)" using d(7) by blast
    have sz: "appendChunk dp u i off (section_reader file off m) wd = sessionSize dp u i wd1"
      using False d(6) by (auto simp: appendChunk_def req exchange_def split: option.splits)
    have "bads bad (wd_count wd1) (wd_count wd1 + 4) \<le> bads bad (wd_count wd1) (wd_count wd1 + 8)"
      unfolding bads_def by (intro card_mono) auto
    also have "\<dots> \<le> 3" using assms(2) by (simp add: calm_def bads_def)
    finally have few: "bads bad (wd_count wd1) (wd_count wd1 + 4) < 4" by simp
    obtain wd' n' where w: "session_size_loop dp u i 4 wd1 = (wd', Inr (int n'))" "wd_app wd' = wd_app wd1" "n1 \<le> n'"
      "holds i owner t0 ttl file n' (wd_store wd')" "wd_count wd1 \<le> wd_count wd'" "bads (\<lambda>j. \<not> bad j) (wd_count wd1) (wd_count wd') \<le> 1"
      by (rule session_size_live [OF assms(1,2) d(4) few])
    note split = bads_split [of "wd_count wd" "Suc (wd_count wd)" "wd_count wd'"]
    have "bads (\<lambda>j. \<not> bad j) (wd_count wd) (wd_count wd') \<le> 1 \<and> 1 \<le> bads bad (wd_count wd) (wd_count wd')"
      using split [of bad] split [of "\<lambda>j. \<not> bad j"] bad w(5,6) d(3) by (simp add: bads_one)
    then show thesis
      by (intro that [of wd' n']) (use w d(2,3,5) sz in \<open>auto simp: sessionSize_def retryAttempts_def\<close>)
  qed
qed

lemma sendChunks_live:
  assumes "signed_in dp u owner" "calm dp u i file (t0 + ttl) bad" "0 < chunkSize u"
    "holds i owner t0 ttl file n (wd_store wd)" "0 \<le> off" "off \<le> int n"
    "k0 \<le> wd_count wd" "bads (\<lambda>j. \<not> bad j) k0 (wd_count wd) \<le> failures" "failures \<le> bads bad k0 (wd_count wd)" "failures \<le> 3"
  shows "\<exists>wd'. sendChunks dp u i file off failures wd = Some (wd', None) \<and> wd_app wd' = wd_app wd
    \<and> holds i owner t0 ttl file (length file) (wd_store wd')"
  using assms(4-10)
proof (induction "(nat (int (length file) - off), 4 - failures)" arbitrary: n wd off failures k0 rule: wf_induct_rule [OF wf_lex_prod [OF wf_less_than wf_less_than]])
  case 1
  note IH = 1(1) and h = 1(2) and off = 1(3,4) and streak = 1(5-8)
  have nl: "n \<le> length file" using h by (auto simp: holds_def)
  show ?case
  proof (cases "off < int (length file)")
    case False
    then have "n = length file" using off(2) nl by simp
    with False h show ?thesis by (subst sendChunks.simps) simp
  next
    case True
    let ?m = "min (chunkSize u) (int (length file) - off)"
    have "0 < ?m" using assms(3) True by simp
    then obtain wd1 n1 where a: "appendChunk dp u i off (section_reader file off ?m) wd = (wd1, Inr (int n1))" "wd_app wd1 = wd_app wd" "n \<le> n1"
      "holds i owner t0 ttl file n1 (wd_store wd1)" "wd_count wd < wd_count wd1"
      "off < int n1 \<or> bads (\<lambda>j. \<not> bad j) (wd_count wd) (wd_count wd1) \<le> 1 \<and> 1 \<le> bads bad (wd_count wd) (wd_count wd1)"
      by (rule appendChunk_live [OF assms(1,2) h off True])
    show ?thesis
    proof (cases "off < int n1")
      case prog: True
      have "((nat (int (length file) - int n1), 4 - 0), (nat (int (length file) - off), 4 - failures)) \<in> less_than <*lex*> less_than"
        using prog True by simp
      from IH [OF this a(4), of "wd_count wd1"] show ?thesis using True a(1,2) prog by (subst sendChunks.simps) simp
    next
      case stuck: False
      then have same: "int n1 = off" using a(3) off(2) by simp
      note split = bads_split [OF streak(1) less_imp_le [OF a(5)]]
      have goods: "bads (\<lambda>j. \<not> bad j) k0 (wd_count wd1) \<le> failures + 1" and bds: "failures + 1 \<le> bads bad k0 (wd_count wd1)"
        using split [of bad] split [of "\<lambda>j. \<not> bad j"] a(6) stuck streak by simp_all
      have k0: "k0 \<le> wd_count wd1" using streak(1) a(5) by simp
      have "failures + 1 \<le> 3" using calm_stretch [OF assms(2) k0] goods bds streak(4) by simp
      then have f: "failures + 1 < retryAttempts" "failures + 1 \<le> 3" by (simp_all add: retryAttempts_def)
      have "((nat (int (length file) - off), 4 - (failures + 1)), (nat (int (length file) - off), 4 - failures)) \<in> less_than <*lex*> less_than"
        using streak(4) by simp
      from IH [OF this a(4) off(1) _ k0 goods bds f(2)] show ?thesis
        using True a(1,2) same f(1) stuck by (subst sendChunks.simps) simp
    qed
  qed
qed

text \<open>The first request opens a session under a new id.\<close>

definition opens :: "'w deployment \<Rightarrow> uploader \<Rightarrow> 'w world \<Rightarrow> upload_store \<Rightarrow> time \<Rightarrow> string \<Rightarrow> bool" where
  "opens dp u wd st t0 i \<longleftrightarrow> (let ft = dp_net dp (wd_count wd) (session_req dp u ''POST'' None [] None) in
     smooth ft \<and> ft_events ft = [] \<and> ft_rnd ft = Some i \<and> ft_now ft = t0 \<and> i \<noteq> []
     \<and> us_dir st @ ''/'' @ i @ ''.spool'' \<notin> us_files st)"

lemma Create_holds:
  assumes "upload_inv st" "int (length file) \<le> us_max st" "us_max st < 2 ^ 63" "us_dir st @ ''/'' @ i @ ''.spool'' \<notin> us_files st"
  obtains st' a where "Create t0 (Some i) True owner st = (st', Inr a)" "holds i owner t0 (us_ttl st) file 0 (Some st')" "s_id (deref st' a) = i"
proof -
  let ?sw = "SweepExpired t0 st"
  have frame: "us_files ?sw \<subseteq> us_files st" "us_ttl ?sw = us_ttl st" "us_max ?sw = us_max st" "us_dir ?sw = us_dir st"
    by (simp_all add: SweepExpired_def foldl_Remove_frame)
  then have fresh: "us_dir ?sw @ ''/'' @ i @ ''.spool'' \<notin> us_files ?sw" using assms(4) by auto
  let ?p = "us_dir ?sw @ ''/'' @ i @ ''.spool''" and ?a = "length (us_heap ?sw)"
  let ?s = "\<lparr>s_id = i, s_owner = owner, s_path = ?p, s_created = t0, s_data = [], s_open = True, s_size = 0, s_busy = False\<rparr>"
  let ?st = "?sw\<lparr>us_heap := us_heap ?sw @ [?s], us_files := insert ?p (us_files ?sw), us_sessions := AList.update i ?a (us_sessions ?sw)\<rparr>"
  have c: "Create t0 (Some i) True owner st = (?st, Inr ?a)" using fresh by (simp add: Create_def Let_def)
  have inv: "upload_inv ?st" using Create_inv [OF assms(1), of t0 "Some i" True owner] c by simp
  have d: "deref ?st ?a = ?s" by (simp add: deref_def)
  have "Get i owner ?st = Inr ?a" using d by (simp add: Get_def update_conv)
  with inv d frame assms(2,3) have "holds i owner t0 (us_ttl st) file 0 (Some ?st)" by (auto simp: holds_def)
  with c d show thesis by (intro that [of ?st ?a]) simp_all
qed

lemma createSession_live:
  assumes "opens dp u wd st t0 i" "signed_in dp u owner" "wd_store wd = Some st" "upload_inv st" "int (length file) \<le> us_max st" "us_max st < 2 ^ 63"
  obtains wd1 where "createSession dp u wd = (wd1, Inr i)" "wd_app wd1 = wd_app wd" "holds i owner t0 (us_ttl st) file 0 (wd_store wd1)"
proof -
  let ?r = "session_req dp u ''POST'' None [] None"
  let ?ft = "dp_net dp (wd_count wd) ?r"
  note op = assms(1) [unfolded opens_def Let_def smooth_def]
  obtain st' a where c: "Create t0 (Some i) True owner st = (st', Inr a)" "holds i owner t0 (us_ttl st) file 0 (Some st')" "s_id (deref st' a) = i"
    by (rule Create_holds [OF assms(4-6)]) (use op in blast)+
  obtain tk where tk: "dp_auth dp (session_headers u None) = Some tk" "HasScope tk ''write''" "ownerIdentity tk = owner"
    using assms(2) by (auto simp: signed_in_def)
  have own: "requireOwner ?r = Inr owner" using tk by (simp add: requireOwner_def session_req_def)
  have cut: "cut_body (ft_cut ?ft) ?r = ?r" using op by (simp add: cut_body_def)
  let ?resp = "\<lparr>rs_status = 201, rs_body = [(''id'', JStr i), (''size'', JInt 0), (''expires_at'', JTime (Expires (deref st' a) (us_ttl st')))]\<rparr>"
  have "handleCreate t0 (Some i) True ?r (Some st) = (Some st', ?resp)" using own c by (simp add: handleCreate_def)
  then have "serve dp ?ft ?r (Some st) (wd_app wd) = (Some st', wd_app wd, Responded ?resp)"
    using op by (simp add: serve_def session_req_def)
  then have "Do dp ?r wd = (\<lparr>wd_count = wd_count wd + 1, wd_store = Some st', wd_app = wd_app wd\<rparr>, Some ?resp)"
    using op assms(3) by (simp add: Do_def Let_def cut)
  then have "createSession dp u wd = (\<lparr>wd_count = wd_count wd + 1, wd_store = Some st', wd_app = wd_app wd\<rparr>, Inr i)"
    using op by (simp add: createSession_def sessionRequest_def json_id_def)
  then show thesis by (rule that) (use c in simp_all)
qed

lemma has_prefix_shorter: "has_prefix s (p @ q) \<Longrightarrow> has_prefix s p"
  by (auto simp: has_prefix_iff)

lemma finalize_live:
  assumes "holds i owner t0 ttl file (length file) (wd_store wd)" "signed_in dp u owner" "calm dp u i file (t0 + ttl) bad" "upload_endpoint t"
    "dp_auth dp (upload_headers u header) = Some tk" "HasScope tk ''write''" "ownerIdentity tk = owner" "i \<noteq> []" "dp_sha dp file \<noteq> []"
    "dp_endpoint dp (finalize_request dp u t header i (dp_sha dp file)) (wd_app wd) (spool_reader file) (int (length file)) = (w', Responded resp)"
  shows "\<exists>wd'. finalize dp u t header i (dp_sha dp file) wd = (wd', Inr resp) \<and> wd_app wd' = w'"
proof -
  let ?r = "finalize_request dp u t header i (dp_sha dp file)"
  let ?ft = "dp_net dp (wd_count wd) ?r"
  let ?active = "fold net_event_step (ft_events ?ft) (wd_store wd)"
  have tol: "tolerable dp u i file (t0 + ttl) ?ft" using assms(3) by (simp add: calm_def)
  have path: "\<not> has_prefix (rq_path ?r) ''/api/v1/uploads/''"
    using assms(4) has_prefix_shorter [of _ "''/api/v1/uploads''" "''/''"] by (auto simp: finalize_request_def upload_endpoint_def)
  then have sm: "smooth ?ft" using assms(3) by (simp add: calm_def)
  from events_hold [OF assms(1,2)] tol obtain n1 where "length file \<le> n1" "holds i owner t0 ttl file n1 ?active"
    unfolding tolerable_def by blast
  then obtain st a where h: "?active = Some st" "upload_inv st" "Get i owner st = Inr a" "\<not> s_busy (deref st a)" "s_data (deref st a) = file"
    by (auto simp: holds_def)
  have a: "a < length (us_heap st)" by (rule Get_valid [OF h(2,3)])
  have sz: "s_size (deref st a) = int (length file)" using session_ok_deref [OF h(2) a] h(5) by (simp add: session_ok_def)
  have fl: "s_path (deref st a) \<in> us_files st" using h(2) Get_some [OF h(3)] by (auto simp: upload_inv_def entry_ok_def dest!: map_of_SomeD)
  let ?st1 = "set_session a ((deref st a)\<lparr>s_busy := True\<rparr>) st"
  have bf: "BeginFinalize True a st = (?st1, Inr (file, int (length file)))" using h sz fl by (simp add: BeginFinalize_def)
  have own: "requireOwner ?r = Inr owner" using assms(5-7) by (simp add: requireOwner_def finalize_request_def)
  have empty: "bodyEmpty ?r" by (simp add: bodyEmpty_def finalize_request_def)
  have "finalize_begin (\<lambda>b. Some (dp_sha dp b)) True ?r (Some st) = (Some ?st1, RunWith a file (int (length file)))"
    using assms(4,8,9) own empty bf h(3) finalize_request_finalizing [OF assms(4,8,9), of dp u header]
    by (simp add: finalize_begin_def Let_def finalizing_def equal_fold_def)
  then have "ResolveSessionBody (dp_endpoint dp ?r) (\<lambda>b. Some (dp_sha dp b)) True ?r (Some st) (wd_app wd) =
      (Some (finalize_end a (Responded resp) ?st1), w', Responded resp)"
    using assms(10) by (simp add: ResolveSessionBody_def)
  then have "serve dp ?ft ?r ?active (wd_app wd) = (Some (finalize_end a (Responded resp) ?st1), w', Responded resp)"
    using sm h(1) assms(8,9) by (subst serve_finalizing [OF finalize_request_finalizing [OF assms(4,8,9)]]) (simp_all add: smooth_def)
  moreover have "cut_body (ft_cut ?ft) ?r = ?r" using sm by (simp add: cut_body_def smooth_def)
  ultimately have "Do dp ?r wd = (\<lparr>wd_count = wd_count wd + 1, wd_store = Some (finalize_end a (Responded resp) ?st1), wd_app = w'\<rparr>, Some resp)"
    using sm by (simp add: Do_def Let_def smooth_def)
  then show ?thesis by (simp add: finalize_def)
qed

text \<open>The specification: one request with the whole file over a network that delivers it.\<close>

definition perfect :: fate where
  "perfect = \<lparr>ft_events = [], ft_now = 0, ft_rnd = None, ft_open_ok = True, ft_env = \<lparr>env_room = None, env_truncate_ok = True, env_seek_ok = True\<rparr>,
     ft_arrives = True, ft_cut = None, ft_answer = FromServer\<rparr>"

definition undisturbed :: "'w deployment \<Rightarrow> 'w deployment" where
  "undisturbed dp = dp\<lparr>dp_net := \<lambda>k r. perfect\<rparr>"

text \<open>An endpoint that does not care how its body was brought: two requests with the same method, path and headers and the same query but for the
  two parameters of the session protocol have the same effect on the same body, provided each says that it has one, by a length
  that is not zero or by naming a session.\<close>

definition names_body :: "request \<Rightarrow> int \<Rightarrow> bool" where
  "names_body r n \<longleftrightarrow> n \<noteq> 0 \<or> query_get r ''upload_session'' \<noteq> []"

definition same_upload :: "request \<Rightarrow> request \<Rightarrow> bool" where
  "same_upload r r' \<longleftrightarrow> rq_method r = rq_method r' \<and> rq_path r = rq_path r' \<and> rq_headers r = rq_headers r'
     \<and> (\<forall>k. k \<notin> {''upload_session'', ''upload_sha256''} \<longrightarrow> query_get r k = query_get r' k)"

definition transport_blind :: "(request \<Rightarrow> 'w \<Rightarrow> reader \<Rightarrow> int \<Rightarrow> 'w \<times> endpoint_result) \<Rightarrow> bool" where
  "transport_blind endpoint \<longleftrightarrow> (\<forall>r r' w b n n'. same_upload r r' \<longrightarrow> names_body r n \<longrightarrow> names_body r' n' \<longrightarrow> endpoint r w b n = endpoint r' w b n')"

text \<open>The handlers of artifact uploads as such an endpoint: the path says the project and the slot, the middleware has put the body and its
  length into the request, and \<open>render\<close> writes the reply down.\<close>

definition artifact_endpoint :: "(art_env \<Rightarrow> time \<Rightarrow> stage option \<Rightarrow> project \<Rightarrow> art_route \<Rightarrow> request \<Rightarrow> art_state \<Rightarrow> art_state \<times> art_reply)
    \<Rightarrow> art_env \<Rightarrow> time \<Rightarrow> (string \<Rightarrow> project \<times> art_route) \<Rightarrow> (art_reply \<Rightarrow> response) \<Rightarrow> request \<Rightarrow> art_state \<Rightarrow> reader \<Rightarrow> int \<Rightarrow> art_state \<times> endpoint_result" where
  "artifact_endpoint handler env now route render r w b n =
     (case route (rq_path r) of (project, rt) \<Rightarrow>
        (case handler env now None project rt (r\<lparr>rq_body := b, rq_content_length := n\<rparr>) w of (w', reply) \<Rightarrow> (w', Responded (render reply))))"

lemma storeUpload_blind:
  assumes "rq_body r = rq_body r'" "names_body r (rq_content_length r)" "names_body r' (rq_content_length r')"
  shows "storeUpload env fail r pid s = storeUpload env fail r' pid s"
proof -
  have "hashRefRequest r = None" "hashRefRequest r' = None"
    using assms(2,3) by (auto simp: hashRefRequest_def names_body_def SessionParam_def)
  with assms(1) show ?thesis by (simp add: storeUpload_def)
qed

lemma artifact_endpoint_blind:
  assumes "handler \<in> {UploadArtifact, UploadMultiPlatformArtifact}"
  shows "transport_blind (artifact_endpoint handler env now route render)"
  unfolding transport_blind_def
proof (intro allI impI)
  fix r r' w b n n'
  assume same: "same_upload r r'" and body: "names_body r n" "names_body r' n'"
  let ?r = "r\<lparr>rq_body := b, rq_content_length := n\<rparr>" and ?r' = "r'\<lparr>rq_body := b, rq_content_length := n'\<rparr>"
  have q: "query_get ?r k = query_get ?r' k" if "k \<notin> {''upload_session'', ''upload_sha256''}" for k
    using same that by (simp add: same_upload_def query_get_def)
  have h: "header_get ?r k = header_get ?r' k" for k using same by (simp add: same_upload_def header_get_def)
  have kind: "artifactKind ?r = artifactKind ?r'" using q [of "''kind''"] h by (simp add: artifactKind_def)
  have plats: "query_get ?r ''platforms'' = query_get ?r' ''platforms''" by (rule q) simp
  have store: "storeUpload env fail ?r pid s = storeUpload env fail ?r' pid s" for fail pid s
    using body by (intro storeUpload_blind) (simp_all add: names_body_def query_get_def)
  have "handler env now None project rt ?r w = handler env now None project rt ?r' w" for project rt
    using assms
  proof (elim insertE emptyE)
    assume "handler = UploadArtifact"
    then show ?thesis by (simp only:) (unfold UploadArtifact_def kind store h, rule refl)
  next
    assume "handler = UploadMultiPlatformArtifact"
    then show ?thesis by (simp only:) (unfold UploadMultiPlatformArtifact_def kind plats store h, rule refl)
  qed
  moreover have "rq_path r = rq_path r'" using same by (simp add: same_upload_def)
  ultimately show "artifact_endpoint handler env now route render r w b n = artifact_endpoint handler env now route render r' w b n'"
    by (simp add: artifact_endpoint_def)
qed

lemma direct_undisturbed:
  assumes "upload_endpoint t" "map_of (tg_query t) ''upload_session'' = None"
    "direct (undisturbed dp) u t header body wd = (wd2, Inr resp)"
  shows "dp_endpoint dp (new_request dp (tg_method t) (tg_path t) (tg_query t) [] (upload_headers u header) (Some body)) (wd_app wd) body (- 1)
    = (wd_app wd2, Responded resp)"
proof -
  let ?r = "new_request dp (tg_method t) (tg_path t) (tg_query t) [] (upload_headers u header) (Some body)"
  have r: "new_request (undisturbed dp) (tg_method t) (tg_path t) (tg_query t) [] (upload_headers u header) (Some body) = ?r"
    by (simp add: new_request_def undisturbed_def)
  have cut: "cut_body None ?r = ?r" by (simp add: cut_body_def)
  have path: "tg_path t \<noteq> ''/api/v1/uploads''" "tg_path t \<noteq> ''/api/v1/uploads/''" "tg_path t \<noteq> ''/api/v1/server-info'' \<or> tg_method t \<noteq> ''GET''"
    using assms(1) by (auto simp: upload_endpoint_def has_prefix_def mutatingMethod_def)
  have body: "rq_body ?r = body" by (simp add: new_request_def)
  have "query_get ?r ''upload_session'' = []" using assms(2) by (simp add: query_get_def)
  then have "serve (undisturbed dp) perfect ?r active w =
      (case dp_endpoint dp ?r w body (- 1) of (w', res) \<Rightarrow> (active, w', res))" for active w
    using path by (auto simp: serve_def ResolveSessionBody_def finalize_begin_def undisturbed_def body split: prod.split)
  then show ?thesis
    using assms(3) unfolding direct_def r
    by (auto simp: Do_def Let_def undisturbed_def perfect_def cut split: prod.splits endpoint_result.splits option.splits)
qed

lemma chunked_live:
  assumes "wd_store wd = Some st" "upload_inv st" "int (length file) \<le> us_max st" "us_max st < 2 ^ 63" "0 < chunkSize u"
    "signed_in dp u owner" "dp_auth dp (upload_headers u header) = Some tk" "HasScope tk ''write''" "ownerIdentity tk = owner"
    "upload_endpoint t" "dp_sha dp file \<noteq> []" "opens dp u wd st t0 i" "calm dp u i file (t0 + us_ttl st) bad"
    "dp_endpoint dp (finalize_request dp u t header i (dp_sha dp file)) (wd_app wd) (spool_reader file) (int (length file)) = (w', Responded resp)"
  shows "\<exists>wd'. chunked dp u t header file wd = Some (wd', Inr resp) \<and> wd_app wd' = w'"
proof -
  have i: "i \<noteq> []" using assms(12) by (simp add: opens_def Let_def)
  obtain wd1 where c: "createSession dp u wd = (wd1, Inr i)" "wd_app wd1 = wd_app wd" "holds i owner t0 (us_ttl st) file 0 (wd_store wd1)"
    by (rule createSession_live [OF assms(12,6,1-4)])
  from sendChunks_live [OF assms(6,13,5) c(3), of 0 "wd_count wd1" 0] obtain wd3 where
    s: "sendChunks dp u i file 0 0 wd1 = Some (wd3, None)" "wd_app wd3 = wd_app wd1" "holds i owner t0 (us_ttl st) file (length file) (wd_store wd3)"
    by auto
  have "wd_app wd3 = wd_app wd" using c(2) s(2) by simp
  from finalize_live [OF s(3) assms(6,13,10,7-9) i assms(11), unfolded this, OF assms(14)] c(1) s(1) show ?thesis
    by (auto simp: chunked_def)
qed

lemma finalize_same_upload:
  "same_upload (finalize_request dp u t header i digest)
     (new_request dp (tg_method t) (tg_path t) (tg_query t) [] (upload_headers u header) body)"
proof -
  have "map_of (filter (\<lambda>(q, _). q \<noteq> k) qs) k' = map_of qs k'" if "k' \<noteq> k" for k k' and qs :: "(string \<times> string) list"
    using that by (induction qs) auto
  then show ?thesis
    by (auto simp: same_upload_def finalize_request_def new_request_def finalize_query_def query_get_def query_set_def simp del: filter_filter)
qed

text \<open>C18: over a network that disturbs at most three of any eight requests about a session (losing them,
  cutting their body, losing the answer, answering in the server's place, delivering chunks late or
  twice), and within the lifetime of the session, a chunked upload ends, with the answer and the effect
  on the application that one undisturbed request carrying the whole file has. The endpoint may read all of the request but how the body was brought: the
  session, the expected digest and the length. Both upload handlers of the artifact API are such endpoints, with one clock
  reading for either way (\<open>artifact_endpoint_blind\<close>).\<close>

theorem chunked_refines_direct:
  assumes "wd_store wd = Some st" "upload_inv st" "int (length file) \<le> us_max st" "us_max st < 2 ^ 63" "0 < chunkSize u"
    "signed_in dp u owner" "dp_auth dp (upload_headers u header) = Some tk" "HasScope tk ''write''" "ownerIdentity tk = owner"
    "upload_endpoint t" "dp_sha dp file \<noteq> []" "opens dp u wd st t0 i" "calm dp u i file (t0 + us_ttl st) bad"
    "map_of (tg_query t) ''upload_session'' = None" "transport_blind (dp_endpoint dp)"
    "direct (undisturbed dp) u t header (spool_reader file) wd = (wd2, Inr resp)"
  shows "\<exists>wd1. chunked dp u t header file wd = Some (wd1, Inr resp) \<and> wd_app wd1 = wd_app wd2"
proof (rule chunked_live [OF assms(1-13)])
  let ?r = "new_request dp (tg_method t) (tg_path t) (tg_query t) [] (upload_headers u header) (Some (spool_reader file))"
  let ?f = "finalize_request dp u t header i (dp_sha dp file)"
  have "dp_endpoint dp ?r (wd_app wd) (spool_reader file) (- 1) = (wd_app wd2, Responded resp)"
    by (rule direct_undisturbed [OF assms(10,14,16)])
  moreover have "i \<noteq> []" using assms(12) by (simp add: opens_def Let_def)
  then have "names_body ?f (int (length file))"
    by (simp add: names_body_def finalize_request_def new_request_def finalize_query_def query_get_def query_set_def)
  then have "dp_endpoint dp ?f (wd_app wd) (spool_reader file) (int (length file)) = dp_endpoint dp ?r (wd_app wd) (spool_reader file) (- 1)"
    using assms(15) finalize_same_upload [of dp u t header i "dp_sha dp file" "Some (spool_reader file)"]
    unfolding transport_blind_def by (auto simp: names_body_def)
  ultimately show "dp_endpoint dp ?f (wd_app wd) (spool_reader file) (int (length file)) = (wd_app wd2, Responded resp)" by simp
qed

section \<open>A connection that breaks in a chunk\<close>

definition demo_upload_store :: upload_store where
  "demo_upload_store = \<lparr>us_dir = ''/s'', us_max = 10, us_ttl = 100, us_sessions = [], us_heap = [], us_files = {}\<rparr>"

definition broken_net :: "nat \<Rightarrow> request \<Rightarrow> fate" where
  "broken_net k r = (if k = 1 \<and> has_prefix (rq_path r) ''/api/v1/uploads/'' then perfect\<lparr>ft_cut := Some 1, ft_answer := NoAnswer\<rparr>
     else perfect\<lparr>ft_rnd := Some ''ab''\<rparr>)"

definition demo_deployment :: "bytes list deployment" where
  "demo_deployment = \<lparr>dp_endpoint = \<lambda>r w b n. (w @ [rd_bytes b], Responded \<lparr>rs_status = 201, rs_body = []\<rparr>),
     dp_sha = \<lambda>b. if b = [1, 2, 3] then ''ff'' else ''00'', dp_auth = \<lambda>h. Some demo_token, dp_max_direct = 1, dp_max_upload = 10, dp_net = broken_net\<rparr>"

definition demo_uploader :: uploader where
  "demo_uploader = \<lparr>up_token = ''t'', up_chunk_size = 2, up_threshold = 1, up_info = \<lparr>si_max_direct = 0, si_by_sha256 = False\<rparr>, up_info_fetched = True\<rparr>"

definition demo_target :: upload_target where
  "demo_target = \<lparr>tg_method = ''PUT'', tg_path = ''/api/v1/projects/x'', tg_query = []\<rparr>"

definition demo_world :: "bytes list world" where
  "demo_world = \<lparr>wd_count = 0, wd_store = Some demo_upload_store, wd_app = []\<rparr>"

lemma broken_calm:
  assumes "dp_net dp = broken_net"
  shows "calm dp u i file deadline (\<lambda>k. k = 1)"
proof -
  have few: "card {j \<in> {k..<k + 8}. j = 1} \<le> 3" for k :: nat
  proof -
    have "card {j \<in> {k..<k + 8}. j = 1} \<le> card {1 :: nat}" by (rule card_mono) auto
    also have "\<dots> \<le> 3" by simp
    finally show ?thesis .
  qed
  show ?thesis unfolding calm_def
    by (intro conjI allI impI few)
      (auto simp: assms broken_net_def tolerable_def smooth_def perfect_def env_sane_def)
qed

lemma demo_facts:
  "wd_store demo_world = Some demo_upload_store" "upload_inv demo_upload_store" "int (length ([1, 2, 3] :: bytes)) \<le> us_max demo_upload_store"
  "us_max demo_upload_store < 2 ^ 63" "0 < chunkSize demo_uploader" "signed_in demo_deployment demo_uploader ''7:ci''"
  "dp_auth demo_deployment (upload_headers demo_uploader []) = Some demo_token" "HasScope demo_token ''write''" "ownerIdentity demo_token = ''7:ci''"
  "upload_endpoint demo_target" "dp_sha demo_deployment [1, 2, 3] \<noteq> []" "opens demo_deployment demo_uploader demo_world demo_upload_store 0 ''ab''"
  "calm demo_deployment demo_uploader ''ab'' [1, 2, 3] (0 + us_ttl demo_upload_store) (\<lambda>k. k = 1)"
proof -
  have tok: "HasScope demo_token ''write''" "ownerIdentity demo_token = ''7:ci''" by code_simp+
  then show "HasScope demo_token ''write''" "ownerIdentity demo_token = ''7:ci''" .
  show "signed_in demo_deployment demo_uploader ''7:ci''" using tok by (simp add: signed_in_def demo_deployment_def)
  show "upload_endpoint demo_target" by code_simp
  show "calm demo_deployment demo_uploader ''ab'' [1, 2, 3] (0 + us_ttl demo_upload_store) (\<lambda>k. k = 1)"
    by (rule broken_calm) (simp add: demo_deployment_def)
  show "opens demo_deployment demo_uploader demo_world demo_upload_store 0 ''ab''"
    by (simp add: opens_def Let_def demo_deployment_def broken_net_def smooth_def perfect_def demo_world_def demo_upload_store_def)
qed (simp_all add: demo_world_def demo_upload_store_def upload_inv_def chunkSize_def demo_uploader_def demo_deployment_def)

lemma demo_chunked:
  "\<exists>wd'. chunked demo_deployment demo_uploader demo_target [] [1, 2, 3] demo_world = Some (wd', Inr \<lparr>rs_status = 201, rs_body = []\<rparr>)
     \<and> wd_app wd' = [[1, 2, 3]]"
  by (rule chunked_live [OF demo_facts]) (simp add: demo_deployment_def demo_world_def spool_reader_def rd_bytes_def)

theorem chunked_runs_on_file_witness:
  "\<exists>wd' r q. chunked demo_deployment demo_uploader demo_target [] [1, 2, 3] demo_world = Some (wd', r)
     \<and> wd_app wd' = fst (dp_endpoint demo_deployment q [] (spool_reader [1, 2, 3]) 3)"
proof -
  obtain wd' r where c: "chunked demo_deployment demo_uploader demo_target [] [1, 2, 3] demo_world = Some (wd', r)" "wd_app wd' \<noteq> wd_app demo_world"
    using demo_chunked by (auto simp: demo_world_def)
  have sane: "sane_net demo_deployment"
    by (simp add: sane_net_def demo_deployment_def broken_net_def perfect_def env_sane_def)
  have ok: "pred_option upload_inv (wd_store demo_world)" using demo_facts(1,2) by simp
  have sha: "\<forall>bs. equal_fold (dp_sha demo_deployment [1, 2, 3]) (dp_sha demo_deployment bs) \<longrightarrow> bs = [1, 2, 3]"
  proof -
    have "\<not> equal_fold ''ff'' ''00''" by code_simp
    then show ?thesis by (simp add: demo_deployment_def)
  qed
  from chunked_runs_on_file [OF sane ok demo_facts(10,11) sha c(1)] c show ?thesis by (auto simp: demo_world_def)
qed

text \<open>The same deployment with the artifact API behind it: the file becomes an artifact of release 1.\<close>

definition demo_api_deployment :: "art_state deployment" where
  "demo_api_deployment = \<lparr>dp_endpoint = artifact_endpoint UploadArtifact demo_art_env 9 (\<lambda>path. (new_project 1 ''web'' False, demo_rt))
       (\<lambda>reply. \<lparr>rs_status = (if created reply then 201 else 400), rs_body = []\<rparr>),
     dp_sha = \<lambda>b. if b = [1, 2, 3] then ''ff'' else ''00'', dp_auth = \<lambda>h. Some demo_token, dp_max_direct = 1, dp_max_upload = 10, dp_net = broken_net\<rparr>"

definition demo_api_world :: "art_state world" where
  "demo_api_world = \<lparr>wd_count = 0, wd_store = Some demo_upload_store, wd_app = (demo_art_db, demo_art_fs)\<rparr>"

definition demo_api_target :: upload_target where
  "demo_api_target = \<lparr>tg_method = ''PUT'', tg_path = ''/api/v1/projects/web'', tg_query = [(''kind'', ''library'')]\<rparr>"

lemma demo_api_facts:
  "wd_store demo_api_world = Some demo_upload_store" "signed_in demo_api_deployment demo_uploader ''7:ci''"
  "dp_auth demo_api_deployment (upload_headers demo_uploader []) = Some demo_token"
  "upload_endpoint demo_api_target" "dp_sha demo_api_deployment [1, 2, 3] \<noteq> []"
  "opens demo_api_deployment demo_uploader demo_api_world demo_upload_store 0 ''ab''"
  "calm demo_api_deployment demo_uploader ''ab'' [1, 2, 3] (0 + us_ttl demo_upload_store) (\<lambda>k. k = 1)"
  "map_of (tg_query demo_api_target) ''upload_session'' = None" "transport_blind (dp_endpoint demo_api_deployment)"
proof -
  show "signed_in demo_api_deployment demo_uploader ''7:ci''"
    using demo_facts(8,9) by (simp add: signed_in_def demo_api_deployment_def)
  show "upload_endpoint demo_api_target" by code_simp
  show "calm demo_api_deployment demo_uploader ''ab'' [1, 2, 3] (0 + us_ttl demo_upload_store) (\<lambda>k. k = 1)"
    by (rule broken_calm) (simp add: demo_api_deployment_def)
  show "opens demo_api_deployment demo_uploader demo_api_world demo_upload_store 0 ''ab''"
    by (simp add: opens_def Let_def demo_api_deployment_def broken_net_def smooth_def perfect_def demo_api_world_def demo_upload_store_def)
  show "transport_blind (dp_endpoint demo_api_deployment)"
    using artifact_endpoint_blind by (simp add: demo_api_deployment_def)
qed (simp_all add: demo_api_world_def demo_api_deployment_def demo_api_target_def)

lemma demo_api_direct:
  "case direct (undisturbed demo_api_deployment) demo_uploader demo_api_target [] (spool_reader [1, 2, 3]) demo_api_world of
     (wd, Inr resp) \<Rightarrow> rs_status resp = 201 \<and> map a_kind (d_artifacts (fst (wd_app wd))) = [''library''] | _ \<Rightarrow> False"
  by code_simp

theorem chunked_refines_direct_witness:
  "\<exists>wd1 resp. chunked demo_api_deployment demo_uploader demo_api_target [] [1, 2, 3] demo_api_world = Some (wd1, Inr resp)
     \<and> rs_status resp = 201 \<and> map a_kind (d_artifacts (fst (wd_app wd1))) = [''library'']"
proof -
  obtain wd2 resp where d: "direct (undisturbed demo_api_deployment) demo_uploader demo_api_target [] (spool_reader [1, 2, 3]) demo_api_world = (wd2, Inr resp)"
    "rs_status resp = 201" "map a_kind (d_artifacts (fst (wd_app wd2))) = [''library'']"
    using demo_api_direct by (auto split: prod.splits sum.splits)
  from chunked_refines_direct [OF demo_api_facts(1) demo_facts(2-5) demo_api_facts(2,3) demo_facts(8,9) demo_api_facts(4-9) d(1)] d
  show ?thesis by auto
qed

end
