(* ===== verification/Tokens.thy ===== *)
theory Tokens
  imports Project_Gate
begin

text \<open>
  Issuing and revoking credentials: \<open>internal/db/tokens.go\<close> and \<open>oidc.go\<close> with their queries, and the
  endpoints \<open>internal/api/tokens.go\<close> and \<open>oidc.go\<close>, and the administrators' \<open>internal/admin/tokens.go\<close>. The random bytes of a new token are an argument
  (\<open>None\<close>: the source failed), SHA-256 is a parameter. The JSON of an answer is a value.
\<close>

section \<open>Base64 for URLs, without padding\<close>

definition b64url_char :: "nat \<Rightarrow> char" where
  "b64url_char n = (if n < 26 then char_of (n + 65) else if n < 52 then char_of (n + 71)
     else if n < 62 then char_of (n - 4) else if n = 62 then CHR ''-'' else CHR ''_'')"

fun b64url_encode :: "bytes \<Rightarrow> string" where
  "b64url_encode [] = []"
| "b64url_encode [a] = [b64url_char (unat a div 4), b64url_char (unat a mod 4 * 16)]"
| "b64url_encode [a, b] = [b64url_char (unat a div 4), b64url_char (unat a mod 4 * 16 + unat b div 16), b64url_char (unat b mod 16 * 4)]"
| "b64url_encode (a # b # c # bs) =
     [b64url_char (unat a div 4), b64url_char (unat a mod 4 * 16 + unat b div 16),
      b64url_char (unat b mod 16 * 4 + unat c div 64), b64url_char (unat c mod 64)] @ b64url_encode bs"

section \<open>Tables\<close>

definition project_exists :: "int option \<Rightarrow> db \<Rightarrow> bool" where
  "project_exists pid d \<longleftrightarrow> (case pid of None \<Rightarrow> True | Some i \<Rightarrow> list_ex (\<lambda>p. p_id p = i) (d_projects d))"

definition InsertToken :: "time \<Rightarrow> api_token \<Rightarrow> db \<Rightarrow> db_error + db \<times> int" where
  "InsertToken now t d =
     (if list_ex (\<lambda>u. t_hash u = t_hash t) (d_tokens d) then Inl UniqueViolation
      else if \<not> project_exists (t_project_id t) d then Inl ForeignKeyViolation
      else (let i = d_token_seq d + 1;
                row = t\<lparr>t_id := i, t_expires_at := None, t_last_used_at := None, t_created_at := now\<rparr>
            in Inr (d\<lparr>d_tokens := d_tokens d @ [row], d_token_seq := i\<rparr>, i)))"

definition ListAllTokens :: "db \<Rightarrow> api_token list" where
  "ListAllTokens d = map (\<lambda>t. t\<lparr>t_hash := []\<rparr>) (sort_key (\<lambda>t. - t_created_at t) (d_tokens d))"

definition UpdateTokenByID :: "int \<Rightarrow> string \<Rightarrow> string \<Rightarrow> db \<Rightarrow> db" where
  "UpdateTokenByID i name scopes d =
     d\<lparr>d_tokens := map (\<lambda>t. if t_id t = i then t\<lparr>t_name := name, t_scopes := scopes\<rparr> else t) (d_tokens d)\<rparr>"

definition DeleteTokenByID :: "int \<Rightarrow> db \<Rightarrow> db \<times> int" where
  "DeleteTokenByID i d =
     (d\<lparr>d_tokens := filter (\<lambda>t. t_id t \<noteq> i) (d_tokens d)\<rparr>, int (length (filter (\<lambda>t. t_id t = i) (d_tokens d))))"

definition CreateToken :: "(string \<Rightarrow> string) \<Rightarrow> time \<Rightarrow> bytes option \<Rightarrow> string \<Rightarrow> int option \<Rightarrow> string \<Rightarrow> db
    \<Rightarrow> db \<times> (db_error + string \<times> api_token)" where
  "CreateToken sha256hex now rnd name pid scopes d =
     (case rnd of
        None \<Rightarrow> (d, Inl (Refused ''generate token''))
      | Some raw \<Rightarrow>
          (let plaintext = ''bh_'' @ b64url_encode raw; prefix = take 11 plaintext;
               row = \<lparr>t_id = 0, t_name = name, t_hash = sha256hex plaintext, t_prefix = prefix, t_project_id = pid,
                      t_scopes = scopes, t_expires_at = None, t_last_used_at = None, t_created_at = 0\<rparr>
           in case InsertToken now row d of
                Inl e \<Rightarrow> (d, Inl e)
              | Inr (d', i) \<Rightarrow> (d', Inr (plaintext, row\<lparr>t_id := i, t_hash := []\<rparr>))))"

definition ListTokens :: "db \<Rightarrow> api_token list" where
  "ListTokens d = ListAllTokens d"

definition UpdateToken :: "int \<Rightarrow> string \<Rightarrow> string \<Rightarrow> db \<Rightarrow> db" where
  "UpdateToken i name scopes d = UpdateTokenByID i name scopes d"

definition DeleteToken :: "int \<Rightarrow> db \<Rightarrow> db \<times> db_error option" where
  "DeleteToken i d = (case DeleteTokenByID i d of (d', n) \<Rightarrow> (d', if n = 0 then Some ErrNotFound else None))"

definition InsertOIDCPolicy :: "time \<Rightarrow> oidc_policy \<Rightarrow> db \<Rightarrow> db_error + db \<times> int" where
  "InsertOIDCPolicy now p d =
     (if list_ex (\<lambda>q. op_issuer q = op_issuer p \<and> op_subject_pattern q = op_subject_pattern p) (d_policies d) then Inl UniqueViolation
      else if \<not> project_exists (op_project_id p) d then Inl ForeignKeyViolation
      else (let i = d_policy_seq d + 1
            in Inr (d\<lparr>d_policies := d_policies d @ [p\<lparr>op_id := i, op_created_at := now\<rparr>], d_policy_seq := i\<rparr>, i)))"

definition DeleteOIDCPolicyByID :: "int \<Rightarrow> db \<Rightarrow> db \<times> int" where
  "DeleteOIDCPolicyByID i d =
     (d\<lparr>d_policies := filter (\<lambda>p. op_id p \<noteq> i) (d_policies d)\<rparr>, int (length (filter (\<lambda>p. op_id p = i) (d_policies d))))"

definition ListOIDCPoliciesByIssuer :: "string \<Rightarrow> db \<Rightarrow> oidc_policy list" where
  "ListOIDCPoliciesByIssuer issuer d = filter (\<lambda>p. op_issuer p = issuer) (d_policies d)"

definition GetOIDCPolicyByID :: "int \<Rightarrow> db \<Rightarrow> db_error + oidc_policy" where
  "GetOIDCPolicyByID i d = (case find_first (\<lambda>p. op_id p = i) (d_policies d) of None \<Rightarrow> Inl ErrNotFound | Some p \<Rightarrow> Inr p)"

definition CreateOIDCPolicy :: "time \<Rightarrow> oidc_policy \<Rightarrow> db \<Rightarrow> db \<times> (db_error + oidc_policy)" where
  "CreateOIDCPolicy now p d =
     (case InsertOIDCPolicy now p d of
        Inl UniqueViolation \<Rightarrow> (d, Inl (ErrConflict ''''))
      | Inl e \<Rightarrow> (d, Inl e)
      | Inr (d', i) \<Rightarrow> (d', Inr (p\<lparr>op_id := i\<rparr>)))"

definition DeleteOIDCPolicy :: "int \<Rightarrow> db \<Rightarrow> db \<times> db_error option" where
  "DeleteOIDCPolicy i d = (case DeleteOIDCPolicyByID i d of (d', n) \<Rightarrow> (d', if n = 0 then Some ErrNotFound else None))"

section \<open>Endpoints\<close>

datatype token_reply =
    TokenRefused int string
  | TokenCreated string api_token
  | TokenList "api_token list"
  | PolicyCreated oidc_policy
  | PolicyList "oidc_policy list"
  | NoContent

record create_token_request =
  tq_name :: string
  tq_project_id :: "int option"
  tq_scopes :: string

record create_policy_request =
  pq_issuer :: string
  pq_subject_pattern :: string
  pq_audience :: string
  pq_project_id :: "int option"
  pq_scopes :: string

fun trim_scopes :: "string list \<Rightarrow> string + string list" where
  "trim_scopes [] = Inr []"
| "trim_scopes (s # ss) =
     (let s' = trim_space s in
      if s' \<notin> set ValidScopes then Inl s'
      else case trim_scopes ss of Inl e \<Rightarrow> Inl e | Inr parts \<Rightarrow> Inr (s' # parts))"

definition validateScopes :: "string \<Rightarrow> string + string" where
  "validateScopes scopes =
     (if scopes = [] then Inr ''read''
      else case trim_scopes (split_on (CHR '','') scopes) of Inl e \<Rightarrow> Inl e | Inr parts \<Rightarrow> Inr (join_with '','' parts))"

definition token_requireWrite :: "api_token option \<Rightarrow> token_reply + api_token" where
  "token_requireWrite tok =
     (case tok of None \<Rightarrow> Inl (TokenRefused 401 ''authentication required'')
      | Some t \<Rightarrow> if HasScope t ''write'' then Inr t else Inl (TokenRefused 401 ''authentication required''))"

definition requireGlobalWrite :: "api_token option \<Rightarrow> token_reply + api_token" where
  "requireGlobalWrite tok =
     (case tok of None \<Rightarrow> Inl (TokenRefused 403 ''global write token required'')
      | Some t \<Rightarrow> if HasScope t ''write'' \<and> IsGlobal t then Inr t else Inl (TokenRefused 403 ''global write token required''))"

definition handleCreateToken :: "(string \<Rightarrow> string) \<Rightarrow> time \<Rightarrow> bytes option \<Rightarrow> api_token option \<Rightarrow> create_token_request option \<Rightarrow> db
    \<Rightarrow> db \<times> token_reply" where
  "handleCreateToken sha256hex now rnd tok body d =
     (case token_requireWrite tok of
        Inl refusal \<Rightarrow> (d, refusal)
      | Inr t \<Rightarrow>
     (case body of
        None \<Rightarrow> (d, TokenRefused 400 ''invalid request body'')
      | Some req \<Rightarrow>
     if tq_name req = [] then (d, TokenRefused 400 ''name is required'')
     else (case validateScopes (tq_scopes req) of
        Inl s \<Rightarrow> (d, TokenRefused 400 (''invalid scope: '' @ s))
      | Inr scopes \<Rightarrow>
     (case find_first (\<lambda>s. \<not> HasScope t s) (split_on (CHR '','') scopes) of
        Some s \<Rightarrow> (d, TokenRefused 403 (''cannot grant scope not held by caller: '' @ s))
      | None \<Rightarrow>
     if \<not> IsGlobal t \<and> (tq_project_id req = None \<or> tq_project_id req \<noteq> t_project_id t)
     then (d, TokenRefused 403 ''project-scoped tokens can only create tokens for the same project'')
     else (case CreateToken sha256hex now rnd (tq_name req) (tq_project_id req) scopes d of
        (d', Inl e) \<Rightarrow> (d', TokenRefused 500 ''failed to create token'')
      | (d', Inr (plaintext, token)) \<Rightarrow> (d', TokenCreated plaintext token))))))"

definition handleListTokens :: "api_token option \<Rightarrow> db \<Rightarrow> token_reply" where
  "handleListTokens tok d =
     (case token_requireWrite tok of
        Inl refusal \<Rightarrow> refusal
      | Inr t \<Rightarrow> if \<not> IsGlobal t then TokenRefused 403 ''only global tokens can list tokens'' else TokenList (ListTokens d))"

definition handleDeleteToken :: "api_token option \<Rightarrow> string \<Rightarrow> db \<Rightarrow> db \<times> token_reply" where
  "handleDeleteToken tok idStr d =
     (case token_requireWrite tok of
        Inl refusal \<Rightarrow> (d, refusal)
      | Inr t \<Rightarrow>
          if \<not> IsGlobal t then (d, TokenRefused 403 ''only global tokens can delete tokens'')
          else (case parse_int64 idStr of
             None \<Rightarrow> (d, TokenRefused 400 ''invalid token id'')
           | Some i \<Rightarrow>
               if i = t_id t then (d, TokenRefused 400 ''cannot delete your own token'')
               else (case DeleteToken i d of
                  (d', Some e) \<Rightarrow> (d', TokenRefused 404 ''token not found'')
                | (d', None) \<Rightarrow> (d', NoContent))))"

definition handleCreateOIDCPolicy :: "time \<Rightarrow> api_token option \<Rightarrow> create_policy_request option \<Rightarrow> db \<Rightarrow> db \<times> token_reply" where
  "handleCreateOIDCPolicy now tok body d =
     (case requireGlobalWrite tok of
        Inl refusal \<Rightarrow> (d, refusal)
      | Inr t \<Rightarrow>
     (case body of
        None \<Rightarrow> (d, TokenRefused 400 ''invalid request body'')
      | Some req \<Rightarrow>
     if pq_issuer req = [] \<or> pq_subject_pattern req = [] then (d, TokenRefused 400 ''issuer and subject_pattern are required'')
     else (case validateScopes (pq_scopes req) of
        Inl s \<Rightarrow> (d, TokenRefused 400 (''invalid scope: '' @ s))
      | Inr scopes \<Rightarrow>
     (case CreateOIDCPolicy now \<lparr>op_id = 0, op_issuer = pq_issuer req, op_subject_pattern = pq_subject_pattern req,
             op_audience = pq_audience req, op_project_id = pq_project_id req, op_scopes = scopes, op_created_at = 0\<rparr> d of
        (d', Inl (ErrConflict _)) \<Rightarrow> (d', TokenRefused 409 ''policy already exists for this issuer/subject'')
      | (d', Inl _) \<Rightarrow> (d', TokenRefused 500 ''failed to create policy'')
      | (d', Inr p) \<Rightarrow> (d', PolicyCreated p)))))"

definition handleListOIDCPolicies :: "api_token option \<Rightarrow> db \<Rightarrow> token_reply" where
  "handleListOIDCPolicies tok d =
     (case requireGlobalWrite tok of Inl refusal \<Rightarrow> refusal | Inr t \<Rightarrow> PolicyList (ListOIDCPolicies d))"

definition handleDeleteOIDCPolicy :: "api_token option \<Rightarrow> string \<Rightarrow> db \<Rightarrow> db \<times> token_reply" where
  "handleDeleteOIDCPolicy tok idStr d =
     (case requireGlobalWrite tok of
        Inl refusal \<Rightarrow> (d, refusal)
      | Inr t \<Rightarrow>
     (case parse_int64 idStr of
        None \<Rightarrow> (d, TokenRefused 400 ''invalid policy id'')
      | Some i \<Rightarrow>
          (case DeleteOIDCPolicy i d of
             (d', Some e) \<Rightarrow> (d', TokenRefused 404 ''policy not found'')
           | (d', None) \<Rightarrow> (d', NoContent))))"

section \<open>Administration\<close>

datatype admin_reply =
    AdminError int string
  | AdminToken string api_token
  | AdminNoContent

definition apiCreateToken :: "(string \<Rightarrow> string) \<Rightarrow> time \<Rightarrow> bytes option \<Rightarrow> create_token_request option \<Rightarrow> db \<Rightarrow> db \<times> admin_reply" where
  "apiCreateToken sha256hex now rnd body d =
     (case body of
        None \<Rightarrow> (d, AdminError 400 ''invalid request'')
      | Some req \<Rightarrow>
     if tq_name req = [] then (d, AdminError 400 ''name required'')
     else let scopes = (if tq_scopes req = [] then ''read'' else tq_scopes req) in
     (case CreateToken sha256hex now rnd (tq_name req) (tq_project_id req) scopes d of
        (d', Inl e) \<Rightarrow> (d', AdminError 500 ''internal error'')
      | (d', Inr (plaintext, token)) \<Rightarrow> (d', AdminToken plaintext token)))"

definition apiUpdateToken :: "string \<Rightarrow> (string \<times> string) option \<Rightarrow> db \<Rightarrow> db \<times> admin_reply" where
  "apiUpdateToken idStr body d =
     (case parse_int64 idStr of
        None \<Rightarrow> (d, AdminError 400 ''invalid id'')
      | Some i \<Rightarrow>
     (case body of
        None \<Rightarrow> (d, AdminError 400 ''invalid request'')
      | Some (name, scopes) \<Rightarrow>
          if name = [] then (d, AdminError 400 ''name required'')
          else if scopes = [] then (d, AdminError 400 ''scopes required'')
          else (UpdateToken i name scopes d, AdminNoContent)))"

definition apiDeleteToken :: "string \<Rightarrow> db \<Rightarrow> db \<times> admin_reply" where
  "apiDeleteToken idStr d =
     (case parse_int64 idStr of
        None \<Rightarrow> (d, AdminError 400 ''invalid id'')
      | Some i \<Rightarrow>
          (case DeleteToken i d of
             (d', Some e) \<Rightarrow> (d', AdminError 404 ''404 page not found'')
           | (d', None) \<Rightarrow> (d', AdminNoContent)))"

section \<open>Authority\<close>

text \<open>The scopes of one credential and the project it is bound to, by the id, are within those of another.
  The namespace an identity is confined to is not part of a token and is not compared.\<close>

definition grants_within :: "api_token \<Rightarrow> api_token \<Rightarrow> bool" where
  "grants_within t r \<longleftrightarrow> (\<forall>s. HasScope t s \<longrightarrow> HasScope r s) \<and> (\<forall>p. AuthorizedForProject t p \<longrightarrow> AuthorizedForProject r p)"

lemma grants_within_refl: "grants_within t t"
  by (simp add: grants_within_def)

lemma grants_within_trans: "grants_within t r \<Longrightarrow> grants_within r q \<Longrightarrow> grants_within t q"
  by (simp add: grants_within_def)

lemma grants_within_fields:
  "t_scopes t' = t_scopes t \<Longrightarrow> t_project_id t' = t_project_id t \<Longrightarrow> grants_within t' t"
  by (simp add: grants_within_def HasScope_def AuthorizedForProject_def)

definition granted :: "api_token set \<Rightarrow> db \<Rightarrow> bool" where
  "granted roots d \<longleftrightarrow> (\<forall>t \<in> set (d_tokens d). \<exists>r \<in> roots. grants_within t r)"

lemma CreateToken_row:
  assumes "CreateToken sha now rnd name pid scopes d = (d', r)"
  shows "d_tokens d' = d_tokens d \<or> (\<exists>t. d_tokens d' = d_tokens d @ [t] \<and> t_scopes t = scopes \<and> t_project_id t = pid)"
  using assms by (auto simp: CreateToken_def InsertToken_def Let_def split: option.splits if_splits)

lemma handleCreateToken_grants:
  assumes "granted roots d" "r \<in> roots" "grants_within t r"
  shows "granted roots (fst (handleCreateToken sha now rnd (Some t) body d))"
proof -
  obtain d' reply where h: "handleCreateToken sha now rnd (Some t) body d = (d', reply)" by fastforce
  have "d_tokens d' = d_tokens d \<or> (\<exists>u. d_tokens d' = d_tokens d @ [u] \<and> grants_within u t)"
  proof (cases "d' = d")
    case False
    then obtain scopes res and req :: create_token_request where c: "CreateToken sha now rnd (tq_name req) (tq_project_id req) scopes d = (d', res)"
      "find_first (\<lambda>s. \<not> HasScope t s) (split_on (CHR '','') scopes) = None"
      "IsGlobal t \<or> tq_project_id req \<noteq> None \<and> tq_project_id req = t_project_id t"
      using h by (auto simp: handleCreateToken_def token_requireWrite_def split: option.splits sum.splits if_splits prod.splits)
    have sc: "\<forall>s \<in> set (split_on (CHR '','') scopes). HasScope t s" using c(2) by (auto simp: find_first_def find_None_iff)
    have "grants_within u t" if "t_scopes u = scopes" "t_project_id u = tq_project_id req" for u
      using sc c(3) that by (auto simp: grants_within_def HasScope_iff AuthorizedForProject_def IsGlobal_def)
    with CreateToken_row [OF c(1)] show ?thesis by blast
  qed simp
  moreover have "\<exists>r \<in> roots. grants_within u r" if "grants_within u t" for u
    using grants_within_trans [OF that assms(3)] assms(2) by blast
  ultimately show ?thesis using assms(1) h by (auto simp: granted_def)
qed

lemma LookupToken_granted:
  assumes "LookupToken sha now plain d = (d', res)" "granted roots d"
  shows "granted roots d'" "res = Inr t \<Longrightarrow> \<exists>r \<in> roots. grants_within t r"
proof -
  have found: "t \<in> set (d_tokens d)" if "find_first (\<lambda>t. t_hash t = sha plain) (d_tokens d) = Some t" for t
    using that by (auto simp: find_first_def find_Some_iff)
  show "res = Inr t \<Longrightarrow> \<exists>r \<in> roots. grants_within t r"
    using assms found by (auto simp: LookupToken_def granted_def split: option.splits if_splits)
  have "\<exists>r \<in> roots. grants_within (u\<lparr>t_last_used_at := x\<rparr>) r" if "u \<in> set (d_tokens d)" for u x
    using assms(2) that grants_within_trans [OF grants_within_fields [of "u\<lparr>t_last_used_at := x\<rparr>" u]] by (auto simp: granted_def)
  then show "granted roots d'"
    using assms by (auto simp: LookupToken_def granted_def split: option.splits if_splits)
qed

text \<open>What requests with stored credentials, with the credentials \<open>ids\<close> that are not stored, and of
  administrators do. The second component of a state keeps the rows the authority of others is measured
  by: those an administrator created, or edited, join it.\<close>

datatype token_event =
    TkCreate time string "bytes option" "create_token_request option"
  | TkCreateAs api_token time "bytes option" "create_token_request option"
  | TkDelete time string string
  | TkUse time string
  | TkAdminCreate time "bytes option" "create_token_request option"
  | TkAdminUpdate string "(string \<times> string) option"
  | TkAdminDelete string

fun token_step :: "(string \<Rightarrow> string) \<Rightarrow> api_token set \<Rightarrow> db \<Rightarrow> token_event \<Rightarrow> db" where
  "token_step sha ids d (TkCreate now plain rnd body) =
     (case LookupToken sha now plain d of (d1, Inr t) \<Rightarrow> fst (handleCreateToken sha now rnd (Some t) body d1) | (d1, Inl _) \<Rightarrow> d1)"
| "token_step sha ids d (TkCreateAs t now rnd body) = (if t \<in> ids then fst (handleCreateToken sha now rnd (Some t) body d) else d)"
| "token_step sha ids d (TkDelete now plain idStr) =
     (case LookupToken sha now plain d of (d1, Inr t) \<Rightarrow> fst (handleDeleteToken (Some t) idStr d1) | (d1, Inl _) \<Rightarrow> d1)"
| "token_step sha ids d (TkUse now plain) = fst (LookupToken sha now plain d)"
| "token_step sha ids d (TkAdminCreate now rnd body) = fst (apiCreateToken sha now rnd body d)"
| "token_step sha ids d (TkAdminUpdate idStr body) = fst (apiUpdateToken idStr body d)"
| "token_step sha ids d (TkAdminDelete idStr) = fst (apiDeleteToken idStr d)"

fun by_admin :: "token_event \<Rightarrow> bool" where
  "by_admin (TkAdminCreate now rnd body) = True"
| "by_admin (TkAdminUpdate idStr body) = True"
| "by_admin e = False"

fun token_run :: "(string \<Rightarrow> string) \<Rightarrow> api_token set \<Rightarrow> db \<times> api_token set \<Rightarrow> token_event \<Rightarrow> db \<times> api_token set" where
  "token_run sha ids (d, roots) e =
     (let d' = token_step sha ids d e
      in (d', if by_admin e then roots \<union> (set (d_tokens d') - set (d_tokens d)) else roots))"

lemma handleDeleteToken_granted: "granted roots d \<Longrightarrow> granted roots (fst (handleDeleteToken tok idStr d))"
  by (auto simp: handleDeleteToken_def DeleteToken_def DeleteTokenByID_def granted_def split: sum.split option.split prod.split)

lemma apiDeleteToken_granted: "granted roots d \<Longrightarrow> granted roots (fst (apiDeleteToken idStr d))"
  by (auto simp: apiDeleteToken_def DeleteToken_def DeleteTokenByID_def granted_def split: option.split prod.split)

lemma granted_new_rows:
  "granted (ids \<union> roots) d \<Longrightarrow> granted (ids \<union> (roots \<union> (set (d_tokens d') - set (d_tokens d)))) d'"
  by (auto simp: granted_def intro: grants_within_refl)

lemma token_step_granted:
  assumes g: "granted (ids \<union> roots) d" and "\<not> by_admin e"
  shows "granted (ids \<union> roots) (token_step sha ids d e)"
proof (cases e)
  note looked = LookupToken_granted [OF _ g]
  case (TkCreate now plain rnd body)
  obtain d1 res where l: "LookupToken sha now plain d = (d1, res)" by fastforce
  show ?thesis
  proof (cases res)
    case (Inr t)
    from looked(2) [OF l Inr] obtain r where "r \<in> ids \<union> roots" "grants_within t r" by blast
    from handleCreateToken_grants [OF looked(1) [OF l] this] show ?thesis by (simp add: TkCreate l Inr)
  qed (use looked(1) [OF l] TkCreate l in simp)
next
  case (TkCreateAs t now rnd body)
  show ?thesis
  proof (cases "t \<in> ids")
    case True
    then show ?thesis using handleCreateToken_grants [OF g, of t t] by (simp add: TkCreateAs grants_within_refl)
  qed (use g TkCreateAs in simp)
next
  case (TkDelete now plain idStr)
  obtain d1 res where l: "LookupToken sha now plain d = (d1, res)" by fastforce
  then show ?thesis
    using LookupToken_granted(1) [OF l g] TkDelete by (cases res) (auto intro: handleDeleteToken_granted)
next
  case (TkUse now plain)
  then show ?thesis using LookupToken_granted(1) [OF _ g] by (cases "LookupToken sha now plain d") auto
qed (use assms in \<open>auto intro: apiDeleteToken_granted\<close>)

interpretation tokens: transition_system "token_run sha ids" "\<lambda>(d, roots). granted (ids \<union> roots) d" for sha ids
proof unfold_locales
  fix s e
  assume "case s of (d, roots) \<Rightarrow> granted (ids \<union> roots) d"
  moreover obtain d roots where s: "s = (d, roots)" by fastforce
  ultimately have g: "granted (ids \<union> roots) d" by simp
  show "case token_run sha ids s e of (d, roots) \<Rightarrow> granted (ids \<union> roots) d"
    unfolding s using granted_new_rows [OF g] token_step_granted [OF g] by (auto simp: Let_def)
qed

text \<open>C11: whatever requests create, use and delete tokens, over the API and by administrators, a stored token
  that signs in has only scopes, and is bound by id only to projects, of one credential: an unstored identity that made
  a request, a token there was at the beginning, or a row an administrator created or edited. Compared are the scopes
  and the project binding; the namespace a CI identity is confined to is not recorded with the tokens it
  creates, so it does not bound them (\<open>ci_identity_mints_global_token\<close>).\<close>

theorem tokens_never_escalate:
  assumes "foldl (token_run sha ids) (d, set (d_tokens d)) es = (d1, roots)" "LookupToken sha now plain d1 = (d2, Inr t)"
  shows "\<exists>r \<in> ids \<union> roots. (\<forall>s. HasScope t s \<longrightarrow> HasScope r s) \<and> (\<forall>p. AuthorizedForProject t p \<longrightarrow> AuthorizedForProject r p)"
proof -
  have "granted (ids \<union> set (d_tokens d)) d" by (auto simp: granted_def intro: grants_within_refl)
  then have "granted (ids \<union> roots) d1"
    using tokens.run_inv [where s = "(d, set (d_tokens d))" and es = es and ids = ids and sha = sha] assms(1) by simp
  from LookupToken_granted(2) [OF assms(2) this] show ?thesis by (auto simp: grants_within_def)
qed

lemma CreateToken_lookup:
  assumes "\<forall>u \<in> set (d_tokens d). t_hash u \<noteq> sha (''bh_'' @ b64url_encode raw)" "project_exists pid d"
  shows "\<exists>d' u. CreateToken sha now (Some raw) name pid scopes d = (d', Inr (''bh_'' @ b64url_encode raw, u))
     \<and> (\<exists>d'' w. LookupToken sha later (''bh_'' @ b64url_encode raw) d' = (d'', Inr w) \<and> t_scopes w = scopes \<and> t_project_id w = pid)"
proof -
  have "\<forall>u \<in> set us. t_hash u \<noteq> h \<Longrightarrow> t_hash w = h \<Longrightarrow> find_first (\<lambda>t. t_hash t = h) (us @ [w]) = Some w" for us h and w :: api_token
    by (induction us) (auto simp: find_first_def)
  moreover have "\<not> list_ex (\<lambda>u. t_hash u = sha (''bh_'' @ b64url_encode raw)) (d_tokens d)"
    using assms(1) by (auto simp: list_ex_iff)
  ultimately show ?thesis
    using assms by (simp add: CreateToken_def InsertToken_def LookupToken_def IsExpired_def Let_def)
qed

text \<open>C12: an identity derived from a CI token may write only below the name of its repository, and yet
  it obtains a stored credential that may write to every project: the derived identity names no project,
  the endpoint that creates tokens takes that for a global credential, and the token it stores carries the
  same scopes without the confinement. The new token has no expiry.\<close>

theorem ci_identity_mints_global_token:
  assumes identity: "grant_verified v None c = (vr, Inr (t, own))" and outside: "\<not> oidcAuthorizesProject own (p_name p)"
    and fresh: "\<forall>u \<in> set (d_tokens d). t_hash u \<noteq> sha (''bh_'' @ b64url_encode raw)" and name: "name \<noteq> []"
    and route: "rt_access ri = WriteAccess"
  shows "authorize gh r ri (with_verified vr t own) p d = Inl (json_error 403 ''token not authorized for this project'')
    \<and> (\<exists>d' row. handleCreateToken sha now (Some raw) (Some t) (Some \<lparr>tq_name = name, tq_project_id = None, tq_scopes = ''read,write''\<rparr>) d
          = (d', TokenCreated (''bh_'' @ b64url_encode raw) row)
        \<and> (\<exists>d'' u ctx. LookupToken sha later (''bh_'' @ b64url_encode raw) d' = (d'', Inr u)
              \<and> authorize gh r ri (empty_ctx\<lparr>cx_token := Some u\<rparr>) p d'' = Inr ctx))"
proof -
  have t: "own \<noteq> []" "t = oidc_token c None ''read,write''" using grant_verified_ok [OF identity] by auto
  have rw: "HasScope w ''write''" "HasScope w ''read''" if "t_scopes w = ''read,write''" for w
    unfolding HasScope_def that by code_simp+
  have scopes: "validateScopes ''read,write'' = Inr ''read,write''" "split_on (CHR '','') ''read,write'' = [''read'', ''write'']"
    by code_simp+
  have "authorize gh r ri (with_verified vr t own) p d = Inl (json_error 403 ''token not authorized for this project'')"
    using t outside route rw(1) [of t]
    by (simp add: authorize_def with_verified_def oidc_token_def AuthorizedForProject_def Let_def)
  moreover have "project_exists None d" by (simp add: project_exists_def)
  from CreateToken_lookup [OF _ this, where sha = sha and raw = raw and now = now and name = name and scopes = "''read,write''" and later = later] fresh
  obtain d' row d'' u where made: "CreateToken sha now (Some raw) name None ''read,write'' d = (d', Inr (''bh_'' @ b64url_encode raw, row))"
    "LookupToken sha later (''bh_'' @ b64url_encode raw) d' = (d'', Inr u)" "t_scopes u = ''read,write''" "t_project_id u = None" by blast
  have "handleCreateToken sha now (Some raw) (Some t) (Some \<lparr>tq_name = name, tq_project_id = None, tq_scopes = ''read,write''\<rparr>) d
      = (d', TokenCreated (''bh_'' @ b64url_encode raw) row)"
    using made(1) name rw [of t] t
    by (simp add: handleCreateToken_def token_requireWrite_def scopes find_first_def IsGlobal_def oidc_token_def)
  moreover have "\<exists>ctx. authorize gh r ri (empty_ctx\<lparr>cx_token := Some u\<rparr>) p d'' = Inr ctx"
    using made(3,4) rw(1) [of u] route by (simp add: authorize_def AuthorizedForProject_def empty_ctx_def Let_def)
  ultimately show ?thesis using made(2) by blast
qed

definition demo_token_db :: db where
  "demo_token_db = empty_db\<lparr>d_tokens := [\<lparr>t_id = 1, t_name = ''deploy'', t_hash = ''h1'', t_prefix = ''bh_'', t_project_id = Some 4,
     t_scopes = ''write'', t_expires_at = None, t_last_used_at = None, t_created_at = 0\<rparr>], d_token_seq := 1,
     d_projects := [new_project 4 ''app'' False]\<rparr>"

definition demo_sha :: "string \<Rightarrow> string" where
  "demo_sha s = CHR ''h'' # s"

definition demo_token_events :: "token_event list" where
  "demo_token_events =
     [TkCreate 7 ''1'' (Some [1, 2, 3]) (Some \<lparr>tq_name = ''x'', tq_project_id = Some 4, tq_scopes = ''write''\<rparr>),
      TkAdminCreate 8 (Some [4, 5, 6]) (Some \<lparr>tq_name = ''ops'', tq_project_id = None, tq_scopes = []\<rparr>)]"

lemma demo_token_roots:
  "snd (foldl (token_run demo_sha {}) (demo_token_db, set (d_tokens demo_token_db)) demo_token_events)
    = {hd (d_tokens demo_token_db), \<lparr>t_id = 3, t_name = ''ops'', t_hash = ''hbh_BAUG'', t_prefix = ''bh_BAUG'', t_project_id = None,
         t_scopes = ''read'', t_expires_at = None, t_last_used_at = None, t_created_at = 8\<rparr>}"
  "\<not> isl (snd (LookupToken demo_sha 9 ''bh_AQID'' (fst (foldl (token_run demo_sha {})
      (demo_token_db, set (d_tokens demo_token_db)) demo_token_events))))"
  by code_simp+

lemma demo_roots_scopes:
  "\<forall>r \<in> {hd (d_tokens demo_token_db), \<lparr>t_id = 3, t_name = ''ops'', t_hash = ''hbh_BAUG'', t_prefix = ''bh_BAUG'', t_project_id = None,
         t_scopes = ''read'', t_expires_at = None, t_last_used_at = None, t_created_at = 8\<rparr>}.
     \<not> (AuthorizedForProject r 5 \<and> HasScope r ''write'')"
  by code_simp

theorem tokens_never_escalate_witness:
  "\<exists>d1 d2 roots t. foldl (token_run demo_sha {}) (demo_token_db, set (d_tokens demo_token_db)) demo_token_events = (d1, roots)
     \<and> LookupToken demo_sha 9 ''bh_AQID'' d1 = (d2, Inr t) \<and> \<not> (AuthorizedForProject t 5 \<and> HasScope t ''write'')"
proof -
  obtain d1 roots where run: "foldl (token_run demo_sha {}) (demo_token_db, set (d_tokens demo_token_db)) demo_token_events = (d1, roots)"
    by fastforce
  then obtain d2 t where look: "LookupToken demo_sha 9 ''bh_AQID'' d1 = (d2, Inr t)"
    using demo_token_roots(2) by (cases "snd (LookupToken demo_sha 9 ''bh_AQID'' d1)") (auto simp: prod_eq_iff)
  from tokens_never_escalate [OF run look] obtain r where r: "r \<in> {} \<union> roots" "HasScope t ''write'' \<longrightarrow> HasScope r ''write''"
    "AuthorizedForProject t 5 \<longrightarrow> AuthorizedForProject r 5" by blast
  have "\<not> (AuthorizedForProject r 5 \<and> HasScope r ''write'')"
    using demo_roots_scopes r(1) unfolding demo_token_roots(1) [unfolded run snd_conv, symmetric] by blast
  with r run look show ?thesis by blast
qed

theorem ci_identity_mints_global_token_witness:
  "\<exists>d' row. handleCreateToken demo_sha 7 (Some [1, 2, 3]) (Some (oidc_token demo_claims None ''read,write''))
      (Some \<lparr>tq_name = ''x'', tq_project_id = None, tq_scopes = ''read,write''\<rparr>) demo_token_db = (d', TokenCreated ''bh_AQID'' row)
    \<and> (\<exists>d'' u ctx. LookupToken demo_sha 9 ''bh_AQID'' d' = (d'', Inr u)
        \<and> authorize demo_gh demo_req (demo_route WriteAccess) (empty_ctx\<lparr>cx_token := Some u\<rparr>) (new_project 1 ''other'' True) d'' = Inr ctx)"
proof -
  obtain vr own where g: "grant_verified demo_verifier None demo_claims = (vr, Inr (oidc_token demo_claims None ''read,write'', own))"
    "\<not> oidcAuthorizesProject own (p_name (new_project 1 ''other'' True))"
  proof -
    have "case snd (grant_verified demo_verifier None demo_claims) of Inl _ \<Rightarrow> False
        | Inr (t, own) \<Rightarrow> t = oidc_token demo_claims None ''read,write'' \<and> \<not> oidcAuthorizesProject own (p_name (new_project 1 ''other'' True))"
      by code_simp
    then show ?thesis using that by (cases "grant_verified demo_verifier None demo_claims") (auto split: sum.splits prod.splits)
  qed
  have raw: "''bh_'' @ b64url_encode [1, 2, 3] = ''bh_AQID''" by code_simp
  have "rt_access (demo_route WriteAccess) = WriteAccess" by (simp add: demo_route_def)
  moreover have "\<forall>u \<in> set (d_tokens demo_token_db). t_hash u \<noteq> demo_sha (''bh_'' @ b64url_encode [1, 2, 3])" by code_simp
  ultimately show ?thesis
    using ci_identity_mints_global_token [OF g, of demo_token_db demo_sha "[1, 2, 3]" "''x''" "demo_route WriteAccess" demo_gh demo_req 7 9]
    unfolding raw by simp
qed

end
