(* ===== verification/Signed_Urls.thy ===== *)
theory Signed_Urls
  imports Tokens Storage
begin

text \<open>
  Addresses of downloads and their signatures: the query strings of \<open>net/url\<close> as the program uses
  them, \<open>internal/auth/downloadtoken.go\<close>, and the parameters of \<open>internal/static/static.go\<close>. The
  keyed hash is a parameter; a time is cut to whole seconds where the code calls \<open>Unix\<close>.
\<close>

section \<open>Query strings\<close>

definition unreserved :: "char \<Rightarrow> bool" where
  "unreserved c \<longleftrightarrow> is_digit c \<or> is_lower c \<or> is_upper c \<or> c \<in> set ''-_.~''"

definition upper_hex :: "nat \<Rightarrow> char" where
  "upper_hex n = (if n < 10 then char_of (n + 48) else char_of (n + 55))"

definition escape_char :: "char \<Rightarrow> string" where
  "escape_char c =
     (if unreserved c then [c]
      else if c = CHR '' '' then ''+''
      else [CHR ''%'', upper_hex (of_char c div 16), upper_hex (of_char c mod 16)])"

definition query_escape :: "string \<Rightarrow> string" where
  "query_escape s = concat (map escape_char s)"

definition unhex :: "char \<Rightarrow> nat option" where
  "unhex c =
     (let n = of_char c in
      if is_digit c then Some (n - 48)
      else if 97 \<le> n \<and> n \<le> 102 then Some (n - 87)
      else if 65 \<le> n \<and> n \<le> 70 then Some (n - 55) else None)"

fun query_unescape :: "string \<Rightarrow> string option" where
  "query_unescape [] = Some []"
| "query_unescape (c # s) =
     (if c = CHR ''%'' then
        (case s of
           a # b # r \<Rightarrow>
             (case (unhex a, unhex b) of
                (Some x, Some y) \<Rightarrow> map_option (\<lambda>t. char_of (16 * x + y) # t) (query_unescape r)
              | _ \<Rightarrow> None)
         | _ \<Rightarrow> None)
      else map_option (\<lambda>t. (if c = CHR ''+'' then CHR '' '' else c) # t) (query_unescape s))"

definition parse_pair :: "string \<Rightarrow> (string \<times> string) option" where
  "parse_pair part =
     (if CHR '';'' \<in> set part \<or> part = [] then None
      else (case cut_at (CHR ''='') part of (k, v, _) \<Rightarrow>
        (case (query_unescape k, query_unescape v) of (Some k', Some v') \<Rightarrow> Some (k', v') | _ \<Rightarrow> None)))"

text \<open>\<open>url.ParseQuery\<close>: a pair that cannot be read is left out. \<open>Values.Encode\<close> sorts by key.\<close>

definition parse_query :: "string \<Rightarrow> (string \<times> string) list" where
  "parse_query raw = List.map_filter parse_pair (split_on (CHR ''&'') raw)"

definition encode_pair :: "string \<times> string \<Rightarrow> string" where
  "encode_pair kv = query_escape (fst kv) @ ''='' @ query_escape (snd kv)"

definition encode_values :: "(string \<times> string) list \<Rightarrow> string" where
  "encode_values q = join_with ''&'' (map encode_pair (sort_key fst q))"

definition values_get :: "(string \<times> string) list \<Rightarrow> string \<Rightarrow> string" where
  "values_get q k = (case map_of q k of None \<Rightarrow> [] | Some v \<Rightarrow> v)"

definition values_set :: "string \<Rightarrow> string \<Rightarrow> (string \<times> string) list \<Rightarrow> (string \<times> string) list" where
  "values_set k v q = filter (\<lambda>(a, _). a \<noteq> k) q @ [(k, v)]"

lemma nibbles: "of_char c div 16 < (16 :: nat)" "of_char c mod 16 < (16 :: nat)"
proof -
  have "of_char c < (256 :: nat)" by (rule nat_of_char_less_256)
  then show "of_char c div 16 < (16 :: nat)" by (rule less_mult_imp_div_less [of _ 16 16, simplified])
qed simp

lemma unhex_upper: "n < 16 \<Longrightarrow> unhex (upper_hex n) = Some n"
  by (auto simp: unhex_def upper_hex_def is_digit_def Let_def)

lemma unescape_escape: "query_unescape (query_escape s @ t) = map_option (\<lambda>u. s @ u) (query_unescape t)"
proof (induction s)
  case (Cons c s)
  have "c \<noteq> CHR ''%'' \<and> c \<noteq> CHR ''+''" if "unreserved c"
    using that by (auto simp: unreserved_def is_digit_def is_lower_def is_upper_def)
  moreover have "unhex (upper_hex (of_char c div 16)) = Some (of_char c div 16)" "unhex (upper_hex (of_char c mod 16)) = Some (of_char c mod 16)"
    using nibbles [of c] by (simp_all add: unhex_upper)
  ultimately show ?case using Cons
    by (auto simp: query_escape_def escape_char_def option.map_comp comp_def)
qed (simp add: query_escape_def option.map_ident)

lemma unescape_escape_all [simp]: "query_unescape (query_escape s) = Some s"
  using unescape_escape [of s "[]"] by simp

lemma upper_hex_alnum: "n < 16 \<Longrightarrow> is_digit (upper_hex n) \<or> is_upper (upper_hex n)"
  by (auto simp: upper_hex_def is_digit_def is_upper_def)

lemma query_escape_chars:
  assumes "x \<in> set (query_escape s)"
  shows "unreserved x \<or> x = CHR ''+'' \<or> x = CHR ''%''"
proof -
  have "unreserved x \<or> x = CHR ''+'' \<or> x = CHR ''%''" if "x \<in> set (escape_char c)" for c
    using that upper_hex_alnum [OF nibbles(1) [of c]] upper_hex_alnum [OF nibbles(2) [of c]]
    by (auto simp: escape_char_def unreserved_def split: if_splits)
  with assms show ?thesis by (auto simp: query_escape_def)
qed

lemma query_escape_clean: "CHR ''&'' \<notin> set (query_escape s)" "CHR ''='' \<notin> set (query_escape s)" "CHR '';'' \<notin> set (query_escape s)"
  using query_escape_chars [of "CHR ''&''" s] query_escape_chars [of "CHR ''=''" s] query_escape_chars [of "CHR '';''" s]
  by (auto simp: unreserved_def is_digit_def is_lower_def is_upper_def)

lemma parse_encode_pair [simp]: "parse_pair (encode_pair kv) = Some kv"
  using query_escape_clean by (auto simp: parse_pair_def encode_pair_def)

theorem parse_encode: "parse_query (encode_values q) = sort_key fst q"
proof (cases "sort_key fst q")
  case Nil
  then show ?thesis by (simp add: parse_query_def encode_values_def parse_pair_def map_filter_def)
next
  case (Cons kv kvs)
  have "split_on (CHR ''&'') (encode_values q) = map encode_pair (sort_key fst q)"
    unfolding encode_values_def using query_escape_clean
    by (intro split_join) (auto simp: Cons encode_pair_def)
  then show ?thesis by (simp add: parse_query_def map_filter_def comp_def)
qed

section \<open>Base64 decoding\<close>

definition b64url_value :: "char \<Rightarrow> nat option" where
  "b64url_value c =
     (let n = of_char c in
      if is_upper c then Some (n - 65) else if is_lower c then Some (n - 71) else if is_digit c then Some (n + 4)
      else if c = CHR ''-'' then Some 62 else if c = CHR ''_'' then Some 63 else None)"

fun b64url_bytes :: "nat list \<Rightarrow> bytes option" where
  "b64url_bytes [] = Some []"
| "b64url_bytes [a] = None"
| "b64url_bytes [a, b] = Some [word_of_nat (a * 4 + b div 16)]"
| "b64url_bytes [a, b, c] = Some [word_of_nat (a * 4 + b div 16), word_of_nat (b mod 16 * 16 + c div 4)]"
| "b64url_bytes (a # b # c # e # ns) =
     map_option (\<lambda>bs. [word_of_nat (a * 4 + b div 16), word_of_nat (b mod 16 * 16 + c div 4), word_of_nat (c mod 4 * 64 + e)] @ bs)
       (b64url_bytes ns)"

text \<open>Line ends are skipped; the unused bits of the last character are not looked at.\<close>

definition b64url_decode :: "string \<Rightarrow> bytes option" where
  "b64url_decode s =
     (case those (map b64url_value (filter (\<lambda>c. c \<noteq> CHR 0x0A \<and> c \<noteq> CHR 0x0D) s)) of
        None \<Rightarrow> None | Some ns \<Rightarrow> b64url_bytes ns)"

lemma b64url_value_char: "n < 64 \<Longrightarrow> b64url_value (b64url_char n) = Some n"
  by (auto simp: b64url_value_def b64url_char_def is_upper_def is_lower_def is_digit_def Let_def)

lemma b64url_char_clean: "n < 64 \<Longrightarrow> b64url_char n \<noteq> CHR 0x0A \<and> b64url_char n \<noteq> CHR 0x0D"
proof -
  assume n: "n < 64"
  have "b64url_value (CHR 0x0A) = None" "b64url_value (CHR 0x0D) = None" by code_simp+
  with b64url_value_char [OF n] show ?thesis by auto
qed

text \<open>The six-bit groups of a byte string.\<close>

fun sextets :: "bytes \<Rightarrow> nat list" where
  "sextets [] = []"
| "sextets [a] = [unat a div 4, unat a mod 4 * 16]"
| "sextets [a, b] = [unat a div 4, unat a mod 4 * 16 + unat b div 16, unat b mod 16 * 4]"
| "sextets (a # b # c # bs) =
     [unat a div 4, unat a mod 4 * 16 + unat b div 16, unat b mod 16 * 4 + unat c div 64, unat c mod 64] @ sextets bs"

lemma unat_byte: "unat (a :: byte) < 256"
  using unsigned_less [of a, where 'a = nat] by simp

lemma unat_quotients: "unat (a :: byte) div 4 < 64" "unat (a :: byte) div 16 < 16" "unat (a :: byte) div 64 < 4"
  using less_mult_imp_div_less [of "unat a" 64 4] less_mult_imp_div_less [of "unat a" 16 16] less_mult_imp_div_less [of "unat a" 4 64] unat_byte [of a]
  by simp_all

lemma join_less: "i < m \<Longrightarrow> j < k \<Longrightarrow> i * k + j < m * (k :: nat)"
proof -
  assume "i < m" "j < k"
  then have "i * k + j < (i + 1) * k" by simp
  also have "\<dots> \<le> m * k" using \<open>i < m\<close> by (intro mult_le_mono1) simp
  finally show ?thesis .
qed

lemma sextet_parts:
  "unat (a :: byte) mod 4 * 16 + unat (b :: byte) div 16 < 64" "unat a mod 16 * 4 + unat b div 64 < 64"
  "unat a mod 4 * 16 < 64" "unat a mod 16 * 4 < 64"
  using join_less [of "unat a mod 4" 4 "unat b div 16" 16] join_less [of "unat a mod 16" 16 "unat b div 64" 4]
    join_less [of "unat a mod 4" 4 0 16] join_less [of "unat a mod 16" 16 0 4] unat_quotients
  by simp_all

lemma sextets_less: "\<forall>n \<in> set (sextets bs). n < 64"
  by (induction bs rule: sextets.induct) (simp_all add: unat_quotients sextet_parts)

lemma encode_sextets: "b64url_encode bs = map b64url_char (sextets bs)"
  by (induction bs rule: sextets.induct) auto

lemma join_div: "j < k \<Longrightarrow> (i * k + j) div k = i" "j < k \<Longrightarrow> (i * k + j) mod k = (j :: nat)"
  by simp_all

lemma byte_of_parts:
  "word_of_nat (unat a div 4 * 4 + (unat a mod 4 * 16 + unat b div 16) div 16) = (a :: byte)"
  "word_of_nat ((unat a mod 4 * 16 + unat b div 16) mod 16 * 16 + (unat b mod 16 * 4 + unat c div 64) div 4) = (b :: byte)"
  "word_of_nat ((unat b mod 16 * 4 + unat c div 64) mod 4 * 64 + unat c mod 64) = (c :: byte)"
  using unat_quotients [of b] unat_quotients [of c] by (simp_all only: join_div div_mult_mod_eq, simp_all)

lemma byte_of_parts_end:
  "word_of_nat (unat a div 4 * 4 + unat a mod 4 * 16 div 16) = (a :: byte)"
  "word_of_nat ((unat a mod 4 * 16 + unat b div 16) mod 16 * 16 + unat b mod 16 * 4 div 4) = (b :: byte)"
  using byte_of_parts(1) [of a 0] byte_of_parts(2) [of a b 0] by simp_all

lemma bytes_sextets: "b64url_bytes (sextets bs) = Some bs"
  by (induction bs rule: sextets.induct)
    (simp_all only: sextets.simps append_Cons append_Nil b64url_bytes.simps byte_of_parts byte_of_parts_end option.map)

lemma those_values: "\<forall>n \<in> set ns. n < 64 \<Longrightarrow> those (map b64url_value (map b64url_char ns)) = Some ns"
  by (induction ns) (auto simp: b64url_value_char)

theorem b64url_roundtrip: "b64url_decode (b64url_encode bs) = Some bs"
proof -
  have "filter (\<lambda>c. c \<noteq> CHR 0x0A \<and> c \<noteq> CHR 0x0D) (map b64url_char (sextets bs)) = map b64url_char (sextets bs)"
    using sextets_less [of bs] b64url_char_clean by (auto intro!: filter_True)
  then show ?thesis
    by (simp add: b64url_decode_def encode_sextets those_values [OF sextets_less] bytes_sextets del: map_map)
qed

section \<open>Signed download tokens\<close>

definition downloadTokenPrefix :: string where
  "downloadTokenPrefix = ''bhdl_''"

definition unix :: "time \<Rightarrow> int" where
  "unix t = t div 1000000000"

definition mac_size :: nat where
  "mac_size = 32"

definition be64 :: "int \<Rightarrow> bytes" where
  "be64 n = rev (le_bytes 8 (nat (n mod 2 ^ 64)))"

definition be64_value :: "bytes \<Rightarrow> int" where
  "be64_value bs = int64_of_nat (le_value (rev bs))"

definition download_message :: "string \<Rightarrow> string \<Rightarrow> string \<Rightarrow> string \<Rightarrow> string \<Rightarrow> bool \<Rightarrow> int \<Rightarrow> string" where
  "download_message project version os arch fmt debug expUnix =
     join_with [CHR 0x00] [project, version, os, arch, fmt, if debug then ''1'' else ''0'', format_int expUnix]"

definition downloadMAC :: "(string \<Rightarrow> bytes) \<Rightarrow> string \<Rightarrow> string \<Rightarrow> string \<Rightarrow> string \<Rightarrow> string \<Rightarrow> bool \<Rightarrow> int \<Rightarrow> bytes" where
  "downloadMAC mac project version os arch fmt debug expUnix = mac (download_message project version os arch fmt debug expUnix)"

definition MintDownloadToken :: "(string \<Rightarrow> bytes) \<Rightarrow> string \<Rightarrow> string \<Rightarrow> string \<Rightarrow> string \<Rightarrow> string \<Rightarrow> bool \<Rightarrow> time \<Rightarrow> string" where
  "MintDownloadToken mac project version os arch fmt debug exp =
     downloadTokenPrefix @ b64url_encode (be64 (unix exp) @ downloadMAC mac project version os arch fmt debug (unix exp))"

definition VerifyDownloadToken :: "(string \<Rightarrow> bytes) \<Rightarrow> time \<Rightarrow> string \<Rightarrow> string \<Rightarrow> string \<Rightarrow> string \<Rightarrow> string \<Rightarrow> string \<Rightarrow> bool \<Rightarrow> bool" where
  "VerifyDownloadToken mac now token project version os arch fmt debug =
     (if \<not> has_prefix token downloadTokenPrefix then False
      else case b64url_decode (drop (length downloadTokenPrefix) token) of
        None \<Rightarrow> False
      | Some raw \<Rightarrow>
          if length raw \<noteq> 8 + mac_size then False
          else
            (let expUnix = be64_value (take 8 raw) in
             if unix now > expUnix then False
             else drop 8 raw = downloadMAC mac project version os arch fmt debug expUnix))"

lemma be64_length [simp]: "length (be64 n) = 8"
  by (simp add: be64_def)

lemma be64_roundtrip: "- (2 ^ 63) \<le> n \<Longrightarrow> n < 2 ^ 63 \<Longrightarrow> be64_value (be64 n) = n"
proof -
  assume n: "- (2 ^ 63) \<le> n" "n < 2 ^ 63"
  have "nat (n mod 2 ^ 64) < 256 ^ 8" by (simp add: nat_less_iff)
  then have "be64_value (be64 n) = int64_of_nat (nat (n mod 2 ^ 64))" by (simp add: be64_value_def be64_def le_value_bytes)
  also have "\<dots> = n"
  proof (cases "n < 0")
    case True
    then have "n mod 2 ^ 64 = n + 2 ^ 64" using n mod_add_self2 [of n "2 ^ 64"] by (simp del: mod_add_self2 mod_add_self1)
    with True n show ?thesis by (simp add: int64_of_nat_def)
  next
    case False
    with n show ?thesis by (simp add: int64_of_nat_def)
  qed
  finally show ?thesis .
qed

text \<open>The parts of a message without the separator can be read off.\<close>

lemma format_int_no_nul: "CHR 0x00 \<notin> set (format_int i)"
proof -
  have "CHR 0x00 \<notin> set (format_nat n)" for n using format_nat_digits [of "CHR 0x00" n] by (auto simp: is_digit_def)
  then show ?thesis by (simp add: format_int_def)
qed

lemma split_join_count:
  assumes "ss \<noteq> []" "length (split_on c (join_with [c] ss)) = length ss"
  shows "split_on c (join_with [c] ss) = ss"
proof -
  have longer: "length ts \<le> length (split_on c (join_with [c] ts))" if "ts \<noteq> []" for ts
    using that
  proof (induction ts rule: induct_list012)
    case (2 s)
    then show ?case by (simp add: Suc_leI)
  next
    case (3 s t ts)
    have "length (split_on c (join_with [c] (s # t # ts))) = length (split_on c s) + length (split_on c (join_with [c] (t # ts)))"
      by (simp add: split_on_append_sep)
    moreover have "1 \<le> length (split_on c s)" by (simp add: Suc_leI)
    ultimately show ?case using 3 by simp
  qed simp
  show ?thesis
    using assms
  proof (induction ss rule: induct_list012)
    case (2 s)
    then show ?case by (cases "split_on c s") (auto simp: length_Suc_conv, metis join_split join_with.simps(2))
  next
    case (3 s t ts)
    have len: "length (split_on c s) + length (split_on c (join_with [c] (t # ts))) = Suc (length (t # ts))"
      using 3(4) by (simp add: split_on_append_sep)
    moreover have "1 \<le> length (split_on c s)" by (simp add: Suc_leI)
    moreover have "length (t # ts) \<le> length (split_on c (join_with [c] (t # ts)))" by (rule longer) simp
    ultimately have one: "length (split_on c s) = 1" "length (split_on c (join_with [c] (t # ts))) = length (t # ts)" by auto
    have "split_on c s = [s]" using one(1) join_split [of c s] by (cases "split_on c s") auto
    with 3(2) one(2) show ?case by (simp add: split_on_append_sep)
  qed simp
qed

lemma download_message_inj:
  assumes "download_message p' v' os' arch' fmt' debug' e = download_message p v os arch fmt debug e"
    "\<forall>s \<in> {p, v, os, arch, fmt}. CHR 0x00 \<notin> set s"
  shows "(p', v', os', arch', fmt', debug') = (p, v, os, arch, fmt, debug)"
proof -
  let ?parts = "\<lambda>p v os arch fmt debug. [p, v, os, arch, fmt, if debug then ''1'' else ''0'', format_int e]"
  have split: "split_on (CHR 0x00) (join_with [CHR 0x00] (?parts p v os arch fmt debug)) = ?parts p v os arch fmt debug"
    using assms(2) format_int_no_nul [of e] by (intro split_join) auto
  then have "length (split_on (CHR 0x00) (join_with [CHR 0x00] (?parts p' v' os' arch' fmt' debug'))) = length (?parts p' v' os' arch' fmt' debug')"
    using assms(1) by (simp only: download_message_def) simp
  from split_join_count [OF _ this] split have "?parts p' v' os' arch' fmt' debug' = ?parts p v os arch fmt debug"
    using assms(1) by (simp only: download_message_def) simp
  then show ?thesis by (auto split: if_splits)
qed

text \<open>What the check accepts: an unexpired time, and the keyed hash of exactly the artifact asked for with it.\<close>

lemma VerifyDownloadToken_iff:
  "VerifyDownloadToken mac now token p v os arch fmt debug \<longleftrightarrow>
     (\<exists>raw. has_prefix token downloadTokenPrefix \<and> b64url_decode (drop (length downloadTokenPrefix) token) = Some raw \<and> length raw = 8 + mac_size
        \<and> unix now \<le> be64_value (take 8 raw) \<and> drop 8 raw = mac (download_message p v os arch fmt debug (be64_value (take 8 raw))))"
  by (auto simp: VerifyDownloadToken_def downloadMAC_def Let_def split: option.splits)

lemma Verify_Mint:
  assumes "\<forall>m. length (mac m) = mac_size" "- (2 ^ 63) \<le> unix exp" "unix exp < 2 ^ 63"
  shows "VerifyDownloadToken mac now (MintDownloadToken mac p v os arch fmt debug exp) p' v' os' arch' fmt' debug'
    \<longleftrightarrow> unix now \<le> unix exp \<and> mac (download_message p v os arch fmt debug (unix exp)) = mac (download_message p' v' os' arch' fmt' debug' (unix exp))"
  using assms by (simp add: VerifyDownloadToken_iff MintDownloadToken_def b64url_roundtrip be64_roundtrip downloadMAC_def)

text \<open>C17: a signed link opens exactly one thing: the token minted for a project, version, platform, format and
  debug flag is accepted for those and for nothing else, whatever the request asks for, until the second
  it expires. The keyed hash is taken not to collide on the two messages compared; the values a link is minted
  with contain no NUL, those of the request may.\<close>

theorem download_token_exact:
  assumes "\<forall>m. length (mac m) = mac_size" "- (2 ^ 63) \<le> unix exp" "unix exp < 2 ^ 63"
    and "\<forall>s \<in> {p, v, os, arch, fmt}. CHR 0x00 \<notin> set s"
    and "mac (download_message p v os arch fmt debug (unix exp)) = mac (download_message p' v' os' arch' fmt' debug' (unix exp))
      \<longrightarrow> download_message p v os arch fmt debug (unix exp) = download_message p' v' os' arch' fmt' debug' (unix exp)"
  shows "VerifyDownloadToken mac now (MintDownloadToken mac p v os arch fmt debug exp) p' v' os' arch' fmt' debug'
    \<longleftrightarrow> unix now \<le> unix exp \<and> (p', v', os', arch', fmt', debug') = (p, v, os, arch, fmt, debug)"
proof -
  note same = download_message_inj [OF sym [of "download_message p v os arch fmt debug (unix exp)"] assms(4)]
  show ?thesis unfolding Verify_Mint [OF assms(1-3)] using assms(5) same by blast
qed

section \<open>Parameters of a download\<close>

record params =
  sp_project :: string
  sp_version :: string
  sp_os :: OS
  sp_arch :: Arch
  sp_fmt :: string
  sp_debug :: bool
  sp_token :: string

definition params_for :: "string \<Rightarrow> params" where
  "params_for project = \<lparr>sp_project = project, sp_version = [], sp_os = [], sp_arch = [], sp_fmt = [], sp_debug = False, sp_token = []\<rparr>"

definition params_values :: "params \<Rightarrow> (string \<times> string) list" where
  "params_values p =
     (if sp_arch p \<noteq> [] then [(''arch'', sp_arch p)] else []) @ (if sp_debug p then [(''debug'', ''1'')] else []) @
     (if sp_fmt p \<noteq> [] then [(''fmt'', sp_fmt p)] else []) @ (if sp_project p \<noteq> [] then [(''project'', sp_project p)] else []) @
     (if sp_os p \<noteq> [] then [(''os'', sp_os p)] else []) @ (if sp_version p \<noteq> [] then [(''v'', sp_version p)] else []) @
     (if sp_token p \<noteq> [] then [(''token'', sp_token p)] else [])"

definition static_URL :: "string \<Rightarrow> params \<Rightarrow> string" where
  "static_URL base p =
     (let raw = encode_values (params_values p) in base @ ''/file'' @ (if raw = [] then [] else ''?'' @ raw))"

definition sign_params :: "(string \<Rightarrow> bytes) \<Rightarrow> params \<Rightarrow> time \<Rightarrow> params" where
  "sign_params mac p exp = p\<lparr>sp_token := MintDownloadToken mac (sp_project p) (sp_version p) (sp_os p) (sp_arch p) (sp_fmt p) (sp_debug p) exp\<rparr>"

definition SignedURL :: "(string \<Rightarrow> bytes) \<Rightarrow> string \<Rightarrow> params \<Rightarrow> time \<Rightarrow> string \<times> string" where
  "SignedURL mac base p exp = (let p' = sign_params mac p exp in (static_URL base p', sp_token p'))"

section \<open>Concrete instances\<close>

definition demo_mac :: "string \<Rightarrow> bytes" where
  "demo_mac m = take 32 (map (\<lambda>c. word_of_nat (of_char c)) m @ replicate 32 0)"

lemma demo_mac_size: "\<forall>m. length (demo_mac m) = mac_size"
  by (auto simp: demo_mac_def mac_size_def)

theorem download_token_exact_witness:
  "\<not> VerifyDownloadToken demo_mac 0 (MintDownloadToken demo_mac ''web'' ''1'' ''linux'' ''amd64'' ''raw'' False 0) ''web'' ''1'' ''darwin'' ''amd64'' ''raw'' False
   \<and> VerifyDownloadToken demo_mac 0 (MintDownloadToken demo_mac ''web'' ''1'' ''linux'' ''amd64'' ''raw'' False 0) ''web'' ''1'' ''linux'' ''amd64'' ''raw'' False"
proof -
  have differ: "demo_mac (download_message ''web'' ''1'' ''linux'' ''amd64'' ''raw'' False (unix 0)) \<noteq> demo_mac (download_message ''web'' ''1'' ''darwin'' ''amd64'' ''raw'' False (unix 0))"
    by code_simp
  have clean: "\<forall>s \<in> {''web'', ''1'', ''linux'', ''amd64'', ''raw''}. CHR 0x00 \<notin> set s" by simp
  have range: "- (2 ^ 63) \<le> unix 0" "unix 0 < 2 ^ 63" by (simp_all add: unix_def)
  note exact = download_token_exact [OF demo_mac_size range clean]
  show ?thesis
    using exact [of False "''web''" "''1''" "''darwin''" "''amd64''" "''raw''" False 0] exact [of False "''web''" "''1''" "''linux''" "''amd64''" "''raw''" False 0] differ
    by simp
qed

end
