(* ===== verification/Elf_Strip.thy ===== *)
theory Elf_Strip
  imports Storage Database
begin

text \<open>
  Splitting an ELF binary into a stripped binary and its debug file: \<open>internal/strip/elf.go\<close> and
  \<open>strip.go\<close>. A file is the list of its bytes. The fields of the format keep their width, so the
  sums of offsets and lengths wrap as they do in Go; an offset handed to the operating system is
  read as a signed number. \<open>make\<close> of more than \<open>alloc\<close> bytes panics. Temporary files are
  modelled as working: what can fail is what the content of the input makes fail.
\<close>

unbundle bit_operations_syntax

section \<open>Fields of a file\<close>

type_synonym u64 = "64 word"

definition uint_at :: "bool \<Rightarrow> nat \<Rightarrow> nat \<Rightarrow> bytes \<Rightarrow> nat" where
  "uint_at big n off bs = (let w = take n (drop off bs) in le_value (if big then rev w else w))"

definition put_uint :: "bool \<Rightarrow> nat \<Rightarrow> nat \<Rightarrow> nat \<Rightarrow> bytes \<Rightarrow> bytes" where
  "put_uint big n off v bs =
     take off bs @ (if big then rev (le_bytes n v) else le_bytes n v) @ drop (off + n) bs"

definition u16_at :: "bool \<Rightarrow> nat \<Rightarrow> bytes \<Rightarrow> 16 word" where "u16_at big off bs = word_of_nat (uint_at big 2 off bs)"
definition u32_at :: "bool \<Rightarrow> nat \<Rightarrow> bytes \<Rightarrow> 32 word" where "u32_at big off bs = word_of_nat (uint_at big 4 off bs)"
definition u64_at :: "bool \<Rightarrow> nat \<Rightarrow> bytes \<Rightarrow> u64" where "u64_at big off bs = word_of_nat (uint_at big 8 off bs)"

datatype elf_err =
    ErrNotELF
  | ErrUnsupportedELF
  | ReadFailed string
  | SeekFailed
  | CopyFailed
  | Panicked

definition make_bytes :: "nat \<Rightarrow> nat \<Rightarrow> elf_err + bytes" where
  "make_bytes alloc n = (if n > alloc then Inl Panicked else Inr (replicate n 0))"

text \<open>\<open>ReadAt\<close>: a full buffer or an error; a negative offset is an error.\<close>

definition read_at :: "string \<Rightarrow> bytes \<Rightarrow> nat \<Rightarrow> int \<Rightarrow> elf_err + bytes" where
  "read_at what f n off =
     (if off < 0 \<or> length (take n (drop (nat off) f)) < n then Inl (ReadFailed what) else Inr (take n (drop (nat off) f)))"

text \<open>\<open>Seek\<close> followed by \<open>CopyN\<close>: a negative count copies nothing and is no error.\<close>

definition seek_copy :: "bytes \<Rightarrow> int \<Rightarrow> int \<Rightarrow> elf_err + bytes" where
  "seek_copy f off n =
     (if off < 0 then Inl SeekFailed
      else if n \<le> 0 then Inr []
      else if length (drop (nat off) f) < nat n then Inl CopyFailed
      else Inr (take (nat n) (drop (nat off) f)))"

section \<open>Sections\<close>

definition elfMagic :: bytes where "elfMagic = [0x7f, 0x45, 0x4c, 0x46]"
definition elfHeaderSize64 :: nat where "elfHeaderSize64 = 64"
definition sectionEntrySize :: nat where "sectionEntrySize = 64"
definition offPhoff :: nat where "offPhoff = 0x20"
definition offShoff :: nat where "offShoff = 0x28"
definition offEhsize :: nat where "offEhsize = 0x34"
definition offPhentsize :: nat where "offPhentsize = 0x36"
definition offPhnum :: nat where "offPhnum = 0x38"
definition offShentsize :: nat where "offShentsize = 0x3a"
definition offShnum :: nat where "offShnum = 0x3c"
definition offShstrndx :: nat where "offShstrndx = 0x3e"
definition shName :: nat where "shName = 0x00"
definition shType :: nat where "shType = 0x04"
definition shFlags :: nat where "shFlags = 0x08"
definition shOffset :: nat where "shOffset = 0x18"
definition shSize :: nat where "shSize = 0x20"
definition shAddralign :: nat where "shAddralign = 0x30"
definition shtNobits :: "32 word" where "shtNobits = 8"
definition shfAlloc :: u64 where "shfAlloc = 2"

lemmas elf_consts = elfMagic_def elfHeaderSize64_def sectionEntrySize_def offPhoff_def offShoff_def offEhsize_def
  offPhentsize_def offPhnum_def offShentsize_def offShnum_def offShstrndx_def shName_def shType_def shFlags_def
  shOffset_def shSize_def shAddralign_def shtNobits_def shfAlloc_def

record elf_section =
  sc_raw :: bytes
  sc_name :: string
  sc_typ :: "32 word"
  sc_flags :: u64
  sc_offset :: u64
  sc_size :: u64
  sc_addralign :: u64
  sc_keep :: bool
  sc_new_offset :: u64

record elf_image =
  im_header :: bytes
  im_big :: bool
  im_sections :: "elf_section list"
  im_shstrndx :: nat

definition sec_alloc :: "elf_section \<Rightarrow> bool" where "sec_alloc s \<longleftrightarrow> sc_flags s AND shfAlloc \<noteq> 0"

definition hasData :: "elf_section \<Rightarrow> bool" where "hasData s \<longleftrightarrow> sc_typ s \<noteq> shtNobits \<and> sc_size s > 0"

definition fileEnd :: "elf_section \<Rightarrow> u64" where
  "fileEnd s = (if \<not> hasData s then sc_offset s else sc_offset s + sc_size s)"

definition parse_section :: "bool \<Rightarrow> bytes \<Rightarrow> elf_section" where
  "parse_section big raw = \<lparr>sc_raw = raw, sc_name = [], sc_typ = u32_at big shType raw, sc_flags = u64_at big shFlags raw,
     sc_offset = u64_at big shOffset raw, sc_size = u64_at big shSize raw, sc_addralign = u64_at big shAddralign raw,
     sc_keep = False, sc_new_offset = 0\<rparr>"

fun parse_sections :: "bool \<Rightarrow> nat \<Rightarrow> bytes \<Rightarrow> nat list \<Rightarrow> elf_err + elf_section list" where
  "parse_sections big sz table [] = Inr []"
| "parse_sections big sz table (i # is) =
     (let s = parse_section big (take sectionEntrySize (drop (i * sectionEntrySize) table)) in
      if hasData s \<and> fileEnd s > word_of_nat sz then Inl ErrUnsupportedELF
      else case parse_sections big sz table is of Inl e \<Rightarrow> Inl e | Inr ss \<Rightarrow> Inr (s # ss))"

definition bytes_string :: "bytes \<Rightarrow> string" where
  "bytes_string bs = map (\<lambda>b. char_of (unat b)) bs"

definition name_section :: "bool \<Rightarrow> bytes \<Rightarrow> u64 \<Rightarrow> elf_section \<Rightarrow> elf_section" where
  "name_section big names sz s =
     (let off = u32_at big shName (sc_raw s) in
      if unat off \<ge> unat sz then s
      else s\<lparr>sc_name := bytes_string (takeWhile (\<lambda>b. b \<noteq> 0) (drop (unat off) names))\<rparr>)"

definition byte_order :: "byte \<Rightarrow> bool option" where
  "byte_order b = (if b = 1 then Some False else if b = 2 then Some True else None)"

text \<open>The section table and the names, once the header has been accepted.\<close>

definition parse_table :: "nat \<Rightarrow> bytes \<Rightarrow> bool \<Rightarrow> u64 \<Rightarrow> nat \<Rightarrow> nat \<Rightarrow> elf_err + elf_image" where
  "parse_table alloc data big shoff shnum shstrndx =
     bind_res (make_bytes alloc (shnum * sectionEntrySize)) (\<lambda>_.
     bind_res (read_at ''read section table'' data (shnum * sectionEntrySize) (sint shoff)) (\<lambda>table.
     bind_res (parse_sections big (length data) table [0..<shnum]) (\<lambda>sections.
       let strtab = sections ! shstrndx in
       if \<not> hasData strtab then Inl ErrUnsupportedELF
       else
         bind_res (make_bytes alloc (unat (sc_size strtab))) (\<lambda>_.
         bind_res (read_at ''read section names'' data (unat (sc_size strtab)) (sint (sc_offset strtab))) (\<lambda>names.
           Inr \<lparr>im_header = take elfHeaderSize64 data, im_big = big,
                im_sections = map (name_section big names (sc_size strtab)) sections, im_shstrndx = shstrndx\<rparr>)))))"

definition parseELF64 :: "nat \<Rightarrow> bytes \<Rightarrow> elf_err + elf_image" where
  "parseELF64 alloc data =
     (let hdr = take elfHeaderSize64 data in
      if length data < elfHeaderSize64 then Inl ErrNotELF
      else if take 4 hdr \<noteq> elfMagic then Inl ErrNotELF
      else if hdr ! 4 \<noteq> 2 then Inl ErrUnsupportedELF
      else case byte_order (hdr ! 5) of
        None \<Rightarrow> Inl ErrUnsupportedELF
      | Some big \<Rightarrow>
          (let shoff = u64_at big offShoff hdr; shentsize = u16_at big offShentsize hdr;
               shnum = u16_at big offShnum hdr; shstrndx = u16_at big offShstrndx hdr in
           if shoff = 0 \<or> shnum = 0 \<or> shstrndx = 0xffff then Inl ErrUnsupportedELF
           else if unat shentsize \<noteq> sectionEntrySize then Inl ErrUnsupportedELF
           else if shoff + ucast shnum * ucast shentsize > word_of_nat (length data) then Inl ErrUnsupportedELF
           else if unat shstrndx \<ge> unat shnum then Inl ErrUnsupportedELF
           else parse_table alloc data big shoff (unat shnum) (unat shstrndx)))"

section \<open>The plan\<close>

definition strippable :: "elf_section \<Rightarrow> bool" where
  "strippable s \<longleftrightarrow>
     (if sec_alloc s then False
      else if sc_name s \<in> {''.symtab'', ''.strtab'', ''.gdb_index'', ''.gnu_debuglink'', ''.comment.SUSE.OPTs''} then True
      else has_prefix (sc_name s) ''.debug_'' \<or> has_prefix (sc_name s) ''.zdebug_'' \<or> has_prefix (sc_name s) ''.stab'')"

fun plan_sections :: "nat \<Rightarrow> nat \<Rightarrow> elf_section list \<Rightarrow> u64 \<Rightarrow> elf_section list \<times> u64" where
  "plan_sections shstrndx i [] prefixEnd = ([], prefixEnd)"
| "plan_sections shstrndx i (s # ss) prefixEnd =
     (let s' = s\<lparr>sc_keep := i = 0 \<or> i = shstrndx \<or> \<not> strippable s\<rparr>;
          p' = (if sec_alloc s \<and> hasData s \<and> fileEnd s > prefixEnd then fileEnd s else prefixEnd) in
      case plan_sections shstrndx (i + 1) ss p' of (ss', p'') \<Rightarrow> (s' # ss', p''))"

definition header_end :: "elf_image \<Rightarrow> u64" where
  "header_end img =
     (let big = im_big img; hdr = im_header img; ehsize = ucast (u16_at big offEhsize hdr); phoff = u64_at big offPhoff hdr;
          end = phoff + ucast (u16_at big offPhnum hdr) * ucast (u16_at big offPhentsize hdr) in
      if phoff > 0 \<and> end > ehsize then end else ehsize)"

definition plan :: "elf_image \<Rightarrow> elf_image \<times> u64" where
  "plan img =
     (case plan_sections (im_shstrndx img) 0 (im_sections img) (header_end img) of
        (ss, prefixEnd) \<Rightarrow> (img\<lparr>im_sections := ss\<rparr>, prefixEnd))"

definition align :: "u64 \<Rightarrow> u64 \<Rightarrow> u64" where
  "align n a = (if a \<le> 1 then n else if n mod a \<noteq> 0 then n + (a - n mod a) else n)"

section \<open>The two outputs\<close>

text \<open>Padding and the copy of one section, appended to what has been written.\<close>

definition append_section :: "nat \<Rightarrow> bytes \<Rightarrow> elf_section \<Rightarrow> bytes \<Rightarrow> u64 \<Rightarrow> elf_err + bytes \<times> u64" where
  "append_section alloc data s out pos =
     (let padded = align pos (sc_addralign s) in
      bind_res (if padded > pos then make_bytes alloc (unat (padded - pos)) else Inr []) (\<lambda>pad.
      bind_res (seek_copy data (sint (sc_offset s)) (sint (sc_size s))) (\<lambda>content.
        Inr (out @ pad @ content, if padded > pos then padded else pos))))"

fun copy_sections :: "nat \<Rightarrow> bytes \<Rightarrow> (elf_section \<Rightarrow> bool) \<Rightarrow> (elf_section \<Rightarrow> bool) \<Rightarrow> elf_section list \<Rightarrow> bytes \<Rightarrow> u64 \<Rightarrow> elf_err + elf_section list \<times> bytes \<times> u64" where
  "copy_sections alloc data skip stays [] out pos = Inr ([], out, pos)"
| "copy_sections alloc data skip stays (s # ss) out pos =
     (if skip s then
        bind_res (copy_sections alloc data skip stays ss out pos) (\<lambda>(ss', out', pos'). Inr (s # ss', out', pos'))
      else if stays s then
        bind_res (copy_sections alloc data skip stays ss out pos)
          (\<lambda>(ss', out', pos'). Inr (s\<lparr>sc_new_offset := sc_offset s\<rparr> # ss', out', pos'))
      else
        bind_res (append_section alloc data s out pos) (\<lambda>(out1, at).
        bind_res (copy_sections alloc data skip stays ss out1 (at + sc_size s))
          (\<lambda>(ss', out', pos'). Inr (s\<lparr>sc_new_offset := at\<rparr> # ss', out', pos'))))"

definition entry_bytes :: "bool \<Rightarrow> (elf_section \<Rightarrow> u64 \<times> 32 word) \<Rightarrow> elf_section \<Rightarrow> bytes" where
  "entry_bytes big entry s =
     (case entry s of (off, typ) \<Rightarrow>
      put_uint big 4 shType (unat typ) (put_uint big 8 shOffset (unat off) (take sectionEntrySize (sc_raw s))))"

fun new_index :: "(elf_section \<Rightarrow> bool) \<Rightarrow> nat \<Rightarrow> nat \<Rightarrow> nat \<Rightarrow> nat \<Rightarrow> elf_section list \<Rightarrow> nat \<times> nat" where
  "new_index incl shstrndx i count idx [] = (count, idx)"
| "new_index incl shstrndx i count idx (s # ss) =
     (if \<not> incl s then new_index incl shstrndx (i + 1) count idx ss
      else new_index incl shstrndx (i + 1) (count + 1) (if i = shstrndx then count else idx) ss)"

definition writeSectionTable :: "nat \<Rightarrow> elf_image \<Rightarrow> elf_section list \<Rightarrow> bytes \<Rightarrow> u64 \<Rightarrow> (elf_section \<Rightarrow> bool) \<Rightarrow> (bytes \<Rightarrow> bytes)
    \<Rightarrow> (elf_section \<Rightarrow> u64 \<times> 32 word) \<Rightarrow> elf_err + bytes" where
  "writeSectionTable alloc img ss out pos incl patchHeader entry =
     (let big = im_big img; shoff = align pos 8 in
      bind_res (if shoff > pos then make_bytes alloc (unat (shoff - pos)) else Inr []) (\<lambda>pad.
      (case new_index incl (im_shstrndx img) 0 0 0 ss of (count, newIndex) \<Rightarrow>
       let table = concat (map (entry_bytes big entry) (filter incl ss));
           hdr = put_uint big 2 offShstrndx newIndex (put_uint big 2 offShnum count
                   (put_uint big 8 offShoff (unat shoff) (im_header img)));
           file = out @ pad @ table
       in Inr (patchHeader hdr @ drop elfHeaderSize64 file))))"

definition writeStripped :: "nat \<Rightarrow> bytes \<Rightarrow> elf_image \<Rightarrow> u64 \<Rightarrow> elf_err + bytes" where
  "writeStripped alloc data img prefixEnd =
     bind_res (seek_copy data 0 (sint prefixEnd)) (\<lambda>prefix.
     bind_res (copy_sections alloc data (\<lambda>s. \<not> sc_keep s) (\<lambda>s. \<not> hasData s \<or> fileEnd s \<le> prefixEnd)
         (im_sections img) prefix prefixEnd) (\<lambda>(ss, out, pos).
       writeSectionTable alloc img ss out pos sc_keep (\<lambda>h. h) (\<lambda>s. (sc_new_offset s, sc_typ s))))"

definition carries :: "elf_section \<Rightarrow> bool" where
  "carries s \<longleftrightarrow> hasData s \<and> (\<not> sc_keep s \<or> sc_name s = ''.shstrtab'' \<or> sc_name s = ''.note.gnu.build-id'')"

definition dropPhdrs :: "bool \<Rightarrow> bytes \<Rightarrow> bytes" where
  "dropPhdrs big hdr = put_uint big 2 offPhnum 0 (put_uint big 8 offPhoff 0 hdr)"

definition writeDebug :: "nat \<Rightarrow> bytes \<Rightarrow> elf_image \<Rightarrow> elf_err + bytes" where
  "writeDebug alloc data img =
     bind_res (copy_sections alloc data (\<lambda>s. False) (\<lambda>s. \<not> carries s)
         (im_sections img) (im_header img) (word_of_nat elfHeaderSize64)) (\<lambda>(ss, out, pos).
       writeSectionTable alloc img ss out pos (\<lambda>s. True) (dropPhdrs (im_big img))
         (\<lambda>s. (sc_new_offset s, if carries s then sc_typ s else shtNobits)))"

definition stripELF64 :: "nat \<Rightarrow> bytes \<Rightarrow> elf_err + bytes \<times> bytes" where
  "stripELF64 alloc data =
     bind_res (parseELF64 alloc data) (\<lambda>img.
       case plan img of (img', prefixEnd) \<Rightarrow>
       bind_res (writeStripped alloc data img' prefixEnd) (\<lambda>stripped.
       bind_res (writeDebug alloc data img') (\<lambda>debug. Inr (stripped, debug))))"

text \<open>The stream variants: the input is spooled first; the result is one of the outputs and its
  length.\<close>

definition stripStream :: "nat \<Rightarrow> reader \<Rightarrow> bool \<Rightarrow> elf_err + bytes \<times> int" where
  "stripStream alloc r debug =
     (if rd_end r \<noteq> IoEOF then Inl CopyFailed
      else bind_res (stripELF64 alloc (rd_bytes r)) (\<lambda>(stripped, dbg).
        let keep = (if debug then dbg else stripped) in Inr (keep, int (length keep))))"

definition StripReader :: "nat \<Rightarrow> reader \<Rightarrow> elf_err + bytes \<times> int" where
  "StripReader alloc r = stripStream alloc r False"

definition StripReaderDebug :: "nat \<Rightarrow> reader \<Rightarrow> elf_err + bytes \<times> int" where
  "StripReaderDebug alloc r = stripStream alloc r True"

definition StripBytes :: "nat \<Rightarrow> bytes \<Rightarrow> elf_err + bytes \<times> bytes" where
  "StripBytes alloc data = stripELF64 alloc data"

text \<open>A stored blob as a stream: one that does not decode fails when it is read.\<close>

definition blob_reader :: "bytes option \<Rightarrow> reader" where
  "blob_reader b = (case b of
       Some m \<Rightarrow> \<lparr>rd_segs = [m], rd_end = IoEOF, rd_eager = False\<rparr>
     | None \<Rightarrow> \<lparr>rd_segs = [], rd_end = IoFailed, rd_eager = False\<rparr>)"

definition LooksELF :: "reader \<Rightarrow> bool" where
  "LooksELF r \<longleftrightarrow> length (rd_bytes r) \<ge> 4 \<and> take 4 (rd_bytes r) = elfMagic"

section \<open>Reading back what was written\<close>

lemma le_value_less: "le_value bs < 256 ^ length bs"
proof (induction bs)
  case (Cons b bs)
  have "unat b < 256" using unsigned_less [of b, where 'a = nat] by simp
  with Cons show ?case by simp
qed simp

lemma uint_at_less: "uint_at big n off bs < 256 ^ n"
proof -
  have "le_value (if big then rev (take n (drop off bs)) else take n (drop off bs)) < 256 ^ length (take n (drop off bs))"
    using le_value_less [of "if big then rev (take n (drop off bs)) else take n (drop off bs)"] by (simp split: if_splits)
  also have "\<dots> \<le> 256 ^ n" by (intro power_increasing) simp_all
  finally show ?thesis by (simp add: uint_at_def Let_def)
qed

lemma put_uint_length [simp]: "off + n \<le> length bs \<Longrightarrow> length (put_uint big n off v bs) = length bs"
  by (simp add: put_uint_def)

lemma put_uint_at:
  assumes "off + n \<le> length bs" "v < 256 ^ n"
  shows "uint_at big n off (put_uint big n off v bs) = v"
  using assms by (simp add: uint_at_def put_uint_def Let_def le_value_bytes)

lemma put_uint_nth:
  assumes "off + n \<le> length bs" "i < off \<or> off + n \<le> i"
  shows "put_uint big n off v bs ! i = bs ! i"
  using assms by (auto simp: put_uint_def nth_append)

lemma put_uint_window:
  assumes "off + n \<le> length bs" "k + m \<le> off \<or> off + n \<le> k"
  shows "take m (drop k (put_uint big n off v bs)) = take m (drop k bs)"
  by (rule nth_equalityI) (use assms in \<open>auto simp: put_uint_nth\<close>)

lemma put_uint_other:
  assumes "off + n \<le> length bs" "k + m \<le> off \<or> off + n \<le> k"
  shows "uint_at big' m k (put_uint big n off v bs) = uint_at big' m k bs"
  unfolding uint_at_def put_uint_window [OF assms] ..

section \<open>Layout without wrap-around\<close>

lemma align_bounds:
  assumes "unat pos < 2 ^ 62" "unat a \<le> 2 ^ 40"
  shows "unat pos \<le> unat (align pos a)" "unat (align pos a) \<le> unat pos + 2 ^ 40"
proof -
  have "unat pos \<le> unat (align pos a) \<and> unat (align pos a) \<le> unat pos + 2 ^ 40"
  proof (cases "a \<le> 1 \<or> pos mod a = 0")
    case True
    then show ?thesis by (auto simp: align_def)
  next
    case False
    then have a: "1 < unat a" by (simp add: word_le_nat_alt)
    then have md: "unat (pos mod a) = unat pos mod unat a" "unat pos mod unat a < unat a" by (simp_all add: unat_mod)
    have sub: "unat (a - pos mod a) = unat a - unat pos mod unat a"
      using md by (subst unat_sub) (simp_all add: word_le_nat_alt)
    have "unat pos + (unat a - unat pos mod unat a) \<le> unat pos + unat a" by simp
    also have "\<dots> < 2 ^ 64" using assms by simp
    finally have "unat pos + (unat a - unat pos mod unat a) < 2 ^ 64" .
    then have "unat (pos + (a - pos mod a)) = unat pos + (unat a - unat pos mod unat a)"
      using sub by (simp add: unat_word_ariths)
    with False assms(2) show ?thesis by (simp add: align_def)
  qed
  then show "unat pos \<le> unat (align pos a)" "unat (align pos a) \<le> unat pos + 2 ^ 40" by auto
qed

lemma sint_small:
  assumes "unat (w :: u64) < 2 ^ 63"
  shows "sint w = int (unat w)"
proof -
  from assms have small: "int (unat w) < 2 ^ 63" by (metis of_nat_less_iff of_nat_numeral of_nat_power)
  have "sint w = signed_take_bit 63 (int (unat w))" using sint_uint [of w] by simp
  also have "\<dots> = int (unat w)"
  proof (rule signed_take_bit_int_eq_self)
    show "- (2 ^ 63) \<le> int (unat w)" by (rule order_trans [of _ 0]) simp_all
  qed (rule small)
  finally show ?thesis .
qed

lemma seek_copy_ok:
  assumes "off + n \<le> length f"
  shows "seek_copy f (int off) (int n) = Inr (take n (drop off f))"
  using assms by (auto simp: seek_copy_def)

definition in_file :: "bytes \<Rightarrow> elf_section \<Rightarrow> bool" where
  "in_file data s \<longleftrightarrow> unat (sc_offset s) + unat (sc_size s) \<le> length data"

definition content_at :: "bytes \<Rightarrow> u64 \<Rightarrow> u64 \<Rightarrow> bytes" where
  "content_at f off sz = take (unat sz) (drop (unat off) f)"

text \<open>A section that is appended: its bytes, at a position the counter knows.\<close>

lemma append_section_ok:
  assumes "unat pos = length out" "length out < 2 ^ 62" "in_file data s" "length data < 2 ^ 40"
    "unat (sc_addralign s) \<le> 2 ^ 40" "2 ^ 40 \<le> alloc"
  obtains pad where "append_section alloc data s out pos =
      Inr (out @ pad @ content_at data (sc_offset s) (sc_size s), align pos (sc_addralign s))"
    "unat (align pos (sc_addralign s)) = length out + length pad" "length pad \<le> 2 ^ 40"
proof -
  let ?p = "align pos (sc_addralign s)"
  have pos: "unat pos < 2 ^ 62" using assms(1,2) by simp
  note b = align_bounds [OF pos assms(5)]
  have "unat (?p - pos) = unat ?p - unat pos" using b(1) by (intro unat_sub) (simp add: word_le_nat_alt)
  then have pad: "(if ?p > pos then make_bytes alloc (unat (?p - pos)) else Inr []) = Inr (replicate (unat ?p - unat pos) 0)"
    using b assms(6) by (auto simp: make_bytes_def word_less_nat_alt)
  have small: "unat (sc_offset s) < 2 ^ 63" "unat (sc_size s) < 2 ^ 63" using assms(3,4) by (auto simp: in_file_def)
  have "seek_copy data (sint (sc_offset s)) (sint (sc_size s)) = Inr (content_at data (sc_offset s) (sc_size s))"
    unfolding sint_small [OF small(1)] sint_small [OF small(2)] content_at_def
    using assms(3) by (intro seek_copy_ok) (simp add: in_file_def)
  moreover have "(if ?p > pos then ?p else pos) = ?p" using b(1) by (auto simp: word_less_nat_alt unat_arith_simps)
  ultimately have "append_section alloc data s out pos =
      Inr (out @ replicate (unat ?p - unat pos) 0 @ content_at data (sc_offset s) (sc_size s), ?p)"
    using pad by (simp add: append_section_def Let_def)
  moreover have "unat ?p = length out + length (replicate (unat ?p - unat pos) (0 :: byte))" using assms(1) b(1) by simp
  moreover have "length (replicate (unat ?p - unat pos) (0 :: byte)) \<le> 2 ^ 40" using b(2) by simp
  ultimately show thesis by (rule that)
qed

text \<open>Where a section ends up.\<close>

definition placed :: "(elf_section \<Rightarrow> bool) \<Rightarrow> (elf_section \<Rightarrow> bool) \<Rightarrow> bytes \<Rightarrow> bytes \<Rightarrow> nat \<Rightarrow> elf_section \<Rightarrow> elf_section \<Rightarrow> bool" where
  "placed skip stays data out lo s s' \<longleftrightarrow>
     (if skip s then s' = s
      else if stays s then s' = s\<lparr>sc_new_offset := sc_offset s\<rparr>
      else s' = s\<lparr>sc_new_offset := sc_new_offset s'\<rparr> \<and> lo \<le> unat (sc_new_offset s')
        \<and> unat (sc_new_offset s') + unat (sc_size s) \<le> length out
        \<and> content_at out (sc_new_offset s') (sc_size s) = content_at data (sc_offset s) (sc_size s))"

lemma content_length: "in_file data s \<Longrightarrow> length (content_at data (sc_offset s) (sc_size s)) = unat (sc_size s)"
  by (simp add: content_at_def in_file_def)

lemma content_append:
  "unat at + unat sz \<le> length out \<Longrightarrow> content_at (out @ more') at sz = content_at out at sz"
  by (simp add: content_at_def)

lemma placed_append:
  "placed skip stays data out lo s s' \<Longrightarrow> placed skip stays data (out @ more') lo s s'"
  by (simp add: placed_def content_append split: if_splits)

lemma placed_lower: "placed skip stays data out lo s s' \<Longrightarrow> lo' \<le> lo \<Longrightarrow> placed skip stays data out lo' s s'"
  by (auto simp: placed_def)

lemma copy_sections_ok:
  assumes "unat pos = length out" "length out + length ss * 2 ^ 42 < 2 ^ 62" "length data < 2 ^ 40" "2 ^ 40 \<le> alloc"
    "\<forall>s \<in> set ss. \<not> skip s \<and> \<not> stays s \<longrightarrow> in_file data s \<and> unat (sc_addralign s) \<le> 2 ^ 40"
  shows "\<exists>ss' tail pos'. copy_sections alloc data skip stays ss out pos = Inr (ss', out @ tail, pos')
    \<and> unat pos' = length (out @ tail) \<and> length tail \<le> length ss * 2 ^ 42
    \<and> list_all2 (placed skip stays data (out @ tail) (length out)) ss ss'"
  using assms
proof (induction ss arbitrary: out pos)
  case Nil
  then show ?case by (intro exI [of _ "[]"] exI [of _ pos]) simp
next
  case (Cons s ss)
  show ?case
  proof (cases "skip s \<or> stays s")
    case True
    have "\<exists>ss' tail pos'. copy_sections alloc data skip stays ss out pos = Inr (ss', out @ tail, pos')
      \<and> unat pos' = length (out @ tail) \<and> length tail \<le> length ss * 2 ^ 42
      \<and> list_all2 (placed skip stays data (out @ tail) (length out)) ss ss'"
      using Cons.prems by (intro Cons.IH) auto
    then obtain ss' tail pos' where IH: "copy_sections alloc data skip stays ss out pos = Inr (ss', out @ tail, pos')"
      "unat pos' = length (out @ tail)" "length tail \<le> length ss * 2 ^ 42"
      "list_all2 (placed skip stays data (out @ tail) (length out)) ss ss'" by blast
    let ?s' = "if skip s then s else s\<lparr>sc_new_offset := sc_offset s\<rparr>"
    have "placed skip stays data (out @ tail) (length out) s ?s'" using True by (auto simp: placed_def)
    with IH True show ?thesis
      by (intro exI [of _ "?s' # ss'"] exI [of _ tail] exI [of _ pos']) auto
  next
    case False
    then have s: "in_file data s" "unat (sc_addralign s) \<le> 2 ^ 40" using Cons.prems(5) by auto
    have out: "length out < 2 ^ 62" using Cons.prems(2) by linarith
    obtain pad where app: "append_section alloc data s out pos =
        Inr (out @ pad @ content_at data (sc_offset s) (sc_size s), align pos (sc_addralign s))"
      "unat (align pos (sc_addralign s)) = length out + length pad" "length pad \<le> 2 ^ 40"
      by (rule append_section_ok [OF Cons.prems(1) out s(1) Cons.prems(3) s(2) Cons.prems(4)])
    let ?at = "align pos (sc_addralign s)" and ?c = "content_at data (sc_offset s) (sc_size s)"
    let ?out = "out @ pad @ ?c"
    have c: "length ?c = unat (sc_size s)" "unat (sc_size s) < 2 ^ 40"
      using s(1) Cons.prems(3) by (auto simp: content_length in_file_def)
    have bound: "length ?out + length ss * 2 ^ 42 < 2 ^ 62" using Cons.prems(2) app(3) c by simp
    have pos: "unat (?at + sc_size s) = length ?out"
      using app(2) c bound by (subst unat_add_lem [THEN iffD1]) auto
    obtain ss' tail pos' where IH: "copy_sections alloc data skip stays ss ?out (?at + sc_size s) = Inr (ss', ?out @ tail, pos')"
      "unat pos' = length (?out @ tail)" "length tail \<le> length ss * 2 ^ 42"
      "list_all2 (placed skip stays data (?out @ tail) (length ?out)) ss ss'"
      using Cons.IH [OF pos bound Cons.prems(3,4)] Cons.prems(5) by auto
    have "placed skip stays data (?out @ tail) (length out) s (s\<lparr>sc_new_offset := ?at\<rparr>)"
      using False app(2) c(1) by (auto simp: placed_def content_at_def)
    moreover have "list_all2 (placed skip stays data (?out @ tail) (length out)) ss ss'"
      using IH(4) by (rule list_all2_mono) (auto intro: placed_lower)
    ultimately show ?thesis using False app IH c
      by (intro exI [of _ "s\<lparr>sc_new_offset := ?at\<rparr> # ss'"] exI [of _ "pad @ ?c @ tail"] exI [of _ pos']) auto
  qed
qed

section \<open>Parsing\<close>

definition raw_entry :: "bytes \<Rightarrow> nat \<Rightarrow> bytes" where
  "raw_entry table i = take sectionEntrySize (drop (i * sectionEntrySize) table)"

lemma parse_sections_eq:
  "parse_sections big sz table is =
     (if \<forall>i \<in> set is. hasData (parse_section big (raw_entry table i)) \<longrightarrow> fileEnd (parse_section big (raw_entry table i)) \<le> word_of_nat sz
      then Inr (map (\<lambda>i. parse_section big (raw_entry table i)) is) else Inl ErrUnsupportedELF)"
  by (induction "is") (auto simp: Let_def raw_entry_def not_less)

lemma parse_sections_iff:
  "parse_sections big sz table is = Inr ss \<longleftrightarrow>
     ss = map (\<lambda>i. parse_section big (raw_entry table i)) is
     \<and> (\<forall>s \<in> set ss. hasData s \<longrightarrow> fileEnd s \<le> word_of_nat sz)"
  by (auto simp: parse_sections_eq)

lemma parse_section_raw [simp]: "sc_raw (parse_section big r) = r" "sc_name (parse_section big r) = []"
  "sc_keep (parse_section big r) = False"
  by (simp_all add: parse_section_def)

lemma name_section_fields [simp]:
  "sc_raw (name_section big names sz s) = sc_raw s" "sc_typ (name_section big names sz s) = sc_typ s"
  "sc_flags (name_section big names sz s) = sc_flags s" "sc_offset (name_section big names sz s) = sc_offset s"
  "sc_size (name_section big names sz s) = sc_size s" "sc_addralign (name_section big names sz s) = sc_addralign s"
  "hasData (name_section big names sz s) = hasData s" "sec_alloc (name_section big names sz s) = sec_alloc s"
  "fileEnd (name_section big names sz s) = fileEnd s"
  by (simp_all add: name_section_def hasData_def sec_alloc_def fileEnd_def Let_def)

text \<open>A file laid out as the format asks for is accepted, and what is read is what lies there.\<close>

definition header_ok :: "bool \<Rightarrow> nat \<Rightarrow> nat \<Rightarrow> nat \<Rightarrow> bytes \<Rightarrow> bool" where
  "header_ok big shoff shnum k hdr \<longleftrightarrow> length hdr = 64 \<and> take 4 hdr = elfMagic \<and> hdr ! 4 = 2 \<and> byte_order (hdr ! 5) = Some big
     \<and> uint_at big 2 offShentsize hdr = 64 \<and> uint_at big 8 offShoff hdr = shoff \<and> uint_at big 2 offShnum hdr = shnum
     \<and> uint_at big 2 offShstrndx hdr = k"

lemma word_of_nat_unat: "n < 2 ^ 64 \<Longrightarrow> unat (word_of_nat n :: u64) = n"
  by (simp add: unat_of_nat)

lemma fileEnd_in_file:
  assumes "in_file f s" "length f < 2 ^ 63"
  shows "hasData s \<Longrightarrow> unat (fileEnd s) = unat (sc_offset s) + unat (sc_size s)"
proof -
  assume "hasData s"
  moreover have "unat (sc_offset s) + unat (sc_size s) < 2 ^ 64" using assms by (simp add: in_file_def)
  ultimately show ?thesis by (simp add: fileEnd_def unat_word_ariths)
qed

lemma length_concat_64: "\<forall>r \<in> set rs. length r = 64 \<Longrightarrow> length (concat rs) = 64 * length rs"
  by (induction rs) auto

lemma raw_entry_concat:
  "\<forall>r \<in> set raws. length r = 64 \<Longrightarrow> i < length raws \<Longrightarrow> raw_entry (concat raws) i = raws ! i"
proof (induction raws arbitrary: i)
  case (Cons r rs)
  then show ?case by (cases i) (simp_all add: raw_entry_def elf_consts)
qed simp

lemma parse_upto_names:
  assumes "F = hdr @ rest" "header_ok big shoff (length raws) k hdr" "0 < shoff" "k < length raws"
    "shoff + 64 * length raws \<le> length F" "length F < 2 ^ 63"
    "take (64 * length raws) (drop shoff F) = concat raws" "\<forall>r \<in> set raws. length r = 64"
    "\<forall>r \<in> set raws. hasData (parse_section big r) \<longrightarrow> fileEnd (parse_section big r) \<le> word_of_nat (length F)"
    "hasData (parse_section big (raws ! k))" "2 ^ 22 \<le> alloc" "st = parse_section big (raws ! k)"
  shows "parseELF64 alloc F =
    bind_res (make_bytes alloc (unat (sc_size st))) (\<lambda>_.
    bind_res (read_at ''read section names'' F (unat (sc_size st)) (sint (sc_offset st))) (\<lambda>names.
      Inr \<lparr>im_header = hdr, im_big = big,
           im_sections = map (\<lambda>r. name_section big names (sc_size st) (parse_section big r)) raws, im_shstrndx = k\<rparr>))"
proof -
  let ?n = "length raws"
  note h = assms(2) [unfolded header_ok_def]
  have hdr: "take 64 F = hdr" "length F \<ge> 64" using assms(1) h by simp_all
  have n: "?n < 65536" using h uint_at_less [of big 2 offShnum hdr] by (simp add: power2_eq_square)
  have fields: "unat (u16_at big offShnum hdr) = ?n" "unat (u16_at big offShstrndx hdr) = k" "unat (u16_at big offShentsize hdr) = 64"
    "unat (u64_at big offShoff hdr) = shoff"
    using h n assms(4,5,6) by (simp_all add: u16_at_def u64_at_def unat_of_nat)
  have nz: "u64_at big offShoff hdr \<noteq> 0" "u16_at big offShnum hdr \<noteq> 0" "u16_at big offShstrndx hdr \<noteq> 0xffff"
    using fields assms(3,4) n by (auto simp: unat_eq_zero)
  have "unat (ucast (u16_at big offShnum hdr) * ucast (u16_at big offShentsize hdr) :: u64) = ?n * 64"
    using fields n by (simp add: unat_word_ariths unsigned_ucast_eq take_bit_eq_mod)
  then have "unat (u64_at big offShoff hdr + ucast (u16_at big offShnum hdr) * ucast (u16_at big offShentsize hdr)) = shoff + 64 * ?n"
    using fields assms(5,6) by (simp add: unat_word_ariths)
  then have table_end: "\<not> u64_at big offShoff hdr + ucast (u16_at big offShnum hdr) * ucast (u16_at big offShentsize hdr) > word_of_nat (length F)"
    using assms(5,6) by (simp add: word_less_nat_alt word_of_nat_unat)
  have so: "sint (u64_at big offShoff hdr) = int shoff" using fields assms(5,6) by (simp add: sint_small)
  have table: "read_at ''read section table'' F (?n * 64) (sint (u64_at big offShoff hdr)) = Inr (concat raws)"
    unfolding so read_at_def using assms(7) length_concat_64 [OF assms(8)] by (simp add: mult.commute)
  have "map (\<lambda>i. parse_section big (raw_entry (concat raws) i)) [0..<?n] = map (parse_section big) raws"
    by (rule nth_equalityI) (simp_all add: raw_entry_concat [OF assms(8)])
  with assms(9) have secs: "parse_sections big (length F) (concat raws) [0..<?n] = Inr (map (parse_section big) raws)"
    by (auto simp: parse_sections_iff)
  have "parse_table alloc F big (u64_at big offShoff hdr) ?n k =
    bind_res (make_bytes alloc (unat (sc_size st))) (\<lambda>_.
    bind_res (read_at ''read section names'' F (unat (sc_size st)) (sint (sc_offset st))) (\<lambda>names.
      Inr \<lparr>im_header = hdr, im_big = big,
           im_sections = map (\<lambda>r. name_section big names (sc_size st) (parse_section big r)) raws, im_shstrndx = k\<rparr>))"
    using n assms(4,10,11,12) table secs hdr(1)
    by (simp add: parse_table_def make_bytes_def sectionEntrySize_def elfHeaderSize64_def comp_def Let_def)
  with h hdr nz table_end fields assms(4) show ?thesis
    by (simp add: parseELF64_def Let_def elfHeaderSize64_def sectionEntrySize_def)
qed

lemma parse_file:
  assumes "F = hdr @ rest" "header_ok big shoff (length raws) k hdr" "0 < shoff" "k < length raws"
    "shoff + 64 * length raws \<le> length F" "length F < 2 ^ 63"
    "take (64 * length raws) (drop shoff F) = concat raws" "\<forall>r \<in> set raws. length r = 64"
    "\<forall>r \<in> set raws. hasData (parse_section big r) \<longrightarrow> in_file F (parse_section big r)"
    "hasData (parse_section big (raws ! k))" "2 ^ 22 \<le> alloc" "unat (sc_size (parse_section big (raws ! k))) \<le> alloc"
  shows "parseELF64 alloc F = Inr \<lparr>im_header = hdr, im_big = big,
     im_sections = map (\<lambda>r. name_section big (content_at F (sc_offset (parse_section big (raws ! k))) (sc_size (parse_section big (raws ! k))))
       (sc_size (parse_section big (raws ! k))) (parse_section big r)) raws, im_shstrndx = k\<rparr>"
proof -
  let ?st = "parse_section big (raws ! k)"
  have "\<forall>r \<in> set raws. hasData (parse_section big r) \<longrightarrow> fileEnd (parse_section big r) \<le> word_of_nat (length F)"
    using assms(6,9) fileEnd_in_file [of F] by (auto simp: word_le_nat_alt word_of_nat_unat in_file_def)
  note upto = parse_upto_names [OF assms(1-8) this assms(10,11) refl]
  have st: "in_file F ?st" using assms(4,9,10) by simp
  then have small: "unat (sc_offset ?st) < 2 ^ 63" using assms(6) by (simp add: in_file_def)
  have names: "read_at ''read section names'' F (unat (sc_size ?st)) (sint (sc_offset ?st)) = Inr (content_at F (sc_offset ?st) (sc_size ?st))"
    unfolding sint_small [OF small] read_at_def content_at_def using st by (simp add: in_file_def)
  show ?thesis unfolding upto names using assms(12) by (simp add: make_bytes_def)
qed

text \<open>What a successful parse says of the file.\<close>

lemma parse_facts:
  assumes "parseELF64 alloc data = Inr img"
  obtains shoff table names where
    "header_ok (im_big img) shoff (length (im_sections img)) (im_shstrndx img) (im_header img)" "0 < shoff"
    "im_header img = take 64 data" "64 \<le> length data" "im_shstrndx img < length (im_sections img)"
    "im_sections img = map (\<lambda>i. name_section (im_big img) names (sc_size (im_sections img ! im_shstrndx img))
        (parse_section (im_big img) (raw_entry table i))) [0..<length (im_sections img)]"
    "length table = length (im_sections img) * 64" "hasData (im_sections img ! im_shstrndx img)"
    "read_at ''read section names'' data (unat (sc_size (im_sections img ! im_shstrndx img)))
       (sint (sc_offset (im_sections img ! im_shstrndx img))) = Inr names"
proof -
  let ?hdr = "take 64 data"
  obtain big where pre: "length data \<ge> 64" "take 4 ?hdr = elfMagic" "?hdr ! 4 = 2" "byte_order (?hdr ! 5) = Some big"
    and nz: "u64_at big offShoff ?hdr \<noteq> 0" "unat (u16_at big offShentsize ?hdr) = 64"
      "unat (u16_at big offShstrndx ?hdr) < unat (u16_at big offShnum ?hdr)"
    and tab: "parse_table alloc data big (u64_at big offShoff ?hdr) (unat (u16_at big offShnum ?hdr)) (unat (u16_at big offShstrndx ?hdr)) = Inr img"
    using assms unfolding parseELF64_def Let_def elfHeaderSize64_def sectionEntrySize_def
    by (auto split: if_splits option.splits)
  let ?n = "unat (u16_at big offShnum ?hdr)" and ?k = "unat (u16_at big offShstrndx ?hdr)"
  obtain table sections names where
    rd: "read_at ''read section table'' data (?n * 64) (sint (u64_at big offShoff ?hdr)) = Inr table"
    and secs: "parse_sections big (length data) table [0..<?n] = Inr sections"
    and st: "hasData (sections ! ?k)"
    and names: "read_at ''read section names'' data (unat (sc_size (sections ! ?k))) (sint (sc_offset (sections ! ?k))) = Inr names"
    and img: "img = \<lparr>im_header = ?hdr, im_big = big, im_sections = map (name_section big names (sc_size (sections ! ?k))) sections, im_shstrndx = ?k\<rparr>"
    using tab unfolding parse_table_def Let_def bind_res_Inr sectionEntrySize_def elfHeaderSize64_def
    by (auto simp: bind_res_Inr split: if_splits)
  from secs have sections: "sections = map (\<lambda>i. parse_section big (raw_entry table i)) [0..<?n]" by (simp add: parse_sections_iff)
  then have len: "length sections = ?n" by simp
  have val: "uint_at big 2 off ?hdr = unat (u16_at big off ?hdr)" for off
    using uint_at_less [of big 2 off ?hdr] by (simp add: u16_at_def unat_of_nat power2_eq_square)
  have val64: "uint_at big 8 offShoff ?hdr = unat (u64_at big offShoff ?hdr)"
    using uint_at_less [of big 8 offShoff ?hdr] by (simp add: u64_at_def unat_of_nat)
  have hok: "header_ok (im_big img) (unat (u64_at big offShoff ?hdr)) (length (im_sections img)) (im_shstrndx img) (im_header img)"
    using pre nz img len val val64 by (simp add: header_ok_def)
  have kth: "im_sections img ! im_shstrndx img = name_section big names (sc_size (sections ! ?k)) (sections ! ?k)"
    using img nz(3) len by simp
  show thesis
  proof (rule that [OF hok])
    show "im_sections img = map (\<lambda>i. name_section (im_big img) names (sc_size (im_sections img ! im_shstrndx img))
        (parse_section (im_big img) (raw_entry table i))) [0..<length (im_sections img)]"
      using img len kth sections by (simp add: comp_def)
    show "length table = length (im_sections img) * 64"
      using rd img len by (auto simp: read_at_def min_def split: if_splits)
    show "0 < unat (u64_at big offShoff ?hdr)" using nz(1) by (simp add: unat_gt_0)
  qed (use kth st names img pre nz(3) len in simp_all)
qed

section \<open>Writing the section table\<close>

lemma new_index_eq:
  "new_index incl k i c idx ss =
     (c + length (filter incl ss),
      if i \<le> k \<and> k < i + length ss \<and> incl (ss ! (k - i)) then c + length (filter incl (take (k - i) ss)) else idx)"
proof (induction ss arbitrary: i c idx)
  case (Cons s ss)
  show ?case
  proof (cases "k = i")
    case True
    then show ?thesis using Cons by auto
  next
    case False
    then have "Suc i \<le> k \<longleftrightarrow> i \<le> k" "i \<le> k \<Longrightarrow> (s # ss) ! (k - i) = ss ! (k - Suc i)" "i \<le> k \<Longrightarrow> take (k - i) (s # ss) = s # take (k - Suc i) ss"
      by (auto simp: nth_Cons' take_Cons' split: if_splits)
    then show ?thesis using Cons False by auto
  qed
qed simp

lemma filter_nth:
  "k < length ss \<Longrightarrow> P (ss ! k) \<Longrightarrow> filter P ss ! length (filter P (take k ss)) = ss ! k
     \<and> length (filter P (take k ss)) < length (filter P ss)"
proof (induction ss arbitrary: k)
  case (Cons s ss)
  then show ?case by (cases k) auto
qed simp

lemma entry_bytes_parse:
  assumes "length (sc_raw s) = 64" "entry s = (off, typ)"
  shows "length (entry_bytes big entry s) = 64"
    "parse_section big (entry_bytes big entry s) = (parse_section big (sc_raw s))\<lparr>sc_raw := entry_bytes big entry s, sc_offset := off, sc_typ := typ\<rparr>"
    "u32_at big shName (entry_bytes big entry s) = u32_at big shName (sc_raw s)"
proof -
  let ?r1 = "put_uint big 8 shOffset (unat off) (sc_raw s)"
  have r1: "length ?r1 = 64" using assms(1) by (simp add: shOffset_def)
  have eq: "entry_bytes big entry s = put_uint big 4 shType (unat typ) ?r1"
    using assms by (simp add: entry_bytes_def sectionEntrySize_def)
  show len: "length (entry_bytes big entry s) = 64" using r1 by (simp add: eq shType_def)
  have b: "unat off < 256 ^ 8" "unat typ < 256 ^ 4"
    using unsigned_less [of off, where 'a = nat] unsigned_less [of "typ", where 'a = nat] by simp_all
  have other: "uint_at big n k (entry_bytes big entry s) = uint_at big n k (sc_raw s)"
    if "k + n \<le> shType \<or> shType + 4 \<le> k" "k + n \<le> shOffset \<or> shOffset + 8 \<le> k" for n k
    using that r1 assms(1) by (simp add: eq put_uint_other shType_def shOffset_def)
  have o1: "uint_at big 8 shOffset (entry_bytes big entry s) = unat off"
    using r1 assms(1) b(1) by (simp add: eq put_uint_other put_uint_at shType_def shOffset_def)
  have t1: "uint_at big 4 shType (entry_bytes big entry s) = unat typ"
    using r1 b(2) by (simp add: eq put_uint_at shType_def)
  show "parse_section big (entry_bytes big entry s) = (parse_section big (sc_raw s))\<lparr>sc_raw := entry_bytes big entry s, sc_offset := off, sc_typ := typ\<rparr>"
    using o1 t1 by (simp add: parse_section_def u32_at_def u64_at_def other shFlags_def shSize_def shAddralign_def shType_def shOffset_def)
  show "u32_at big shName (entry_bytes big entry s) = u32_at big shName (sc_raw s)"
    by (simp add: u32_at_def other shName_def shType_def shOffset_def)
qed

lemma header_put:
  assumes "header_ok big a b c hdr" "a' < 2 ^ 64" "b' < 65536" "c' < 65536"
  shows "header_ok big a' b' c' (put_uint big 2 offShstrndx c' (put_uint big 2 offShnum b' (put_uint big 8 offShoff a' hdr)))"
proof -
  let ?h1 = "put_uint big 8 offShoff a' hdr"
  let ?h2 = "put_uint big 2 offShnum b' ?h1"
  let ?h3 = "put_uint big 2 offShstrndx c' ?h2"
  note h = assms(1) [unfolded header_ok_def]
  have len: "length hdr = 64" "length ?h1 = 64" "length ?h2 = 64" "length ?h3 = 64"
    using h by (simp_all add: offShoff_def offShnum_def offShstrndx_def)
  have same: "?h3 ! i = hdr ! i" if "i < 0x28" for i
    using that len by (simp add: put_uint_nth offShoff_def offShnum_def offShstrndx_def)
  have "take 4 ?h3 = take 4 hdr" by (rule nth_equalityI) (use same len in simp_all)
  moreover have "uint_at big 2 offShentsize ?h3 = 64"
    using h len by (simp add: put_uint_other offShoff_def offShnum_def offShstrndx_def offShentsize_def)
  moreover have "uint_at big 8 offShoff ?h3 = a'"
    using len assms(2) by (simp add: put_uint_other put_uint_at offShoff_def offShnum_def offShstrndx_def)
  moreover have "uint_at big 2 offShnum ?h3 = b'"
    using len assms(3) by (simp add: put_uint_other put_uint_at offShnum_def offShstrndx_def power2_eq_square)
  moreover have "uint_at big 2 offShstrndx ?h3 = c'"
    using len assms(4) by (simp add: put_uint_at offShstrndx_def power2_eq_square)
  ultimately show ?thesis using h len same by (simp add: header_ok_def)
qed

text \<open>The file the table is appended to is found again from its header.\<close>

definition raws_of :: "bool \<Rightarrow> (elf_section \<Rightarrow> u64 \<times> 32 word) \<Rightarrow> (elf_section \<Rightarrow> bool) \<Rightarrow> elf_section list \<Rightarrow> bytes list" where
  "raws_of big entry incl ss = map (entry_bytes big entry) (filter incl ss)"

lemma write_table_ok:
  assumes "header_ok (im_big img) a b c (im_header img)" "unat pos = length out" "64 \<le> length out" "length out < 2 ^ 62"
    "2 ^ 40 \<le> alloc" "length ss < 65536" "im_shstrndx img < length ss" "incl (ss ! im_shstrndx img)"
    "\<forall>s \<in> set ss. length (sc_raw s) = 64"
    "\<And>x y z h. header_ok (im_big img) x y z h \<Longrightarrow> header_ok (im_big img) x y z (patch h)"
  obtains hdr pad k' shoff where
    "writeSectionTable alloc img ss out pos incl patch entry = Inr (hdr @ drop 64 (out @ pad @ concat (raws_of (im_big img) entry incl ss)))"
    "header_ok (im_big img) shoff (length (raws_of (im_big img) entry incl ss)) k' hdr" "shoff = length out + length pad"
    "k' < length (raws_of (im_big img) entry incl ss)"
    "raws_of (im_big img) entry incl ss ! k' = entry_bytes (im_big img) entry (ss ! im_shstrndx img)" "length pad \<le> 2 ^ 40"
    "hdr = patch (put_uint (im_big img) 2 offShstrndx k' (put_uint (im_big img) 2 offShnum (length (raws_of (im_big img) entry incl ss))
       (put_uint (im_big img) 8 offShoff shoff (im_header img))))"
proof -
  let ?big = "im_big img" and ?k = "im_shstrndx img" and ?p = "align pos 8"
  let ?raws = "raws_of ?big entry incl ss" and ?k' = "length (filter incl (take ?k ss))"
  have pos: "unat pos < 2 ^ 62" using assms(2,4) by simp
  have "unat (8 :: u64) \<le> 2 ^ 40" by simp
  note al = align_bounds [OF pos this]
  have "unat (?p - pos) = unat ?p - unat pos" using al(1) by (intro unat_sub) (simp add: word_le_nat_alt)
  then have pad: "(if ?p > pos then make_bytes alloc (unat (?p - pos)) else Inr []) = Inr (replicate (unat ?p - unat pos) 0)"
    using al assms(5) by (auto simp: make_bytes_def word_less_nat_alt)
  note nth = filter_nth [OF assms(7), of "incl", OF assms(8)]
  have count: "length ?raws \<le> length ss" by (simp add: raws_of_def)
  let ?hdr = "patch (put_uint ?big 2 offShstrndx ?k' (put_uint ?big 2 offShnum (length ?raws) (put_uint ?big 8 offShoff (unat ?p) (im_header img))))"
  have idx: "new_index incl ?k 0 0 0 ss = (length ?raws, ?k')"
    using assms(7,8) by (simp add: new_index_eq raws_of_def)
  have eq: "writeSectionTable alloc img ss out pos incl patch entry =
    Inr (?hdr @ drop 64 (out @ replicate (unat ?p - unat pos) 0 @ concat ?raws))"
    unfolding writeSectionTable_def Let_def pad idx prod.case bind_res_simps elfHeaderSize64_def raws_of_def ..
  have few: "length (filter incl ss) < 65536" using length_filter_le [of "incl" ss] assms(6) by linarith
  with nth have "?k' < 65536" by linarith
  with few have hok: "header_ok ?big (unat ?p) (length ?raws) ?k' ?hdr"
    using al(2) pos by (intro assms(10) header_put [OF assms(1)]) (simp_all add: raws_of_def)
  show thesis
  proof (rule that [OF eq hok _ _ _ _ refl])
    show "unat ?p = length out + length (replicate (unat ?p - unat pos) (0 :: byte))" using assms(2) al(1) by simp
    show "length (replicate (unat ?p - unat pos) (0 :: byte)) \<le> 2 ^ 40" using al(2) by simp
  qed (use nth in \<open>simp_all add: raws_of_def\<close>)
qed

lemma table_image: "writeSectionTable alloc (img\<lparr>im_sections := ss\<rparr>) = writeSectionTable alloc img"
  by (intro ext) (simp add: writeSectionTable_def)

section \<open>What the plan keeps\<close>

lemma plan_sections_eq:
  assumes "plan_sections k i ss p = (ss', p')"
  shows "ss' = map (\<lambda>(j, s). s\<lparr>sc_keep := j = 0 \<or> j = k \<or> \<not> strippable s\<rparr>) (enumerate i ss)" "p \<le> p'"
    "\<forall>s \<in> set ss. sec_alloc s \<and> hasData s \<longrightarrow> fileEnd s \<le> p'"
    "p' = p \<or> (\<exists>s \<in> set ss. sec_alloc s \<and> hasData s \<and> p' = fileEnd s)"
proof -
  have "ss' = map (\<lambda>(j, s). s\<lparr>sc_keep := j = 0 \<or> j = k \<or> \<not> strippable s\<rparr>) (enumerate i ss) \<and> p \<le> p'
    \<and> (\<forall>s \<in> set ss. sec_alloc s \<and> hasData s \<longrightarrow> fileEnd s \<le> p')
    \<and> (p' = p \<or> (\<exists>s \<in> set ss. sec_alloc s \<and> hasData s \<and> p' = fileEnd s))"
    using assms
  proof (induction ss arbitrary: i p ss' p')
    case (Cons s ss)
    let ?p1 = "if sec_alloc s \<and> hasData s \<and> fileEnd s > p then fileEnd s else p"
    obtain ss1 p1 where rec: "plan_sections k (Suc i) ss ?p1 = (ss1, p1)" by (cases "plan_sections k (Suc i) ss ?p1")
    with Cons.prems have eq: "ss' = s\<lparr>sc_keep := i = 0 \<or> i = k \<or> \<not> strippable s\<rparr> # ss1" "p' = p1" by (auto simp: Let_def)
    have p: "p \<le> ?p1" "sec_alloc s \<and> hasData s \<longrightarrow> fileEnd s \<le> ?p1" by auto
    note IH = Cons.IH [OF rec]
    from IH p have "p \<le> p1" "sec_alloc s \<and> hasData s \<longrightarrow> fileEnd s \<le> p1" by (meson order_trans)+
    with IH eq show ?case by (auto split: if_splits)
  qed simp
  then show "ss' = map (\<lambda>(j, s). s\<lparr>sc_keep := j = 0 \<or> j = k \<or> \<not> strippable s\<rparr>) (enumerate i ss)" "p \<le> p'"
    "\<forall>s \<in> set ss. sec_alloc s \<and> hasData s \<longrightarrow> fileEnd s \<le> p'"
    "p' = p \<or> (\<exists>s \<in> set ss. sec_alloc s \<and> hasData s \<and> p' = fileEnd s)" by auto
qed

section \<open>The outputs are read back\<close>

definition well_read :: "bool \<Rightarrow> bytes \<Rightarrow> u64 \<Rightarrow> elf_section \<Rightarrow> bool" where
  "well_read big names sz s \<longleftrightarrow> length (sc_raw s) = 64
     \<and> s\<lparr>sc_keep := False, sc_new_offset := 0\<rparr> = name_section big names sz (parse_section big (sc_raw s))"

definition reread :: "bool \<Rightarrow> (elf_section \<Rightarrow> u64 \<times> 32 word) \<Rightarrow> elf_section \<Rightarrow> elf_section" where
  "reread big entry s = s\<lparr>sc_raw := entry_bytes big entry s, sc_offset := fst (entry s), sc_typ := snd (entry s),
     sc_keep := False, sc_new_offset := 0\<rparr>"

lemma well_read_update [simp]:
  "well_read big names sz (s\<lparr>sc_keep := x\<rparr>) = well_read big names sz s"
  "well_read big names sz (s\<lparr>sc_new_offset := y\<rparr>) = well_read big names sz s"
  by (simp_all add: well_read_def)

lemma name_section_update:
  assumes "u32_at big shName r = u32_at big shName (sc_raw s)"
  shows "name_section big names sz (s\<lparr>sc_raw := r, sc_offset := off, sc_typ := ty\<rparr>) =
    (name_section big names sz s)\<lparr>sc_raw := r, sc_offset := off, sc_typ := ty\<rparr>"
  using assms by (simp add: name_section_def Let_def)

lemma reread_entry:
  assumes "well_read big names sz s"
  shows "name_section big names sz (parse_section big (entry_bytes big entry s)) = reread big entry s"
proof -
  obtain off ty where e: "entry s = (off, ty)" by (cases "entry s")
  have raw: "length (sc_raw s) = 64" using assms by (simp add: well_read_def)
  note parsed = entry_bytes_parse [where s = s and entry = entry and big = big, OF raw e]
  have "name_section big names sz (parse_section big (entry_bytes big entry s)) =
    (name_section big names sz (parse_section big (sc_raw s)))\<lparr>sc_raw := entry_bytes big entry s, sc_offset := off, sc_typ := ty\<rparr>"
    unfolding parsed(2) using parsed(3) by (intro name_section_update) simp
  also have "name_section big names sz (parse_section big (sc_raw s)) = s\<lparr>sc_keep := False, sc_new_offset := 0\<rparr>"
    using assms unfolding well_read_def by simp
  also have "s\<lparr>sc_keep := False, sc_new_offset := 0\<rparr>\<lparr>sc_raw := entry_bytes big entry s, sc_offset := off, sc_typ := ty\<rparr> = reread big entry s"
    unfolding reread_def e by simp
  finally show ?thesis .
qed

lemma parse_entry_fields:
  assumes "well_read big names sz s"
  shows "sc_offset (parse_section big (entry_bytes big entry s)) = fst (entry s)"
    "sc_size (parse_section big (entry_bytes big entry s)) = sc_size s"
    "hasData (parse_section big (entry_bytes big entry s)) \<longleftrightarrow> snd (entry s) \<noteq> shtNobits \<and> sc_size s > 0"
  using reread_entry [OF assms, of entry, THEN arg_cong, of sc_offset] reread_entry [OF assms, of entry, THEN arg_cong, of sc_size]
    reread_entry [OF assms, of entry, THEN arg_cong, of hasData]
  by (simp_all add: reread_def hasData_def)

text \<open>Where an included section that carries bytes lies in the output.\<close>

definition lies :: "bytes \<Rightarrow> (elf_section \<Rightarrow> u64 \<times> 32 word) \<Rightarrow> elf_section \<Rightarrow> bool" where
  "lies out entry s \<longleftrightarrow> (snd (entry s) \<noteq> shtNobits \<and> sc_size s > 0 \<longrightarrow>
     64 \<le> unat (fst (entry s)) \<and> unat (fst (entry s)) + unat (sc_size s) \<le> length out)"

lemma content_patched:
  assumes "length hdr = 64" "64 \<le> unat off" "unat off + unat sz \<le> length out"
  shows "content_at (hdr @ drop 64 (out @ tail)) off sz = content_at out off sz"
  using assms by (simp add: content_at_def drop_append)

lemma output_parsed:
  assumes "header_ok (im_big img) a b c (im_header img)" "unat pos = length out" "64 \<le> length out" "length out < 2 ^ 62"
    "2 ^ 40 \<le> alloc" "length ss < 65536" "im_shstrndx img < length ss" "incl (ss ! im_shstrndx img)"
    "\<And>x y z h. header_ok (im_big img) x y z h \<Longrightarrow> header_ok (im_big img) x y z (patch h)"
    "st = ss ! im_shstrndx img" "\<forall>s \<in> set ss. well_read (im_big img) names (sc_size st) s"
    "\<forall>s \<in> set ss. incl s \<longrightarrow> lies out entry s"
    "snd (entry st) \<noteq> shtNobits" "sc_size st > 0" "unat (sc_size st) \<le> alloc" "content_at out (fst (entry st)) (sc_size st) = names"
  obtains hdr tail img2 k' shoff n where
    "writeSectionTable alloc img ss out pos incl patch entry = Inr (hdr @ drop 64 (out @ tail))" "length hdr = 64"
    "parseELF64 alloc (hdr @ drop 64 (out @ tail)) = Inr img2"
    "im_sections img2 = map (reread (im_big img) entry) (filter incl ss)"
    "hdr = patch (put_uint (im_big img) 2 offShstrndx k' (put_uint (im_big img) 2 offShnum n (put_uint (im_big img) 8 offShoff shoff (im_header img))))"
proof -
  let ?big = "im_big img"
  have raw: "\<forall>s \<in> set ss. length (sc_raw s) = 64" using assms(11) by (simp add: well_read_def)
  obtain hdr pad k' shoff where w:
    "writeSectionTable alloc img ss out pos incl patch entry = Inr (hdr @ drop 64 (out @ pad @ concat (raws_of ?big entry incl ss)))"
    "header_ok ?big shoff (length (raws_of ?big entry incl ss)) k' hdr" "shoff = length out + length pad"
    "k' < length (raws_of ?big entry incl ss)" "raws_of ?big entry incl ss ! k' = entry_bytes ?big entry (ss ! im_shstrndx img)"
    "length pad \<le> 2 ^ 40"
    "hdr = patch (put_uint ?big 2 offShstrndx k' (put_uint ?big 2 offShnum (length (raws_of ?big entry incl ss))
       (put_uint ?big 8 offShoff shoff (im_header img))))"
    by (rule write_table_ok [where incl = incl and patch = patch and entry = entry, OF assms(1-8) raw assms(9)])
  let ?raws = "raws_of ?big entry incl ss"
  let ?F = "hdr @ drop 64 (out @ pad @ concat ?raws)"
  have hdr: "length hdr = 64" using w(2) by (simp add: header_ok_def)
  have rlen: "\<forall>r \<in> set ?raws. length r = 64"
    using raw entry_bytes_parse(1) by (force simp: raws_of_def)
  note clen = length_concat_64 [OF rlen]
  have F: "length ?F = length out + length pad + 64 * length ?raws" using hdr assms(3) clen by simp
  have few: "length ?raws < 65536" using order_le_less_trans [OF length_filter_le assms(6)] by (simp add: raws_of_def)
  have small: "length ?F < 2 ^ 63" using F few w(6) assms(4) by simp
  have table: "take (64 * length ?raws) (drop shoff ?F) = concat ?raws"
    using hdr assms(3) w(3) clen by (simp add: drop_append)
  have st: "st \<in> set ss" "well_read ?big names (sc_size st) st" "lies out entry st"
    using assms(7,8,10,11,12) by auto
  note stf = parse_entry_fields [OF st(2), of entry]
  have inF: "in_file ?F (parse_section ?big r)" if r: "r \<in> set ?raws" "hasData (parse_section ?big r)" for r
  proof -
    from r(1) obtain s where s: "s \<in> set ss" "incl s" "r = entry_bytes ?big entry s" by (auto simp: raws_of_def)
    with assms(11) have "well_read ?big names (sc_size st) s" by blast
    note f = parse_entry_fields [OF this, of entry]
    from assms(12) s r(2) f have "unat (fst (entry s)) + unat (sc_size s) \<le> length out" by (simp add: lies_def)
    with f s(3) F show ?thesis by (simp add: in_file_def)
  qed
  have names: "content_at ?F (fst (entry st)) (sc_size st) = names"
    using content_patched [OF hdr, of "fst (entry st)" "sc_size st" out "pad @ concat ?raws"] st(3) assms(13,14,16) by (simp add: lies_def)
  have kth: "?raws ! k' = entry_bytes ?big entry st" using w(5) assms(10) by simp
  have sh: "0 < shoff" "shoff + 64 * length ?raws \<le> length ?F" using w(3) assms(3) F by auto
  have has: "hasData (parse_section ?big (?raws ! k'))" unfolding kth stf(3) using assms(13,14) by simp
  have al: "2 ^ 22 \<le> alloc" "unat (sc_size (parse_section ?big (?raws ! k'))) \<le> alloc"
    unfolding kth stf(2) using assms(5,15) by simp_all
  have inF': "\<forall>r \<in> set ?raws. hasData (parse_section ?big r) \<longrightarrow> in_file ?F (parse_section ?big r)" using inF by blast
  note parsed = parse_file [OF refl w(2) sh(1) w(4) sh(2) small table rlen inF' has al]
  have "map (\<lambda>r. name_section ?big names (sc_size st) (parse_section ?big r)) ?raws = map (reread ?big entry) (filter incl ss)"
    using assms(11) by (auto simp: raws_of_def intro!: reread_entry)
  with parsed show thesis
    unfolding kth stf(1,2) names by (intro that [OF w(1) hdr parsed [unfolded kth stf(1,2) names] _ w(7)]) simp
qed

section \<open>Stripping is faithful\<close>

text \<open>What is asked of the input: no sum of an offset and a length wraps or leaves the file, no
  section lies in the header, alignments and the file are below \<open>2 ^ 40\<close>.\<close>

definition elf_sane :: "nat \<Rightarrow> bytes \<Rightarrow> elf_image \<Rightarrow> bool" where
  "elf_sane alloc data img \<longleftrightarrow> length data < 2 ^ 40 \<and> 2 ^ 40 \<le> alloc \<and> 64 \<le> unat (header_end img)
     \<and> unat (header_end img) \<le> length data
     \<and> (\<forall>s \<in> set (im_sections img). unat (sc_addralign s) \<le> 2 ^ 40
          \<and> (hasData s \<longrightarrow> 64 \<le> unat (sc_offset s) \<and> in_file data s))"

text \<open>What a reader of a file sees of a section.\<close>

definition view :: "bytes \<Rightarrow> elf_section \<Rightarrow> string \<times> 32 word \<times> u64 \<times> u64 \<times> bytes" where
  "view f s = (sc_name s, sc_typ s, sc_flags s, sc_size s, if hasData s then content_at f (sc_offset s) (sc_size s) else [])"

definition kept_sections :: "elf_image \<Rightarrow> elf_section list" where
  "kept_sections img = filter sc_keep (im_sections (fst (plan img)))"

lemma view_keep [simp]: "view f (s\<lparr>sc_keep := x\<rparr>) = view f s" "view f (s\<lparr>sc_new_offset := y\<rparr>) = view f s"
  by (simp_all add: view_def hasData_def)

lemma section_update [simp]:
  "hasData (s\<lparr>sc_keep := x\<rparr>) = hasData s" "fileEnd (s\<lparr>sc_keep := x\<rparr>) = fileEnd s" "in_file f (s\<lparr>sc_keep := x\<rparr>) = in_file f s"
  "hasData (s\<lparr>sc_new_offset := y\<rparr>) = hasData s"
  by (simp_all add: hasData_def fileEnd_def in_file_def)

text \<open>The facts about a parsed and planned image that both outputs need.\<close>

definition planned :: "nat \<Rightarrow> bytes \<Rightarrow> elf_image \<Rightarrow> bytes \<Rightarrow> elf_section list \<Rightarrow> u64 \<Rightarrow> bool" where
  "planned alloc data img names ss prefixEnd \<longleftrightarrow>
     plan img = (img\<lparr>im_sections := ss\<rparr>, prefixEnd) \<and> length ss < 65536 \<and> im_shstrndx img < length ss
     \<and> sc_keep (ss ! im_shstrndx img) \<and> hasData (ss ! im_shstrndx img)
     \<and> names = content_at data (sc_offset (ss ! im_shstrndx img)) (sc_size (ss ! im_shstrndx img))
     \<and> (\<forall>s \<in> set ss. well_read (im_big img) names (sc_size (ss ! im_shstrndx img)) s \<and> unat (sc_addralign s) \<le> 2 ^ 40
          \<and> (hasData s \<longrightarrow> 64 \<le> unat (sc_offset s) \<and> in_file data s))
     \<and> 64 \<le> unat prefixEnd \<and> unat prefixEnd \<le> length data \<and> im_header img = take 64 data"

lemma parsed_planned:
  assumes "parseELF64 alloc data = Inr img" "elf_sane alloc data img"
  obtains a names ss prefixEnd where "planned alloc data img names ss prefixEnd"
    "header_ok (im_big img) a (length ss) (im_shstrndx img) (im_header img)"
    "\<forall>s \<in> set (im_sections img). sec_alloc s \<and> hasData s \<longrightarrow> fileEnd s \<le> prefixEnd" "length (im_sections img) = length ss"
proof -
  let ?big = "im_big img" and ?k = "im_shstrndx img" and ?S = "im_sections img"
  obtain shoff table names where f: "header_ok ?big shoff (length ?S) ?k (im_header img)" "0 < shoff"
    "im_header img = take 64 data" "64 \<le> length data" "?k < length ?S"
    "?S = map (\<lambda>i. name_section ?big names (sc_size (?S ! ?k)) (parse_section ?big (raw_entry table i))) [0..<length ?S]"
    "length table = length ?S * 64" "hasData (?S ! ?k)"
    "read_at ''read section names'' data (unat (sc_size (?S ! ?k))) (sint (sc_offset (?S ! ?k))) = Inr names"
    by (rule parse_facts [OF assms(1)])
  obtain ss p where pl: "plan_sections ?k 0 ?S (header_end img) = (ss, p)" by (cases "plan_sections ?k 0 ?S (header_end img)")
  note ps = plan_sections_eq [OF pl]
  have len: "length ss = length ?S" using ps(1) by simp
  have nth: "ss ! j = (?S ! j)\<lparr>sc_keep := j = 0 \<or> j = ?k \<or> \<not> strippable (?S ! j)\<rparr>" if "j < length ?S" for j
    using that ps(1) by (simp add: nth_enumerate_eq)
  note sane = assms(2) [unfolded elf_sane_def]
  have st: "?S ! ?k \<in> set ?S" "in_file data (?S ! ?k)" using f(5,8) sane by auto
  then have small: "unat (sc_offset (?S ! ?k)) < 2 ^ 63" using sane by (auto simp: in_file_def)
  have names: "names = content_at data (sc_offset (?S ! ?k)) (sc_size (?S ! ?k))"
    using f(9) unfolding sint_small [OF small] read_at_def content_at_def by (auto split: if_splits)
  have read: "well_read ?big names (sc_size (?S ! ?k)) s" if "s \<in> set ?S" for s
  proof -
    from that f(6) obtain i where i: "i < length ?S" "s = name_section ?big names (sc_size (?S ! ?k)) (parse_section ?big (raw_entry table i))"
      by (metis (no_types, lifting) in_set_conv_nth length_map nth_map nth_upt add_0 length_upt diff_zero)
    have "length (raw_entry table i) = 64" using i(1) f(7) by (simp add: raw_entry_def sectionEntrySize_def)
    with i(2) show ?thesis by (simp add: well_read_def name_section_def parse_section_def Let_def)
  qed
  have few: "length ss < 65536"
    using f(1) uint_at_less [of ?big 2 offShnum "im_header img"] len by (simp add: header_ok_def power2_eq_square)
  have p: "64 \<le> unat p" "unat p \<le> length data"
  proof -
    show "64 \<le> unat p" using ps(2) sane by (simp add: word_le_nat_alt)
    show "unat p \<le> length data"
      using ps(4) sane fileEnd_in_file [of data] by (auto simp: in_file_def)
  qed
  have "planned alloc data img names ss p"
    unfolding planned_def
  proof (intro conjI ballI)
    show "plan img = (img\<lparr>im_sections := ss\<rparr>, p)" by (simp add: plan_def pl)
    fix s assume "s \<in> set ss"
    then obtain j where j: "j < length ?S" "s = (?S ! j)\<lparr>sc_keep := j = 0 \<or> j = ?k \<or> \<not> strippable (?S ! j)\<rparr>"
      using nth len by (metis in_set_conv_nth)
    then have m: "?S ! j \<in> set ?S" by simp
    have sz: "sc_size (ss ! ?k) = sc_size (?S ! ?k)" using nth f(5) by simp
    show "well_read ?big names (sc_size (ss ! ?k)) s" using read [OF m] j(2) sz by simp
    show "unat (sc_addralign s) \<le> 2 ^ 40" "hasData s \<longrightarrow> 64 \<le> unat (sc_offset s) \<and> in_file data s" using sane m j(2) by auto
  qed (use few f(3,5,8) len nth names p in simp_all)
  then show thesis
  proof (rule that)
    show "header_ok ?big shoff (length ss) ?k (im_header img)" using f(1) len by simp
  qed (use ps(3) len in simp_all)
qed

lemma planned_bound: "planned alloc data img names ss p \<Longrightarrow> length data < 2 ^ 40 \<Longrightarrow> x \<le> length data \<Longrightarrow> x + length ss * 2 ^ 42 < 2 ^ 62"
  by (auto simp: planned_def)

lemma take_content:
  assumes "unat off + unat sz \<le> n" "n \<le> length f"
  shows "content_at (take n f @ tail) off sz = content_at f off sz"
  unfolding content_at_def by (rule nth_equalityI) (use assms in \<open>auto simp: nth_append\<close>)

lemma placed_cases:
  assumes "placed skip stays data out lo s s'" "\<not> skip s"
  obtains (stays) "stays s" "s' = s\<lparr>sc_new_offset := sc_offset s\<rparr>"
  | (moved) at where "\<not> stays s" "s' = s\<lparr>sc_new_offset := at\<rparr>" "lo \<le> unat at" "unat at + unat (sc_size s) \<le> length out"
      "content_at out at (sc_size s) = content_at data (sc_offset s) (sc_size s)"
  using assms unfolding placed_def by (auto split: if_splits)

lemma stripped_section:
  assumes "placed (\<lambda>s. \<not> sc_keep s) (\<lambda>s. \<not> hasData s \<or> fileEnd s \<le> p) data (take (unat p) data @ tail) (unat p) s s'"
    "sc_keep s" "hasData s \<longrightarrow> 64 \<le> unat (sc_offset s) \<and> in_file data s" "64 \<le> unat p" "unat p \<le> length data" "length data < 2 ^ 40"
  shows "\<exists>at. s' = s\<lparr>sc_new_offset := at\<rparr> \<and> (hasData s \<longrightarrow> 64 \<le> unat at \<and> unat at + unat (sc_size s) \<le> length (take (unat p) data @ tail)
    \<and> content_at (take (unat p) data @ tail) at (sc_size s) = content_at data (sc_offset s) (sc_size s))"
proof -
  from assms(2) have "\<not> \<not> sc_keep s" by simp
  with assms(1) show ?thesis
  proof (cases rule: placed_cases)
    case stays
    have "64 \<le> unat (sc_offset s) \<and> unat (sc_offset s) + unat (sc_size s) \<le> length (take (unat p) data @ tail)
      \<and> content_at (take (unat p) data @ tail) (sc_offset s) (sc_size s) = content_at data (sc_offset s) (sc_size s)" if "hasData s"
    proof -
      from that stays(1) assms(3,6) have "unat (sc_offset s) + unat (sc_size s) \<le> unat p"
        using fileEnd_in_file [of data s] by (simp add: word_le_nat_alt)
      with that assms(3,5) take_content [of "sc_offset s" "sc_size s" "unat p" data tail] show ?thesis by simp
    qed
    with stays(2) show ?thesis by blast
  next
    case (moved at)
    with assms(4) show ?thesis by (intro exI [of _ at]) simp
  qed
qed

definition moved :: "bytes \<Rightarrow> bytes \<Rightarrow> elf_section \<Rightarrow> elf_section \<Rightarrow> bool" where
  "moved data out s s' \<longleftrightarrow> (\<exists>at. s' = s\<lparr>sc_new_offset := at\<rparr> \<and> (hasData s \<longrightarrow> 64 \<le> unat at \<and> unat at + unat (sc_size s) \<le> length out
     \<and> content_at out at (sc_size s) = content_at data (sc_offset s) (sc_size s)))"

lemma stripped_copy:
  assumes "planned alloc data img names ss p" "length data < 2 ^ 40" "2 ^ 40 \<le> alloc"
  obtains ss' tail pos' where
    "copy_sections alloc data (\<lambda>s. \<not> sc_keep s) (\<lambda>s. \<not> hasData s \<or> fileEnd s \<le> p) ss (take (unat p) data) p
       = Inr (ss', take (unat p) data @ tail, pos')"
    "unat pos' = length (take (unat p) data @ tail)" "length (take (unat p) data @ tail) < 2 ^ 62"
    "list_all2 (\<lambda>s s'. if sc_keep s then moved data (take (unat p) data @ tail) s s' else s' = s) ss ss'"
proof -
  let ?skip = "\<lambda>s. \<not> sc_keep s" and ?stays = "\<lambda>s. \<not> hasData s \<or> fileEnd s \<le> p" and ?out = "take (unat p) data"
  note P = assms(1) [unfolded planned_def]
  have out: "unat p = length ?out" using P by simp
  have bound: "length ?out + length ss * 2 ^ 42 < 2 ^ 62" using P assms(2) by simp
  have secs: "\<forall>s \<in> set ss. \<not> ?skip s \<and> \<not> ?stays s \<longrightarrow> in_file data s \<and> unat (sc_addralign s) \<le> 2 ^ 40" using P by blast
  from copy_sections_ok [OF out bound assms(2,3) secs] obtain ss' tail pos' where
    cp: "copy_sections alloc data ?skip ?stays ss ?out p = Inr (ss', ?out @ tail, pos')" "unat pos' = length (?out @ tail)"
      "length tail \<le> length ss * 2 ^ 42" "list_all2 (placed ?skip ?stays data (?out @ tail) (length ?out)) ss ss'" by blast
  have "list_all2 (\<lambda>s s'. if sc_keep s then moved data (?out @ tail) s s' else s' = s) ss ss'"
    using cp(4)
  proof (rule list.rel_mono_strong)
    fix s s'
    assume s: "s \<in> set ss" "placed ?skip ?stays data (?out @ tail) (length ?out) s s'"
    then show "if sc_keep s then moved data (?out @ tail) s s' else s' = s"
      using stripped_section [of p data tail s s'] P assms(2) out by (auto simp: moved_def placed_def)
  qed
  moreover have "length (?out @ tail) < 2 ^ 62" using cp(3) bound by simp
  ultimately show thesis using cp(1,2) by (intro that)
qed

lemma list_all2_image:
  assumes "list_all2 R xs ys" "\<And>x y. x \<in> set xs \<Longrightarrow> R x y \<Longrightarrow> Q y"
  shows "\<forall>y \<in> set ys. Q y"
  using assms by (induction rule: list_all2_induct) auto

lemma view_filter:
  assumes "list_all2 (\<lambda>s s'. if sc_keep s then sc_keep s' \<and> view f (g s') = view data s else s' = s) ss ss'"
  shows "map (view f) (map g (filter sc_keep ss')) = map (view data) (filter sc_keep ss)"
  using assms by (induction rule: list_all2_induct) (auto split: if_splits)

lemma moved_view:
  assumes "moved data out s s'" "length hdr = 64"
  shows "view (hdr @ drop 64 (out @ tail)) (reread big (\<lambda>s. (sc_new_offset s, sc_typ s)) s') = view data s"
    "sc_keep s' = sc_keep s" "lies out (\<lambda>s. (sc_new_offset s, sc_typ s)) s'"
proof -
  obtain at where at: "s' = s\<lparr>sc_new_offset := at\<rparr>" "hasData s \<longrightarrow> 64 \<le> unat at \<and> unat at + unat (sc_size s) \<le> length out
     \<and> content_at out at (sc_size s) = content_at data (sc_offset s) (sc_size s)" using assms(1) by (auto simp: moved_def)
  then have "hasData s \<longrightarrow> content_at (hdr @ drop 64 (out @ tail)) at (sc_size s) = content_at data (sc_offset s) (sc_size s)"
    using content_patched [OF assms(2), of at "sc_size s" out tail] by metis
  with at(1) show "view (hdr @ drop 64 (out @ tail)) (reread big (\<lambda>s. (sc_new_offset s, sc_typ s)) s') = view data s"
    by (simp add: view_def reread_def hasData_def del: drop_append)
  show "sc_keep s' = sc_keep s" "lies out (\<lambda>s. (sc_new_offset s, sc_typ s)) s'" using at by (auto simp: lies_def hasData_def)
qed

lemma patched_bytes:
  assumes "hdr = put_uint big 2 offShstrndx k (put_uint big 2 offShnum n (put_uint big 8 offShoff shoff (take 64 data)))"
    "64 \<le> p" "p \<le> length data"
  shows "\<forall>i < p. i \<notin> {0x28..<0x30} \<union> {0x3c..<0x40} \<longrightarrow> (hdr @ drop 64 ((take p data @ tail) @ tl')) ! i = data ! i"
proof (intro allI impI)
  fix i
  assume i: "i < p" "i \<notin> {0x28..<0x30} \<union> {0x3c..<0x40}"
  have len: "length (take 64 data) = 64" "length hdr = 64"
    using assms by (simp_all add: offShoff_def offShnum_def offShstrndx_def)
  show "(hdr @ drop 64 ((take p data @ tail) @ tl')) ! i = data ! i"
  proof (cases "i < 64")
    case True
    then have "hdr ! i = take 64 data ! i"
      unfolding assms(1) using i(2) len(1) by (auto simp: put_uint_nth offShoff_def offShnum_def offShstrndx_def)
    with True len show ?thesis by (simp add: nth_append)
  next
    case False
    then have "i - 64 < p - 64" using i(1) by linarith
    with False i(1) len(2) assms(2,3) show ?thesis by (simp add: nth_append)
  qed
qed

text \<open>The stripped binary.\<close>

lemma stripped_reads_back:
  assumes "parseELF64 alloc data = Inr img" "elf_sane alloc data img" "plan img = (img', prefixEnd)"
  shows "\<exists>stripped img2. writeStripped alloc data img' prefixEnd = Inr stripped \<and> parseELF64 alloc stripped = Inr img2
    \<and> map (view stripped) (im_sections img2) = map (view data) (filter sc_keep (im_sections img'))
    \<and> (\<forall>i < unat prefixEnd. i \<notin> {0x28..<0x30} \<union> {0x3c..<0x40} \<longrightarrow> stripped ! i = data ! i)
    \<and> (\<forall>s \<in> set (im_sections img). sec_alloc s \<and> hasData s \<longrightarrow> unat (sc_offset s) + unat (sc_size s) \<le> unat prefixEnd)"
proof -
  let ?big = "im_big img" and ?k = "im_shstrndx img"
  obtain a names ss p where pl: "planned alloc data img names ss p"
    and hok: "header_ok ?big a (length ss) ?k (im_header img)"
    and al: "\<forall>s \<in> set (im_sections img). sec_alloc s \<and> hasData s \<longrightarrow> fileEnd s \<le> p"
    by (rule parsed_planned [OF assms(1,2)])
  note P = pl [unfolded planned_def]
  have img': "img' = img\<lparr>im_sections := ss\<rparr>" "prefixEnd = p" using P assms(3) by simp_all
  have size: "length data < 2 ^ 40" "2 ^ 40 \<le> alloc" using assms(2) by (simp_all add: elf_sane_def)
  have prefix: "seek_copy data 0 (sint p) = Inr (take (unat p) data)"
    using seek_copy_ok [of 0 "unat p" data] P size by (simp add: sint_small)
  have out: "unat p = length (take (unat p) data)" using P by simp
  let ?entry = "\<lambda>s. (sc_new_offset s, sc_typ s)"
  obtain ss' tail pos' where cp: "copy_sections alloc data (\<lambda>s. \<not> sc_keep s) (\<lambda>s. \<not> hasData s \<or> fileEnd s \<le> p) ss (take (unat p) data) p
       = Inr (ss', take (unat p) data @ tail, pos')"
    "unat pos' = length (take (unat p) data @ tail)" "length (take (unat p) data @ tail) < 2 ^ 62"
    "list_all2 (\<lambda>s s'. if sc_keep s then moved data (take (unat p) data @ tail) s s' else s' = s) ss ss'"
    by (rule stripped_copy [OF pl size])
  let ?out = "take (unat p) data @ tail"
  have len: "length ss' = length ss" using cp(4) by (simp add: list_all2_lengthD)
  note rel = list_all2_nthD [OF cp(4)]
  have k: "?k < length ss'" "moved data ?out (ss ! ?k) (ss' ! ?k)" using P len rel [of ?k] by auto
  have keep: "sc_keep (ss' ! ?k)" "sc_size (ss' ! ?k) = sc_size (ss ! ?k)" "hasData (ss' ! ?k)"
    "content_at ?out (sc_new_offset (ss' ! ?k)) (sc_size (ss' ! ?k)) = names"
    using k(2) P by (auto simp: moved_def)
  have read: "\<forall>s \<in> set ss'. well_read ?big names (sc_size (ss' ! ?k)) s"
    using cp(4) by (rule list_all2_image) (use P keep(2) in \<open>auto simp: moved_def split: if_splits\<close>)
  have lie: "\<forall>s \<in> set ss'. sc_keep s \<longrightarrow> lies ?out ?entry s"
    using cp(4) by (rule list_all2_image) (auto simp: moved_def lies_def hasData_def split: if_splits)
  have st: "snd (?entry (ss' ! ?k)) \<noteq> shtNobits" "sc_size (ss' ! ?k) > 0" "unat (sc_size (ss' ! ?k)) \<le> alloc"
    using keep(2,3) P size by (auto simp: hasData_def in_file_def)
  have big: "64 \<le> length ?out" and few: "length ss' < 65536" using P len by simp_all
  have id: "header_ok ?big x y z h \<Longrightarrow> header_ok ?big x y z h" for x y z h .
  have names: "content_at ?out (fst (?entry (ss' ! ?k))) (sc_size (ss' ! ?k)) = names" using keep(4) by simp
  obtain hdr tl' img2 k' shoff n where w:
    "writeSectionTable alloc img ss' ?out pos' sc_keep (\<lambda>h. h) ?entry = Inr (hdr @ drop 64 (?out @ tl'))" "length hdr = 64"
    "parseELF64 alloc (hdr @ drop 64 (?out @ tl')) = Inr img2" "im_sections img2 = map (reread ?big ?entry) (filter sc_keep ss')"
    "hdr = put_uint ?big 2 offShstrndx k' (put_uint ?big 2 offShnum n (put_uint ?big 8 offShoff shoff (im_header img)))"
    by (rule output_parsed [where patch = "\<lambda>h. h" and entry = ?entry and incl = sc_keep,
        OF hok cp(2) big cp(3) size(2) few k(1) keep(1) id refl read lie st names])
  let ?F = "hdr @ drop 64 (?out @ tl')"
  have "writeStripped alloc data img' prefixEnd = Inr ?F"
    using w(1) prefix cp(1) by (simp add: writeStripped_def img' table_image del: drop_append)
  moreover have "map (view ?F) (im_sections img2) = map (view data) (filter sc_keep (im_sections img'))"
  proof -
    have "list_all2 (\<lambda>s s'. if sc_keep s then sc_keep s' \<and> view ?F (reread ?big ?entry s') = view data s else s' = s) ss ss'"
      using cp(4) by (rule list.rel_mono_strong) (simp add: moved_view [OF _ w(2)] del: drop_append append_assoc split: if_splits)
    moreover have "im_sections img' = ss" by (simp add: img')
    ultimately show ?thesis unfolding w(4) by (simp only: view_filter)
  qed
  moreover have "\<forall>i < unat prefixEnd. i \<notin> {0x28..<0x30} \<union> {0x3c..<0x40} \<longrightarrow> ?F ! i = data ! i"
  proof -
    have "im_header img = take 64 data" using P by blast
    from patched_bytes [OF w(5) [unfolded this]] P img'(2) show ?thesis by blast
  qed
  moreover have "\<forall>s \<in> set (im_sections img). sec_alloc s \<and> hasData s \<longrightarrow> unat (sc_offset s) + unat (sc_size s) \<le> unat prefixEnd"
    using al assms(2) fileEnd_in_file [of data] img'(2) by (fastforce simp: elf_sane_def word_le_nat_alt)
  ultimately show ?thesis using w(3) by blast
qed

text \<open>The debug file.\<close>

definition debug_entry :: "elf_section \<Rightarrow> u64 \<times> 32 word" where
  "debug_entry s = (sc_new_offset s, if carries s then sc_typ s else shtNobits)"

lemma debug_entry_fun: "debug_entry = (\<lambda>s. (sc_new_offset s, if carries s then sc_typ s else shtNobits))"
  by (intro ext) (simp add: debug_entry_def)

definition debugged :: "bytes \<Rightarrow> bytes \<Rightarrow> elf_section \<Rightarrow> elf_section \<Rightarrow> bool" where
  "debugged data out s s' \<longleftrightarrow> (\<exists>at. s' = s\<lparr>sc_new_offset := at\<rparr> \<and> (carries s \<longrightarrow> 64 \<le> unat at \<and> unat at + unat (sc_size s) \<le> length out
     \<and> content_at out at (sc_size s) = content_at data (sc_offset s) (sc_size s)))"

lemma carries_new [simp]: "carries (s\<lparr>sc_new_offset := at\<rparr>) = carries s"
  by (simp add: carries_def)

lemma debug_copy:
  assumes "planned alloc data img names ss p" "length data < 2 ^ 40" "2 ^ 40 \<le> alloc"
  obtains ss' tail pos' where
    "copy_sections alloc data (\<lambda>s. False) (\<lambda>s. \<not> carries s) ss (im_header img) (word_of_nat elfHeaderSize64) = Inr (ss', im_header img @ tail, pos')"
    "unat pos' = length (im_header img @ tail)" "length (im_header img @ tail) < 2 ^ 62"
    "list_all2 (debugged data (im_header img @ tail)) ss ss'"
proof -
  let ?out = "im_header img"
  note P = assms(1) [unfolded planned_def]
  have len: "length ?out = 64" using P by simp
  have out: "unat (word_of_nat elfHeaderSize64 :: u64) = length ?out" unfolding len by (simp add: elfHeaderSize64_def)
  have bound: "length ?out + length ss * 2 ^ 42 < 2 ^ 62" using P len by simp
  have secs: "\<forall>s \<in> set ss. \<not> False \<and> \<not> \<not> carries s \<longrightarrow> in_file data s \<and> unat (sc_addralign s) \<le> 2 ^ 40"
    using P by (auto simp: carries_def)
  from copy_sections_ok [OF out bound assms(2,3) secs] obtain ss' tail pos' where
    cp: "copy_sections alloc data (\<lambda>s. False) (\<lambda>s. \<not> carries s) ss ?out (word_of_nat elfHeaderSize64) = Inr (ss', ?out @ tail, pos')"
      "unat pos' = length (?out @ tail)" "length tail \<le> length ss * 2 ^ 42"
      "list_all2 (placed (\<lambda>s. False) (\<lambda>s. \<not> carries s) data (?out @ tail) (length ?out)) ss ss'" by blast
  have "list_all2 (debugged data (?out @ tail)) ss ss'"
    using cp(4) by (rule list.rel_mono_strong) (use len in \<open>auto simp: debugged_def elim!: placed_cases\<close>)
  moreover have "length (?out @ tail) < 2 ^ 62" using cp(3) bound by simp
  ultimately show thesis using cp(1,2) by (intro that)
qed

lemma dropPhdrs_ok: "header_ok big x y z h \<Longrightarrow> header_ok big x y z (dropPhdrs big h)"
proof -
  assume "header_ok big x y z h"
  note h = this [unfolded header_ok_def]
  let ?h1 = "put_uint big 8 offPhoff 0 h"
  have len: "length h = 64" "length ?h1 = 64" using h by (simp_all add: offPhoff_def)
  have same: "dropPhdrs big h ! i = h ! i" if "i < 0x20" for i
    using that len by (simp add: dropPhdrs_def put_uint_nth offPhoff_def offPhnum_def)
  have "take 4 (dropPhdrs big h) = take 4 h"
    by (rule nth_equalityI) (use same len in \<open>simp_all add: dropPhdrs_def offPhnum_def\<close>)
  moreover have "uint_at big n k (dropPhdrs big h) = uint_at big n k h" if "k + n \<le> 0x38 \<or> 0x3a \<le> k" "0x28 \<le> k" for n k
    using that len by (simp add: dropPhdrs_def put_uint_other offPhoff_def offPhnum_def)
  ultimately show ?thesis
    using h len same by (simp add: header_ok_def dropPhdrs_def offPhnum_def offShentsize_def offShoff_def offShnum_def offShstrndx_def)
qed

lemma debugged_view:
  assumes "debugged data out s s'" "length hdr = 64"
  shows "sc_name (reread big debug_entry s') = sc_name s" "sc_flags (reread big debug_entry s') = sc_flags s"
    "sc_size (reread big debug_entry s') = sc_size s"
    "\<not> sc_keep s \<and> hasData s \<Longrightarrow> view (hdr @ drop 64 (out @ tail)) (reread big debug_entry s') = view data s"
proof -
  obtain at where at: "s' = s\<lparr>sc_new_offset := at\<rparr>" "carries s \<longrightarrow> 64 \<le> unat at \<and> unat at + unat (sc_size s) \<le> length out
     \<and> content_at out at (sc_size s) = content_at data (sc_offset s) (sc_size s)" using assms(1) by (auto simp: debugged_def)
  then show "sc_name (reread big debug_entry s') = sc_name s" "sc_flags (reread big debug_entry s') = sc_flags s"
    "sc_size (reread big debug_entry s') = sc_size s" by (simp_all add: reread_def)
  assume "\<not> sc_keep s \<and> hasData s"
  then have c: "carries s" "hasData s" by (simp_all add: carries_def)
  then have "content_at (hdr @ drop 64 (out @ tail)) at (sc_size s) = content_at data (sc_offset s) (sc_size s)"
    using at(2) content_patched [OF assms(2), of at "sc_size s" out tail] by metis
  with at(1) c show "view (hdr @ drop 64 (out @ tail)) (reread big debug_entry s') = view data s"
    by (simp add: view_def reread_def hasData_def debug_entry_def del: drop_append)
qed

lemma debug_reads_back:
  assumes "parseELF64 alloc data = Inr img" "elf_sane alloc data img" "plan img = (img', prefixEnd)"
  shows "\<exists>debug. writeDebug alloc data img' = Inr debug
    \<and> (sc_name (im_sections img' ! im_shstrndx img) = ''.shstrtab'' \<longrightarrow>
        (\<exists>img3. parseELF64 alloc debug = Inr img3
          \<and> list_all2 (\<lambda>s t. sc_name t = sc_name s \<and> sc_flags t = sc_flags s \<and> sc_size t = sc_size s
              \<and> (\<not> sc_keep s \<and> hasData s \<longrightarrow> view debug t = view data s)) (im_sections img') (im_sections img3)))"
proof -
  let ?big = "im_big img" and ?k = "im_shstrndx img"
  obtain a names ss p where pl: "planned alloc data img names ss p"
    and hok: "header_ok ?big a (length ss) ?k (im_header img)"
    by (rule parsed_planned [OF assms(1,2)])
  note P = pl [unfolded planned_def]
  have img': "img' = img\<lparr>im_sections := ss\<rparr>" using P assms(3) by simp
  then have ims: "im_sections img' = ss" by simp
  have size: "length data < 2 ^ 40" "2 ^ 40 \<le> alloc" using assms(2) by (simp_all add: elf_sane_def)
  obtain ss' tail pos' where cp:
    "copy_sections alloc data (\<lambda>s. False) (\<lambda>s. \<not> carries s) ss (im_header img) (word_of_nat elfHeaderSize64) = Inr (ss', im_header img @ tail, pos')"
    "unat pos' = length (im_header img @ tail)" "length (im_header img @ tail) < 2 ^ 62"
    "list_all2 (debugged data (im_header img @ tail)) ss ss'"
    by (rule debug_copy [OF pl size])
  let ?out = "im_header img @ tail"
  have len: "length ss' = length ss" using cp(4) by (simp add: list_all2_lengthD)
  have k: "?k < length ss'" "debugged data ?out (ss ! ?k) (ss' ! ?k)" using P len list_all2_nthD [OF cp(4), of ?k] by auto
  have st: "sc_size (ss' ! ?k) = sc_size (ss ! ?k)" "hasData (ss' ! ?k)" "sc_name (ss' ! ?k) = sc_name (ss ! ?k)"
    using k(2) P by (auto simp: debugged_def)
  have read: "\<forall>s \<in> set ss'. well_read ?big names (sc_size (ss' ! ?k)) s"
    using cp(4) by (rule list_all2_image) (use P st(1) in \<open>auto simp: debugged_def\<close>)
  have lie: "\<forall>s \<in> set ss'. True \<longrightarrow> lies ?out debug_entry s"
    using cp(4) by (rule list_all2_image) (auto simp: debugged_def lies_def debug_entry_def split: if_splits)
  have raw: "\<forall>s \<in> set ss'. length (sc_raw s) = 64" using read by (simp add: well_read_def)
  have big: "64 \<le> length ?out" and few: "length ss' < 65536" using P len by simp_all
  note patch = dropPhdrs_ok [of ?big]
  obtain F where F: "writeSectionTable alloc img ss' ?out pos' (\<lambda>s. True) (dropPhdrs ?big) debug_entry = Inr F"
    by (rule write_table_ok [where incl = "\<lambda>s. True" and patch = "dropPhdrs ?big" and entry = debug_entry,
        OF hok cp(2) big cp(3) size(2) few k(1) TrueI raw patch])
  have "writeDebug alloc data img' = Inr F"
    using F cp(1) unfolding debug_entry_fun by (simp add: writeDebug_def img' table_image)
  moreover have "\<exists>img3. parseELF64 alloc F = Inr img3
      \<and> list_all2 (\<lambda>s t. sc_name t = sc_name s \<and> sc_flags t = sc_flags s \<and> sc_size t = sc_size s
          \<and> (\<not> sc_keep s \<and> hasData s \<longrightarrow> view F t = view data s)) ss (im_sections img3)"
    if "sc_name (ss ! ?k) = ''.shstrtab''"
  proof -
    have c: "carries (ss ! ?k)" "carries (ss' ! ?k)" using that P st by (simp_all add: carries_def)
    have stf: "snd (debug_entry (ss' ! ?k)) \<noteq> shtNobits" "sc_size (ss' ! ?k) > 0" "unat (sc_size (ss' ! ?k)) \<le> alloc"
      using c(2) st P size by (auto simp: debug_entry_def hasData_def in_file_def)
    have names: "content_at ?out (fst (debug_entry (ss' ! ?k))) (sc_size (ss' ! ?k)) = names"
      using k(2) c(1) P by (auto simp: debugged_def debug_entry_def)
    obtain hdr tl' img3 where w: "writeSectionTable alloc img ss' ?out pos' (\<lambda>s. True) (dropPhdrs ?big) debug_entry = Inr (hdr @ drop 64 (?out @ tl'))"
      "length hdr = 64" "parseELF64 alloc (hdr @ drop 64 (?out @ tl')) = Inr img3"
      "im_sections img3 = map (reread ?big debug_entry) (filter (\<lambda>s. True) ss')"
      by (rule output_parsed [where patch = "dropPhdrs ?big" and entry = debug_entry and incl = "\<lambda>s. True",
          OF hok cp(2) big cp(3) size(2) few k(1) TrueI patch refl read lie stf names])
    have every: "filter (\<lambda>s. True) ss' = ss'" by simp
    have F': "F = hdr @ drop 64 (?out @ tl')" using F w(1) by (simp only: sum.inject)
    have "list_all2 (\<lambda>s t. sc_name t = sc_name s \<and> sc_flags t = sc_flags s \<and> sc_size t = sc_size s
          \<and> (\<not> sc_keep s \<and> hasData s \<longrightarrow> view F t = view data s)) ss (im_sections img3)"
      unfolding w(4) F' list_all2_map2 every
    proof (rule list.rel_mono_strong [OF cp(4)])
      fix s t
      assume "debugged data ?out s t"
      note v = debugged_view [OF this w(2), where big = ?big]
      show "sc_name (reread ?big debug_entry t) = sc_name s \<and> sc_flags (reread ?big debug_entry t) = sc_flags s
        \<and> sc_size (reread ?big debug_entry t) = sc_size s
        \<and> (\<not> sc_keep s \<and> hasData s \<longrightarrow> view (hdr @ drop 64 (?out @ tl')) (reread ?big debug_entry t) = view data s)"
        using v(1-3) v(4) [where tail = tl'] by blast
    qed
    with w(3) F' show ?thesis by blast
  qed
  ultimately show ?thesis using ims by blast
qed

text \<open>C37: a well-formed ELF binary is split in two files that can be read again. The stripped
  one has exactly the kept sections, in order, each with its name, type, flags, length and bytes; up to
  the end of the allocated image every byte is that of the input except for the location, number and
  name index of the section table in the header, so every segment the loader maps is unchanged; and
  every allocated section lies in that part. The debug file, when the section names lie in
  \<open>.shstrtab\<close>, lists every section under its name, and every section that was removed is in it byte
  for byte.\<close>

theorem strip_splits:
  assumes "parseELF64 alloc data = Inr img" "elf_sane alloc data img" "plan img = (img', prefixEnd)"
  shows "\<exists>stripped debug img2. stripELF64 alloc data = Inr (stripped, debug) \<and> parseELF64 alloc stripped = Inr img2
    \<and> map (view stripped) (im_sections img2) = map (view data) (filter sc_keep (im_sections img'))
    \<and> (\<forall>i < unat prefixEnd. i \<notin> {0x28..<0x30} \<union> {0x3c..<0x40} \<longrightarrow> stripped ! i = data ! i)
    \<and> (\<forall>s \<in> set (im_sections img). sec_alloc s \<and> hasData s \<longrightarrow> unat (sc_offset s) + unat (sc_size s) \<le> unat prefixEnd)
    \<and> (sc_name (im_sections img' ! im_shstrndx img) = ''.shstrtab'' \<longrightarrow>
        (\<exists>img3. parseELF64 alloc debug = Inr img3
          \<and> list_all2 (\<lambda>s t. sc_name t = sc_name s \<and> sc_flags t = sc_flags s \<and> sc_size t = sc_size s
              \<and> (\<not> sc_keep s \<and> hasData s \<longrightarrow> view debug t = view data s)) (im_sections img') (im_sections img3)))"
proof -
  obtain stripped img2 where st: "writeStripped alloc data img' prefixEnd = Inr stripped" "parseELF64 alloc stripped = Inr img2"
    "map (view stripped) (im_sections img2) = map (view data) (filter sc_keep (im_sections img'))"
    "\<forall>i < unat prefixEnd. i \<notin> {0x28..<0x30} \<union> {0x3c..<0x40} \<longrightarrow> stripped ! i = data ! i"
    "\<forall>s \<in> set (im_sections img). sec_alloc s \<and> hasData s \<longrightarrow> unat (sc_offset s) + unat (sc_size s) \<le> unat prefixEnd"
    using stripped_reads_back [OF assms] by blast
  obtain debug where dbg: "writeDebug alloc data img' = Inr debug" "sc_name (im_sections img' ! im_shstrndx img) = ''.shstrtab'' \<longrightarrow>
        (\<exists>img3. parseELF64 alloc debug = Inr img3
          \<and> list_all2 (\<lambda>s t. sc_name t = sc_name s \<and> sc_flags t = sc_flags s \<and> sc_size t = sc_size s
              \<and> (\<not> sc_keep s \<and> hasData s \<longrightarrow> view debug t = view data s)) (im_sections img') (im_sections img3))"
    using debug_reads_back [OF assms] by blast
  have "stripELF64 alloc data = Inr (stripped, debug)" using assms(1,3) st(1) dbg(1) by (simp add: stripELF64_def)
  with st dbg(2) show ?thesis by blast
qed


text \<open>A binary with a debug section and its section names.\<close>

definition demo_entry :: "nat \<Rightarrow> nat \<Rightarrow> nat \<Rightarrow> nat \<Rightarrow> bytes" where
  "demo_entry nm ty off sz = le_bytes 4 nm @ le_bytes 4 ty @ le_bytes 8 0 @ le_bytes 8 0 @ le_bytes 8 off @ le_bytes 8 sz
     @ le_bytes 8 0 @ le_bytes 8 1 @ le_bytes 8 0"

lemma demo_entry_fields:
  assumes "ty < 256 ^ 4" "off < 256 ^ 8" "sz < 256 ^ 8"
  shows "sc_typ (parse_section False (demo_entry nm ty off sz)) = word_of_nat ty"
    "sc_offset (parse_section False (demo_entry nm ty off sz)) = word_of_nat off"
    "sc_size (parse_section False (demo_entry nm ty off sz)) = word_of_nat sz"
  using assms by (simp_all add: parse_section_def demo_entry_def u32_at_def u64_at_def uint_at_def elf_consts le_value_bytes del: le_bytes.simps)

definition demo_header :: "nat \<Rightarrow> nat \<Rightarrow> nat \<Rightarrow> bytes" where
  "demo_header shoff shnum k = elfMagic @ [2, 1] @ replicate 34 0 @ le_bytes 8 shoff @ replicate 4 0 @ le_bytes 2 64 @ replicate 4 0
     @ le_bytes 2 64 @ le_bytes 2 shnum @ le_bytes 2 k"

definition demo_names :: bytes where
  "demo_names = [0] @ map (\<lambda>c. word_of_nat (of_char c)) ''.debug_x'' @ [0] @ map (\<lambda>c. word_of_nat (of_char c)) ''.shstrtab'' @ [0]"

definition demo_table :: "bytes list" where
  "demo_table = [replicate 64 0, demo_entry 1 1 64 4, demo_entry 10 3 68 20]"

definition demo_elf :: bytes where
  "demo_elf = demo_header 88 3 2 @ [1, 2, 3, 4] @ demo_names @ concat demo_table"

definition demo_image :: elf_image where
  "demo_image = \<lparr>im_header = demo_header 88 3 2, im_big = False,
     im_sections = map (\<lambda>r. name_section False demo_names 20 (parse_section False r)) demo_table, im_shstrndx = 2\<rparr>"

lemma demo_parsed:
  assumes "2 ^ 22 \<le> alloc"
  shows "parseELF64 alloc demo_elf = Inr demo_image"
proof -
  have st: "sc_offset (parse_section False (demo_table ! 2)) = 68" "sc_size (parse_section False (demo_table ! 2)) = 20" by code_simp+
  have len: "length demo_elf = 280" "length demo_table = 3" by code_simp+
  have sections: "\<forall>r \<in> set demo_table. hasData (parse_section False r) \<longrightarrow> in_file demo_elf (parse_section False r)" by code_simp
  have names: "content_at demo_elf 68 20 = demo_names" by code_simp
  have "parseELF64 alloc demo_elf = Inr \<lparr>im_header = demo_header 88 3 2, im_big = False,
     im_sections = map (\<lambda>r. name_section False (content_at demo_elf (sc_offset (parse_section False (demo_table ! 2))) (sc_size (parse_section False (demo_table ! 2))))
       (sc_size (parse_section False (demo_table ! 2))) (parse_section False r)) demo_table, im_shstrndx = 2\<rparr>"
  proof (rule parse_file)
    show "demo_elf = demo_header 88 3 2 @ ([1, 2, 3, 4] @ demo_names @ concat demo_table)" by (simp add: demo_elf_def)
    show "header_ok False 88 (length demo_table) 2 (demo_header 88 3 2)" by code_simp
    show "take (64 * length demo_table) (drop 88 demo_elf) = concat demo_table" by code_simp
    show "\<forall>r \<in> set demo_table. length r = 64" by code_simp
    show "hasData (parse_section False (demo_table ! 2))" by code_simp
  qed (use assms len st sections in simp_all)
  then show ?thesis unfolding st names demo_image_def .
qed

lemma demo_sane: "elf_sane (2 ^ 40) demo_elf demo_image"
proof -
  have len: "length demo_elf = 280" and hdr: "unat (header_end demo_image) = 64" by code_simp+
  have "\<forall>s \<in> set (im_sections demo_image). unat (sc_addralign s) \<le> 1
      \<and> (hasData s \<longrightarrow> 64 \<le> unat (sc_offset s) \<and> in_file demo_elf s)" by code_simp
  moreover have "(1 :: nat) \<le> 2 ^ 40" by simp
  ultimately show ?thesis unfolding elf_sane_def hdr len by (auto intro: order_trans)
qed

theorem strip_splits_witness:
  "\<exists>stripped debug img2 img3. stripELF64 (2 ^ 40) demo_elf = Inr (stripped, debug)
    \<and> parseELF64 (2 ^ 40) stripped = Inr img2 \<and> map (view stripped) (im_sections img2) = [([], 0, 0, 0, []), (''.shstrtab'', 3, 0, 20, demo_names)]
    \<and> parseELF64 (2 ^ 40) debug = Inr img3 \<and> view debug (im_sections img3 ! 1) = (''.debug_x'', 1, 0, 4, [1, 2, 3, 4])"
proof -
  let ?i = "fst (plan demo_image)"
  have p: "parseELF64 (2 ^ 40) demo_elf = Inr demo_image" by (rule demo_parsed) simp
  have pl: "plan demo_image = (?i, snd (plan demo_image))" by simp
  have kept: "map (view demo_elf) (filter sc_keep (im_sections ?i)) = [([], 0, 0, 0, []), (''.shstrtab'', 3, 0, 20, demo_names)]" by code_simp
  have nm: "sc_name (im_sections ?i ! im_shstrndx demo_image) = ''.shstrtab''" by code_simp
  have one: "1 < length (im_sections ?i)" "\<not> sc_keep (im_sections ?i ! 1) \<and> hasData (im_sections ?i ! 1)"
    "view demo_elf (im_sections ?i ! 1) = (''.debug_x'', 1, 0, 4, [1, 2, 3, 4])" by code_simp+
  from strip_splits [OF p demo_sane pl] nm obtain stripped debug img2 img3 where
    r: "stripELF64 (2 ^ 40) demo_elf = Inr (stripped, debug)" "parseELF64 (2 ^ 40) stripped = Inr img2"
      "map (view stripped) (im_sections img2) = map (view demo_elf) (filter sc_keep (im_sections ?i))"
      "parseELF64 (2 ^ 40) debug = Inr img3"
      "list_all2 (\<lambda>s t. sc_name t = sc_name s \<and> sc_flags t = sc_flags s \<and> sc_size t = sc_size s
              \<and> (\<not> sc_keep s \<and> hasData s \<longrightarrow> view debug t = view demo_elf s)) (im_sections ?i) (im_sections img3)" by blast
  from list_all2_nthD [OF r(5) one(1)] one(2,3) have "view debug (im_sections img3 ! 1) = (''.debug_x'', 1, 0, 4, [1, 2, 3, 4])" by (simp only: simp_thms)
  with r kept show ?thesis by auto
qed

text \<open>C38: the bounds check of a section's extent adds the offset and the length in 64 bits: a name table
  whose sum wraps is accepted, and reading it asks for a buffer of its claimed length, which ends in
  a panic and not in one of the errors the caller answers by serving the binary unstripped.\<close>

theorem wrapped_names_panic:
  assumes "header_ok big 64 1 0 hdr" "length entry = 64" "hasData (parse_section big entry)"
    "sc_offset (parse_section big entry) + sc_size (parse_section big entry) \<le> 128"
    "2 ^ 22 \<le> alloc" "alloc < unat (sc_size (parse_section big entry))"
  shows "stripELF64 alloc (hdr @ entry) = Inl Panicked"
proof -
  let ?F = "hdr @ entry" and ?s = "parse_section big entry"
  have len: "length hdr = 64" using assms(1) by (simp add: header_ok_def)
  have "fileEnd ?s \<le> word_of_nat (length ?F)" using assms(2,3,4) len by (simp add: fileEnd_def)
  then have "parseELF64 alloc ?F =
    bind_res (make_bytes alloc (unat (sc_size ?s))) (\<lambda>_.
    bind_res (read_at ''read section names'' ?F (unat (sc_size ?s)) (sint (sc_offset ?s))) (\<lambda>names.
      Inr \<lparr>im_header = hdr, im_big = big,
           im_sections = map (\<lambda>r. name_section big names (sc_size ?s) (parse_section big r)) [entry], im_shstrndx = 0\<rparr>))"
    using assms len by (intro parse_upto_names [where rest = entry and shoff = 64]) simp_all
  with assms(6) show ?thesis by (simp add: stripELF64_def make_bytes_def)
qed

theorem wrapped_names_panic_witness:
  "stripELF64 (2 ^ 48) (demo_header 64 1 0 @ demo_entry 0 3 1 (2 ^ 64 - 1)) = Inl Panicked"
proof -
  let ?e = "demo_entry 0 3 1 (2 ^ 64 - 1)"
  have parsed: "sc_typ (parse_section False ?e) = 3" "sc_offset (parse_section False ?e) = 1" "sc_size (parse_section False ?e) = - 1"
    by (simp_all add: demo_entry_fields)
  have hdr: "header_ok False 64 1 0 (demo_header 64 1 0)" by code_simp
  show ?thesis
  proof (rule wrapped_names_panic [OF hdr])
    show "(2 ^ 48 :: nat) < unat (sc_size (parse_section False ?e))" unfolding parsed by (simp add: unsigned_minus_1_eq_mask mask_eq_exp_minus_1)
    show "hasData (parse_section False ?e)" unfolding hasData_def shtNobits_def parsed by (simp add: word_gt_0)
    show "sc_offset (parse_section False ?e) + sc_size (parse_section False ?e) \<le> 128" unfolding parsed by simp
  qed (simp_all add: demo_entry_def)
qed

end
