(* ===== verification/Downloads.thy ===== *)
theory Downloads
  imports Signed_Urls Artifact_Api Elf_Strip
begin

text \<open>
  Downloads: \<open>internal/dl\<close> resolves a request to a release and a platform and redirects to
  \<open>internal/static\<close>, which serves the bytes of one artifact in one format; a private download carries
  a signed token across the redirect, and \<open>downloadlinks.go\<close> (of \<open>internal/api\<close> and \<open>internal/admin\<close>)
  mints such addresses for other people. The packaged formats other than the raw bytes and the debug
  symbols are arguments. A query is handled as the raw string the client sent. The failures of the
  blob store are an argument, one for each time it is opened; a stored stream that does not decode
  yields nothing.
\<close>

section \<open>Hosts\<close>

definition hostNoPort :: "string \<Rightarrow> string" where
  "hostNoPort host = (case cut_last (CHR '':'') host of (h, _, _) \<Rightarrow> h)"

definition host_port :: "string \<Rightarrow> string" where
  "host_port host = (case cut_last (CHR '':'') host of (_, p, ok) \<Rightarrow> if ok then CHR '':'' # p else [])"

definition drop_label :: "string \<Rightarrow> string" where
  "drop_label host = (case cut_at (CHR ''.'') host of (l, rest, ok) \<Rightarrow> if ok \<and> l \<noteq> [] then rest else host)"

definition domainFromRequest :: "string \<Rightarrow> string" where
  "domainFromRequest host = drop_label (hostNoPort host) @ host_port host"

definition RequestScheme :: "string \<Rightarrow> string" where
  "RequestScheme host =
     (let h = hostNoPort host in
      if h = ''localhost'' \<or> has_suffix h ''.localhost'' \<or> h = ''127.0.0.1'' \<or> h = ''::1'' then ''http'' else ''https'')"

definition DeriveServiceURL :: "string \<Rightarrow> string \<Rightarrow> string" where
  "DeriveServiceURL host service = RequestScheme host @ ''://'' @ service @ ''.'' @ domainFromRequest host"

definition RequestBaseURL :: "string \<Rightarrow> string" where
  "RequestBaseURL host = RequestScheme host @ ''://'' @ host"

definition siteApexOf :: "string \<Rightarrow> string \<Rightarrow> string" where
  "siteApexOf siteDomain host =
     (if siteDomain = [] then []
      else
        (let h = to_lower host; suffix = ''.'' @ siteDomain in
         if h = siteDomain then siteDomain
         else if has_suffix h suffix then
           (let label = take (length h - length suffix) h in
            if label \<noteq> [] \<and> CHR ''.'' \<notin> set label then siteDomain else [])
         else []))"

definition knownServiceLabels :: "string list" where
  "knownServiceLabels = [''apt'', ''brew'', ''dl'', ''git'', ''npm'', ''oci'', ''sites'', ''static'', ''docker'', ''admin'']"

definition ApexServiceURL :: "string \<Rightarrow> string \<Rightarrow> string \<Rightarrow> string" where
  "ApexServiceURL siteDomain host service =
     (let h = hostNoPort host; sd = siteApexOf siteDomain h;
          apex = (if sd \<noteq> [] then sd
                  else case cut_at (CHR ''.'') h of (l, rest, ok) \<Rightarrow> if ok \<and> l \<noteq> [] \<and> l \<in> set knownServiceLabels then rest else h)
      in RequestScheme host @ ''://'' @ service @ ''.'' @ apex @ host_port host)"

section \<open>Formats\<close>

record served =
  sv_headers :: "(string \<times> string) list"
  sv_body :: "bytes option"

datatype serve_outcome = Served served | ServeError string | ServePanic

text \<open>The artifact is missing when the request names the platform \<open>any\<close>.\<close>

record serve_ctx =
  sc_project :: project
  sc_release :: release
  sc_artifact :: "artifact option"

record static_request =
  sr_host :: string
  sr_raw_query :: string
  sr_accept_encoding :: string
  sr_if_none_match :: string
  sr_forwarded_for :: string
  sr_remote_addr :: string
  sr_user_agent :: string

type_synonym format_fn = "static_request \<Rightarrow> serve_ctx \<Rightarrow> filesystem \<Rightarrow> serve_outcome"

record static_env =
  se_mac :: "string \<Rightarrow> bytes"
  se_sha256hex :: "string \<Rightarrow> string"
  se_dec :: "bytes \<Rightarrow> bytes option"
  se_alloc :: nat
  se_float_zero :: "string \<Rightarrow> bool"
  se_split_host :: "string \<Rightarrow> string option"
  se_repackagers :: "(string \<times> format_fn) list"

definition storage_key_of :: "serve_ctx \<Rightarrow> string" where
  "storage_key_of ctx = (case sc_artifact ctx of None \<Rightarrow> [] | Some a \<Rightarrow> a_storage_key a)"

definition sr_query :: "static_request \<Rightarrow> string \<Rightarrow> string" where
  "sr_query r k = values_get (parse_query (sr_raw_query r)) k"

fun q_refuses :: "(string \<Rightarrow> bool) \<Rightarrow> string list \<Rightarrow> bool" where
  "q_refuses zero [] = False"
| "q_refuses zero (p # ps) =
     (case cut_at (CHR ''='') p of (k, v, ok) \<Rightarrow>
        if ok \<and> equal_fold (trim_space k) ''q'' \<and> zero (trim_space v) then True else q_refuses zero ps)"

fun zstd_loop :: "(string \<Rightarrow> bool) \<Rightarrow> string list \<Rightarrow> bool" where
  "zstd_loop zero [] = False"
| "zstd_loop zero (part # parts) =
     (case cut_at (CHR '';'') (trim_space part) of (name, params, _) \<Rightarrow>
        if \<not> equal_fold (trim_space name) ''zstd'' then zstd_loop zero parts
        else \<not> q_refuses zero (split_on (CHR '';'') params))"

definition acceptsZstd :: "(string \<Rightarrow> bool) \<Rightarrow> string \<Rightarrow> bool" where
  "acceptsZstd zero accept = zstd_loop zero (split_on (CHR '','') accept)"

definition attachment :: "string \<Rightarrow> string \<Rightarrow> int \<Rightarrow> (string \<times> string) list" where
  "attachment name encoding sz =
     [(''Content-Type'', ''application/octet-stream''), (''Content-Disposition'', ''attachment; filename='' @ quoted name)] @
     (if encoding = [] then [] else [(''Content-Encoding'', encoding)]) @ [(''Content-Length'', format_int sz)]"

definition raw_Serve :: "static_env \<Rightarrow> (nat \<Rightarrow> stage option) \<Rightarrow> format_fn" where
  "raw_Serve env fail r ctx fs =
     (let key = storage_key_of ctx; name = p_name (sc_project ctx); debug = (sr_query r ''debug'' = ''1'') in
      if key = [] then ServeError ''raw format requires an artifact''
      else
        (let strippable = (case GetBlob (se_dec env) (fail 0) key fs of Inl _ \<Rightarrow> False | Inr (b, _) \<Rightarrow> LooksELF (blob_reader b));
             shouldStrip = strippable \<and> \<not> debug;
             headers = [(''X-Debug-Symbols'', if strippable then ''available'' else ''unavailable''), (''Vary'', ''Accept-Encoding'')];
             answer = (\<lambda>encoding sz body. Served \<lparr>sv_headers = headers @ attachment name encoding sz, sv_body = body\<rparr>);
             passthrough = (if \<not> shouldStrip \<and> acceptsZstd (se_float_zero env) (sr_accept_encoding r)
                then (case GetCompressed (fail 1) key fs of Inl _ \<Rightarrow> None | Inr b \<Rightarrow> if cb_encoding b = ''zstd'' then Some b else None)
                else None)
         in case passthrough of
              Some b \<Rightarrow> answer ''zstd'' (cb_size b) (Some (cb_bytes b))
            | None \<Rightarrow>
                (case GetBlob (se_dec env) (fail 2) key fs of
                   Inl _ \<Rightarrow> ServeError ''artifact not found''
                 | Inr (b, sz) \<Rightarrow>
                     if shouldStrip then
                       (case StripReader (se_alloc env) (blob_reader b) of
                          Inr (stripped, ssize) \<Rightarrow> answer [] ssize (Some stripped)
                        | Inl Panicked \<Rightarrow> ServePanic
                        | Inl _ \<Rightarrow>
                            (case GetBlob (se_dec env) (fail 3) key fs of
                               Inl _ \<Rightarrow> ServeError ''artifact not found''
                             | Inr (b', sz') \<Rightarrow> answer [] sz' b'))
                     else answer [] sz b)))"

definition symbols_Serve :: "static_env \<Rightarrow> (nat \<Rightarrow> stage option) \<Rightarrow> format_fn" where
  "symbols_Serve env fail r ctx fs =
     (let key = storage_key_of ctx in
      if key = [] then ServeError ''symbols format requires an artifact''
      else case GetBlob (se_dec env) (fail 0) key fs of
        Inl _ \<Rightarrow> ServeError ''artifact not found''
      | Inr (b, _) \<Rightarrow>
          (case StripReaderDebug (se_alloc env) (blob_reader b) of
             Inl Panicked \<Rightarrow> ServePanic
           | Inl _ \<Rightarrow> ServeError ''no debug symbols''
           | Inr (dbg, dsize) \<Rightarrow>
               Served \<lparr>sv_headers = attachment (p_name (sc_project ctx) @ ''.debug'') [] dsize, sv_body = Some dbg\<rparr>))"

definition RegisterFmt :: "string \<Rightarrow> format_fn \<Rightarrow> (string \<times> format_fn) list \<Rightarrow> (string \<times> format_fn) list" where
  "RegisterFmt name f registry = AList.update name f registry"

definition fmt_registry :: "static_env \<Rightarrow> (nat \<Rightarrow> stage option) \<Rightarrow> (string \<times> format_fn) list" where
  "fmt_registry env fail =
     foldl (\<lambda>reg (name, f). RegisterFmt name f reg)
       (RegisterFmt ''symbols'' (symbols_Serve env fail) (RegisterFmt ''raw'' (raw_Serve env fail) [])) (se_repackagers env)"

definition LookupFmt :: "static_env \<Rightarrow> (nat \<Rightarrow> stage option) \<Rightarrow> string \<Rightarrow> format_fn option" where
  "LookupFmt env fail name = map_of (fmt_registry env fail) name"

section \<open>Serving\<close>

datatype static_reply =
    SRedirect int string
  | SError int string
  | SNotModified
  | SServed "(string \<times> string) list" "bytes option"
  | SPanic

definition knownParams :: "string list" where
  "knownParams = [''arch'', ''debug'', ''fmt'', ''project'', ''os'', ''v'', ''token'']"

definition canonical_value :: "string \<Rightarrow> string \<Rightarrow> string" where
  "canonical_value k v =
     (if k = ''os'' then (case NormalizeOS v of (c, ok) \<Rightarrow> if ok then c else v)
      else if k = ''arch'' then (case NormalizeArch v of (c, ok) \<Rightarrow> if ok then c else v)
      else v)"

definition canonicalQuery :: "(string \<times> string) list \<Rightarrow> string" where
  "canonicalQuery raw =
     (let clean = map (\<lambda>k. (k, canonical_value k (values_get raw k))) (filter (\<lambda>k. k \<in> set knownParams) (remdups (map fst raw)));
          clean' = (case NormalizeLegacyWasmPair (values_get clean ''os'') (values_get clean ''arch'') of
                      (os, arch, ok) \<Rightarrow> if ok then values_set ''arch'' arch (values_set ''os'' os clean) else clean)
      in encode_values clean')"

definition resolveVersion :: "int \<Rightarrow> string \<Rightarrow> db \<Rightarrow> db_error + release" where
  "resolveVersion pid version d =
     (case GetRelease pid version d of
        Inr rl \<Rightarrow> Inr rl
      | Inl _ \<Rightarrow>
          (let trimmed = trim_prefix version ''v'' in
           case (if trimmed \<noteq> version then GetRelease pid trimmed d else Inl ErrNotFound) of
             Inr rl \<Rightarrow> Inr rl
           | Inl _ \<Rightarrow>
               if has_suffix version ''.0.0'' then
                 (case GetRelease pid (take (length version - 4) version) d of Inr rl \<Rightarrow> Inr rl | Inl _ \<Rightarrow> Inl ErrNotFound)
               else Inl ErrNotFound))"

definition static_visibility :: "string \<Rightarrow> db \<Rightarrow> project \<Rightarrow> Visibility" where
  "static_visibility version d p =
     (if version = [] \<or> version = ''latest'' then VisibilityAuto
      else case resolveVersion (p_id p) version d of Inl _ \<Rightarrow> VisibilityAuto | Inr rl \<Rightarrow> ReleaseVisibility (r_id rl) d)"

definition static_public :: "(string \<Rightarrow> bytes) \<Rightarrow> time \<Rightarrow> (string \<Rightarrow> string) \<Rightarrow> db \<Rightarrow> project \<Rightarrow> bool" where
  "static_public mac now q d p =
     (if q ''token'' = [] then False
      else VerifyDownloadToken mac now (q ''token'') (p_name p) (q ''v'') (q ''os'') (q ''arch'')
             (if q ''fmt'' = [] then ''raw'' else q ''fmt'') (q ''debug'' = ''1''))"

definition static_parseRoute :: "(string \<Rightarrow> bytes) \<Rightarrow> time \<Rightarrow> static_request \<Rightarrow> route_info" where
  "static_parseRoute mac now r =
     \<lparr>rt_project = sr_query r ''project'', rt_access = ReadAccess, rt_build_visibility = Some (static_visibility (sr_query r ''v'')),
      rt_public_read = Some (static_public mac now (sr_query r))\<rparr>"

definition computeETag :: "(string \<Rightarrow> string) \<Rightarrow> serve_ctx \<Rightarrow> string \<Rightarrow> string" where
  "computeETag sha256hex ctx fmt =
     quoted (take 16 (sha256hex
       (if storage_key_of ctx \<noteq> [] then storage_key_of ctx @ ''-'' @ fmt
        else p_name (sc_project ctx) @ ''-'' @ r_version (sc_release ctx) @ ''-'' @ fmt)))"

definition downloadPrincipal :: "auth_ctx \<Rightarrow> string" where
  "downloadPrincipal ctx =
     (case UserFrom ctx of
        Some user \<Rightarrow> user
      | None \<Rightarrow> (case cx_token ctx of Some t \<Rightarrow> ''token:'' @ t_name t | None \<Rightarrow> []))"

definition clientIP :: "(string \<Rightarrow> string option) \<Rightarrow> static_request \<Rightarrow> string" where
  "clientIP split_host r =
     (if sr_forwarded_for r \<noteq> [] then trim_space (fst (cut_at (CHR '','') (sr_forwarded_for r)))
      else case split_host (sr_remote_addr r) of Some host \<Rightarrow> host | None \<Rightarrow> sr_remote_addr r)"

definition IncrementDownloadCount :: "int \<Rightarrow> db \<Rightarrow> db_error + db" where
  "IncrementDownloadCount i d =
     (if \<not> list_ex (\<lambda>a. a_id a = i) (d_artifacts d) then Inl ForeignKeyViolation
      else Inr (d\<lparr>d_counts := AList.update i (case map_of (d_counts d) i of None \<Rightarrow> 1 | Some n \<Rightarrow> n + 1) (d_counts d)\<rparr>))"

definition RecordDownloadEvent :: "int \<Rightarrow> string \<Rightarrow> string \<Rightarrow> string \<Rightarrow> string \<Rightarrow> db \<Rightarrow> db_error + db" where
  "RecordDownloadEvent i fmt ip agent who d =
     (if \<not> list_ex (\<lambda>a. a_id a = i) (d_artifacts d) then Inl ForeignKeyViolation
      else Inr (d\<lparr>d_events := d_events d @ [\<lparr>ev_artifact_id = i, ev_fmt = fmt, ev_client_ip = ip, ev_user_agent = agent, ev_principal = who\<rparr>]\<rparr>))"

definition ignore_error :: "db \<Rightarrow> db_error + db \<Rightarrow> db" where
  "ignore_error d res = (case res of Inl _ \<Rightarrow> d | Inr d' \<Rightarrow> d')"

definition recordDownload :: "static_env \<Rightarrow> static_request \<Rightarrow> auth_ctx \<Rightarrow> int \<Rightarrow> string \<Rightarrow> db \<Rightarrow> db" where
  "recordDownload env r ctx i fmt d =
     (let d1 = ignore_error d (IncrementDownloadCount i d)
      in ignore_error d1 (RecordDownloadEvent i fmt (clientIP (se_split_host env) r) (sr_user_agent r) (downloadPrincipal ctx) d1))"

definition static_artifact :: "int \<Rightarrow> string \<Rightarrow> string \<Rightarrow> db \<Rightarrow> static_reply + artifact option" where
  "static_artifact rid os arch d =
     (if os = ''any'' \<or> arch = ''any'' then Inr None
      else case GetArtifact rid os arch d of
        Inl _ \<Rightarrow> Inl (SError 404 ''404 page not found'')
      | Inr a \<Rightarrow> if ServedViaDockerOnly (a_kind a) then Inl (SError 404 ''404 page not found'') else Inr (Some a))"

text \<open>The end of \<open>Serve\<close>: the answer to a context, in a format.\<close>

definition static_answer :: "static_env \<Rightarrow> static_request \<Rightarrow> auth_ctx \<Rightarrow> string \<Rightarrow> format_fn \<Rightarrow> serve_ctx \<Rightarrow> filesystem \<Rightarrow> db \<Rightarrow> db \<times> static_reply" where
  "static_answer env r ctx fmt f sctx fs d =
     (let etag = computeETag (se_sha256hex env) sctx fmt in
      if sr_if_none_match r = etag then (d, SNotModified)
      else
        (let cache = (if sr_query r ''token'' \<noteq> [] \<or> ReadIsPrivate ctx then ''private, no-store'' else ''public, max-age=31536000, immutable'')
         in case f r sctx fs of
              ServeError _ \<Rightarrow> (d, SError 404 ''not found'')
            | ServePanic \<Rightarrow> (d, SPanic)
            | Served s \<Rightarrow>
                ((case sc_artifact sctx of None \<Rightarrow> d | Some a \<Rightarrow> if a_id a = 0 then d else recordDownload env r ctx (a_id a) fmt d),
                 SServed ([(''ETag'', etag), (''Cache-Control'', cache)] @ sv_headers s) (sv_body s))))"

definition static_Serve :: "static_env \<Rightarrow> (nat \<Rightarrow> stage option) \<Rightarrow> static_request \<Rightarrow> auth_ctx \<Rightarrow> filesystem \<Rightarrow> db \<Rightarrow> db \<times> static_reply" where
  "static_Serve env fail r ctx fs d =
     (let canonical = canonicalQuery (parse_query (sr_raw_query r)) in
      if canonical \<noteq> sr_raw_query r then (d, SRedirect 301 (''/file'' @ (if canonical = [] then [] else ''?'' @ canonical)))
      else
        (let version = sr_query r ''v''; os = sr_query r ''os''; arch = sr_query r ''arch'';
             fmt = (if sr_query r ''fmt'' = [] then ''raw'' else sr_query r ''fmt'')
         in if version = [] \<or> version = ''latest'' then (d, SError 400 ''v is required and must be a specific version'')
            else if os = [] \<or> arch = [] then (d, SError 400 ''os and arch are required'')
            else case LookupFmt env fail fmt of
              None \<Rightarrow> (d, SError 400 ''unsupported format'')
            | Some f \<Rightarrow>
                (case cx_project ctx of
                   None \<Rightarrow> (d, SPanic)
                 | Some p \<Rightarrow>
                     (case resolveVersion (p_id p) version d of
                        Inl _ \<Rightarrow> (d, SError 404 ''404 page not found'')
                      | Inr rl \<Rightarrow>
                          (case static_artifact (r_id rl) os arch d of
                             Inl reply \<Rightarrow> (d, reply)
                           | Inr a \<Rightarrow> static_answer env r ctx fmt f \<lparr>sc_project = p, sc_release = rl, sc_artifact = a\<rparr> fs d)))))"

section \<open>Resolving a download\<close>

datatype dl_reply =
    DlError int string
  | DlRedirect int string string

record dl_request =
  dr_host :: string
  dr_project :: string
  dr_query :: "(string \<times> string) list"

definition dl_get :: "dl_request \<Rightarrow> string \<Rightarrow> string" where
  "dl_get r k = values_get (dr_query r) k"

definition privateRedirectTTL :: int where
  "privateRedirectTTL = 15 * 60 * 1000000000"

definition resolveRelease :: "int \<Rightarrow> string \<Rightarrow> string \<Rightarrow> db \<Rightarrow> (db_error + release) \<times> string" where
  "resolveRelease pid version branch d =
     (if version \<noteq> [] then (GetRelease pid version d, ''exact'')
      else if branch \<noteq> [] then (GetLatestReleaseByBranch pid branch d, ''branch'')
      else (GetLatestRelease pid d, ''latest''))"

definition dl_visibility :: "string \<Rightarrow> string \<Rightarrow> db \<Rightarrow> project \<Rightarrow> Visibility" where
  "dl_visibility version branch d p =
     (case fst (resolveRelease (p_id p) version branch d) of Inl _ \<Rightarrow> VisibilityAuto | Inr rl \<Rightarrow> ReleaseVisibility (r_id rl) d)"

definition dl_parseRoute :: "dl_request \<Rightarrow> route_info" where
  "dl_parseRoute r =
     \<lparr>rt_project = dr_project r, rt_access = ReadAccess, rt_build_visibility = Some (dl_visibility (dl_get r ''v'') (dl_get r ''branch'')),
      rt_public_read = None\<rparr>"

definition portableMissing :: "int \<Rightarrow> db \<Rightarrow> string" where
  "portableMissing rid d =
     (let lead = ''this release has no portable build, so name os and arch'';
          pairs = sort (remdups (map (\<lambda>pa. a_os (pa_artifact pa) @ ''/'' @ a_arch (pa_artifact pa)) (ListArtifactsByPlatform rid d)))
      in if pairs = [] then lead else lead @ ''. It carries '' @ join_with '', '' pairs)"

definition dl_platform :: "string \<Rightarrow> string \<Rightarrow> string \<times> string" where
  "dl_platform os arch =
     (let (os1, arch1) = (case NormalizeLegacyWasmPair os arch of (o', a', ok) \<Rightarrow> if ok then (o', a') else (os, arch))
      in ((case NormalizeOS os1 of (c, ok) \<Rightarrow> if ok then c else os1), (case NormalizeArch arch1 of (c, ok) \<Rightarrow> if ok then c else arch1)))"

definition resolvedDownloadVersion :: "release \<Rightarrow> string" where
  "resolvedDownloadVersion rl =
     (let v = trim_prefix (r_version rl) ''v'' in if v = [] then format_int (r_version_num rl) else v)"

definition dl_target :: "int \<Rightarrow> bool \<Rightarrow> string \<Rightarrow> string \<Rightarrow> db \<Rightarrow> dl_reply + string \<times> string" where
  "dl_target rid portable os arch d =
     (if portable then
        (case PortableArtifact rid d of Inl _ \<Rightarrow> Inl (DlError 400 (portableMissing rid d)) | Inr a \<Rightarrow> Inr (a_os a, a_arch a))
      else (case CanonicalPlatform rid os arch d of Inr (o', a') \<Rightarrow> Inr (o', a') | Inl _ \<Rightarrow> Inr (os, arch)))"

definition Download :: "(string \<Rightarrow> bytes) \<Rightarrow> time \<Rightarrow> dl_request \<Rightarrow> auth_ctx \<Rightarrow> project \<Rightarrow> db \<Rightarrow> dl_reply" where
  "Download mac now r ctx project d =
     (let os = dl_get r ''os''; arch = dl_get r ''arch''; portable = (os = [] \<and> arch = []) in
      if \<not> portable \<and> (os = [] \<or> arch = []) then DlError 400 ''name both os and arch, or neither for the portable build''
      else
        (case (dl_platform os arch, resolveRelease (p_id project) (dl_get r ''v'') (dl_get r ''branch'') d) of
           ((os1, arch1), (Inl _, _)) \<Rightarrow> DlError 404 ''404 page not found''
         | ((os1, arch1), (Inr rl, resolution)) \<Rightarrow>
             (case dl_target (r_id rl) portable os1 arch1 d of
                Inl reply \<Rightarrow> reply
              | Inr (os2, arch2) \<Rightarrow>
                  (let p = (params_for (p_name project))\<lparr>sp_version := resolvedDownloadVersion rl, sp_os := os2, sp_arch := arch2,
                             sp_fmt := (if dl_get r ''fmt'' = [] then ''raw'' else dl_get r ''fmt''), sp_debug := (dl_get r ''debug'' = ''1'')\<rparr>;
                       base = DeriveServiceURL (dr_host r) ''static''
                   in if ReadIsPrivate ctx
                      then DlRedirect 302 ''private, no-store'' (fst (SignedURL mac base p (now + privateRedirectTTL)))
                      else if resolution = ''exact'' then DlRedirect 301 ''public, max-age=31536000, immutable'' (static_URL base p)
                      else DlRedirect 302 ''no-store'' (static_URL base p)))))"

section \<open>Temporary links\<close>

datatype link_reply =
    LinkRefused int string
  | LinkCreated string string time

record create_link_request =
  lq_os :: string
  lq_arch :: string
  lq_fmt :: string
  lq_version :: string
  lq_debug :: bool
  lq_ttl_seconds :: int

definition defaultDownloadLinkTTL :: int where "defaultDownloadLinkTTL = 3600 * 1000000000"

definition maxDownloadLinkTTL :: int where "maxDownloadLinkTTL = 24 * 3600 * 1000000000"

definition minDownloadLinkTTL :: int where "minDownloadLinkTTL = 60 * 1000000000"

definition clampDownloadLinkTTL :: "int \<Rightarrow> int" where
  "clampDownloadLinkTTL seconds =
     (let ttl = (if seconds > 0 then wrap64 (seconds * 1000000000) else defaultDownloadLinkTTL) in
      if ttl < minDownloadLinkTTL then minDownloadLinkTTL else if ttl > maxDownloadLinkTTL then maxDownloadLinkTTL else ttl)"

text \<open>What the two endpoints do once the project is known; the texts of some refusals differ.\<close>

definition link_checks :: "bool \<Rightarrow> static_env \<Rightarrow> project \<Rightarrow> create_link_request \<Rightarrow> db \<Rightarrow> link_reply + release \<times> string" where
  "link_checks admin env p req d =
     (let fmt = (if lq_fmt req = [] then ''raw'' else lq_fmt req) in
      if lq_os req = [] \<or> lq_arch req = [] \<or> lq_version req = [] then Inl (LinkRefused 400 ''os, arch and version are required'')
      else if lq_os req = ''any'' \<or> lq_arch req = ''any'' then Inl (LinkRefused 400 (''os and arch must be concrete (not '' @ quoted ''any'' @ '')''))
      else if LookupFmt env (\<lambda>_. None) fmt = None then Inl (LinkRefused 400 (if admin then ''unsupported format'' else ''unsupported format: '' @ fmt))
      else case GetRelease (p_id p) (lq_version req) d of
        Inl _ \<Rightarrow> Inl (LinkRefused 404 (if admin then ''404 page not found'' else ''release not found''))
      | Inr rl \<Rightarrow>
          (case GetArtifact (r_id rl) (lq_os req) (lq_arch req) d of
             Inl _ \<Rightarrow> Inl (LinkRefused 404 (if admin then ''404 page not found'' else ''no artifact for this os/arch''))
           | Inr a \<Rightarrow>
               if ServedViaDockerOnly (a_kind a) then Inl (LinkRefused 400 ''docker images are downloaded via the OCI endpoint'')
               else Inr (rl, fmt)))"

definition link_params :: "project \<Rightarrow> create_link_request \<Rightarrow> release \<Rightarrow> string \<Rightarrow> params" where
  "link_params p req rl fmt = (params_for (p_name p))\<lparr>sp_version := resolvedDownloadVersion rl, sp_os := lq_os req, sp_arch := lq_arch req,
     sp_fmt := fmt, sp_debug := lq_debug req\<rparr>"

definition mint_link :: "bool \<Rightarrow> static_env \<Rightarrow> string \<Rightarrow> string \<Rightarrow> time \<Rightarrow> project \<Rightarrow> create_link_request \<Rightarrow> db \<Rightarrow> link_reply" where
  "mint_link admin env siteDomain host now p req d =
     (case link_checks admin env p req d of
        Inl refusal \<Rightarrow> refusal
      | Inr (rl, fmt) \<Rightarrow>
          (let exp = now + clampDownloadLinkTTL (lq_ttl_seconds req);
               (url, tok) = SignedURL (se_mac env) (ApexServiceURL siteDomain host ''static'') (link_params p req rl fmt) exp
           in LinkCreated url tok exp))"


definition apiCreateDownloadLink :: "static_env \<Rightarrow> string \<Rightarrow> string \<Rightarrow> time \<Rightarrow> string \<Rightarrow> create_link_request option \<Rightarrow> db \<Rightarrow> link_reply" where
  "apiCreateDownloadLink env siteDomain host now name body d =
     (case GetProject name d of
        Inl _ \<Rightarrow> LinkRefused 404 ''404 page not found''
      | Inr p \<Rightarrow> (case body of None \<Rightarrow> LinkRefused 400 ''invalid request'' | Some req \<Rightarrow> mint_link True env siteDomain host now p req d))"

section \<open>Canonical queries\<close>

lemma sort_key_values: "distinct (map fst q) \<Longrightarrow> values_get (sort_key fst q) k = values_get q k"
proof -
  assume q: "distinct (map fst q)"
  then have "distinct (map fst (sort_key fst q))" by (simp add: distinct_map)
  with q have "map_of (sort_key fst q) = map_of q" by (subst map_of_inject_set) auto
  then show ?thesis by (simp add: values_get_def)
qed

lemma sorted_twice: "sort_key f (sort_key f xs) = sort_key f xs"
  by (rule sort_key_id_if_sorted) simp

definition query_ok :: "(string \<times> string) list \<Rightarrow> bool" where
  "query_ok q \<longleftrightarrow> distinct (map fst q) \<and> (\<forall>(k, v) \<in> set q. k \<in> set knownParams \<and> canonical_value k v = v)
     \<and> (case NormalizeLegacyWasmPair (values_get q ''os'') (values_get q ''arch'') of (_, _, ok) \<Rightarrow> \<not> ok)"

lemma canonicalQuery_id:
  assumes "query_ok q"
  shows "canonicalQuery q = encode_values q"
proof -
  have q: "distinct (map fst q)" "\<And>k v. (k, v) \<in> set q \<Longrightarrow> k \<in> set knownParams \<and> canonical_value k v = v"
    using assms by (auto simp: query_ok_def)
  have "values_get q k = v" if "(k, v) \<in> set q" for k v using that q(1) by (simp add: values_get_def)
  then have "map (\<lambda>kv. (fst kv, canonical_value (fst kv) (values_get q (fst kv)))) q = q"
    using q(2) by (intro map_idI) (auto simp: split_beta)
  moreover have "filter (\<lambda>k. k \<in> set knownParams) (remdups (map fst q)) = map fst q"
    using q by (auto simp: distinct_remdups_id intro!: filter_True)
  ultimately have "map (\<lambda>k. (k, canonical_value k (values_get q k))) (filter (\<lambda>k. k \<in> set knownParams) (remdups (map fst q))) = q"
    by (simp add: comp_def)
  then show ?thesis using assms by (auto simp: canonicalQuery_def Let_def query_ok_def split: prod.splits)
qed

lemma query_ok_sort: "query_ok q \<Longrightarrow> query_ok (sort_key fst q)"
  by (simp add: query_ok_def sort_key_values distinct_map)

text \<open>An encoded query that is canonical is served as it is, and says what was encoded.\<close>

lemma encoded_query:
  assumes "query_ok q"
  shows "canonicalQuery (parse_query (encode_values q)) = encode_values q"
    "values_get (parse_query (encode_values q)) k = values_get q k"
proof -
  have "encode_values (sort_key fst q) = encode_values q" by (simp add: encode_values_def sorted_twice)
  then show "canonicalQuery (parse_query (encode_values q)) = encode_values q"
    using canonicalQuery_id [OF query_ok_sort [OF assms]] by (simp add: parse_encode)
  show "values_get (parse_query (encode_values q)) k = values_get q k"
    using assms by (simp add: parse_encode sort_key_values query_ok_def)
qed

text \<open>The parameters of an address are a fixed list without the empty values.\<close>

definition params_all :: "params \<Rightarrow> (string \<times> string) list" where
  "params_all p = [(''arch'', sp_arch p), (''debug'', if sp_debug p then ''1'' else []), (''fmt'', sp_fmt p), (''project'', sp_project p),
     (''os'', sp_os p), (''v'', sp_version p), (''token'', sp_token p)]"

lemma filter_Cons_append: "filter P (x # xs) = (if P x then [x] else []) @ filter P xs"
  by simp

lemma params_values_filter: "params_values p = filter (\<lambda>kv. snd kv \<noteq> []) (params_all p)"
  unfolding params_values_def params_all_def filter_Cons_append by simp

lemma values_get_filter: "distinct (map fst q) \<Longrightarrow> values_get (filter (\<lambda>kv. snd kv \<noteq> []) q) k = values_get q k"
  by (induction q) (force simp: values_get_def split: option.splits dest: map_of_SomeD)+

lemma params_keys: "distinct (map fst (params_all p))" "fst ` set (params_all p) \<subseteq> set knownParams"
  by (simp_all add: params_all_def knownParams_def)

lemma params_values_get:
  "values_get (params_values p) ''project'' = sp_project p" "values_get (params_values p) ''v'' = sp_version p"
  "values_get (params_values p) ''os'' = sp_os p" "values_get (params_values p) ''arch'' = sp_arch p"
  "values_get (params_values p) ''fmt'' = sp_fmt p" "values_get (params_values p) ''token'' = sp_token p"
  "values_get (params_values p) ''debug'' = (if sp_debug p then ''1'' else [])"
  unfolding params_values_filter values_get_filter [OF params_keys(1)] by (simp_all add: params_all_def values_get_def)

lemma canonical_not_legacy:
  "canonical_platform \<lparr>plat_os = os, plat_arch = arch\<rparr> \<Longrightarrow> \<not> snd (snd (NormalizeLegacyWasmPair os arch))"
proof -
  assume "canonical_platform \<lparr>plat_os = os, plat_arch = arch\<rparr>"
  then have "ValidArch arch" by (simp add: canonical_platform_def)
  moreover have "list_all (\<lambda>w. to_lower (trim_space w) \<noteq> ''wasm'') [ArchAMD64, ArchARM64, Arch386, ArchARM, ArchJS, ArchWasip1]"
    by code_simp
  ultimately have "to_lower (trim_space arch) \<noteq> ''wasm''" by (auto simp: ValidArch_def)
  then show ?thesis by (simp add: NormalizeLegacyWasmPair_def)
qed

lemma params_query_ok:
  assumes "canonical_platform \<lparr>plat_os = sp_os p, plat_arch = sp_arch p\<rparr>"
  shows "query_ok (params_values p)"
proof -
  have "canonical_value ''os'' (sp_os p) = sp_os p" "canonical_value ''arch'' (sp_arch p) = sp_arch p"
    using canonical_platformD(1,3) [OF assms] by (simp_all add: canonical_value_def)
  then have "\<forall>(k, v) \<in> set (params_all p). canonical_value k v = v" by (simp add: params_all_def) (simp add: canonical_value_def)
  then have "\<forall>(k, v) \<in> set (params_values p). k \<in> set knownParams \<and> canonical_value k v = v"
    using params_keys(2) [of p] by (fastforce simp: params_values_filter)
  moreover have "distinct (map fst (params_values p))"
    using params_keys(1) unfolding params_values_filter by (rule distinct_map_filter)
  ultimately show ?thesis
    using canonical_not_legacy [OF assms] unfolding query_ok_def by (simp add: params_values_get split_beta)
qed

section \<open>A signed address\<close>

lemma raw_registered:
  assumes "''raw'' \<notin> set (map fst (se_repackagers env))"
  shows "LookupFmt env fail ''raw'' = Some (raw_Serve env fail)"
proof -
  have "map_of (foldl (\<lambda>reg (name, f). RegisterFmt name f reg) reg fs) ''raw'' = map_of reg ''raw''"
    if "''raw'' \<notin> set (map fst fs)" for reg fs
    using that by (induction fs arbitrary: reg) (auto simp: RegisterFmt_def update_conv')
  with assms show ?thesis by (simp add: LookupFmt_def fmt_registry_def RegisterFmt_def)
qed

text \<open>A request without a credential passes the gate on a route that opens itself.\<close>

lemma public_read_passes:
  assumes "rt_project ri \<noteq> []" "ResolveProject (rt_project ri) d = Inr (p, alias)" "rt_access ri = ReadAccess"
    "rt_public_read ri = Some allows" "allows d p" "cx_token ctx = None"
  shows "requireProject now gh r ri ctx d = (d, Inr (read_ctx ri ctx p d))"
  using assms by (simp add: requireProject_def find_or_provision_def sync_identity_def authorize_def read_ctx_def Let_def)

text \<open>What the client holds after it undoes the encoding the answer names.\<close>

definition delivered :: "(bytes \<Rightarrow> bytes option) \<Rightarrow> (string \<times> string) list \<Rightarrow> bytes \<Rightarrow> bytes option" where
  "delivered dec headers body = (if map_of headers ''Content-Encoding'' = Some ''zstd'' then dec body else Some body)"

lemma GetBlob_compressed:
  assumes "GetBlob dec None key fs = Inr (Some content, n)" "GetCompressed None key fs = Inr b" "cb_encoding b = ''zstd''"
  shows "dec (cb_bytes b) = Some content"
  using assms by (auto simp: GetBlob_def GetCompressed_def split: sum.splits if_splits)

text \<open>The bytes a raw download of a stored content stands for: the content, unless it is an ELF file and the symbols were not asked
  for; then what stripping leaves of it, or the content when it cannot be stripped. \<open>None\<close> is a panic in the
  parser of the headers.\<close>

definition raw_download :: "nat \<Rightarrow> bool \<Rightarrow> bytes \<Rightarrow> bytes option" where
  "raw_download alloc debug content =
     (if debug \<or> \<not> LooksELF (blob_reader (Some content)) then Some content
      else case StripReader alloc (blob_reader (Some content)) of
        Inr (out, _) \<Rightarrow> Some out
      | Inl Panicked \<Rightarrow> None
      | Inl _ \<Rightarrow> Some content)"

lemma raw_Serve_content:
  assumes "GetBlob (se_dec env) None (a_storage_key a) fs = Inr (Some content, n)" "sc_artifact sctx = Some a"
    "raw_download (se_alloc env) (sr_query r ''debug'' = ''1'') content = Some out"
  obtains headers body where "raw_Serve env (\<lambda>_. None) r sctx fs = Served \<lparr>sv_headers = headers, sv_body = Some body\<rparr>"
    "delivered (se_dec env) ([(''ETag'', e), (''Cache-Control'', c)] @ headers) body = Some out"
proof -
  have key: "a_storage_key a \<noteq> []"
    using assms(1) by (auto simp: GetBlob_def open_blob_def validStorageKey_def split: if_splits)
  let ?elf = "LooksELF (blob_reader (Some content))"
  let ?hs = "[(''X-Debug-Symbols'', if ?elf then ''available'' else ''unavailable''), (''Vary'', ''Accept-Encoding'')]"
  let ?strip = "?elf \<and> sr_query r ''debug'' \<noteq> ''1''"
  let ?zstd = "acceptsZstd (se_float_zero env) (sr_accept_encoding r) \<and> (\<exists>b. GetCompressed None (a_storage_key a) fs = Inr b \<and> cb_encoding b = ''zstd'')"
  consider (strip) "?strip" | (zstd) "\<not> ?strip" "?zstd" | (plain) "\<not> ?strip" "\<not> ?zstd" by blast
  then show ?thesis
  proof cases
    case strip
    define res where "res = StripReader (se_alloc env) (blob_reader (Some content))"
    define sz where "sz = (case res of Inr (_, m) \<Rightarrow> m | Inl _ \<Rightarrow> n)"
    have res: "res \<noteq> Inl Panicked" "out = (case res of Inr (m, _) \<Rightarrow> m | Inl _ \<Rightarrow> content)"
      using strip assms(3) by (auto simp: raw_download_def res_def split: sum.splits elf_err.splits if_splits)
    show ?thesis
      by (rule that [of "?hs @ attachment (p_name (sc_project sctx)) [] sz" out])
        (use strip key res assms(1,2) in
          \<open>cases res, auto simp: raw_Serve_def storage_key_of_def Let_def delivered_def attachment_def sz_def res_def [symmetric] split: elf_err.splits\<close>)
  next
    case zstd
    then obtain b where b: "GetCompressed None (a_storage_key a) fs = Inr b" "cb_encoding b = ''zstd''" by blast
    have "out = content" using zstd(1) assms(3) by (auto simp: raw_download_def split: if_splits)
    then show ?thesis
      by (intro that [of "?hs @ attachment (p_name (sc_project sctx)) ''zstd'' (cb_size b)" "cb_bytes b"])
        (use zstd b key assms(1,2) GetBlob_compressed [OF assms(1) b] in
          \<open>simp_all add: raw_Serve_def storage_key_of_def Let_def delivered_def attachment_def\<close>)
  next
    case plain
    have "out = content" using plain(1) assms(3) by (auto simp: raw_download_def split: if_splits)
    then show ?thesis
      by (intro that [of "?hs @ attachment (p_name (sc_project sctx)) [] n" content])
        (use plain key assms(1,2) in
          \<open>auto simp: raw_Serve_def storage_key_of_def Let_def delivered_def attachment_def split: sum.splits option.splits\<close>)
  qed
qed

lemma signed_token_opens:
  assumes "\<forall>m. length (mac m) = mac_size" "- (2 ^ 63) \<le> unix exp" "unix exp < 2 ^ 63" "unix later \<le> unix exp"
    "sp_fmt p \<noteq> []" "sp_project p = p_name project"
  shows "static_public mac later (values_get (params_values (sign_params mac p exp))) d project"
proof -
  have "sp_token (sign_params mac p exp) \<noteq> []" by (simp add: sign_params_def MintDownloadToken_def downloadTokenPrefix_def)
  moreover have "VerifyDownloadToken mac later (sp_token (sign_params mac p exp)) (sp_project p) (sp_version p) (sp_os p) (sp_arch p) (sp_fmt p) (sp_debug p)"
    using Verify_Mint [OF assms(1-3)] assms(4) by (simp add: sign_params_def)
  ultimately show ?thesis using assms(5,6) by (cases "sp_debug p") (simp_all add: static_public_def params_values_get sign_params_def)
qed

text \<open>Following a signed address within its time, without any credential.\<close>

lemma signed_address_served:
  fixes env :: static_env and p :: params and exp :: time
  defines "q \<equiv> encode_values (params_values (sign_params (se_mac env) p exp))"
  assumes mac: "\<forall>m. length (se_mac env m) = mac_size" and time: "- (2 ^ 63) \<le> unix exp" "unix exp < 2 ^ 63" "unix later \<le> unix exp"
    and raw: "''raw'' \<notin> set (map fst (se_repackagers env))"
    and params: "sp_fmt p = ''raw''" "sp_project p = p_name project" "p_name project \<noteq> []" "sp_version p \<notin> {[], ''latest''}"
      "canonical_platform \<lparr>plat_os = sp_os p, plat_arch = sp_arch p\<rparr>"
    and project: "ResolveProject (p_name project) d = Inr (project, alias)"
    and release: "GetRelease (p_id project) (sp_version p) d = Inr rl"
    and artifact: "GetArtifact (r_id rl) (sp_os p) (sp_arch p) d = Inr a" "a_kind a \<noteq> KindDocker"
    and blob: "GetBlob (se_dec env) None (a_storage_key a) fs = Inr (Some content, n)" "raw_download (se_alloc env) (sp_debug p) content = Some out"
    and req: "sr_raw_query r = q" "sr_if_none_match r = []" "cx_token ctx = None"
  shows "\<exists>d' ctx' headers body. requireProject later gh hr (static_parseRoute (se_mac env) later r) ctx d = (d, Inr ctx')
     \<and> static_Serve env (\<lambda>_. None) r ctx' fs d = (d', SServed headers (Some body))
     \<and> delivered (se_dec env) headers body = Some out \<and> map_of headers ''Cache-Control'' = Some ''private, no-store''"
proof -
  let ?p = "sign_params (se_mac env) p exp"
  have fields: "sp_project ?p = sp_project p" "sp_version ?p = sp_version p" "sp_os ?p = sp_os p" "sp_arch ?p = sp_arch p"
    "sp_fmt ?p = sp_fmt p" "sp_debug ?p = sp_debug p" "sp_token ?p \<noteq> []"
    by (simp_all add: sign_params_def MintDownloadToken_def downloadTokenPrefix_def)
  have ok: "query_ok (params_values ?p)" using params(5) fields by (intro params_query_ok) simp
  have get: "sr_query r = values_get (params_values ?p)"
    using encoded_query(2) [OF ok] by (intro ext) (simp add: sr_query_def req q_def)
  have canonical: "canonicalQuery (parse_query (sr_raw_query r)) = sr_raw_query r"
    using encoded_query(1) [OF ok] by (simp add: req q_def)
  have concrete: "sp_os p \<noteq> []" "sp_arch p \<noteq> []" "sp_os p \<noteq> ''any''" "sp_arch p \<noteq> ''any''"
    using canonical_platformD [OF params(5)] params(5)
    by (auto simp: clean_word_def canonical_platform_def ValidOS_def ValidArch_def)
      (simp_all add: OSLinux_def OSDarwin_def OSWindows_def OSFreeBSD_def OSWasm_def ArchAMD64_def ArchARM64_def Arch386_def ArchARM_def ArchJS_def ArchWasip1_def)
  let ?ri = "static_parseRoute (se_mac env) later r"
  have "static_public (se_mac env) later (sr_query r) d project"
    unfolding get using signed_token_opens [OF mac time] params by simp
  then have gate: "requireProject later gh hr ?ri ctx d = (d, Inr (read_ctx ?ri ctx project d))"
    using params fields project req(3)
    by (intro public_read_passes [where allows = "static_public (se_mac env) later (sr_query r)"]) (simp_all add: static_parseRoute_def get params_values_get)
  define ctx' where "ctx' = read_ctx ?ri ctx project d"
  let ?sctx = "\<lparr>sc_project = project, sc_release = rl, sc_artifact = Some a\<rparr>"
  have debug: "raw_download (se_alloc env) (sr_query r ''debug'' = ''1'') content = Some out"
    using blob(2) fields by (cases "sp_debug p") (simp_all add: get params_values_get)
  obtain headers body where served:
    "raw_Serve env (\<lambda>_. None) r ?sctx fs = Served \<lparr>sv_headers = headers, sv_body = Some body\<rparr>"
    "delivered (se_dec env) ([(''ETag'', computeETag (se_sha256hex env) ?sctx ''raw''), (''Cache-Control'', ''private, no-store'')] @ headers) body = Some out"
    by (rule raw_Serve_content [OF blob(1) _ debug]) auto
  have "\<exists>d'. static_Serve env (\<lambda>_. None) r ctx' fs d = (d', SServed ([(''ETag'', computeETag (se_sha256hex env) ?sctx ''raw''), (''Cache-Control'', ''private, no-store'')] @ headers) (Some body))"
    using params fields concrete release artifact served(1) req(2) canonical
    by (simp add: static_Serve_def get params_values_get raw_registered [OF raw] ctx'_def resolveVersion_def static_artifact_def
        ServedViaDockerOnly_def static_answer_def Let_def) (simp add: computeETag_def quoted_def)
  with gate served(2) show ?thesis unfolding ctx'_def by fastforce
qed

section \<open>Links\<close>


lemma unix_range: "0 \<le> t \<Longrightarrow> t < 2 ^ 63 + maxDownloadLinkTTL \<Longrightarrow> - (2 ^ 63) \<le> unix t \<and> unix t < 2 ^ 63"
  by (simp add: unix_def maxDownloadLinkTTL_def div_int_pos_iff div_less_iff_less_mult order_trans [OF _ pos_imp_zdiv_nonneg_iff [THEN iffD2]])

lemma GetRelease_fields:
  "GetRelease pid v d = Inr rl \<Longrightarrow> rl \<in> set (d_releases d) \<and> r_project_id rl = pid \<and> r_version rl = v"
  by (auto simp: GetRelease_def GetReleaseByProjectAndVersion_def split: option.splits dest: find_first_Some)

lemma GetArtifact_typed:
  assumes "artifacts_inv d" "GetArtifact rid os arch d = Inr a" "a_kind a \<noteq> KindDocker"
  shows "platform_typed (a_kind a) \<lparr>plat_os = os, plat_arch = arch\<rparr>"
  using resolved_typed(3) [OF assms(1), of rid "\<lparr>plat_os = os, plat_arch = arch\<rparr>" a] assms(2,3) by (simp add: platform_ok_def)


text \<open>The slot an artifact is named after leads to it, unless another kind of artifact holds it too.\<close>

lemma GetArtifact_own:
  assumes "artifacts_inv d" "GetArtifact rid os arch d = Inr a"
    "a_exe_format a \<noteq> APE \<or> (\<forall>b \<in> set (d_artifacts d). covers d b rid (own_platform a) \<longrightarrow> a_kind b = a_kind a)"
  shows "GetArtifact rid (a_os a) (a_arch a) d = Inr a"
proof (cases "a_exe_format a = APE")
  case False
  note a = GetArtifact_first(1,2) [OF assms(2)]
  obtain x where x: "x \<in> set (d_platforms d)" "ap_artifact_id x = a_id a" "platform_of x = \<lparr>plat_os = os, plat_arch = arch\<rparr>"
    using a(2) by (auto simp: covers_def)
  with assms(1) a(1) False have "own_platform a = \<lparr>plat_os = os, plat_arch = arch\<rparr>"
    by (auto simp: artifacts_inv_def portable_ok_def)
  with assms(2) show ?thesis by (simp add: own_platform_def)
next
  case True
  note a = GetArtifact_first(1,2) [OF assms(2)]
  obtain x where x: "x \<in> set (d_platforms d)" "ap_artifact_id x = a_id a" "platform_of x = own_platform a"
    using assms(1) a(1) by (auto simp: artifacts_inv_def slots_ok_def)
  have "inj_on a_id (set (d_artifacts d))" using assms(1) by (simp add: artifacts_inv_def ids_ok_def distinct_map)
  with assms(1) a(1) x(1,2) have "ap_release_id x = a_release_id a" unfolding artifacts_inv_def slots_ok_def by (metis inj_onD)
  moreover have "a_release_id a = rid" by (rule covers_release [OF assms(1) a])
  ultimately have own: "covers d a rid (own_platform a)" using x by (auto simp: covers_def)
  then obtain b where b: "GetArtifact rid (a_os a) (a_arch a) d = Inr b"
    using GetArtifact_none [of rid "a_os a" "a_arch a" d] a(1) by (cases "GetArtifact rid (a_os a) (a_arch a) d") (auto simp: own_platform_def)
  note c = GetArtifact_first(1,2) [OF b]
  have "covers d b rid (own_platform a)" using c(2) by (simp add: own_platform_def)
  with assms(3) True c(1) have "a_kind b = a_kind a" by blast
  with slot_holder_unique [OF assms(1) c(1) a(1) _ \<open>covers d b rid (own_platform a)\<close> own] b show ?thesis by simp
qed


lemma static_URL_query:
  assumes "sp_project p \<noteq> []"
  shows "static_URL base p = base @ ''/file?'' @ encode_values (params_values p)"
proof -
  have "values_get (params_values p) ''project'' \<noteq> []" using assms by (simp add: params_values_get)
  then have "params_values p \<noteq> []" by (auto simp: values_get_def)
  then obtain kv kvs where "sort_key fst (params_values p) = kv # kvs" by (metis length_0_conv length_sort neq_Nil_conv)
  then have "encode_values (params_values p) \<noteq> []"
    by (cases kvs) (auto simp: encode_values_def encode_pair_def)
  then show ?thesis by (simp add: static_URL_def Let_def)
qed

lemma resolvedDownloadVersion_plain:
  "\<not> has_prefix (r_version rl) ''v'' \<Longrightarrow> r_version rl \<noteq> [] \<Longrightarrow> resolvedDownloadVersion rl = r_version rl"
  by (simp add: resolvedDownloadVersion_def trim_prefix_def)


text \<open>What a follower of an address gets: the raw download of the artifact.\<close>

definition opens :: "static_env \<Rightarrow> string \<Rightarrow> time \<Rightarrow> artifact \<Rightarrow> bool \<Rightarrow> db \<Rightarrow> bool" where
  "opens env raw exp a debug d \<longleftrightarrow> (\<forall>fs content n out later gh hr r ctx.
     GetBlob (se_dec env) None (a_storage_key a) fs = Inr (Some content, n) \<longrightarrow> raw_download (se_alloc env) debug content = Some out \<longrightarrow>
     unix later \<le> unix exp \<longrightarrow> sr_raw_query r = raw \<longrightarrow> sr_if_none_match r = [] \<longrightarrow> cx_token ctx = None \<longrightarrow>
     (\<exists>d' ctx' headers body. requireProject later gh hr (static_parseRoute (se_mac env) later r) ctx d = (d, Inr ctx')
        \<and> static_Serve env (\<lambda>_. None) r ctx' fs d = (d', SServed headers (Some body))
        \<and> delivered (se_dec env) headers body = Some out \<and> map_of headers ''Cache-Control'' = Some ''private, no-store''))"


section \<open>Redirects\<close>

lemma resolveRelease_in:
  assumes "resolveRelease pid version branch d = (Inr rl, resolution)"
  shows "rl \<in> set (d_releases d) \<and> r_project_id rl = pid"
proof -
  have row: "x \<in> set xs" if "first_row (by_num_desc xs) = Some x" for x xs
    using that arg_cong [of _ _ "\<lambda>ys. x \<in> set ys"] by (auto simp: first_row_def by_num_desc_def split: list.splits) (metis list.set_intros(1) set_rev set_sort)
  show ?thesis
    using assms GetRelease_fields
    by (auto simp: resolveRelease_def GetLatestRelease_def GetLatestReleaseByBranch_def GetLatestPublishedReleaseOnDefaultBranch_def
        GetLatestPublishedReleaseByBranch_def ListPublishedReleasesOnDefaultBranch_def split: if_splits option.splits dest!: row)
qed

lemma GetRelease_unique:
  assumes "distinct (map (\<lambda>r. (r_project_id r, r_version r)) (d_releases d))" "rl \<in> set (d_releases d)"
  shows "GetRelease (r_project_id rl) (r_version rl) d = Inr rl"
proof -
  have "inj_on (\<lambda>r. (r_project_id r, r_version r)) (set (d_releases d))" using assms(1) by (simp add: distinct_map)
  then have "x = rl" if "x \<in> set (d_releases d)" "r_project_id x = r_project_id rl" "r_version x = r_version rl" for x
    using that assms(2) by (auto simp: inj_on_def)
  moreover obtain x where "GetReleaseByProjectAndVersion (r_project_id rl) (r_version rl) d = Some x"
    using assms(2) find_first_None [of _ "d_releases d"] by (fastforce simp: GetReleaseByProjectAndVersion_def)
  ultimately show ?thesis
    by (auto simp: GetRelease_def GetReleaseByProjectAndVersion_def dest: find_first_Some)
qed

text \<open>The redirect of a private download opens the artifact that holds the slot the requested one is named after.\<close>

lemma redirect_opens:
  assumes inv: "artifacts_inv d" "distinct (map (\<lambda>r. (r_project_id r, r_version r)) (d_releases d))"
    and mac: "\<forall>m. length (se_mac env m) = mac_size" and raw: "''raw'' \<notin> set (map fst (se_repackagers env))"
    and now: "0 \<le> now" "now < 2 ^ 63"
    and project: "GetProject (p_name p) d = Inr p" "p_name p \<noteq> []" "ReadIsPrivate ctx"
    and release: "resolveRelease (p_id p) (dl_get r ''v'') (dl_get r ''branch'') d = (Inr rl, resolution)"
      "\<not> has_prefix (r_version rl) ''v''" "r_version rl \<notin> {[], ''latest''}"
    and platform: "dl_get r ''os'' \<noteq> []" "dl_get r ''arch'' \<noteq> []" "dl_platform (dl_get r ''os'') (dl_get r ''arch'') = (os, arch)"
    and artifact: "GetArtifact (r_id rl) os arch d = Inr a" "GetArtifact (r_id rl) (a_os a) (a_arch a) d = Inr b" "a_kind b \<notin> {KindDocker, KindNPMPackage}"
    and fmt: "dl_get r ''fmt'' \<in> {[], ''raw''}"
  shows "\<exists>q. Download (se_mac env) now r ctx p d = DlRedirect 302 ''private, no-store'' (DeriveServiceURL (dr_host r) ''static'' @ ''/file?'' @ q)
    \<and> opens env q (now + privateRedirectTTL) b (dl_get r ''debug'' = ''1'') d"
proof -
  let ?exp = "now + privateRedirectTTL"
  define pars where "pars = (params_for (p_name p))\<lparr>sp_version := resolvedDownloadVersion rl, sp_os := a_os a, sp_arch := a_arch a,
    sp_fmt := ''raw'', sp_debug := (dl_get r ''debug'' = ''1'')\<rparr>"
  let ?q = "encode_values (params_values (sign_params (se_mac env) pars ?exp))"
  have fields: "sp_fmt pars = ''raw''" "sp_project pars = p_name p" "sp_os pars = a_os a" "sp_arch pars = a_arch a"
    "sp_debug pars = (dl_get r ''debug'' = ''1'')" "sp_version pars = r_version rl"
    using resolvedDownloadVersion_plain [of rl] release by (simp_all add: pars_def params_for_def)
  have url: "static_URL base (sign_params (se_mac env) pars ?exp) = base @ ''/file?'' @ ?q" for base
    using project(2) fields(2) by (intro static_URL_query) (simp add: sign_params_def)
  have "Download (se_mac env) now r ctx p d = DlRedirect 302 ''private, no-store'' (static_URL (DeriveServiceURL (dr_host r) ''static'') (sign_params (se_mac env) pars ?exp))"
    using platform release(1) artifact(1) project(3) fmt
    by (auto simp: Download_def dl_target_def CanonicalPlatform_def SignedURL_def pars_def Let_def)
  moreover have "opens env ?q ?exp b (dl_get r ''debug'' = ''1'') d"
    unfolding opens_def
  proof (intro allI impI, goal_cases)
    case (1 fs content n out later gh hr sr anon)
    have range: "- (2 ^ 63) \<le> unix ?exp" "unix ?exp < 2 ^ 63"
      using unix_range [of ?exp] now by (simp_all add: privateRedirectTTL_def maxDownloadLinkTTL_def)
    have "canonical_platform \<lparr>plat_os = sp_os pars, plat_arch = sp_arch pars\<rparr>"
      using GetArtifact_typed [OF inv(1) artifact(2)] artifact(3) fields by (auto simp: platform_typed_def)
    moreover have "ResolveProject (p_name p) d = Inr (p, False)" using project(1) by (simp add: ResolveProject_def)
    moreover have "GetRelease (p_id p) (r_version rl) d = Inr rl"
      using GetRelease_unique [OF inv(2), of rl] resolveRelease_in [OF release(1)] by auto
    ultimately show ?case
      using signed_address_served [OF mac range 1(3) raw fields(1,2), where r = sr and gh = gh and hr = hr] 1 project(2) release artifact(2,3) fields by auto
  qed
  ultimately show ?thesis unfolding url by blast
qed

text \<open>C14: a download of a private build that passed the gate, asked for in the raw format (the default) with an operating system and an architecture in whatever spelling,
  is redirected to an address that, for a quarter of an hour, opens without the credential exactly the artifact
  the platform resolves to in the version, the branch tip or the default build: its stored bytes, or the stripped file for an ELF
  without debug. The conditions: the artifact is neither a container image nor an npm package; it is not a portable executable that shares the
  slot it is named after with another kind of artifact (\<open>portable_download_misdirected\<close> is that case); the recorded version does not begin with \<open>v\<close> and is not
  \<open>latest\<close>; and the ELF reader does not panic on the file.\<close>

theorem private_redirect_served:
  assumes "artifacts_inv d" "distinct (map (\<lambda>r. (r_project_id r, r_version r)) (d_releases d))"
    and "\<forall>m. length (se_mac env m) = mac_size" "''raw'' \<notin> set (map fst (se_repackagers env))"
    and "0 \<le> now" "now < 2 ^ 63"
    and "GetProject (p_name p) d = Inr p" "p_name p \<noteq> []" "ReadIsPrivate ctx"
    and "resolveRelease (p_id p) (dl_get r ''v'') (dl_get r ''branch'') d = (Inr rl, resolution)"
      "\<not> has_prefix (r_version rl) ''v''" "r_version rl \<notin> {[], ''latest''}"
    and "dl_get r ''os'' \<noteq> []" "dl_get r ''arch'' \<noteq> []" "dl_platform (dl_get r ''os'') (dl_get r ''arch'') = (os, arch)"
    and a: "GetArtifact (r_id rl) os arch d = Inr a"
    and "a_kind a \<notin> {KindDocker, KindNPMPackage}" and "dl_get r ''fmt'' \<in> {[], ''raw''}"
    and own: "a_exe_format a \<noteq> APE \<or> (\<forall>b \<in> set (d_artifacts d). covers d b (r_id rl) (own_platform a) \<longrightarrow> a_kind b = a_kind a)"
  shows "\<exists>q. Download (se_mac env) now r ctx p d = DlRedirect 302 ''private, no-store'' (DeriveServiceURL (dr_host r) ''static'' @ ''/file?'' @ q)
    \<and> opens env q (now + 15 * 60 * 1000000000) a (dl_get r ''debug'' = ''1'') d"
  using redirect_opens [OF assms(1-16) GetArtifact_own [OF assms(1) a own] assms(17,18)] unfolding privateRedirectTTL_def .

section \<open>Concrete instances\<close>

definition demo_static :: static_env where
  "demo_static = \<lparr>se_mac = demo_mac, se_sha256hex = id, se_dec = demo_dec, se_alloc = 1000, se_float_zero = (\<lambda>_. False),
     se_split_host = Some, se_repackagers = []\<rparr>"

definition demo_dl_artifact :: "Kind \<Rightarrow> OS \<Rightarrow> char \<Rightarrow> string \<Rightarrow> artifact" where
  "demo_dl_artifact kind os c format = \<lparr>a_id = 0, a_release_id = 1, a_os = os, a_arch = ArchAMD64, a_kind = kind, a_storage_key = replicate 64 c,
     a_size = 3, a_sha256 = [], a_stripped_storage_key = [], a_stripped_size = 0, a_stripped_sha256 = [], a_debug_storage_key = [],
     a_debug_size = 0, a_filename = [], a_exe_format = format, a_created_at = 5\<rparr>"

text \<open>A release with a library for Linux and a portable executable for Linux and Windows, recorded one after the other.\<close>

definition demo_dl_db :: db where
  "demo_dl_db = fst (CreateMultiPlatformArtifact 5 (demo_dl_artifact KindBinary OSLinux (CHR ''b'') APE)
       [\<lparr>plat_os = OSLinux, plat_arch = ArchAMD64\<rparr>, \<lparr>plat_os = OSWindows, plat_arch = ArchAMD64\<rparr>]
     (fst (CreateArtifact 5 (demo_dl_artifact KindLibrary OSLinux (CHR ''a'') [])
       (empty_db\<lparr>d_projects := [new_project 1 ''web'' True], d_project_seq := 1,
          d_releases := [demo_release 1 ''1'' 1 ''master'' True], d_release_seq := 1\<rparr>))))"

definition demo_dl_req :: "string \<Rightarrow> dl_request" where
  "demo_dl_req os = \<lparr>dr_host = ''dl.example.org'', dr_project = ''web'', dr_query = [(''os'', os), (''arch'', ''x64''), (''v'', ''1'')]\<rparr>"

lemma demo_dl_facts:
  "artifacts_inv demo_dl_db" "distinct (map (\<lambda>r. (r_project_id r, r_version r)) (d_releases demo_dl_db))"
  "GetProject ''web'' demo_dl_db = Inr (new_project 1 ''web'' True)"
  "resolveRelease 1 ''1'' [] demo_dl_db = (Inr (demo_release 1 ''1'' 1 ''master'' True), ''exact'')"
  "dl_platform ''win'' ''x64'' = (OSWindows, ArchAMD64)" "dl_platform ''Linux'' ''x64'' = (OSLinux, ArchAMD64)"
  "GetArtifact 1 OSWindows ArchAMD64 demo_dl_db = Inr ((demo_dl_artifact KindBinary OSLinux (CHR ''b'') APE)\<lparr>a_id := 2\<rparr>)"
  "GetArtifact 1 OSLinux ArchAMD64 demo_dl_db = Inr ((demo_dl_artifact KindLibrary OSLinux (CHR ''a'') [])\<lparr>a_id := 1\<rparr>)"
  by code_simp+

definition demo_dl_fs :: filesystem where
  "demo_dl_fs = \<lparr>fs_compress = False, fs_blobs = [(rel (replicate 64 (CHR ''a'')), [1, 2, 3]), (rel (replicate 64 (CHR ''b'')), [4, 5, 6])]\<rparr>"

definition demo_follow :: "string \<Rightarrow> static_request" where
  "demo_follow q = \<lparr>sr_host = ''static.example.org'', sr_raw_query = q, sr_accept_encoding = [], sr_if_none_match = [], sr_forwarded_for = [],
     sr_remote_addr = ''192.0.2.1:9'', sr_user_agent = ''curl''\<rparr>"

text \<open>What an anonymous request for a query of the static host is answered with.\<close>

definition demo_fetch :: "string \<Rightarrow> bytes option" where
  "demo_fetch q =
     (case requireProject 0 demo_gh demo_req (static_parseRoute demo_mac 0 (demo_follow q)) empty_ctx demo_dl_db of
        (d, Inr ctx) \<Rightarrow>
          (case snd (static_Serve demo_static (\<lambda>_. None) (demo_follow q) ctx demo_dl_fs d) of
             SServed headers (Some body) \<Rightarrow> delivered demo_dec headers body | _ \<Rightarrow> None)
      | _ \<Rightarrow> None)"

lemma demo_blobs:
  "GetBlob demo_dec None (replicate 64 (CHR ''a'')) demo_dl_fs = Inr (Some [1, 2, 3], 3)"
  "GetBlob demo_dec None (replicate 64 (CHR ''b'')) demo_dl_fs = Inr (Some [4, 5, 6], 3)"
  "\<not> LooksELF (blob_reader (Some [1, 2, 3]))" "\<not> LooksELF (blob_reader (Some [4, 5, 6]))"
  by code_simp+

lemma demo_fetch_opens:
  assumes "opens demo_static q exp a debug demo_dl_db" "GetBlob demo_dec None (a_storage_key a) demo_dl_fs = Inr (Some content, n)"
    "\<not> LooksELF (blob_reader (Some content))" "0 \<le> unix exp"
  shows "demo_fetch q = Some content"
proof -
  have "GetBlob (se_dec demo_static) None (a_storage_key a) demo_dl_fs = Inr (Some content, n)" "unix 0 \<le> unix exp"
    "sr_raw_query (demo_follow q) = q" "sr_if_none_match (demo_follow q) = []" "cx_token empty_ctx = None"
    using assms(2,4) by (simp_all add: demo_static_def demo_follow_def empty_ctx_def unix_def)
  moreover have "raw_download (se_alloc demo_static) debug content = Some content" using assms(3) by (simp add: raw_download_def)
  ultimately obtain d' ctx' headers body where
    "requireProject 0 demo_gh demo_req (static_parseRoute (se_mac demo_static) 0 (demo_follow q)) empty_ctx demo_dl_db = (demo_dl_db, Inr ctx')"
    "static_Serve demo_static (\<lambda>_. None) (demo_follow q) ctx' demo_dl_fs demo_dl_db = (d', SServed headers (Some body))"
    "delivered (se_dec demo_static) headers body = Some content"
    using assms(1) unfolding opens_def by blast
  moreover have "se_mac demo_static = demo_mac" "se_dec demo_static = demo_dec" by (simp_all add: demo_static_def)
  ultimately show ?thesis by (simp add: demo_fetch_def)
qed

lemmas demo_redirect = redirect_opens [where env = demo_static and now = 0 and p = "new_project 1 ''web'' True"
  and ctx = "empty_ctx\<lparr>cx_read_private := Some True\<rparr>", OF demo_dl_facts(1,2)]

lemma demo_dl_get [simp]:
  "dl_get (demo_dl_req os) ''os'' = os" "dl_get (demo_dl_req os) ''arch'' = ''x64''" "dl_get (demo_dl_req os) ''v'' = ''1''"
  "dl_get (demo_dl_req os) ''branch'' = []" "dl_get (demo_dl_req os) ''fmt'' = []" "dl_get (demo_dl_req os) ''debug'' = []"
  by (simp_all add: dl_get_def demo_dl_req_def values_get_def)

lemma demo_static_ok: "\<forall>m. length (se_mac demo_static m) = mac_size" "''raw'' \<notin> set (map fst (se_repackagers demo_static))" "se_mac demo_static = demo_mac"
  using demo_mac_size by (simp_all add: demo_static_def)

lemma demo_dl_values [simp]:
  "p_name (new_project i name b) = name" "p_id (new_project i name b) = i"
  "ReadIsPrivate (empty_ctx\<lparr>cx_read_private := Some True\<rparr>)"
  "r_version (demo_release 1 ''1'' 1 ''master'' True) = ''1''" "r_id (demo_release 1 ''1'' 1 ''master'' True) = 1"
  "DeriveServiceURL (dr_host (demo_dl_req os)) ''static'' = ''https://static.example.org''"
proof -
  have "DeriveServiceURL ''dl.example.org'' ''static'' = ''https://static.example.org''" by code_simp
  then show "DeriveServiceURL (dr_host (demo_dl_req os)) ''static'' = ''https://static.example.org''" by (simp add: demo_dl_req_def)
qed (simp_all add: new_project_def ReadIsPrivate_def demo_release_def)

text \<open>C39: asking for the Windows build of a release can deliver another file: the redirect names the
  slot the portable executable was recorded under first, here the one for Linux, and at that slot a
  library recorded earlier is served.\<close>

theorem portable_download_misdirected:
  "\<exists>a q. GetArtifact 1 ''windows'' ''amd64'' demo_dl_db = Inr a \<and> GetBlob demo_dec None (a_storage_key a) demo_dl_fs = Inr (Some [4, 5, 6], 3)
     \<and> Download demo_mac 0 (demo_dl_req ''win'') (empty_ctx\<lparr>cx_read_private := Some True\<rparr>) (new_project 1 ''web'' True) demo_dl_db
       = DlRedirect 302 ''private, no-store'' (''https://static.example.org/file?'' @ q)
     \<and> demo_fetch q = Some [1, 2, 3]"
proof -
  let ?ape = "(demo_dl_artifact KindBinary OSLinux (CHR ''b'') APE)\<lparr>a_id := 2\<rparr>" and ?lib = "(demo_dl_artifact KindLibrary OSLinux (CHR ''a'') [])\<lparr>a_id := 1\<rparr>"
  have fields: "a_os ?ape = OSLinux" "a_arch ?ape = ArchAMD64" "a_kind ?lib = KindLibrary" "a_storage_key ?lib = replicate 64 (CHR ''a'')"
    "a_storage_key ?ape = replicate 64 (CHR ''b'')"
    by (simp_all add: demo_dl_artifact_def)
  obtain q where q: "Download demo_mac 0 (demo_dl_req ''win'') (empty_ctx\<lparr>cx_read_private := Some True\<rparr>) (new_project 1 ''web'' True) demo_dl_db
      = DlRedirect 302 ''private, no-store'' (''https://static.example.org'' @ ''/file?'' @ q)"
    "opens demo_static q (0 + privateRedirectTTL) ?lib (dl_get (demo_dl_req ''win'') ''debug'' = ''1'') demo_dl_db"
    using demo_redirect [where r = "demo_dl_req ''win''" and os = OSWindows and arch = ArchAMD64 and a = ?ape and b = ?lib]
      demo_dl_facts demo_static_ok fields by (auto simp: has_prefix_def KindLibrary_def KindDocker_def KindNPMPackage_def)
  from demo_fetch_opens [OF q(2)] demo_blobs fields have "demo_fetch q = Some [1, 2, 3]" by (simp add: unix_def privateRedirectTTL_def)
  moreover have "GetArtifact 1 ''windows'' ''amd64'' demo_dl_db = Inr ?ape" using demo_dl_facts(7) by (simp add: OSWindows_def ArchAMD64_def)
  ultimately show ?thesis using q(1) demo_blobs(2) fields(5) by (intro exI [of _ ?ape] exI [of _ q]) simp
qed

theorem private_redirect_served_witness:
  "\<exists>q. Download demo_mac 0 (demo_dl_req ''Linux'') (empty_ctx\<lparr>cx_read_private := Some True\<rparr>) (new_project 1 ''web'' True) demo_dl_db
       = DlRedirect 302 ''private, no-store'' (''https://static.example.org/file?'' @ q)
     \<and> demo_fetch q = Some [1, 2, 3]"
proof -
  let ?lib = "(demo_dl_artifact KindLibrary OSLinux (CHR ''a'') [])\<lparr>a_id := 1\<rparr>"
  have fields: "a_kind ?lib = KindLibrary" "a_storage_key ?lib = replicate 64 (CHR ''a'')" "a_exe_format ?lib \<noteq> APE"
    by (simp_all add: demo_dl_artifact_def APE_def)
  obtain q where q: "Download demo_mac 0 (demo_dl_req ''Linux'') (empty_ctx\<lparr>cx_read_private := Some True\<rparr>) (new_project 1 ''web'' True) demo_dl_db
      = DlRedirect 302 ''private, no-store'' (''https://static.example.org'' @ ''/file?'' @ q)"
    "opens demo_static q (0 + 15 * 60 * 1000000000) ?lib (dl_get (demo_dl_req ''Linux'') ''debug'' = ''1'') demo_dl_db"
    using private_redirect_served [where env = demo_static and now = 0 and p = "new_project 1 ''web'' True"
        and ctx = "empty_ctx\<lparr>cx_read_private := Some True\<rparr>" and r = "demo_dl_req ''Linux''" and os = OSLinux and arch = ArchAMD64 and a = ?lib, OF demo_dl_facts(1,2)]
      demo_dl_facts demo_static_ok fields by (auto simp: has_prefix_def KindLibrary_def KindDocker_def KindNPMPackage_def)
  from demo_fetch_opens [OF q(2)] demo_blobs fields have "demo_fetch q = Some [1, 2, 3]" by (simp add: unix_def)
  with q(1) show ?thesis by auto
qed




end
