(* ===== verification/Image.thy ===== *)
theory Image
  imports Artifact_Api Elf_Strip
begin

text \<open>
  The layers and documents of an image made from an uploaded binary: the pure part of
  \<open>internal/repackage/oci.go\<close>, \<open>shellembed.go\<close> and \<open>apeelf.go\<close>. A layer is the list of the entries of its
  tar; the tar writer, the zstd encoder, the JSON encoder and the files baked into the program are
  parameters.
\<close>

section \<open>Layers\<close>

datatype tar_type = TypeReg | TypeDir | TypeSymlink

record tar_entry =
  te_name :: string
  te_mode :: int
  te_type :: tar_type
  te_link :: string
  te_data :: bytes
  te_ustar :: bool

record image_config =
  ic_arch :: string
  ic_os :: string
  ic_diff_ids :: "string list"
  ic_entrypoint :: "string list"
  ic_working_dir :: string
  ic_env :: "string list"
  ic_user :: string

record descriptor =
  de_media_type :: string
  de_digest :: string
  de_size :: int
  de_platform :: "(string \<times> string) option"

record parsed_manifest =
  pm_media_type :: string
  pm_config :: "descriptor option"
  pm_layers :: "descriptor list"
  pm_manifests :: "descriptor list"
  pm_annotations :: "(string \<times> string) list"

text \<open>The tar writer refuses some headers (\<open>None\<close>).\<close>

record image_env =
  ie_hash :: hash
  ie_tar :: "tar_entry list \<Rightarrow> bytes option"
  ie_zstd :: "bytes \<Rightarrow> bytes"
  ie_embed :: "string \<Rightarrow> bytes option"
  ie_config_json :: "image_config \<Rightarrow> bytes"
  ie_manifest_json :: "parsed_manifest \<Rightarrow> bytes"
  ie_alloc :: nat

definition string_bytes :: "string \<Rightarrow> bytes" where
  "string_bytes s = map (\<lambda>c. word_of_nat (of_char c)) s"

definition writeTarEntry :: "string \<Rightarrow> int \<Rightarrow> tar_type \<Rightarrow> bytes \<Rightarrow> tar_entry" where
  "writeTarEntry name mode t data =
     \<lparr>te_name = name, te_mode = mode, te_type = t, te_link = [], te_data = (if t = TypeDir then [] else data), te_ustar = True\<rparr>"

definition writeTarSymlink :: "string \<Rightarrow> string \<Rightarrow> tar_entry" where
  "writeTarSymlink name target = \<lparr>te_name = name, te_mode = 511, te_type = TypeSymlink, te_link = target, te_data = [], te_ustar = True\<rparr>"

definition newline :: string where "newline = [char_of (10 :: nat)]"

definition etcPasswd :: string where
  "etcPasswd = ''root:x:0:0:root:/root:/sbin/nologin'' @ newline @ ''nobody:x:65534:65534:nobody:/nonexistent:/sbin/nologin'' @ newline @
     ''nonroot:x:65532:65532:nonroot:/home/nonroot:/sbin/nologin'' @ newline"

definition etcGroup :: string where
  "etcGroup = ''root:x:0:'' @ newline @ ''nobody:x:65534:'' @ newline @ ''nonroot:x:65532:'' @ newline"

definition etcNsswitch :: string where "etcNsswitch = ''hosts: files dns'' @ newline"

text \<open>The file \<open>cacerts/ca-certificates.crt\<close> is baked in, so it is always there.\<close>

definition caCertsPEM :: "image_env \<Rightarrow> bytes" where
  "caCertsPEM env = (case ie_embed env ''cacerts/ca-certificates.crt'' of None \<Rightarrow> [] | Some b \<Rightarrow> b)"

definition essentials_entries :: "image_env \<Rightarrow> tar_entry list" where
  "essentials_entries env =
     map (\<lambda>(name, mode, t, data). writeTarEntry name mode t data)
       [(''etc/'', 493, TypeDir, []), (''etc/passwd'', 420, TypeReg, string_bytes etcPasswd), (''etc/group'', 420, TypeReg, string_bytes etcGroup),
        (''etc/nsswitch.conf'', 420, TypeReg, string_bytes etcNsswitch), (''etc/ssl/'', 493, TypeDir, []), (''etc/ssl/certs/'', 493, TypeDir, []),
        (''etc/ssl/certs/ca-certificates.crt'', 420, TypeReg, caCertsPEM env), (''tmp/'', 1023, TypeDir, [])]"

text \<open>A layer is compressed, and known by the digest of its uncompressed bytes.\<close>

definition layer_doc :: "image_env \<Rightarrow> tar_entry list \<Rightarrow> string + bytes \<times> string" where
  "layer_doc env es = (case ie_tar env es of
       None \<Rightarrow> Inl ''write tar''
     | Some t \<Rightarrow> Inr (ie_zstd env t, hex_encode (ie_hash env t)))"

definition buildEssentials :: "image_env \<Rightarrow> string + bytes \<times> string" where
  "buildEssentials env = layer_doc env (essentials_entries env)"

definition blank :: "char \<Rightarrow> bool" where
  "blank c \<longleftrightarrow> of_char c \<in> {9, 10, 11, 12, 13, 32 :: nat}"

definition fields :: "string \<Rightarrow> string list" where
  "fields s = filter (\<lambda>w. w \<noteq> []) (split_on (CHR '' '') (map (\<lambda>c. if blank c then CHR '' '' else c) s))"

definition shell_entries :: "bytes \<Rightarrow> string list \<Rightarrow> tar_entry list" where
  "shell_entries busybox applets =
     [writeTarEntry ''bin/'' 493 TypeDir [], writeTarEntry ''bin/busybox'' 493 TypeReg busybox] @
     map (\<lambda>name. writeTarSymlink (''bin/'' @ name) ''busybox'')
       (filter (\<lambda>name. \<not> (name = ''busybox'' \<or> name = [] \<or> CHR ''/'' \<in> set name \<or> CHR 0x00 \<in> set name)) (sort applets))"

definition shell_files :: "image_env \<Rightarrow> Arch \<Rightarrow> string + tar_entry list" where
  "shell_files env arch =
     (case ie_embed env (''shell/busybox-'' @ arch) of
        None \<Rightarrow> Inl (''no shell is baked in for '' @ arch)
      | Some busybox \<Rightarrow>
          (case ie_embed env (''shell/applets-'' @ arch) of
             None \<Rightarrow> Inl (''no applet list is baked in for '' @ arch)
           | Some listed \<Rightarrow> Inr (shell_entries busybox (fields (bytes_string listed)))))"

definition ShellLayer :: "image_env \<Rightarrow> Arch \<Rightarrow> string + bytes \<times> string" where
  "ShellLayer env arch = (case shell_files env arch of Inl e \<Rightarrow> Inl e | Inr es \<Rightarrow> layer_doc env es)"

text \<open>An earlier layer wins a name both carry. Reading a layer back gives the entries it was written from.\<close>

fun join_entries :: "string list \<Rightarrow> tar_entry list \<Rightarrow> tar_entry list" where
  "join_entries seen [] = []"
| "join_entries seen (e # es) =
     (if te_name e \<in> set seen then join_entries seen es else e # join_entries (te_name e # seen) es)"

definition joinLayers :: "image_env \<Rightarrow> tar_entry list list \<Rightarrow> string + bytes \<times> string" where
  "joinLayers env layers = layer_doc env (join_entries [] (concat layers))"

definition imageBase :: "image_env \<Rightarrow> Arch \<Rightarrow> string + bytes \<times> string" where
  "imageBase env arch =
     (case buildEssentials env of
        Inl e \<Rightarrow> Inl (''essentials: '' @ e)
      | Inr _ \<Rightarrow>
          (case ShellLayer env arch of
             Inl e \<Rightarrow> Inl (''shell for '' @ arch @ '': '' @ e)
           | Inr _ \<Rightarrow>
               (case shell_files env arch of
                  Inl e \<Rightarrow> Inl e
                | Inr shell \<Rightarrow> joinLayers env [essentials_entries env, shell])))"

definition imageBinPath :: "string \<Rightarrow> string" where
  "imageBinPath name = ''usr/local/lib/'' @ name @ ''/'' @ path_base name"

definition shellQuote :: "string \<Rightarrow> string" where
  "shellQuote s = [CHR 0x27] @ concat (map (\<lambda>c. if c = CHR 0x27 then [CHR 0x27, CHR 0x5C, CHR 0x27, CHR 0x27] else [c]) s) @ [CHR 0x27]"

definition imageLauncher :: "string \<Rightarrow> bytes" where
  "imageLauncher name =
     string_bytes (''#!/bin/sh'' @ newline @ ''# Generated by buildhost.'' @ newline @
       ''exec '' @ shellQuote (''/'' @ imageBinPath name) @ '' '' @ [CHR 0x22] @ ''$@'' @ [CHR 0x22] @ newline)"

text \<open>The entries of the layer of the binary. The header of the first one announces a size, and the writer
  refuses a body of another length.\<close>

definition binary_entries :: "bytes \<Rightarrow> string \<Rightarrow> tar_entry list" where
  "binary_entries c name =
     \<lparr>te_name = imageBinPath name, te_mode = 493, te_type = TypeReg, te_link = [], te_data = c, te_ustar = False\<rparr> #
     map (\<lambda>at. writeTarEntry at 493 TypeReg (imageLauncher name)) [name, ''usr/local/bin/'' @ path_base name]"

definition binary_layer :: "image_env \<Rightarrow> bytes \<Rightarrow> int \<Rightarrow> string \<Rightarrow> string + bytes \<times> string" where
  "binary_layer env c sz name =
     (if int (length c) \<noteq> sz then Inl ''archive/tar: write too long'' else layer_doc env (binary_entries c name))"

section \<open>Documents\<close>

definition ociCreateConfig :: "image_env \<Rightarrow> string \<Rightarrow> string \<Rightarrow> string list \<Rightarrow> string list \<Rightarrow> string \<Rightarrow> bytes" where
  "ociCreateConfig env os arch diffIDs entrypoint user =
     ie_config_json env \<lparr>ic_arch = arch, ic_os = os, ic_diff_ids = map (\<lambda>d. ''sha256:'' @ d) diffIDs, ic_entrypoint = entrypoint,
       ic_working_dir = ''/'',
       ic_env = [''PATH=/usr/local/sbin:/usr/local/bin:/usr/sbin:/usr/bin:/sbin:/bin'', ''SSL_CERT_FILE=/etc/ssl/certs/ca-certificates.crt''],
       ic_user = user\<rparr>"

definition imageManifestType :: string where "imageManifestType = ''application/vnd.oci.image.manifest.v1+json''"

definition image_manifest :: "string \<times> int \<Rightarrow> (string \<times> int) list \<Rightarrow> parsed_manifest" where
  "image_manifest config layers =
     \<lparr>pm_media_type = imageManifestType,
      pm_config = Some \<lparr>de_media_type = ''application/vnd.oci.image.config.v1+json'', de_digest = ''sha256:'' @ fst config, de_size = snd config,
         de_platform = None\<rparr>,
      pm_layers = map (\<lambda>(key, n). \<lparr>de_media_type = ''application/vnd.oci.image.layer.v1.tar+zstd'', de_digest = ''sha256:'' @ key, de_size = n,
         de_platform = None\<rparr>) layers,
      pm_manifests = [], pm_annotations = []\<rparr>"

definition ociCreateManifest :: "image_env \<Rightarrow> string \<times> int \<Rightarrow> (string \<times> int) list \<Rightarrow> bytes" where
  "ociCreateManifest env config layers = ie_manifest_json env (image_manifest config layers)"

section \<open>Portable executables\<close>

definition ape_magic :: bytes where "ape_magic = string_bytes ''MZqFpD='' @ [39]"

definition peekAPE :: "bytes \<Rightarrow> bool" where
  "peekAPE c \<longleftrightarrow> take 8 c = ape_magic"

text \<open>The expression \<open>printf '((?:[^'\\]|\\.)*)'\s*>&7\<close>: after the opening quote, the body ends at the first quote that no
  backslash precedes.\<close>

fun quoted_body :: "bytes \<Rightarrow> (bytes \<times> bytes) option" where
  "quoted_body [] = None"
| "quoted_body (c # cs) =
     (if c = 39 then Some ([], cs)
      else if c = 92 then
        (case cs of
           [] \<Rightarrow> None
         | d # ds \<Rightarrow> if d = 10 then None else map_option (\<lambda>(b, rest). (c # d # b, rest)) (quoted_body ds))
      else map_option (\<lambda>(b, rest). (c # b, rest)) (quoted_body cs))"

definition printf_here :: "bytes \<Rightarrow> (bytes \<times> bytes) option" where
  "printf_here s =
     (let open' = string_bytes ''printf '' @ [39] in
      if take (length open') s \<noteq> open' then None
      else case quoted_body (drop (length open') s) of
        None \<Rightarrow> None
      | Some (body, rest) \<Rightarrow>
          (let tail = dropWhile (\<lambda>c. c \<in> {9, 10, 12, 13, 32}) rest in
           if take 3 tail = string_bytes ''>&7'' then Some (body, drop 3 tail) else None))"

text \<open>All matches from left to right; the first argument counts the bytes still inside the last one.\<close>

fun apePrintfELF :: "nat \<Rightarrow> bytes \<Rightarrow> bytes list" where
  "apePrintfELF k [] = []"
| "apePrintfELF (Suc k) (c # cs) = apePrintfELF k cs"
| "apePrintfELF 0 (c # cs) =
     (case printf_here (c # cs) of
        None \<Rightarrow> apePrintfELF 0 cs
      | Some (body, rest) \<Rightarrow> body # apePrintfELF (length cs - length rest) cs)"

definition octal :: "byte \<Rightarrow> bool" where
  "octal c \<longleftrightarrow> 48 \<le> c \<and> c \<le> 55"

fun octal_value :: "nat \<Rightarrow> byte \<Rightarrow> bytes \<Rightarrow> byte \<times> bytes" where
  "octal_value (Suc n) v (c # cs) = (if octal c then octal_value n (push_bit 3 v OR (c - 48)) cs else (v, c # cs))"
| "octal_value n v s = (v, s)"

lemma octal_value_length: "length (snd (octal_value n v s)) \<le> length s"
  by (induction n v s rule: octal_value.induct) auto

function shellPrintfBytes :: "bytes \<Rightarrow> bytes" where
  "shellPrintfBytes [] = []"
| "shellPrintfBytes [c] = [c]"
| "shellPrintfBytes (c # d # s) =
     (if c \<noteq> 92 then c # shellPrintfBytes (d # s)
      else if \<not> octal d then d # shellPrintfBytes s
      else case octal_value 3 0 (d # s) of (v, rest) \<Rightarrow> v # shellPrintfBytes rest)"
  by pat_completeness auto
termination
proof (relation "measure length", goal_cases)
  case (4 c d s v rest)
  then have "rest = snd (octal_value 2 (push_bit 3 0 OR (d - 48)) s)" by (auto simp: numeral_eq_Suc dest: arg_cong [where f = snd])
  with octal_value_length [of 2 "push_bit 3 0 OR (d - 48)" s] show ?case by simp
qed auto

definition apeHeadSize :: nat where "apeHeadSize = 16384"

definition apeELFHeaderSize :: nat where "apeELFHeaderSize = 64"

definition apeMachine :: "Arch \<Rightarrow> nat option" where
  "apeMachine arch = (if arch = ArchAMD64 then Some 62 else if arch = ArchARM64 then Some 183 else None)"

definition elf_headers :: "bytes \<Rightarrow> bytes list" where
  "elf_headers head = filter (\<lambda>h. length h = apeELFHeaderSize \<and> take 4 h = elfMagic) (map shellPrintfBytes (apePrintfELF 0 head))"

definition apeELFHeader :: "bytes \<Rightarrow> Arch \<Rightarrow> string + bytes" where
  "apeELFHeader head arch =
     (case apeMachine arch of
        None \<Rightarrow> Inl (''no ELF machine is known for '' @ arch)
      | Some want \<Rightarrow>
          (case find_first (\<lambda>h. unat (h ! 18) + 256 * unat (h ! 19) = want) (elf_headers head) of
             Some h \<Rightarrow> Inr h
           | None \<Rightarrow> Inl (if elf_headers head = [] then ''the APE prologue holds no ELF header: it is not a trampoline this version understands''
                          else ''the APE prologue holds '' @ format_int (int (length (elf_headers head))) @ '' ELF headers and none is '' @ (if want = 62 then ''EM_X86_64'' else ''EM_AARCH64''))))"

definition apeAsELF :: "bytes \<Rightarrow> Arch \<Rightarrow> string + bytes" where
  "apeAsELF c arch =
     (if length (take apeHeadSize c) < apeELFHeaderSize
      then Inl (''the artifact is '' @ format_int (int (length (take apeHeadSize c))) @ '' bytes, too short to be an APE'')
      else case apeELFHeader (take apeHeadSize c) arch of
        Inl e \<Rightarrow> Inl e
      | Inr hdr \<Rightarrow> Inr (hdr @ drop apeELFHeaderSize c))"

text \<open>The staged file is as long as the artifact and differs from it in the header only.\<close>

lemma apeAsELF_shape:
  assumes "apeAsELF c arch = Inr c'"
  shows "length c' = length c" "drop 64 c' = drop 64 c" "take 4 c' = elfMagic"
proof -
  obtain hdr where h: "apeELFHeader (take apeHeadSize c) arch = Inr hdr" "c' = hdr @ drop 64 c" "64 \<le> length c"
    using assms by (auto simp: apeAsELF_def apeELFHeaderSize_def apeHeadSize_def split: if_splits sum.splits)
  have "hdr \<in> set (elf_headers (take apeHeadSize c))"
    using h(1) by (auto simp: apeELFHeader_def split: option.splits dest!: find_first_Some)
  then have "length hdr = 64" "take 4 hdr = elfMagic" by (auto simp: elf_headers_def apeELFHeaderSize_def)
  with h show "length c' = length c" "drop 64 c' = drop 64 c" "take 4 c' = elfMagic" by auto
qed

text \<open>No name is twice in the base of an image, and the layer of the binary starts it under the name of the project.\<close>

lemma join_entries_names: "te_name ` set (join_entries seen es) = te_name ` set es - set seen" "distinct (map te_name (join_entries seen es))"
proof (induction seen es rule: join_entries.induct)
  case (2 seen e es)
  case 1
  show ?case using 2 by (auto simp: image_iff) 
  case 2
  show ?case using "2.IH" by auto
qed simp_all

end
