(* ===== verification/Oci.thy ===== *)
theory Oci
  imports Image Project_Gate
begin

text \<open>
  The image registry: \<open>internal/oci\<close> with the table of linked blobs and the table of tags
  (\<open>internal/db/oci.go\<close>). A push uploads blobs in sessions, then a manifest that names them; a pull serves
  what is linked to the project. Every request is one step. A release of binaries is pulled as an image made on the spot
  (\<open>internal/repackage\<close>). The decoding of JSON is a parameter; the failures of the file system and the names
  of temporary files are arguments of a request.
\<close>

section \<open>Tables\<close>

definition InsertOCIBlobLink :: "time \<Rightarrow> int \<Rightarrow> string \<Rightarrow> string \<Rightarrow> int \<Rightarrow> bool \<Rightarrow> db \<Rightarrow> db_error + db" where
  "InsertOCIBlobLink now pid key media sz manifest d =
     (if list_ex (\<lambda>l. ol_project_id l = pid \<and> ol_storage_key l = key) (d_oci_links d) then Inr d
      else if \<not> list_ex (\<lambda>p. p_id p = pid) (d_projects d) then Inl ForeignKeyViolation
      else Inr (d\<lparr>d_oci_links := d_oci_links d @ [\<lparr>ol_project_id = pid, ol_storage_key = key, ol_media_type = media, ol_size = sz,
             ol_is_manifest = manifest, ol_created_at = now\<rparr>]\<rparr>))"

definition LinkOCIBlob :: "time \<Rightarrow> int \<Rightarrow> string \<Rightarrow> string \<Rightarrow> int \<Rightarrow> bool \<Rightarrow> db \<Rightarrow> db_error + db" where
  "LinkOCIBlob now pid key media sz manifest d = InsertOCIBlobLink now pid key media sz manifest d"

definition GetOCIBlobLink :: "int \<Rightarrow> string \<Rightarrow> db \<Rightarrow> db_error + oci_blob_link" where
  "GetOCIBlobLink pid key d =
     (case find_first (\<lambda>l. ol_project_id l = pid \<and> ol_storage_key l = key) (d_oci_links d) of None \<Rightarrow> Inl ErrNotFound | Some l \<Rightarrow> Inr l)"

definition ListOCIBlobLinkProjects :: "string \<Rightarrow> db \<Rightarrow> (project \<times> oci_blob_link) list" where
  "ListOCIBlobLinkProjects key d =
     concat (map (\<lambda>l. map (\<lambda>p. (p, l)) (filter (\<lambda>p. p_id p = ol_project_id l) (d_projects d))) (filter (\<lambda>l. ol_storage_key l = key) (d_oci_links d)))"

definition ListOCIBlobOwners :: "string \<Rightarrow> db \<Rightarrow> (project \<times> oci_blob_link) list" where
  "ListOCIBlobOwners key d = ListOCIBlobLinkProjects key d"

definition UpsertOCITag :: "int \<Rightarrow> string \<Rightarrow> string \<Rightarrow> int \<Rightarrow> db \<Rightarrow> db_error + db" where
  "UpsertOCITag pid tag digest rid d =
     (if \<not> list_ex (\<lambda>p. p_id p = pid) (d_projects d) \<or> \<not> list_ex (\<lambda>r. r_id r = rid) (d_releases d) then Inl ForeignKeyViolation
      else if list_ex (\<lambda>t. ot_project_id t = pid \<and> ot_tag t = tag) (d_oci_tags d)
      then Inr (d\<lparr>d_oci_tags := map (\<lambda>t. if ot_project_id t = pid \<and> ot_tag t = tag
                    then t\<lparr>ot_manifest_digest := digest, ot_release_id := rid\<rparr> else t) (d_oci_tags d)\<rparr>)
      else Inr (d\<lparr>d_oci_tags := d_oci_tags d @ [\<lparr>ot_project_id = pid, ot_tag = tag, ot_manifest_digest = digest, ot_release_id = rid\<rparr>]\<rparr>))"

definition SetOCITag :: "int \<Rightarrow> string \<Rightarrow> string \<Rightarrow> int \<Rightarrow> db \<Rightarrow> db_error + db" where
  "SetOCITag pid tag digest rid d = UpsertOCITag pid tag digest rid d"

definition GetOCITag :: "int \<Rightarrow> string \<Rightarrow> db \<Rightarrow> db_error + oci_tag" where
  "GetOCITag pid tag d =
     (case find_first (\<lambda>t. ot_project_id t = pid \<and> ot_tag t = tag) (d_oci_tags d) of None \<Rightarrow> Inl ErrNotFound | Some t \<Rightarrow> Inr t)"

definition DB_ListOCITags :: "int \<Rightarrow> db \<Rightarrow> oci_tag list" where
  "DB_ListOCITags pid d = sort_key ot_tag (filter (\<lambda>t. ot_project_id t = pid) (d_oci_tags d))"

section \<open>Upload sessions\<close>

datatype oci_fail = RangeMismatch | BlobTooLarge | OciText string

record oci_session =
  os_data :: bytes
  os_last_active :: time

record oci_state =
  od_db :: db
  od_fs :: filesystem
  od_sessions :: "(string \<times> oci_session) list"

record oci_env =
  oe_image :: image_env
  oe_enc :: "bytes \<Rightarrow> bytes"
  oe_dec :: "bytes \<Rightarrow> bytes option"
  oe_max_blob :: int
  oe_parse :: "bytes \<Rightarrow> parsed_manifest option"
  oe_parse_config :: "bytes \<Rightarrow> (string \<times> string) option"
  oe_gh :: gh_env

abbreviation oe_hash :: "oci_env \<Rightarrow> hash" where
  "oe_hash env \<equiv> ie_hash (oe_image env)"

text \<open>What the operating system does during one request; the synthesis of an image has a few more reads and writes for
  each platform, and takes ids for the rows it adds.\<close>

record syn_luck =
  sl_get :: "nat \<Rightarrow> stage option"
  sl_put :: "nat \<Rightarrow> stage option"
  sl_id :: "nat \<Rightarrow> int"

record oci_luck =
  lk_temp :: "string option"
  lk_room :: "nat option"
  lk_seek :: bool
  lk_put :: "stage option"
  lk_exists :: "stage option"
  lk_get :: "stage option"
  lk_syn :: "nat \<Rightarrow> syn_luck"

definition session_get :: "string \<Rightarrow> oci_state \<Rightarrow> oci_session option" where
  "session_get uuid s = map_of (od_sessions s) uuid"

definition session_put :: "string \<Rightarrow> oci_session \<Rightarrow> oci_state \<Rightarrow> oci_state" where
  "session_put uuid sess s = s\<lparr>od_sessions := AList.update uuid sess (od_sessions s)\<rparr>"

definition session_remove :: "string \<Rightarrow> oci_state \<Rightarrow> oci_state" where
  "session_remove uuid s = s\<lparr>od_sessions := AList.delete uuid (od_sessions s)\<rparr>"

definition upload_sweep :: "time \<Rightarrow> int \<Rightarrow> oci_state \<Rightarrow> oci_state" where
  "upload_sweep now maxAge s = s\<lparr>od_sessions := filter (\<lambda>(u, sess). \<not> os_last_active sess < now - maxAge) (od_sessions s)\<rparr>"

definition twoHours :: int where
  "twoHours = 2 * 3600 * 1000000000"

definition upload_start :: "oci_luck \<Rightarrow> time \<Rightarrow> oci_state \<Rightarrow> oci_state \<times> string option" where
  "upload_start lk now s =
     (let s1 = upload_sweep now twoHours s in
      case lk_temp lk of
        None \<Rightarrow> (s1, None)
      | Some uuid \<Rightarrow> (session_put uuid \<lparr>os_data = [], os_last_active = now\<rparr> s1, Some uuid))"

definition appendChunkAt :: "oci_env \<Rightarrow> oci_luck \<Rightarrow> time \<Rightarrow> oci_session \<Rightarrow> reader \<Rightarrow> int \<Rightarrow> oci_session \<times> oci_fail option" where
  "appendChunkAt env lk now sess body start =
     (let sess1 = sess\<lparr>os_last_active := now\<rparr>; written = int (length (os_data sess)) in
      if start \<ge> 0 \<and> start \<noteq> written then (sess1, Some RangeMismatch)
      else
        (case copy_capped (lk_room lk) \<lparr>cp_reader = body, cp_remaining = oe_max_blob env - written, cp_exceeded = False\<rparr> [] of (out, err, capped) \<Rightarrow>
           (sess1\<lparr>os_data := os_data sess @ out\<rparr>,
            if cp_exceeded capped then Some BlobTooLarge else case err of Some _ \<Rightarrow> Some (OciText ''copy'') | None \<Rightarrow> None)))"

definition oci_appendChunk :: "oci_env \<Rightarrow> oci_luck \<Rightarrow> time \<Rightarrow> oci_session \<Rightarrow> reader \<Rightarrow> oci_session \<times> oci_fail option" where
  "oci_appendChunk env lk now sess body = appendChunkAt env lk now sess body (- 1)"

definition digest_of :: "hash \<Rightarrow> bytes \<Rightarrow> string" where
  "digest_of H c = ''sha256:'' @ hex_encode (H c)"

text \<open>The session is gone afterwards, whatever happens.\<close>

definition upload_finalize :: "oci_env \<Rightarrow> oci_luck \<Rightarrow> string \<Rightarrow> oci_session \<Rightarrow> string \<Rightarrow> oci_state \<Rightarrow> oci_state \<times> (oci_fail + string \<times> int)" where
  "upload_finalize env lk uuid sess expected s =
     (let s1 = session_remove uuid s; got = digest_of (oe_hash env) (os_data sess) in
      if expected \<noteq> [] \<and> expected \<noteq> got then (s1, Inl (OciText (''digest mismatch: expected '' @ expected @ '', got '' @ got)))
      else if \<not> lk_seek lk then (s1, Inl (OciText ''rewind upload''))
      else
        (case Put (oe_hash env) (oe_enc env) (lk_put lk) \<lparr>rd_segs = [os_data sess], rd_end = IoEOF, rd_eager = False\<rparr> (od_fs s1) of
           (fs', Inl _) \<Rightarrow> (s1\<lparr>od_fs := fs'\<rparr>, Inl (OciText ''store blob''))
         | (fs', Inr (key, n)) \<Rightarrow>
             (s1\<lparr>od_fs := fs'\<rparr>,
              if ''sha256:'' @ key \<noteq> got then Inl (OciText (''storage key '' @ key @ '' does not match digest '' @ got)) else Inr (got, n))))"

section \<open>Pushing blobs\<close>

datatype oci_reply =
    OciError int string string
  | OciDone int "(string \<times> string) list"
  | OciServe "(string \<times> string) list" "bytes option"
  | OciTags string "string list"
  | OciRange "(string \<times> string) list" string
  | OciPanic

record oci_request =
  oq_method :: string
  oq_query :: "(string \<times> string) list"
  oq_content_range :: string
  oq_content_type :: string
  oq_body :: reader

definition oq_get :: "oci_request \<Rightarrow> string \<Rightarrow> string" where
  "oq_get r k = (case map_of (oq_query r) k of None \<Rightarrow> [] | Some v \<Rightarrow> v)"

definition validDigest :: "string \<Rightarrow> bool" where
  "validDigest s \<longleftrightarrow> has_prefix s ''sha256:'' \<and> validStorageKey (drop 7 s)"

definition blobPath :: "string \<Rightarrow> string \<Rightarrow> string" where
  "blobPath name digest = ''/v2/'' @ name @ ''/blobs/'' @ digest"

definition uploadPath :: "string \<Rightarrow> string \<Rightarrow> string" where
  "uploadPath name uuid = ''/v2/'' @ name @ ''/blobs/uploads/'' @ uuid"

definition blob_created :: "project \<Rightarrow> string \<Rightarrow> oci_reply" where
  "blob_created p digest = OciDone 201 [(''Location'', blobPath (p_name p) digest), (''Docker-Content-Digest'', digest)]"

definition uploadError :: "oci_fail \<Rightarrow> oci_reply" where
  "uploadError e = (case e of
       BlobTooLarge \<Rightarrow> OciError 413 ''BLOB_UPLOAD_INVALID'' ''blob exceeds maximum size''
     | RangeMismatch \<Rightarrow> OciError 400 ''BLOB_UPLOAD_INVALID'' ''chunk offset does not match committed size''
     | OciText t \<Rightarrow> OciError 400 ''BLOB_UPLOAD_INVALID'' t)"

definition setUploadHeaders :: "string \<Rightarrow> string \<Rightarrow> int \<Rightarrow> (string \<times> string) list" where
  "setUploadHeaders name uuid committed =
     [(''Location'', uploadPath name uuid), (''Docker-Upload-UUID'', uuid), (''Range'', ''0-'' @ format_int (if committed - 1 < 0 then 0 else committed - 1))]"

definition mountBlob :: "oci_env \<Rightarrow> oci_luck \<Rightarrow> time \<Rightarrow> auth_ctx \<Rightarrow> project \<Rightarrow> string \<Rightarrow> string \<Rightarrow> oci_state \<Rightarrow> (oci_state \<times> oci_reply) option" where
  "mountBlob env lk now ctx p digest from s =
     (if \<not> validDigest digest then None
      else
        (let key = drop 7 digest in
         if Exists (lk_exists lk) key (od_fs s) \<noteq> (True, None) then None
         else case find_first (\<lambda>(owner, l). (from = [] \<or> p_name owner = from) \<and> (p_id owner = p_id p \<or> TokenCanReadProject (oe_gh env) ctx owner))
                (ListOCIBlobOwners key (od_db s)) of
           None \<Rightarrow> None
         | Some (owner, l) \<Rightarrow>
             (case LinkOCIBlob now (p_id p) key (ol_media_type l) (ol_size l) (ol_is_manifest l) (od_db s) of
                Inl _ \<Rightarrow> None
              | Inr d' \<Rightarrow> Some (s\<lparr>od_db := d'\<rparr>, blob_created p digest))))"

text \<open>The end of a push that has a digest: store, link, answer.\<close>

definition finish_blob :: "oci_env \<Rightarrow> oci_luck \<Rightarrow> time \<Rightarrow> project \<Rightarrow> string \<Rightarrow> oci_session \<Rightarrow> string \<Rightarrow> oci_state \<Rightarrow> oci_state \<times> oci_reply" where
  "finish_blob env lk now p uuid sess digest s =
     (case upload_finalize env lk uuid sess digest s of
        (s', Inl e) \<Rightarrow> (s', uploadError e)
      | (s', Inr (stored, n)) \<Rightarrow>
          (case LinkOCIBlob now (p_id p) (drop 7 stored) [] n False (od_db s') of
             Inl _ \<Rightarrow> (s', OciError 500 ''UNKNOWN'' ''failed to record blob'')
           | Inr d' \<Rightarrow> (s'\<lparr>od_db := d'\<rparr>, blob_created p stored)))"

definition StartBlobUpload :: "oci_env \<Rightarrow> oci_luck \<Rightarrow> time \<Rightarrow> auth_ctx \<Rightarrow> project \<Rightarrow> oci_request \<Rightarrow> oci_state \<Rightarrow> oci_state \<times> oci_reply" where
  "StartBlobUpload env lk now ctx p r s =
     (case (if oq_get r ''mount'' = [] then None else mountBlob env lk now ctx p (oq_get r ''mount'') (oq_get r ''from'') s) of
        Some done' \<Rightarrow> done'
      | None \<Rightarrow>
          (let digest = oq_get r ''digest'' in
           if digest \<noteq> [] then
             (if \<not> validDigest digest then (s, OciError 400 ''DIGEST_INVALID'' ''invalid digest format'')
              else case upload_start lk now s of
                (s1, None) \<Rightarrow> (s1, OciError 500 ''UNKNOWN'' ''failed to start upload'')
              | (s1, Some uuid) \<Rightarrow>
                  (case oci_appendChunk env lk now \<lparr>os_data = [], os_last_active = now\<rparr> (oq_body r) of
                     (sess, Some e) \<Rightarrow> (session_remove uuid s1, uploadError e)
                   | (sess, None) \<Rightarrow> finish_blob env lk now p uuid sess digest s1))
           else case upload_start lk now s of
             (s1, None) \<Rightarrow> (s1, OciError 500 ''UNKNOWN'' ''failed to start upload'')
           | (s1, Some uuid) \<Rightarrow>
               (s1, OciDone 202 [(''Location'', uploadPath (p_name p) uuid), (''Docker-Upload-UUID'', uuid), (''Range'', ''0-0'')])))"

definition content_range :: "string \<Rightarrow> int option" where
  "content_range s =
     (case cut_at (CHR ''-'') s of (a, b, ok) \<Rightarrow>
        if ok \<and> a \<noteq> [] \<and> b \<noteq> [] \<and> list_all is_digit a \<and> list_all is_digit b
        then Some (case parse_int64 a of Some n \<Rightarrow> n | None \<Rightarrow> 2 ^ 63 - 1) else None)"

definition PatchBlobUpload :: "oci_env \<Rightarrow> oci_luck \<Rightarrow> time \<Rightarrow> project \<Rightarrow> oci_request \<Rightarrow> string \<Rightarrow> oci_state \<Rightarrow> oci_state \<times> oci_reply" where
  "PatchBlobUpload env lk now p r uuid s =
     (case session_get uuid s of
        None \<Rightarrow> (s, OciError 404 ''BLOB_UPLOAD_UNKNOWN'' ''upload unknown'')
      | Some sess \<Rightarrow>
          (case (if oq_content_range r = [] then Some (- 1) else content_range (oq_content_range r)) of
             None \<Rightarrow> (s, OciError 400 ''BLOB_UPLOAD_INVALID'' ''malformed Content-Range'')
           | Some start \<Rightarrow>
               (case appendChunkAt env lk now sess (oq_body r) start of
                  (sess', Some RangeMismatch) \<Rightarrow>
                    (session_put uuid sess' s, OciRange (setUploadHeaders (p_name p) uuid (int (length (os_data sess'))))
                       (''chunk start '' @ format_int start @ '' does not match committed size '' @ format_int (int (length (os_data sess')))))
                | (sess', Some e) \<Rightarrow> (session_remove uuid s, uploadError e)
                | (sess', None) \<Rightarrow> (session_put uuid sess' s, OciDone 202 (setUploadHeaders (p_name p) uuid (int (length (os_data sess'))))))))"

definition GetBlobUploadStatus :: "time \<Rightarrow> project \<Rightarrow> string \<Rightarrow> oci_state \<Rightarrow> oci_state \<times> oci_reply" where
  "GetBlobUploadStatus now p uuid s =
     (case session_get uuid s of
        None \<Rightarrow> (s, OciError 404 ''BLOB_UPLOAD_UNKNOWN'' ''upload unknown'')
      | Some sess \<Rightarrow> (session_put uuid (sess\<lparr>os_last_active := now\<rparr>) s, OciDone 204 (setUploadHeaders (p_name p) uuid (int (length (os_data sess))))))"

definition PutBlobUpload :: "oci_env \<Rightarrow> oci_luck \<Rightarrow> time \<Rightarrow> project \<Rightarrow> oci_request \<Rightarrow> string \<Rightarrow> oci_state \<Rightarrow> oci_state \<times> oci_reply" where
  "PutBlobUpload env lk now p r uuid s =
     (case session_get uuid s of
        None \<Rightarrow> (s, OciError 404 ''BLOB_UPLOAD_UNKNOWN'' ''upload unknown'')
      | Some sess \<Rightarrow>
          if \<not> validDigest (oq_get r ''digest'') then (session_remove uuid s, OciError 400 ''DIGEST_INVALID'' ''digest required to complete upload'')
          else
            (case oci_appendChunk env lk now sess (oq_body r) of
               (sess', Some e) \<Rightarrow> (session_remove uuid s, uploadError e)
             | (sess', None) \<Rightarrow> finish_blob env lk now p uuid sess' (oq_get r ''digest'') s))"

section \<open>Pushing manifests\<close>

definition maxManifestSize :: int where
  "maxManifestSize = 4 * 1024 * 1024"

definition ociIndexType :: string where "ociIndexType = ''application/vnd.oci.image.index.v1+json''"

definition dockerListType :: string where "dockerListType = ''application/vnd.docker.distribution.manifest.list.v2+json''"

definition isIndexMediaType :: "string \<Rightarrow> bool" where
  "isIndexMediaType mt \<longleftrightarrow> mt = ociIndexType \<or> mt = dockerListType"

definition manifest_created :: "project \<Rightarrow> string \<Rightarrow> oci_reply" where
  "manifest_created p digest = OciDone 201 [(''Location'', ''/v2/'' @ p_name p @ ''/manifests/'' @ digest), (''Docker-Content-Digest'', digest)]"

definition linkReferencedBlob :: "time \<Rightarrow> int \<Rightarrow> descriptor \<Rightarrow> bool \<Rightarrow> db \<Rightarrow> db_error + db \<times> bool" where
  "linkReferencedBlob now pid de manifest d =
     (if \<not> validDigest (de_digest de) then Inr (d, True)
      else if \<not> BlobBelongsToProject pid (drop 7 (de_digest de)) d then Inr (d, False)
      else case LinkOCIBlob now pid (drop 7 (de_digest de)) (de_media_type de) (de_size de) manifest d of Inl e \<Rightarrow> Inl e | Inr d' \<Rightarrow> Inr (d', True))"

fun link_refs :: "time \<Rightarrow> int \<Rightarrow> bool \<Rightarrow> descriptor list \<Rightarrow> db \<Rightarrow> db \<times> oci_reply option" where
  "link_refs now pid index [] d = (d, None)"
| "link_refs now pid index (de # des) d =
     (case linkReferencedBlob now pid de index d of
        Inl _ \<Rightarrow> (d, Some (OciError 500 ''UNKNOWN'' ''failed to record referenced blob''))
      | Inr (d', False) \<Rightarrow> (d', Some (OciError 400 ''MANIFEST_BLOB_UNKNOWN''
           (''referenced '' @ (if index then ''manifest'' else ''blob'') @ '' not found: '' @ de_digest de)))
      | Inr (d', True) \<Rightarrow> link_refs now pid index des d')"

definition releaseForDigest :: "int \<Rightarrow> string \<Rightarrow> db \<Rightarrow> int" where
  "releaseForDigest pid digest d =
     (case find_first (\<lambda>t. ot_manifest_digest t = digest) (DB_ListOCITags pid d) of None \<Rightarrow> 0 | Some t \<Rightarrow> ot_release_id t)"

definition docker_release :: "int \<Rightarrow> int \<Rightarrow> string \<Rightarrow> string \<Rightarrow> release" where
  "docker_release pid n commit notes = \<lparr>r_id = 0, r_project_id = pid, r_version = format_int n, r_version_num = n, r_git_branch = [], r_git_commit = commit,
     r_notes = notes, r_oci_user = [], r_published = False, r_draft = False, r_created_at = 0, r_published_at = None\<rparr>"

fun docker_release_loop :: "nat \<Rightarrow> time \<Rightarrow> int \<Rightarrow> string \<Rightarrow> string \<Rightarrow> db_error \<Rightarrow> db \<Rightarrow> db \<times> (db_error + release)" where
  "docker_release_loop 0 now pid commit notes lastErr d = (d, Inl lastErr)"
| "docker_release_loop (Suc k) now pid commit notes lastErr d =
     (case CreateRelease now (docker_release pid (NextVersionNum pid d) commit notes) d of
        (d', Inr rl) \<Rightarrow> (d', Inr rl)
      | (d', Inl (ErrConflict v)) \<Rightarrow> docker_release_loop k now pid commit notes (ErrConflict v) d'
      | (d', Inl e) \<Rightarrow> (d', Inl e))"

definition createDockerRelease :: "time \<Rightarrow> int \<Rightarrow> string \<Rightarrow> string \<Rightarrow> db \<Rightarrow> db \<times> (db_error + release)" where
  "createDockerRelease now pid commit notes d = docker_release_loop 5 now pid commit notes (ErrConflict []) d"

text \<open>The digest is cut after its seventh byte; a shorter one is a run-time panic (\<open>None\<close>). The error of the
  insertion is dropped.\<close>

definition createDockerArtifact :: "time \<Rightarrow> int \<Rightarrow> string \<Rightarrow> string \<Rightarrow> string \<Rightarrow> int \<Rightarrow> db \<Rightarrow> db option" where
  "createDockerArtifact now rid os arch digest sz d =
     (if length digest < 7 then None
      else Some (fst (CreateArtifact now \<lparr>a_id = 0, a_release_id = rid, a_os = os, a_arch = arch, a_kind = KindDocker, a_storage_key = drop 7 digest,
             a_size = sz, a_sha256 = drop 7 digest, a_stripped_storage_key = [], a_stripped_size = 0, a_stripped_sha256 = [], a_debug_storage_key = [],
             a_debug_size = 0, a_filename = [], a_exe_format = [], a_created_at = 0\<rparr> d)))"

fun docker_children :: "time \<Rightarrow> int \<Rightarrow> descriptor list \<Rightarrow> db \<Rightarrow> db \<times> bool" where
  "docker_children now rid [] d = (d, True)"
| "docker_children now rid (de # des) d =
     (case de_platform de of
        None \<Rightarrow> docker_children now rid des d
      | Some (os, arch) \<Rightarrow>
          if os = [] \<or> os = ''unknown'' \<or> arch = ''unknown'' then docker_children now rid des d
          else case createDockerArtifact now rid os arch (de_digest de) (de_size de) d of
            None \<Rightarrow> (d, False)
          | Some d' \<Rightarrow> docker_children now rid des d')"

definition configPlatform :: "oci_env \<Rightarrow> oci_luck \<Rightarrow> string \<Rightarrow> filesystem \<Rightarrow> (string \<times> string) option" where
  "configPlatform env lk digest fs =
     (if \<not> validDigest digest then None
      else case GetBlob (oe_dec env) (lk_get lk) (drop 7 digest) fs of
        Inr (Some c, _) \<Rightarrow> oe_parse_config env c
      | _ \<Rightarrow> None)"

definition manifest_refs :: "bool \<Rightarrow> parsed_manifest \<Rightarrow> descriptor list" where
  "manifest_refs index m = (if index then pm_manifests m else pm_layers m @ (case pm_config m of None \<Rightarrow> [] | Some c \<Rightarrow> [c]))"

definition manifest_type :: "oci_request \<Rightarrow> parsed_manifest \<Rightarrow> string" where
  "manifest_type r m =
     (let ct = (if oq_content_type r = [] then pm_media_type m else oq_content_type r)
      in case cut_at (CHR '';'') ct of (a, _, ok) \<Rightarrow> if ok then trim_space a else ct)"

definition is_index :: "oci_request \<Rightarrow> parsed_manifest \<Rightarrow> bool" where
  "is_index r m \<longleftrightarrow> pm_manifests m \<noteq> [] \<or> isIndexMediaType (manifest_type r m)"

definition annotation :: "parsed_manifest \<Rightarrow> string \<Rightarrow> string" where
  "annotation m k = (case map_of (pm_annotations m) k of None \<Rightarrow> [] | Some v \<Rightarrow> v)"

text \<open>The artifacts of a new release: one for each platform of an index, or one for the image.\<close>

definition docker_artifacts :: "oci_env \<Rightarrow> oci_luck \<Rightarrow> time \<Rightarrow> int \<Rightarrow> bool \<Rightarrow> parsed_manifest \<Rightarrow> string \<Rightarrow> int \<Rightarrow> filesystem \<Rightarrow> db \<Rightarrow> db \<times> bool" where
  "docker_artifacts env lk now rid index m digest sz fs d =
     (if index then docker_children now rid (pm_manifests m) d
      else
        (let (os, arch) = (case pm_config m of
               None \<Rightarrow> ([], [])
             | Some c \<Rightarrow> (case configPlatform env lk (de_digest c) fs of None \<Rightarrow> ([], []) | Some oa \<Rightarrow> oa))
         in case createDockerArtifact now rid (if os = [] then ''linux'' else os) arch digest sz d of None \<Rightarrow> (d, False) | Some d' \<Rightarrow> (d', True)))"

text \<open>Recording the image under a tag, once its blobs are linked.\<close>

definition tag_manifest :: "oci_env \<Rightarrow> oci_luck \<Rightarrow> time \<Rightarrow> project \<Rightarrow> string \<Rightarrow> bool \<Rightarrow> parsed_manifest \<Rightarrow> string \<Rightarrow> int \<Rightarrow> filesystem \<Rightarrow> db \<Rightarrow> db \<times> oci_reply" where
  "tag_manifest env lk now p reference index m digest sz fs d =
     (if (case GetOCITag (p_id p) reference d of Inr t \<Rightarrow> ot_manifest_digest t = digest | Inl _ \<Rightarrow> False) then (d, manifest_created p digest)
      else if releaseForDigest (p_id p) digest d \<noteq> 0 then
        (case SetOCITag (p_id p) reference digest (releaseForDigest (p_id p) digest d) d of
           Inl _ \<Rightarrow> (d, OciError 500 ''UNKNOWN'' ''failed to set tag'')
         | Inr d' \<Rightarrow> (d', manifest_created p digest))
      else
        (case createDockerRelease now (p_id p) (annotation m ''org.opencontainers.image.revision'') (annotation m ''org.opencontainers.image.source'') d of
           (d1, Inl _) \<Rightarrow> (d1, OciError 500 ''UNKNOWN'' ''failed to create release'')
         | (d1, Inr rl) \<Rightarrow>
             (case docker_artifacts env lk now (r_id rl) index m digest sz fs d1 of
                (d2, False) \<Rightarrow> (d2, OciPanic)
              | (d2, True) \<Rightarrow>
                  (let d3 = PublishRelease now (r_id rl) d2 in
                   case SetOCITag (p_id p) reference digest (r_id rl) d3 of
                     Inl _ \<Rightarrow> (d3, OciError 500 ''UNKNOWN'' ''failed to set tag'')
                   | Inr d4 \<Rightarrow> (d4, manifest_created p digest)))))"

definition PutManifest :: "oci_env \<Rightarrow> oci_luck \<Rightarrow> time \<Rightarrow> project \<Rightarrow> oci_request \<Rightarrow> string \<Rightarrow> oci_state \<Rightarrow> oci_state \<times> oci_reply" where
  "PutManifest env lk now p r reference s =
     (let lim = limit_body maxManifestSize (oq_body r); body = rd_bytes lim; digest = digest_of (oe_hash env) body in
      if reference = [] then (s, OciError 404 ''MANIFEST_UNKNOWN'' ''manifest reference required'')
      else if rd_end lim \<noteq> IoEOF then (s, OciError 400 ''MANIFEST_INVALID'' ''failed to read manifest'')
      else if validDigest reference \<and> reference \<noteq> digest then (s, OciError 400 ''DIGEST_INVALID'' ''manifest digest does not match reference'')
      else case oe_parse env body of
        None \<Rightarrow> (s, OciError 400 ''MANIFEST_INVALID'' ''manifest is not valid JSON'')
      | Some m \<Rightarrow>
          (case Put (oe_hash env) (oe_enc env) (lk_put lk) \<lparr>rd_segs = [body], rd_end = IoEOF, rd_eager = False\<rparr> (od_fs s) of
             (fs', Inl _) \<Rightarrow> (s\<lparr>od_fs := fs'\<rparr>, OciError 500 ''UNKNOWN'' ''failed to store manifest'')
           | (fs', Inr (key, n)) \<Rightarrow>
               (let s1 = s\<lparr>od_fs := fs'\<rparr> in
                if ''sha256:'' @ key \<noteq> digest then (s1, OciError 500 ''UNKNOWN'' ''failed to store manifest'')
                else case LinkOCIBlob now (p_id p) key (manifest_type r m) n True (od_db s1) of
                  Inl _ \<Rightarrow> (s1, OciError 500 ''UNKNOWN'' ''failed to record manifest'')
                | Inr d1 \<Rightarrow>
                    (case link_refs now (p_id p) (is_index r m) (manifest_refs (is_index r m) m) d1 of
                       (d2, Some refusal) \<Rightarrow> (s1\<lparr>od_db := d2\<rparr>, refusal)
                     | (d2, None) \<Rightarrow>
                         if validDigest reference then (s1\<lparr>od_db := d2\<rparr>, manifest_created p digest)
                         else (case tag_manifest env lk now p reference (is_index r m) m digest n fs' d2 of
                                 (d3, reply) \<Rightarrow> (s1\<lparr>od_db := d3\<rparr>, reply))))))"

section \<open>Images from binaries\<close>

datatype syn_fail = SynError string | SynPanic

text \<open>The bytes of an artifact, stripped when it is an executable that can be.\<close>

definition OpenArtifactStream :: "oci_env \<Rightarrow> syn_luck \<Rightarrow> artifact \<Rightarrow> filesystem \<Rightarrow> syn_fail + bytes option \<times> int" where
  "OpenArtifactStream env sl a fs =
     (let get = (\<lambda>i. GetBlob (oe_dec env) (sl_get sl i) (a_storage_key a) fs); lost = Inl (SynError ''open artifact: not found'') in
      case get 0 of
        Inl _ \<Rightarrow> lost
      | Inr (b, n) \<Rightarrow>
          if a_kind a \<noteq> KindBinary \<and> a_kind a \<noteq> KindLibrary then Inr (b, n)
          else
            (case get 1 of
               Inl _ \<Rightarrow> lost
             | Inr (b1, n1) \<Rightarrow>
                 if \<not> LooksELF (blob_reader b) then Inr (b1, n1)
                 else
                   (case StripReader (ie_alloc (oe_image env)) (blob_reader b1) of
                      Inr (stripped, ssize) \<Rightarrow> Inr (Some stripped, ssize)
                    | Inl Panicked \<Rightarrow> Inl SynPanic
                    | Inl _ \<Rightarrow> (case get 2 of Inl _ \<Rightarrow> lost | Inr r \<Rightarrow> Inr r))))"

text \<open>One stored part of an image, with the row that ties it to the artifact. The error of the row is dropped.\<close>

definition store_part :: "oci_env \<Rightarrow> syn_luck \<Rightarrow> nat \<Rightarrow> time \<Rightarrow> artifact \<Rightarrow> string \<Rightarrow> string \<Rightarrow> bytes \<Rightarrow> oci_state \<Rightarrow> oci_state \<times> (syn_fail + string \<times> int)" where
  "store_part env sl i now a format filename data s =
     (case Put (oe_hash env) (oe_enc env) (sl_put sl i) \<lparr>rd_segs = [data], rd_end = IoEOF, rd_eager = False\<rparr> (od_fs s) of
        (fs', Inl _) \<Rightarrow> (s\<lparr>od_fs := fs'\<rparr>, Inl (SynError (''store '' @ filename)))
      | (fs', Inr (key, n)) \<Rightarrow>
          (s\<lparr>od_fs := fs',
             od_db := (if 0 < a_id a then fst (CreatePackagedArtifact now (sl_id sl i) \<lparr>k_id = 0, k_artifact_id = a_id a, k_format = format,
                 k_storage_key = key, k_size = n, k_sha256 = key, k_filename = filename, k_metadata = ''{}'', k_created_at = 0\<rparr> (od_db s)) else od_db s)\<rparr>,
           Inr (key, n)))"

definition oci_Applicable :: "artifact \<Rightarrow> bool" where
  "oci_Applicable a \<longleftrightarrow> a_kind a = KindBinary \<and> a_os a = OSLinux"

text \<open>The manifest of an image, stored and linked to the project.\<close>

definition store_manifest :: "oci_env \<Rightarrow> stage option \<Rightarrow> time \<Rightarrow> project \<Rightarrow> bytes \<Rightarrow> oci_state \<Rightarrow> oci_state \<times> (syn_fail + bytes)" where
  "store_manifest env fail now p data s =
     (if 0 < p_id p then
        (case Put (oe_hash env) (oe_enc env) fail \<lparr>rd_segs = [data], rd_end = IoEOF, rd_eager = False\<rparr> (od_fs s) of
           (fs', Inl _) \<Rightarrow> (s\<lparr>od_fs := fs'\<rparr>, Inl (SynError ''store manifest''))
         | (fs', Inr (key, n)) \<Rightarrow>
             (case LinkOCIBlob now (p_id p) key imageManifestType n True (od_db s) of
                Inl _ \<Rightarrow> (s\<lparr>od_fs := fs'\<rparr>, Inl (SynError ''link manifest''))
              | Inr d' \<Rightarrow> (s\<lparr>od_fs := fs', od_db := d'\<rparr>, Inr data)))
      else (s, Inr data))"

definition and_then :: "oci_state \<times> (syn_fail + 'a) \<Rightarrow> ('a \<Rightarrow> oci_state \<Rightarrow> oci_state \<times> (syn_fail + 'b)) \<Rightarrow> oci_state \<times> (syn_fail + 'b)" where
  "and_then r f = (case r of (s, Inl e) \<Rightarrow> (s, Inl e) | (s, Inr x) \<Rightarrow> f x s)"

definition syn_value :: "string \<Rightarrow> string + 'a \<Rightarrow> oci_state \<Rightarrow> oci_state \<times> (syn_fail + 'a)" where
  "syn_value what r s = (s, case r of Inl e \<Rightarrow> Inl (SynError (what @ e)) | Inr x \<Rightarrow> Inr x)"

definition OCI_Repackage :: "oci_env \<Rightarrow> syn_luck \<Rightarrow> time \<Rightarrow> project \<Rightarrow> release \<Rightarrow> platform_artifact \<Rightarrow> bytes option \<Rightarrow> int \<Rightarrow> oci_state \<Rightarrow> oci_state \<times> (syn_fail + bytes)" where
  "OCI_Repackage env sl now p rl pa input sz s =
     (let a = pa_artifact pa; ie = oe_image env; suffix = pa_cache_suffix pa in
      if a_os a = [] \<or> a_arch a = [] then (s, Inl (SynError ''artifact missing os/arch''))
      else
        and_then (syn_value ''base layer: '' (imageBase ie (a_arch a)) s) (\<lambda>(base, baseID) s.
        and_then (store_part env sl 0 now a (''oci-base-layer'' @ suffix) ''base-layer.tar.zst'' base s) (\<lambda>baseDesc s.
        and_then (syn_value ''inspect artifact: '' (case input of None \<Rightarrow> Inl ''decode'' | Some c \<Rightarrow> Inr c) s) (\<lambda>c s.
        and_then (syn_value ''stage the APE: '' (if peekAPE c then apeAsELF c (a_arch a) else Inr c) s) (\<lambda>c s.
        and_then (syn_value ''create layer: '' (binary_layer ie c sz (p_name p)) s) (\<lambda>(bin, binID) s.
        and_then (store_part env sl 1 now a (''oci-layer'' @ suffix) ''layer.tar.zst'' bin s) (\<lambda>binDesc s.
        and_then (store_part env sl 2 now a (''oci-config'' @ suffix) ''config.json''
            (ociCreateConfig ie (a_os a) (a_arch a) [baseID, binID] [''/'' @ p_name p] (r_oci_user rl)) s) (\<lambda>config s.
        store_manifest env (sl_put sl 3) now p (ociCreateManifest ie config [baseDesc, binDesc]) s))))))))"

definition GenerateForPlatform :: "oci_env \<Rightarrow> syn_luck \<Rightarrow> time \<Rightarrow> project \<Rightarrow> release \<Rightarrow> platform_artifact \<Rightarrow> oci_state \<Rightarrow> oci_state \<times> (syn_fail + bytes)" where
  "GenerateForPlatform env sl now p rl pa s =
     (case OpenArtifactStream env sl (pa_artifact pa) (od_fs s) of
        Inl e \<Rightarrow> (s, Inl e)
      | Inr (input, sz) \<Rightarrow> OCI_Repackage env sl now p rl pa input sz s)"

definition platformEntry :: "oci_env \<Rightarrow> syn_luck \<Rightarrow> time \<Rightarrow> project \<Rightarrow> release \<Rightarrow> platform_artifact \<Rightarrow> oci_state \<Rightarrow> oci_state \<times> (syn_fail + descriptor)" where
  "platformEntry env sl now p rl pa s =
     and_then (GenerateForPlatform env sl now p rl pa s) (\<lambda>data s.
       let digest = digest_of (oe_hash env) data in
       if \<not> BlobBelongsToProject (p_id p) (drop 7 digest) (od_db s)
       then (s, Inl (SynError (''the synthesized manifest '' @ digest @ '' is not linked to this project'')))
       else (s, Inr \<lparr>de_media_type = imageManifestType, de_digest = digest, de_size = int (length data),
         de_platform = Some (a_os (pa_artifact pa), a_arch (pa_artifact pa))\<rparr>))"

fun index_entries :: "oci_env \<Rightarrow> (nat \<Rightarrow> syn_luck) \<Rightarrow> nat \<Rightarrow> time \<Rightarrow> project \<Rightarrow> release \<Rightarrow> platform_artifact list \<Rightarrow> oci_state
    \<Rightarrow> oci_state \<times> (oci_reply + descriptor list)" where
  "index_entries env syn i now p rl [] s = (s, Inr [])"
| "index_entries env syn i now p rl (pa # pas) s =
     (if \<not> oci_Applicable (pa_artifact pa) then index_entries env syn i now p rl pas s
      else case platformEntry env (syn i) now p rl pa s of
        (s1, Inl SynPanic) \<Rightarrow> (s1, Inl OciPanic)
      | (s1, Inl (SynError e)) \<Rightarrow>
          (s1, Inl (OciError 500 ''UNKNOWN'' (''cannot synthesize the '' @ a_os (pa_artifact pa) @ ''/'' @ a_arch (pa_artifact pa) @ '' image for '' @
             p_name p @ '' '' @ r_version rl @ '': '' @ e)))
      | (s1, Inr entry) \<Rightarrow>
          (case index_entries env syn (i + 1) now p rl pas s1 of
             (s2, Inl e) \<Rightarrow> (s2, Inl e)
           | (s2, Inr es) \<Rightarrow> (s2, Inr (entry # es))))"

definition head_body :: "string \<Rightarrow> bytes option \<Rightarrow> bytes option" where
  "head_body m b = (if m = ''HEAD'' then Some [] else b)"

definition serveSingleManifest :: "oci_env \<Rightarrow> oci_luck \<Rightarrow> string \<Rightarrow> descriptor \<Rightarrow> oci_state \<Rightarrow> oci_reply" where
  "serveSingleManifest env lk m entry s =
     (case GetBlob (oe_dec env) (lk_get lk) (drop 7 (de_digest entry)) (od_fs s) of
        Inl _ \<Rightarrow> OciError 404 ''MANIFEST_UNKNOWN'' ''manifest unknown''
      | Inr (b, n) \<Rightarrow>
          OciServe [(''Content-Type'', de_media_type entry), (''Content-Length'', format_int n), (''Docker-Content-Digest'', de_digest entry)] (head_body m b))"

definition image_index :: "descriptor list \<Rightarrow> parsed_manifest" where
  "image_index es = \<lparr>pm_media_type = ociIndexType, pm_config = None, pm_layers = [], pm_manifests = es, pm_annotations = []\<rparr>"

definition persistManifestBlob :: "oci_env \<Rightarrow> oci_luck \<Rightarrow> time \<Rightarrow> int \<Rightarrow> bytes \<Rightarrow> string \<Rightarrow> oci_state \<Rightarrow> oci_state \<times> bool" where
  "persistManifestBlob env lk now pid data media s =
     (case Put (oe_hash env) (oe_enc env) (lk_put lk) \<lparr>rd_segs = [data], rd_end = IoEOF, rd_eager = False\<rparr> (od_fs s) of
        (fs', Inl _) \<Rightarrow> (s\<lparr>od_fs := fs'\<rparr>, False)
      | (fs', Inr (key, n)) \<Rightarrow>
          (case LinkOCIBlob now pid key media n True (od_db s) of
             Inl _ \<Rightarrow> (s\<lparr>od_fs := fs'\<rparr>, False)
           | Inr d' \<Rightarrow> (s\<lparr>od_fs := fs', od_db := d'\<rparr>, True)))"

definition serveIndex :: "oci_env \<Rightarrow> oci_luck \<Rightarrow> time \<Rightarrow> project \<Rightarrow> string \<Rightarrow> release \<Rightarrow> oci_state \<Rightarrow> oci_state \<times> oci_reply" where
  "serveIndex env lk now p m rl s =
     (case index_entries env (lk_syn lk) 0 now p rl (ListArtifactsByPlatform (r_id rl) (od_db s)) s of
        (s1, Inl reply) \<Rightarrow> (s1, reply)
      | (s1, Inr []) \<Rightarrow> (s1, OciError 404 ''MANIFEST_UNKNOWN'' ''no OCI artifacts for this release'')
      | (s1, Inr [entry]) \<Rightarrow> (s1, serveSingleManifest env lk m entry s1)
      | (s1, Inr es) \<Rightarrow>
          (let data = ie_manifest_json (oe_image env) (image_index es) in
           case persistManifestBlob env lk now (p_id p) data ociIndexType s1 of
             (s2, False) \<Rightarrow> (s2, OciError 500 ''UNKNOWN'' ''failed to persist index'')
           | (s2, True) \<Rightarrow>
               (s2, OciServe [(''Content-Type'', ociIndexType), (''Content-Length'', format_int (int (length data))),
                  (''Docker-Content-Digest'', digest_of (oe_hash env) data)] (head_body m (Some data)))))"

section \<open>Pulling\<close>

definition manifestContentType :: "int \<Rightarrow> string \<Rightarrow> db \<Rightarrow> string" where
  "manifestContentType pid key d =
     (case GetOCIBlobLink pid key d of
        Inr l \<Rightarrow> if ol_media_type l \<noteq> [] then ol_media_type l else ''application/vnd.oci.image.manifest.v1+json''
      | Inl _ \<Rightarrow> ''application/vnd.oci.image.manifest.v1+json'')"

definition serveManifestByDigest :: "oci_env \<Rightarrow> oci_luck \<Rightarrow> project \<Rightarrow> string \<Rightarrow> string \<Rightarrow> oci_state \<Rightarrow> oci_reply" where
  "serveManifestByDigest env lk p m digest s =
     (if \<not> validDigest digest then OciError 404 ''MANIFEST_UNKNOWN'' ''invalid digest format''
      else if \<not> BlobBelongsToProject (p_id p) (drop 7 digest) (od_db s) then OciError 404 ''MANIFEST_UNKNOWN'' ''manifest unknown''
      else case GetBlob (oe_dec env) (lk_get lk) (drop 7 digest) (od_fs s) of
        Inl _ \<Rightarrow> OciError 404 ''MANIFEST_UNKNOWN'' ''manifest unknown''
      | Inr (b, n) \<Rightarrow>
          OciServe [(''Content-Type'', manifestContentType (p_id p) (drop 7 digest) (od_db s)), (''Content-Length'', format_int n),
            (''Docker-Content-Digest'', digest)] (head_body m b))"

definition resolveTag :: "project \<Rightarrow> string \<Rightarrow> db \<Rightarrow> release option" where
  "resolveTag p tag d =
     (let get = (\<lambda>v. case GetRelease (p_id p) v d of Inr rl \<Rightarrow> Some rl | Inl _ \<Rightarrow> None) in
      if tag = ''latest'' then (case GetLatestRelease (p_id p) d of Inr rl \<Rightarrow> Some rl | Inl _ \<Rightarrow> None)
      else case get tag of
        Some rl \<Rightarrow> Some rl
      | None \<Rightarrow>
          (case get (''v'' @ tag) of
             Some rl \<Rightarrow> Some rl
           | None \<Rightarrow> if has_prefix tag ''v'' then get (tl tag) else None))"

definition serveManifest :: "oci_env \<Rightarrow> oci_luck \<Rightarrow> time \<Rightarrow> project \<Rightarrow> string \<Rightarrow> string \<Rightarrow> oci_state
    \<Rightarrow> oci_state \<times> oci_reply" where
  "serveManifest env lk now p m reference s =
     (if validDigest reference then (s, serveManifestByDigest env lk p m reference s)
      else case GetOCITag (p_id p) reference (od_db s) of
        Inr t \<Rightarrow> (s, serveManifestByDigest env lk p m (ot_manifest_digest t) s)
      | Inl _ \<Rightarrow>
          (case resolveTag p reference (od_db s) of
             None \<Rightarrow> (s, OciError 404 ''MANIFEST_UNKNOWN'' ''manifest unknown'')
           | Some rl \<Rightarrow> serveIndex env lk now p m rl s))"

definition serveBlob :: "oci_env \<Rightarrow> oci_luck \<Rightarrow> project \<Rightarrow> string \<Rightarrow> string \<Rightarrow> oci_state \<Rightarrow> oci_reply" where
  "serveBlob env lk p m digest s =
     (if \<not> validDigest digest then OciError 404 ''BLOB_UNKNOWN'' ''invalid digest format''
      else if \<not> BlobBelongsToProject (p_id p) (drop 7 digest) (od_db s) then OciError 404 ''BLOB_UNKNOWN'' ''blob unknown to registry''
      else case GetBlob (oe_dec env) (lk_get lk) (drop 7 digest) (od_fs s) of
        Inl _ \<Rightarrow> OciError 404 ''BLOB_UNKNOWN'' ''blob unknown to registry''
      | Inr (b, n) \<Rightarrow>
          OciServe [(''Content-Type'', ''application/octet-stream''), (''Cache-Control'', ''public, max-age=31536000, immutable''),
            (''Content-Length'', format_int n), (''Docker-Content-Digest'', digest)] (head_body m b))"

definition serveTags :: "project \<Rightarrow> db \<Rightarrow> oci_reply" where
  "serveTags p d =
     (let pushed = map ot_tag (DB_ListOCITags (p_id p) d);
          binary = map r_version (filter (\<lambda>rl. r_published rl \<and> list_ex (\<lambda>a. a_kind a = KindBinary) (ListArtifacts (r_id rl) d)) (ListReleases (p_id p) d));
          every = pushed @ binary @ (if filter (\<lambda>rl. r_published rl \<and> list_ex (\<lambda>a. a_kind a = KindBinary) (ListArtifacts (r_id rl) d)) (ListReleases (p_id p) d) = []
                    then [] else [''latest''])
      in OciTags (p_name p) (rev (remdups (rev (filter (\<lambda>t. t \<noteq> []) every)))))"

section \<open>Routes\<close>

record oci_route =
  or_project :: string
  or_action :: string
  or_reference :: string

definition last_index :: "string \<Rightarrow> string \<Rightarrow> nat option" where
  "last_index s p = (let is = filter (\<lambda>i. has_prefix (drop i s) p) [0..<length s + 1] in if is = [] then None else Some (last is))"

definition ociActions :: "string list" where
  "ociActions = [''manifests'', ''blobs'', ''tags'']"

definition action_at :: "string \<Rightarrow> string \<Rightarrow> nat option" where
  "action_at path action =
     (case last_index path (''/'' @ action @ ''/'') of
        None \<Rightarrow> None
      | Some i \<Rightarrow> if i = 0 \<or> CHR ''/'' \<in> set (drop (i + length action + 2) path) then None else Some i)"

fun best_action :: "string \<Rightarrow> string list \<Rightarrow> (nat \<times> string) option \<Rightarrow> (nat \<times> string) option" where
  "best_action path [] best = best"
| "best_action path (a # as) best =
     (case action_at path a of
        None \<Rightarrow> best_action path as best
      | Some i \<Rightarrow> best_action path as (case best of None \<Rightarrow> Some (i, a) | Some (j, b) \<Rightarrow> if i > j then Some (i, a) else best))"

definition parseOCIPath :: "string \<Rightarrow> oci_route" where
  "parseOCIPath path =
     (let up = ''/blobs/uploads'';
          actions =
            (case best_action path ociActions None of
               Some (i, a) \<Rightarrow> \<lparr>or_project = take i path, or_action = a, or_reference = drop (i + length a + 2) path\<rparr>
             | None \<Rightarrow>
                 (case find_first (\<lambda>a. has_suffix path (''/'' @ a) \<and> length path > length a + 1) ociActions of
                    Some a \<Rightarrow> \<lparr>or_project = take (length path - length a - 1) path, or_action = a, or_reference = []\<rparr>
                  | None \<Rightarrow> \<lparr>or_project = path, or_action = [], or_reference = []\<rparr>))
      in case last_index path up of
           Some i \<Rightarrow>
             (let after = drop (i + length up) path in
              if i > 0 \<and> (after = [] \<or> has_prefix after ''/'')
              then \<lparr>or_project = take i path, or_action = ''uploads'', or_reference = trim_prefix after ''/''\<rparr> else actions)
         | None \<Rightarrow> actions)"

definition oci_access :: "string \<Rightarrow> oci_route \<Rightarrow> AccessLevel" where
  "oci_access m rt =
     (if or_action rt = ''uploads'' then WriteAccess
      else if m \<in> {''POST'', ''PATCH'', ''PUT'', ''DELETE''} then WriteAccess else ReadAccess)"

definition oci_visibility :: "oci_route \<Rightarrow> db \<Rightarrow> project \<Rightarrow> Visibility" where
  "oci_visibility rt d p =
     (if or_action rt \<noteq> ''manifests'' \<or> or_reference rt = [] \<or> has_prefix (or_reference rt) ''sha256:'' then VisibilityAuto
      else
        (case (case GetOCITag (p_id p) (or_reference rt) d of
                 Inr t \<Rightarrow> Some (ot_release_id t)
               | Inl _ \<Rightarrow> map_option r_id (resolveTag p (or_reference rt) d)) of
           None \<Rightarrow> VisibilityAuto
         | Some rid \<Rightarrow> if ReleaseVisibility rid d = VisibilityPrivate then VisibilityPrivate else VisibilityAuto))"

definition oci_parseRoute :: "string \<Rightarrow> string \<Rightarrow> oci_route \<times> route_info" where
  "oci_parseRoute m path =
     (let rt = parseOCIPath (trim_prefix path ''/v2/'')
      in (rt, \<lparr>rt_project = or_project rt, rt_access = oci_access m rt, rt_build_visibility = Some (oci_visibility rt), rt_public_read = None\<rparr>))"

definition V2Root :: "auth_ctx \<Rightarrow> oci_reply" where
  "V2Root ctx = (case cx_token ctx of
       None \<Rightarrow> OciError 401 ''UNAUTHORIZED'' ''authentication required''
     | Some _ \<Rightarrow> OciServe [(''Content-Type'', ''application/json'')] (Some (string_bytes (''{}'' @ newline))))"

definition oci_ServeHTTP :: "oci_env \<Rightarrow> oci_luck \<Rightarrow> time \<Rightarrow> auth_ctx \<Rightarrow> project
    \<Rightarrow> oci_route \<Rightarrow> oci_request \<Rightarrow> oci_state \<Rightarrow> oci_state \<times> oci_reply" where
  "oci_ServeHTTP env lk now ctx p rt r s =
     (let m = oq_method r; ref = or_reference rt in
      if or_action rt = ''manifests'' then
        (if m = ''PUT'' then PutManifest env lk now p r ref s
         else if ref = [] then (s, OciError 404 ''MANIFEST_UNKNOWN'' ''manifest reference required'')
         else serveManifest env lk now p m ref s)
      else if or_action rt = ''blobs'' then
        (if ref = [] then (s, OciError 404 ''BLOB_UNKNOWN'' ''blob digest required'') else (s, serveBlob env lk p m ref s))
      else if or_action rt = ''uploads'' then
        (if m = ''POST'' then StartBlobUpload env lk now ctx p r s
         else if m = ''PATCH'' then PatchBlobUpload env lk now p r ref s
         else if m = ''PUT'' then PutBlobUpload env lk now p r ref s
         else if m = ''GET'' then GetBlobUploadStatus now p ref s
         else (s, OciError 405 ''UNSUPPORTED'' ''unsupported method''))
      else if or_action rt = ''tags'' then (s, serveTags p (od_db s))
      else (s, OciError 404 ''NAME_UNKNOWN'' ''unknown endpoint''))"

end
