(* ===== verification/Oci_Laws.thy ===== *)
theory Oci_Laws
  imports Oci
begin

text \<open>
  What the requests of the image registry keep, and what a client may rely on: a digest the server
  acknowledged can be pulled from then on, and an image made from binaries is complete when it is served.
\<close>

section \<open>What requests keep\<close>

definition links :: "db \<Rightarrow> (int \<times> string) set" where
  "links d = (\<lambda>l. (ol_project_id l, ol_storage_key l)) ` set (d_oci_links d)"

text \<open>No link and no blob is lost.\<close>

definition kept :: "oci_state \<Rightarrow> oci_state \<Rightarrow> bool" where
  "kept s s' \<longleftrightarrow> links (od_db s) \<subseteq> links (od_db s') \<and> (\<forall>key. validStorageKey key \<longrightarrow> file_at (od_fs s) key \<noteq> None \<longrightarrow> file_at (od_fs s') key \<noteq> None)"

text \<open>The blobs are content-addressed, and no session has grown over the limit.\<close>

definition oci_inv :: "oci_env \<Rightarrow> bool \<Rightarrow> oci_state \<Rightarrow> bool" where
  "oci_inv env z s \<longleftrightarrow> store_inv (oe_hash env) (oe_dec env) z (od_fs s) \<and> (\<forall>(u, sess) \<in> set (od_sessions s). int (length (os_data sess)) \<le> oe_max_blob env)"

text \<open>The length of a blob is a signed integer of 64 bits.\<close>

definition fits :: "bytes \<Rightarrow> bool" where
  "fits c \<longleftrightarrow> length c < 2 ^ 63"

text \<open>The codec returns what it was given, for everything a request can store; nothing the encoders of the images make is too long
  for a blob.\<close>

definition codec_ok :: "oci_env \<Rightarrow> bool \<Rightarrow> bool" where
  "codec_ok env z \<longleftrightarrow> 0 \<le> oe_max_blob env \<and> oe_max_blob env < 2 ^ 63 \<and>
     (\<forall>c. fits c \<longrightarrow> body_ok (oe_hash env) (oe_enc env) (oe_dec env) z c) \<and>
     (\<forall>t. fits (ie_zstd (oe_image env) t)) \<and> (\<forall>c. fits (ie_config_json (oe_image env) c)) \<and>
     (\<forall>m. fits (ie_manifest_json (oe_image env) m))"

definition step_ok :: "oci_env \<Rightarrow> bool \<Rightarrow> oci_state \<Rightarrow> oci_state \<Rightarrow> bool" where
  "step_ok env z s s' \<longleftrightarrow> oci_inv env z s' \<and> kept s s'"

lemma kept_refl [simp]: "kept s s"
  by (simp add: kept_def)

lemma kept_trans: "kept s s' \<Longrightarrow> kept s' s'' \<Longrightarrow> kept s s''"
  unfolding kept_def by (meson subset_trans)

lemma session_remove_ok: "oci_inv env z s \<Longrightarrow> step_ok env z s (session_remove uuid s)"
  by (auto simp: step_ok_def oci_inv_def kept_def session_remove_def AList.delete_eq)

lemma session_put_ok:
  "oci_inv env z s \<Longrightarrow> int (length (os_data sess)) \<le> oe_max_blob env \<Longrightarrow> step_ok env z s (session_put uuid sess s)"
proof -
  assume s: "oci_inv env z s" "int (length (os_data sess)) \<le> oe_max_blob env"
  have "set (AList.update uuid sess xs) \<subseteq> insert (uuid, sess) (set xs)" for xs :: "(string \<times> oci_session) list"
    by (induction xs) auto
  with s show ?thesis by (fastforce simp: step_ok_def oci_inv_def kept_def session_put_def)
qed

lemma step_ok_trans: "step_ok env z s s' \<Longrightarrow> step_ok env z s' s'' \<Longrightarrow> step_ok env z s s''"
  unfolding step_ok_def using kept_trans by blast

lemma step_ok_inv: "step_ok env z s s' \<Longrightarrow> oci_inv env z s'"
  by (simp add: step_ok_def)

lemma step_ok_refl: "oci_inv env z s \<Longrightarrow> step_ok env z s s"
  by (simp add: step_ok_def)

lemma upload_start_ok:
  assumes "oci_inv env z s" "0 \<le> oe_max_blob env"
  shows "step_ok env z s (fst (upload_start lk now s))"
proof -
  have "step_ok env z s (upload_sweep now twoHours s)"
    using assms by (auto simp: step_ok_def oci_inv_def kept_def upload_sweep_def)
  moreover from this have "step_ok env z (upload_sweep now twoHours s) (session_put uuid \<lparr>os_data = [], os_last_active = now\<rparr> (upload_sweep now twoHours s))" for uuid
    using assms(2) by (intro session_put_ok) (auto simp: step_ok_def)
  ultimately show ?thesis by (auto simp: upload_start_def Let_def split: option.split intro: step_ok_trans)
qed

lemma appendChunkAt_bound:
  assumes "appendChunkAt env lk now sess body start = (sess', None)" "int (length (os_data sess)) \<le> oe_max_blob env"
  shows "int (length (os_data sess')) \<le> oe_max_blob env"
proof -
  obtain out err capped where c: "copy_capped (lk_room lk) \<lparr>cp_reader = body, cp_remaining = oe_max_blob env - int (length (os_data sess)), cp_exceeded = False\<rparr> []
      = (out, err, capped)" by (metis prod_cases3)
  have "\<not> cp_exceeded capped" "os_data sess' = os_data sess @ out" using assms(1) c by (auto simp: appendChunkAt_def Let_def split: if_splits)
  moreover from copy_capped_bound [OF c] this obtain k where "out = take k (rd_bytes body)" "int k \<le> max 0 (oe_max_blob env - int (length (os_data sess)))" by auto
  ultimately show ?thesis using assms(2) by (auto simp: min_def)
qed

lemma appendChunkAt_mismatch: "appendChunkAt env lk now sess body start = (sess', Some RangeMismatch) \<Longrightarrow> os_data sess' = os_data sess"
  by (auto simp: appendChunkAt_def Let_def split: if_splits prod.splits option.splits)

lemma Put_keeps:
  assumes "codec_ok env z" "oci_inv env z s" "fits c"
    "Put (oe_hash env) (oe_enc env) fail \<lparr>rd_segs = [c], rd_end = IoEOF, rd_eager = False\<rparr> (od_fs s) = (fs', res)"
  shows "step_ok env z s (s\<lparr>od_fs := fs'\<rparr>)"
    "res = Inr (key, n) \<Longrightarrow> key = hex_encode (oe_hash env c) \<and> validStorageKey key \<and> file_at fs' key \<noteq> None"
proof -
  let ?r = "\<lparr>rd_segs = [c], rd_end = IoEOF, rd_eager = False\<rparr>"
  have c: "rd_bytes ?r = c" by (simp add: rd_bytes_def)
  have body: "body_ok (oe_hash env) (oe_enc env) (oe_dec env) z c" using assms(1,3) by (auto simp: codec_ok_def)
  then have valid: "validStorageKey (hex_encode (oe_hash env c))" by (simp add: body_ok_def hex_encode_valid)
  have "store_inv (oe_hash env) (oe_dec env) z fs'" using Put_inv [OF assms(4)] assms(2) body c by (simp add: oci_inv_def)
  moreover have "file_at fs' k \<noteq> None" if "validStorageKey k" "file_at (od_fs s) k \<noteq> None" for k
    using assms(4) by (cases rule: Put_cases) (use that valid in \<open>auto simp: c file_at_write\<close>)
  ultimately show "step_ok env z s (s\<lparr>od_fs := fs'\<rparr>)" using assms(2) by (auto simp: step_ok_def oci_inv_def kept_def)
  show "res = Inr (key, n) \<Longrightarrow> key = hex_encode (oe_hash env c) \<and> validStorageKey key \<and> file_at fs' key \<noteq> None"
    using assms(4) by (cases rule: Put_cases) (use valid in \<open>auto simp: c file_at_write\<close>)
qed

lemma LinkOCIBlob_links: "LinkOCIBlob now pid key media sz manifest d = Inr d' \<Longrightarrow> links d' = insert (pid, key) (links d)"
  by (auto simp: LinkOCIBlob_def InsertOCIBlobLink_def links_def list_ex_iff split: if_splits)

lemma with_db_ok: "step_ok env z s s' \<Longrightarrow> links (od_db s') \<subseteq> links d \<Longrightarrow> step_ok env z s (s'\<lparr>od_db := d\<rparr>)"
  by (auto simp: step_ok_def oci_inv_def kept_def)

text \<open>What an acknowledged digest stands for.\<close>

definition acked :: "project \<Rightarrow> string \<Rightarrow> oci_state \<Rightarrow> bool" where
  "acked p g s \<longleftrightarrow> validDigest g \<and> (p_id p, drop 7 g) \<in> links (od_db s) \<and> file_at (od_fs s) (drop 7 g) \<noteq> None"

definition acknowledges :: "oci_reply \<Rightarrow> string \<Rightarrow> bool" where
  "acknowledges reply g \<longleftrightarrow> (\<exists>hs. reply = OciDone 201 hs \<and> map_of hs ''Docker-Content-Digest'' = Some g)"

lemma acknowledges_simps [simp]:
  "acknowledges (blob_created p g') g \<longleftrightarrow> g' = g" "acknowledges (manifest_created p g') g \<longleftrightarrow> g' = g"
  "\<not> acknowledges (OciError c m t) g" "\<not> acknowledges (uploadError e) g" "\<not> acknowledges (OciServe hs b) g" "\<not> acknowledges (OciTags n ts) g"
  "\<not> acknowledges OciPanic g" "\<not> acknowledges (OciRange hs t) g" "code \<noteq> 201 \<Longrightarrow> \<not> acknowledges (OciDone code hs) g"
  by (auto simp: acknowledges_def blob_created_def manifest_created_def uploadError_def split: oci_fail.splits)

text \<open>A request keeps the state in order, and what it acknowledges is there.\<close>

definition good :: "oci_env \<Rightarrow> bool \<Rightarrow> project \<Rightarrow> oci_state \<Rightarrow> oci_state \<times> oci_reply \<Rightarrow> bool" where
  "good env z p s res \<longleftrightarrow> step_ok env z s (fst res) \<and> (\<forall>g. acknowledges (snd res) g \<longrightarrow> acked p g (fst res))"

lemma good_silent: "step_ok env z s s' \<Longrightarrow> (\<And>g. \<not> acknowledges reply g) \<Longrightarrow> good env z p s (s', reply)"
  by (simp add: good_def)

lemma good_after: "step_ok env z s s' \<Longrightarrow> good env z p s' res \<Longrightarrow> good env z p s res"
  by (auto simp: good_def intro: step_ok_trans)

lemma digest_key: "drop 7 (''sha256:'' @ k) = k" "validStorageKey k \<Longrightarrow> validDigest (''sha256:'' @ k)"
  by (simp_all add: validDigest_def has_prefix_def)

lemma finish_blob_good:
  assumes "codec_ok env z" "oci_inv env z s" "int (length (os_data sess)) \<le> oe_max_blob env"
  shows "good env z p s (finish_blob env lk now p uuid sess digest s)"
proof -
  let ?s1 = "session_remove uuid s" and ?got = "digest_of (oe_hash env) (os_data sess)"
  note rem = session_remove_ok [OF assms(2), of uuid]
  obtain fs' res where put: "Put (oe_hash env) (oe_enc env) (lk_put lk) \<lparr>rd_segs = [os_data sess], rd_end = IoEOF, rd_eager = False\<rparr> (od_fs ?s1) = (fs', res)" by fastforce
  have len: "fits (os_data sess)" using assms(1,3) by (simp add: codec_ok_def fits_def)
  note stored = Put_keeps [OF assms(1) step_ok_inv [OF rem] len put]
  have s2: "step_ok env z s (?s1\<lparr>od_fs := fs'\<rparr>)" by (rule step_ok_trans [OF rem stored(1)])
  have "good env z p s (?s1\<lparr>od_fs := fs', od_db := d'\<rparr>, blob_created p ?got)"
    if "LinkOCIBlob now (p_id p) (drop 7 ?got) [] n False (od_db ?s1) = Inr d'" "res = Inr (key, n)" for d' key n
  proof -
    have k: "?got = ''sha256:'' @ key" "validStorageKey key" "file_at fs' key \<noteq> None" using stored(2) [OF that(2)] by (auto simp: digest_of_def)
    note l = LinkOCIBlob_links [OF that(1)]
    have "step_ok env z s ((?s1\<lparr>od_fs := fs'\<rparr>)\<lparr>od_db := d'\<rparr>)" using s2 l by (intro with_db_ok) auto
    then show ?thesis using k l digest_key by (simp add: good_def acked_def)
  qed
  then show ?thesis
    using rem s2 put by (auto simp: finish_blob_def upload_finalize_def Let_def intro!: good_silent split: sum.splits prod.splits if_splits)
qed

lemma mountBlob_good:
  assumes "oci_inv env z s" "mountBlob env lk now ctx p digest from s = Some res"
  shows "good env z p s res"
proof -
  obtain d' and l :: oci_blob_link where h: "validDigest digest" "Exists (lk_exists lk) (drop 7 digest) (od_fs s) = (True, None)"
      "LinkOCIBlob now (p_id p) (drop 7 digest) (ol_media_type l) (ol_size l) (ol_is_manifest l) (od_db s) = Inr d'" "res = (s\<lparr>od_db := d'\<rparr>, blob_created p digest)"
    using assms(2) by (auto simp: mountBlob_def Let_def split: if_splits option.splits sum.splits)
  note l = LinkOCIBlob_links [OF h(3)]
  have "file_at (od_fs s) (drop 7 digest) \<noteq> None" using h(2) by (auto simp: Exists_def split: if_splits)
  moreover have "step_ok env z s (s\<lparr>od_db := d'\<rparr>)" using l by (intro with_db_ok step_ok_refl assms(1)) auto
  ultimately show ?thesis using h(1,4) l by (simp add: good_def acked_def)
qed

lemma StartBlobUpload_good:
  assumes "codec_ok env z" "oci_inv env z s"
  shows "good env z p s (StartBlobUpload env lk now ctx p r s)"
proof (cases "if oq_get r ''mount'' = [] then None else mountBlob env lk now ctx p (oq_get r ''mount'') (oq_get r ''from'') s")
  case (Some res)
  then have "mountBlob env lk now ctx p (oq_get r ''mount'') (oq_get r ''from'') s = Some res" by (simp split: if_splits)
  from mountBlob_good [OF assms(2) this] show ?thesis by (simp add: StartBlobUpload_def Some)
next
  case None
  obtain s1 temp where st: "upload_start lk now s = (s1, temp)" by fastforce
  have s1: "step_ok env z s s1" using upload_start_ok [OF assms(2), of lk now] assms(1) st by (simp add: codec_ok_def)
  obtain sess e where ap: "oci_appendChunk env lk now \<lparr>os_data = [], os_last_active = now\<rparr> (oq_body r) = (sess, e)" by fastforce
  have "good env z p s (finish_blob env lk now p uuid sess g s1)" if "e = None" for uuid g
    using appendChunkAt_bound [OF ap [unfolded oci_appendChunk_def that]] assms(1)
    by (intro good_after [OF s1] finish_blob_good assms(1) step_ok_inv [OF s1]) (simp add: codec_ok_def)
  moreover have "step_ok env z s (session_remove uuid s1)" for uuid
    by (rule step_ok_trans [OF s1 session_remove_ok [OF step_ok_inv [OF s1]]])
  ultimately show ?thesis
    using st ap s1 step_ok_refl [OF assms(2)]
    by (auto simp: StartBlobUpload_def None Let_def intro!: good_silent split: option.split)
qed

lemma PatchBlobUpload_good:
  assumes "oci_inv env z s"
  shows "good env z p s (PatchBlobUpload env lk now p r uuid s)"
proof (cases "session_get uuid s")
  case (Some sess)
  then have len: "int (length (os_data sess)) \<le> oe_max_blob env"
    using assms by (auto simp: session_get_def oci_inv_def dest!: map_of_SomeD)
  have ap: "good env z p s (case appendChunkAt env lk now sess (oq_body r) start of
       (sess', Some RangeMismatch) \<Rightarrow> (session_put uuid sess' s, OciRange (hs sess') (msg sess'))
     | (sess', Some e) \<Rightarrow> (session_remove uuid s, uploadError e)
     | (sess', None) \<Rightarrow> (session_put uuid sess' s, OciDone 202 (hs sess')))" for start msg hs
  proof -
    obtain sess' e where a: "appendChunkAt env lk now sess (oq_body r) start = (sess', e)" by fastforce
    have "e = None \<Longrightarrow> step_ok env z s (session_put uuid sess' s)" using appendChunkAt_bound [OF _ len] a by (intro session_put_ok assms) auto
    moreover have "e = Some RangeMismatch \<Longrightarrow> step_ok env z s (session_put uuid sess' s)"
      using appendChunkAt_mismatch [of env lk now sess] a len by (intro session_put_ok assms) auto
    ultimately show ?thesis
      using session_remove_ok [OF assms, of uuid] by (auto simp: a intro!: good_silent split: option.split oci_fail.split)
  qed
  show ?thesis
    unfolding PatchBlobUpload_def Some using ap step_ok_refl [OF assms] by (auto intro!: good_silent split: option.split)
qed (use step_ok_refl [OF assms] in \<open>auto simp: PatchBlobUpload_def intro!: good_silent\<close>)

lemma PutBlobUpload_good:
  assumes "codec_ok env z" "oci_inv env z s"
  shows "good env z p s (PutBlobUpload env lk now p r uuid s)"
proof (cases "session_get uuid s")
  case (Some sess)
  then have len: "int (length (os_data sess)) \<le> oe_max_blob env"
    using assms(2) by (auto simp: session_get_def oci_inv_def dest!: map_of_SomeD)
  obtain sess' e where a: "oci_appendChunk env lk now sess (oq_body r) = (sess', e)" by fastforce
  have "e = None \<Longrightarrow> good env z p s (finish_blob env lk now p uuid sess' g s)" for g
    using appendChunkAt_bound [OF _ len] a by (intro finish_blob_good assms) (auto simp: oci_appendChunk_def)
  with session_remove_ok [OF assms(2), of uuid] a show ?thesis
    by (auto simp: PutBlobUpload_def Some intro!: good_silent split: option.split)
qed (use step_ok_refl [OF assms(2)] in \<open>auto simp: PutBlobUpload_def intro!: good_silent\<close>)

section \<open>Manifests keep the links\<close>

lemma insert_platforms_links: "insert_platforms a k ps d = Inr d' \<Longrightarrow> d_oci_links d' = d_oci_links d"
proof (induction ps arbitrary: k d)
  case (Cons p ps)
  then obtain d1 where "InsertArtifactPlatform (slot_row a p k) d = Inr d1" "insert_platforms a (k + 1) ps d1 = Inr d'"
    by (auto split: sum.splits db_error.splits)
  moreover from this(1) have "d_oci_links d1 = d_oci_links d" by (auto simp: InsertArtifactPlatform_def split: if_splits)
  ultimately show ?case using Cons.IH by simp
qed simp

lemma insert_artifacts_links: "insert_artifacts now rows out d = Inr (d', out') \<Longrightarrow> d_oci_links d' = d_oci_links d"
proof (induction now rows out d rule: insert_artifacts.induct)
  case (2 now a ps rows out d)
  then obtain d1 i d2 where s: "InsertArtifact now a d = Inr (d1, i)" "insert_platforms (a\<lparr>a_id := i\<rparr>) 0 ps d1 = Inr d2"
      "insert_artifacts now rows (out @ [a\<lparr>a_id := i\<rparr>]) d2 = Inr (d', out')"
    by (auto split: sum.splits db_error.splits)
  have "d_oci_links d1 = d_oci_links d" using s(1) by (auto simp: InsertArtifact_def Let_def split: if_splits)
  with 2(1) [OF s(1) refl s(2,3)] insert_platforms_links [OF s(2)] show ?case by simp
qed simp

lemma CreateArtifact_links: "d_oci_links (fst (CreateArtifact now a d)) = d_oci_links d"
  by (cases "insert_artifacts now (map (\<lambda>a. (a, [own_platform a])) [a]) [] d")
    (auto simp: CreateArtifact_def CreateArtifacts_def createArtifacts_def simp del: insert_artifacts.simps dest: insert_artifacts_links split: list.split)

lemma createDockerArtifact_links: "createDockerArtifact now rid os arch digest sz d = Some d' \<Longrightarrow> d_oci_links d' = d_oci_links d"
  by (auto simp: createDockerArtifact_def CreateArtifact_links split: if_splits)

lemma docker_children_links: "d_oci_links (fst (docker_children now rid des d)) = d_oci_links d"
  by (induction des arbitrary: d) (auto split: option.split dest: createDockerArtifact_links)

lemma docker_artifacts_links: "d_oci_links (fst (docker_artifacts env lk now rid index m digest sz fs d)) = d_oci_links d"
  by (auto simp: docker_artifacts_def docker_children_links split: option.split prod.split dest: createDockerArtifact_links)

lemma CreateRelease_links: "d_oci_links (fst (CreateRelease now r d)) = d_oci_links d"
  by (auto simp: CreateRelease_def InsertRelease_def Let_def split: sum.split db_error.split if_splits)

lemma docker_release_links: "d_oci_links (fst (docker_release_loop k now pid commit notes err d)) = d_oci_links d"
proof (induction k arbitrary: err d)
  case (Suc k)
  obtain d1 res where c: "CreateRelease now (docker_release pid (NextVersionNum pid d) commit notes) d = (d1, res)" by fastforce
  with CreateRelease_links [of now "docker_release pid (NextVersionNum pid d) commit notes" d] have "d_oci_links d1 = d_oci_links d" by simp
  with c Suc.IH show ?case by (auto split: sum.split db_error.split)
qed simp

lemma SetOCITag_links: "SetOCITag pid tag digest rid d = Inr d' \<Longrightarrow> d_oci_links d' = d_oci_links d"
  by (auto simp: SetOCITag_def UpsertOCITag_def split: if_splits)

lemma tag_manifest_links:
  assumes "tag_manifest env lk now p reference index m digest sz fs d = (d', reply)"
  shows "links d' = links d" "acknowledges reply g \<Longrightarrow> g = digest"
proof -
  let ?commit = "annotation m ''org.opencontainers.image.revision''" and ?notes = "annotation m ''org.opencontainers.image.source''"
  obtain d1 res where r: "createDockerRelease now (p_id p) ?commit ?notes d = (d1, res)" by fastforce
  have 1: "d_oci_links d1 = d_oci_links d"
    using docker_release_links [of 5 now "p_id p" ?commit ?notes "ErrConflict []" d] r by (simp add: createDockerRelease_def)
  have 2: "d_oci_links d2 = d_oci_links d1" if "docker_artifacts env lk now rid index m digest sz fs d1 = (d2, ok)" for rid d2 ok
    using docker_artifacts_links [of env lk now rid index m digest sz fs d1] that by simp
  have 3: "d_oci_links (PublishRelease now rid d2) = d_oci_links d2" for rid d2 by (simp add: PublishRelease_def)
  show "links d' = links d" "acknowledges reply g \<Longrightarrow> g = digest"
    using assms r 1
    by (auto simp: tag_manifest_def links_def 3 Let_def split: if_splits sum.splits prod.splits bool.splits dest!: SetOCITag_links 2)
qed

lemma link_refs_links: "links d \<subseteq> links (fst (link_refs now pid index des d))"
proof (induction des arbitrary: d)
  case (Cons de des)
  have "links d \<subseteq> links d'" if "linkReferencedBlob now pid de index d = Inr (d', ok)" for d' ok
    using that by (auto simp: linkReferencedBlob_def split: if_splits sum.splits dest: LinkOCIBlob_links)
  with Cons.IH show ?case by (auto split: sum.split bool.split) blast+
qed simp

lemma link_refs_refuses: "link_refs now pid index des d = (d', Some reply) \<Longrightarrow> \<not> acknowledges reply g"
  by (induction des arbitrary: d) (auto split: sum.splits bool.splits)

lemma PutManifest_good:
  assumes "codec_ok env z" "oci_inv env z s"
  shows "good env z p s (PutManifest env lk now p r reference s)"
proof -
  let ?lim = "limit_body maxManifestSize (oq_body r)"
  let ?body = "rd_bytes ?lim" and ?g = "digest_of (oe_hash env) (rd_bytes ?lim)"
  have silent: "good env z p s (s, OciError c m t)" for c m t by (intro good_silent step_ok_refl assms(2)) simp
  have size: "fits ?body"
    by (auto simp: limit_body_def rd_bytes_def maxManifestSize_def fits_def)
  obtain fs' res where put: "Put (oe_hash env) (oe_enc env) (lk_put lk) \<lparr>rd_segs = [?body], rd_end = IoEOF, rd_eager = False\<rparr> (od_fs s) = (fs', res)" by fastforce
  note stored = Put_keeps [OF assms size put]
  let ?s1 = "s\<lparr>od_fs := fs'\<rparr>"
  have error: "good env z p s (?s1, OciError c m t)" for c m t by (intro good_silent stored(1)) simp
  have linked: "good env z p s (?s1\<lparr>od_db := d\<rparr>, reply)"
    if k: "res = Inr (key, n)" "LinkOCIBlob now (p_id p) key media n True (od_db ?s1) = Inr d1" and d: "links d1 \<subseteq> links d"
      and ack: "\<And>g. acknowledges reply g \<Longrightarrow> g = ?g" for key n media d1 d reply
  proof -
    have key: "?g = ''sha256:'' @ key" "validStorageKey key" "file_at fs' key \<noteq> None" using stored(2) [OF k(1)] by (auto simp: digest_of_def)
    note l = LinkOCIBlob_links [OF k(2)]
    have "step_ok env z s (?s1\<lparr>od_db := d\<rparr>)" using stored(1) l d by (intro with_db_ok) auto
    moreover have "acked p ?g (?s1\<lparr>od_db := d\<rparr>)" using key l d digest_key by (auto simp: acked_def)
    ultimately show ?thesis using ack by (auto simp: good_def)
  qed
  show ?thesis
  proof (cases "oe_parse env ?body")
    case None
    then show ?thesis using silent by (simp add: PutManifest_def Let_def)
  next
    case (Some m)
    let ?ix = "is_index r m"
    have after: "good env z p s (case link_refs now (p_id p) ?ix (manifest_refs ?ix m) d1 of
         (d2, Some refusal) \<Rightarrow> (?s1\<lparr>od_db := d2\<rparr>, refusal)
       | (d2, None) \<Rightarrow>
           if validDigest reference then (?s1\<lparr>od_db := d2\<rparr>, manifest_created p ?g)
           else (case tag_manifest env lk now p reference ?ix m ?g n fs' d2 of (d3, reply) \<Rightarrow> (?s1\<lparr>od_db := d3\<rparr>, reply)))"
      if k: "res = Inr (key, n)" "LinkOCIBlob now (p_id p) key (manifest_type r m) n True (od_db ?s1) = Inr d1" for key n d1
    proof -
      obtain d2 ref where refs: "link_refs now (p_id p) ?ix (manifest_refs ?ix m) d1 = (d2, ref)" by fastforce
      obtain d3 reply where tag: "tag_manifest env lk now p reference ?ix m ?g n fs' d2 = (d3, reply)" by fastforce
      have sub: "links d1 \<subseteq> links d2" using link_refs_links [of d1 now "p_id p" ?ix "manifest_refs ?ix m"] refs by simp
      have "good env z p s (?s1\<lparr>od_db := d2\<rparr>, refusal)" if "ref = Some refusal" for refusal
        using link_refs_refuses refs that by (intro linked [OF k sub]) blast
      moreover have "good env z p s (?s1\<lparr>od_db := d2\<rparr>, manifest_created p ?g)" by (intro linked [OF k sub]) simp
      moreover have "good env z p s (?s1\<lparr>od_db := d3\<rparr>, reply)"
        using tag_manifest_links [OF tag] sub by (intro linked [OF k]) auto
      ultimately show ?thesis using refs tag by (auto split: option.split)
    qed
    then show ?thesis
      using silent error put by (auto simp: PutManifest_def Some Let_def split: sum.split prod.split)
  qed
qed

lemma GetBlobUploadStatus_good:
  assumes "oci_inv env z s"
  shows "good env z p s (GetBlobUploadStatus now p uuid s)"
proof (cases "session_get uuid s")
  case (Some sess)
  then have "int (length (os_data sess)) \<le> oe_max_blob env" using assms by (auto simp: session_get_def oci_inv_def dest!: map_of_SomeD)
  then show ?thesis by (auto simp: GetBlobUploadStatus_def Some intro!: good_silent session_put_ok assms)
qed (use step_ok_refl [OF assms] in \<open>auto simp: GetBlobUploadStatus_def intro!: good_silent\<close>)

section \<open>Images from binaries keep the links\<close>

lemma and_then_ok:
  assumes "step_ok env z s (fst r)" "\<And>x s'. r = (s', Inr x) \<Longrightarrow> step_ok env z s s' \<Longrightarrow> step_ok env z s' (fst (f x s'))"
  shows "step_ok env z s (fst (and_then r f))"
proof -
  obtain s' res where r: "r = (s', res)" by fastforce
  with assms(1) have "step_ok env z s s'" by simp
  with assms(2) r show ?thesis by (cases res) (auto simp: and_then_def intro: step_ok_trans)
qed

lemma syn_value_fst [simp]: "fst (syn_value what r s) = s"
  by (simp add: syn_value_def)

lemma store_part_ok:
  assumes "codec_ok env z" "oci_inv env z s" "fits data"
  shows "step_ok env z s (fst (store_part env sl i now a format filename data s))"
proof -
  obtain fs' res where put: "Put (oe_hash env) (oe_enc env) (sl_put sl i) \<lparr>rd_segs = [data], rd_end = IoEOF, rd_eager = False\<rparr> (od_fs s) = (fs', res)" by fastforce
  note ok = Put_keeps(1) [OF assms put]
  have "d_oci_links (fst (CreatePackagedArtifact now n k d)) = d_oci_links d" for n k d
    by (auto simp: CreatePackagedArtifact_def exec_def UpsertPackagedArtifact_def split: sum.split)
  with with_db_ok [OF ok] ok put show ?thesis by (auto simp: store_part_def links_def split: sum.split)
qed

lemma store_manifest_ok:
  assumes "codec_ok env z" "oci_inv env z s" "fits data"
  shows "step_ok env z s (fst (store_manifest env fail now p data s))"
proof -
  obtain fs' res where put: "Put (oe_hash env) (oe_enc env) fail \<lparr>rd_segs = [data], rd_end = IoEOF, rd_eager = False\<rparr> (od_fs s) = (fs', res)" by fastforce
  note ok = Put_keeps(1) [OF assms put]
  show ?thesis
    using with_db_ok [OF ok] ok put step_ok_refl [OF assms(2)]
    by (auto simp: store_manifest_def split: sum.split dest: LinkOCIBlob_links)
qed

lemma layer_doc_small: "codec_ok env z \<Longrightarrow> layer_doc (oe_image env) es = Inr (data, i) \<Longrightarrow> fits data"
  by (auto simp: layer_doc_def codec_ok_def split: option.splits)

lemma imageBase_small: "codec_ok env z \<Longrightarrow> imageBase (oe_image env) arch = Inr (data, i) \<Longrightarrow> fits data"
  by (auto simp: imageBase_def joinLayers_def layer_doc_small split: sum.splits)

lemma binary_layer_small: "codec_ok env z \<Longrightarrow> binary_layer (oe_image env) c sz name = Inr (data, i) \<Longrightarrow> fits data"
  by (auto simp: binary_layer_def layer_doc_small split: if_splits)

lemma document_small:
  "codec_ok env z \<Longrightarrow> fits (ociCreateConfig (oe_image env) os arch ids entry user)"
  "codec_ok env z \<Longrightarrow> fits (ociCreateManifest (oe_image env) config layers)"
  by (simp_all add: ociCreateConfig_def ociCreateManifest_def codec_ok_def)

lemma syn_value_Inr: "syn_value what r s = (s', Inr x) \<longleftrightarrow> s' = s \<and> r = Inr x"
  by (auto simp: syn_value_def split: sum.splits)

lemma Repackage_ok:
  assumes "codec_ok env z" "oci_inv env z s"
  shows "step_ok env z s (fst (OCI_Repackage env sl now p rl pa input sz s))"
  unfolding OCI_Repackage_def Let_def
  by (auto simp: assms document_small [OF assms(1)] syn_value_Inr intro!: and_then_ok store_part_ok store_manifest_ok step_ok_refl dest: step_ok_inv
      imageBase_small [OF assms(1)] binary_layer_small [OF assms(1)])

lemma platformEntry_ok:
  assumes "codec_ok env z" "oci_inv env z s"
  shows "step_ok env z s (fst (platformEntry env sl now p rl pa s))"
proof -
  have "step_ok env z s (fst (GenerateForPlatform env sl now p rl pa s))"
    using Repackage_ok [OF assms] step_ok_refl [OF assms(2)] by (auto simp: GenerateForPlatform_def split: sum.split)
  then show ?thesis
    unfolding platformEntry_def by (rule and_then_ok) (auto simp: Let_def intro: step_ok_refl step_ok_inv)
qed

lemma index_entries_ok:
  assumes "codec_ok env z"
  shows "oci_inv env z s \<Longrightarrow> step_ok env z s (fst (index_entries env syn i now p rl pas s))"
proof (induction pas arbitrary: i s)
  case (Cons pa pas)
  obtain s1 res where e: "platformEntry env (syn i) now p rl pa s = (s1, res)" by fastforce
  with platformEntry_ok [OF assms Cons.prems, of "syn i" now p rl pa] have s1: "step_ok env z s s1" by simp
  from step_ok_trans [OF s1 Cons.IH [OF step_ok_inv [OF s1], of "Suc i"]] s1 e Cons.IH [OF Cons.prems]
  show ?case by (auto split: sum.split syn_fail.split prod.split)
qed (simp add: step_ok_refl)

lemma index_entries_refuses: "index_entries env syn i now p rl pas s = (s', Inl reply) \<Longrightarrow> reply \<noteq> OciServe hs body"
  by (induction pas arbitrary: i s) (auto split: if_splits prod.splits sum.splits syn_fail.splits)

lemma index_entries_silent: "index_entries env syn i now p rl pas s = (s', Inl reply) \<Longrightarrow> \<not> acknowledges reply g"
  by (induction pas arbitrary: i s) (auto split: if_splits prod.splits sum.splits syn_fail.splits)

lemma persist_ok:
  assumes "codec_ok env z" "oci_inv env z s" "fits data"
  shows "step_ok env z s (fst (persistManifestBlob env lk now pid data media s))"
proof -
  obtain fs' res where put: "Put (oe_hash env) (oe_enc env) (lk_put lk) \<lparr>rd_segs = [data], rd_end = IoEOF, rd_eager = False\<rparr> (od_fs s) = (fs', res)" by fastforce
  note ok = Put_keeps(1) [OF assms put]
  show ?thesis
    using with_db_ok [OF ok] ok put by (auto simp: persistManifestBlob_def split: sum.split dest: LinkOCIBlob_links)
qed

lemma serveIndex_silent: "\<not> acknowledges (snd (serveIndex env lk now p m rl s)) g"
proof -
  obtain s1 res where e: "index_entries env (lk_syn lk) 0 now p rl (ListArtifactsByPlatform (r_id rl) (od_db s)) s = (s1, res)" by fastforce
  have "\<not> acknowledges (serveSingleManifest env lk m entry s1) g" for entry by (auto simp: serveSingleManifest_def split: sum.split)
  with e show ?thesis
    by (auto simp: serveIndex_def Let_def split: sum.split list.split prod.split bool.split dest: index_entries_silent)
qed

lemma serveIndex_good:
  assumes "codec_ok env z" "oci_inv env z s"
  shows "good env z p s (serveIndex env lk now p m rl s)"
proof -
  obtain s1 res where e: "index_entries env (lk_syn lk) 0 now p rl (ListArtifactsByPlatform (r_id rl) (od_db s)) s = (s1, res)" by fastforce
  with index_entries_ok [OF assms, of "lk_syn lk" 0 now p rl] have s1: "step_ok env z s s1" by (metis fst_conv)
  have index: "step_ok env z s s2" if "persistManifestBlob env lk now (p_id p) (ie_manifest_json (oe_image env) x) ociIndexType s1 = (s2, b)" for x s2 b
    using step_ok_trans [OF s1 persist_ok [OF assms(1) step_ok_inv [OF s1]], of "ie_manifest_json (oe_image env) x" lk now "p_id p" ociIndexType] that assms(1)
    by (simp add: codec_ok_def)
  show ?thesis
    using e s1 index serveIndex_silent [of env lk now p m rl s]
    by (auto simp: good_def serveIndex_def Let_def split: sum.split list.split prod.split bool.split)
qed

lemma serve_silent: "\<not> acknowledges (serveManifestByDigest env lk p m digest s) g" "\<not> acknowledges (serveBlob env lk p m digest s) g"
  by (auto simp: serveManifestByDigest_def serveBlob_def split: sum.split prod.split)

lemma serveManifest_silent: "\<not> acknowledges (snd (serveManifest env lk now p m ref s)) g"
  using serve_silent serveIndex_silent by (auto simp: serveManifest_def split: sum.split option.split)

lemma ServeHTTP_good:
  assumes "codec_ok env z" "oci_inv env z s"
  shows "good env z p s (oci_ServeHTTP env lk now ctx p rt r s)"
proof -
  have silent: "(\<And>g. \<not> acknowledges reply g) \<Longrightarrow> good env z p s (s, reply)" for reply by (intro good_silent step_ok_refl assms(2))
  have "good env z p s (serveManifest env lk now p m ref s)" for m ref
    using silent serve_silent serveIndex_good [OF assms] by (auto simp: serveManifest_def split: sum.split option.split)
  then show ?thesis
    using silent StartBlobUpload_good [OF assms] PatchBlobUpload_good [OF assms(2)] PutBlobUpload_good [OF assms]
      GetBlobUploadStatus_good [OF assms(2)] PutManifest_good [OF assms] serve_silent
    by (auto simp: oci_ServeHTTP_def Let_def serveTags_def)
qed

section \<open>What a client may rely on\<close>

text \<open>A digest that can be pulled: without a failure of the disk, both endpoints answer with bytes that have it.\<close>

definition answers :: "oci_env \<Rightarrow> string \<Rightarrow> oci_reply \<Rightarrow> bool" where
  "answers env g reply \<longleftrightarrow> (\<exists>hs c. reply = OciServe hs (Some c) \<and> digest_of (oe_hash env) c = g)"

definition pullable :: "oci_env \<Rightarrow> project \<Rightarrow> string \<Rightarrow> oci_state \<Rightarrow> bool" where
  "pullable env p g s \<longleftrightarrow> (\<forall>lk m. lk_get lk = None \<longrightarrow> m \<noteq> ''HEAD'' \<longrightarrow>
     answers env g (serveBlob env lk p m g s) \<and> answers env g (serveManifestByDigest env lk p m g s))"

lemma pullable_if:
  assumes "oci_inv env z s" "validDigest g" "BlobBelongsToProject (p_id p) (drop 7 g) (od_db s)" "file_at (od_fs s) (drop 7 g) \<noteq> None"
  shows "pullable env p g s"
proof -
  from assms(2) have p: "take 7 g = ''sha256:''" and v: "validStorageKey (drop 7 g)" by (auto simp: validDigest_def has_prefix_def eval_nat_numeral)
  from append_take_drop_id [of 7 g] have g: "g = ''sha256:'' @ drop 7 g" unfolding p by (rule sym)
  obtain m where m: "file_at (od_fs s) (drop 7 g) = Some m" using assms(4) by auto
  with assms(1) v obtain c where c: "stored_as (oe_dec env) m c" "hex_encode (oe_hash env c) = drop 7 g"
    unfolding oci_inv_def store_inv_def by blast
  have d: "digest_of (oe_hash env) c = g" unfolding digest_of_def c(2) by (rule g [symmetric])
  from GetBlob_None [OF c(1) v m] assms(2,3) d show ?thesis
    by (simp add: pullable_def answers_def serveBlob_def serveManifestByDigest_def head_body_def)
qed

lemma acked_pullable: "oci_inv env z s \<Longrightarrow> acked p g s \<Longrightarrow> pullable env p g s"
  by (rule pullable_if) (auto simp: acked_def links_def BlobBelongsToProject_def list_ex_iff)

lemma acked_kept: "acked p g s \<Longrightarrow> kept s s' \<Longrightarrow> acked p g s'"
  by (auto simp: acked_def kept_def validDigest_def)

type_synonym oci_call = "oci_luck \<times> time \<times> auth_ctx \<times> project \<times> oci_route \<times> oci_request"

fun oci_step :: "oci_env \<Rightarrow> oci_state \<Rightarrow> oci_call \<Rightarrow> oci_state" where
  "oci_step env s (lk, now, ctx, p, rt, r) = fst (oci_ServeHTTP env lk now ctx p rt r s)"

definition oci_run :: "oci_env \<Rightarrow> oci_call list \<Rightarrow> oci_state \<Rightarrow> oci_state" where
  "oci_run env calls s = foldl (oci_step env) s calls"

text \<open>Whatever is asked, the state stays in order and nothing is lost since \<open>s0\<close>.\<close>

interpretation oci: guarded_system "oci_step env" "step_ok env z s0" "\<lambda>_. codec_ok env z" for env z s0
proof unfold_locales
  fix e :: oci_call and s
  assume "codec_ok env z" "step_ok env z s0 s"
  then show "step_ok env z s0 (oci_step env s e)"
    using ServeHTTP_good [OF _ step_ok_inv] step_ok_trans by (cases e) (force simp: good_def)
qed

lemma oci_run_ok: "codec_ok env z \<Longrightarrow> oci_inv env z s \<Longrightarrow> step_ok env z s (oci_run env calls s)"
  unfolding oci_run_def by (intro oci.guarded_run step_ok_refl) simp_all

lemma SetOCITag_get: "SetOCITag pid tag g rid d = Inr d' \<Longrightarrow> \<exists>t. GetOCITag pid tag d' = Inr t \<and> ot_manifest_digest t = g"
proof -
  assume a: "SetOCITag pid tag g rid d = Inr d'"
  let ?P = "\<lambda>t. ot_project_id t = pid \<and> ot_tag t = tag"
  have "\<exists>t. find_first ?P (d_oci_tags d') = Some t \<and> ot_manifest_digest t = g"
  proof (cases "list_ex ?P (d_oci_tags d)")
    case True
    let ?f = "\<lambda>t. if ?P t then t\<lparr>ot_manifest_digest := g, ot_release_id := rid\<rparr> else t"
    have "d_oci_tags d' = map ?f (d_oci_tags d)" using a True by (auto simp: SetOCITag_def UpsertOCITag_def split: if_splits)
    moreover have "find_first ?P (map ?f (d_oci_tags d)) = map_option ?f (find_first ?P (d_oci_tags d))"
      unfolding find_first_map by (intro arg_cong [where f = "map_option ?f"] find_first_cong) auto
    ultimately have "find_first ?P (d_oci_tags d') = map_option ?f (find_first ?P (d_oci_tags d))" by simp
    moreover obtain t where t: "find_first ?P (d_oci_tags d) = Some t" using True find_first_None [of ?P] by (force simp: list_ex_iff)
    moreover from find_first_Some [OF t] have "?f t = t\<lparr>ot_manifest_digest := g, ot_release_id := rid\<rparr>" by simp
    ultimately show ?thesis by simp
  next
    case False
    then have "find_first ?P (d_oci_tags d) = None" by (auto simp: find_first_None list_ex_iff)
    moreover have "d_oci_tags d' = d_oci_tags d @ [\<lparr>ot_project_id = pid, ot_tag = tag, ot_manifest_digest = g, ot_release_id = rid\<rparr>]"
      using a False by (auto simp: SetOCITag_def UpsertOCITag_def split: if_splits)
    ultimately show ?thesis by (simp add: find_first_append)
  qed
  then show ?thesis by (auto simp: GetOCITag_def)
qed

lemma tag_manifest_tags:
  assumes "tag_manifest env lk now p reference index m digest sz fs d = (d', reply)" "acknowledges reply g"
  shows "\<exists>t. GetOCITag (p_id p) reference d' = Inr t \<and> ot_manifest_digest t = g"
  using assms by (auto simp: tag_manifest_def Let_def split: if_splits sum.splits prod.splits bool.splits dest: SetOCITag_get)

lemma PutManifest_tags:
  assumes "PutManifest env lk now p r reference s = (s', reply)" "acknowledges reply g" "\<not> validDigest reference"
  shows "\<exists>t. GetOCITag (p_id p) reference (od_db s') = Inr t \<and> ot_manifest_digest t = g"
  using assms
  by (auto simp: PutManifest_def Let_def split: if_splits option.splits sum.splits prod.splits dest: tag_manifest_tags link_refs_refuses)

text \<open>C15: a push that is acknowledged can be pulled: after any request that answers 201 with a digest, and
  whatever requests follow it, the project serves bytes with that digest, as a blob and as a manifest; a
  manifest pushed under a tag is what the tag gives right away. The store compresses (\<open>codec_ok\<close>): a store that writes blobs as they
  are misreads one that begins with its header.\<close>

theorem push_acknowledged_pullable:
  assumes "codec_ok env z" "oci_inv env z s"
    and "oci_ServeHTTP env lk now ctx p rt r s = (s1, reply)" "acknowledges reply g"
  shows "pullable env p g (oci_run env later s1) \<and>
    (or_action rt = ''manifests'' \<and> \<not> validDigest (or_reference rt) \<longrightarrow>
       (\<forall>lk' now' m. lk_get lk' = None \<longrightarrow> m \<noteq> ''HEAD'' \<longrightarrow> answers env g (snd (serveManifest env lk' now' p m (or_reference rt) s1))))"
proof -
  from ServeHTTP_good [OF assms(1,2), of p lk now ctx rt r] assms(3,4) have s1: "step_ok env z s s1" "acked p g s1" by (simp_all add: good_def)
  note run = oci_run_ok [OF assms(1) step_ok_inv [OF s1(1)], of later]
  have "pullable env p g (oci_run env later s1)"
    using run acked_kept [OF s1(2)] by (intro acked_pullable) (auto simp: step_ok_def)
  moreover have "answers env g (snd (serveManifest env lk' now' p m (or_reference rt) s1))"
    if rt: "or_action rt = ''manifests''" "\<not> validDigest (or_reference rt)" and l: "lk_get lk' = None" "m \<noteq> ''HEAD''" for lk' now' m
  proof -
    have "PutManifest env lk now p r (or_reference rt) s = (s1, reply)"
      using assms(3,4) rt serveManifest_silent [of env lk now p "oq_method r" "or_reference rt" s g] by (auto simp: oci_ServeHTTP_def Let_def split: if_splits)
    from PutManifest_tags [OF this assms(4) rt(2)] obtain t where "GetOCITag (p_id p) (or_reference rt) (od_db s1) = Inr t" "ot_manifest_digest t = g" by blast
    with acked_pullable [OF step_ok_inv [OF s1(1)] s1(2)] l rt(2) show ?thesis by (simp add: serveManifest_def pullable_def)
  qed
  ultimately show ?thesis by blast
qed

section \<open>Images from binaries are complete\<close>

text \<open>A part of an image: a row of an artifact with the key of a blob that is there.\<close>

definition part :: "oci_state \<Rightarrow> int \<Rightarrow> string \<Rightarrow> string \<Rightarrow> bool" where
  "part s aid format key \<longleftrightarrow> validStorageKey key \<and> file_at (od_fs s) key \<noteq> None \<and>
     (\<exists>k \<in> set (d_packaged (od_db s)). k_artifact_id k = aid \<and> k_format k = format \<and> k_storage_key k = key)"

text \<open>Only the rows in \<open>K\<close> may have changed.\<close>

definition same_parts :: "(int \<times> string) set \<Rightarrow> oci_state \<Rightarrow> oci_state \<Rightarrow> bool" where
  "same_parts K s s' \<longleftrightarrow> d_artifacts (od_db s') = d_artifacts (od_db s) \<and> d_releases (od_db s') = d_releases (od_db s) \<and>
     (\<forall>aid format key. (aid, format) \<notin> K \<longrightarrow> part s aid format key \<longrightarrow> part s' aid format key)"

lemma same_parts_refl [simp]: "same_parts K s s"
  by (simp add: same_parts_def)

lemma same_parts_trans: "same_parts K s s' \<Longrightarrow> same_parts K s' s'' \<Longrightarrow> same_parts K s s''"
  by (simp add: same_parts_def)

lemma same_parts_mono: "same_parts K s s' \<Longrightarrow> K \<subseteq> L \<Longrightarrow> same_parts L s s'"
  unfolding same_parts_def by blast

lemma same_parts_keeps: "same_parts K s s' \<Longrightarrow> part s aid format key \<Longrightarrow> (aid, format) \<notin> K \<Longrightarrow> part s' aid format key"
  by (simp add: same_parts_def)

lemma store_part_parts:
  assumes "codec_ok env z" "oci_inv env z s" "fits data" "0 < a_id a" "a_id a \<in> a_id ` set (d_artifacts (od_db s))"
  shows "same_parts {(a_id a, format)} s (fst (store_part env sl i now a format filename data s))"
    "store_part env sl i now a format filename data s = (s', Inr x) \<Longrightarrow> part s' (a_id a) format (fst x)"
proof -
  obtain fs' res where put: "Put (oe_hash env) (oe_enc env) (sl_put sl i) \<lparr>rd_segs = [data], rd_end = IoEOF, rd_eager = False\<rparr> (od_fs s) = (fs', res)" by fastforce
  note stored = Put_keeps [OF assms(1-3) put]
  have keep: "validStorageKey k \<Longrightarrow> file_at (od_fs s) k \<noteq> None \<Longrightarrow> file_at fs' k \<noteq> None" for k using stored(1) by (auto simp: step_ok_def kept_def)
  have row: "fst (CreatePackagedArtifact now n k (od_db s)) = (od_db s)\<lparr>d_packaged :=
      filter (\<lambda>q. \<not> (k_artifact_id q = k_artifact_id k \<and> k_format q = k_format k)) (d_packaged (od_db s)) @ [k\<lparr>k_id := n, k_created_at := now\<rparr>]\<rparr>"
    if "k_artifact_id k = a_id a" for n and k :: packaged_artifact
    using assms(5) that by (auto simp: CreatePackagedArtifact_def exec_def UpsertPackagedArtifact_def list_ex_iff)
  show "same_parts {(a_id a, format)} s (fst (store_part env sl i now a format filename data s))"
    using put keep row assms(4) by (auto simp: same_parts_def part_def store_part_def split: sum.split)
  show "store_part env sl i now a format filename data s = (s', Inr x) \<Longrightarrow> part s' (a_id a) format (fst x)"
    using put row assms(4) stored(2) by (auto simp: part_def store_part_def split: sum.splits)
qed

lemma store_manifest_parts:
  assumes "codec_ok env z" "oci_inv env z s" "fits data"
  shows "same_parts {} s (fst (store_manifest env fail now p data s))"
    "store_manifest env fail now p data s = (s', Inr x) \<Longrightarrow> 0 < p_id p \<Longrightarrow> x = data \<and> acked p (digest_of (oe_hash env) data) s'"
proof -
  obtain fs' res where put: "Put (oe_hash env) (oe_enc env) fail \<lparr>rd_segs = [data], rd_end = IoEOF, rd_eager = False\<rparr> (od_fs s) = (fs', res)" by fastforce
  note stored = Put_keeps [OF assms put]
  have keep: "validStorageKey k \<Longrightarrow> file_at (od_fs s) k \<noteq> None \<Longrightarrow> file_at fs' k \<noteq> None" for k using stored(1) by (auto simp: step_ok_def kept_def)
  have link: "d_artifacts d' = d_artifacts d \<and> d_releases d' = d_releases d \<and> d_packaged d' = d_packaged d"
    if "LinkOCIBlob now pid key media n man d = Inr d'" for pid key media n man d d'
    using that by (auto simp: LinkOCIBlob_def InsertOCIBlobLink_def split: if_splits)
  show "same_parts {} s (fst (store_manifest env fail now p data s))"
    using put keep by (auto simp: same_parts_def part_def store_manifest_def split: sum.split dest!: link)
  show "x = data \<and> acked p (digest_of (oe_hash env) data) s'" if run: "store_manifest env fail now p data s = (s', Inr x)" "0 < p_id p"
  proof -
    obtain key n d' where m: "res = Inr (key, n)" "LinkOCIBlob now (p_id p) key imageManifestType n True (od_db s) = Inr d'" "s' = s\<lparr>od_fs := fs', od_db := d'\<rparr>" "x = data"
      using run put by (auto simp: store_manifest_def split: sum.splits)
    show ?thesis using stored(2) [OF m(1)] LinkOCIBlob_links [OF m(2)] m(3,4) digest_key by (auto simp: acked_def digest_of_def)
  qed
qed

lemma and_then_Inr: "and_then r f = (s', Inr y) \<longleftrightarrow> (\<exists>s1 x. r = (s1, Inr x) \<and> f x s1 = (s', Inr y))"
  by (cases r; cases "snd r") (auto simp: and_then_def)

definition image_rows :: "platform_artifact \<Rightarrow> (int \<times> string) set" where
  "image_rows pa = (\<lambda>f. (a_id (pa_artifact pa), f @ pa_cache_suffix pa)) ` {''oci-base-layer'', ''oci-layer'', ''oci-config''}"

text \<open>The manifest with digest \<open>g\<close> is linked to the project, and its config and layers are parts of the artifact.\<close>

definition image_at :: "oci_env \<Rightarrow> project \<Rightarrow> platform_artifact \<Rightarrow> string \<Rightarrow> oci_state \<Rightarrow> bool" where
  "image_at env p pa g s \<longleftrightarrow> acked p g s \<and>
     (\<exists>config base bin. g = digest_of (oe_hash env) (ociCreateManifest (oe_image env) config [base, bin]) \<and>
        part s (a_id (pa_artifact pa)) (''oci-config'' @ pa_cache_suffix pa) (fst config) \<and>
        part s (a_id (pa_artifact pa)) (''oci-base-layer'' @ pa_cache_suffix pa) (fst base) \<and>
        part s (a_id (pa_artifact pa)) (''oci-layer'' @ pa_cache_suffix pa) (fst bin))"

lemma image_at_keeps:
  assumes "image_at env p pa g s" "same_parts K s s'" "kept s s'" "image_rows pa \<inter> K = {}"
  shows "image_at env p pa g s'"
proof -
  have "part s' (a_id (pa_artifact pa)) (f @ pa_cache_suffix pa) key"
    if "part s (a_id (pa_artifact pa)) (f @ pa_cache_suffix pa) key" "f \<in> {''oci-base-layer'', ''oci-layer'', ''oci-config''}" for f key
  proof (rule same_parts_keeps [OF assms(2) that(1)])
    from that(2) have "(a_id (pa_artifact pa), f @ pa_cache_suffix pa) \<in> image_rows pa" unfolding image_rows_def by (rule imageI)
    with assms(4) show "(a_id (pa_artifact pa), f @ pa_cache_suffix pa) \<notin> K" by blast
  qed
  with assms(1) acked_kept [OF _ assms(3)] show ?thesis unfolding image_at_def by blast
qed

text \<open>What a synthesis leaves behind.\<close>

definition artifact_known :: "platform_artifact \<Rightarrow> oci_state \<Rightarrow> bool" where
  "artifact_known pa s \<longleftrightarrow> 0 < a_id (pa_artifact pa) \<and> a_id (pa_artifact pa) \<in> a_id ` set (d_artifacts (od_db s))"

lemma artifact_known_same: "same_parts K s s' \<Longrightarrow> artifact_known pa s' = artifact_known pa s"
  by (simp add: same_parts_def artifact_known_def)

lemma store_step:
  assumes "codec_ok env z" "oci_inv env z s" "fits data" "artifact_known pa s"
    and "store_part env sl i now (pa_artifact pa) format filename data s = (s', x)"
  shows "step_ok env z s s'" "same_parts {(a_id (pa_artifact pa), format)} s s'" "artifact_known pa s'"
    "x = Inr y \<Longrightarrow> part s' (a_id (pa_artifact pa)) format (fst y)"
proof -
  have a: "0 < a_id (pa_artifact pa)" "a_id (pa_artifact pa) \<in> a_id ` set (d_artifacts (od_db s))" using assms(4) by (simp_all add: artifact_known_def)
  show "step_ok env z s s'" using store_part_ok [OF assms(1-3), of sl i now "pa_artifact pa" format filename] assms(5) by simp
  show same: "same_parts {(a_id (pa_artifact pa), format)} s s'" using store_part_parts(1) [OF assms(1-3) a, of format sl i now filename] assms(5) by simp
  show "artifact_known pa s'" using artifact_known_same [OF same] assms(4) by simp
  show "x = Inr y \<Longrightarrow> part s' (a_id (pa_artifact pa)) format (fst y)" using store_part_parts(2) [OF assms(1-3) a] assms(5) by simp
qed

lemma Repackage_image:
  assumes "codec_ok env z" "oci_inv env z s" "artifact_known pa s" "0 < p_id p"
    and "OCI_Repackage env sl now p rl pa input sz s = (s', Inr data)"
  shows "same_parts (image_rows pa) s s'" "image_at env p pa (digest_of (oe_hash env) data) s'"
proof -
  let ?a = "pa_artifact pa" and ?ie = "oe_image env" and ?suf = "pa_cache_suffix pa"
  obtain base baseID s1 bd c bin binID s2 nd s3 cd where c:
      "imageBase ?ie (a_arch ?a) = Inr (base, baseID)"
      "store_part env sl 0 now ?a (''oci-base-layer'' @ ?suf) ''base-layer.tar.zst'' base s = (s1, Inr bd)"
      "binary_layer ?ie c sz (p_name p) = Inr (bin, binID)"
      "store_part env sl 1 now ?a (''oci-layer'' @ ?suf) ''layer.tar.zst'' bin s1 = (s2, Inr nd)"
      "store_part env sl 2 now ?a (''oci-config'' @ ?suf) ''config.json''
         (ociCreateConfig ?ie (a_os ?a) (a_arch ?a) [baseID, binID] [''/'' @ p_name p] (r_oci_user rl)) s2 = (s3, Inr cd)"
      "store_manifest env (sl_put sl 3) now p (ociCreateManifest ?ie cd [bd, nd]) s3 = (s', Inr data)"
    using assms(5) by (auto simp: OCI_Repackage_def Let_def and_then_Inr syn_value_Inr simp del: append_Cons split: if_splits)
  note 1 = store_step [OF assms(1,2) imageBase_small [OF assms(1) c(1)] assms(3) c(2)]
  note 2 = store_step [OF assms(1) step_ok_inv [OF 1(1)] binary_layer_small [OF assms(1) c(3)] 1(3) c(4)]
  note 3 = store_step [OF assms(1) step_ok_inv [OF 2(1)] document_small(1) [OF assms(1)] 2(3) c(5)]
  note m = store_manifest_parts [OF assms(1) step_ok_inv [OF 3(1)] document_small(2) [OF assms(1)]]
  have 4: "same_parts {} s3 s'" using m(1) [of "sl_put sl 3" now p cd "[bd, nd]"] c(6) by simp
  have rows: "{(a_id ?a, f @ ?suf)} \<subseteq> image_rows pa" if "f \<in> {''oci-base-layer'', ''oci-layer'', ''oci-config''}" for f
    using that unfolding image_rows_def by blast
  show "same_parts (image_rows pa) s s'"
    by (rule same_parts_trans [OF same_parts_mono [OF 1(2)] same_parts_trans [OF same_parts_mono [OF 2(2)]
          same_parts_trans [OF same_parts_mono [OF 3(2)] same_parts_mono [OF 4]]]]; (rule rows, simp)?) simp
  have "part s' (a_id ?a) (''oci-base-layer'' @ ?suf) (fst bd)"
    by (intro same_parts_keeps [OF 4] same_parts_keeps [OF 3(2)] same_parts_keeps [OF 2(2)] 1(4) refl) simp_all
  moreover have "part s' (a_id ?a) (''oci-layer'' @ ?suf) (fst nd)"
    by (intro same_parts_keeps [OF 4] same_parts_keeps [OF 3(2)] 2(4) refl) simp_all
  moreover have "part s' (a_id ?a) (''oci-config'' @ ?suf) (fst cd)"
    by (intro same_parts_keeps [OF 4] 3(4) refl) simp_all
  ultimately show "image_at env p pa (digest_of (oe_hash env) data) s'"
    using m(2) [OF c(6) assms(4)] unfolding image_at_def by blast
qed

lemma platformEntry_image:
  assumes "codec_ok env z" "oci_inv env z s" "artifact_known pa s" "0 < p_id p"
    and "platformEntry env sl now p rl pa s = (s', Inr e)"
  shows "same_parts (image_rows pa) s s'" "image_at env p pa (de_digest e) s'" "de_platform e = Some (a_os (pa_artifact pa), a_arch (pa_artifact pa))"
proof -
  obtain input sz data where g: "OCI_Repackage env sl now p rl pa input sz s = (s', Inr data)"
    "e = \<lparr>de_media_type = imageManifestType, de_digest = digest_of (oe_hash env) data, de_size = int (length data),
       de_platform = Some (a_os (pa_artifact pa), a_arch (pa_artifact pa))\<rparr>"
    using assms(5) by (auto simp: platformEntry_def GenerateForPlatform_def and_then_Inr Let_def split: if_splits sum.splits)
  from Repackage_image [OF assms(1-4) g(1)] g(2) show "same_parts (image_rows pa) s s'" "image_at env p pa (de_digest e) s'"
    "de_platform e = Some (a_os (pa_artifact pa), a_arch (pa_artifact pa))" by simp_all
qed

definition image_key :: "platform_artifact \<Rightarrow> int \<times> string" where
  "image_key pa = (a_id (pa_artifact pa), pa_cache_suffix pa)"

lemma image_rows_disjoint: "image_key pa \<noteq> image_key qa \<Longrightarrow> image_rows pa \<inter> image_rows qa = {}"
  by (auto simp: image_rows_def image_key_def)

abbreviation applicable :: "platform_artifact list \<Rightarrow> platform_artifact list" where
  "applicable pas \<equiv> filter (\<lambda>pa. oci_Applicable (pa_artifact pa)) pas"

text \<open>The entries of an index: one image for each applicable platform, and none is lost to a later one.\<close>

lemma index_entries_images:
  assumes "codec_ok env z" "0 < p_id p"
  shows "oci_inv env z s \<Longrightarrow> (\<forall>pa \<in> set pas. artifact_known pa s) \<Longrightarrow> distinct (map image_key (applicable pas)) \<Longrightarrow>
    index_entries env syn i now p rl pas s = (s', Inr es) \<Longrightarrow>
    same_parts (\<Union>pa \<in> set (applicable pas). image_rows pa) s s' \<and>
    list_all2 (\<lambda>pa e. de_platform e = Some (a_os (pa_artifact pa), a_arch (pa_artifact pa)) \<and> image_at env p pa (de_digest e) s') (applicable pas) es"
proof (induction pas arbitrary: i s es)
  case (Cons pa pas)
  show ?case
  proof (cases "oci_Applicable (pa_artifact pa)")
    case True
    obtain s1 e es' where e: "platformEntry env (syn i) now p rl pa s = (s1, Inr e)" "index_entries env syn (i + 1) now p rl pas s1 = (s', Inr es')" "es = e # es'"
      using Cons.prems(4) True by (auto split: prod.splits sum.splits syn_fail.splits)
    have s1: "step_ok env z s s1" using platformEntry_ok [OF assms(1) Cons.prems(1), of "syn i" now p rl pa] e(1) by simp
    have s2: "step_ok env z s1 s'" using index_entries_ok [OF assms(1) step_ok_inv [OF s1], of syn "i + 1" now p rl pas] e(2) by simp
    from Cons.prems(2) have known: "artifact_known pa s" by simp
    note head = platformEntry_image [OF assms(1) Cons.prems(1) known assms(2) e(1)]
    have tail: "\<forall>qa \<in> set pas. artifact_known qa s1" using Cons.prems(2) artifact_known_same [OF head(1)] by simp
    from Cons.prems(3) True have d: "distinct (map image_key (applicable pas))" "\<forall>qa \<in> set (applicable pas). image_key pa \<noteq> image_key qa" by auto
    note rest = Cons.IH [OF step_ok_inv [OF s1] tail d(1) e(2)]
    have "image_rows pa \<inter> (\<Union>qa \<in> set (applicable pas). image_rows qa) = {}" using d(2) image_rows_disjoint by blast
    with image_at_keeps [OF head(2)] rest s2 have "image_at env p pa (de_digest e) s'" by (auto simp: step_ok_def)
    moreover have "same_parts (\<Union>qa \<in> set (applicable (pa # pas)). image_rows qa) s s'"
      using True rest by (intro same_parts_trans [OF same_parts_mono [OF head(1)] same_parts_mono]) auto
    ultimately show ?thesis using True rest head(3) e(3) by simp
  next
    case False
    with Cons show ?thesis by simp
  qed
qed simp

text \<open>The platforms of a release have different keys.\<close>

lemma artifact_slots_distinct:
  assumes "ids_ok d" "slots_ok d" "a \<in> set (d_artifacts d)"
  shows "distinct (map snd (filter (\<lambda>(i, p). i = a_id a) (ListArtifactPlatformsByRelease rid d)))"
proof -
  let ?xs = "filter (\<lambda>x. ap_artifact_id x = a_id a) (sort_key ap_artifact_id (sort_key ap_ordinal (filter (\<lambda>x. ap_release_id x = rid) (d_platforms d))))"
  have dist: "distinct (map slot_of (d_platforms d))" using assms(2) by (simp add: slots_ok_def)
  have slot: "slot_of x = (a_release_id a, a_kind a, platform_of x)" if x: "x \<in> set (d_platforms d)" "ap_artifact_id x = a_id a" for x
  proof -
    obtain b where "b \<in> set (d_artifacts d)" "a_id b = ap_artifact_id x" "a_release_id b = ap_release_id x" "a_kind b = ap_kind x"
      using assms(2) x(1) by (auto simp: slots_ok_def)
    moreover from this(1,2) have "b = a" using assms(1,3) x(2) by (auto simp: ids_ok_def distinct_map dest: inj_onD)
    ultimately show ?thesis by (simp add: slot_of_def)
  qed
  have "inj_on platform_of (set ?xs)"
  proof (rule inj_onI)
    fix x y
    assume xy: "x \<in> set ?xs" "y \<in> set ?xs" "platform_of x = platform_of y"
    then have "slot_of x = slot_of y" using slot by simp
    with xy(1,2) dist show "x = y" by (auto simp: distinct_map dest: inj_onD)
  qed
  moreover have "distinct ?xs" using dist by (simp add: distinct_map)
  ultimately have "distinct (map platform_of ?xs)" by (simp add: distinct_map)
  moreover have "map snd (filter (\<lambda>(i, p). i = a_id a) (ListArtifactPlatformsByRelease rid d)) = map platform_of ?xs"
    by (simp add: ListArtifactPlatformsByRelease_def filter_map comp_def)
  ultimately show ?thesis by simp
qed

lemma newPlatform_fields:
  "a_id (pa_artifact (newPlatformArtifact a q)) = a_id a" "a_os (pa_artifact (newPlatformArtifact a q)) = plat_os q"
  "pa_cache_suffix (newPlatformArtifact a q) = (if q = own_platform a then [] else ''@'' @ platform_string q)"
  by (auto simp: newPlatformArtifact_def own_platform_def)

lemma distinct_concat_tagged:
  "distinct (map g xs) \<Longrightarrow> (\<And>x. x \<in> set xs \<Longrightarrow> distinct (f x)) \<Longrightarrow> (\<And>x y. y \<in> set (f x) \<Longrightarrow> fst y = g x) \<Longrightarrow> distinct (concat (map f xs))"
proof (induction xs)
  case (Cons x xs)
  have "set (f x) \<inter> set (concat (map f xs)) = {}" using Cons.prems(1,3) by fastforce
  with Cons show ?case by simp
qed simp

lemma image_keys_distinct:
  assumes "ids_ok d" "slots_ok d"
  shows "distinct (map image_key (applicable (ListArtifactsByPlatform rid d)))"
proof -
  let ?ps = "\<lambda>a. map snd (filter (\<lambda>(i, p). i = a_id a) (ListArtifactPlatformsByRelease rid d))"
  let ?own = "\<lambda>a. map image_key (applicable (map (newPlatformArtifact a) (?ps a)))"
  have eq: "map image_key (applicable (ListArtifactsByPlatform rid d)) = concat (map ?own (ListArtifacts rid d))"
    by (simp add: ListArtifactsByPlatform_def ListArtifactsWithPlatforms_def filter_concat map_concat comp_def)
  have own: "distinct (?own a)" if "a \<in> set (ListArtifacts rid d)" for a
  proof -
    have ps: "distinct (?ps a)" using artifact_slots_distinct [OF assms] that by (simp add: ListArtifacts_def ListArtifactsByRelease_def)
    have "inj_on (image_key \<circ> newPlatformArtifact a) {q. oci_Applicable (pa_artifact (newPlatformArtifact a q))}"
      by (auto simp: inj_on_def image_key_def newPlatform_fields oci_Applicable_def platform_string_def split: if_splits)
    then have "inj_on (image_key \<circ> newPlatformArtifact a) (set (filter (\<lambda>q. oci_Applicable (pa_artifact (newPlatformArtifact a q))) (?ps a)))"
      by (rule inj_on_subset) auto
    with ps have "distinct (map (image_key \<circ> newPlatformArtifact a) (filter (\<lambda>q. oci_Applicable (pa_artifact (newPlatformArtifact a q))) (?ps a)))"
      by (simp add: distinct_map)
    then show ?thesis by (simp add: filter_map comp_def)
  qed
  have "distinct (map a_id (ListArtifacts rid d))"
    using assms(1) by (simp add: ids_ok_def ListArtifacts_def ListArtifactsByRelease_def distinct_map_filter)
  moreover have "fst k = a_id a" if "k \<in> set (?own a)" for a k using that by (auto simp: image_key_def newPlatform_fields)
  ultimately show ?thesis unfolding eq using own by (intro distinct_concat_tagged)
qed

text \<open>Without a failure of the disk, an image is made whenever its layers can be.\<close>

lemma store_part_succeeds:
  assumes "sl_put sl i = None"
  obtains s' x where "store_part env sl i now a format filename data s = (s', Inr x)" "d_projects (od_db s') = d_projects (od_db s)"
proof -
  let ?r = "\<lparr>rd_segs = [data], rd_end = IoEOF, rd_eager = False\<rparr>"
  obtain fs' res where put: "Put (oe_hash env) (oe_enc env) (sl_put sl i) ?r (od_fs s) = (fs', res)" by fastforce
  with Put_error_reason [of "oe_hash env" "oe_enc env" "sl_put sl i" ?r "od_fs s" fs'] assms obtain key n where "res = Inr (key, n)" by (cases res) auto
  moreover have "d_projects (fst (CreatePackagedArtifact now j k d)) = d_projects d" for j k d
    by (auto simp: CreatePackagedArtifact_def exec_def UpsertPackagedArtifact_def split: sum.split)
  ultimately have "\<exists>s' x. store_part env sl i now a format filename data s = (s', Inr x) \<and> d_projects (od_db s') = d_projects (od_db s)"
    using put by (simp add: store_part_def)
  with that show thesis by blast
qed

lemma store_manifest_succeeds:
  assumes "p_id p \<in> p_id ` set (d_projects (od_db s))"
  obtains s' x where "store_manifest env None now p data s = (s', Inr x)"
proof -
  let ?r = "\<lparr>rd_segs = [data], rd_end = IoEOF, rd_eager = False\<rparr>"
  obtain fs' res where put: "Put (oe_hash env) (oe_enc env) None ?r (od_fs s) = (fs', res)" by fastforce
  with Put_error_reason [of "oe_hash env" "oe_enc env" None ?r "od_fs s" fs'] obtain key n where r: "res = Inr (key, n)" by (cases res) auto
  have "\<exists>d'. LinkOCIBlob now (p_id p) key imageManifestType n True (od_db s) = Inr d'"
    using assms by (auto simp: LinkOCIBlob_def InsertOCIBlobLink_def list_ex_iff)
  then obtain d' where "LinkOCIBlob now (p_id p) key imageManifestType n True (od_db s) = Inr d'" ..
  then show thesis using put r by (cases "0 < p_id p") (auto simp: store_manifest_def intro: that)
qed

lemma Repackage_succeeds:
  assumes "a_os (pa_artifact pa) \<noteq> []" "a_arch (pa_artifact pa) \<noteq> []" "imageBase (oe_image env) (a_arch (pa_artifact pa)) = Inr b"
    "(if peekAPE c then apeAsELF c (a_arch (pa_artifact pa)) else Inr c) = Inr c'" "binary_layer (oe_image env) c' sz (p_name p) = Inr l"
    "\<And>i. sl_put sl i = None" "p_id p \<in> p_id ` set (d_projects (od_db s))"
  obtains s' data where "OCI_Repackage env sl now p rl pa (Some c) sz s = (s', Inr data)"
proof -
  let ?a = "pa_artifact pa" and ?ie = "oe_image env" and ?suf = "pa_cache_suffix pa"
  let ?config = "ociCreateConfig ?ie (a_os ?a) (a_arch ?a) [snd b, snd l] [''/'' @ p_name p] (r_oci_user rl)"
  obtain s1 bd where 1: "store_part env sl 0 now ?a (''oci-base-layer'' @ ?suf) ''base-layer.tar.zst'' (fst b) s = (s1, Inr bd)" "d_projects (od_db s1) = d_projects (od_db s)"
    by (rule store_part_succeeds [OF assms(6)])
  obtain s2 nd where 2: "store_part env sl 1 now ?a (''oci-layer'' @ ?suf) ''layer.tar.zst'' (fst l) s1 = (s2, Inr nd)" "d_projects (od_db s2) = d_projects (od_db s1)"
    by (rule store_part_succeeds [OF assms(6)])
  obtain s3 cd where 3: "store_part env sl 2 now ?a (''oci-config'' @ ?suf) ''config.json'' ?config s2 = (s3, Inr cd)" "d_projects (od_db s3) = d_projects (od_db s2)"
    by (rule store_part_succeeds [OF assms(6)])
  have "p_id p \<in> p_id ` set (d_projects (od_db s3))" using assms(7) 1(2) 2(2) 3(2) by simp
  then obtain s' data where 4: "store_manifest env None now p (ociCreateManifest ?ie cd [bd, nd]) s3 = (s', Inr data)"
    by (rule store_manifest_succeeds)
  from assms(1-6) 1(1) 2(1) 3(1) 4 have "OCI_Repackage env sl now p rl pa (Some c) sz s = (s', Inr data)"
    by (auto simp: OCI_Repackage_def Let_def and_then_def syn_value_def split_beta simp del: append_Cons)
  then show thesis by (rule that)
qed

text \<open>An image a client can pull whole: the manifest, its config and its layers.\<close>

definition complete_image :: "oci_env \<Rightarrow> project \<Rightarrow> string \<Rightarrow> oci_state \<Rightarrow> bool" where
  "complete_image env p g s \<longleftrightarrow> pullable env p g s \<and>
     (\<exists>config layers. g = digest_of (oe_hash env) (ociCreateManifest (oe_image env) config layers) \<and> layers \<noteq> [] \<and>
        (\<forall>x \<in> set (config # layers). pullable env p (''sha256:'' @ fst x) s))"

lemma part_pullable:
  assumes "oci_inv env z s" "part s aid format key" "\<exists>a \<in> set (d_artifacts (od_db s)). a_id a = aid \<and> in_project (p_id p) (od_db s) a"
  shows "pullable env p (''sha256:'' @ key) s"
  using assms(2,3) unfolding part_def
  by (intro pullable_if [OF assms(1)]) (auto simp: validDigest_def has_prefix_def BlobBelongsToProject_def list_ex_iff)

lemma image_complete:
  assumes "oci_inv env z s" "image_at env p pa g s"
    "\<exists>a \<in> set (d_artifacts (od_db s)). a_id a = a_id (pa_artifact pa) \<and> in_project (p_id p) (od_db s) a"
  shows "complete_image env p g s"
proof -
  obtain config base bin where "acked p g s" "g = digest_of (oe_hash env) (ociCreateManifest (oe_image env) config [base, bin])"
      "part s (a_id (pa_artifact pa)) (''oci-config'' @ pa_cache_suffix pa) (fst config)"
      "part s (a_id (pa_artifact pa)) (''oci-base-layer'' @ pa_cache_suffix pa) (fst base)"
      "part s (a_id (pa_artifact pa)) (''oci-layer'' @ pa_cache_suffix pa) (fst bin)"
    using assms(2) unfolding image_at_def by blast
  moreover from this have "\<forall>x \<in> set (config # [base, bin]). pullable env p (''sha256:'' @ fst x) s"
    using part_pullable [OF assms(1) _ assms(3)] by simp
  ultimately show ?thesis unfolding complete_image_def using acked_pullable [OF assms(1)] by blast
qed

lemma listed_artifact:
  "pa \<in> set (ListArtifactsByPlatform rid d) \<Longrightarrow> \<exists>a \<in> set (d_artifacts d). a_id a = a_id (pa_artifact pa) \<and> a_release_id a = rid"
  by (auto simp: ListArtifactsByPlatform_def ListArtifactsWithPlatforms_def ListArtifacts_def ListArtifactsByRelease_def newPlatform_fields)

lemma persist_acked:
  fixes p :: project
  assumes "codec_ok env z" "oci_inv env z s" "fits data" "persistManifestBlob env lk now (p_id p) data media s = (s', True)"
  shows "acked p (digest_of (oe_hash env) data) s'" "od_db s' = (od_db s)\<lparr>d_oci_links := d_oci_links (od_db s')\<rparr>"
proof -
  obtain fs' res where put: "Put (oe_hash env) (oe_enc env) (lk_put lk) \<lparr>rd_segs = [data], rd_end = IoEOF, rd_eager = False\<rparr> (od_fs s) = (fs', res)" by fastforce
  note stored = Put_keeps [OF assms(1-3) put]
  obtain key n d' where m: "res = Inr (key, n)" "LinkOCIBlob now (p_id p) key media n True (od_db s) = Inr d'" "s' = s\<lparr>od_fs := fs', od_db := d'\<rparr>"
    using assms(4) put by (auto simp: persistManifestBlob_def split: sum.splits)
  show "acked p (digest_of (oe_hash env) data) s'"
    using stored(2) [OF m(1)] LinkOCIBlob_links [OF m(2)] m(3) digest_key by (auto simp: acked_def digest_of_def)
  show "od_db s' = (od_db s)\<lparr>d_oci_links := d_oci_links (od_db s')\<rparr>"
    using m(2,3) by (auto simp: LinkOCIBlob_def InsertOCIBlobLink_def split: if_splits)
qed

lemma persist_same:
  fixes p :: project
  assumes "codec_ok env z" "oci_inv env z s" "fits data" "persistManifestBlob env lk now (p_id p) data media s = (s', True)"
  shows "step_ok env z s s'" "same_parts {} s s'"
proof -
  show s': "step_ok env z s s'" using persist_ok [OF assms(1-3), of lk now "p_id p" media] assms(4) by simp
  from persist_acked(2) [OF assms] have "d_packaged (od_db s') = d_packaged (od_db s)" "d_artifacts (od_db s') = d_artifacts (od_db s)" "d_releases (od_db s') = d_releases (od_db s)"
    by (metis db.select_convs db.surjective db.update_convs)+
  with s' show "same_parts {} s s'" by (auto simp: same_parts_def part_def step_ok_def kept_def)
qed

text \<open>C16: a release of binaries pulled as an image is complete. When the request for a tag is answered, every platform of the
  release that the format applies to has its entry, in order, and the manifest of each entry can be pulled together with its config and
  layers; so can the index, when there is more than one. The store compresses.\<close>

theorem synthesized_image_complete:
  assumes "codec_ok env z" "oci_inv env z s" "ids_ok (od_db s)" "slots_ok (od_db s)" "\<forall>a \<in> set (d_artifacts (od_db s)). 0 < a_id a"
    and "rl \<in> set (d_releases (od_db s))" "r_project_id rl = p_id p" "0 < p_id p"
    and "serveIndex env lk now p m rl s = (s', OciServe hs body)"
  shows "\<exists>es :: descriptor list. list_all2 (\<lambda>pa e. de_platform e = Some (a_os (pa_artifact pa), a_arch (pa_artifact pa)) \<and> complete_image env p (de_digest e) s')
       (filter (\<lambda>pa. oci_Applicable (pa_artifact pa)) (ListArtifactsByPlatform (r_id rl) (od_db s))) es
     \<and> (case es of
          [] \<Rightarrow> False
        | [e] \<Rightarrow> map_of hs ''Docker-Content-Digest'' = Some (de_digest e)
        | _ \<Rightarrow> map_of hs ''Docker-Content-Digest'' = Some (digest_of (oe_hash env) (ie_manifest_json (oe_image env) (image_index es)))
            \<and> pullable env p (digest_of (oe_hash env) (ie_manifest_json (oe_image env) (image_index es))) s')"
proof -
  let ?pas = "ListArtifactsByPlatform (r_id rl) (od_db s)" and ?index = "\<lambda>es. ie_manifest_json (oe_image env) (image_index es)"
  obtain s1 res where run: "index_entries env (lk_syn lk) 0 now p rl ?pas s = (s1, res)" by fastforce
  have "\<exists>es. res = Inr es" using assms(9) run by (cases res) (auto simp: serveIndex_def dest: index_entries_refuses)
  then obtain es where es: "res = Inr es" ..
  have s1: "step_ok env z s s1" using index_entries_ok [OF assms(1,2), of "lk_syn lk" 0 now p rl ?pas] run by simp
  have known: "\<forall>pa \<in> set ?pas. artifact_known pa s" using listed_artifact assms(5) unfolding artifact_known_def by (metis image_eqI)
  from index_entries_images [OF assms(1,8,2) known image_keys_distinct [OF assms(3,4)] run [unfolded es]]
  have parts: "same_parts (\<Union>pa \<in> set (applicable ?pas). image_rows pa) s s1"
    and images: "list_all2 (\<lambda>pa e. de_platform e = Some (a_os (pa_artifact pa), a_arch (pa_artifact pa)) \<and> image_at env p pa (de_digest e) s1) (applicable ?pas) es" by auto
  have owned: "\<exists>a \<in> set (d_artifacts (od_db s2)). a_id a = a_id (pa_artifact pa) \<and> in_project (p_id p) (od_db s2) a"
    if "pa \<in> set (applicable ?pas)" "same_parts {} s1 s2" for pa s2
    using listed_artifact [of pa "r_id rl" "od_db s"] that parts assms(6,7) by (force simp: same_parts_def in_project_def list_ex_iff)
  have whole: "list_all2 (\<lambda>pa e. de_platform e = Some (a_os (pa_artifact pa), a_arch (pa_artifact pa)) \<and> complete_image env p (de_digest e) s2) (applicable ?pas) es"
    if s2: "step_ok env z s1 s2" "same_parts {} s1 s2" for s2
    using images
  proof (rule list.rel_mono_strong)
    fix pa e
    assume "pa \<in> set (applicable ?pas)" and i: "de_platform e = Some (a_os (pa_artifact pa), a_arch (pa_artifact pa)) \<and> image_at env p pa (de_digest e) s1"
    note o = owned [OF this(1) s2(2)]
    from i s2 have "image_at env p pa (de_digest e) s2" by (auto simp: step_ok_def intro: image_at_keeps)
    from image_complete [OF step_ok_inv [OF s2(1)] this o] i
    show "de_platform e = Some (a_os (pa_artifact pa), a_arch (pa_artifact pa)) \<and> complete_image env p (de_digest e) s2" by simp
  qed
  consider (one) e where "es = [e]" "s' = s1" "map_of hs ''Docker-Content-Digest'' = Some (de_digest e)"
    | (more) e e' es' where "es = e # e' # es'" "persistManifestBlob env lk now (p_id p) (?index es) ociIndexType s1 = (s', True)"
        "map_of hs ''Docker-Content-Digest'' = Some (digest_of (oe_hash env) (?index es))"
    using assms(9) run es
    by (auto simp: serveIndex_def serveSingleManifest_def Let_def split: list.splits prod.splits bool.splits sum.splits)
  then show ?thesis
  proof cases
    case one
    then show ?thesis using whole [OF step_ok_refl [OF step_ok_inv [OF s1]]] by (intro exI [of _ es]) simp
  next
    case more
    have small: "fits (?index es)" using assms(1) by (simp add: codec_ok_def)
    note p = persist_same [OF assms(1) step_ok_inv [OF s1] small more(2)]
    from acked_pullable [OF step_ok_inv [OF p(1)] persist_acked(1) [OF assms(1) step_ok_inv [OF s1] small more(2)]] whole [OF p] more(1,3)
    show ?thesis by (intro exI [of _ es]) simp
  qed
qed

section \<open>Instances\<close>

definition demo_image_env :: image_env where
  "demo_image_env = \<lparr>ie_hash = (\<lambda>c. replicate 32 (case c of [] \<Rightarrow> 0 | b # _ \<Rightarrow> b)), ie_tar = (\<lambda>es. Some [5]), ie_zstd = (\<lambda>t. take 2 t),
     ie_embed = (\<lambda>f. Some []), ie_config_json = (\<lambda>c. [0x66]), ie_manifest_json = (\<lambda>m. [0x70 + word_of_nat (length (pm_manifests m))]), ie_alloc = 1000\<rparr>"

definition demo_child :: "string \<Rightarrow> parsed_manifest" where
  "demo_child digest = \<lparr>pm_media_type = ociIndexType, pm_config = None, pm_layers = [],
     pm_manifests = [\<lparr>de_media_type = imageManifestType, de_digest = digest, de_size = 1, de_platform = Some (''linux'', ''amd64'')\<rparr>], pm_annotations = []\<rparr>"

text \<open>Three documents: an index whose child has a digest of one byte, an index whose child has the key of a blob after seven
  other bytes, and a manifest that names nothing.\<close>

definition demo_oci_env :: oci_env where
  "demo_oci_env = \<lparr>oe_image = demo_image_env, oe_enc = demo_enc, oe_dec = demo_dec, oe_max_blob = 100,
     oe_parse = (\<lambda>c. if c = [1] then Some (demo_child ''x'') else if c = [2] then Some (demo_child (''foreign'' @ replicate 64 CHR ''a''))
       else if c = [3] then Some \<lparr>pm_media_type = imageManifestType, pm_config = None, pm_layers = [], pm_manifests = [], pm_annotations = []\<rparr> else None),
     oe_parse_config = (\<lambda>c. None), oe_gh = demo_gh\<rparr>"

definition demo_luck :: oci_luck where
  "demo_luck = \<lparr>lk_temp = None, lk_room = None, lk_seek = True, lk_put = None, lk_exists = None, lk_get = None,
     lk_syn = (\<lambda>i. \<lparr>sl_get = (\<lambda>_. None), sl_put = (\<lambda>_. None), sl_id = int\<rparr>)\<rparr>"

definition demo_push :: "bytes \<Rightarrow> oci_request" where
  "demo_push c = \<lparr>oq_method = ''PUT'', oq_query = [], oq_content_range = [], oq_content_type = [], oq_body = demo_reader c\<rparr>"

definition demo_tag_route :: oci_route where
  "demo_tag_route = \<lparr>or_project = ''evil'', or_action = ''manifests'', or_reference = ''v1''\<rparr>"

text \<open>Two projects; the blob \<open>aa...a\<close> is linked to the second one, which is private.\<close>

definition demo_oci_state :: oci_state where
  "demo_oci_state = \<lparr>od_db = empty_db\<lparr>d_projects := [new_project 1 ''evil'' False, new_project 2 ''vault'' True], d_project_seq := 2,
       d_oci_links := [\<lparr>ol_project_id = 2, ol_storage_key = replicate 64 CHR ''a'', ol_media_type = [], ol_size = 2, ol_is_manifest = False, ol_created_at = 0\<rparr>]\<rparr>,
     od_fs = \<lparr>fs_compress = True, fs_blobs = [(rel (replicate 64 CHR ''a''), [0xAA, 1])]\<rparr>, od_sessions = []\<rparr>"

lemma demo_codec: "codec_ok demo_oci_env True"
  by (auto simp: codec_ok_def demo_oci_env_def demo_image_env_def fits_def body_ok_def demo_enc_def demo_dec_def)

lemma demo_oci_inv: "oci_inv demo_oci_env True demo_oci_state"
proof -
  let ?a = "replicate 64 CHR ''a''"
  have a: "validStorageKey ?a" "hex_encode (replicate 32 0xAA) = ?a" by code_simp+
  have raw: "stored_as demo_dec [0xAA, 1] [0xAA, 1]"
    by (rule stored_as_raw [of "\<lambda>_. replicate 32 0" demo_enc]) (simp add: body_ok_def is_compressed_def)
  have "key = ?a \<and> m = [0xAA, 1]" if "validStorageKey key" "file_at (od_fs demo_oci_state) key = Some m" for key m
    using that rel_inj [OF that(1) a(1)] by (auto simp: file_at_def demo_oci_state_def split: if_splits)
  moreover have "od_sessions demo_oci_state = []" "fs_compress (od_fs demo_oci_state)" by (simp_all add: demo_oci_state_def)
  moreover have "oe_dec demo_oci_env = demo_dec" "oe_hash demo_oci_env [0xAA, 1] = replicate 32 0xAA" by (simp_all add: demo_oci_env_def demo_image_env_def)
  ultimately show ?thesis using raw a(2) by (auto simp: oci_inv_def store_inv_def)
qed

theorem push_acknowledged_pullable_witness:
  "case oci_ServeHTTP demo_oci_env demo_luck 5 empty_ctx (new_project 1 ''evil'' False) demo_tag_route (demo_push [3]) demo_oci_state of (s, reply) \<Rightarrow>
     pullable demo_oci_env (new_project 1 ''evil'' False) (''sha256:'' @ concat (replicate 32 ''03''))
       (oci_run demo_oci_env [(demo_luck, 6, empty_ctx, new_project 2 ''vault'' True, demo_tag_route, demo_push [3])] s)
     \<and> answers demo_oci_env (''sha256:'' @ concat (replicate 32 ''03'')) (snd (serveManifest demo_oci_env demo_luck 7 (new_project 1 ''evil'' False) ''GET'' ''v1'' s))"
proof -
  let ?g = "''sha256:'' @ concat (replicate 32 ''03'')" and ?p = "new_project 1 ''evil'' False"
  have ok: "oci_inv demo_oci_env True demo_oci_state" by (rule demo_oci_inv)
  obtain s reply where r: "oci_ServeHTTP demo_oci_env demo_luck 5 empty_ctx ?p demo_tag_route (demo_push [3]) demo_oci_state = (s, reply)" by fastforce
  have "snd (oci_ServeHTTP demo_oci_env demo_luck 5 empty_ctx ?p demo_tag_route (demo_push [3]) demo_oci_state) = manifest_created ?p ?g" by code_simp
  with r have "acknowledges reply ?g" by simp
  from push_acknowledged_pullable [OF demo_codec ok r this, of "[(demo_luck, 6, empty_ctx, new_project 2 ''vault'' True, demo_tag_route, demo_push [3])]"]
  show ?thesis unfolding r by (simp add: demo_tag_route_def validDigest_def has_prefix_def demo_luck_def)
qed

definition demo_binary :: artifact where
  "demo_binary = \<lparr>a_id = 1, a_release_id = 1, a_os = ''linux'', a_arch = ''amd64'', a_kind = KindBinary, a_storage_key = replicate 64 CHR ''a'',
     a_size = 2, a_sha256 = replicate 64 CHR ''a'', a_stripped_storage_key = [], a_stripped_size = 0, a_stripped_sha256 = [], a_debug_storage_key = [],
     a_debug_size = 0, a_filename = ''web'', a_exe_format = APE, a_created_at = 0\<rparr>"

text \<open>A release with one artifact.\<close>

definition demo_binaries :: oci_state where
  "demo_binaries = demo_oci_state\<lparr>od_db := empty_db\<lparr>d_projects := [new_project 1 ''web'' False], d_project_seq := 1,
     d_releases := [demo_release 1 ''1'' 1 ''master'' True], d_release_seq := 1, d_artifacts := [demo_binary], d_artifact_seq := 1,
     d_platforms := [slot_row demo_binary \<lparr>plat_os = ''linux'', plat_arch = ''amd64''\<rparr> 0]\<rparr>\<rparr>"

lemma demo_layers:
  "imageBase demo_image_env arch = Inr ([5], hex_encode (replicate 32 5))"
  "binary_layer demo_image_env c (int (length c)) name = Inr ([5], hex_encode (replicate 32 5))"
  by (simp_all add: imageBase_def buildEssentials_def ShellLayer_def shell_files_def joinLayers_def binary_layer_def layer_doc_def demo_image_env_def)

lemma demo_served:
  obtains s' hs body where "serveIndex demo_oci_env demo_luck 5 (new_project 1 ''web'' False) ''GET'' (demo_release 1 ''1'' 1 ''master'' True) demo_binaries
    = (s', OciServe hs body)"
proof -
  let ?p = "new_project 1 ''web'' False" and ?rl = "demo_release 1 ''1'' 1 ''master'' True" and ?pa = "\<lparr>pa_artifact = demo_binary, pa_cache_suffix = []\<rparr>"
  let ?sl = "lk_syn demo_luck 0"
  have list: "ListArtifactsByPlatform (r_id ?rl) (od_db demo_binaries) = [?pa]" by code_simp
  have stream: "OpenArtifactStream demo_oci_env ?sl demo_binary (od_fs demo_binaries) = Inr (Some [0xAA, 1], int (length [0xAA :: byte, 1]))" by code_simp
  have plain: "(if peekAPE [0xAA, 1] then apeAsELF [0xAA, 1] (a_arch (pa_artifact ?pa)) else Inr [0xAA, 1]) = Inr [0xAA, 1]" by code_simp
  have base: "imageBase (oe_image demo_oci_env) (a_arch (pa_artifact ?pa)) = Inr ([5], hex_encode (replicate 32 5))"
    and bin: "binary_layer (oe_image demo_oci_env) [0xAA, 1] (int (length [0xAA :: byte, 1])) (p_name ?p) = Inr ([5], hex_encode (replicate 32 5))"
    by (simp_all only: demo_layers demo_oci_env_def oci_env.select_convs)
  have tables: "a_os (pa_artifact ?pa) \<noteq> []" "a_arch (pa_artifact ?pa) \<noteq> []" "p_id ?p \<in> p_id ` set (d_projects (od_db demo_binaries))"
    "oci_Applicable (pa_artifact ?pa)" "0 < p_id ?p" by code_simp+
  have known: "artifact_known ?pa demo_binaries" unfolding artifact_known_def by code_simp
  have inv: "oci_inv demo_oci_env True demo_binaries" using demo_oci_inv by (simp add: oci_inv_def demo_binaries_def)
  obtain s1 data where run: "OCI_Repackage demo_oci_env ?sl 5 ?p ?rl ?pa (Some [0xAA, 1]) (int (length [0xAA :: byte, 1])) demo_binaries = (s1, Inr data)"
    by (rule Repackage_succeeds [OF tables(1,2) base plain bin _ tables(3)]) (auto simp: demo_luck_def)
  let ?g = "digest_of (oe_hash demo_oci_env) data"
  have acked: "acked ?p ?g s1" using Repackage_image(2) [OF demo_codec inv known tables(5) run] by (simp add: image_at_def)
  have s1: "oci_inv demo_oci_env True s1" using step_ok_inv [OF Repackage_ok [OF demo_codec inv]] run by (metis fst_conv)
  have belongs: "BlobBelongsToProject (p_id ?p) (drop 7 ?g) (od_db s1)" using acked by (auto simp: acked_def links_def BlobBelongsToProject_def list_ex_iff)
  let ?e = "\<lparr>de_media_type = imageManifestType, de_digest = ?g, de_size = int (length data), de_platform = Some (a_os (pa_artifact ?pa), a_arch (pa_artifact ?pa))\<rparr>"
  have "platformEntry demo_oci_env ?sl 5 ?p ?rl ?pa demo_binaries = (s1, Inr ?e)"
    using run stream belongs by (simp add: platformEntry_def GenerateForPlatform_def and_then_def)
  then have "index_entries demo_oci_env (lk_syn demo_luck) 0 5 ?p ?rl [?pa] demo_binaries = (s1, Inr [?e])" using tables(4) by simp
  then have serve: "serveIndex demo_oci_env demo_luck 5 ?p ''GET'' ?rl demo_binaries = (s1, serveSingleManifest demo_oci_env demo_luck ''GET'' ?e s1)"
    using list by (simp add: serveIndex_def)
  from acked_pullable [OF s1 acked] have "answers demo_oci_env ?g (serveBlob demo_oci_env demo_luck ?p ''GET'' ?g s1)" by (simp add: pullable_def demo_luck_def)
  then obtain b n where "GetBlob (oe_dec demo_oci_env) (lk_get demo_luck) (drop 7 ?g) (od_fs s1) = Inr (b, n)"
    by (auto simp: answers_def serveBlob_def split: if_splits sum.splits)
  with serve show thesis by (intro that) (simp add: serveSingleManifest_def)
qed

theorem synthesized_image_complete_witness:
  "case serveIndex demo_oci_env demo_luck 5 (new_project 1 ''web'' False) ''GET'' (demo_release 1 ''1'' 1 ''master'' True) demo_binaries of (s', reply) \<Rightarrow>
     (\<exists>e :: descriptor. complete_image demo_oci_env (new_project 1 ''web'' False) (de_digest e) s')"
proof -
  let ?p = "new_project 1 ''web'' False" and ?rl = "demo_release 1 ''1'' 1 ''master'' True"
  have inv: "oci_inv demo_oci_env True demo_binaries" using demo_oci_inv by (simp add: oci_inv_def demo_binaries_def)
  have tables: "ids_ok (od_db demo_binaries)" "slots_ok (od_db demo_binaries)" "\<forall>a \<in> set (d_artifacts (od_db demo_binaries)). 0 < a_id a"
    "?rl \<in> set (d_releases (od_db demo_binaries))" "r_project_id ?rl = p_id ?p" "0 < p_id ?p" by code_simp+
  have count: "length (filter (\<lambda>pa. oci_Applicable (pa_artifact pa)) (ListArtifactsByPlatform (r_id ?rl) (od_db demo_binaries))) = 1" by code_simp
  obtain s' hs body where run: "serveIndex demo_oci_env demo_luck 5 ?p ''GET'' ?rl demo_binaries = (s', OciServe hs body)" by (rule demo_served)
  from synthesized_image_complete [OF demo_codec inv tables run] obtain es :: "descriptor list" where
    es: "list_all2 (\<lambda>pa e. de_platform e = Some (a_os (pa_artifact pa), a_arch (pa_artifact pa)) \<and> complete_image demo_oci_env ?p (de_digest e) s')
       (filter (\<lambda>pa. oci_Applicable (pa_artifact pa)) (ListArtifactsByPlatform (r_id ?rl) (od_db demo_binaries))) es" by blast
  from list_all2_lengthD [OF es] count have "length es = Suc 0" by simp
  then obtain e where "es = [e]" by (auto simp: length_Suc_conv)
  with es have "complete_image demo_oci_env ?p (de_digest e) s'" by (auto simp: list_all2_Cons2)
  then show ?thesis unfolding run by auto
qed

end
