(* ===== verification/Contents.thy ===== *)
theory Contents
  imports Oci_Laws
begin

text \<open>
  What releases hold when both doors are used: uploads through the API (\<open>Artifact_Api\<close>) and pushes to the image
  registry (\<open>Oci\<close>) write the same tables. Every request of either side keeps the tables well formed.
\<close>

section \<open>Registry requests and the tables\<close>

definition tables :: "db \<Rightarrow> artifact list \<times> artifact_platform list \<times> int \<times> release list \<times> int" where
  "tables d = (d_artifacts d, d_platforms d, d_artifact_seq d, d_releases d, d_release_seq d)"

lemma art_wf_tables: "tables d' = tables d \<Longrightarrow> art_wf d' = art_wf d"
  using artifacts_inv_cong [of d' d] by (simp add: tables_def art_wf_def release_ids_ok_def)

lemma LinkOCIBlob_tables: "LinkOCIBlob now pid key media sz manifest d = Inr d' \<Longrightarrow> tables d' = tables d"
  by (auto simp: LinkOCIBlob_def InsertOCIBlobLink_def tables_def split: if_splits)

lemma SetOCITag_tables: "SetOCITag pid tag digest rid d = Inr d' \<Longrightarrow> tables d' = tables d"
  by (auto simp: SetOCITag_def UpsertOCITag_def tables_def split: if_splits)

lemma packaged_tables: "tables (fst (CreatePackagedArtifact now i k d)) = tables d"
  by (auto simp: CreatePackagedArtifact_def exec_def UpsertPackagedArtifact_def tables_def split: sum.split)

lemma link_refs_tables: "tables (fst (link_refs now pid index des d)) = tables d"
proof (induction des arbitrary: d)
  case (Cons de des)
  have "tables d' = tables d" if "linkReferencedBlob now pid de index d = Inr (d', ok)" for d' ok
    using that by (auto simp: linkReferencedBlob_def split: if_splits sum.splits dest: LinkOCIBlob_tables)
  with Cons.IH show ?case by (auto split: sum.split bool.split)
qed simp

lemma session_db [simp]:
  "od_db (session_put u x s) = od_db s" "od_db (session_remove u s) = od_db s" "od_db (upload_sweep now n s) = od_db s"
  by (simp_all add: session_put_def session_remove_def upload_sweep_def)

lemma upload_start_db: "upload_start lk now s = (s', u) \<Longrightarrow> od_db s' = od_db s"
  by (auto simp: upload_start_def Let_def split: option.splits)

lemma upload_finalize_db: "upload_finalize env lk u sess g s = (s', res) \<Longrightarrow> od_db s' = od_db s"
  by (auto simp: upload_finalize_def Let_def split: if_splits prod.splits sum.splits)

lemma finish_blob_tables: "tables (od_db (fst (finish_blob env lk now p u sess g s))) = tables (od_db s)"
proof -
  obtain s' res where f: "upload_finalize env lk u sess g s = (s', res)" by fastforce
  with upload_finalize_db [OF f] show ?thesis by (auto simp: finish_blob_def split: prod.split sum.split dest: LinkOCIBlob_tables)
qed

lemma mountBlob_tables: "mountBlob env lk now ctx p g from s = Some (s', reply) \<Longrightarrow> tables (od_db s') = tables (od_db s)"
  by (auto simp: mountBlob_def Let_def split: if_splits option.splits sum.splits prod.splits dest: LinkOCIBlob_tables)

lemma uploads_tables:
  "tables (od_db (fst (StartBlobUpload env lk now ctx p r s))) = tables (od_db s)"
  "tables (od_db (fst (PatchBlobUpload env lk now p r u s))) = tables (od_db s)"
  "tables (od_db (fst (PutBlobUpload env lk now p r u s))) = tables (od_db s)"
  "tables (od_db (fst (GetBlobUploadStatus now p u s))) = tables (od_db s)"
  by (auto simp: StartBlobUpload_def PatchBlobUpload_def PutBlobUpload_def GetBlobUploadStatus_def Let_def finish_blob_tables
      split: option.split prod.split oci_fail.split dest: mountBlob_tables upload_start_db)

lemma and_then_tables:
  assumes "tables (od_db (fst r)) = tables (od_db s0)"
    "\<And>x s. tables (od_db s) = tables (od_db s0) \<Longrightarrow> tables (od_db (fst (f x s))) = tables (od_db s0)"
  shows "tables (od_db (fst (and_then r f))) = tables (od_db s0)"
  using assms by (cases r) (auto simp: and_then_def split: sum.split)

lemma store_part_tables: "tables (od_db (fst (store_part env sl i now a format name data s))) = tables (od_db s)"
  by (auto simp: store_part_def packaged_tables split: prod.split sum.split)

lemma store_manifest_tables: "tables (od_db (fst (store_manifest env fail now p data s))) = tables (od_db s)"
  by (auto simp: store_manifest_def split: prod.split sum.split dest: LinkOCIBlob_tables)

lemma Repackage_tables: "tables (od_db (fst (OCI_Repackage env sl now p rl pa input sz s))) = tables (od_db s)"
  unfolding OCI_Repackage_def Let_def
  by (auto intro!: and_then_tables simp: store_part_tables store_manifest_tables split: prod.split)

lemma platformEntry_tables: "tables (od_db (fst (platformEntry env sl now p rl pa s))) = tables (od_db s)"
  unfolding platformEntry_def
  by (rule and_then_tables) (auto simp: GenerateForPlatform_def Repackage_tables Let_def split: sum.split)

lemma index_entries_tables: "tables (od_db (fst (index_entries env syn i now p rl pas s))) = tables (od_db s)"
proof (induction env syn i now p rl pas s rule: index_entries.induct)
  case (2 env syn i now p rl pa pas s)
  obtain s1 res where e: "platformEntry env (syn i) now p rl pa s = (s1, res)" by fastforce
  with platformEntry_tables [of env "syn i" now p rl pa s] have "tables (od_db s1) = tables (od_db s)" by simp
  with e 2 show ?case by (auto split: sum.split syn_fail.split prod.split)
qed simp

lemma serveIndex_tables: "tables (od_db (fst (serveIndex env lk now p m rl s))) = tables (od_db s)"
proof -
  obtain s1 res where e: "index_entries env (lk_syn lk) 0 now p rl (ListArtifactsByPlatform (r_id rl) (od_db s)) s = (s1, res)" by fastforce
  have "tables (od_db s2) = tables (od_db s1)" if "persistManifestBlob env lk now pid data media s1 = (s2, b)" for pid data media s2 b
    using that by (auto simp: persistManifestBlob_def split: prod.splits sum.splits dest: LinkOCIBlob_tables)
  moreover have "tables (od_db s1) = tables (od_db s)"
    using index_entries_tables [of env "lk_syn lk" 0 now p rl "ListArtifactsByPlatform (r_id rl) (od_db s)" s] e by simp
  ultimately show ?thesis using e by (auto simp: serveIndex_def Let_def split: sum.split list.split prod.split bool.split)
qed

lemma serveManifest_tables: "tables (od_db (fst (serveManifest env lk now p m ref s))) = tables (od_db s)"
  by (auto simp: serveManifest_def serveIndex_tables split: sum.split option.split)

section \<open>Pushed images\<close>

lemma CreateArtifact_inv:
  assumes "artifacts_inv d" "row_ok a [own_platform a]"
  shows "artifacts_inv (fst (CreateArtifact now a d))"
proof (cases "insert_artifacts now [(a, [own_platform a])] [] d")
  case (Inr x)
  obtain d' out where x: "x = (d', out)" by fastforce
  note step = insert_artifacts_Cons [OF Inr [unfolded x]]
  have "d' = add_artifact now a [own_platform a] d" using step(2) by simp
  with add_artifact_inv [OF assms(1) step(1) assms(2)] Inr x show ?thesis
    by (simp add: CreateArtifact_def CreateArtifacts_def createArtifacts_def del: insert_artifacts.simps)
qed (use assms in \<open>simp add: CreateArtifact_def CreateArtifacts_def createArtifacts_def del: insert_artifacts.simps\<close>)

lemma CreateArtifact_releases:
  "d_releases (fst (CreateArtifact now a d)) = d_releases d \<and> d_release_seq (fst (CreateArtifact now a d)) = d_release_seq d"
proof -
  have "fst (CreateArtifact now a d) = d \<or> fst (CreateArtifact now a d) = add_artifacts now [(a, [own_platform a])] d"
    using createArtifacts_adds [OF surjective_pairing, of now "[(a, [own_platform a])]" d]
    by (auto simp: CreateArtifact_def CreateArtifacts_def split: prod.split sum.split)
  then show ?thesis by (auto simp: add_artifact_def Let_def)
qed

lemma createDockerArtifact_wf: "createDockerArtifact now rid os arch digest sz d = Some d' \<Longrightarrow> art_wf d \<Longrightarrow> art_wf d'"
proof -
  have "ValidKind KindDocker" "APE \<noteq> []" by code_simp+
  then show "createDockerArtifact now rid os arch digest sz d = Some d' \<Longrightarrow> art_wf d \<Longrightarrow> art_wf d'"
    using CreateArtifact_releases
    by (auto simp: createDockerArtifact_def art_wf_def release_ids_ok_def row_ok_def platform_ok_def own_platform_def
        split: if_splits intro!: CreateArtifact_inv)
qed

lemma docker_artifacts_wf: "art_wf d \<Longrightarrow> art_wf (fst (docker_artifacts env lk now rid index m digest sz fs d))"
proof -
  have "art_wf d \<Longrightarrow> art_wf (fst (docker_children now rid des d))" for des
    by (induction des arbitrary: d) (auto split: option.split dest: createDockerArtifact_wf)
  then show "art_wf d \<Longrightarrow> art_wf (fst (docker_artifacts env lk now rid index m digest sz fs d))"
    by (auto simp: docker_artifacts_def split: option.split prod.split dest: createDockerArtifact_wf)
qed

lemma CreateRelease_wf: "art_wf d \<Longrightarrow> art_wf (fst (CreateRelease now rl d))"
  by (rule step_effect_wf) (auto simp: step_effect_def)

lemma PublishRelease_wf: "art_wf d \<Longrightarrow> art_wf (PublishRelease now rid d)"
  by (rule step_effect_wf) (auto simp: step_effect_def)

lemma docker_release_wf: "art_wf d \<Longrightarrow> art_wf (fst (docker_release_loop k now pid commit notes err d))"
proof (induction k arbitrary: err d)
  case (Suc k)
  let ?rl = "docker_release pid (NextVersionNum pid d) commit notes"
  obtain d1 res where c: "CreateRelease now ?rl d = (d1, res)" by fastforce
  with CreateRelease_wf [OF Suc.prems, of now ?rl] have "art_wf d1" by simp
  with c Suc.IH show ?case by (auto split: sum.split db_error.split)
qed simp

lemma tag_manifest_wf:
  assumes "art_wf d"
  shows "art_wf (fst (tag_manifest env lk now p reference index m digest sz fs d))"
proof -
  let ?commit = "annotation m ''org.opencontainers.image.revision''" and ?notes = "annotation m ''org.opencontainers.image.source''"
  obtain d1 res where r: "createDockerRelease now (p_id p) ?commit ?notes d = (d1, res)" by fastforce
  have 1: "art_wf d1"
    using docker_release_wf [OF assms, of 5 now "p_id p" ?commit ?notes "ErrConflict []"] r by (simp add: createDockerRelease_def)
  have 2: "art_wf d2" if "docker_artifacts env lk now rid index m digest sz fs d1 = (d2, ok)" for rid d2 ok
    using docker_artifacts_wf [OF 1, of env lk now rid index m digest sz fs] that by simp
  have 3: "art_wf d'" if "SetOCITag pid tag g rid e = Inr d'" "art_wf e" for pid tag g rid e d'
    using art_wf_tables [OF SetOCITag_tables [OF that(1)]] that(2) by simp
  show ?thesis
    using assms 1 r
    by (auto simp: tag_manifest_def Let_def split: sum.split prod.split bool.split intro: 3 dest!: 2 intro!: PublishRelease_wf)
qed

lemma PutManifest_wf:
  assumes "art_wf (od_db s)"
  shows "art_wf (od_db (fst (PutManifest env lk now p r reference s)))"
proof -
  have "art_wf (fst (link_refs now pid index des d1))" if "LinkOCIBlob now pid' key media n b (od_db s) = Inr d1" for pid pid' key media n b d1 index des
    using art_wf_tables [OF link_refs_tables] art_wf_tables [OF LinkOCIBlob_tables [OF that]] assms by simp
  then have linked: "art_wf d2" if "LinkOCIBlob now pid' key media n b (od_db s) = Inr d1" "link_refs now pid index des d1 = (d2, x)"
    for pid pid' key media n b d1 index des d2 x
    using that by (metis fst_conv)
  have "art_wf d3" if "tag_manifest env lk now p ref index m g sz fs d2 = (d3, reply)" "art_wf d2" for ref index m g sz fs d2 d3 reply
    using tag_manifest_wf [OF that(2), of env lk now p ref index m g sz fs] that(1) by simp
  with assms linked show ?thesis
    by (auto simp: PutManifest_def Let_def split: option.split prod.split sum.split)
qed

lemma ServeHTTP_wf: "art_wf (od_db s) \<Longrightarrow> art_wf (od_db (fst (oci_ServeHTTP env lk now ctx p rt r s)))"
  using art_wf_tables [OF uploads_tables(1)] art_wf_tables [OF uploads_tables(2)] art_wf_tables [OF uploads_tables(3)]
    art_wf_tables [OF uploads_tables(4)] art_wf_tables [OF serveManifest_tables] PutManifest_wf
  by (auto simp: oci_ServeHTTP_def Let_def)

section \<open>Both doors\<close>

datatype contents_event = ApiEvent art_op | RegistryEvent oci_call

fun contents_step :: "art_env \<Rightarrow> oci_env \<Rightarrow> oci_state \<Rightarrow> contents_event \<Rightarrow> oci_state" where
  "contents_step env oenv s (ApiEvent e) = (case art_step env (od_db s, od_fs s) e of (d, fs) \<Rightarrow> s\<lparr>od_db := d, od_fs := fs\<rparr>)"
| "contents_step env oenv s (RegistryEvent call) = oci_step oenv s call"

interpretation contents: transition_system "contents_step env oenv" "\<lambda>s. art_wf (od_db s)" for env oenv
proof unfold_locales
  fix s :: oci_state and e
  assume wf: "art_wf (od_db s)"
  show "art_wf (od_db (contents_step env oenv s e))"
  proof (cases e)
    case (ApiEvent a)
    obtain d fs where a: "art_step env (od_db s, od_fs s) a = (d, fs)" by fastforce
    have "art_wf d" using artifacts.step_inv [of "(od_db s, od_fs s)" env a] wf a by simp
    with ApiEvent a show ?thesis by simp
  next
    case (RegistryEvent call)
    with wf show ?thesis by (cases call) (simp add: ServeHTTP_wf)
  qed
qed

text \<open>C23: however releases are created, filled by uploads of either kind through the API and by pushes to the image registry,
  and published, the artifact a platform resolves to has a valid kind and lies in the release asked for; unless it
  is a container image, whose platform is whatever was pushed, the platform is a canonical pair, or the wildcard of an npm package; no
  other artifact of the same kind covers it; and if the file is not a portable executable it is the one platform the file covers.\<close>

theorem resolved_artifact_typed:
  fixes s :: oci_state
  assumes "d_artifacts (od_db s) = []" "d_platforms (od_db s) = []" "release_ids_ok (od_db s)"
    "d' = od_db (foldl (contents_step env oenv) s es)" "GetArtifact rid (plat_os p) (plat_arch p) d' = Inr a"
  shows "ValidKind (a_kind a) \<and> a_release_id a = rid \<and> (a_kind a \<noteq> KindDocker \<longrightarrow> platform_typed (a_kind a) p)
    \<and> (\<forall>b \<in> set (d_artifacts d'). covers d' b rid p \<and> a_kind b = a_kind a \<longrightarrow> b = a)
    \<and> (a_exe_format a \<noteq> APE \<longrightarrow> (\<forall>q. covers d' a rid q \<longrightarrow> q = p))"
proof -
  have "art_wf (od_db s)" using assms(1-3) by (simp add: art_wf_def artifacts_inv_defs)
  then have "artifacts_inv d'" using contents.run_inv [of s env oenv es] assms(4) by (simp add: art_wf_def)
  note typed = resolved_typed [OF this assms(5)]
  have "\<forall>b \<in> set (d_artifacts d'). covers d' b rid p \<and> a_kind b = a_kind a \<longrightarrow> b = a"
    "a_exe_format a \<noteq> APE \<longrightarrow> (\<forall>q. covers d' a rid q \<longrightarrow> q = p)" using typed(4,5) by blast+
  with typed(1-3) show ?thesis by (auto simp: platform_ok_def)
qed

section \<open>Digests of an index that were not checked\<close>

lemma links_frame [simp]:
  "GetOCITag pid tag (d\<lparr>d_oci_links := L\<rparr>) = GetOCITag pid tag d"
  "releaseForDigest pid g (d\<lparr>d_oci_links := L\<rparr>) = releaseForDigest pid g d"
  "project_by_id pid (d\<lparr>d_oci_links := L\<rparr>) = project_by_id pid d"
  "GetRelease pid v (d\<lparr>d_oci_links := L\<rparr>) = GetRelease pid v d"
  by (simp_all add: GetOCITag_def releaseForDigest_def DB_ListOCITags_def project_by_id_def GetRelease_def GetReleaseByProjectAndVersion_def)

lemma links_version [simp]: "NextVersionNum pid (d\<lparr>d_oci_links := L\<rparr>) = NextVersionNum pid d"
  by (simp add: NextVersionNum_def GetMaxVersionNum_def cong: option.case_cong)

lemma LinkOCIBlob_exists:
  assumes "p \<in> set (d_projects d)"
  shows "\<exists>L. LinkOCIBlob now (p_id p) key media sz manifest d = Inr (d\<lparr>d_oci_links := L\<rparr>)"
proof -
  have "\<exists>L. d = d\<lparr>d_oci_links := L\<rparr>" by (rule exI [of _ "d_oci_links d"]) simp
  with assms show ?thesis by (auto simp: LinkOCIBlob_def InsertOCIBlobLink_def list_ex_iff)
qed

definition pushed_row :: "time \<Rightarrow> int \<Rightarrow> string \<Rightarrow> string \<Rightarrow> db \<Rightarrow> release" where
  "pushed_row now pid commit notes d = (docker_release pid (NextVersionNum pid d) commit notes)\<lparr>r_id := d_release_seq d + 1, r_created_at := now\<rparr>"

lemma createDockerRelease_fresh:
  assumes "project_by_id pid d \<noteq> None" "GetRelease pid (format_int (NextVersionNum pid d)) d = Inl ErrNotFound"
  shows "\<exists>rl. createDockerRelease now pid commit notes d =
      (d\<lparr>d_releases := d_releases d @ [pushed_row now pid commit notes d], d_release_seq := d_release_seq d + 1\<rparr>, Inr rl) \<and> r_id rl = d_release_seq d + 1"
proof -
  let ?v = "format_int (NextVersionNum pid d)"
  have "\<not> list_ex (\<lambda>q. r_project_id q = pid \<and> r_version q = ?v) (d_releases d)"
    using assms(2) by (auto simp: GetRelease_def GetReleaseByProjectAndVersion_def list_ex_iff find_first_def find_None_iff split: option.splits)
  with assms(1) show ?thesis
    by (simp add: createDockerRelease_def eval_nat_numeral CreateRelease_def InsertRelease_def docker_release_def pushed_row_def Let_def)
qed

lemma createDockerArtifact_fresh:
  assumes "art_wf d" "7 \<le> length digest" "rl \<in> set (d_releases d)" "r_id rl = rid" "\<forall>a \<in> set (d_artifacts d). a_release_id a \<noteq> rid"
  shows "\<exists>d' a. createDockerArtifact now rid os arch digest sz d = Some d' \<and> a \<in> set (d_artifacts d') \<and> a_release_id a = rid
    \<and> a_storage_key a = drop 7 digest \<and> d_releases d' = d_releases d \<and> d_projects d' = d_projects d"
proof -
  let ?a = "\<lparr>a_id = 0, a_release_id = rid, a_os = os, a_arch = arch, a_kind = KindDocker, a_storage_key = drop 7 digest,
     a_size = sz, a_sha256 = drop 7 digest, a_stripped_storage_key = [], a_stripped_size = 0, a_stripped_sha256 = [], a_debug_storage_key = [],
     a_debug_size = 0, a_filename = [], a_exe_format = [], a_created_at = 0\<rparr>"
  let ?rows = "[(?a, [own_platform ?a])]"
  have inv: "artifacts_inv d" using assms(1) by (simp add: art_wf_def)
  have "ValidKind KindDocker" "APE \<noteq> []" by code_simp+
  then have rows: "rows_ok rid KindDocker ?rows" by (simp add: rows_ok_def row_ok_def platform_ok_def own_platform_def)
  have rel: "has_release rid d" using assms(3,4) by (auto simp: has_release_def)
  have "\<forall>x \<in> set (d_platforms d). ap_release_id x \<noteq> rid"
    using inv assms(5) by (auto simp: artifacts_inv_def slots_ok_def)
  then have "slots_free rid KindDocker (concat (map snd ?rows)) d" by (auto simp: slots_free_def slots_def slot_of_def)
  with createArtifacts_exact [OF inv rows rel, of now]
  have "createArtifacts now ?rows d = (add_artifacts now ?rows d, Inr (with_ids (d_artifact_seq d) ?rows))" by simp
  then have "createDockerArtifact now rid os arch digest sz d = Some (add_artifacts now ?rows d)"
    using assms(2) by (simp add: createDockerArtifact_def CreateArtifact_def CreateArtifacts_def own_platform_def)
  moreover have "\<exists>a \<in> set (d_artifacts (add_artifacts now ?rows d)). a_release_id a = rid \<and> a_storage_key a = drop 7 digest" by simp
  ultimately show ?thesis using add_artifacts_frame [of now ?rows d] by blast
qed

text \<open>The tagging of such an index, in a database where its tag and its version are new.\<close>

lemma tag_unchecked:
  assumes "art_wf d" "\<forall>a \<in> set (d_artifacts d). has_release (a_release_id a) d" "p \<in> set (d_projects d)"
    "pm_manifests m = [de]" "de_platform de = Some (os, arch)" "os \<notin> {[], ''unknown''}" "arch \<noteq> ''unknown''"
    "GetOCITag (p_id p) reference d = Inl ErrNotFound" "releaseForDigest (p_id p) g d = 0"
    "GetRelease (p_id p) (format_int (NextVersionNum (p_id p) d)) d = Inl ErrNotFound"
    "tag_manifest env lk now p reference True m g sz fs d = (d', reply)"
  shows "if length (de_digest de) < 7
    then reply = OciPanic \<and> (\<exists>rl. d_releases d' = d_releases d @ [rl] \<and> r_project_id rl = p_id p \<and> \<not> r_published rl)
    else reply = manifest_created p g \<and> BlobBelongsToProject (p_id p) (drop 7 (de_digest de)) d'"
proof -
  let ?i = "d_release_seq d + 1"
  let ?commit = "annotation m ''org.opencontainers.image.revision''" and ?notes = "annotation m ''org.opencontainers.image.source''"
  let ?row = "pushed_row now (p_id p) ?commit ?notes d"
  let ?d1 = "d\<lparr>d_releases := d_releases d @ [?row], d_release_seq := ?i\<rparr>"
  have "project_by_id (p_id p) d \<noteq> None" using assms(3) by (auto simp: project_by_id_def find_first_None)
  from createDockerRelease_fresh [OF this assms(10)] obtain rl where made: "createDockerRelease now (p_id p) ?commit ?notes d = (?d1, Inr rl)"
    and rl: "r_id rl = ?i" by blast
  have row: "r_id ?row = ?i" "r_project_id ?row = p_id p" "\<not> r_published ?row" by (simp_all add: pushed_row_def docker_release_def)
  have step: "docker_artifacts env lk now (r_id rl) True m g sz fs ?d1 =
     (case createDockerArtifact now ?i os arch (de_digest de) (de_size de) ?d1 of None \<Rightarrow> (?d1, False) | Some d' \<Rightarrow> (d', True))"
    using assms(4-7) rl by (simp add: docker_artifacts_def split: option.split)
  show ?thesis
  proof (cases "length (de_digest de) < 7")
    case True
    with assms(8,9,11) made step row show ?thesis by (auto simp: tag_manifest_def createDockerArtifact_def)
  next
    case False
    have "\<forall>a \<in> set (d_artifacts d). a_release_id a \<noteq> ?i"
      using assms(1,2) by (fastforce simp: has_release_def art_wf_def release_ids_ok_def)
    moreover have "art_wf ?d1"
      using CreateRelease_wf [OF assms(1), of now "docker_release (p_id p) (NextVersionNum (p_id p) d) ?commit ?notes"]
        docker_release_wf [OF assms(1), of 5 now "p_id p" ?commit ?notes "ErrConflict []"] made by (simp add: createDockerRelease_def)
    ultimately obtain d2 a where d2: "createDockerArtifact now ?i os arch (de_digest de) (de_size de) ?d1 = Some d2" "a \<in> set (d_artifacts d2)"
      "a_release_id a = ?i" "a_storage_key a = drop 7 (de_digest de)" "d_releases d2 = d_releases ?d1" "d_projects d2 = d_projects ?d1"
      using createDockerArtifact_fresh [of ?d1 "de_digest de" ?row ?i now os arch "de_size de"] False row by auto
    let ?d3 = "PublishRelease now ?i d2"
    have pub: "?row\<lparr>r_published := True, r_draft := False, r_published_at := Some now\<rparr> \<in> set (d_releases ?d3)"
      using d2(5) row(1) by (auto simp: PublishRelease_def)
    have tabs: "d_projects ?d3 = d_projects d" "d_artifacts ?d3 = d_artifacts d2" using d2(6) by (simp_all add: PublishRelease_def)
    have "\<exists>r \<in> set (d_releases ?d3). r_id r = ?i" using row(1) by (intro bexI [OF _ pub]) simp
    then have "\<exists>d4. SetOCITag (p_id p) reference g ?i ?d3 = Inr d4"
      using assms(3) tabs(1) by (auto simp: SetOCITag_def UpsertOCITag_def list_ex_iff)
    then obtain d4 where d4: "SetOCITag (p_id p) reference g ?i ?d3 = Inr d4" by blast
    then have rows: "d_releases d4 = d_releases ?d3" "d_artifacts d4 = d_artifacts d2"
      using SetOCITag_tables [OF d4] tabs(2) by (simp_all add: tables_def)
    have "BlobBelongsToProject (p_id p) (drop 7 (de_digest de)) d4"
      using d2(2-4) rows pub row(1,2) by (force simp: BlobBelongsToProject_def in_project_def list_ex_iff)
    moreover have "d' = d4" "reply = manifest_created p g"
      using assms(8,9,11) made step d2(1) d4 rl by (auto simp: tag_manifest_def Let_def)
    ultimately show ?thesis using False by simp
  qed
qed

text \<open>C40: the digest of a child of an image index is cut after its seventh byte without having been checked. For every
  document that is an index with one child, for a platform, whose digest is not a digest, pushed under a new tag into a project whose next
  version is free, with a disk that does not fail: if the text has fewer than seven bytes the request ends in a panic, and an unpublished
  release stays behind; otherwise the push is acknowledged, the blob whose key follows the first seven bytes belongs to the
  project afterwards, whoever stored it, and if the store has it, the project serves it, which it refused before unless it held the blob.\<close>

theorem unchecked_child_digest:
  assumes "codec_ok env z" "oci_inv env z s" "art_wf (od_db s)" "\<forall>a \<in> set (d_artifacts (od_db s)). has_release (a_release_id a) (od_db s)"
    and "p \<in> set (d_projects (od_db s))" "lk_put lk = None"
    and "rd_end (oq_body r) = IoEOF" "int (length (rd_bytes (oq_body r))) \<le> maxManifestSize" "oe_parse env (rd_bytes (oq_body r)) = Some m"
    and "pm_manifests m = [de]" "de_platform de = Some (os, arch)" "os \<notin> {[], ''unknown''}" "arch \<noteq> ''unknown''" "\<not> validDigest (de_digest de)"
    and "reference \<noteq> []" "\<not> validDigest reference" "GetOCITag (p_id p) reference (od_db s) = Inl ErrNotFound"
    and "releaseForDigest (p_id p) (digest_of (oe_hash env) (rd_bytes (oq_body r))) (od_db s) = 0"
    and "GetRelease (p_id p) (format_int (NextVersionNum (p_id p) (od_db s))) (od_db s) = Inl ErrNotFound"
    and "PutManifest env lk now p r reference s = (s', reply)" "key = drop 7 (de_digest de)"
  shows "if length (de_digest de) < 7
    then reply = OciPanic \<and> (\<exists>rl. d_releases (od_db s') = d_releases (od_db s) @ [rl] \<and> r_project_id rl = p_id p \<and> \<not> r_published rl)
    else reply = manifest_created p (digest_of (oe_hash env) (rd_bytes (oq_body r))) \<and> BlobBelongsToProject (p_id p) key (od_db s')
      \<and> (validStorageKey key \<and> file_at (od_fs s) key \<noteq> None \<longrightarrow> pullable env p (''sha256:'' @ key) s')
      \<and> (\<not> BlobBelongsToProject (p_id p) key (od_db s) \<and> validStorageKey key \<longrightarrow>
           (\<forall>lk m. serveBlob env lk p m (''sha256:'' @ key) s = OciError 404 ''BLOB_UNKNOWN'' ''blob unknown to registry''))"
proof -
  let ?body = "rd_bytes (oq_body r)" and ?g = "digest_of (oe_hash env) (rd_bytes (oq_body r))"
  have lim: "limit_body maxManifestSize (oq_body r) = oq_body r" using assms(8) by (simp add: limit_body_def)
  obtain fs' res where put: "Put (oe_hash env) (oe_enc env) None \<lparr>rd_segs = [?body], rd_end = IoEOF, rd_eager = False\<rparr> (od_fs s) = (fs', res)" by fastforce
  have fit: "fits ?body" using assms(8) by (simp add: fits_def maxManifestSize_def)
  note stored = Put_keeps [OF assms(1,2) fit put]
  obtain k n where res: "res = Inr (k, n)"
    using put by (cases res) (auto dest: Put_error_reason)
  have k: "''sha256:'' @ k = ?g" using stored(2) [OF res] by (simp add: digest_of_def)
  obtain L where link: "LinkOCIBlob now (p_id p) k (manifest_type r m) n True (od_db s) = Inr ((od_db s)\<lparr>d_oci_links := L\<rparr>)"
    using LinkOCIBlob_exists [OF assms(5)] by blast
  let ?d1 = "(od_db s)\<lparr>d_oci_links := L\<rparr>"
  have ix: "is_index r m" using assms(10) by (simp add: is_index_def)
  have refs: "link_refs now (p_id p) True (manifest_refs True m) ?d1 = (?d1, None)"
    using assms(10,14) by (simp add: manifest_refs_def linkReferencedBlob_def)
  obtain d3 where tag: "tag_manifest env lk now p reference True m ?g n fs' ?d1 = (d3, reply)" and s': "s' = s\<lparr>od_fs := fs', od_db := d3\<rparr>"
    using assms(6,7,9,15,16,20) lim put res k link ix refs by (auto simp: PutManifest_def Let_def split: prod.splits)
  have wf: "art_wf ?d1" using assms(3) art_wf_tables [of ?d1 "od_db s"] by (simp add: tables_def)
  have "if length (de_digest de) < 7
    then reply = OciPanic \<and> (\<exists>rl. d_releases d3 = d_releases (od_db s) @ [rl] \<and> r_project_id rl = p_id p \<and> \<not> r_published rl)
    else reply = manifest_created p ?g \<and> BlobBelongsToProject (p_id p) key d3"
    using tag_unchecked [OF wf _ _ assms(10-13) _ _ _ tag] assms(4,5,17-19,21) by (auto simp: has_release_def split: if_splits)
  moreover have "pullable env p (''sha256:'' @ key) s'"
    if "validStorageKey key" "file_at (od_fs s) key \<noteq> None" "BlobBelongsToProject (p_id p) key d3"
  proof -
    have "step_ok env z s s'" using PutManifest_good [OF assms(1,2), of p lk now r reference] assms(20) by (simp add: good_def)
    then have "oci_inv env z s'" "file_at (od_fs s') key \<noteq> None" using that by (auto simp: step_ok_def kept_def)
    with that digest_key s' show ?thesis by (intro pullable_if) auto
  qed
  ultimately show ?thesis using s' digest_key by (auto simp: serveBlob_def)
qed

section \<open>Instances\<close>

definition demo_contents :: oci_state where
  "demo_contents = \<lparr>od_db = demo_art_db, od_fs = demo_art_fs, od_sessions = []\<rparr>"

definition demo_events :: "contents_event list" where
  "demo_events = [ApiEvent (OpUpload 9 None (new_project 1 ''web'' False) demo_rt (demo_put [] 3)),
     RegistryEvent (demo_luck, 9, empty_ctx, new_project 1 ''web'' False, demo_tag_route, demo_push [3]),
     ApiEvent (OpPublish 9 (new_project 1 ''web'' False) demo_rt)]"

lemma demo_contents_rows:
  "map a_kind (d_artifacts (od_db (foldl (contents_step demo_art_env demo_oci_env) demo_contents demo_events))) = [KindBinary, KindDocker]"
  "case GetArtifact 1 OSWasm ArchJS (od_db (foldl (contents_step demo_art_env demo_oci_env) demo_contents demo_events)) of
     Inl e \<Rightarrow> False | Inr a \<Rightarrow> a_kind a = KindBinary"
  by code_simp+

theorem resolved_artifact_typed_witness:
  "\<exists>a. GetArtifact 1 OSWasm ArchJS (od_db (foldl (contents_step demo_art_env demo_oci_env) demo_contents demo_events)) = Inr a
     \<and> a_kind a = KindBinary \<and> a_release_id a = 1 \<and> platform_typed KindBinary \<lparr>plat_os = OSWasm, plat_arch = ArchJS\<rparr>"
proof -
  obtain a where a: "GetArtifact 1 OSWasm ArchJS (od_db (foldl (contents_step demo_art_env demo_oci_env) demo_contents demo_events)) = Inr a"
    "a_kind a = KindBinary"
    using demo_contents_rows(2) by (auto split: sum.splits)
  have tables: "d_artifacts (od_db demo_contents) = []" "d_platforms (od_db demo_contents) = []" "release_ids_ok (od_db demo_contents)"
    using demo_art_wf by (simp_all add: demo_contents_def demo_art_db_def empty_db_def art_wf_def)
  have "KindBinary \<noteq> KindDocker" by code_simp
  with resolved_artifact_typed [OF tables refl, of 1 "\<lparr>plat_os = OSWasm, plat_arch = ArchJS\<rparr>" demo_art_env demo_oci_env demo_events a] a
  show ?thesis by simp
qed

text \<open>The two indexes of the registry's instance, pushed into the project \<open>evil\<close>.\<close>

definition demo_index_push :: "bytes \<Rightarrow> oci_state \<times> oci_reply" where
  "demo_index_push c = PutManifest demo_oci_env demo_luck 5 (new_project 1 ''evil'' False) (demo_push c) ''v1'' demo_oci_state"

lemma demo_index_premises:
  fixes c :: bytes and t :: string
  assumes "c = [1] \<and> t = ''x'' \<or> c = [2] \<and> t = ''foreign'' @ replicate 64 CHR ''a''"
  shows "oe_parse demo_oci_env (rd_bytes (oq_body (demo_push c))) = Some (demo_child t)" "\<not> validDigest t"
    "releaseForDigest 1 (digest_of (oe_hash demo_oci_env) (rd_bytes (oq_body (demo_push c)))) (od_db demo_oci_state) = 0"
    "rd_end (oq_body (demo_push c)) = IoEOF" "int (length (rd_bytes (oq_body (demo_push c)))) \<le> maxManifestSize"
  using assms
  by (auto simp: demo_oci_env_def demo_push_def validDigest_def has_prefix_def releaseForDigest_def DB_ListOCITags_def demo_oci_state_def
      empty_db_def find_first_def maxManifestSize_def)

lemma demo_index_state:
  "art_wf (od_db demo_oci_state)" "\<forall>a \<in> set (d_artifacts (od_db demo_oci_state)). has_release (a_release_id a) (od_db demo_oci_state)"
  "new_project 1 ''evil'' False \<in> set (d_projects (od_db demo_oci_state))" "lk_put demo_luck = None"
  "GetOCITag (p_id (new_project 1 ''evil'' False)) ''v1'' (od_db demo_oci_state) = Inl ErrNotFound"
  "GetRelease (p_id (new_project 1 ''evil'' False)) (format_int (NextVersionNum (p_id (new_project 1 ''evil'' False)) (od_db demo_oci_state))) (od_db demo_oci_state)
     = Inl ErrNotFound"
  by (simp_all add: demo_oci_state_def empty_db_def art_wf_def artifacts_inv_defs release_ids_ok_def demo_luck_def GetOCITag_def
      GetRelease_def GetReleaseByProjectAndVersion_def find_first_def)

theorem unchecked_child_digest_witness:
  "snd (demo_index_push [1]) = OciPanic
   \<and> pullable demo_oci_env (new_project 1 ''evil'' False) (''sha256:'' @ replicate 64 CHR ''a'') (fst (demo_index_push [2]))
   \<and> serveBlob demo_oci_env demo_luck (new_project 1 ''evil'' False) ''GET'' (''sha256:'' @ replicate 64 CHR ''a'') demo_oci_state
       = OciError 404 ''BLOB_UNKNOWN'' ''blob unknown to registry''"
proof -
  let ?p = "new_project 1 ''evil'' False" and ?a = "replicate 64 CHR ''a''"
  have p: "p_id ?p = 1" by (simp add: new_project_def)
  have plat: "''linux'' \<notin> {[], ''unknown''}" "''amd64'' \<noteq> ''unknown''" "''v1'' \<noteq> []" "\<not> validDigest ''v1''"
    by (simp_all add: validDigest_def has_prefix_def)
  have key: "validStorageKey ?a" "file_at (od_fs demo_oci_state) ?a \<noteq> None" "\<not> BlobBelongsToProject 1 ?a (od_db demo_oci_state)" by code_simp+
  have child: "pm_manifests (demo_child t) = [\<lparr>de_media_type = imageManifestType, de_digest = t, de_size = 1, de_platform = Some (''linux'', ''amd64'')\<rparr>]" for t
    by (simp add: demo_child_def)
  have run: "demo_index_push c = (fst (demo_index_push c), snd (demo_index_push c))" for c by simp
  note general = unchecked_child_digest [OF demo_codec demo_oci_inv demo_index_state(1-4)]
  have one: "snd (demo_index_push [1]) = OciPanic"
    using general [OF demo_index_premises(4,5,1) child _ plat(1,2) _ plat(3,4) demo_index_state(5) _ demo_index_state(6) run [unfolded demo_index_push_def] refl,
        of "[1]" "''x''"] demo_index_premises(2,3) [of "[1]" "''x''"] p by (simp add: demo_index_push_def)
  have two: "pullable demo_oci_env ?p (''sha256:'' @ ?a) (fst (demo_index_push [2]))
     \<and> serveBlob demo_oci_env demo_luck ?p ''GET'' (''sha256:'' @ ?a) demo_oci_state = OciError 404 ''BLOB_UNKNOWN'' ''blob unknown to registry''"
    using general [OF demo_index_premises(4,5,1) child _ plat(1,2) _ plat(3,4) demo_index_state(5) _ demo_index_state(6) run [unfolded demo_index_push_def] refl,
        of "[2]" "''foreign'' @ ?a"] demo_index_premises(2,3) [of "[2]" "''foreign'' @ ?a"] p key by (simp add: demo_index_push_def)
  from one two show ?thesis by blast
qed

end
