(* ===== verification/Spec2Isabelle.thy ===== *)
theory Spec2Isabelle
  imports Uploads Inventory Merge Ci_Api Release_Api Artifact_Api Upload_Client Downloads Contents
begin

text \<open>
  \<^bold>\<open>buildhost\<close> is a self-hosted package registry: a CI job publishes the artifacts of a release once
  and the server hands them out in many packagings. This library models the part of the Go program
  that decides what is stored, under which name, who may see or change it and when it is deleted, and
  proves that this part keeps its promises. Paths below are those of the repository under \<open>src/\<close>.

  \<^bold>\<open>The program.\<close> A request passes the credential middleware and the project gate (\<open>internal/auth\<close>),
  reaches a handler (\<open>internal/api\<close>, \<open>internal/uploads\<close>), which works on the SQLite database
  (\<open>internal/db\<close>) and on a content-addressed store of blobs (\<open>internal/storage\<close>). Large bodies
  arrive in an upload session first (\<open>internal/uploads\<close>, with its client \<open>internal/uploadclient\<close>), and
  a middleware puts the finished session in place of the body of the request that finalizes it. In the
  background a retention engine (\<open>internal/retention\<close>) forgets releases and frees blobs nothing refers
  to any more, and two janitors (\<open>internal/cicache\<close>, \<open>internal/runfiles\<close>) do so for the files and
  caches of CI runs. A download is resolved to a release and a platform (\<open>internal/dl\<close>) and redirected to
  the host that serves one artifact (\<open>internal/static\<close>), signed when the build is private; on the way a binary
  may be split into a stripped one and its debug file (\<open>internal/strip\<close>).

  \<^bold>\<open>Foundations.\<close>
  \<^item> \<open>Prelude\<close>: the parts of Go's \<open>strings\<close>, \<open>strconv\<close>, \<open>slices\<close> and \<open>net/url\<close> the code uses, written
    out on character lists; 64-bit wrap-around; the collections \<open>go_string\<close> and \<open>al_simps\<close>; and the two
    interfaces of state machines, \<open>guarded_system\<close> (an invariant, steps allowed by a guard) and its
    special case \<open>transition_system\<close>.
  \<^item> \<open>Db_Types\<close>: rows, platforms, kinds, scopes and tokens (\<open>db/models.go\<close>, \<open>db/types.go\<close>).
  \<^item> \<open>Go_IO\<close>: readers that deliver their bytes in any segments and end in end-of-file or a failure, the
    size-capped reader and \<open>io.Copy\<close>. \<open>Http\<close>: requests and responses as the handlers read them.
  \<^item> \<open>Database\<close>: the database as a record of tables, each the list of its rows in the order of
    insertion; the statements on projects and aliases. Unique keys, foreign keys and check constraints
    of the schema are branches of the statements; a transaction is all of its effect or none.

  \<^bold>\<open>Storing.\<close>
  \<^item> \<open>Storage\<close> (\<open>storage/filesystem.go\<close>): \<open>Put\<close>, \<open>Get\<close> and the other operations on a file system whose
    every stage may fail. Interface \<open>blob_store\<close>, discharged by \<open>fs_store\<close>: what was put is read back,
    nothing else changes. What a key gives is content with the digest it is named by, or the misreading
    of a raw blob that looks compressed, and no other.
  \<^item> \<open>Uploads\<close> (\<open>uploads/store.go\<close>, \<open>handlers.go\<close>, \<open>middleware.go\<close>): the session store with its heap of
    sessions, so that a handler may hold a session another one removed. Invariant over all
    interleavings; finalizing runs the endpoint on exactly the committed bytes.
  \<^item> \<open>Upload_Client\<close> (\<open>uploadclient/uploadclient.go\<close>): the client and the server together over a network
    that loses, cuts, delays and repeats requests. Safety for every network; refinement of the single
    undisturbed request for a network that disturbs at most three requests of eight, for every endpoint that
    does not look at how its body was brought; the upload handlers of \<open>Artifact_Api\<close> are shown to be such.
  \<^item> \<open>Elf_Strip\<close> (\<open>strip/elf.go\<close>, \<open>strip.go\<close>): the ELF splitter on 64-bit words. Both outputs parse again,
    and what was kept or removed is in them byte for byte.

  \<^bold>\<open>Projects and releases.\<close>
  \<^item> \<open>Visibility\<close> (\<open>db/visibility.go\<close>): modes and folder rules; the stored flag is always the one the
    rules resolve to.
  \<^item> \<open>Projects\<close> (\<open>db/projects.go\<close>, \<open>depends.go\<close>, \<open>aptdepends.go\<close>): names, aliases, renaming, dependency
    lists. Interface \<open>name_registry\<close>, discharged by \<open>registry\<close>: no name that led to a project is lost.
  \<^item> \<open>Releases\<close> (\<open>db/releases.go\<close>, \<open>version/resolve.go\<close>), \<open>Artifacts\<close> (\<open>db/artifacts.go\<close>,
    \<open>exeformat/exeformat.go\<close>), \<open>Merge\<close> (\<open>db/merge.go\<close>).
  \<^item> \<open>Release_Api\<close> (\<open>api/projects.go\<close>, \<open>depends.go\<close>, \<open>releases.go\<close>, \<open>handler.go\<close>): the handlers; the
    search for a dependency cycle with its termination and exactness; the retries of a publish that
    leaves the number to the server, while other publishes take it.
  \<^item> \<open>Artifact_Api\<close> (\<open>api/artifacts.go\<close>, \<open>artifacts_ape.go\<close>, \<open>publish.go\<close>): uploads and publishing; what
    was uploaded is what a platform gets, a published release never changes, and naming a blob the project
    does not hold tells nothing about who does.

  \<^bold>\<open>Access.\<close>
  \<^item> \<open>Oidc\<close> (\<open>auth/oidc.go\<close>, \<open>reserved.go\<close>, \<open>githubbranch.go\<close>): verifying tokens of CI runs and matching
    policies. \<open>Access\<close> (\<open>auth/token.go\<close>, \<open>auth.go\<close>, \<open>middleware.go\<close>): credentials of a request.
  \<^item> \<open>Project_Gate\<close> (\<open>auth/middleware.go\<close>, \<open>reponame.go\<close>, \<open>route.go\<close>, \<open>unauthorized.go\<close>,
    \<open>githubactor.go\<close>, \<open>githubuser.go\<close>): the gate of every project route. A write needs authority over the
    project, a private project is read only with a reason, and an identity that another repository is
    pinned to is refused.
  \<^item> \<open>Tokens\<close> (\<open>api/tokens.go\<close>, \<open>oidc.go\<close>, \<open>admin/tokens.go\<close>, \<open>db/tokens.go\<close>, \<open>oidc.go\<close>): stored tokens and
    policies. Scopes and the project of a token come from one credential, of a request or of an
    administrator; the namespace of a CI identity is not among what is kept, so that it obtains a token without it.

  \<^bold>\<open>Downloading.\<close>
  \<^item> \<open>Signed_Urls\<close> (\<open>auth/downloadtoken.go\<close>, \<open>static/static.go\<close>): query strings and base64 with their round
    trips, signed tokens and the addresses that carry them. A token opens exactly what it was minted for.
  \<^item> \<open>Downloads\<close> (\<open>dl/handler.go\<close>, \<open>static/handler.go\<close>, \<open>fmt_raw.go\<close>, \<open>api/downloadlinks.go\<close>,
    \<open>admin/downloadlinks.go\<close>): the redirect, the gate of the static host, what it serves, and temporary links,
    composed: who follows a signed address in time gets the bytes that were uploaded, or the stripped file.
  \<^item> \<open>Image\<close> (\<open>repackage/oci.go\<close>, \<open>shellembed.go\<close>, \<open>apeelf.go\<close>): layers as lists of tar entries, the documents of an
    image, and the header a portable executable is staged with. \<open>Oci\<close> (\<open>oci/*.go\<close>, \<open>db/oci.go\<close>,
    \<open>repackage/generate.go\<close>): the registry, whose requests push blobs in sessions and manifests under tags, and
    pull them; a release of binaries is made into an image on the spot. \<open>Oci_Laws\<close>: a digest the server
    acknowledged can be pulled from then on, and an image made from binaries is served whole.
  \<^item> \<open>Contents\<close>: the artifact API and the registry on the same tables. What a platform resolves to is typed
    whichever of them recorded it; what a push does whose index names a child by something that is no digest.

  \<^bold>\<open>Forgetting.\<close>
  \<^item> \<open>Evict\<close> (\<open>db/retention.go\<close>), \<open>Retention\<close> (\<open>retention/retention.go\<close>, \<open>sweep.go\<close>,
    \<open>deletedbranches.go\<close>), \<open>Inventory\<close> (\<open>retention/inventory.go\<close>): which releases may go, the run that
    deletes them and frees blobs, and the listing that explains it. No run deletes a blob something still
    refers to; a dry run predicts the enforced one; the newest release of a branch survives.
  \<^item> \<open>Ci_Tables\<close> (\<open>db/run_locks.go\<close>, \<open>run_files.go\<close>, \<open>cache_entries.go\<close>), \<open>Ci_Janitors\<close>
    (\<open>cicache/janitor.go\<close>, \<open>runfiles/janitor.go\<close>, \<open>diskusage/diskusage.go\<close>), \<open>Ci_Api\<close>
    (\<open>api/runlocks.go\<close>, \<open>runfiles.go\<close>, \<open>cache.go\<close>, \<open>serveblob.go\<close>): what the jobs of one CI run leave for
    each other; all agree on the holder of a lock, and a run that is live as far as GitHub tells keeps its
    files as long as its row is younger than 35 days.

  \<^bold>\<open>Interfaces.\<close> \<open>guarded_system\<close> is interpreted as \<open>storage\<close>, \<open>filed\<close>, \<open>visibility\<close>, \<open>ci\<close>, \<open>handoff\<close> and \<open>oci\<close>,
  \<open>transition_system\<close> (a sublocale of it) as \<open>uploads\<close>, \<open>uploads_cap\<close>, \<open>artifacts\<close>, \<open>published\<close>,
  \<open>contents\<close> and \<open>tokens\<close>: each gives its invariant for every sequence of operations. \<open>blob_store\<close> and \<open>name_registry\<close> are the contracts
  of the blob store and of the names of projects, with their interpretations \<open>fs_store\<close> and \<open>registry\<close>.

  \<^bold>\<open>Termination and fuel.\<close> No definition has fuel. Loops over data are structural or have a measure
  (\<open>io.Copy\<close>: the bytes the reader still has; the cycle search: the names not seen yet). Two loops need
  not end and are partial functions with value \<open>None\<close> then: \<open>create_retry\<close>, proved to end when finitely
  many other requests interfere on an automatically numbered project, and \<open>sendChunks\<close>, proved to end in a calm network.

  \<^bold>\<open>Parameters.\<close> Code that is not in the repository is an argument, with what is relied on as named
  hypotheses: zstd (decoding what was encoded), tar and JSON writers, SHA-256 and its keyed form (no collision among the contents at hand), the
  keys and answers of GitHub and other issuers, the file system's room and failures, the clock, random
  ids, the network, and the validators generated from regular expressions. Every property that has such
  a hypothesis has a witness in which the argument is a concrete function.

  \<^bold>\<open>Findings.\<close> Where the code does not do what its comments say, the property states what it does:
  a raw blob that looks compressed, a download that pins a release, a refused token that has already made
  the project public, a section table that makes the splitter panic, a
  file name of two dots, a CI identity that stores itself a token for every project, a download of a
  portable executable that delivers another file, an image index that makes a foreign blob one's own.

  \<^bold>\<open>Not modelled.\<close> The other package formats (\<open>brew\<close>, \<open>apt\<close>, \<open>npm\<close>, \<open>goproxy\<close>, the rest of \<open>repackage\<close>,
  \<open>binarchive\<close>) render bytes of foreign formats from rows the theories above already
  describe, mostly through third-party writers; \<open>sites\<close> unpacks archives with such readers; \<open>mirror\<close> and
  \<open>ociclient\<close> talk to other registries; \<open>web\<close> and the rest of \<open>admin\<close> are templates and listings around the
  operations above; \<open>config\<close>, \<open>server\<close>, \<open>telemetry\<close>, \<open>cmd\<close> wire and start the program. Of \<open>auth\<close>, the
  browser sign-in, its sessions and the key cache are left out: they are exchanges with GitHub. Errors of
  SQLite itself (a full disk, a busy database) are not modelled: statements fail only by constraint.
\<close>

end
